(* ===== verification/UTF_Prelude.thy ===== *)
theory UTF_Prelude
  imports Main "HOL-Library.Word"
begin

unbundle bit_operations_syntax

text \<open>
  Shared vocabulary of the development: the fixed-width integer types of the C code,
  the outcome of a C function (it may not return, it may abort the process, it may
  return a value), pointers that may be NULL, and the generic lemmas on lists, words
  and little-endian byte strings that several components use.
\<close>

section \<open>C integers and pointers\<close>

type_synonym u8 = "8 word"
type_synonym u16 = "16 word"
type_synonym u32 = "32 word"
type_synonym u64 = "64 word"

text \<open>A pointer into a table is an index of the table, NULL is \<open>None\<close>.\<close>

type_synonym 'p ptr = "'p option"

section \<open>Outcomes\<close>

text \<open>
  \<open>None\<close>: the call does not return. \<open>Some (Inl f)\<close>: the process is terminated
  by \<open>abort()\<close>, by a failed \<open>assert\<close>, or runs into undefined behaviour (NULL is
  dereferenced, an array is indexed out of its bounds, \<open>free\<close> gets an address \<open>malloc\<close> did not return). \<open>Some (Inr x)\<close>: the call
  returns \<open>x\<close>.
\<close>

datatype fault = Aborted | AssertFailed | NullDeref | OutOfBounds | InvalidFree

type_synonym 'a outcome = "(fault + 'a) option"

definition ret :: "'a \<Rightarrow> 'a outcome" where
  "ret x = Some (Inr x)"

definition crash :: "fault \<Rightarrow> 'a outcome" where
  "crash f = Some (Inl f)"

definition bindO :: "'a outcome \<Rightarrow> ('a \<Rightarrow> 'b outcome) \<Rightarrow> 'b outcome" where
  "bindO m k = (case m of None \<Rightarrow> None | Some (Inl f) \<Rightarrow> Some (Inl f) | Some (Inr x) \<Rightarrow> k x)"

named_theorems outcome_simps \<open>evaluation of sequenced outcomes\<close>

lemma bindO_ret [simp, outcome_simps]: "bindO (ret x) k = k x"
  by (simp add: bindO_def ret_def)

lemma bindO_crash [simp, outcome_simps]: "bindO (crash f) k = crash f"
  by (simp add: bindO_def crash_def)

lemma bindO_None [simp, outcome_simps]: "bindO None k = None"
  by (simp add: bindO_def)

lemma ret_inject [simp, outcome_simps]: "ret x = ret y \<longleftrightarrow> x = y"
  by (simp add: ret_def)

lemma ret_neq_crash [simp, outcome_simps]: "ret x \<noteq> crash f" "crash f \<noteq> ret x"
  by (simp_all add: ret_def crash_def)

lemma crash_inject [simp, outcome_simps]: "crash f = crash g \<longleftrightarrow> f = g"
  by (simp add: crash_def)

lemma ret_neq_None [simp, outcome_simps]: "ret x \<noteq> None" "None \<noteq> ret x"
  by (simp_all add: ret_def)

lemma crash_neq_None [simp, outcome_simps]: "crash f \<noteq> None" "None \<noteq> crash f"
  by (simp_all add: crash_def)

lemma outcome_cases [case_names hang crash ret]:
  obtains "m = None" | f where "m = crash f" | x where "m = ret x"
  by (cases m) (auto simp: crash_def ret_def split: sum.splits intro: that, metis sum.exhaust)

lemma bindO_eq_ret:
  "bindO m k = ret y \<longleftrightarrow> (\<exists>x. m = ret x \<and> k x = ret y)"
  by (auto simp: bindO_def ret_def split: option.splits sum.splits)

lemma bindO_assoc: "bindO (bindO m k) l = bindO m (\<lambda>x. bindO (k x) l)"
  by (auto simp: bindO_def split: option.splits sum.splits)


section \<open>Little-endian byte strings\<close>

text \<open>
  The machines of the library (A64FX, x86-64) are little-endian: the first byte of an
  integer in memory is its least significant one.
\<close>

fun le_nat :: "u8 list \<Rightarrow> nat" where
  "le_nat [] = 0"
| "le_nat (b # bs) = unat b + 256 * le_nat bs"

fun le_bytes :: "nat \<Rightarrow> nat \<Rightarrow> u8 list" where
  "le_bytes 0 v = []"
| "le_bytes (Suc n) v = word_of_nat (v mod 256) # le_bytes n (v div 256)"

lemma length_le_bytes [simp]: "length (le_bytes n v) = n"
  by (induction n arbitrary: v) auto

lemma word_of_unat: "unat w = n \<Longrightarrow> w = word_of_nat n"
  by auto

lemma unat_ucast_up:
  assumes "LENGTH('a::len) \<le> LENGTH('b::len)"
  shows "unat (ucast (w :: 'a word) :: 'b word) = unat w"
proof -
  have "unat w < 2 ^ LENGTH('a)" by simp
  also have "\<dots> \<le> 2 ^ LENGTH('b)" using assms by (intro power_increasing) auto
  finally show ?thesis by (simp add: unsigned_ucast_eq take_bit_nat_eq_self)
qed

lemma unat_u8_lt [simp]: "unat (b :: u8) < 256"
  using unsigned_less [of b, where 'a = nat] by simp

lemma le_nat_lt: "le_nat bs < 256 ^ length bs"
proof (induction bs)
  case (Cons b bs)
  have "unat b + 256 * le_nat bs < 256 * Suc (le_nat bs)" by simp
  also have "\<dots> \<le> 256 * 256 ^ length bs" using Cons by (intro mult_le_mono) auto
  finally show ?case by simp
qed simp

lemma le_nat_le_bytes: "le_nat (le_bytes n v) = v mod 256 ^ n"
proof (induction n arbitrary: v)
  case (Suc n)
  have "unat (word_of_nat (v mod 256) :: u8) = v mod 256"
    by (simp add: unat_of_nat)
  then show ?case by (simp add: Suc mod_mult2_eq)
qed simp

lemma le_bytes_le_nat: "le_bytes (length bs) (le_nat bs) = bs"
proof (induction bs)
  case (Cons b bs)
  have "(unat b + 256 * le_nat bs) mod 256 = unat b" "(unat b + 256 * le_nat bs) div 256 = le_nat bs"
    by simp_all
  with Cons show ?case by simp
qed simp

lemma le_nat_append: "le_nat (xs @ ys) = le_nat xs + 256 ^ length xs * le_nat ys"
  by (induction xs) (simp_all add: algebra_simps)

lemma le_nat_inject: "length xs = length ys \<Longrightarrow> le_nat xs = le_nat ys \<Longrightarrow> xs = ys"
  by (metis le_bytes_le_nat)

section \<open>Copying into a byte buffer\<close>

text \<open>\<open>memcpy(m + off, bs, length bs)\<close>, for a range inside \<open>m\<close>.\<close>

definition overwrite :: "'a list \<Rightarrow> nat \<Rightarrow> 'a list \<Rightarrow> 'a list" where
  "overwrite m off bs = take off m @ bs @ drop (off + length bs) m"

definition bytes_at :: "'a list \<Rightarrow> nat \<Rightarrow> nat \<Rightarrow> 'a list" where
  "bytes_at m off n = take n (drop off m)"

lemma length_overwrite [simp]: "off + length bs \<le> length m \<Longrightarrow> length (overwrite m off bs) = length m"
  by (simp add: overwrite_def)

lemma bytes_at_overwrite_same [simp]:
  "off + length bs \<le> length m \<Longrightarrow> n = length bs \<Longrightarrow> bytes_at (overwrite m off bs) off n = bs"
  by (simp add: bytes_at_def overwrite_def)

lemma nth_overwrite:
  "off + length bs \<le> length m \<Longrightarrow> k < length m \<Longrightarrow>
   overwrite m off bs ! k = (if off \<le> k \<and> k < off + length bs then bs ! (k - off) else m ! k)"
  by (auto simp: overwrite_def nth_append)

lemma overwrite_Nil [simp]: "overwrite m off [] = m"
  by (simp add: overwrite_def)

lemma length_bytes_at [simp]: "off + n \<le> length m \<Longrightarrow> length (bytes_at m off n) = n"
  by (simp add: bytes_at_def)

lemma nth_bytes_at: "off + n \<le> length m \<Longrightarrow> k < n \<Longrightarrow> bytes_at m off n ! k = m ! (off + k)"
  by (simp add: bytes_at_def)

lemma bytes_at_overwrite_disjoint:
  assumes "off + length bs \<le> length m" "o2 + n \<le> length m"
    and "o2 + n \<le> off \<or> off + length bs \<le> o2"
  shows "bytes_at (overwrite m off bs) o2 n = bytes_at m o2 n"
  using assms by (intro nth_equalityI) (auto simp: nth_bytes_at nth_overwrite)

text \<open>Two adjacent copies are one copy of the concatenation.\<close>

lemma overwrite_adjacent:
  assumes "off + length xs + length ys \<le> length m"
  shows "overwrite (overwrite m off xs) (off + length xs) ys = overwrite m off (xs @ ys)"
  using assms by (intro nth_equalityI) (auto simp: nth_overwrite nth_append)

end
