(* ===== verification/Utf_List.thy ===== *)
theory Utf_List
  imports UTF_Prelude
begin

text \<open>
  The intrusive lists of \<open>src/src/include/utf_list.h\<close>. The \<open>next\<close> (and \<open>prev\<close>)
  fields of all entries of one kind are a store from entries to pointers; a list header
  is a record of its \<open>head\<close> and \<open>tail\<close> pointers, as in the C struct. Every operation
  takes the store and the header and returns both updated, so that aliasing of entries
  between lists is visible. The second half gives the abstraction to HOL lists and the
  interface locale through which the other components use the lists.
\<close>

section \<open>Singly linked lists\<close>

type_synonym 'p links = "'p \<Rightarrow> 'p ptr"

record 'p utfslist =
  head :: "'p ptr"
  tail :: "'p ptr"

definition utfslist_init :: "'p utfslist \<Rightarrow> 'p ptr \<Rightarrow> 'p utfslist" where
  "utfslist_init lst ent = lst\<lparr>head := ent, tail := ent\<rparr>"

text \<open>Appending returns the store, the header and the old head.\<close>

definition utfslist_append ::
  "'p links \<Rightarrow> 'p utfslist \<Rightarrow> 'p \<Rightarrow> 'p links \<times> 'p utfslist \<times> 'p ptr" where
  "utfslist_append h lst ent =
     (let ohead = head lst;
          (h1, lst1) = (case tail lst of
                          Some t \<Rightarrow> (h(t := Some ent), lst)
                        | None \<Rightarrow> (h, lst\<lparr>head := Some ent\<rparr>));
          lst2 = lst1\<lparr>tail := Some ent\<rparr>
      in (h1(ent := None), lst2, ohead))"

definition utfslist_insert ::
  "'p links \<Rightarrow> 'p utfslist \<Rightarrow> 'p \<Rightarrow> 'p links \<times> 'p utfslist" where
  "utfslist_insert h lst ent =
     (let (h1, lst1) = (case head lst of
                          Some p \<Rightarrow> (h(ent := Some p), lst)
                        | None \<Rightarrow> (h(ent := None), lst\<lparr>tail := Some ent\<rparr>))
      in (h1, lst1\<lparr>head := Some ent\<rparr>))"

text \<open>
  \<open>utfslist_insert2\<close> works on two sentinel entries whose \<open>next\<close> fields play the roles
  of head and tail. Its second branch dereferences \<open>tail->next\<close>, which is not NULL there.
\<close>

definition utfslist_insert2 :: "'p links \<Rightarrow> 'p \<Rightarrow> 'p \<Rightarrow> 'p \<Rightarrow> 'p links" where
  "utfslist_insert2 h hd_ent tl_ent ent =
     (let h0 = h(ent := None)
      in case h0 hd_ent of
           Some _ \<Rightarrow> (case h0 tl_ent of
                        Some t \<Rightarrow> h0(t := Some ent)
                      | None \<Rightarrow> h0(tl_ent := Some ent))
         | None \<Rightarrow> h0(tl_ent := Some ent, hd_ent := Some ent))"

text \<open>Removing the first entry; \<open>ent->next\<close> is read only when the list is not empty.\<close>

definition utfslist_remove ::
  "'p links \<Rightarrow> 'p utfslist \<Rightarrow> ('p links \<times> 'p utfslist \<times> 'p ptr) outcome" where
  "utfslist_remove h lst =
     (let ent = head lst
      in bindO (if head lst = tail lst then ret (utfslist_init lst None)
                else case ent of None \<Rightarrow> crash NullDeref
                     | Some e \<Rightarrow> ret (lst\<lparr>head := h e\<rparr>))
           (\<lambda>lst1. ret (case ent of Some e \<Rightarrow> h(e := None) | None \<Rightarrow> h, lst1, ent)))"

text \<open>Removing an inner entry \<open>cur\<close> whose predecessor is \<open>prev\<close>; returns \<open>cur->next\<close>.\<close>

definition utfslist_remove2 ::
  "'p links \<Rightarrow> 'p utfslist \<Rightarrow> 'p \<Rightarrow> 'p ptr \<Rightarrow> 'p links \<times> 'p utfslist \<times> 'p ptr" where
  "utfslist_remove2 h lst cur prev =
     (let lst1 = (if head lst = Some cur
                  then (let l = lst\<lparr>head := h cur\<rparr>
                        in if head l = None then l\<lparr>tail := None\<rparr> else l)
                  else if tail lst = Some cur then lst\<lparr>tail := prev\<rparr>
                  else lst);
          h1 = (case prev of Some p \<Rightarrow> h(p := h cur) | None \<Rightarrow> h)
      in (h1, lst1, h1 cur))"

text \<open>The initialisation loops of the pools append the entries of a table one after another.\<close>

fun utfslist_append_all :: "'p links \<Rightarrow> 'p utfslist \<Rightarrow> 'p list \<Rightarrow> 'p links \<times> 'p utfslist" where
  "utfslist_append_all h lst [] = (h, lst)"
| "utfslist_append_all h lst (e # es) =
     (let (h', lst', _) = utfslist_append h lst e in utfslist_append_all h' lst' es)"

definition utfslist_isnull :: "'p utfslist \<Rightarrow> bool" where
  "utfslist_isnull lst \<longleftrightarrow> head lst = None"

text \<open>
  \<open>utfslist_next\<close> is compiled only under \<open>USE_UTFSLIST_NEXT\<close>.
\<close>

definition utfslist_next :: "'p links \<Rightarrow> 'p utfslist \<Rightarrow> 'p ptr" where
  "utfslist_next h lst = (case head lst of Some p \<Rightarrow> h p | None \<Rightarrow> None)"

text \<open>
  The loop \<open>utfslist_foreach2\<close> with a body that leaves the loop at the first entry
  satisfying \<open>P\<close>: the result is that entry and its predecessor. On a cyclic chain with
  no such entry the loop does not end.
\<close>

partial_function (option) utfslist_foreach2 ::
  "'p links \<Rightarrow> ('p \<Rightarrow> bool) \<Rightarrow> 'p ptr \<Rightarrow> 'p ptr \<Rightarrow> ('p \<times> 'p ptr) option option" where
  "utfslist_foreach2 h P cur prev =
     (case cur of
        None \<Rightarrow> Some None
      | Some c \<Rightarrow> if P c then Some (Some (c, prev))
                  else utfslist_foreach2 h P (h c) (Some c))"

section \<open>Doubly linked lists\<close>

record 'p dlinks =
  dnext :: "'p \<Rightarrow> 'p"
  dprev :: "'p \<Rightarrow> 'p"

definition utfdlist_init :: "'p dlinks \<Rightarrow> 'p \<Rightarrow> 'p dlinks" where
  "utfdlist_init d lst = d\<lparr>dnext := (dnext d)(lst := lst), dprev := (dprev d)(lst := lst)\<rparr>"

definition utfdlist_insert :: "'p dlinks \<Rightarrow> 'p \<Rightarrow> 'p \<Rightarrow> 'p dlinks" where
  "utfdlist_insert d hd_ent ent =
     (let d1 = d\<lparr>dnext := (dnext d)(ent := dnext d hd_ent)\<rparr>;
          d2 = d1\<lparr>dprev := (dprev d1)(ent := hd_ent)\<rparr>;
          d3 = d2\<lparr>dprev := (dprev d2)(dnext d2 hd_ent := ent)\<rparr>
      in d3\<lparr>dnext := (dnext d3)(hd_ent := ent)\<rparr>)"

definition utfdlist_remove :: "'p dlinks \<Rightarrow> 'p \<Rightarrow> 'p dlinks" where
  "utfdlist_remove d ent =
     (let d1 = d\<lparr>dnext := (dnext d)(dprev d ent := dnext d ent)\<rparr>
      in d1\<lparr>dprev := (dprev d1)(dnext d1 ent := dprev d1 ent)\<rparr>)"

definition utfdlist_get :: "'p dlinks \<Rightarrow> 'p \<Rightarrow> 'p dlinks \<times> 'p ptr" where
  "utfdlist_get d hd_ent =
     (if hd_ent = dnext d hd_ent then (d, None)
      else let dp = dnext d hd_ent in (utfdlist_remove d dp, Some dp))"


section \<open>The abstraction to HOL lists\<close>

text \<open>\<open>chain h p xs\<close>: following \<open>next\<close> from \<open>p\<close> visits exactly \<open>xs\<close> and ends in NULL.\<close>

fun chain :: "'p links \<Rightarrow> 'p ptr \<Rightarrow> 'p list \<Rightarrow> bool" where
  "chain h p [] \<longleftrightarrow> p = None"
| "chain h p (x # xs) \<longleftrightarrow> p = Some x \<and> chain h (h x) xs"

definition last_ptr :: "'p list \<Rightarrow> 'p ptr \<Rightarrow> 'p ptr" where
  "last_ptr xs p = (if xs = [] then p else Some (last xs))"

definition slist :: "'p links \<Rightarrow> 'p utfslist \<Rightarrow> 'p list \<Rightarrow> bool" where
  "slist h lst xs \<longleftrightarrow> chain h (head lst) xs \<and> tail lst = last_ptr xs None"

lemma last_ptr_simps [simp]:
  "last_ptr [] p = p" "last_ptr (xs @ [x]) p = Some x"
  "last_ptr (x # xs) p = last_ptr xs (Some x)"
  by (simp_all add: last_ptr_def)

lemma last_ptr_Some [simp]: "last_ptr xs (Some x) \<noteq> None"
  by (simp add: last_ptr_def)

lemma last_ptr_None_iff [simp]: "last_ptr xs None = None \<longleftrightarrow> xs = []"
  by (simp add: last_ptr_def)

lemma chain_cong: "(\<And>x. x \<in> set xs \<Longrightarrow> h' x = h x) \<Longrightarrow> chain h' p xs = chain h p xs"
  by (induction xs arbitrary: p) auto

lemma chain_upd [simp]: "x \<notin> set xs \<Longrightarrow> chain (h(x := q)) p xs = chain h p xs"
  by (rule chain_cong) auto

lemma chain_unique: "chain h p xs \<Longrightarrow> chain h p ys \<Longrightarrow> xs = ys"
proof (induction xs arbitrary: p ys)
  case Nil
  then show ?case by (cases ys) auto
next
  case (Cons x xs)
  then show ?case by (cases ys) auto
qed

lemma chain_split: "chain h p (xs @ ys) \<Longrightarrow> \<exists>q. chain h q ys \<and> (xs = [] \<longrightarrow> q = p) \<and> (xs \<noteq> [] \<longrightarrow> q = h (last xs))"
  by (induction xs arbitrary: p) auto

lemma chain_distinct: "chain h p xs \<Longrightarrow> distinct xs"
proof (induction xs arbitrary: p)
  case (Cons x xs)
  then have c: "chain h (h x) xs" by simp
  have "x \<notin> set xs"
  proof
    assume "x \<in> set xs"
    then obtain as bs where "xs = as @ x # bs" by (auto simp: in_set_conv_decomp)
    with c chain_split [of h "h x" as "x # bs"] have "chain h (h x) bs" by auto
    with c have "xs = bs" by (rule chain_unique)
    with \<open>xs = as @ x # bs\<close> show False by simp
  qed
  with Cons c show ?case by auto
qed simp

lemma chain_snoc:
  "chain h p xs \<Longrightarrow> e \<notin> set xs \<Longrightarrow> xs \<noteq> [] \<Longrightarrow> chain (h(last xs := Some e, e := None)) p (xs @ [e])"
proof (induction xs arbitrary: p)
  case (Cons x xs)
  show ?case
  proof (cases "xs = []")
    case False
    have "x \<notin> set xs" "last xs \<in> set xs"
      using Cons.prems(1) chain_distinct False by fastforce+
    with False Cons show ?thesis by auto
  qed (use Cons in auto)
qed simp

lemma slist_distinct: "slist h lst xs \<Longrightarrow> distinct xs"
  by (auto simp: slist_def intro: chain_distinct)

lemma slist_unique: "slist h lst xs \<Longrightarrow> slist h lst ys \<Longrightarrow> xs = ys"
  by (auto simp: slist_def intro: chain_unique)

lemma slist_frame:
  "slist h lst ys \<Longrightarrow> (\<And>x. x \<in> set ys \<Longrightarrow> h' x = h x) \<Longrightarrow> slist h' lst ys"
  by (auto simp: slist_def cong: chain_cong)

lemma slist_isnull: "slist h lst xs \<Longrightarrow> utfslist_isnull lst \<longleftrightarrow> xs = []"
  by (cases xs) (auto simp: slist_def utfslist_isnull_def)

lemma slist_init: "slist h (utfslist_init lst None) []"
  by (simp add: slist_def utfslist_init_def)

lemma slist_append:
  assumes "slist h lst xs" and "e \<notin> set xs" and "utfslist_append h lst e = (h', lst', o')"
  shows "slist h' lst' (xs @ [e])"
    and "x \<notin> set xs \<Longrightarrow> x \<noteq> e \<Longrightarrow> h' x = h x"
    and "o' = head lst"
  using assms chain_snoc [of h "head lst" xs e]
  by (auto simp: slist_def utfslist_append_def last_ptr_def split: if_splits)

lemma slist_insert:
  assumes "slist h lst xs" and "e \<notin> set xs" and "utfslist_insert h lst e = (h', lst')"
  shows "slist h' lst' (e # xs)"
    and "x \<noteq> e \<Longrightarrow> h' x = h x"
  using assms
  by (cases xs; auto simp: slist_def utfslist_insert_def last_ptr_def split: if_splits)+

lemma slist_remove_Nil:
  "slist h lst [] \<Longrightarrow> utfslist_remove h lst = ret (h, lst, None)"
  by (simp add: slist_def utfslist_remove_def utfslist_init_def)

lemma slist_remove_Cons:
  assumes "slist h lst (x # xs)"
  obtains h' lst' where "utfslist_remove h lst = ret (h', lst', Some x)"
    and "slist h' lst' xs" and "\<And>y. y \<noteq> x \<Longrightarrow> h' y = h y"
proof -
  have d: "x \<notin> set xs" using slist_distinct [OF assms] by simp
  show ?thesis
  proof (cases xs)
    case Nil
    with assms show ?thesis
      by (intro that [of "h(x := None)" "utfslist_init lst None"])
        (auto simp: slist_def utfslist_remove_def utfslist_init_def)
  next
    case (Cons y ys)
    with d have "x \<noteq> last xs" by auto
    with assms d Cons show ?thesis
      by (intro that [of "h(x := None)" "lst\<lparr>head := h x\<rparr>"])
        (auto simp: slist_def utfslist_remove_def last_ptr_def)
  qed
qed

lemma chain_remove_inner:
  "chain h p (as @ c # bs) \<Longrightarrow> as \<noteq> [] \<Longrightarrow> chain (h(last as := h c)) p (as @ bs)"
proof (induction as arbitrary: p)
  case (Cons a as)
  have d: "distinct (a # as @ c # bs)" using chain_distinct [OF Cons.prems(1)] by simp
  show ?case
  proof (cases "as = []")
    case True
    with Cons.prems have "chain h (h c) bs" "p = Some a" by auto
    with d True show ?thesis by (simp add: chain_upd del: fun_upd_apply) simp
  next
    case False
    then have "last as \<in> set as" by simp
    with d have "a \<noteq> last as" by auto
    with Cons False show ?thesis by auto
  qed
qed simp

lemma slist_remove2:
  assumes s: "slist h lst (as @ c # bs)" and r: "utfslist_remove2 h lst c (last_ptr as None) = (h', lst', n)"
  shows "slist h' lst' (as @ bs)" and "x \<notin> set as \<Longrightarrow> h' x = h x"
proof -
  have ch: "chain h (head lst) (as @ c # bs)" and tl: "tail lst = last_ptr (as @ c # bs) None"
    using s by (auto simp: slist_def)
  have d: "distinct (as @ c # bs)" using ch by (rule chain_distinct)
  have hb: "chain h (h c) bs" using chain_split [OF ch] by auto
  show "slist h' lst' (as @ bs)"
  proof (cases as)
    case Nil
    with ch tl r hb show ?thesis
      by (cases bs) (auto simp: slist_def utfslist_remove2_def last_ptr_def split: if_splits)
  next
    case (Cons a as')
    then have ne: "as \<noteq> []" and hd: "head lst = Some a" "a \<noteq> c" using ch d by auto
    have "tail lst = Some c \<longleftrightarrow> bs = []"
      using tl d by (auto simp: last_ptr_def)
    moreover have "chain (h(last as := h c)) (head lst) (as @ bs)"
      using ch ne by (rule chain_remove_inner)
    ultimately show ?thesis
      using r hd ne tl by (auto simp: slist_def utfslist_remove2_def last_ptr_def)
  qed
  show "x \<notin> set as \<Longrightarrow> h' x = h x"
    using r by (auto simp: utfslist_remove2_def last_ptr_def Let_def split: if_splits)
qed

text \<open>The search loop ends on a chain and finds the first entry that satisfies the test.\<close>

lemma foreach2_chain:
  assumes "chain h p xs"
  shows "utfslist_foreach2 h P p q =
    Some (case dropWhile (\<lambda>x. \<not> P x) xs of [] \<Rightarrow> None
          | c # _ \<Rightarrow> Some (c, last_ptr (takeWhile (\<lambda>x. \<not> P x) xs) q))"
  using assms
proof (induction xs arbitrary: p q)
  case Nil
  then show ?case by (simp add: utfslist_foreach2.simps)
next
  case (Cons x xs)
  then show ?case
    by (cases "P x"; cases "dropWhile (\<lambda>x. \<not> P x) xs")
      (simp_all add: utfslist_foreach2.simps [of h P "Some x" q] del: dropWhile_eq_Nil_conv)
qed


lemma slist_append_all:
  "slist h lst xs \<Longrightarrow> distinct (xs @ es) \<Longrightarrow> utfslist_append_all h lst es = (h', lst') \<Longrightarrow>
   slist h' lst' (xs @ es)"
proof (induction es arbitrary: h lst xs)
  case (Cons e es)
  obtain h1 l1 o1 where a: "utfslist_append h lst e = (h1, l1, o1)" by (cases "utfslist_append h lst e") auto
  have "slist h1 l1 (xs @ [e])" using slist_append(1) [OF Cons.prems(1) _ a] Cons.prems(2) by simp
  from Cons.IH [OF this] Cons.prems a show ?case by simp
qed simp

section \<open>The abstraction of doubly linked lists\<close>

text \<open>\<open>dseg d a xs b\<close>: between \<open>a\<close> and \<open>b\<close> both directions of the links visit \<open>xs\<close>.\<close>

fun dseg :: "'p dlinks \<Rightarrow> 'p \<Rightarrow> 'p list \<Rightarrow> 'p \<Rightarrow> bool" where
  "dseg d a [] b \<longleftrightarrow> dnext d a = b \<and> dprev d b = a"
| "dseg d a (x # xs) b \<longleftrightarrow> dnext d a = x \<and> dprev d x = a \<and> dseg d x xs b"

text \<open>A list with sentinel \<open>c\<close> and entries \<open>xs\<close>.\<close>

definition dlist :: "'p dlinks \<Rightarrow> 'p \<Rightarrow> 'p list \<Rightarrow> bool" where
  "dlist d c xs \<longleftrightarrow> distinct (c # xs) \<and> dseg d c xs c"

lemma dseg_append:
  "dseg d a (xs @ y # ys) b \<longleftrightarrow> dseg d a xs y \<and> dseg d y ys b"
  by (induction xs arbitrary: a) auto

lemma dseg_cong:
  "(\<And>x. x \<in> set (a # xs) \<Longrightarrow> dnext d' x = dnext d x) \<Longrightarrow>
   (\<And>x. x \<in> set (b # xs) \<Longrightarrow> dprev d' x = dprev d x) \<Longrightarrow> dseg d' a xs b = dseg d a xs b"
  by (induction xs arbitrary: a) auto

lemma dlist_init: "dlist (utfdlist_init d c) c []"
  by (simp add: dlist_def utfdlist_init_def)

lemma dlist_insert:
  assumes "dlist d c xs" and "e \<notin> set (c # xs)"
  shows "dlist (utfdlist_insert d c e) c (e # xs)"
proof (cases xs)
  case Nil
  with assms show ?thesis by (auto simp: dlist_def utfdlist_insert_def)
next
  case (Cons x ys)
  let ?d = "utfdlist_insert d c e"
  have "dseg ?d x ys c = dseg d x ys c"
    using assms Cons by (intro dseg_cong) (auto simp: dlist_def utfdlist_insert_def)
  with assms Cons show ?thesis by (auto simp: dlist_def utfdlist_insert_def)
qed

lemma dseg_first: "dseg d a xs b \<Longrightarrow> dnext d a = hd (xs @ [b])"
  by (cases xs) auto

lemma dseg_last: "dseg d a xs b \<Longrightarrow> dprev d b = last (a # xs)"
  by (induction xs arbitrary: a) auto

lemma dlist_remove:
  assumes "dlist d c (as @ e # bs)"
  shows "dlist (utfdlist_remove d e) c (as @ bs)"
proof -
  let ?l = "last (c # as)" and ?n = "hd (bs @ [c])"
  let ?d = "utfdlist_remove d e"
  have dist: "distinct (c # as @ e # bs)" and sa: "dseg d c as e" and sb: "dseg d e bs c"
    using assms by (auto simp: dlist_def dseg_append)
  have l: "dprev d e = ?l" and n: "dnext d e = ?n"
    using dseg_last [OF sa] dseg_first [OF sb] by auto
  have "?l \<in> set (c # as)" by (rule last_in_set) simp
  with dist have le: "?l \<noteq> e" by auto
  have nx: "dnext ?d = (dnext d)(?l := ?n)" and pv: "dprev ?d = (dprev d)(?n := ?l)"
    using le by (simp_all add: utfdlist_remove_def l n)
  have left: "dseg ?d c as y" if "y = ?n" "y \<notin> set as" for y
  proof (cases as rule: rev_cases)
    case Nil
    with sa that nx pv show ?thesis by auto
  next
    case (snoc ys z)
    have "dseg ?d c ys z = dseg d c ys z"
      using dist that snoc nx pv by (intro dseg_cong) auto
    with sa that snoc nx pv show ?thesis by (auto simp: dseg_append)
  qed
  show ?thesis
  proof (cases bs)
    case Nil
    with left dist show ?thesis by (auto simp: dlist_def)
  next
    case (Cons b bs')
    have "dseg ?d b bs' c = dseg d b bs' c"
      using dist Cons nx pv \<open>?l \<in> set (c # as)\<close> by (intro dseg_cong) auto
    with left dist sb Cons show ?thesis by (auto simp: dlist_def dseg_append)
  qed
qed

lemma dlist_get:
  assumes "dlist d c xs"
  shows "utfdlist_get d c = (case xs of [] \<Rightarrow> (d, None) | x # _ \<Rightarrow> (utfdlist_remove d x, Some x))"
    and "dlist (fst (utfdlist_get d c)) c (tl xs)"
  using assms dlist_remove [of d c "[]"]
  by (cases xs; auto simp: dlist_def utfdlist_get_def)+

section \<open>The interface of the intrusive lists\<close>

text \<open>
  What the message queues and the free lists rely on: an abstraction relation \<open>rep\<close>,
  the effect of every operation on it, and that an operation on one list leaves alone
  every list whose entries are disjoint from the entries it touches.
\<close>

locale intrusive_list =
  fixes rep :: "'h \<Rightarrow> 'l \<Rightarrow> 'p list \<Rightarrow> bool"
    and append_op :: "'h \<Rightarrow> 'l \<Rightarrow> 'p \<Rightarrow> 'h \<times> 'l \<times> 'p option"
    and insert_op :: "'h \<Rightarrow> 'l \<Rightarrow> 'p \<Rightarrow> 'h \<times> 'l"
    and remove_op :: "'h \<Rightarrow> 'l \<Rightarrow> ('h \<times> 'l \<times> 'p option) outcome"
    and remove2_op :: "'h \<Rightarrow> 'l \<Rightarrow> 'p \<Rightarrow> 'p option \<Rightarrow> 'h \<times> 'l \<times> 'p option"
  assumes rep_distinct: "rep h l xs \<Longrightarrow> distinct xs"
    and rep_append: "rep h l xs \<Longrightarrow> e \<notin> set xs \<Longrightarrow> append_op h l e = (h', l', p) \<Longrightarrow>
      rep h' l' (xs @ [e])"
    and frame_append: "rep h l xs \<Longrightarrow> e \<notin> set xs \<Longrightarrow> append_op h l e = (h', l', p) \<Longrightarrow>
      rep h m ys \<Longrightarrow> set ys \<inter> insert e (set xs) = {} \<Longrightarrow> rep h' m ys"
    and rep_insert: "rep h l xs \<Longrightarrow> e \<notin> set xs \<Longrightarrow> insert_op h l e = (h', l') \<Longrightarrow> rep h' l' (e # xs)"
    and frame_insert: "rep h l xs \<Longrightarrow> e \<notin> set xs \<Longrightarrow> insert_op h l e = (h', l') \<Longrightarrow>
      rep h m ys \<Longrightarrow> set ys \<inter> insert e (set xs) = {} \<Longrightarrow> rep h' m ys"
    and rep_remove_Nil: "rep h l [] \<Longrightarrow> remove_op h l = ret (h, l, None)"
    and rep_remove_Cons: "rep h l (x # xs) \<Longrightarrow>
      \<exists>h' l'. remove_op h l = ret (h', l', Some x) \<and> rep h' l' xs
        \<and> (\<forall>m ys. rep h m ys \<longrightarrow> x \<notin> set ys \<longrightarrow> rep h' m ys)"
    and rep_remove2: "rep h l (as @ c # bs) \<Longrightarrow> remove2_op h l c (last_ptr as None) = (h', l', p) \<Longrightarrow>
      rep h' l' (as @ bs)"
    and frame_remove2: "rep h l (as @ c # bs) \<Longrightarrow> remove2_op h l c (last_ptr as None) = (h', l', p) \<Longrightarrow>
      rep h m ys \<Longrightarrow> set ys \<inter> set as = {} \<Longrightarrow> rep h' m ys"
begin

text \<open>Taking the first entry of a free list and appending it to a queue.\<close>

lemma take_then_append:
  assumes f: "rep h f (x # xs)" and q: "rep h q ys" and dis: "set (x # xs) \<inter> set ys = {}"
  shows "\<exists>h1 f' h2 q' p. remove_op h f = ret (h1, f', Some x) \<and> append_op h1 q x = (h2, q', p)
    \<and> rep h2 f' xs \<and> rep h2 q' (ys @ [x])
    \<and> (\<forall>m zs. rep h m zs \<longrightarrow> set zs \<inter> set (x # xs @ ys) = {} \<longrightarrow> rep h2 m zs)"
proof -
  from rep_remove_Cons [OF f] obtain h1 f' where r: "remove_op h f = ret (h1, f', Some x)"
    "rep h1 f' xs" and fr: "\<And>m ys. rep h m ys \<Longrightarrow> x \<notin> set ys \<Longrightarrow> rep h1 m ys"
    by blast
  obtain h2 q' p where a: "append_op h1 q x = (h2, q', p)" by (cases "append_op h1 q x") auto
  have x: "x \<notin> set ys" "x \<notin> set xs" using dis rep_distinct [OF f] by auto
  have q1: "rep h1 q ys" using fr [OF q] x by simp
  have "rep h2 q' (ys @ [x])" using rep_append [OF q1 _ a] x by simp
  moreover have "rep h2 f' xs" using frame_append [OF q1 _ a r(2)] x dis by auto
  moreover have "rep h2 m zs" if "rep h m zs" "set zs \<inter> set (x # xs @ ys) = {}" for m zs
    using that fr [of m zs] frame_append [OF q1 _ a, of m zs] x by auto
  ultimately show ?thesis using r(1) a by blast
qed

text \<open>Unlinking an inner entry of a queue and putting it back on a free list.\<close>

lemma unlink_then_insert:
  assumes q: "rep h q (as @ c # bs)" and f: "rep h f xs" and dis: "set (as @ c # bs) \<inter> set xs = {}"
    and r: "remove2_op h q c (last_ptr as None) = (h1, q', p)" and i: "insert_op h1 f c = (h2, f')"
  shows "rep h2 q' (as @ bs)" and "rep h2 f' (c # xs)"
    and "rep h m zs \<Longrightarrow> set zs \<inter> set (as @ c # bs @ xs) = {} \<Longrightarrow> rep h2 m zs"
proof -
  have dq: "distinct (as @ c # bs)" using rep_distinct [OF q] .
  have q1: "rep h1 q' (as @ bs)" by (rule rep_remove2 [OF q r])
  have f1: "rep h1 f xs" using frame_remove2 [OF q r f] dis by auto
  have c: "c \<notin> set xs" using dis by auto
  show "rep h2 f' (c # xs)" by (rule rep_insert [OF f1 c i])
  show "rep h2 q' (as @ bs)" using frame_insert [OF f1 c i q1] dq dis by auto
  show "rep h2 m zs" if z: "rep h m zs" "set zs \<inter> set (as @ c # bs @ xs) = {}" for m zs
    using frame_insert [OF f1 c i, of m zs] frame_remove2 [OF q r z(1)] z(2) by auto
qed

end

interpretation sl: intrusive_list slist utfslist_append utfslist_insert utfslist_remove utfslist_remove2
proof (unfold_locales, goal_cases)
  case 1 then show ?case by (rule slist_distinct)
next
  case 2 then show ?case by (rule slist_append)
next
  case 3
  show ?case by (rule slist_frame [OF 3(4)]) (use slist_append(2) [OF 3(1-3)] 3(5) in auto)
next
  case 4 then show ?case by (rule slist_insert)
next
  case 5
  show ?case by (rule slist_frame [OF 5(4)]) (use slist_insert(2) [OF 5(1-3)] 5(5) in fastforce)
next
  case 6 then show ?case by (rule slist_remove_Nil)
next
  case (7 h l x xs)
  from 7 obtain h' l' where "utfslist_remove h l = ret (h', l', Some x)" "slist h' l' xs"
    and fr: "\<And>y. y \<noteq> x \<Longrightarrow> h' y = h y" by (rule slist_remove_Cons) blast
  moreover have "slist h' m ys" if "slist h m ys" "x \<notin> set ys" for m ys
    by (rule slist_frame [OF that(1)]) (use fr that(2) in metis)
  ultimately show ?case by blast
next
  case 8 then show ?case by (rule slist_remove2)
next
  case 9
  show ?case by (rule slist_frame [OF 9(3)]) (use slist_remove2(2) [OF 9(1,2)] 9(4) in auto)
qed

section \<open>Statements about the list operations\<close>

text \<open>\<open>utfslist_remove2\<close>, called with an entry and its predecessor as the
  \<open>utfslist_foreach2\<close> loop leaves them, unlinks exactly the first entry that satisfies the
  test: the loop ends, the entry is the first match, header and links then represent the
  list without it, and a list that shares no entry with it is unaffected.\<close>

theorem find_and_unlink:
  assumes l: "slist h lst (as @ c # bs)" and other: "slist h lst2 ys" "set ys \<inter> set (as @ c # bs) = {}"
    and no: "\<forall>x \<in> set as. \<not> P x" and c: "P c"
  shows "\<exists>prev h' lst' nxt. utfslist_foreach2 h P (head lst) None = Some (Some (c, prev))
    \<and> utfslist_remove2 h lst c prev = (h', lst', nxt)
    \<and> slist h' lst' (as @ bs) \<and> slist h' lst2 ys"
proof -
  have "chain h (head lst) (as @ c # bs)" using l by (simp add: slist_def)
  from foreach2_chain [OF this, of P None] no c have
    f: "utfslist_foreach2 h P (head lst) None = Some (Some (c, last_ptr as None))"
    by (simp add: dropWhile_append2 takeWhile_append2)
  obtain h' lst' nxt where r: "utfslist_remove2 h lst c (last_ptr as None) = (h', lst', nxt)"
    by (metis prod_cases3)
  have "slist h' lst2 ys" by (rule sl.frame_remove2 [OF l r other(1)]) (use other(2) in auto)
  with f r slist_remove2(1) [OF l r] show ?thesis by blast
qed

theorem find_and_unlink_witness:
  "\<exists>prev h' lst' nxt. utfslist_foreach2 (\<lambda>n. if n < 3 then Some (Suc n) else None) (\<lambda>n. n = 2) (Some 0) None = Some (Some (2, prev))
    \<and> utfslist_remove2 (\<lambda>n. if n < 3 then Some (Suc n) else None) \<lparr>head = Some 0, tail = Some 3\<rparr> 2 prev = (h', lst', nxt)
    \<and> slist h' lst' [0, 1, 3]"
  using find_and_unlink [of "\<lambda>n. if n < 3 then Some (Suc n) else None" "\<lparr>head = Some 0, tail = Some 3\<rparr>" "[0, 1]" 2 "[3]"
      "\<lparr>head = None, tail = None\<rparr>" "[]" "\<lambda>n. n = 2"]
  by (simp add: slist_def)

text \<open>The doubly linked list behaves as a stack: what was inserted last is what
  \<open>utfdlist_get\<close> removes first, and the list is then the one before the insertion; from an
  empty list it returns NULL and changes nothing.\<close>

theorem utfdlist_get_insert:
  assumes d: "dlist d c xs" and e: "e \<notin> set (c # xs)"
  shows "\<exists>d'. utfdlist_get (utfdlist_insert d c e) c = (d', Some e) \<and> dlist d' c xs
    \<and> (xs = [] \<longrightarrow> utfdlist_get d c = (d, None))"
  using dlist_get [OF dlist_insert [OF d e]] dlist_get(1) [OF d] by (auto simp: prod_eq_iff)

theorem utfdlist_get_insert_witness:
  "\<exists>d'. utfdlist_get (utfdlist_insert (utfdlist_init \<lparr>dnext = (\<lambda>_. 0), dprev = (\<lambda>_. 0)\<rparr> (0::nat)) 0 1) 0 = (d', Some 1)
    \<and> dlist d' 0 []"
  using utfdlist_get_insert [of "utfdlist_init \<lparr>dnext = (\<lambda>_. 0), dprev = (\<lambda>_. 0)\<rparr> 0" 0 "[]" "1 :: nat"]
  by (auto simp: dlist_init)

text \<open>\<open>utfslist_insert2\<close> does not keep a list of three entries: \<open>tail->next\<close> stays at
  the first entry, so the third insertion overwrites the link to the second entry, which
  is no longer reachable from the head.\<close>

theorem utfslist_insert2_loses_entry:
  assumes "distinct [hd_ent, tl_ent, a, b, c]" and "h hd_ent = None"
  shows "chain (utfslist_insert2 (utfslist_insert2 (utfslist_insert2 h hd_ent tl_ent a) hd_ent tl_ent b) hd_ent tl_ent c)
    (utfslist_insert2 (utfslist_insert2 (utfslist_insert2 h hd_ent tl_ent a) hd_ent tl_ent b) hd_ent tl_ent c hd_ent) [a, c]"
  using assms by (auto simp: utfslist_insert2_def)

theorem utfslist_insert2_witness:
  "chain (utfslist_insert2 (utfslist_insert2 (utfslist_insert2 (\<lambda>_. None) 0 1 (2::nat)) 0 1 3) 0 1 4) (Some 2) [2, 4]"
  using utfslist_insert2_loses_entry [of 0 1 "2::nat" 3 4 "\<lambda>_. None"]
  by (simp add: utfslist_insert2_def fun_upd_twist)

end
