(* ===== verification/Utf_Queue.thy ===== *)
theory Utf_Queue
  imports Utf_List
begin

text \<open>
  The wire format and the message lists of \<open>src/src/include/utf_queue.h\<close> and
  \<open>src/src/include/utf_msgmacros.h\<close>: the packed message header, the packet with its
  overlaid payload views, the pool of \<open>utf_msglst\<close> entries, the expected and unexpected
  lists and the four matching routines. The lemmas show the header and payload layouts
  are lossless, that matching finds and unlinks the first entry in list order, and that
  no list entry is ever lost or shared.
\<close>

section \<open>Constants\<close>

definition MSGLST_SIZE :: nat where "MSGLST_SIZE = 512"
definition MSG_PKTSZ :: nat where "MSG_PKTSZ = 256"
definition MSGHDR_SZ :: nat where "MSGHDR_SZ = 20"
definition MSG_PYLDSZ :: nat where "MSG_PYLDSZ = MSG_PKTSZ - MSGHDR_SZ"
definition MSG_FI_PYLDSZ :: nat where "MSG_FI_PYLDSZ = MSG_PKTSZ - MSGHDR_SZ - 8"
definition MSG_EAGER_SIZE :: nat where "MSG_EAGER_SIZE = MSG_PYLDSZ"
definition UTOFU_PIGBACKSZ :: nat where "UTOFU_PIGBACKSZ = 32"
definition MSG_EAGER_PIGBACK_SZ :: nat where "MSG_EAGER_PIGBACK_SZ = UTOFU_PIGBACKSZ - MSGHDR_SZ"
definition MSG_RCNTRSZ :: nat where "MSG_RCNTRSZ = 80"

lemma MSGLST_SIZE_pos: "0 < MSGLST_SIZE"
  by (simp add: MSGLST_SIZE_def)

lemmas msg_size_defs = MSG_PKTSZ_def MSGHDR_SZ_def MSG_PYLDSZ_def MSG_FI_PYLDSZ_def
  MSG_EAGER_SIZE_def UTOFU_PIGBACKSZ_def MSG_EAGER_PIGBACK_SZ_def MSG_RCNTRSZ_def

definition MSGHDR_FLGS_FI :: "6 word" where "MSGHDR_FLGS_FI = 1"
definition MSGHDR_FLGS_FI_TAGGED :: "6 word" where "MSGHDR_FLGS_FI_TAGGED = 2"

section \<open>Message headers\<close>

text \<open>
  The bit fields of the second union member are allocated from the least significant
  bit, as the compilers of the two supported little-endian targets do.
\<close>

record utf_msghdr =
  h_src :: u32
  h_tag :: u64
  h_size :: "35 word"
  h_pyldsz :: "10 word"
  h_rndz :: "1 word"
  h_flgs :: "6 word"
  h_marker :: "4 word"
  h_sidx :: u8

definition hall :: "utf_msghdr \<Rightarrow> u64" where
  "hall h = ucast (h_size h) OR push_bit 35 (ucast (h_pyldsz h)) OR push_bit 45 (ucast (h_rndz h))
     OR push_bit 46 (ucast (h_flgs h)) OR push_bit 52 (ucast (h_marker h))
     OR push_bit 56 (ucast (h_sidx h))"

definition set_hall :: "u64 \<Rightarrow> utf_msghdr \<Rightarrow> utf_msghdr" where
  "set_hall w h = h\<lparr>h_size := ucast w, h_pyldsz := ucast (drop_bit 35 w), h_rndz := ucast (drop_bit 45 w),
     h_flgs := ucast (drop_bit 46 w), h_marker := ucast (drop_bit 52 w), h_sidx := ucast (drop_bit 56 w)\<rparr>"

section \<open>Packets\<close>

text \<open>\<open>struct utf_vcqid_stadd\<close>: 4 + 2 + 2 + 3 * 8 * 3 = 80 bytes, no padding.\<close>

record utf_vcqid_stadd =
  rndzpos :: u32
  inflight :: u16
  nent :: u16
  len3 :: "u64 list"
  vcqid3 :: "u64 list"
  stadd3 :: "u64 list"

definition enc_u64s :: "u64 list \<Rightarrow> u8 list" where
  "enc_u64s ws = concat (map (\<lambda>w. le_bytes 8 (unat w)) ws)"

definition dec_u64s :: "nat \<Rightarrow> u8 list \<Rightarrow> u64 list" where
  "dec_u64s n bs = map (\<lambda>k. word_of_nat (le_nat (bytes_at bs (8 * k) 8))) [0..<n]"

definition enc_vcqid_stadd :: "utf_vcqid_stadd \<Rightarrow> u8 list" where
  "enc_vcqid_stadd v = le_bytes 4 (unat (rndzpos v)) @ le_bytes 2 (unat (inflight v))
     @ le_bytes 2 (unat (nent v)) @ enc_u64s (len3 v) @ enc_u64s (vcqid3 v) @ enc_u64s (stadd3 v)"

definition dec_vcqid_stadd :: "u8 list \<Rightarrow> utf_vcqid_stadd" where
  "dec_vcqid_stadd bs =
     \<lparr>rndzpos = word_of_nat (le_nat (bytes_at bs 0 4)), inflight = word_of_nat (le_nat (bytes_at bs 4 2)),
      nent = word_of_nat (le_nat (bytes_at bs 6 2)), len3 = dec_u64s 3 (bytes_at bs 8 24),
      vcqid3 = dec_u64s 3 (bytes_at bs 32 24), stadd3 = dec_u64s 3 (bytes_at bs 56 24)\<rparr>"

text \<open>
  The payload union is its 236 bytes; the members are views of them: \<open>msgdata\<close> all of
  them, \<open>rndzdata\<close> the first 80, \<open>fi_msg.data\<close> the first 8, \<open>fi_msg.msgdata\<close> the other
  228, \<open>fi_msg.rndzdata\<close> the 80 bytes at offset 8.
\<close>

record utf_packet =
  hdr :: utf_msghdr
  pyld :: "u8 list"

definition PKT_DATA :: "utf_packet \<Rightarrow> u8 list" where "PKT_DATA p = pyld p"
definition PKT_FI_MSGDATA :: "utf_packet \<Rightarrow> u8 list" where "PKT_FI_MSGDATA p = drop 8 (pyld p)"
definition PKT_FI_DATA :: "utf_packet \<Rightarrow> u64" where
  "PKT_FI_DATA p = word_of_nat (le_nat (bytes_at (pyld p) 0 8))"
definition PKT_RADDR :: "utf_packet \<Rightarrow> utf_vcqid_stadd" where
  "PKT_RADDR p = dec_vcqid_stadd (bytes_at (pyld p) 0 80)"
definition PKT_FI_RADDR :: "utf_packet \<Rightarrow> utf_vcqid_stadd" where
  "PKT_FI_RADDR p = dec_vcqid_stadd (bytes_at (pyld p) 8 80)"

definition wf_pkt :: "utf_packet \<Rightarrow> bool" where
  "wf_pkt p \<longleftrightarrow> length (pyld p) = MSG_PYLDSZ"

section \<open>Message lists\<close>

record utf_msglst =
  ml_hdr :: utf_msghdr
  reqidx :: u32
  fi_ignore :: u64

text \<open>The global list headers of \<open>utf_mem.c\<close> that are threaded through \<open>utf_msglst.slst\<close>.\<close>

datatype lstname = Utf_explst | Utf_uexplst | Tfi_tag_explst | Tfi_tag_uexplst
  | Tfi_msg_explst | Tfi_msg_uexplst | Utf_msglst_freelst

record msgq =
  msl_next :: "nat links"
  msl :: "nat \<Rightarrow> utf_msglst"
  lists :: "lstname \<Rightarrow> nat utfslist"

definition utf_msglst_free :: "nat \<Rightarrow> msgq \<Rightarrow> msgq" where
  "utf_msglst_free m s =
     (let (h, l) = utfslist_insert (msl_next s) (lists s Utf_msglst_freelst) m
      in s\<lparr>msl_next := h, lists := (lists s)(Utf_msglst_freelst := l)\<rparr>)"

definition utf_msglst_alloc :: "msgq \<Rightarrow> (nat \<times> msgq) outcome" where
  "utf_msglst_alloc s =
     bindO (utfslist_remove (msl_next s) (lists s Utf_msglst_freelst))
       (\<lambda>(h, l, slst). case slst of
            Some m \<Rightarrow> ret (m, s\<lparr>msl_next := h, lists := (lists s)(Utf_msglst_freelst := l)\<rparr>)
          | None \<Rightarrow> crash Aborted)"

definition utf_msglst_insert :: "lstname \<Rightarrow> utf_msghdr \<Rightarrow> u32 \<Rightarrow> msgq \<Rightarrow> (nat \<times> msgq) outcome" where
  "utf_msglst_insert n rhdr ridx s =
     bindO (utf_msglst_alloc s) (\<lambda>(m, s1).
       let s2 = s1\<lparr>msl := (msl s1)(m := (msl s1 m)\<lparr>ml_hdr := rhdr, reqidx := ridx\<rparr>)\<rparr>;
           (h, l) = utfslist_insert (msl_next s2) (lists s2 n) m
       in ret (m, s2\<lparr>msl_next := h, lists := (lists s2)(n := l)\<rparr>))"

definition utf_msglst_append :: "lstname \<Rightarrow> utf_msghdr \<Rightarrow> u32 \<Rightarrow> msgq \<Rightarrow> (nat \<times> msgq) outcome" where
  "utf_msglst_append n rhdr ridx s =
     bindO (utf_msglst_alloc s) (\<lambda>(m, s1).
       let s2 = s1\<lparr>msl := (msl s1)(m := (msl s1 m)\<lparr>ml_hdr := rhdr, reqidx := ridx\<rparr>)\<rparr>;
           (h, l, _) = utfslist_append (msl_next s2) (lists s2 n) m
       in ret (m, s2\<lparr>msl_next := h, lists := (lists s2)(n := l)\<rparr>))"

text \<open>
  The part of \<open>utf_mem_init\<close> that sets up the message lists: the statically zeroed list
  headers, the two \<open>utfslist_init\<close> calls and the loop over the pool.
\<close>

definition msglst_init :: "msgq \<Rightarrow> msgq" where
  "msglst_init s =
     (let s1 = s\<lparr>lists := (lists s)(Utf_explst := utfslist_init (lists s Utf_explst) None,
                  Utf_uexplst := utfslist_init (lists s Utf_uexplst) None)\<rparr>;
          (h, l) = utfslist_append_all (msl_next s1) (utfslist_init (lists s1 Utf_msglst_freelst) None)
                     [0..<MSGLST_SIZE]
      in s1\<lparr>msl_next := h, lists := (lists s1)(Utf_msglst_freelst := l),
            msl := (\<lambda>i. if i < MSGLST_SIZE then (msl s1 i)\<lparr>reqidx := 0\<rparr> else msl s1 i)\<rparr>)"

definition zero_hdr :: utf_msghdr where
  "zero_hdr = \<lparr>h_src = 0, h_tag = 0, h_size = 0, h_pyldsz = 0, h_rndz = 0, h_flgs = 0, h_marker = 0, h_sidx = 0\<rparr>"

definition msgq_static :: msgq where
  "msgq_static = \<lparr>msl_next = (\<lambda>_. None), msl = (\<lambda>_. \<lparr>ml_hdr = zero_hdr, reqidx = 0, fi_ignore = 0\<rparr>),
     lists = (\<lambda>_. \<lparr>head = None, tail = None\<rparr>)\<rparr>"

section \<open>Matching\<close>

text \<open>
  The common exit of the four routines (label \<open>find\<close>): the request index of the entry,
  which is unlinked and freed unless the caller only peeks. The index is a \<open>uint32_t\<close>
  returned as an \<open>int\<close>.
\<close>

definition match_find :: "lstname \<Rightarrow> bool \<Rightarrow> nat \<Rightarrow> nat ptr \<Rightarrow> msgq \<Rightarrow> int \<times> msgq" where
  "match_find n peek cur prev s =
     (let idx = reqidx (msl s cur)
      in if \<not> peek
         then (let (h, l, _) = utfslist_remove2 (msl_next s) (lists s n) cur prev;
                   s1 = s\<lparr>msl_next := h, lists := (lists s)(n := l)\<rparr>
               in (sint idx, utf_msglst_free cur s1))
         else (sint idx, s))"

text \<open>The loop over list \<open>n\<close>, leaving it at the first entry that satisfies \<open>P\<close>.\<close>

definition match_loop :: "lstname \<Rightarrow> bool \<Rightarrow> (utf_msglst \<Rightarrow> bool) \<Rightarrow> msgq \<Rightarrow> (int \<times> msgq) outcome" where
  "match_loop n peek P s =
     (case utfslist_foreach2 (msl_next s) (\<lambda>m. P (msl s m)) (head (lists s n)) None of
        None \<Rightarrow> None
      | Some None \<Rightarrow> ret (-1, s)
      | Some (Some (cur, prev)) \<Rightarrow> ret (match_find n peek cur prev s))"

definition utf_uexplst_match :: "u32 \<Rightarrow> u32 \<Rightarrow> bool \<Rightarrow> msgq \<Rightarrow> (int \<times> msgq) outcome" where
  "utf_uexplst_match src tag peek s =
     (if utfslist_isnull (lists s Utf_uexplst) then ret (-1, s)
      else if src = -1 \<and> tag = -1 then
        (case head (lists s Utf_uexplst) of
           None \<Rightarrow> crash NullDeref
         | Some cur \<Rightarrow> ret (match_find Utf_uexplst peek cur None s))
      else if src = -1 \<and> tag \<noteq> -1 then
        match_loop Utf_uexplst peek (\<lambda>m. ucast tag = h_tag (ml_hdr m)) s
      else if tag = -1 then
        match_loop Utf_uexplst peek (\<lambda>m. ucast src = h_tag (ml_hdr m)) s
      else
        match_loop Utf_uexplst peek (\<lambda>m. src = h_src (ml_hdr m) \<and> ucast tag = h_tag (ml_hdr m)) s)"

text \<open>The four tests of \<open>utf_explst_match\<close>, in their order.\<close>

definition utf_exp_test :: "u32 \<Rightarrow> u32 \<Rightarrow> utf_msglst \<Rightarrow> bool" where
  "utf_exp_test src tag m =
     (let exp_src = h_src (ml_hdr m); exp_tag = (ucast (h_tag (ml_hdr m)) :: u32)
      in if exp_src = -1 \<and> exp_tag \<noteq> -1 then True
         else if exp_src = -1 \<and> exp_tag = tag then True
         else if exp_tag = -1 \<and> exp_src = src then True
         else exp_src = src \<and> exp_tag = tag)"

definition utf_explst_match :: "u32 \<Rightarrow> u32 \<Rightarrow> bool \<Rightarrow> msgq \<Rightarrow> (int \<times> msgq) outcome" where
  "utf_explst_match src tag peek s =
     (if utfslist_isnull (lists s Utf_explst) then ret (-1, s)
      else match_loop Utf_explst peek (utf_exp_test src tag) s)"

definition tfi_utf_uexplst_match ::
  "lstname \<Rightarrow> u32 \<Rightarrow> u64 \<Rightarrow> u64 \<Rightarrow> bool \<Rightarrow> msgq \<Rightarrow> (int \<times> msgq) outcome" where
  "tfi_utf_uexplst_match uexplst src tag ignore peek s =
     (if utfslist_isnull (lists s uexplst) then ret (-1, s)
      else if src = -1 then
        match_loop uexplst peek (\<lambda>m. tag AND NOT ignore = h_tag (ml_hdr m) AND NOT ignore) s
      else
        match_loop uexplst peek (\<lambda>m. src = h_src (ml_hdr m)
          \<and> tag AND NOT ignore = h_tag (ml_hdr m) AND NOT ignore) s)"

definition tfi_exp_test :: "u32 \<Rightarrow> u64 \<Rightarrow> utf_msglst \<Rightarrow> bool" where
  "tfi_exp_test src tag m =
     (let exp_src = h_src (ml_hdr m); exp_tag = h_tag (ml_hdr m); exp_rvignr = NOT (fi_ignore m)
      in if exp_src = -1 \<and> tag AND exp_rvignr = exp_tag AND exp_rvignr then True
         else exp_src = src \<and> tag AND exp_rvignr = exp_tag AND exp_rvignr)"

definition tfi_utf_explst_match ::
  "lstname \<Rightarrow> u32 \<Rightarrow> u64 \<Rightarrow> bool \<Rightarrow> msgq \<Rightarrow> (int \<times> msgq) outcome" where
  "tfi_utf_explst_match explst src tag peek s =
     (if utfslist_isnull (lists s explst) then ret (-1, s)
      else match_loop explst peek (tfi_exp_test src tag) s)"

text \<open>The dispatchers of \<open>utf_msgmacros.h\<close>; \<open>flgs\<close> has 6 significant bits.\<close>

definition fi_list :: "lstname \<Rightarrow> lstname \<Rightarrow> 6 word \<Rightarrow> lstname" where
  "fi_list tagged plain flgs = (if flgs AND MSGHDR_FLGS_FI_TAGGED \<noteq> 0 then tagged else plain)"

definition utfgen_explst_match :: "6 word \<Rightarrow> u32 \<Rightarrow> u64 \<Rightarrow> msgq \<Rightarrow> (int \<times> msgq) outcome" where
  "utfgen_explst_match flgs src tag s =
     (if flgs = 0 then utf_explst_match src (ucast tag) False s
      else tfi_utf_explst_match (fi_list Tfi_tag_explst Tfi_msg_explst flgs) src tag False s)"

definition utfgen_uexplst_enqueue :: "6 word \<Rightarrow> utf_msghdr \<Rightarrow> u32 \<Rightarrow> msgq \<Rightarrow> msgq outcome" where
  "utfgen_uexplst_enqueue flgs rhdr ridx s =
     (if flgs = 0 then bindO (utf_msglst_append Utf_uexplst rhdr ridx s) (\<lambda>(_, s'). ret s')
      else bindO (utf_msglst_append (fi_list Tfi_tag_uexplst Tfi_msg_uexplst flgs) rhdr ridx s)
             (\<lambda>(_, s'). ret s'))"


section \<open>Layouts are lossless\<close>

lemma take_bit_join: "take_bit m w OR push_bit m (take_bit k (drop_bit m w)) = take_bit (m + k) (w :: 'a::len word)"
  by (rule bit_word_eqI) (auto simp: bit_simps)

lemma ucast_ucast_take_bit: "ucast (ucast w :: 'b::len word) = (take_bit LENGTH('b) w :: 'a::len word)"
  by (rule bit_word_eqI) (auto simp: bit_simps)

lemma hall_set_hall: "hall (set_hall w h) = w"
proof -
  have "hall (set_hall w h) = take_bit 35 w OR push_bit 35 (take_bit 10 (drop_bit 35 w))
     OR push_bit 45 (take_bit 1 (drop_bit 45 w)) OR push_bit 46 (take_bit 6 (drop_bit 46 w))
     OR push_bit 52 (take_bit 4 (drop_bit 52 w)) OR push_bit 56 (take_bit 8 (drop_bit 56 w))"
    by (simp add: hall_def set_hall_def ucast_ucast_take_bit)
  also have "\<dots> = take_bit 64 w"
    by (simp only: or.assoc [symmetric] take_bit_join arith_simps numeral_plus_one)
  finally show ?thesis by (simp add: take_bit_word_eq_self)
qed

lemma set_hall_hall: "set_hall (hall h) h' = h'\<lparr>h_size := h_size h, h_pyldsz := h_pyldsz h,
  h_rndz := h_rndz h, h_flgs := h_flgs h, h_marker := h_marker h, h_sidx := h_sidx h\<rparr>"
proof -
  have "ucast (hall h) = h_size h" "ucast (drop_bit 35 (hall h)) = h_pyldsz h"
    "ucast (drop_bit 45 (hall h)) = h_rndz h" "ucast (drop_bit 46 (hall h)) = h_flgs h"
    "ucast (drop_bit 52 (hall h)) = h_marker h" "ucast (drop_bit 56 (hall h)) = h_sidx h"
    by (rule bit_word_eqI; auto simp: hall_def bit_simps dest: bit_imp_le_length)+
  then show ?thesis by (simp add: set_hall_def)
qed

lemma unat_of_le_nat: "length bs = n \<Longrightarrow> 8 * n \<le> LENGTH('a) \<Longrightarrow>
  unat (word_of_nat (le_nat bs) :: 'a::len word) = le_nat bs"
proof -
  assume l: "length bs = n" "8 * n \<le> LENGTH('a)"
  have "le_nat bs < 256 ^ n" using le_nat_lt [of bs] l by simp
  also have "(256::nat) ^ n = 2 ^ (8 * n)" by (simp add: power_mult)
  also have "\<dots> \<le> 2 ^ LENGTH('a)" using l by (intro power_increasing) auto
  finally show ?thesis by (simp add: unat_of_nat)
qed

lemma word_le_bytes: "LENGTH('a) \<le> 8 * n \<Longrightarrow>
  word_of_nat (le_nat (le_bytes n (unat (w :: 'a::len word)))) = w"
proof -
  assume "LENGTH('a) \<le> 8 * n"
  have "unat w < 2 ^ LENGTH('a)" by simp
  also have "\<dots> \<le> 2 ^ (8 * n)" using \<open>LENGTH('a) \<le> 8 * n\<close> by (intro power_increasing) auto
  also have "\<dots> = 256 ^ n" by (simp add: power_mult)
  finally show ?thesis by (simp add: le_nat_le_bytes)
qed

lemma length_enc_u64s [simp]: "length (enc_u64s ws) = 8 * length ws"
  by (induction ws) (auto simp: enc_u64s_def)

lemma dec_enc_u64s: "dec_u64s (length ws) (enc_u64s ws) = ws"
proof (induction ws)
  case (Cons w ws)
  have "dec_u64s (Suc (length ws)) (enc_u64s (w # ws))
      = word_of_nat (le_nat (le_bytes 8 (unat w))) # dec_u64s (length ws) (enc_u64s ws)"
    by (simp add: dec_u64s_def enc_u64s_def bytes_at_def map_upt_Suc del: upt_Suc)
  with Cons show ?case by (simp add: word_le_bytes)
qed (simp add: dec_u64s_def)

definition wf_vcqid_stadd :: "utf_vcqid_stadd \<Rightarrow> bool" where
  "wf_vcqid_stadd v \<longleftrightarrow> length (len3 v) = 3 \<and> length (vcqid3 v) = 3 \<and> length (stadd3 v) = 3"

lemma length_enc_vcqid_stadd: "wf_vcqid_stadd v \<Longrightarrow> length (enc_vcqid_stadd v) = MSG_RCNTRSZ"
  by (simp add: enc_vcqid_stadd_def wf_vcqid_stadd_def msg_size_defs)

lemma dec_enc_vcqid_stadd:
  assumes "wf_vcqid_stadd v"
  shows "dec_vcqid_stadd (enc_vcqid_stadd v) = v"
proof -
  have d: "dec_u64s 3 (enc_u64s ws) = ws" if "length ws = 3" for ws
    using dec_enc_u64s [of ws] that by simp
  show ?thesis
    using assms by (simp add: dec_vcqid_stadd_def enc_vcqid_stadd_def wf_vcqid_stadd_def
        bytes_at_def word_le_bytes d)
qed

section \<open>The invariant of the message lists\<close>

text \<open>
  \<open>Q n\<close> are the entries of list \<open>n\<close>. Every entry of the pool is in exactly one list.
\<close>

definition msgq_inv :: "msgq \<Rightarrow> (lstname \<Rightarrow> nat list) \<Rightarrow> bool" where
  "msgq_inv s Q \<longleftrightarrow> (\<forall>n. slist (msl_next s) (lists s n) (Q n))
     \<and> (\<forall>n m. n \<noteq> m \<longrightarrow> set (Q n) \<inter> set (Q m) = {})
     \<and> (\<Union>n. set (Q n)) = {..<MSGLST_SIZE}"

lemma msgq_inv_slist: "msgq_inv s Q \<Longrightarrow> slist (msl_next s) (lists s n) (Q n)"
  by (simp add: msgq_inv_def)

lemma msgq_inv_disjoint: "msgq_inv s Q \<Longrightarrow> n \<noteq> m \<Longrightarrow> set (Q n) \<inter> set (Q m) = {}"
  by (simp add: msgq_inv_def)

text \<open>Moving one entry between two lists keeps the invariant.\<close>

lemma msgq_inv_move:
  assumes inv: "msgq_inv s Q" and ne: "n \<noteq> m"
    and qn: "set xs \<union> set ys = set (Q n) \<union> set (Q m)" "set xs \<inter> set ys = {}"
    and reps: "slist (msl_next s') (lists s' n) xs" "slist (msl_next s') (lists s' m) ys"
    and frame: "\<And>k. k \<noteq> n \<Longrightarrow> k \<noteq> m \<Longrightarrow> slist (msl_next s') (lists s' k) (Q k)"
  shows "msgq_inv s' (Q(n := xs, m := ys))"
proof -
  let ?Q = "Q(n := xs, m := ys)"
  have other: "set (Q k) \<inter> set xs = {}" "set (Q k) \<inter> set ys = {}" if "k \<noteq> n" "k \<noteq> m" for k
    using qn(1) msgq_inv_disjoint [OF inv that(1)] msgq_inv_disjoint [OF inv that(2)] by blast+
  have "set (?Q k) \<inter> set (?Q l) = {}" if "k \<noteq> l" for k l
    using that ne qn(2) other msgq_inv_disjoint [OF inv that] by (auto simp: Int_commute)
  moreover have "(\<Union>k. set (?Q k)) = (\<Union>k. set (Q k))"
  proof -
    have split: "(\<Union>k. set (F k)) = set (F n) \<union> set (F m) \<union> (\<Union>k \<in> - {n, m}. set (F k))"
      for F :: "lstname \<Rightarrow> nat list" by blast
    have "(\<Union>k \<in> - {n, m}. set (?Q k)) = (\<Union>k \<in> - {n, m}. set (Q k))"
      by auto
    with qn(1) ne split [of ?Q] split [of Q] show ?thesis by simp
  qed
  ultimately show ?thesis
    using inv reps frame ne by (simp add: msgq_inv_def)
qed

lemma utf_msglst_append_inv:
  assumes inv: "msgq_inv s Q" and n: "n \<noteq> Utf_msglst_freelst" and f: "Q Utf_msglst_freelst = m # fs"
  shows "\<exists>s'. utf_msglst_append n rhdr ridx s = ret (m, s')
    \<and> msgq_inv s' (Q(n := Q n @ [m], Utf_msglst_freelst := fs))
    \<and> msl s' = (msl s)(m := (msl s m)\<lparr>ml_hdr := rhdr, reqidx := ridx\<rparr>)"
proof -
  have dis: "set (m # fs) \<inter> set (Q n) = {}" using msgq_inv_disjoint [OF inv n] f by auto
  have rn: "slist (msl_next s) (lists s n) (Q n)"
    and rf: "slist (msl_next s) (lists s Utf_msglst_freelst) (m # fs)"
    using msgq_inv_slist [OF inv] f by metis+
  from sl.take_then_append [OF rf rn dis] obtain h1 f' h2 q' p where
    r: "utfslist_remove (msl_next s) (lists s Utf_msglst_freelst) = ret (h1, f', Some m)"
    and a: "utfslist_append h1 (lists s n) m = (h2, q', p)"
    and reps: "slist h2 f' fs" "slist h2 q' (Q n @ [m])"
    and fr: "\<And>l zs. slist (msl_next s) l zs \<Longrightarrow> set zs \<inter> set (m # fs @ Q n) = {} \<Longrightarrow> slist h2 l zs"
    by blast
  let ?s = "s\<lparr>msl_next := h2, msl := (msl s)(m := (msl s m)\<lparr>ml_hdr := rhdr, reqidx := ridx\<rparr>),
    lists := (lists s)(Utf_msglst_freelst := f', n := q')\<rparr>"
  have "utf_msglst_append n rhdr ridx s = ret (m, ?s)"
    using r a n by (simp add: utf_msglst_append_def utf_msglst_alloc_def)
  moreover have "msgq_inv ?s (Q(n := Q n @ [m], Utf_msglst_freelst := fs))"
  proof (rule msgq_inv_move [OF inv n])
    show "set (Q n @ [m]) \<union> set fs = set (Q n) \<union> set (Q Utf_msglst_freelst)" using f by auto
    show "set (Q n @ [m]) \<inter> set fs = {}" using dis slist_distinct [OF rf] by auto
    show "slist (msl_next ?s) (lists ?s k) (Q k)" if "k \<noteq> n" "k \<noteq> Utf_msglst_freelst" for k
    proof -
      have "set (Q k) \<inter> set (m # fs @ Q n) = {}"
        using msgq_inv_disjoint [OF inv that(1)] msgq_inv_disjoint [OF inv that(2)] f by auto
      with fr [OF msgq_inv_slist [OF inv, of k]] that show ?thesis by simp
    qed
  qed (use reps n in auto)
  ultimately show ?thesis by auto
qed


section \<open>Matching finds the first entry\<close>

text \<open>The abstract matching: the result, the queue left and the entries set free.\<close>

definition match_spec ::
  "(utf_msglst \<Rightarrow> bool) \<Rightarrow> (nat \<Rightarrow> utf_msglst) \<Rightarrow> nat list \<Rightarrow> int \<times> nat list \<times> nat list" where
  "match_spec P T xs =
     (case dropWhile (\<lambda>m. \<not> P (T m)) xs of
        [] \<Rightarrow> (-1, xs, [])
      | c # bs \<Rightarrow> (sint (reqidx (T c)), takeWhile (\<lambda>m. \<not> P (T m)) xs @ bs, [c]))"

lemma match_find_inv:
  assumes inv: "msgq_inv s Q" and n: "n \<noteq> Utf_msglst_freelst" and q: "Q n = as @ c # bs"
  shows "\<exists>s'. match_find n False c (last_ptr as None) s = (sint (reqidx (msl s c)), s')
    \<and> msgq_inv s' (Q(n := as @ bs, Utf_msglst_freelst := c # Q Utf_msglst_freelst)) \<and> msl s' = msl s"
proof -
  let ?f = Utf_msglst_freelst
  have rn: "slist (msl_next s) (lists s n) (as @ c # bs)" and rf: "slist (msl_next s) (lists s ?f) (Q ?f)"
    using msgq_inv_slist [OF inv] q by metis+
  have dis: "set (as @ c # bs) \<inter> set (Q ?f) = {}" using msgq_inv_disjoint [OF inv n] q by simp
  obtain h1 q' p where r: "utfslist_remove2 (msl_next s) (lists s n) c (last_ptr as None) = (h1, q', p)"
    by (cases "utfslist_remove2 (msl_next s) (lists s n) c (last_ptr as None)") auto
  obtain h2 f' where i: "utfslist_insert h1 (lists s ?f) c = (h2, f')" by fastforce
  note u = sl.unlink_then_insert [OF rn rf dis r i]
  let ?s = "s\<lparr>msl_next := h2, lists := (lists s)(n := q', ?f := f')\<rparr>"
  have "match_find n False c (last_ptr as None) s = (sint (reqidx (msl s c)), ?s)"
    using r i n by (simp add: match_find_def utf_msglst_free_def)
  moreover have "msgq_inv ?s (Q(n := as @ bs, ?f := c # Q ?f))"
  proof (rule msgq_inv_move [OF inv n])
    show "slist (msl_next ?s) (lists ?s k) (Q k)" if "k \<noteq> n" "k \<noteq> ?f" for k
    proof -
      have "set (Q k) \<inter> set (as @ c # bs @ Q ?f) = {}"
        using msgq_inv_disjoint [OF inv that(1)] msgq_inv_disjoint [OF inv that(2)] q by auto
      with u(3) [OF msgq_inv_slist [OF inv, of k]] that show ?thesis by simp
    qed
    show "set (as @ bs) \<inter> set (c # Q ?f) = {}" using dis slist_distinct [OF rn] by auto
  qed (use u q n in auto)
  ultimately show ?thesis by auto
qed

lemma match_loop_eq:
  assumes "msgq_inv s Q"
  shows "match_loop n peek P s =
    (case dropWhile (\<lambda>m. \<not> P (msl s m)) (Q n) of [] \<Rightarrow> ret (-1, s)
     | c # _ \<Rightarrow> ret (match_find n peek c (last_ptr (takeWhile (\<lambda>m. \<not> P (msl s m)) (Q n)) None) s))"
proof -
  have "chain (msl_next s) (head (lists s n)) (Q n)"
    using msgq_inv_slist [OF assms, of n] by (simp add: slist_def)
  then show ?thesis
    by (cases "dropWhile (\<lambda>m. \<not> P (msl s m)) (Q n)")
      (simp_all add: match_loop_def foreach2_chain del: dropWhile_eq_Nil_conv)
qed

lemma match_loop_spec:
  assumes inv: "msgq_inv s Q" and n: "n \<noteq> Utf_msglst_freelst"
    and sp: "match_spec P (msl s) (Q n) = (idx, rest, freed)"
  shows "\<exists>s'. match_loop n False P s = ret (idx, s') \<and> msl s' = msl s
    \<and> msgq_inv s' (Q(n := rest, Utf_msglst_freelst := freed @ Q Utf_msglst_freelst))"
proof (cases "dropWhile (\<lambda>m. \<not> P (msl s m)) (Q n)")
  case Nil
  with sp have "idx = -1" "Q(n := rest, Utf_msglst_freelst := freed @ Q Utf_msglst_freelst) = Q"
    by (auto simp: match_spec_def simp del: dropWhile_eq_Nil_conv)
  with Nil inv match_loop_eq [OF inv, of n False P] show ?thesis
    by (simp del: dropWhile_eq_Nil_conv)
next
  case (Cons c bs)
  have "Q n = takeWhile (\<lambda>m. \<not> P (msl s m)) (Q n) @ c # bs"
    using takeWhile_dropWhile_id [of "\<lambda>m. \<not> P (msl s m)" "Q n"] Cons by simp
  from match_find_inv [OF inv n this] sp Cons match_loop_eq [OF inv, of n False P] show ?thesis
    by (auto simp: match_spec_def)
qed

lemma match_peek:
  assumes "msgq_inv s Q"
  shows "match_loop n True P s = ret (fst (match_spec P (msl s) (Q n)), s)"
  using match_loop_eq [OF assms, of n True P]
  by (cases "dropWhile (\<lambda>m. \<not> P (msl s m)) (Q n)")
    (simp_all add: match_spec_def match_find_def del: dropWhile_eq_Nil_conv)

lemma match_spec_Nil [simp]: "match_spec P T [] = (-1, [], [])"
  by (simp add: match_spec_def)

lemma match_spec_Cons: "match_spec P T (c # bs) = (if P (T c) then (sint (reqidx (T c)), bs, [c])
  else case match_spec P T bs of (i, rest, freed) \<Rightarrow> (i, c # rest, freed))"
  by (cases "dropWhile (\<lambda>m. \<not> P (T m)) bs") (simp_all add: match_spec_def del: dropWhile_eq_Nil_conv)

lemma match_spec_cong:
  assumes "\<And>m. m \<in> set xs \<Longrightarrow> P (T m) = P' (T m)"
  shows "match_spec P T xs = match_spec P' T xs"
  using assms by (induction xs) (auto simp: match_spec_Cons)

text \<open>An empty list needs no loop: the early return agrees with the specification.\<close>

lemma isnull_match:
  assumes inv: "msgq_inv s Q" and null: "utfslist_isnull (lists s n)"
  shows "match_loop n peek P s = ret (-1, s)"
proof -
  have "Q n = []" using slist_isnull [OF msgq_inv_slist [OF inv, of n]] null by simp
  with match_loop_eq [OF inv, of n] show ?thesis by simp
qed

section \<open>FIFO matching as an interface\<close>

text \<open>
  What the protocol relies on of an unexpected queue: an entry is enqueued at the end,
  and a match returns the index of the first entry that satisfies the test. From this
  alone, two messages with the same envelope are matched in their arrival order.
\<close>

locale fifo_match =
  fixes view :: "'s \<Rightarrow> 'e list \<Rightarrow> nat \<Rightarrow> bool"
    and enq :: "'e \<Rightarrow> 's \<Rightarrow> 's outcome"
    and mtch :: "('e \<Rightarrow> bool) \<Rightarrow> 's \<Rightarrow> (int \<times> 's) outcome"
    and index :: "'e \<Rightarrow> int"
  assumes view_enq: "view s xs (Suc k) \<Longrightarrow> \<exists>s'. enq e s = ret s' \<and> view s' (xs @ [e]) k"
    and view_match: "view s (xs @ e # ys) k \<Longrightarrow> (\<And>x. x \<in> set xs \<Longrightarrow> \<not> P x) \<Longrightarrow> P e \<Longrightarrow>
      \<exists>s'. mtch P s = ret (index e, s') \<and> view s' (xs @ ys) (Suc k)"
    and view_no_match: "view s xs k \<Longrightarrow> (\<And>x. x \<in> set xs \<Longrightarrow> \<not> P x) \<Longrightarrow> mtch P s = ret (-1, s)"
begin

lemma non_overtaking:
  assumes v: "view s xs (Suc (Suc k))" and no: "\<And>x. x \<in> set xs \<Longrightarrow> \<not> P x" and a: "P a" and b: "P b"
  shows "\<exists>s1 s2 s3 s4. enq a s = ret s1 \<and> enq b s1 = ret s2
    \<and> view s2 (xs @ [a, b]) k
    \<and> mtch P s2 = ret (index a, s3) \<and> view s3 (xs @ [b]) (Suc k)
    \<and> mtch P s3 = ret (index b, s4) \<and> view s4 xs (Suc (Suc k))"
proof -
  from view_enq [OF v] obtain s1 where 1: "enq a s = ret s1" "view s1 (xs @ [a]) (Suc k)" by blast
  from view_enq [OF 1(2)] obtain s2 where 2: "enq b s1 = ret s2" "view s2 (xs @ a # [b]) k" by fastforce
  from view_match [where P = P, OF 2(2)] no a obtain s3 where
    3: "mtch P s2 = ret (index a, s3)" "view s3 (xs @ b # []) (Suc k)" by blast
  from view_match [where P = P, OF 3(2)] no b obtain s4 where
    "mtch P s3 = ret (index b, s4)" "view s4 xs (Suc (Suc k))" by auto
  with 1 2 3 show ?thesis by (metis append_Nil2)
qed

end

type_synonym envelope = "utf_msghdr \<times> u32"

definition msl_env :: "utf_msglst \<Rightarrow> envelope" where
  "msl_env m = (ml_hdr m, reqidx m)"

definition queue_view :: "lstname \<Rightarrow> msgq \<Rightarrow> envelope list \<Rightarrow> nat \<Rightarrow> bool" where
  "queue_view n s xs k \<longleftrightarrow> n \<noteq> Utf_msglst_freelst \<and>
     (\<exists>Q. msgq_inv s Q \<and> map (\<lambda>m. msl_env (msl s m)) (Q n) = xs \<and> length (Q Utf_msglst_freelst) = k)"

definition queue_enq :: "lstname \<Rightarrow> envelope \<Rightarrow> msgq \<Rightarrow> msgq outcome" where
  "queue_enq n e s = bindO (utf_msglst_append n (fst e) (snd e) s) (\<lambda>(_, s'). ret s')"

lemma queue_view_enq:
  assumes "queue_view n s xs (Suc k)"
  shows "\<exists>s'. queue_enq n e s = ret s' \<and> queue_view n s' (xs @ [e]) k"
proof -
  from assms obtain Q where n: "n \<noteq> Utf_msglst_freelst" and inv: "msgq_inv s Q"
    and xs: "map (\<lambda>m. msl_env (msl s m)) (Q n) = xs" and k: "length (Q Utf_msglst_freelst) = Suc k"
    by (auto simp: queue_view_def)
  from k obtain m fs where f: "Q Utf_msglst_freelst = m # fs" "length fs = k" by (cases "Q Utf_msglst_freelst") auto
  from utf_msglst_append_inv [OF inv n f(1), of "fst e" "snd e"] obtain s' where
    r: "utf_msglst_append n (fst e) (snd e) s = ret (m, s')"
    and i: "msgq_inv s' (Q(n := Q n @ [m], Utf_msglst_freelst := fs))"
    and t: "msl s' = (msl s)(m := (msl s m)\<lparr>ml_hdr := fst e, reqidx := snd e\<rparr>)" by blast
  have "m \<notin> set (Q n)" using msgq_inv_disjoint [OF inv n] f by auto
  then have "map (\<lambda>m. msl_env (msl s' m)) (Q n @ [m]) = xs @ [e]"
    using xs t by (auto simp: msl_env_def)
  with r i n f have "queue_enq n e s = ret s'" "queue_view n s' (xs @ [e]) k"
    by (auto simp: queue_enq_def queue_view_def intro!: exI [of _ "Q(n := Q n @ [m], Utf_msglst_freelst := fs)"])
  then show ?thesis by blast
qed

lemma map_split_Cons: "map f zs = xs @ e # ys \<Longrightarrow>
  \<exists>as c bs. zs = as @ c # bs \<and> map f as = xs \<and> f c = e \<and> map f bs = ys"
  by (auto simp: map_eq_append_conv map_eq_Cons_conv)

lemma match_spec_first:
  "(\<And>m. m \<in> set as \<Longrightarrow> \<not> P (T m)) \<Longrightarrow> P (T c) \<Longrightarrow>
   match_spec P T (as @ c # bs) = (sint (reqidx (T c)), as @ bs, [c])"
  by (simp add: match_spec_def dropWhile_append2 takeWhile_append2)

lemma queue_view_match:
  assumes v: "queue_view n s (xs @ e # ys) k" and no: "\<And>x. x \<in> set xs \<Longrightarrow> \<not> P x" and e: "P e"
  shows "\<exists>s'. match_loop n False (P \<circ> msl_env) s = ret (sint (snd e), s') \<and> queue_view n s' (xs @ ys) (Suc k)"
proof -
  from v obtain Q where n: "n \<noteq> Utf_msglst_freelst" and inv: "msgq_inv s Q"
    and m: "map (\<lambda>m. msl_env (msl s m)) (Q n) = xs @ e # ys" and k: "length (Q Utf_msglst_freelst) = k"
    by (auto simp: queue_view_def)
  from map_split_Cons [OF m] obtain as c bs where q: "Q n = as @ c # bs"
    and mm: "map (\<lambda>m. msl_env (msl s m)) as = xs" "msl_env (msl s c) = e"
      "map (\<lambda>m. msl_env (msl s m)) bs = ys" by blast
  have "match_spec (P \<circ> msl_env) (msl s) (Q n) = (sint (reqidx (msl s c)), as @ bs, [c])"
    unfolding q
  proof (rule match_spec_first)
    show "\<not> (P \<circ> msl_env) (msl s m)" if "m \<in> set as" for m
      using no [of "msl_env (msl s m)"] that mm(1) by auto
  qed (use e mm in simp)
  moreover have "reqidx (msl s c) = snd e" using mm(2) by (auto simp: msl_env_def)
  ultimately obtain s' where
    "match_loop n False (P \<circ> msl_env) s = ret (sint (snd e), s')" "msl s' = msl s"
    "msgq_inv s' (Q(n := as @ bs, Utf_msglst_freelst := [c] @ Q Utf_msglst_freelst))"
    using match_loop_spec [OF inv n] by metis
  with n k mm show ?thesis
    by (auto simp: queue_view_def intro!: exI [of _ "Q(n := as @ bs, Utf_msglst_freelst := c # Q Utf_msglst_freelst)"])
qed

lemma queue_view_no_match:
  assumes v: "queue_view n s xs k" and no: "\<And>x. x \<in> set xs \<Longrightarrow> \<not> P x"
  shows "match_loop n False (P \<circ> msl_env) s = ret (-1, s)"
proof -
  from v obtain Q where inv: "msgq_inv s Q" and m: "map (\<lambda>m. msl_env (msl s m)) (Q n) = xs"
    by (auto simp: queue_view_def)
  have "\<not> (P \<circ> msl_env) (msl s x)" if "x \<in> set (Q n)" for x
    using no [of "msl_env (msl s x)"] that m by auto
  then have d: "dropWhile (\<lambda>m. \<not> (P \<circ> msl_env) (msl s m)) (Q n) = []" by auto
  show ?thesis by (simp only: match_loop_eq [OF inv] d list.case)
qed

interpretation fifo: fifo_match "queue_view n" "queue_enq n" "\<lambda>P. match_loop n False (P \<circ> msl_env)"
  "\<lambda>e. sint (snd e)" for n
  by unfold_locales (rule queue_view_enq queue_view_match queue_view_no_match; assumption)+


section \<open>The initial state and the statements about the code\<close>

lemma msglst_init_inv: "msgq_inv (msglst_init msgq_static) ((\<lambda>_. [])(Utf_msglst_freelst := [0..<MSGLST_SIZE]))"
proof -
  obtain h l where a: "utfslist_append_all (\<lambda>_. None) (utfslist_init \<lparr>head = None, tail = None\<rparr> None)
      [0..<MSGLST_SIZE] = (h, l)" by fastforce
  have "slist h l ([] @ [0..<MSGLST_SIZE])"
    by (rule slist_append_all [OF slist_init _ a]) simp
  then show ?thesis
    using a by (auto simp: msgq_inv_def msglst_init_def msgq_static_def slist_def utfslist_init_def lessThan_def Let_def)
qed

lemma msglst_init_view: "n \<noteq> Utf_msglst_freelst \<Longrightarrow> queue_view n (msglst_init msgq_static) [] 512"
  using msglst_init_inv by (auto simp: queue_view_def MSGLST_SIZE_def)

text \<open>The state after one enqueue, for the concrete instances below.\<close>

lemma after_one_enqueue:
  assumes n: "n \<noteq> Utf_msglst_freelst"
  shows "\<exists>s. utf_msglst_append n rhdr ridx (msglst_init msgq_static) = ret (0, s)
    \<and> msgq_inv s ((\<lambda>_. [])(n := [0], Utf_msglst_freelst := [1..<MSGLST_SIZE]))
    \<and> ml_hdr (msl s 0) = rhdr \<and> reqidx (msl s 0) = ridx \<and> fi_ignore (msl s 0) = 0"
proof -
  let ?Q = "(\<lambda>_. [])(Utf_msglst_freelst := [0..<MSGLST_SIZE])"
  have f: "?Q Utf_msglst_freelst = 0 # [1..<MSGLST_SIZE]"
    using upt_conv_Cons [of 0 MSGLST_SIZE] MSGLST_SIZE_pos by simp
  have q: "?Q(n := ?Q n @ [0], Utf_msglst_freelst := [1..<MSGLST_SIZE])
      = (\<lambda>_. [])(n := [0], Utf_msglst_freelst := [1..<MSGLST_SIZE])"
    using n by (auto simp: fun_eq_iff)
  have "fi_ignore (msl (msglst_init msgq_static) 0) = 0"
    by (simp add: msglst_init_def msgq_static_def Let_def split: prod.split)
  with utf_msglst_append_inv [OF msglst_init_inv n f, of rhdr ridx, unfolded q] show ?thesis
    by fastforce
qed

definition wanted :: "u32 \<Rightarrow> u64 \<Rightarrow> u64 \<Rightarrow> utf_msghdr \<Rightarrow> bool" where
  "wanted src tag ignore h \<longleftrightarrow> (src = -1 \<or> src = h_src h) \<and> tag AND NOT ignore = h_tag h AND NOT ignore"

lemma tfi_uexplst_match_loop:
  assumes "msgq_inv s Q"
  shows "tfi_utf_uexplst_match n src tag ignore peek s
    = match_loop n peek (\<lambda>m. wanted src tag ignore (ml_hdr m)) s"
  by (cases "src = -1") (simp_all add: tfi_utf_uexplst_match_def isnull_match [OF assms] wanted_def)

text \<open>C13: \<open>tfi_utf_uexplst_match\<close> implements the abstract matching: under the list
  invariant it always returns, its result is the request index of the first unexpected
  message (in arrival order) whose source is the wanted one (or any source is wanted)
  and whose tag agrees on the bits that are not ignored, or -1; exactly that entry moves
  from the queue to the free list and every list stays well formed.\<close>

theorem tfi_uexplst_match_refines:
  assumes inv: "msgq_inv s Q" and n: "n \<noteq> Utf_msglst_freelst"
    and sp: "match_spec (\<lambda>m. wanted src tag ignore (ml_hdr m)) (msl s) (Q n) = (idx, rest, freed)"
  shows "\<exists>s'. tfi_utf_uexplst_match n src tag ignore False s = ret (idx, s') \<and> msl s' = msl s
    \<and> msgq_inv s' (Q(n := rest, Utf_msglst_freelst := freed @ Q Utf_msglst_freelst))"
  using match_loop_spec [OF inv n sp] tfi_uexplst_match_loop [OF inv] by simp

definition hdr_1_5 :: utf_msghdr where
  "hdr_1_5 = zero_hdr\<lparr>h_src := 1, h_tag := 5, h_flgs := MSGHDR_FLGS_FI_TAGGED\<rparr>"

theorem tfi_uexplst_match_refines_witness:
  "\<exists>s s'. utf_msglst_append Tfi_tag_uexplst hdr_1_5 7 (msglst_init msgq_static) = ret (0, s)
     \<and> tfi_utf_uexplst_match Tfi_tag_uexplst (-1) 0x105 0xff00 False s = ret (7, s')
     \<and> slist (msl_next s') (lists s' Tfi_tag_uexplst) []"
proof -
  obtain s where s: "utf_msglst_append Tfi_tag_uexplst hdr_1_5 7 (msglst_init msgq_static) = ret (0, s)"
    and inv: "msgq_inv s ((\<lambda>_. [])(Tfi_tag_uexplst := [0], Utf_msglst_freelst := [1..<MSGLST_SIZE]))"
    and m: "ml_hdr (msl s 0) = hdr_1_5" "reqidx (msl s 0) = 7"
    using after_one_enqueue [of Tfi_tag_uexplst hdr_1_5 7] by auto
  have "match_spec (\<lambda>m. wanted (-1) 0x105 0xff00 (ml_hdr m)) (msl s) [0] = (7, [], [0])"
    using m by (simp add: match_spec_def wanted_def hdr_1_5_def)
  with tfi_uexplst_match_refines [OF inv, of Tfi_tag_uexplst "-1" "0x105" "0xff00" 7 "[]" "[0]"]
  obtain s' where "tfi_utf_uexplst_match Tfi_tag_uexplst (-1) 0x105 0xff00 False s = ret (7, s')"
    "msgq_inv s' ((\<lambda>_. [])(Tfi_tag_uexplst := [], Utf_msglst_freelst := [0] @ [1..<MSGLST_SIZE]))"
    by (auto simp: fun_upd_twist)
  with s show ?thesis by (auto dest: msgq_inv_slist [where n = Tfi_tag_uexplst])
qed

text \<open>C15: messages with the same envelope do not overtake each other. Two unexpected
  messages that both satisfy a receive, enqueued one after the other, are handed to two
  such receives in their arrival order, and the queue is then as it was before.\<close>

theorem unexpected_non_overtaking:
  assumes v: "queue_view (fi_list Tfi_tag_uexplst Tfi_msg_uexplst flgs) s xs (Suc (Suc k))"
    and flgs: "flgs \<noteq> 0"
    and no: "\<And>x. x \<in> set xs \<Longrightarrow> \<not> wanted src tag ignore (fst x)"
    and a: "wanted src tag ignore h1" and b: "wanted src tag ignore h2"
  shows "\<exists>s1 s2 s3 s4. utfgen_uexplst_enqueue flgs h1 i1 s = ret s1 \<and> utfgen_uexplst_enqueue flgs h2 i2 s1 = ret s2
    \<and> tfi_utf_uexplst_match (fi_list Tfi_tag_uexplst Tfi_msg_uexplst flgs) src tag ignore False s2 = ret (sint i1, s3)
    \<and> tfi_utf_uexplst_match (fi_list Tfi_tag_uexplst Tfi_msg_uexplst flgs) src tag ignore False s3 = ret (sint i2, s4)
    \<and> queue_view (fi_list Tfi_tag_uexplst Tfi_msg_uexplst flgs) s4 xs (Suc (Suc k))"
proof -
  let ?n = "fi_list Tfi_tag_uexplst Tfi_msg_uexplst flgs"
  let ?P = "\<lambda>e. wanted src tag ignore (fst e)"
  have e: "utfgen_uexplst_enqueue flgs h i t = queue_enq ?n (h, i) t" for h i t
    using flgs by (simp add: utfgen_uexplst_enqueue_def queue_enq_def)
  have p: "?P \<circ> msl_env = (\<lambda>m. wanted src tag ignore (ml_hdr m))" by (simp add: fun_eq_iff msl_env_def)
  have m: "tfi_utf_uexplst_match ?n src tag ignore False t = match_loop ?n False (?P \<circ> msl_env) t"
    if "queue_view ?n t zs j" for t zs j
    using that tfi_uexplst_match_loop unfolding p queue_view_def by blast
  from fifo.non_overtaking [OF v, of ?P "(h1, i1)" "(h2, i2)"] no a b obtain s1 s2 s3 s4 where
    "queue_enq ?n (h1, i1) s = ret s1" "queue_enq ?n (h2, i2) s1 = ret s2"
    "queue_view ?n s2 (xs @ [(h1, i1), (h2, i2)]) k" "match_loop ?n False (?P \<circ> msl_env) s2 = ret (sint i1, s3)"
    "queue_view ?n s3 (xs @ [(h2, i2)]) (Suc k)" "match_loop ?n False (?P \<circ> msl_env) s3 = ret (sint i2, s4)"
    "queue_view ?n s4 xs (Suc (Suc k))" by auto
  then show ?thesis using e m by auto
qed

theorem unexpected_non_overtaking_witness:
  "\<exists>s1 s2 s3 s4. utfgen_uexplst_enqueue MSGHDR_FLGS_FI_TAGGED hdr_1_5 7 (msglst_init msgq_static) = ret s1
    \<and> utfgen_uexplst_enqueue MSGHDR_FLGS_FI_TAGGED hdr_1_5 4 s1 = ret s2
    \<and> tfi_utf_uexplst_match Tfi_tag_uexplst 1 5 0 False s2 = ret (7, s3)
    \<and> tfi_utf_uexplst_match Tfi_tag_uexplst 1 5 0 False s3 = ret (4, s4)"
proof -
  have l: "fi_list Tfi_tag_uexplst Tfi_msg_uexplst MSGHDR_FLGS_FI_TAGGED = Tfi_tag_uexplst"
    by (simp add: fi_list_def MSGHDR_FLGS_FI_TAGGED_def)
  have w: "wanted 1 5 0 hdr_1_5" by (simp add: wanted_def hdr_1_5_def)
  have v: "queue_view (fi_list Tfi_tag_uexplst Tfi_msg_uexplst MSGHDR_FLGS_FI_TAGGED) (msglst_init msgq_static) [] (Suc (Suc 510))"
    using msglst_init_view [of Tfi_tag_uexplst] l by simp
  show ?thesis
    using unexpected_non_overtaking [OF v _ _ w w, of 7 4] unfolding l
    by (auto simp: MSGHDR_FLGS_FI_TAGGED_def)
qed

text \<open>C14: \<open>tfi_utf_explst_match\<close> implements the abstract matching of an arriving message
  against the posted receives: the first posted receive, in posting order, whose source is
  any or the sender and whose tag agrees with the message on the bits the receive does not
  ignore, is returned and unlinked.\<close>

theorem tfi_explst_match_refines:
  assumes inv: "msgq_inv s Q" and n: "n \<noteq> Utf_msglst_freelst"
    and sp: "match_spec (\<lambda>m. (h_src (ml_hdr m) = -1 \<or> h_src (ml_hdr m) = src)
        \<and> tag AND NOT (fi_ignore m) = h_tag (ml_hdr m) AND NOT (fi_ignore m)) (msl s) (Q n) = (idx, rest, freed)"
  shows "\<exists>s'. tfi_utf_explst_match n src tag False s = ret (idx, s') \<and> msl s' = msl s
    \<and> msgq_inv s' (Q(n := rest, Utf_msglst_freelst := freed @ Q Utf_msglst_freelst))"
proof -
  have "tfi_exp_test src tag = (\<lambda>m. (h_src (ml_hdr m) = -1 \<or> h_src (ml_hdr m) = src)
        \<and> tag AND NOT (fi_ignore m) = h_tag (ml_hdr m) AND NOT (fi_ignore m))"
    by (auto simp: tfi_exp_test_def fun_eq_iff Let_def)
  with match_loop_spec [OF inv n sp] isnull_match [OF inv, of n False] show ?thesis
    by (cases "utfslist_isnull (lists s n)") (simp_all add: tfi_utf_explst_match_def)
qed

theorem tfi_explst_match_refines_witness:
  "\<exists>s s'. utf_msglst_append Tfi_tag_explst hdr_1_5 7 (msglst_init msgq_static) = ret (0, s)
     \<and> tfi_utf_explst_match Tfi_tag_explst 1 5 False s = ret (7, s')
     \<and> slist (msl_next s') (lists s' Tfi_tag_explst) []"
proof -
  obtain s where s: "utf_msglst_append Tfi_tag_explst hdr_1_5 7 (msglst_init msgq_static) = ret (0, s)"
    and inv: "msgq_inv s ((\<lambda>_. [])(Tfi_tag_explst := [0], Utf_msglst_freelst := [1..<MSGLST_SIZE]))"
    and m: "ml_hdr (msl s 0) = hdr_1_5" "reqidx (msl s 0) = 7"
    using after_one_enqueue [of Tfi_tag_explst hdr_1_5 7] by auto
  have "match_spec (\<lambda>m. (h_src (ml_hdr m) = -1 \<or> h_src (ml_hdr m) = 1)
        \<and> 5 AND NOT (fi_ignore m) = h_tag (ml_hdr m) AND NOT (fi_ignore m)) (msl s) [0] = (7, [], [0])"
    using m by (simp add: match_spec_def hdr_1_5_def)
  with tfi_explst_match_refines [OF inv, of Tfi_tag_explst 1 5 7 "[]" "[0]"]
  obtain s' where "tfi_utf_explst_match Tfi_tag_explst 1 5 False s = ret (7, s')"
    "msgq_inv s' ((\<lambda>_. [])(Tfi_tag_explst := [], Utf_msglst_freelst := [0] @ [1..<MSGLST_SIZE]))"
    by (auto simp: fun_upd_twist)
  with s show ?thesis by (auto dest: msgq_inv_slist [where n = Tfi_tag_explst])
qed

definition utf_wanted :: "u32 \<Rightarrow> u32 \<Rightarrow> utf_msghdr \<Rightarrow> bool" where
  "utf_wanted src tag h \<longleftrightarrow> (src = -1 \<or> src = h_src h) \<and> (tag = -1 \<or> ucast tag = h_tag h)"

lemma head_match:
  assumes inv: "msgq_inv s Q" and ne: "\<not> utfslist_isnull (lists s n)"
  shows "\<exists>c. head (lists s n) = Some c \<and> ret (match_find n peek c None s) = match_loop n peek (\<lambda>_. True) s"
proof -
  have sl: "slist (msl_next s) (lists s n) (Q n)" by (rule msgq_inv_slist [OF inv])
  then obtain c bs where q: "Q n = c # bs" using ne slist_isnull [OF sl] by (cases "Q n") auto
  with sl match_loop_eq [OF inv, of n peek "\<lambda>_. True"] show ?thesis by (auto simp: slist_def)
qed

lemma utf_uexplst_match_loop:
  assumes inv: "msgq_inv s Q" and arg: "src = -1 \<or> tag \<noteq> -1"
  shows "utf_uexplst_match src tag False s = match_loop Utf_uexplst False (\<lambda>m. utf_wanted src tag (ml_hdr m)) s"
proof (cases "utfslist_isnull (lists s Utf_uexplst)")
  case True
  then show ?thesis by (simp add: utf_uexplst_match_def isnull_match [OF inv])
next
  case False
  with head_match [OF inv False, of False] arg show ?thesis
    by (cases "tag = -1"; cases "src = -1") (auto simp: utf_uexplst_match_def utf_wanted_def)
qed

text \<open>For a receive that names its tag, or that leaves both source and tag open,
  \<open>utf_uexplst_match\<close> hands out the first unexpected message, in arrival order, whose
  envelope the receive accepts, and unlinks exactly that message.\<close>

theorem utf_uexplst_match_refines:
  assumes inv: "msgq_inv s Q" and arg: "src = -1 \<or> tag \<noteq> -1"
    and sp: "match_spec (\<lambda>m. utf_wanted src tag (ml_hdr m)) (msl s) (Q Utf_uexplst) = (idx, rest, freed)"
  shows "\<exists>s'. utf_uexplst_match src tag False s = ret (idx, s') \<and> msl s' = msl s
    \<and> msgq_inv s' (Q(Utf_uexplst := rest, Utf_msglst_freelst := freed @ Q Utf_msglst_freelst))"
  using match_loop_spec [OF inv _ sp] utf_uexplst_match_loop [OF inv arg] by simp

theorem utf_uexplst_match_refines_witness:
  "\<exists>s s'. utf_msglst_append Utf_uexplst hdr_1_5 7 (msglst_init msgq_static) = ret (0, s)
     \<and> utf_uexplst_match (-1) 5 False s = ret (7, s')"
proof -
  obtain s where s: "utf_msglst_append Utf_uexplst hdr_1_5 7 (msglst_init msgq_static) = ret (0, s)"
    and inv: "msgq_inv s ((\<lambda>_. [])(Utf_uexplst := [0], Utf_msglst_freelst := [1..<MSGLST_SIZE]))"
    and m: "ml_hdr (msl s 0) = hdr_1_5" "reqidx (msl s 0) = 7"
    using after_one_enqueue [of Utf_uexplst hdr_1_5 7] by auto
  have "match_spec (\<lambda>m. utf_wanted (-1) 5 (ml_hdr m)) (msl s) [0] = (7, [], [0])"
    using m by (simp add: match_spec_def utf_wanted_def hdr_1_5_def)
  with utf_uexplst_match_refines [OF inv, of "-1" 5 7 "[]" "[0]"] s show ?thesis by auto
qed

text \<open>The tag wildcard of the plain interface does not work on the unexpected queue: a
  receive for any tag from \<open>src\<close> selects the first message whose \<open>tag\<close>, not whose source,
  equals \<open>src\<close>.\<close>

theorem utf_uexplst_any_tag_compares_tag:
  assumes inv: "msgq_inv s Q" and src: "src \<noteq> -1"
    and sp: "match_spec (\<lambda>m. h_tag (ml_hdr m) = ucast src) (msl s) (Q Utf_uexplst) = (idx, rest, freed)"
  shows "\<exists>s'. utf_uexplst_match src (-1) False s = ret (idx, s')"
proof -
  have "utf_uexplst_match src (-1) False s = match_loop Utf_uexplst False (\<lambda>m. h_tag (ml_hdr m) = ucast src) s"
    using src by (simp add: utf_uexplst_match_def isnull_match [OF inv] eq_commute [of "ucast src :: u64"])
  with match_loop_spec [OF inv _ sp] show ?thesis by auto
qed

theorem utf_uexplst_any_tag_witness:
  "\<exists>s s' s''. utf_msglst_append Utf_uexplst hdr_1_5 7 (msglst_init msgq_static) = ret (0, s)
     \<and> h_src hdr_1_5 = 1 \<and> utf_uexplst_match 1 (-1) False s = ret (-1, s')
     \<and> utf_uexplst_match 5 (-1) False s = ret (7, s'')"
proof -
  obtain s where s: "utf_msglst_append Utf_uexplst hdr_1_5 7 (msglst_init msgq_static) = ret (0, s)"
    and inv: "msgq_inv s ((\<lambda>_. [])(Utf_uexplst := [0], Utf_msglst_freelst := [1..<MSGLST_SIZE]))"
    and m: "ml_hdr (msl s 0) = hdr_1_5" "reqidx (msl s 0) = 7"
    using after_one_enqueue [of Utf_uexplst hdr_1_5 7] by auto
  have "match_spec (\<lambda>m. h_tag (ml_hdr m) = ucast (1 :: u32)) (msl s) [0] = (-1, [0], [])"
    "match_spec (\<lambda>m. h_tag (ml_hdr m) = ucast (5 :: u32)) (msl s) [0] = (7, [], [0])"
    using m by (simp_all add: match_spec_def hdr_1_5_def)
  with utf_uexplst_any_tag_compares_tag [OF inv, of 1 "-1" "[0]" "[]"]
    utf_uexplst_any_tag_compares_tag [OF inv, of 5 7 "[]" "[0]"] s
  show ?thesis by (auto simp: hdr_1_5_def)
qed

text \<open>As long as no posted receive has an open source, \<open>utf_explst_match\<close> returns and
  unlinks the first posted receive from the sender whose 32-bit tag is open or the
  message's tag.\<close>

theorem utf_explst_match_refines:
  assumes inv: "msgq_inv s Q" and nw: "\<forall>m \<in> set (Q Utf_explst). h_src (ml_hdr (msl s m)) \<noteq> -1"
    and sp: "match_spec (\<lambda>m. h_src (ml_hdr m) = src \<and>
        ((ucast (h_tag (ml_hdr m)) :: u32) = -1 \<or> (ucast (h_tag (ml_hdr m)) :: u32) = tag))
        (msl s) (Q Utf_explst) = (idx, rest, freed)"
  shows "\<exists>s'. utf_explst_match src tag False s = ret (idx, s') \<and> msl s' = msl s
    \<and> msgq_inv s' (Q(Utf_explst := rest, Utf_msglst_freelst := freed @ Q Utf_msglst_freelst))"
proof -
  let ?P = "\<lambda>m. h_src (ml_hdr m) = src \<and>
        ((ucast (h_tag (ml_hdr m)) :: u32) = -1 \<or> (ucast (h_tag (ml_hdr m)) :: u32) = tag)"
  have t: "utf_exp_test src tag (msl s m) = ?P (msl s m)" if "m \<in> set (Q Utf_explst)" for m
    using nw that by (auto simp: utf_exp_test_def Let_def)
  have "match_spec (utf_exp_test src tag) (msl s) (Q Utf_explst) = match_spec ?P (msl s) (Q Utf_explst)"
    by (rule match_spec_cong) (rule t)
  with match_loop_spec [OF inv, of Utf_explst "utf_exp_test src tag"] sp isnull_match [OF inv, of Utf_explst False]
  show ?thesis by (cases "utfslist_isnull (lists s Utf_explst)") (simp_all add: utf_explst_match_def)
qed

theorem utf_explst_match_refines_witness:
  "\<exists>s s'. utf_msglst_append Utf_explst hdr_1_5 7 (msglst_init msgq_static) = ret (0, s)
     \<and> utf_explst_match 1 5 False s = ret (7, s')"
proof -
  obtain s where s: "utf_msglst_append Utf_explst hdr_1_5 7 (msglst_init msgq_static) = ret (0, s)"
    and inv: "msgq_inv s ((\<lambda>_. [])(Utf_explst := [0], Utf_msglst_freelst := [1..<MSGLST_SIZE]))"
    and m: "ml_hdr (msl s 0) = hdr_1_5" "reqidx (msl s 0) = 7"
    using after_one_enqueue [of Utf_explst hdr_1_5 7] by auto
  have "match_spec (\<lambda>m. h_src (ml_hdr m) = 1 \<and>
        ((ucast (h_tag (ml_hdr m)) :: u32) = -1 \<or> (ucast (h_tag (ml_hdr m)) :: u32) = 5)) (msl s) [0] = (7, [], [0])"
    "h_src (ml_hdr (msl s 0)) \<noteq> -1"
    using m by (simp_all add: match_spec_def hdr_1_5_def)
  with utf_explst_match_refines [OF inv, of 1 5 7 "[]" "[0]"] s show ?thesis by auto
qed

text \<open>A posted receive with an open source and a named tag takes every message: the
  first branch of \<open>utf_explst_match\<close> does not look at the tag of the message. A receive
  with both open accepts only messages whose tag is the wildcard value itself.\<close>

theorem utf_explst_any_source_ignores_tag:
  assumes inv: "msgq_inv s Q" and q: "Q Utf_explst = c # bs" and src: "h_src (ml_hdr (msl s c)) = -1"
  shows "\<exists>s'. utf_explst_match sender tag False s =
    ret (if (ucast (h_tag (ml_hdr (msl s c))) :: u32) \<noteq> -1 \<or> tag = -1 \<or> sender = -1 then sint (reqidx (msl s c))
         else fst (match_spec (utf_exp_test sender tag) (msl s) bs), s')"
proof -
  have t: "utf_exp_test sender tag (msl s c) \<longleftrightarrow>
      (ucast (h_tag (ml_hdr (msl s c))) :: u32) \<noteq> -1 \<or> tag = -1 \<or> sender = -1"
    using src by (auto simp: utf_exp_test_def Let_def)
  obtain i r f where sp: "match_spec (utf_exp_test sender tag) (msl s) (Q Utf_explst) = (i, r, f)"
    by (metis prod_cases3)
  have "i = (if utf_exp_test sender tag (msl s c) then sint (reqidx (msl s c))
         else fst (match_spec (utf_exp_test sender tag) (msl s) bs))"
    using sp q by (auto simp: match_spec_Cons split: prod.splits)
  moreover have "\<not> utfslist_isnull (lists s Utf_explst)"
    using slist_isnull [OF msgq_inv_slist [OF inv, of Utf_explst]] q by simp
  ultimately show ?thesis
    using match_loop_spec [OF inv _ sp] t by (auto simp: utf_explst_match_def)
qed

theorem utf_explst_any_source_witness:
  "\<exists>s s'. utf_msglst_append Utf_explst (hdr_1_5\<lparr>h_src := -1\<rparr>) 7 (msglst_init msgq_static) = ret (0, s)
     \<and> utf_explst_match 3 99 False s = ret (7, s')"
proof -
  obtain s where s: "utf_msglst_append Utf_explst (hdr_1_5\<lparr>h_src := -1\<rparr>) 7 (msglst_init msgq_static) = ret (0, s)"
    and inv: "msgq_inv s ((\<lambda>_. [])(Utf_explst := [0], Utf_msglst_freelst := [1..<MSGLST_SIZE]))"
    and m: "ml_hdr (msl s 0) = hdr_1_5\<lparr>h_src := -1\<rparr>" "reqidx (msl s 0) = 7"
    using after_one_enqueue [of Utf_explst "hdr_1_5\<lparr>h_src := -1\<rparr>" 7] by auto
  show ?thesis
    using utf_explst_any_source_ignores_tag [OF inv, of 0 "[]" 3 99] m s by (auto simp: hdr_1_5_def)
qed

text \<open>The packed second word of a message header carries its six bit fields without
  loss: writing the word and reading the fields back gives the fields written, and reading
  the fields of any word and packing them again gives that word.\<close>

theorem msghdr_pack_roundtrip:
  "set_hall (hall h) h = h \<and> hall (set_hall w h) = w"
  using set_hall_hall [of h h] hall_set_hall by simp_all

text \<open>The rendezvous control data (chunk lengths, VCQ ids and steering addresses) occupies
  exactly the 80 bytes a rendezvous request carries, and the receiver reads back what the
  sender wrote, in the plain view at offset 0 and in the libfabric view at offset 8 of the
  payload.\<close>

theorem rndz_data_roundtrip:
  assumes "wf_vcqid_stadd v" and "length rest = MSG_PYLDSZ - MSG_RCNTRSZ"
    and "length d = 8" and "length rest' = MSG_FI_PYLDSZ - MSG_RCNTRSZ"
  shows "wf_pkt \<lparr>hdr = h, pyld = enc_vcqid_stadd v @ rest\<rparr>
    \<and> PKT_RADDR \<lparr>hdr = h, pyld = enc_vcqid_stadd v @ rest\<rparr> = v
    \<and> PKT_FI_RADDR \<lparr>hdr = h, pyld = d @ enc_vcqid_stadd v @ rest'\<rparr> = v"
  using assms length_enc_vcqid_stadd [OF assms(1)] dec_enc_vcqid_stadd [OF assms(1)]
  by (simp add: wf_pkt_def PKT_RADDR_def PKT_FI_RADDR_def bytes_at_def msg_size_defs)

theorem rndz_data_roundtrip_witness:
  "PKT_RADDR \<lparr>hdr = zero_hdr, pyld = enc_vcqid_stadd
      \<lparr>rndzpos = 1, inflight = 0, nent = 1, len3 = [9, 0, 0], vcqid3 = [8, 0, 0], stadd3 = [7, 0, 0]\<rparr> @ replicate 156 0\<rparr>
   = \<lparr>rndzpos = 1, inflight = 0, nent = 1, len3 = [9, 0, 0], vcqid3 = [8, 0, 0], stadd3 = [7, 0, 0]\<rparr>"
  using rndz_data_roundtrip [of "\<lparr>rndzpos = 1, inflight = 0, nent = 1, len3 = [9, 0, 0], vcqid3 = [8, 0, 0], stadd3 = [7, 0, 0]\<rparr>"
      "replicate 156 0" "replicate 8 0" "replicate 148 0" zero_hdr]
  by (simp add: wf_vcqid_stadd_def msg_size_defs)

end
