(* ===== verification/Utf_Req.thy ===== *)
theory Utf_Req
  imports Utf_Queue
begin

text \<open>
  Request objects: \<open>struct utf_msgreq\<close> of \<open>src/src/include/utf_queue.h\<close>, the pool
  \<open>utf_msgrq\<close> with its free list and the two counters that bound the send and receive
  requests (\<open>src/src/include/utf_msgmacros.h\<close>), and the list of remote gets in progress
  (\<open>find_rget_msgreq\<close> of \<open>src/src/base/utf_engine.c\<close>). The lemmas show that a request
  is never handed out twice, that the counters account for every request in use, and
  how far the two bounds protect the pool.
\<close>

section \<open>Data\<close>

definition MSGREQ_SEND_SZ :: nat where "MSGREQ_SEND_SZ = 256"
definition MSGREQ_RECV_SZ :: nat where "MSGREQ_RECV_SZ = 256"
definition MSGREQ_SIZE :: nat where "MSGREQ_SIZE = MSGREQ_SEND_SZ + MSGREQ_RECV_SZ"

datatype utq_reqstatus = REQ_NONE | REQ_PRG_NORMAL | REQ_DONE | REQ_WAIT_RNDZ | REQ_DO_RNDZ

text \<open>The request type is a 3-bit field that is also compared by size.\<close>

definition REQ_RECV_EXPECTED :: "3 word" where "REQ_RECV_EXPECTED = 1"
definition REQ_RECV_UNEXPECTED :: "3 word" where "REQ_RECV_UNEXPECTED = 2"
definition REQ_RECV_EXPECTED2 :: "3 word" where "REQ_RECV_EXPECTED2 = 3"
definition REQ_SND_BUFFERED_EAGER :: "3 word" where "REQ_SND_BUFFERED_EAGER = 4"
definition REQ_SND_INPLACE_EAGER :: "3 word" where "REQ_SND_INPLACE_EAGER = 5"
definition REQ_SND_RENDEZOUS :: "3 word" where "REQ_SND_RENDEZOUS = 6"

lemmas req_type_defs = REQ_RECV_EXPECTED_def REQ_RECV_UNEXPECTED_def REQ_RECV_EXPECTED2_def
  REQ_SND_BUFFERED_EAGER_def REQ_SND_INPLACE_EAGER_def REQ_SND_RENDEZOUS_def

text \<open>
  An address is a block of memory and an offset into it. \<open>iovec\<close> is a base and a length.
\<close>

type_synonym addr = "nat \<times> nat"

record iovec =
  iov_base :: addr
  iov_len :: u64

record utf_vcqhdl_stadd =
  b_nent :: u64
  b_recvlen :: "u64 list"
  b_vcqhdl :: "u64 list"
  b_stadd :: "u64 list"

text \<open>
  \<open>notify\<close> is a callback of the layer above, \<open>rcntr\<close> a receive control entry. The two list
  links \<open>slst\<close> and \<open>rget_slst\<close> are the two link stores of the pool below.
\<close>

record utf_msgreq =
  r_hdr :: utf_msghdr
  r_buf :: "addr ptr"
  r_rsize :: "35 word"
  r_state :: utq_reqstatus
  r_ustatus :: utq_reqstatus
  r_overrun :: bool
  r_reclaim :: bool
  r_rndz :: "1 word"
  r_type :: "3 word"
  r_alloc :: bool
  r_rcvexpsz :: u64
  r_usrreqsz :: u64
  r_notify :: "nat ptr"
  r_rcntr :: "nat ptr"
  r_rgetsender :: utf_vcqid_stadd
  r_bufinfo :: utf_vcqhdl_stadd
  r_fi_data :: u64
  r_fi_ucontext :: u64
  r_fi_iov_count :: u64
  r_fi_msg :: "iovec list"

text \<open>\<open>req->allflgs = 0\<close>: the union member that overlays the bit fields.\<close>

definition clear_allflgs :: "utf_msgreq \<Rightarrow> utf_msgreq" where
  "clear_allflgs r = r\<lparr>r_rsize := 0, r_state := REQ_NONE, r_ustatus := REQ_NONE, r_overrun := False,
     r_reclaim := False, r_rndz := 0, r_type := 0, r_alloc := False\<rparr>"

record reqpool =
  rq :: "nat \<Rightarrow> utf_msgreq"
  rq_next :: "nat links"
  rq_freelst :: "nat utfslist"
  sreq_count :: int
  rreq_count :: int
  rget_next :: "nat links"
  rget_proglst :: "nat utfslist"

section \<open>Operations\<close>

definition upd_req :: "nat \<Rightarrow> (utf_msgreq \<Rightarrow> utf_msgreq) \<Rightarrow> reqpool \<Rightarrow> reqpool" where
  "upd_req i f s = s\<lparr>rq := (rq s)(i := f (rq s i))\<rparr>"

definition pop_req :: "reqpool \<Rightarrow> (nat ptr \<times> reqpool) outcome" where
  "pop_req s = bindO (utfslist_remove (rq_next s) (rq_freelst s)) (\<lambda>(h, l, slst).
     case slst of None \<Rightarrow> crash Aborted
     | Some i \<Rightarrow> ret (Some i, s\<lparr>rq_next := h, rq_freelst := l\<rparr>))"

definition utf_sendreq_alloc :: "reqpool \<Rightarrow> (nat ptr \<times> reqpool) outcome" where
  "utf_sendreq_alloc s =
     (if sreq_count s > int MSGREQ_SEND_SZ then ret (None, s)
      else pop_req (s\<lparr>sreq_count := sreq_count s + 1\<rparr>))"

definition utf_recvreq_alloc :: "reqpool \<Rightarrow> (nat ptr \<times> reqpool) outcome" where
  "utf_recvreq_alloc s =
     (if rreq_count s > int MSGREQ_RECV_SZ then ret (None, s)
      else pop_req (s\<lparr>rreq_count := rreq_count s + 1\<rparr>))"

definition push_req :: "nat \<Rightarrow> reqpool \<Rightarrow> reqpool" where
  "push_req i s = (let (h, l) = utfslist_insert (rq_next s) (rq_freelst s) i
     in s\<lparr>rq_next := h, rq_freelst := l\<rparr>)"

definition utf_sendreq_free :: "nat \<Rightarrow> reqpool \<Rightarrow> reqpool" where
  "utf_sendreq_free i s =
     (let s1 = upd_req i (\<lambda>r. r\<lparr>r_state := REQ_NONE, r_ustatus := REQ_NONE, r_notify := None\<rparr>) s
      in push_req i (s1\<lparr>sreq_count := sreq_count s1 - 1\<rparr>))"

definition utf_recvreq_free :: "nat \<Rightarrow> reqpool \<Rightarrow> reqpool" where
  "utf_recvreq_free i s =
     (let s1 = upd_req i (\<lambda>r. r\<lparr>r_state := REQ_NONE, r_ustatus := REQ_NONE, r_notify := None\<rparr>) s
      in push_req i (s1\<lparr>rreq_count := rreq_count s1 - 1\<rparr>))"

text \<open>\<open>utfslist_append(&utf_rget_proglst, &req->rget_slst)\<close>\<close>

definition rget_append :: "nat \<Rightarrow> reqpool \<Rightarrow> reqpool" where
  "rget_append i s = (let (h, l, _) = utfslist_append (rget_next s) (rget_proglst s) i
     in s\<lparr>rget_next := h, rget_proglst := l\<rparr>)"

text \<open>The inner loop: is \<open>vcqid\<close> among the first \<open>nent\<close> entries? The array has three.\<close>

definition has_vcqid :: "u64 \<Rightarrow> utf_vcqid_stadd \<Rightarrow> bool" where
  "has_vcqid v vsp \<longleftrightarrow> v \<in> set (take (unat (nent vsp)) (vcqid3 vsp))"

definition find_rget_msgreq :: "u64 \<Rightarrow> reqpool \<Rightarrow> (nat ptr \<times> reqpool) outcome" where
  "find_rget_msgreq vcqid s =
     (case utfslist_foreach2 (rget_next s) (\<lambda>i. has_vcqid vcqid (r_rgetsender (rq s i)))
             (head (rget_proglst s)) None of
        None \<Rightarrow> None
      | Some None \<Rightarrow> ret (None, s)
      | Some (Some (cur, prev)) \<Rightarrow>
          let (h, l, _) = utfslist_remove2 (rget_next s) (rget_proglst s) cur prev
          in ret (Some cur, s\<lparr>rget_next := h(cur := None), rget_proglst := l\<rparr>))"

text \<open>The request part of \<open>utf_mem_init\<close>: \<open>memset\<close>, then every entry is appended.\<close>

definition zero_vcqid_stadd :: utf_vcqid_stadd where
  "zero_vcqid_stadd = \<lparr>rndzpos = 0, inflight = 0, nent = 0, len3 = [0, 0, 0], vcqid3 = [0, 0, 0], stadd3 = [0, 0, 0]\<rparr>"

definition zero_req :: utf_msgreq where
  "zero_req = \<lparr>r_hdr = zero_hdr, r_buf = None, r_rsize = 0, r_state = REQ_NONE, r_ustatus = REQ_NONE,
     r_overrun = False, r_reclaim = False, r_rndz = 0, r_type = 0, r_alloc = False, r_rcvexpsz = 0, r_usrreqsz = 0,
     r_notify = None, r_rcntr = None, r_rgetsender = zero_vcqid_stadd,
     r_bufinfo = \<lparr>b_nent = 0, b_recvlen = [0, 0, 0], b_vcqhdl = [0, 0, 0], b_stadd = [0, 0, 0]\<rparr>,
     r_fi_data = 0, r_fi_ucontext = 0, r_fi_iov_count = 0,
     r_fi_msg = replicate 4 \<lparr>iov_base = (0, 0), iov_len = 0\<rparr>\<rparr>"

definition reqpool_init :: reqpool where
  "reqpool_init =
     (let (h, l) = utfslist_append_all (\<lambda>_. None) (utfslist_init \<lparr>head = None, tail = None\<rparr> None) [0..<MSGREQ_SIZE]
      in \<lparr>rq = (\<lambda>_. zero_req), rq_next = h, rq_freelst = l, sreq_count = 0, rreq_count = 0,
          rget_next = (\<lambda>_. None), rget_proglst = utfslist_init \<lparr>head = None, tail = None\<rparr> None\<rparr>)"

section \<open>Invariant\<close>

text \<open>
  \<open>F\<close> are the free requests in list order, \<open>S\<close> and \<open>R\<close> the requests handed out for
  sending and receiving. Every request is in exactly one of the three, and the counters
  count the last two.
\<close>

definition req_inv :: "reqpool \<Rightarrow> nat list \<Rightarrow> nat set \<Rightarrow> nat set \<Rightarrow> bool" where
  "req_inv s F S R \<longleftrightarrow> slist (rq_next s) (rq_freelst s) F
     \<and> set F \<inter> S = {} \<and> set F \<inter> R = {} \<and> S \<inter> R = {} \<and> set F \<union> S \<union> R = {..<MSGREQ_SIZE}
     \<and> sreq_count s = int (card S) \<and> rreq_count s = int (card R)"

lemma req_inv_finite: "req_inv s F S R \<Longrightarrow> finite S \<and> finite R"
  by (metis finite_Un finite_lessThan req_inv_def)

lemma req_inv_count:
  assumes "req_inv s F S R"
  shows "length F + card S + card R = MSGREQ_SIZE"
proof -
  have d: "distinct F" using assms slist_distinct by (auto simp: req_inv_def)
  have fin: "finite S" "finite R" using req_inv_finite [OF assms] by auto
  have "card (set F \<union> S \<union> R) = card (set F \<union> S) + card R"
    using assms fin by (intro card_Un_disjoint) (auto simp: req_inv_def)
  also have "card (set F \<union> S) = card (set F) + card S"
    using assms fin by (intro card_Un_disjoint) (auto simp: req_inv_def)
  finally show ?thesis using assms d by (auto simp: req_inv_def distinct_card)
qed

lemma reqpool_init_inv: "req_inv reqpool_init [0..<MSGREQ_SIZE] {} {}"
proof -
  obtain h l where a: "utfslist_append_all (\<lambda>_. None) (utfslist_init \<lparr>head = None, tail = None\<rparr> None)
      [0..<MSGREQ_SIZE] = (h, l)" by fastforce
  have "slist h l ([] @ [0..<MSGREQ_SIZE])" by (rule slist_append_all [OF slist_init _ a]) simp
  then show ?thesis using a by (auto simp: req_inv_def reqpool_init_def)
qed

lemma pop_req_Nil: "slist (rq_next s) (rq_freelst s) [] \<Longrightarrow> pop_req s = crash Aborted"
  by (simp add: pop_req_def sl.rep_remove_Nil)

lemma pop_req_Cons:
  assumes "slist (rq_next s) (rq_freelst s) (i # F)"
  shows "\<exists>h l. pop_req s = ret (Some i, s\<lparr>rq_next := h, rq_freelst := l\<rparr>) \<and> slist h l F"
proof -
  from sl.rep_remove_Cons [OF assms] obtain h l where
    "utfslist_remove (rq_next s) (rq_freelst s) = ret (h, l, Some i)" "slist h l F" by blast
  then have "pop_req s = ret (Some i, s\<lparr>rq_next := h, rq_freelst := l\<rparr>) \<and> slist h l F"
    by (simp add: pop_req_def)
  then show ?thesis by blast
qed

lemma push_req_slist:
  assumes "slist (rq_next s) (rq_freelst s) F" and "i \<notin> set F"
  shows "slist (rq_next (push_req i s)) (rq_freelst (push_req i s)) (i # F)"
  using sl.rep_insert [OF assms] by (auto simp: push_req_def split: prod.splits)

lemma push_req_fields [simp]:
  "rq (push_req i s) = rq s" "sreq_count (push_req i s) = sreq_count s" "rreq_count (push_req i s) = rreq_count s"
  by (simp_all add: push_req_def split: prod.splits)

lemma upd_req_fields [simp]:
  "rq_next (upd_req i f s) = rq_next s" "rq_freelst (upd_req i f s) = rq_freelst s"
  "sreq_count (upd_req i f s) = sreq_count s" "rreq_count (upd_req i f s) = rreq_count s"
  "rget_next (upd_req i f s) = rget_next s" "rget_proglst (upd_req i f s) = rget_proglst s"
  "rq (upd_req i f s) i = f (rq s i)" "j \<noteq> i \<Longrightarrow> rq (upd_req i f s) j = rq s j"
  by (simp_all add: upd_req_def)

text \<open>
  Both allocators: the abstract effect when a request is free. The send and the receive
  side are the same up to the counter.
\<close>

lemma sendreq_alloc_inv:
  assumes inv: "req_inv s (i # F) S R" and c: "card S \<le> MSGREQ_SEND_SZ"
  shows "\<exists>s'. utf_sendreq_alloc s = ret (Some i, s') \<and> i \<notin> S \<union> R \<and> rq s' = rq s \<and> req_inv s' F (insert i S) R"
proof -
  let ?t = "s\<lparr>sreq_count := sreq_count s + 1\<rparr>"
  have sl: "slist (rq_next ?t) (rq_freelst ?t) (i # F)" and cnt: "sreq_count s = int (card S)"
    using inv by (auto simp: req_inv_def)
  have i: "i \<notin> S" "i \<notin> R" "i \<notin> set F" using inv slist_distinct [OF sl] by (auto simp: req_inv_def)
  from pop_req_Cons [OF sl] obtain h l where
    p: "pop_req ?t = ret (Some i, ?t\<lparr>rq_next := h, rq_freelst := l\<rparr>)" "slist h l F" by blast
  have "req_inv (?t\<lparr>rq_next := h, rq_freelst := l\<rparr>) F (insert i S) R"
    using inv p i req_inv_finite [OF inv] by (auto simp: req_inv_def)
  with p i cnt c show ?thesis by (auto simp: utf_sendreq_alloc_def)
qed

lemma recvreq_alloc_inv:
  assumes inv: "req_inv s (i # F) S R" and c: "card R \<le> MSGREQ_RECV_SZ"
  shows "\<exists>s'. utf_recvreq_alloc s = ret (Some i, s') \<and> i \<notin> S \<union> R \<and> rq s' = rq s \<and> req_inv s' F S (insert i R)"
proof -
  let ?t = "s\<lparr>rreq_count := rreq_count s + 1\<rparr>"
  have sl: "slist (rq_next ?t) (rq_freelst ?t) (i # F)" and cnt: "rreq_count s = int (card R)"
    using inv by (auto simp: req_inv_def)
  have i: "i \<notin> S" "i \<notin> R" "i \<notin> set F" using inv slist_distinct [OF sl] by (auto simp: req_inv_def)
  from pop_req_Cons [OF sl] obtain h l where
    p: "pop_req ?t = ret (Some i, ?t\<lparr>rq_next := h, rq_freelst := l\<rparr>)" "slist h l F" by blast
  have "req_inv (?t\<lparr>rq_next := h, rq_freelst := l\<rparr>) F S (insert i R)"
    using inv p i req_inv_finite [OF inv] by (auto simp: req_inv_def)
  with p i cnt c show ?thesis by (auto simp: utf_recvreq_alloc_def)
qed

lemma sendreq_free_inv:
  assumes inv: "req_inv s F S R" and i: "i \<in> S"
  shows "req_inv (utf_sendreq_free i s) (i # F) (S - {i}) R"
proof -
  have "i \<notin> set F" "i \<notin> R" "finite S" using inv i req_inv_finite [OF inv] by (auto simp: req_inv_def)
  moreover from this have "slist (rq_next s) (rq_freelst s) F \<Longrightarrow>
      slist (rq_next (utf_sendreq_free i s)) (rq_freelst (utf_sendreq_free i s)) (i # F)"
    unfolding utf_sendreq_free_def Let_def by (intro push_req_slist) auto
  moreover have "0 < card S" using i \<open>finite S\<close> by (auto simp: card_gt_0_iff)
  ultimately show ?thesis
    using inv i by (auto simp: req_inv_def utf_sendreq_free_def Let_def)
qed

lemma recvreq_free_inv:
  assumes inv: "req_inv s F S R" and i: "i \<in> R"
  shows "req_inv (utf_recvreq_free i s) (i # F) S (R - {i})"
proof -
  have "i \<notin> set F" "i \<notin> S" "finite R" using inv i req_inv_finite [OF inv] by (auto simp: req_inv_def)
  moreover from this have "slist (rq_next s) (rq_freelst s) F \<Longrightarrow>
      slist (rq_next (utf_recvreq_free i s)) (rq_freelst (utf_recvreq_free i s)) (i # F)"
    unfolding utf_recvreq_free_def Let_def by (intro push_req_slist) auto
  moreover have "0 < card R" using i \<open>finite R\<close> by (auto simp: card_gt_0_iff)
  ultimately show ?thesis
    using inv i by (auto simp: req_inv_def utf_recvreq_free_def Let_def)
qed

section \<open>The pool as an interface\<close>

text \<open>
  A pool hands out objects that are not in use and takes them back. A client that only
  uses this interface never holds the same object twice.
\<close>

locale object_pool =
  fixes held :: "'s \<Rightarrow> 'o set \<Rightarrow> bool"
    and alloc :: "'s \<Rightarrow> ('o ptr \<times> 's) outcome"
    and free :: "'o \<Rightarrow> 's \<Rightarrow> 's"
  assumes alloc_held: "held s X \<Longrightarrow> alloc s = ret (Some i, s') \<Longrightarrow> i \<notin> X \<and> held s' (insert i X)"
    and alloc_null: "held s X \<Longrightarrow> alloc s = ret (None, s') \<Longrightarrow> held s' X"
    and free_held: "held s X \<Longrightarrow> i \<in> X \<Longrightarrow> held (free i s) (X - {i})"
begin

inductive trace :: "'s \<Rightarrow> 'o list \<Rightarrow> 's \<Rightarrow> bool" where
  trace_nil: "trace s [] s"
| trace_alloc: "trace s xs s1 \<Longrightarrow> alloc s1 = ret (Some i, s2) \<Longrightarrow> trace s (xs @ [i]) s2"
| trace_null: "trace s xs s1 \<Longrightarrow> alloc s1 = ret (None, s2) \<Longrightarrow> trace s xs s2"

lemma trace_distinct: "trace s xs s' \<Longrightarrow> held s X \<Longrightarrow> distinct xs \<and> set xs \<inter> X = {} \<and> held s' (X \<union> set xs)"
proof (induction rule: trace.induct)
  case (trace_alloc s xs s1 i s2)
  with alloc_held [of s1 "X \<union> set xs" i s2] show ?case by auto
next
  case (trace_null s xs s1 s2)
  with alloc_null show ?case by blast
qed simp

lemma free_then_alloc_other: "held s X \<Longrightarrow> i \<in> X \<Longrightarrow> alloc (free i s) = ret (Some j, s') \<Longrightarrow> j \<notin> X - {i}"
  using alloc_held free_held by blast

end

lemma req_inv_alloc_None: "slist (rq_next s) (rq_freelst s) [] \<Longrightarrow> pop_req s = ret x \<Longrightarrow> False"
  by (simp add: pop_req_Nil)

definition holds_send :: "reqpool \<Rightarrow> nat set \<Rightarrow> bool" where
  "holds_send s X \<longleftrightarrow> (\<exists>F R. req_inv s F X R)"

definition holds_recv :: "reqpool \<Rightarrow> nat set \<Rightarrow> bool" where
  "holds_recv s X \<longleftrightarrow> (\<exists>F S. req_inv s F S X)"

lemma sendreq_alloc_ret:
  assumes inv: "req_inv s F S R" and a: "utf_sendreq_alloc s = ret (r, s')"
  shows "(r = None \<and> s' = s) \<or> (\<exists>i F'. F = i # F' \<and> r = Some i \<and> i \<notin> S \<union> R \<and> req_inv s' F' (insert i S) R)"
proof (cases "sreq_count s > int MSGREQ_SEND_SZ")
  case False
  then have c: "card S \<le> MSGREQ_SEND_SZ" using inv by (simp add: req_inv_def)
  from False a inv have "F \<noteq> []" by (auto simp: utf_sendreq_alloc_def req_inv_def pop_req_Nil)
  then obtain i F' where "F = i # F'" by (cases F) auto
  with sendreq_alloc_inv [of s i F' S R] inv a c show ?thesis by auto
qed (use a in \<open>auto simp: utf_sendreq_alloc_def\<close>)

lemma recvreq_alloc_ret:
  assumes inv: "req_inv s F S R" and a: "utf_recvreq_alloc s = ret (r, s')"
  shows "(r = None \<and> s' = s) \<or> (\<exists>i F'. F = i # F' \<and> r = Some i \<and> i \<notin> S \<union> R \<and> req_inv s' F' S (insert i R))"
proof (cases "rreq_count s > int MSGREQ_RECV_SZ")
  case False
  then have c: "card R \<le> MSGREQ_RECV_SZ" using inv by (simp add: req_inv_def)
  from False a inv have "F \<noteq> []" by (auto simp: utf_recvreq_alloc_def req_inv_def pop_req_Nil)
  then obtain i F' where "F = i # F'" by (cases F) auto
  with recvreq_alloc_inv [of s i F' S R] inv a c show ?thesis by auto
qed (use a in \<open>auto simp: utf_recvreq_alloc_def\<close>)

interpretation sreq: object_pool holds_send utf_sendreq_alloc utf_sendreq_free
proof (unfold_locales, goal_cases)
  case (1 s X i s')
  then show ?case by (auto simp: holds_send_def dest: sendreq_alloc_ret)
next
  case (2 s X s')
  then show ?case by (auto simp: holds_send_def dest: sendreq_alloc_ret)
next
  case (3 s X i)
  then show ?case by (auto simp: holds_send_def dest: sendreq_free_inv)
qed

interpretation rreq: object_pool holds_recv utf_recvreq_alloc utf_recvreq_free
proof (unfold_locales, goal_cases)
  case (1 s X i s')
  then show ?case by (auto simp: holds_recv_def dest: recvreq_alloc_ret)
next
  case (2 s X s')
  then show ?case by (auto simp: holds_recv_def dest: recvreq_alloc_ret)
next
  case (3 s X i)
  then show ?case by (auto simp: holds_recv_def dest: recvreq_free_inv)
qed

text \<open>\<open>n\<close> send allocations, then \<open>m\<close> receive allocations.\<close>

fun alloc_sends :: "nat \<Rightarrow> reqpool \<Rightarrow> reqpool outcome" where
  "alloc_sends 0 s = ret s"
| "alloc_sends (Suc n) s = bindO (utf_sendreq_alloc s) (\<lambda>(_, s'). alloc_sends n s')"

fun alloc_recvs :: "nat \<Rightarrow> reqpool \<Rightarrow> reqpool outcome" where
  "alloc_recvs 0 s = ret s"
| "alloc_recvs (Suc n) s = bindO (utf_recvreq_alloc s) (\<lambda>(_, s'). alloc_recvs n s')"

lemma alloc_sends_inv:
  "req_inv s F S R \<Longrightarrow> n \<le> length F \<Longrightarrow> card S + n \<le> Suc MSGREQ_SEND_SZ \<Longrightarrow>
   \<exists>s' S'. alloc_sends n s = ret s' \<and> req_inv s' (drop n F) S' R \<and> card S' = card S + n"
proof (induction n arbitrary: s F S)
  case (Suc n)
  then obtain i F' where F: "F = i # F'" by (cases F) auto
  with sendreq_alloc_inv [of s i F' S R] Suc.prems obtain s1 where
    1: "utf_sendreq_alloc s = ret (Some i, s1)" "i \<notin> S" "req_inv s1 F' (insert i S) R" by auto
  have "card (insert i S) = Suc (card S)" using 1 req_inv_finite [OF Suc.prems(1)] by simp
  with Suc.IH [OF 1(3)] Suc.prems F 1(1) show ?case by auto
qed auto

lemma alloc_recvs_inv:
  "req_inv s F S R \<Longrightarrow> n \<le> length F \<Longrightarrow> card R + n \<le> Suc MSGREQ_RECV_SZ \<Longrightarrow>
   \<exists>s' R'. alloc_recvs n s = ret s' \<and> req_inv s' (drop n F) S R' \<and> card R' = card R + n"
proof (induction n arbitrary: s F R)
  case (Suc n)
  then obtain i F' where F: "F = i # F'" by (cases F) auto
  with recvreq_alloc_inv [of s i F' S R] Suc.prems obtain s1 where
    1: "utf_recvreq_alloc s = ret (Some i, s1)" "i \<notin> R" "req_inv s1 F' S (insert i R)" by auto
  have "card (insert i R) = Suc (card R)" using 1 req_inv_finite [OF Suc.prems(1)] by simp
  with Suc.IH [OF 1(3)] Suc.prems F 1(1) show ?case by auto
qed auto

section \<open>Statements about the request pool\<close>

text \<open>With at most 256 send requests in use and a free request left,
  \<open>utf_sendreq_alloc\<close> hands out a request that nobody holds and the accounting of the
  pool stays exact; beyond that bound it returns NULL and changes nothing; and freeing the
  request again gives back the accounting before.\<close>

theorem sendreq_alloc_fresh:
  assumes inv: "req_inv s F S R" and ne: "F \<noteq> []"
  shows "if card S \<le> MSGREQ_SEND_SZ
    then \<exists>s'. utf_sendreq_alloc s = ret (Some (hd F), s') \<and> hd F \<notin> S \<union> R \<and> rq s' = rq s
      \<and> req_inv s' (tl F) (insert (hd F) S) R \<and> req_inv (utf_sendreq_free (hd F) s') F S R
    else utf_sendreq_alloc s = ret (None, s)"
proof -
  obtain i F' where F: "F = i # F'" using ne by (cases F) auto
  have cnt: "sreq_count s = int (card S)" using inv by (simp add: req_inv_def)
  show ?thesis
  proof (cases "card S \<le> MSGREQ_SEND_SZ")
    case True
    from sendreq_alloc_inv [of s i F' S R] inv F True obtain s' where
      s': "utf_sendreq_alloc s = ret (Some i, s')" "i \<notin> S \<union> R" "rq s' = rq s" "req_inv s' F' (insert i S) R" by auto
    with sendreq_free_inv [OF s'(4), of i] F True show ?thesis by auto
  qed (use cnt in \<open>simp add: utf_sendreq_alloc_def\<close>)
qed

theorem sendreq_alloc_fresh_witness:
  "\<exists>s'. utf_sendreq_alloc reqpool_init = ret (Some 0, s') \<and> req_inv s' [1..<MSGREQ_SIZE] {0} {}"
proof -
  have "[0..<MSGREQ_SIZE] = 0 # [1..<MSGREQ_SIZE]"
    using upt_conv_Cons [of 0 MSGREQ_SIZE] by (simp add: MSGREQ_SIZE_def MSGREQ_SEND_SZ_def)
  with sendreq_alloc_fresh [OF reqpool_init_inv] show ?thesis by (auto simp: MSGREQ_SEND_SZ_def)
qed

text \<open>The two counters let 257 requests through on each side, one more than the pool
  was sized for: after 257 sends and 255 receives the next receive is not refused with
  NULL, it aborts the process.\<close>

theorem recvreq_bound_off_by_one:
  "\<exists>s1 s2. alloc_sends 257 reqpool_init = ret s1 \<and> alloc_recvs 255 s1 = ret s2
     \<and> rreq_count s2 < int MSGREQ_RECV_SZ \<and> utf_recvreq_alloc s2 = crash Aborted"
proof -
  obtain s1 S where 1: "alloc_sends 257 reqpool_init = ret s1" "req_inv s1 [257..<MSGREQ_SIZE] S {}"
    using alloc_sends_inv [OF reqpool_init_inv, of 257] by (auto simp: MSGREQ_SIZE_def MSGREQ_SEND_SZ_def MSGREQ_RECV_SZ_def)
  from alloc_recvs_inv [OF 1(2), of 255] obtain s2 R where
    2: "alloc_recvs 255 s1 = ret s2" "req_inv s2 [] S R" "card R = 255"
    by (auto simp: MSGREQ_SIZE_def MSGREQ_SEND_SZ_def MSGREQ_RECV_SZ_def)
  then have "rreq_count s2 = 255" "slist (rq_next s2) (rq_freelst s2) []" by (auto simp: req_inv_def)
  with 1 2 show ?thesis by (auto simp: utf_recvreq_alloc_def pop_req_Nil MSGREQ_RECV_SZ_def)
qed

end
