(* ===== verification/Utf_Nic.thy ===== *)
theory Utf_Nic
  imports Utf_Req
begin

text \<open>
  The calls into the uTofu library and the retry macro around them
  (\<open>UTOFU_MSGCALL\<close> of \<open>src/src/include/utf_errmacros.h\<close>, the \<open>remote_*\<close> wrappers of
  \<open>src/src/include/utf_msgmacros.h\<close>). uTofu itself, the operating system's allocator and
  the callbacks of the layer above are parameters: a record of functions on a world
  \<open>'w\<close>. The lemmas show that a call under the macro ends
  when the network interface is busy for a bounded time only.
\<close>

section \<open>The interface to uTofu\<close>

datatype utofu_rc = UTOFU_SUCCESS | UTOFU_ERR_NOT_FOUND | UTOFU_ERR_BUSY | UTOFU_ERR_OTHER

datatype onesided_flag = TCQ_NOTICE | REMOTE_MRQ_NOTICE | LOCAL_MRQ_NOTICE | STRONG_ORDER
  | CACHE_INJECTION | PADDING

datatype armw_op = ARMW_OP_ADD | ARMW_OP_OR

text \<open>
  The one-sided operations the library posts, with the arguments it passes: the remote
  VCQ id, then what the call takes (value or data, addresses, length), then edata and
  flags. The callback data is NULL or a send control entry.
\<close>

datatype nicop =
    Armw8 u64 armw_op u64 u64 u64 "onesided_flag set" "nat ptr"
  | Armw4 u64 armw_op u64 u64 u64 "onesided_flag set" "nat ptr"
  | Put_piggyback u64 "u8 list" u64 nat u64 "onesided_flag set" "nat ptr"
  | Put u64 u64 u64 nat u64 "onesided_flag set" "nat ptr"
  | Get u64 u64 u64 nat u64 "onesided_flag set" "nat ptr"

datatype notice_type = MRQ_TYPE_LCL_PUT | MRQ_TYPE_RMT_PUT | MRQ_TYPE_LCL_GET | MRQ_TYPE_RMT_GET
  | MRQ_TYPE_LCL_ARMW | MRQ_TYPE_RMT_ARMW

record mrq_notice =
  notice_type :: notice_type
  n_vcq_id :: u64
  n_edata :: u8
  n_rmt_value :: u64
  n_lcl_stadd :: u64
  n_rmt_stadd :: u64

text \<open>
  \<open>u_poll_tcq\<close> gives the return code and the callback data it stored, if it stored any.
  \<open>u_reg_mem\<close> gives the steering address, \<open>u_reg_mem_with_stag\<close> the one of a fixed tag; its first argument is the handle of the virtual control queue
  (the other calls, which all get the handle of the process while its queues are there, leave it out). \<open>u_malloc_ok\<close> says whether \<open>malloc\<close> finds
  memory. \<open>u_notify\<close> and \<open>u_rma_notify\<close> run a callback of the upper layer.
\<close>

record 'w utofu =
  u_post :: "nicop \<Rightarrow> 'w \<Rightarrow> utofu_rc \<times> 'w"
  u_poll_tcq :: "'w \<Rightarrow> utofu_rc \<times> nat ptr option \<times> 'w"
  u_poll_mrq :: "'w \<Rightarrow> utofu_rc \<times> mrq_notice \<times> 'w"
  u_reg_mem :: "addr \<Rightarrow> u64 \<Rightarrow> 'w \<Rightarrow> utofu_rc \<times> u64 \<times> 'w"
  u_reg_mem_with_stag :: "u64 \<Rightarrow> nat \<Rightarrow> 'w \<Rightarrow> utofu_rc \<times> u64 \<times> 'w"
  u_dereg_mem :: "u64 \<Rightarrow> 'w \<Rightarrow> utofu_rc \<times> 'w"
  u_malloc_ok :: "u64 \<Rightarrow> 'w \<Rightarrow> bool"
  u_notify :: "nat \<Rightarrow> nat \<Rightarrow> 'w \<Rightarrow> 'w"
  u_rma_notify :: "nat \<Rightarrow> nat \<Rightarrow> 'w \<Rightarrow> 'w"

section \<open>Calls with retry\<close>

text \<open>The inner loop of \<open>UTOFU_MSGCALL\<close>: poll the transmit completion queue while it is busy.\<close>

partial_function (option) poll_busy :: "'w utofu \<Rightarrow> nat ptr \<Rightarrow> 'w \<Rightarrow> (nat ptr \<times> 'w) option" where
  "poll_busy U cb w =
     (case u_poll_tcq U w of (rc, st, w1) \<Rightarrow>
        let cb1 = (case st of None \<Rightarrow> cb | Some c \<Rightarrow> c)
        in if rc = UTOFU_ERR_BUSY then poll_busy U cb1 w1 else Some (cb1, w1))"

partial_function (option) msgcall_from :: "'w utofu \<Rightarrow> nicop \<Rightarrow> nat ptr \<Rightarrow> 'w \<Rightarrow> (nat ptr \<times> 'w) outcome" where
  "msgcall_from U op cb w =
     (case u_post U op w of (rc, w1) \<Rightarrow>
        if rc = UTOFU_ERR_BUSY
        then Option.bind (poll_busy U cb w1) (\<lambda>(cb1, w2). msgcall_from U op cb1 w2)
        else if rc = UTOFU_SUCCESS then Some (Inr (cb, w1)) else Some (Inl Aborted))"

definition UTOFU_MSGCALL :: "'w utofu \<Rightarrow> nicop \<Rightarrow> 'w \<Rightarrow> (nat ptr \<times> 'w) outcome" where
  "UTOFU_MSGCALL U op w = msgcall_from U op None w"

definition utf_remote_add ::
  "'w utofu \<Rightarrow> u64 \<Rightarrow> onesided_flag set \<Rightarrow> u64 \<Rightarrow> u64 \<Rightarrow> u64 \<Rightarrow> nat ptr \<Rightarrow> 'w \<Rightarrow> (nat ptr \<times> 'w) outcome" where
  "utf_remote_add U rvcqid flgs val rstadd edata cbdata w =
     UTOFU_MSGCALL U (Armw8 rvcqid ARMW_OP_ADD val rstadd edata (flgs \<union> {STRONG_ORDER}) cbdata) w"

definition utf_remote_armw4 ::
  "'w utofu \<Rightarrow> u64 \<Rightarrow> onesided_flag set \<Rightarrow> armw_op \<Rightarrow> u64 \<Rightarrow> u64 \<Rightarrow> u64 \<Rightarrow> nat ptr \<Rightarrow> 'w \<Rightarrow> (nat ptr \<times> 'w) outcome" where
  "utf_remote_armw4 U rvcqid flgs op val rstadd edata cbdata w =
     UTOFU_MSGCALL U (Armw4 rvcqid op val rstadd edata
       (flgs \<union> {REMOTE_MRQ_NOTICE, STRONG_ORDER}) cbdata) w"

text \<open>\<open>remote_piggysend\<close> without its increment of \<open>utf_tcq_count\<close>, which the caller's state holds.\<close>

definition remote_piggysend ::
  "'w utofu \<Rightarrow> u64 \<Rightarrow> u8 list \<Rightarrow> u64 \<Rightarrow> nat \<Rightarrow> u64 \<Rightarrow> onesided_flag set \<Rightarrow> nat ptr \<Rightarrow> int \<Rightarrow> 'w
     \<Rightarrow> (nat ptr \<times> int \<times> 'w) outcome" where
  "remote_piggysend U rvcqid data rstadd len edata flgs cbdata tcq_count w =
     bindO (UTOFU_MSGCALL U (Put_piggyback rvcqid data rstadd len edata
       (flgs \<union> {TCQ_NOTICE, CACHE_INJECTION, PADDING, STRONG_ORDER}) cbdata) w)
     (\<lambda>(usp, w1). ret (usp, tcq_count + 1, w1))"

definition remote_piggysend2 ::
  "'w utofu \<Rightarrow> u64 \<Rightarrow> u8 list \<Rightarrow> u64 \<Rightarrow> nat \<Rightarrow> u64 \<Rightarrow> onesided_flag set \<Rightarrow> nat ptr \<Rightarrow> 'w
     \<Rightarrow> (nat ptr \<times> 'w) outcome" where
  "remote_piggysend2 U rvcqid data rstadd len edata flgs cbdata w =
     UTOFU_MSGCALL U (Put_piggyback rvcqid data rstadd len edata
       (flgs \<union> {STRONG_ORDER, REMOTE_MRQ_NOTICE}) cbdata) w"

text \<open>
  \<open>USE_PUT_TCQ_NOTICE\<close> is not defined: the flags argument is overwritten, the callback
  data passed on is NULL and completion is reported in the local MRQ.
\<close>

definition remote_put ::
  "'w utofu \<Rightarrow> u64 \<Rightarrow> u64 \<Rightarrow> u64 \<Rightarrow> nat \<Rightarrow> u64 \<Rightarrow> onesided_flag set \<Rightarrow> nat ptr \<Rightarrow> 'w \<Rightarrow> (nat ptr \<times> 'w) outcome" where
  "remote_put U rvcqid lstadd rstadd len edata flgs cbdata w =
     UTOFU_MSGCALL U (Put rvcqid lstadd rstadd len edata
       {LOCAL_MRQ_NOTICE, STRONG_ORDER, CACHE_INJECTION} None) w"

definition remote_get ::
  "'w utofu \<Rightarrow> u64 \<Rightarrow> u64 \<Rightarrow> u64 \<Rightarrow> nat \<Rightarrow> u64 \<Rightarrow> onesided_flag set \<Rightarrow> nat ptr \<Rightarrow> 'w \<Rightarrow> (nat ptr \<times> 'w) outcome" where
  "remote_get U rvcqid lstadd rstadd len edata flgs cbdata w =
     UTOFU_MSGCALL U (Get rvcqid lstadd rstadd len edata
       (flgs \<union> {LOCAL_MRQ_NOTICE, STRONG_ORDER}) cbdata) w"

definition utf_remote_swap :: "'w \<Rightarrow> (nat ptr \<times> 'w) outcome" where
  "utf_remote_swap w = crash Aborted"

definition utf_remote_cswap :: "'w \<Rightarrow> (nat ptr \<times> 'w) outcome" where
  "utf_remote_cswap w = crash Aborted"

text \<open>\<open>UTOFU_CALL(1, ...)\<close> around memory registration: anything but success aborts.\<close>

definition utf_mem_reg :: "'w utofu \<Rightarrow> addr \<Rightarrow> u64 \<Rightarrow> 'w \<Rightarrow> (u64 \<times> 'w) outcome" where
  "utf_mem_reg U buf sz w = (case u_reg_mem U buf sz w of (rc, stadd, w1) \<Rightarrow>
     if rc = UTOFU_SUCCESS then ret (stadd, w1) else crash Aborted)"

definition reg_stag :: "'w utofu \<Rightarrow> u64 \<Rightarrow> nat \<Rightarrow> 'w \<Rightarrow> (u64 \<times> 'w) outcome" where
  "reg_stag U vcqh stag w = (case u_reg_mem_with_stag U vcqh stag w of (rc, stadd, w1) \<Rightarrow>
     if rc = UTOFU_SUCCESS then ret (stadd, w1) else crash Aborted)"

definition utf_mem_dereg :: "'w utofu \<Rightarrow> u64 \<Rightarrow> 'w \<Rightarrow> 'w outcome" where
  "utf_mem_dereg U stadd w = (case u_dereg_mem U stadd w of (rc, w1) \<Rightarrow>
     if rc = UTOFU_SUCCESS then ret w1 else crash Aborted)"

section \<open>The retry loop ends when the interface is ready\<close>

text \<open>A world on which the next post succeeds at once.\<close>

lemma msgcall_ready:
  "u_post U op w = (UTOFU_SUCCESS, w1) \<Longrightarrow> UTOFU_MSGCALL U op w = ret (None, w1)"
  by (simp add: UTOFU_MSGCALL_def msgcall_from.simps ret_def)

text \<open>
  An interface that is busy for a bounded time: \<open>left\<close> counts down with every refused post and every poll that finds the
  queue busy, and no poll raises it. Under such an interface both loops end.
\<close>

definition busy_bounded :: "'w utofu \<Rightarrow> nicop \<Rightarrow> ('w \<Rightarrow> nat) \<Rightarrow> bool" where
  "busy_bounded U op left \<longleftrightarrow> (\<forall>w w1. u_post U op w = (UTOFU_ERR_BUSY, w1) \<longrightarrow> left w1 < left w)
     \<and> (\<forall>w rc st w1. u_poll_tcq U w = (rc, st, w1) \<longrightarrow> left w1 \<le> left w \<and> (rc = UTOFU_ERR_BUSY \<longrightarrow> left w1 < left w))"

lemma poll_busy_ends: "busy_bounded U op left \<Longrightarrow> \<exists>cb' w'. poll_busy U cb w = Some (cb', w') \<and> left w' \<le> left w"
proof (induction "left w" arbitrary: cb w rule: less_induct)
  case less
  obtain rc st w1 where p: "u_poll_tcq U w = (rc, st, w1)" by (metis prod_cases3)
  then have l: "left w1 \<le> left w" "rc = UTOFU_ERR_BUSY \<Longrightarrow> left w1 < left w" using less.prems by (auto simp: busy_bounded_def)
  show ?case
  proof (cases "rc = UTOFU_ERR_BUSY")
    case True
    from less.hyps [OF l(2) [OF True] less.prems, of "case st of None \<Rightarrow> cb | Some c \<Rightarrow> c"] obtain cb' w' where
      "poll_busy U (case st of None \<Rightarrow> cb | Some c \<Rightarrow> c) w1 = Some (cb', w')" "left w' \<le> left w1" by blast
    then show ?thesis using p True l(1) by (subst poll_busy.simps) (simp add: Let_def)
  qed (use p l in \<open>subst poll_busy.simps, simp add: Let_def\<close>)
qed

lemma msgcall_from_ends: "busy_bounded U op left \<Longrightarrow> \<exists>r. msgcall_from U op cb w = Some r"
proof (induction "left w" arbitrary: cb w rule: less_induct)
  case less
  obtain rc w1 where p: "u_post U op w = (rc, w1)" by (metis prod.collapse)
  show ?case
  proof (cases "rc = UTOFU_ERR_BUSY")
    case True
    then have l: "left w1 < left w" using p less.prems by (auto simp: busy_bounded_def)
    from poll_busy_ends [OF less.prems, of cb w1] obtain cb1 w2 where q: "poll_busy U cb w1 = Some (cb1, w2)" "left w2 \<le> left w1" by blast
    have "left w2 < left w" using l q(2) by simp
    from less.hyps [OF this less.prems, of cb1] show ?thesis using p True q(1) by (subst msgcall_from.simps) simp
  qed (use p in \<open>subst msgcall_from.simps, simp\<close>)
qed

section \<open>A simulated interface\<close>

text \<open>
  A concrete instance of the parameters, used to run the model: it refuses the first
  \<open>sim_busy\<close> posts, reports the queued completions and notices in order and records what
  was posted.
\<close>

record simw =
  sim_busy :: nat
  sim_tcq :: "nat ptr list"
  sim_mrq :: "mrq_notice list"
  sim_posted :: "nicop list"
  sim_dereg :: "u64 list"
  sim_notified :: "(nat \<times> nat) list"

definition zero_notice :: mrq_notice where
  "zero_notice = \<lparr>notice_type = MRQ_TYPE_LCL_PUT, n_vcq_id = 0, n_edata = 0, n_rmt_value = 0, n_lcl_stadd = 0, n_rmt_stadd = 0\<rparr>"

definition sim_nic :: "simw utofu" where
  "sim_nic = \<lparr>
     u_post = (\<lambda>op w. if sim_busy w > 0 then (UTOFU_ERR_BUSY, w\<lparr>sim_busy := sim_busy w - 1\<rparr>)
                       else (UTOFU_SUCCESS, w\<lparr>sim_posted := sim_posted w @ [op]\<rparr>)),
     u_poll_tcq = (\<lambda>w. case sim_tcq w of [] \<Rightarrow> (UTOFU_ERR_NOT_FOUND, None, w)
                       | c # cs \<Rightarrow> (UTOFU_SUCCESS, Some c, w\<lparr>sim_tcq := cs\<rparr>)),
     u_poll_mrq = (\<lambda>w. case sim_mrq w of [] \<Rightarrow> (UTOFU_ERR_NOT_FOUND, zero_notice, w)
                       | n # ns \<Rightarrow> (UTOFU_SUCCESS, n, w\<lparr>sim_mrq := ns\<rparr>)),
     u_reg_mem = (\<lambda>a _ w. (UTOFU_SUCCESS, word_of_nat (4096 + snd a), w)),
     u_reg_mem_with_stag = (\<lambda>_ t w. (UTOFU_SUCCESS, word_of_nat (t * 2 ^ 32), w)),
     u_dereg_mem = (\<lambda>st w. (UTOFU_SUCCESS, w\<lparr>sim_dereg := sim_dereg w @ [st]\<rparr>)),
     u_malloc_ok = (\<lambda>_ _. True),
     u_notify = (\<lambda>f r w. w\<lparr>sim_notified := sim_notified w @ [(f, r)]\<rparr>),
     u_rma_notify = (\<lambda>f r w. w\<lparr>sim_notified := sim_notified w @ [(f, r)]\<rparr>)\<rparr>"

definition sim0 :: simw where
  "sim0 = \<lparr>sim_busy = 0, sim_tcq = [], sim_mrq = [], sim_posted = [], sim_dereg = [], sim_notified = []\<rparr>"

section \<open>The retry macro ends\<close>

text \<open>\<open>UTOFU_MSGCALL\<close> returns, or aborts, under every interface that is busy for a bounded time.\<close>

theorem msgcall_ends: "busy_bounded U op left \<Longrightarrow> \<exists>r. UTOFU_MSGCALL U op w = Some r"
  unfolding UTOFU_MSGCALL_def by (rule msgcall_from_ends)

theorem msgcall_ends_witness: "\<exists>r. UTOFU_MSGCALL sim_nic (Armw8 1 ARMW_OP_ADD 2 3 4 {} None) (sim0\<lparr>sim_busy := 2, sim_tcq := [Some 5, Some 6]\<rparr>) = Some r"
  by (rule msgcall_ends [of _ _ "\<lambda>w. sim_busy w"]) (auto simp: busy_bounded_def sim_nic_def split: if_splits list.splits)

end
