(* ===== verification/Utf_State.thy ===== *)
theory Utf_State
  imports Utf_Nic
begin

text \<open>
  The state of one process of the message layer: the per-destination send management of
  \<open>src/src/include/utf_sndmgt.h\<close>, the send and receive control structures of
  \<open>src/src/include/utf_queue.h\<close>, the process memory as blocks of bytes, and the record
  of all global variables of \<open>src/src/base/utf_mem.c\<close> that the engines use.
\<close>

section \<open>Constants\<close>

definition SND_CNTRL_MAX :: nat where "SND_CNTRL_MAX = 128"
definition RCV_CNTRL_MAX :: nat where "RCV_CNTRL_MAX = 128"
definition RCV_CNTRL_INIT :: nat where "RCV_CNTRL_INIT = RCV_CNTRL_MAX - 2"
definition COM_PEERS :: nat where "COM_PEERS = 128"
definition COM_RBUF_SIZE :: nat where "COM_RBUF_SIZE = 1024"
definition COM_SCNTR_MINF_SZ :: nat where "COM_SCNTR_MINF_SZ = 4"
definition COM_SBUF_SIZE :: nat where "COM_SBUF_SIZE = COM_SCNTR_MINF_SZ * COM_PEERS"
definition COM_RMACQ_SIZE :: nat where "COM_RMACQ_SIZE = 128"
definition TRANSMODE_AGGR :: "6 word" where "TRANSMODE_AGGR = 1"
definition TRANSMODE_THR :: u8 where "TRANSMODE_THR = 10"
definition TOFU_RMA_MAXSZ :: u64 where "TOFU_RMA_MAXSZ = 8 * 1024 * 1024"
definition MSG_MARKER :: "4 word" where "MSG_MARKER = 0"
definition MSG_RENDEZOUS :: int where "MSG_RENDEZOUS = 1"
definition SCNTR_OK :: u64 where "SCNTR_OK = 1"
definition MSGINFO_RGETDONE_OFFST :: u64 where "MSGINFO_RGETDONE_OFFST = 0"
definition SCNTR_RST_RECVRESET_OFFST :: u64 where "SCNTR_RST_RECVRESET_OFFST = 4"
definition SCNTR_CHN_NEXT_OFFST :: u64 where "SCNTR_CHN_NEXT_OFFST = 0x10"
definition SCNTR_CHN_READY_OFFST :: u64 where "SCNTR_CHN_READY_OFFST = 0x18"
definition EDAT_RMA :: u8 where "EDAT_RMA = 0x80"

text \<open>
  The sizes the compiler gives to the two remotely addressed structures:
  \<open>utf_send_msginfo\<close> is 8 + 20 (+ 4) + 3 * 8 + 80 + 3 * 8 = 160 bytes with natural alignment,
  the packed \<open>utf_send_cntr\<close> is 64 + 16 + 4 + 4 * 160 + 8 + 4 + 1024 = 1760 bytes.
\<close>

definition SIZEOF_SEND_MSGINFO :: nat where "SIZEOF_SEND_MSGINFO = 160"
definition SIZEOF_SEND_CNTR :: nat where "SIZEOF_SEND_CNTR = 1760"
definition SIZEOF_ERV_HEAD :: nat where "SIZEOF_ERV_HEAD = 256"

section \<open>Send management\<close>

record utf_sndmgt =
  examed :: bool
  sndok :: bool
  sm_mode :: "6 word"
  sm_index :: u8
  sm_count :: u8

type_synonym egrmgt = "nat \<Rightarrow> utf_sndmgt"

definition utf_sndmgt_clr_examed :: "nat \<Rightarrow> egrmgt \<Rightarrow> egrmgt" where
  "utf_sndmgt_clr_examed pos bp = bp(pos := (bp pos)\<lparr>examed := False\<rparr>)"
definition utf_sndmgt_clr_sndok :: "nat \<Rightarrow> egrmgt \<Rightarrow> egrmgt" where
  "utf_sndmgt_clr_sndok pos bp = bp(pos := (bp pos)\<lparr>sndok := False\<rparr>)"
definition utf_sndmgt_isset_examed :: "nat \<Rightarrow> egrmgt \<Rightarrow> bool" where
  "utf_sndmgt_isset_examed pos bp = examed (bp pos)"
definition utf_sndmgt_isset_sndok :: "nat \<Rightarrow> egrmgt \<Rightarrow> bool" where
  "utf_sndmgt_isset_sndok pos bp = sndok (bp pos)"
definition utf_sndmgt_set_examed :: "nat \<Rightarrow> egrmgt \<Rightarrow> egrmgt" where
  "utf_sndmgt_set_examed pos bp = bp(pos := (bp pos)\<lparr>examed := True\<rparr>)"
definition utf_sndmgt_set_sndok :: "nat \<Rightarrow> egrmgt \<Rightarrow> egrmgt" where
  "utf_sndmgt_set_sndok pos bp = bp(pos := (bp pos)\<lparr>sndok := True\<rparr>)"
definition utf_sndmgt_set_index :: "nat \<Rightarrow> egrmgt \<Rightarrow> u64 \<Rightarrow> egrmgt" where
  "utf_sndmgt_set_index pos bp idx = bp(pos := (bp pos)\<lparr>sm_index := ucast idx\<rparr>)"
definition utf_sndmgt_get_index :: "nat \<Rightarrow> egrmgt \<Rightarrow> u8" where
  "utf_sndmgt_get_index pos bp = sm_index (bp pos)"
definition utf_sndmgt_get_smode :: "nat \<Rightarrow> egrmgt \<Rightarrow> 6 word" where
  "utf_sndmgt_get_smode pos bp = sm_mode (bp pos)"

definition sndmg_update_chainmode :: "nat \<Rightarrow> egrmgt \<Rightarrow> 6 word \<times> egrmgt" where
  "sndmg_update_chainmode pos bp =
     (let bp1 = bp(pos := (bp pos)\<lparr>sm_count := sm_count (bp pos) + 1\<rparr>);
          bp2 = (if sm_count (bp1 pos) \<ge> TRANSMODE_THR then bp1(pos := (bp1 pos)\<lparr>sm_mode := TRANSMODE_AGGR\<rparr>) else bp1)
      in (sm_mode (bp2 pos), bp2))"

lemmas sndmgt_defs = utf_sndmgt_clr_examed_def utf_sndmgt_clr_sndok_def utf_sndmgt_isset_examed_def
  utf_sndmgt_isset_sndok_def utf_sndmgt_set_examed_def utf_sndmgt_set_sndok_def utf_sndmgt_set_index_def
  utf_sndmgt_get_index_def utf_sndmgt_get_smode_def

section \<open>Control structures\<close>

datatype rstate = R_FREE | R_NONE | R_HEAD | R_BODY | R_WAIT_RNDZ | R_DO_RNDZ | R_DO_READ | R_DO_WRITE | R_DONE

record utf_recv_cntr =
  u_recvidx :: u32
  u_req :: "nat ptr"
  u_svcqid :: u64
  u_flags :: "onesided_flag set"
  u_state :: rstate
  u_mypos :: u8

datatype sstate = S_FREE | S_NONE | S_REQ_ROOM | S_HAS_ROOM | S_DO_EGR | S_DO_EGR_WAITCMPL | S_DONE_EGR
  | S_REQ_RDVR | S_DO_RDVR | S_RDVDONE | S_DONE | S_WAIT_BUFREADY

datatype cntrtype = SNDCNTR_NONE | SNDCNTR_BUFFERED_EAGER_PIGBACK | SNDCNTR_BUFFERED_EAGER
  | SNDCNTR_INPLACE_EAGER1 | SNDCNTR_INPLACE_EAGER2 | SNDCNTR_RENDEZOUS

record utf_send_msginfo =
  m_rgetdone :: u32
  m_cntrtype :: cntrtype
  m_mypos :: u16
  m_msghdr :: utf_msghdr
  m_sndbuf :: "nat ptr"
  m_sndstadd :: u64
  m_usrbuf :: "addr ptr"
  m_rgetaddr :: utf_vcqid_stadd
  m_mreq :: "nat ptr"
  m_scntr :: "nat ptr"

record utf_send_cntr =
  s_state :: sstate
  s_ostate :: sstate
  s_mypos :: "18 word"
  s_rcvreset :: "1 word"
  s_recvidx :: "31 word"
  s_dst :: u32
  s_flags :: u64
  s_svcqid :: u64
  s_rvcqid :: u64
  s_usize :: u64
  s_micur :: u8
  s_mient :: u8
  s_inflight :: u16
  s_msginfo :: "utf_send_msginfo list"

record rma_cq =
  rma_notify :: "nat ptr"

section \<open>The process\<close>

text \<open>The variables of \<open>utf_info\<close> and the registered addresses the engines read.\<close>

record utf_info =
  i_myrank :: int
  i_nprocs :: int
  i_vcqh :: u64
  i_vcqid :: u64
  i_vname_vcqid :: "u64 list"
  egr_rbuf_stadd :: u64
  egr_sbuf_stadd :: u64
  sndctr_stadd :: u64
  sndctr_stadd_end :: u64
  rndz_stadd :: u64
  rndz_stadd_end :: u64

record 'w utf =
  info :: utf_info
  queues :: msgq
  reqs :: reqpool
  mem :: "nat \<Rightarrow> u8 list option"
  next_blk :: nat
  rcntr :: "nat \<Rightarrow> utf_recv_cntr"
  rbuf :: "nat \<Rightarrow> utf_packet"
  rbuf_cntr :: u64
  egrmgt_tab :: egrmgt
  rank2scntridx :: "nat \<Rightarrow> u8"
  scntr :: "nat \<Rightarrow> utf_send_cntr"
  scntr_next :: "nat links"
  scntr_freelst :: "nat utfslist"
  sbuf :: "nat \<Rightarrow> utf_packet"
  sbuf_next :: "nat links"
  sbuf_freelst :: "nat utfslist"
  rndz_pool :: "nat \<Rightarrow> utf_send_msginfo"
  rndz_next :: "nat links"
  rndz_freelst :: "nat utfslist"
  rndz_proglst :: "nat utfslist"
  rmacq :: "nat \<Rightarrow> rma_cq"
  rmacq_next :: "nat links"
  rmacq_freelst :: "nat utfslist"
  rma_cq_cnt :: int
  tcq_count :: int
  mode_msg :: int
  world :: 'w

text \<open>Fields of one request, receive control and send control entry.\<close>

definition req_of :: "'w utf \<Rightarrow> nat \<Rightarrow> utf_msgreq" where
  "req_of s i = rq (reqs s) i"

definition mod_req :: "nat \<Rightarrow> (utf_msgreq \<Rightarrow> utf_msgreq) \<Rightarrow> 'w utf \<Rightarrow> 'w utf" where
  "mod_req i f s = s\<lparr>reqs := upd_req i f (reqs s)\<rparr>"

definition mod_rcntr :: "nat \<Rightarrow> (utf_recv_cntr \<Rightarrow> utf_recv_cntr) \<Rightarrow> 'w utf \<Rightarrow> 'w utf" where
  "mod_rcntr j f s = s\<lparr>rcntr := (rcntr s)(j := f (rcntr s j))\<rparr>"

definition mod_scntr :: "nat \<Rightarrow> (utf_send_cntr \<Rightarrow> utf_send_cntr) \<Rightarrow> 'w utf \<Rightarrow> 'w utf" where
  "mod_scntr u f s = s\<lparr>scntr := (scntr s)(u := f (scntr s u))\<rparr>"

definition mod_minfo :: "nat \<Rightarrow> nat \<Rightarrow> (utf_send_msginfo \<Rightarrow> utf_send_msginfo) \<Rightarrow> 'w utf \<Rightarrow> 'w utf" where
  "mod_minfo u k f s = mod_scntr u (\<lambda>c. c\<lparr>s_msginfo := (s_msginfo c)[k := f (s_msginfo c ! k)]\<rparr>) s"

definition mod_sbuf :: "nat \<Rightarrow> (utf_packet \<Rightarrow> utf_packet) \<Rightarrow> 'w utf \<Rightarrow> 'w utf" where
  "mod_sbuf b f s = s\<lparr>sbuf := (sbuf s)(b := f (sbuf s b))\<rparr>"

lemma req_of_upd [simp]:
  "req_of (s\<lparr>mem := x\<rparr>) = req_of s" "req_of (s\<lparr>world := w\<rparr>) = req_of s" "req_of (s\<lparr>queues := q\<rparr>) = req_of s"
  "req_of (s\<lparr>next_blk := n\<rparr>) = req_of s" "req_of (s\<lparr>reqs := rp\<rparr>) = rq rp"
  by (simp_all add: req_of_def fun_eq_iff)

lemma reqs_mod_req: "reqs (mod_req i f s) = upd_req i f (reqs s)"
  by (simp add: mod_req_def)

lemma mod_req_sel [simp]:
  "req_of (mod_req i f s) i = f (req_of s i)" "j \<noteq> i \<Longrightarrow> req_of (mod_req i f s) j = req_of s j"
  "queues (mod_req i f s) = queues s" "mem (mod_req i f s) = mem s" "next_blk (mod_req i f s) = next_blk s"
  "rcntr (mod_req i f s) = rcntr s" "world (mod_req i f s) = world s" "info (mod_req i f s) = info s"
  "scntr (mod_req i f s) = scntr s" "sbuf (mod_req i f s) = sbuf s" "egrmgt_tab (mod_req i f s) = egrmgt_tab s"
  "rbuf (mod_req i f s) = rbuf s" "tcq_count (mod_req i f s) = tcq_count s" "rbuf_cntr (mod_req i f s) = rbuf_cntr s"
  by (simp_all add: mod_req_def req_of_def)

lemma mod_rcntr_sel [simp]:
  "rcntr (mod_rcntr j f s) j = f (rcntr s j)" "i \<noteq> j \<Longrightarrow> rcntr (mod_rcntr j f s) i = rcntr s i"
  "reqs (mod_rcntr j f s) = reqs s" "req_of (mod_rcntr j f s) = req_of s"
  "queues (mod_rcntr j f s) = queues s" "mem (mod_rcntr j f s) = mem s" "next_blk (mod_rcntr j f s) = next_blk s"
  "world (mod_rcntr j f s) = world s" "info (mod_rcntr j f s) = info s"
  "scntr (mod_rcntr j f s) = scntr s" "sbuf (mod_rcntr j f s) = sbuf s" "rbuf (mod_rcntr j f s) = rbuf s"
  by (simp_all add: mod_rcntr_def req_of_def fun_eq_iff)

lemma mod_scntr_sel [simp]:
  "scntr (mod_scntr u f s) u = f (scntr s u)" "i \<noteq> u \<Longrightarrow> scntr (mod_scntr u f s) i = scntr s i"
  "reqs (mod_scntr u f s) = reqs s" "req_of (mod_scntr u f s) = req_of s" "queues (mod_scntr u f s) = queues s"
  "mem (mod_scntr u f s) = mem s" "world (mod_scntr u f s) = world s" "info (mod_scntr u f s) = info s"
  "sbuf (mod_scntr u f s) = sbuf s" "egrmgt_tab (mod_scntr u f s) = egrmgt_tab s" "tcq_count (mod_scntr u f s) = tcq_count s"
  "rndz_pool (mod_scntr u f s) = rndz_pool s" "rndz_next (mod_scntr u f s) = rndz_next s"
  "rndz_freelst (mod_scntr u f s) = rndz_freelst s" "rndz_proglst (mod_scntr u f s) = rndz_proglst s"
  by (simp_all add: mod_scntr_def req_of_def fun_eq_iff)

lemma mod_sbuf_sel [simp]:
  "sbuf (mod_sbuf b f s) b = f (sbuf s b)" "b' \<noteq> b \<Longrightarrow> sbuf (mod_sbuf b f s) b' = sbuf s b'"
  "scntr (mod_sbuf b f s) = scntr s" "reqs (mod_sbuf b f s) = reqs s" "req_of (mod_sbuf b f s) = req_of s"
  "mem (mod_sbuf b f s) = mem s" "world (mod_sbuf b f s) = world s" "info (mod_sbuf b f s) = info s"
  "egrmgt_tab (mod_sbuf b f s) = egrmgt_tab s" "tcq_count (mod_sbuf b f s) = tcq_count s" "mode_msg (mod_sbuf b f s) = mode_msg s"
  by (simp_all add: mod_sbuf_def req_of_def fun_eq_iff)

lemma mod_minfo_sel [simp]:
  "scntr (mod_minfo u k f s) u = (scntr s u)\<lparr>s_msginfo := (s_msginfo (scntr s u))[k := f (s_msginfo (scntr s u) ! k)]\<rparr>"
  "u' \<noteq> u \<Longrightarrow> scntr (mod_minfo u k f s) u' = scntr s u'"
  "reqs (mod_minfo u k f s) = reqs s" "req_of (mod_minfo u k f s) = req_of s" "sbuf (mod_minfo u k f s) = sbuf s"
  "mem (mod_minfo u k f s) = mem s" "world (mod_minfo u k f s) = world s" "info (mod_minfo u k f s) = info s"
  "egrmgt_tab (mod_minfo u k f s) = egrmgt_tab s" "tcq_count (mod_minfo u k f s) = tcq_count s" "mode_msg (mod_minfo u k f s) = mode_msg s"
  by (simp_all add: mod_minfo_def, simp_all add: mod_scntr_def)

lemma mode_msg_mod_req [simp]: "mode_msg (mod_req i f s) = mode_msg s"
  by (simp add: mod_req_def)

section \<open>Memory\<close>

text \<open>
  \<open>memcpy\<close> into and out of a block; touching bytes outside the block, or a block that
  is not allocated, is undefined behaviour.
\<close>

definition store :: "addr \<Rightarrow> u8 list \<Rightarrow> 'w utf \<Rightarrow> 'w utf outcome" where
  "store a bs s = (if bs = [] then ret s else case mem s (fst a) of
       None \<Rightarrow> crash OutOfBounds
     | Some m \<Rightarrow> if snd a + length bs \<le> length m
                then ret (s\<lparr>mem := (mem s)(fst a := Some (overwrite m (snd a) bs))\<rparr>)
                else crash OutOfBounds)"

definition load :: "addr \<Rightarrow> nat \<Rightarrow> 'w utf \<Rightarrow> u8 list outcome" where
  "load a n s = (if n = 0 then ret [] else case mem s (fst a) of
       None \<Rightarrow> crash OutOfBounds
     | Some m \<Rightarrow> if snd a + n \<le> length m then ret (bytes_at m (snd a) n) else crash OutOfBounds)"

definition plus_addr :: "addr \<Rightarrow> nat \<Rightarrow> addr" where
  "plus_addr a n = (fst a, snd a + n)"

text \<open>A copy through a pointer that may be NULL, at an offset; copying no bytes touches nothing.\<close>

definition store_ptr :: "addr ptr \<Rightarrow> nat \<Rightarrow> u8 list \<Rightarrow> 'w utf \<Rightarrow> 'w utf outcome" where
  "store_ptr p off bs s = (if bs = [] then ret s else case p of
       None \<Rightarrow> crash NullDeref | Some a \<Rightarrow> store (plus_addr a off) bs s)"

text \<open>The first \<open>n\<close> bytes of a buffer of known size.\<close>

definition take_src :: "nat \<Rightarrow> u8 list \<Rightarrow> u8 list outcome" where
  "take_src n bs = (if n \<le> length bs then ret (take n bs) else crash OutOfBounds)"

text \<open>
  The content of a new block is arbitrary; the model fills it with zero bytes.
\<close>

definition utf_malloc :: "'w utofu \<Rightarrow> u64 \<Rightarrow> 'w utf \<Rightarrow> (addr \<times> 'w utf) outcome" where
  "utf_malloc U sz s =
     (if u_malloc_ok U sz (world s)
      then ret ((next_blk s, 0), s\<lparr>mem := (mem s)(next_blk s := Some (replicate (unat sz) 0)),
                                   next_blk := Suc (next_blk s)\<rparr>)
      else crash Aborted)"

definition utf_free :: "addr \<Rightarrow> 'w utf \<Rightarrow> 'w utf" where
  "utf_free a s = s\<lparr>mem := (mem s)(fst a := None)\<rparr>"

lemma store_ok:
  assumes "mem s b = Some m" and "off + length bs \<le> length m"
  shows "store (b, off) bs s = ret (s\<lparr>mem := (mem s)(b \<mapsto> overwrite m off bs)\<rparr>)"
  using assms by (auto simp: store_def fun_upd_idem)

lemma store_ptr_ok:
  assumes "mem s b = Some m" and "o1 + off + length bs \<le> length m"
  shows "store_ptr (Some (b, o1)) off bs s = ret (s\<lparr>mem := (mem s)(b \<mapsto> overwrite m (o1 + off) bs)\<rparr>)"
  using assms store_ok [of s b m "o1 + off" bs] by (auto simp: store_ptr_def plus_addr_def fun_upd_idem)

lemma load_ok:
  assumes "mem s b = Some m" and "off + n \<le> length m"
  shows "load (b, off) n s = ret (bytes_at m off n)"
  using assms by (auto simp: load_def bytes_at_def)

lemma take_src_ok [simp]: "n \<le> length bs \<Longrightarrow> take_src n bs = ret (take n bs)"
  by (simp add: take_src_def)

section \<open>Initialisation\<close>

definition STAG_EGRMGT :: nat where "STAG_EGRMGT = 10"
definition STAG_RBUF :: nat where "STAG_RBUF = 11"
definition STAG_SBUF :: nat where "STAG_SBUF = 12"
definition STAG_SNDCTR :: nat where "STAG_SNDCTR = 13"
definition STAG_RCVCTR :: nat where "STAG_RCVCTR = 14"
definition STAG_RNDV :: nat where "STAG_RNDV = 15"
definition STAG_RMACQ :: nat where "STAG_RMACQ = 16"

definition empty_lst :: "nat utfslist" where "empty_lst = \<lparr>head = None, tail = None\<rparr>"

definition zero_pkt :: utf_packet where
  "zero_pkt = \<lparr>hdr = zero_hdr, pyld = replicate MSG_PYLDSZ 0\<rparr>"

definition ones_pkt :: utf_packet where
  "ones_pkt = \<lparr>hdr = \<lparr>h_src = -1, h_tag = -1, h_size = -1, h_pyldsz = -1, h_rndz = -1, h_flgs = -1, h_marker = -1, h_sidx = -1\<rparr>,
     pyld = replicate MSG_PYLDSZ (-1)\<rparr>"

definition zero_minfo :: utf_send_msginfo where
  "zero_minfo = \<lparr>m_rgetdone = 0, m_cntrtype = SNDCNTR_NONE, m_mypos = 0, m_msghdr = zero_hdr, m_sndbuf = None,
     m_sndstadd = 0, m_usrbuf = None, m_rgetaddr = zero_vcqid_stadd, m_mreq = None, m_scntr = None\<rparr>"

definition zero_scntr :: utf_send_cntr where
  "zero_scntr = \<lparr>s_state = S_FREE, s_ostate = S_FREE, s_mypos = 0, s_rcvreset = 0, s_recvidx = 0, s_dst = 0, s_flags = 0,
     s_svcqid = 0, s_rvcqid = 0, s_usize = 0, s_micur = 0, s_mient = 0, s_inflight = 0,
     s_msginfo = replicate COM_SCNTR_MINF_SZ zero_minfo\<rparr>"

text \<open>The global variables before \<open>utf_mem_init\<close>, zero-initialised by the loader.\<close>

definition utf_static :: "int \<Rightarrow> int \<Rightarrow> u64 \<Rightarrow> u64 \<Rightarrow> u64 list \<Rightarrow> 'w \<Rightarrow> 'w utf" where
  "utf_static rank np vcqh vcqid vn w =
     \<lparr>info = \<lparr>i_myrank = rank, i_nprocs = np, i_vcqh = vcqh, i_vcqid = vcqid, i_vname_vcqid = vn, egr_rbuf_stadd = 0, egr_sbuf_stadd = 0,
        sndctr_stadd = 0, sndctr_stadd_end = 0, rndz_stadd = 0, rndz_stadd_end = 0\<rparr>,
      queues = msgq_static, reqs = \<lparr>rq = (\<lambda>_. zero_req), rq_next = (\<lambda>_. None), rq_freelst = empty_lst, sreq_count = 0,
        rreq_count = 0, rget_next = (\<lambda>_. None), rget_proglst = empty_lst\<rparr>,
      mem = (\<lambda>_. None), next_blk = 0,
      rcntr = (\<lambda>_. \<lparr>u_recvidx = 0, u_req = None, u_svcqid = 0, u_flags = {}, u_state = R_FREE, u_mypos = 0\<rparr>),
      rbuf = (\<lambda>_. zero_pkt), rbuf_cntr = 0,
      egrmgt_tab = (\<lambda>_. \<lparr>examed = False, sndok = False, sm_mode = 0, sm_index = 0, sm_count = 0\<rparr>),
      rank2scntridx = (\<lambda>_. 0), scntr = (\<lambda>_. zero_scntr), scntr_next = (\<lambda>_. None), scntr_freelst = empty_lst,
      sbuf = (\<lambda>_. zero_pkt), sbuf_next = (\<lambda>_. None), sbuf_freelst = empty_lst,
      rndz_pool = (\<lambda>_. zero_minfo), rndz_next = (\<lambda>_. None), rndz_freelst = empty_lst, rndz_proglst = empty_lst,
      rmacq = (\<lambda>_. \<lparr>rma_notify = None\<rparr>), rmacq_next = (\<lambda>_. None), rmacq_freelst = empty_lst, rma_cq_cnt = 0,
      tcq_count = 0, mode_msg = 0, world = w\<rparr>"

text \<open>
  \<open>utf_mem_init\<close>, in its order. The registered addresses of \<open>utf_egrmgt\<close>, \<open>utf_rcntr\<close> and
  the RMA completion entries are not read by the engines and are dropped here.
\<close>

definition mem_init_bufs :: "'w utofu \<Rightarrow> 'w utf \<Rightarrow> 'w utf outcome" where
  "mem_init_bufs U s =
     bindO (reg_stag U (i_vcqh (info s)) STAG_EGRMGT (world s)) (\<lambda>(_, w1).
       let s1 = s\<lparr>world := w1, egrmgt_tab := (\<lambda>_. \<lparr>examed = False, sndok = False, sm_mode = 0, sm_index = 0, sm_count = 0\<rparr>),
                  rbuf := (\<lambda>_. ones_pkt)\<rparr>
       in bindO (reg_stag U (i_vcqh (info s1)) STAG_RBUF (world s1)) (\<lambda>(rb, w2).
          let (h, l) = utfslist_append_all (sbuf_next s1) (utfslist_init (sbuf_freelst s1) None) [0..<COM_SBUF_SIZE];
              s2 = s1\<lparr>world := w2, info := (info s1)\<lparr>egr_rbuf_stadd := rb\<rparr>, rbuf_cntr := word_of_nat RCV_CNTRL_INIT,
                       sbuf := (\<lambda>_. zero_pkt), sbuf_next := h, sbuf_freelst := l\<rparr>
          in bindO (reg_stag U (i_vcqh (info s2)) STAG_SBUF (world s2)) (\<lambda>(sb, w3).
               ret (s2\<lparr>world := w3, info := (info s2)\<lparr>egr_sbuf_stadd := sb\<rparr>, rank2scntridx := (\<lambda>_. 0xff)\<rparr>))))"

definition mem_init_cntrs :: "'w utofu \<Rightarrow> 'w utf \<Rightarrow> 'w utf outcome" where
  "mem_init_cntrs U s =
     bindO (reg_stag U (i_vcqh (info s)) STAG_SNDCTR (world s)) (\<lambda>(sc, w1).
       let (h, l) = utfslist_append_all (scntr_next s) (utfslist_init (scntr_freelst s) None) [0..<SND_CNTRL_MAX];
           s1 = s\<lparr>world := w1, scntr := (\<lambda>i. zero_scntr\<lparr>s_mypos := word_of_nat i\<rparr>), scntr_next := h, scntr_freelst := l,
                  info := (info s)\<lparr>sndctr_stadd := sc, sndctr_stadd_end := sc + word_of_nat (SIZEOF_SEND_CNTR * SND_CNTRL_MAX)\<rparr>,
                  rcntr := (\<lambda>i. (rcntr s i)\<lparr>u_state := R_NONE, u_mypos := word_of_nat i\<rparr>)\<rparr>;
           (rh, rl) = utfslist_append_all (rq_next (reqs s1)) (utfslist_init (rq_freelst (reqs s1)) None) [0..<MSGREQ_SIZE];
           s2 = s1\<lparr>reqs := (reqs s1)\<lparr>rq := (\<lambda>_. zero_req), rq_next := rh, rq_freelst := rl\<rparr>,
                    queues := msglst_init (queues s1)\<rparr>
       in bindO (reg_stag U (i_vcqh (info s2)) STAG_RNDV (world s2)) (\<lambda>(rz, w2).
          let (zh, zl) = utfslist_append_all (rndz_next s2) (utfslist_init (rndz_freelst s2) None) [0..<MSGREQ_SEND_SZ]
          in ret (s2\<lparr>world := w2, info := (info s2)\<lparr>rndz_stadd := rz, rndz_stadd_end := rz + word_of_nat (SIZEOF_SEND_MSGINFO * MSGREQ_SEND_SZ)\<rparr>,
                     reqs := (reqs s2)\<lparr>rget_proglst := utfslist_init (rget_proglst (reqs s2)) None\<rparr>,
                     rndz_proglst := utfslist_init (rndz_proglst s2) None, rndz_next := zh, rndz_freelst := zl,
                     rndz_pool := (\<lambda>i. zero_minfo\<lparr>m_mypos := word_of_nat i\<rparr>), tcq_count := 0\<rparr>)))"

definition utf_mem_init :: "'w utofu \<Rightarrow> 'w utf \<Rightarrow> 'w utf outcome" where
  "utf_mem_init U s =
     bindO (mem_init_bufs U s) (\<lambda>s1. bindO (mem_init_cntrs U s1) (\<lambda>s2.
       bindO (reg_stag U (i_vcqh (info s2)) STAG_RMACQ (world s2)) (\<lambda>(_, w1).
         let (h, l) = utfslist_append_all (rmacq_next s2) (utfslist_init (rmacq_freelst s2) None) [0..<COM_RMACQ_SIZE];
             s3 = s2\<lparr>world := w1, rmacq_next := h, rmacq_freelst := l, rma_cq_cnt := int COM_RMACQ_SIZE\<rparr>
         in bindO (reg_stag U (i_vcqh (info s3)) STAG_RCVCTR (world s3)) (\<lambda>(_, w2). ret (s3\<lparr>world := w2\<rparr>)))))"

text \<open>\<open>utf_rmacq_alloc\<close> and \<open>utf_rmacq_free\<close>\<close>

definition utf_rmacq_alloc :: "'w utf \<Rightarrow> (nat ptr \<times> 'w utf) outcome" where
  "utf_rmacq_alloc s = bindO (utfslist_remove (rmacq_next s) (rmacq_freelst s)) (\<lambda>(h, l, slst).
     case slst of None \<Rightarrow> ret (None, s\<lparr>rmacq_next := h, rmacq_freelst := l\<rparr>)
     | Some i \<Rightarrow> ret (Some i, s\<lparr>rmacq_next := h, rmacq_freelst := l, rma_cq_cnt := rma_cq_cnt s - 1\<rparr>))"

definition utf_rmacq_free :: "nat \<Rightarrow> 'w utf \<Rightarrow> 'w utf" where
  "utf_rmacq_free i s = (let (h, l) = utfslist_insert (rmacq_next s) (rmacq_freelst s) i
     in s\<lparr>rmacq_next := h, rmacq_freelst := l, rma_cq_cnt := rma_cq_cnt s + 1\<rparr>)"

text \<open>Filling a free list from a table, whatever the header and the links were before.\<close>

lemma pool_filled:
  "\<exists>h l. utfslist_append_all h0 (utfslist_init l0 None) [0..<n] = (h, l) \<and> slist h l [0..<n]"
proof -
  obtain h l where a: "utfslist_append_all h0 (utfslist_init l0 None) [0..<n] = (h, l)" by fastforce
  have "slist h l ([] @ [0..<n])" by (rule slist_append_all [OF slist_init _ a]) simp
  with a show ?thesis by simp
qed

definition reg_works :: "'w utofu \<Rightarrow> bool" where
  "reg_works U \<longleftrightarrow> (\<forall>h t w. fst (u_reg_mem_with_stag U h t w) = UTOFU_SUCCESS)"

lemma reg_stag_works: "reg_works U \<Longrightarrow> \<exists>st w'. reg_stag U h t w = ret (st, w')"
  by (cases "u_reg_mem_with_stag U h t w") (auto simp: reg_works_def reg_stag_def, metis fst_conv)

text \<open>The state in which every pool is full, every queue empty and no engine is active.\<close>

definition utf_fresh :: "'w utf \<Rightarrow> bool" where
  "utf_fresh s \<longleftrightarrow> msgq_inv (queues s) ((\<lambda>_. [])(Utf_msglst_freelst := [0..<MSGLST_SIZE]))
     \<and> req_inv (reqs s) [0..<MSGREQ_SIZE] {} {} \<and> slist (rget_next (reqs s)) (rget_proglst (reqs s)) []
     \<and> rq (reqs s) = (\<lambda>_. zero_req)
     \<and> slist (scntr_next s) (scntr_freelst s) [0..<SND_CNTRL_MAX] \<and> slist (sbuf_next s) (sbuf_freelst s) [0..<COM_SBUF_SIZE]
     \<and> slist (rndz_next s) (rndz_freelst s) [0..<MSGREQ_SEND_SZ] \<and> slist (rndz_next s) (rndz_proglst s) []
     \<and> slist (rmacq_next s) (rmacq_freelst s) [0..<COM_RMACQ_SIZE]
     \<and> (\<forall>r. rank2scntridx s r = 0xff) \<and> (\<forall>i. scntr s i = zero_scntr\<lparr>s_mypos := word_of_nat i\<rparr>)
     \<and> (\<forall>j. u_state (rcntr s j) = R_NONE \<and> u_recvidx (rcntr s j) = 0) \<and> (\<forall>k. rbuf s k = ones_pkt)
     \<and> rbuf_cntr s = word_of_nat RCV_CNTRL_INIT \<and> tcq_count s = 0 \<and> next_blk s = 0"

lemma mem_init_bufs_ok:
  assumes U: "reg_works U"
  shows "\<exists>h l rb sb w. mem_init_bufs U (utf_static rank np vcqh vcqid vn w0) =
    ret ((utf_static rank np vcqh vcqid vn w)\<lparr>rbuf := (\<lambda>_. ones_pkt), rbuf_cntr := word_of_nat RCV_CNTRL_INIT,
      sbuf_next := h, sbuf_freelst := l, info := (info (utf_static rank np vcqh vcqid vn w))\<lparr>egr_rbuf_stadd := rb, egr_sbuf_stadd := sb\<rparr>,
      rank2scntridx := (\<lambda>_. 0xff)\<rparr>) \<and> slist h l [0..<COM_SBUF_SIZE]"
proof -
  obtain st1 w1 where 1: "reg_stag U vcqh STAG_EGRMGT w0 = ret (st1, w1)" using reg_stag_works [OF U] by blast
  obtain st2 w2 where 2: "reg_stag U vcqh STAG_RBUF w1 = ret (st2, w2)" using reg_stag_works [OF U] by blast
  obtain st3 w3 where 3: "reg_stag U vcqh STAG_SBUF w2 = ret (st3, w3)" using reg_stag_works [OF U] by blast
  obtain h l where p: "utfslist_append_all (\<lambda>_. None) (utfslist_init empty_lst None) [0..<COM_SBUF_SIZE] = (h, l)"
    "slist h l [0..<COM_SBUF_SIZE]" using pool_filled by blast
  show ?thesis
    by (rule exI [of _ h], rule exI [of _ l], rule exI [of _ st2], rule exI [of _ st3], rule exI [of _ w3])
      (simp add: mem_init_bufs_def utf_static_def 1 2 3 p)
qed

lemma mem_init_fresh:
  assumes U: "reg_works U"
  shows "\<exists>s. utf_mem_init U (utf_static rank np vcqh vcqid vn w0) = ret s \<and> utf_fresh s"
proof -
  from mem_init_bufs_ok [OF U, of rank np vcqh vcqid vn w0] obtain sh sl' rb sb w where
    b: "mem_init_bufs U (utf_static rank np vcqh vcqid vn w0) = ret ((utf_static rank np vcqh vcqid vn w)\<lparr>rbuf := (\<lambda>_. ones_pkt),
      rbuf_cntr := word_of_nat RCV_CNTRL_INIT, sbuf_next := sh, sbuf_freelst := sl',
      info := (info (utf_static rank np vcqh vcqid vn w))\<lparr>egr_rbuf_stadd := rb, egr_sbuf_stadd := sb\<rparr>, rank2scntridx := (\<lambda>_. 0xff)\<rparr>)"
    and pb: "slist sh sl' [0..<COM_SBUF_SIZE]" by blast
  obtain st1 w1 where 1: "reg_stag U vcqh STAG_SNDCTR w = ret (st1, w1)" using reg_stag_works [OF U] by blast
  obtain st2 w2 where 2: "reg_stag U vcqh STAG_RNDV w1 = ret (st2, w2)" using reg_stag_works [OF U] by blast
  obtain st3 w3 where 3: "reg_stag U vcqh STAG_RMACQ w2 = ret (st3, w3)" using reg_stag_works [OF U] by blast
  obtain st4 w4 where 4: "reg_stag U vcqh STAG_RCVCTR w3 = ret (st4, w4)" using reg_stag_works [OF U] by blast
  obtain ch cl where c: "utfslist_append_all (\<lambda>_. None) (utfslist_init empty_lst None) [0..<SND_CNTRL_MAX] = (ch, cl)"
    "slist ch cl [0..<SND_CNTRL_MAX]" using pool_filled by blast
  obtain rh rl where r: "utfslist_append_all (\<lambda>_. None) (utfslist_init empty_lst None) [0..<MSGREQ_SIZE] = (rh, rl)"
    "slist rh rl [0..<MSGREQ_SIZE]" using pool_filled by blast
  obtain zh zl where z: "utfslist_append_all (\<lambda>_. None) (utfslist_init empty_lst None) [0..<MSGREQ_SEND_SZ] = (zh, zl)"
    "slist zh zl [0..<MSGREQ_SEND_SZ]" using pool_filled by blast
  obtain mh ml where m: "utfslist_append_all (\<lambda>_. None) (utfslist_init empty_lst None) [0..<COM_RMACQ_SIZE] = (mh, ml)"
    "slist mh ml [0..<COM_RMACQ_SIZE]" using pool_filled by blast
  have e: "slist h (utfslist_init l None) []" for h :: "nat links" and l by (rule slist_init)
  show ?thesis
    using pb c(2) r(2) z(2) m(2) msglst_init_inv e
    by (simp add: utf_mem_init_def mem_init_cntrs_def b, simp add: utf_static_def 1 2 3 4 c(1) r(1) z(1) m(1))
      (simp add: utf_fresh_def req_inv_def lessThan_atLeast0)
qed

lemma sim_reg_works: "reg_works sim_nic"
  by (simp add: reg_works_def sim_nic_def)

text \<open>A freshly initialised process, for the concrete instances of the statements below.\<close>

lemma fresh_sim: "\<exists>s. utf_mem_init sim_nic (utf_static 0 2 5 7 [7, 8] sim0) = ret s \<and> utf_fresh s"
  by (rule mem_init_fresh [OF sim_reg_works])

lemma upt_MSGREQ: "[0..<MSGREQ_SIZE] = 0 # [1..<MSGREQ_SIZE]"
  using upt_conv_Cons [of 0 MSGREQ_SIZE] by (simp add: MSGREQ_SIZE_def MSGREQ_SEND_SZ_def)

lemma upt_MSGLST: "[0..<MSGLST_SIZE] = 0 # [1..<MSGLST_SIZE]"
  using upt_conv_Cons [of 0 MSGLST_SIZE] MSGLST_SIZE_pos by simp

section \<open>Statements about the state\<close>

text \<open>The chain mode switches on exactly at the tenth update of a destination: \<open>k\<close> updates
  of a fresh entry leave the mode untouched for \<open>k < 10\<close> and set it to aggressive for
  \<open>10 \<le> k < 256\<close>, and no other destination is affected.\<close>

theorem chainmode_threshold:
  assumes "sm_count (bp pos) = 0" and "sm_mode (bp pos) = 0" and "k < 256"
  shows "sm_mode (((\<lambda>b. snd (sndmg_update_chainmode pos b)) ^^ k) bp pos) = (if k < 10 then 0 else TRANSMODE_AGGR)
    \<and> (q \<noteq> pos \<longrightarrow> ((\<lambda>b. snd (sndmg_update_chainmode pos b)) ^^ k) bp q = bp q)"
proof -
  let ?f = "\<lambda>b. snd (sndmg_update_chainmode pos b)"
  have "unat (sm_count ((?f ^^ k) bp pos)) = k \<and> sm_mode ((?f ^^ k) bp pos) = (if k < 10 then 0 else TRANSMODE_AGGR)
      \<and> (q \<noteq> pos \<longrightarrow> (?f ^^ k) bp q = bp q)"
    using assms(3)
  proof (induction k)
    case (Suc k)
    then have u: "unat (sm_count ((?f ^^ k) bp pos) + 1) = Suc k"
      by (subst unat_word_ariths) simp
    then have "sm_count ((?f ^^ k) bp pos) + 1 \<ge> TRANSMODE_THR \<longleftrightarrow> 10 \<le> Suc k"
      by (simp add: word_le_nat_alt TRANSMODE_THR_def)
    with Suc u show ?case by (auto simp: sndmg_update_chainmode_def Let_def)
  qed (use assms in auto)
  then show ?thesis by blast
qed

theorem chainmode_threshold_witness:
  "sm_mode (((\<lambda>b. snd (sndmg_update_chainmode 3 b)) ^^ 10)
     (\<lambda>_. \<lparr>examed = False, sndok = False, sm_mode = 0, sm_index = 0, sm_count = 0\<rparr>) 3) = TRANSMODE_AGGR"
  using chainmode_threshold [of "\<lambda>_. \<lparr>examed = False, sndok = False, sm_mode = 0, sm_index = 0, sm_count = 0\<rparr>" 3 10]
  by simp

text \<open>If the registrations succeed, \<open>utf_mem_init\<close> returns a state in which every pool is full
  and well formed (message list entries, requests, send controls, send buffers, rendezvous
  entries, RMA completions), every queue is empty, no destination has a send control entry,
  every receive control is ready and no receive slot holds a packet.\<close>

theorem utf_mem_init_fresh:
  assumes U: "reg_works U"
  shows "\<exists>s. utf_mem_init U (utf_static rank np vcqh vcqid vn w0) = ret s \<and> utf_fresh s"
  by (rule mem_init_fresh [OF U])

theorem utf_mem_init_fresh_witness:
  "\<exists>s. utf_mem_init sim_nic (utf_static 0 2 5 7 [7, 8] sim0) = ret s \<and> utf_fresh s"
  by (rule utf_mem_init_fresh) (simp add: reg_works_def sim_nic_def)

end
