(* ===== verification/Utf_Recv.thy ===== *)
theory Utf_Recv
  imports Utf_State
begin

text \<open>
  The receiver: copying packets into user buffers (\<open>utf_copy_to_iov\<close>,
  \<open>eager_copy_and_check\<close>), the remote gets of the rendezvous protocol (\<open>rget_start\<close>,
  \<open>rget_continue\<close>, \<open>utf_rget_progress\<close>) and the receive engine (\<open>utf_recvengine\<close>), from
  \<open>src/src/include/utf_msgmacros.h\<close> and \<open>src/src/base/utf_engine.c\<close>. The theorems show
  that the packets of an eager message are reassembled to the message, that the
  fabric interface never writes past the posted length while the plain interface does, and that the remote gets of a
  rendezvous cover the message exactly.
\<close>

section \<open>Copying packets\<close>

text \<open>
  The loop of \<open>utf_copy_to_iov\<close> for several entries; \<open>bs\<close> are the bytes still to copy.
  The iovec array of a request has four entries.
\<close>

fun copy_iov_loop :: "nat \<Rightarrow> iovec list \<Rightarrow> u64 \<Rightarrow> u8 list \<Rightarrow> 'w utf \<Rightarrow> 'w utf outcome" where
  "copy_iov_loop 0 vs off bs s = ret s"
| "copy_iov_loop (Suc n) vs off bs s =
     (if bs = [] then ret s
      else case vs of
        [] \<Rightarrow> crash OutOfBounds
      | v # vs' \<Rightarrow>
          if off > iov_len v then copy_iov_loop n vs' (off - iov_len v) bs s
          else let len = min (unat (iov_len v - off)) (length bs)
               in bindO (store (plus_addr (iov_base v) (unat off)) (take len bs) s)
                    (copy_iov_loop n vs' 0 (drop len bs)))"

definition utf_copy_to_iov :: "iovec list \<Rightarrow> u64 \<Rightarrow> u64 \<Rightarrow> u8 list \<Rightarrow> 'w utf \<Rightarrow> 'w utf outcome" where
  "utf_copy_to_iov iov iov_count iov_offset bs s =
     (if iov_count = 1 then
        (case iov of [] \<Rightarrow> crash OutOfBounds
         | v # _ \<Rightarrow> let sz = (if iov_offset > iov_len v then 0
                              else min (length bs) (unat (iov_len v - iov_offset)))
                   in store (plus_addr (iov_base v) (unat iov_offset)) (take sz bs) s)
      else copy_iov_loop (unat iov_count) iov iov_offset bs s)"

text \<open>\<open>j\<close> is the receive control entry \<open>urp\<close>, \<open>i\<close> the request.\<close>

definition fi_copy :: "nat \<Rightarrow> u8 list \<Rightarrow> 'w utf \<Rightarrow> 'w utf outcome" where
  "fi_copy i bs s =
     (let r = req_of s i
      in if r_buf r \<noteq> None then store_ptr (r_buf r) (unat (r_rsize r)) bs s
         else utf_copy_to_iov (r_fi_msg r) (r_fi_iov_count r) (ucast (r_rsize r)) bs s)"

definition eager_copy :: "nat \<Rightarrow> utf_packet \<Rightarrow> 'w utf \<Rightarrow> 'w utf outcome" where
  "eager_copy i pkt s =
     (let r = req_of s i; cpysz = unat (h_pyldsz (hdr pkt))
      in if h_flgs (hdr pkt) = 0 then
           bindO (take_src cpysz (PKT_DATA pkt)) (\<lambda>bs. store_ptr (r_buf r) (unat (r_rsize r)) bs s)
         else if r_overrun r then ret s
         else if (ucast (r_rsize r) :: u64) + word_of_nat cpysz > r_rcvexpsz r then
           let rest = r_rcvexpsz r - ucast (r_rsize r);
               s1 = mod_req i (\<lambda>r. r\<lparr>r_overrun := True\<rparr>) s
           in if rest > 0 then bindO (take_src (unat rest) (PKT_FI_MSGDATA pkt)) (\<lambda>bs. fi_copy i bs s1)
              else ret s1
         else bindO (take_src cpysz (PKT_FI_MSGDATA pkt)) (\<lambda>bs. fi_copy i bs s))"

definition eager_copy_and_check :: "nat \<Rightarrow> nat \<Rightarrow> utf_packet \<Rightarrow> 'w utf \<Rightarrow> (rstate \<times> 'w utf) outcome" where
  "eager_copy_and_check j i pkt s =
     bindO (eager_copy i pkt s) (\<lambda>s1.
       let s2 = mod_req i (\<lambda>r. r\<lparr>r_rsize := r_rsize r + ucast (h_pyldsz (hdr pkt))\<rparr>) s1;
           st = (if h_size (r_hdr (req_of s2 i)) = r_rsize (req_of s2 i) then R_DONE else R_BODY)
       in ret (st, mod_rcntr j (\<lambda>u. u\<lparr>u_state := st\<rparr>) s2))"

section \<open>Remote gets\<close>

text \<open>Posting an operation; the completion the call may return is dropped by these callers.\<close>

definition get_s :: "'w utofu \<Rightarrow> u64 \<Rightarrow> u64 \<Rightarrow> u64 \<Rightarrow> nat \<Rightarrow> u64 \<Rightarrow> 'w utf \<Rightarrow> 'w utf outcome" where
  "get_s U rvcqid lstadd rstadd len edata s =
     bindO (remote_get U rvcqid lstadd rstadd len edata {} None (world s)) (\<lambda>(_, w). ret (s\<lparr>world := w\<rparr>))"

text \<open>Reading and writing the three-element arrays of a request, out of range is undefined.\<close>

definition arr :: "'a list \<Rightarrow> nat \<Rightarrow> ('a \<Rightarrow> 'b outcome) \<Rightarrow> 'b outcome" where
  "arr xs k f = (if k < length xs then f (xs ! k) else crash OutOfBounds)"

definition set_recvlen :: "nat \<Rightarrow> u64 \<Rightarrow> utf_msgreq \<Rightarrow> utf_msgreq" where
  "set_recvlen k v r = r\<lparr>r_bufinfo := (r_bufinfo r)\<lparr>b_recvlen := (b_recvlen (r_bufinfo r))[k := v]\<rparr>\<rparr>"

definition set_bstadd :: "nat \<Rightarrow> u64 \<Rightarrow> utf_msgreq \<Rightarrow> utf_msgreq" where
  "set_bstadd k v r = r\<lparr>r_bufinfo := (r_bufinfo r)\<lparr>b_stadd := (b_stadd (r_bufinfo r))[k := v]\<rparr>\<rparr>"

definition rma_chunk :: "u64 \<Rightarrow> u64" where
  "rma_chunk n = (if n > TOFU_RMA_MAXSZ then TOFU_RMA_MAXSZ else n)"

text \<open>The loop of \<open>rget_start\<close> over several senders' entries, \<open>k\<close> of \<open>k + n\<close> done.\<close>

primrec rget_start_loop :: "nat \<Rightarrow> 'w utofu \<Rightarrow> nat \<Rightarrow> nat \<Rightarrow> u64 \<Rightarrow> 'w utf \<Rightarrow> 'w utf outcome" where
  "rget_start_loop 0 U i k off s = ret s"
| "rget_start_loop (Suc n) U i k off s =
     (let r = req_of s i
      in arr (len3 (r_rgetsender r)) k (\<lambda>l.
           let len = rma_chunk l
           in bindO (get_s U (vcqid3 (r_rgetsender r) ! k) (b_stadd (r_bufinfo r) ! 0 + off)
                      (stadd3 (r_rgetsender r) ! k) (unat len) (ucast (h_sidx (r_hdr r))) s) (\<lambda>s1.
              let s2 = mod_req i (\<lambda>r. (set_recvlen k (ucast (r_rsize r)) r)\<lparr>r_rsize := r_rsize r + ucast len\<rparr>) s1
              in rget_start_loop n U i (Suc k) (off + len) s2)))"

definition rget_start :: "'w utofu \<Rightarrow> nat \<Rightarrow> 'w utf \<Rightarrow> 'w utf outcome" where
  "rget_start U i s =
     (let r0 = req_of s i;
          sidx = ucast (h_sidx (r_hdr r0)) :: u64;
          s1 = mod_req i (\<lambda>r. if r_usrreqsz r < ucast (h_size (r_hdr r))
                               then r\<lparr>r_rcvexpsz := r_usrreqsz r, r_overrun := True\<rparr>
                               else r\<lparr>r_rcvexpsz := ucast (h_size (r_hdr r))\<rparr>) s;
          r1 = req_of s1 i
      in bindO (case r_buf r1 of
                  Some a \<Rightarrow> utf_mem_reg U a (r_rcvexpsz r1) (world s1)
                | None \<Rightarrow> if r_fi_iov_count r1 = 1
                         then arr (r_fi_msg r1) 0 (\<lambda>v. utf_mem_reg U (iov_base v) (r_rcvexpsz r1) (world s1))
                         else crash Aborted)
         (\<lambda>(st, w).
           let s2 = mod_req i (set_bstadd 0 st) (s1\<lparr>world := w\<rparr>); r2 = req_of s2 i
           in bindO (if nent (r_rgetsender r2) = 1 then
                let s3 = mod_req i (\<lambda>r. r\<lparr>r_rsize := ucast (rma_chunk (r_rcvexpsz r))\<rparr>) s2;
                    r3 = req_of s3 i
                in bindO (get_s U (vcqid3 (r_rgetsender r3) ! 0) (b_stadd (r_bufinfo r3) ! 0)
                            (stadd3 (r_rgetsender r3) ! 0) (unat (r_rsize r3)) sidx s3)
                     (\<lambda>s4. ret (mod_req i (\<lambda>r. set_recvlen 0 (ucast (r_rsize r)) r) s4))
              else rget_start_loop (unat (nent (r_rgetsender r2))) U i 0 0
                     (mod_req i (\<lambda>r. r\<lparr>r_rsize := 0\<rparr>) s2))
           (\<lambda>s5.
             let s6 = mod_req i (\<lambda>r. r\<lparr>r_rgetsender := (r_rgetsender r)\<lparr>inflight := nent (r_rgetsender r)\<rparr>,
                                        r_state := REQ_DO_RNDZ\<rparr>) s5
             in ret (s6\<lparr>reqs := rget_append i (reqs s6)\<rparr>))))"

primrec rget_continue_loop :: "nat \<Rightarrow> 'w utofu \<Rightarrow> nat \<Rightarrow> nat \<Rightarrow> 'w utf \<Rightarrow> 'w utf outcome" where
  "rget_continue_loop 0 U i k s = ret s"
| "rget_continue_loop (Suc n) U i k s =
     (let r = req_of s i
      in arr (len3 (r_rgetsender r)) k (\<lambda>l.
           let restsz = l - b_recvlen (r_bufinfo r) ! k; transsz = rma_chunk restsz
           in if restsz = 0 then rget_continue_loop n U i (Suc k) s
              else bindO (get_s U (vcqid3 (r_rgetsender r) ! 0) (b_stadd (r_bufinfo r) ! 0 + ucast (r_rsize r))
                      (stadd3 (r_rgetsender r) ! 0 + b_recvlen (r_bufinfo r) ! k) (unat transsz)
                      (ucast (h_sidx (r_hdr r))) s) (\<lambda>s1.
                let s2 = mod_req i (\<lambda>r. (set_recvlen k (b_recvlen (r_bufinfo r) ! k + transsz) r)
                                          \<lparr>r_rsize := r_rsize r + ucast transsz\<rparr>) s1
                in rget_continue_loop n U i (Suc k) s2)))"

definition rget_continue :: "'w utofu \<Rightarrow> nat \<Rightarrow> 'w utf \<Rightarrow> 'w utf outcome" where
  "rget_continue U i s =
     (let r = req_of s i
      in bindO (if nent (r_rgetsender r) = 1 then
             let restsz = r_rcvexpsz r - ucast (r_rsize r); transsz = rma_chunk restsz
             in bindO (get_s U (vcqid3 (r_rgetsender r) ! 0) (b_stadd (r_bufinfo r) ! 0 + ucast (r_rsize r))
                        (stadd3 (r_rgetsender r) ! 0 + ucast (r_rsize r)) (unat transsz)
                        (ucast (h_sidx (r_hdr r))) s)
                  (\<lambda>s1. ret (mod_req i (\<lambda>r. (set_recvlen 0 (b_recvlen (r_bufinfo r) ! 0 + transsz) r)
                                              \<lparr>r_rsize := r_rsize r + ucast transsz\<rparr>) s1))
           else rget_continue_loop (unat (nent (r_rgetsender r))) U i 0 s)
         (\<lambda>s2. ret (s2\<lparr>reqs := rget_append i (reqs s2)\<rparr>)))"

definition MSGINFO_STADDR :: "'w utf \<Rightarrow> u32 \<Rightarrow> u64" where
  "MSGINFO_STADDR s pos = rndz_stadd (info s) + word_of_nat SIZEOF_SEND_MSGINFO * ucast pos"

definition run_notify :: "'w utofu \<Rightarrow> nat \<Rightarrow> 'w utf \<Rightarrow> 'w utf" where
  "run_notify U i s = (case r_notify (req_of s i) of None \<Rightarrow> s | Some f \<Rightarrow> s\<lparr>world := u_notify U f i (world s)\<rparr>)"

definition dereg_buf :: "'w utofu \<Rightarrow> nat \<Rightarrow> 'w utf \<Rightarrow> 'w utf outcome" where
  "dereg_buf U i s =
     (let st = b_stadd (r_bufinfo (req_of s i)) ! 0
      in if st \<noteq> 0 then bindO (utf_mem_dereg U st (world s)) (\<lambda>w. ret (mod_req i (set_bstadd 0 0) (s\<lparr>world := w\<rparr>)))
         else ret s)"

definition utf_rget_progress :: "'w utofu \<Rightarrow> nat \<Rightarrow> 'w utf \<Rightarrow> 'w utf outcome" where
  "utf_rget_progress U i s =
     (if ucast (r_rsize (req_of s i)) \<noteq> r_rcvexpsz (req_of s i) then rget_continue U i s
      else
        let s1 = mod_req i (\<lambda>r. r\<lparr>r_rgetsender := (r_rgetsender r)\<lparr>inflight := inflight (r_rgetsender r) - 1\<rparr>\<rparr>) s;
            r1 = req_of s1 i
        in if inflight (r_rgetsender r1) > 0 then ret (s1\<lparr>reqs := rget_append i (reqs s1)\<rparr>)
           else bindO (utf_remote_armw4 U (vcqid3 (r_rgetsender r1) ! 0) {} ARMW_OP_OR SCNTR_OK
                   (MSGINFO_STADDR s1 (rndzpos (r_rgetsender r1)) + MSGINFO_RGETDONE_OFFST)
                   (ucast (rndzpos (r_rgetsender r1))) None (world s1))
                (\<lambda>(_, w). bindO (dereg_buf U i (s1\<lparr>world := w\<rparr>))
                  (\<lambda>s2. ret (run_notify U i (mod_req i (\<lambda>r. r\<lparr>r_state := REQ_DONE\<rparr>) s2)))))"

text \<open>
  The completion of a remote get from \<open>vcqid\<close>, as \<open>utf_mrqprogress\<close> handles it: the request
  is taken off the progress list, a missing request fails the assertion.
\<close>

definition lcl_get_event :: "'w utofu \<Rightarrow> u64 \<Rightarrow> 'w utf \<Rightarrow> 'w utf outcome" where
  "lcl_get_event U vcqid s =
     bindO (find_rget_msgreq vcqid (reqs s)) (\<lambda>(r, rp).
       case r of None \<Rightarrow> crash AssertFailed | Some i \<Rightarrow> utf_rget_progress U i (s\<lparr>reqs := rp\<rparr>))"

section \<open>The receive engine\<close>

definition pkt_rndzdata :: "utf_packet \<Rightarrow> utf_vcqid_stadd" where
  "pkt_rndzdata pkt = (if h_flgs (hdr pkt) = 0 then PKT_RADDR pkt else PKT_FI_RADDR pkt)"

text \<open>The common exit \<open>done\<close> of an eager message.\<close>

definition recv_done :: "'w utofu \<Rightarrow> nat \<Rightarrow> nat \<Rightarrow> 'w utf \<Rightarrow> 'w utf" where
  "recv_done U j i s =
     (let s1 = mod_req i (\<lambda>r. r\<lparr>r_state := REQ_DONE\<rparr>) s;
          s2 = (if r_type (req_of s1 i) = REQ_RECV_UNEXPECTED then s1 else run_notify U i s1)
      in mod_rcntr j (\<lambda>u. u\<lparr>u_state := R_NONE, u_req := None\<rparr>) s2)"

definition recv_expected :: "'w utofu \<Rightarrow> nat \<Rightarrow> utf_packet \<Rightarrow> nat \<Rightarrow> 'w utf \<Rightarrow> (int \<times> 'w utf) outcome" where
  "recv_expected U j pkt i s =
     (let s1 = mod_req i (\<lambda>r. r\<lparr>r_rndz := h_rndz (hdr pkt), r_fi_data := PKT_FI_DATA pkt\<rparr>) s
      in if r_rndz (req_of s1 i) \<noteq> 0 then
           let s2 = mod_req i (\<lambda>r. r\<lparr>r_rgetsender := pkt_rndzdata pkt, r_hdr := hdr pkt, r_rcntr := Some j\<rparr>) s1
           in bindO (rget_start U i s2)
                (\<lambda>s3. ret (0, mod_rcntr j (\<lambda>u. u\<lparr>u_req := None, u_state := R_NONE\<rparr>) s3))
         else
           bindO (eager_copy_and_check j i pkt (mod_req i (\<lambda>r. r\<lparr>r_hdr := hdr pkt\<rparr>) s1)) (\<lambda>(st, s2).
             if st = R_DONE then ret (0, recv_done U j i s2)
             else ret (0, mod_rcntr j (\<lambda>u. u\<lparr>u_req := Some i\<rparr>) s2)))"

definition recv_unexpected :: "'w utofu \<Rightarrow> nat \<Rightarrow> utf_packet \<Rightarrow> nat \<Rightarrow> 'w utf \<Rightarrow> (int \<times> 'w utf) outcome" where
  "recv_unexpected U j pkt i s =
     (let s1 = mod_req i (\<lambda>r. r\<lparr>r_fi_data := PKT_FI_DATA pkt, r_fi_ucontext := 0, r_hdr := hdr pkt,
                 r_rsize := 0, r_ustatus := REQ_NONE, r_type := REQ_RECV_UNEXPECTED, r_rndz := h_rndz (hdr pkt)\<rparr>) s
      in bindO (utfgen_uexplst_enqueue (h_flgs (hdr pkt)) (r_hdr (req_of s1 i)) (word_of_nat i) (queues s1)) (\<lambda>q.
         let s2 = s1\<lparr>queues := q\<rparr>
         in if r_rndz (req_of s2 i) \<noteq> 0 then
              let s3 = mod_req i (\<lambda>r. r\<lparr>r_rgetsender := pkt_rndzdata pkt, r_state := REQ_WAIT_RNDZ, r_rcntr := Some j\<rparr>) s2
              in ret (0, mod_rcntr j (\<lambda>u. u\<lparr>u_req := None, u_state := R_NONE\<rparr>) s3)
            else
              bindO (utf_malloc U (ucast (h_size (hdr pkt))) s2) (\<lambda>(a, s3).
                let s4 = mod_req i (\<lambda>r. r\<lparr>r_buf := Some a, r_alloc := True,
                            r_rcvexpsz := ucast (h_size (hdr pkt)), r_state := REQ_NONE\<rparr>) s3
                in bindO (eager_copy_and_check j i pkt s4) (\<lambda>(st, s5).
                     if st = R_DONE then ret (0, recv_done U j i s5)
                     else ret (0, mod_req i (\<lambda>r. r\<lparr>r_rcntr := Some j\<rparr>)
                                   (mod_rcntr j (\<lambda>u. u\<lparr>u_req := Some i\<rparr>) s5))))))"

text \<open>
  \<open>utf_recvengine\<close>: 0 when the packet was consumed, 1 when no request object is left for an
  unexpected message, -1 on a protocol error. A matched index is a request index: it was
  stored by \<open>utf_msglst_append\<close>.
\<close>

definition utf_recvengine :: "'w utofu \<Rightarrow> nat \<Rightarrow> utf_packet \<Rightarrow> 'w utf \<Rightarrow> (int \<times> 'w utf) outcome" where
  "utf_recvengine U j pkt s =
     (case u_state (rcntr s j) of
        R_NONE \<Rightarrow>
          bindO (utfgen_explst_match (h_flgs (hdr pkt)) (h_src (hdr pkt)) (h_tag (hdr pkt)) (queues s)) (\<lambda>(idx, q).
            let s1 = s\<lparr>queues := q\<rparr>
            in if idx \<noteq> -1 then recv_expected U j pkt (nat idx) s1
               else bindO (utf_recvreq_alloc (reqs s1)) (\<lambda>(r, rp).
                 let s2 = s1\<lparr>reqs := rp\<rparr>
                 in case r of None \<Rightarrow> ret (1, s2) | Some i \<Rightarrow> recv_unexpected U j pkt i s2))
      | R_BODY \<Rightarrow>
          (case u_req (rcntr s j) of
             None \<Rightarrow> crash NullDeref
           | Some i \<Rightarrow> bindO (eager_copy_and_check j i pkt s) (\<lambda>(st, s1).
               ret (0, if st = R_DONE then recv_done U j i s1 else s1)))
      | _ \<Rightarrow> ret (-1, s))"


section \<open>Eager packets are reassembled\<close>

text \<open>The message bytes a packet carries, and what the sender guarantees of a packet.\<close>

definition pkt_chunk :: "utf_packet \<Rightarrow> u8 list" where
  "pkt_chunk pkt = take (unat (h_pyldsz (hdr pkt))) (if h_flgs (hdr pkt) = 0 then PKT_DATA pkt else PKT_FI_MSGDATA pkt)"

definition wf_eager_pkt :: "6 word \<Rightarrow> utf_packet \<Rightarrow> bool" where
  "wf_eager_pkt flgs pkt \<longleftrightarrow> wf_pkt pkt \<and> h_flgs (hdr pkt) = flgs
     \<and> unat (h_pyldsz (hdr pkt)) \<le> (if flgs = 0 then MSG_PYLDSZ else MSG_FI_PYLDSZ)"

lemma length_pkt_chunk: "wf_eager_pkt flgs pkt \<Longrightarrow> length (pkt_chunk pkt) = unat (h_pyldsz (hdr pkt))"
  by (auto simp: wf_eager_pkt_def wf_pkt_def pkt_chunk_def PKT_DATA_def PKT_FI_MSGDATA_def msg_size_defs)

lemma take_pkt_chunk:
  assumes "wf_eager_pkt flgs pkt"
  shows "take (length (pkt_chunk pkt)) (if flgs = 0 then PKT_DATA pkt else PKT_FI_MSGDATA pkt) = pkt_chunk pkt"
    and "length (pkt_chunk pkt) \<le> length (if flgs = 0 then PKT_DATA pkt else PKT_FI_MSGDATA pkt)"
proof -
  have f: "h_flgs (hdr pkt) = flgs" using assms by (simp add: wf_eager_pkt_def)
  show "take (length (pkt_chunk pkt)) (if flgs = 0 then PKT_DATA pkt else PKT_FI_MSGDATA pkt) = pkt_chunk pkt"
    unfolding length_pkt_chunk [OF assms] by (simp add: pkt_chunk_def f)
  show "length (pkt_chunk pkt) \<le> length (if flgs = 0 then PKT_DATA pkt else PKT_FI_MSGDATA pkt)"
    by (simp add: pkt_chunk_def f)
qed

text \<open>
  \<open>D\<close> of the \<open>L\<close> bytes of a message have arrived for request \<open>i\<close>, whose buffer is at offset \<open>o1\<close>
  of block \<open>b\<close>, with content \<open>m0\<close> before. A plain message is stored whole, a fabric message
  up to the posted length \<open>E\<close>.
\<close>

definition eager_limit :: "6 word \<Rightarrow> nat \<Rightarrow> nat \<Rightarrow> nat" where
  "eager_limit flgs L E = (if flgs = 0 then L else E)"

definition recv_buf_inv ::
  "'w utf \<Rightarrow> nat \<Rightarrow> nat \<Rightarrow> nat \<Rightarrow> u8 list \<Rightarrow> 6 word \<Rightarrow> nat \<Rightarrow> nat \<Rightarrow> u8 list \<Rightarrow> bool" where
  "recv_buf_inv s i b o1 m0 flgs L E D \<longleftrightarrow>
     r_buf (req_of s i) = Some (b, o1) \<and> mem s b = Some (overwrite m0 o1 (take (eager_limit flgs L E) D))
     \<and> h_size (r_hdr (req_of s i)) = word_of_nat L \<and> r_rsize (req_of s i) = word_of_nat (length D)
     \<and> length D \<le> L \<and> L < 2 ^ 35 \<and> o1 + eager_limit flgs L E \<le> length m0
     \<and> (flgs \<noteq> 0 \<longrightarrow> unat (r_rcvexpsz (req_of s i)) = E \<and> (r_overrun (req_of s i) \<longleftrightarrow> E < length D))"

lemma unat_rsize:
  "n < 2 ^ 35 \<Longrightarrow> unat (word_of_nat n :: 35 word) = n"
  "n < 2 ^ 35 \<Longrightarrow> unat (ucast (word_of_nat n :: 35 word) :: u64) = n"
  by (simp_all add: unat_of_nat unsigned_ucast_eq take_bit_nat_eq_self)

lemma overwrite_take_append:
  assumes "o1 + n \<le> length m" and "length D \<le> n"
  shows "overwrite (overwrite m o1 (take n D)) (o1 + length D) (take (n - length D) c) = overwrite m o1 (take n (D @ c))"
  using overwrite_adjacent [of o1 D "take (n - length D) c" m] assms by simp

text \<open>What one packet does to the buffer, for both kinds of message.\<close>

lemma eager_copy_step:
  assumes inv: "recv_buf_inv s i b o1 m0 flgs L E D" and wf: "wf_eager_pkt flgs pkt"
    and len: "length D + length (pkt_chunk pkt) \<le> L"
  shows "eager_copy i pkt s = ret ((mod_req i (\<lambda>r. if flgs = 0 then r
        else r\<lparr>r_overrun := E < length D + length (pkt_chunk pkt)\<rparr>) s)
      \<lparr>mem := (mem s)(b \<mapsto> overwrite m0 o1 (take (eager_limit flgs L E) (D @ pkt_chunk pkt)))\<rparr>)"
proof -
  let ?c = "pkt_chunk pkt" and ?r = "req_of s i"
  have n: "unat (h_pyldsz (hdr pkt)) = length ?c" using length_pkt_chunk [OF wf] by simp
  have buf: "r_buf ?r = Some (b, o1)" and m: "mem s b = Some (overwrite m0 o1 (take (eager_limit flgs L E) D))"
    and rs: "r_rsize ?r = word_of_nat (length D)" and L: "length D \<le> L" "L < 2 ^ 35"
    and lim: "o1 + eager_limit flgs L E \<le> length m0"
    using inv by (auto simp: recv_buf_inv_def)
  have rs': "unat (r_rsize ?r) = length D" "unat (ucast (r_rsize ?r) :: u64) = length D"
    using rs L by (simp_all add: unat_rsize)
  have lm: "length (overwrite m0 o1 (take (eager_limit flgs L E) D)) = length m0"
    using lim by (intro length_overwrite) auto
  note src = take_pkt_chunk [OF wf]
  show ?thesis
  proof (cases "flgs = 0")
    case True
    then have h0: "h_flgs (hdr pkt) = 0" using wf by (simp add: wf_eager_pkt_def)
    have "store_ptr (Some (b, o1)) (length D) ?c s
        = ret (s\<lparr>mem := (mem s)(b \<mapsto> overwrite m0 o1 (take L (D @ ?c)))\<rparr>)"
      using store_ptr_ok [OF m, of o1 "length D" ?c] lim len lm True overwrite_adjacent [of o1 D ?c m0]
      by (simp add: eager_limit_def)
    with h0 n buf rs' src True show ?thesis
      by (simp add: eager_copy_def eager_limit_def mod_req_def upd_req_def)
  next
    case False
    then have h0: "h_flgs (hdr pkt) \<noteq> 0" using wf by (simp add: wf_eager_pkt_def)
    have E: "unat (r_rcvexpsz ?r) = E" "r_overrun ?r \<longleftrightarrow> E < length D" using inv False by (auto simp: recv_buf_inv_def)
    have sum: "unat ((ucast (r_rsize ?r) :: u64) + word_of_nat (length ?c)) = length D + length ?c"
      using len L rs' by (simp add: unat_word_ariths unat_of_nat)
    have over: "(ucast (r_rsize ?r) :: u64) + word_of_nat (length ?c) > r_rcvexpsz ?r \<longleftrightarrow> E < length D + length ?c"
      using sum E by (simp add: word_less_nat_alt)
    show ?thesis
    proof (cases "E < length D")
      case True
      with h0 E m False show ?thesis
        by (simp add: eager_copy_def eager_limit_def mod_req_def upd_req_def req_of_def fun_upd_idem)
    next
      case nov: False
      define rest where "rest = r_rcvexpsz ?r - ucast (r_rsize ?r)"
      have rest: "unat rest = E - length D"
        using nov E rs' unfolding rest_def by (simp add: unat_sub word_le_nat_alt)
      have st: "fi_copy i (take k ?c) t = ret (t\<lparr>mem := (mem t)(b \<mapsto> overwrite m0 o1 (take E (D @ ?c)))\<rparr>)"
        if t: "mem t = mem s" "r_buf (req_of t i) = r_buf ?r" "r_rsize (req_of t i) = r_rsize ?r"
          and k: "take k ?c = take (E - length D) ?c" for t :: "'a utf" and k
        using store_ptr_ok [of t b "overwrite m0 o1 (take E D)" o1 "length D" "take (E - length D) ?c"] t k m lim lm False nov buf rs'
          overwrite_take_append [of o1 E m0 D ?c]
        by (simp add: fi_copy_def eager_limit_def)
      show ?thesis
      proof (cases "E < length D + length ?c")
        case True
        have tk: "take (unat rest) (PKT_FI_MSGDATA pkt) = take (E - length D) ?c"
        proof -
          have "take (E - length D) ?c = take (E - length D) (take (length ?c) (PKT_FI_MSGDATA pkt))"
            using src(1) False by simp
          moreover have "min (E - length D) (length ?c) = E - length D" using True nov by linarith
          ultimately show ?thesis using rest by simp
        qed
        have le: "unat rest \<le> length (PKT_FI_MSGDATA pkt)" using src(2) False rest True by simp
        let ?s1 = "mod_req i (\<lambda>r. r\<lparr>r_overrun := True\<rparr>) s"
        have st1: "fi_copy i (take (E - length D) ?c) ?s1 = ret (?s1\<lparr>mem := (mem s)(b \<mapsto> overwrite m0 o1 (take E (D @ ?c)))\<rparr>)"
          using st [of ?s1 "E - length D"] by simp
        have z: "rest > 0 \<longleftrightarrow> E - length D > 0" using rest by (simp add: word_less_nat_alt)
        have o: "overwrite m0 o1 (take E (D @ ?c)) = overwrite m0 o1 (take E D)" if "\<not> rest > 0"
          using that z by simp
        show ?thesis
          using h0 E nov over True n tk le st1 False m z o
          by (auto simp: eager_copy_def eager_limit_def Let_def rest_def [symmetric] fun_upd_idem)
      next
        case nofit: False
        have "take (length ?c) ?c = take (E - length D) ?c" using nofit by simp
        from st [OF refl refl refl this] h0 E nov over nofit n src False show ?thesis
          by (simp add: eager_copy_def eager_limit_def mod_req_def upd_req_def req_of_def fun_upd_idem)
      qed
    qed
  qed
qed

text \<open>What receiving packets of one message leaves alone.\<close>

definition recv_frame :: "nat \<Rightarrow> nat \<Rightarrow> nat \<Rightarrow> 'w utf \<Rightarrow> 'w utf \<Rightarrow> bool" where
  "recv_frame i j b s s' \<longleftrightarrow> queues s' = queues s \<and> next_blk s' = next_blk s
     \<and> (\<forall>k. k \<noteq> b \<longrightarrow> mem s' k = mem s k) \<and> (\<forall>k. k \<noteq> i \<longrightarrow> req_of s' k = req_of s k)
     \<and> r_type (req_of s' i) = r_type (req_of s i) \<and> r_hdr (req_of s' i) = r_hdr (req_of s i)
     \<and> r_rndz (req_of s' i) = r_rndz (req_of s i) \<and> r_notify (req_of s' i) = r_notify (req_of s i)
     \<and> (\<forall>k. k \<noteq> j \<longrightarrow> rcntr s' k = rcntr s k)
     \<and> rq_next (reqs s') = rq_next (reqs s) \<and> rq_freelst (reqs s') = rq_freelst (reqs s)
     \<and> sreq_count (reqs s') = sreq_count (reqs s) \<and> rreq_count (reqs s') = rreq_count (reqs s)"

lemma recv_frame_trans: "recv_frame i j b s s1 \<Longrightarrow> recv_frame i j b s1 s2 \<Longrightarrow> recv_frame i j b s s2"
  by (simp add: recv_frame_def)

lemma eager_check_step:
  assumes inv: "recv_buf_inv s i b o1 m0 flgs L E D" and wf: "wf_eager_pkt flgs pkt"
    and len: "length D + length (pkt_chunk pkt) \<le> L"
  shows "\<exists>s'. eager_copy_and_check j i pkt s
        = ret (if length D + length (pkt_chunk pkt) = L then R_DONE else R_BODY, s')
    \<and> recv_buf_inv s' i b o1 m0 flgs L E (D @ pkt_chunk pkt) \<and> recv_frame i j b s s'
    \<and> rcntr s' j = (rcntr s j)\<lparr>u_state := (if length D + length (pkt_chunk pkt) = L then R_DONE else R_BODY)\<rparr>"
proof -
  let ?c = "pkt_chunk pkt"
  let ?st = "if length D + length ?c = L then R_DONE else R_BODY"
  let ?s1 = "(mod_req i (\<lambda>r. if flgs = 0 then r else r\<lparr>r_overrun := E < length D + length ?c\<rparr>) s)
      \<lparr>mem := (mem s)(b \<mapsto> overwrite m0 o1 (take (eager_limit flgs L E) (D @ ?c)))\<rparr>"
  let ?s2 = "mod_req i (\<lambda>r. r\<lparr>r_rsize := r_rsize r + ucast (h_pyldsz (hdr pkt))\<rparr>) ?s1"
  have rs: "r_rsize (req_of s i) + ucast (h_pyldsz (hdr pkt)) = word_of_nat (length (D @ ?c))"
  proof -
    have "(ucast (h_pyldsz (hdr pkt)) :: 35 word) = word_of_nat (unat (h_pyldsz (hdr pkt)))"
      by (simp add: unsigned_ucast_eq)
    with length_pkt_chunk [OF wf] inv show ?thesis by (simp add: recv_buf_inv_def)
  qed
  have sz: "h_size (r_hdr (req_of s i)) = word_of_nat L" and Lb: "L < 2 ^ 35" using inv by (auto simp: recv_buf_inv_def)
  have eq: "(word_of_nat L :: 35 word) = word_of_nat (length (D @ ?c)) \<longleftrightarrow> length D + length ?c = L"
  proof
    assume "(word_of_nat L :: 35 word) = word_of_nat (length (D @ ?c))"
    then have "unat (word_of_nat L :: 35 word) = unat (word_of_nat (length (D @ ?c)) :: 35 word)" by simp
    with Lb len unat_rsize(1) [of L] unat_rsize(1) [of "length (D @ ?c)"] show "length D + length ?c = L" by simp
  qed auto
  have r2: "req_of ?s2 i = (if flgs = 0 then req_of s i else (req_of s i)\<lparr>r_overrun := E < length D + length ?c\<rparr>)
      \<lparr>r_rsize := word_of_nat (length (D @ ?c))\<rparr>"
    using rs by (auto simp: req_of_def mod_req_def upd_req_def)
  have e: "eager_copy_and_check j i pkt s = ret (?st, mod_rcntr j (\<lambda>u. u\<lparr>u_state := ?st\<rparr>) ?s2)"
    unfolding eager_copy_and_check_def eager_copy_step [OF inv wf len] bindO_ret Let_def r2
    using sz eq by simp
  have inv2: "recv_buf_inv (mod_rcntr j (\<lambda>u. u\<lparr>u_state := ?st\<rparr>) ?s2) i b o1 m0 flgs L E (D @ ?c)"
    using inv len r2 by (auto simp: recv_buf_inv_def)
  have "recv_frame i j b s (mod_rcntr j (\<lambda>u. u\<lparr>u_state := ?st\<rparr>) ?s2)"
    by (auto simp: recv_frame_def req_of_def mod_req_def upd_req_def mod_rcntr_def)
  moreover have "rcntr (mod_rcntr j (\<lambda>u. u\<lparr>u_state := ?st\<rparr>) ?s2) j = (rcntr s j)\<lparr>u_state := ?st\<rparr>" by simp
  ultimately show ?thesis using e inv2 by blast
qed

lemma recv_done_props:
  "recv_frame i j b s (recv_done U j i s)" "mem (recv_done U j i s) = mem s"
  "u_state (rcntr (recv_done U j i s) j) = R_NONE" "u_req (rcntr (recv_done U j i s) j) = None"
  "r_state (req_of (recv_done U j i s) i) = REQ_DONE"
  "r_buf (req_of (recv_done U j i s) i) = r_buf (req_of s i)"
  "r_rsize (req_of (recv_done U j i s) i) = r_rsize (req_of s i)"
  "r_overrun (req_of (recv_done U j i s) i) = r_overrun (req_of s i)"
  "r_rcvexpsz (req_of (recv_done U j i s) i) = r_rcvexpsz (req_of s i)"
  by (auto simp: recv_done_def run_notify_def recv_frame_def Let_def req_of_def mod_req_def upd_req_def
      mod_rcntr_def split: option.splits)

lemma recv_done_buf_inv:
  "recv_buf_inv s i b o1 m0 flgs L E D \<Longrightarrow> recv_buf_inv (recv_done U j i s) i b o1 m0 flgs L E D"
  using recv_done_props(1) [of i j b s U] recv_done_props(2,6-9) [of U j i s]
  by (auto simp: recv_buf_inv_def recv_frame_def)

text \<open>Feeding packets to the engine one after another.\<close>

fun recv_all :: "'w utofu \<Rightarrow> nat \<Rightarrow> utf_packet list \<Rightarrow> 'w utf \<Rightarrow> 'w utf outcome" where
  "recv_all U j [] s = ret s"
| "recv_all U j (p # ps) s =
     bindO (utf_recvengine U j p s) (\<lambda>(rc, s1). if rc = 0 then recv_all U j ps s1 else crash Aborted)"

definition msg_received :: "'w utf \<Rightarrow> nat \<Rightarrow> nat \<Rightarrow> bool" where
  "msg_received s i j \<longleftrightarrow> r_state (req_of s i) = REQ_DONE \<and> u_state (rcntr s j) = R_NONE \<and> u_req (rcntr s j) = None"

lemma recv_all_body:
  assumes "u_state (rcntr s j) = R_BODY" and "u_req (rcntr s j) = Some i"
    and "recv_buf_inv s i b o1 m0 flgs L E D" and "length D < L"
    and "\<forall>p \<in> set ps. wf_eager_pkt flgs p \<and> pkt_chunk p \<noteq> []"
    and "length D + length (concat (map pkt_chunk ps)) = L"
  shows "\<exists>s'. recv_all U j ps s = ret s' \<and> msg_received s' i j \<and> recv_frame i j b s s'
    \<and> recv_buf_inv s' i b o1 m0 flgs L E (D @ concat (map pkt_chunk ps))"
  using assms
proof (induction ps arbitrary: s D)
  case (Cons p ps)
  let ?c = "pkt_chunk p"
  have wf: "wf_eager_pkt flgs p" and len: "length D + length ?c \<le> L" using Cons.prems by auto
  from eager_check_step [OF Cons.prems(3) wf len, of j] obtain s1 where
    e: "eager_copy_and_check j i p s = ret (if length D + length ?c = L then R_DONE else R_BODY, s1)"
    and i1: "recv_buf_inv s1 i b o1 m0 flgs L E (D @ ?c)" and f1: "recv_frame i j b s s1"
    and u1: "rcntr s1 j = (rcntr s j)\<lparr>u_state := (if length D + length ?c = L then R_DONE else R_BODY)\<rparr>" by blast
  show ?case
  proof (cases "length D + length ?c = L")
    case True
    with Cons.prems(5,6) have "ps = []" by (cases ps) auto
    moreover have "utf_recvengine U j p s = ret (0, recv_done U j i s1)"
      using Cons.prems(1,2) e True by (simp add: utf_recvengine_def)
    ultimately show ?thesis
      using recv_frame_trans [OF f1 recv_done_props(1)] recv_done_props(2-9) [of U j i s1] recv_done_buf_inv [OF i1]
      by (auto simp: msg_received_def)
  next
    case False
    then have r: "utf_recvengine U j p s = ret (0, s1)"
      using Cons.prems(1,2) e by (simp add: utf_recvengine_def)
    from Cons.IH [of s1 "D @ ?c"] False len Cons.prems i1 u1 obtain s' where
      "recv_all U j ps s1 = ret s'" "msg_received s' i j" "recv_frame i j b s1 s'"
      "recv_buf_inv s' i b o1 m0 flgs L E ((D @ ?c) @ concat (map pkt_chunk ps))" by auto
    with r recv_frame_trans [OF f1] show ?thesis by auto
  qed
qed simp

section \<open>The first packet\<close>

lemma overwrite_whole: "length msg = n \<Longrightarrow> overwrite (replicate n x) 0 msg = msg"
  by (simp add: overwrite_def)

text \<open>No posted receive accepts the message: the engine takes it as unexpected.\<close>

definition exp_test :: "6 word \<Rightarrow> utf_msghdr \<Rightarrow> utf_msglst \<Rightarrow> bool" where
  "exp_test flgs h m = (if flgs = 0 then utf_exp_test (h_src h) (ucast (h_tag h)) m
     else tfi_exp_test (h_src h) (h_tag h) m)"

definition exp_list :: "6 word \<Rightarrow> lstname" where
  "exp_list flgs = (if flgs = 0 then Utf_explst else fi_list Tfi_tag_explst Tfi_msg_explst flgs)"

definition uexp_list :: "6 word \<Rightarrow> lstname" where
  "uexp_list flgs = (if flgs = 0 then Utf_uexplst else fi_list Tfi_tag_uexplst Tfi_msg_uexplst flgs)"

lemma lists_not_free [simp]: "exp_list flgs \<noteq> Utf_msglst_freelst" "uexp_list flgs \<noteq> Utf_msglst_freelst"
  by (simp_all add: exp_list_def uexp_list_def fi_list_def)

lemma utfgen_explst_match_loop:
  assumes "msgq_inv q Q"
  shows "utfgen_explst_match flgs (h_src h) (h_tag h) q = match_loop (exp_list flgs) False (exp_test flgs h) q"
proof -
  have "exp_test flgs h = (if flgs = 0 then utf_exp_test (h_src h) (ucast (h_tag h)) else tfi_exp_test (h_src h) (h_tag h))"
    by (simp add: fun_eq_iff exp_test_def)
  then show ?thesis
    by (simp add: utfgen_explst_match_def exp_list_def utf_explst_match_def tfi_utf_explst_match_def isnull_match [OF assms])
qed

lemma utfgen_explst_no_match:
  assumes inv: "msgq_inv q Q" and no: "\<forall>m \<in> set (Q (exp_list flgs)). \<not> exp_test flgs h (msl q m)"
  shows "utfgen_explst_match flgs (h_src h) (h_tag h) q = ret (-1, q)"
proof -
  have "dropWhile (\<lambda>m. \<not> exp_test flgs h (msl q m)) (Q (exp_list flgs)) = []" using no by auto
  then show ?thesis
    unfolding utfgen_explst_match_loop [OF inv] by (simp only: match_loop_eq [OF inv] list.case)
qed

lemma utfgen_uexplst_enqueue_inv:
  assumes inv: "msgq_inv q Q" and f: "Q Utf_msglst_freelst = m # fs"
  shows "\<exists>q'. utfgen_uexplst_enqueue flgs h ridx q = ret q'
    \<and> msgq_inv q' (Q(uexp_list flgs := Q (uexp_list flgs) @ [m], Utf_msglst_freelst := fs))
    \<and> msl q' = (msl q)(m := (msl q m)\<lparr>ml_hdr := h, reqidx := ridx\<rparr>)"
proof -
  from utf_msglst_append_inv [OF inv _ f, of "uexp_list flgs" h ridx] obtain q' where
    "utf_msglst_append (uexp_list flgs) h ridx q = ret (m, q')"
    "msgq_inv q' (Q(uexp_list flgs := Q (uexp_list flgs) @ [m], Utf_msglst_freelst := fs))"
    "msl q' = (msl q)(m := (msl q m)\<lparr>ml_hdr := h, reqidx := ridx\<rparr>)" by auto
  then show ?thesis
    by (auto simp: utfgen_uexplst_enqueue_def uexp_list_def split: if_splits)
qed

text \<open>
  The first packet of a message, whether it was expected or not, is copied into the
  buffer that was chosen for it (state \<open>t\<close>), and the rest follows in the body state.
\<close>

lemma recv_all_first:
  assumes inv: "recv_buf_inv t i b o1 m0 flgs L E []"
    and eng: "utf_recvengine U j p s = bindO (eager_copy_and_check j i p t) (\<lambda>(st, s5).
        if st = R_DONE then ret (0, recv_done U j i s5)
        else ret (0, mod_req i (\<lambda>r. r\<lparr>r_rcntr := c r\<rparr>) (mod_rcntr j (\<lambda>u. u\<lparr>u_req := Some i\<rparr>) s5)))"
    and p: "wf_eager_pkt flgs p" and ps: "\<forall>x \<in> set ps. wf_eager_pkt flgs x \<and> pkt_chunk x \<noteq> []"
    and len: "length (pkt_chunk p @ concat (map pkt_chunk ps)) = L"
  shows "\<exists>s'. recv_all U j (p # ps) s = ret s' \<and> msg_received s' i j \<and> recv_frame i j b t s'
    \<and> recv_buf_inv s' i b o1 m0 flgs L E (pkt_chunk p @ concat (map pkt_chunk ps))"
proof -
  let ?c = "pkt_chunk p"
  from eager_check_step [OF inv p, of j] len obtain s5 where
    e: "eager_copy_and_check j i p t = ret (if length ?c = L then R_DONE else R_BODY, s5)"
    and i5: "recv_buf_inv s5 i b o1 m0 flgs L E ?c" and f5: "recv_frame i j b t s5"
    and u5: "rcntr s5 j = (rcntr t j)\<lparr>u_state := (if length ?c = L then R_DONE else R_BODY)\<rparr>" by auto
  show ?thesis
  proof (cases "length ?c = L")
    case True
    with len ps have "ps = []" by (cases ps) auto
    with True eng e recv_frame_trans [OF f5 recv_done_props(1)] recv_done_props(2-9) [of U j i s5] recv_done_buf_inv [OF i5]
    show ?thesis by (auto simp: msg_received_def)
  next
    case False
    let ?s6 = "mod_req i (\<lambda>r. r\<lparr>r_rcntr := c r\<rparr>) (mod_rcntr j (\<lambda>u. u\<lparr>u_req := Some i\<rparr>) s5)"
    have i6: "recv_buf_inv ?s6 i b o1 m0 flgs L E ?c" using i5 by (simp add: recv_buf_inv_def)
    have f6: "recv_frame i j b s5 ?s6"
      by (auto simp: recv_frame_def req_of_def mod_req_def upd_req_def mod_rcntr_def)
    from recv_all_body [OF _ _ i6 _ ps, of j U] False len u5 obtain s' where
      "recv_all U j ps ?s6 = ret s'" "msg_received s' i j" "recv_frame i j b ?s6 s'"
      "recv_buf_inv s' i b o1 m0 flgs L E (?c @ concat (map pkt_chunk ps))" by auto
    with False eng e recv_frame_trans [OF recv_frame_trans [OF f5 f6]] show ?thesis by auto
  qed
qed

lemma mod_req_keep: "mod_req i (\<lambda>r. r\<lparr>r_rcntr := r_rcntr r\<rparr>) x = x"
  by (simp add: mod_req_def upd_req_def)

lemma req_inv_frame:
  "req_inv rp F S R \<Longrightarrow> rq_next rp' = rq_next rp \<Longrightarrow> rq_freelst rp' = rq_freelst rp \<Longrightarrow>
   sreq_count rp' = sreq_count rp \<Longrightarrow> rreq_count rp' = rreq_count rp \<Longrightarrow> req_inv rp' F S R"
  by (simp add: req_inv_def)

lemma unexpected_received:
  assumes st: "u_state (rcntr s j) = R_NONE"
    and q: "msgq_inv (queues s) Q" "Q Utf_msglst_freelst = m # fs"
    and no: "\<forall>x \<in> set (Q (exp_list flgs)). \<not> exp_test flgs (hdr p) (msl (queues s) x)"
    and rp: "req_inv (reqs s) (i # F) S R" "card R \<le> MSGREQ_RECV_SZ" and i: "i < 2 ^ 31"
    and mal: "u_malloc_ok U (ucast (h_size (hdr p))) (world s)"
    and ov: "flgs \<noteq> 0 \<longrightarrow> \<not> r_overrun (req_of s i)"
    and p: "wf_eager_pkt flgs p" "h_rndz (hdr p) = 0" "unat (h_size (hdr p)) = length msg"
    and ps: "\<forall>x \<in> set ps. wf_eager_pkt flgs x \<and> pkt_chunk x \<noteq> []"
    and msg: "pkt_chunk p @ concat (map pkt_chunk ps) = msg"
  shows "\<exists>s'. recv_all U j (p # ps) s = ret s' \<and> msg_received s' i j
    \<and> r_buf (req_of s' i) = Some (next_blk s, 0) \<and> mem s' (next_blk s) = Some msg \<and> (\<forall>k. k \<noteq> next_blk s \<longrightarrow> mem s' k = mem s k)
    \<and> r_hdr (req_of s' i) = hdr p \<and> r_rndz (req_of s' i) = 0
    \<and> msgq_inv (queues s') (Q(uexp_list flgs := Q (uexp_list flgs) @ [m], Utf_msglst_freelst := fs))
    \<and> msl_env (msl (queues s') m) = (hdr p, word_of_nat i) \<and> (\<forall>x. x \<noteq> m \<longrightarrow> msl (queues s') x = msl (queues s) x)
    \<and> req_inv (reqs s') F S (insert i R)"
proof -
  let ?L = "length msg"
  have L: "?L < 2 ^ 35" using p(3) unsigned_less [of "h_size (hdr p)", where 'a = nat] by simp
  have flgs: "h_flgs (hdr p) = flgs" using p(1) by (simp add: wf_eager_pkt_def)
  from recvreq_alloc_inv [OF rp] obtain rp' where
    a: "utf_recvreq_alloc (reqs s) = ret (Some i, rp')" "rq rp' = rq (reqs s)" "req_inv rp' F S (insert i R)" by blast
  let ?f = "\<lambda>r. r\<lparr>r_fi_data := PKT_FI_DATA p, r_fi_ucontext := 0, r_hdr := hdr p,
    r_rsize := 0, r_ustatus := REQ_NONE, r_type := REQ_RECV_UNEXPECTED, r_rndz := h_rndz (hdr p)\<rparr>"
  let ?s1 = "mod_req i ?f (s\<lparr>reqs := rp'\<rparr>)"
  from utfgen_uexplst_enqueue_inv [OF q, of flgs "hdr p" "word_of_nat i"] obtain q' where
    e: "utfgen_uexplst_enqueue flgs (hdr p) (word_of_nat i) (queues s) = ret q'"
    and qi: "msgq_inv q' (Q(uexp_list flgs := Q (uexp_list flgs) @ [m], Utf_msglst_freelst := fs))"
    and qm: "msl q' = (msl (queues s))(m := (msl (queues s) m)\<lparr>ml_hdr := hdr p, reqidx := word_of_nat i\<rparr>)" by blast
  let ?g = "\<lambda>r. r\<lparr>r_buf := Some (next_blk s, 0), r_alloc := True, r_rcvexpsz := ucast (h_size (hdr p)), r_state := REQ_NONE\<rparr>"
  let ?s4 = "mod_req i ?g (?s1\<lparr>queues := q', mem := (mem s)(next_blk s \<mapsto> replicate ?L 0), next_blk := Suc (next_blk s)\<rparr>)"
  have uL: "unat (ucast (h_size (hdr p)) :: u64) = ?L" using p(3) L by (simp add: unsigned_ucast_eq take_bit_nat_eq_self)
  have eng: "utf_recvengine U j p s = bindO (eager_copy_and_check j i p ?s4) (\<lambda>(st, s5).
        if st = R_DONE then ret (0, recv_done U j i s5)
        else ret (0, mod_req i (\<lambda>r. r\<lparr>r_rcntr := Some j\<rparr>) (mod_rcntr j (\<lambda>u. u\<lparr>u_req := Some i\<rparr>) s5)))"
  proof -
    have "utf_recvengine U j p s = recv_unexpected U j p i (s\<lparr>reqs := rp'\<rparr>)"
      using st utfgen_explst_no_match [OF q(1) no] a(1) by (simp add: utf_recvengine_def flgs)
    also have "\<dots> = bindO (eager_copy_and_check j i p ?s4) (\<lambda>(st, s5).
        if st = R_DONE then ret (0, recv_done U j i s5)
        else ret (0, mod_req i (\<lambda>r. r\<lparr>r_rcntr := Some j\<rparr>) (mod_rcntr j (\<lambda>u. u\<lparr>u_req := Some i\<rparr>) s5)))"
      using e p(2) mal uL by (simp add: recv_unexpected_def flgs utf_malloc_def Let_def)
    finally show ?thesis .
  qed
  have "word_of_nat (unat (h_size (hdr p))) = h_size (hdr p)" by simp
  then have "h_size (hdr p) = word_of_nat ?L" using p(3) by simp
  moreover have "flgs \<noteq> 0 \<longrightarrow> \<not> r_overrun (rq rp' i)" using ov a(2) by (simp add: req_of_def)
  ultimately have inv: "recv_buf_inv ?s4 i (next_blk s) 0 (replicate ?L 0) flgs ?L ?L []"
    using L uL by (simp add: recv_buf_inv_def eager_limit_def)
  from recv_all_first [OF inv eng p(1) ps] msg obtain s' where
    r: "recv_all U j (p # ps) s = ret s'" "msg_received s' i j" and fr: "recv_frame i j (next_blk s) ?s4 s'"
    and b: "recv_buf_inv s' i (next_blk s) 0 (replicate ?L 0) flgs ?L ?L msg" by auto
  have "req_inv (reqs s') F S (insert i R)"
    by (rule req_inv_frame [OF a(3)]) (use fr in \<open>simp_all add: recv_frame_def mod_req_def\<close>)
  moreover have "queues s' = q'" "\<forall>k. k \<noteq> next_blk s \<longrightarrow> mem s' k = mem s k" "r_hdr (req_of s' i) = hdr p" "r_rndz (req_of s' i) = 0"
    using fr p(2) by (simp_all add: recv_frame_def)
  ultimately show ?thesis
    using r b qi qm by (auto simp: recv_buf_inv_def eager_limit_def overwrite_whole msl_env_def)
qed

text \<open>C28: an unexpected eager message is reassembled. Whatever its division into packets, after
  the engine has consumed them the message is complete: its request is done, the
  dynamically allocated buffer holds exactly the message bytes, the receive control entry
  is ready for the next message, and the unexpected queue has gained one entry, at its end,
  with the header of the message and the index of the request. For fabric messages this
  needs the overrun flag of the recycled request to be clear.\<close>

theorem unexpected_eager_reassembled:
  assumes st: "u_state (rcntr s j) = R_NONE"
    and q: "msgq_inv (queues s) Q" "Q Utf_msglst_freelst = m # fs"
    and no: "\<forall>x \<in> set (Q (exp_list flgs)). \<not> exp_test flgs (hdr p) (msl (queues s) x)"
    and rp: "req_inv (reqs s) (i # F) S R" "card R \<le> MSGREQ_RECV_SZ" and i: "i < 2 ^ 31"
    and mal: "u_malloc_ok U (ucast (h_size (hdr p))) (world s)"
    and ov: "flgs \<noteq> 0 \<longrightarrow> \<not> r_overrun (req_of s i)"
    and p: "wf_eager_pkt flgs p" "h_rndz (hdr p) = 0" "unat (h_size (hdr p)) = length msg"
    and ps: "\<forall>x \<in> set ps. wf_eager_pkt flgs x \<and> pkt_chunk x \<noteq> []"
    and msg: "pkt_chunk p @ concat (map pkt_chunk ps) = msg"
  shows "\<exists>s'. recv_all U j (p # ps) s = ret s' \<and> msg_received s' i j
    \<and> r_buf (req_of s' i) = Some (next_blk s, 0) \<and> mem s' (next_blk s) = Some msg \<and> (\<forall>k. k \<noteq> next_blk s \<longrightarrow> mem s' k = mem s k)
    \<and> r_hdr (req_of s' i) = hdr p \<and> r_rndz (req_of s' i) = 0
    \<and> msgq_inv (queues s') (Q(uexp_list flgs := Q (uexp_list flgs) @ [m], Utf_msglst_freelst := fs))
    \<and> msl_env (msl (queues s') m) = (hdr p, word_of_nat i) \<and> (\<forall>x. x \<noteq> m \<longrightarrow> msl (queues s') x = msl (queues s) x)
    \<and> req_inv (reqs s') F S (insert i R)"
  by (rule unexpected_received [OF assms])

definition demo_pkt :: "u8 list \<Rightarrow> nat \<Rightarrow> utf_packet" where
  "demo_pkt bs sz = \<lparr>hdr = zero_hdr\<lparr>h_src := 1, h_tag := 5, h_size := word_of_nat sz, h_pyldsz := word_of_nat (length bs)\<rparr>,
     pyld = bs @ replicate (MSG_PYLDSZ - length bs) 0\<rparr>"

lemma demo_pkt_wf: "length bs \<le> MSG_PYLDSZ \<Longrightarrow> wf_eager_pkt 0 (demo_pkt bs sz)"
  by (simp add: wf_eager_pkt_def wf_pkt_def demo_pkt_def zero_hdr_def msg_size_defs unat_of_nat)

lemma demo_pkt_chunk: "length bs \<le> MSG_PYLDSZ \<Longrightarrow> pkt_chunk (demo_pkt bs sz) = bs"
  by (simp add: pkt_chunk_def demo_pkt_def zero_hdr_def PKT_DATA_def msg_size_defs unat_of_nat)

lemma demo_pkt_hdr [simp]:
  "h_rndz (hdr (demo_pkt bs sz)) = 0" "h_size (hdr (demo_pkt bs sz)) = word_of_nat sz"
  "h_flgs (hdr (demo_pkt bs sz)) = 0" "h_src (hdr (demo_pkt bs sz)) = 1" "h_tag (hdr (demo_pkt bs sz)) = 5"
  by (simp_all add: demo_pkt_def zero_hdr_def)

theorem unexpected_eager_reassembled_witness:
  "\<exists>s s'. utf_mem_init sim_nic (utf_static 0 2 5 7 [7, 8] sim0) = ret s
     \<and> recv_all sim_nic 125 [demo_pkt [1, 2] 3, demo_pkt [3] 3] s = ret s'
     \<and> r_state (req_of s' 0) = REQ_DONE \<and> mem s' 0 = Some [1, 2, 3]"
proof -
  obtain s where s: "utf_mem_init sim_nic (utf_static 0 2 5 7 [7, 8] sim0) = ret s" and f: "utf_fresh s"
    using fresh_sim by blast
  have q: "msgq_inv (queues s) ((\<lambda>_. [])(Utf_msglst_freelst := 0 # [1..<MSGLST_SIZE]))"
    and rp: "req_inv (reqs s) (0 # [1..<MSGREQ_SIZE]) {} {}" and st: "u_state (rcntr s 125) = R_NONE" "next_blk s = 0"
    using f upt_MSGLST upt_MSGREQ by (simp_all add: utf_fresh_def)
  have c: "pkt_chunk (demo_pkt [1, 2] 3) = [1, 2]" "pkt_chunk (demo_pkt [3] 3) = [3]"
    "wf_eager_pkt 0 (demo_pkt [1, 2] 3)" "wf_eager_pkt 0 (demo_pkt [3] 3)"
    by (simp_all add: demo_pkt_chunk demo_pkt_wf msg_size_defs)
  have "\<exists>s'. recv_all sim_nic 125 [demo_pkt [1, 2] 3, demo_pkt [3] 3] s = ret s' \<and> msg_received s' 0 125
    \<and> r_buf (req_of s' 0) = Some (next_blk s, 0) \<and> mem s' (next_blk s) = Some [1, 2, 3]"
    using unexpected_eager_reassembled [where flgs = 0 and msg = "[1, 2, 3]" and p = "demo_pkt [1, 2] 3" and ps = "[demo_pkt [3] 3]"
        and U = sim_nic, OF st(1) q _ _ rp] c
    by (auto simp: sim_nic_def exp_list_def)
  with s st show ?thesis by (auto simp: msg_received_def)
qed

text \<open>The matching in general: the first posted receive that passes the test of the code gets the message. A plain message is stored whole, a fabric message up to
  the posted length \<open>E\<close>.
\<close>

lemma expected_received:
  assumes st: "u_state (rcntr s j) = R_NONE"
    and q: "msgq_inv (queues s) Q" "Q (exp_list flgs) = xs @ c # ys"
    and no: "\<forall>x \<in> set xs. \<not> exp_test flgs (hdr p) (msl (queues s) x)" and yes: "exp_test flgs (hdr p) (msl (queues s) c)"
    and i: "sint (reqidx (msl (queues s) c)) = int i"
    and buf: "r_buf (req_of s i) = Some (b, o1)" "mem s b = Some m0" "r_rsize (req_of s i) = 0"
    and room: "o1 + eager_limit flgs (length msg) E \<le> length m0"
    and fi: "flgs \<noteq> 0 \<longrightarrow> unat (r_rcvexpsz (req_of s i)) = E \<and> \<not> r_overrun (req_of s i)"
    and p: "wf_eager_pkt flgs p" "h_rndz (hdr p) = 0" "unat (h_size (hdr p)) = length msg"
    and ps: "\<forall>x \<in> set ps. wf_eager_pkt flgs x \<and> pkt_chunk x \<noteq> []"
    and msg: "pkt_chunk p @ concat (map pkt_chunk ps) = msg"
  shows "\<exists>s'. recv_all U j (p # ps) s = ret s' \<and> msg_received s' i j
    \<and> mem s' b = Some (overwrite m0 o1 (take (eager_limit flgs (length msg) E) msg)) \<and> (\<forall>k. k \<noteq> b \<longrightarrow> mem s' k = mem s k)
    \<and> (flgs \<noteq> 0 \<longrightarrow> r_overrun (req_of s' i) = (E < length msg))
    \<and> msgq_inv (queues s') (Q(exp_list flgs := xs @ ys, Utf_msglst_freelst := c # Q Utf_msglst_freelst))"
proof -
  let ?L = "length msg"
  have L: "?L < 2 ^ 35" using p(3) unsigned_less [of "h_size (hdr p)", where 'a = nat] by simp
  have flgs: "h_flgs (hdr p) = flgs" using p(1) by (simp add: wf_eager_pkt_def)
  have "match_spec (exp_test flgs (hdr p)) (msl (queues s)) (Q (exp_list flgs)) = (int i, xs @ ys, [c])"
    unfolding q(2) i [symmetric] by (rule match_spec_first) (use no yes in auto)
  from match_loop_spec [OF q(1) _ this] obtain q' where
    m: "utfgen_explst_match flgs (h_src (hdr p)) (h_tag (hdr p)) (queues s) = ret (int i, q')"
    and qi: "msgq_inv q' (Q(exp_list flgs := xs @ ys, Utf_msglst_freelst := c # Q Utf_msglst_freelst))"
    using utfgen_explst_match_loop [OF q(1), of flgs "hdr p"] by auto
  let ?t = "mod_req i (\<lambda>r. r\<lparr>r_hdr := hdr p\<rparr>) (mod_req i (\<lambda>r. r\<lparr>r_rndz := 0, r_fi_data := PKT_FI_DATA p\<rparr>) (s\<lparr>queues := q'\<rparr>))"
  have eng: "utf_recvengine U j p s = bindO (eager_copy_and_check j i p ?t) (\<lambda>(st, s5).
        if st = R_DONE then ret (0, recv_done U j i s5)
        else ret (0, mod_req i (\<lambda>r. r\<lparr>r_rcntr := r_rcntr r\<rparr>) (mod_rcntr j (\<lambda>u. u\<lparr>u_req := Some i\<rparr>) s5)))"
    unfolding mod_req_keep using st m p(2) by (simp add: utf_recvengine_def recv_expected_def flgs Let_def)
  have "word_of_nat (unat (h_size (hdr p))) = h_size (hdr p)" by simp
  then have "h_size (hdr p) = word_of_nat ?L" using p(3) by simp
  then have inv: "recv_buf_inv ?t i b o1 m0 flgs ?L E []"
    using L buf room fi by (simp add: recv_buf_inv_def)
  from recv_all_first [OF inv eng p(1) ps] msg obtain s' where
    r: "recv_all U j (p # ps) s = ret s'" "msg_received s' i j" and fr: "recv_frame i j b ?t s'"
    and bi: "recv_buf_inv s' i b o1 m0 flgs ?L E msg" by auto
  have "queues s' = q'" "\<forall>k. k \<noteq> b \<longrightarrow> mem s' k = mem s k" using fr by (simp_all add: recv_frame_def)
  with r bi qi show ?thesis by (auto simp: recv_buf_inv_def)
qed

text \<open>
  Whether the posted receive behind \<open>m\<close> is meant to accept a message: it leaves its source open or names the sender, and its tag agrees, where a plain
  receive may leave the tag open and a fabric receive leaves out the bits of its mask. For a plain receive that names its source this is the test of the
  code; one that leaves it open takes every message if it names a tag, and none (but of the tag \<open>0xffffffff\<close>) otherwise.
\<close>

definition exp_wanted :: "6 word \<Rightarrow> utf_msghdr \<Rightarrow> utf_msglst \<Rightarrow> bool" where
  "exp_wanted flgs h m \<longleftrightarrow> (h_src (ml_hdr m) = -1 \<or> h_src (ml_hdr m) = h_src h)
     \<and> (if flgs = 0 then (ucast (h_tag (ml_hdr m)) :: u32) = -1 \<or> (ucast (h_tag (ml_hdr m)) :: u32) = ucast (h_tag h)
        else h_tag h AND NOT (fi_ignore m) = h_tag (ml_hdr m) AND NOT (fi_ignore m))"

lemma exp_test_wanted: "flgs = 0 \<longrightarrow> h_src (ml_hdr m) \<noteq> -1 \<Longrightarrow> exp_test flgs h m \<longleftrightarrow> exp_wanted flgs h m"
  by (auto simp: exp_test_def exp_wanted_def utf_exp_test_def tfi_exp_test_def Let_def)

text \<open>The size of the posted buffer: \<open>usrreqsz\<close> of a plain receive, \<open>rcvexpsz\<close> of a fabric receive.\<close>

definition posted_size :: "6 word \<Rightarrow> utf_msgreq \<Rightarrow> nat" where
  "posted_size flgs r = (if flgs = 0 then unat (r_usrreqsz r) else unat (r_rcvexpsz r))"

text \<open>C29: an expected eager message goes straight into the buffer of the first posted receive that is meant to accept it, at whatever offset of whatever block
  the user gave, and nothing outside the posted buffer of \<open>E\<close> bytes is written. A fabric message that is longer than the buffer is cut and the overrun flag set.
  Two restrictions concern plain messages, where the code is wrong: the receives posted before and the receive itself name their source (a receive with an open
  source and a tag accepts every message, line 483 of utf_queue.h), and the message is not longer than the buffer (line 378 of utf_msgmacros.h does not
  compare the sizes; \<open>plain_message_overruns\<close>).\<close>

theorem expected_eager_reassembled:
  assumes st: "u_state (rcntr s j) = R_NONE"
    and q: "msgq_inv (queues s) Q" "Q (exp_list flgs) = xs @ c # ys"
    and named: "flgs = 0 \<longrightarrow> (\<forall>x \<in> set (xs @ [c]). h_src (ml_hdr (msl (queues s) x)) \<noteq> -1)"
    and no: "\<forall>x \<in> set xs. \<not> exp_wanted flgs (hdr p) (msl (queues s) x)" and yes: "exp_wanted flgs (hdr p) (msl (queues s) c)"
    and i: "sint (reqidx (msl (queues s) c)) = int i"
    and buf: "r_buf (req_of s i) = Some (b, o1)" "mem s b = Some m0" "r_rsize (req_of s i) = 0"
    and posted: "posted_size flgs (req_of s i) = E" "o1 + E \<le> length m0"
    and len: "flgs = 0 \<longrightarrow> length msg \<le> E" and ov: "flgs \<noteq> 0 \<longrightarrow> \<not> r_overrun (req_of s i)"
    and p: "wf_eager_pkt flgs p" "h_rndz (hdr p) = 0" "unat (h_size (hdr p)) = length msg"
    and ps: "\<forall>x \<in> set ps. wf_eager_pkt flgs x \<and> pkt_chunk x \<noteq> []"
    and msg: "pkt_chunk p @ concat (map pkt_chunk ps) = msg"
  shows "\<exists>s'. recv_all U j (p # ps) s = ret s' \<and> msg_received s' i j
    \<and> mem s' b = Some (overwrite m0 o1 (take E msg)) \<and> (\<forall>k. k \<noteq> b \<longrightarrow> mem s' k = mem s k)
    \<and> (flgs \<noteq> 0 \<longrightarrow> r_overrun (req_of s' i) = (E < length msg))
    \<and> msgq_inv (queues s') (Q(exp_list flgs := xs @ ys, Utf_msglst_freelst := c # Q Utf_msglst_freelst))"
proof -
  have lim: "take (eager_limit flgs (length msg) E) msg = take E msg" using len by (simp add: eager_limit_def)
  have room: "o1 + eager_limit flgs (length msg) E \<le> length m0" using posted(2) len by (auto simp: eager_limit_def)
  have t: "exp_test flgs (hdr p) (msl (queues s) x) \<longleftrightarrow> exp_wanted flgs (hdr p) (msl (queues s) x)" if "x \<in> set (xs @ [c])" for x
    by (rule exp_test_wanted) (use named that in blast)
  have no': "\<forall>x \<in> set xs. \<not> exp_test flgs (hdr p) (msl (queues s) x)" and yes': "exp_test flgs (hdr p) (msl (queues s) c)" using t no yes by simp_all
  have fi: "flgs \<noteq> 0 \<longrightarrow> unat (r_rcvexpsz (req_of s i)) = E \<and> \<not> r_overrun (req_of s i)" using posted(1) ov by (auto simp: posted_size_def)
  show ?thesis using expected_received [OF st q no' yes' i buf room fi p ps msg, of U] unfolding lim .
qed

text \<open>A process that has posted one receive, from process 1 with the tag 5, into \<open>n\<close> bytes inside a block of six.\<close>

definition demo_posted :: "simw utf \<Rightarrow> msgq \<Rightarrow> nat \<Rightarrow> simw utf" where
  "demo_posted s q n = mod_req 0 (\<lambda>r. r\<lparr>r_buf := Some (0, 2), r_usrreqsz := word_of_nat n\<rparr>) (s\<lparr>queues := q, mem := [0 \<mapsto> replicate 6 9]\<rparr>)"

lemma demo_posted_start:
  "\<exists>s q. utf_mem_init sim_nic (utf_static 0 2 5 7 [7, 8] sim0) = ret s
     \<and> utf_msglst_append Utf_explst (zero_hdr\<lparr>h_src := 1, h_tag := 5\<rparr>) 0 (queues s) = ret (0, q)
     \<and> msgq_inv q ((\<lambda>_. [])(Utf_explst := [0], Utf_msglst_freelst := [1..<MSGLST_SIZE]))
     \<and> msl_env (msl q 0) = (zero_hdr\<lparr>h_src := 1, h_tag := 5\<rparr>, 0)
     \<and> u_state (rcntr s 125) = R_NONE \<and> r_rsize (req_of s 0) = 0"
proof -
  obtain s where s: "utf_mem_init sim_nic (utf_static 0 2 5 7 [7, 8] sim0) = ret s" and f: "utf_fresh s"
    using fresh_sim by blast
  have q0: "msgq_inv (queues s) ((\<lambda>_. [])(Utf_msglst_freelst := 0 # [1..<MSGLST_SIZE]))"
    using f upt_MSGLST by (simp add: utf_fresh_def)
  from utf_msglst_append_inv [OF q0, of Utf_explst 0 "[1..<MSGLST_SIZE]" "zero_hdr\<lparr>h_src := 1, h_tag := 5\<rparr>" 0]
  obtain q where "utf_msglst_append Utf_explst (zero_hdr\<lparr>h_src := 1, h_tag := 5\<rparr>) 0 (queues s) = ret (0, q)"
    "msgq_inv q ((\<lambda>_. [])(Utf_explst := [0], Utf_msglst_freelst := [1..<MSGLST_SIZE]))"
    "msl_env (msl q 0) = (zero_hdr\<lparr>h_src := 1, h_tag := 5\<rparr>, 0)"
    by (auto simp: fun_upd_twist msl_env_def)
  with s f show ?thesis by (auto simp: utf_fresh_def req_of_def zero_req_def)
qed

lemma demo_pkts:
  "pkt_chunk (demo_pkt [1, 2] 3) = [1, 2]" "pkt_chunk (demo_pkt [3] 3) = [3]"
  "wf_eager_pkt 0 (demo_pkt [1, 2] 3)" "wf_eager_pkt 0 (demo_pkt [3] 3)"
  by (simp_all add: demo_pkt_chunk demo_pkt_wf msg_size_defs)

theorem expected_eager_reassembled_witness:
  "\<exists>s q s'. utf_mem_init sim_nic (utf_static 0 2 5 7 [7, 8] sim0) = ret s
     \<and> utf_msglst_append Utf_explst (zero_hdr\<lparr>h_src := 1, h_tag := 5\<rparr>) 0 (queues s) = ret (0, q)
     \<and> recv_all sim_nic 125 [demo_pkt [1, 2] 3, demo_pkt [3] 3] (demo_posted s q 3) = ret s'
     \<and> mem s' 0 = Some [9, 9, 1, 2, 3, 9]"
proof -
  from demo_posted_start obtain s q where s: "utf_mem_init sim_nic (utf_static 0 2 5 7 [7, 8] sim0) = ret s"
      "utf_msglst_append Utf_explst (zero_hdr\<lparr>h_src := 1, h_tag := 5\<rparr>) 0 (queues s) = ret (0, q)"
    and q: "msgq_inv q ((\<lambda>_. [])(Utf_explst := [0], Utf_msglst_freelst := [1..<MSGLST_SIZE]))"
    and e: "msl_env (msl q 0) = (zero_hdr\<lparr>h_src := 1, h_tag := 5\<rparr>, 0)" and st: "u_state (rcntr s 125) = R_NONE" "r_rsize (req_of s 0) = 0" by blast
  have t: "exp_wanted 0 (hdr (demo_pkt [1, 2] 3)) (msl q 0)" "h_src (ml_hdr (msl q 0)) \<noteq> -1" using e by (auto simp: exp_wanted_def msl_env_def)
  have st1: "u_state (rcntr (demo_posted s q 3) 125) = R_NONE" using st(1) by (simp add: demo_posted_def)
  have "\<exists>s'. recv_all sim_nic 125 [demo_pkt [1, 2] 3, demo_pkt [3] 3] (demo_posted s q 3) = ret s'
    \<and> mem s' 0 = Some (overwrite (replicate 6 9) 2 (take 3 [1, 2, 3]))"
    using expected_eager_reassembled [where s = "demo_posted s q 3" and flgs = 0 and msg = "[1, 2, 3]" and p = "demo_pkt [1, 2] 3"
        and ps = "[demo_pkt [3] 3]" and U = sim_nic and i = 0 and b = 0 and xs = "[]" and c = 0 and ys = "[]" and ?o1.0 = 2
        and E = 3 and ?m0.0 = "replicate 6 9" and Q = "(\<lambda>_. [])(Utf_explst := [0], Utf_msglst_freelst := [1..<MSGLST_SIZE])", OF st1]
      q t e st(2) demo_pkts
    by (auto simp: exp_list_def posted_size_def msl_env_def demo_posted_def)
  with s show ?thesis by (auto simp: overwrite_def numeral_eq_Suc)
qed

text \<open>C37: a plain eager message is stored whole, whatever the size of the posted buffer: when the block of the user goes on behind the buffer, the bytes of
  the message behind the posted \<open>E\<close> bytes are written over what the user had there, and the request is completed as if nothing had happened.\<close>

theorem plain_message_overruns:
  assumes st: "u_state (rcntr s j) = R_NONE"
    and q: "msgq_inv (queues s) Q" "Q Utf_explst = c # ys"
    and c: "h_src (ml_hdr (msl (queues s) c)) = h_src (hdr p)" "h_src (hdr p) \<noteq> -1" "h_tag (ml_hdr (msl (queues s) c)) = h_tag (hdr p)"
    and i: "sint (reqidx (msl (queues s) c)) = int i"
    and buf: "r_buf (req_of s i) = Some (b, o1)" "mem s b = Some m0" "r_rsize (req_of s i) = 0"
    and small: "unat (r_usrreqsz (req_of s i)) = E" "E < length msg" "o1 + length msg \<le> length m0"
    and p: "wf_eager_pkt 0 p" "h_rndz (hdr p) = 0" "unat (h_size (hdr p)) = length msg"
    and ps: "\<forall>x \<in> set ps. wf_eager_pkt 0 x \<and> pkt_chunk x \<noteq> []"
    and msg: "pkt_chunk p @ concat (map pkt_chunk ps) = msg"
  shows "\<exists>s' m'. recv_all U j (p # ps) s = ret s' \<and> r_state (req_of s' i) = REQ_DONE \<and> mem s' b = Some m'
    \<and> drop (o1 + E) m' = drop E msg @ drop (o1 + length msg) m0"
proof -
  have yes: "exp_test 0 (hdr p) (msl (queues s) c)" using c by (simp add: exp_test_def utf_exp_test_def)
  have q2: "Q (exp_list 0) = [] @ c # ys" using q(2) by (simp add: exp_list_def)
  have room: "o1 + eager_limit 0 (length msg) E \<le> length m0" using small(3) by (simp add: eager_limit_def)
  from expected_received [OF st q(1) q2 _ yes i buf room _ p ps msg, of U] obtain s' where
    "recv_all U j (p # ps) s = ret s'" "msg_received s' i j" "mem s' b = Some (overwrite m0 o1 msg)" by (auto simp: eager_limit_def)
  moreover have "drop (o1 + E) (overwrite m0 o1 msg) = drop E msg @ drop (o1 + length msg) m0" using small(2,3) by (simp add: overwrite_def)
  ultimately show ?thesis by (auto simp: msg_received_def)
qed

theorem plain_message_overruns_witness:
  "\<exists>s q s'. utf_mem_init sim_nic (utf_static 0 2 5 7 [7, 8] sim0) = ret s
     \<and> utf_msglst_append Utf_explst (zero_hdr\<lparr>h_src := 1, h_tag := 5\<rparr>) 0 (queues s) = ret (0, q)
     \<and> recv_all sim_nic 125 [demo_pkt [1, 2] 3, demo_pkt [3] 3] (demo_posted s q 2) = ret s'
     \<and> r_state (req_of s' 0) = REQ_DONE \<and> map_option (drop 4) (mem s' 0) = Some [3, 9]"
proof -
  from demo_posted_start obtain s q where s: "utf_mem_init sim_nic (utf_static 0 2 5 7 [7, 8] sim0) = ret s"
      "utf_msglst_append Utf_explst (zero_hdr\<lparr>h_src := 1, h_tag := 5\<rparr>) 0 (queues s) = ret (0, q)"
    and q: "msgq_inv q ((\<lambda>_. [])(Utf_explst := [0], Utf_msglst_freelst := [1..<MSGLST_SIZE]))"
    and e: "msl_env (msl q 0) = (zero_hdr\<lparr>h_src := 1, h_tag := 5\<rparr>, 0)" and st: "u_state (rcntr s 125) = R_NONE" "r_rsize (req_of s 0) = 0" by blast
  have st1: "u_state (rcntr (demo_posted s q 2) 125) = R_NONE" using st(1) by (simp add: demo_posted_def)
  have "\<exists>s' m'. recv_all sim_nic 125 [demo_pkt [1, 2] 3, demo_pkt [3] 3] (demo_posted s q 2) = ret s' \<and> r_state (req_of s' 0) = REQ_DONE \<and> mem s' 0 = Some m'
    \<and> drop (2 + 2) m' = drop 2 [1, 2, 3] @ drop (2 + length [1 :: u8, 2, 3]) (replicate 6 9)"
    using plain_message_overruns [where s = "demo_posted s q 2" and msg = "[1, 2, 3]" and p = "demo_pkt [1, 2] 3"
        and ps = "[demo_pkt [3] 3]" and U = sim_nic and i = 0 and b = 0 and c = 0 and ys = "[]" and ?o1.0 = 2
        and E = 2 and ?m0.0 = "replicate 6 9" and Q = "(\<lambda>_. [])(Utf_explst := [0], Utf_msglst_freelst := [1..<MSGLST_SIZE])", OF st1]
      q e st(2) demo_pkts
    by (auto simp: msl_env_def demo_posted_def)
  with s show ?thesis by (auto simp: numeral_eq_Suc)
qed

text \<open>A plain eager message is not bounded by the receiver's buffer: the copy uses the length in
  the packet only, so a packet that does not fit behind the bytes already received
  writes outside the user's block.\<close>

theorem plain_eager_unbounded:
  assumes "h_flgs (hdr pkt) = 0" and "wf_eager_pkt 0 pkt" and "pkt_chunk pkt \<noteq> []"
    and "r_buf (req_of s i) = Some (b, o1)" and "mem s b = Some m"
    and "length m < o1 + unat (r_rsize (req_of s i)) + length (pkt_chunk pkt)"
  shows "eager_copy_and_check j i pkt s = crash OutOfBounds"
proof -
  have "take (length (pkt_chunk pkt)) (PKT_DATA pkt) = pkt_chunk pkt" "length (pkt_chunk pkt) \<le> length (PKT_DATA pkt)"
    using take_pkt_chunk [OF assms(2)] by simp_all
  with assms length_pkt_chunk [OF assms(2)] show ?thesis
    by (simp add: eager_copy_and_check_def eager_copy_def store_ptr_def store_def plus_addr_def)
qed

theorem plain_eager_unbounded_witness:
  "\<exists>s. utf_mem_init sim_nic (utf_static 0 2 5 7 [7, 8] sim0) = ret s
     \<and> eager_copy_and_check 125 0 (demo_pkt [1, 2, 3] 3)
         (mod_req 0 (\<lambda>r. r\<lparr>r_buf := Some (0, 0), r_usrreqsz := 2\<rparr>) (s\<lparr>mem := [0 \<mapsto> [7, 7]]\<rparr>)) = crash OutOfBounds"
proof -
  obtain s where s: "utf_mem_init sim_nic (utf_static 0 2 5 7 [7, 8] sim0) = ret s" using fresh_sim by blast
  with plain_eager_unbounded [of "demo_pkt [1, 2, 3] 3"
      "mod_req 0 (\<lambda>r. r\<lparr>r_buf := Some (0, 0), r_usrreqsz := 2\<rparr>) (s\<lparr>mem := [0 \<mapsto> [7, 7]]\<rparr>)" 0 0 0 "[7, 7]" 125]
  show ?thesis by (auto simp: demo_pkt_chunk demo_pkt_wf msg_size_defs)
qed

text \<open>The receive path for unexpected messages does not clear the overrun flag of the
  request object it recycles: with the flag left over from an earlier truncated
  transfer, no byte of a fabric message is copied, yet the message counts as received.\<close>

theorem stale_overrun_drops_data:
  assumes "h_flgs (hdr pkt) \<noteq> 0" and "r_overrun (req_of s i)"
    and "h_size (r_hdr (req_of s i)) = r_rsize (req_of s i) + ucast (h_pyldsz (hdr pkt))"
  shows "\<exists>s'. eager_copy_and_check j i pkt s = ret (R_DONE, s') \<and> mem s' = mem s"
  using assms by (simp add: eager_copy_and_check_def eager_copy_def)

theorem stale_overrun_drops_data_witness:
  "\<exists>s s'. utf_mem_init sim_nic (utf_static 0 2 5 7 [7, 8] sim0) = ret s
     \<and> eager_copy_and_check 125 0 (demo_pkt [1, 2, 3] 3 \<lparr>hdr := zero_hdr\<lparr>h_flgs := MSGHDR_FLGS_FI, h_size := 3, h_pyldsz := 3\<rparr>\<rparr>)
         (mod_req 0 (\<lambda>r. r\<lparr>r_buf := Some (0, 0), r_overrun := True, r_hdr := zero_hdr\<lparr>h_size := 3\<rparr>\<rparr>) (s\<lparr>mem := [0 \<mapsto> [7, 7, 7]]\<rparr>))
       = ret (R_DONE, s') \<and> mem s' 0 = Some [7, 7, 7]"
proof -
  obtain s where s: "utf_mem_init sim_nic (utf_static 0 2 5 7 [7, 8] sim0) = ret s" and f: "utf_fresh s"
    using fresh_sim by blast
  have "r_rsize (req_of s 0) = 0" using f by (simp add: utf_fresh_def req_of_def zero_req_def)
  with s stale_overrun_drops_data [of "demo_pkt [1, 2, 3] 3 \<lparr>hdr := zero_hdr\<lparr>h_flgs := MSGHDR_FLGS_FI, h_size := 3, h_pyldsz := 3\<rparr>\<rparr>"
    "mod_req 0 (\<lambda>r. r\<lparr>r_buf := Some (0, 0), r_overrun := True, r_hdr := zero_hdr\<lparr>h_size := 3\<rparr>\<rparr>) (s\<lparr>mem := [0 \<mapsto> [7, 7, 7]]\<rparr>)" 0 125]
  show ?thesis by (auto simp: MSGHDR_FLGS_FI_def)
qed

end
