(* ===== verification/Utf_Rndz.thy ===== *)
theory Utf_Rndz
  imports Utf_Recv
begin

text \<open>
  The rendezvous transfer on the receiver's side, over \<open>rget_start\<close>, \<open>rget_continue\<close> and
  \<open>utf_rget_progress\<close> of Utf_Recv: the remote gets that one message causes, in their
  order, cover it exactly once in pieces of at most \<open>TOFU_RMA_MAXSZ\<close> bytes, after which the
  sender is told that its buffer is free.
\<close>

section \<open>An interface that accepts and records\<close>

text \<open>
  The documented effect of the uTofu calls used here: an accepted operation is appended to
  the work list \<open>P\<close> of the interface; registration gives an address and adds no operation.
\<close>

definition accepting :: "'w utofu \<Rightarrow> ('w \<Rightarrow> nicop list) \<Rightarrow> bool" where
  "accepting U P \<longleftrightarrow> (\<forall>op w. \<exists>w'. u_post U op w = (UTOFU_SUCCESS, w') \<and> P w' = P w @ [op])
     \<and> (\<forall>a n w. \<exists>st w'. u_reg_mem U a n w = (UTOFU_SUCCESS, st, w') \<and> P w' = P w)
     \<and> (\<forall>st w. \<exists>w'. u_dereg_mem U st w = (UTOFU_SUCCESS, w') \<and> P w' = P w)
     \<and> (\<forall>f i w. P (u_notify U f i w) = P w)"

lemma accepting_post:
  assumes "accepting U P"
  shows "\<exists>w'. UTOFU_MSGCALL U op w = ret (None, w') \<and> P w' = P w @ [op]"
proof -
  obtain w' where "u_post U op w = (UTOFU_SUCCESS, w')" "P w' = P w @ [op]"
    using assms unfolding accepting_def by blast
  with msgcall_ready [of U op w w'] show ?thesis by auto
qed

lemma accepting_get:
  assumes "accepting U P"
  shows "\<exists>w'. get_s U v l r n e s = ret (s\<lparr>world := w'\<rparr>)
    \<and> P w' = P (world s) @ [Get v l r n e {LOCAL_MRQ_NOTICE, STRONG_ORDER} None]"
proof -
  obtain w' where "UTOFU_MSGCALL U (Get v l r n e {LOCAL_MRQ_NOTICE, STRONG_ORDER} None) (world s) = ret (None, w')"
    "P w' = P (world s) @ [Get v l r n e {LOCAL_MRQ_NOTICE, STRONG_ORDER} None]"
    using accepting_post [OF assms] by blast
  then show ?thesis by (auto simp: get_s_def remote_get_def)
qed

section \<open>The plan of a transfer\<close>

text \<open>Offsets and lengths of the gets for \<open>N\<close> bytes, from offset \<open>off\<close> on.\<close>

definition max_rma :: nat where "max_rma = 8388608"

lemma max_rma: "unat TOFU_RMA_MAXSZ = max_rma"
  by (simp add: TOFU_RMA_MAXSZ_def max_rma_def)

function rget_plan :: "nat \<Rightarrow> nat \<Rightarrow> (nat \<times> nat) list" where
  "rget_plan N off = (if N \<le> off then [] else (off, min max_rma (N - off)) # rget_plan N (off + min max_rma (N - off)))"
  by pat_completeness auto
termination
  by (relation "measure (\<lambda>(N, off). N - off)") (auto simp: max_rma_def)

declare rget_plan.simps [simp del]

lemma rget_plan_covers:
  "off \<le> N \<Longrightarrow> concat (map (\<lambda>(o1, n). [o1..<o1 + n]) (rget_plan N off)) = [off..<N]"
proof (induction N off rule: rget_plan.induct)
  case (1 N off)
  show ?case
  proof (cases "N \<le> off")
    case True
    with 1 show ?thesis by (subst rget_plan.simps) simp
  next
    case False
    let ?n = "min max_rma (N - off)"
    have "[off..<N] = [off..<off + ?n] @ [off + ?n..<N]"
      using False upt_add_eq_append [of off "off + ?n" "N - (off + ?n)"] by simp
    with False 1 show ?thesis by (simp add: rget_plan.simps [of N off])
  qed
qed

lemma rget_plan_max: "(o1, n) \<in> set (rget_plan N off) \<Longrightarrow> 0 < n \<and> n \<le> max_rma"
proof (induction N off rule: rget_plan.induct)
  case (1 N off)
  then show ?case
    by (subst (asm) (2) rget_plan.simps) (auto simp: max_rma_def split: if_splits)
qed

lemma unat_rma_chunk: "unat (rma_chunk n) = min max_rma (unat n)"
  using max_rma by (auto simp: rma_chunk_def word_less_nat_alt)

section \<open>The transfer follows the plan\<close>

lemma req_of_fold: "rq (reqs s) = req_of s"
  by (simp add: req_of_def fun_eq_iff)

text \<open>
  Request \<open>i\<close> has asked for the first \<open>off\<close> of \<open>N\<close> bytes from the single buffer of the
  sender \<open>v\<close>; one get is in flight.
\<close>

definition rget_inv :: "'w utf \<Rightarrow> nat \<Rightarrow> nat \<Rightarrow> nat \<Rightarrow> u64 \<Rightarrow> u64 \<Rightarrow> u64 \<Rightarrow> u64 \<Rightarrow> u32 \<Rightarrow> bool" where
  "rget_inv s i N off v ls rs sidx pos \<longleftrightarrow>
     (let r = req_of s i; g = r_rgetsender r
      in nent g = 1 \<and> inflight g = 1 \<and> rndzpos g = pos \<and> length (vcqid3 g) = 3 \<and> vcqid3 g ! 0 = v \<and> stadd3 g ! 0 = rs
         \<and> 0 < length (b_stadd (r_bufinfo r)) \<and> b_stadd (r_bufinfo r) ! 0 = ls \<and> unat (r_rcvexpsz r) = N
         \<and> r_rsize r = word_of_nat off \<and> off \<le> N \<and> N < 2 ^ 35 \<and> ucast (h_sidx (r_hdr r)) = sidx)
     \<and> slist (rget_next (reqs s)) (rget_proglst (reqs s)) [i]"

definition get_op :: "u64 \<Rightarrow> u64 \<Rightarrow> u64 \<Rightarrow> u64 \<Rightarrow> nat \<times> nat \<Rightarrow> nicop" where
  "get_op v ls rs sidx c = Get v (ls + word_of_nat (fst c)) (rs + word_of_nat (fst c)) (snd c) sidx
     {LOCAL_MRQ_NOTICE, STRONG_ORDER} None"

lemma find_rget_single:
  assumes "slist (rget_next rp) (rget_proglst rp) [i]" and "has_vcqid v (r_rgetsender (rq rp i))"
  shows "\<exists>h l. find_rget_msgreq v rp = ret (Some i, rp\<lparr>rget_next := h, rget_proglst := l\<rparr>) \<and> slist h l []"
proof -
  have "chain (rget_next rp) (head (rget_proglst rp)) [i]" using assms(1) by (simp add: slist_def)
  from foreach2_chain [OF this, of "\<lambda>i. has_vcqid v (r_rgetsender (rq rp i))" None] assms(2)
  have f: "utfslist_foreach2 (rget_next rp) (\<lambda>i. has_vcqid v (r_rgetsender (rq rp i))) (head (rget_proglst rp)) None
      = Some (Some (i, None))" by simp
  obtain h l n where r: "utfslist_remove2 (rget_next rp) (rget_proglst rp) i None = (h, l, n)" by (metis prod_cases3)
  have "slist h l []" using slist_remove2(1) [of "rget_next rp" "rget_proglst rp" "[]" i "[]" h l n] assms(1) r by simp
  then have "slist (h(i := None)) l []" by (simp add: slist_def)
  with f r show ?thesis by (auto simp: find_rget_msgreq_def)
qed

lemma rget_append_single:
  assumes "slist (rget_next rp) (rget_proglst rp) []"
  shows "\<exists>h l. rget_append i rp = rp\<lparr>rget_next := h, rget_proglst := l\<rparr> \<and> slist h l [i]"
proof -
  obtain h l n where a: "utfslist_append (rget_next rp) (rget_proglst rp) i = (h, l, n)" by (metis prod_cases3)
  with slist_append(1) [OF assms _ a] show ?thesis by (auto simp: rget_append_def)
qed

lemma has_vcqid_first: "nent g = 1 \<Longrightarrow> length (vcqid3 g) = 3 \<Longrightarrow> vcqid3 g ! 0 = v \<Longrightarrow> has_vcqid v g"
  by (cases "vcqid3 g") (auto simp: has_vcqid_def)

lemma rget_event_continue:
  assumes U: "accepting U P" and inv: "rget_inv s i N off v ls rs sidx pos" and lt: "off < N"
  shows "\<exists>s'. lcl_get_event U v s = ret s' \<and> rget_inv s' i N (off + min max_rma (N - off)) v ls rs sidx pos \<and> info s' = info s
    \<and> P (world s') = P (world s) @ [get_op v ls rs sidx (off, min max_rma (N - off))]"
proof -
  let ?r = "req_of s i" and ?n = "min max_rma (N - off)"
  have r: "nent (r_rgetsender ?r) = 1" "length (vcqid3 (r_rgetsender ?r)) = 3" "vcqid3 (r_rgetsender ?r) ! 0 = v"
    "r_rsize ?r = word_of_nat off" "unat (r_rcvexpsz ?r) = N" "N < 2 ^ 35" and sl: "slist (rget_next (reqs s)) (rget_proglst (reqs s)) [i]"
    using inv by (auto simp: rget_inv_def Let_def)
  have hv: "has_vcqid v (r_rgetsender (rq (reqs s) i))"
    using has_vcqid_first r by (simp add: req_of_def)
  from find_rget_single [OF sl hv] obtain h l where
    f: "find_rget_msgreq v (reqs s) = ret (Some i, (reqs s)\<lparr>rget_next := h, rget_proglst := l\<rparr>)" and e: "slist h l []" by blast
  let ?s1 = "s\<lparr>reqs := (reqs s)\<lparr>rget_next := h, rget_proglst := l\<rparr>\<rparr>"
  have off: "unat (ucast (r_rsize ?r) :: u64) = off" using r lt by (simp add: unat_rsize)
  have ne: "ucast (r_rsize ?r) \<noteq> r_rcvexpsz ?r" using off r(5) lt by auto
  have rest: "unat (rma_chunk (r_rcvexpsz ?r - ucast (r_rsize ?r))) = ?n"
    using off r(5) lt by (simp add: unat_rma_chunk unat_sub word_le_nat_alt)
  have off2: "(ucast (r_rsize ?r) :: u64) = word_of_nat off" by (rule word_of_unat) (rule off)
  let ?c = "rma_chunk (r_rcvexpsz ?r - ucast (r_rsize ?r))"
  from accepting_get [OF U, of v "b_stadd (r_bufinfo ?r) ! 0 + ucast (r_rsize ?r)" "stadd3 (r_rgetsender ?r) ! 0 + ucast (r_rsize ?r)"
      "unat ?c" "ucast (h_sidx (r_hdr ?r))" ?s1] obtain w where
    g: "get_s U v (b_stadd (r_bufinfo ?r) ! 0 + ucast (r_rsize ?r)) (stadd3 (r_rgetsender ?r) ! 0 + ucast (r_rsize ?r))
          (unat ?c) (ucast (h_sidx (r_hdr ?r))) ?s1 = ret (?s1\<lparr>world := w\<rparr>)"
    and pw: "P w = P (world s) @ [Get v (b_stadd (r_bufinfo ?r) ! 0 + ucast (r_rsize ?r))
      (stadd3 (r_rgetsender ?r) ! 0 + ucast (r_rsize ?r)) (unat ?c) (ucast (h_sidx (r_hdr ?r))) {LOCAL_MRQ_NOTICE, STRONG_ORDER} None]"
    by auto
  let ?f = "\<lambda>r. (set_recvlen 0 (b_recvlen (r_bufinfo r) ! 0 + ?c) r)\<lparr>r_rsize := r_rsize r + ucast ?c\<rparr>"
  let ?s2 = "mod_req i ?f (?s1\<lparr>world := w\<rparr>)"
  have "slist (rget_next (reqs ?s2)) (rget_proglst (reqs ?s2)) []" using e by (simp add: reqs_mod_req)
  from rget_append_single [OF this, of i] obtain h2 l2 where
    a: "rget_append i (reqs ?s2) = (reqs ?s2)\<lparr>rget_next := h2, rget_proglst := l2\<rparr>" and sl2: "slist h2 l2 [i]" by blast
  let ?s3 = "?s2\<lparr>reqs := (reqs ?s2)\<lparr>rget_next := h2, rget_proglst := l2\<rparr>\<rparr>"
  have ev: "lcl_get_event U v s = ret ?s3"
    using f ne r(1,3) g a by (simp add: lcl_get_event_def utf_rget_progress_def rget_continue_def req_of_fold Let_def)
  have r3: "req_of ?s3 i = ?f ?r" by (simp add: reqs_mod_req req_of_def)
  have "rget_inv ?s3 i N (off + ?n) v ls rs sidx pos"
  proof -
    have "(ucast ?c :: 35 word) = word_of_nat (unat ?c)" by (simp add: unsigned_ucast_eq)
    also have "\<dots> = word_of_nat ?n" by (simp only: rest)
    finally have "r_rsize ?r + ucast ?c = word_of_nat (off + ?n)" unfolding r(4) by simp
    with inv sl2 lt r3 show ?thesis by (simp add: rget_inv_def Let_def set_recvlen_def)
  qed
  moreover have "P (world ?s3) = P (world s) @ [get_op v ls rs sidx (off, ?n)]"
    using pw inv off2 rest by (simp add: get_op_def rget_inv_def Let_def)
  moreover have "info ?s3 = info s" by simp
  ultimately show ?thesis using ev by blast
qed

text \<open>The last completion: the sender is notified and the request is done.\<close>

definition done_op :: "'w utf \<Rightarrow> u64 \<Rightarrow> u32 \<Rightarrow> nicop" where
  "done_op s v pos = Armw4 v ARMW_OP_OR SCNTR_OK (MSGINFO_STADDR s pos + MSGINFO_RGETDONE_OFFST) (ucast pos)
     {REMOTE_MRQ_NOTICE, STRONG_ORDER} None"

lemma rget_event_done:
  assumes U: "accepting U P" and inv: "rget_inv s i N N v ls rs sidx pos"
  shows "\<exists>s'. lcl_get_event U v s = ret s' \<and> r_state (req_of s' i) = REQ_DONE
    \<and> slist (rget_next (reqs s')) (rget_proglst (reqs s')) [] \<and> mem s' = mem s \<and> info s' = info s
    \<and> P (world s') = P (world s) @ [done_op s v pos]"
proof -
  let ?r = "req_of s i"
  have r: "nent (r_rgetsender ?r) = 1" "length (vcqid3 (r_rgetsender ?r)) = 3" "vcqid3 (r_rgetsender ?r) ! 0 = v"
    "inflight (r_rgetsender ?r) = 1" "rndzpos (r_rgetsender ?r) = pos"
    "r_rsize ?r = word_of_nat N" "unat (r_rcvexpsz ?r) = N" "N < 2 ^ 35"
    and sl: "slist (rget_next (reqs s)) (rget_proglst (reqs s)) [i]"
    using inv by (auto simp: rget_inv_def Let_def)
  have hv: "has_vcqid v (r_rgetsender (rq (reqs s) i))" using has_vcqid_first r by (simp add: req_of_def)
  from find_rget_single [OF sl hv] obtain h l where
    f: "find_rget_msgreq v (reqs s) = ret (Some i, (reqs s)\<lparr>rget_next := h, rget_proglst := l\<rparr>)" and e: "slist h l []" by blast
  have eq: "ucast (r_rsize ?r) = r_rcvexpsz ?r"
    unfolding r(6) using unat_rsize(2) [OF r(8)] r(7) by (simp add: word_unat_eq_iff)
  let ?s1 = "mod_req i (\<lambda>r. r\<lparr>r_rgetsender := (r_rgetsender r)\<lparr>inflight := inflight (r_rgetsender r) - 1\<rparr>\<rparr>)
    (s\<lparr>reqs := (reqs s)\<lparr>rget_next := h, rget_proglst := l\<rparr>\<rparr>)"
  from accepting_post [OF U, of "done_op s v pos" "world s"] obtain w where
    p: "UTOFU_MSGCALL U (done_op s v pos) (world s) = ret (None, w)" "P w = P (world s) @ [done_op s v pos]" by blast
  have arm: "utf_remote_armw4 U v {} ARMW_OP_OR SCNTR_OK (MSGINFO_STADDR ?s1 pos + MSGINFO_RGETDONE_OFFST) (ucast pos) None (world s)
      = ret (None, w)"
    using p(1) by (simp add: utf_remote_armw4_def done_op_def MSGINFO_STADDR_def)
  have d: "\<exists>s2. dereg_buf U i (?s1\<lparr>world := w\<rparr>) = ret s2 \<and> P (world s2) = P w
      \<and> slist (rget_next (reqs s2)) (rget_proglst (reqs s2)) [] \<and> mem s2 = mem s \<and> info s2 = info s"
  proof (cases "b_stadd (r_bufinfo ?r) ! 0 = 0")
    case False
    from U obtain w' where "u_dereg_mem U (b_stadd (r_bufinfo ?r) ! 0) w = (UTOFU_SUCCESS, w')" "P w' = P w"
      unfolding accepting_def by blast
    with False e show ?thesis by (simp add: dereg_buf_def utf_mem_dereg_def reqs_mod_req req_of_fold)
  qed (use e in \<open>simp add: dereg_buf_def reqs_mod_req req_of_fold\<close>)
  then obtain s2 where s2: "dereg_buf U i (?s1\<lparr>world := w\<rparr>) = ret s2" "P (world s2) = P w"
    "slist (rget_next (reqs s2)) (rget_proglst (reqs s2)) []" "mem s2 = mem s" "info s2 = info s" by blast
  let ?s3 = "run_notify U i (mod_req i (\<lambda>r. r\<lparr>r_state := REQ_DONE\<rparr>) s2)"
  have ev: "lcl_get_event U v s = ret ?s3"
    using f eq r(3,4,5) arm s2(1) by (simp add: lcl_get_event_def utf_rget_progress_def req_of_fold Let_def)
  have "P (world ?s3) = P w" using s2(2) U by (auto simp: run_notify_def accepting_def split: option.splits)
  moreover have "r_state (req_of ?s3 i) = REQ_DONE" "slist (rget_next (reqs ?s3)) (rget_proglst (reqs ?s3)) []"
    "mem ?s3 = mem s" "info ?s3 = info s"
    using s2 by (auto simp: run_notify_def reqs_mod_req split: option.splits)
  ultimately show ?thesis using ev p(2) by auto
qed

text \<open>\<open>k\<close> completions of gets from \<open>v\<close>.\<close>

fun get_events :: "nat \<Rightarrow> 'w utofu \<Rightarrow> u64 \<Rightarrow> 'w utf \<Rightarrow> 'w utf outcome" where
  "get_events 0 U v s = ret s"
| "get_events (Suc k) U v s = bindO (lcl_get_event U v s) (get_events k U v)"

lemma rget_events:
  assumes U: "accepting U P" and "rget_inv s i N off v ls rs sidx pos"
  shows "\<exists>s'. get_events (Suc (length (rget_plan N off))) U v s = ret s' \<and> r_state (req_of s' i) = REQ_DONE
    \<and> slist (rget_next (reqs s')) (rget_proglst (reqs s')) []
    \<and> P (world s') = P (world s) @ map (get_op v ls rs sidx) (rget_plan N off) @ [done_op s v pos]"
  using assms(2)
proof (induction N off arbitrary: s rule: rget_plan.induct)
  case (1 N off)
  show ?case
  proof (cases "N \<le> off")
    case True
    with 1 have eq: "off = N" and inv: "rget_inv s i N N v ls rs sidx pos" by (auto simp: rget_inv_def Let_def)
    have p: "rget_plan N off = []" using True by (subst rget_plan.simps) simp
    from rget_event_done [OF U inv] obtain s' where "lcl_get_event U v s = ret s'" "r_state (req_of s' i) = REQ_DONE"
      "slist (rget_next (reqs s')) (rget_proglst (reqs s')) []" "P (world s') = P (world s) @ [done_op s v pos]" by blast
    with p show ?thesis by auto
  next
    case False
    let ?n = "min max_rma (N - off)"
    have p: "rget_plan N off = (off, ?n) # rget_plan N (off + ?n)" using False by (subst rget_plan.simps) simp
    from rget_event_continue [OF U 1(2)] False obtain s1 where e: "lcl_get_event U v s = ret s1"
      and i1: "rget_inv s1 i N (off + ?n) v ls rs sidx pos"
      and p1: "P (world s1) = P (world s) @ [get_op v ls rs sidx (off, ?n)]" and inf: "info s1 = info s" by auto
    have "done_op s1 v pos = done_op s v pos" using inf by (simp add: done_op_def MSGINFO_STADDR_def)
    with 1(1) [OF False i1] e p1 show ?thesis by (auto simp: p)
  qed
qed

text \<open>Posting the first get.\<close>

lemma rget_start_inv:
  assumes U: "accepting U P" and g: "nent (r_rgetsender (req_of s i)) = 1" "length (vcqid3 (r_rgetsender (req_of s i))) = 3"
    and b: "length (b_stadd (r_bufinfo (req_of s i))) = 3" "r_buf (req_of s i) = Some a"
    and sl: "slist (rget_next (reqs s)) (rget_proglst (reqs s)) []"
    and N: "N = min (unat (r_usrreqsz (req_of s i))) (unat (h_size (r_hdr (req_of s i))))"
  shows "\<exists>s' ls. rget_start U i s = ret s' \<and> info s' = info s
    \<and> rget_inv s' i N (min max_rma N) (vcqid3 (r_rgetsender (req_of s i)) ! 0) ls (stadd3 (r_rgetsender (req_of s i)) ! 0)
        (ucast (h_sidx (r_hdr (req_of s i)))) (rndzpos (r_rgetsender (req_of s i)))
    \<and> P (world s') = P (world s) @ [get_op (vcqid3 (r_rgetsender (req_of s i)) ! 0) ls (stadd3 (r_rgetsender (req_of s i)) ! 0)
        (ucast (h_sidx (r_hdr (req_of s i)))) (0, min max_rma N)]"
proof -
  let ?r = "req_of s i"
  have ul: "unat (ucast (h_size (r_hdr ?r)) :: u64) = unat (h_size (r_hdr ?r))" by (rule unat_ucast_up) simp
  have N35: "N < 2 ^ 35" using N unsigned_less [of "h_size (r_hdr ?r)", where 'a = nat] by simp
  define e where "e = (if r_usrreqsz ?r < ucast (h_size (r_hdr ?r)) then r_usrreqsz ?r else ucast (h_size (r_hdr ?r)))"
  define ov where "ov = (r_usrreqsz ?r < ucast (h_size (r_hdr ?r)) \<or> r_overrun ?r)"
  have e: "unat e = N" using N ul by (auto simp: e_def word_less_nat_alt)
  let ?s1 = "mod_req i (\<lambda>r. r\<lparr>r_rcvexpsz := e, r_overrun := ov\<rparr>) s"
  have s1: "mod_req i (\<lambda>r. if r_usrreqsz r < ucast (h_size (r_hdr r)) then r\<lparr>r_rcvexpsz := r_usrreqsz r, r_overrun := True\<rparr>
      else r\<lparr>r_rcvexpsz := ucast (h_size (r_hdr r))\<rparr>) s = ?s1"
    by (auto simp: mod_req_def upd_req_def e_def ov_def req_of_def)
  from U obtain st w where rg: "u_reg_mem U a e (world s) = (UTOFU_SUCCESS, st, w)" "P w = P (world s)"
    unfolding accepting_def by blast
  let ?s3 = "mod_req i (\<lambda>r. r\<lparr>r_rsize := ucast (rma_chunk (r_rcvexpsz r))\<rparr>) (mod_req i (set_bstadd 0 st) (?s1\<lparr>world := w\<rparr>))"
  have rs: "(ucast (rma_chunk e) :: 35 word) = word_of_nat (min max_rma N)"
  proof -
    have "(ucast (rma_chunk e) :: 35 word) = word_of_nat (unat (rma_chunk e))" by (simp add: unsigned_ucast_eq)
    then show ?thesis by (simp only: unat_rma_chunk e)
  qed
  have un: "unat (ucast (rma_chunk e) :: 35 word) = min max_rma N" unfolding rs using N35 by (intro unat_rsize(1)) simp
  let ?v = "vcqid3 (r_rgetsender ?r) ! 0" and ?rs = "stadd3 (r_rgetsender ?r) ! 0" and ?x = "ucast (h_sidx (r_hdr ?r)) :: u64"
  from accepting_get [OF U, of ?v st ?rs "min max_rma N" ?x ?s3] obtain w2 where
    gt: "get_s U ?v st ?rs (min max_rma N) ?x ?s3 = ret (?s3\<lparr>world := w2\<rparr>)"
    and pw: "P w2 = P w @ [Get ?v st ?rs (min max_rma N) ?x {LOCAL_MRQ_NOTICE, STRONG_ORDER} None]" by auto
  have st0: "(b_stadd (r_bufinfo ?r))[0 := st] ! 0 = st" using b(1) by simp
  let ?s6 = "mod_req i (\<lambda>r. r\<lparr>r_rgetsender := (r_rgetsender r)\<lparr>inflight := nent (r_rgetsender r)\<rparr>, r_state := REQ_DO_RNDZ\<rparr>)
    (mod_req i (\<lambda>r. set_recvlen 0 (ucast (r_rsize r)) r) (?s3\<lparr>world := w2\<rparr>))"
  have "slist (rget_next (reqs ?s6)) (rget_proglst (reqs ?s6)) []" using sl by (simp add: reqs_mod_req)
  from rget_append_single [OF this, of i] obtain h2 l2 where
    ap: "rget_append i (reqs ?s6) = (reqs ?s6)\<lparr>rget_next := h2, rget_proglst := l2\<rparr>" and sl2: "slist h2 l2 [i]" by blast
  let ?s7 = "?s6\<lparr>reqs := (reqs ?s6)\<lparr>rget_next := h2, rget_proglst := l2\<rparr>\<rparr>"
  have "rget_start U i s = ret ?s7"
    unfolding rget_start_def Let_def s1
    using rg(1) gt g b st0 un by (simp add: utf_mem_reg_def set_bstadd_def ap del: nth_list_update_eq)
  moreover have "rget_inv ?s7 i N (min max_rma N) ?v st ?rs ?x (rndzpos (r_rgetsender ?r))"
    using g b sl2 e N35 rs by (auto simp: rget_inv_def Let_def req_of_fold set_recvlen_def set_bstadd_def)
  moreover have "P (world ?s7) = P (world s) @ [get_op ?v st ?rs ?x (0, min max_rma N)]"
    using pw rg(2) by (simp add: get_op_def)
  moreover have "info ?s7 = info s" by simp
  ultimately show ?thesis by blast
qed

section \<open>Statements about the rendezvous transfer\<close>

text \<open>C7: the rendezvous transfer of a message with one sender buffer runs to its end and moves
  every byte exactly once. With \<open>N\<close> the smaller of the posted and the sent length, the
  remote gets posted by \<open>rget_start\<close> and by the following completions are, in order,
  contiguous pieces of at most 8 MiB that cover the bytes 0 to \<open>N\<close> of both buffers at equal
  offsets; after the last completion the request is done, is off the progress list, and
  the sender is notified once, at its rendezvous entry.\<close>

theorem rendezvous_transfer:
  assumes U: "accepting U P" and g: "nent (r_rgetsender (req_of s i)) = 1" "length (vcqid3 (r_rgetsender (req_of s i))) = 3"
    and b: "length (b_stadd (r_bufinfo (req_of s i))) = 3" "r_buf (req_of s i) = Some a"
    and sl: "slist (rget_next (reqs s)) (rget_proglst (reqs s)) []"
    and N: "N = min (unat (r_usrreqsz (req_of s i))) (unat (h_size (r_hdr (req_of s i))))" and pos: "0 < N"
    and v: "v = vcqid3 (r_rgetsender (req_of s i)) ! 0" and rs: "rs = stadd3 (r_rgetsender (req_of s i)) ! 0"
  shows "\<exists>s1 s' ls. rget_start U i s = ret s1 \<and> get_events (length (rget_plan N 0)) U v s1 = ret s'
    \<and> r_state (req_of s' i) = REQ_DONE \<and> slist (rget_next (reqs s')) (rget_proglst (reqs s')) []
    \<and> P (world s') = P (world s)
        @ map (get_op v ls rs (ucast (h_sidx (r_hdr (req_of s i))))) (rget_plan N 0)
        @ [done_op s v (rndzpos (r_rgetsender (req_of s i)))]
    \<and> concat (map (\<lambda>(o1, n). [o1..<o1 + n]) (rget_plan N 0)) = [0..<N]
    \<and> (\<forall>(o1, n) \<in> set (rget_plan N 0). 0 < n \<and> n \<le> 8388608)"
proof -
  let ?x = "ucast (h_sidx (r_hdr (req_of s i))) :: u64" and ?p = "rndzpos (r_rgetsender (req_of s i))"
  from rget_start_inv [OF U g b sl N] obtain s1 ls where s1: "rget_start U i s = ret s1" "info s1 = info s"
    "rget_inv s1 i N (min max_rma N) v ls rs ?x ?p"
    "P (world s1) = P (world s) @ [get_op v ls rs ?x (0, min max_rma N)]" unfolding v rs by blast
  have plan: "rget_plan N 0 = (0, min max_rma N) # rget_plan N (min max_rma N)"
    using pos by (subst rget_plan.simps) simp
  have "done_op s1 v ?p = done_op s v ?p" using s1(2) by (simp add: done_op_def MSGINFO_STADDR_def)
  with rget_events [OF U s1(3)] obtain s' where
    "get_events (Suc (length (rget_plan N (min max_rma N)))) U v s1 = ret s'" "r_state (req_of s' i) = REQ_DONE"
    "slist (rget_next (reqs s')) (rget_proglst (reqs s')) []"
    "P (world s') = P (world s1) @ map (get_op v ls rs ?x) (rget_plan N (min max_rma N)) @ [done_op s v ?p]" by auto
  then have "rget_start U i s = ret s1 \<and> get_events (length (rget_plan N 0)) U v s1 = ret s'
    \<and> r_state (req_of s' i) = REQ_DONE \<and> slist (rget_next (reqs s')) (rget_proglst (reqs s')) []
    \<and> P (world s') = P (world s) @ map (get_op v ls rs ?x) (rget_plan N 0) @ [done_op s v ?p]"
    using s1 by (simp add: plan)
  moreover have "\<forall>(o1, n) \<in> set (rget_plan N 0). 0 < n \<and> n \<le> 8388608"
    using rget_plan_max by (fastforce simp: max_rma_def)
  ultimately show ?thesis using rget_plan_covers [of 0 N] by blast
qed

text \<open>A simulated interface that is never busy.\<close>

definition ready_nic :: "simw utofu" where
  "ready_nic = sim_nic\<lparr>u_post := (\<lambda>op w. (UTOFU_SUCCESS, w\<lparr>sim_posted := sim_posted w @ [op]\<rparr>))\<rparr>"

lemma ready_nic_accepting: "accepting ready_nic sim_posted"
  by (simp add: accepting_def ready_nic_def sim_nic_def)

definition demo_rget :: "utf_msgreq \<Rightarrow> utf_msgreq" where
  "demo_rget r = r\<lparr>r_buf := Some (0, 0), r_usrreqsz := 9000000, r_hdr := zero_hdr\<lparr>h_size := 10000000, h_sidx := 3\<rparr>,
     r_rgetsender := \<lparr>rndzpos = 6, inflight = 0, nent = 1, len3 = [10000000, 0, 0], vcqid3 = [8, 0, 0], stadd3 = [64, 0, 0]\<rparr>\<rparr>"

lemma demo_plan: "rget_plan 9000000 0 = [(0, 8388608), (8388608, 611392)]"
  by (simp add: rget_plan.simps [of 9000000 0] rget_plan.simps [of 9000000 8388608] rget_plan.simps [of 9000000 9000000] max_rma_def)

theorem rendezvous_transfer_witness:
  "\<exists>s s1 s' ls. utf_mem_init ready_nic (utf_static 0 2 5 7 [7, 8] sim0) = ret s
    \<and> rget_start ready_nic 0 (mod_req 0 demo_rget s) = ret s1 \<and> get_events 2 ready_nic 8 s1 = ret s'
    \<and> r_state (req_of s' 0) = REQ_DONE
    \<and> sim_posted (world s') = sim_posted (world s)
        @ [get_op 8 ls 64 3 (0, 8388608), get_op 8 ls 64 3 (8388608, 611392), done_op s 8 6]"
proof -
  have "reg_works ready_nic" by (simp add: reg_works_def ready_nic_def sim_nic_def)
  from mem_init_fresh [OF this, of 0 2 5 7 "[7, 8]" sim0] obtain s where
    s: "utf_mem_init ready_nic (utf_static 0 2 5 7 [7, 8] sim0) = ret s" and f: "utf_fresh s" by blast
  let ?t = "mod_req 0 demo_rget s"
  have sl: "slist (rget_next (reqs ?t)) (rget_proglst (reqs ?t)) []" using f by (simp add: utf_fresh_def reqs_mod_req)
  have b: "length (b_stadd (r_bufinfo (req_of s 0))) = 3" using f by (simp add: utf_fresh_def req_of_def zero_req_def)
  have r: "nent (r_rgetsender (req_of ?t 0)) = 1" "length (vcqid3 (r_rgetsender (req_of ?t 0))) = 3"
    "length (b_stadd (r_bufinfo (req_of ?t 0))) = 3" "r_buf (req_of ?t 0) = Some (0, 0)"
    "9000000 = min (unat (r_usrreqsz (req_of ?t 0))) (unat (h_size (r_hdr (req_of ?t 0))))"
    "8 = vcqid3 (r_rgetsender (req_of ?t 0)) ! 0" "64 = stadd3 (r_rgetsender (req_of ?t 0)) ! 0"
    and x: "ucast (h_sidx (r_hdr (req_of ?t 0))) = (3 :: u64)" "rndzpos (r_rgetsender (req_of ?t 0)) = 6" "world ?t = world s"
    using b by (simp_all add: demo_rget_def)
  have z: "0 < (9000000 :: nat)" by simp
  have d: "done_op ?t 8 6 = done_op s 8 6" by (simp add: done_op_def MSGINFO_STADDR_def)
  from rendezvous_transfer [OF ready_nic_accepting r(1-4) sl r(5) z r(6,7), unfolded x d demo_plan] obtain s1 s' ls where
    "rget_start ready_nic 0 ?t = ret s1" "get_events (length [(0 :: nat, 8388608 :: nat), (8388608, 611392)]) ready_nic 8 s1 = ret s'"
    "r_state (req_of s' 0) = REQ_DONE"
    "sim_posted (world s') = sim_posted (world s)
        @ map (get_op 8 ls 64 3) [(0, 8388608), (8388608, 611392)] @ [done_op s 8 6]"
    by blast
  with s show ?thesis by (auto simp: numeral_2_eq_2)
qed

end
