(* ===== verification/Utf_Send.thy ===== *)
theory Utf_Send
  imports Utf_Rndz
begin

text \<open>
  The sender: allocation of send controls and send buffers and the setup of a message
  (\<open>src/src/base/utf_msg.c\<close>), the rendezvous entries (\<open>src/src/include/utf_msgmacros.h\<close>)
  and the send engine with its start and completion handling
  (\<open>src/src/base/utf_engine.c\<close>). A send control entry is an index \<open>u\<close>, an entry of its
  message ring an index \<open>k\<close>.
\<close>

section \<open>Pools\<close>

definition UTF_SUCCESS :: int where "UTF_SUCCESS = 0"
definition UTF_MSG_AVL :: int where "UTF_MSG_AVL = 1"
definition UTF_ERR_NOMORE_SNDCNTR :: int where "UTF_ERR_NOMORE_SNDCNTR = -2"
definition UTF_ERR_NOMORE_SNDBUF :: int where "UTF_ERR_NOMORE_SNDBUF = -3"
definition UTF_ERR_NOMORE_REQBUF :: int where "UTF_ERR_NOMORE_REQBUF = -4"

text \<open>The buffer index and its steering address; the link field is the first member of the union.\<close>

definition utf_egr_sbuf_alloc :: "'w utf \<Rightarrow> ((nat \<times> u64) ptr \<times> 'w utf) outcome" where
  "utf_egr_sbuf_alloc s = bindO (utfslist_remove (sbuf_next s) (sbuf_freelst s)) (\<lambda>(h, l, slst).
     let s1 = s\<lparr>sbuf_next := h, sbuf_freelst := l\<rparr>
     in case slst of None \<Rightarrow> ret (None, s1)
        | Some b \<Rightarrow> ret (Some (b, egr_sbuf_stadd (info s) + word_of_nat (MSG_PKTSZ * b)), s1))"

definition utf_egr_sbuf_free :: "nat \<Rightarrow> 'w utf \<Rightarrow> 'w utf" where
  "utf_egr_sbuf_free b s = (let (h, l) = utfslist_insert (sbuf_next s) (sbuf_freelst s) b
     in s\<lparr>sbuf_next := h, sbuf_freelst := l\<rparr>)"

definition utf_scntr_alloc :: "nat \<Rightarrow> 'w utf \<Rightarrow> (int \<times> nat ptr \<times> 'w utf) outcome" where
  "utf_scntr_alloc dst s =
     (let headpos = rank2scntridx s dst
      in if headpos \<noteq> 0xff then ret (UTF_SUCCESS, Some (unat headpos), s)
         else bindO (utfslist_remove (scntr_next s) (scntr_freelst s)) (\<lambda>(h, l, slst).
           let s1 = s\<lparr>scntr_next := h, scntr_freelst := l\<rparr>
           in case slst of
                None \<Rightarrow> ret (UTF_ERR_NOMORE_SNDCNTR, None, s1)
              | Some u \<Rightarrow> arr (i_vname_vcqid (info s)) dst (\<lambda>v.
                  ret (UTF_SUCCESS, Some u,
                    mod_scntr u (\<lambda>c. c\<lparr>s_dst := word_of_nat dst, s_state := S_NONE, s_flags := 0,
                        s_svcqid := i_vcqid (info s), s_rvcqid := v, s_mient := 0\<rparr>)
                      (s1\<lparr>rank2scntridx := (rank2scntridx s1)(dst := ucast (s_mypos (scntr s1 u)))\<rparr>)))))"

text \<open>
  \<open>utf_scntr_free\<close> widens the 8-bit index to 16 bits before it is compared with the 16-bit
  all-ones value; the table has \<open>SND_CNTRL_MAX\<close> entries.
\<close>

definition utf_scntr_free :: "nat \<Rightarrow> 'w utf \<Rightarrow> 'w utf outcome" where
  "utf_scntr_free idx s =
     (let headpos = ucast (rank2scntridx s idx) :: u16
      in if headpos \<noteq> -1 then
           if unat headpos < SND_CNTRL_MAX then
             let (h, l) = utfslist_insert (scntr_next s) (scntr_freelst s) (unat headpos)
             in ret (s\<lparr>scntr_next := h, scntr_freelst := l, rank2scntridx := (rank2scntridx s)(idx := -1)\<rparr>)
           else crash OutOfBounds
         else crash Aborted)"

definition utf_rndzprog_alloc :: "'w utf \<Rightarrow> (nat \<times> 'w utf) outcome" where
  "utf_rndzprog_alloc s = bindO (utfslist_remove (rndz_next s) (rndz_freelst s)) (\<lambda>(h, l, slst).
     case slst of None \<Rightarrow> crash AssertFailed
     | Some z \<Rightarrow> ret (z, s\<lparr>rndz_next := h, rndz_freelst := l\<rparr>))"

definition find_rndzprog :: "int \<Rightarrow> 'w utf \<Rightarrow> (nat ptr \<times> 'w utf) outcome" where
  "find_rndzprog pos s =
     (case utfslist_foreach2 (rndz_next s) (\<lambda>z. uint (m_mypos (rndz_pool s z)) = pos) (head (rndz_proglst s)) None of
        None \<Rightarrow> None
      | Some None \<Rightarrow> ret (None, s)
      | Some (Some (cur, prev)) \<Rightarrow>
          let (h, l, _) = utfslist_remove2 (rndz_next s) (rndz_proglst s) cur prev
          in ret (Some cur, s\<lparr>rndz_next := h, rndz_proglst := l\<rparr>))"

section \<open>Setting up a message\<close>

text \<open>A header with \<open>hall = 0\<close> and a size.\<close>

definition msg_hdr :: "u32 \<Rightarrow> u64 \<Rightarrow> u64 \<Rightarrow> utf_msghdr" where
  "msg_hdr src tag sz = (set_hall 0 (zero_hdr\<lparr>h_src := src, h_tag := tag\<rparr>))\<lparr>h_size := ucast sz\<rparr>"

text \<open>Writing members of the rendezvous data that overlays the payload at \<open>off\<close>.\<close>

definition set_rndzdata :: "nat \<Rightarrow> (utf_vcqid_stadd \<Rightarrow> utf_vcqid_stadd) \<Rightarrow> utf_packet \<Rightarrow> utf_packet" where
  "set_rndzdata off f p = p\<lparr>pyld := overwrite (pyld p) off (enc_vcqid_stadd (f (dec_vcqid_stadd (bytes_at (pyld p) off 80))))\<rparr>"

definition set_pyld :: "nat \<Rightarrow> u8 list \<Rightarrow> utf_packet \<Rightarrow> utf_packet" where
  "set_pyld off bs p = p\<lparr>pyld := overwrite (pyld p) off bs\<rparr>"

definition set_pyldsz :: "nat \<Rightarrow> utf_packet \<Rightarrow> utf_packet" where
  "set_pyldsz n p = p\<lparr>hdr := (hdr p)\<lparr>h_pyldsz := word_of_nat n\<rparr>\<rparr>"

definition minfo_setup ::
  "'w utofu \<Rightarrow> nat \<Rightarrow> nat \<Rightarrow> int \<Rightarrow> u64 \<Rightarrow> u64 \<Rightarrow> addr \<Rightarrow> nat \<Rightarrow> nat \<Rightarrow> 'w utf \<Rightarrow> 'w utf outcome" where
  "minfo_setup U u k rank tag sz usrbuf b i s =
     (let s1 = mod_minfo u k (\<lambda>m. m\<lparr>m_msghdr := (msg_hdr (word_of_int (i_myrank (info s))) tag sz)\<lparr>h_sidx := ucast (s_mypos (scntr s u))\<rparr>,
                 m_mreq := Some i, m_scntr := Some u\<rparr>) s;
          s2 = mod_sbuf b (\<lambda>p. p\<lparr>hdr := msg_hdr (word_of_int rank) tag sz\<rparr>) s1;
          s3 = mod_req i clear_allflgs s2
      in bindO
        (if unat sz \<le> MSG_EAGER_PIGBACK_SZ then
           bindO (load usrbuf (unat sz) s3) (\<lambda>bs. ret
             (mod_req i (\<lambda>r. r\<lparr>r_type := REQ_SND_BUFFERED_EAGER\<rparr>)
               (mod_sbuf b (\<lambda>p. set_pyldsz (unat sz) (set_pyld 0 bs p))
                 (mod_minfo u k (\<lambda>m. m\<lparr>m_cntrtype := SNDCNTR_BUFFERED_EAGER_PIGBACK\<rparr>) s3))))
         else if unat sz \<le> MSG_EAGER_SIZE then
           bindO (load usrbuf (unat sz) s3) (\<lambda>bs. ret
             (mod_req i (\<lambda>r. r\<lparr>r_type := REQ_SND_BUFFERED_EAGER\<rparr>)
               (mod_sbuf b (\<lambda>p. set_pyldsz (unat sz) (set_pyld 0 bs p))
                 (mod_minfo u k (\<lambda>m. m\<lparr>m_cntrtype := SNDCNTR_BUFFERED_EAGER\<rparr>) s3))))
         else if mode_msg s3 \<noteq> MSG_RENDEZOUS then
           bindO (load usrbuf MSG_PYLDSZ s3) (\<lambda>bs. ret
             (mod_req i (\<lambda>r. r\<lparr>r_type := REQ_SND_INPLACE_EAGER\<rparr>)
               (mod_sbuf b (\<lambda>p. set_pyldsz MSG_PYLDSZ (set_pyld 0 bs p))
                 (mod_minfo u k (\<lambda>m. m\<lparr>m_cntrtype := SNDCNTR_INPLACE_EAGER1, m_usrbuf := Some usrbuf\<rparr>) s3))))
         else
           bindO (utf_mem_reg U usrbuf sz (world s3)) (\<lambda>(st, w). ret
             (mod_req i (\<lambda>r. r\<lparr>r_type := REQ_SND_RENDEZOUS\<rparr>)
               (mod_sbuf b (\<lambda>p. let p1 = set_rndzdata 0 (\<lambda>v. v\<lparr>vcqid3 := (vcqid3 v)[0 := s_svcqid (scntr s3 u)],
                                    stadd3 := (stadd3 v)[0 := st], len3 := (len3 v)[0 := sz], nent := 1\<rparr>) p
                                in p1\<lparr>hdr := (hdr p1)\<lparr>h_pyldsz := word_of_nat MSG_RCNTRSZ, h_rndz := 1\<rparr>\<rparr>)
                 (mod_minfo u k (\<lambda>m. m\<lparr>m_cntrtype := SNDCNTR_RENDEZOUS,
                      m_rgetaddr := (m_rgetaddr m)\<lparr>nent := 1, vcqid3 := (vcqid3 (m_rgetaddr m))[0 := s_svcqid (scntr s3 u)],
                        stadd3 := (stadd3 (m_rgetaddr m))[0 := st]\<rparr>\<rparr>) (s3\<lparr>world := w\<rparr>))))))
        (\<lambda>s4. ret (mod_req i (\<lambda>r. r\<lparr>r_hdr := m_msghdr (s_msginfo (scntr s4 u) ! k), r_state := REQ_PRG_NORMAL\<rparr>)
                    (mod_minfo u k (\<lambda>m. m\<lparr>m_sndbuf := Some b\<rparr>) s4))))"

definition utf_setmsgmode :: "int \<Rightarrow> 'w utf \<Rightarrow> 'w utf" where
  "utf_setmsgmode m s = s\<lparr>mode_msg := m\<rparr>"

section \<open>The send engine\<close>

definition utf_idx2scntr :: "nat \<Rightarrow> nat outcome" where
  "utf_idx2scntr idx = (if idx > SND_CNTRL_MAX then crash Aborted
     else if idx < SND_CNTRL_MAX then ret idx else crash OutOfBounds)"

text \<open>
  The address in the receiver's buffer for the next packet, 0 when the receiver's slots
  are used up; then the entry waits.
\<close>

definition calc_recvstadd :: "nat \<Rightarrow> u64 \<Rightarrow> 'w utf \<Rightarrow> u64 \<times> 'w utf" where
  "calc_recvstadd u ridx s =
     (let c = scntr s u
      in if unat (s_recvidx c) = COM_RBUF_SIZE
         then (0, mod_scntr u (\<lambda>c. c\<lparr>s_ostate := s_state c, s_state := S_WAIT_BUFREADY\<rparr>) s)
         else (egr_rbuf_stadd (info s) + (word_of_nat SIZEOF_ERV_HEAD + word_of_nat MSG_PKTSZ * (word_of_nat COM_RBUF_SIZE * ridx))
                 + ucast (s_recvidx c) * word_of_nat MSG_PKTSZ, s))"

text \<open>The bytes of a packet, header first.\<close>

definition enc_hdr :: "utf_msghdr \<Rightarrow> u8 list" where
  "enc_hdr h = le_bytes 4 (unat (h_src h)) @ le_bytes 8 (unat (h_tag h)) @ le_bytes 8 (unat (hall h))"

definition pkt_bytes :: "utf_packet \<Rightarrow> u8 list" where
  "pkt_bytes p = enc_hdr (hdr p) @ pyld p"

definition put_pkt :: "'w utofu \<Rightarrow> nat \<Rightarrow> nat \<Rightarrow> u64 \<Rightarrow> 'w utf \<Rightarrow> (nat ptr \<times> 'w utf) outcome" where
  "put_pkt U u k recvstadd s =
     bindO (remote_put U (s_rvcqid (scntr s u)) (m_sndstadd (s_msginfo (scntr s u) ! k)) recvstadd MSG_PKTSZ
              (ucast (s_mypos (scntr s u))) {} (Some u) (world s))
       (\<lambda>(usp, w). ret (usp, s\<lparr>world := w\<rparr>))"

text \<open>The four kinds of messages in \<open>S_HAS_ROOM\<close>; \<open>b\<close> is the send buffer of the entry.\<close>

definition room_pigback :: "'w utofu \<Rightarrow> nat \<Rightarrow> nat \<Rightarrow> u64 \<Rightarrow> 'w utf \<Rightarrow> (nat ptr \<times> 'w utf) outcome" where
  "room_pigback U u b recvstadd s =
     bindO (remote_piggysend U (s_rvcqid (scntr s u)) (take 32 (pkt_bytes (sbuf s b))) recvstadd 32
              (ucast (s_mypos (scntr s u))) {} (Some u) (tcq_count s) (world s)) (\<lambda>(usp, tc, w).
       ret (usp, mod_scntr u (\<lambda>c. c\<lparr>s_recvidx := s_recvidx c + 1, s_usize := ucast (h_pyldsz (hdr (sbuf s b))),
                                   s_state := S_DONE_EGR\<rparr>) (s\<lparr>tcq_count := tc, world := w\<rparr>)))"

definition room_buffered :: "'w utofu \<Rightarrow> nat \<Rightarrow> nat \<Rightarrow> nat \<Rightarrow> u64 \<Rightarrow> 'w utf \<Rightarrow> (nat ptr \<times> 'w utf) outcome" where
  "room_buffered U u k b recvstadd s =
     bindO (put_pkt U u k recvstadd s) (\<lambda>(usp, s1).
       ret (usp, mod_scntr u (\<lambda>c. c\<lparr>s_recvidx := s_recvidx c + 1, s_usize := ucast (h_pyldsz (hdr (sbuf s b))),
                                   s_state := S_DONE_EGR\<rparr>) s1))"

definition room_inplace :: "'w utofu \<Rightarrow> nat \<Rightarrow> nat \<Rightarrow> nat \<Rightarrow> u64 \<Rightarrow> 'w utf \<Rightarrow> (nat ptr \<times> 'w utf) outcome" where
  "room_inplace U u k b recvstadd s =
     (let s1 = mod_scntr u (\<lambda>c. c\<lparr>s_usize := ucast (h_pyldsz (hdr (sbuf s b))), s_state := S_DO_EGR\<rparr>) s
      in bindO (put_pkt U u k recvstadd s1) (\<lambda>(usp, s2).
           ret (usp, mod_scntr u (\<lambda>c. c\<lparr>s_recvidx := s_recvidx c + 1\<rparr>) s2)))"

definition rndz_register :: "nat \<Rightarrow> nat \<Rightarrow> nat \<Rightarrow> u16 \<Rightarrow> 'w utf \<Rightarrow> 'w utf" where
  "rndz_register u k z pos s =
     (let (h, l, _) = utfslist_append (rndz_next s) (rndz_proglst s) z
      in s\<lparr>rndz_pool := (rndz_pool s)(z := (s_msginfo (scntr s u) ! k)\<lparr>m_mypos := pos\<rparr>), rndz_next := h, rndz_proglst := l\<rparr>)"

definition room_rndz :: "'w utofu \<Rightarrow> nat \<Rightarrow> nat \<Rightarrow> nat \<Rightarrow> u64 \<Rightarrow> 'w utf \<Rightarrow> (nat ptr \<times> 'w utf) outcome" where
  "room_rndz U u k b recvstadd s =
     bindO (utf_rndzprog_alloc s) (\<lambda>(z, s1).
       let pos = m_mypos (rndz_pool s1 z);
           s2 = mod_sbuf b (\<lambda>p. set_rndzdata (if h_flgs (hdr p) = 0 then 0 else 8) (\<lambda>v. v\<lparr>rndzpos := ucast pos\<rparr>) p) s1
       in bindO (put_pkt U u k recvstadd s2) (\<lambda>(usp, s3).
            ret (usp, mod_scntr u (\<lambda>c. c\<lparr>s_recvidx := s_recvidx c + 1, s_state := S_REQ_RDVR\<rparr>) (rndz_register u k z pos s3))))"

definition s_has_room :: "'w utofu \<Rightarrow> nat \<Rightarrow> nat \<Rightarrow> 'w utf \<Rightarrow> (nat ptr \<times> 'w utf) outcome" where
  "s_has_room U u k s =
     (let ridx = ucast (utf_sndmgt_get_index (unat (s_dst (scntr s u))) (egrmgt_tab s));
          (recvstadd, s1) = calc_recvstadd u ridx s;
          m = s_msginfo (scntr s1 u) ! k
      in if recvstadd = 0 then ret (None, s1)
         else case m_sndbuf m of
           None \<Rightarrow> crash NullDeref
         | Some b \<Rightarrow>
             (case m_cntrtype m of
                SNDCNTR_BUFFERED_EAGER_PIGBACK \<Rightarrow> room_pigback U u b recvstadd s1
              | SNDCNTR_BUFFERED_EAGER \<Rightarrow> room_buffered U u k b recvstadd s1
              | SNDCNTR_INPLACE_EAGER1 \<Rightarrow> room_inplace U u k b recvstadd s1
              | SNDCNTR_INPLACE_EAGER2 \<Rightarrow> room_inplace U u k b recvstadd s1
              | SNDCNTR_RENDEZOUS \<Rightarrow> room_rndz U u k b recvstadd s1
              | SNDCNTR_NONE \<Rightarrow> ret (None, s1)))"

definition egr_advance :: "nat \<Rightarrow> u64 \<Rightarrow> nat \<Rightarrow> 'w utf \<Rightarrow> 'w utf" where
  "egr_advance u msgsize ssize s =
     (let s1 = mod_scntr u (\<lambda>c. c\<lparr>s_usize := s_usize c + word_of_nat ssize, s_recvidx := s_recvidx c + 1\<rparr>) s
      in if msgsize = s_usize (scntr s1 u) then mod_scntr u (\<lambda>c. c\<lparr>s_state := S_DONE_EGR\<rparr>) s1 else s1)"

definition s_do_egr :: "'w utofu \<Rightarrow> nat \<Rightarrow> nat \<Rightarrow> 'w utf \<Rightarrow> (nat ptr \<times> 'w utf) outcome" where
  "s_do_egr U u k s =
     (let m0 = s_msginfo (scntr s u) ! k;
          rest = ucast (h_size (m_msghdr m0)) - s_usize (scntr s u);
          ridx = ucast (utf_sndmgt_get_index (unat (s_dst (scntr s u))) (egrmgt_tab s));
          (recvstadd, s1) = calc_recvstadd u ridx s
      in if recvstadd = 0 then ret (None, s1)
         else case m_sndbuf m0 of
           None \<Rightarrow> crash NullDeref
         | Some b \<Rightarrow>
             let fi = (h_flgs (hdr (sbuf s1 b)) AND MSGHDR_FLGS_FI \<noteq> 0);
                 ssize = min (unat rest) (if fi then MSG_FI_PYLDSZ else MSG_PYLDSZ)
             in case m_usrbuf m0 of
                  None \<Rightarrow> crash NullDeref
                | Some a \<Rightarrow>
                  bindO (load (plus_addr a (unat (s_usize (scntr s1 u)))) ssize s1) (\<lambda>bs.
                    let s2 = mod_sbuf b (\<lambda>p. set_pyldsz ssize (set_pyld (if fi then 8 else 0) bs p)) s1
                    in bindO (put_pkt U u k recvstadd s2) (\<lambda>(usp, s3).
                       ret (usp, egr_advance u (ucast (h_size (m_msghdr m0))) ssize s3))))"

definition next_entry :: "'w utofu \<Rightarrow> nat \<Rightarrow> nat \<Rightarrow> 'w utf \<Rightarrow> (nat ptr \<times> 'w utf) outcome" where
  "next_entry U u k s =
     (let s1 = mod_minfo u k (\<lambda>m. m\<lparr>m_mreq := None, m_cntrtype := SNDCNTR_NONE\<rparr>) s;
          idx = (unat (s_micur (scntr s1 u)) + 1) mod COM_SCNTR_MINF_SZ
      in if idx = unat (s_mient (scntr s1 u))
         then ret (None, mod_scntr u (\<lambda>c. c\<lparr>s_micur := 0, s_mient := 0, s_state := S_NONE\<rparr>) s1)
         else let s2 = mod_scntr u (\<lambda>c. c\<lparr>s_micur := word_of_nat idx\<rparr>) s1
              in if m_cntrtype (s_msginfo (scntr s2 u) ! idx) \<noteq> SNDCNTR_NONE
                 then s_has_room U u idx (mod_scntr u (\<lambda>c. c\<lparr>s_state := S_HAS_ROOM\<rparr>) s2)
                 else crash AssertFailed)"

text \<open>Completion of a send request: it is freed when the user no longer waits for it.\<close>

definition sendreq_complete :: "'w utofu \<Rightarrow> nat \<Rightarrow> 'w utf \<Rightarrow> 'w utf" where
  "sendreq_complete U i s =
     (let s1 = run_notify U i s
      in if r_reclaim (req_of s1 i)
         then let s2 = mod_req i (\<lambda>r. r\<lparr>r_reclaim := False\<rparr>) s1 in s2\<lparr>reqs := utf_sendreq_free i (reqs s2)\<rparr>
         else mod_req i (\<lambda>r. r\<lparr>r_state := REQ_DONE\<rparr>) s1)"

definition s_done_egr :: "'w utofu \<Rightarrow> nat \<Rightarrow> nat \<Rightarrow> 'w utf \<Rightarrow> (nat ptr \<times> 'w utf) outcome" where
  "s_done_egr U u k s =
     (let s1 = mod_scntr u (\<lambda>c. c\<lparr>s_inflight := s_inflight c - 1\<rparr>) s;
          m = s_msginfo (scntr s1 u) ! k;
          s2 = (case m_usrbuf m of
                  Some a \<Rightarrow> if m_cntrtype m = SNDCNTR_INPLACE_EAGER2
                           then mod_minfo u k (\<lambda>m. m\<lparr>m_usrbuf := None\<rparr>) (utf_free a s1) else s1
                | None \<Rightarrow> s1)
      in case m_mreq m of
           None \<Rightarrow> crash NullDeref
         | Some i \<Rightarrow> next_entry U u k (sendreq_complete U i s2))"

definition s_req_room :: "'w utofu \<Rightarrow> nat \<Rightarrow> nat \<Rightarrow> u64 \<Rightarrow> 'w utf \<Rightarrow> (nat ptr \<times> 'w utf) outcome" where
  "s_req_room U u k rslt s =
     (if sint rslt \<ge> 0 then
        let d = unat (s_dst (scntr s u));
            s1 = s\<lparr>egrmgt_tab := utf_sndmgt_set_index d (utf_sndmgt_set_sndok d (egrmgt_tab s)) rslt\<rparr>
        in s_has_room U u k (mod_scntr u (\<lambda>c. c\<lparr>s_state := S_HAS_ROOM, s_recvidx := 0\<rparr>) s1)
      else crash Aborted)"

text \<open>\<open>utf_sendengine\<close>; the event argument is only printed by the code.\<close>

definition utf_sendengine :: "'w utofu \<Rightarrow> nat \<Rightarrow> nat \<Rightarrow> u64 \<Rightarrow> 'w utf \<Rightarrow> (nat ptr \<times> 'w utf) outcome" where
  "utf_sendengine U u k rslt s =
     (case s_state (scntr s u) of
        S_REQ_ROOM \<Rightarrow> s_req_room U u k rslt s
      | S_HAS_ROOM \<Rightarrow> s_has_room U u k s
      | S_DO_EGR \<Rightarrow> s_do_egr U u k s
      | S_REQ_RDVR \<Rightarrow> next_entry U u k s
      | S_DO_RDVR \<Rightarrow> crash Aborted
      | S_RDVDONE \<Rightarrow> crash Aborted
      | S_DONE_EGR \<Rightarrow> s_done_egr U u k s
      | S_WAIT_BUFREADY \<Rightarrow> crash Aborted
      | _ \<Rightarrow> ret (None, s))"

definition sendengine_cur :: "'w utofu \<Rightarrow> nat \<Rightarrow> u64 \<Rightarrow> 'w utf \<Rightarrow> (nat ptr \<times> 'w utf) outcome" where
  "sendengine_cur U u rslt s = arr (s_msginfo (scntr s u)) (unat (s_micur (scntr s u)))
     (\<lambda>_. utf_sendengine U u (unat (s_micur (scntr s u))) rslt s)"

text \<open>The loop of \<open>utf_sendengine_prep\<close>: every completion a post returns is handled in turn.\<close>

partial_function (option) sendengine_loop :: "'w utofu \<Rightarrow> nat \<Rightarrow> 'w utf \<Rightarrow> 'w utf outcome" where
  "sendengine_loop U u s =
     (case sendengine_cur U u 0 s of
        None \<Rightarrow> None
      | Some (Inl f) \<Rightarrow> Some (Inl f)
      | Some (Inr (usp, s1)) \<Rightarrow>
          let s2 = s1\<lparr>tcq_count := tcq_count s1 - 1\<rparr>
          in case usp of None \<Rightarrow> Some (Inr s2) | Some u' \<Rightarrow> sendengine_loop U u' s2)"

definition utf_sendengine_prep :: "'w utofu \<Rightarrow> nat \<Rightarrow> 'w utf \<Rightarrow> 'w utf outcome" where
  "utf_sendengine_prep U u s = bindO (sendengine_loop U u s) (\<lambda>s1.
     if tcq_count s1 \<ge> 0 then ret s1 else crash AssertFailed)"

definition utf_send_start :: "'w utofu \<Rightarrow> nat \<Rightarrow> nat \<Rightarrow> 'w utf \<Rightarrow> (int \<times> 'w utf) outcome" where
  "utf_send_start U u k s =
     (let dst = unat (s_dst (scntr s u))
      in if utf_sndmgt_isset_sndok dst (egrmgt_tab s) then
           bindO (utf_sendengine U u k 0 (mod_scntr u (\<lambda>c. c\<lparr>s_state := S_HAS_ROOM\<rparr>) s)) (\<lambda>(newusp, s1).
             case newusp of None \<Rightarrow> ret (0, s1)
             | Some u' \<Rightarrow> bindO (utf_sendengine_prep U u' s1) (\<lambda>s2. ret (0, s2)))
         else if \<not> utf_sndmgt_isset_examed dst (egrmgt_tab s) then
           bindO (utf_remote_add U (s_rvcqid (scntr s u)) {LOCAL_MRQ_NOTICE} (-1) (egr_rbuf_stadd (info s))
                    (ucast (s_mypos (scntr s u))) None (world s)) (\<lambda>(_, w).
             let s1 = mod_scntr u (\<lambda>c. c\<lparr>s_state := S_REQ_ROOM\<rparr>) (s\<lparr>world := w\<rparr>)
             in ret (0, s1\<lparr>egrmgt_tab := utf_sndmgt_set_examed dst (egrmgt_tab s1)\<rparr>))
         else ret (-1, s))"

definition utf_rndz_done :: "'w utofu \<Rightarrow> int \<Rightarrow> 'w utf \<Rightarrow> 'w utf outcome" where
  "utf_rndz_done U pos s =
     bindO (find_rndzprog pos s) (\<lambda>(z, s1).
       case z of
         None \<Rightarrow> crash AssertFailed
       | Some z \<Rightarrow>
           (case (m_mreq (rndz_pool s1 z), m_scntr (rndz_pool s1 z)) of
              (Some i, Some u) \<Rightarrow>
                bindO (dereg_buf U i s1) (\<lambda>s2.
                  let s3 = sendreq_complete U i (mod_scntr u (\<lambda>c. c\<lparr>s_inflight := s_inflight c - 1\<rparr>) s2);
                      (h, l) = utfslist_insert (rndz_next s3) (rndz_freelst s3) z
                  in ret (s3\<lparr>rndz_next := h, rndz_freelst := l\<rparr>))
            | _ \<Rightarrow> crash NullDeref))"

end
