(* ===== verification/Utf_Send_Props.thy ===== *)
theory Utf_Send_Props
  imports Utf_Send
begin

text \<open>
  Properties of the send engine of Utf_Send: the slot addresses it computes, the packets
  an eager message is cut into, and the ring of queued messages of a send control entry.
\<close>

section \<open>Slot addresses\<close>

text \<open>The registered receive buffers do not reach the end of the address space.\<close>

definition rbuf_in_range :: "'w utf \<Rightarrow> bool" where
  "rbuf_in_range s \<longleftrightarrow> unat (egr_rbuf_stadd (info s)) + 256 * (1 + 1024 * 256) < 2 ^ 64"

definition slot_addr :: "'w utf \<Rightarrow> nat \<Rightarrow> nat \<Rightarrow> nat" where
  "slot_addr s ridx r = unat (egr_rbuf_stadd (info s)) + 256 + 256 * (1024 * ridx + r)"

definition ridx_of :: "'w utf \<Rightarrow> nat \<Rightarrow> nat" where
  "ridx_of s u = unat (utf_sndmgt_get_index (unat (s_dst (scntr s u))) (egrmgt_tab s))"

lemma calc_recvstadd_room:
  assumes r: "unat (s_recvidx (scntr s u)) = r" "r < COM_RBUF_SIZE" and base: "rbuf_in_range s"
  shows "\<exists>st. calc_recvstadd u (ucast (utf_sndmgt_get_index (unat (s_dst (scntr s u))) (egrmgt_tab s))) s = (st, s)
    \<and> unat st = slot_addr s (ridx_of s u) r \<and> st \<noteq> 0"
proof -
  let ?i = "utf_sndmgt_get_index (unat (s_dst (scntr s u))) (egrmgt_tab s)"
  let ?st = "egr_rbuf_stadd (info s) + (word_of_nat 256 + word_of_nat 256 * (word_of_nat 1024 * (ucast ?i :: u64)))
    + ucast (s_recvidx (scntr s u)) * word_of_nat 256"
  have i: "(ucast ?i :: u64) = word_of_nat (ridx_of s u)" "ridx_of s u < 256"
    unfolding ridx_of_def by (rule word_of_unat, rule unat_ucast_up) simp_all
  have x: "(ucast (s_recvidx (scntr s u)) :: u64) = word_of_nat r"
    by (rule word_of_unat) (simp add: unat_ucast_up r)
  have "?st = word_of_nat (slot_addr s (ridx_of s u) r)"
    unfolding i x by (simp add: slot_addr_def algebra_simps)
  moreover have b: "slot_addr s (ridx_of s u) r < 2 ^ 64"
    using base r(2) i(2) by (simp add: slot_addr_def rbuf_in_range_def COM_RBUF_SIZE_def)
  ultimately have u: "unat ?st = slot_addr s (ridx_of s u) r" by (simp add: unat_of_nat)
  then have "?st \<noteq> 0" by (auto simp: slot_addr_def)
  with u r show ?thesis
    by (auto simp: calc_recvstadd_def COM_RBUF_SIZE_def SIZEOF_ERV_HEAD_def MSG_PKTSZ_def Let_def)
qed

lemma calc_recvstadd_full:
  assumes "unat (s_recvidx (scntr s u)) = COM_RBUF_SIZE"
  shows "calc_recvstadd u ridx s = (0, mod_scntr u (\<lambda>c. c\<lparr>s_ostate := s_state c, s_state := S_WAIT_BUFREADY\<rparr>) s)"
  using assms by (simp add: calc_recvstadd_def)

lemma accepting_put:
  assumes "accepting U P"
  shows "\<exists>w. put_pkt U u k st s = ret (None, s\<lparr>world := w\<rparr>) \<and> P w = P (world s)
    @ [Put (s_rvcqid (scntr s u)) (m_sndstadd (s_msginfo (scntr s u) ! k)) st MSG_PKTSZ (ucast (s_mypos (scntr s u)))
         {LOCAL_MRQ_NOTICE, STRONG_ORDER, CACHE_INJECTION} None]"
proof -
  let ?op = "Put (s_rvcqid (scntr s u)) (m_sndstadd (s_msginfo (scntr s u) ! k)) st MSG_PKTSZ (ucast (s_mypos (scntr s u)))
         {LOCAL_MRQ_NOTICE, STRONG_ORDER, CACHE_INJECTION} None"
  obtain w where "UTOFU_MSGCALL U ?op (world s) = ret (None, w)" "P w = P (world s) @ [?op]"
    using accepting_post [OF assms] by blast
  then show ?thesis by (auto simp: put_pkt_def remote_put_def)
qed

section \<open>Cutting an eager message into packets\<close>

text \<open>
  The current entry of send control \<open>u\<close> is an in-place eager message whose bytes \<open>data\<close> are in
  the user's memory and of which the first \<open>n\<close> are sent; the next packet goes into slot \<open>r\<close>.
\<close>

definition egr_inv :: "'w utf \<Rightarrow> nat \<Rightarrow> nat \<Rightarrow> nat \<Rightarrow> addr \<Rightarrow> u8 list \<Rightarrow> utf_msghdr \<Rightarrow> nat \<Rightarrow> nat \<Rightarrow> bool" where
  "egr_inv s u k b a data h n r \<longleftrightarrow>
     (let c = scntr s u; m = s_msginfo c ! k
      in unat (s_micur c) = k \<and> k < length (s_msginfo c) \<and> m_sndbuf m = Some b \<and> m_usrbuf m = Some a
         \<and> (m_cntrtype m = SNDCNTR_INPLACE_EAGER1 \<or> m_cntrtype m = SNDCNTR_INPLACE_EAGER2)
         \<and> unat (h_size (m_msghdr m)) = length data \<and> unat (s_usize c) = n \<and> n \<le> length data
         \<and> s_state c = (if n = length data then S_DONE_EGR else S_DO_EGR) \<and> unat (s_recvidx c) = r)
     \<and> (\<exists>blk. mem s (fst a) = Some blk \<and> snd a + length data \<le> length blk \<and> bytes_at blk (snd a) (length data) = data)
     \<and> length (pyld (sbuf s b)) = MSG_PYLDSZ \<and> (hdr (sbuf s b))\<lparr>h_pyldsz := 0\<rparr> = h\<lparr>h_pyldsz := 0\<rparr>"

definition chunk_at :: "u8 list \<Rightarrow> nat \<Rightarrow> u8 list" where
  "chunk_at data n = bytes_at data n (min (length data - n) MSG_PYLDSZ)"

lemma bytes_at_bytes_at: "off + n \<le> k \<Longrightarrow> bytes_at (bytes_at m o1 k) off n = bytes_at m (o1 + off) n"
  by (simp add: bytes_at_def drop_take min_def add.commute)

lemma length_data_35: "unat (h_size h) = length data \<Longrightarrow> length data < 2 ^ 35"
  using unsigned_less [of "h_size h", where 'a = nat] by simp

lemma load_chunk:
  assumes "mem s (fst a) = Some blk" and "snd a + length data \<le> length blk" and "bytes_at blk (snd a) (length data) = data"
    and "n \<le> length data" and "l = min (length data - n) MSG_PYLDSZ"
  shows "load (plus_addr a n) l s = ret (chunk_at data n)"
proof -
  have le: "n + l \<le> length data" using assms(4,5) by simp
  have "load (plus_addr a n) l s = ret (bytes_at blk (snd a + n) l)"
    using assms(1,2) le by (auto simp: load_def plus_addr_def bytes_at_def)
  moreover have "bytes_at blk (snd a + n) l = bytes_at data n l"
    using bytes_at_bytes_at [OF le, of blk "snd a"] assms(3) by simp
  ultimately show ?thesis using assms(5) by (simp add: chunk_at_def)
qed

lemma egr_step:
  assumes U: "accepting U P" and inv: "egr_inv s u k b a data h n r" and n: "n < length data"
    and h: "h_flgs h = 0" and r: "r < COM_RBUF_SIZE" and base: "rbuf_in_range s"
  shows "\<exists>s' st. sendengine_cur U u 0 s = ret (None, s') \<and> egr_inv s' u k b a data h (n + length (chunk_at data n)) (Suc r)
    \<and> sbuf s' b = \<lparr>hdr = h\<lparr>h_pyldsz := word_of_nat (length (chunk_at data n))\<rparr>,
                   pyld = overwrite (pyld (sbuf s b)) 0 (chunk_at data n)\<rparr>
    \<and> info s' = info s \<and> egrmgt_tab s' = egrmgt_tab s \<and> s_dst (scntr s' u) = s_dst (scntr s u)
    \<and> unat st = slot_addr s (ridx_of s u) r
    \<and> P (world s') = P (world s) @ [Put (s_rvcqid (scntr s u)) (m_sndstadd (s_msginfo (scntr s u) ! k)) st MSG_PKTSZ
         (ucast (s_mypos (scntr s u))) {LOCAL_MRQ_NOTICE, STRONG_ORDER, CACHE_INJECTION} None]"
proof -
  let ?c = "scntr s u" and ?m = "s_msginfo (scntr s u) ! k" and ?l = "min (length data - n) MSG_PYLDSZ"
  obtain blk where blk: "mem s (fst a) = Some blk" "snd a + length data \<le> length blk" "bytes_at blk (snd a) (length data) = data"
    using inv by (auto simp: egr_inv_def)
  have c: "unat (s_micur ?c) = k" "k < length (s_msginfo ?c)" "m_sndbuf ?m = Some b" "m_usrbuf ?m = Some a"
    "unat (h_size (m_msghdr ?m)) = length data" "unat (s_usize ?c) = n" "s_state ?c = S_DO_EGR" "unat (s_recvidx ?c) = r"
    using inv n by (auto simp: egr_inv_def Let_def)
  have hd: "h_flgs (hdr (sbuf s b)) = 0" "(hdr (sbuf s b))\<lparr>h_pyldsz := x\<rparr> = h\<lparr>h_pyldsz := x\<rparr>" for x
  proof -
    have e: "(hdr (sbuf s b))\<lparr>h_pyldsz := 0\<rparr> = h\<lparr>h_pyldsz := 0\<rparr>" using inv by (simp add: egr_inv_def)
    from arg_cong [where f = h_flgs, OF e] h show "h_flgs (hdr (sbuf s b)) = 0" by simp
    from arg_cong [where f = "\<lambda>y. y\<lparr>h_pyldsz := x\<rparr>", OF e] show "(hdr (sbuf s b))\<lparr>h_pyldsz := x\<rparr> = h\<lparr>h_pyldsz := x\<rparr>" by simp
  qed
  obtain st where st: "calc_recvstadd u (ucast (utf_sndmgt_get_index (unat (s_dst ?c)) (egrmgt_tab s))) s = (st, s)"
    "unat st = slot_addr s (ridx_of s u) r" "st \<noteq> 0" using calc_recvstadd_room [OF c(8) r base] by blast
  have lc: "length (chunk_at data n) = ?l" using n by (simp add: chunk_at_def)
  have rest: "unat ((ucast (h_size (m_msghdr ?m)) :: u64) - s_usize ?c) = length data - n"
    using c(5,6) n by (simp add: unat_sub word_le_nat_alt unat_ucast_up)
  have ld: "load (plus_addr a n) ?l s = ret (chunk_at data n)" using load_chunk [OF blk] n by simp
  let ?s2 = "mod_sbuf b (\<lambda>p. set_pyldsz ?l (set_pyld 0 (chunk_at data n) p)) s"
  from accepting_put [OF U, of u k st ?s2] obtain w where
    p: "put_pkt U u k st ?s2 = ret (None, ?s2\<lparr>world := w\<rparr>)" and pw: "P w = P (world s)
    @ [Put (s_rvcqid ?c) (m_sndstadd ?m) st MSG_PKTSZ (ucast (s_mypos ?c)) {LOCAL_MRQ_NOTICE, STRONG_ORDER, CACHE_INJECTION} None]"
    by (auto simp: mod_sbuf_def)
  let ?s5 = "egr_advance u (ucast (h_size (m_msghdr ?m))) ?l (?s2\<lparr>world := w\<rparr>)"
  have run: "sendengine_cur U u 0 s = ret (None, ?s5)"
    using c st ld p rest hd by (simp add: sendengine_cur_def arr_def utf_sendengine_def s_do_egr_def Let_def)
  obtain s5' where s5': "s5' = ?s5" by blast
  have run': "sendengine_cur U u 0 s = ret (None, s5')" unfolding s5' by (rule run)
  have L35: "length data < 2 ^ 35" using length_data_35 [OF c(5)] .
  have us: "unat (s_usize ?c + word_of_nat ?l) = n + ?l"
    using c(6) n L35 by (simp add: unat_word_ariths unat_of_nat)
  have rv: "unat (s_recvidx ?c + 1) = Suc r"
    using c(8) r by (simp add: unat_word_ariths COM_RBUF_SIZE_def)
  have cond: "(ucast (h_size (m_msghdr ?m)) :: u64) = s_usize ?c + word_of_nat ?l \<longleftrightarrow> n + ?l = length data"
    using us c(5) by (auto simp: word_unat_eq_iff unat_ucast_up)
  have sb: "sbuf s5' b = \<lparr>hdr = h\<lparr>h_pyldsz := word_of_nat ?l\<rparr>, pyld = overwrite (pyld (sbuf s b)) 0 (chunk_at data n)\<rparr>"
    unfolding s5' egr_advance_def Let_def using hd by (simp add: set_pyldsz_def set_pyld_def)
  have s5: "scntr s5' u = ?c\<lparr>s_usize := s_usize ?c + word_of_nat ?l, s_recvidx := s_recvidx ?c + 1,
      s_state := (if n + ?l = length data then S_DONE_EGR else S_DO_EGR)\<rparr>"
    unfolding s5' egr_advance_def Let_def using cond c(7) by simp
  have rest5: "mem s5' = mem s" "info s5' = info s" "egrmgt_tab s5' = egrmgt_tab s" "world s5' = w"
    unfolding s5' egr_advance_def Let_def by simp_all
  have "length (pyld (sbuf s b)) = MSG_PYLDSZ" using inv by (simp add: egr_inv_def)
  then have "length (overwrite (pyld (sbuf s b)) 0 (chunk_at data n)) = MSG_PYLDSZ" using lc by simp
  then have "egr_inv s5' u k b a data h (n + ?l) (Suc r)"
    using inv us rv n unfolding egr_inv_def s5 sb rest5 by (simp add: Let_def)
  with run' sb s5 rest5 st(2) pw lc show ?thesis
    by (intro exI [of _ s5'] exI [of _ st]) simp
qed

text \<open>Handling \<open>n\<close> completions in a row; after each, the packet that is in the send buffer.\<close>

fun send_run :: "nat \<Rightarrow> 'w utofu \<Rightarrow> nat \<Rightarrow> nat \<Rightarrow> 'w utf \<Rightarrow> (utf_packet list \<times> 'w utf) outcome" where
  "send_run 0 U u b s = ret ([], s)"
| "send_run (Suc n) U u b s = bindO (sendengine_cur U u 0 s) (\<lambda>(_, s1).
     bindO (send_run n U u b s1) (\<lambda>(ps, s2). ret (sbuf s1 b # ps, s2)))"

function chunk_offs :: "nat \<Rightarrow> nat \<Rightarrow> nat list" where
  "chunk_offs L n = (if L \<le> n then [] else n # chunk_offs L (n + min (L - n) MSG_PYLDSZ))"
  by pat_completeness auto
termination
  by (relation "measure (\<lambda>(L, n). L - n)") (auto simp: msg_size_defs)

declare chunk_offs.simps [simp del]

lemma chunk_offs_concat:
  "n \<le> length data \<Longrightarrow> concat (map (chunk_at data) (chunk_offs (length data) n)) = drop n data"
proof (induction "length data" n rule: chunk_offs.induct)
  case (1 n)
  let ?l = "min (length data - n) MSG_PYLDSZ"
  show ?case
  proof (cases "length data \<le> n")
    case True
    then show ?thesis by (subst chunk_offs.simps) simp
  next
    case False
    then have o: "chunk_offs (length data) n = n # chunk_offs (length data) (n + ?l)" by (subst chunk_offs.simps) simp
    have "chunk_at data n @ drop (n + ?l) data = drop n data"
    proof -
      have "drop (n + ?l) data = drop ?l (drop n data)" by (simp add: add.commute)
      then show ?thesis unfolding chunk_at_def bytes_at_def by (simp only: append_take_drop_id)
    qed
    with 1(1) [OF False] False show ?thesis by (simp add: o)
  qed
qed

definition egr_pkt :: "utf_msghdr \<Rightarrow> u8 list \<Rightarrow> utf_packet \<Rightarrow> bool" where
  "egr_pkt h c p \<longleftrightarrow> hdr p = h\<lparr>h_pyldsz := word_of_nat (length c)\<rparr> \<and> length (pyld p) = MSG_PYLDSZ \<and> take (length c) (pyld p) = c"

lemma egr_pkt_chunk:
  assumes "egr_pkt h c p" and "h_flgs h = 0" and "length c \<le> MSG_PYLDSZ"
  shows "pkt_chunk p = c" and "wf_eager_pkt 0 p" and "h_rndz (hdr p) = h_rndz h" and "h_size (hdr p) = h_size h"
proof -
  have u: "unat (word_of_nat (length c) :: 10 word) = length c" using assms(3) by (simp add: unat_of_nat msg_size_defs)
  show "pkt_chunk p = c" "wf_eager_pkt 0 p" "h_rndz (hdr p) = h_rndz h" "h_size (hdr p) = h_size h"
    using assms u by (auto simp: egr_pkt_def pkt_chunk_def PKT_DATA_def wf_eager_pkt_def wf_pkt_def)
qed

lemma egr_run:
  assumes U: "accepting U P" and "egr_inv s u k b a data h n r" and h: "h_flgs h = 0"
    and "r + length (chunk_offs (length data) n) \<le> COM_RBUF_SIZE" and "rbuf_in_range s"
  shows "\<exists>ps s'. send_run (length (chunk_offs (length data) n)) U u b s = ret (ps, s')
    \<and> list_all2 (\<lambda>o1 p. egr_pkt h (chunk_at data o1) p) (chunk_offs (length data) n) ps
    \<and> egr_inv s' u k b a data h (length data) (r + length (chunk_offs (length data) n)) \<and> rbuf_in_range s'"
  using assms(2,4,5)
proof (induction "length data" n arbitrary: s r rule: chunk_offs.induct)
  case (1 n)
  let ?l = "min (length data - n) MSG_PYLDSZ"
  show ?case
  proof (cases "length data \<le> n")
    case True
    then have "chunk_offs (length data) n = []" by (subst chunk_offs.simps) simp
    moreover have "n = length data" using True 1(2) by (auto simp: egr_inv_def Let_def)
    ultimately show ?thesis using 1 by auto
  next
    case False
    then have o: "chunk_offs (length data) n = n # chunk_offs (length data) (n + ?l)" by (subst chunk_offs.simps) simp
    have lc: "length (chunk_at data n) = ?l" using False by (simp add: chunk_at_def)
    from egr_step [OF U 1(2) _ h _ 1(4)] False 1(3) obtain s1 where
      e: "sendengine_cur U u 0 s = ret (None, s1)" and i1: "egr_inv s1 u k b a data h (n + ?l) (Suc r)"
      and sb: "sbuf s1 b = \<lparr>hdr = h\<lparr>h_pyldsz := word_of_nat (length (chunk_at data n))\<rparr>,
                   pyld = overwrite (pyld (sbuf s b)) 0 (chunk_at data n)\<rparr>" and inf: "info s1 = info s"
      unfolding lc by (auto simp: o)
    have rg: "rbuf_in_range s1" using 1(4) inf by (simp add: rbuf_in_range_def)
    from 1(1) [OF False i1 _ rg] 1(3) obtain ps s' where
      r: "send_run (length (chunk_offs (length data) (n + ?l))) U u b s1 = ret (ps, s')"
      "list_all2 (\<lambda>o1 p. egr_pkt h (chunk_at data o1) p) (chunk_offs (length data) (n + ?l)) ps"
      "egr_inv s' u k b a data h (length data) (Suc r + length (chunk_offs (length data) (n + ?l)))" "rbuf_in_range s'"
      by (auto simp: o)
    have "length (pyld (sbuf s b)) = MSG_PYLDSZ" using 1(2) by (simp add: egr_inv_def)
    then have "egr_pkt h (chunk_at data n) (sbuf s1 b)"
      unfolding sb using lc by (simp add: egr_pkt_def overwrite_def)
    with r e show ?thesis by (simp add: o)
  qed
qed

section \<open>The first packet\<close>

lemma load_first:
  assumes "mem t (fst a) = Some blk" "snd a + length data \<le> length blk" "bytes_at blk (snd a) (length data) = data"
    and le: "MSG_PYLDSZ \<le> length data" "MSG_PYLDSZ \<noteq> 0"
  shows "load a MSG_PYLDSZ t = ret (take MSG_PYLDSZ data)"
proof -
  have "load a MSG_PYLDSZ t = ret (bytes_at blk (snd a + 0) MSG_PYLDSZ)"
    using assms(1,2) le by (auto simp: load_def)
  also have "bytes_at blk (snd a + 0) MSG_PYLDSZ = bytes_at data 0 MSG_PYLDSZ"
    using bytes_at_bytes_at [of 0 MSG_PYLDSZ "length data" blk "snd a"] le assms(3) by simp
  finally show ?thesis by (simp add: bytes_at_def)
qed

text \<open>What \<open>minfo_setup\<close> prepares for an eager message that does not fit into one packet.\<close>

lemma minfo_setup_inplace:
  assumes sz: "unat sz = length data" "MSG_EAGER_SIZE < length data" "length data < 2 ^ 35" and md: "mode_msg s \<noteq> MSG_RENDEZOUS"
    and blk: "mem s (fst a) = Some blk" "snd a + length data \<le> length blk" "bytes_at blk (snd a) (length data) = data"
    and k: "k < length (s_msginfo (scntr s u))" and b: "length (pyld (sbuf s b)) = MSG_PYLDSZ"
  shows "\<exists>s1 m. minfo_setup U u k rank tag sz a b i s = ret s1
    \<and> scntr s1 u = (scntr s u)\<lparr>s_msginfo := (s_msginfo (scntr s u))[k := m]\<rparr>
    \<and> m_sndbuf m = Some b \<and> m_usrbuf m = Some a \<and> m_cntrtype m = SNDCNTR_INPLACE_EAGER1
    \<and> m_mreq m = Some i \<and> m_sndstadd m = m_sndstadd (s_msginfo (scntr s u) ! k)
    \<and> unat (h_size (m_msghdr m)) = length data
    \<and> sbuf s1 b = \<lparr>hdr = (msg_hdr (word_of_int rank) tag sz)\<lparr>h_pyldsz := word_of_nat MSG_PYLDSZ\<rparr>, pyld = take MSG_PYLDSZ data\<rparr>
    \<and> mem s1 = mem s \<and> info s1 = info s \<and> egrmgt_tab s1 = egrmgt_tab s \<and> world s1 = world s"
proof -
  have big: "\<not> length data \<le> MSG_EAGER_SIZE" "\<not> length data \<le> MSG_EAGER_PIGBACK_SZ"
    using sz(2) by (simp_all add: msg_size_defs)
  have le: "MSG_PYLDSZ \<le> length data" "MSG_PYLDSZ \<noteq> 0" using sz(2) by (simp_all add: msg_size_defs)
  let ?h = "(msg_hdr (word_of_int (i_myrank (info s))) tag sz)\<lparr>h_sidx := ucast (s_mypos (scntr s u))\<rparr>"
  let ?m0 = "(s_msginfo (scntr s u) ! k)\<lparr>m_msghdr := ?h, m_mreq := Some i, m_scntr := Some u\<rparr>"
  let ?m = "?m0\<lparr>m_cntrtype := SNDCNTR_INPLACE_EAGER1, m_usrbuf := Some a, m_sndbuf := Some b\<rparr>"
  note ld = load_first [of _ a blk data, OF _ blk(2,3) le]
  have hs: "unat (ucast sz :: 35 word) = length data"
    using sz(1,3) by (simp add: unsigned_ucast_eq take_bit_nat_eq_self)
  have ow: "overwrite (pyld (sbuf s b)) 0 (take MSG_PYLDSZ data) = take MSG_PYLDSZ data"
    using b le by (simp add: overwrite_def)
  show ?thesis
    using big md sz(1) k hs ow blk(1) unfolding minfo_setup_def Let_def
    by (auto simp: ld msg_hdr_def set_pyldsz_def set_pyld_def intro!: exI [of _ ?m])
qed

lemma has_room_inplace:
  assumes U: "accepting U P" and st: "s_state (scntr s u) = S_HAS_ROOM" "unat (s_micur (scntr s u)) = k" "k < length (s_msginfo (scntr s u))"
    and m: "m_sndbuf (s_msginfo (scntr s u) ! k) = Some b" "m_usrbuf (s_msginfo (scntr s u) ! k) = Some a"
      "m_cntrtype (s_msginfo (scntr s u) ! k) = SNDCNTR_INPLACE_EAGER1"
      "unat (h_size (m_msghdr (s_msginfo (scntr s u) ! k))) = length data"
    and L: "MSG_PYLDSZ < length data"
    and blk: "mem s (fst a) = Some blk" "snd a + length data \<le> length blk" "bytes_at blk (snd a) (length data) = data"
    and sb: "sbuf s b = \<lparr>hdr = h\<lparr>h_pyldsz := word_of_nat MSG_PYLDSZ\<rparr>, pyld = take MSG_PYLDSZ data\<rparr>"
    and r: "unat (s_recvidx (scntr s u)) = r" "r < COM_RBUF_SIZE" and base: "rbuf_in_range s"
  shows "\<exists>s'. utf_sendengine U u k 0 s = ret (None, s') \<and> egr_inv s' u k b a data h MSG_PYLDSZ (Suc r)
    \<and> sbuf s' b = sbuf s b \<and> info s' = info s"
proof -
  let ?c = "scntr s u" and ?m = "s_msginfo (scntr s u) ! k"
  obtain st' where sa: "calc_recvstadd u (ucast (utf_sndmgt_get_index (unat (s_dst ?c)) (egrmgt_tab s))) s = (st', s)" "st' \<noteq> 0"
    using calc_recvstadd_room [OF r base] by blast
  let ?s2 = "mod_scntr u (\<lambda>c. c\<lparr>s_usize := ucast (h_pyldsz (hdr (sbuf s b))), s_state := S_DO_EGR\<rparr>) s"
  from accepting_put [OF U, of u k st' ?s2] obtain w where p: "put_pkt U u k st' ?s2 = ret (None, ?s2\<lparr>world := w\<rparr>)" by blast
  let ?s3 = "mod_scntr u (\<lambda>c. c\<lparr>s_recvidx := s_recvidx c + 1\<rparr>) (?s2\<lparr>world := w\<rparr>)"
  have run: "utf_sendengine U u k 0 s = ret (None, ?s3)"
    using st m sa p by (simp add: utf_sendengine_def s_has_room_def room_inplace_def)
  have us: "unat (ucast (h_pyldsz (hdr (sbuf s b))) :: u64) = MSG_PYLDSZ"
    unfolding sb by (simp add: unat_ucast_up unat_of_nat msg_size_defs)
  have rv: "unat (s_recvidx ?c + 1) = Suc r" using r by (simp add: unat_word_ariths COM_RBUF_SIZE_def)
  have c3: "scntr ?s3 u = ?c\<lparr>s_usize := ucast (h_pyldsz (hdr (sbuf s b))), s_state := S_DO_EGR, s_recvidx := s_recvidx ?c + 1\<rparr>" by simp
  have x3: "mem ?s3 = mem s" "sbuf ?s3 = sbuf s" by simp_all
  have "egr_inv ?s3 u k b a data h MSG_PYLDSZ (Suc r)"
    using st m L blk us rv sb unfolding egr_inv_def c3 x3 by (simp add: Let_def)
  with run show ?thesis by (intro exI [of _ ?s3]) simp
qed

text \<open>
  A long eager message from its setup to its last packet: the packets it is cut into.
\<close>

lemma eager_long_packets:
  assumes U: "accepting U P"
    and sz: "unat sz = length data" "MSG_EAGER_SIZE < length data" "length data < 2 ^ 35" and md: "mode_msg s \<noteq> MSG_RENDEZOUS"
    and blk: "mem s (fst a) = Some blk" "snd a + length data \<le> length blk" "bytes_at blk (snd a) (length data) = data"
    and k: "unat (s_micur (scntr s u)) = k" "k < length (s_msginfo (scntr s u))" and b: "length (pyld (sbuf s b)) = MSG_PYLDSZ"
    and ok: "utf_sndmgt_isset_sndok (unat (s_dst (scntr s u))) (egrmgt_tab s)"
    and r: "unat (s_recvidx (scntr s u)) = r" "r + length (chunk_offs (length data) 0) \<le> COM_RBUF_SIZE" and base: "rbuf_in_range s"
  shows "\<exists>s1 s2 ps s'. minfo_setup U u k rank tag sz a b i s = ret s1 \<and> utf_send_start U u k s1 = ret (0, s2)
    \<and> send_run (length (chunk_offs (length data) MSG_PYLDSZ)) U u b s2 = ret (ps, s')
    \<and> list_all2 (\<lambda>o1 p. egr_pkt (msg_hdr (word_of_int rank) tag sz) (chunk_at data o1) p) (chunk_offs (length data) 0) (sbuf s2 b # ps)
    \<and> s_state (scntr s' u) = S_DONE_EGR \<and> unat (s_recvidx (scntr s' u)) = r + length (chunk_offs (length data) 0)"
proof -
  let ?h = "msg_hdr (word_of_int rank) tag sz"
  from minfo_setup_inplace [OF sz md blk k(2) b, of U rank tag i] obtain s1 m where
    1: "minfo_setup U u k rank tag sz a b i s = ret s1" and c1: "scntr s1 u = (scntr s u)\<lparr>s_msginfo := (s_msginfo (scntr s u))[k := m]\<rparr>"
    and m: "m_sndbuf m = Some b" "m_usrbuf m = Some a" "m_cntrtype m = SNDCNTR_INPLACE_EAGER1" "unat (h_size (m_msghdr m)) = length data"
    and sb1: "sbuf s1 b = \<lparr>hdr = ?h\<lparr>h_pyldsz := word_of_nat MSG_PYLDSZ\<rparr>, pyld = take MSG_PYLDSZ data\<rparr>"
    and x1: "mem s1 = mem s" "info s1 = info s" "egrmgt_tab s1 = egrmgt_tab s" by blast
  have L: "MSG_PYLDSZ < length data" using sz(2) by (simp add: MSG_EAGER_SIZE_def)
  have o: "chunk_offs (length data) 0 = 0 # chunk_offs (length data) MSG_PYLDSZ"
    using L by (subst chunk_offs.simps) (auto simp: min_def)
  let ?t = "mod_scntr u (\<lambda>c. c\<lparr>s_state := S_HAS_ROOM\<rparr>) s1"
  have mt: "s_msginfo (scntr ?t u) ! k = m" "k < length (s_msginfo (scntr ?t u))" using k(2) by (simp_all add: c1)
  have bt: "rbuf_in_range ?t" using base x1 by (simp add: rbuf_in_range_def)
  from has_room_inplace [OF U, of ?t u k b a data blk ?h r] m L blk k r bt mt sb1 x1 obtain s2 where
    2: "utf_sendengine U u k 0 ?t = ret (None, s2)" and i2: "egr_inv s2 u k b a data ?h MSG_PYLDSZ (Suc r)"
    and sb2: "sbuf s2 b = sbuf s1 b" and inf2: "info s2 = info s1" by (auto simp: c1 o)
  have start: "utf_send_start U u k s1 = ret (0, s2)"
    using ok 2 x1 by (simp add: utf_send_start_def c1)
  have h0: "h_flgs ?h = 0" by (simp add: msg_hdr_def set_hall_def)
  have b2: "rbuf_in_range s2" using base x1 inf2 by (simp add: rbuf_in_range_def)
  from egr_run [OF U i2 h0 _ b2] r o obtain ps s' where
    run: "send_run (length (chunk_offs (length data) MSG_PYLDSZ)) U u b s2 = ret (ps, s')"
    and ps: "list_all2 (\<lambda>o1 p. egr_pkt ?h (chunk_at data o1) p) (chunk_offs (length data) MSG_PYLDSZ) ps"
    and i': "egr_inv s' u k b a data ?h (length data) (Suc r + length (chunk_offs (length data) MSG_PYLDSZ))" by auto
  have ck: "chunk_at data 0 = take MSG_PYLDSZ data" using L by (simp add: chunk_at_def bytes_at_def min_def)
  have "egr_pkt ?h (chunk_at data 0) (sbuf s2 b)"
    unfolding sb2 sb1 ck using L by (simp add: egr_pkt_def min_def)
  with 1 start run ps i' show ?thesis by (auto simp: o egr_inv_def Let_def)
qed

section \<open>The ring of queued messages\<close>

text \<open>
  The entries from \<open>micur\<close> on, up to but not including \<open>mient\<close>, modulo the ring size; when both
  are equal on an active entry the ring is full.
\<close>

definition idle :: "utf_send_cntr \<Rightarrow> bool" where
  "idle c \<longleftrightarrow> s_state c = S_FREE \<or> s_state c = S_NONE"

text \<open>A waiting entry resumes in one of the two states that need a receive slot.\<close>

definition waits_ok :: "utf_send_cntr \<Rightarrow> bool" where
  "waits_ok c \<longleftrightarrow> (s_state c = S_WAIT_BUFREADY \<longrightarrow> s_ostate c = S_HAS_ROOM \<or> s_ostate c = S_DO_EGR)"

lemma idle_simps [simp]:
  "idle (c\<lparr>s_state := x\<rparr>) \<longleftrightarrow> x = S_FREE \<or> x = S_NONE" "idle (c\<lparr>s_msginfo := m\<rparr>) = idle c"
  "idle (c\<lparr>s_inflight := n\<rparr>) = idle c" "idle (c\<lparr>s_micur := y\<rparr>) = idle c" "idle (c\<lparr>s_mient := y\<rparr>) = idle c"
  by (simp_all add: idle_def)

lemma waits_ok_simps [simp]:
  "x \<noteq> S_WAIT_BUFREADY \<Longrightarrow> waits_ok (c\<lparr>s_state := x\<rparr>)" "waits_ok (c\<lparr>s_msginfo := m\<rparr>) = waits_ok c"
  "waits_ok (c\<lparr>s_inflight := n\<rparr>) = waits_ok c" "waits_ok (c\<lparr>s_micur := y\<rparr>) = waits_ok c" "waits_ok (c\<lparr>s_mient := y\<rparr>) = waits_ok c"
  by (simp_all add: waits_ok_def)

definition ring_len :: "utf_send_cntr \<Rightarrow> nat" where
  "ring_len c = (if idle c then 0
     else (unat (s_mient c) + COM_SCNTR_MINF_SZ - unat (s_micur c) - 1) mod COM_SCNTR_MINF_SZ + 1)"

definition ring_entries :: "utf_send_cntr \<Rightarrow> nat set" where
  "ring_entries c = {k. k < COM_SCNTR_MINF_SZ \<and> (k + COM_SCNTR_MINF_SZ - unat (s_micur c)) mod COM_SCNTR_MINF_SZ < ring_len c}"

definition scntr_inv :: "utf_send_cntr \<Rightarrow> bool" where
  "scntr_inv c \<longleftrightarrow> length (s_msginfo c) = COM_SCNTR_MINF_SZ \<and> unat (s_micur c) < COM_SCNTR_MINF_SZ \<and> unat (s_mient c) < COM_SCNTR_MINF_SZ
     \<and> (idle c \<longrightarrow> s_micur c = 0 \<and> s_mient c = 0) \<and> waits_ok c
     \<and> (\<forall>k < COM_SCNTR_MINF_SZ. m_cntrtype (s_msginfo c ! k) \<noteq> SNDCNTR_NONE \<longleftrightarrow> k \<in> ring_entries c)
     \<and> (\<forall>k \<in> ring_entries c. m_sndbuf (s_msginfo c ! k) \<noteq> None \<and> m_mreq (s_msginfo c ! k) \<noteq> None)"

text \<open>Facts about the four positions.\<close>

lemma less_4: "(k :: nat) < 4 \<longleftrightarrow> k = 0 \<or> k = 1 \<or> k = 2 \<or> k = 3"
  by auto

lemma ring_advance:
  fixes k x y :: nat
  assumes "k < 4" "x < 4" "y < 4" "(x + 1) mod 4 \<noteq> y"
  shows "(k + 4 - (x + 1) mod 4) mod 4 < (y + 4 - (x + 1) mod 4 - 1) mod 4 + 1
    \<longleftrightarrow> (k + 4 - x) mod 4 < (y + 4 - x - 1) mod 4 + 1 \<and> k \<noteq> x"
  using assms unfolding less_4 by (elim disjE) simp_all

lemma ring_single:
  fixes k x y :: nat
  assumes "k < 4" "x < 4" "(x + 1) mod 4 = y"
  shows "(k + 4 - x) mod 4 < (y + 4 - x - 1) mod 4 + 1 \<longleftrightarrow> k = x"
  using assms unfolding less_4 by (elim disjE) auto

lemma ring_insert:
  fixes k x y :: nat
  assumes "k < 4" "x < 4" "y < 4" "x \<noteq> y"
  shows "(k + 4 - x) mod 4 < ((y + 1) mod 4 + 4 - x - 1) mod 4 + 1 \<longleftrightarrow> (k + 4 - x) mod 4 < (y + 4 - x - 1) mod 4 + 1 \<or> k = y"
  using assms unfolding less_4 by (elim disjE) simp_all

lemma ring_full:
  fixes k x :: nat
  assumes "k < 4" "x < 4"
  shows "(k + 4 - x) mod 4 < (x + 4 - x - 1) mod 4 + 1"
  using assms unfolding less_4 by (elim disjE) simp_all

text \<open>Steps that leave the ring alone.\<close>

definition ring_same :: "utf_send_cntr \<Rightarrow> utf_send_cntr \<Rightarrow> bool" where
  "ring_same c c' \<longleftrightarrow> s_msginfo c' = s_msginfo c \<and> s_micur c' = s_micur c \<and> s_mient c' = s_mient c
     \<and> (idle c' \<longleftrightarrow> idle c) \<and> waits_ok c'"

lemma ring_same_inv: "ring_same c c' \<Longrightarrow> scntr_inv c \<Longrightarrow> scntr_inv c'"
  by (simp add: ring_same_def scntr_inv_def ring_entries_def ring_len_def)

definition same_rings :: "nat \<Rightarrow> 'w utf \<Rightarrow> 'w utf \<Rightarrow> bool" where
  "same_rings u s s' \<longleftrightarrow> ring_same (scntr s u) (scntr s' u) \<and> (\<forall>v. v \<noteq> u \<longrightarrow> scntr s' v = scntr s v)"

lemma same_rings_trans: "same_rings u s s1 \<Longrightarrow> same_rings u s1 s2 \<Longrightarrow> same_rings u s s2"
  by (simp add: same_rings_def ring_same_def)

lemma put_pkt_scntr: "put_pkt U u k st s = ret (x, s') \<Longrightarrow> scntr s' = scntr s \<and> sbuf s' = sbuf s"
  by (auto simp: put_pkt_def bindO_eq_ret)

lemma rndzprog_alloc_scntr: "utf_rndzprog_alloc s = ret (z, s') \<Longrightarrow> scntr s' = scntr s"
  unfolding utf_rndzprog_alloc_def bindO_eq_ret
  by (elim exE conjE, simp only: split: prod.splits option.splits) auto

lemma rndz_register_scntr: "scntr (rndz_register u k z pos s) = scntr s"
  by (simp add: rndz_register_def split: prod.split)

lemma calc_recvstadd_same:
  assumes "calc_recvstadd u ridx s = (st, s1)" and "s_state (scntr s u) = S_HAS_ROOM \<or> s_state (scntr s u) = S_DO_EGR"
  shows "same_rings u s s1" and "st = 0 \<or> s1 = s"
  using assms by (auto simp: calc_recvstadd_def same_rings_def ring_same_def idle_def waits_ok_def Let_def split: if_splits)

lemma room_same:
  assumes "\<not> idle (scntr s u)"
  shows "room_pigback U u b st s = ret (x, s') \<Longrightarrow> same_rings u s s'"
    and "room_buffered U u k b st s = ret (x, s') \<Longrightarrow> same_rings u s s'"
    and "room_inplace U u k b st s = ret (x, s') \<Longrightarrow> same_rings u s s'"
    and "room_rndz U u k b st s = ret (x, s') \<Longrightarrow> same_rings u s s'"
  using assms
  by (auto simp: room_pigback_def room_buffered_def room_inplace_def room_rndz_def Let_def bindO_eq_ret
      same_rings_def ring_same_def idle_def waits_ok_def rndz_register_scntr dest!: put_pkt_scntr rndzprog_alloc_scntr)

lemma s_has_room_same:
  assumes run: "s_has_room U u k s = ret (x, s')" and st: "s_state (scntr s u) = S_HAS_ROOM"
  shows "same_rings u s s'"
proof -
  obtain a s1 where c: "calc_recvstadd u (ucast (utf_sndmgt_get_index (unat (s_dst (scntr s u))) (egrmgt_tab s))) s = (a, s1)"
    by fastforce
  have same: "same_rings u s s1" using calc_recvstadd_same [OF c] st by simp
  then have st1: "\<not> idle (scntr s1 u)" using st by (simp add: same_rings_def ring_same_def idle_def)
  let ?m = "s_msginfo (scntr s1 u) ! k"
  have "s' = s1 \<or> same_rings u s1 s'"
    using run c
    by (cases "m_cntrtype ?m"; cases "m_sndbuf ?m") (auto simp: s_has_room_def Let_def dest: room_same [OF st1] split: if_splits)
  then show ?thesis using same same_rings_trans by blast
qed

lemma egr_advance_same: "s_state (scntr s u) = S_DO_EGR \<Longrightarrow> same_rings u s (egr_advance u z n s)"
  by (auto simp: egr_advance_def same_rings_def ring_same_def idle_def waits_ok_def Let_def)

lemma s_do_egr_same:
  assumes run: "s_do_egr U u k s = ret (x, s')" and st: "s_state (scntr s u) = S_DO_EGR"
  shows "same_rings u s s'"
proof -
  obtain a s1 where c: "calc_recvstadd u (ucast (utf_sndmgt_get_index (unat (s_dst (scntr s u))) (egrmgt_tab s))) s = (a, s1)"
    by fastforce
  have same: "same_rings u s s1" and s1: "a = 0 \<or> s1 = s" using calc_recvstadd_same [OF c] st by simp_all
  have "s' = s1 \<or> s1 = s \<and> (\<exists>s3 n. scntr s3 = scntr s1 \<and> s' = egr_advance u (ucast (h_size (m_msghdr (s_msginfo (scntr s u) ! k)))) n s3)"
    using run c s1 by (auto simp: s_do_egr_def Let_def bindO_eq_ret dest!: put_pkt_scntr split: if_splits option.splits) blast+
  moreover have "same_rings u s (egr_advance u z n s3)" if "scntr s3 = scntr s" for s3 z n
    using egr_advance_same [of s3 u z n] that st by (simp add: same_rings_def ring_same_def)
  ultimately show ?thesis using same by auto
qed

text \<open>Removing the current entry.\<close>

definition clear_entry :: "utf_send_msginfo \<Rightarrow> utf_send_msginfo" where
  "clear_entry m = m\<lparr>m_mreq := None, m_cntrtype := SNDCNTR_NONE\<rparr>"

lemma ring_entries_4:
  assumes "\<not> idle c"
  shows "k \<in> ring_entries c \<longleftrightarrow> k < 4 \<and> (k + 4 - unat (s_micur c)) mod 4 < (unat (s_mient c) + 4 - unat (s_micur c) - 1) mod 4 + 1"
  using assms by (simp add: ring_entries_def ring_len_def COM_SCNTR_MINF_SZ_def)

lemma scntr_inv_4:
  assumes "scntr_inv c"
  shows "length (s_msginfo c) = 4" "unat (s_micur c) < 4" "unat (s_mient c) < 4"
    and "k < 4 \<Longrightarrow> m_cntrtype (s_msginfo c ! k) \<noteq> SNDCNTR_NONE \<longleftrightarrow> k \<in> ring_entries c"
    and "k \<in> ring_entries c \<Longrightarrow> m_sndbuf (s_msginfo c ! k) \<noteq> None \<and> m_mreq (s_msginfo c ! k) \<noteq> None"
  using assms by (auto simp: scntr_inv_def COM_SCNTR_MINF_SZ_def)

lemma scntr_inv_last:
  assumes inv: "scntr_inv c" and st: "\<not> idle c" and k: "k = unat (s_micur c)" and last: "(k + 1) mod 4 = unat (s_mient c)"
  shows "scntr_inv (c\<lparr>s_msginfo := (s_msginfo c)[k := clear_entry (s_msginfo c ! k)], s_micur := 0, s_mient := 0, s_state := S_NONE\<rparr>)"
proof -
  have only: "j \<in> ring_entries c \<longleftrightarrow> j = k" if "j < 4" for j
    using ring_entries_4 [OF st, of j] ring_single [of j k "unat (s_mient c)"] scntr_inv_4(2) [OF inv] k last that by simp
  show ?thesis
    using scntr_inv_4(1-3) [OF inv] scntr_inv_4(4) [OF inv] only k
    by (auto simp: scntr_inv_def ring_entries_def ring_len_def COM_SCNTR_MINF_SZ_def nth_list_update clear_entry_def)
qed

lemma scntr_inv_next:
  assumes inv: "scntr_inv c" and st: "\<not> idle c" and k: "k = unat (s_micur c)"
    and idx: "idx = (k + 1) mod 4" "idx \<noteq> unat (s_mient c)"
  shows "scntr_inv (c\<lparr>s_msginfo := (s_msginfo c)[k := clear_entry (s_msginfo c ! k)], s_micur := word_of_nat idx, s_state := S_HAS_ROOM\<rparr>)"
    (is "scntr_inv ?c")
    and "m_cntrtype (s_msginfo c ! idx) \<noteq> SNDCNTR_NONE" and "idx \<noteq> k"
proof -
  have i4: "idx < 4" "unat (word_of_nat idx :: u8) = idx" using idx(1) by (simp_all add: unat_of_nat)
  have k4: "k < 4" "unat (s_mient c) < 4" using scntr_inv_4 [OF inv] k by auto
  show ne: "idx \<noteq> k" using idx(1) k4(1) unfolding less_4 by auto
  have mem: "j \<in> ring_entries ?c \<longleftrightarrow> j \<in> ring_entries c \<and> j \<noteq> k" if "j < 4" for j
    using ring_advance [of j k "unat (s_mient c)"] ring_entries_4 [of ?c j] ring_entries_4 [OF st, of j] that k4 i4 idx k by simp
  have out: "j \<in> ring_entries ?c \<Longrightarrow> j < 4" for j by (simp add: ring_entries_def COM_SCNTR_MINF_SZ_def)
  have "(idx + 4 - idx) mod 4 < (unat (s_mient c) + 4 - idx - 1) mod 4 + 1" by simp
  then have "idx \<in> ring_entries ?c" using ring_entries_4 [of ?c idx] i4 by simp
  with mem [OF i4(1)] scntr_inv_4(4) [OF inv i4(1)] show "m_cntrtype (s_msginfo c ! idx) \<noteq> SNDCNTR_NONE" by simp
  have A: "m_cntrtype (s_msginfo ?c ! j) \<noteq> SNDCNTR_NONE \<longleftrightarrow> j \<in> ring_entries ?c" if "j < 4" for j
    using mem [OF that] scntr_inv_4(4) [OF inv that] scntr_inv_4(1) [OF inv] that k4
    by (cases "j = k") (simp_all add: clear_entry_def)
  have B: "m_sndbuf (s_msginfo ?c ! j) \<noteq> None \<and> m_mreq (s_msginfo ?c ! j) \<noteq> None" if "j \<in> ring_entries ?c" for j
    using mem [OF out [OF that]] scntr_inv_4(5) [OF inv, of j] that by auto
  show "scntr_inv ?c"
    using A B i4 k4 scntr_inv_4(1) [OF inv] unfolding scntr_inv_def by (simp add: COM_SCNTR_MINF_SZ_def)
qed

lemma next_entry_ring:
  assumes inv: "scntr_inv (scntr s u)" and st: "\<not> idle (scntr s u)" and k: "k = unat (s_micur (scntr s u))"
    and run: "next_entry U u k s = ret (x, s')"
  shows "scntr_inv (scntr s' u) \<and> (\<forall>v. v \<noteq> u \<longrightarrow> scntr s' v = scntr s v)"
proof -
  let ?c = "scntr s u" and ?idx = "(k + 1) mod 4"
  let ?s1 = "mod_minfo u k (\<lambda>m. m\<lparr>m_mreq := None, m_cntrtype := SNDCNTR_NONE\<rparr>) s"
  show ?thesis
  proof (cases "?idx = unat (s_mient ?c)")
    case True
    then have "s' = mod_scntr u (\<lambda>c. c\<lparr>s_micur := 0, s_mient := 0, s_state := S_NONE\<rparr>) ?s1"
      using run k by (simp add: next_entry_def COM_SCNTR_MINF_SZ_def Let_def)
    with scntr_inv_last [OF inv st k True] show ?thesis by (simp add: clear_entry_def)
  next
    case False
    note n = scntr_inv_next [OF inv st k refl False]
    let ?t = "mod_scntr u (\<lambda>c. c\<lparr>s_state := S_HAS_ROOM\<rparr>) (mod_scntr u (\<lambda>c. c\<lparr>s_micur := word_of_nat ?idx\<rparr>) ?s1)"
    have "s_has_room U u ?idx ?t = ret (x, s')"
      using run k False n(2,3) by (simp add: next_entry_def COM_SCNTR_MINF_SZ_def Let_def)
    from s_has_room_same [OF this] have "same_rings u ?t s'" by simp
    then show ?thesis
      using n(1) ring_same_inv [of "scntr ?t u" "scntr s' u"] by (auto simp: same_rings_def clear_entry_def)
  qed
qed


lemma run_notify_scntr [simp]: "scntr (run_notify U i s) = scntr s"
  by (simp add: run_notify_def split: option.split)

lemma sendreq_complete_scntr [simp]: "scntr (sendreq_complete U i s) = scntr s"
  by (simp add: sendreq_complete_def Let_def)

lemma utf_free_scntr [simp]: "scntr (utf_free a s) = scntr s"
  by (simp add: utf_free_def)

lemma scntr_inv_usrbuf:
  assumes "scntr_inv c"
  shows "scntr_inv (c\<lparr>s_msginfo := (s_msginfo c)[k := (s_msginfo c ! k)\<lparr>m_usrbuf := x\<rparr>]\<rparr>)"
proof -
  have e: "ring_entries (c\<lparr>s_msginfo := xs\<rparr>) = ring_entries c" for xs by (simp add: ring_entries_def ring_len_def)
  have n: "(s_msginfo c)[k := (s_msginfo c ! k)\<lparr>m_usrbuf := x\<rparr>] ! j
      = (if j = k \<and> j < length (s_msginfo c) then (s_msginfo c ! j)\<lparr>m_usrbuf := x\<rparr> else s_msginfo c ! j)" for j
    by (cases "k < length (s_msginfo c)") (auto simp: nth_list_update list_update_beyond)
  show ?thesis using assms unfolding scntr_inv_def e by (simp add: n)
qed

lemma s_done_egr_ring:
  assumes inv: "scntr_inv (scntr s u)" and st: "s_state (scntr s u) = S_DONE_EGR" and k: "k = unat (s_micur (scntr s u))"
    and run: "s_done_egr U u k s = ret (x, s')"
  shows "scntr_inv (scntr s' u) \<and> (\<forall>v. v \<noteq> u \<longrightarrow> scntr s' v = scntr s v)"
proof -
  let ?s1 = "mod_scntr u (\<lambda>c. c\<lparr>s_inflight := s_inflight c - 1\<rparr>) s"
  let ?m = "s_msginfo (scntr s u) ! k"
  define s2 where "s2 = (case m_usrbuf ?m of
                  Some a \<Rightarrow> if m_cntrtype ?m = SNDCNTR_INPLACE_EAGER2
                           then mod_minfo u k (\<lambda>m. m\<lparr>m_usrbuf := None\<rparr>) (utf_free a ?s1) else ?s1
                | None \<Rightarrow> ?s1)"
  obtain i where "m_mreq ?m = Some i" and nx: "next_entry U u k (sendreq_complete U i s2) = ret (x, s')"
    using run by (auto simp: s_done_egr_def Let_def s2_def split: option.splits)
  have i1: "scntr_inv (scntr ?s1 u)" by (rule ring_same_inv [OF _ inv]) (use inv in \<open>simp add: ring_same_def scntr_inv_def\<close>)
  have "scntr_inv (scntr s2 u)" "s_state (scntr s2 u) = S_DONE_EGR" "s_micur (scntr s2 u) = s_micur (scntr s u)"
    and o: "\<And>v. v \<noteq> u \<Longrightarrow> scntr s2 v = scntr s v"
    using i1 scntr_inv_usrbuf [OF i1, of k None] st by (auto simp: s2_def split: option.splits)
  with next_entry_ring [OF _ _ _ nx] k show ?thesis by (simp add: idle_def)
qed

lemma sendengine_ring:
  assumes inv: "scntr_inv (scntr s u)" and run: "sendengine_cur U u rslt s = ret (x, s')"
  shows "scntr_inv (scntr s' u) \<and> (\<forall>v. v \<noteq> u \<longrightarrow> scntr s' v = scntr s v)"
proof -
  let ?k = "unat (s_micur (scntr s u))"
  have e: "utf_sendengine U u ?k rslt s = ret (x, s')"
    using run by (simp add: sendengine_cur_def arr_def split: if_splits)
  have same: ?thesis if "same_rings u s s'"
    using that ring_same_inv [OF _ inv] by (simp add: same_rings_def)
  show ?thesis
  proof (cases "s_state (scntr s u)")
    case S_REQ_ROOM
    let ?d = "unat (s_dst (scntr s u))"
    let ?t = "mod_scntr u (\<lambda>c. c\<lparr>s_state := S_HAS_ROOM, s_recvidx := 0\<rparr>)
      (s\<lparr>egrmgt_tab := utf_sndmgt_set_index ?d (utf_sndmgt_set_sndok ?d (egrmgt_tab s)) rslt\<rparr>)"
    have "s_has_room U u ?k ?t = ret (x, s')"
      using e S_REQ_ROOM by (simp add: utf_sendengine_def s_req_room_def Let_def split: if_splits)
    from s_has_room_same [OF this] have "same_rings u ?t s'" by simp
    moreover have "same_rings u s ?t" using S_REQ_ROOM by (simp add: same_rings_def ring_same_def idle_def waits_ok_def)
    ultimately show ?thesis using same same_rings_trans by blast
  next
    case S_DONE_EGR
    then have "s_done_egr U u ?k s = ret (x, s')" using e by (simp add: utf_sendengine_def)
    from s_done_egr_ring [OF inv S_DONE_EGR refl this] show ?thesis .
  next
    case S_REQ_RDVR
    then have "next_entry U u ?k s = ret (x, s')" using e by (simp add: utf_sendengine_def)
    from next_entry_ring [OF inv _ refl this] S_REQ_RDVR idle_def show ?thesis by simp
  next
    case S_HAS_ROOM
    then have "s_has_room U u ?k s = ret (x, s')" using e by (simp add: utf_sendengine_def)
    from s_has_room_same [OF this] S_HAS_ROOM same show ?thesis by simp
  next
    case S_DO_EGR
    then have "s_do_egr U u ?k s = ret (x, s')" using e by (simp add: utf_sendengine_def)
    from s_do_egr_same [OF this S_DO_EGR] same show ?thesis by simp
  qed (use e inv in \<open>simp_all add: utf_sendengine_def\<close>)
qed

text \<open>The empty entry of a fresh process satisfies the invariant, and the loop keeps it.\<close>

lemma sendengine_loop_ring:
  "sendengine_loop U u s = Some r \<Longrightarrow> r = Inr s' \<Longrightarrow> (\<And>v. scntr_inv (scntr s v)) \<Longrightarrow> scntr_inv (scntr s' w)"
proof (induction arbitrary: s' rule: sendengine_loop.raw_induct [rotated, consumes 1])
  case (1 self U u s r)
  obtain usp s1 where c: "sendengine_cur U u 0 s = Some (Inr (usp, s1))"
    using 1(2,3) by (auto split: option.splits sum.splits)
  let ?s2 = "s1\<lparr>tcq_count := tcq_count s1 - 1\<rparr>"
  have r1: "scntr_inv (scntr s1 v)" for v
    using sendengine_ring [OF 1(4), of U u 0 usp s1] c 1(4) by (cases "v = u") (auto simp: ret_def)
  show ?case
  proof (cases usp)
    case None
    then show ?thesis using 1(2,3) c r1 by (auto simp: Let_def)
  next
    case (Some u')
    then have "self U u' ?s2 = Some r" using 1(2) c by (simp add: Let_def)
    from 1(1) [OF this 1(3)] r1 show ?thesis by simp
  qed
qed

section \<open>Statements about the sender\<close>

lemma egr_pkts_concat:
  assumes "list_all2 (\<lambda>o1 p. egr_pkt h (chunk_at data o1) p) os ps" and "h_flgs h = 0"
  shows "map pkt_chunk ps = map (chunk_at data) os"
  using assms(1)
proof (induction rule: list_all2_induct)
  case (Cons o1 os p ps)
  have "length (chunk_at data o1) \<le> MSG_PYLDSZ" by (simp add: chunk_at_def bytes_at_def)
  from egr_pkt_chunk(1) [OF Cons(1) assms(2) this] Cons show ?case by simp
qed simp

lemma egr_pkts_wf:
  assumes "list_all2 (\<lambda>o1 p. egr_pkt h (chunk_at data o1) p) os ps" and "h_flgs h = 0"
  shows "list_all (\<lambda>p. wf_eager_pkt 0 p \<and> (hdr p)\<lparr>h_pyldsz := 0\<rparr> = h\<lparr>h_pyldsz := 0\<rparr>) ps"
  using assms(1)
proof (induction rule: list_all2_induct)
  case (Cons o1 os p ps)
  have "length (chunk_at data o1) \<le> MSG_PYLDSZ" by (simp add: chunk_at_def bytes_at_def)
  from egr_pkt_chunk(2) [OF Cons(1) assms(2) this] Cons show ?case by (simp add: egr_pkt_def)
qed simp

text \<open>C30: an eager message that does not fit into one packet, sent to a destination that has
  granted a receive buffer: \<open>minfo_setup\<close> and \<open>utf_send_start\<close> put the first packet, each
  completion lets the send engine put the next one, and after the last completion the
  packets put carry the bytes of the message exactly once and in order, each with the
  header of the message and a payload that fits; the engine is then in \<open>S_DONE_EGR\<close> and
  has used one receive slot per packet.\<close>

theorem eager_message_packets:
  assumes U: "accepting U P"
    and sz: "unat sz = length data" "MSG_EAGER_SIZE < length data" "length data < 2 ^ 35" and md: "mode_msg s \<noteq> MSG_RENDEZOUS"
    and blk: "mem s (fst a) = Some blk" "snd a + length data \<le> length blk" "bytes_at blk (snd a) (length data) = data"
    and k: "unat (s_micur (scntr s u)) = k" "k < length (s_msginfo (scntr s u))" and b: "length (pyld (sbuf s b)) = MSG_PYLDSZ"
    and ok: "utf_sndmgt_isset_sndok (unat (s_dst (scntr s u))) (egrmgt_tab s)"
    and r: "unat (s_recvidx (scntr s u)) = r" "r + length (chunk_offs (length data) 0) \<le> COM_RBUF_SIZE" and base: "rbuf_in_range s"
  shows "\<exists>s1 s2 ps s'. minfo_setup U u k rank tag sz a b i s = ret s1 \<and> utf_send_start U u k s1 = ret (0, s2)
    \<and> send_run (length (chunk_offs (length data) MSG_PYLDSZ)) U u b s2 = ret (ps, s')
    \<and> concat (map pkt_chunk (sbuf s2 b # ps)) = data
    \<and> list_all (\<lambda>p. wf_eager_pkt 0 p \<and> (hdr p)\<lparr>h_pyldsz := 0\<rparr> = (msg_hdr (word_of_int rank) tag sz)\<lparr>h_pyldsz := 0\<rparr>) (sbuf s2 b # ps)
    \<and> s_state (scntr s' u) = S_DONE_EGR \<and> unat (s_recvidx (scntr s' u)) = r + length (sbuf s2 b # ps)"
proof -
  let ?h = "msg_hdr (word_of_int rank) tag sz"
  have h0: "h_flgs ?h = 0" by (simp add: msg_hdr_def set_hall_def)
  from eager_long_packets [OF U sz md blk k b ok r base, of rank tag i] obtain s1 s2 ps s' where
    run: "minfo_setup U u k rank tag sz a b i s = ret s1" "utf_send_start U u k s1 = ret (0, s2)"
      "send_run (length (chunk_offs (length data) MSG_PYLDSZ)) U u b s2 = ret (ps, s')"
    and ps: "list_all2 (\<lambda>o1 p. egr_pkt ?h (chunk_at data o1) p) (chunk_offs (length data) 0) (sbuf s2 b # ps)"
    and fin: "s_state (scntr s' u) = S_DONE_EGR" "unat (s_recvidx (scntr s' u)) = r + length (chunk_offs (length data) 0)" by blast
  have "concat (map pkt_chunk (sbuf s2 b # ps)) = data"
    unfolding egr_pkts_concat [OF ps h0] using chunk_offs_concat [of 0 data] by simp
  moreover have "length (chunk_offs (length data) 0) = length (sbuf s2 b # ps)" using ps by (rule list_all2_lengthD)
  ultimately show ?thesis using run egr_pkts_wf [OF ps h0] fin by auto
qed

lemma demo_chunks: "length (chunk_offs 500 0) = 3" "length (chunk_offs 500 236) = 2"
  by (simp_all add: chunk_offs.simps [of 500 0] chunk_offs.simps [of 500 236] chunk_offs.simps [of 500 472]
      chunk_offs.simps [of 500 500] msg_size_defs)

definition demo_sender :: "'w utf \<Rightarrow> 'w utf" where
  "demo_sender s = s\<lparr>mem := (\<lambda>_. Some (replicate 500 7)), mode_msg := 0, sbuf := (\<lambda>_. \<lparr>hdr = zero_hdr, pyld = replicate MSG_PYLDSZ 0\<rparr>),
     egrmgt_tab := utf_sndmgt_set_sndok 0 (egrmgt_tab s), info := (info s)\<lparr>egr_rbuf_stadd := 4096\<rparr>\<rparr>"

theorem eager_message_packets_witness:
  "\<exists>s s1 s2 ps s'. utf_mem_init ready_nic (utf_static 0 2 5 7 [7, 8] sim0) = ret s
    \<and> minfo_setup ready_nic 0 0 0 5 500 (0, 0) 0 0 (demo_sender s) = ret s1 \<and> utf_send_start ready_nic 0 0 s1 = ret (0, s2)
    \<and> send_run 2 ready_nic 0 0 s2 = ret (ps, s') \<and> concat (map pkt_chunk (sbuf s2 0 # ps)) = replicate 500 7"
proof -
  have "reg_works ready_nic" by (simp add: reg_works_def ready_nic_def sim_nic_def)
  from mem_init_fresh [OF this, of 0 2 5 7 "[7, 8]" sim0] obtain s where
    s: "utf_mem_init ready_nic (utf_static 0 2 5 7 [7, 8] sim0) = ret s" and f: "utf_fresh s" by blast
  have c: "scntr (demo_sender s) 0 = zero_scntr\<lparr>s_mypos := 0\<rparr>" using f by (simp add: utf_fresh_def demo_sender_def)
  have "\<exists>s1 s2 ps s'. minfo_setup ready_nic 0 0 0 5 500 (0, 0) 0 0 (demo_sender s) = ret s1 \<and> utf_send_start ready_nic 0 0 s1 = ret (0, s2)
    \<and> send_run (length (chunk_offs (length (replicate 500 (7 :: u8))) MSG_PYLDSZ)) ready_nic 0 0 s2 = ret (ps, s')
    \<and> concat (map pkt_chunk (sbuf s2 0 # ps)) = replicate 500 7"
    using eager_message_packets [OF ready_nic_accepting, of 500 "replicate 500 7" "demo_sender s" "(0, 0)" "replicate 500 7" 0 0 0 0 0 5 0]
      demo_chunks c
    by (fastforce simp: demo_sender_def zero_scntr_def rbuf_in_range_def bytes_at_def sndmgt_defs msg_size_defs MSG_RENDEZOUS_def COM_RBUF_SIZE_def COM_SCNTR_MINF_SZ_def)
  moreover have "MSG_PYLDSZ = 236" by (simp add: msg_size_defs)
  ultimately show ?thesis using s demo_chunks by auto
qed

text \<open>C31: the ring of queued messages of a send control entry stays consistent: when the entries
  between \<open>micur\<close> and \<open>mient\<close> are exactly the occupied ones, each with a buffer and a request,
  the same holds after the engine has handled any completion in any state, and no other
  send control entry is touched.\<close>

theorem sendengine_keeps_ring:
  assumes inv: "scntr_inv (scntr s u)" and run: "sendengine_cur U u rslt s = ret (x, s')"
  shows "scntr_inv (scntr s' u) \<and> (\<forall>v. v \<noteq> u \<longrightarrow> scntr s' v = scntr s v)"
  by (rule sendengine_ring [OF inv run])

text \<open>A single buffered message whose packet has completed.\<close>

definition demo_ring :: utf_send_cntr where
  "demo_ring = zero_scntr\<lparr>s_state := S_DONE_EGR, s_mient := 1, s_inflight := 1,
     s_msginfo := [zero_minfo\<lparr>m_cntrtype := SNDCNTR_BUFFERED_EAGER, m_sndbuf := Some 0, m_mreq := Some 0\<rparr>, zero_minfo, zero_minfo, zero_minfo]\<rparr>"

lemma demo_ring_inv: "scntr_inv demo_ring"
proof -
  have e: "ring_entries demo_ring = {0}"
    by (auto simp: ring_entries_def ring_len_def demo_ring_def zero_scntr_def COM_SCNTR_MINF_SZ_def less_4 set_eq_iff idle_def)
  show ?thesis
    unfolding scntr_inv_def e
    by (simp add: demo_ring_def zero_scntr_def zero_minfo_def waits_ok_def idle_def COM_SCNTR_MINF_SZ_def All_less_Suc numeral_eq_Suc)
qed

theorem sendengine_keeps_ring_witness:
  "\<exists>x s'. sendengine_cur ready_nic 3 0 ((utf_static 0 2 5 7 [7, 8] sim0)\<lparr>scntr := (\<lambda>_. demo_ring)\<rparr>) = ret (x, s')
     \<and> s_state (scntr s' 3) = S_NONE \<and> scntr_inv (scntr s' 3) \<and> scntr s' 2 = demo_ring"
proof -
  let ?s = "(utf_static 0 2 5 7 [7, 8] sim0)\<lparr>scntr := (\<lambda>_. demo_ring)\<rparr>"
  obtain x s' where run: "sendengine_cur ready_nic 3 0 ?s = ret (x, s')" and st: "s_state (scntr s' 3) = S_NONE"
    by (simp add: sendengine_cur_def arr_def demo_ring_def utf_sendengine_def s_done_egr_def next_entry_def zero_scntr_def zero_minfo_def
        COM_SCNTR_MINF_SZ_def)
  from sendengine_keeps_ring [OF _ run] run st demo_ring_inv show ?thesis by auto
qed

end
