(* ===== verification/Utf_Engine.thy ===== *)
theory Utf_Engine
  imports Utf_Send_Props
begin

text \<open>
  The progress loop and the user operations: polling the two completion queues
  (\<open>utf_tcqprogress\<close> and \<open>utf_mrqprogress\<close> of \<open>src/src/base/utf_engine.c\<close>), draining the
  receive buffers (\<open>utf_progress\<close> of \<open>src/src/base/utf_progress.c\<close>), and posting, testing and
  waiting (\<open>utf_send\<close>, \<open>utf_recv\<close>, \<open>utf_test\<close>, \<open>utf_wait\<close>, \<open>utf_waitcmpl\<close>, \<open>utf_req_wipe\<close> of
  \<open>src/src/base/utf_msg.c\<close>).
\<close>

section \<open>Completion queues\<close>

datatype utf_event = EVT_START | EVT_CONT | EVT_LCL | EVT_RMT_RGETDON | EVT_RMT_RECVRST | EVT_RMT_GET
  | EVT_RMT_CHNRDY | EVT_RMT_CHNUPDT

text \<open>
  \<open>is_scntr\<close>: the kind of remote update when the address lies in the table of send
  controls, nothing when it lies elsewhere; an unknown offset aborts.
\<close>

definition is_scntr :: "u64 \<Rightarrow> 'w utf \<Rightarrow> utf_event option outcome" where
  "is_scntr val s =
     (if val \<ge> sndctr_stadd (info s) \<and> val \<le> sndctr_stadd_end (info s) then
        let sz = word_of_nat SIZEOF_SEND_CNTR;
            entry = (val - sndctr_stadd (info s)) div sz;
            off = val - sndctr_stadd (info s) - entry * sz
        in if off = SCNTR_RST_RECVRESET_OFFST then ret (Some EVT_RMT_RECVRST)
           else if off = SCNTR_CHN_NEXT_OFFST + 8 then ret (Some EVT_RMT_CHNUPDT)
           else if off = SCNTR_CHN_READY_OFFST + 8 then ret (Some EVT_RMT_CHNRDY)
           else crash Aborted
      else ret None)"

definition is_msginfo :: "u64 \<Rightarrow> 'w utf \<Rightarrow> bool" where
  "is_msginfo val s \<longleftrightarrow> val \<ge> rndz_stadd (info s) \<and> val \<le> rndz_stadd_end (info s)"

text \<open>
  \<open>utf_tcqprogress\<close>; \<open>usp\<close> is the variable the poll stores the callback data in.
\<close>

partial_function (option) tcqprogress_loop :: "'w utofu \<Rightarrow> nat ptr \<Rightarrow> 'w utf \<Rightarrow> (utofu_rc \<times> 'w utf) outcome" where
  "tcqprogress_loop U usp s =
     (case u_poll_tcq U (world s) of (rc, st, w) \<Rightarrow>
        let s1 = s\<lparr>world := w\<rparr>; usp1 = (case st of None \<Rightarrow> usp | Some c \<Rightarrow> c)
        in if rc \<noteq> UTOFU_SUCCESS then Some (Inr (rc, s1))
           else case (case usp1 of None \<Rightarrow> ret s1 | Some u \<Rightarrow> utf_sendengine_prep U u s1) of
                  None \<Rightarrow> None
                | Some (Inl f) \<Rightarrow> Some (Inl f)
                | Some (Inr s2) \<Rightarrow> if tcq_count s2 \<noteq> 0 then tcqprogress_loop U usp1 s2 else Some (Inr (rc, s2)))"

definition utf_tcqprogress :: "'w utofu \<Rightarrow> 'w utf \<Rightarrow> 'w utf outcome" where
  "utf_tcqprogress U s = bindO (tcqprogress_loop U None s) (\<lambda>(rc, s1).
     if rc \<noteq> UTOFU_ERR_NOT_FOUND \<and> rc \<noteq> UTOFU_SUCCESS then crash Aborted else ret s1)"

text \<open>The engine call of a notice; what it returns is dropped.\<close>

definition notice_sendengine :: "'w utofu \<Rightarrow> nat \<Rightarrow> u64 \<Rightarrow> 'w utf \<Rightarrow> 'w utf outcome" where
  "notice_sendengine U u rslt s = bindO (sendengine_cur U u rslt s) (\<lambda>(_, s1). ret s1)"

definition rma_completion :: "'w utofu \<Rightarrow> u8 \<Rightarrow> 'w utf \<Rightarrow> 'w utf" where
  "rma_completion U edata s =
     (let i = unat (edata AND NOT EDAT_RMA)
      in case rma_notify (rmacq s i) of
           Some f \<Rightarrow> s\<lparr>world := u_rma_notify U f i (world s)\<rparr>
         | None \<Rightarrow> utf_rmacq_free i s)"

definition rmt_armw_event :: "'w utofu \<Rightarrow> mrq_notice \<Rightarrow> 'w utf \<Rightarrow> 'w utf outcome" where
  "rmt_armw_event U n s =
     bindO (is_scntr (n_rmt_value n) s) (\<lambda>ev.
       case ev of
         Some evtype \<Rightarrow>
           bindO (utf_idx2scntr (unat (n_edata n))) (\<lambda>u.
             if evtype = EVT_RMT_RECVRST then
               let s1 = mod_scntr u (\<lambda>c. c\<lparr>s_rcvreset := 0, s_recvidx := 0\<rparr>) s
               in if s_state (scntr s1 u) = S_WAIT_BUFREADY
                  then notice_sendengine U u (n_rmt_value n) (mod_scntr u (\<lambda>c. c\<lparr>s_state := s_ostate c\<rparr>) s1)
                  else ret s1
             else notice_sendengine U u (n_rmt_value n) s)
       | None \<Rightarrow> if is_msginfo (n_rmt_value n) s then utf_rndz_done U (uint (n_edata n)) s else ret s)"

definition mrq_event :: "'w utofu \<Rightarrow> mrq_notice \<Rightarrow> 'w utf \<Rightarrow> 'w utf outcome" where
  "mrq_event U n s =
     (case notice_type n of
        MRQ_TYPE_LCL_PUT \<Rightarrow>
          if n_edata n AND EDAT_RMA \<noteq> 0 then ret (rma_completion U (n_edata n) s)
          else bindO (utf_idx2scntr (unat (n_edata n))) (\<lambda>u. notice_sendengine U u 0 s)
      | MRQ_TYPE_RMT_PUT \<Rightarrow> ret s
      | MRQ_TYPE_LCL_GET \<Rightarrow>
          if n_edata n AND EDAT_RMA \<noteq> 0 then ret (rma_completion U (n_edata n) s)
          else lcl_get_event U (n_vcq_id n) s
      | MRQ_TYPE_LCL_ARMW \<Rightarrow> bindO (utf_idx2scntr (unat (n_edata n))) (\<lambda>u. notice_sendengine U u (n_rmt_value n) s)
      | MRQ_TYPE_RMT_ARMW \<Rightarrow> rmt_armw_event U n s
      | MRQ_TYPE_RMT_GET \<Rightarrow> ret s)"

definition utf_mrqprogress :: "'w utofu \<Rightarrow> 'w utf \<Rightarrow> (int \<times> 'w utf) outcome" where
  "utf_mrqprogress U s =
     (case u_poll_mrq U (world s) of (uc, n, w) \<Rightarrow>
        let s1 = s\<lparr>world := w\<rparr>
        in if uc = UTOFU_ERR_NOT_FOUND then ret (-1, s1)
           else if uc \<noteq> UTOFU_SUCCESS then crash Aborted
           else bindO (mrq_event U n s1) (\<lambda>s2. ret (-1, s2)))"

section \<open>Draining the receive buffers\<close>

definition SCNTR_ADDR_CNTR_FIELD :: "'w utf \<Rightarrow> u64 \<Rightarrow> u64" where
  "SCNTR_ADDR_CNTR_FIELD s sidx = sndctr_stadd (info s) + word_of_nat SIZEOF_SEND_CNTR * sidx"

text \<open>The slot a receive control reads next; the slots of entry \<open>j\<close> start at \<open>COM_RBUF_SIZE * j\<close>.\<close>

definition utf_recvbuf_get :: "nat \<Rightarrow> nat" where
  "utf_recvbuf_get j = COM_RBUF_SIZE * j"

definition slot_of :: "'w utf \<Rightarrow> nat \<Rightarrow> nat" where
  "slot_of s j = utf_recvbuf_get j + unat (u_recvidx (rcntr s j))"

text \<open>Marking a slot as empty: \<open>hdr.hall = -1\<close>.\<close>

definition clear_slot :: "nat \<Rightarrow> 'w utf \<Rightarrow> 'w utf" where
  "clear_slot k s = s\<lparr>rbuf := (rbuf s)(k := (rbuf s k)\<lparr>hdr := set_hall (-1) (hdr (rbuf s k))\<rparr>)\<rparr>"

text \<open>All slots of entry \<open>j\<close> are used: start over and tell the sender.\<close>

definition reset_slots :: "'w utofu \<Rightarrow> nat \<Rightarrow> utf_packet \<Rightarrow> 'w utf \<Rightarrow> 'w utf outcome" where
  "reset_slots U j pkt s =
     (let sidx = ucast (h_sidx (hdr pkt));
          s1 = mod_rcntr j (\<lambda>u. u\<lparr>u_recvidx := 0\<rparr>) s
      in bindO (if u_svcqid (rcntr s1 j) = 0
                then arr (i_vname_vcqid (info s1)) (unat (h_src (hdr pkt))) (\<lambda>v. ret (mod_rcntr j (\<lambda>u. u\<lparr>u_svcqid := v\<rparr>) s1))
                else ret s1) (\<lambda>s2.
         bindO (utf_remote_armw4 U (u_svcqid (rcntr s2 j)) (u_flags (rcntr s2 j)) ARMW_OP_OR SCNTR_OK
                  (SCNTR_ADDR_CNTR_FIELD s2 sidx + SCNTR_RST_RECVRESET_OFFST) sidx None (world s2))
           (\<lambda>(_, w). ret (s2\<lparr>world := w\<rparr>))))"

text \<open>
  The loop \<open>try_again\<close> for entry \<open>j\<close>; the flag says whether a packet arrived. It runs
  until the next slot is empty or the last slot has been read.
\<close>

partial_function (option) drain :: "'w utofu \<Rightarrow> nat \<Rightarrow> bool \<Rightarrow> 'w utf \<Rightarrow> (bool \<times> 'w utf) outcome" where
  "drain U j arvd s =
     (let k = slot_of s j; pkt = rbuf s k
      in if h_marker (hdr pkt) = MSG_MARKER then
           case utf_recvengine U j pkt s of
             None \<Rightarrow> None
           | Some (Inl f) \<Rightarrow> Some (Inl f)
           | Some (Inr (rc, s1)) \<Rightarrow>
               if rc < 0 then Some (Inl Aborted)
               else let s2 = mod_rcntr j (\<lambda>u. u\<lparr>u_recvidx := u_recvidx u + 1\<rparr>) (clear_slot k s1)
                    in if unat (u_recvidx (rcntr s2 j)) = COM_RBUF_SIZE
                       then bindO (reset_slots U j pkt s2) (\<lambda>s3. Some (Inr (True, s3)))
                       else drain U j True s2
         else Some (Inr (arvd, s)))"

fun drain_all :: "'w utofu \<Rightarrow> nat list \<Rightarrow> bool \<Rightarrow> 'w utf \<Rightarrow> (bool \<times> 'w utf) outcome" where
  "drain_all U [] arvd s = ret (arvd, s)"
| "drain_all U (j # js) arvd s = bindO (drain U j arvd s) (\<lambda>(a, s1). drain_all U js a s1)"

definition utf_progress :: "'w utofu \<Rightarrow> 'w utf \<Rightarrow> 'w utf outcome" where
  "utf_progress U s =
     bindO (if tcq_count s \<noteq> 0 then utf_tcqprogress U s else ret s) (\<lambda>s1.
       if sint (rbuf_cntr s1) < 0 then crash Aborted
       else bindO (drain_all U [unat (rbuf_cntr s1) + 1..<Suc RCV_CNTRL_INIT] False s1) (\<lambda>(arvd, s2).
         if \<not> arvd then bindO (utf_mrqprogress U s2) (\<lambda>(_, s3). ret s3) else ret s2))"

section \<open>User operations\<close>

text \<open>\<open>UTF_reqid\<close>: four 16-bit members over one 64-bit word.\<close>

record UTF_reqid =
  rid_type :: u16
  reqid1 :: u16
  reqid2 :: u16
  rid_aux :: u16

definition reqid_const :: "u16 \<Rightarrow> UTF_reqid" where
  "reqid_const x = \<lparr>rid_type = x, reqid1 = x, reqid2 = x, rid_aux = x\<rparr>"

text \<open>Waiting for a free entry in the ring of the destination.\<close>

partial_function (option) send_retry :: "'w utofu \<Rightarrow> nat \<Rightarrow> 'w utf \<Rightarrow> 'w utf outcome" where
  "send_retry U u s =
     (if m_cntrtype (s_msginfo (scntr s u) ! unat (s_mient (scntr s u))) \<noteq> SNDCNTR_NONE then
        case utf_progress U s of
          None \<Rightarrow> None
        | Some (Inl f) \<Rightarrow> Some (Inl f)
        | Some (Inr s1) \<Rightarrow> send_retry U u s1
      else Some (Inr s))"

text \<open>Entering a message into the ring: the part of \<open>utf_send\<close> after the wait.\<close>

definition send_enqueue :: "'w utofu \<Rightarrow> nat \<Rightarrow> nat \<Rightarrow> addr \<Rightarrow> u64 \<Rightarrow> nat \<Rightarrow> u64 \<Rightarrow> UTF_reqid \<Rightarrow> 'w utf
    \<Rightarrow> (int \<times> UTF_reqid \<times> 'w utf) outcome" where
  "send_enqueue U u i buf sz dst tag ridx s =
     (let k = unat (s_mient (scntr s u));
          s1 = mod_scntr u (\<lambda>c. c\<lparr>s_mient := word_of_nat ((unat (s_mient c) + 1) mod COM_SCNTR_MINF_SZ)\<rparr>) s
      in bindO (case m_sndbuf (s_msginfo (scntr s1 u) ! k) of
                  None \<Rightarrow> bindO (utf_egr_sbuf_alloc s1) (\<lambda>(r, s2).
                    case r of None \<Rightarrow> ret (None, s2)
                    | Some (b, st) \<Rightarrow> ret (Some b, mod_minfo u k (\<lambda>m. m\<lparr>m_sndstadd := st\<rparr>) s2))
                | Some b \<Rightarrow> ret (Some b, s1)) (\<lambda>(sb, s2).
         case sb of
           None \<Rightarrow> bindO (utf_scntr_free dst s2) (\<lambda>s3.
             ret (UTF_ERR_NOMORE_SNDBUF, reqid_const (-1), s3\<lparr>reqs := utf_sendreq_free i (reqs s3)\<rparr>))
         | Some b \<Rightarrow> bindO (minfo_setup U u k (i_myrank (info s2)) tag sz buf b i s2) (\<lambda>s3.
             let s4 = mod_scntr u (\<lambda>c. c\<lparr>s_inflight := s_inflight c + 1\<rparr>) s3;
                 ridx1 = ridx\<lparr>reqid1 := word_of_nat i\<rparr>
             in if s_state (scntr s4 u) = S_NONE
                then bindO (utf_send_start U u k s4) (\<lambda>(_, s5). ret (0, ridx1, s5))
                else ret (0, ridx1, s4))))"

definition utf_send :: "'w utofu \<Rightarrow> addr \<Rightarrow> u64 \<Rightarrow> int \<Rightarrow> u64 \<Rightarrow> UTF_reqid \<Rightarrow> 'w utf
    \<Rightarrow> (int \<times> UTF_reqid \<times> 'w utf) outcome" where
  "utf_send U buf sz dst tag ridx s =
     (if dst < 0 \<or> dst > i_nprocs (info s) then ret (-1, ridx, s)
      else bindO (if tcq_count s \<noteq> 0 then utf_tcqprogress U s else ret s) (\<lambda>s1.
        bindO (utf_sendreq_alloc (reqs s1)) (\<lambda>(r, rp).
          let s2 = s1\<lparr>reqs := rp\<rparr>
          in case r of
               None \<Rightarrow> ret (UTF_ERR_NOMORE_REQBUF, ridx, s2)
             | Some i \<Rightarrow> bindO (utf_scntr_alloc (nat dst) s2) (\<lambda>(rc, usp, s3).
                 case usp of
                   Some u \<Rightarrow> bindO (send_retry U u s3) (send_enqueue U u i buf sz (nat dst) tag ridx)
                 | None \<Rightarrow> ret (rc, reqid_const (-1), s3\<lparr>reqs := utf_sendreq_free i (reqs s3)\<rparr>)))))"

text \<open>An \<open>int\<close> that holds a size, widened again for \<open>memcpy\<close>.\<close>

definition int_size :: "u64 \<Rightarrow> nat" where
  "int_size x = unat (scast (ucast x :: u32) :: u64)"

definition recv_matched :: "'w utofu \<Rightarrow> addr \<Rightarrow> u64 \<Rightarrow> nat \<Rightarrow> UTF_reqid \<Rightarrow> 'w utf \<Rightarrow> (int \<times> UTF_reqid \<times> 'w utf) outcome" where
  "recv_matched U buf sz i ridx s =
     (let r = req_of s i
      in if r_rndz r \<noteq> 0 then
           bindO (rget_start U i (mod_req i (\<lambda>r. r\<lparr>r_buf := Some buf, r_usrreqsz := sz\<rparr>) s)) (\<lambda>s1.
             ret (0, ridx\<lparr>reqid1 := word_of_nat i\<rparr>, s1))
         else if r_state r = REQ_DONE then
           (case r_buf r of
              None \<Rightarrow> crash NullDeref
            | Some a \<Rightarrow>
                let cpsz = int_size (if sz < ucast (h_size (r_hdr r)) then sz else ucast (h_size (r_hdr r)))
                in bindO (load a cpsz s) (\<lambda>bs. bindO (store buf bs s) (\<lambda>s1.
                     ret (UTF_MSG_AVL, (reqid_const 0)\<lparr>reqid1 := word_of_nat i\<rparr>,
                          mod_req i (\<lambda>r. r\<lparr>r_state := REQ_DONE\<rparr>) (utf_free a s1)))))
         else ret (0, ridx\<lparr>reqid1 := word_of_nat i\<rparr>, mod_req i (\<lambda>r. r\<lparr>r_type := REQ_RECV_EXPECTED\<rparr>) s))"

text \<open>A receive with no matching message is posted.\<close>

definition recv_post :: "addr \<Rightarrow> u64 \<Rightarrow> u32 \<Rightarrow> u64 \<Rightarrow> UTF_reqid \<Rightarrow> 'w utf \<Rightarrow> (int \<times> UTF_reqid \<times> 'w utf) outcome" where
  "recv_post buf sz src tag ridx s =
     bindO (utf_recvreq_alloc (reqs s)) (\<lambda>(r, rp).
       let s1 = s\<lparr>reqs := rp\<rparr>
       in case r of
            None \<Rightarrow> ret (UTF_ERR_NOMORE_REQBUF, ridx, s1)
          | Some i \<Rightarrow>
              let s2 = mod_req i (\<lambda>r. r\<lparr>r_hdr := (r_hdr r)\<lparr>h_src := src, h_tag := tag\<rparr>, r_buf := Some buf, r_usrreqsz := sz,
                          r_ustatus := REQ_NONE, r_state := REQ_PRG_NORMAL, r_type := REQ_RECV_EXPECTED, r_rsize := 0\<rparr>) s1
              in bindO (utf_msglst_append Utf_explst (r_hdr (req_of s2 i)) (word_of_nat i) (queues s2)) (\<lambda>(_, q).
                   ret (UTF_SUCCESS, (reqid_const 0)\<lparr>reqid1 := word_of_nat i\<rparr>, s2\<lparr>queues := q\<rparr>)))"

definition utf_recv :: "'w utofu \<Rightarrow> addr \<Rightarrow> u64 \<Rightarrow> int \<Rightarrow> int \<Rightarrow> UTF_reqid \<Rightarrow> 'w utf
    \<Rightarrow> (int \<times> UTF_reqid \<times> 'w utf) outcome" where
  "utf_recv U buf sz src tag ridx s =
     bindO (utf_uexplst_match (word_of_int src) (word_of_int tag) False (queues s)) (\<lambda>(idx, q).
       let s1 = s\<lparr>queues := q\<rparr>
       in if idx \<noteq> -1 then recv_matched U buf sz (nat idx) ridx s1
          else recv_post buf sz (word_of_int src) (word_of_int tag) ridx s1)"

definition utf_sendrecv :: "'w utf \<Rightarrow> int \<times> 'w utf" where
  "utf_sendrecv s = (0, s)"

text \<open>The request of a handle; the index is taken as it is.\<close>

definition rid_req :: "UTF_reqid \<Rightarrow> nat" where
  "rid_req r = nat (sint (reqid1 r))"

definition utf_test :: "'w utofu \<Rightarrow> UTF_reqid \<Rightarrow> 'w utf \<Rightarrow> (int \<times> 'w utf) outcome" where
  "utf_test U r s =
     (if sint (reqid1 r) < 0 then ret (-1, s)
      else bindO (utf_progress U s) (\<lambda>s1. ret (if r_state (req_of s1 (rid_req r)) = REQ_DONE then 0 else 1, s1)))"

partial_function (option) wait_done :: "'w utofu \<Rightarrow> nat \<Rightarrow> bool \<Rightarrow> 'w utf \<Rightarrow> 'w utf outcome" where
  "wait_done U i none s =
     (if r_state (req_of s i) \<noteq> REQ_DONE \<and> (none \<longrightarrow> r_state (req_of s i) \<noteq> REQ_NONE) then
        case utf_progress U s of
          None \<Rightarrow> None
        | Some (Inl f) \<Rightarrow> Some (Inl f)
        | Some (Inr s1) \<Rightarrow> wait_done U i none s1
      else Some (Inr s))"

definition req_release :: "nat \<Rightarrow> 'w utf \<Rightarrow> 'w utf" where
  "req_release i s = (if r_type (req_of s i) \<le> REQ_RECV_EXPECTED2 then s\<lparr>reqs := utf_recvreq_free i (reqs s)\<rparr>
     else s\<lparr>reqs := utf_sendreq_free i (reqs s)\<rparr>)"

definition utf_wait :: "'w utofu \<Rightarrow> UTF_reqid \<Rightarrow> 'w utf \<Rightarrow> (int \<times> 'w utf) outcome" where
  "utf_wait U r s =
     (let i = rid_req r
      in if sint (reqid1 r) < 0 then ret (-1, s)
         else if r_type (req_of s i) = REQ_SND_BUFFERED_EAGER then
           if r_state (req_of s i) \<noteq> REQ_DONE then ret (0, mod_req i (\<lambda>r. r\<lparr>r_reclaim := True\<rparr>) s)
           else ret (0, req_release i s)
         else bindO (wait_done U i False s) (\<lambda>s1. ret (0, req_release i s1)))"

definition utf_waitcmpl :: "'w utofu \<Rightarrow> UTF_reqid \<Rightarrow> 'w utf \<Rightarrow> (int \<times> 'w utf) outcome" where
  "utf_waitcmpl U r s =
     (let i = rid_req r
      in if sint (reqid1 r) < 0 then ret (-1, s)
         else if r_state (req_of s i) = REQ_NONE then ret (0, s)
         else bindO (wait_done U i True s) (\<lambda>s1.
           ret (0, if r_state (req_of s1 i) = REQ_DONE then req_release i s1 else s1)))"

fun req_wipe_from :: "'w utofu \<Rightarrow> nat list \<Rightarrow> 'w utf \<Rightarrow> 'w utf outcome" where
  "req_wipe_from U [] s = ret s"
| "req_wipe_from U (i # is) s =
     (if r_state (req_of s i) = REQ_NONE then req_wipe_from U is s
      else bindO (utf_waitcmpl U ((reqid_const 0)\<lparr>reqid1 := word_of_nat i\<rparr>) s) (\<lambda>(_, s1). req_wipe_from U is s1))"

definition utf_req_wipe :: "'w utofu \<Rightarrow> 'w utf \<Rightarrow> 'w utf outcome" where
  "utf_req_wipe U s = req_wipe_from U [0..<MSGREQ_SIZE] s"

section \<open>Entering messages into the ring\<close>

lemma scntr_inv_enqueue:
  assumes inv: "scntr_inv c" and st: "\<not> idle c" and k: "k = unat (s_mient c)"
    and free: "m_cntrtype (s_msginfo c ! k) = SNDCNTR_NONE"
    and m: "m_cntrtype m \<noteq> SNDCNTR_NONE" "m_sndbuf m \<noteq> None" "m_mreq m \<noteq> None"
  shows "scntr_inv (c\<lparr>s_mient := word_of_nat ((k + 1) mod 4), s_msginfo := (s_msginfo c)[k := m], s_inflight := n\<rparr>)"
    (is "scntr_inv ?c")
proof -
  note i4 = scntr_inv_4 [OF inv]
  have k4: "k < 4" using i4(3) k by simp
  have u: "unat (word_of_nat ((k + 1) mod 4) :: u8) = (k + 1) mod 4" by (simp add: unat_of_nat)
  have "k \<notin> ring_entries c" using i4(4) [OF k4] free by simp
  then have ne: "unat (s_micur c) \<noteq> k" using ring_full [OF k4 k4] ring_entries_4 [OF st, of k] k4 k by auto
  have mem: "j \<in> ring_entries ?c \<longleftrightarrow> j \<in> ring_entries c \<or> j = k" if "j < 4" for j
    using ring_insert [OF that i4(2) k4] ne ring_entries_4 [of ?c j] ring_entries_4 [OF st, of j] st that u k by simp
  have A: "m_cntrtype (s_msginfo ?c ! j) \<noteq> SNDCNTR_NONE \<longleftrightarrow> j \<in> ring_entries ?c" if "j < 4" for j
    using mem [OF that] i4(4) [OF that] i4(1) m k4 by (cases "j = k") simp_all
  have B: "m_sndbuf (s_msginfo ?c ! j) \<noteq> None \<and> m_mreq (s_msginfo ?c ! j) \<noteq> None" if "j \<in> ring_entries ?c" for j
  proof -
    have j4: "j < 4" using that by (simp add: ring_entries_def COM_SCNTR_MINF_SZ_def)
    show ?thesis using mem [OF j4] i4(5) [of j] i4(1) m that k4 by (cases "j = k") auto
  qed
  show ?thesis
    using A B st u i4(1-3) inv unfolding scntr_inv_def by (simp add: COM_SCNTR_MINF_SZ_def)
qed

lemma scntr_inv_first:
  assumes inv: "scntr_inv c" and st: "idle c" and m: "m_cntrtype m \<noteq> SNDCNTR_NONE" "m_sndbuf m \<noteq> None" "m_mreq m \<noteq> None"
    and x: "x \<noteq> S_NONE" "x \<noteq> S_FREE" "x \<noteq> S_WAIT_BUFREADY"
  shows "scntr_inv (c\<lparr>s_mient := 1, s_msginfo := (s_msginfo c)[0 := m], s_inflight := n, s_state := x\<rparr>)" (is "scntr_inv ?c")
proof -
  note i4 = scntr_inv_4 [OF inv]
  have 0: "s_micur c = 0" using inv st by (simp add: scntr_inv_def)
  have e: "ring_entries c = {}" using st by (simp add: ring_entries_def ring_len_def)
  have e': "j \<in> ring_entries ?c \<longleftrightarrow> j = 0" if "j < 4" for j
    using ring_entries_4 [of ?c j] ring_single [of j 0 1] x 0 that by simp
  have A: "m_cntrtype (s_msginfo ?c ! j) \<noteq> SNDCNTR_NONE \<longleftrightarrow> j \<in> ring_entries ?c" if "j < 4" for j
    using e' [OF that] i4(4) [OF that] i4(1) m e by (cases "j = 0") simp_all
  have B: "m_sndbuf (s_msginfo ?c ! j) \<noteq> None \<and> m_mreq (s_msginfo ?c ! j) \<noteq> None" if "j \<in> ring_entries ?c" for j
  proof -
    have "j < 4" using that by (simp add: ring_entries_def COM_SCNTR_MINF_SZ_def)
    with e' [OF this] i4(1) m that show ?thesis by simp
  qed
  show ?thesis using A B 0 x i4(1) unfolding scntr_inv_def by (simp add: COM_SCNTR_MINF_SZ_def)
qed

lemma bindO_retE: "bindO m k = ret y \<Longrightarrow> (\<And>x. m = ret x \<Longrightarrow> k x = ret y \<Longrightarrow> P) \<Longrightarrow> P"
  by (auto simp: bindO_eq_ret)

lemma minfo_setup_entry:
  assumes run: "minfo_setup U u k rank tag sz a b i s = ret s1" and k: "k < length (s_msginfo (scntr s u))"
  shows "\<exists>m. scntr s1 u = (scntr s u)\<lparr>s_msginfo := (s_msginfo (scntr s u))[k := m]\<rparr> \<and> m_cntrtype m \<noteq> SNDCNTR_NONE
    \<and> m_sndbuf m = Some b \<and> m_mreq m = Some i \<and> (\<forall>v. v \<noteq> u \<longrightarrow> scntr s1 v = scntr s v) \<and> egrmgt_tab s1 = egrmgt_tab s"
proof -
  define s3 where "s3 = mod_req i clear_allflgs (mod_sbuf b (\<lambda>p. p\<lparr>hdr := msg_hdr (word_of_int rank) tag sz\<rparr>)
    (mod_minfo u k (\<lambda>m. m\<lparr>m_msghdr := (msg_hdr (word_of_int (i_myrank (info s))) tag sz)\<lparr>h_sidx := ucast (s_mypos (scntr s u))\<rparr>,
                 m_mreq := Some i, m_scntr := Some u\<rparr>) s))"
  have s3: "\<exists>m. scntr s3 u = (scntr s u)\<lparr>s_msginfo := (s_msginfo (scntr s u))[k := m]\<rparr> \<and> m_mreq m = Some i"
    "\<And>v. v \<noteq> u \<Longrightarrow> scntr s3 v = scntr s v" "egrmgt_tab s3 = egrmgt_tab s"
    unfolding s3_def by auto
  define new where "new = (\<lambda>s4 :: 'a utf. \<exists>m. scntr s4 u = (scntr s3 u)\<lparr>s_msginfo := (s_msginfo (scntr s3 u))[k := m]\<rparr> \<and> m_cntrtype m \<noteq> SNDCNTR_NONE
      \<and> m_mreq m = m_mreq (s_msginfo (scntr s3 u) ! k) \<and> (\<forall>v. v \<noteq> u \<longrightarrow> scntr s4 v = scntr s3 v) \<and> egrmgt_tab s4 = egrmgt_tab s3)"
  have one: "new (mod_req i g (mod_sbuf b h (mod_minfo u k f t)))"
    if "scntr t = scntr s3" "egrmgt_tab t = egrmgt_tab s3" "\<And>m. m_cntrtype (f m) \<noteq> SNDCNTR_NONE" "\<And>m. m_mreq (f m) = m_mreq m"
    for g h f and t :: "'a utf"
    unfolding new_def using that by (intro exI [of _ "f (s_msginfo (scntr s3 u) ! k)"]) simp
  obtain s4 where "new s4"
    and fin: "s1 = mod_req i (\<lambda>r. r\<lparr>r_hdr := m_msghdr (s_msginfo (scntr s4 u) ! k), r_state := REQ_PRG_NORMAL\<rparr>)
                    (mod_minfo u k (\<lambda>m. m\<lparr>m_sndbuf := Some b\<rparr>) s4)"
  proof (rule bindO_retE [OF run [unfolded minfo_setup_def Let_def, folded s3_def]], goal_cases)
    case (1 s4)
    from 1(2) have "new s4" by (auto simp: bindO_eq_ret split: if_splits intro!: one)
    with 1(1,3) show ?case by simp
  qed
  from \<open>new s4\<close> [unfolded new_def] obtain m' where s4: "scntr s4 u = (scntr s3 u)\<lparr>s_msginfo := (s_msginfo (scntr s3 u))[k := m']\<rparr>" "m_cntrtype m' \<noteq> SNDCNTR_NONE"
    "m_mreq m' = m_mreq (s_msginfo (scntr s3 u) ! k)" "\<And>v. v \<noteq> u \<Longrightarrow> scntr s4 v = scntr s3 v" "egrmgt_tab s4 = egrmgt_tab s3" by blast
  from s3(1) obtain m where m: "scntr s3 u = (scntr s u)\<lparr>s_msginfo := (s_msginfo (scntr s u))[k := m]\<rparr>" "m_mreq m = Some i" by blast
  show ?thesis
    by (rule exI [of _ "m'\<lparr>m_sndbuf := Some b\<rparr>"]) (use s3 s4 m k in \<open>simp add: fin\<close>)
qed

lemma sendengine_prep_ring:
  "utf_sendengine_prep U u s = ret s' \<Longrightarrow> (\<And>v. scntr_inv (scntr s v)) \<Longrightarrow> scntr_inv (scntr s' w)"
  unfolding utf_sendengine_prep_def
  by (erule bindO_retE) (auto simp: ret_def crash_def intro: sendengine_loop_ring split: if_splits)

lemma send_start_ring:
  assumes run: "utf_send_start U u k s = ret (rc, s')"
    and ready: "utf_sndmgt_isset_examed (unat (s_dst (scntr s u))) (egrmgt_tab s) \<Longrightarrow> utf_sndmgt_isset_sndok (unat (s_dst (scntr s u))) (egrmgt_tab s)"
    and k: "k = unat (s_micur (scntr s u))" "k < length (s_msginfo (scntr s u))"
    and inv: "\<And>x. x = S_HAS_ROOM \<or> x = S_REQ_ROOM \<Longrightarrow> scntr_inv ((scntr s u)\<lparr>s_state := x\<rparr>)"
    and others: "\<And>v. v \<noteq> u \<Longrightarrow> scntr_inv (scntr s v)"
  shows "scntr_inv (scntr s' v)"
proof -
  let ?d = "unat (s_dst (scntr s u))"
  let ?t = "mod_scntr u (\<lambda>c. c\<lparr>s_state := S_HAS_ROOM\<rparr>) s"
  show ?thesis
  proof (cases "utf_sndmgt_isset_sndok ?d (egrmgt_tab s)")
    case True
    then obtain nu s1 where e: "utf_sendengine U u k 0 ?t = ret (nu, s1)"
      and fin: "case nu of None \<Rightarrow> s' = s1 | Some u' \<Rightarrow> utf_sendengine_prep U u' s1 = ret s'"
      using run by (auto simp: utf_send_start_def bindO_eq_ret split: option.splits)
    have it: "scntr_inv (scntr ?t u)" using inv by simp
    have "sendengine_cur U u 0 ?t = ret (nu, s1)" using e k by (simp add: sendengine_cur_def arr_def)
    from sendengine_ring [OF it this] have "scntr_inv (scntr s1 w)" for w using others by (cases "w = u") auto
    with fin sendengine_prep_ring [where w = v] show ?thesis by (cases nu) auto
  next
    case False
    then have ne: "\<not> utf_sndmgt_isset_examed ?d (egrmgt_tab s)" using ready by blast
    obtain w where "s' = (let s1 = mod_scntr u (\<lambda>c. c\<lparr>s_state := S_REQ_ROOM\<rparr>) (s\<lparr>world := w\<rparr>)
             in s1\<lparr>egrmgt_tab := utf_sndmgt_set_examed ?d (egrmgt_tab s1)\<rparr>)"
      using run False ne by (auto simp: utf_send_start_def bindO_eq_ret Let_def)
    then show ?thesis using inv others by (cases "v = u") (auto simp: Let_def)
  qed
qed

lemma sbuf_alloc_scntr: "utf_egr_sbuf_alloc s = ret (r, s') \<Longrightarrow> scntr s' = scntr s \<and> egrmgt_tab s' = egrmgt_tab s"
  unfolding utf_egr_sbuf_alloc_def bindO_eq_ret
  by (elim exE conjE, simp only: Let_def split: prod.splits option.splits) auto

text \<open>The buffer of the entry: its old one, or a new one from the pool.\<close>

lemma send_buffer:
  assumes "(case m_sndbuf (s_msginfo (scntr s1 u) ! k) of
                  None \<Rightarrow> bindO (utf_egr_sbuf_alloc s1) (\<lambda>(r, s2).
                    case r of None \<Rightarrow> ret (None, s2)
                    | Some (b, st) \<Rightarrow> ret (Some b, mod_minfo u k (\<lambda>m. m\<lparr>m_sndstadd := st\<rparr>) s2))
                | Some b \<Rightarrow> ret (Some b, s1)) = ret (Some b, s2)"
  shows "\<exists>m. scntr s2 u = (scntr s1 u)\<lparr>s_msginfo := (s_msginfo (scntr s1 u))[k := m]\<rparr>" "v \<noteq> u \<Longrightarrow> scntr s2 v = scntr s1 v"
    "egrmgt_tab s2 = egrmgt_tab s1"
  using assms by (auto simp: bindO_eq_ret dest!: sbuf_alloc_scntr split: option.splits intro: exI [of _ "s_msginfo (scntr s1 u) ! k"])
    (rule exI, rule refl)

lemma send_enqueue_ring:
  assumes run: "send_enqueue U u i buf sz dst tag ridx s = ret (0, rid, s')"
    and inv: "\<And>v. scntr_inv (scntr s v)" and al: "s_state (scntr s u) \<noteq> S_FREE"
    and free: "m_cntrtype (s_msginfo (scntr s u) ! unat (s_mient (scntr s u))) = SNDCNTR_NONE"
    and ready: "s_state (scntr s u) = S_NONE \<Longrightarrow> utf_sndmgt_isset_examed (unat (s_dst (scntr s u))) (egrmgt_tab s)
      \<Longrightarrow> utf_sndmgt_isset_sndok (unat (s_dst (scntr s u))) (egrmgt_tab s)"
  shows "scntr_inv (scntr s' v)"
proof -
  let ?c = "scntr s u" and ?k = "unat (s_mient (scntr s u))"
  let ?s1 = "mod_scntr u (\<lambda>c. c\<lparr>s_mient := word_of_nat ((unat (s_mient c) + 1) mod COM_SCNTR_MINF_SZ)\<rparr>) s"
  obtain b s2 s3 where b: "(case m_sndbuf (s_msginfo (scntr ?s1 u) ! ?k) of
                  None \<Rightarrow> bindO (utf_egr_sbuf_alloc ?s1) (\<lambda>(r, s2).
                    case r of None \<Rightarrow> ret (None, s2)
                    | Some (b, st) \<Rightarrow> ret (Some b, mod_minfo u ?k (\<lambda>m. m\<lparr>m_sndstadd := st\<rparr>) s2))
                | Some b \<Rightarrow> ret (Some b, ?s1)) = ret (Some b, s2)"
    and ms: "minfo_setup U u ?k (i_myrank (info s2)) tag sz buf b i s2 = ret s3"
    and fin: "(let s4 = mod_scntr u (\<lambda>c. c\<lparr>s_inflight := s_inflight c + 1\<rparr>) s3
      in if s_state (scntr s4 u) = S_NONE then bindO (utf_send_start U u ?k s4) (\<lambda>(_, s5). ret (0 :: int, ridx\<lparr>reqid1 := word_of_nat i\<rparr>, s5))
         else ret (0, ridx\<lparr>reqid1 := word_of_nat i\<rparr>, s4)) = ret (0, rid, s')"
    using run unfolding send_enqueue_def Let_def
    by (elim bindO_retE) (auto simp: bindO_eq_ret UTF_ERR_NOMORE_SNDBUF_def split: option.splits)
  note s2 = send_buffer [OF b]
  have k4: "?k < 4" "length (s_msginfo ?c) = 4" using scntr_inv_4 [OF inv, of u] by simp_all
  obtain m0 where m0: "scntr s2 u = ?c\<lparr>s_mient := word_of_nat ((?k + 1) mod 4), s_msginfo := (s_msginfo ?c)[?k := m0]\<rparr>"
    using s2(1) by (auto simp: COM_SCNTR_MINF_SZ_def)
  from minfo_setup_entry [OF ms] k4 m0 obtain m where
    m: "scntr s3 u = (scntr s2 u)\<lparr>s_msginfo := (s_msginfo (scntr s2 u))[?k := m]\<rparr>" "m_cntrtype m \<noteq> SNDCNTR_NONE"
      "m_sndbuf m \<noteq> None" "m_mreq m \<noteq> None" and o3: "\<And>v. v \<noteq> u \<Longrightarrow> scntr s3 v = scntr s2 v" and tab: "egrmgt_tab s3 = egrmgt_tab s2"
    by auto
  let ?s4 = "mod_scntr u (\<lambda>c. c\<lparr>s_inflight := s_inflight c + 1\<rparr>) s3"
  have c4: "scntr ?s4 u = ?c\<lparr>s_mient := word_of_nat ((?k + 1) mod 4), s_msginfo := (s_msginfo ?c)[?k := m], s_inflight := s_inflight ?c + 1\<rparr>"
    by (simp add: m(1) m0)
  have o4: "scntr_inv (scntr ?s4 v)" if "v \<noteq> u" for v using o3 s2(2) inv that by simp
  show ?thesis
  proof (cases "s_state ?c = S_NONE")
    case False
    then have "\<not> idle ?c" using al by (simp add: idle_def)
    from scntr_inv_enqueue [OF inv this refl free m(2-4)] have "scntr_inv (scntr ?s4 u)" unfolding c4 .
    moreover have "s' = ?s4" using fin False by (simp add: m(1) m0 Let_def)
    ultimately show ?thesis using o4 by (cases "v = u") auto
  next
    case True
    then have id: "idle ?c" by (simp add: idle_def)
    then have 0: "s_micur ?c = 0" "s_mient ?c = 0" using inv [of u] by (simp_all add: scntr_inv_def)
    then have k0: "?k = 0" by simp
    obtain rc where st: "utf_send_start U u ?k ?s4 = ret (rc, s')" using fin True by (auto simp: m(1) m0 bindO_eq_ret Let_def)
    have i4: "scntr_inv ((scntr ?s4 u)\<lparr>s_state := x\<rparr>)" if "x = S_HAS_ROOM \<or> x = S_REQ_ROOM" for x
      using scntr_inv_first [OF inv id m(2-4), of x "s_inflight ?c + 1"] that unfolding c4 k0 by auto
    have mi: "?k = unat (s_micur (scntr ?s4 u))" "?k < length (s_msginfo (scntr ?s4 u))" using k4 0 unfolding c4 by simp_all
    have rd: "utf_sndmgt_isset_examed (unat (s_dst (scntr ?s4 u))) (egrmgt_tab ?s4) \<Longrightarrow> utf_sndmgt_isset_sndok (unat (s_dst (scntr ?s4 u))) (egrmgt_tab ?s4)"
      unfolding c4 using ready [OF True] tab s2(3) by simp
    show ?thesis by (rule send_start_ring [OF st rd mi i4 o4])
  qed
qed

section \<open>What the receive engine leaves alone\<close>

text \<open>The slots and the read positions are only moved by the progress loop.\<close>

definition slots_same :: "'w utf \<Rightarrow> 'w utf \<Rightarrow> bool" where
  "slots_same s s' \<longleftrightarrow> rbuf s' = rbuf s \<and> (\<forall>k. u_recvidx (rcntr s' k) = u_recvidx (rcntr s k)) \<and> info s' = info s"

lemma slots_same_refl [simp]: "slots_same s s"
  by (simp add: slots_same_def)

lemma slots_same_trans: "slots_same s s1 \<Longrightarrow> slots_same s1 s2 \<Longrightarrow> slots_same s s2"
  by (simp add: slots_same_def)

lemma slots_same_right [simp]:
  "slots_same t (mod_req i f s) = slots_same t s" "slots_same t (s\<lparr>reqs := rp\<rparr>) = slots_same t s"
  "slots_same t (s\<lparr>queues := q\<rparr>) = slots_same t s" "slots_same t (s\<lparr>world := w\<rparr>) = slots_same t s"
  "slots_same t (s\<lparr>mem := m\<rparr>) = slots_same t s" "slots_same t (s\<lparr>next_blk := n\<rparr>) = slots_same t s"
  "slots_same t (run_notify U i s) = slots_same t s"
  by (auto simp: slots_same_def run_notify_def mod_req_def split: option.splits)

lemma slots_same_left [simp]:
  "slots_same (mod_req i f s) t = slots_same s t" "slots_same (s\<lparr>reqs := rp\<rparr>) t = slots_same s t"
  "slots_same (s\<lparr>queues := q\<rparr>) t = slots_same s t" "slots_same (s\<lparr>world := w\<rparr>) t = slots_same s t"
  "slots_same (s\<lparr>mem := m\<rparr>) t = slots_same s t" "slots_same (s\<lparr>next_blk := n\<rparr>) t = slots_same s t"
  by (auto simp: slots_same_def mod_req_def)

lemma slots_same_rcntr [simp]:
  "(\<And>u. u_recvidx (f u) = u_recvidx u) \<Longrightarrow> slots_same t (mod_rcntr j f s) = slots_same t s"
  by (auto simp: slots_same_def mod_rcntr_def)

lemma store_slots: "store a bs s = ret s' \<Longrightarrow> slots_same s s'"
  by (auto simp: store_def slots_same_def split: if_splits option.splits)

lemma store_ptr_slots: "store_ptr a off bs s = ret s' \<Longrightarrow> slots_same s s'"
  by (auto simp: store_ptr_def dest: store_slots split: if_splits option.splits)

lemma copy_iov_slots: "copy_iov_loop n vs off bs s = ret s' \<Longrightarrow> slots_same s s'"
  by (induction n vs off bs s rule: copy_iov_loop.induct)
    (auto simp: Let_def bindO_eq_ret split: if_splits list.splits dest!: store_slots intro: slots_same_trans)

lemma fi_copy_slots: "fi_copy i bs s = ret s' \<Longrightarrow> slots_same s s'"
  by (auto simp: fi_copy_def utf_copy_to_iov_def Let_def dest: store_ptr_slots store_slots copy_iov_slots split: if_splits list.splits)

lemma eager_copy_slots: "eager_copy i pkt s = ret s' \<Longrightarrow> slots_same s s'"
  by (auto simp: eager_copy_def Let_def bindO_eq_ret dest!: store_ptr_slots fi_copy_slots split: if_splits)

lemma eager_check_slots: "eager_copy_and_check j i pkt s = ret (st, s') \<Longrightarrow> slots_same s s'"
  unfolding eager_copy_and_check_def by (elim bindO_retE) (auto simp: Let_def dest!: eager_copy_slots)

lemma get_slots: "get_s U v l r n e s = ret s' \<Longrightarrow> slots_same s s'"
  by (auto simp: get_s_def bindO_eq_ret)

lemma rget_loop_slots: "rget_start_loop n U i k off s = ret s' \<Longrightarrow> slots_same s s'"
proof (induction n arbitrary: k off s)
  case (Suc n)
  from Suc.prems show ?case
    by (auto simp: arr_def bindO_eq_ret Let_def dest!: get_slots Suc.IH split: if_splits intro: slots_same_trans)
qed simp

lemma rget_start_slots: "rget_start U i s = ret s' \<Longrightarrow> slots_same s s'"
  unfolding rget_start_def Let_def
  by (elim bindO_retE) (auto simp: bindO_eq_ret dest!: get_slots rget_loop_slots split: if_splits)

lemma recv_done_slots [simp]: "slots_same t (recv_done U j i s) = slots_same t s"
  by (simp add: recv_done_def Let_def)

lemma recvengine_slots:
  assumes "utf_recvengine U j pkt s = ret (rc, s')"
  shows "slots_same s s'"
proof -
  have e: "slots_same t t'" if "recv_expected U j pkt i t = ret (rc, t')" for t t' i
    using that unfolding recv_expected_def Let_def
    by (auto simp: bindO_eq_ret dest!: rget_start_slots eager_check_slots split: if_splits)
  have u: "slots_same t t'" if "recv_unexpected U j pkt i t = ret (rc, t')" for t t' i
    using that unfolding recv_unexpected_def Let_def
    by (auto simp: bindO_eq_ret utf_malloc_def dest!: eager_check_slots split: if_splits)
  show ?thesis
    using assms unfolding utf_recvengine_def Let_def
    by (auto simp: bindO_eq_ret dest!: e u eager_check_slots split: rstate.splits if_splits option.splits)
qed

section \<open>The slots are read in order\<close>

text \<open>Receiving the packets \<open>ps\<close> from consecutive slots, each slot cleared after it is read.\<close>

fun recv_slots :: "'w utofu \<Rightarrow> nat \<Rightarrow> utf_packet list \<Rightarrow> 'w utf \<Rightarrow> 'w utf outcome" where
  "recv_slots U j [] s = ret s"
| "recv_slots U j (p # ps) s = bindO (utf_recvengine U j p s) (\<lambda>(rc, s1).
     if rc < 0 then crash Aborted
     else recv_slots U j ps (mod_rcntr j (\<lambda>u. u\<lparr>u_recvidx := u_recvidx u + 1\<rparr>) (clear_slot (slot_of s j) s1)))"

lemma clear_slot_sel [simp]:
  "rcntr (clear_slot k s) = rcntr s" "rbuf (clear_slot k s) k' = (if k' = k then (rbuf s k)\<lparr>hdr := set_hall (-1) (hdr (rbuf s k))\<rparr> else rbuf s k')"
  by (simp_all add: clear_slot_def)

lemma drain_slots:
  assumes "recv_slots U j ps s = ret s'" and "unat (u_recvidx (rcntr s j)) = r" and "r + length ps < COM_RBUF_SIZE"
    and "\<And>t. t < length ps \<Longrightarrow> rbuf s (utf_recvbuf_get j + r + t) = ps ! t \<and> h_marker (hdr (ps ! t)) = MSG_MARKER"
    and "h_marker (hdr (rbuf s (utf_recvbuf_get j + r + length ps))) \<noteq> MSG_MARKER"
  shows "drain U j a s = ret (a \<or> ps \<noteq> [], s') \<and> unat (u_recvidx (rcntr s' j)) = r + length ps
    \<and> (\<forall>k. rbuf s' k = (if utf_recvbuf_get j + r \<le> k \<and> k < utf_recvbuf_get j + r + length ps
                        then (rbuf s k)\<lparr>hdr := set_hall (-1) (hdr (rbuf s k))\<rparr> else rbuf s k))"
  using assms
proof (induction ps arbitrary: s r a)
  case Nil
  then show ?case by (auto simp: drain.simps slot_of_def Let_def ret_def)
next
  case (Cons p ps)
  let ?k = "utf_recvbuf_get j + r"
  have k: "slot_of s j = ?k" using Cons.prems(2) by (simp add: slot_of_def)
  have p: "rbuf s ?k = p" "h_marker (hdr p) = MSG_MARKER" using Cons.prems(4) [of 0] by simp_all
  from Cons.prems(1) obtain rc s1 where e: "utf_recvengine U j p s = ret (rc, s1)" "\<not> rc < 0"
    and rest: "recv_slots U j ps (mod_rcntr j (\<lambda>u. u\<lparr>u_recvidx := u_recvidx u + 1\<rparr>) (clear_slot ?k s1)) = ret s'"
    by (auto simp: bindO_eq_ret k split: if_splits)
  let ?s2 = "mod_rcntr j (\<lambda>u. u\<lparr>u_recvidx := u_recvidx u + 1\<rparr>) (clear_slot ?k s1)"
  have same: "rbuf s1 = rbuf s" "u_recvidx (rcntr s1 j) = u_recvidx (rcntr s j)"
    using recvengine_slots [OF e(1)] by (simp_all add: slots_same_def)
  have r2: "unat (u_recvidx (rcntr ?s2 j)) = Suc r"
    using Cons.prems(2,3) same by (simp add: unat_word_ariths COM_RBUF_SIZE_def)
  have d: "drain U j a s = drain U j True ?s2"
    using p e r2 Cons.prems(3) k by (subst drain.simps) (simp add: Let_def ret_def)
  have "drain U j True ?s2 = ret (True \<or> ps \<noteq> [], s') \<and> unat (u_recvidx (rcntr s' j)) = Suc r + length ps
    \<and> (\<forall>k. rbuf s' k = (if utf_recvbuf_get j + Suc r \<le> k \<and> k < utf_recvbuf_get j + Suc r + length ps
                        then (rbuf ?s2 k)\<lparr>hdr := set_hall (-1) (hdr (rbuf ?s2 k))\<rparr> else rbuf ?s2 k))"
    by (rule Cons.IH [OF rest r2]) (use Cons.prems(3,5) Cons.prems(4) [of "Suc t" for t] same in auto)
  with d same show ?case by auto
qed

section \<open>Receiving a message that has arrived\<close>

lemma int_size_small: "unat x < 2 ^ 31 \<Longrightarrow> int_size x = unat x"
proof -
  assume x: "unat x < 2 ^ 31"
  then have u: "unat (ucast x :: u32) = unat x" by (simp add: unsigned_ucast_eq take_bit_nat_eq_self)
  have "uint (ucast x :: u32) = int (unat x)" unfolding u [symmetric] by simp
  moreover have "int (unat x) < int (2 ^ 31)" using x by (simp only: of_nat_less_iff)
  ultimately have "sint (ucast x :: u32) = int (unat x)" unfolding sint_uint using signed_take_bit_int_eq_self [of 31 "uint x"] uint_ge_0 [of x] by simp
  then have "(scast (ucast x :: u32) :: u64) = word_of_int (int (unat x))" by (simp add: scast_eq)
  then show ?thesis by (simp add: int_size_def)
qed

lemma utf_recv_takes:
  assumes q: "msgq_inv (queues s) Q" "Q Utf_uexplst = xs @ m # ys"
    and arg: "word_of_int src = (-1 :: u32) \<or> word_of_int tag \<noteq> (-1 :: u32)"
    and no: "\<And>x. x \<in> set xs \<Longrightarrow> \<not> utf_wanted (word_of_int src) (word_of_int tag) (ml_hdr (msl (queues s) x))"
    and yes: "utf_wanted (word_of_int src) (word_of_int tag) (ml_hdr (msl (queues s) m))"
    and i: "sint (reqidx (msl (queues s) m)) = int i"
    and r: "r_rndz (req_of s i) = 0" "r_state (req_of s i) = REQ_DONE" "r_buf (req_of s i) = Some (b, 0)"
      "mem s b = Some msg" "unat (h_size (r_hdr (req_of s i))) = length msg"
    and n: "n = min (unat sz) (length msg)" "n < 2 ^ 31"
    and buf: "mem s ub = Some m0" "uo + n \<le> length m0" "ub \<noteq> b"
  shows "\<exists>s'. utf_recv U (ub, uo) sz src tag ridx s = ret (UTF_MSG_AVL, (reqid_const 0)\<lparr>reqid1 := word_of_nat i\<rparr>, s')
    \<and> mem s' = (mem s)(ub := Some (overwrite m0 uo (take n msg)), b := None) \<and> r_state (req_of s' i) = REQ_DONE
    \<and> msgq_inv (queues s') (Q(Utf_uexplst := xs @ ys, Utf_msglst_freelst := m # Q Utf_msglst_freelst))"
proof -
  have "match_spec (\<lambda>m. utf_wanted (word_of_int src) (word_of_int tag) (ml_hdr m)) (msl (queues s)) (Q Utf_uexplst) = (int i, xs @ ys, [m])"
    unfolding q(2) i [symmetric] by (rule match_spec_first) (use no yes in auto)
  from match_loop_spec [OF q(1) _ this] obtain q' where
    e: "utf_uexplst_match (word_of_int src) (word_of_int tag) False (queues s) = ret (int i, q')"
    and qi: "msgq_inv q' (Q(Utf_uexplst := xs @ ys, Utf_msglst_freelst := m # Q Utf_msglst_freelst))"
    using utf_uexplst_match_loop [OF q(1) arg] by auto
  let ?h = "ucast (h_size (r_hdr (req_of s i))) :: u64"
  have uh: "unat ?h = length msg" using r(5) by (simp add: unat_ucast_up)
  have "unat (if sz < ?h then sz else ?h) = n" using uh n(1) by (simp add: word_less_nat_alt min_def)
  then have cp: "int_size (if sz < ?h then sz else ?h) = n" using int_size_small n(2) by metis
  have ld: "load (b, 0) n (s\<lparr>queues := q'\<rparr>) = ret (take n msg)"
    using load_ok [of "s\<lparr>queues := q'\<rparr>" b msg 0 n] r(4) n(1) by (simp add: bytes_at_def)
  have st: "store (ub, uo) (take n msg) (s\<lparr>queues := q'\<rparr>)
      = ret (s\<lparr>queues := q', mem := (mem s)(ub \<mapsto> overwrite m0 uo (take n msg))\<rparr>)"
    using store_ok [of "s\<lparr>queues := q'\<rparr>" ub m0 uo "take n msg"] buf n(1) by simp
  show ?thesis
    using e r cp ld st qi by (simp add: utf_recv_def recv_matched_def utf_free_def Let_def)
qed

section \<open>Statements about progress\<close>

text \<open>C34: the progress loop reads a receive buffer in slot order: when the next \<open>length ps\<close> slots of
  entry \<open>j\<close> hold the packets \<open>ps\<close> and the slot behind them is empty, the loop hands exactly
  these packets to the receive engine, in order, clears exactly their slots, advances the
  read position behind them and stops, reporting whether anything arrived.\<close>

theorem drain_in_order:
  assumes "recv_slots U j ps s = ret s'" and "unat (u_recvidx (rcntr s j)) = r" and "r + length ps < COM_RBUF_SIZE"
    and "\<And>t. t < length ps \<Longrightarrow> rbuf s (utf_recvbuf_get j + r + t) = ps ! t \<and> h_marker (hdr (ps ! t)) = MSG_MARKER"
    and "h_marker (hdr (rbuf s (utf_recvbuf_get j + r + length ps))) \<noteq> MSG_MARKER"
  shows "drain U j a s = ret (a \<or> ps \<noteq> [], s') \<and> unat (u_recvidx (rcntr s' j)) = r + length ps
    \<and> (\<forall>k. rbuf s' k = (if utf_recvbuf_get j + r \<le> k \<and> k < utf_recvbuf_get j + r + length ps
                        then (rbuf s k)\<lparr>hdr := set_hall (-1) (hdr (rbuf s k))\<rparr> else rbuf s k))"
  by (rule drain_slots [OF assms])

text \<open>A receive buffer with one packet, and no request object left.\<close>

definition demo_full :: "simw utf" where
  "demo_full = (utf_static 0 2 5 7 [7, 8] sim0)\<lparr>rbuf := (\<lambda>k. if k = 128000 then demo_pkt [1, 2] 2 else ones_pkt),
     queues := msglst_init msgq_static,
     rcntr := (\<lambda>_. \<lparr>u_recvidx = 0, u_req = None, u_svcqid = 0, u_flags = {}, u_state = R_NONE, u_mypos = 0\<rparr>),
     reqs := (reqs (utf_static 0 2 5 7 [7, 8] sim0))\<lparr>rreq_count := 257\<rparr>\<rparr>"

lemma ones_marker: "h_marker (hdr ones_pkt) \<noteq> MSG_MARKER"
  by (simp add: ones_pkt_def MSG_MARKER_def)

lemma demo_full_queues: "msgq_inv (queues demo_full) ((\<lambda>_. [])(Utf_msglst_freelst := [0..<MSGLST_SIZE]))"
  by (simp add: demo_full_def msglst_init_inv)

lemma demo_full_engine: "utf_recvengine sim_nic 125 (demo_pkt [1, 2] 2) demo_full = ret (1, demo_full)"
  using utfgen_explst_no_match [OF demo_full_queues, of 0 "hdr (demo_pkt [1, 2] 2)"]
  by (simp add: utf_recvengine_def exp_list_def, simp add: demo_full_def utf_recvreq_alloc_def MSGREQ_RECV_SZ_def)

lemma demo_full_marker: "h_marker (hdr (demo_pkt bs n)) = MSG_MARKER"
  by (simp add: demo_pkt_def zero_hdr_def MSG_MARKER_def)

theorem drain_in_order_witness:
  "\<exists>s'. drain sim_nic 125 False demo_full = ret (True, s') \<and> unat (u_recvidx (rcntr s' 125)) = 1 \<and> rbuf s' 128001 = ones_pkt"
proof -
  let ?s' = "mod_rcntr 125 (\<lambda>u. u\<lparr>u_recvidx := u_recvidx u + 1\<rparr>) (clear_slot 128000 demo_full)"
  have r: "recv_slots sim_nic 125 [demo_pkt [1, 2] 2] demo_full = ret ?s'"
    by (simp add: demo_full_engine slot_of_def utf_recvbuf_get_def COM_RBUF_SIZE_def, simp add: demo_full_def)
  have "drain sim_nic 125 False demo_full = ret (False \<or> [demo_pkt [1, 2] 2] \<noteq> [], ?s') \<and> unat (u_recvidx (rcntr ?s' 125)) = 0 + length [demo_pkt [1, 2] 2]
    \<and> (\<forall>k. rbuf ?s' k = (if utf_recvbuf_get 125 + 0 \<le> k \<and> k < utf_recvbuf_get 125 + 0 + length [demo_pkt [1, 2] 2]
                        then (rbuf demo_full k)\<lparr>hdr := set_hall (-1) (hdr (rbuf demo_full k))\<rparr> else rbuf demo_full k))"
    by (rule drain_in_order [OF r])
      (simp_all add: demo_full_def utf_recvbuf_get_def COM_RBUF_SIZE_def demo_full_marker ones_marker)
  then show ?thesis by (auto simp: demo_full_def utf_recvbuf_get_def COM_RBUF_SIZE_def)
qed

text \<open>A packet for which the receive engine finds no request object is lost: the engine asks
  for it to be kept by returning 1, but the progress loop only looks at negative results,
  clears the slot and moves on, with no request, queue entry or memory changed.\<close>

theorem packet_without_request_lost:
  assumes st: "u_state (rcntr s j) = R_NONE" and k: "k = slot_of s j" and mk: "h_marker (hdr (rbuf s k)) = MSG_MARKER"
    and q: "msgq_inv (queues s) Q" and no: "\<forall>x \<in> set (Q (exp_list flgs)). \<not> exp_test flgs (hdr (rbuf s k)) (msl (queues s) x)"
    and flgs: "h_flgs (hdr (rbuf s k)) = flgs" and full: "rreq_count (reqs s) > int MSGREQ_RECV_SZ"
    and r: "unat (u_recvidx (rcntr s j)) + 1 < COM_RBUF_SIZE" and nx: "h_marker (hdr (rbuf s (k + 1))) \<noteq> MSG_MARKER"
  shows "utf_recvengine U j (rbuf s k) s = ret (1, s)
    \<and> (\<exists>s'. drain U j a s = ret (True, s') \<and> rbuf s' k = (rbuf s k)\<lparr>hdr := set_hall (-1) (hdr (rbuf s k))\<rparr>
        \<and> queues s' = queues s \<and> reqs s' = reqs s \<and> mem s' = mem s)"
proof -
  have e: "utf_recvengine U j (rbuf s k) s = ret (1, s)"
    using st utfgen_explst_no_match [OF q no] full flgs by (simp add: utf_recvengine_def utf_recvreq_alloc_def)
  let ?s' = "mod_rcntr j (\<lambda>u. u\<lparr>u_recvidx := u_recvidx u + 1\<rparr>) (clear_slot k s)"
  have "recv_slots U j [rbuf s k] s = ret ?s'" using e k by simp
  from drain_slots [OF this refl, of a] mk r nx k
  have "drain U j a s = ret (True, ?s')" by (simp add: slot_of_def)
  with e show ?thesis by (simp add: clear_slot_def)
qed

theorem packet_without_request_lost_witness:
  "\<exists>s'. drain sim_nic 125 False demo_full = ret (True, s')
     \<and> rbuf s' 128000 = (demo_pkt [1, 2] 2)\<lparr>hdr := set_hall (-1) (hdr (demo_pkt [1, 2] 2))\<rparr> \<and> mem s' = mem demo_full"
proof -
  have "utf_recvengine sim_nic 125 (rbuf demo_full 128000) demo_full = ret (1, demo_full)
    \<and> (\<exists>s'. drain sim_nic 125 False demo_full = ret (True, s')
        \<and> rbuf s' 128000 = (rbuf demo_full 128000)\<lparr>hdr := set_hall (-1) (hdr (rbuf demo_full 128000))\<rparr>
        \<and> queues s' = queues demo_full \<and> reqs s' = reqs demo_full \<and> mem s' = mem demo_full)"
    by (rule packet_without_request_lost [OF _ _ _ demo_full_queues, of _ _ 0])
      (simp_all add: exp_list_def, simp_all add: demo_full_def slot_of_def utf_recvbuf_get_def COM_RBUF_SIZE_def demo_full_marker ones_marker MSGREQ_RECV_SZ_def)
  then show ?thesis by (auto simp: demo_full_def)
qed

text \<open>C35: the flow-control address round trip: the address a receiver computes from the sender's index
  to give back its slots is recognised by the sender as the reset of that entry, and a
  waiting entry is resumed, in the state it was interrupted in and with slot 0 as the
  next one.\<close>

theorem recv_reset_resumes:
  assumes range: "unat (sndctr_stadd (info s)) + SIZEOF_SEND_CNTR * SND_CNTRL_MAX < 2 ^ 64"
    and fin: "sndctr_stadd_end (info s) = sndctr_stadd (info s) + word_of_nat (SIZEOF_SEND_CNTR * SND_CNTRL_MAX)"
    and u: "u < SND_CNTRL_MAX" and wt: "s_state (scntr s u) = S_WAIT_BUFREADY"
    and n: "notice_type n = MRQ_TYPE_RMT_ARMW" "n_edata n = word_of_nat u"
      "n_rmt_value n = SCNTR_ADDR_CNTR_FIELD s (word_of_nat u) + SCNTR_RST_RECVRESET_OFFST"
  shows "is_scntr (n_rmt_value n) s = ret (Some EVT_RMT_RECVRST)
    \<and> mrq_event U n s = notice_sendengine U u (n_rmt_value n)
        (mod_scntr u (\<lambda>c. c\<lparr>s_rcvreset := 0, s_recvidx := 0, s_state := s_ostate c\<rparr>) s)"
proof -
  let ?b = "sndctr_stadd (info s)" and ?v = "n_rmt_value n"
  have B: "unat ?b + 1760 * 128 < 2 ^ 64" "u < 128" using range u by (simp_all add: SIZEOF_SEND_CNTR_def SND_CNTRL_MAX_def)
  have v: "?v = word_of_nat (unat ?b + 1760 * u + 4)"
    unfolding n(3) by (simp add: SCNTR_ADDR_CNTR_FIELD_def SIZEOF_SEND_CNTR_def SCNTR_RST_RECVRESET_OFFST_def)
  have uv: "unat ?v = unat ?b + 1760 * u + 4" unfolding v unat_of_nat by (rule mod_less) (use B in simp)
  have ue: "unat (sndctr_stadd_end (info s)) = unat ?b + 1760 * 128"
    using B by (simp add: fin SIZEOF_SEND_CNTR_def SND_CNTRL_MAX_def unat_word_ariths)
  have in_range: "?v \<ge> ?b" "?v \<le> sndctr_stadd_end (info s)" using uv ue B(2) by (simp_all add: word_le_nat_alt)
  have d: "?v - ?b = word_of_nat (1760 * u + 4)" unfolding v by simp
  have "unat (word_of_nat (1760 * u + 4) :: u64) = 1760 * u + 4" unfolding unat_of_nat by (rule mod_less) (use B in simp)
  then have "unat (word_of_nat (1760 * u + 4) div (1760 :: u64)) = u" unfolding unat_div by simp
  then have q: "word_of_nat (1760 * u + 4) div (1760 :: u64) = word_of_nat u" by (rule word_of_unat)
  have sc: "is_scntr ?v s = ret (Some EVT_RMT_RECVRST)"
    using in_range q by (simp add: is_scntr_def Let_def d SIZEOF_SEND_CNTR_def SCNTR_RST_RECVRESET_OFFST_def)
  have ed: "unat (n_edata n) = u" using B(2) by (simp add: n(2) unat_of_nat)
  have "mrq_event U n s = notice_sendengine U u ?v
        (mod_scntr u (\<lambda>c. c\<lparr>s_state := s_ostate c\<rparr>) (mod_scntr u (\<lambda>c. c\<lparr>s_rcvreset := 0, s_recvidx := 0\<rparr>) s))"
    using sc ed u wt by (simp add: mrq_event_def n(1) rmt_armw_event_def utf_idx2scntr_def Let_def)
  with sc show ?thesis by (simp add: mod_scntr_def)
qed

theorem recv_reset_resumes_witness:
  "is_scntr 0x1000000014a4 ((utf_static 0 2 5 7 [7, 8] sim0)\<lparr>info := (info (utf_static 0 2 5 7 [7, 8] sim0))\<lparr>sndctr_stadd := 0x100000000000,
      sndctr_stadd_end := 0x100000037000\<rparr>, scntr := (\<lambda>_. zero_scntr\<lparr>s_state := S_WAIT_BUFREADY, s_ostate := S_DO_EGR\<rparr>)\<rparr>)
   = ret (Some EVT_RMT_RECVRST)"
proof -
  let ?s = "(utf_static 0 2 5 7 [7, 8] sim0)\<lparr>info := (info (utf_static 0 2 5 7 [7, 8] sim0))\<lparr>sndctr_stadd := 0x100000000000,
      sndctr_stadd_end := 0x100000037000\<rparr>, scntr := (\<lambda>_. zero_scntr\<lparr>s_state := S_WAIT_BUFREADY, s_ostate := S_DO_EGR\<rparr>)\<rparr>"
  let ?n = "zero_notice\<lparr>notice_type := MRQ_TYPE_RMT_ARMW, n_edata := 3, n_rmt_value := 0x1000000014a4\<rparr>"
  show ?thesis
    using recv_reset_resumes [of ?s 3 ?n]
    by (simp add: SIZEOF_SEND_CNTR_def SND_CNTRL_MAX_def SCNTR_ADDR_CNTR_FIELD_def SCNTR_RST_RECVRESET_OFFST_def)
qed

text \<open>C32: \<open>utf_send\<close> keeps every ring of queued messages consistent when it accepts a message:
  after the wait for a free entry, the new message is the last entry of the ring of its
  destination, and all rings, that of the destination and those the engine may have
  advanced meanwhile, still have exactly their occupied entries between \<open>micur\<close> and \<open>mient\<close>.
  An idle destination must not be one whose answer to the request for room is outstanding.\<close>

theorem utf_send_keeps_rings:
  assumes run: "send_enqueue U u i buf sz dst tag ridx s = ret (0, rid, s')"
    and inv: "\<And>v. scntr_inv (scntr s v)" and al: "s_state (scntr s u) \<noteq> S_FREE"
    and free: "m_cntrtype (s_msginfo (scntr s u) ! unat (s_mient (scntr s u))) = SNDCNTR_NONE"
    and ready: "s_state (scntr s u) = S_NONE \<Longrightarrow> utf_sndmgt_isset_examed (unat (s_dst (scntr s u))) (egrmgt_tab s)
      \<Longrightarrow> utf_sndmgt_isset_sndok (unat (s_dst (scntr s u))) (egrmgt_tab s)"
  shows "scntr_inv (scntr s' v)"
  by (rule send_enqueue_ring [OF run inv al free ready])

definition demo_idle :: utf_send_cntr where
  "demo_idle = zero_scntr\<lparr>s_state := S_NONE, s_msginfo := [zero_minfo\<lparr>m_sndbuf := Some 0\<rparr>, zero_minfo, zero_minfo, zero_minfo]\<rparr>"

lemma demo_idle_inv: "scntr_inv demo_idle"
proof -
  have e: "ring_entries demo_idle = {}" by (simp add: ring_entries_def ring_len_def demo_idle_def)
  show ?thesis
    unfolding scntr_inv_def e
    by (simp add: demo_idle_def zero_scntr_def zero_minfo_def waits_ok_def COM_SCNTR_MINF_SZ_def All_less_Suc numeral_eq_Suc)
qed

theorem utf_send_keeps_rings_witness:
  "\<exists>rid s'. send_enqueue ready_nic 3 0 (0, 0) 2 1 5 (reqid_const 0)
       ((utf_static 0 2 5 7 [7, 8] sim0)\<lparr>mem := [0 \<mapsto> [1, 2]], scntr := (\<lambda>_. demo_idle)\<rparr>) = ret (0, rid, s')
     \<and> s_state (scntr s' 3) = S_REQ_ROOM \<and> scntr_inv (scntr s' 3)"
proof -
  let ?s = "(utf_static 0 2 5 7 [7, 8] sim0)\<lparr>mem := [0 \<mapsto> [1, 2]], scntr := (\<lambda>_. demo_idle)\<rparr>"
  have inv: "scntr_inv (scntr ?s v)" for v by (simp add: demo_idle_inv)
  have add: "\<exists>w'. utf_remote_add ready_nic v f x r e c w = ret (None, w')" for v f x r e c w
    using msgcall_ready [of ready_nic _ w] by (auto simp: utf_remote_add_def ready_nic_def)
  obtain w' where w': "utf_remote_add ready_nic 0 {LOCAL_MRQ_NOTICE} (-1) 0 0 None sim0 = ret (None, w')" using add by blast
  obtain rid s' where run: "send_enqueue ready_nic 3 0 (0, 0) 2 1 5 (reqid_const 0) ?s = ret (0, rid, s')"
    and st: "s_state (scntr s' 3) = S_REQ_ROOM"
    by (simp add: send_enqueue_def demo_idle_def zero_scntr_def minfo_setup_def load_def bytes_at_def msg_size_defs
        utf_send_start_def utf_static_def sndmgt_defs w' Let_def)
  show ?thesis using utf_send_keeps_rings [OF run inv, of 3] run st by (auto simp: demo_idle_def zero_scntr_def zero_minfo_def sndmgt_defs utf_static_def)
qed

text \<open>C33: a receive that names its tag, or leaves both its source and its tag open, takes a message that has already arrived: the first unexpected message, in
  arrival order, that the receive is meant to accept is copied into the user's buffer, cut to the posted length, the dynamically allocated buffer is released,
  nothing else in memory changes, the message leaves the queue and the call reports that the message was there. The remaining kind of receive, which names its
  source and leaves its tag open, is excluded by the hypothesis \<open>arg\<close>: there the code compares the source with the tags of the messages
  (\<open>open_tag_receive_misses\<close>). Lengths from 2 GiB on do not fit the \<open>int\<close> that holds the copy length.\<close>

theorem utf_recv_delivers:
  assumes q: "msgq_inv (queues s) Q" "Q Utf_uexplst = xs @ m # ys"
    and arg: "word_of_int src = (-1 :: u32) \<or> word_of_int tag \<noteq> (-1 :: u32)"
    and no: "\<And>x. x \<in> set xs \<Longrightarrow> \<not> utf_wanted (word_of_int src) (word_of_int tag) (ml_hdr (msl (queues s) x))"
    and yes: "utf_wanted (word_of_int src) (word_of_int tag) (ml_hdr (msl (queues s) m))"
    and i: "sint (reqidx (msl (queues s) m)) = int i"
    and r: "r_rndz (req_of s i) = 0" "r_state (req_of s i) = REQ_DONE" "r_buf (req_of s i) = Some (b, 0)"
      "mem s b = Some msg" "unat (h_size (r_hdr (req_of s i))) = length msg"
    and n: "n = min (unat sz) (length msg)" "n < 2 ^ 31"
    and buf: "mem s ub = Some m0" "uo + n \<le> length m0" "ub \<noteq> b"
  shows "\<exists>s'. utf_recv U (ub, uo) sz src tag ridx s = ret (UTF_MSG_AVL, (reqid_const 0)\<lparr>reqid1 := word_of_nat i\<rparr>, s')
    \<and> mem s' = (mem s)(ub := Some (overwrite m0 uo (take n msg)), b := None) \<and> r_state (req_of s' i) = REQ_DONE
    \<and> msgq_inv (queues s') (Q(Utf_uexplst := xs @ ys, Utf_msglst_freelst := m # Q Utf_msglst_freelst))"
  by (rule utf_recv_takes [OF assms])

theorem utf_recv_delivers_witness:
  "\<exists>s q s'. utf_mem_init sim_nic (utf_static 0 2 5 7 [7, 8] sim0) = ret s
     \<and> utf_msglst_append Utf_uexplst (zero_hdr\<lparr>h_src := 1, h_tag := 5\<rparr>) 0 (queues s) = ret (0, q)
     \<and> utf_recv sim_nic (1, 2) 2 (-1) 5 (reqid_const 0)
         (mod_req 0 (\<lambda>r. r\<lparr>r_buf := Some (0, 0), r_state := REQ_DONE, r_hdr := zero_hdr\<lparr>h_size := 3\<rparr>\<rparr>)
           (s\<lparr>queues := q, mem := [0 \<mapsto> [1, 2, 3], 1 \<mapsto> replicate 6 9]\<rparr>)) = ret (UTF_MSG_AVL, reqid_const 0, s')
     \<and> mem s' 1 = Some [9, 9, 1, 2, 9, 9] \<and> mem s' 0 = None"
proof -
  obtain s where s: "utf_mem_init sim_nic (utf_static 0 2 5 7 [7, 8] sim0) = ret s" and f: "utf_fresh s"
    using fresh_sim by blast
  have q0: "msgq_inv (queues s) ((\<lambda>_. [])(Utf_msglst_freelst := 0 # [1..<MSGLST_SIZE]))"
    using f upt_MSGLST by (simp add: utf_fresh_def)
  from utf_msglst_append_inv [OF q0, of Utf_uexplst 0 "[1..<MSGLST_SIZE]" "zero_hdr\<lparr>h_src := 1, h_tag := 5\<rparr>" 0]
  obtain q where a: "utf_msglst_append Utf_uexplst (zero_hdr\<lparr>h_src := 1, h_tag := 5\<rparr>) 0 (queues s) = ret (0, q)"
    and q: "msgq_inv q ((\<lambda>_. [])(Utf_uexplst := [0], Utf_msglst_freelst := [1..<MSGLST_SIZE]))"
    and e: "msl_env (msl q 0) = (zero_hdr\<lparr>h_src := 1, h_tag := 5\<rparr>, 0)"
    by (auto simp: fun_upd_twist msl_env_def)
  let ?t = "mod_req 0 (\<lambda>r. r\<lparr>r_buf := Some (0, 0), r_state := REQ_DONE, r_hdr := zero_hdr\<lparr>h_size := 3\<rparr>\<rparr>)
           (s\<lparr>queues := q, mem := [0 \<mapsto> [1, 2, 3], 1 \<mapsto> replicate 6 9]\<rparr>)"
  have z: "r_rndz (req_of s 0) = 0" using f by (simp add: utf_fresh_def req_of_def zero_req_def)
  have qt: "msgq_inv (queues ?t) ((\<lambda>_. [])(Utf_uexplst := [0], Utf_msglst_freelst := [1..<MSGLST_SIZE]))" using q by simp
  have "\<exists>s'. utf_recv sim_nic (1, 2) 2 (-1) 5 (reqid_const 0) ?t = ret (UTF_MSG_AVL, (reqid_const 0)\<lparr>reqid1 := word_of_nat 0\<rparr>, s')
    \<and> mem s' = (mem ?t)(1 := Some (overwrite (replicate 6 9) 2 (take 2 [1, 2, 3])), 0 := None) \<and> r_state (req_of s' 0) = REQ_DONE
    \<and> msgq_inv (queues s') (((\<lambda>_. [])(Utf_uexplst := [0], Utf_msglst_freelst := [1..<MSGLST_SIZE]))(Utf_uexplst := [] @ [],
          Utf_msglst_freelst := 0 # ((\<lambda>_. [])(Utf_uexplst := [0], Utf_msglst_freelst := [1..<MSGLST_SIZE])) Utf_msglst_freelst))"
    by (rule utf_recv_delivers [OF qt]) (use z e in \<open>simp_all add: utf_wanted_def msl_env_def\<close>)
  then obtain s' where "utf_recv sim_nic (1, 2) 2 (-1) 5 (reqid_const 0) ?t = ret (UTF_MSG_AVL, (reqid_const 0)\<lparr>reqid1 := word_of_nat 0\<rparr>, s')"
    and m: "mem s' = (mem ?t)(1 := Some (overwrite (replicate 6 9) 2 (take 2 [1, 2, 3])), 0 := None)" by blast
  moreover have "(reqid_const 0)\<lparr>reqid1 := word_of_nat 0\<rparr> = reqid_const 0" by (simp add: reqid_const_def)
  moreover have "overwrite (replicate 6 9) 2 (take 2 [1, 2, 3]) = ([9, 9, 1, 2, 9, 9] :: u8 list)"
    by (simp add: overwrite_def numeral_eq_Suc)
  then have "mem s' 1 = Some [9, 9, 1, 2, 9, 9] \<and> mem s' 0 = None" unfolding m by simp
  ultimately show ?thesis using s a by metis
qed

text \<open>A receive that names its source and leaves its tag open does not find a message of that source. It is meant to accept the message behind \<open>m\<close>, which has
  arrived, but unless the tag of some waiting message happens to be the number of the source, the call takes none of them: it leaves the queue as it is
  and posts a new receive, with no byte delivered.\<close>

theorem open_tag_receive_misses:
  assumes q: "msgq_inv (queues s) Q" "Q Utf_msglst_freelst = f # fs"
    and arg: "word_of_int src \<noteq> (-1 :: u32)" "word_of_int tag = (-1 :: u32)"
    and m: "m \<in> set (Q Utf_uexplst)" "utf_wanted (word_of_int src) (word_of_int tag) (ml_hdr (msl (queues s) m))"
    and tags: "\<And>x. x \<in> set (Q Utf_uexplst) \<Longrightarrow> h_tag (ml_hdr (msl (queues s) x)) \<noteq> ucast (word_of_int src :: u32)"
    and rp: "req_inv (reqs s) (i # F) S R" "card R \<le> MSGREQ_RECV_SZ"
  shows "\<exists>s'. utf_recv U buf sz src tag ridx s = ret (UTF_SUCCESS, (reqid_const 0)\<lparr>reqid1 := word_of_nat i\<rparr>, s') \<and> mem s' = mem s
    \<and> r_state (req_of s' i) = REQ_PRG_NORMAL \<and> r_rsize (req_of s' i) = 0
    \<and> msgq_inv (queues s') (Q(Utf_explst := Q Utf_explst @ [f], Utf_msglst_freelst := fs)) \<and> m \<in> set (Q Utf_uexplst)"
proof -
  have "utf_uexplst_match (word_of_int src) (-1) False (queues s) = match_loop Utf_uexplst False (\<lambda>x. ucast (word_of_int src :: u32) = h_tag (ml_hdr x)) (queues s)"
    using arg(1) by (simp add: utf_uexplst_match_def isnull_match [OF q(1)])
  moreover have "dropWhile (\<lambda>x. ucast (word_of_int src :: u32) \<noteq> h_tag (ml_hdr (msl (queues s) x))) (Q Utf_uexplst) = []"
    unfolding dropWhile_eq_Nil_conv using tags by fastforce
  ultimately have e: "utf_uexplst_match (word_of_int src) (-1) False (queues s) = ret (-1, queues s)" by (simp only: match_loop_eq [OF q(1)] list.case)
  from recvreq_alloc_inv [OF rp] obtain rp' where a: "utf_recvreq_alloc (reqs s) = ret (Some i, rp')" by blast
  have n: "Utf_explst \<noteq> Utf_msglst_freelst" by simp
  show ?thesis
    using utf_msglst_append_inv [OF q(1) n q(2), of "(r_hdr (rq rp' i))\<lparr>h_src := word_of_int src, h_tag := word_of_int tag\<rparr>" "word_of_nat i"] e a m(1) arg(2)
    by (auto simp: utf_recv_def recv_post_def req_of_def mod_req_def upd_req_def Let_def)
qed

theorem open_tag_receive_misses_witness:
  "\<exists>s q s'. utf_mem_init sim_nic (utf_static 0 2 5 7 [7, 8] sim0) = ret s
     \<and> utf_msglst_append Utf_uexplst (zero_hdr\<lparr>h_src := 1, h_tag := 5\<rparr>) 3 (queues s) = ret (0, q)
     \<and> utf_recv sim_nic (1, 2) 2 1 (-1) (reqid_const 0) (s\<lparr>queues := q\<rparr>) = ret (UTF_SUCCESS, reqid_const 0, s') \<and> mem s' = mem s"
proof -
  obtain s where s: "utf_mem_init sim_nic (utf_static 0 2 5 7 [7, 8] sim0) = ret s" and f: "utf_fresh s"
    using fresh_sim by blast
  have q0: "msgq_inv (queues s) ((\<lambda>_. [])(Utf_msglst_freelst := 0 # 1 # [2..<MSGLST_SIZE]))"
    and rp: "req_inv (reqs s) (0 # [1..<MSGREQ_SIZE]) {} {}"
    using f upt_MSGLST upt_MSGREQ upt_conv_Cons [of 1 MSGLST_SIZE] by (simp_all add: utf_fresh_def MSGLST_SIZE_def numeral_2_eq_2 MSGREQ_SIZE_def MSGREQ_SEND_SZ_def)
  from utf_msglst_append_inv [OF q0, of Utf_uexplst 0 "1 # [2..<MSGLST_SIZE]" "zero_hdr\<lparr>h_src := 1, h_tag := 5\<rparr>" 3]
  obtain q where a: "utf_msglst_append Utf_uexplst (zero_hdr\<lparr>h_src := 1, h_tag := 5\<rparr>) 3 (queues s) = ret (0, q)"
    and q: "msgq_inv q ((\<lambda>_. [])(Utf_uexplst := [0], Utf_msglst_freelst := 1 # [2..<MSGLST_SIZE]))"
    and e: "msl_env (msl q 0) = (zero_hdr\<lparr>h_src := 1, h_tag := 5\<rparr>, 3)"
    by (auto simp: fun_upd_twist msl_env_def)
  let ?t = "s\<lparr>queues := q\<rparr>"
  have qt: "msgq_inv (queues ?t) ((\<lambda>_. [])(Utf_uexplst := [0], Utf_msglst_freelst := 1 # [2..<MSGLST_SIZE]))" using q by simp
  have rt: "req_inv (reqs ?t) (0 # [1..<MSGREQ_SIZE]) {} {}" using rp by simp
  have "\<exists>s'. utf_recv sim_nic (1, 2) 2 1 (-1) (reqid_const 0) ?t = ret (UTF_SUCCESS, (reqid_const 0)\<lparr>reqid1 := word_of_nat 0\<rparr>, s') \<and> mem s' = mem ?t"
    using open_tag_receive_misses [OF qt _ _ _ _ _ _ rt, of 1 "[2..<MSGLST_SIZE]" 1 "-1" 0 sim_nic "(1, 2)" 2 "reqid_const 0"] e
    by (auto simp: utf_wanted_def msl_env_def)
  moreover have "(reqid_const 0)\<lparr>reqid1 := word_of_nat 0\<rparr> = reqid_const 0" by (simp add: reqid_const_def)
  ultimately show ?thesis using s a by auto
qed

text \<open>The registration a rendezvous sender makes for its buffer is never undone: \<open>minfo_setup\<close>
  records the address in the message entry but not in the request, and when the receiver
  reports the end of the transfer, \<open>utf_rndz_done\<close> looks for it in the request only; it
  completes the message without a call to the network library.\<close>

theorem rndz_sender_never_deregisters:
  assumes ms: "minfo_setup U u k rank tag sz a b i s = ret s1" and st: "b_stadd (r_bufinfo (req_of s i)) ! 0 = 0"
    and later: "r_bufinfo (req_of t i) = r_bufinfo (req_of s1 i)" "r_notify (req_of t i) = None"
    and entry: "find_rndzprog pos t = ret (Some z, t1)" "m_mreq (rndz_pool t z) = Some i" "m_scntr (rndz_pool t z) = Some v"
  shows "r_bufinfo (req_of s1 i) = r_bufinfo (req_of s i) \<and> (\<exists>t'. utf_rndz_done U pos t = ret t' \<and> world t' = world t)"
proof -
  have b: "r_bufinfo (req_of s1 i) = r_bufinfo (req_of s i)"
    by (rule bindO_retE [OF ms [unfolded minfo_setup_def Let_def]])
      (auto simp: bindO_eq_ret clear_allflgs_def split: if_splits)
  have t1: "world t1 = world t" "rndz_pool t1 = rndz_pool t" "req_of t1 = req_of t"
    using entry(1) by (auto simp: find_rndzprog_def req_of_def split: option.splits prod.splits)
  have d: "dereg_buf U i t1 = ret t1" using later st b t1 by (simp add: dereg_buf_def)
  show ?thesis
    using b d entry t1 later(2)
    by (simp add: utf_rndz_done_def sendreq_complete_def run_notify_def Let_def split: prod.split)
qed

definition demo_rndz_sender :: "simw utf" where
  "demo_rndz_sender = (utf_static 0 2 5 7 [7, 8] sim0)\<lparr>mode_msg := MSG_RENDEZOUS\<rparr>"

definition demo_rndz_later :: "simw utf" where
  "demo_rndz_later = demo_rndz_sender\<lparr>rndz_pool := (\<lambda>_. zero_minfo\<lparr>m_mreq := Some 0, m_scntr := Some 0\<rparr>),
     rndz_proglst := \<lparr>head = Some 0, tail = Some 0\<rparr>\<rparr>"

theorem rndz_sender_never_deregisters_witness:
  "\<exists>s1. minfo_setup ready_nic 0 0 0 5 100000 (0, 0) 0 0 demo_rndz_sender = ret s1
     \<and> (\<exists>t'. utf_rndz_done ready_nic 0 demo_rndz_later = ret t' \<and> sim_dereg (world t') = [])"
proof -
  obtain s1 where s1: "minfo_setup ready_nic 0 0 0 5 100000 (0, 0) 0 0 demo_rndz_sender = ret s1"
    by (simp add: minfo_setup_def demo_rndz_sender_def msg_size_defs utf_mem_reg_def ready_nic_def sim_nic_def Let_def)
  have z: "req_of demo_rndz_sender 0 = zero_req" "req_of demo_rndz_later 0 = zero_req"
    by (simp_all add: demo_rndz_later_def demo_rndz_sender_def utf_static_def req_of_def)
  have b: "r_bufinfo (req_of s1 0) = r_bufinfo (req_of demo_rndz_sender 0)"
    by (rule bindO_retE [OF s1 [unfolded minfo_setup_def Let_def]])
      (auto simp: bindO_eq_ret clear_allflgs_def split: if_splits)
  have f: "\<exists>t1. find_rndzprog 0 demo_rndz_later = ret (Some 0, t1)"
    by (simp add: find_rndzprog_def demo_rndz_later_def utfslist_foreach2.simps zero_minfo_def split: prod.split)
  then obtain t1 where "find_rndzprog 0 demo_rndz_later = ret (Some 0, t1)" ..
  from rndz_sender_never_deregisters [OF s1 _ _ _ this, of 0] z b s1 show ?thesis
    by (auto simp: zero_req_def demo_rndz_later_def demo_rndz_sender_def utf_static_def sim0_def)
qed

end
