(* ===== verification/Vbg_State.thy ===== *)
theory Vbg_State
  imports Utf_Req
begin

text \<open>
  State of the virtual barrier gate (VBG) collectives of \<open>src/src/vbg\<close>: the operation and
  data type codes of \<open>src/src/include/utf_bg.h\<close>, the poll information and the group of
  \<open>src/src/vbg/utf_bg_internal.h\<close>, and the calls into uTofu's barrier gates, which are
  parameters of the model, as are the conversions and the addition of the
  floating-point unit.
\<close>

unbundle bit_operations_syntax

section \<open>Codes\<close>

datatype reduce_op = UTF_REDUCE_OP_BARRIER | UTF_REDUCE_OP_BAND | UTF_REDUCE_OP_BOR | UTF_REDUCE_OP_BXOR
  | UTF_REDUCE_OP_MAX | UTF_REDUCE_OP_MAXLOC | UTF_REDUCE_OP_SUM | UTF_REDUCE_OP_BFPSUM
  | UTF_REDUCE_OP_LAND | UTF_REDUCE_OP_LOR | UTF_REDUCE_OP_LXOR | UTF_REDUCE_OP_MIN | UTF_REDUCE_OP_MINLOC

text \<open>What a pending operation is: a reduction or a broadcast (\<open>UTF_BG_BCAST\<close>).\<close>

datatype poll_op = Reduce_op reduce_op | UTF_BG_BCAST

definition UTF_DATATYPE_UINT8_T :: u64 where "UTF_DATATYPE_UINT8_T = 0x00000001"
definition UTF_DATATYPE_UINT16_T :: u64 where "UTF_DATATYPE_UINT16_T = 0x00000002"
definition UTF_DATATYPE_UINT32_T :: u64 where "UTF_DATATYPE_UINT32_T = 0x00000004"
definition UTF_DATATYPE_UINT64_T :: u64 where "UTF_DATATYPE_UINT64_T = 0x00000008"
definition UTF_DATATYPE_INT8_T :: u64 where "UTF_DATATYPE_INT8_T = 0x00010001"
definition UTF_DATATYPE_INT16_T :: u64 where "UTF_DATATYPE_INT16_T = 0x00010002"
definition UTF_DATATYPE_INT32_T :: u64 where "UTF_DATATYPE_INT32_T = 0x00010004"
definition UTF_DATATYPE_INT64_T :: u64 where "UTF_DATATYPE_INT64_T = 0x00010008"
definition UTF_DATATYPE_FLOAT16 :: u64 where "UTF_DATATYPE_FLOAT16 = 0x01000002"
definition UTF_DATATYPE_FLOAT :: u64 where "UTF_DATATYPE_FLOAT = 0x01000004"
definition UTF_DATATYPE_DOUBLE :: u64 where "UTF_DATATYPE_DOUBLE = 0x01000008"
definition UTF_DATATYPE_FLOAT16_COMPLEX :: u64 where "UTF_DATATYPE_FLOAT16_COMPLEX = 0x02000004"
definition UTF_DATATYPE_FLOAT_COMPLEX :: u64 where "UTF_DATATYPE_FLOAT_COMPLEX = 0x02000008"
definition UTF_DATATYPE_DOUBLE_COMPLEX :: u64 where "UTF_DATATYPE_DOUBLE_COMPLEX = 0x02000010"
definition UTF_DATATYPE_SHORT_INT :: u64 where "UTF_DATATYPE_SHORT_INT = 0x04010006"
definition UTF_DATATYPE_2INT :: u64 where "UTF_DATATYPE_2INT = 0x04010008"
definition UTF_DATATYPE_LONG_INT :: u64 where "UTF_DATATYPE_LONG_INT = 0x0401000C"

lemmas datatype_defs = UTF_DATATYPE_UINT8_T_def UTF_DATATYPE_UINT16_T_def UTF_DATATYPE_UINT32_T_def UTF_DATATYPE_UINT64_T_def
  UTF_DATATYPE_INT8_T_def UTF_DATATYPE_INT16_T_def UTF_DATATYPE_INT32_T_def UTF_DATATYPE_INT64_T_def UTF_DATATYPE_FLOAT16_def
  UTF_DATATYPE_FLOAT_def UTF_DATATYPE_DOUBLE_def UTF_DATATYPE_FLOAT16_COMPLEX_def UTF_DATATYPE_FLOAT_COMPLEX_def
  UTF_DATATYPE_DOUBLE_COMPLEX_def UTF_DATATYPE_SHORT_INT_def UTF_DATATYPE_2INT_def UTF_DATATYPE_LONG_INT_def

definition UTF_DATATYPE_DIV_INT :: u64 where "UTF_DATATYPE_DIV_INT = 0"
definition UTF_DATATYPE_DIV_REAL :: u64 where "UTF_DATATYPE_DIV_REAL = 1"
definition UTF_DATATYPE_DIV_COMP :: u64 where "UTF_DATATYPE_DIV_COMP = 2"
definition UTF_DATATYPE_DIV_PAIR :: u64 where "UTF_DATATYPE_DIV_PAIR = 4"
definition UTF_DATATYPE_SIZE :: u64 where "UTF_DATATYPE_SIZE = 0xFF"

lemmas div_defs = UTF_DATATYPE_DIV_INT_def UTF_DATATYPE_DIV_REAL_def UTF_DATATYPE_DIV_COMP_def UTF_DATATYPE_DIV_PAIR_def

definition datatype_div :: "u64 \<Rightarrow> u64" where
  "datatype_div dt = drop_bit 24 dt"

definition datatype_size :: "u64 \<Rightarrow> nat" where
  "datatype_size dt = unat (dt AND UTF_DATATYPE_SIZE)"

definition UTF_BG_REDUCE_MASK_HB :: u64 where "UTF_BG_REDUCE_MASK_HB = 0x8000000000000000"
definition UTF_BG_REDUCE_MASK_LB :: u64 where "UTF_BG_REDUCE_MASK_LB = 1"
definition UTF_BG_REDUCE_MASK_MAX :: u64 where "UTF_BG_REDUCE_MASK_MAX = 0xFFFFFFFFFFFFFFFF"
definition UTF_BG_REDUCE_MASK_MIN :: u64 where "UTF_BG_REDUCE_MASK_MIN = 0x7FFFFFFFFFFFFFFF"
definition UTF_BG_REDUCE_MASK_NAN_FP16 :: u64 where "UTF_BG_REDUCE_MASK_NAN_FP16 = 0x03FF000000000000"
definition UTF_BG_REDUCE_MASK_NAN_FP32 :: u64 where "UTF_BG_REDUCE_MASK_NAN_FP32 = 0x007FFFFF00000000"
definition UTF_BG_REDUCE_MASK_NAN_FP64 :: u64 where "UTF_BG_REDUCE_MASK_NAN_FP64 = 0x000FFFFFFFFFFFFF"

section \<open>Results\<close>

text \<open>Return codes: the ones the source names, any other code of a uTofu call as its number.\<close>

datatype vrc = V_SUCCESS | V_ERR_NOT_COMPLETED | V_ERR_NOT_AVAILABLE | V_ERR_INTERNAL | V_OTHER int

section \<open>State\<close>

record utf_bg_poll_info =
  utf_bg_poll_ids :: u64
  utf_bg_poll_odata :: "u64 list"
  utf_bg_poll_idata :: "u64 list"
  utf_bg_poll_result :: addr
  utf_bg_poll_op :: poll_op
  utf_bg_poll_count :: nat
  utf_bg_poll_datatype :: u64
  utf_bg_poll_size :: nat
  utf_bg_poll_numcount :: nat
  utf_bg_poll_root :: bool
  sm_flg_comm_start :: bool
  sm_utofu_op :: reduce_op
  sm_loop_counter :: nat
  sm_loop_rank :: nat
  sm_numproc :: nat
  sm_intra_index :: nat
  sm_seq_val :: u64

text \<open>
  The part of a group (\<open>utf_coll_group_detail_t\<close>) the collectives read: the first VBG, the
  own position, and of the node whether the own process is the leader, the number of
  processes, the own index and the sequence number.
\<close>

record coll_group =
  g_vbg_id :: u64
  g_my_index :: int
  g_manager :: bool
  g_size :: nat
  g_intra_index :: nat
  g_curr_seq :: u64

text \<open>
  The two ways to poll for a barrier (\<open>None\<close>: any other value of the selecting integer, whose
  initial value 0 is \<open>UTF_POLL_BARRIER\<close>), and the functions the reduction's function pointer
  may point to (\<open>None\<close>: NULL).
\<close>

datatype barrier_func = UTF_POLL_BARRIER | UTF_POLL_BARRIER_SM

datatype reduce_func = Poll_double | Poll_float | Poll_float16 | Poll_uint64 | Poll_double_max_min | Poll_uint64_max_min
  | Poll_logical | Poll_bitwise | Poll_maxmin_loc | Poll_bcast | Poll_double_sm | Poll_uint64_sm

text \<open>
  One process: its memory, the node's shared memory (a sequence number and six data
  words per process of the node), its group, and the world behind the uTofu calls.
\<close>

record 'w vbg =
  pinfo :: utf_bg_poll_info
  vgrp :: coll_group
  bg_counter :: u64
  poll_barrier_func :: "barrier_func option"
  poll_reduce_func :: "reduce_func option"
  intra_is_tofu :: bool
  vmem :: "nat \<Rightarrow> u8 list option"
  shm_seq :: "nat \<Rightarrow> u64"
  shm_buf :: "nat \<Rightarrow> u64 list"
  vworld :: 'w

text \<open>
  uTofu's barrier gates and the floating-point unit. A poll that reports success gives
  the result words.
\<close>

record 'w vbgapi =
  v_barrier :: "u64 \<Rightarrow> 'w \<Rightarrow> vrc \<times> 'w"
  v_poll_barrier :: "u64 \<Rightarrow> 'w \<Rightarrow> vrc \<times> 'w"
  v_reduce_uint64 :: "u64 \<Rightarrow> reduce_op \<Rightarrow> u64 list \<Rightarrow> 'w \<Rightarrow> vrc \<times> 'w"
  v_poll_reduce_uint64 :: "u64 \<Rightarrow> 'w \<Rightarrow> vrc \<times> u64 list \<times> 'w"
  v_reduce_double :: "u64 \<Rightarrow> reduce_op \<Rightarrow> u64 list \<Rightarrow> 'w \<Rightarrow> vrc \<times> 'w"
  v_poll_reduce_double :: "u64 \<Rightarrow> 'w \<Rightarrow> vrc \<times> u64 list \<times> 'w"
  f64_add :: "u64 \<Rightarrow> u64 \<Rightarrow> u64"
  f64_of_f32 :: "u32 \<Rightarrow> u64"
  f32_of_f64 :: "u64 \<Rightarrow> u32"
  f64_of_f16 :: "u16 \<Rightarrow> u64"
  f16_of_f64 :: "u64 \<Rightarrow> u16"

definition mod_pi :: "(utf_bg_poll_info \<Rightarrow> utf_bg_poll_info) \<Rightarrow> 'w vbg \<Rightarrow> 'w vbg" where
  "mod_pi f s = s\<lparr>pinfo := f (pinfo s)\<rparr>"

lemma mod_pi_sel [simp]:
  "pinfo (mod_pi f s) = f (pinfo s)" "vgrp (mod_pi f s) = vgrp s" "vmem (mod_pi f s) = vmem s"
  "shm_seq (mod_pi f s) = shm_seq s" "shm_buf (mod_pi f s) = shm_buf s" "vworld (mod_pi f s) = vworld s"
  "intra_is_tofu (mod_pi f s) = intra_is_tofu s" "bg_counter (mod_pi f s) = bg_counter s"
  "poll_reduce_func (mod_pi f s) = poll_reduce_func s" "poll_barrier_func (mod_pi f s) = poll_barrier_func s"
  by (simp_all add: mod_pi_def)

section \<open>Memory\<close>

definition vload :: "addr \<Rightarrow> nat \<Rightarrow> 'w vbg \<Rightarrow> u8 list outcome" where
  "vload a n s = (if n = 0 then ret [] else case vmem s (fst a) of
       None \<Rightarrow> crash OutOfBounds
     | Some m \<Rightarrow> if snd a + n \<le> length m then ret (bytes_at m (snd a) n) else crash OutOfBounds)"

definition vstore :: "addr \<Rightarrow> u8 list \<Rightarrow> 'w vbg \<Rightarrow> 'w vbg outcome" where
  "vstore a bs s = (if bs = [] then ret s else case vmem s (fst a) of
       None \<Rightarrow> crash OutOfBounds
     | Some m \<Rightarrow> if snd a + length bs \<le> length m
                then ret (s\<lparr>vmem := (vmem s)(fst a := Some (overwrite m (snd a) bs))\<rparr>)
                else crash OutOfBounds)"

text \<open>Several writes relative to one address, in order.\<close>

fun vstores :: "addr \<Rightarrow> (nat \<times> u8 list) list \<Rightarrow> 'w vbg \<Rightarrow> 'w vbg outcome" where
  "vstores a [] s = ret s"
| "vstores a ((off, bs) # ws) s = bindO (vstore (fst a, snd a + off) bs s) (vstores a ws)"

section \<open>Words as bytes\<close>

text \<open>
  \<open>memcpy\<close> of \<open>n\<close> bytes to or from the upper end of a 64-bit word in memory: on a
  little-endian machine the upper end holds the most significant bytes.
\<close>

definition put_hi :: "u8 list \<Rightarrow> u64 \<Rightarrow> u64" where
  "put_hi bs w = word_of_nat (le_nat (overwrite (le_bytes 8 (unat w)) (8 - length bs) bs))"

definition get_hi :: "nat \<Rightarrow> u64 \<Rightarrow> u8 list" where
  "get_hi n w = bytes_at (le_bytes 8 (unat w)) (8 - n) n"

definition put_lo :: "u8 list \<Rightarrow> u64 \<Rightarrow> u64" where
  "put_lo bs w = word_of_nat (le_nat (overwrite (le_bytes 8 (unat w)) 0 bs))"

definition bytes_of_words :: "u64 list \<Rightarrow> u8 list" where
  "bytes_of_words ws = concat (map (\<lambda>w. le_bytes 8 (unat w)) ws)"

fun words_of_bytes :: "u8 list \<Rightarrow> u64 list" where
  "words_of_bytes bs = (if length bs < 8 then [] else word_of_nat (le_nat (take 8 bs)) # words_of_bytes (drop 8 bs))"

declare words_of_bytes.simps [simp del]

text \<open>A loop over the first \<open>n\<close> words of a buffer that changes each of them.\<close>

definition upd_words :: "nat \<Rightarrow> (nat \<Rightarrow> u64 \<Rightarrow> u64) \<Rightarrow> u64 list \<Rightarrow> u64 list outcome" where
  "upd_words n f ws = (if n \<le> length ws then ret (map (\<lambda>i. f i (ws ! i)) [0..<n] @ drop n ws) else crash OutOfBounds)"

definition elem_at :: "u8 list \<Rightarrow> nat \<Rightarrow> nat \<Rightarrow> u8 list" where
  "elem_at bs sz i = bytes_at bs (i * sz) sz"

lemma le_nat_8_lt: "length bs = 8 \<Longrightarrow> le_nat bs < 2 ^ 64"
  using le_nat_lt [of bs] by simp

lemma pow256: "(256 :: nat) ^ (8 - n) = 2 ^ (64 - 8 * n)"
proof -
  have "(256 :: nat) ^ (8 - n) = (2 ^ 8) ^ (8 - n)" by simp
  also have "\<dots> = 2 ^ (8 * (8 - n))" by (simp only: power_mult)
  also have "8 * (8 - n) = 64 - 8 * n" by simp
  finally show ?thesis .
qed

lemma unat_put_hi:
  assumes "length bs \<le> 8"
  shows "unat (put_hi bs w) = le_nat bs * 2 ^ (64 - 8 * length bs) + unat w mod 2 ^ (64 - 8 * length bs)"
proof -
  let ?k = "8 - length bs"
  have e: "(256 :: nat) ^ ?k = 2 ^ (64 - 8 * length bs)" by (rule pow256)
  have t: "overwrite (le_bytes 8 (unat w)) ?k bs = take ?k (le_bytes 8 (unat w)) @ bs" using assms by (simp add: overwrite_def)
  have tk: "take m (le_bytes n v) = le_bytes m v" if "m \<le> n" for m n v
    using that by (induction n arbitrary: m v) (auto simp: take_Cons split: nat.splits)
  have "le_nat (overwrite (le_bytes 8 (unat w)) ?k bs) = unat w mod 2 ^ (64 - 8 * length bs) + 2 ^ (64 - 8 * length bs) * le_nat bs"
    unfolding t tk [of ?k 8, OF diff_le_self] le_nat_append le_nat_le_bytes e length_le_bytes ..
  moreover have "le_nat (overwrite (le_bytes 8 (unat w)) ?k bs) < 2 ^ 64" using assms by (intro le_nat_8_lt) simp
  ultimately show ?thesis unfolding put_hi_def unat_of_nat by (simp add: mult.commute)
qed

lemma get_hi_bytes:
  assumes "n \<le> 8"
  shows "get_hi n w = le_bytes n (unat w div 2 ^ (64 - 8 * n))"
proof -
  have dr: "drop m (le_bytes k v) = le_bytes (k - m) (v div 256 ^ m)" if "m \<le> k" for m k v
    using that
  proof (induction m arbitrary: k v)
    case (Suc m)
    then show ?case by (cases k) (simp_all add: div_mult2_eq)
  qed simp
  have e: "(256 :: nat) ^ (8 - n) = 2 ^ (64 - 8 * n)" by (rule pow256)
  show ?thesis unfolding get_hi_def bytes_at_def using assms dr [of "8 - n" 8 "unat w"] e by simp
qed

lemma get_hi_put_hi:
  assumes "length bs \<le> 8" and "n = length bs"
  shows "get_hi n (put_hi bs w) = bs"
  using assms by (simp add: get_hi_bytes unat_put_hi le_bytes_le_nat)

end
