(* ===== verification/Vbg_Result.thy ===== *)
theory Vbg_Result
  imports Vbg_State
begin

text \<open>
  Completion of a collective in one process: the \<open>UTF_BG_SET_RESULT\<close> macros of
  \<open>src/src/vbg/utf_bg_barrier.h\<close>, which decode the words of the reduction into the
  caller's buffer, and the poll functions of \<open>src/src/vbg/utf_bg_barrier.c\<close> that ask
  uTofu whether the reduction is over. The argument \<open>data\<close> says whether the caller
  passed an address for the result pointer; a poll gives the value written there. The
  clang variants of the macros are modelled, which also have the half-precision type.
\<close>

unbundle bit_operations_syntax

type_synonym 'w pres = "(vrc \<times> addr option \<times> 'w vbg) outcome"

type_synonym 'w body = "'w vbg \<Rightarrow> 'w vbg outcome"

section \<open>Decoding the result\<close>

definition UTF_BG_SET_RESULT_COMMON :: "bool \<Rightarrow> 'w body \<Rightarrow> 'w vbg \<Rightarrow> 'w pres" where
  "UTF_BG_SET_RESULT_COMMON data body s = (let d = if data then Some (utf_bg_poll_result (pinfo s)) else None in
     if \<not> utf_bg_poll_root (pinfo s) then ret (V_SUCCESS, d, s)
     else bindO (body s) (\<lambda>s'. ret (V_SUCCESS, d, s')))"

text \<open>The loops of the macros: each of the first \<open>n\<close> words is changed in place, then one range of the result is written for it.\<close>

definition decode_loop :: "nat \<Rightarrow> (nat \<Rightarrow> u64 \<Rightarrow> u64) \<Rightarrow> (nat \<Rightarrow> u64 \<Rightarrow> nat \<times> u8 list) \<Rightarrow> 'w body" where
  "decode_loop n f g s = bindO (upd_words n f (utf_bg_poll_odata (pinfo s))) (\<lambda>ws.
     vstores (utf_bg_poll_result (pinfo s)) (map (\<lambda>i. g i (ws ! i)) [0..<n])
       (mod_pi (\<lambda>p. p\<lparr>utf_bg_poll_odata := ws\<rparr>) s))"

definition UTF_BG_SET_RESULT_DOUBLE :: "bool \<Rightarrow> 'w vbg \<Rightarrow> 'w pres" where
  "UTF_BG_SET_RESULT_DOUBLE data = UTF_BG_SET_RESULT_COMMON data (\<lambda>s.
     decode_loop (utf_bg_poll_count (pinfo s)) (\<lambda>i w. w) (\<lambda>i w. (i * 8, le_bytes 8 (unat w))) s)"

definition UTF_BG_SET_RESULT_FLOAT :: "'w vbgapi \<Rightarrow> bool \<Rightarrow> 'w vbg \<Rightarrow> 'w pres" where
  "UTF_BG_SET_RESULT_FLOAT api data = UTF_BG_SET_RESULT_COMMON data (\<lambda>s.
     decode_loop (utf_bg_poll_count (pinfo s)) (\<lambda>i w. w) (\<lambda>i w. (i * 4, le_bytes 4 (unat (f32_of_f64 api w)))) s)"

definition UTF_BG_SET_RESULT_FLOAT16 :: "'w vbgapi \<Rightarrow> bool \<Rightarrow> 'w vbg \<Rightarrow> 'w pres" where
  "UTF_BG_SET_RESULT_FLOAT16 api data = UTF_BG_SET_RESULT_COMMON data (\<lambda>s.
     decode_loop (utf_bg_poll_count (pinfo s)) (\<lambda>i w. w) (\<lambda>i w. (i * 2, le_bytes 2 (unat (f16_of_f64 api w)))) s)"

definition UTF_BG_SET_RESULT_UINT64 :: "bool \<Rightarrow> 'w vbg \<Rightarrow> 'w pres" where
  "UTF_BG_SET_RESULT_UINT64 data = UTF_BG_SET_RESULT_COMMON data (\<lambda>s. let sz = utf_bg_poll_size (pinfo s) in
     decode_loop (utf_bg_poll_count (pinfo s)) (\<lambda>i w. w) (\<lambda>i w. (i * sz, get_hi sz w)) s)"

text \<open>The mask of the fraction bits of a floating-point type of the given size.\<close>

definition nan_mask :: "nat \<Rightarrow> u64" where
  "nan_mask sz = (if sz = 8 then UTF_BG_REDUCE_MASK_NAN_FP64 else if sz = 4 then UTF_BG_REDUCE_MASK_NAN_FP32
     else if sz = 2 then UTF_BG_REDUCE_MASK_NAN_FP16 else 0)"

definition fp_decode :: "bool \<Rightarrow> nat \<Rightarrow> u64 \<Rightarrow> u64" where
  "fp_decode is_max sz w = (let v = w - nan_mask sz in
     if is_max then v XOR (if v AND UTF_BG_REDUCE_MASK_HB \<noteq> 0 then UTF_BG_REDUCE_MASK_HB else UTF_BG_REDUCE_MASK_MAX)
     else if v AND UTF_BG_REDUCE_MASK_HB = 0 then v XOR UTF_BG_REDUCE_MASK_MIN else v)"

definition UTF_BG_SET_RESULT_DOUBLE_MAX_MIN :: "bool \<Rightarrow> 'w vbg \<Rightarrow> 'w pres" where
  "UTF_BG_SET_RESULT_DOUBLE_MAX_MIN data = UTF_BG_SET_RESULT_COMMON data (\<lambda>s. let sz = utf_bg_poll_size (pinfo s) in
     decode_loop (utf_bg_poll_count (pinfo s))
       (\<lambda>i w. fp_decode (utf_bg_poll_op (pinfo s) = Reduce_op UTF_REDUCE_OP_MAX) sz w)
       (\<lambda>i w. (i * sz, get_hi sz w)) s)"

definition int_decode :: "bool \<Rightarrow> bool \<Rightarrow> u64 \<Rightarrow> u64" where
  "int_decode is_min is_signed w = (let v = if is_min then NOT w else w in
     if is_signed then v - UTF_BG_REDUCE_MASK_HB else v)"

definition UTF_BG_SET_RESULT_UINT64_MAX_MIN :: "bool \<Rightarrow> 'w vbg \<Rightarrow> 'w pres" where
  "UTF_BG_SET_RESULT_UINT64_MAX_MIN data = UTF_BG_SET_RESULT_COMMON data (\<lambda>s. let sz = utf_bg_poll_size (pinfo s) in
     decode_loop (utf_bg_poll_count (pinfo s))
       (\<lambda>i w. int_decode (utf_bg_poll_op (pinfo s) = Reduce_op UTF_REDUCE_OP_MIN)
          (drop_bit 16 (utf_bg_poll_datatype (pinfo s)) \<noteq> 0) w)
       (\<lambda>i w. (i * sz, get_hi sz w)) s)"

text \<open>
  The logical operations: the bits of a word from position \<open>bit_count - 1\<close> down to 0, and
  the words in turn; the count that is left is what the macro leaves in the poll
  information.
\<close>

fun unpack_bits :: "nat \<Rightarrow> u64 \<Rightarrow> bool list" where
  "unpack_bits 0 w = []"
| "unpack_bits (Suc k) w = (drop_bit k w AND UTF_BG_REDUCE_MASK_LB \<noteq> 0) # unpack_bits k w"

fun logical_unpack :: "nat \<Rightarrow> u64 list \<Rightarrow> bool list \<times> nat" where
  "logical_unpack count [] = ([], count)"
| "logical_unpack count (w # ws) = (let bit_count = if 64 \<ge> count then count else 64;
     (bs, c) = logical_unpack (count - bit_count) ws
   in (unpack_bits bit_count w @ bs, c))"

text \<open>The assignment of 0 or 1 to an element; a size without a case of the switch writes nothing.\<close>

definition logical_elem :: "nat \<Rightarrow> bool \<Rightarrow> u8 list" where
  "logical_elem sz b = (if sz \<in> {8, 4, 2, 1} then le_bytes sz (of_bool b) else [])"

definition UTF_BG_SET_RESULT_LOGICAL :: "bool \<Rightarrow> 'w vbg \<Rightarrow> 'w pres" where
  "UTF_BG_SET_RESULT_LOGICAL data = UTF_BG_SET_RESULT_COMMON data (\<lambda>s. let p = pinfo s; n = utf_bg_poll_numcount p;
       sz = utf_bg_poll_size p in
     if length (utf_bg_poll_odata p) < n then crash OutOfBounds
     else let (bs, c) = logical_unpack (utf_bg_poll_count p) (take n (utf_bg_poll_odata p)) in
       vstores (utf_bg_poll_result p) (map (\<lambda>j. (j * sz, logical_elem sz (bs ! j))) [0..<length bs])
         (mod_pi (\<lambda>q. q\<lparr>utf_bg_poll_count := c\<rparr>) s))"

definition UTF_BG_SET_RESULT_BITWISE :: "bool \<Rightarrow> 'w vbg \<Rightarrow> 'w pres" where
  "UTF_BG_SET_RESULT_BITWISE data = UTF_BG_SET_RESULT_COMMON data (\<lambda>s.
     let n = utf_bg_poll_count (pinfo s) * utf_bg_poll_size (pinfo s) mod 2 ^ 64; ob = bytes_of_words (utf_bg_poll_odata (pinfo s)) in
     if length ob < n then crash OutOfBounds else vstore (utf_bg_poll_result (pinfo s)) (take n ob) s)"

text \<open>The pair types: where an element's two parts are in the caller's buffer, and their sizes.\<close>

definition loc_part :: "u64 \<Rightarrow> nat \<Rightarrow> nat \<Rightarrow> (nat \<times> nat) option" where
  "loc_part dt sz i = (if dt = UTF_DATATYPE_2INT then Some (i * sz div 2, sz div 2)
     else if dt = UTF_DATATYPE_LONG_INT then Some (i * 8, if i mod 2 = 0 then 8 else 4)
     else if dt = UTF_DATATYPE_SHORT_INT then Some (i * 4, if i mod 2 = 0 then 2 else 4)
     else None)"

definition UTF_BG_SET_RESULT_MAXMIN_LOC :: "bool \<Rightarrow> 'w vbg \<Rightarrow> 'w pres" where
  "UTF_BG_SET_RESULT_MAXMIN_LOC data = UTF_BG_SET_RESULT_COMMON data (\<lambda>s.
     decode_loop (utf_bg_poll_count (pinfo s) * 2)
       (\<lambda>i w. (if utf_bg_poll_op (pinfo s) = Reduce_op UTF_REDUCE_OP_MINLOC \<and> i mod 2 = 0 then NOT w else w)
               - UTF_BG_REDUCE_MASK_HB)
       (\<lambda>i w. case loc_part (utf_bg_poll_datatype (pinfo s)) (utf_bg_poll_size (pinfo s)) i of
            None \<Rightarrow> (0, []) | Some (off, n) \<Rightarrow> (off, get_hi n w)) s)"

definition UTF_BG_SET_RESULT_BCAST :: "bool \<Rightarrow> 'w vbg \<Rightarrow> 'w pres" where
  "UTF_BG_SET_RESULT_BCAST data s = (let p = pinfo s; d = if data then Some (utf_bg_poll_result p) else None;
       n = utf_bg_poll_size p; ob = bytes_of_words (utf_bg_poll_odata p) in
     if utf_bg_poll_root p then ret (V_SUCCESS, d, s)
     else if length ob < n then crash OutOfBounds
     else bindO (vstore (utf_bg_poll_result p) (take n ob) s) (\<lambda>s'. ret (V_SUCCESS, d, s')))"

section \<open>Polling the barrier gate\<close>

text \<open>
  A successful poll leaves the result words in \<open>odata\<close>; any other return code is
  passed on.
\<close>

definition put_odata :: "u64 list \<Rightarrow> 'w vbg \<Rightarrow> 'w vbg" where
  "put_odata ws = mod_pi (\<lambda>p. p\<lparr>utf_bg_poll_odata := ws @ drop (length ws) (utf_bg_poll_odata p)\<rparr>)"

definition poll_then :: "(u64 \<Rightarrow> 'w \<Rightarrow> vrc \<times> u64 list \<times> 'w) \<Rightarrow> ('w vbg \<Rightarrow> 'w pres) \<Rightarrow> 'w vbg \<Rightarrow> 'w pres" where
  "poll_then poll setres s = (case poll (utf_bg_poll_ids (pinfo s)) (vworld s) of (rc, ws, w) \<Rightarrow>
     if rc \<noteq> V_SUCCESS then ret (rc, None, s\<lparr>vworld := w\<rparr>)
     else setres (put_odata ws (s\<lparr>vworld := w\<rparr>)))"

definition utf_poll_reduce_double :: "'w vbgapi \<Rightarrow> bool \<Rightarrow> 'w vbg \<Rightarrow> 'w pres" where
  "utf_poll_reduce_double api data = poll_then (v_poll_reduce_double api) (UTF_BG_SET_RESULT_DOUBLE data)"

definition utf_poll_reduce_float :: "'w vbgapi \<Rightarrow> bool \<Rightarrow> 'w vbg \<Rightarrow> 'w pres" where
  "utf_poll_reduce_float api data = poll_then (v_poll_reduce_double api) (UTF_BG_SET_RESULT_FLOAT api data)"

definition utf_poll_reduce_float16 :: "'w vbgapi \<Rightarrow> bool \<Rightarrow> 'w vbg \<Rightarrow> 'w pres" where
  "utf_poll_reduce_float16 api data = poll_then (v_poll_reduce_double api) (UTF_BG_SET_RESULT_FLOAT16 api data)"

definition utf_poll_reduce_uint64 :: "'w vbgapi \<Rightarrow> bool \<Rightarrow> 'w vbg \<Rightarrow> 'w pres" where
  "utf_poll_reduce_uint64 api data = poll_then (v_poll_reduce_uint64 api) (UTF_BG_SET_RESULT_UINT64 data)"

definition utf_poll_reduce_double_max_min :: "'w vbgapi \<Rightarrow> bool \<Rightarrow> 'w vbg \<Rightarrow> 'w pres" where
  "utf_poll_reduce_double_max_min api data = poll_then (v_poll_reduce_uint64 api) (UTF_BG_SET_RESULT_DOUBLE_MAX_MIN data)"

definition utf_poll_reduce_uint64_max_min :: "'w vbgapi \<Rightarrow> bool \<Rightarrow> 'w vbg \<Rightarrow> 'w pres" where
  "utf_poll_reduce_uint64_max_min api data = poll_then (v_poll_reduce_uint64 api) (UTF_BG_SET_RESULT_UINT64_MAX_MIN data)"

definition utf_poll_reduce_logical :: "'w vbgapi \<Rightarrow> bool \<Rightarrow> 'w vbg \<Rightarrow> 'w pres" where
  "utf_poll_reduce_logical api data = poll_then (v_poll_reduce_uint64 api) (UTF_BG_SET_RESULT_LOGICAL data)"

definition utf_poll_reduce_bitwise :: "'w vbgapi \<Rightarrow> bool \<Rightarrow> 'w vbg \<Rightarrow> 'w pres" where
  "utf_poll_reduce_bitwise api data = poll_then (v_poll_reduce_uint64 api) (UTF_BG_SET_RESULT_BITWISE data)"

definition utf_poll_reduce_maxmin_loc :: "'w vbgapi \<Rightarrow> bool \<Rightarrow> 'w vbg \<Rightarrow> 'w pres" where
  "utf_poll_reduce_maxmin_loc api data = poll_then (v_poll_reduce_uint64 api) (UTF_BG_SET_RESULT_MAXMIN_LOC data)"

definition utf_poll_bcast :: "'w vbgapi \<Rightarrow> bool \<Rightarrow> 'w vbg \<Rightarrow> 'w pres" where
  "utf_poll_bcast api data = poll_then (v_poll_reduce_uint64 api) (UTF_BG_SET_RESULT_BCAST data)"

end
