(* ===== verification/Vbg_Sm.thy ===== *)
theory Vbg_Sm
  imports Vbg_Result
begin

text \<open>
  Collectives among the processes of a node through shared memory, one process's view:
  \<open>src/src/vbg/utf_bg_barrier_sm.c\<close>. The processes form a binomial tree: a process whose
  turn it is to pass its value on stores it with the sequence number of the collective,
  the others combine the value of their partner once it is there. The leader starts the
  barrier gate with the value of the node and publishes the result in slot 0.

  One iteration of the collecting loop is a function of its own (\<open>sm_iter\<close>), shared by the
  sequential poll functions here and by the interleaved execution of \<open>Vbg_Tree\<close>. The
  loop is a partial function: not returning is \<open>None\<close>, and \<open>sm_collect_total\<close> shows that
  it returns.
\<close>

unbundle bit_operations_syntax

section \<open>The operation\<close>

definition zip_first :: "nat \<Rightarrow> (u64 \<Rightarrow> u64 \<Rightarrow> u64) \<Rightarrow> u64 list \<Rightarrow> u64 list \<Rightarrow> u64 list" where
  "zip_first count f d1 d2 = map2 f (take count d1) (take count d2) @ drop count d1"

text \<open>One pair of words of \<open>MAXLOC\<close>: the larger value, of equal values the smaller position.\<close>

definition maxloc_pair :: "u64 \<times> u64 \<Rightarrow> u64 \<times> u64 \<Rightarrow> u64 \<times> u64" where
  "maxloc_pair a b = (if fst a < fst b then b
     else if fst a = fst b \<and> snd a > snd b then (fst a, snd b) else a)"

fun maxloc_words :: "u64 list \<Rightarrow> u64 list \<Rightarrow> u64 list" where
  "maxloc_words (a # b # xs) (c # d # ys) = (case maxloc_pair (a, b) (c, d) of (v, l) \<Rightarrow> v # l # maxloc_words xs ys)"
| "maxloc_words xs ys = xs"

definition SM_REDUCE_OP :: "reduce_op \<Rightarrow> nat \<Rightarrow> u64 list \<Rightarrow> u64 list \<Rightarrow> u64 list option" where
  "SM_REDUCE_OP uop count d1 d2 = (case uop of
       UTF_REDUCE_OP_SUM \<Rightarrow> Some (zip_first count (+) d1 d2)
     | UTF_REDUCE_OP_BAND \<Rightarrow> Some (zip_first count (AND) d1 d2)
     | UTF_REDUCE_OP_BOR \<Rightarrow> Some (zip_first count (OR) d1 d2)
     | UTF_REDUCE_OP_BXOR \<Rightarrow> Some (zip_first count (XOR) d1 d2)
     | UTF_REDUCE_OP_MAX \<Rightarrow> Some (zip_first count (\<lambda>a b. if a < b then b else a) d1 d2)
     | UTF_REDUCE_OP_MAXLOC \<Rightarrow> Some (maxloc_words (take count d1) (take count d2) @ drop count d1)
     | _ \<Rightarrow> None)"

section \<open>Collecting the values of the node\<close>

text \<open>
  One iteration of the loop at distance \<open>i\<close>: the value is stored and the loop is left, the
  partner's value is not there yet, it has been combined and the loop goes on with the
  given rank, or the operation is not one of the switch.
\<close>

datatype sm_iter_result = Sm_stored "nat \<Rightarrow> u64" "nat \<Rightarrow> u64 list" | Sm_wait utf_bg_poll_info
  | Sm_next nat utf_bg_poll_info | Sm_error

definition sm_iter :: "(u64 list \<Rightarrow> u64 list \<Rightarrow> u64 list option) \<Rightarrow> nat \<Rightarrow> nat \<Rightarrow> nat \<Rightarrow> utf_bg_poll_info
    \<Rightarrow> (nat \<Rightarrow> u64) \<Rightarrow> (nat \<Rightarrow> u64 list) \<Rightarrow> sm_iter_result" where
  "sm_iter comb count i rank p seq buf =
     (if rank mod 2 \<noteq> 0 \<or> (rank + 1) * i \<ge> sm_numproc p then
        Sm_stored (seq(rank * i := sm_seq_val p))
          (buf(rank * i := take count (utf_bg_poll_idata p) @ drop count (buf (rank * i))))
      else if seq ((rank + 1) * i) \<noteq> sm_seq_val p then
        Sm_wait (p\<lparr>sm_loop_counter := i, sm_loop_rank := rank\<rparr>)
      else (case comb (utf_bg_poll_idata p) (buf ((rank + 1) * i)) of
          None \<Rightarrow> Sm_error
        | Some d \<Rightarrow> Sm_next (rank div 2) (p\<lparr>utf_bg_poll_idata := d\<rparr>)))"

text \<open>The loop: it is left with a return code, or runs to its end.\<close>

partial_function (option) sm_collect :: "(u64 list \<Rightarrow> u64 list \<Rightarrow> u64 list option) \<Rightarrow> nat \<Rightarrow> nat \<Rightarrow> nat \<Rightarrow> 'w vbg
    \<Rightarrow> (vrc option \<times> 'w vbg) option" where
  "sm_collect comb count i rank s =
     (if i < sm_numproc (pinfo s) then
        (case sm_iter comb count i rank (pinfo s) (shm_seq s) (shm_buf s) of
            Sm_stored seq buf \<Rightarrow> Some (None, s\<lparr>shm_seq := seq, shm_buf := buf\<rparr>)
          | Sm_wait p \<Rightarrow> Some (Some V_ERR_NOT_COMPLETED, s\<lparr>pinfo := p\<rparr>)
          | Sm_error \<Rightarrow> Some (Some V_ERR_INTERNAL, s)
          | Sm_next rank' p \<Rightarrow> sm_collect comb count (2 * i) rank' (s\<lparr>pinfo := p\<rparr>))
      else Some (None, s))"

section \<open>Starting and completing\<close>

text \<open>After the collection the leader starts the barrier gate.\<close>

definition sm_start :: "(u64 \<Rightarrow> u64 list \<Rightarrow> 'w \<Rightarrow> vrc \<times> 'w) \<Rightarrow> nat \<Rightarrow> 'w vbg \<Rightarrow> vrc option \<times> 'w vbg" where
  "sm_start start count s = (let p = pinfo s in
     if utf_bg_poll_ids p \<noteq> -1 then
       (case start (utf_bg_poll_ids p) (take count (utf_bg_poll_idata p)) (vworld s) of (rc, w) \<Rightarrow>
          if rc \<noteq> V_SUCCESS then (Some rc, s\<lparr>vworld := w\<rparr>)
          else (None, s\<lparr>vworld := w, pinfo := p\<lparr>sm_flg_comm_start := True\<rparr>\<rparr>))
     else (None, s\<lparr>pinfo := p\<lparr>sm_flg_comm_start := True\<rparr>\<rparr>))"

text \<open>The leader waits for the barrier gate and publishes the result, the workers wait for it.\<close>

definition sm_complete :: "(u64 \<Rightarrow> 'w \<Rightarrow> vrc \<times> u64 list \<times> 'w) \<Rightarrow> nat \<Rightarrow> 'w vbg \<Rightarrow> vrc option \<times> 'w vbg" where
  "sm_complete poll count s = (let p = pinfo s in
     if utf_bg_poll_ids p \<noteq> -1 then
       (case poll (utf_bg_poll_ids p) (vworld s) of (rc, ws, w) \<Rightarrow>
          if rc \<noteq> V_SUCCESS then (Some rc, s\<lparr>vworld := w\<rparr>)
          else let s1 = put_odata ws (s\<lparr>vworld := w\<rparr>) in
            (None, s1\<lparr>shm_buf := (shm_buf s)(0 := take count (utf_bg_poll_odata (pinfo s1)) @ drop count (shm_buf s 0)),
                      shm_seq := (shm_seq s)(0 := sm_seq_val p)\<rparr>))
     else if shm_seq s 0 \<noteq> sm_seq_val p then (Some V_ERR_NOT_COMPLETED, s)
     else (None, put_odata (take count (shm_buf s 0)) s))"

text \<open>The frame of the three poll functions.\<close>

definition sm_poll :: "(u64 list \<Rightarrow> u64 list \<Rightarrow> u64 list option) \<Rightarrow> (u64 \<Rightarrow> u64 list \<Rightarrow> 'w \<Rightarrow> vrc \<times> 'w)
    \<Rightarrow> (u64 \<Rightarrow> 'w \<Rightarrow> vrc \<times> u64 list \<times> 'w) \<Rightarrow> nat \<Rightarrow> ('w vbg \<Rightarrow> 'w pres) \<Rightarrow> 'w vbg \<Rightarrow> 'w pres" where
  "sm_poll comb start poll count fin s =
     (let finish = (\<lambda>s1. case sm_complete poll count s1 of
          (Some rc, s2) \<Rightarrow> ret (rc, None, s2)
        | (None, s2) \<Rightarrow> fin s2) in
      if sm_flg_comm_start (pinfo s) then finish s
      else (case sm_collect comb count (sm_loop_counter (pinfo s)) (sm_loop_rank (pinfo s)) s of
          None \<Rightarrow> None
        | Some (Some rc, s1) \<Rightarrow> ret (rc, None, s1)
        | Some (None, s1) \<Rightarrow> (case sm_start start count s1 of
              (Some rc, s2) \<Rightarrow> ret (rc, None, s2)
            | (None, s2) \<Rightarrow> finish s2)))"

definition utf_poll_barrier_sm :: "'w vbgapi \<Rightarrow> 'w vbg \<Rightarrow> (vrc \<times> 'w vbg) outcome" where
  "utf_poll_barrier_sm api s = bindO (sm_poll (\<lambda>a b. Some a) (\<lambda>ids _. v_barrier api ids)
       (\<lambda>ids w. case v_poll_barrier api ids w of (rc, w') \<Rightarrow> (rc, [], w')) 0 (\<lambda>s. ret (V_SUCCESS, None, s)) s)
     (\<lambda>(rc, _, s'). ret (rc, s'))"

definition utf_poll_reduce_double_sm :: "'w vbgapi \<Rightarrow> bool \<Rightarrow> 'w vbg \<Rightarrow> 'w pres" where
  "utf_poll_reduce_double_sm api data s = (let count = utf_bg_poll_numcount (pinfo s) in
     sm_poll (\<lambda>a b. Some (zip_first count (f64_add api) a b)) (\<lambda>ids. v_reduce_double api ids (sm_utofu_op (pinfo s)))
       (v_poll_reduce_double api) count
       (\<lambda>s'. if utf_bg_poll_size (pinfo s') = 8 then UTF_BG_SET_RESULT_DOUBLE data s'
             else if utf_bg_poll_size (pinfo s') = 4 then UTF_BG_SET_RESULT_FLOAT api data s'
             else if utf_bg_poll_size (pinfo s') = 2 then UTF_BG_SET_RESULT_FLOAT16 api data s'
             else ret (V_ERR_INTERNAL, None, s')) s)"

text \<open>The result of a reduction on integers, by the operation the caller asked for.\<close>

definition sm_set_result :: "bool \<Rightarrow> 'w vbg \<Rightarrow> 'w pres" where
  "sm_set_result data s = (case utf_bg_poll_op (pinfo s) of
       UTF_BG_BCAST \<Rightarrow> UTF_BG_SET_RESULT_BCAST data s
     | Reduce_op uop \<Rightarrow>
         if uop = UTF_REDUCE_OP_SUM then UTF_BG_SET_RESULT_UINT64 data s
         else if uop \<in> {UTF_REDUCE_OP_MAX, UTF_REDUCE_OP_MIN} then
           (if UTF_DATATYPE_DIV_REAL = drop_bit 24 (utf_bg_poll_datatype (pinfo s)) then UTF_BG_SET_RESULT_DOUBLE_MAX_MIN data s
            else UTF_BG_SET_RESULT_UINT64_MAX_MIN data s)
         else if uop \<in> {UTF_REDUCE_OP_MAXLOC, UTF_REDUCE_OP_MINLOC} then UTF_BG_SET_RESULT_MAXMIN_LOC data s
         else if uop \<in> {UTF_REDUCE_OP_BAND, UTF_REDUCE_OP_BOR, UTF_REDUCE_OP_BXOR} then UTF_BG_SET_RESULT_BITWISE data s
         else if uop \<in> {UTF_REDUCE_OP_LAND, UTF_REDUCE_OP_LOR, UTF_REDUCE_OP_LXOR} then UTF_BG_SET_RESULT_LOGICAL data s
         else ret (V_ERR_INTERNAL, None, s))"

definition utf_poll_reduce_uint64_sm :: "'w vbgapi \<Rightarrow> bool \<Rightarrow> 'w vbg \<Rightarrow> 'w pres" where
  "utf_poll_reduce_uint64_sm api data s = (let count = utf_bg_poll_numcount (pinfo s); uop = sm_utofu_op (pinfo s) in
     sm_poll (SM_REDUCE_OP uop count) (\<lambda>ids. v_reduce_uint64 api ids uop)
       (v_poll_reduce_uint64 api) count (sm_set_result data) s)"

section \<open>The loop ends\<close>

lemma sm_iter_next_numproc: "sm_iter comb count i rank p seq buf = Sm_next r q \<Longrightarrow> sm_numproc q = sm_numproc p"
  by (auto simp: sm_iter_def split: if_splits option.splits)

lemma sm_collect_total:
  assumes "0 < i"
  shows "\<exists>y. sm_collect comb count i rank s = Some y"
  using assms
proof (induction "sm_numproc (pinfo s) - i" arbitrary: i rank s rule: less_induct)
  case less
  show ?case
  proof (cases "i < sm_numproc (pinfo s)")
    case True
    have "\<exists>y. sm_collect comb count (2 * i) r (s\<lparr>pinfo := q\<rparr>) = Some y"
      if "sm_iter comb count i rank (pinfo s) (shm_seq s) (shm_buf s) = Sm_next r q" for r q
      using less.prems True sm_iter_next_numproc [OF that] by (intro less.hyps) simp_all
    then show ?thesis by (subst sm_collect.simps) (simp split: sm_iter_result.split)
  qed (simp add: sm_collect.simps)
qed

end
