(* ===== verification/Vbg_Tree.thy ===== *)
theory Vbg_Tree
  imports Vbg_Sm
begin

text \<open>
  The processes of a node together: an interleaving of the steps of
  \<open>src/src/vbg/utf_bg_barrier_sm.c\<close> over the shared memory, round after round. One step is
  the start of a collective, one iteration of the collecting loop (\<open>sm_iter\<close>), the post
  to the barrier gate, its answer, or the end of a worker's wait. A slot's data and its
  sequence number are written in one step: the memory barriers order them, and nobody reads
  the data before the number.
\<close>

section \<open>The node\<close>

text \<open>Where a process is in a collective; process 0 is the leader.\<close>

datatype sm_pc = Sm_idle | Sm_collect nat nat | Sm_posted | Sm_waiting

record node =
  n_seq :: "nat \<Rightarrow> u64"
  n_buf :: "nat \<Rightarrow> u64 list"
  n_pi :: "nat \<Rightarrow> utf_bg_poll_info"
  n_pc :: "nat \<Rightarrow> sm_pc"
  n_in :: "nat \<Rightarrow> u64 list"
  n_out :: "nat \<Rightarrow> u64 list"
  n_res :: "u64 list"

text \<open>\<open>UTF_BG_INIT_SM_COMMON\<close> and the encoded data.\<close>

definition node_init :: "nat \<Rightarrow> nat \<Rightarrow> u64 list \<Rightarrow> utf_bg_poll_info \<Rightarrow> utf_bg_poll_info" where
  "node_init n p d q = q\<lparr>sm_numproc := n, sm_intra_index := p, sm_seq_val := sm_seq_val q + 1, sm_flg_comm_start := False,
     sm_loop_counter := 1, sm_loop_rank := p, utf_bg_poll_idata := d\<rparr>"

definition after_collect :: "nat \<Rightarrow> sm_pc" where
  "after_collect p = (if p = 0 then Sm_posted else Sm_waiting)"

inductive node_step :: "(u64 list \<Rightarrow> u64 list \<Rightarrow> u64 list option) \<Rightarrow> nat \<Rightarrow> nat \<Rightarrow> node \<Rightarrow> node \<Rightarrow> bool"
  for comb :: "u64 list \<Rightarrow> u64 list \<Rightarrow> u64 list option" and count n :: nat where
  n_start: "p < n \<Longrightarrow> n_pc s p = Sm_idle \<Longrightarrow> count \<le> length d \<Longrightarrow>
    node_step comb count n s (s\<lparr>n_pi := (n_pi s)(p := node_init n p d (n_pi s p)), n_pc := (n_pc s)(p := Sm_collect 1 p),
      n_in := (n_in s)(p := take count d)\<rparr>)"
| n_store: "p < n \<Longrightarrow> n_pc s p = Sm_collect i rank \<Longrightarrow> i < n \<Longrightarrow>
    sm_iter comb count i rank (n_pi s p) (n_seq s) (n_buf s) = Sm_stored sq bf \<Longrightarrow>
    node_step comb count n s (s\<lparr>n_seq := sq, n_buf := bf, n_pc := (n_pc s)(p := after_collect p)\<rparr>)"
| n_wait: "p < n \<Longrightarrow> n_pc s p = Sm_collect i rank \<Longrightarrow> i < n \<Longrightarrow>
    sm_iter comb count i rank (n_pi s p) (n_seq s) (n_buf s) = Sm_wait q \<Longrightarrow>
    node_step comb count n s (s\<lparr>n_pi := (n_pi s)(p := q)\<rparr>)"
| n_next: "p < n \<Longrightarrow> n_pc s p = Sm_collect i rank \<Longrightarrow> i < n \<Longrightarrow>
    sm_iter comb count i rank (n_pi s p) (n_seq s) (n_buf s) = Sm_next rank' q \<Longrightarrow>
    node_step comb count n s (s\<lparr>n_pi := (n_pi s)(p := q), n_pc := (n_pc s)(p := Sm_collect (2 * i) rank')\<rparr>)"
| n_collected: "p < n \<Longrightarrow> n_pc s p = Sm_collect i rank \<Longrightarrow> \<not> i < n \<Longrightarrow>
    node_step comb count n s (s\<lparr>n_pc := (n_pc s)(p := after_collect p)\<rparr>)"
| n_answer: "n_pc s 0 = Sm_posted \<Longrightarrow> length res = count \<Longrightarrow>
    node_step comb count n s (s\<lparr>n_buf := (n_buf s)(0 := res @ drop count (n_buf s 0)), n_seq := (n_seq s)(0 := sm_seq_val (n_pi s 0)),
      n_pc := (n_pc s)(0 := Sm_idle), n_out := (n_out s)(0 := res), n_res := res\<rparr>)"
| n_finish: "p < n \<Longrightarrow> n_pc s p = Sm_waiting \<Longrightarrow> n_seq s 0 = sm_seq_val (n_pi s p) \<Longrightarrow>
    node_step comb count n s (s\<lparr>n_pc := (n_pc s)(p := Sm_idle), n_out := (n_out s)(p := take count (n_buf s 0))\<rparr>)"

text \<open>Between two collectives: all processes idle, with the same sequence number everywhere.\<close>

definition node_ready :: "nat \<Rightarrow> nat \<Rightarrow> node \<Rightarrow> bool" where
  "node_ready count n s \<longleftrightarrow> (\<forall>p<n. n_pc s p = Sm_idle \<and> sm_seq_val (n_pi s p) = n_seq s 0 \<and> n_seq s p = n_seq s 0
     \<and> count \<le> length (n_buf s p)) \<and> take count (n_buf s 0) = n_res s"

definition reachable :: "(u64 list \<Rightarrow> u64 list \<Rightarrow> u64 list option) \<Rightarrow> nat \<Rightarrow> nat \<Rightarrow> node \<Rightarrow> bool" where
  "reachable comb count n s \<longleftrightarrow> (\<exists>s0. node_ready count n s0 \<and> (node_step comb count n)\<^sup>*\<^sup>* s0 s)"

section \<open>The value of a subtree\<close>

text \<open>The value process \<open>p\<close> has after \<open>k\<close> levels: its own, combined with those of the following processes.\<close>

fun tree_val :: "(u64 list \<Rightarrow> u64 list \<Rightarrow> u64 list) \<Rightarrow> (nat \<Rightarrow> u64 list) \<Rightarrow> nat \<Rightarrow> nat \<Rightarrow> nat \<Rightarrow> u64 list" where
  "tree_val f v n 0 p = v p"
| "tree_val f v n (Suc k) p = (if p + 2 ^ k < n then f (tree_val f v n k p) (tree_val f v n k (p + 2 ^ k)) else tree_val f v n k p)"

lemma tree_val_cong:
  assumes "\<And>r. p \<le> r \<Longrightarrow> r < p + 2 ^ k \<Longrightarrow> r < n \<Longrightarrow> v r = v' r" and "p < n"
  shows "tree_val f v n k p = tree_val f v' n k p"
  using assms
proof (induction k arbitrary: p)
  case (Suc k)
  have "tree_val f v n k p = tree_val f v' n k p" using Suc.prems by (intro Suc.IH) auto
  moreover have "tree_val f v n k (p + 2 ^ k) = tree_val f v' n k (p + 2 ^ k)" if "p + 2 ^ k < n"
    using Suc.prems that by (intro Suc.IH) auto
  ultimately show ?case by simp
qed simp

lemma tree_val_end:
  assumes "n \<le> p + 2 ^ k" and "k \<le> k'"
  shows "tree_val f v n k' p = tree_val f v n k p"
  using assms(2)
proof (induction k' rule: dec_induct)
  case (step m)
  have "(2 :: nat) ^ k \<le> 2 ^ m" using step by (intro power_increasing) auto
  then have "\<not> p + 2 ^ m < n" using assms(1) by linarith
  then show ?case using step by simp
qed simp

section \<open>The invariant\<close>

text \<open>
  With \<open>c\<close> the number of the last completed collective, a process is still in it (it has to
  fetch the result, or is idle), or in the next one.
\<close>

definition behind :: "node \<Rightarrow> nat \<Rightarrow> bool" where
  "behind s p \<longleftrightarrow> sm_seq_val (n_pi s p) = n_seq s 0 \<and> n_seq s p = n_seq s 0 \<and> (n_pc s p = Sm_idle \<or> n_pc s p = Sm_waiting \<and> p \<noteq> 0)"

definition stored :: "node \<Rightarrow> nat \<Rightarrow> bool" where
  "stored s p \<longleftrightarrow> sm_seq_val (n_pi s p) = n_seq s 0 + 1 \<and> n_pc s p = Sm_waiting"

text \<open>The processes after \<open>p\<close> whose values are in the value of \<open>p\<close> after \<open>k\<close> levels have stored them.\<close>

definition covers :: "node \<Rightarrow> nat \<Rightarrow> nat \<Rightarrow> nat \<Rightarrow> bool" where
  "covers s n k p \<longleftrightarrow> (\<forall>r. p < r \<and> r < p + 2 ^ k \<and> r < n \<longrightarrow> stored s r)"

definition ahead :: "(u64 list \<Rightarrow> u64 list \<Rightarrow> u64 list) \<Rightarrow> nat \<Rightarrow> nat \<Rightarrow> node \<Rightarrow> nat \<Rightarrow> bool" where
  "ahead f count n s p \<longleftrightarrow> sm_seq_val (n_pi s p) = n_seq s 0 + 1 \<and> sm_numproc (n_pi s p) = n
     \<and> count \<le> length (utf_bg_poll_idata (n_pi s p)) \<and> length (n_in s p) = count \<and> (case n_pc s p of
       Sm_idle \<Rightarrow> False
     | Sm_collect i rank \<Rightarrow> n_seq s p = n_seq s 0 \<and> (\<exists>k. i = 2 ^ k \<and> p = rank * 2 ^ k \<and> covers s n k p
         \<and> take count (utf_bg_poll_idata (n_pi s p)) = tree_val f (n_in s) n k p)
     | Sm_posted \<Rightarrow> p = 0 \<and> (\<exists>k. n \<le> 2 ^ k \<and> covers s n k 0 \<and> take count (utf_bg_poll_idata (n_pi s 0)) = tree_val f (n_in s) n k 0)
     | Sm_waiting \<Rightarrow> p \<noteq> 0 \<and> n_seq s p = n_seq s 0 + 1 \<and> (\<exists>k. 2 ^ k dvd p \<and> (odd (p div 2 ^ k) \<or> n \<le> p + 2 ^ k) \<and> covers s n k p
         \<and> take count (n_buf s p) = tree_val f (n_in s) n k p))"

definition node_inv :: "(u64 list \<Rightarrow> u64 list \<Rightarrow> u64 list) \<Rightarrow> nat \<Rightarrow> nat \<Rightarrow> node \<Rightarrow> bool" where
  "node_inv f count n s \<longleftrightarrow> (\<forall>p<n. behind s p \<or> ahead f count n s p) \<and> (\<forall>p<n. count \<le> length (n_buf s p))
     \<and> take count (n_buf s 0) = n_res s"

lemma behind_not_ahead: "behind s p \<Longrightarrow> \<not> ahead f count n s p"
  by (simp add: behind_def ahead_def)

text \<open>Process \<open>p\<close> is left alone by a step that keeps what its part of the invariant is about.\<close>

lemma covers_mono: "covers s n k p \<Longrightarrow> (\<And>r. stored s r \<Longrightarrow> stored s' r) \<Longrightarrow> covers s' n k p"
  by (auto simp: covers_def)

lemma ahead_frame:
  assumes "ahead f count n s p" and "p < n" and "n_pi s' p = n_pi s p" "n_pc s' p = n_pc s p" "n_seq s' p = n_seq s p" "n_seq s' 0 = n_seq s 0"
    and "n_buf s' p = n_buf s p" and st: "\<And>r. stored s r \<Longrightarrow> stored s' r \<and> n_in s' r = n_in s r" and "n_in s' p = n_in s p"
  shows "ahead f count n s' p"
proof -
  have tv: "tree_val f (n_in s') n k p = tree_val f (n_in s) n k p" if "covers s n k p" for k
    using that st assms(2,9) by (intro tree_val_cong) (metis covers_def nat_less_le)+
  have cv: "covers s n k p \<Longrightarrow> covers s' n k p" for k using st by (blast intro: covers_mono)
  have p0: "covers s n k 0 \<Longrightarrow> p = 0 \<Longrightarrow> covers s' n k 0 \<and> tree_val f (n_in s') n k 0 = tree_val f (n_in s) n k 0" for k
    using tv cv by blast
  show ?thesis using assms(1,3-7,9) unfolding ahead_def
    by (cases "n_pc s p") (auto simp: tv intro: cv, (metis cv tv p0)+)
qed

text \<open>A process that reads its partner's slot: the partner has stored the value of its half.\<close>

lemma partner_value:
  assumes inv: "node_inv f count n s" and q: "q < n" "0 < q" and seq: "n_seq s q = n_seq s 0 + 1" and odd: "odd (q div 2 ^ k)" "2 ^ k dvd q"
  shows "stored s q \<and> covers s n k q \<and> take count (n_buf s q) = tree_val f (n_in s) n k q"
proof -
  have "\<not> behind s q" using seq by (simp add: behind_def)
  then have "ahead f count n s q" using inv q by (auto simp: node_inv_def)
  then obtain k' where k': "2 ^ k' dvd q" "odd (q div 2 ^ k') \<or> n \<le> q + 2 ^ k'" "covers s n k' q" "stored s q"
      "take count (n_buf s q) = tree_val f (n_in s) n k' q"
    using seq q by (auto simp: ahead_def stored_def split: sm_pc.splits)
  have le: "k' \<le> k"
  proof (rule ccontr)
    assume "\<not> k' \<le> k"
    then have "(2 :: nat) ^ Suc k dvd q" using k'(1) by (meson Suc_leI not_le_imp_less le_imp_power_dvd dvd_trans)
    then have "even (q div 2 ^ k)" by (metis dvd_mult_div_cancel dvd_mult_imp_div mult.commute odd(2) power_Suc2)
    then show False using odd by simp
  qed
  show ?thesis
  proof (cases "n \<le> q + 2 ^ k'")
    case True
    have "covers s n k q" using k'(3) True by (auto simp: covers_def)
    then show ?thesis using k' True tree_val_end [OF True le] by simp
  next
    case False
    then have o: "odd (q div 2 ^ k')" using k' by simp
    have "k' = k"
    proof (rule ccontr)
      assume "k' \<noteq> k"
      then have "(2 :: nat) ^ Suc k' dvd q" using le odd(2) by (meson Suc_leI le_neq_implies_less le_imp_power_dvd dvd_trans)
      then have "even (q div 2 ^ k')" by (metis dvd_mult_div_cancel dvd_mult_imp_div mult.commute k'(1) power_Suc2)
      then show False using o by simp
    qed
    then show ?thesis using k' by simp
  qed
qed

text \<open>The work left in a collective that all processes have entered.\<close>

definition pc_work :: "nat \<Rightarrow> sm_pc \<Rightarrow> nat" where
  "pc_work n pc = (case pc of Sm_idle \<Rightarrow> 0 | Sm_waiting \<Rightarrow> 1 | Sm_posted \<Rightarrow> 1 | Sm_collect i rank \<Rightarrow> 2 + (n - i))"

definition node_work :: "nat \<Rightarrow> node \<Rightarrow> nat" where
  "node_work n s = (\<Sum>p<n. pc_work n (n_pc s p))"

locale node_op =
  fixes comb :: "u64 list \<Rightarrow> u64 list \<Rightarrow> u64 list option" and count :: nat and f :: "u64 list \<Rightarrow> u64 list \<Rightarrow> u64 list"
  assumes comb_ok: "count \<le> length a \<Longrightarrow> count \<le> length b \<Longrightarrow>
    \<exists>d. comb a b = Some d \<and> count \<le> length d \<and> take count d = f (take count a) (take count b)"
begin

lemma inv_frame:
  assumes "node_inv f count n s" and "n_seq s' 0 = n_seq s 0" and "n_res s' = n_res s" and "n_buf s' 0 = n_buf s 0"
    and "\<And>r. r \<noteq> p \<Longrightarrow> n_pi s' r = n_pi s r \<and> n_pc s' r = n_pc s r \<and> n_seq s' r = n_seq s r \<and> n_buf s' r = n_buf s r \<and> n_in s' r = n_in s r"
    and "stored s p \<Longrightarrow> stored s' p \<and> n_in s' p = n_in s p" and "count \<le> length (n_buf s' p)"
    and "behind s' p \<or> ahead f count n s' p"
  shows "node_inv f count n s'"
proof -
  have st: "stored s r \<Longrightarrow> stored s' r \<and> n_in s' r = n_in s r" for r
    using assms(2,5,6) by (cases "r = p") (auto simp: stored_def)
  have "behind s' r \<or> ahead f count n s' r" if "r < n" "r \<noteq> p" for r
  proof (cases "behind s r")
    case True
    then show ?thesis using assms(2,5) that by (auto simp: behind_def)
  next
    case False
    then have "ahead f count n s r" using assms(1) that by (auto simp: node_inv_def)
    then have "ahead f count n s' r" using that assms(2,5) st by (intro ahead_frame [of f count n s r s']) auto
    then show ?thesis ..
  qed
  moreover have "count \<le> length (n_buf s' r)" if "r < n" for r
    using assms(1,5,7) that by (cases "r = p") (auto simp: node_inv_def)
  ultimately show ?thesis using assms(1,3,4,8) by (auto simp: node_inv_def)
qed

lemma inv_start:
  assumes "node_inv f count n s" "p < n" "n_pc s p = Sm_idle" "count \<le> length d"
  shows "node_inv f count n (s\<lparr>n_pi := (n_pi s)(p := node_init n p d (n_pi s p)), n_pc := (n_pc s)(p := Sm_collect 1 p),
      n_in := (n_in s)(p := take count d)\<rparr>)" (is "node_inv _ _ _ ?s'")
proof -
  have b: "behind s p" using assms by (auto simp: node_inv_def ahead_def)
  have "ahead f count n ?s' p" using assms b
    by (auto simp: ahead_def node_init_def behind_def covers_def intro!: exI [of _ 0])
  then show ?thesis using assms b by (intro inv_frame [of n s ?s' p]) (auto simp: stored_def node_inv_def)
qed

text \<open>What the invariant says of a process in the loop.\<close>

lemma collecting:
  assumes "node_inv f count n s" "p < n" "n_pc s p = Sm_collect i rank"
  obtains k where "i = 2 ^ k" "p = rank * 2 ^ k" "covers s n k p" "take count (utf_bg_poll_idata (n_pi s p)) = tree_val f (n_in s) n k p"
    "sm_seq_val (n_pi s p) = n_seq s 0 + 1" "sm_numproc (n_pi s p) = n" "n_seq s p = n_seq s 0" "count \<le> length (utf_bg_poll_idata (n_pi s p))" "length (n_in s p) = count"
proof -
  have "ahead f count n s p" using assms by (auto simp: node_inv_def behind_def)
  then show ?thesis using assms(3) that by (auto simp: ahead_def)
qed

lemma inv_store:
  assumes "node_inv f count n s" "p < n" "n_pc s p = Sm_collect i rank" "i < n"
    and "sm_iter comb count i rank (n_pi s p) (n_seq s) (n_buf s) = Sm_stored sq bf"
  shows "node_inv f count n (s\<lparr>n_seq := sq, n_buf := bf, n_pc := (n_pc s)(p := after_collect p)\<rparr>)" (is "node_inv _ _ _ ?s'")
proof -
  obtain k where k: "i = 2 ^ k" "p = rank * 2 ^ k" "covers s n k p" "take count (utf_bg_poll_idata (n_pi s p)) = tree_val f (n_in s) n k p"
    "sm_seq_val (n_pi s p) = n_seq s 0 + 1" "sm_numproc (n_pi s p) = n" "n_seq s p = n_seq s 0" "count \<le> length (utf_bg_poll_idata (n_pi s p))" "length (n_in s p) = count"
    by (rule collecting [OF assms(1-3)])
  have c: "odd rank \<or> n \<le> (rank + 1) * 2 ^ k" and sq: "sq = (n_seq s)(p := n_seq s 0 + 1)"
    and bf: "bf = (n_buf s)(p := take count (utf_bg_poll_idata (n_pi s p)) @ drop count (n_buf s p))"
    using assms(5) k by (auto simp: sm_iter_def odd_iff_mod_2_eq_one split: if_splits option.splits)
  have p0: "p \<noteq> 0" using c k(1,2) assms(4) by (cases rank) auto
  have st: "\<not> stored s p" using assms(3) by (simp add: stored_def)
  have cov: "covers ?s' n k p" using k(3) p0 st by (auto simp: covers_def stored_def sq after_collect_def)
  have "take count (bf p) = take count (utf_bg_poll_idata (n_pi s p))" using k(8) by (simp add: bf)
  then have tb: "take count (bf p) = tree_val f (n_in s) n k p" by (simp only: k(4))
  have "ahead f count n ?s' p"
    using k(2,5,6,8,9) p0 c cov tb unfolding ahead_def by (auto simp: sq after_collect_def algebra_simps intro!: exI [of _ k])
  moreover have "count \<le> length (bf p)" using k(8) by (simp add: bf)
  ultimately show ?thesis using assms p0 st by (intro inv_frame [of n s ?s' p]) (auto simp: sq bf)
qed

lemma inv_wait:
  assumes "node_inv f count n s" "p < n" "n_pc s p = Sm_collect i rank" "i < n"
    and "sm_iter comb count i rank (n_pi s p) (n_seq s) (n_buf s) = Sm_wait q"
  shows "node_inv f count n (s\<lparr>n_pi := (n_pi s)(p := q)\<rparr>)" (is "node_inv _ _ _ ?s'")
proof -
  have q: "q = (n_pi s p)\<lparr>sm_loop_counter := i, sm_loop_rank := rank\<rparr>"
    using assms(5) by (auto simp: sm_iter_def split: if_splits option.splits)
  have st: "stored ?s' r = stored s r" for r by (simp add: stored_def q)
  have "ahead f count n s p" using assms by (auto simp: node_inv_def behind_def)
  then have "ahead f count n ?s' p" unfolding ahead_def covers_def st using assms(3) by (simp add: q)
  then show ?thesis using assms st by (intro inv_frame [of n s ?s' p]) (auto simp: node_inv_def)
qed

lemma inv_next:
  assumes "node_inv f count n s" "p < n" "n_pc s p = Sm_collect i rank" "i < n"
    and "sm_iter comb count i rank (n_pi s p) (n_seq s) (n_buf s) = Sm_next rank' q"
  shows "node_inv f count n (s\<lparr>n_pi := (n_pi s)(p := q), n_pc := (n_pc s)(p := Sm_collect (2 * i) rank')\<rparr>)" (is "node_inv _ _ _ ?s'")
proof -
  obtain k where k: "i = 2 ^ k" "p = rank * 2 ^ k" "covers s n k p" "take count (utf_bg_poll_idata (n_pi s p)) = tree_val f (n_in s) n k p"
    "sm_seq_val (n_pi s p) = n_seq s 0 + 1" "sm_numproc (n_pi s p) = n" "n_seq s p = n_seq s 0" "count \<le> length (utf_bg_poll_idata (n_pi s p))" "length (n_in s p) = count"
    by (rule collecting [OF assms(1-3)])
  let ?q = "p + 2 ^ k"
  have qe: "(rank + 1) * i = ?q" using k by simp
  have c: "even rank" "?q < n" "n_seq s ?q = n_seq s 0 + 1" "rank' = rank div 2"
    and d: "\<exists>d. comb (utf_bg_poll_idata (n_pi s p)) (n_buf s ?q) = Some d \<and> q = (n_pi s p)\<lparr>utf_bg_poll_idata := d\<rparr>"
    using assms(5) k(5,6) unfolding sm_iter_def qe by (auto simp: even_iff_mod_2_eq_zero split: if_splits option.splits)
  have "2 ^ k dvd ?q" "?q div 2 ^ k = Suc rank" using k(2) by simp_all
  then have pv: "stored s ?q" "covers s n k ?q" "take count (n_buf s ?q) = tree_val f (n_in s) n k ?q"
    using partner_value [OF assms(1) c(2) _ c(3), of k] c(1) by auto
  obtain d where d: "q = (n_pi s p)\<lparr>utf_bg_poll_idata := d\<rparr>" "count \<le> length d"
      "take count d = f (tree_val f (n_in s) n k p) (tree_val f (n_in s) n k ?q)"
    using d comb_ok [OF k(8), of "n_buf s ?q"] assms(1) c(2) k(4) pv(3) by (auto simp: node_inv_def)
  have st: "stored s r \<Longrightarrow> stored ?s' r" for r using assms(3) by (auto simp: stored_def)
  have "covers s n (Suc k) p"
    unfolding covers_def
  proof (intro allI impI)
    fix r assume r: "p < r \<and> r < p + 2 ^ Suc k \<and> r < n"
    consider "r < ?q" | "r = ?q" | "?q < r" by linarith
    then show "stored s r" using r k(3) pv by cases (auto simp: covers_def)
  qed
  then have cov: "covers ?s' n (Suc k) p" using st by (rule covers_mono)
  have "ahead f count n ?s' p"
    using k c d cov by (auto simp: ahead_def intro!: exI [of _ "Suc k"])
  then show ?thesis using assms st by (intro inv_frame [of n s ?s' p]) (auto simp: node_inv_def)
qed

lemma inv_collected:
  assumes "node_inv f count n s" "p < n" "n_pc s p = Sm_collect i rank" "\<not> i < n"
  shows "node_inv f count n (s\<lparr>n_pc := (n_pc s)(p := after_collect p)\<rparr>)" (is "node_inv _ _ _ ?s'")
proof -
  obtain k where k: "i = 2 ^ k" "p = rank * 2 ^ k" "covers s n k p" "take count (utf_bg_poll_idata (n_pi s p)) = tree_val f (n_in s) n k p"
    "sm_seq_val (n_pi s p) = n_seq s 0 + 1" "sm_numproc (n_pi s p) = n" "n_seq s p = n_seq s 0" "count \<le> length (utf_bg_poll_idata (n_pi s p))" "length (n_in s p) = count"
    by (rule collecting [OF assms(1-3)])
  have p0: "p = 0" using k(1,2) assms(2,4) by (cases rank) auto
  have st: "stored s r \<Longrightarrow> stored ?s' r" for r using assms(3) by (auto simp: stored_def)
  have "covers ?s' n k p" using k(3) st by (rule covers_mono)
  then have "ahead f count n ?s' p" using k p0 assms(4) by (auto simp: ahead_def after_collect_def intro!: exI [of _ k])
  then show ?thesis using assms st by (intro inv_frame [of n s ?s' p]) (auto simp: node_inv_def)
qed

lemma posted:
  assumes "node_inv f count n s" "0 < n" "n_pc s 0 = Sm_posted"
  obtains k where "n \<le> 2 ^ k" "take count (utf_bg_poll_idata (n_pi s 0)) = tree_val f (n_in s) n k 0"
    "sm_seq_val (n_pi s 0) = n_seq s 0 + 1" "\<And>r. 0 < r \<Longrightarrow> r < n \<Longrightarrow> stored s r"
proof -
  have "ahead f count n s 0" using assms by (auto simp: node_inv_def behind_def)
  then show ?thesis using assms(3) that by (auto simp: ahead_def covers_def)
qed

lemma inv_answer:
  assumes "node_inv f count n s" "0 < n" "n_pc s 0 = Sm_posted" "length res = count"
  shows "node_inv f count n (s\<lparr>n_buf := (n_buf s)(0 := res @ drop count (n_buf s 0)), n_seq := (n_seq s)(0 := sm_seq_val (n_pi s 0)),
      n_pc := (n_pc s)(0 := Sm_idle), n_out := (n_out s)(0 := res), n_res := res\<rparr>)" (is "node_inv _ _ _ ?s'")
proof -
  obtain k where k: "sm_seq_val (n_pi s 0) = n_seq s 0 + 1" "\<And>r. 0 < r \<Longrightarrow> r < n \<Longrightarrow> stored s r"
    by (rule posted [OF assms(1-3)]) blast
  have "behind ?s' r" if "r < n" for r
  proof (cases "r = 0")
    case False
    then have st: "stored s r" using k(2) that by simp
    then have "\<not> behind s r" by (simp add: stored_def behind_def)
    then have "ahead f count n s r" using assms(1) that by (auto simp: node_inv_def)
    then show ?thesis using st False by (simp add: ahead_def stored_def behind_def k(1))
  qed (simp add: behind_def)
  then show ?thesis using assms by (auto simp: node_inv_def)
qed

lemma inv_finish:
  assumes "node_inv f count n s" "p < n" "n_pc s p = Sm_waiting" "n_seq s 0 = sm_seq_val (n_pi s p)"
  shows "node_inv f count n (s\<lparr>n_pc := (n_pc s)(p := Sm_idle), n_out := (n_out s)(p := take count (n_buf s 0))\<rparr>)" (is "node_inv _ _ _ ?s'")
proof -
  have "\<not> ahead f count n s p" using assms(4) by (simp add: ahead_def)
  then have "behind s p" using assms by (auto simp: node_inv_def)
  then have "behind ?s' p" by (auto simp: behind_def)
  moreover have "\<not> stored s p" using assms(4) by (simp add: stored_def)
  ultimately show ?thesis using assms by (intro inv_frame [of n s ?s' p]) (auto simp: node_inv_def)
qed

lemma inv_step:
  assumes "node_step comb count n s s'" "node_inv f count n s" "0 < n"
  shows "node_inv f count n s'"
  using assms
proof (induction rule: node_step.induct)
  case (n_start p s d)
  then show ?case by (intro inv_start)
next
  case (n_store p s i rank sq bf)
  then show ?case by (intro inv_store)
next
  case (n_wait p s i rank q)
  then show ?case by (intro inv_wait)
next
  case (n_next p s i rank rank' q)
  then show ?case by (intro inv_next)
next
  case (n_collected p s i rank)
  then show ?case by (intro inv_collected)
next
  case (n_answer s res)
  then show ?case by (intro inv_answer)
next
  case (n_finish p s)
  then show ?case by (intro inv_finish)
qed

lemma inv_ready: "node_ready count n s \<Longrightarrow> node_inv f count n s"
  unfolding node_ready_def node_inv_def behind_def by blast

lemma inv_reachable:
  assumes "reachable comb count n s" "0 < n"
  shows "node_inv f count n s"
proof -
  obtain s0 where s0: "node_ready count n s0" "(node_step comb count n)\<^sup>*\<^sup>* s0 s" using assms(1) by (auto simp: reachable_def)
  show ?thesis using s0(2)
  proof (induction rule: rtranclp_induct)
    case base
    then show ?case using s0(1) by (rule inv_ready)
  next
    case (step y z)
    then show ?case using inv_step assms(2) by blast
  qed
qed

text \<open>The value the leader gives to the barrier gate.\<close>

lemma leader_value:
  assumes "reachable comb count n s" "0 < n" "n_pc s 0 = Sm_posted"
  shows "\<exists>k. n \<le> 2 ^ k \<and> take count (utf_bg_poll_idata (n_pi s 0)) = tree_val f (n_in s) n k 0"
    and "p < n \<Longrightarrow> sm_seq_val (n_pi s p) = sm_seq_val (n_pi s 0) \<and> length (n_in s p) = count"
proof -
  obtain k where k: "n \<le> 2 ^ k" "take count (utf_bg_poll_idata (n_pi s 0)) = tree_val f (n_in s) n k 0"
    "sm_seq_val (n_pi s 0) = n_seq s 0 + 1" "\<And>r. 0 < r \<Longrightarrow> r < n \<Longrightarrow> stored s r"
    by (rule posted [OF inv_reachable [OF assms(1,2)] assms(2,3)]) blast
  then show "\<exists>k. n \<le> 2 ^ k \<and> take count (utf_bg_poll_idata (n_pi s 0)) = tree_val f (n_in s) n k 0" by blast
  have sq: "sm_seq_val (n_pi s p) = n_seq s 0 + 1" if "p < n"
    using k(3) k(4) [of p] that by (cases "p = 0") (auto simp: stored_def)
  then show "sm_seq_val (n_pi s p) = sm_seq_val (n_pi s 0) \<and> length (n_in s p) = count" if "p < n"
    using k(3) inv_reachable [OF assms(1,2)] that by (auto simp: node_inv_def behind_def ahead_def)
qed

text \<open>Nobody is more than one collective ahead: who has left one knows that all have entered it.\<close>

lemma idle_round:
  assumes "reachable comb count n s" "p < n" "n_pc s p = Sm_idle" "q < n"
  shows "sm_seq_val (n_pi s q) = sm_seq_val (n_pi s p) \<or> sm_seq_val (n_pi s q) = sm_seq_val (n_pi s p) + 1"
proof -
  have inv: "node_inv f count n s" using inv_reachable assms by simp
  have "behind s p" using inv assms by (auto simp: node_inv_def ahead_def)
  moreover have "behind s q \<or> ahead f count n s q" using inv assms by (auto simp: node_inv_def)
  ultimately show ?thesis by (auto simp: behind_def ahead_def)
qed

lemma finish_result:
  assumes "reachable comb count n s" "p < n" "n_pc s p = Sm_waiting" "n_seq s 0 = sm_seq_val (n_pi s p)"
  shows "take count (n_buf s 0) = n_res s"
  using inv_reachable [OF assms(1)] assms(2) by (simp add: node_inv_def)

text \<open>No deadlock: when no process can start a collective, one of them can do a step other than looking again.\<close>

lemma progress:
  assumes "reachable comb count n s" "0 < n" "\<And>p. p < n \<Longrightarrow> n_pc s p \<noteq> Sm_idle"
  shows "\<exists>s'. node_step comb count n s s' \<and> n_pc s' \<noteq> n_pc s"
proof -
  have inv: "node_inv f count n s" by (rule inv_reachable [OF assms(1,2)])
  show ?thesis
  proof (cases "\<exists>p<n. \<exists>i rank. n_pc s p = Sm_collect i rank")
    case True
    let ?C = "\<lambda>p. p < n \<and> (\<exists>i rank. n_pc s p = Sm_collect i rank)"
    from True obtain p0 where "?C p0" by blast
    then have "\<exists>x. ?C x \<and> (\<forall>y. ?C y \<longrightarrow> y \<le> x)" by (rule ex_has_greatest_nat [where f = "\<lambda>p. p" and b = n]) simp
    then obtain p where p: "?C p" and mx: "\<And>r. ?C r \<Longrightarrow> r \<le> p" by blast
    then obtain i rank where pc: "n_pc s p = Sm_collect i rank" and pn: "p < n" by blast
    obtain k where k: "i = 2 ^ k" "p = rank * 2 ^ k" "sm_seq_val (n_pi s p) = n_seq s 0 + 1" "sm_numproc (n_pi s p) = n"
      "count \<le> length (utf_bg_poll_idata (n_pi s p))"
      by (rule collecting [OF inv pn pc]) blast
    have r: "(rank + 1) * i = p + 2 ^ k" using k by simp
    show ?thesis
    proof (cases "i < n")
      case False
      show ?thesis by (rule exI, rule conjI, rule n_collected [OF pn pc False]) (use pc in \<open>auto simp: after_collect_def dest: fun_cong [of _ _ p]\<close>)
    next
      case True
      show ?thesis
      proof (cases "sm_iter comb count i rank (n_pi s p) (n_seq s) (n_buf s)")
        case (Sm_stored sq bf)
        show ?thesis by (rule exI, rule conjI, rule n_store [OF pn pc True Sm_stored]) (use pc in \<open>auto simp: after_collect_def dest: fun_cong [of _ _ p]\<close>)
      next
        case (Sm_next rank' q)
        show ?thesis by (rule exI, rule conjI, rule n_next [OF pn pc True Sm_next]) (use pc k(1) in \<open>auto dest: fun_cong [of _ _ p]\<close>)
      next
        case (Sm_wait q)
        then have w: "p + 2 ^ k < n" "n_seq s (p + 2 ^ k) \<noteq> n_seq s 0 + 1"
          using k(3,4) unfolding sm_iter_def r by (auto split: if_splits option.splits)
        let ?r = "p + 2 ^ k"
        have nc: "n_pc s ?r \<noteq> Sm_collect j m" for j m using mx [of ?r] w(1) by auto
        then have "\<not> ahead f count n s ?r" using w(2) assms(3) [OF w(1)] by (auto simp: ahead_def split: sm_pc.splits)
        then have "behind s ?r" using inv w(1) by (auto simp: node_inv_def)
        then have "n_pc s ?r = Sm_waiting" "n_seq s 0 = sm_seq_val (n_pi s ?r)" using assms(3) [OF w(1)] by (auto simp: behind_def)
        then show ?thesis using n_finish [OF w(1), of s comb count] by (intro exI conjI) (assumption | auto dest: fun_cong [of _ _ ?r])+
      next
        case Sm_error
        then have "p + 2 ^ k < n" "comb (utf_bg_poll_idata (n_pi s p)) (n_buf s (p + 2 ^ k)) = None"
          using k(4) unfolding sm_iter_def r by (auto split: if_splits option.splits)
        then show ?thesis using comb_ok [OF k(5)] inv by (force simp: node_inv_def)
      qed
    qed
  next
    case False
    then have "ahead f count n s 0" using inv assms(2) assms(3) [OF assms(2)] by (auto simp: node_inv_def behind_def)
    then have po: "n_pc s 0 = Sm_posted" using False assms(2) assms(3) [OF assms(2)] by (auto simp: ahead_def split: sm_pc.splits)
    show ?thesis
      by (rule exI, rule conjI, rule n_answer [OF po, of "replicate count 0"]) (use po in \<open>auto dest: fun_cong [of _ _ 0]\<close>)
  qed
qed

lemma node_work_upd:
  assumes "p < n" "n_pc s' = (n_pc s)(p := x)" "pc_work n x < pc_work n (n_pc s p)"
  shows "node_work n s' < node_work n s"
proof -
  have "node_work n s' = pc_work n x + (\<Sum>r\<in>{..<n} - {p}. pc_work n (n_pc s r))"
    unfolding node_work_def using assms(1,2) by (subst sum.remove [of _ p]) auto
  moreover have "node_work n s = pc_work n (n_pc s p) + (\<Sum>r\<in>{..<n} - {p}. pc_work n (n_pc s r))"
    unfolding node_work_def using assms(1) by (subst sum.remove [of _ p]) auto
  ultimately show ?thesis using assms(3) by simp
qed

lemma step_work:
  assumes "node_step comb count n s s'" "node_inv f count n s" "0 < n" "\<And>p. p < n \<Longrightarrow> n_pc s p \<noteq> Sm_idle" "n_pc s' \<noteq> n_pc s"
  shows "node_work n s' < node_work n s \<and> (\<forall>p. sm_seq_val (n_pi s' p) = sm_seq_val (n_pi s p))"
  using assms
proof (induction rule: node_step.induct)
  case (n_store p s i rank sq bf)
  then show ?case by (auto intro!: node_work_upd simp: pc_work_def after_collect_def)
next
  case (n_next p s i rank rank' q)
  obtain k where "i = 2 ^ k" by (rule collecting [OF n_next.prems(1) n_next.hyps(1,2)])
  then have "0 < i" by simp
  moreover have "sm_seq_val q = sm_seq_val (n_pi s p)" using n_next.hyps(4) by (auto simp: sm_iter_def split: if_splits option.splits)
  ultimately show ?case using n_next.hyps by (auto intro!: node_work_upd simp: pc_work_def)
next
  case (n_collected p s i rank)
  then show ?case by (auto intro!: node_work_upd simp: pc_work_def after_collect_def)
next
  case (n_answer s res)
  then show ?case by (auto intro!: node_work_upd simp: pc_work_def)
next
  case (n_finish p s)
  then show ?case by (auto intro!: node_work_upd simp: pc_work_def)
qed auto

lemma reachable_step: "reachable comb count n s \<Longrightarrow> node_step comb count n s s' \<Longrightarrow> reachable comb count n s'"
  by (auto simp: reachable_def intro: rtranclp.rtrancl_into_rtrancl)

lemma completes:
  assumes "reachable comb count n s" "0 < n" "\<And>p. p < n \<Longrightarrow> sm_seq_val (n_pi s p) = x"
  shows "\<exists>s'. (node_step comb count n)\<^sup>*\<^sup>* s s' \<and> n_seq s' 0 = x \<and> (\<forall>p<n. n_pc s' p = Sm_idle \<and> sm_seq_val (n_pi s' p) = x)"
  using assms
proof (induction "node_work n s" arbitrary: s rule: less_induct)
  case less
  have inv: "node_inv f count n s" by (rule inv_reachable [OF less.prems(1,2)])
  have "\<exists>s'. node_step comb count n s s' \<and> node_work n s' < node_work n s \<and> (\<forall>p. sm_seq_val (n_pi s' p) = sm_seq_val (n_pi s p))"
    if busy: "\<not> (\<forall>p<n. n_pc s p = Sm_idle)"
  proof (cases "n_pc s 0 = Sm_idle")
    case True
    then have "behind s 0" using inv less.prems(2) by (auto simp: node_inv_def ahead_def)
    then have x: "n_seq s 0 = x" using less.prems(2,3) by (simp add: behind_def)
    obtain p where p: "p < n" "n_pc s p \<noteq> Sm_idle" using busy by blast
    then have "behind s p" using inv less.prems(3) [OF p(1)] x by (auto simp: node_inv_def ahead_def)
    then have w: "n_pc s p = Sm_waiting" "n_seq s 0 = sm_seq_val (n_pi s p)" using p(2) by (auto simp: behind_def)
    show ?thesis
      by (rule exI, rule conjI, rule n_finish [OF p(1) w]) (use w(1) p(1) in \<open>auto intro!: node_work_upd [of p] simp: pc_work_def\<close>)
  next
    case False
    then have a: "ahead f count n s 0" using inv less.prems(2) by (auto simp: node_inv_def behind_def)
    have busy: "n_pc s p \<noteq> Sm_idle" if "p < n" for p
    proof -
      have "\<not> behind s p" using a less.prems(2,3) less.prems(3) [OF that] by (auto simp: behind_def ahead_def)
      then show ?thesis using inv that by (auto simp: node_inv_def ahead_def)
    qed
    then obtain s' where "node_step comb count n s s'" "n_pc s' \<noteq> n_pc s" using progress [OF less.prems(1,2)] by blast
    then show ?thesis using step_work [OF _ inv less.prems(2) busy] by blast
  qed
  then show ?case
  proof (cases "\<forall>p<n. n_pc s p = Sm_idle")
    case True
    then have "behind s 0" using inv less.prems(2) by (auto simp: node_inv_def ahead_def)
    then show ?thesis using True less.prems(2,3) by (intro exI [of _ s]) (auto simp: behind_def)
  next
    case False
    then obtain s1 where s1: "node_step comb count n s s1" "node_work n s1 < node_work n s" "\<forall>p. sm_seq_val (n_pi s1 p) = sm_seq_val (n_pi s p)"
      using \<open>\<not> (\<forall>p<n. n_pc s p = Sm_idle) \<Longrightarrow> _\<close> by blast
    then obtain s' where "(node_step comb count n)\<^sup>*\<^sup>* s1 s'" "n_seq s' 0 = x" "\<forall>p<n. n_pc s' p = Sm_idle \<and> sm_seq_val (n_pi s' p) = x"
      using less.hyps [OF s1(2) reachable_step [OF less.prems(1) s1(1)] less.prems(2)] less.prems(3) by auto
    then show ?thesis using s1(1) by (intro exI [of _ s']) (auto intro: converse_rtranclp_into_rtranclp)
  qed
qed

end

section \<open>Associative operations\<close>

text \<open>For an associative operation the tree gives what combining the values in the order of the processes gives.\<close>

definition in_order :: "(u64 list \<Rightarrow> u64 list \<Rightarrow> u64 list) \<Rightarrow> (nat \<Rightarrow> u64 list) \<Rightarrow> nat \<Rightarrow> nat \<Rightarrow> u64 list" where
  "in_order f v p e = foldl f (v p) (map v [Suc p..<e])"

locale assoc_op = node_op +
  assumes f_length: "length x = count \<Longrightarrow> length y = count \<Longrightarrow> length (f x y) = count"
    and f_assoc: "length x = count \<Longrightarrow> length y = count \<Longrightarrow> length z = count \<Longrightarrow> f (f x y) z = f x (f y z)"
begin

lemma foldl_assoc:
  assumes "length a = count" "length b = count" "\<And>x. x \<in> set xs \<Longrightarrow> length x = count"
  shows "f a (foldl f b xs) = foldl f (f a b) xs"
  using assms
proof (induction xs arbitrary: b)
  case (Cons x xs)
  then have "f a (foldl f (f b x) xs) = foldl f (f a (f b x)) xs" by (intro Cons.IH) (auto simp: f_length)
  then show ?case using Cons.prems by (simp add: f_assoc)
qed simp

lemma foldl_length: "length a = count \<Longrightarrow> (\<And>x. x \<in> set xs \<Longrightarrow> length x = count) \<Longrightarrow> length (foldl f a xs) = count"
  by (induction xs arbitrary: a) (auto simp: f_length)

lemma tree_val_in_order:
  assumes "p < n" "\<And>r. r < n \<Longrightarrow> length (v r) = count"
  shows "tree_val f v n k p = in_order f v p (min (p + 2 ^ k) n)"
  using assms(1)
proof (induction k arbitrary: p)
  case 0
  then have "min (p + 2 ^ 0) n = Suc p" by simp
  then show ?case unfolding in_order_def by simp
next
  case (Suc k)
  let ?q = "p + 2 ^ k"
  show ?case
  proof (cases "?q < n")
    case True
    let ?e = "min (?q + 2 ^ k) n"
    have "tree_val f v n (Suc k) p = f (in_order f v p ?q) (in_order f v ?q ?e)"
      using True Suc.IH [of p] Suc.IH [of ?q] Suc.prems by simp
    also have "\<dots> = foldl f (f (in_order f v p ?q) (v ?q)) (map v [Suc ?q..<?e])"
      unfolding in_order_def [of f v ?q] using True Suc.prems assms(2)
      by (intro foldl_assoc) (auto simp: in_order_def intro!: foldl_length)
    also have "\<dots> = foldl f (v p) (map v ([Suc p..<?q] @ ?q # [Suc ?q..<?e]))" by (simp add: in_order_def)
    also have "[Suc p..<?q] @ ?q # [Suc ?q..<?e] = [Suc p..<?e]"
    proof -
      have "[Suc p..<?e] = [Suc p..<?q] @ [?q..<?e]" using True upt_add_eq_append [of "Suc p" ?q "?e - ?q"] by simp
      moreover have "[?q..<?e] = ?q # [Suc ?q..<?e]" using True by (intro upt_conv_Cons) simp
      ultimately show ?thesis by simp
    qed
    finally show ?thesis by (simp add: in_order_def add.assoc mult_2)
  next
    case False
    then have "min ?q n = n" "min (p + 2 ^ Suc k) n = n" by simp_all
    then show ?thesis using Suc.IH [OF Suc.prems] False by simp
  qed
qed

lemma leader_in_order:
  assumes "reachable comb count n s" "0 < n" "n_pc s 0 = Sm_posted"
  shows "take count (utf_bg_poll_idata (n_pi s 0)) = in_order f (n_in s) 0 n"
proof -
  obtain k where k: "n \<le> 2 ^ k" "take count (utf_bg_poll_idata (n_pi s 0)) = tree_val f (n_in s) n k 0"
    using leader_value(1) [OF assms] by blast
  then show ?thesis using tree_val_in_order [OF assms(2), of "n_in s" k] leader_value(2) [OF assms] by (simp add: min_def)
qed

end

section \<open>The operations of the library\<close>

text \<open>What \<open>SM_REDUCE_OP\<close> computes on the first \<open>count\<close> words.\<close>

definition sm_value :: "reduce_op \<Rightarrow> u64 list \<Rightarrow> u64 list \<Rightarrow> u64 list" where
  "sm_value uop x y = (case uop of UTF_REDUCE_OP_SUM \<Rightarrow> map2 (+) x y | UTF_REDUCE_OP_BAND \<Rightarrow> map2 (AND) x y
     | UTF_REDUCE_OP_BOR \<Rightarrow> map2 (OR) x y | UTF_REDUCE_OP_BXOR \<Rightarrow> map2 (XOR) x y | UTF_REDUCE_OP_MAX \<Rightarrow> map2 max x y
     | _ \<Rightarrow> maxloc_words x y)"

definition sm_op :: "reduce_op \<Rightarrow> bool" where
  "sm_op uop \<longleftrightarrow> uop \<in> {UTF_REDUCE_OP_SUM, UTF_REDUCE_OP_BAND, UTF_REDUCE_OP_BOR, UTF_REDUCE_OP_BXOR, UTF_REDUCE_OP_MAX, UTF_REDUCE_OP_MAXLOC}"

lemma length_maxloc_words [simp]: "length (maxloc_words x y) = length x"
  by (induction x y rule: maxloc_words.induct) (auto split: prod.splits)

lemma zip_first_take: "count \<le> length a \<Longrightarrow> count \<le> length b \<Longrightarrow>
  count \<le> length (zip_first count g a b) \<and> take count (zip_first count g a b) = map2 g (take count a) (take count b)"
  by (simp add: zip_first_def)

lemma map2_assoc: "(\<And>a b c. g (g a b) c = g a (g b c)) \<Longrightarrow> map2 g (map2 g x y) z = map2 g x (map2 g y z)"
proof (induction x arbitrary: y z)
  case (Cons a x)
  then show ?case by (cases y; cases z) auto
qed simp

lemma maxloc_pair_assoc: "maxloc_pair (maxloc_pair a b) c = maxloc_pair a (maxloc_pair b c)"
  by (cases a; cases b; cases c) (auto simp: maxloc_pair_def)

lemma maxloc_words_assoc:
  "length x = length y \<Longrightarrow> length y = length z \<Longrightarrow> maxloc_words (maxloc_words x y) z = maxloc_words x (maxloc_words y z)"
proof (induction x y arbitrary: z rule: maxloc_words.induct)
  case (1 a b xs c d ys)
  from 1(3) obtain e g zs where z: "z = e # g # zs" "length ys = length zs" by (cases z; cases "tl z") auto
  show ?case using 1 z maxloc_pair_assoc [of "(a, b)" "(c, d)" "(e, g)"] by (auto split: prod.splits)
qed (auto split: list.splits simp: length_Suc_conv)

lemma assoc_op_sm:
  assumes "sm_op uop"
  shows "assoc_op (SM_REDUCE_OP uop count) count (sm_value uop)"
proof
  fix a b :: "u64 list"
  assume l: "count \<le> length a" "count \<le> length b"
  have mx: "(\<lambda>a b :: u64. if a < b then b else a) = max" by (auto simp: max_def fun_eq_iff)
  show "\<exists>d. SM_REDUCE_OP uop count a b = Some d \<and> count \<le> length d \<and> take count d = sm_value uop (take count a) (take count b)"
    using assms l zip_first_take [OF l] by (auto simp: sm_op_def SM_REDUCE_OP_def sm_value_def mx)
next
  fix x y :: "u64 list"
  assume "length x = count" "length y = count"
  then show "length (sm_value uop x y) = count" using assms by (auto simp: sm_op_def sm_value_def)
next
  fix x y z :: "u64 list"
  assume "length x = count" "length y = count" "length z = count"
  then show "sm_value uop (sm_value uop x y) z = sm_value uop x (sm_value uop y z)"
    using assms by (auto simp: sm_op_def sm_value_def map2_assoc maxloc_words_assoc ac_simps and.assoc or.assoc xor.assoc max.assoc)
qed

interpretation sum_node: assoc_op "SM_REDUCE_OP UTF_REDUCE_OP_SUM count" count "sm_value UTF_REDUCE_OP_SUM" for count
  by (rule assoc_op_sm) (simp add: sm_op_def)

interpretation maxloc_node: assoc_op "SM_REDUCE_OP UTF_REDUCE_OP_MAXLOC count" count "sm_value UTF_REDUCE_OP_MAXLOC" for count
  by (rule assoc_op_sm) (simp add: sm_op_def)

text \<open>The barrier moves no data; the sum of doubles is not associative, its value is that of the tree.\<close>

interpretation barrier_node: node_op "\<lambda>a b. Some a" 0 "\<lambda>x y. x"
  by unfold_locales simp

interpretation double_node: node_op "\<lambda>a b. Some (zip_first count (f64_add api) a b)" count "map2 (f64_add api)" for count api
  by unfold_locales (simp add: zip_first_take)

end
