(* ===== verification/Vbg_Tree_Props.thy ===== *)
theory Vbg_Tree_Props
  imports Vbg_Tree
begin

text \<open>
  The properties of the collectives inside a node: the poll function of one process is a
  run of the node, the leader gives the combined value to the barrier gate, nobody leaves a
  barrier early, and a collective that all have entered can be completed.
\<close>

section \<open>One poll is a run of the node\<close>

text \<open>The node as process \<open>p\<close> sees it.\<close>

definition view :: "nat \<Rightarrow> node \<Rightarrow> 'w vbg \<Rightarrow> bool" where
  "view p N s \<longleftrightarrow> n_pi N p = pinfo s \<and> n_seq N = shm_seq s \<and> n_buf N = shm_buf s"

lemma collect_steps:
  assumes "sm_collect comb count i rank s = Some (r, s')" "0 < i" "p < n" "n_pc N p = Sm_collect i rank" "view p N s"
    and "sm_numproc (pinfo s) = n" "r \<noteq> Some V_ERR_INTERNAL"
  shows "\<exists>N'. (node_step comb count n)\<^sup>*\<^sup>* N N' \<and> view p N' s' \<and> (\<forall>q. q \<noteq> p \<longrightarrow> n_pi N' q = n_pi N q \<and> n_pc N' q = n_pc N q)
    \<and> (if r = None then n_pc N' p = after_collect p
       else r = Some V_ERR_NOT_COMPLETED \<and> n_pc N' p = Sm_collect (sm_loop_counter (pinfo s')) (sm_loop_rank (pinfo s')))"
  using assms
proof (induction "n - i" arbitrary: i rank s N rule: less_induct)
  case less
  note v = less.prems(5) [unfolded view_def]
  show ?case
  proof (cases "i < n")
    case False
    then have "r = None" "s' = s" using less.prems(1,6) by (simp_all add: sm_collect.simps)
    then show ?thesis using n_collected [OF less.prems(3,4) False, of comb count] less.prems(5)
      by (intro exI conjI) (rule r_into_rtranclp, assumption, auto simp: view_def)
  next
    case True
    let ?it = "sm_iter comb count i rank (n_pi N p) (n_seq N) (n_buf N)"
    have c: "sm_collect comb count i rank s = (case ?it of
            Sm_stored seq buf \<Rightarrow> Some (None, s\<lparr>shm_seq := seq, shm_buf := buf\<rparr>)
          | Sm_wait p \<Rightarrow> Some (Some V_ERR_NOT_COMPLETED, s\<lparr>pinfo := p\<rparr>)
          | Sm_error \<Rightarrow> Some (Some V_ERR_INTERNAL, s)
          | Sm_next rank' p \<Rightarrow> sm_collect comb count (2 * i) rank' (s\<lparr>pinfo := p\<rparr>))"
      using True less.prems(6) v by (subst sm_collect.simps) simp
    show ?thesis
    proof (cases ?it)
      case (Sm_stored sq bf)
      then have e: "r = None" "s' = s\<lparr>shm_seq := sq, shm_buf := bf\<rparr>" using less.prems(1) c by simp_all
      show ?thesis
        by (rule exI, rule conjI, rule r_into_rtranclp, rule n_store [OF less.prems(3,4) True Sm_stored]) (auto simp: e view_def v)
    next
      case (Sm_wait q)
      then have e: "r = Some V_ERR_NOT_COMPLETED" "s' = s\<lparr>pinfo := q\<rparr>" using less.prems(1) c by simp_all
      have l: "sm_loop_counter q = i" "sm_loop_rank q = rank" using Sm_wait by (auto simp: sm_iter_def split: if_splits option.splits)
      show ?thesis
        by (rule exI, rule conjI, rule r_into_rtranclp, rule n_wait [OF less.prems(3,4) True Sm_wait]) (auto simp: e l view_def v less.prems(4))
    next
      case Sm_error
      then show ?thesis using less.prems(1,7) c by simp
    next
      case (Sm_next rank' q)
      let ?N1 = "N\<lparr>n_pi := (n_pi N)(p := q), n_pc := (n_pc N)(p := Sm_collect (2 * i) rank')\<rparr>"
      have lt: "n - 2 * i < n - i" using True less.prems(2) by simp
      have "sm_numproc q = n" using sm_iter_next_numproc [OF Sm_next] less.prems(6) v by simp
      moreover have "sm_collect comb count (2 * i) rank' (s\<lparr>pinfo := q\<rparr>) = Some (r, s')" using less.prems(1) c Sm_next by simp
      ultimately obtain N' where N': "(node_step comb count n)\<^sup>*\<^sup>* ?N1 N'" "view p N' s'"
        "\<And>q'. q' \<noteq> p \<Longrightarrow> n_pi N' q' = n_pi ?N1 q' \<and> n_pc N' q' = n_pc ?N1 q'"
        "if r = None then n_pc N' p = after_collect p
         else r = Some V_ERR_NOT_COMPLETED \<and> n_pc N' p = Sm_collect (sm_loop_counter (pinfo s')) (sm_loop_rank (pinfo s'))"
        using less.hyps [OF lt, of rank' "s\<lparr>pinfo := q\<rparr>" ?N1] True less.prems(2,3,7) v by (auto simp: view_def)
      have "(node_step comb count n)\<^sup>*\<^sup>* N N'"
        using N'(1) by (rule converse_rtranclp_into_rtranclp [where r = "node_step comb count n", OF n_next [OF less.prems(3,4) True Sm_next]])
      then show ?thesis using N' by (intro exI [of _ N']) auto
    qed
  qed
qed

section \<open>A node of two processes\<close>

definition demo_pi :: utf_bg_poll_info where
  "demo_pi = \<lparr>utf_bg_poll_ids = 0, utf_bg_poll_odata = [0], utf_bg_poll_idata = [0], utf_bg_poll_result = (0, 0),
     utf_bg_poll_op = Reduce_op UTF_REDUCE_OP_SUM, utf_bg_poll_count = 1, utf_bg_poll_datatype = UTF_DATATYPE_UINT64_T, utf_bg_poll_size = 8,
     utf_bg_poll_numcount = 1, utf_bg_poll_root = True, sm_flg_comm_start = False, sm_utofu_op = UTF_REDUCE_OP_SUM,
     sm_loop_counter = 0, sm_loop_rank = 0, sm_numproc = 2, sm_intra_index = 0, sm_seq_val = 9\<rparr>"

definition demo_node :: node where
  "demo_node = \<lparr>n_seq = (\<lambda>_. 9), n_buf = (\<lambda>_. [0]), n_pi = (\<lambda>_. demo_pi), n_pc = (\<lambda>_. Sm_idle), n_in = (\<lambda>_. []),
     n_out = (\<lambda>_. []), n_res = [0]\<rparr>"

text \<open>Both have started, with 5 and 6; then process 1 has stored its value; then the leader has combined and posted it.\<close>

definition demo_node1 :: node where
  "demo_node1 = demo_node\<lparr>n_pi := (\<lambda>_. demo_pi)(0 := node_init 2 0 [5] demo_pi, 1 := node_init 2 1 [6] demo_pi),
     n_pc := (\<lambda>_. Sm_idle)(0 := Sm_collect 1 0, 1 := Sm_collect 1 1), n_in := (\<lambda>_. [])(0 := [5], 1 := [6])\<rparr>"

definition demo_node2 :: node where
  "demo_node2 = demo_node1\<lparr>n_seq := (\<lambda>_. 9)(1 := 10), n_buf := (\<lambda>_. [0])(1 := [6]), n_pc := (n_pc demo_node1)(1 := Sm_waiting)\<rparr>"

definition demo_node3 :: node where
  "demo_node3 = demo_node2\<lparr>n_pi := (n_pi demo_node2)(0 := (n_pi demo_node2 0)\<lparr>utf_bg_poll_idata := [11]\<rparr>),
     n_pc := (n_pc demo_node2)(0 := Sm_posted)\<rparr>"

lemmas demo_nodes = demo_node_def demo_node1_def demo_node2_def demo_node3_def demo_pi_def node_init_def

abbreviation demo_step :: "node \<Rightarrow> node \<Rightarrow> bool" where
  "demo_step \<equiv> node_step (SM_REDUCE_OP UTF_REDUCE_OP_SUM 1) 1 2"

lemma demo_ready: "node_ready 1 2 demo_node"
  by (simp add: node_ready_def demo_nodes)

lemma demo_run1: "demo_step\<^sup>*\<^sup>* demo_node demo_node1"
proof -
  let ?s = "demo_node\<lparr>n_pi := (n_pi demo_node)(0 := node_init 2 0 [5] (n_pi demo_node 0)), n_pc := (n_pc demo_node)(0 := Sm_collect 1 0),
      n_in := (n_in demo_node)(0 := take 1 [5])\<rparr>"
  have 1: "demo_step demo_node ?s" by (rule n_start) (simp_all add: demo_nodes)
  have "demo_step ?s (?s\<lparr>n_pi := (n_pi ?s)(1 := node_init 2 1 [6] (n_pi ?s 1)), n_pc := (n_pc ?s)(1 := Sm_collect 1 1),
      n_in := (n_in ?s)(1 := take 1 [6])\<rparr>)" by (rule n_start) (simp_all add: demo_nodes)
  moreover have "?s\<lparr>n_pi := (n_pi ?s)(1 := node_init 2 1 [6] (n_pi ?s 1)), n_pc := (n_pc ?s)(1 := Sm_collect 1 1),
      n_in := (n_in ?s)(1 := take 1 [6])\<rparr> = demo_node1" by (simp add: demo_nodes)
  ultimately have "demo_step ?s demo_node1" by simp
  then show ?thesis by (rule rtranclp.rtrancl_into_rtrancl [where r = demo_step, OF r_into_rtranclp [where r = demo_step, OF 1]])
qed

lemma demo_run2: "demo_step demo_node1 demo_node2"
proof -
  have "sm_iter (SM_REDUCE_OP UTF_REDUCE_OP_SUM 1) 1 1 1 (n_pi demo_node1 1) (n_seq demo_node1) (n_buf demo_node1)
      = Sm_stored ((\<lambda>_. 9)(1 := 10)) ((\<lambda>_. [0])(1 := [6]))" by (simp add: sm_iter_def demo_nodes)
  from n_store [of 1 2 demo_node1, OF _ _ _ this] show ?thesis by (simp add: demo_nodes after_collect_def)
qed

lemma demo_run3: "demo_step\<^sup>*\<^sup>* demo_node2 demo_node3"
proof -
  let ?q = "(n_pi demo_node2 0)\<lparr>utf_bg_poll_idata := [11]\<rparr>"
  let ?s = "demo_node2\<lparr>n_pi := (n_pi demo_node2)(0 := ?q), n_pc := (n_pc demo_node2)(0 := Sm_collect (2 * 1) 0)\<rparr>"
  have "sm_iter (SM_REDUCE_OP UTF_REDUCE_OP_SUM 1) 1 1 0 (n_pi demo_node2 0) (n_seq demo_node2) (n_buf demo_node2) = Sm_next 0 ?q"
    by (simp add: sm_iter_def demo_nodes SM_REDUCE_OP_def zip_first_def)
  then have 1: "demo_step demo_node2 ?s" by (intro n_next [of 0 2 demo_node2]) (simp_all add: demo_nodes)
  have "demo_step ?s (?s\<lparr>n_pc := (n_pc ?s)(0 := after_collect 0)\<rparr>)" by (rule n_collected [where i = 2 and rank = 0]) (simp_all add: demo_nodes)
  moreover have "?s\<lparr>n_pc := (n_pc ?s)(0 := after_collect 0)\<rparr> = demo_node3" by (simp add: demo_nodes after_collect_def)
  ultimately have "demo_step ?s demo_node3" by simp
  then show ?thesis by (rule rtranclp.rtrancl_into_rtrancl [where r = demo_step, OF r_into_rtranclp [where r = demo_step, OF 1]])
qed

lemma demo_reachable:
  "reachable (SM_REDUCE_OP UTF_REDUCE_OP_SUM 1) 1 2 demo_node1" "reachable (SM_REDUCE_OP UTF_REDUCE_OP_SUM 1) 1 2 demo_node3"
  using demo_ready demo_run1 demo_run2 demo_run3 unfolding reachable_def
  by (blast, meson rtranclp.rtrancl_into_rtrancl rtranclp_trans)

section \<open>Properties\<close>

text \<open>C12: the collecting loop of the poll functions is a run of the node. When the poll of
  process \<open>p\<close> executes the loop without interruption, from the point where it stopped before,
  the node can do steps of \<open>p\<close> that end in the same shared memory and the same poll
  information: at the end of the collection, or, for a poll that returns
  \<open>UTF_ERR_NOT_COMPLETED\<close>, at the saved loop counter and rank.
\<close>

theorem sm_collect_is_run:
  assumes "sm_collect comb count (sm_loop_counter (pinfo s)) (sm_loop_rank (pinfo s)) s = Some (r, s')" "0 < sm_loop_counter (pinfo s)"
    and "p < sm_numproc (pinfo s)" "n_pc N p = Sm_collect (sm_loop_counter (pinfo s)) (sm_loop_rank (pinfo s))" "view p N s"
    and "r \<noteq> Some V_ERR_INTERNAL"
  shows "\<exists>N'. (node_step comb count (sm_numproc (pinfo s)))\<^sup>*\<^sup>* N N' \<and> view p N' s'
    \<and> (\<forall>q. q \<noteq> p \<longrightarrow> n_pi N' q = n_pi N q \<and> n_pc N' q = n_pc N q)
    \<and> (if r = None then n_pc N' p = after_collect p
       else r = Some V_ERR_NOT_COMPLETED \<and> n_pc N' p = Sm_collect (sm_loop_counter (pinfo s')) (sm_loop_rank (pinfo s')))"
  by (rule collect_steps [OF assms(1-5) refl assms(6)])

definition demo_view :: "unit vbg" where
  "demo_view = \<lparr>pinfo = n_pi demo_node1 1, vgrp = \<lparr>g_vbg_id = 7, g_my_index = 1, g_manager = False, g_size = 2, g_intra_index = 1, g_curr_seq = 10\<rparr>,
     bg_counter = 1, poll_barrier_func = None, poll_reduce_func = Some Poll_uint64_sm, intra_is_tofu = False, vmem = (\<lambda>_. None),
     shm_seq = n_seq demo_node1, shm_buf = n_buf demo_node1, vworld = ()\<rparr>"

theorem sm_collect_is_run_witness:
  "\<exists>N'. demo_step\<^sup>*\<^sup>* demo_node1 N' \<and> n_seq N' 1 = 10 \<and> n_buf N' 1 = [6] \<and> n_pc N' 1 = Sm_waiting \<and> n_pc N' 0 = n_pc demo_node1 0"
proof -
  let ?s' = "demo_view\<lparr>shm_seq := (\<lambda>_. 9)(1 := 10), shm_buf := (\<lambda>_. [0])(1 := [6])\<rparr>"
  have c: "sm_collect (SM_REDUCE_OP UTF_REDUCE_OP_SUM 1) 1 (sm_loop_counter (pinfo demo_view)) (sm_loop_rank (pinfo demo_view)) demo_view
      = Some (None, ?s')"
    by (subst sm_collect.simps) (simp add: demo_view_def demo_nodes sm_iter_def)
  show ?thesis
    using sm_collect_is_run [OF c, of 1 demo_node1] by (auto simp: demo_view_def demo_nodes view_def after_collect_def)
qed

text \<open>C6: the leader gives the barrier gate the combined value of the node, and the workers take
  its answer. Whatever the interleaving of the processes, over any number of collectives
  before: when the leader has posted, every process of the node is in the same collective,
  and the leader's words are the values the processes started it with, combined in the order
  of the processes; and when a worker finds its collective's number in the leader's slot, the
  words there are the last answer of the gate.
\<close>

theorem sm_leader_value:
  assumes "sm_op uop" "reachable (SM_REDUCE_OP uop count) count n s" "0 < n"
  shows "(n_pc s 0 = Sm_posted \<longrightarrow> take count (utf_bg_poll_idata (n_pi s 0)) = in_order (sm_value uop) (n_in s) 0 n
      \<and> (\<forall>p<n. sm_seq_val (n_pi s p) = sm_seq_val (n_pi s 0)))
    \<and> (\<forall>p<n. n_pc s p = Sm_waiting \<and> n_seq s 0 = sm_seq_val (n_pi s p) \<longrightarrow> take count (n_buf s 0) = n_res s)"
  using assoc_op.leader_in_order [OF assoc_op_sm [OF assms(1)] assms(2,3)]
    node_op.leader_value(2) [OF assoc_op.axioms(1) [OF assoc_op_sm [OF assms(1)]] assms(2,3)]
    node_op.finish_result [OF assoc_op.axioms(1) [OF assoc_op_sm [OF assms(1)]] assms(2)] by blast

theorem sm_leader_value_witness:
  "n_pc demo_node3 0 = Sm_posted \<and> take 1 (utf_bg_poll_idata (n_pi demo_node3 0)) = in_order (sm_value UTF_REDUCE_OP_SUM) (n_in demo_node3) 0 2
    \<and> sm_seq_val (n_pi demo_node3 1) = sm_seq_val (n_pi demo_node3 0)"
proof -
  have "n_pc demo_node3 0 = Sm_posted" by (simp add: demo_nodes)
  moreover have "sm_op UTF_REDUCE_OP_SUM" by (simp add: sm_op_def)
  ultimately show ?thesis using conjunct1 [OF sm_leader_value [OF _ demo_reachable(2) zero_less_numeral]]
    by (metis Suc_1 lessI One_nat_def)
qed

text \<open>C10: nobody leaves a barrier before everybody has entered it. A process that is between two
  barriers finds every other process in its last one or already in the next.
\<close>

theorem sm_barrier_safe:
  assumes "reachable (\<lambda>a b. Some a) 0 n s" "p < n" "n_pc s p = Sm_idle" "q < n"
  shows "sm_seq_val (n_pi s q) = sm_seq_val (n_pi s p) \<or> sm_seq_val (n_pi s q) = sm_seq_val (n_pi s p) + 1"
  by (rule barrier_node.idle_round [OF assms])

theorem sm_barrier_safe_witness:
  "sm_seq_val (n_pi (demo_node\<lparr>n_res := []\<rparr>) 1) = sm_seq_val (n_pi (demo_node\<lparr>n_res := []\<rparr>) 0)
    \<or> sm_seq_val (n_pi (demo_node\<lparr>n_res := []\<rparr>) 1) = sm_seq_val (n_pi (demo_node\<lparr>n_res := []\<rparr>) 0) + 1"
proof (rule sm_barrier_safe)
  have "node_ready 0 2 (demo_node\<lparr>n_res := []\<rparr>)" by (simp add: node_ready_def demo_nodes)
  then show "reachable (\<lambda>a b. Some a) 0 2 (demo_node\<lparr>n_res := []\<rparr>)" by (auto simp: reachable_def)
qed (simp_all add: demo_nodes)

text \<open>C11: a collective that all processes of the node have entered can be completed from every
  reachable state, whatever the interleaving so far: there is a run that leaves all processes
  idle with this collective's number in the leader's slot.
\<close>

theorem sm_collective_completes:
  assumes "sm_op uop" "reachable (SM_REDUCE_OP uop count) count n s" "0 < n" "\<And>p. p < n \<Longrightarrow> sm_seq_val (n_pi s p) = x"
  shows "\<exists>s'. (node_step (SM_REDUCE_OP uop count) count n)\<^sup>*\<^sup>* s s' \<and> n_seq s' 0 = x
    \<and> (\<forall>p<n. n_pc s' p = Sm_idle \<and> sm_seq_val (n_pi s' p) = x)"
  by (rule node_op.completes [OF assoc_op.axioms(1) [OF assoc_op_sm [OF assms(1)]] assms(2-4)])

theorem sm_collective_completes_witness:
  "\<exists>s'. demo_step\<^sup>*\<^sup>* demo_node1 s' \<and> n_seq s' 0 = 10 \<and> (\<forall>p<2. n_pc s' p = Sm_idle \<and> sm_seq_val (n_pi s' p) = 10)"
proof (rule sm_collective_completes [of UTF_REDUCE_OP_SUM 1 2 demo_node1 10])
  show "sm_seq_val (n_pi demo_node1 p) = 10" if "p < 2" for p
    using that by (cases "p = 0") (simp_all add: demo_nodes)
qed (use demo_reachable in \<open>simp_all add: sm_op_def\<close>)

end
