(* ===== verification/Mpi_Tables.thy ===== *)
theory Mpi_Tables
  imports Utf_List
begin

text \<open>
  The tables of \<open>src/src/mpi_vbg/commgroup.c\<close>: for every MPI group, and for every
  communicator, the ranks of its processes in \<open>MPI_COMM_WORLD\<close> and the barrier group that
  serves it. The entries of two arrays are linked in four lists of \<open>Utf_List\<close> (in use and
  free, of groups and of communicators) through one store of links, because one function
  hands an entry of one kind to a list of the other. The last part gives the tables' contract:
  association lists from handles to ranks.
\<close>

section \<open>Data\<close>

definition GROUPINFO_SIZE :: nat where "GROUPINFO_SIZE = 1024"

text \<open>
  The address of a list entry: the member \<open>slst\<close>, the first one, of an element of an array. The address of a barrier group,
  which is no list entry, can be found in the place of one (see below).
\<close>

datatype slptr = Grp nat | Com nat | Bgp nat

text \<open>\<open>ranks\<close> is \<open>None\<close> for NULL or an array that was freed.\<close>

record grpinfo_ent =
  ge_grp :: int
  ge_size :: nat
  ge_ranks :: "u32 list option"

text \<open>\<open>grp\<close> is an index of the array of groups, \<open>bg_grp\<close> the address of a barrier group.\<close>

record cominfo_ent =
  ce_comm :: int
  ce_grp :: "nat ptr"
  ce_bg_grp :: "nat ptr"

text \<open>
  The sizes of the two structures where a handle of the MPI library has \<open>hb\<close> bytes: 4 where it is an \<open>int\<close> (MPICH), 8 where it is a pointer.
  The array of communicators is declared with the elements of the array of groups, so that its elements are found at multiples of their size. With 4 bytes these
  are shorter (24 bytes) than the entries (32 bytes): the member \<open>bg_grp\<close>, the last one, of an entry is the member \<open>slst\<close> of the next. The memory is
  allocated for so many of the longer entries, so that the last one has a place for it too, which the model keeps as the link of an entry behind the last.
\<close>

definition align :: "nat \<Rightarrow> nat \<Rightarrow> nat" where "align a n = (n + a - 1) div a * a"
definition sizeof_grpinfo_ent :: "nat \<Rightarrow> nat" where "sizeof_grpinfo_ent hb = align 8 (8 + hb + 4) + 8"
definition sizeof_cominfo_ent :: "nat \<Rightarrow> nat" where "sizeof_cominfo_ent hb = align 8 (8 + hb) + 16"
definition com_apart :: "nat \<Rightarrow> bool" where "com_apart hb \<longleftrightarrow> sizeof_cominfo_ent hb \<le> sizeof_grpinfo_ent hb"

text \<open>The globals; an array element that is not allocated is \<open>None\<close>.\<close>

record comgrp =
  handle_bytes :: nat
  lnk :: "slptr links"
  grpinfo_lst :: "slptr utfslist"
  grpinfo_freelst :: "slptr utfslist"
  grpinfo_entarray :: "nat \<Rightarrow> grpinfo_ent option"
  cominfo_lst :: "slptr utfslist"
  cominfo_freelst :: "slptr utfslist"
  cominfo_entarray :: "nat \<Rightarrow> cominfo_ent option"

definition zero_grp :: grpinfo_ent where
  "zero_grp = \<lparr>ge_grp = 0, ge_size = 0, ge_ranks = None\<rparr>"

definition zero_com :: cominfo_ent where
  "zero_com = \<lparr>ce_comm = 0, ce_grp = None, ce_bg_grp = None\<rparr>"

text \<open>Static variables start as zero; a list of zeros is an empty one.\<close>

definition no_list :: "slptr utfslist" where
  "no_list = \<lparr>head = None, tail = None\<rparr>"

definition comgrp_zero :: "nat \<Rightarrow> comgrp" where
  "comgrp_zero hb = \<lparr>handle_bytes = hb, lnk = (\<lambda>_. None), grpinfo_lst = no_list, grpinfo_freelst = no_list, grpinfo_entarray = (\<lambda>_. None),
     cominfo_lst = no_list, cominfo_freelst = no_list, cominfo_entarray = (\<lambda>_. None)\<rparr>"

text \<open>\<open>memset\<close> of the arrays clears the links of their entries and the place behind the last communicator.\<close>

definition clear_grp :: "nat \<Rightarrow> slptr links \<Rightarrow> slptr links" where
  "clear_grp n h = (\<lambda>p. case p of Grp k \<Rightarrow> if k < n then None else h p | _ \<Rightarrow> h p)"

definition clear_com :: "nat \<Rightarrow> slptr links \<Rightarrow> slptr links" where
  "clear_com n h = (\<lambda>p. case p of Com k \<Rightarrow> if k \<le> n then None else h p | _ \<Rightarrow> h p)"

text \<open>The arguments \<open>gm\<close> and \<open>cm\<close> tell whether the two calls of \<open>malloc\<close> succeed; they are not tested.\<close>

definition comgrpinfo_init :: "bool \<Rightarrow> bool \<Rightarrow> nat \<Rightarrow> comgrp \<Rightarrow> comgrp outcome" where
  "comgrpinfo_init gm cm n t =
     (if \<not> gm then crash NullDeref
      else
        let (h1, gf) = utfslist_append_all (clear_grp n (lnk t)) (utfslist_init (grpinfo_freelst t) None) (map Grp [0..<n]);
            t1 = t\<lparr>lnk := h1, grpinfo_freelst := gf, grpinfo_entarray := (\<lambda>k. if k < n then Some zero_grp else None)\<rparr> in
        if \<not> cm then crash NullDeref
        else
          let (h3, cf) = utfslist_append_all (clear_com n (lnk t1)) (utfslist_init (cominfo_freelst t1) None) (map Com [0..<n]) in
          ret (t1\<lparr>lnk := h3, cominfo_freelst := cf, cominfo_entarray := (\<lambda>k. if k < n then Some zero_com else None)\<rparr>))"

section \<open>Entries\<close>

text \<open>
  \<open>container_of\<close> and the access to the entry. Where the entries overlap \<open>bg_grp\<close> is read from the link of the next one
  (should that link lead to an entry, the model stops).
\<close>

definition grp_at :: "comgrp \<Rightarrow> slptr ptr \<Rightarrow> (nat \<times> grpinfo_ent) outcome" where
  "grp_at t p = (case p of None \<Rightarrow> crash NullDeref
     | Some (Grp k) \<Rightarrow> (case grpinfo_entarray t k of None \<Rightarrow> crash OutOfBounds | Some e \<Rightarrow> ret (k, e))
     | Some _ \<Rightarrow> crash OutOfBounds)"

definition com_read :: "comgrp \<Rightarrow> nat \<Rightarrow> cominfo_ent \<Rightarrow> cominfo_ent outcome" where
  "com_read t k e = (if com_apart (handle_bytes t) then ret e
     else case lnk t (Com (Suc k)) of None \<Rightarrow> ret (e\<lparr>ce_bg_grp := None\<rparr>)
     | Some (Bgp a) \<Rightarrow> ret (e\<lparr>ce_bg_grp := Some a\<rparr>)
     | Some _ \<Rightarrow> crash OutOfBounds)"

definition com_at :: "comgrp \<Rightarrow> slptr ptr \<Rightarrow> (nat \<times> cominfo_ent) outcome" where
  "com_at t p = (case p of None \<Rightarrow> crash NullDeref
     | Some (Com k) \<Rightarrow> (case cominfo_entarray t k of None \<Rightarrow> crash OutOfBounds
         | Some e \<Rightarrow> bindO (com_read t k e) (\<lambda>x. ret (k, x)))
     | Some _ \<Rightarrow> crash OutOfBounds)"

definition put_grp :: "nat \<Rightarrow> grpinfo_ent \<Rightarrow> comgrp \<Rightarrow> comgrp" where
  "put_grp k e t = t\<lparr>grpinfo_entarray := (grpinfo_entarray t)(k \<mapsto> e)\<rparr>"

definition put_com :: "nat \<Rightarrow> cominfo_ent \<Rightarrow> comgrp \<Rightarrow> comgrp" where
  "put_com k e t = t\<lparr>cominfo_entarray := (cominfo_entarray t)(k \<mapsto> e),
     lnk := (if com_apart (handle_bytes t) then lnk t else (lnk t)(Com (Suc k) := map_option Bgp (ce_bg_grp e)))\<rparr>"

text \<open>Reading the first \<open>size\<close> ranks of an entry.\<close>

definition ranks_of :: "grpinfo_ent \<Rightarrow> u32 list outcome" where
  "ranks_of e = (if ge_size e = 0 then ret []
     else case ge_ranks e of None \<Rightarrow> crash NullDeref
     | Some r \<Rightarrow> if length r < ge_size e then crash OutOfBounds else ret (take (ge_size e) r))"

text \<open>Taking an entry off the free list and filling it in; NULL is not tested here.\<close>

definition grp_take :: "comgrp \<Rightarrow> (slptr ptr \<times> comgrp) outcome" where
  "grp_take t = bindO (utfslist_remove (lnk t) (grpinfo_freelst t)) (\<lambda>(h, f, p).
     ret (p, t\<lparr>lnk := h, grpinfo_freelst := f\<rparr>))"

definition grp_fill :: "slptr ptr \<Rightarrow> int \<Rightarrow> nat \<Rightarrow> u32 list option \<Rightarrow> comgrp \<Rightarrow> (nat \<times> comgrp) outcome" where
  "grp_fill p g sz r t = bindO (grp_at t p) (\<lambda>(k, _).
     ret (k, put_grp k \<lparr>ge_grp = g, ge_size = sz, ge_ranks = r\<rparr> t))"

definition grp_link :: "nat \<Rightarrow> comgrp \<Rightarrow> comgrp" where
  "grp_link k t = (let (h, l, _) = utfslist_append (lnk t) (grpinfo_lst t) (Grp k) in t\<lparr>lnk := h, grpinfo_lst := l\<rparr>)"

section \<open>Groups\<close>

definition grpinfo_reg :: "int \<Rightarrow> nat \<Rightarrow> u32 list option \<Rightarrow> comgrp \<Rightarrow> (nat \<times> comgrp) outcome" where
  "grpinfo_reg g sz r t = bindO (grp_take t) (\<lambda>(p, t1).
     if p = None then crash Aborted
     else bindO (grp_fill p g sz r t1) (\<lambda>(k, t2). ret (k, grp_link k t2)))"

text \<open>The test of the search loops; the loop also stops at an entry that cannot be read.\<close>

definition grp_test :: "comgrp \<Rightarrow> int \<Rightarrow> slptr \<Rightarrow> bool" where
  "grp_test t g p = (case grp_at t (Some p) of Some (Inr (_, e)) \<Rightarrow> ge_grp e = g | _ \<Rightarrow> True)"

definition com_test :: "comgrp \<Rightarrow> int \<Rightarrow> slptr \<Rightarrow> bool" where
  "com_test t c p = (case com_at t (Some p) of Some (Inr (_, e)) \<Rightarrow> ce_comm e = c | _ \<Rightarrow> True)"

definition grpinfo_unreg :: "int \<Rightarrow> comgrp \<Rightarrow> (int \<times> comgrp) outcome" where
  "grpinfo_unreg g t =
     (case utfslist_foreach2 (lnk t) (grp_test t g) (head (grpinfo_lst t)) None of
        None \<Rightarrow> None
      | Some None \<Rightarrow> ret (-1, t)
      | Some (Some (cur, prev)) \<Rightarrow> bindO (grp_at t (Some cur)) (\<lambda>(k, e).
          let t1 = put_grp k (e\<lparr>ge_ranks := None, ge_grp := 0\<rparr>) t;
              (h, l, _) = utfslist_remove2 (lnk t1) (grpinfo_lst t1) cur prev;
              (h', f) = utfslist_insert h (grpinfo_freelst t1) cur in
          ret (0, t1\<lparr>lnk := h', grpinfo_lst := l, grpinfo_freelst := f\<rparr>)))"

definition grpinfo_get :: "int \<Rightarrow> comgrp \<Rightarrow> nat ptr outcome" where
  "grpinfo_get g t =
     (case utfslist_foreach2 (lnk t) (grp_test t g) (head (grpinfo_lst t)) None of
        None \<Rightarrow> None
      | Some None \<Rightarrow> ret None
      | Some (Some (cur, _)) \<Rightarrow> bindO (grp_at t (Some cur)) (\<lambda>(k, _). ret (Some k)))"

text \<open>\<open>m\<close>: whether \<open>malloc\<close> succeeds. The copy is not in the list of groups.\<close>

definition grpinfo_dup :: "bool \<Rightarrow> nat \<Rightarrow> int \<Rightarrow> comgrp \<Rightarrow> (nat \<times> comgrp) outcome" where
  "grpinfo_dup m src g t = bindO (grp_at t (Some (Grp src))) (\<lambda>(_, e).
     bindO (grp_take t) (\<lambda>(p, t1).
     if \<not> m \<and> 0 < ge_size e then crash NullDeref
     else bindO (ranks_of e) (\<lambda>r. grp_fill p g (ge_size e) (Some r) t1)))"

section \<open>Communicators\<close>

text \<open>Filling in an entry; where they overlap \<open>bg_grp\<close> is the link of the next one.\<close>

definition com_fill :: "nat \<Rightarrow> int \<Rightarrow> nat \<Rightarrow> nat ptr \<Rightarrow> comgrp \<Rightarrow> comgrp outcome" where
  "com_fill j c k bg t =
     (if cominfo_entarray t j = None then crash OutOfBounds
      else ret (put_com j \<lparr>ce_comm = c, ce_grp = Some k, ce_bg_grp = bg\<rparr> t))"

definition cominfo_reg :: "int \<Rightarrow> nat \<Rightarrow> nat ptr \<Rightarrow> comgrp \<Rightarrow> (nat \<times> comgrp) outcome" where
  "cominfo_reg c k bg t = bindO (utfslist_remove (lnk t) (cominfo_freelst t)) (\<lambda>(h, f, p).
     let t1 = t\<lparr>lnk := h, cominfo_freelst := f\<rparr> in
     case p of None \<Rightarrow> crash Aborted
     | Some (Com j) \<Rightarrow> bindO (com_fill j c k bg t1) (\<lambda>t2.
         let (h', l, _) = utfslist_append (lnk t2) (cominfo_lst t2) (Com j) in ret (j, t2\<lparr>lnk := h', cominfo_lst := l\<rparr>))
     | Some _ \<Rightarrow> crash OutOfBounds)"

text \<open>
  \<open>free\<close> of the address of an element: only the first one is the address of the array.
\<close>

definition free_grp :: "nat ptr \<Rightarrow> comgrp \<Rightarrow> comgrp outcome" where
  "free_grp p t = (case p of None \<Rightarrow> ret t
     | Some 0 \<Rightarrow> if grpinfo_entarray t 0 = None then crash InvalidFree else ret (t\<lparr>grpinfo_entarray := (\<lambda>_. None)\<rparr>)
     | Some (Suc _) \<Rightarrow> crash InvalidFree)"

text \<open>The entry is unlinked with the list of groups as the header, as the code has it.\<close>

definition cominfo_unreg :: "int \<Rightarrow> comgrp \<Rightarrow> (int \<times> comgrp) outcome" where
  "cominfo_unreg c t =
     (case utfslist_foreach2 (lnk t) (com_test t c) (head (cominfo_lst t)) None of
        None \<Rightarrow> None
      | Some None \<Rightarrow> ret (-1, t)
      | Some (Some (cur, prev)) \<Rightarrow> bindO (com_at t (Some cur)) (\<lambda>(j, e).
          bindO (free_grp (ce_grp e) t) (\<lambda>t0.
          let t1 = put_com j (e\<lparr>ce_grp := None\<rparr>) t0;
              (h, l, _) = utfslist_remove2 (lnk t1) (grpinfo_lst t1) cur prev;
              (h', f) = utfslist_insert h (cominfo_freelst t1) cur in
          ret (0, t1\<lparr>lnk := h', grpinfo_lst := l, cominfo_freelst := f\<rparr>))))"

definition cominfo_get :: "int \<Rightarrow> comgrp \<Rightarrow> nat ptr outcome" where
  "cominfo_get c t =
     (case utfslist_foreach2 (lnk t) (com_test t c) (head (cominfo_lst t)) None of
        None \<Rightarrow> None
      | Some None \<Rightarrow> ret None
      | Some (Some (cur, _)) \<Rightarrow> bindO (com_at t (Some cur)) (\<lambda>(j, _). ret (Some j)))"

text \<open>The group of a communicator's entry.\<close>

definition com_grp :: "comgrp \<Rightarrow> nat \<Rightarrow> nat outcome" where
  "com_grp t j = bindO (com_at t (Some (Com j))) (\<lambda>(_, e). case ce_grp e of None \<Rightarrow> crash NullDeref | Some k \<Rightarrow> ret k)"

definition cominfo_dup :: "bool \<Rightarrow> int \<Rightarrow> int \<Rightarrow> comgrp \<Rightarrow> comgrp outcome" where
  "cominfo_dup m c c' t = bindO (cominfo_get c t) (\<lambda>p. case p of None \<Rightarrow> ret t
     | Some j \<Rightarrow> bindO (com_grp t j) (\<lambda>k. bindO (grpinfo_dup m k 0 t) (\<lambda>(k', t1).
         bindO (cominfo_reg c' k' None t1) (\<lambda>(_, t2). ret t2))))"

text \<open>The comparison that sorts the members of a split; only the keys are compared.\<close>

definition mycmp :: "int \<times> int \<Rightarrow> int \<times> int \<Rightarrow> int" where
  "mycmp a b = (if fst a < fst b then 1 else 0)"

lemma handles_8: "com_apart 8" and handles_4: "\<not> com_apart 4"
  by (simp_all add: com_apart_def sizeof_cominfo_ent_def sizeof_grpinfo_ent_def align_def)

end
