(* ===== verification/Mpi_Groups.thy ===== *)
theory Mpi_Groups
  imports Mpi_Tables
begin

text \<open>
  The contract of the table of groups: an association list from handles to ranks, in the order of registration, and a number of free
  entries. It holds for handles of any width: the operations on groups leave every word of the communicators alone, the words that two
  of their entries share included.
\<close>

section \<open>Abstraction\<close>

definition holds :: "grpinfo_ent \<Rightarrow> u32 list \<Rightarrow> bool" where
  "holds e r \<longleftrightarrow> ge_size e = length r \<and> (\<exists>a. ge_ranks e = Some a \<and> length r \<le> length a \<and> take (length r) a = r)"

definition grp_row :: "comgrp \<Rightarrow> nat \<Rightarrow> int \<times> u32 list \<Rightarrow> bool" where
  "grp_row t k x \<longleftrightarrow> (\<exists>e. grpinfo_entarray t k = Some e \<and> ge_grp e = fst x \<and> holds e (snd x))"

text \<open>A group entry that a communicator owns; it is in neither of the two lists of groups.\<close>

definition owned :: "comgrp \<Rightarrow> nat \<Rightarrow> bool" where
  "owned t k \<longleftrightarrow> (\<exists>j e. cominfo_entarray t j = Some e \<and> ce_grp e = Some k)"

text \<open>\<open>gs\<close> and \<open>fs\<close> are the entries in use and free; entries in neither list that nobody owns have been lost.\<close>

definition glayout :: "comgrp \<Rightarrow> nat list \<Rightarrow> nat list \<Rightarrow> (int \<times> u32 list) list \<Rightarrow> bool" where
  "glayout t gs fs G \<longleftrightarrow> slist (lnk t) (grpinfo_lst t) (map Grp gs) \<and> slist (lnk t) (grpinfo_freelst t) (map Grp fs)
   \<and> distinct (gs @ fs) \<and> (\<forall>k \<in> set fs. grpinfo_entarray t k \<noteq> None) \<and> list_all2 (grp_row t) gs G
   \<and> (\<forall>k. owned t k \<longrightarrow> k \<notin> set (gs @ fs))"

definition gtabs :: "comgrp \<Rightarrow> (int \<times> u32 list) list \<Rightarrow> nat \<Rightarrow> bool" where
  "gtabs t G n \<longleftrightarrow> (\<exists>gs fs. glayout t gs fs G \<and> length fs = n)"

text \<open>The communicators are those of before: their lists, links and entries, and the ranks of the groups they own.\<close>

definition same_coms :: "comgrp \<Rightarrow> comgrp \<Rightarrow> bool" where
  "same_coms t t' \<longleftrightarrow> handle_bytes t' = handle_bytes t \<and> cominfo_lst t' = cominfo_lst t \<and> cominfo_freelst t' = cominfo_freelst t
   \<and> cominfo_entarray t' = cominfo_entarray t \<and> (\<forall>p. p \<notin> range Grp \<longrightarrow> lnk t' p = lnk t p)
   \<and> (\<forall>k. owned t k \<longrightarrow> grpinfo_entarray t' k = grpinfo_entarray t k)"

lemma gtabsI: "glayout t gs fs G \<Longrightarrow> gtabs t G (length fs)"
  unfolding gtabs_def by blast

lemma same_coms_refl [simp]: "same_coms t t"
  by (simp add: same_coms_def)

lemma same_owned: "same_coms t t' \<Longrightarrow> owned t' = owned t"
  by (auto simp: same_coms_def owned_def fun_eq_iff)

lemma same_coms_trans: "same_coms t u \<Longrightarrow> same_coms u v \<Longrightarrow> same_coms t v"
  using same_owned [of t u] by (simp add: same_coms_def)

lemma grp_at_simps [simp]: "grpinfo_entarray t k = Some e \<Longrightarrow> grp_at t (Some (Grp k)) = ret (k, e)"
  by (simp add: grp_at_def)

lemma ranks_of_holds: "holds e r \<Longrightarrow> ranks_of e = ret r"
  by (auto simp: ranks_of_def holds_def)

lemma put_grp_sel [simp]:
  "lnk (put_grp k e t) = lnk t" "grpinfo_lst (put_grp k e t) = grpinfo_lst t" "grpinfo_freelst (put_grp k e t) = grpinfo_freelst t"
  "cominfo_lst (put_grp k e t) = cominfo_lst t" "cominfo_freelst (put_grp k e t) = cominfo_freelst t"
  "handle_bytes (put_grp k e t) = handle_bytes t" "cominfo_entarray (put_grp k e t) = cominfo_entarray t" "grpinfo_entarray (put_grp k e t) = (grpinfo_entarray t)(k \<mapsto> e)"
  by (simp_all add: put_grp_def)

text \<open>The rows look only at the entries they name.\<close>

lemma rows_cong:
  assumes "\<And>k. k \<in> set gs \<Longrightarrow> grpinfo_entarray t' k = grpinfo_entarray t k"
  shows "list_all2 (grp_row t') gs G = list_all2 (grp_row t) gs G"
  using assms by (auto simp: list_all2_conv_all_nth grp_row_def)

section \<open>Effect of the operations\<close>

text \<open>An entry is taken off the free list and filled; it is then in no list.\<close>

lemma glayout_take:
  assumes l: "glayout t gs (k # fs) G"
  obtains t1 where "grp_take t = ret (Some (Grp k), t1)"
    "\<And>g sz r. grp_fill (Some (Grp k)) g sz r t1 = ret (k, put_grp k \<lparr>ge_grp = g, ge_size = sz, ge_ranks = r\<rparr> t1)"
    "\<And>e. glayout (put_grp k e t1) gs fs G \<and> same_coms t (put_grp k e t1)" "k \<notin> set (gs @ fs)" "\<not> owned t k"
proof -
  have d: "distinct (gs @ k # fs)" and s: "slist (lnk t) (grpinfo_freelst t) (Grp k # map Grp fs)"
    and row: "list_all2 (grp_row t) gs G" and ow: "\<forall>k'. owned t k' \<longrightarrow> k' \<notin> set (gs @ k # fs)" using l by (auto simp: glayout_def)
  from slist_remove_Cons [OF s] obtain h f where r: "utfslist_remove (lnk t) (grpinfo_freelst t) = ret (h, f, Some (Grp k))"
    "slist h f (map Grp fs)" and fr: "\<And>y. y \<noteq> Grp k \<Longrightarrow> h y = lnk t y" by metis
  let ?t = "t\<lparr>lnk := h, grpinfo_freelst := f\<rparr>"
  have "h x = lnk t x" if "x \<in> set (map Grp gs)" for x using fr [of x] that d by auto
  with l have g: "slist h (grpinfo_lst t) (map Grp gs)" by (auto simp: glayout_def intro: slist_frame)
  show thesis
  proof (rule that [of ?t])
    show "grp_take t = ret (Some (Grp k), ?t)" by (simp add: grp_take_def r)
    show "grp_fill (Some (Grp k)) g sz r ?t = ret (k, put_grp k \<lparr>ge_grp = g, ge_size = sz, ge_ranks = r\<rparr> ?t)" for g sz r
      using l by (auto simp: grp_fill_def grp_at_def glayout_def)
    show "k \<notin> set (gs @ fs)" "\<not> owned t k" using d ow by auto
    show "glayout (put_grp k e ?t) gs fs G \<and> same_coms t (put_grp k e ?t)" for e
    proof
      have "list_all2 (grp_row (put_grp k e ?t)) gs G = list_all2 (grp_row t) gs G"
        using d by (intro rows_cong) auto
      moreover have "owned (put_grp k e ?t) = owned t" by (simp add: owned_def fun_eq_iff)
      ultimately show "glayout (put_grp k e ?t) gs fs G" using l r(2) g d by (auto simp: glayout_def)
      show "same_coms t (put_grp k e ?t)" using fr ow by (auto simp: same_coms_def)
    qed
  qed
qed

lemma glayout_link:
  assumes l: "glayout t gs fs G" and k: "k \<notin> set (gs @ fs)" "\<not> owned t k" and row: "grp_row t k x"
  shows "glayout (grp_link k t) (gs @ [k]) fs (G @ [x])" and "same_coms t (grp_link k t)"
proof -
  obtain h q p where a: "utfslist_append (lnk t) (grpinfo_lst t) (Grp k) = (h, q, p)" by (cases "utfslist_append (lnk t) (grpinfo_lst t) (Grp k)") auto
  have s: "slist (lnk t) (grpinfo_lst t) (map Grp gs)" and n: "Grp k \<notin> set (map Grp gs)" and d: "distinct (gs @ fs)"
    using l k by (auto simp: glayout_def)
  note ap = slist_append [OF s n a]
  have "slist h (grpinfo_freelst t) (map Grp fs)"
    by (rule slist_frame [of "lnk t"]) (use l d k ap(2) in \<open>auto simp: glayout_def\<close>)
  moreover have "list_all2 (grp_row (grp_link k t)) gs G = list_all2 (grp_row t) gs G" by (intro rows_cong) (simp add: grp_link_def a)
  moreover have "owned (grp_link k t) = owned t" by (simp add: owned_def fun_eq_iff grp_link_def a)
  moreover have "grp_row (grp_link k t) k x" using row by (simp add: grp_row_def grp_link_def a)
  ultimately show "glayout (grp_link k t) (gs @ [k]) fs (G @ [x])"
    using l k d ap(1) by (auto simp: glayout_def grp_link_def a intro: list_all2_appendI)
  show "same_coms t (grp_link k t)" using ap(2) by (auto simp: same_coms_def grp_link_def a)
qed

lemma holds_ranks [simp]: "holds \<lparr>ge_grp = g, ge_size = length r, ge_ranks = Some r\<rparr> r"
  by (simp add: holds_def)

lemma grp_row_put: "holds e r \<Longrightarrow> ge_grp e = h \<Longrightarrow> grp_row (put_grp k e t) k (h, r)"
  by (simp add: grp_row_def)

text \<open>Registering a group; \<open>a\<close> is an array that may be longer than the group.\<close>

lemma grpinfo_reg_glayout:
  assumes l: "glayout t gs (k # fs) G" and a: "length r \<le> length a" "take (length r) a = r"
  shows "\<exists>t'. grpinfo_reg h (length r) (Some a) t = ret (k, t') \<and> glayout t' (gs @ [k]) fs (G @ [(h, r)]) \<and> same_coms t t'"
proof -
  let ?e = "\<lparr>ge_grp = h, ge_size = length r, ge_ranks = Some a\<rparr>"
  from glayout_take [OF l] obtain t1 where t: "grp_take t = ret (Some (Grp k), t1)"
    "grp_fill (Some (Grp k)) h (length r) (Some a) t1 = ret (k, put_grp k ?e t1)"
    "glayout (put_grp k ?e t1) gs fs G" "same_coms t (put_grp k ?e t1)" "k \<notin> set (gs @ fs)" "\<not> owned t k" by metis
  have "holds ?e r" using a by (simp add: holds_def)
  then have "grp_row (put_grp k ?e t1) k (h, r)" by (intro grp_row_put) simp_all
  note n = glayout_link [OF t(3,5) _ this]
  have "\<not> owned (put_grp k ?e t1) k" using same_owned [OF t(4)] t(6) by simp
  with n t(1,2,4) show ?thesis by (auto simp: grpinfo_reg_def intro: same_coms_trans)
qed

lemma take_empty: "glayout t gs [] G \<Longrightarrow> grp_take t = ret (None, t)"
proof -
  assume "glayout t gs [] G"
  then have "utfslist_remove (lnk t) (grpinfo_freelst t) = ret (lnk t, grpinfo_freelst t, None)"
    using sl.rep_remove_Nil by (auto simp: glayout_def)
  then show ?thesis by (simp add: grp_take_def)
qed

lemma grpinfo_reg_gtabs:
  assumes "gtabs t G (Suc n)" and a: "length r \<le> length a" "take (length r) a = r"
  shows "\<exists>k t'. grpinfo_reg h (length r) (Some a) t = ret (k, t') \<and> gtabs t' (G @ [(h, r)]) n \<and> same_coms t t'"
proof -
  from assms(1) obtain gs fs k where l: "glayout t gs (k # fs) G" and n: "length fs = n" by (auto simp: gtabs_def length_Suc_conv)
  from grpinfo_reg_glayout [OF l a, of h] n show ?thesis by (auto dest: gtabsI)
qed

lemma grpinfo_reg_none: "gtabs t G 0 \<Longrightarrow> grpinfo_reg h sz a t = crash Aborted"
  using take_empty by (auto simp: gtabs_def grpinfo_reg_def)

text \<open>The search loops find the first entry with the handle.\<close>

lemma grp_test_row: "grp_row t k x \<Longrightarrow> grp_test t h (Grp k) \<longleftrightarrow> fst x = h"
  by (auto simp: grp_row_def grp_test_def ret_def)

lemma dropWhile_rows:
  assumes "list_all2 R ks xs" and "\<And>k x. R k x \<Longrightarrow> P (F k) \<longleftrightarrow> fst x = h"
  shows "map_of xs h = None \<Longrightarrow> dropWhile (\<lambda>p. \<not> P p) (map F ks) = []"
    and "map_of xs h = Some v \<Longrightarrow> \<exists>as k bs xs1 xs2. ks = as @ k # bs \<and> xs = xs1 @ (h, v) # xs2 \<and> list_all2 R as xs1
      \<and> list_all2 R bs xs2 \<and> R k (h, v) \<and> (\<forall>a \<in> set as. \<not> P (F a)) \<and> h \<notin> fst ` set xs1"
  using assms(1)
proof (induction ks xs rule: list_all2_induct)
  case (Cons k ks x xs)
  obtain a b where x: "x = (a, b)" by (cases x)
  have t: "P (F k) \<longleftrightarrow> a = h" using assms(2) [OF Cons.hyps(1)] x by simp
  { case 1 then show ?case using t x Cons.IH by (auto split: if_splits) }
  { case 2
    show ?case
    proof (cases "a = h")
      case True
      with 2 x Cons.hyps t show ?thesis by (intro exI [of _ "[]"] exI [of _ k] exI [of _ ks] exI [of _ xs]) auto
    next
      case False
      with 2 x Cons.IH(2) obtain as k' bs xs1 xs2 where "ks = as @ k' # bs" "xs = xs1 @ (h, v) # xs2" "list_all2 R as xs1"
        "list_all2 R bs xs2" "R k' (h, v)" "\<forall>a \<in> set as. \<not> P (F a)" "h \<notin> fst ` set xs1" by auto
      with False x Cons.hyps t show ?thesis
        by (intro exI [of _ "k # as"] exI [of _ k'] exI [of _ bs] exI [of _ "x # xs1"] exI [of _ xs2]) auto
    qed }
qed simp_all

text \<open>What a search over a list of entries gives.\<close>

lemma search_rows:
  assumes s: "slist h l (map F ks)" and R: "list_all2 R ks xs" "\<And>k x. R k x \<Longrightarrow> P (F k) \<longleftrightarrow> fst x = g"
  shows "map_of xs g = None \<Longrightarrow> utfslist_foreach2 h P (head l) None = Some None"
    and "map_of xs g = Some v \<Longrightarrow> \<exists>as k bs xs1 xs2. utfslist_foreach2 h P (head l) None = Some (Some (F k, last_ptr (map F as) None))
      \<and> ks = as @ k # bs \<and> xs = xs1 @ (g, v) # xs2 \<and> list_all2 R as xs1 \<and> list_all2 R bs xs2 \<and> R k (g, v) \<and> g \<notin> fst ` set xs1"
proof -
  have c: "chain h (head l) (map F ks)" using s by (simp add: slist_def)
  show "utfslist_foreach2 h P (head l) None = Some None" if "map_of xs g = None"
  proof -
    have "dropWhile (\<lambda>p. \<not> P p) (map F ks) = []" by (rule dropWhile_rows(1) [OF R(1) _ that]) (rule R(2))
    then show ?thesis by (subst foreach2_chain [OF c]) (simp del: dropWhile_eq_Nil_conv)
  qed
  assume "map_of xs g = Some v"
  from dropWhile_rows(2) [where R = R and P = P and F = F and h = g, OF R(1) R(2) this] obtain as k bs xs1 xs2 where *: "ks = as @ k # bs" "xs = xs1 @ (g, v) # xs2" "list_all2 R as xs1"
    "list_all2 R bs xs2" "R k (g, v)" "\<forall>a \<in> set as. \<not> P (F a)" "g \<notin> fst ` set xs1" by blast
  have "P (F k)" using R(2) [OF *(5)] by simp
  then have d: "dropWhile (\<lambda>p. \<not> P p) (map F as @ F k # map F bs) = F k # map F bs"
    "takeWhile (\<lambda>p. \<not> P p) (map F as @ F k # map F bs) = map F as"
    using *(6) dropWhile_append2 [of "map F as" "\<lambda>p. \<not> P p" "F k # map F bs"] takeWhile_append2 [of "map F as" "\<lambda>p. \<not> P p" "F k # map F bs"]
    by auto
  then have "utfslist_foreach2 h P (head l) None = Some (Some (F k, last_ptr (map F as) None))"
    using foreach2_chain [OF c, of P None] *(1) d by simp
  with * show "\<exists>as k bs xs1 xs2. utfslist_foreach2 h P (head l) None = Some (Some (F k, last_ptr (map F as) None))
      \<and> ks = as @ k # bs \<and> xs = xs1 @ (g, v) # xs2 \<and> list_all2 R as xs1 \<and> list_all2 R bs xs2 \<and> R k (g, v) \<and> g \<notin> fst ` set xs1" by blast
qed

text \<open>Looking up a group.\<close>

lemma grpinfo_get_glayout:
  assumes l: "glayout t gs fs G"
  shows "map_of G g = None \<Longrightarrow> grpinfo_get g t = ret None"
    and "map_of G g = Some r \<Longrightarrow> \<exists>k e. grpinfo_get g t = ret (Some k) \<and> k \<in> set gs \<and> grpinfo_entarray t k = Some e \<and> holds e r \<and> ge_grp e = g"
proof -
  have s: "slist (lnk t) (grpinfo_lst t) (map Grp gs)" "list_all2 (grp_row t) gs G" using l by (auto simp: glayout_def)
  note f = search_rows [where F = Grp and P = "grp_test t g", OF s grp_test_row]
  show "grpinfo_get g t = ret None" if "map_of G g = None" using f(1) that by (simp add: grpinfo_get_def)
  show "\<exists>k e. grpinfo_get g t = ret (Some k) \<and> k \<in> set gs \<and> grpinfo_entarray t k = Some e \<and> holds e r \<and> ge_grp e = g" if "map_of G g = Some r"
    using f(2) [OF _ that] by (auto simp: grpinfo_get_def grp_row_def)
qed

text \<open>Removing a group.\<close>

lemma grpinfo_unreg_glayout:
  assumes l: "glayout t gs fs G"
  shows "map_of G g = None \<Longrightarrow> grpinfo_unreg g t = ret (-1, t)"
    and "G = A @ (g, r) # B \<Longrightarrow> g \<notin> fst ` set A \<Longrightarrow> \<exists>t' gs' k. grpinfo_unreg g t = ret (0, t') \<and> glayout t' gs' (k # fs) (A @ B) \<and> same_coms t t'"
proof -
  have d: "distinct (gs @ fs)" and row: "list_all2 (grp_row t) gs G" and s: "slist (lnk t) (grpinfo_lst t) (map Grp gs)"
    and fl: "slist (lnk t) (grpinfo_freelst t) (map Grp fs)" and ow: "\<And>k. owned t k \<Longrightarrow> k \<notin> set (gs @ fs)" using l by (auto simp: glayout_def)
  note f = search_rows [where F = Grp and P = "grp_test t g", OF s row grp_test_row]
  show "grpinfo_unreg g t = ret (-1, t)" if "map_of G g = None" using f(1) that by (simp add: grpinfo_unreg_def)
  assume G: "G = A @ (g, r) # B" "g \<notin> fst ` set A"
  have "map_of A g = None" using G(2) by (simp add: map_of_eq_None_iff)
  then have "map_of G g = Some r" using G(1) by (simp add: map_add_def)
  from f(2) [OF _ this] obtain as k bs xs1 xs2 where p: "utfslist_foreach2 (lnk t) (grp_test t g) (head (grpinfo_lst t)) None
      = Some (Some (Grp k, last_ptr (map Grp as) None))" "gs = as @ k # bs" "G = xs1 @ (g, r) # xs2" "list_all2 (grp_row t) as xs1"
    "list_all2 (grp_row t) bs xs2" "grp_row t k (g, r)" "g \<notin> fst ` set xs1" by blast
  have AB: "xs1 = A" "xs2 = B"
    using p(3,7) G by (auto simp: append_eq_append_conv2 append_eq_Cons_conv Cons_eq_append_conv)
  obtain e where e: "grpinfo_entarray t k = Some e" using p(6) by (auto simp: grp_row_def)
  let ?t = "put_grp k (e\<lparr>ge_ranks := None, ge_grp := 0\<rparr>) t"
  obtain h q x where r2: "utfslist_remove2 (lnk t) (grpinfo_lst t) (Grp k) (last_ptr (map Grp as) None) = (h, q, x)"
    by (metis prod_cases3)
  obtain h' f' where i: "utfslist_insert h (grpinfo_freelst t) (Grp k) = (h', f')" by fastforce
  have s': "slist (lnk t) (grpinfo_lst t) (map Grp as @ Grp k # map Grp bs)" using s p(2) by simp
  have dis: "set (map Grp as @ Grp k # map Grp bs) \<inter> set (map Grp fs) = {}" using d p(2) by auto
  note u = sl.unlink_then_insert [OF s' fl dis r2 i]
  have h1: "slist h (grpinfo_freelst t) (map Grp fs)" using sl.frame_remove2 [OF s' r2 fl] dis by auto
  have fr: "h' y = lnk t y" if "y \<notin> range Grp" for y
  proof -
    have "y \<notin> set (map Grp as)" "y \<noteq> Grp k" "Grp k \<notin> set (map Grp fs)" using that dis by auto
    with slist_remove2(2) [OF s' r2, of y] slist_insert(2) [OF h1 _ i, of y] show ?thesis by simp
  qed
  let ?t' = "?t\<lparr>lnk := h', grpinfo_lst := q, grpinfo_freelst := f'\<rparr>"
  have "list_all2 (grp_row ?t') (as @ bs) (A @ B) = list_all2 (grp_row t) (as @ bs) (A @ B)"
    using d p(2) by (intro rows_cong) auto
  moreover have "owned ?t' = owned t" by (simp add: owned_def fun_eq_iff)
  ultimately have "glayout ?t' (as @ bs) (k # fs) (A @ B)"
    using l p AB d e u(1,2) by (auto simp: glayout_def intro: list_all2_appendI)
  moreover have "same_coms t ?t'" using fr ow [of k] p(2) by (auto simp: same_coms_def)
  moreover have "grpinfo_unreg g t = ret (0, ?t')" using e by (simp add: grpinfo_unreg_def p(1) r2 i)
  ultimately show "\<exists>t' gs' k. grpinfo_unreg g t = ret (0, t') \<and> glayout t' gs' (k # fs) (A @ B) \<and> same_coms t t'" by blast
qed

text \<open>Copying the ranks of an entry into a free one. The first lemma says what a copy does, the second what a returning call has done.\<close>

lemma grpinfo_dup_glayout:
  assumes l: "glayout t gs (k # fs) G" and e: "grpinfo_entarray t src = Some e" "ranks_of e = ret r"
  shows "\<exists>t' e'. grpinfo_dup True src h t = ret (k, t') \<and> glayout t' gs fs G \<and> same_coms t t' \<and> k \<notin> set (gs @ fs) \<and> \<not> owned t k
    \<and> grpinfo_entarray t' k = Some e' \<and> ge_grp e' = h \<and> holds e' r"
proof -
  let ?e = "\<lparr>ge_grp = h, ge_size = length r, ge_ranks = Some r\<rparr>"
  have sz: "ge_size e = length r" using e(2) by (auto simp: ranks_of_def split: if_splits option.splits)
  from glayout_take [OF l] obtain t1 where t: "grp_take t = ret (Some (Grp k), t1)"
    "grp_fill (Some (Grp k)) h (length r) (Some r) t1 = ret (k, put_grp k ?e t1)"
    "glayout (put_grp k ?e t1) gs fs G" "same_coms t (put_grp k ?e t1)" "k \<notin> set (gs @ fs)" "\<not> owned t k" by metis
  have "grpinfo_dup True src h t = ret (k, put_grp k ?e t1)"
    using e t(1,2) by (simp add: grpinfo_dup_def sz)
  with t(3-6) show ?thesis by (intro exI [of _ "put_grp k ?e t1"] exI [of _ ?e]) simp
qed

lemma dup_returns: "grpinfo_dup b src g t = ret x \<Longrightarrow> grpinfo_dup True src g t = ret x"
  by (auto simp: grpinfo_dup_def bindO_eq_ret split: if_splits)

lemma grpinfo_dup_ret:
  assumes l: "glayout t gs fs G" and d: "grpinfo_dup b src h t = ret (k, t')"
  shows "\<exists>fs' e r. fs = k # fs' \<and> glayout t' gs fs' G \<and> same_coms t t' \<and> k \<notin> set (gs @ fs') \<and> \<not> owned t k
    \<and> grpinfo_entarray t' k = Some e \<and> ge_grp e = h \<and> holds e r"
proof (cases fs)
  case Nil
  with l take_empty d show ?thesis by (auto simp: grpinfo_dup_def bindO_eq_ret grp_fill_def grp_at_def split: if_splits)
next
  case (Cons k0 fs')
  from d obtain i e r where e: "grp_at t (Some (Grp src)) = ret (i, e)" "ranks_of e = ret r"
    by (auto simp: grpinfo_dup_def bindO_eq_ret split: if_splits)
  then have "grpinfo_entarray t src = Some e" by (auto simp: grp_at_def split: option.splits)
  from grpinfo_dup_glayout [OF l [unfolded Cons] this e(2), of h] dup_returns [OF d] Cons show ?thesis by auto
qed

text \<open>What a returning registration and a returning removal have done.\<close>

lemma grpinfo_reg_ret:
  assumes "gtabs t G n" "grpinfo_reg h sz (Some a) t = ret (k, t')" "sz \<le> length a"
  shows "\<exists>n'. gtabs t' (G @ [(h, take sz a)]) n' \<and> same_coms t t'"
proof (cases n)
  case 0
  with assms grpinfo_reg_none show ?thesis by fastforce
next
  case (Suc n')
  have l: "length (take sz a) = sz" using assms(3) by simp
  from assms grpinfo_reg_gtabs [of t G n' "take sz a" a h, unfolded l] Suc show ?thesis by auto
qed

lemma map_of_split: "map_of G g = Some r \<Longrightarrow> \<exists>A B. G = A @ (g, r) # B \<and> g \<notin> fst ` set A"
proof (induction G)
  case (Cons x G)
  show ?case
  proof (cases "fst x = g")
    case True
    with Cons.prems show ?thesis by (cases x) (intro exI [of _ "[]"] exI [of _ G]; auto)
  next
    case False
    with Cons.prems Cons.IH obtain A B where "G = A @ (g, r) # B" "g \<notin> fst ` set A" by (cases x) auto
    with False show ?thesis by (intro exI [of _ "x # A"] exI [of _ B]) auto
  qed
qed simp

lemma grpinfo_unreg_ret:
  assumes t: "gtabs t G n" and r: "grpinfo_unreg g t = ret (0, t')"
  shows "\<exists>G' n'. gtabs t' G' n' \<and> same_coms t t'"
proof -
  from t obtain gs fs where l: "glayout t gs fs G" by (auto simp: gtabs_def)
  show ?thesis
  proof (cases "map_of G g")
    case None
    with grpinfo_unreg_glayout(1) [OF l] r show ?thesis by simp
  next
    case (Some x)
    from map_of_split [OF this] obtain A B where "G = A @ (g, x) # B" "g \<notin> fst ` set A" by (elim exE conjE)
    from grpinfo_unreg_glayout(2) [OF l this] obtain t2 gs' k where
      "grpinfo_unreg g t = ret (0, t2)" "glayout t2 gs' (k # fs) (A @ B)" "same_coms t t2" by blast
    moreover from this(1) r have "t2 = t'" by simp
    ultimately show ?thesis using gtabsI by blast
  qed
qed

section \<open>The interface\<close>

text \<open>
  A table of handles as its clients use it: entries are looked up and registered; the first
  entry with a handle is the one found; registration aborts when no entry is free.
\<close>

locale handle_lookup =
  fixes rep :: "'t \<Rightarrow> ('h \<times> 'v) list \<Rightarrow> nat \<Rightarrow> bool"
    and look :: "'h \<Rightarrow> 't \<Rightarrow> 'v option outcome"
    and reg :: "'h \<Rightarrow> 'v \<Rightarrow> 't \<Rightarrow> 't outcome"
  assumes look: "rep t G n \<Longrightarrow> look h t = ret (map_of G h)"
    and reg: "rep t G (Suc n) \<Longrightarrow> \<exists>t'. reg h v t = ret t' \<and> rep t' (G @ [(h, v)]) n"
    and reg_full: "rep t G 0 \<Longrightarrow> reg h v t = crash Aborted"
begin

lemma look_registered:
  assumes "rep t G (Suc n)" and "map_of G h = None"
  shows "\<exists>t'. reg h v t = ret t' \<and> look h t' = ret (Some v) \<and> (\<forall>h'. h' \<noteq> h \<longrightarrow> look h' t' = look h' t)"
proof -
  from reg [OF assms(1)] obtain t' where t': "reg h v t = ret t'" "rep t' (G @ [(h, v)]) n" by blast
  show ?thesis using t'(1) look [OF t'(2)] look [OF assms(1)] assms(2) by (auto simp: map_add_def split: option.splits)
qed

text \<open>An entry that was never removed hides a later one with the same handle.\<close>

lemma look_stale:
  assumes "rep t G (Suc n)" and "map_of G h = Some w"
  shows "\<exists>t'. reg h v t = ret t' \<and> look h t' = ret (Some w)"
proof -
  from reg [OF assms(1)] obtain t' where "reg h v t = ret t'" "rep t' (G @ [(h, v)]) n" by blast
  with look [OF this(2)] assms(2) show ?thesis by (simp add: map_add_def)
qed

text \<open>As many registrations succeed as there are free entries, and no more.\<close>

fun reg_all :: "('h \<times> 'v) list \<Rightarrow> 't \<Rightarrow> 't outcome" where
  "reg_all [] t = ret t"
| "reg_all (x # xs) t = bindO (reg (fst x) (snd x) t) (reg_all xs)"

lemma reg_all_ok: "rep t G (length xs + n) \<Longrightarrow> \<exists>t'. reg_all xs t = ret t' \<and> rep t' (G @ xs) n"
proof (induction xs arbitrary: t G)
  case (Cons x xs)
  then have "rep t G (Suc (length xs + n))" by simp
  from reg [OF this, of "fst x" "snd x"] obtain t' where t': "reg (fst x) (snd x) t = ret t'"
    "rep t' (G @ [(fst x, snd x)]) (length xs + n)" by blast
  from Cons.IH [OF t'(2)] t'(1) show ?case by auto
qed auto

lemma capacity: "rep t G n \<Longrightarrow> reg_all xs t = crash Aborted \<longleftrightarrow> n < length xs"
proof (induction xs arbitrary: t G n)
  case (Cons x xs)
  show ?case
  proof (cases n)
    case 0
    with Cons.prems reg_full show ?thesis by simp
  next
    case (Suc k)
    with reg [of t G k "fst x" "snd x"] Cons.prems obtain t' where "reg (fst x) (snd x) t = ret t'"
      "rep t' (G @ [(fst x, snd x)]) k" by blast
    with Cons.IH Suc show ?thesis by auto
  qed
qed simp

end

text \<open>A table whose entries can also be removed.\<close>

locale handle_table = handle_lookup rep look reg
  for rep :: "'t \<Rightarrow> ('h \<times> 'v) list \<Rightarrow> nat \<Rightarrow> bool" and look :: "'h \<Rightarrow> 't \<Rightarrow> 'v option outcome" and reg :: "'h \<Rightarrow> 'v \<Rightarrow> 't \<Rightarrow> 't outcome" +
  fixes unreg :: "'h \<Rightarrow> 't \<Rightarrow> (int \<times> 't) outcome"
  assumes unreg_miss: "rep t G n \<Longrightarrow> map_of G h = None \<Longrightarrow> unreg h t = ret (-1, t)"
    and unreg_hit: "rep t (A @ (h, v) # B) n \<Longrightarrow> h \<notin> fst ` set A \<Longrightarrow> \<exists>t'. unreg h t = ret (0, t') \<and> rep t' (A @ B) (Suc n)"
begin

text \<open>Registering and removing a new handle gives back the same table.\<close>

lemma reg_unreg:
  assumes "rep t G (Suc n)" and "map_of G h = None"
  shows "\<exists>t' t''. reg h v t = ret t' \<and> unreg h t' = ret (0, t'') \<and> rep t'' G (Suc n)"
proof -
  from reg [OF assms(1)] obtain t' where t': "reg h v t = ret t'" "rep t' (G @ [(h, v)]) n" by blast
  from unreg_hit [OF t'(2)] assms(2) obtain t'' where "unreg h t' = ret (0, t'')" "rep t'' (G @ []) (Suc n)"
    by (auto simp: map_of_eq_None_iff)
  with t'(1) show ?thesis by auto
qed

end

text \<open>The groups are such a table, for handles of any width.\<close>

definition grp_look :: "int \<Rightarrow> comgrp \<Rightarrow> u32 list option outcome" where
  "grp_look g t = bindO (grpinfo_get g t) (\<lambda>p. case p of None \<Rightarrow> ret None
     | Some k \<Rightarrow> bindO (grp_at t (Some (Grp k))) (\<lambda>(_, e). bindO (ranks_of e) (\<lambda>r. ret (Some r))))"

definition grp_enter :: "int \<Rightarrow> u32 list \<Rightarrow> comgrp \<Rightarrow> comgrp outcome" where
  "grp_enter g r t = bindO (grpinfo_reg g (length r) (Some r) t) (\<lambda>(_, t'). ret t')"

lemma grp_look_gtabs: "gtabs t G n \<Longrightarrow> grp_look g t = ret (map_of G g)"
proof -
  assume "gtabs t G n"
  then obtain gs fs where l: "glayout t gs fs G" by (auto simp: gtabs_def)
  show ?thesis
  proof (cases "map_of G g")
    case None
    with grpinfo_get_glayout(1) [OF l] show ?thesis by (simp add: grp_look_def)
  next
    case (Some r)
    with grpinfo_get_glayout(2) [OF l Some] show ?thesis by (auto simp: grp_look_def ranks_of_holds)
  qed
qed

interpretation gt: handle_table "\<lambda>t G n. gtabs t G n" grp_look grp_enter grpinfo_unreg
proof (unfold_locales, goal_cases)
  case 1 then show ?case by (rule grp_look_gtabs)
next
  case (2 t G n h v)
  from grpinfo_reg_gtabs [OF 2, of v v h] show ?case by (auto simp: grp_enter_def)
next
  case 3 then show ?case by (simp add: grp_enter_def grpinfo_reg_none)
next
  case 4 then show ?case using grpinfo_unreg_glayout(1) by (auto simp: gtabs_def)
next
  case (5 t A h v B n)
  then obtain gs fs where l: "glayout t gs fs (A @ (h, v) # B)" "length fs = n" by (auto simp: gtabs_def)
  from grpinfo_unreg_glayout(2) [OF l(1) refl 5(2)] l(2) show ?case by (auto dest: gtabsI)
qed

end
