(* ===== verification/Mpi_Handles.thy ===== *)
theory Mpi_Handles
  imports Mpi_Groups
begin

text \<open>
  The contract of the table of communicators where their entries do not overlap (handles of eight bytes), together with that of the groups:
  association lists from handles to ranks and barrier groups, in the order of registration, and the numbers of free entries.
\<close>

section \<open>Abstraction\<close>

definition com_row :: "comgrp \<Rightarrow> nat \<times> nat \<Rightarrow> int \<times> u32 list \<times> nat ptr \<Rightarrow> bool" where
  "com_row t jk x \<longleftrightarrow> cominfo_entarray t (fst jk) = Some \<lparr>ce_comm = fst x, ce_grp = Some (snd jk), ce_bg_grp = snd (snd x)\<rparr>
     \<and> (\<exists>e. grpinfo_entarray t (snd jk) = Some e \<and> holds e (fst (snd x)))"

text \<open>The communicators \<open>cs\<close> in use and \<open>zs\<close> free; \<open>os\<close> are the group entries that those in use own.\<close>

definition clayout :: "comgrp \<Rightarrow> nat list \<Rightarrow> nat list \<Rightarrow> nat list \<Rightarrow> (int \<times> u32 list \<times> nat ptr) list \<Rightarrow> bool" where
  "clayout t os cs zs C \<longleftrightarrow> slist (lnk t) (cominfo_lst t) (map Com cs) \<and> slist (lnk t) (cominfo_freelst t) (map Com zs) \<and> distinct (cs @ zs)
   \<and> (\<forall>j \<in> set zs. cominfo_entarray t j \<noteq> None) \<and> length os = length cs \<and> list_all2 (com_row t) (zip cs os) C"

definition layout :: "comgrp \<Rightarrow> nat list \<Rightarrow> nat list \<Rightarrow> nat list \<Rightarrow> nat list \<Rightarrow> nat list
    \<Rightarrow> (int \<times> u32 list) list \<Rightarrow> (int \<times> u32 list \<times> nat ptr) list \<Rightarrow> bool" where
  "layout t gs fs os cs zs G C \<longleftrightarrow> com_apart (handle_bytes t) \<and> glayout t gs fs G \<and> clayout t os cs zs C"

definition tabs :: "comgrp \<Rightarrow> (int \<times> u32 list) list \<Rightarrow> (int \<times> u32 list \<times> nat ptr) list \<Rightarrow> nat \<Rightarrow> nat \<Rightarrow> bool" where
  "tabs t G C n m \<longleftrightarrow> (\<exists>gs fs os cs zs. layout t gs fs os cs zs G C \<and> length fs = n \<and> length zs = m)"

lemma tabsI: "layout t gs fs os cs zs G C \<Longrightarrow> tabs t G C (length fs) (length zs)"
  unfolding tabs_def by blast

lemma tabs_gtabs: "tabs t G C n m \<Longrightarrow> gtabs t G n"
  by (auto simp: tabs_def layout_def dest: gtabsI)

lemma layout_apart: "layout t gs fs os cs zs G C \<Longrightarrow> com_apart (handle_bytes t)"
  by (simp add: layout_def)

lemma com_at_simps [simp]: "cominfo_entarray t k = Some c \<Longrightarrow> com_apart (handle_bytes t) \<Longrightarrow> com_at t (Some (Com k)) = ret (k, c)"
  by (simp add: com_at_def com_read_def)

lemma put_com_sel [simp]:
  "com_apart (handle_bytes t) \<Longrightarrow> lnk (put_com k c t) = lnk t" "handle_bytes (put_com k c t) = handle_bytes t" "grpinfo_lst (put_com k c t) = grpinfo_lst t" "grpinfo_freelst (put_com k c t) = grpinfo_freelst t"
  "cominfo_lst (put_com k c t) = cominfo_lst t" "cominfo_freelst (put_com k c t) = cominfo_freelst t"
  "grpinfo_entarray (put_com k c t) = grpinfo_entarray t" "cominfo_entarray (put_com k c t) = (cominfo_entarray t)(k \<mapsto> c)"
  by (simp_all add: put_com_def)

text \<open>An operation on groups keeps the communicators.\<close>

lemma com_row_owned: "com_row t (j, k) x \<Longrightarrow> owned t k"
  by (fastforce simp: com_row_def owned_def)

lemma clayout_same:
  assumes l: "clayout t os cs zs C" and s: "same_coms t t'"
  shows "clayout t' os cs zs C"
proof -
  have "com_row t' jk x" if "com_row t jk x" for jk x
    using that s com_row_owned [of t "fst jk" "snd jk" x] by (auto simp: com_row_def same_coms_def)
  then have "list_all2 (com_row t') (zip cs os) C" using l by (auto simp: clayout_def elim: list_all2_mono)
  moreover have "slist (lnk t') (cominfo_lst t) (map Com cs)" "slist (lnk t') (cominfo_freelst t) (map Com zs)"
    using l s by (auto simp: clayout_def same_coms_def intro!: slist_frame [of "lnk t"])
  ultimately show ?thesis using l s by (simp add: clayout_def same_coms_def)
qed

lemma layout_same: "layout t gs fs os cs zs G C \<Longrightarrow> glayout t' gs' fs' G' \<Longrightarrow> same_coms t t' \<Longrightarrow> layout t' gs' fs' os cs zs G' C"
  using clayout_same by (auto simp: layout_def same_coms_def)

lemma tabs_same: "tabs t G C n m \<Longrightarrow> gtabs t' G' n' \<Longrightarrow> same_coms t t' \<Longrightarrow> tabs t' G' C n' m"
  unfolding tabs_def gtabs_def using layout_same by blast

section \<open>Effect of the operations\<close>

text \<open>Registering a group.\<close>

lemma grpinfo_reg_tabs:
  assumes "tabs t G C (Suc n) m" and "length r \<le> length a" "take (length r) a = r"
  shows "\<exists>k t'. grpinfo_reg h (length r) (Some a) t = ret (k, t') \<and> tabs t' (G @ [(h, r)]) C n m"
  using grpinfo_reg_gtabs [OF tabs_gtabs [OF assms(1)] assms(2,3)] tabs_same [OF assms(1)] by blast

text \<open>The search finds the first communicator with the handle.\<close>

lemma com_test_row: "com_row t (j, k) x \<Longrightarrow> com_apart (handle_bytes t) \<Longrightarrow> com_test t h (Com j) \<longleftrightarrow> fst x = h"
  by (auto simp: com_row_def com_test_def ret_def [where 'a = "nat \<times> cominfo_ent"])

lemma cominfo_get_layout:
  assumes l: "layout t gs fs os cs zs G C"
  shows "map_of C c = None \<Longrightarrow> cominfo_get c t = ret None"
    and "map_of C c = Some (r, b) \<Longrightarrow> \<exists>j k e. cominfo_get c t = ret (Some j) \<and> cominfo_entarray t j = Some \<lparr>ce_comm = c, ce_grp = Some k, ce_bg_grp = b\<rparr>
      \<and> grpinfo_entarray t k = Some e \<and> holds e r"
proof -
  have len: "length os = length cs" and row: "list_all2 (com_row t) (zip cs os) C" and sl: "slist (lnk t) (cominfo_lst t) (map Com cs)"
    and ap: "com_apart (handle_bytes t)" using l by (auto simp: layout_def clayout_def)
  have "map Com cs = map (\<lambda>jk. Com (fst jk)) (zip cs os)" using len by (simp add: map_map [symmetric, unfolded comp_def] del: map_map)
  with sl have s: "slist (lnk t) (cominfo_lst t) (map (\<lambda>jk. Com (fst jk)) (zip cs os))" by simp
  have t: "com_test t c (Com (fst jk)) \<longleftrightarrow> fst x = c" if "com_row t jk x" for jk x
    using com_test_row [of t "fst jk" "snd jk" x c] that ap by simp
  note f = search_rows [where F = "\<lambda>jk. Com (fst jk)" and P = "com_test t c", OF s row t]
  show "cominfo_get c t = ret None" if "map_of C c = None" using f(1) that by (simp add: cominfo_get_def)
  assume "map_of C c = Some (r, b)"
  from f(2) [OF _ this] obtain as jk bs where g: "utfslist_foreach2 (lnk t) (com_test t c) (head (cominfo_lst t)) None
      = Some (Some (Com (fst jk), last_ptr (map (\<lambda>jk. Com (fst jk)) as) None))" "zip cs os = as @ jk # bs" "com_row t jk (c, r, b)" by blast
  show "\<exists>j k e. cominfo_get c t = ret (Some j) \<and> cominfo_entarray t j = Some \<lparr>ce_comm = c, ce_grp = Some k, ce_bg_grp = b\<rparr>
      \<and> grpinfo_entarray t k = Some e \<and> holds e r"
    using g(1,3) ap by (auto simp: cominfo_get_def com_row_def)
qed

text \<open>Registering a communicator with a group that is in no list.\<close>

lemma cominfo_reg_layout:
  assumes l: "layout t gs fs os cs (j # zs) G C" and k: "k \<notin> set (gs @ fs)" and e: "grpinfo_entarray t k = Some e" "holds e r"
  shows "\<exists>t'. cominfo_reg c k b t = ret (j, t') \<and> layout t' gs fs (os @ [k]) (cs @ [j]) zs G (C @ [(c, r, b)])"
proof -
  have d: "distinct (cs @ j # zs)" and s0: "slist (lnk t) (cominfo_freelst t) (Com j # map Com zs)" and c0: "slist (lnk t) (cominfo_lst t) (map Com cs)"
    and ap: "com_apart (handle_bytes t)" and g: "glayout t gs fs G" and cl: "clayout t os cs (j # zs) C"
    using l by (auto simp: layout_def clayout_def)
  from slist_remove_Cons [OF s0] obtain h f where r: "utfslist_remove (lnk t) (cominfo_freelst t) = ret (h, f, Some (Com j))"
    "slist h f (map Com zs)" and fr: "\<And>y. y \<noteq> Com j \<Longrightarrow> h y = lnk t y" by metis
  obtain h' q p where a: "utfslist_append h (cominfo_lst t) (Com j) = (h', q, p)" by (cases "utfslist_append h (cominfo_lst t) (Com j)") auto
  have "h x = lnk t x" if "x \<in> set (map Com cs)" for x using fr [of x] that d by auto
  with c0 have s: "slist h (cominfo_lst t) (map Com cs)" by (auto intro: slist_frame)
  have n: "Com j \<notin> set (map Com cs)" using d by auto
  note app = slist_append [OF s n a]
  have fz: "slist h' f (map Com zs)" by (rule sl.frame_append [OF s n a r(2)]) (use d in auto)
  have fg: "slist h' m (map Grp ys)" if "slist (lnk t) m (map Grp ys)" for m ys
  proof (rule slist_frame [OF that])
    show "h' x = lnk t x" if "x \<in> set (map Grp ys)" for x
    proof -
      have "x \<noteq> Com j" "x \<notin> set (map Com cs)" using that by auto
      with fr [of x] app(2) [of x] show ?thesis by simp
    qed
  qed
  let ?c = "\<lparr>ce_comm = c, ce_grp = Some k, ce_bg_grp = b\<rparr>"
  let ?t' = "(put_com j ?c (t\<lparr>lnk := h, cominfo_freelst := f\<rparr>))\<lparr>lnk := h', cominfo_lst := q\<rparr>"
  have "owned t k'" if "owned ?t' k'" "k' \<noteq> k" for k' using that by (auto simp: owned_def split: if_splits)
  then have "k' \<notin> set (gs @ fs)" if "owned ?t' k'" for k' using g k that unfolding glayout_def by (cases "k' = k") blast+
  moreover have "list_all2 (grp_row ?t') gs G = list_all2 (grp_row t) gs G" by (intro rows_cong) simp
  ultimately have "glayout ?t' gs fs G" using g k fg by (auto simp: glayout_def)
  moreover have "list_all2 (com_row ?t') (zip cs os) C"
  proof -
    have "com_row ?t' x y" if "com_row t x y" "fst x \<noteq> j" for x y using that by (auto simp: com_row_def)
    moreover have "fst x \<noteq> j" if "x \<in> set (zip cs os)" for x
      using set_zip_leftD [of "fst x" "snd x" cs os] that d by auto
    moreover have "list_all2 (com_row t) (zip cs os) C" using cl by (simp add: clayout_def)
    ultimately show ?thesis by (metis (no_types, lifting) list.rel_mono_strong)
  qed
  moreover have "com_row ?t' (j, k) (c, r, b)" using e by (simp add: com_row_def)
  ultimately have "layout ?t' gs fs (os @ [k]) (cs @ [j]) zs G (C @ [(c, r, b)])"
    using cl ap d app(1) fz by (auto simp: layout_def clayout_def zip_append intro!: list_all2_appendI)
  moreover have "cominfo_reg c k b t = ret (j, ?t')"
    using cl ap by (auto simp: cominfo_reg_def r com_fill_def clayout_def a)
  ultimately show ?thesis by blast
qed

lemma cominfo_reg_full: "tabs t G C n 0 \<Longrightarrow> cominfo_reg c k b t = crash Aborted"
proof -
  assume "tabs t G C n 0"
  then have "slist (lnk t) (cominfo_freelst t) []" by (auto simp: tabs_def layout_def clayout_def)
  from sl.rep_remove_Nil [OF this] show ?thesis by (simp add: cominfo_reg_def)
qed

text \<open>A copy of the ranks of an entry, the copy of a communicator, and the group of a communicator.\<close>

lemma grpinfo_dup_layout:
  assumes l: "layout t gs (k # fs) os cs zs G C" and e: "grpinfo_entarray t src = Some e" "holds e r"
  shows "\<exists>t' e'. grpinfo_dup True src h t = ret (k, t') \<and> layout t' gs fs os cs zs G C \<and> k \<notin> set (gs @ fs)
    \<and> grpinfo_entarray t' k = Some e' \<and> ge_grp e' = h \<and> holds e' r"
  using grpinfo_dup_glayout [OF _ e(1) ranks_of_holds [OF e(2)], of gs k fs G h] layout_same [OF l] l by (auto simp: layout_def)

lemma cominfo_dup_tabs:
  assumes "tabs t G C (Suc n) (Suc m)" and "map_of C c = Some (r, b)"
  shows "\<exists>t'. cominfo_dup True c c' t = ret t' \<and> tabs t' G (C @ [(c', r, None)]) n m"
proof -
  from assms(1) obtain gs k fs os cs j zs where l: "layout t gs (k # fs) os cs (j # zs) G C" and nm: "length fs = n" "length zs = m"
    by (auto simp: tabs_def length_Suc_conv)
  from cominfo_get_layout(2) [OF l assms(2)] obtain i g e where g: "cominfo_get c t = ret (Some i)"
    "cominfo_entarray t i = Some \<lparr>ce_comm = c, ce_grp = Some g, ce_bg_grp = b\<rparr>" "grpinfo_entarray t g = Some e" "holds e r" by blast
  from grpinfo_dup_layout [OF l g(3,4), of 0] obtain t1 e1 where t1: "grpinfo_dup True g 0 t = ret (k, t1)" "layout t1 gs fs os cs (j # zs) G C"
    "k \<notin> set (gs @ fs)" "grpinfo_entarray t1 k = Some e1" "holds e1 r" by blast
  from cominfo_reg_layout [OF t1(2-5), of c' None] obtain t2 where t2: "cominfo_reg c' k None t1 = ret (j, t2)"
    "layout t2 gs fs (os @ [k]) (cs @ [j]) zs G (C @ [(c', r, None)])" by blast
  show ?thesis using g(1,2) t1(1) t2 nm layout_apart [OF l] by (auto simp: cominfo_dup_def com_grp_def dest: tabsI)
qed

lemma append_all_frame:
  "slist h lst xs \<Longrightarrow> distinct (xs @ es) \<Longrightarrow> utfslist_append_all h lst es = (h', lst') \<Longrightarrow> x \<notin> set (xs @ es) \<Longrightarrow> h' x = h x"
proof (induction es arbitrary: h lst xs)
  case (Cons e es)
  obtain h1 l1 o1 where a: "utfslist_append h lst e = (h1, l1, o1)" by (cases "utfslist_append h lst e") auto
  have s: "slist h1 l1 (xs @ [e])" and f: "h1 x = h x"
    using slist_append(1,2) [OF Cons.prems(1) _ a] Cons.prems(2,4) by simp_all
  from Cons.IH [OF s] Cons.prems a f show ?case by simp
qed simp

text \<open>The tables after the initialisation, for handles of any width.\<close>

lemma comgrpinfo_init_lists:
  assumes "grpinfo_lst t = no_list" "cominfo_lst t = no_list"
  shows "\<exists>t'. comgrpinfo_init True True n t = ret t' \<and> glayout t' [] [0..<n] [] \<and> clayout t' [] [] [0..<n] [] \<and> handle_bytes t' = handle_bytes t
    \<and> (\<forall>j e. cominfo_entarray t' j = Some e \<longrightarrow> ce_grp e = None)"
proof -
  obtain h1 gf where a: "utfslist_append_all (clear_grp n (lnk t)) (utfslist_init (grpinfo_freelst t) None) (map Grp [0..<n]) = (h1, gf)" by fastforce
  obtain h3 cf where b: "utfslist_append_all (clear_com n h1) (utfslist_init (cominfo_freelst t) None) (map Com [0..<n]) = (h3, cf)" by fastforce
  have d: "distinct ([] @ map Grp [0..<n])" "distinct ([] @ map Com [0..<n])" by (simp_all add: distinct_map inj_on_def)
  have g: "slist h1 gf (map Grp [0..<n])" using slist_append_all [OF slist_init d(1) a] by simp
  have c: "slist h3 cf (map Com [0..<n])" using slist_append_all [OF slist_init d(2) b] by simp
  have "slist (clear_com n h1) gf (map Grp [0..<n])" by (rule slist_frame [OF g]) (auto simp: clear_com_def)
  moreover have "h3 x = (clear_com n h1) x" if "x \<notin> set (map Com [0..<n])" for x
    using append_all_frame [OF slist_init d(2) b] that by simp
  ultimately have "slist h3 gf (map Grp [0..<n])" by (rule slist_frame) auto
  moreover have "slist h3 no_list []" by (simp add: slist_def no_list_def)
  moreover have "ce_grp zero_com = None" by (simp add: zero_com_def)
  moreover have "comgrpinfo_init True True n t = ret (t\<lparr>lnk := h3, grpinfo_freelst := gf, grpinfo_entarray := (\<lambda>k. if k < n then Some zero_grp else None),
      cominfo_freelst := cf, cominfo_entarray := (\<lambda>k. if k < n then Some zero_com else None)\<rparr>)" by (simp add: comgrpinfo_init_def a b)
  ultimately show ?thesis using c assms by (auto simp: glayout_def clayout_def owned_def)
qed

lemma comgrpinfo_init_tabs:
  assumes "grpinfo_lst t = no_list" "cominfo_lst t = no_list" "com_apart (handle_bytes t)"
  shows "\<exists>t'. comgrpinfo_init True True n t = ret t' \<and> tabs t' [] [] n n"
proof -
  from comgrpinfo_init_lists [OF assms(1,2), of n] obtain t' where t': "comgrpinfo_init True True n t = ret t'"
    "glayout t' [] [0..<n] []" "clayout t' [] [] [0..<n] []" "handle_bytes t' = handle_bytes t" by blast
  then have "layout t' [] [0..<n] [] [] [0..<n] [] []" using assms(3) by (simp add: layout_def)
  from tabsI [OF this] t'(1) show ?thesis by auto
qed

section \<open>The interface\<close>

text \<open>Of the communicators the first part of the interface of a table of handles holds.\<close>

definition com_look :: "int \<Rightarrow> comgrp \<Rightarrow> (u32 list \<times> nat ptr) option outcome" where
  "com_look c t = bindO (cominfo_get c t) (\<lambda>p. case p of None \<Rightarrow> ret None
     | Some j \<Rightarrow> bindO (com_at t (Some (Com j))) (\<lambda>(_, x). bindO (com_grp t j) (\<lambda>k. bindO (grp_at t (Some (Grp k))) (\<lambda>(_, e).
         bindO (ranks_of e) (\<lambda>r. ret (Some (r, ce_bg_grp x)))))))"

lemma com_look_tabs: "tabs t G C n m \<Longrightarrow> com_look c t = ret (map_of C c)"
proof -
  assume "tabs t G C n m"
  then obtain gs fs os cs zs where l: "layout t gs fs os cs zs G C" by (auto simp: tabs_def)
  show ?thesis
  proof (cases "map_of C c")
    case None
    with cominfo_get_layout(1) [OF l] show ?thesis by (simp add: com_look_def)
  next
    case (Some x)
    then have "map_of C c = Some (fst x, snd x)" by simp
    from cominfo_get_layout(2) [OF l this] show ?thesis using Some layout_apart [OF l] by (auto simp: com_look_def com_grp_def ranks_of_holds)
  qed
qed

text \<open>
  A communicator with a group entry of its own, as \<open>mpi_bg_init\<close> enters \<open>MPI_COMM_WORLD\<close>. While there are more free
  group entries than free communicator entries this is a registration.
\<close>

definition com_enter :: "int \<Rightarrow> u32 list \<times> nat ptr \<Rightarrow> comgrp \<Rightarrow> comgrp outcome" where
  "com_enter c x t = bindO (grp_take t) (\<lambda>(p, t1). bindO (grp_fill p 0 (length (fst x)) (Some (fst x)) t1) (\<lambda>(k, t2).
     bindO (cominfo_reg c k (snd x) t2) (\<lambda>(_, t3). ret t3)))"

definition com_rep :: "comgrp \<Rightarrow> (int \<times> u32 list \<times> nat ptr) list \<Rightarrow> nat \<Rightarrow> bool" where
  "com_rep t C n \<longleftrightarrow> (\<exists>G N. n < N \<and> tabs t G C N n)"

text \<open>The entry of a group that is taken off the free list and filled.\<close>

lemma layout_take:
  assumes l: "layout t gs (k # fs) os cs zs G C"
  obtains t1 where "grp_take t = ret (Some (Grp k), t1)" "\<And>g sz r. grp_fill (Some (Grp k)) g sz r t1 = ret (k, put_grp k \<lparr>ge_grp = g, ge_size = sz, ge_ranks = r\<rparr> t1)"
    "\<And>e. layout (put_grp k e t1) gs fs os cs zs G C" "k \<notin> set (gs @ fs)"
proof -
  have "glayout t gs (k # fs) G" using l by (simp add: layout_def)
  from glayout_take [OF this] obtain t1 where "grp_take t = ret (Some (Grp k), t1)"
    "\<And>g sz r. grp_fill (Some (Grp k)) g sz r t1 = ret (k, put_grp k \<lparr>ge_grp = g, ge_size = sz, ge_ranks = r\<rparr> t1)"
    "\<And>e. glayout (put_grp k e t1) gs fs G \<and> same_coms t (put_grp k e t1)" "k \<notin> set (gs @ fs)" by metis
  with layout_same [OF l] show thesis by (intro that) blast+
qed

lemma com_enter_tabs:
  assumes "tabs t G C (Suc n) (Suc m)"
  shows "\<exists>t'. com_enter c (r, b) t = ret t' \<and> tabs t' G (C @ [(c, r, b)]) n m"
proof -
  from assms obtain gs k fs os cs j zs where l: "layout t gs (k # fs) os cs (j # zs) G C" and nm: "length fs = n" "length zs = m"
    by (auto simp: tabs_def length_Suc_conv)
  let ?e = "\<lparr>ge_grp = 0, ge_size = length r, ge_ranks = Some r\<rparr>"
  from layout_take [OF l] obtain t1 where t: "grp_take t = ret (Some (Grp k), t1)"
    "grp_fill (Some (Grp k)) 0 (length r) (Some r) t1 = ret (k, put_grp k ?e t1)"
    "layout (put_grp k ?e t1) gs fs os cs (j # zs) G C" "k \<notin> set (gs @ fs)" by metis
  have "grpinfo_entarray (put_grp k ?e t1) k = Some ?e" by simp
  from cominfo_reg_layout [OF t(3,4) this holds_ranks, of c b] t(1,2) nm show ?thesis
    by (auto simp: com_enter_def dest: tabsI)
qed

lemma com_enter_full: "tabs t G C (Suc n) 0 \<Longrightarrow> com_enter c x t = crash Aborted"
proof -
  assume "tabs t G C (Suc n) 0"
  then obtain gs k fs os cs where l: "layout t gs (k # fs) os cs [] G C" by (auto simp: tabs_def length_Suc_conv)
  let ?e = "\<lparr>ge_grp = 0, ge_size = length (fst x), ge_ranks = Some (fst x)\<rparr>"
  from layout_take [OF l] obtain t1 where t: "grp_take t = ret (Some (Grp k), t1)"
    "grp_fill (Some (Grp k)) 0 (length (fst x)) (Some (fst x)) t1 = ret (k, put_grp k ?e t1)"
    "layout (put_grp k ?e t1) gs fs os cs [] G C" by metis
  have "tabs (put_grp k ?e t1) G C (length fs) 0" using tabsI [OF t(3)] by simp
  with t(1,2) show ?thesis by (simp add: com_enter_def cominfo_reg_full)
qed

interpretation ct: handle_lookup com_rep com_look com_enter
proof (unfold_locales, goal_cases)
  case 1 then show ?case by (auto simp: com_rep_def com_look_tabs)
next
  case (2 t C n h v)
  then obtain G N where t: "Suc n < N" "tabs t G C N (Suc n)" by (auto simp: com_rep_def)
  then obtain M where "N = Suc M" "n < M" by (cases N) auto
  with t com_enter_tabs [of t G C M n h "fst v" "snd v"] show ?case by (auto simp: com_rep_def)
next
  case (3 t C h v)
  then obtain G N where "0 < N" "tabs t G C N 0" by (auto simp: com_rep_def)
  then show ?case using com_enter_full [of t G C "N - 1"] by simp
qed

end
