(* ===== verification/Mpi_Narrow.thy ===== *)
theory Mpi_Narrow
  imports Mpi_Handles
begin

text \<open>
  The tables where the handles of the MPI library have four bytes, so that the entries of the array of communicators overlap:
  what is left of the entry of \<open>MPI_COMM_WORLD\<close> after a second communicator has been entered.
\<close>

text \<open>The first three entries of a free list after the initialisation.\<close>

lemma slist_first:
  assumes "slist h l (map F [0..<n])" "3 \<le> n"
  shows "head l = Some (F 0)" "h (F 0) = Some (F 1)" "h (F 1) = Some (F 2)" "tail l = Some (F (n - 1))"
proof -
  have "[0..<n] = 0 # 1 # 2 # [3..<n]" using assms(2) by (simp add: upt_rec numeral_eq_Suc)
  then have e: "map F [0..<n] = F 0 # F 1 # F 2 # map F [3..<n]" by simp
  show "head l = Some (F 0)" "h (F 0) = Some (F 1)" "h (F 1) = Some (F 2)" using assms(1) unfolding e by (auto simp: slist_def)
  show "tail l = Some (F (n - 1))" using assms by (simp add: slist_def last_ptr_def last_map)
qed

lemma foreach2_step:
  "utfslist_foreach2 h P None q = Some None"
  "utfslist_foreach2 h P (Some p) q = (if P p then Some (Some (p, q)) else utfslist_foreach2 h P (h p) (Some p))"
  by (simp_all add: utfslist_foreach2.simps [of _ _ None] utfslist_foreach2.simps [of _ _ "Some p"])

lemma com_test_at: "com_at t (Some p) = ret (k, e) \<Longrightarrow> com_test t c p \<longleftrightarrow> ce_comm e = c"
  by (simp add: com_test_def ret_def)

lemma remove_step: "head l = Some e \<Longrightarrow> tail l \<noteq> Some e \<Longrightarrow> utfslist_remove h l = ret (h(e := None), l\<lparr>head := h e\<rparr>, Some e)"
  by (auto simp: utfslist_remove_def)

lemma append_step:
  "utfslist_append h no_list e = (h(e := None), \<lparr>head = Some e, tail = Some e\<rparr>, None)"
  "tail l = Some q \<Longrightarrow> utfslist_append h l e = (h(q := Some e, e := None), l\<lparr>tail := Some e\<rparr>, head l)"
  by (simp_all add: utfslist_append_def no_list_def)

text \<open>The tables after \<open>mpi_bg_init\<close>, where the entries of the array of communicators overlap.\<close>

definition narrow_tables :: "nat \<Rightarrow> nat \<Rightarrow> int \<Rightarrow> u32 list \<Rightarrow> nat \<Rightarrow> slptr links \<Rightarrow> comgrp" where
  "narrow_tables hb n c r a h = \<lparr>handle_bytes = hb, lnk = h(Grp 0 := None, Com 0 := None, Com 1 := Some (Bgp a)), grpinfo_lst = no_list,
     grpinfo_freelst = \<lparr>head = Some (Grp 1), tail = Some (Grp (n - 1))\<rparr>,
     grpinfo_entarray = (\<lambda>k. if k < n then Some zero_grp else None)(0 \<mapsto> \<lparr>ge_grp = 0, ge_size = length r, ge_ranks = Some r\<rparr>),
     cominfo_lst = \<lparr>head = Some (Com 0), tail = Some (Com 0)\<rparr>, cominfo_freelst = \<lparr>head = Some (Com 1), tail = Some (Com (n - 1))\<rparr>,
     cominfo_entarray = (\<lambda>k. if k < n then Some zero_com else None)(0 \<mapsto> \<lparr>ce_comm = c, ce_grp = Some 0, ce_bg_grp = Some a\<rparr>)\<rparr>"

lemma world_entered:
  assumes "3 \<le> n" and "\<not> com_apart hb"
  shows "\<exists>h. bindO (comgrpinfo_init True True n (comgrp_zero hb)) (com_enter c (r, Some a)) = ret (narrow_tables hb n c r a h)"
proof -
  let ?t = "comgrp_zero hb"
  obtain h1 gf where a: "utfslist_append_all (clear_grp n (lnk ?t)) (utfslist_init (grpinfo_freelst ?t) None) (map Grp [0..<n]) = (h1, gf)" by fastforce
  obtain h3 cf where b: "utfslist_append_all (clear_com n h1) (utfslist_init (cominfo_freelst ?t) None) (map Com [0..<n]) = (h3, cf)" by fastforce
  have d: "distinct ([] @ map Grp [0..<n])" "distinct ([] @ map Com [0..<n])" by (simp_all add: distinct_map inj_on_def)
  have g: "slist h1 gf (map Grp [0..<n])" using slist_append_all [OF slist_init d(1) a] by simp
  have c: "slist h3 cf (map Com [0..<n])" using slist_append_all [OF slist_init d(2) b] by simp
  have "slist (clear_com n h1) gf (map Grp [0..<n])" by (rule slist_frame [OF g]) (auto simp: clear_com_def)
  moreover have "h3 x = (clear_com n h1) x" if "x \<notin> set (map Com [0..<n])" for x
    using append_all_frame [OF slist_init d(2) b] that by simp
  ultimately have g3: "slist h3 gf (map Grp [0..<n])" by (rule slist_frame) auto
  note f = slist_first [OF g3 assms(1)] slist_first [OF c assms(1)]
  have n: "0 < n" "Suc 0 < n" "n - Suc 0 \<noteq> 0" using assms(1) by simp_all
  have r: "utfslist_remove h3 gf = ret (h3(Grp 0 := None), gf\<lparr>head := Some (Grp 1)\<rparr>, Some (Grp 0))"
    using f n by (subst remove_step) auto
  have r2: "utfslist_remove (h3(Grp 0 := None)) cf = ret (h3(Grp 0 := None, Com 0 := None), cf\<lparr>head := Some (Com 1)\<rparr>, Some (Com 0))"
    using f n by (subst remove_step) auto
  let ?T = "?t\<lparr>lnk := h3, grpinfo_freelst := gf, grpinfo_entarray := (\<lambda>k. if k < n then Some zero_grp else None),
      cominfo_freelst := cf, cominfo_entarray := (\<lambda>k. if k < n then Some zero_com else None)\<rparr>"
  have T: "comgrpinfo_init True True n ?t = ret ?T" by (simp add: comgrpinfo_init_def a b)
  have z: "grpinfo_lst ?t = no_list" "cominfo_lst ?t = no_list" "handle_bytes ?t = hb" by (simp_all add: comgrp_zero_def)
  have "com_enter c (r, Some a) ?T = ret (?T\<lparr>lnk := h3(Grp 0 := None, Com 0 := None, Com 1 := Some (Bgp a)),
      grpinfo_freelst := gf\<lparr>head := Some (Grp 1)\<rparr>, grpinfo_entarray := (\<lambda>k. if k < n then Some zero_grp else None)(0 \<mapsto> \<lparr>ge_grp = 0, ge_size = length r, ge_ranks = Some r\<rparr>),
      cominfo_lst := \<lparr>head = Some (Com 0), tail = Some (Com 0)\<rparr>, cominfo_freelst := cf\<lparr>head := Some (Com 1)\<rparr>,
      cominfo_entarray := (\<lambda>k. if k < n then Some zero_com else None)(0 \<mapsto> \<lparr>ce_comm = c, ce_grp = Some 0, ce_bg_grp = Some a\<rparr>)\<rparr>)"
    using n assms(2) by (simp add: com_enter_def grp_take_def r r2 grp_fill_def grp_at_def put_grp_def cominfo_reg_def com_fill_def put_com_def z append_step fun_upd_twist)
  moreover have "gf = \<lparr>head = Some (Grp 0), tail = Some (Grp (n - 1))\<rparr>" "cf = \<lparr>head = Some (Com 0), tail = Some (Com (n - 1))\<rparr>" using f by simp_all
  ultimately show ?thesis using T by (intro exI [of _ h3]) (simp add: narrow_tables_def comgrp_zero_def)
qed

lemma narrow_look: "n \<noteq> 0 \<Longrightarrow> \<not> com_apart hb \<Longrightarrow> com_look c (narrow_tables hb n c r a h) = ret (Some (r, Some a))"
  by (simp add: com_look_def cominfo_get_def foreach2_step com_test_at [of _ _ 0] com_at_def com_read_def com_grp_def ranks_of_def grp_at_def narrow_tables_def)

lemma narrow_dup:
  assumes "3 \<le> n" and "\<not> com_apart hb" and "c' \<noteq> c"
  shows "\<exists>t. cominfo_dup True c c' (narrow_tables hb n c r a h) = ret t \<and> com_look c t = ret (Some (r, None))
    \<and> (\<forall>N. N \<noteq> c \<longrightarrow> N \<noteq> c' \<longrightarrow> cominfo_unreg N t = ret (-1, t))"
proof -
  let ?t = "narrow_tables hb n c r a h"
  have n: "0 < n" "Suc 0 < n" "n - Suc 0 \<noteq> Suc 0" "2 < n" using assms(1) by simp_all
  have g: "cominfo_get c ?t = ret (Some 0)" "com_grp ?t 0 = ret 0"
    using assms by (simp_all add: cominfo_get_def foreach2_step com_test_at [of _ _ 0] com_at_def com_read_def com_grp_def narrow_tables_def)
  let ?e = "\<lparr>ge_grp = 0, ge_size = length r, ge_ranks = Some r\<rparr>"
  let ?t1 = "?t\<lparr>lnk := (lnk ?t)(Grp 1 := None), grpinfo_freelst := \<lparr>head = lnk ?t (Grp 1), tail = Some (Grp (n - 1))\<rparr>,
    grpinfo_entarray := (grpinfo_entarray ?t)(1 \<mapsto> ?e)\<rparr>"
  have l: "grpinfo_freelst ?t = \<lparr>head = Some (Grp 1), tail = Some (Grp (n - 1))\<rparr>" "cominfo_freelst ?t = \<lparr>head = Some (Com 1), tail = Some (Com (n - 1))\<rparr>"
    "cominfo_lst ?t = \<lparr>head = Some (Com 0), tail = Some (Com 0)\<rparr>" "handle_bytes ?t = hb" "grpinfo_entarray ?t 0 = Some ?e"
    "cominfo_entarray ?t 0 = Some \<lparr>ce_comm = c, ce_grp = Some 0, ce_bg_grp = Some a\<rparr>"
    "grpinfo_entarray ?t (Suc 0) = Some zero_grp" "cominfo_entarray ?t (Suc 0) = Some zero_com" "cominfo_entarray ?t (Suc (Suc 0)) = Some zero_com"
    "lnk ?t (Com 1) = Some (Bgp a)"
    using n by (simp_all add: narrow_tables_def)
  have d: "grpinfo_dup True 0 0 ?t = ret (1, ?t1)"
    using n l ranks_of_holds [OF holds_ranks [of 0 r]] by (simp add: grpinfo_dup_def grp_at_def grp_take_def remove_step grp_fill_def put_grp_def)
  let ?t2 = "?t1\<lparr>lnk := (lnk ?t1)(Com 2 := None, Com 0 := Some (Com 1), Com 1 := None), cominfo_freelst := \<lparr>head = Some (Bgp a), tail = Some (Com (n - 1))\<rparr>,
     cominfo_entarray := (cominfo_entarray ?t)(1 \<mapsto> \<lparr>ce_comm = c', ce_grp = Some 1, ce_bg_grp = None\<rparr>), cominfo_lst := \<lparr>head = Some (Com 0), tail = Some (Com 1)\<rparr>\<rparr>"
  have r: "cominfo_reg c' 1 None ?t1 = ret (1, ?t2)"
    using n l assms(2) by (simp add: cominfo_reg_def remove_step com_fill_def put_com_def append_step numeral_2_eq_2 fun_upd_twist)
  have "cominfo_dup True c c' ?t = ret ?t2" using g d r by (simp add: cominfo_dup_def)
  moreover have "com_look c ?t2 = ret (Some (r, None))"
    using l assms(2) ranks_of_holds [OF holds_ranks [of 0 r]]
    by (simp add: com_look_def cominfo_get_def foreach2_step com_test_at [of _ _ 0] com_at_def com_read_def com_grp_def grp_at_def)
  moreover have "cominfo_unreg N ?t2 = ret (-1, ?t2)" if "N \<noteq> c" "N \<noteq> c'" for N
    using l assms(2) that by (simp add: cominfo_unreg_def foreach2_step com_test_at [of _ _ 0] com_test_at [of _ _ 1] com_at_def com_read_def)
  ultimately show ?thesis by blast
qed

end
