(* ===== verification/Mpi_Coms.thy ===== *)
theory Mpi_Coms
  imports Mpi_Narrow
begin

text \<open>
  What holds of the table of communicators for handles of any width, so also where its entries overlap: the communicators in use are linked in a list,
  each owns a group entry, and the first one (\<open>MPI_COMM_WORLD\<close>) owns the first of them. Where the entries overlap the list of free entries is damaged
  from the first registration on, so that there is room for one more communicator only.
\<close>

section \<open>The invariant\<close>

text \<open>
  The free entries, for the communicators \<open>cs\<close> in use. Where entries overlap: after the first registration the link of the next free entry is
  the barrier group of the first communicator; after the second one the list of free entries leads to that barrier group.
\<close>

definition fit_free :: "comgrp \<Rightarrow> nat list \<Rightarrow> bool" where
  "fit_free t cs \<longleftrightarrow>
     (if com_apart (handle_bytes t) then \<exists>zs. slist (lnk t) (cominfo_freelst t) (map Com zs) \<and> distinct (cs @ zs)
      else (\<exists>a. head (cominfo_freelst t) = Some (Bgp a))
         \<or> (\<exists>w a. cs = [w] \<and> head (cominfo_freelst t) = Some (Com (Suc w)) \<and> tail (cominfo_freelst t) \<noteq> Some (Com (Suc w)) \<and> lnk t (Com (Suc w)) = Some (Bgp a)))"

text \<open>\<open>N\<close> is \<open>MPI_COMM_NULL\<close>.\<close>

definition cwf :: "int \<Rightarrow> comgrp \<Rightarrow> nat list \<Rightarrow> bool" where
  "cwf N t cs \<longleftrightarrow> slist (lnk t) (cominfo_lst t) (map Com cs) \<and> fit_free t cs
   \<and> (\<forall>j \<in> set cs. \<exists>e k. cominfo_entarray t j = Some e \<and> ce_grp e = Some k)
   \<and> (\<exists>e. cs \<noteq> [] \<and> cominfo_entarray t (hd cs) = Some e \<and> ce_grp e = Some 0 \<and> ce_comm e \<noteq> N)
   \<and> (\<forall>j e. j \<noteq> hd cs \<longrightarrow> cominfo_entarray t j = Some e \<longrightarrow> ce_grp e \<noteq> Some 0)"

lemma cwf_same:
  assumes "cwf N t cs" and "same_coms t t'"
  shows "cwf N t' cs"
proof -
  have l: "lnk t' (Com j) = lnk t (Com j)" for j using assms(2) by (auto simp: same_coms_def)
  have s: "slist (lnk t') m (map Com xs)" if "slist (lnk t) m (map Com xs)" for m xs
    by (rule slist_frame [OF that]) (auto simp: l)
  have "fit_free t' cs" using assms s l unfolding cwf_def fit_free_def same_coms_def by (auto split: if_splits)
  then show ?thesis using assms s unfolding cwf_def same_coms_def by simp
qed

section \<open>Registration\<close>

lemma reg_effect:
  assumes "cominfo_reg c k b t = ret (j, t')"
  obtains h f h' l x where "utfslist_remove (lnk t) (cominfo_freelst t) = ret (h, f, Some (Com j))"
    "utfslist_append (lnk (put_com j \<lparr>ce_comm = c, ce_grp = Some k, ce_bg_grp = b\<rparr> (t\<lparr>lnk := h, cominfo_freelst := f\<rparr>))) (cominfo_lst t) (Com j) = (h', l, x)"
    "t' = (put_com j \<lparr>ce_comm = c, ce_grp = Some k, ce_bg_grp = b\<rparr> (t\<lparr>lnk := h, cominfo_freelst := f\<rparr>))\<lparr>lnk := h', cominfo_lst := l\<rparr>"
proof -
  from assms obtain h f p where r: "utfslist_remove (lnk t) (cominfo_freelst t) = ret (h, f, p)"
    by (auto simp: cominfo_reg_def bindO_eq_ret)
  with assms obtain i where i: "p = Some (Com i)" by (cases p) (auto simp: cominfo_reg_def split: slptr.splits)
  let ?t = "put_com i \<lparr>ce_comm = c, ce_grp = Some k, ce_bg_grp = b\<rparr> (t\<lparr>lnk := h, cominfo_freelst := f\<rparr>)"
  obtain h' l x where a: "utfslist_append (lnk ?t) (cominfo_lst t) (Com i) = (h', l, x)" by (metis prod_cases3)
  from assms r i a have "i = j" "t' = ?t\<lparr>lnk := h', cominfo_lst := l\<rparr>"
    by (auto simp: cominfo_reg_def com_fill_def split: if_splits)
  with r i a show thesis by (intro that) simp_all
qed

lemma remove_effect: "utfslist_remove h l = ret (h', l', p) \<Longrightarrow> p = head l \<and> h' = (case p of Some e \<Rightarrow> h(e := None) | None \<Rightarrow> h)
    \<and> (head l \<noteq> tail l \<longrightarrow> (\<exists>e. p = Some e \<and> l' = l\<lparr>head := h e\<rparr>))"
  by (auto simp: utfslist_remove_def bindO_eq_ret Let_def split: if_splits option.splits)

text \<open>The groups are not touched, and the group that the new communicator owns is in no list.\<close>

lemma glayout_frame:
  assumes g: "glayout t gs fs G" and "\<And>i. lnk t' (Grp i) = lnk t (Grp i)" and "grpinfo_lst t' = grpinfo_lst t" "grpinfo_freelst t' = grpinfo_freelst t"
    "grpinfo_entarray t' = grpinfo_entarray t" and o: "\<And>i. owned t' i \<Longrightarrow> owned t i \<or> i = k" and k: "k \<notin> set (gs @ fs)"
  shows "glayout t' gs fs G"
proof -
  have s: "slist (lnk t') m (map Grp xs)" if "slist (lnk t) m (map Grp xs)" for m xs
    by (rule slist_frame [OF that]) (auto simp: assms(2))
  have "list_all2 (grp_row t') gs G = list_all2 (grp_row t) gs G" by (intro rows_cong) (simp add: assms(5))
  moreover have "i \<notin> set (gs @ fs)" if "owned t' i" for i using o [OF that] k g unfolding glayout_def by blast
  ultimately show ?thesis using g s assms(3-5) unfolding glayout_def by simp
qed

lemma append_links: "utfslist_append h l e = (h', l', x) \<Longrightarrow> y \<noteq> e \<Longrightarrow> tail l \<noteq> Some y \<Longrightarrow> h' y = h y"
  by (auto simp: utfslist_append_def split: option.splits)

lemma slist_tail: "slist h l (map F xs) \<Longrightarrow> tail l = Some p \<Longrightarrow> p \<in> F ` set xs"
  by (cases xs rule: rev_cases) (auto simp: slist_def last_ptr_def)

lemma reg_glayout:
  assumes g: "glayout t gs fs G" and k: "k \<notin> set (gs @ fs)" and s: "slist (lnk t) (cominfo_lst t) (map Com cs)" and r: "cominfo_reg c k b t = ret (j, t')"
  shows "glayout t' gs fs G" and "cominfo_entarray t' = (cominfo_entarray t)(j \<mapsto> \<lparr>ce_comm = c, ce_grp = Some k, ce_bg_grp = b\<rparr>)"
    and "handle_bytes t' = handle_bytes t"
proof -
  from reg_effect [OF r] obtain h f h' l x where e: "utfslist_remove (lnk t) (cominfo_freelst t) = ret (h, f, Some (Com j))"
    "utfslist_append (lnk (put_com j \<lparr>ce_comm = c, ce_grp = Some k, ce_bg_grp = b\<rparr> (t\<lparr>lnk := h, cominfo_freelst := f\<rparr>))) (cominfo_lst t) (Com j) = (h', l, x)"
    "t' = (put_com j \<lparr>ce_comm = c, ce_grp = Some k, ce_bg_grp = b\<rparr> (t\<lparr>lnk := h, cominfo_freelst := f\<rparr>))\<lparr>lnk := h', cominfo_lst := l\<rparr>" .
  show a: "cominfo_entarray t' = (cominfo_entarray t)(j \<mapsto> \<lparr>ce_comm = c, ce_grp = Some k, ce_bg_grp = b\<rparr>)" "handle_bytes t' = handle_bytes t"
    using e(3) by simp_all
  have h: "h = (lnk t)(Com j := None)" using remove_effect [OF e(1)] by simp
  have "tail (cominfo_lst t) \<noteq> Some (Grp i)" for i using slist_tail [OF s, of "Grp i"] by auto
  then have "h' (Grp i) = lnk t (Grp i)" for i using append_links [OF e(2), of "Grp i"] h by (simp add: put_com_def)
  moreover have "owned t' i \<Longrightarrow> owned t i \<or> i = k" for i using a(1) by (auto simp: owned_def split: if_splits)
  ultimately show "glayout t' gs fs G" using g k by (intro glayout_frame [of t gs fs G t' k]) (simp_all add: e(3))
qed

lemma cominfo_reg_cwf:
  assumes w: "cwf N t cs" and g: "glayout t gs fs G" and k: "k \<notin> set (gs @ fs)" "\<not> owned t k" and r: "cominfo_reg c k b t = ret (j, t')"
  shows "cwf N t' (cs @ [j]) \<and> glayout t' gs fs G \<and> (\<forall>i \<in> set cs. cominfo_entarray t' i = cominfo_entarray t i)"
proof -
  let ?E = "\<lparr>ce_comm = c, ce_grp = Some k, ce_bg_grp = b\<rparr>"
  have s: "slist (lnk t) (cominfo_lst t) (map Com cs)" and ne: "cs \<noteq> []" and fit: "fit_free t cs" using w by (auto simp: cwf_def)
  note G = reg_glayout [OF g k(1) s r]
  have k0: "k \<noteq> 0" using w k(2) by (auto simp: cwf_def owned_def)
  from reg_effect [OF r] obtain h f h' l x where e: "utfslist_remove (lnk t) (cominfo_freelst t) = ret (h, f, Some (Com j))"
    "utfslist_append (lnk (put_com j ?E (t\<lparr>lnk := h, cominfo_freelst := f\<rparr>))) (cominfo_lst t) (Com j) = (h', l, x)"
    "t' = (put_com j ?E (t\<lparr>lnk := h, cominfo_freelst := f\<rparr>))\<lparr>lnk := h', cominfo_lst := l\<rparr>" .
  note rem = remove_effect [OF e(1)]
  have h: "h = (lnk t)(Com j := None)" and j: "head (cominfo_freelst t) = Some (Com j)" using rem by simp_all
  have main: "slist h' l (map Com (cs @ [j])) \<and> fit_free t' (cs @ [j]) \<and> j \<notin> set cs"
  proof (cases "com_apart (handle_bytes t)")
    case True
    with fit obtain zs where zs: "slist (lnk t) (cominfo_freelst t) (map Com zs)" "distinct (cs @ zs)" by (auto simp: fit_free_def)
    with j obtain zs' where z: "zs = j # zs'" by (cases zs) (auto simp: slist_def)
    from slist_remove_Cons [of "lnk t" "cominfo_freelst t" "Com j" "map Com zs'"] zs(1) z e(1) have f: "slist h f (map Com zs')" by auto
    have "slist h (cominfo_lst t) (map Com cs)" by (rule slist_frame [OF s]) (use h zs(2) z in auto)
    moreover have n: "Com j \<notin> set (map Com cs)" using zs(2) z by auto
    moreover have e2: "utfslist_append h (cominfo_lst t) (Com j) = (h', l, x)" using e(2) True by simp
    ultimately have "slist h' l (map Com (cs @ [j]))" "slist h' f (map Com zs')"
      using slist_append(1) [of h "cominfo_lst t" "map Com cs" "Com j"] sl.frame_append [OF _ n e2 f] zs(2) z by auto
    then show ?thesis using zs(2) z e(3) True n unfolding fit_free_def by auto
  next
    case False
    with fit j obtain v a where v: "cs = [v]" "j = Suc v" "tail (cominfo_freelst t) \<noteq> Some (Com (Suc v))" "lnk t (Com (Suc v)) = Some (Bgp a)"
      by (auto simp: fit_free_def)
    have f: "f = cominfo_freelst t\<lparr>head := Some (Bgp a)\<rparr>" using rem j v by auto
    have "slist (lnk (put_com j ?E (t\<lparr>lnk := h, cominfo_freelst := f\<rparr>))) (cominfo_lst t) (map Com cs)"
      by (rule slist_frame [OF s]) (use v h in \<open>auto simp: put_com_def\<close>)
    from slist_append(1) [OF this _ e(2)] v have "slist h' l (map Com (cs @ [j]))" by simp
    then show ?thesis using v f e(3) False unfolding fit_free_def by simp
  qed
  have "cominfo_entarray t' i = cominfo_entarray t i" if "i \<in> set cs" for i using main G(2) that by auto
  moreover have "hd (cs @ [j]) = hd cs" "hd cs \<in> set cs" using ne by simp_all
  moreover have "lnk t' = h'" "cominfo_lst t' = l" using e(3) by simp_all
  ultimately have "cwf N t' (cs @ [j])"
    using w main G(2) k0 unfolding cwf_def by (auto split: if_splits)
  then show ?thesis using G(1) \<open>\<And>i. i \<in> set cs \<Longrightarrow> cominfo_entarray t' i = cominfo_entarray t i\<close> by blast
qed

section \<open>Removal\<close>

text \<open>Of the communicators only the first one could be removed, and it does not have the handle \<open>MPI_COMM_NULL\<close>.\<close>

lemma com_at_entry: "com_at t (Some (Com j)) = ret (i, e) \<Longrightarrow> i = j \<and> (\<exists>e'. cominfo_entarray t j = Some e' \<and> ce_comm e = ce_comm e' \<and> ce_grp e = ce_grp e')"
  by (auto simp: com_at_def com_read_def bindO_eq_ret split: option.splits if_splits slptr.splits)

lemma cominfo_unreg_cwf:
  assumes w: "cwf N t cs" and r: "cominfo_unreg N t = ret (rc, t')"
  shows "t' = t"
proof (rule ccontr)
  assume n: "t' \<noteq> t"
  have c: "chain (lnk t) (head (cominfo_lst t)) (map Com cs)" using w by (simp add: cwf_def slist_def)
  obtain cur prev where f: "utfslist_foreach2 (lnk t) (com_test t N) (head (cominfo_lst t)) None = Some (Some (cur, prev))"
    and m: "cur \<in> set (map Com cs)" and p: "com_test t N cur"
  proof (cases "dropWhile (\<lambda>x. \<not> com_test t N x) (map Com cs)")
    case Nil
    then have "utfslist_foreach2 (lnk t) (com_test t N) (head (cominfo_lst t)) None = Some None" by (subst foreach2_chain [OF c]) (simp del: dropWhile_eq_Nil_conv)
    with r n show ?thesis by (simp add: cominfo_unreg_def)
  next
    case (Cons x xs)
    then have "x \<in> set (map Com cs)" using set_dropWhileD [of x "\<lambda>x. \<not> com_test t N x" "map Com cs"] by simp
    moreover have "com_test t N x" using hd_dropWhile [of "\<lambda>x. \<not> com_test t N x" "map Com cs"] Cons by auto
    ultimately show ?thesis using that foreach2_chain [OF c, of "com_test t N" None] Cons by (auto simp del: set_map)
  qed
  from m obtain j where j: "cur = Com j" "j \<in> set cs" by auto
  from r f j(1) obtain i e t0 where e: "com_at t (Some (Com j)) = ret (i, e)" "free_grp (ce_grp e) t = ret t0"
    by (auto simp: cominfo_unreg_def bindO_eq_ret)
  from com_at_entry [OF e(1)] obtain e' where e': "cominfo_entarray t j = Some e'" "ce_comm e = ce_comm e'" "ce_grp e = ce_grp e'" by blast
  have "ce_comm e' = N" using p j(1) com_test_at [OF e(1)] e'(2) by simp
  with w e'(1) have "j \<noteq> hd cs" by (auto simp: cwf_def)
  with w e'(1) have "ce_grp e' \<noteq> Some 0" by (simp add: cwf_def)
  moreover have "\<exists>k. ce_grp e' = Some k" using w j(2) e'(1) by (force simp: cwf_def)
  ultimately show False using e(2) e'(3) by (auto simp: free_grp_def split: nat.splits)
qed

section \<open>The first communicator\<close>

text \<open>The tables after \<open>mpi_bg_init\<close> has entered \<open>MPI_COMM_WORLD\<close>.\<close>

lemma world_cwf:
  assumes n: "3 \<le> n" and t: "bindO (comgrpinfo_init True True n (comgrp_zero hb)) (com_enter c (r, Some a)) = ret t" and c: "c \<noteq> N"
  shows "gtabs t [] (n - 1) \<and> cwf N t [0]"
proof -
  have "grpinfo_lst (comgrp_zero hb) = no_list" "cominfo_lst (comgrp_zero hb) = no_list" by (simp_all add: comgrp_zero_def)
  from comgrpinfo_init_lists [OF this, of n] obtain t0 where t0: "comgrpinfo_init True True n (comgrp_zero hb) = ret t0"
    "glayout t0 [] [0..<n] []" "clayout t0 [] [] [0..<n] []" "\<And>j e. cominfo_entarray t0 j = Some e \<Longrightarrow> ce_grp e = None" by blast
  have u: "[0..<n] = 0 # [Suc 0..<n]" using n by (simp add: upt_rec)
  let ?e = "\<lparr>ge_grp = 0, ge_size = length r, ge_ranks = Some r\<rparr>"
  from glayout_take [OF t0(2) [unfolded u]] obtain t1 where t1: "grp_take t0 = ret (Some (Grp 0), t1)"
    "grp_fill (Some (Grp 0)) 0 (length r) (Some r) t1 = ret (0, put_grp 0 ?e t1)"
    "glayout (put_grp 0 ?e t1) [] [Suc 0..<n] []" "same_coms t0 (put_grp 0 ?e t1)" by metis
  let ?t = "put_grp 0 ?e t1"
  have cl: "clayout ?t [] [] (0 # [Suc 0..<n]) []" using clayout_same [OF t0(3) t1(4)] u by simp
  have s: "slist (lnk ?t) (cominfo_lst ?t) (map Com [])" and fs: "slist (lnk ?t) (cominfo_freelst ?t) (Com 0 # map Com [Suc 0..<n])"
    using cl by (simp_all add: clayout_def)
  have none: "ce_grp e = None" if "cominfo_entarray ?t j = Some e" for j e using t0(4) that t1(4) by (simp add: same_coms_def)
  from t t0(1) t1(1,2) obtain j where r: "cominfo_reg c 0 (Some a) ?t = ret (j, t)" by (auto simp: com_enter_def bindO_eq_ret)
  have "0 \<notin> set ([] @ [Suc 0..<n])" by simp
  note G = reg_glayout [OF t1(3) this s r]
  let ?E = "\<lparr>ce_comm = c, ce_grp = Some 0, ce_bg_grp = Some a\<rparr>"
  from reg_effect [OF r] obtain h f h' l x where e: "utfslist_remove (lnk ?t) (cominfo_freelst ?t) = ret (h, f, Some (Com j))"
    "utfslist_append (lnk (put_com j ?E (?t\<lparr>lnk := h, cominfo_freelst := f\<rparr>))) (cominfo_lst ?t) (Com j) = (h', l, x)"
    "t = (put_com j ?E (?t\<lparr>lnk := h, cominfo_freelst := f\<rparr>))\<lparr>lnk := h', cominfo_lst := l\<rparr>" .
  from slist_remove_Cons [OF fs] e(1) have f: "slist h f (map Com [Suc 0..<n])" and j: "j = 0" by auto
  have "slist (lnk (put_com j ?E (?t\<lparr>lnk := h, cominfo_freelst := f\<rparr>))) (cominfo_lst ?t) []" using s by (simp add: slist_def)
  note a = slist_append [OF this _ e(2)]
  have l1: "slist h' l (map Com [0])" using a(1) j by simp
  have fit: "fit_free t [0]"
  proof (cases "com_apart (handle_bytes ?t)")
    case True
    have "slist h' f (map Com [Suc 0..<n])" by (rule slist_frame [OF f]) (use a(2) True j in auto)
    then show ?thesis using True e(3) unfolding fit_free_def by (auto intro!: exI [of _ "[Suc 0..<n]"])
  next
    case False
    have "[Suc 0..<n] = 1 # 2 # [3..<n]" using n by (simp add: upt_rec numeral_eq_Suc)
    then have "head f = Some (Com (Suc 0))" using f by (simp add: slist_def)
    moreover have "tail f = Some (Com (n - 1))" using f n by (simp add: slist_def last_ptr_def last_map)
    moreover have "h' (Com (Suc 0)) = Some (Bgp a)" using a(2) [of "Com (Suc 0)"] j False by (simp add: put_com_def)
    ultimately show ?thesis using False e(3) n unfolding fit_free_def by auto
  qed
  have "cwf N t [0]" using l1 fit G(2) j c none e(3) unfolding cwf_def by (auto split: if_splits)
  moreover have "gtabs t [] (n - 1)" using gtabsI [OF G(1)] by simp
  ultimately show ?thesis by simp
qed

lemma world_look:
  assumes "3 \<le> n"
  shows "\<exists>t. bindO (comgrpinfo_init True True n (comgrp_zero hb)) (com_enter c (r, Some a)) = ret t \<and> com_look c t = ret (Some (r, Some a))"
proof (cases "com_apart hb")
  case True
  from assms obtain k where k: "n = Suc k" by (cases n) auto
  obtain t0 where t0: "comgrpinfo_init True True n (comgrp_zero hb) = ret t0" "tabs t0 [] [] (Suc k) (Suc k)"
    using comgrpinfo_init_tabs [of "comgrp_zero hb" n] True k by (auto simp: comgrp_zero_def)
  from com_enter_tabs [OF t0(2), of c r "Some a"] obtain t where "com_enter c (r, Some a) t0 = ret t" "tabs t [] [(c, r, Some a)] k k" by auto
  with t0(1) com_look_tabs [OF this(2), of c] show ?thesis by auto
next
  case False
  from world_entered [OF assms False, of c r a] obtain h where
    "bindO (comgrpinfo_init True True n (comgrp_zero hb)) (com_enter c (r, Some a)) = ret (narrow_tables hb n c r a h)" by blast
  moreover have "n \<noteq> 0" using assms by simp
  ultimately show ?thesis using narrow_look [OF _ False, of n c r a h] by blast
qed

section \<open>What a look up gives\<close>

text \<open>An operation on groups does not change what is found of a communicator.\<close>

lemma foreach2_some:
  assumes "utfslist_foreach2 h P cur prev = Some y" and "\<And>p. \<not> P p \<Longrightarrow> h' p = h p"
  shows "utfslist_foreach2 h' P cur prev = Some y"
proof -
  let ?Q = "\<lambda>(((h, P), cur), prev) y. (\<forall>p. \<not> P p \<longrightarrow> h' p = h p) \<longrightarrow> utfslist_foreach2 h' P cur prev = Some y"
  have "?Q (((h, P), cur), prev) y"
    by (rule utfslist_foreach2.raw_induct [where Pa = ?Q, OF _ assms(1)])
      (simp only: prod.case, subst utfslist_foreach2.simps, auto split: option.splits if_splits)
  with assms(2) show ?thesis by simp
qed

lemma foreach2_same:
  assumes "\<And>p. \<not> P p \<Longrightarrow> h' p = h p"
  shows "utfslist_foreach2 h' P cur prev = utfslist_foreach2 h P cur prev"
proof (cases "utfslist_foreach2 h P cur prev")
  case None
  show ?thesis
  proof (cases "utfslist_foreach2 h' P cur prev")
    case (Some y)
    then have "utfslist_foreach2 h P cur prev = Some y" by (rule foreach2_some) (simp add: assms)
    with None show ?thesis by simp
  qed (simp add: None)
next
  case (Some y)
  then have "utfslist_foreach2 h' P cur prev = Some y" by (rule foreach2_some) (simp add: assms)
  with Some show ?thesis by simp
qed

lemma same_coms_look:
  assumes s: "same_coms t t'"
  shows "com_look c t' = com_look c t"
proof -
  have l: "lnk t' (Com j) = lnk t (Com j)" for j using s by (auto simp: same_coms_def)
  have at: "com_at t' p = com_at t p" for p
    using s l by (auto simp: com_at_def com_read_def same_coms_def fun_eq_iff split: option.splits slptr.splits)
  then have ct: "com_test t' c = com_test t c" by (simp add: com_test_def fun_eq_iff)
  have "lnk t' p = lnk t p" if "\<not> com_test t c p" for p
    using that s by (cases p) (auto simp: com_test_def com_at_def crash_def same_coms_def)
  from foreach2_same [OF this] s have "cominfo_get c t' = cominfo_get c t" by (simp add: cominfo_get_def ct at same_coms_def split: option.splits)
  moreover have g: "com_grp t' j = com_grp t j" for j by (simp add: com_grp_def at)
  moreover have "grp_at t' (Some (Grp k)) = grp_at t (Some (Grp k))" if "com_grp t j = ret k" for j k
  proof -
    from that obtain i e where "com_at t (Some (Com j)) = ret (i, e)" "ce_grp e = Some k" by (auto simp: com_grp_def bindO_eq_ret split: option.splits)
    with com_at_entry have "owned t k" by (fastforce simp: owned_def)
    with s show ?thesis by (simp add: grp_at_def same_coms_def)
  qed
  then have "bindO (com_grp t j) (\<lambda>k. bindO (grp_at t' (Some (Grp k))) F) = bindO (com_grp t j) (\<lambda>k. bindO (grp_at t (Some (Grp k))) F)"
    for j and F :: "nat \<times> grpinfo_ent \<Rightarrow> (u32 list \<times> nat ptr) option outcome"
    by (cases "com_grp t j") (auto simp: bindO_def ret_def split: sum.splits)
  ultimately show ?thesis by (simp add: com_look_def at split_def cong: option.case_cong)
qed

end
