(* ===== verification/Vbg_Net.thy ===== *)
theory Vbg_Net
  imports Vbg_State
begin

text \<open>
  Data of the construction of a barrier network (\<open>src/src/vbg/utf_bg_alloc.h\<close>,
  \<open>utf_bg_alloc.c\<close>, \<open>utf_bg_internal.h\<close>, \<open>utf_bg_init.h\<close>): coordinates and node numbers,
  the information about an axis, the rows of the send/receive sequence, VBG identifiers and the
  64-bit \<open>bginfo\<close> words that the processes exchange. The invalid index \<open>(size_t)-1\<close> is
  \<open>None\<close>; pointers into the array of the sequence are positions in it.
\<close>

unbundle bit_operations_syntax

section \<open>Coordinates\<close>

record phys_coords =
  px :: u8
  py :: u8
  pz :: u8
  pa :: u8
  pb :: u8
  pc :: u8

record log_coords =
  lx :: u32
  ly :: u32
  lz :: u32

text \<open>The coordinates of a process (\<open>struct tofu_vname\<close>).\<close>

record tofu_vname =
  v_xyzabc :: phys_coords
  v_xyz :: log_coords

definition log_at :: "log_coords \<Rightarrow> nat \<Rightarrow> u32" where
  "log_at c i = (if i = 0 then lx c else if i = 1 then ly c else lz c)"

definition GET_NODEID :: "phys_coords \<Rightarrow> u32" where
  "GET_NODEID c = push_bit 27 (ucast (pc c)) OR push_bit 25 (ucast (pb c)) OR push_bit 24 (ucast (pa c))
     OR push_bit 16 (ucast (pz c)) OR push_bit 8 (ucast (py c)) OR ucast (px c)"

definition GET_PHY_6D_ADDR_FROM_NODEID :: "u32 \<Rightarrow> phys_coords" where
  "GET_PHY_6D_ADDR_FROM_NODEID nodeid = \<lparr>px = ucast (nodeid AND 0xFF), py = ucast (drop_bit 8 (nodeid AND 0xFF00)),
     pz = ucast (drop_bit 16 (nodeid AND 0xFF0000)), pa = ucast (drop_bit 24 (nodeid AND 0x01000000)),
     pb = ucast (drop_bit 25 (nodeid AND 0x06000000)), pc = ucast (drop_bit 27 (nodeid AND 0x08000000))\<rparr>"

text \<open>A physical address that the network can express: one bit for \<open>a\<close> and \<open>c\<close>, two for \<open>b\<close>.\<close>

definition wf_phys :: "phys_coords \<Rightarrow> bool" where
  "wf_phys c \<longleftrightarrow> pa c < 2 \<and> pb c < 4 \<and> pc c < 2"

section \<open>VBG identifiers and \<open>bginfo\<close> words\<close>

definition UTOFU_VBG_ID_NULL :: u64 where "UTOFU_VBG_ID_NULL = -1"
definition UTF_BG_ALLOC_VBG_ID_UNNECESSARY :: u64 where "UTF_BG_ALLOC_VBG_ID_UNNECESSARY = -3"
definition UTF_BG_ALLOC_VBG_ID_UNDECIDED :: u64 where "UTF_BG_ALLOC_VBG_ID_UNDECIDED = -2"
definition UTF_BG_ALLOC_VBG_ID_NOOPARATION :: u64 where "UTF_BG_ALLOC_VBG_ID_NOOPARATION = UTOFU_VBG_ID_NULL"

lemmas vbg_id_defs = UTOFU_VBG_ID_NULL_def UTF_BG_ALLOC_VBG_ID_UNNECESSARY_def UTF_BG_ALLOC_VBG_ID_UNDECIDED_def
  UTF_BG_ALLOC_VBG_ID_NOOPARATION_def

definition GET_NODEID_FROM_VCQ :: "u64 \<Rightarrow> u32" where
  "GET_NODEID_FROM_VCQ i = ucast (drop_bit 32 (i AND 0x0FFFFFFF00000000))"

definition GET_BGID_FROM_VBGID :: "u64 \<Rightarrow> u16" where
  "GET_BGID_FROM_VBGID i = ucast (i AND 0x3F)"

definition GET_TNI_FROM_VBGID :: "u64 \<Rightarrow> u16" where
  "GET_TNI_FROM_VBGID i = ucast (drop_bit 61 (i AND 0xE000000000000000))"

definition SET_ENABLE_BGINFO :: "u16 \<Rightarrow> phys_coords \<Rightarrow> u16 \<Rightarrow> u16 \<Rightarrow> u64" where
  "SET_ENABLE_BGINFO mytni c src_bg_id dst_bg_id = push_bit 61 (ucast mytni) OR push_bit 59 (ucast (pc c))
     OR push_bit 57 (ucast (pb c)) OR push_bit 56 (ucast (pa c)) OR push_bit 48 (ucast (pz c)) OR push_bit 40 (ucast (py c))
     OR push_bit 32 (ucast (px c)) OR push_bit 8 (ucast src_bg_id) OR ucast dst_bg_id"

definition UTF_BIT_BGINFO_DISABLE :: u64 where
  "UTF_BIT_BGINFO_DISABLE = push_bit 60 1"

definition UTF_BG_ALLOC_INIT_BGINFO :: u64 where
  "UTF_BG_ALLOC_INIT_BGINFO = 0xFFFF"

definition SET_DISABLE :: "u8 \<Rightarrow> u64" where
  "SET_DISABLE errcase = push_bit 60 1 OR push_bit 16 (ucast errcase)"

definition UTF_GET_BGINFO_TNI_CNC :: "u64 \<Rightarrow> u64" where
  "UTF_GET_BGINFO_TNI_CNC x = x AND 0xEFFFFFFF00000000"

definition UTF_GET_BGINFO_DSTBGID :: "u64 \<Rightarrow> u64" where
  "UTF_GET_BGINFO_DSTBGID x = x AND 0xFF"

definition UTF_GET_BGINFO_SRCBGID :: "u64 \<Rightarrow> u64" where
  "UTF_GET_BGINFO_SRCBGID x = drop_bit 8 (x AND 0xFF00)"

section \<open>Axes and sequences\<close>

datatype axis_kind = UTF_BG_ALLOC_AXIS_OFF_AXES | UTF_BG_ALLOC_AXIS_IN_NODE | UTF_BG_ALLOC_AXIS_ON_X | UTF_BG_ALLOC_AXIS_ON_Y
  | UTF_BG_ALLOC_AXIS_ON_Z | UTF_BG_ALLOC_AXIS_MYSELF

text \<open>\<open>UTF_BG_ALLOC_AXIS_NUM_AXES\<close>: the node and the axes X, Y, Z.\<close>

definition NUM_AXES :: nat where
  "NUM_AXES = 4"

datatype zone = UTF_BG_ALLOC_POWEROFTWO_EAR | UTF_BG_ALLOC_POWEROFTWO_CHEEK | UTF_BG_ALLOC_POWEROFTWO_FACE

record axis_node_info =
  ni_index :: nat
  ni_log :: log_coords
  ni_phy :: phys_coords

record axis_info =
  ax_biggest :: u32
  ax_smallest :: u32
  ax_size :: nat
  number_gates_of_poweroftwo :: nat
  flag_poweroftwo :: bool
  number_gates :: nat
  number_relay_gates :: "zone \<Rightarrow> nat"
  on_poweroftwo :: nat
  off_poweroftwo :: nat
  nodeinfo_index :: nat
  nodeinfo :: "axis_node_info list"

record butterfly_proc_info =
  bp_vbg_id :: u64
  bp_nodeinfo_index :: "nat option"
  bp_index :: "nat option"
  bp_phy :: "phys_coords option"

record butterfly_seq =
  sq_vbg_id :: u64
  recvinfo :: butterfly_proc_info
  sendinfo :: butterfly_proc_info
  nextptr :: "nat ptr"

definition no_proc :: butterfly_proc_info where
  "no_proc = \<lparr>bp_vbg_id = UTOFU_VBG_ID_NULL, bp_nodeinfo_index = None, bp_index = None, bp_phy = None\<rparr>"

section \<open>Results of the group functions\<close>

datatype grc = G_SUCCESS | G_ERR_OUT_OF_MEMORY | G_ERR_INVALID_POINTER | G_ERR_INVALID_NUMBER | G_ERR_RESOURCE_BUSY | G_ERR_INTERNAL
  | G_ERR_FULL | G_UNMATCH_PROC_PER_NODE | G_TOO_MANY_PROC_IN_NODE | G_TOO_FEW_NODE | G_OTHER int

text \<open>The allocations a call makes; whether one succeeds is a parameter.\<close>

datatype malloc_site = M_detail | M_world_indexes | M_save_nodeids | M_my_node_indexes | M_nodeinfo | M_intra | M_procinfo | M_vpids
  | M_axis nat | M_file_name | M_zero_file | M_sequence | M_sender nat | M_reciver nat | M_vbg_ids | M_vbg_settings | M_rmt_src_dst

section \<open>Round trips of the identifiers\<close>

lemma bit_less_2p:
  fixes x :: "'a::len word"
  assumes "unat x < 2 ^ n" and "bit x m"
  shows "m < n"
proof -
  have "bit (unat x) m" using assms(2) by (simp add: bit_unsigned_iff bit_imp_le_length)
  then have "bit (take_bit n (unat x)) m" using assms(1) by (simp add: take_bit_nat_eq_self)
  then show ?thesis by (simp add: bit_take_bit_iff)
qed

lemma wf_phys_bits:
  assumes "wf_phys c"
  shows "bit (pa c) m \<Longrightarrow> m < 1" "bit (pb c) m \<Longrightarrow> m < 2" "bit (pc c) m \<Longrightarrow> m < 1"
  using assms bit_less_2p [of "pa c" 1 m] bit_less_2p [of "pb c" 2 m] bit_less_2p [of "pc c" 1 m]
  by (simp_all add: wf_phys_def word_less_nat_alt)

text \<open>The masks of the layout as bit fields.\<close>

lemma field_masks:
  "(0xE000000000000000 :: u64) = push_bit 61 (mask 3)" "(0x0FFFFFFF00000000 :: u64) = push_bit 32 (mask 28)"
  "(0xEFFFFFFF00000000 :: u64) = push_bit 61 (mask 3) OR push_bit 32 (mask 28)" "(0x3F :: u64) = mask 6"
  "(0xFF :: u64) = mask 8" "(0xFF00 :: u64) = push_bit 8 (mask 8)" "(0xFFFF :: u64) = mask 16"
  by (simp_all add: mask_eq_exp_minus_1 push_bit_eq_mult)

lemma node_masks:
  "(0xFF :: u32) = mask 8" "(0xFF00 :: u32) = push_bit 8 (mask 8)" "(0xFF0000 :: u32) = push_bit 16 (mask 8)"
  "(0x01000000 :: u32) = push_bit 24 (mask 1)" "(0x06000000 :: u32) = push_bit 25 (mask 2)" "(0x08000000 :: u32) = push_bit 27 (mask 1)"
  by (simp_all add: mask_eq_exp_minus_1 push_bit_eq_mult)

lemma bit_u8_above: "8 \<le> n \<Longrightarrow> \<not> bit (x :: u8) n"
  by (simp add: impossible_bit)

lemma wf_phys_above:
  assumes "wf_phys c"
  shows "1 \<le> m \<Longrightarrow> \<not> bit (pa c) m" "2 \<le> m \<Longrightarrow> \<not> bit (pb c) m" "1 \<le> m \<Longrightarrow> \<not> bit (pc c) m"
  using wf_phys_bits [OF assms, of m] by linarith+

lemma bit_field:
  "bit (push_bit k (ucast x) :: 'b::len word) n \<longleftrightarrow> k \<le> n \<and> n < LENGTH('b) \<and> bit x (n - k)"
  by (auto simp: bit_push_bit_iff bit_ucast_iff)

lemma bit_field_0: "bit (ucast x :: 'b::len word) n \<longleftrightarrow> n < LENGTH('b) \<and> bit x n"
  by (simp add: bit_ucast_iff)

lemma bit_nodeid_raw:
  "bit (GET_NODEID c) n \<longleftrightarrow> n < 32 \<and> (27 \<le> n \<and> bit (pc c) (n - 27) \<or> 25 \<le> n \<and> bit (pb c) (n - 25) \<or> 24 \<le> n \<and> bit (pa c) (n - 24)
     \<or> 16 \<le> n \<and> bit (pz c) (n - 16) \<or> 8 \<le> n \<and> bit (py c) (n - 8) \<or> bit (px c) n)"
  unfolding GET_NODEID_def bit_or_iff bit_field bit_field_0 len_num1 len_num0 len_bit0 by (simp, blast)

lemma bit_nodeid:
  assumes "wf_phys c"
  shows "n < 8 \<Longrightarrow> bit (GET_NODEID c) n \<longleftrightarrow> bit (px c) n"
    "n < 8 \<Longrightarrow> bit (GET_NODEID c) (8 + n) \<longleftrightarrow> bit (py c) n"
    "n < 8 \<Longrightarrow> bit (GET_NODEID c) (16 + n) \<longleftrightarrow> bit (pz c) n"
    "n < 1 \<Longrightarrow> bit (GET_NODEID c) (24 + n) \<longleftrightarrow> bit (pa c) n"
    "n < 2 \<Longrightarrow> bit (GET_NODEID c) (25 + n) \<longleftrightarrow> bit (pb c) n"
    "n < 1 \<Longrightarrow> bit (GET_NODEID c) (27 + n) \<longleftrightarrow> bit (pc c) n"
  using wf_phys_above [OF assms] by (simp_all add: bit_nodeid_raw bit_u8_above)

lemma bit_mask_field: "bit (x AND push_bit k (mask m) :: 'b::len word) n \<longleftrightarrow> k \<le> n \<and> n < k + m \<and> bit x n"
  using bit_imp_le_length [of x n] by (auto simp: bit_and_iff bit_push_bit_iff bit_mask_iff)

lemma bit_phys_field: "bit (ucast (drop_bit k (x AND push_bit k (mask m) :: u32)) :: u8) n \<longleftrightarrow> n < 8 \<and> n < m \<and> bit x (k + n)"
  unfolding bit_ucast_iff bit_drop_bit_eq o_def bit_mask_field by auto

lemma phys_field_eq:
  assumes "\<And>n. n < m \<Longrightarrow> bit N (k + n) \<longleftrightarrow> bit x n" and "\<And>n. bit x n \<Longrightarrow> n < m"
  shows "(ucast (drop_bit k (N AND push_bit k (mask m) :: u32)) :: u8) = x"
proof (rule bit_word_eqI)
  show "bit (ucast (drop_bit k (N AND push_bit k (mask m))) :: u8) n \<longleftrightarrow> bit x n" if "n < LENGTH(8)" for n
    unfolding bit_phys_field using assms that by (cases "n < m") auto
qed

lemma nodeid_phys:
  assumes "wf_phys c"
  shows "GET_PHY_6D_ADDR_FROM_NODEID (GET_NODEID c) = c"
proof -
  let ?f = "\<lambda>k m. ucast (drop_bit k (GET_NODEID c AND push_bit k (mask m))) :: u8"
  have g: "GET_PHY_6D_ADDR_FROM_NODEID (GET_NODEID c) = \<lparr>px = ?f 0 8, py = ?f 8 8, pz = ?f 16 8, pa = ?f 24 1, pb = ?f 25 2, pc = ?f 27 1\<rparr>"
    unfolding GET_PHY_6D_ADDR_FROM_NODEID_def node_masks push_bit_0_id drop_bit_0 id_def ..
  have l: "bit x n \<Longrightarrow> n < 8" for x :: u8 and n using bit_imp_le_length [of x n] by simp
  note b = bit_nodeid [OF assms] and w = wf_phys_bits [OF assms]
  have "?f 0 8 = px c" by (rule phys_field_eq, simp only: add_0 b(1), erule l)
  moreover have "?f 8 8 = py c" by (rule phys_field_eq, erule b(2), erule l)
  moreover have "?f 16 8 = pz c" by (rule phys_field_eq, erule b(3), erule l)
  moreover have "?f 24 1 = pa c" by (rule phys_field_eq, erule b(4), erule w(1))
  moreover have "?f 25 2 = pb c" by (rule phys_field_eq, erule b(5), erule w(2))
  moreover have "?f 27 1 = pc c" by (rule phys_field_eq, erule b(6), erule w(3))
  ultimately show ?thesis unfolding g by simp
qed

lemma nodeid_28: "wf_phys c \<Longrightarrow> bit (GET_NODEID c) n \<Longrightarrow> n < 28"
  using wf_phys_bits [of c] bit_imp_le_length [of "px c" n] bit_imp_le_length [of "py c" "n - 8"] bit_imp_le_length [of "pz c" "n - 16"]
  unfolding bit_nodeid_raw by fastforce

lemma enable_fields:
  "SET_ENABLE_BGINFO tni c src dst = push_bit 61 (ucast tni) OR push_bit 32 (ucast (GET_NODEID c)) OR push_bit 8 (ucast src) OR ucast dst"
proof (rule bit_word_eqI)
  fix n
  have "bit (push_bit 32 (ucast (GET_NODEID c)) :: u64) n \<longleftrightarrow> bit (push_bit 59 (ucast (pc c)) OR push_bit 57 (ucast (pb c)) OR push_bit 56 (ucast (pa c))
      OR push_bit 48 (ucast (pz c)) OR push_bit 40 (ucast (py c)) OR push_bit 32 (ucast (px c)) :: u64) n"
    unfolding bit_field bit_or_iff bit_nodeid_raw by (cases "32 \<le> n") (auto simp: nat_le_iff_add)
  then show "bit (SET_ENABLE_BGINFO tni c src dst) n \<longleftrightarrow> bit (push_bit 61 (ucast tni) OR push_bit 32 (ucast (GET_NODEID c)) OR push_bit 8 (ucast src) OR ucast dst :: u64) n"
    unfolding SET_ENABLE_BGINFO_def bit_or_iff by blast
qed

text \<open>What \<open>utf_bg_init\<close> reads from a word that \<open>make_bginfo\<close> wrote.\<close>

lemma bginfo_read:
  assumes "wf_phys c" "unat tni < 8" "unat src < 64" "unat dst < 64"
  shows "UTF_GET_BGINFO_TNI_CNC (SET_ENABLE_BGINFO tni c src dst) = push_bit 61 (ucast tni) OR push_bit 32 (ucast (GET_NODEID c))"
    and "UTF_GET_BGINFO_SRCBGID (SET_ENABLE_BGINFO tni c src dst) = ucast src"
    and "UTF_GET_BGINFO_DSTBGID (SET_ENABLE_BGINFO tni c src dst) = ucast dst"
    and "SET_ENABLE_BGINFO tni c src dst AND UTF_BIT_BGINFO_DISABLE = 0"
proof -
  let ?x = "SET_ENABLE_BGINFO tni c src dst"
  have t: "bit tni n \<Longrightarrow> n < 3" and a: "bit src n \<Longrightarrow> n < 6" and d: "bit dst n \<Longrightarrow> n < 6" for n
    using bit_less_2p [of tni 3] bit_less_2p [of src 6] bit_less_2p [of dst 6] assms by auto
  note nd = nodeid_28 [OF assms(1)]
  have x: "bit ?x n \<longleftrightarrow> n < 64 \<and> (61 \<le> n \<and> bit tni (n - 61) \<or> 32 \<le> n \<and> bit (GET_NODEID c) (n - 32) \<or> 8 \<le> n \<and> bit src (n - 8) \<or> bit dst n)" for n
    unfolding enable_fields bit_or_iff bit_field bit_field_0 by auto
  show "UTF_GET_BGINFO_TNI_CNC ?x = push_bit 61 (ucast tni) OR push_bit 32 (ucast (GET_NODEID c))"
  proof (rule bit_word_eqI)
    show "bit (UTF_GET_BGINFO_TNI_CNC ?x) n \<longleftrightarrow> bit (push_bit 61 (ucast tni) OR push_bit 32 (ucast (GET_NODEID c)) :: u64) n" if "n < LENGTH(64)" for n
      unfolding UTF_GET_BGINFO_TNI_CNC_def field_masks bit.conj_disj_distrib bit_or_iff bit_mask_field x bit_field
      using t [of "n - 61"] a [of "n - 8"] d [of n] nd [of "n - 32"] that by (cases "n < 32") auto
  qed
  show "UTF_GET_BGINFO_SRCBGID ?x = ucast src"
  proof (rule bit_word_eqI)
    show "bit (UTF_GET_BGINFO_SRCBGID ?x) n \<longleftrightarrow> bit (ucast src :: u64) n" if "n < LENGTH(64)" for n
      unfolding UTF_GET_BGINFO_SRCBGID_def field_masks bit_drop_bit_eq o_def bit_mask_field x bit_field_0
      using a [of n] d [of "8 + n"] that by auto
  qed
  show "UTF_GET_BGINFO_DSTBGID ?x = ucast dst"
  proof (rule bit_word_eqI)
    show "bit (UTF_GET_BGINFO_DSTBGID ?x) n \<longleftrightarrow> bit (ucast dst :: u64) n" if "n < LENGTH(64)" for n
      unfolding UTF_GET_BGINFO_DSTBGID_def field_masks bit_and_iff bit_mask_iff x bit_field_0 using d [of n] that by auto
  qed
  show "?x AND UTF_BIT_BGINFO_DISABLE = 0"
  proof (rule bit_word_eqI)
    show "bit (?x AND UTF_BIT_BGINFO_DISABLE) n \<longleftrightarrow> bit (0 :: u64) n" if "n < LENGTH(64)" for n
      unfolding UTF_BIT_BGINFO_DISABLE_def bit_and_iff bit_push_bit_iff bit_1_iff x using nd [of 28] a [of 52] d [of 60] by auto
  qed
qed

text \<open>
  The layout of a VBG identifier: the TNI in the upper three bits, the node in the 28 bits
  from bit 32 on, the gate in the lower six, and nothing else.
\<close>

definition wf_vbg :: "u64 \<Rightarrow> bool" where
  "wf_vbg v \<longleftrightarrow> v AND 0xEFFFFFFF0000003F = v"

lemma vbg_fields:
  assumes "wf_vbg v"
  shows "v = push_bit 61 (ucast (GET_TNI_FROM_VBGID v)) OR push_bit 32 (ucast (GET_NODEID_FROM_VCQ v)) OR ucast (GET_BGID_FROM_VBGID v)"
    and "unat (GET_BGID_FROM_VBGID v) < 64" "unat (GET_TNI_FROM_VBGID v) < 8"
proof -
  have m: "(0xEFFFFFFF0000003F :: u64) = push_bit 61 (mask 3) OR push_bit 32 (mask 28) OR push_bit 0 (mask 6)"
    by (simp add: mask_eq_exp_minus_1 push_bit_eq_mult)
  have v: "bit v n \<longleftrightarrow> (61 \<le> n \<and> n < 61 + 3 \<or> 32 \<le> n \<and> n < 32 + 28 \<or> n < 6) \<and> bit v n" for n
  proof -
    have "bit v n \<longleftrightarrow> bit (v AND 0xEFFFFFFF0000003F) n" using assms by (simp add: wf_vbg_def)
    then show ?thesis unfolding m bit.conj_disj_distrib bit_or_iff bit_mask_field by auto
  qed
  have t: "bit (GET_TNI_FROM_VBGID v) n \<longleftrightarrow> n < 3 \<and> bit v (61 + n)" for n
    unfolding GET_TNI_FROM_VBGID_def field_masks bit_ucast_iff bit_drop_bit_eq o_def bit_mask_field by auto
  have d: "bit (GET_NODEID_FROM_VCQ v) n \<longleftrightarrow> n < 28 \<and> bit v (32 + n)" for n
    unfolding GET_NODEID_FROM_VCQ_def field_masks bit_ucast_iff bit_drop_bit_eq o_def bit_mask_field by auto
  have g: "bit (GET_BGID_FROM_VBGID v) n \<longleftrightarrow> n < 6 \<and> bit v n" for n
    unfolding GET_BGID_FROM_VBGID_def field_masks bit_ucast_iff bit_and_iff bit_mask_iff by auto
  show "v = push_bit 61 (ucast (GET_TNI_FROM_VBGID v)) OR push_bit 32 (ucast (GET_NODEID_FROM_VCQ v)) OR ucast (GET_BGID_FROM_VBGID v)"
  proof (rule bit_word_eqI)
    show "bit v n \<longleftrightarrow> bit (push_bit 61 (ucast (GET_TNI_FROM_VBGID v)) OR push_bit 32 (ucast (GET_NODEID_FROM_VCQ v)) OR ucast (GET_BGID_FROM_VBGID v) :: u64) n"
      if "n < LENGTH(64)" for n
      unfolding bit_or_iff bit_field bit_field_0 t d g using v [of n] that by auto
  qed
  have tb: "take_bit k w = w" if "\<And>n. bit w n \<Longrightarrow> n < k" for w :: u16 and k
    using that by (intro bit_word_eqI) (auto simp: bit_take_bit_iff)
  have lt: "unat w < 2 ^ k" if "\<And>n. bit w n \<Longrightarrow> n < k" for w :: u16 and k
    using tb [OF that] by (metis take_bit_nat_less_exp unsigned_take_bit_eq)
  show "unat (GET_BGID_FROM_VBGID v) < 64" using lt [of "GET_BGID_FROM_VBGID v" 6] g by simp
  show "unat (GET_TNI_FROM_VBGID v) < 8" using lt [of "GET_TNI_FROM_VBGID v" 3] t by simp
qed

end
