(* ===== verification/Vbg_Butterfly.thy ===== *)
theory Vbg_Butterfly
  imports Vbg_Net
begin

text \<open>
  The butterfly network of \<open>src/src/vbg/utf_bg_alloc.c\<close>: the parameters of an axis, the
  destinations and sources of one process at each step (\<open>make_sequence\<close>), the rows of the sequence
  (\<open>initialize_sequence\<close>), its optimisation (\<open>optimized_sequence\<close>) and the number of gates
  (\<open>make_butterfly_network\<close>). The nodes of an axis whose number is not a power of two are
  divided into ears, which only give their value to a cheek and take the result from it, and
  the power of two between them that does the butterfly.
\<close>

unbundle bit_operations_syntax

section \<open>Parameters of an axis\<close>

fun gate_count :: "nat \<Rightarrow> nat" where
  "gate_count s = (if 1 < s then Suc (gate_count (s div 2)) else 0)"

declare gate_count.simps [simp del]

text \<open>One axis with more than one node; \<open>first\<close> says that no such axis came before.\<close>

definition axis_params :: "bool \<Rightarrow> axis_info \<Rightarrow> axis_info" where
  "axis_params first a =
     (let g = gate_count (ax_size a);
          relay = (\<lambda>z. case z of UTF_BG_ALLOC_POWEROFTWO_EAR \<Rightarrow> 1 * 2 | UTF_BG_ALLOC_POWEROFTWO_FACE \<Rightarrow> g * 2
                             | UTF_BG_ALLOC_POWEROFTWO_CHEEK \<Rightarrow> (g + 1) * 2);
          a1 = a\<lparr>number_gates := g, number_gates_of_poweroftwo := g\<rparr>;
          a2 = (if ax_size a AND (ax_size a - 1) \<noteq> 0 then
                  let w = push_bit g 1; on = (ax_size a - w) div 2 in
                  a1\<lparr>on_poweroftwo := on, off_poweroftwo := on + w, number_gates := g + 2, flag_poweroftwo := False\<rparr>
                else a1\<lparr>on_poweroftwo := 0, off_poweroftwo := ax_size a, flag_poweroftwo := True\<rparr>)
      in a2\<lparr>number_relay_gates := (if first then (\<lambda>z. if z = UTF_BG_ALLOC_POWEROFTWO_CHEEK then relay z else relay z - 1) else relay)\<rparr>)"

text \<open>The loop over the axes: the axes, the number of rows, and the last axis with more than one node.\<close>

definition setup_axis :: "nat \<Rightarrow> axis_info list \<times> nat \<times> nat \<Rightarrow> axis_info list \<times> nat \<times> nat" where
  "setup_axis i = (\<lambda>(axes, gates_max, tail).
     if ax_size (axes ! i) \<le> 1 then (axes, gates_max, tail)
     else let a = axis_params (gates_max = 0) (axes ! i) in (axes[i := a], gates_max + (number_gates a + 1), i))"

definition setup_tail :: "axis_info list \<times> nat \<times> nat \<Rightarrow> axis_info list \<times> nat" where
  "setup_tail = (\<lambda>(axes, gates_max, tail). (axes[tail := (axes ! tail)\<lparr>number_relay_gates := (\<lambda>z.
     if z = UTF_BG_ALLOC_POWEROFTWO_CHEEK then number_relay_gates (axes ! tail) z else number_relay_gates (axes ! tail) z - 1)\<rparr>], gates_max))"

definition setup_axes :: "nat \<Rightarrow> axis_info list \<Rightarrow> axis_info list \<times> nat" where
  "setup_axes start_axis axes = setup_tail (fold setup_axis [start_axis..<NUM_AXES] (axes, 0, start_axis))"

section \<open>The sequence of one process\<close>

definition get_my_zone :: "axis_info \<Rightarrow> nat \<Rightarrow> zone" where
  "get_my_zone a i =
     (if i < on_poweroftwo a \<or> off_poweroftwo a \<le> i then UTF_BG_ALLOC_POWEROFTWO_EAR
      else if on_poweroftwo a * 2 \<le> i \<and> i < ax_size a - (ax_size a - off_poweroftwo a) * 2 then UTF_BG_ALLOC_POWEROFTWO_FACE
      else UTF_BG_ALLOC_POWEROFTWO_CHEEK)"

definition GET_PAIR_OF_POWEROFTWO :: "nat \<Rightarrow> nat \<Rightarrow> nat \<Rightarrow> nat \<Rightarrow> nat" where
  "GET_PAIR_OF_POWEROFTWO idx on gates i = ((idx - on) XOR push_bit (gates - i - 1) 1) + on"

definition SET_PAIR_POWEROFTWO :: "axis_info \<Rightarrow> nat \<Rightarrow> nat option list" where
  "SET_PAIR_POWEROFTWO a on = map (\<lambda>i. Some (GET_PAIR_OF_POWEROFTWO (nodeinfo_index a) on (number_gates_of_poweroftwo a) i))
     [0..<number_gates_of_poweroftwo a]"

definition SET_NOOP_FOR_EAR :: "axis_info \<Rightarrow> nat option list" where
  "SET_NOOP_FOR_EAR a = replicate (number_gates_of_poweroftwo a + 1) None"

text \<open>The destinations and the sources of the process at the steps of the axis.\<close>

definition make_sequence :: "axis_info \<Rightarrow> (nat option list \<times> nat option list) outcome" where
  "make_sequence a =
     (let i = nodeinfo_index a; on = on_poweroftwo a; off = off_poweroftwo a; n = ax_size a; pairs = SET_PAIR_POWEROFTWO a on in
      if \<not> flag_poweroftwo a then
        (if i < on then ret (Some (i + on) # SET_NOOP_FOR_EAR a, SET_NOOP_FOR_EAR a @ [Some (i + on)])
         else if i < on * 2 then ret (None # pairs @ [Some (i - on)], Some (i - on) # pairs @ [None])
         else if i < off * 2 - n then ret (None # pairs @ [None], None # pairs @ [None])
         else if i < off then ret (None # pairs @ [Some (i + (n - off))], Some (i + (n - off)) # pairs @ [None])
         else if i < n then ret (Some (i - (n - off)) # SET_NOOP_FOR_EAR a, SET_NOOP_FOR_EAR a @ [Some (i - (n - off))])
         else crash AssertFailed)
      else if number_gates_of_poweroftwo a \<noteq> number_gates a then crash AssertFailed
      else ret (SET_PAIR_POWEROFTWO a 0, SET_PAIR_POWEROFTWO a 0))"

definition initialize_butterfly_proc_info :: "nat option \<Rightarrow> axis_info \<Rightarrow> butterfly_proc_info" where
  "initialize_butterfly_proc_info idx a = (case idx of
       Some i \<Rightarrow> \<lparr>bp_vbg_id = UTF_BG_ALLOC_VBG_ID_UNDECIDED, bp_nodeinfo_index = Some i,
                  bp_index = Some (ni_index (nodeinfo a ! i)), bp_phy = Some (ni_phy (nodeinfo a ! i))\<rparr>
     | None \<Rightarrow> \<lparr>bp_vbg_id = (if get_my_zone a (nodeinfo_index a) = UTF_BG_ALLOC_POWEROFTWO_EAR then UTF_BG_ALLOC_VBG_ID_UNNECESSARY
                             else UTF_BG_ALLOC_VBG_ID_NOOPARATION),
                bp_nodeinfo_index = None, bp_index = None, bp_phy = None\<rparr>)"

text \<open>The rows of one axis: row \<open>k\<close> receives from the source of step \<open>k - 1\<close> and sends to the destination of step \<open>k\<close>.\<close>

definition initialize_sequence :: "axis_info \<Rightarrow> nat option list \<Rightarrow> nat option list \<Rightarrow> butterfly_seq list" where
  "initialize_sequence a sendtable recvtable = map (\<lambda>k.
     \<lparr>sq_vbg_id = UTF_BG_ALLOC_VBG_ID_UNDECIDED,
      recvinfo = (if k = 0 then no_proc else initialize_butterfly_proc_info (recvtable ! (k - 1)) a),
      sendinfo = (if k < number_gates a then initialize_butterfly_proc_info (sendtable ! k) a else no_proc),
      nextptr = None\<rparr>) [0..<number_gates a + 1]"

section \<open>Optimisation of the sequence\<close>

abbreviation no_send :: "butterfly_seq \<Rightarrow> bool" where
  "no_send r \<equiv> bp_nodeinfo_index (sendinfo r) = None"

abbreviation no_recv :: "butterfly_seq \<Rightarrow> bool" where
  "no_recv r \<equiv> bp_nodeinfo_index (recvinfo r) = None"

definition set_next :: "nat \<Rightarrow> nat ptr \<Rightarrow> butterfly_seq list \<Rightarrow> butterfly_seq list" where
  "set_next c p rs = rs[c := (rs ! c)\<lparr>nextptr := p\<rparr>]"

text \<open>Step 1, the loop that links the rows which do something.\<close>

fun link_loop :: "nat \<Rightarrow> nat \<Rightarrow> nat \<Rightarrow> butterfly_seq list \<Rightarrow> butterfly_seq list \<times> nat \<times> nat" where
  "link_loop 0 cur nxt rs = (rs, cur, nxt)"
| "link_loop (Suc m) cur nxt rs =
     (if no_send (rs ! nxt) \<and> no_recv (rs ! nxt) then link_loop m cur (nxt + 1) rs
      else link_loop m nxt (nxt + 1) (set_next cur (Some nxt) rs))"

text \<open>Step 2: a row that only receives takes over the send of a following row that only sends.\<close>

definition mergeable :: "butterfly_seq \<Rightarrow> butterfly_seq \<Rightarrow> bool" where
  "mergeable c d \<longleftrightarrow> \<not> no_recv c \<and> no_send c \<and> no_recv d \<and> \<not> no_send d"

definition merge_row :: "butterfly_seq \<Rightarrow> butterfly_seq \<Rightarrow> butterfly_seq" where
  "merge_row c d = (if mergeable c d then c\<lparr>sendinfo := sendinfo d, nextptr := nextptr d\<rparr> else c)"

partial_function (option) merge_loop :: "nat \<Rightarrow> butterfly_seq list \<Rightarrow> butterfly_seq list option" where
  "merge_loop cur rs = (case nextptr (rs ! cur) of
       None \<Rightarrow> Some rs
     | Some nxt \<Rightarrow> merge_loop nxt (rs[cur := merge_row (rs ! cur) (rs ! nxt)]))"

text \<open>The position of the first row and the linked rows. With fewer than two rows the source reads past its array.\<close>

definition optimized_sequence :: "butterfly_seq list \<Rightarrow> (nat \<times> butterfly_seq list) outcome" where
  "optimized_sequence rs0 =
     (if length rs0 < 2 then crash OutOfBounds else
      let start = (if no_send (rs0 ! 0) \<and> no_recv (rs0 ! 0) \<and> no_recv (rs0 ! 1) then 1 else 0);
          gates = length rs0 - start in
      if gates < 2 then crash OutOfBounds else
      let (rs1, cur, nxt) = link_loop (gates - 2) start (start + 1) rs0;
          rs2 = (if no_send (rs1 ! nxt) \<and> no_recv (rs1 ! nxt) \<and> no_send (rs1 ! cur) then set_next cur None rs1
                 else set_next nxt None (set_next cur (Some nxt) rs1))
      in case merge_loop start rs2 of None \<Rightarrow> None | Some rs3 \<Rightarrow> ret (start, rs3))"

text \<open>The number of links from a row on.\<close>

partial_function (option) count_links :: "nat \<Rightarrow> butterfly_seq list \<Rightarrow> nat \<Rightarrow> nat option" where
  "count_links cur rs n = (case nextptr (rs ! cur) of None \<Rightarrow> Some n | Some nxt \<Rightarrow> count_links nxt rs (n + 1))"

section \<open>The network\<close>

text \<open>The number of half-used gates, which the source computes over the axes.\<close>

definition relay_step :: "axis_info list \<Rightarrow> nat \<Rightarrow> zone option \<times> nat \<Rightarrow> zone option \<times> nat" where
  "relay_step axes i = (\<lambda>(prev_zone, n). if ax_size (axes ! i) \<le> 1 then (prev_zone, n) else
     let z = get_my_zone (axes ! i) (nodeinfo_index (axes ! i));
         extra = (case prev_zone of None \<Rightarrow> 0
           | Some p \<Rightarrow> if (p = UTF_BG_ALLOC_POWEROFTWO_CHEEK) \<noteq> (z = UTF_BG_ALLOC_POWEROFTWO_CHEEK) then 1 else 0)
     in (Some z, n + extra + number_relay_gates (axes ! i) z))"

text \<open>The rows of all axes, or the code of a failed allocation.\<close>

fun axes_rows :: "(malloc_site \<Rightarrow> bool) \<Rightarrow> axis_info list \<Rightarrow> nat list \<Rightarrow> (grc + butterfly_seq list) outcome" where
  "axes_rows ok axes [] = ret (Inr [])"
| "axes_rows ok axes (i # is) =
     (if ax_size (axes ! i) \<le> 1 then axes_rows ok axes is
      else if \<not> ok (M_sender i) \<or> \<not> ok (M_reciver i) then ret (Inl G_ERR_OUT_OF_MEMORY)
      else bindO (make_sequence (axes ! i)) (\<lambda>(sender, reciver).
           bindO (axes_rows ok axes is) (\<lambda>r. ret (case r of Inl e \<Rightarrow> Inl e
             | Inr rs \<Rightarrow> Inr (initialize_sequence (axes ! i) sender reciver @ rs)))))"

text \<open>The position of the first row, the linked rows and the number of VBGs.\<close>

definition make_butterfly_network :: "(malloc_site \<Rightarrow> bool) \<Rightarrow> axis_info list \<Rightarrow> nat \<Rightarrow> (grc + nat \<times> butterfly_seq list \<times> nat) outcome" where
  "make_butterfly_network ok axes0 start_axis =
     (let (axes, gates_max) = setup_axes start_axis axes0 in
      if \<not> ok M_sequence then ret (Inl G_ERR_OUT_OF_MEMORY)
      else bindO (axes_rows ok axes [start_axis..<NUM_AXES]) (\<lambda>r. case r of
          Inl e \<Rightarrow> ret (Inl e)
        | Inr rs \<Rightarrow> bindO (optimized_sequence rs) (\<lambda>(start, rs').
            case count_links start rs' 0 of None \<Rightarrow> None | Some number_vbgs \<Rightarrow> ret (Inr (start, rs', number_vbgs)))))"

end
