(* ===== verification/Vbg_Axes.thy ===== *)
theory Vbg_Axes
  imports Vbg_Net "HOL-Library.Char_ord"
begin

text \<open>
  The first half of \<open>src/src/vbg/utf_bg_alloc.c\<close>: from the ranks of a group and the coordinates of
  their nodes, \<open>make_axes_and_intra_node_infos\<close> finds the nodes, the processes of the own node and, for
  each axis of the network, the processes on the line through the own one in the order of their
  physical addresses. The table \<open>utf_info.vname\<close> of the process map is a function of the rank.
  A write past the end of an array, or a read of an entry that was not set, is \<open>OutOfBounds\<close>.
\<close>

unbundle bit_operations_syntax

section \<open>Data\<close>

definition UTF_BG_MAX_PROC_IN_NODE :: nat where "UTF_BG_MAX_PROC_IN_NODE = 48"
definition UTF_BG_ALLOC_REQUIRED_NODE :: nat where "UTF_BG_ALLOC_REQUIRED_NODE = 4"

definition UTF_BG_ALLOC_TOO_MANY_PROC :: u8 where "UTF_BG_ALLOC_TOO_MANY_PROC = 1"
definition UTF_BG_ALLOC_UNMATCH_PROC :: u8 where "UTF_BG_ALLOC_UNMATCH_PROC = 2"
definition UTF_BG_ALLOC_TOO_FEW_NODE :: u8 where "UTF_BG_ALLOC_TOO_FEW_NODE = 4"

text \<open>The processes of the own node; \<open>mmap_buf\<close> is an offset in the shared memory.\<close>

record intra_info =
  in_manager :: bool
  in_size :: nat
  in_intra_index :: nat
  in_vpids :: "nat option list"
  in_curr_seq :: u64
  in_mmap_buf :: "nat option"

record node_info =
  nd_nodeid :: u32
  nd_size :: nat
  nd_axis :: axis_kind
  nd_manager :: nat

record proc_info =
  pr_nodeid :: u32
  pr_axis :: axis_kind
  pr_index :: nat

text \<open>What the call reads: the table of coordinates, the ranks, the own index, and the globals.\<close>

record axes_arg =
  aa_vname :: "nat \<Rightarrow> tofu_vname"
  aa_rankset :: "u32 list"
  aa_my_index :: nat
  aa_ppn_job :: nat
  aa_first_call :: bool
  aa_is_tofu :: bool
  aa_max_hb :: nat
  aa_malloc :: "malloc_site \<Rightarrow> bool"

definition vname_of :: "axes_arg \<Rightarrow> nat \<Rightarrow> tofu_vname" where
  "vname_of A s = aa_vname A (unat (aa_rankset A ! s))"

abbreviation nodeid_of :: "axes_arg \<Rightarrow> nat \<Rightarrow> u32" where
  "nodeid_of A s \<equiv> GET_NODEID (v_xyzabc (vname_of A s))"

section \<open>Nodes and the position in the own node\<close>

text \<open>The nodes seen so far, and the number of processes of the own node before the own one.\<close>

fun count_nodes :: "axes_arg \<Rightarrow> nat list \<Rightarrow> u32 list \<times> nat \<times> bool \<Rightarrow> u32 list \<times> nat \<times> bool" where
  "count_nodes A [] st = st"
| "count_nodes A (s # ss) (saved, target, found) =
     (let nodeid = nodeid_of A s;
          (target', found') = (if \<not> found \<and> nodeid = nodeid_of A (aa_my_index A)
             then (if aa_my_index A = s then (target, True) else (target + 1, found)) else (target, found))
      in count_nodes A ss (if nodeid \<in> set saved then saved else saved @ [nodeid], target', found'))"

definition check_ppn_make_nodenum_make_target_index :: "axes_arg \<Rightarrow> grc + nat \<times> nat" where
  "check_ppn_make_nodenum_make_target_index A =
     (if 2 \<le> aa_ppn_job A then
        if \<not> aa_malloc A M_save_nodeids then Inl G_ERR_OUT_OF_MEMORY
        else let (saved, target, found) = count_nodes A [0..<length (aa_rankset A)] ([], 0, False) in Inr (length saved, target)
      else Inr (length (aa_rankset A), 0))"

section \<open>Comparison of addresses\<close>

definition COMPARE_LOGADDR_kind :: "log_coords \<Rightarrow> log_coords \<Rightarrow> axis_kind" where
  "COMPARE_LOGADDR_kind my temp =
     (if lz my = lz temp then
        if ly my = ly temp then
          if lx my = lx temp then UTF_BG_ALLOC_AXIS_IN_NODE else UTF_BG_ALLOC_AXIS_ON_X
        else if lx my = lx temp then UTF_BG_ALLOC_AXIS_ON_Y else UTF_BG_ALLOC_AXIS_OFF_AXES
      else if ly my = ly temp \<and> lx my = lx temp then UTF_BG_ALLOC_AXIS_ON_Z else UTF_BG_ALLOC_AXIS_OFF_AXES)"

definition COMPARE_LOGADDR_axis :: "u32 \<Rightarrow> axis_info \<Rightarrow> axis_info" where
  "COMPARE_LOGADDR_axis t a = (if ax_biggest a < t then a\<lparr>ax_biggest := t\<rparr> else if t < ax_smallest a then a\<lparr>ax_smallest := t\<rparr> else a)"

text \<open>The extent of the axes X, Y, Z, which are 1 to 3 of the array.\<close>

definition COMPARE_LOGADDR_axes :: "log_coords \<Rightarrow> axis_info list \<Rightarrow> axis_info list" where
  "COMPARE_LOGADDR_axes temp axes = fold (\<lambda>i as. as[i := COMPARE_LOGADDR_axis (log_at temp (i - 1)) (as ! i)]) [1, 2, 3] axes"

text \<open>The comparison function given to \<open>qsort\<close>.\<close>

definition sort_nodeinfo_by_phy_6d_addr :: "axis_node_info \<Rightarrow> axis_node_info \<Rightarrow> int" where
  "sort_nodeinfo_by_phy_6d_addr na nb = (let a = ni_phy na; b = ni_phy nb in
     if pz a \<noteq> pz b then uint (pz a) - uint (pz b)
     else if py a \<noteq> py b then uint (py a) - uint (py b)
     else if px a \<noteq> px b then uint (px a) - uint (px b)
     else if pb a \<noteq> pb b then uint (pb a) - uint (pb b)
     else if pc a \<noteq> pc b then uint (pc a) - uint (pc b)
     else if pa a \<noteq> pa b then uint (pa a) - uint (pa b)
     else 0)"

text \<open>\<open>qsort\<close> with a comparison function.\<close>

fun insert_by :: "('a \<Rightarrow> 'a \<Rightarrow> int) \<Rightarrow> 'a \<Rightarrow> 'a list \<Rightarrow> 'a list" where
  "insert_by cmp x [] = [x]"
| "insert_by cmp x (y # ys) = (if cmp x y \<le> 0 then x # y # ys else y # insert_by cmp x ys)"

definition qsort_by :: "('a \<Rightarrow> 'a \<Rightarrow> int) \<Rightarrow> 'a list \<Rightarrow> 'a list" where
  "qsort_by cmp xs = foldr (insert_by cmp) xs []"

definition set_axis_node_info :: "axes_arg \<Rightarrow> proc_info \<Rightarrow> axis_node_info" where
  "set_axis_node_info A src = \<lparr>ni_index = pr_index src, ni_log = v_xyz (vname_of A (pr_index src)), ni_phy = v_xyzabc (vname_of A (pr_index src))\<rparr>"

section \<open>The loop over the processes of the group\<close>

record scan =
  sc_nodes :: "node_info list"
  sc_my_node :: nat
  sc_my_indexes :: "nat option list"
  sc_world :: "nat option list option"
  sc_axes :: "axis_info list"
  sc_toomany :: bool

fun find_node :: "u32 \<Rightarrow> node_info list \<Rightarrow> nat" where
  "find_node nodeid [] = 0"
| "find_node nodeid (n # ns) = (if nd_nodeid n = nodeid then 0 else Suc (find_node nodeid ns))"

text \<open>Entering process \<open>s\<close> of the own node at the place \<open>k\<close>.\<close>

definition enter_own :: "axes_arg \<Rightarrow> nat \<Rightarrow> nat \<Rightarrow> scan \<Rightarrow> scan outcome" where
  "enter_own A s k st =
     (if nodeid_of A s \<noteq> nodeid_of A (aa_my_index A) then ret st
      else if \<not> k < aa_ppn_job A then crash AssertFailed
      else ret (st\<lparr>sc_my_indexes := (sc_my_indexes st)[k := Some s],
                   sc_world := (if aa_first_call A then map_option (\<lambda>w. w[k := Some (unat (aa_rankset A ! s))]) (sc_world st) else sc_world st)\<rparr>))"

definition scan_step :: "axes_arg \<Rightarrow> nat \<Rightarrow> nat \<Rightarrow> nat \<Rightarrow> scan \<Rightarrow> (grc \<times> scan) outcome" where
  "scan_step A num_nodes_job target s st =
     (let nodeid = nodeid_of A s; nodes = sc_nodes st; i = find_node nodeid nodes in
      if \<not> i < num_nodes_job then crash AssertFailed
      else if i < length nodes then
        let n = nodes ! i in
        if UTF_BG_MAX_PROC_IN_NODE < nd_size n then ret (G_ERR_INTERNAL, st)
        else bindO (enter_own A s (nd_size n) st) (\<lambda>st'. ret (G_SUCCESS, st'\<lparr>
          sc_nodes := nodes[i := n\<lparr>nd_manager := (if nd_size n = target then s else nd_manager n), nd_size := nd_size n + 1\<rparr>],
          sc_toomany := (sc_toomany st' \<or> aa_max_hb A < nd_size n + 1)\<rparr>))
      else
        bindO (enter_own A s 0 (if nodeid = nodeid_of A (aa_my_index A) then st\<lparr>sc_my_node := length nodes\<rparr> else st)) (\<lambda>st'.
        ret (G_SUCCESS, st'\<lparr>
          sc_nodes := nodes @ [\<lparr>nd_nodeid = nodeid, nd_size = 1,
            nd_axis = COMPARE_LOGADDR_kind (v_xyz (vname_of A (aa_my_index A))) (v_xyz (vname_of A s)), nd_manager = s\<rparr>],
          sc_axes := COMPARE_LOGADDR_axes (v_xyz (vname_of A s)) (sc_axes st')\<rparr>)))"

fun scan_loop :: "axes_arg \<Rightarrow> nat \<Rightarrow> nat \<Rightarrow> nat list \<Rightarrow> scan \<Rightarrow> (grc \<times> scan) outcome" where
  "scan_loop A nj target [] st = ret (G_SUCCESS, st)"
| "scan_loop A nj target (s # ss) st = bindO (scan_step A nj target s st) (\<lambda>(rc, st').
     if rc \<noteq> G_SUCCESS then ret (rc, st') else scan_loop A nj target ss st')"

definition zero_axis :: axis_info where
  "zero_axis = \<lparr>ax_biggest = 0, ax_smallest = 0, ax_size = 0, number_gates_of_poweroftwo = 0, flag_poweroftwo = False, number_gates = 0,
     number_relay_gates = (\<lambda>_. 0), on_poweroftwo = 0, off_poweroftwo = 0, nodeinfo_index = 0, nodeinfo = []\<rparr>"

definition start_axes :: "axes_arg \<Rightarrow> axis_info list" where
  "start_axes A = zero_axis # map (\<lambda>i. let c = log_at (v_xyz (vname_of A (aa_my_index A))) i in zero_axis\<lparr>ax_biggest := c, ax_smallest := c\<rparr>) [0, 1, 2]"

section \<open>The processes of the own node\<close>

definition own_step :: "axes_arg \<Rightarrow> scan \<Rightarrow> nat \<Rightarrow> intra_info \<times> proc_info list \<Rightarrow> (intra_info \<times> proc_info list) outcome" where
  "own_step A st s = (\<lambda>(it, ps).
     case sc_my_indexes st ! s of None \<Rightarrow> crash OutOfBounds
     | Some j \<Rightarrow>
       let n = sc_nodes st ! sc_my_node st; me = (j = aa_my_index A) in
       if length (aa_rankset A) \<le> length ps then crash OutOfBounds
       else ret ((if me then it\<lparr>in_manager := (s = 0), in_intra_index := s\<rparr> else it)\<lparr>in_vpids := (in_vpids it)[s := Some (unat (aa_rankset A ! j))]\<rparr>,
              ps @ [\<lparr>pr_nodeid = nd_nodeid n, pr_axis = (if me then UTF_BG_ALLOC_AXIS_MYSELF else nd_axis n), pr_index = j\<rparr>]))"

fun own_loop :: "axes_arg \<Rightarrow> scan \<Rightarrow> nat list \<Rightarrow> intra_info \<times> proc_info list \<Rightarrow> (intra_info \<times> proc_info list) outcome" where
  "own_loop A st [] r = ret r"
| "own_loop A st (s # ss) r = bindO (own_step A st s r) (own_loop A st ss)"

text \<open>One process of every other node; the flag says that the nodes have different numbers of processes.\<close>

fun other_loop :: "axes_arg \<Rightarrow> scan \<Rightarrow> nat list \<Rightarrow> proc_info list \<Rightarrow> (bool \<times> proc_info list) outcome" where
  "other_loop A st [] ps = ret (False, ps)"
| "other_loop A st (i # is) ps =
     (let n = sc_nodes st ! i in
      if nd_size n = 0 then other_loop A st is ps
      else if aa_is_tofu A \<and> i \<noteq> 0 \<and> nd_size n \<noteq> nd_size (sc_nodes st ! (i - 1)) then ret (True, ps)
      else if i = sc_my_node st then
        (if nd_axis n \<noteq> UTF_BG_ALLOC_AXIS_IN_NODE then crash AssertFailed else other_loop A st is ps)
      else if length (aa_rankset A) \<le> length ps then crash OutOfBounds
      else other_loop A st is (ps @ [\<lparr>pr_nodeid = nd_nodeid n, pr_axis = nd_axis n, pr_index = nd_manager n\<rparr>]))"

section \<open>The lines of the axes\<close>

text \<open>Axis kinds as positions in the array; a node off the axes has none.\<close>

definition axis_pos :: "axis_kind \<Rightarrow> nat option" where
  "axis_pos k = (case k of UTF_BG_ALLOC_AXIS_IN_NODE \<Rightarrow> Some 0 | UTF_BG_ALLOC_AXIS_ON_X \<Rightarrow> Some 1 | UTF_BG_ALLOC_AXIS_ON_Y \<Rightarrow> Some 2
     | UTF_BG_ALLOC_AXIS_ON_Z \<Rightarrow> Some 3 | _ \<Rightarrow> None)"

definition add_to_axis :: "axis_node_info \<Rightarrow> nat \<Rightarrow> axis_info list \<Rightarrow> axis_info list outcome" where
  "add_to_axis x s axes = (if length (nodeinfo (axes ! s)) < ax_size (axes ! s)
     then ret (axes[s := (axes ! s)\<lparr>nodeinfo := nodeinfo (axes ! s) @ [x]\<rparr>]) else crash OutOfBounds)"

fun add_to_axes :: "axis_node_info \<Rightarrow> nat list \<Rightarrow> axis_info list \<Rightarrow> axis_info list outcome" where
  "add_to_axes x [] axes = ret axes"
| "add_to_axes x (s # ss) axes = bindO (add_to_axis x s axes) (add_to_axes x ss)"

text \<open>The axes a process is entered in: the own one in all, another in the one it shares with it.\<close>

definition target_axes :: "bool \<Rightarrow> nat \<Rightarrow> axis_kind \<Rightarrow> nat list" where
  "target_axes hexa end_axis k =
     (if k = UTF_BG_ALLOC_AXIS_MYSELF then [0..<end_axis]
      else if hexa then (case axis_pos k of None \<Rightarrow> [] | Some s \<Rightarrow> [s])
      else if k = UTF_BG_ALLOC_AXIS_IN_NODE then [0] else [1])"

fun fill_axes :: "axes_arg \<Rightarrow> bool \<Rightarrow> nat \<Rightarrow> proc_info list \<Rightarrow> axis_info list \<Rightarrow> axis_info list outcome" where
  "fill_axes A hexa end_axis [] axes = ret axes"
| "fill_axes A hexa end_axis (p # ps) axes =
     bindO (add_to_axes (set_axis_node_info A p) (target_axes hexa end_axis (pr_axis p)) axes) (fill_axes A hexa end_axis ps)"

fun find_index :: "nat \<Rightarrow> axis_node_info list \<Rightarrow> nat option" where
  "find_index j [] = None"
| "find_index j (x # xs) = (if ni_index x = j then Some 0 else map_option Suc (find_index j xs))"

text \<open>
  Sorting, except inside the node, and the own position. The source sorts as many entries as the axis is
  long. If the own process is not there the source reads the entry behind the array before it gives up.
\<close>

definition finish_axis :: "axes_arg \<Rightarrow> nat \<Rightarrow> axis_info \<Rightarrow> axis_info outcome" where
  "finish_axis A i a =
     (if length (nodeinfo a) < ax_size a then crash OutOfBounds
      else let ns = (if i = 0 then nodeinfo a else qsort_by sort_nodeinfo_by_phy_6d_addr (nodeinfo a)) in
      case find_index (aa_my_index A) ns of None \<Rightarrow> crash OutOfBounds
      | Some k \<Rightarrow> ret (a\<lparr>nodeinfo := ns, nodeinfo_index := k\<rparr>))"

fun finish_axes :: "axes_arg \<Rightarrow> nat list \<Rightarrow> axis_info list \<Rightarrow> axis_info list outcome" where
  "finish_axes A [] axes = ret axes"
| "finish_axes A (i # is) axes = bindO (finish_axis A i (axes ! i)) (\<lambda>a. finish_axes A is (axes[i := a]))"

definition axes_sizes :: "intra_info \<Rightarrow> axis_info list \<Rightarrow> axis_info list" where
  "axes_sizes it axes = (axes ! 0)\<lparr>ax_size := in_size it\<rparr>
     # map (\<lambda>i. (axes ! i)\<lparr>ax_size := unat (ax_biggest (axes ! i) - ax_smallest (axes ! i) + 1)\<rparr>) [1, 2, 3]"

definition is_hexa :: "nat \<Rightarrow> axis_info list \<Rightarrow> bool" where
  "is_hexa num_nodes axes \<longleftrightarrow> num_nodes = ax_size (axes ! 1) * ax_size (axes ! 2) * ax_size (axes ! 3)"

definition one_axis :: "nat \<Rightarrow> axis_info list \<Rightarrow> axis_info list" where
  "one_axis num_nodes axes = [axes ! 0, (axes ! 1)\<lparr>ax_size := num_nodes\<rparr>, (axes ! 2)\<lparr>ax_size := 0\<rparr>, (axes ! 3)\<lparr>ax_size := 0\<rparr>]"

text \<open>
  The loop that frees the arrays of the axes after a failed allocation: it counts back once and then frees the same
  entry again as long as its number is 0. For the first axis it leaves the array, for the second it
  frees one array twice.
\<close>

definition free_lines :: "nat \<Rightarrow> (grc + axis_info list) outcome" where
  "free_lines i = (if i = 0 then crash OutOfBounds else if i = 1 then crash Aborted else ret (Inl G_ERR_OUT_OF_MEMORY))"

text \<open>The lines, when the nodes have been found.\<close>

definition make_lines :: "axes_arg \<Rightarrow> nat \<Rightarrow> proc_info list \<Rightarrow> axis_info list \<Rightarrow> (grc + axis_info list) outcome" where
  "make_lines A num_nodes ps axes0 =
     (let hexa = is_hexa num_nodes axes0; end_axis = (if hexa then NUM_AXES else 2); axes = (if hexa then axes0 else one_axis num_nodes axes0) in
      case filter (\<lambda>i. \<not> aa_malloc A (M_axis i)) [0..<end_axis] of i # _ \<Rightarrow> free_lines i
      | [] \<Rightarrow> bindO (fill_axes A hexa end_axis ps axes) (\<lambda>axes1. bindO (finish_axes A [0..<end_axis] axes1) (\<lambda>axes2. ret (Inr axes2))))"

section \<open>\<open>make_axes_and_intra_node_infos\<close>\<close>

text \<open>
  The result: the code, the processes of the own node (none after an error), the axes, the error case and the
  ranks of the own node, which only the first call sets.
\<close>

record axes_result =
  ar_rc :: grc
  ar_intra :: "intra_info option"
  ar_axes :: "axis_info list"
  ar_errcase :: u8
  ar_world :: "nat option list option"

definition axes_fail :: "axes_arg \<Rightarrow> grc \<Rightarrow> nat option list option \<Rightarrow> axes_result" where
  "axes_fail A e w = \<lparr>ar_rc = e, ar_intra = None, ar_axes = start_axes A, ar_errcase = 0, ar_world = w\<rparr>"

text \<open>The codes of a shape that does not fit; the last of the three tests that holds gives the code.\<close>

definition shape_error :: "axes_arg \<Rightarrow> bool \<Rightarrow> nat \<Rightarrow> bool \<Rightarrow> grc \<times> u8" where
  "shape_error A unmatch num_nodes toomany =
     (let (rc1, e1) = (if unmatch then (G_UNMATCH_PROC_PER_NODE, UTF_BG_ALLOC_UNMATCH_PROC) else (G_SUCCESS, 0));
          (rc2, e2) = (if \<not> aa_is_tofu A \<and> num_nodes < UTF_BG_ALLOC_REQUIRED_NODE then (G_TOO_FEW_NODE, e1 OR UTF_BG_ALLOC_TOO_FEW_NODE) else (rc1, e1))
      in if toomany \<and> aa_is_tofu A then (G_TOO_MANY_PROC_IN_NODE, e2 OR UTF_BG_ALLOC_TOO_MANY_PROC) else (rc2, e2))"

definition axes_of_scan :: "axes_arg \<Rightarrow> scan \<Rightarrow> axes_result outcome" where
  "axes_of_scan A st =
     (let n = sc_nodes st ! sc_my_node st; fail = ret (axes_fail A G_ERR_OUT_OF_MEMORY (sc_world st));
          it0 = \<lparr>in_manager = True, in_size = nd_size n, in_intra_index = 0, in_vpids = replicate (nd_size n) None, in_curr_seq = 0, in_mmap_buf = None\<rparr> in
      if \<not> aa_malloc A M_intra then fail else if \<not> aa_malloc A M_procinfo then fail else if \<not> aa_malloc A M_vpids then fail
      else bindO (own_loop A st [0..<nd_size n] (it0, [])) (\<lambda>(it, ps).
           bindO (other_loop A st [0..<length (sc_nodes st)] ps) (\<lambda>(unmatch, ps').
           let (rc, e) = shape_error A unmatch (length (sc_nodes st)) (sc_toomany st);
               res = \<lparr>ar_rc = rc, ar_intra = Some it, ar_axes = sc_axes st, ar_errcase = e, ar_world = sc_world st\<rparr>;
               axes = axes_sizes it (sc_axes st) in
           if rc \<noteq> G_SUCCESS then ret res
           else if \<not> aa_is_tofu A \<and> \<not> in_manager it then ret (res\<lparr>ar_axes := axes\<rparr>)
           else bindO (make_lines A (length (sc_nodes st)) ps' axes) (\<lambda>r. ret (case r of
               Inl e' \<Rightarrow> axes_fail A e' (sc_world st)
             | Inr axes' \<Rightarrow> res\<lparr>ar_axes := axes'\<rparr>)))))"

definition make_axes_and_intra_node_infos :: "axes_arg \<Rightarrow> nat option list option \<Rightarrow> axes_result outcome" where
  "make_axes_and_intra_node_infos A world =
     (let w = (if aa_first_call A then Some (replicate UTF_BG_MAX_PROC_IN_NODE None) else world) in
      if aa_first_call A \<and> \<not> aa_malloc A M_world_indexes then ret (axes_fail A G_ERR_OUT_OF_MEMORY None)
      else case check_ppn_make_nodenum_make_target_index A of
        Inl e \<Rightarrow> ret (axes_fail A e w)
      | Inr (num_nodes_job, target) \<Rightarrow>
          if \<not> aa_malloc A M_my_node_indexes \<or> \<not> aa_malloc A M_nodeinfo then ret (axes_fail A G_ERR_OUT_OF_MEMORY w)
          else bindO (scan_loop A num_nodes_job target [0..<length (aa_rankset A)]
                 \<lparr>sc_nodes = [], sc_my_node = 0, sc_my_indexes = replicate (aa_ppn_job A) None, sc_world = w,
                  sc_axes = start_axes A, sc_toomany = False\<rparr>) (\<lambda>(rc, st).
               if rc \<noteq> G_SUCCESS then ret (axes_fail A rc (sc_world st)) else axes_of_scan A st))"

end
