(* ===== verification/Vbg_Group.thy ===== *)
theory Vbg_Group
  imports Vbg_Butterfly Vbg_Axes
begin

text \<open>
  The second half of \<open>src/src/vbg/utf_bg_alloc.c\<close>: the shared memory of the node (\<open>make_mmap_file\<close>), the
  allocation of the gates (\<open>allocate_vbg\<close>), their settings inside a process (\<open>set_local_vbg\<close>), the words
  for the other processes (\<open>make_bginfo\<close>) and \<open>utf_bg_alloc\<close> itself. The calls of uTofu, PMIx and the
  operating system are parameters (the record \<open>bgapi\<close>). The build is the one without \<open>TOFUGIJI\<close> and
  \<open>DEBUGLOG\<close>. A group is an entry of a heap, so that a freed one is distinguished from a live one.
\<close>

unbundle bit_operations_syntax

section \<open>State\<close>

record vbg_setting =
  vs_vbg_id :: u64
  src_lcl_vbg_id :: u64
  src_rmt_vbg_id :: u64
  dst_lcl_vbg_id :: u64
  dst_rmt_vbg_id :: u64
  dst_path_null :: bool

record rmt_index =
  src_rmt_index :: "nat option"
  dst_rmt_index :: "nat option"

record group_detail =
  arg_rankset :: "nat ptr"
  arg_len :: nat
  arg_my_index :: nat
  d_intra :: "intra_info option"
  d_num_vbg :: nat
  d_vbg_ids :: "u64 list option"
  d_settings :: "vbg_setting list option"
  d_rmt :: "rmt_index list option"

text \<open>
  The globals of \<open>utf_bg_alloc.c\<close>, the heap of groups with the next free address, the header of the shared memory,
  and what is behind the uTofu calls.
\<close>

record 'w bg_state =
  b_first_call :: bool
  b_is_tofu :: bool
  b_detail :: "nat ptr"
  b_first_alloc :: "nat ptr"
  b_heap :: "nat \<Rightarrow> group_detail option"
  b_fresh :: nat
  b_jobid :: u32
  b_ppn_job :: nat
  b_disable_shm :: bool
  b_file_name :: "string option"
  b_mm_size :: nat
  b_mm_width :: nat
  b_mm_fd :: int
  b_mapped :: bool
  b_first_failed :: bool
  b_sh_next_tni :: u16
  b_sh_manager :: "(u16 \<times> u16) list"
  b_thread_safe :: bool
  b_max_hb :: nat
  b_next_tni :: u16
  b_alloc_count :: u64
  b_world :: "nat option list option"
  b_poll_idata :: bool
  b_net :: 'w

text \<open>
  The calls: uTofu's allocation, setting and release of gates; \<open>malloc\<close>; the environment; PMIx (the name space, if the
  start succeeds); \<open>utf_shm_init\<close>; \<open>open\<close>, \<open>write\<close>, \<open>mmap\<close>; \<open>posix_memalign\<close>.
\<close>

record 'w bgapi =
  g_alloc_vbg :: "u16 \<Rightarrow> nat \<Rightarrow> bool \<Rightarrow> 'w \<Rightarrow> grc \<times> u64 list \<times> 'w"
  g_set_vbg :: "vbg_setting list \<Rightarrow> 'w \<Rightarrow> grc \<times> 'w"
  g_free_vbg :: "u64 list \<Rightarrow> 'w \<Rightarrow> grc \<times> 'w"
  g_malloc :: "malloc_site \<Rightarrow> bool"
  g_getenv :: "string \<Rightarrow> string option"
  g_pmix_nspace :: "string option"
  g_pmix_finalize :: bool
  g_shm_init :: "nat \<Rightarrow> bool"
  g_open :: "string \<Rightarrow> int"
  g_write :: "nat \<Rightarrow> int"
  g_mmap :: "nat \<Rightarrow> bool"
  g_memalign :: int

definition mod_detail :: "(group_detail \<Rightarrow> group_detail) \<Rightarrow> 'w bg_state \<Rightarrow> 'w bg_state" where
  "mod_detail f s = (case b_detail s of None \<Rightarrow> s | Some p \<Rightarrow> s\<lparr>b_heap := (b_heap s)(p := map_option f (b_heap s p))\<rparr>)"

text \<open>\<open>FREE_ALLOC\<close>: the group is freed, the global pointer keeps its address.\<close>

definition FREE_ALLOC :: "'w bg_state \<Rightarrow> 'w bg_state" where
  "FREE_ALLOC s = (case b_detail s of None \<Rightarrow> s | Some p \<Rightarrow> s\<lparr>b_heap := (b_heap s)(p := None)\<rparr>)"

definition SETINFO_CASE_SUCCESS :: "'w bg_state \<Rightarrow> 'w bg_state" where
  "SETINFO_CASE_SUCCESS s = s\<lparr>b_alloc_count := b_alloc_count s + 1,
     b_first_alloc := (if b_first_call s then b_detail s else b_first_alloc s), b_first_call := False\<rparr>"

section \<open>Shared memory of the node\<close>

definition UTF_BG_CACHE_LINE_SIZE :: nat where "UTF_BG_CACHE_LINE_SIZE = 256"
definition UTF_BG_NUM_TNI :: nat where "UTF_BG_NUM_TNI = 6"
definition UTF_BG_NUM_START_BG :: nat where "UTF_BG_NUM_START_BG = 16"

definition line_up :: "nat \<Rightarrow> nat" where
  "line_up n = (n + UTF_BG_CACHE_LINE_SIZE - 1) div UTF_BG_CACHE_LINE_SIZE * UTF_BG_CACHE_LINE_SIZE"

text \<open>The header: a 64-bit counter, a 16-bit TNI and two 16-bit numbers per process, padded to the alignment of the counter.\<close>

definition UTF_BG_MMAP_HEADER_SIZE :: nat where
  "UTF_BG_MMAP_HEADER_SIZE = line_up ((8 + 2 + 4 * UTF_BG_MAX_PROC_IN_NODE + 7) div 8 * 8)"

definition UTF_BG_MMAP_PROC_INF_SIZE :: nat where
  "UTF_BG_MMAP_PROC_INF_SIZE = line_up (8 * (1 + 6))"

definition UTF_BG_MMAP_GATE_INF_SIZE :: "nat \<Rightarrow> nat" where
  "UTF_BG_MMAP_GATE_INF_SIZE width = UTF_BG_MMAP_PROC_INF_SIZE * width"

definition UTF_BG_MMAP_TNI_INF_SIZE :: "nat \<Rightarrow> nat" where
  "UTF_BG_MMAP_TNI_INF_SIZE width = UTF_BG_MMAP_GATE_INF_SIZE width * UTF_BG_NUM_START_BG"

definition hex_digit :: "nat \<Rightarrow> char" where
  "hex_digit n = ''0123456789abcdef'' ! n"

text \<open>The conversion \<open>%08x\<close>.\<close>

definition hex8 :: "u32 \<Rightarrow> string" where
  "hex8 w = map (\<lambda>i. hex_digit (unat w div 16 ^ (7 - i) mod 16)) [0..<8]"

definition mmap_file_temp :: "u32 \<Rightarrow> log_coords \<Rightarrow> string" where
  "mmap_file_temp jobid c = ''/utf_bg_mmap_file-'' @ hex8 jobid @ ''-'' @ hex8 (lx c) @ ''-'' @ hex8 (ly c) @ ''-'' @ hex8 (lz c)"

text \<open>The number of bytes allocated for the name; the name is the two strings one after the other.\<close>

definition mmap_namelen :: "u32 \<Rightarrow> log_coords \<Rightarrow> nat" where
  "mmap_namelen jobid c = length ''.'' + length (mmap_file_temp jobid c)"

definition make_mmap_file :: "'w bgapi \<Rightarrow> tofu_vname \<Rightarrow> intra_info \<Rightarrow> 'w bg_state \<Rightarrow> grc \<times> 'w bg_state" where
  "make_mmap_file api vn it s0 =
     (let s1 = s0\<lparr>b_mm_width := in_size it\<rparr>;
          size = (if b_is_tofu s1 then UTF_BG_MMAP_HEADER_SIZE else UTF_BG_MMAP_HEADER_SIZE + UTF_BG_MMAP_TNI_INF_SIZE (in_size it) * UTF_BG_NUM_TNI);
          s2 = s1\<lparr>b_mm_size := size\<rparr> in
      if \<not> b_disable_shm s2 then
        (if g_shm_init api size then (G_SUCCESS, s2\<lparr>b_mapped := True\<rparr>) else (G_ERR_INTERNAL, s2))
      else if \<not> g_malloc api M_file_name then (G_ERR_OUT_OF_MEMORY, s2\<lparr>b_file_name := None\<rparr>)
      else
        let name = ''.'' @ mmap_file_temp (b_jobid s2) (v_xyz vn); s3 = s2\<lparr>b_file_name := Some name\<rparr> in
        if \<not> in_manager it then (G_SUCCESS, s3)
        else
          let fd = g_open api name; s4 = s3\<lparr>b_mm_fd := fd\<rparr> in
          if fd = -1 then (G_ERR_INTERNAL, s4)
          else if \<not> g_malloc api M_zero_file then (G_ERR_OUT_OF_MEMORY, s4)
          else if g_write api size < int size then (G_ERR_INTERNAL, s4)
          else if \<not> g_mmap api size then (G_ERR_OUT_OF_MEMORY, s4)
          else (G_SUCCESS, s4\<lparr>b_mapped := True\<rparr>))"

section \<open>Allocation of the gates\<close>

definition next_tni :: "u16 \<Rightarrow> u16" where
  "next_tni t = word_of_nat ((unat t + 1) mod UTF_BG_NUM_TNI)"

text \<open>
  The loop over the network interfaces, as it is: it ends when one does not answer that it is full or when the
  first one comes again.
\<close>

partial_function (option) allocate_vbg_core ::
    "'w bgapi \<Rightarrow> bool \<Rightarrow> nat \<Rightarrow> u16 \<Rightarrow> u16 \<Rightarrow> 'w \<Rightarrow> (grc \<times> u64 list \<times> u16 \<times> 'w) option" where
  "allocate_vbg_core api flags num start_tni my_tni w =
     (let (rc, ids, w') = g_alloc_vbg api my_tni num flags w in
      if rc \<noteq> G_ERR_FULL then Some (rc, ids, my_tni, w')
      else if next_tni my_tni = start_tni then Some (rc, ids, next_tni my_tni, w')
      else allocate_vbg_core api flags num start_tni (next_tni my_tni) w')"

text \<open>The rows that a loop along the links visits.\<close>

partial_function (option) seq_walk :: "nat \<Rightarrow> butterfly_seq list \<Rightarrow> nat list option" where
  "seq_walk c rs = (case nextptr (rs ! c) of None \<Rightarrow> Some [c] | Some d \<Rightarrow> Option.bind (seq_walk d rs) (\<lambda>ps. Some (c # ps)))"

definition set_vbg_id :: "nat \<Rightarrow> u64 \<Rightarrow> butterfly_seq list \<Rightarrow> butterfly_seq list" where
  "set_vbg_id c v rs = rs[c := (rs ! c)\<lparr>sq_vbg_id := v\<rparr>]"

definition SET_DST_REMOTE :: "butterfly_seq \<Rightarrow> rmt_index \<Rightarrow> rmt_index" where
  "SET_DST_REMOTE r x = x\<lparr>dst_rmt_index := (if no_send r then None else bp_index (sendinfo r))\<rparr>"

definition SET_SRC_REMOTE :: "butterfly_seq \<Rightarrow> rmt_index \<Rightarrow> rmt_index" where
  "SET_SRC_REMOTE r x = x\<lparr>src_rmt_index := (if no_recv r then None else bp_index (recvinfo r))\<rparr>"

text \<open>Gate \<open>i\<close> of the sequence: the first and the last row share the first gate.\<close>

fun assign_loop :: "nat \<Rightarrow> u64 list \<Rightarrow> nat \<Rightarrow> nat list \<Rightarrow> butterfly_seq list \<times> rmt_index list \<Rightarrow> butterfly_seq list \<times> rmt_index list" where
  "assign_loop start ids i [] st = st"
| "assign_loop start ids i (c # ps) (rs, rm) = assign_loop start ids (i + 1) ps
     (if c = start then (set_vbg_id c (ids ! 0) rs, rm[0 := SET_DST_REMOTE (rs ! c) (rm ! 0)])
      else if nextptr (rs ! c) = None then (set_vbg_id c (ids ! 0) rs, rm[0 := SET_SRC_REMOTE (rs ! c) (rm ! 0)])
      else (set_vbg_id c (ids ! i) rs, rm[i := SET_DST_REMOTE (rs ! c) (SET_SRC_REMOTE (rs ! c) (rm ! i))]))"

text \<open>The leader of the node tells the others the interface and the first gate.\<close>

definition publish_manager :: "nat option list \<Rightarrow> nat option list \<Rightarrow> nat \<Rightarrow> u16 \<times> u16 \<Rightarrow> (u16 \<times> u16) list \<Rightarrow> (u16 \<times> u16) list" where
  "publish_manager vpids world ppn tb info =
     fold (\<lambda>v. fold (\<lambda>j info. if v = world ! j then info[j := tb] else info) [0..<ppn]) vpids info"

text \<open>The gates as the array that was cleared and then filled by uTofu.\<close>

definition vbg_array :: "nat \<Rightarrow> u64 list \<Rightarrow> u64 list" where
  "vbg_array n ids = take n (ids @ replicate n 0)"

definition zero_setting :: vbg_setting where
  "zero_setting = \<lparr>vs_vbg_id = 0, src_lcl_vbg_id = 0, src_rmt_vbg_id = 0, dst_lcl_vbg_id = 0, dst_rmt_vbg_id = 0, dst_path_null = False\<rparr>"

text \<open>
  The gates of the rows \<open>rs\<close> from \<open>start\<close> on: the code, the interface and the rows. Without a single gate the
  source leaves its arrays.
\<close>

definition allocate_vbg :: "'w bgapi \<Rightarrow> nat \<Rightarrow> intra_info \<Rightarrow> nat \<Rightarrow> butterfly_seq list \<Rightarrow> 'w bg_state
    \<Rightarrow> (grc \<times> u16 \<times> butterfly_seq list \<times> 'w bg_state) outcome" where
  "allocate_vbg api n it start rs s0 =
     (let s1 = mod_detail (\<lambda>d. d\<lparr>d_num_vbg := n\<rparr>) s0 in
      if \<not> g_malloc api M_vbg_ids \<or> \<not> g_malloc api M_vbg_settings \<or> \<not> g_malloc api M_rmt_src_dst
      then ret (G_ERR_OUT_OF_MEMORY, 0, rs, s1)
      else if \<not> b_first_call s1 \<and> \<not> b_mapped s1 then crash AssertFailed
      else
        let tni0 = (if b_first_call s1 then 0 else b_sh_next_tni s1);
            s2 = s1\<lparr>b_next_tni := word_of_nat ((unat tni0 + (if b_is_tofu s1 then in_size it else 1)) mod UTF_BG_NUM_TNI)\<rparr>;
            tni1 = word_of_nat ((unat tni0 + in_intra_index it) mod UTF_BG_NUM_TNI) in
        case allocate_vbg_core api (b_thread_safe s2) n tni1 tni1 (b_net s2) of None \<Rightarrow> None
        | Some (rc, ids0, tni, w) \<Rightarrow>
          let s3 = s2\<lparr>b_net := w\<rparr> in
          if rc \<noteq> G_SUCCESS then
            ret (rc, tni, rs, mod_detail (\<lambda>d. d\<lparr>d_rmt := None, d_settings := None, d_vbg_ids := None, d_num_vbg := 0\<rparr>) s3)
          else case seq_walk start rs of None \<Rightarrow> None
          | Some ps \<Rightarrow>
            if n = 0 \<or> n < length ps - 1 then crash OutOfBounds else
            let ids = vbg_array n ids0;
                (rs', rm) = assign_loop start ids 0 ps (rs, replicate n \<lparr>src_rmt_index = Some 0, dst_rmt_index = Some 0\<rparr>);
                s4 = mod_detail (\<lambda>d. d\<lparr>d_vbg_ids := Some ids, d_settings := Some (replicate n zero_setting), d_rmt := Some rm\<rparr>) s3 in
            if length ps - 1 \<noteq> n then crash AssertFailed
            else if \<not> in_manager it then ret (G_SUCCESS, tni, rs', s4)
            else if \<not> b_mapped s4 then crash AssertFailed
            else case b_world s4 of None \<Rightarrow> crash NullDeref
            | Some world \<Rightarrow> ret (G_SUCCESS, tni, rs', s4\<lparr>b_sh_manager :=
                publish_manager (in_vpids it) world (b_ppn_job s4) (tni, GET_BGID_FROM_VBGID (ids ! 0)) (b_sh_manager s4)\<rparr>))"

section \<open>Connections inside the process\<close>

definition SET_DST_LOCAL :: "butterfly_seq list \<Rightarrow> nat \<Rightarrow> nat \<Rightarrow> vbg_setting \<Rightarrow> vbg_setting" where
  "SET_DST_LOCAL rs c nxt x = x\<lparr>dst_lcl_vbg_id :=
     (if bp_vbg_id (sendinfo (rs ! c)) \<noteq> UTF_BG_ALLOC_VBG_ID_NOOPARATION
         \<and> bp_vbg_id (sendinfo (rs ! (nxt - 1))) = UTF_BG_ALLOC_VBG_ID_UNNECESSARY then UTOFU_VBG_ID_NULL
      else sq_vbg_id (rs ! nxt))\<rparr>"

definition SET_SRC_LOCAL :: "butterfly_seq list \<Rightarrow> nat \<Rightarrow> nat \<Rightarrow> vbg_setting \<Rightarrow> vbg_setting" where
  "SET_SRC_LOCAL rs prev c x = x\<lparr>src_lcl_vbg_id :=
     (if bp_vbg_id (recvinfo (rs ! c)) \<noteq> UTF_BG_ALLOC_VBG_ID_NOOPARATION
         \<and> bp_vbg_id (recvinfo (rs ! (c - 1))) = UTF_BG_ALLOC_VBG_ID_UNNECESSARY then UTOFU_VBG_ID_NULL
      else sq_vbg_id (rs ! prev))\<rparr>"

text \<open>The loop along the links; \<open>prev\<close> is the row before. A first row without a successor does not get here.\<close>

fun local_loop :: "butterfly_seq list \<Rightarrow> nat \<Rightarrow> nat \<Rightarrow> nat \<Rightarrow> nat list \<Rightarrow> vbg_setting list \<Rightarrow> vbg_setting list" where
  "local_loop rs start i prev [] xs = xs"
| "local_loop rs start i prev (c # ps) xs = local_loop rs start (i + 1) c ps
     (case nextptr (rs ! c) of
        None \<Rightarrow> if c = start then xs else xs[0 := SET_SRC_LOCAL rs prev c (xs ! 0)]
      | Some nxt \<Rightarrow>
          if c = start then xs[0 := SET_DST_LOCAL rs c nxt ((xs ! 0)\<lparr>vs_vbg_id := sq_vbg_id (rs ! c)\<rparr>)]
          else xs[i := SET_SRC_LOCAL rs prev c (SET_DST_LOCAL rs c nxt ((xs ! i)\<lparr>vs_vbg_id := sq_vbg_id (rs ! c)\<rparr>))])"

definition set_local_vbg :: "nat \<Rightarrow> butterfly_seq list \<Rightarrow> 'w bg_state \<Rightarrow> 'w bg_state option" where
  "set_local_vbg start rs s = map_option (\<lambda>ps. mod_detail (\<lambda>d. d\<lparr>d_settings := map_option (local_loop rs start 0 start ps) (d_settings d)\<rparr>) s)
     (seq_walk start rs)"

section \<open>The words for the other processes\<close>

definition CHECK_PHY_6D_ADDR_SEQ :: "butterfly_proc_info \<Rightarrow> phys_coords \<Rightarrow> bool" where
  "CHECK_PHY_6D_ADDR_SEQ b c \<longleftrightarrow> bp_phy b = Some c"

text \<open>The gate that receives from the process with the given index.\<close>

fun find_recv :: "nat option \<Rightarrow> butterfly_seq list \<Rightarrow> nat list \<Rightarrow> nat option" where
  "find_recv idx rs [] = None"
| "find_recv idx rs (c # ps) = (if idx = bp_index (recvinfo (rs ! c)) then Some c else find_recv idx rs ps)"

definition bginfo_gate :: "(nat \<Rightarrow> tofu_vname) \<Rightarrow> u32 list \<Rightarrow> nat \<Rightarrow> u16 \<Rightarrow> butterfly_seq list \<Rightarrow> nat list \<Rightarrow> nat
    \<Rightarrow> u64 list \<Rightarrow> (grc \<times> u64 list) outcome" where
  "bginfo_gate vname rankset my_index my_tni rs ps c bginfo =
     (let r = rs ! c; phy = (\<lambda>i. v_xyzabc (vname (unat (rankset ! i)))); mine = phy my_index in
      if no_send r then ret (G_SUCCESS, bginfo)
      else case find_recv (bp_index (sendinfo r)) rs ps of None \<Rightarrow> ret (G_ERR_INTERNAL, bginfo)
      | Some q \<Rightarrow>
        case bp_index (sendinfo r) of None \<Rightarrow> crash OutOfBounds
        | Some idx \<Rightarrow>
          if length rankset \<le> idx \<or> length bginfo \<le> idx then crash OutOfBounds
          else if \<not> CHECK_PHY_6D_ADDR_SEQ (sendinfo r) (phy idx) then ret (G_ERR_INTERNAL, bginfo)
          else if \<not> CHECK_PHY_6D_ADDR_SEQ (recvinfo (rs ! q)) (phy idx) then ret (G_ERR_INTERNAL, bginfo)
          else if GET_NODEID_FROM_VCQ (sq_vbg_id r) \<noteq> GET_NODEID mine \<or> GET_NODEID_FROM_VCQ (sq_vbg_id (rs ! q)) \<noteq> GET_NODEID mine
               \<or> GET_TNI_FROM_VBGID (sq_vbg_id r) \<noteq> my_tni \<or> GET_TNI_FROM_VBGID (sq_vbg_id (rs ! q)) \<noteq> my_tni
          then ret (G_ERR_INTERNAL, bginfo[idx := 0])
          else ret (G_SUCCESS, bginfo[idx := SET_ENABLE_BGINFO my_tni mine (GET_BGID_FROM_VBGID (sq_vbg_id r)) (GET_BGID_FROM_VBGID (sq_vbg_id (rs ! q)))]))"

fun bginfo_loop :: "(nat \<Rightarrow> tofu_vname) \<Rightarrow> u32 list \<Rightarrow> nat \<Rightarrow> u16 \<Rightarrow> butterfly_seq list \<Rightarrow> nat list \<Rightarrow> nat list
    \<Rightarrow> u64 list \<Rightarrow> (grc \<times> u64 list) outcome" where
  "bginfo_loop vname rankset my_index my_tni rs ps [] bginfo = ret (G_SUCCESS, bginfo)"
| "bginfo_loop vname rankset my_index my_tni rs ps (c # cs) bginfo =
     bindO (bginfo_gate vname rankset my_index my_tni rs ps c bginfo) (\<lambda>(rc, bginfo').
       if rc \<noteq> G_SUCCESS then ret (rc, bginfo') else bginfo_loop vname rankset my_index my_tni rs ps cs bginfo')"

definition make_bginfo :: "(nat \<Rightarrow> tofu_vname) \<Rightarrow> u16 \<Rightarrow> nat \<Rightarrow> butterfly_seq list \<Rightarrow> u32 list \<Rightarrow> nat \<Rightarrow> u64 list \<Rightarrow> 'w bg_state
    \<Rightarrow> (grc \<times> u64 list \<times> 'w bg_state) outcome" where
  "make_bginfo vname my_tni start rs rankset my_index bginfo s =
     (case set_local_vbg start rs s of None \<Rightarrow> None
      | Some s' \<Rightarrow> case seq_walk start rs of None \<Rightarrow> None
      | Some ps \<Rightarrow> bindO (bginfo_loop vname rankset my_index my_tni rs ps ps bginfo) (\<lambda>(rc, bginfo'). ret (rc, bginfo', s')))"

section \<open>The environment\<close>

text \<open>The hash of the job's name space; characters are unsigned on the target machine.\<close>

fun hash_loop :: "u32 \<Rightarrow> string \<Rightarrow> u32" where
  "hash_loop h [] = h"
| "hash_loop h (c # cs) = (let h1 = h + of_char c; h2 = h1 + push_bit 10 h1 in hash_loop (h2 XOR drop_bit 6 h2) cs)"

definition hash_str :: "string \<Rightarrow> u32" where
  "hash_str str = (let h = hash_loop 0 str; h1 = h + push_bit 3 h; h2 = h1 XOR drop_bit 11 h1; h3 = h2 + push_bit 15 h2 in h3 AND NOT 0x8000)"

definition is_digit :: "char \<Rightarrow> bool" where
  "is_digit c \<longleftrightarrow> CHR ''0'' \<le> c \<and> c \<le> CHR ''9''"

definition digits_val :: "string \<Rightarrow> int" where
  "digits_val cs = foldl (\<lambda>n c. 10 * n + (of_char c - 48)) 0 (takeWhile is_digit cs)"

definition atoi :: "string \<Rightarrow> int" where
  "atoi str = (case dropWhile (\<lambda>c. c = CHR '' '' \<or> c \<in> set [CHR 0x09, CHR 0x0A, CHR 0x0B, CHR 0x0C, CHR 0x0D]) str of
       [] \<Rightarrow> 0
     | c # cs \<Rightarrow> if c = CHR ''-'' then - digits_val cs else if c = CHR ''+'' then digits_val cs else digits_val (c # cs))"

text \<open>What the first call does before anything else. A failure leaves it the first call.\<close>

definition first_call_setup :: "'w bgapi \<Rightarrow> bool \<Rightarrow> 'w bg_state \<Rightarrow> grc \<times> 'w bg_state" where
  "first_call_setup api tofu s0 =
     (let s1 = s0\<lparr>b_is_tofu := tofu, b_disable_shm := False, b_file_name := None, b_mm_size := 0, b_mm_width := 0, b_mm_fd := 0,
                  b_mapped := False, b_first_failed := False\<rparr>;
          (rc, s2) = (case g_getenv api ''UTF_BG_DISABLE_UTF_SHM'' of None \<Rightarrow> (G_SUCCESS, s1)
            | Some _ \<Rightarrow>
                let s1' = s1\<lparr>b_disable_shm := True\<rparr> in
                if g_getenv api ''PJM_JOBID'' = None then (G_ERR_INTERNAL, s1')
                else case g_pmix_nspace api of None \<Rightarrow> (G_ERR_INTERNAL, s1')
                | Some ns \<Rightarrow> (if g_pmix_finalize api then G_SUCCESS else G_ERR_INTERNAL, s1'\<lparr>b_jobid := hash_str ns\<rparr>)) in
      if rc \<noteq> G_SUCCESS then (rc, s2)
      else
        let s3 = (if g_getenv api ''UTF_BG_ENABLE_THREAD_SAFE'' = None then s2 else s2\<lparr>b_thread_safe := True\<rparr>) in
        (G_SUCCESS, case g_getenv api ''UTF_BG_MAX_INTRA_NODE_PROCS_FOR_HB'' of None \<Rightarrow> s3
           | Some v \<Rightarrow> s3\<lparr>b_max_hb := (if int UTF_BG_MAX_PROC_IN_NODE < atoi v \<or> atoi v \<le> 0 then UTF_BG_MAX_PROC_IN_NODE else nat (atoi v))\<rparr>))"

section \<open>\<open>utf_bg_alloc\<close>\<close>

datatype comm_type = UTF_BG_TOFU | UTF_BG_SM | Other_comm

text \<open>The arguments; an array is an address with its contents.\<close>

record alloc_arg =
  al_rankset :: "(nat \<times> u32 list) option"
  al_len :: nat
  al_my_index :: nat
  al_max_ppn :: int
  al_comm :: comm_type
  al_bginfo :: "u64 list option"

definition check_args :: "alloc_arg \<Rightarrow> 'w bg_state \<Rightarrow> grc" where
  "check_args g s =
     (if al_rankset g = None \<or> al_bginfo g = None then G_ERR_INVALID_POINTER
      else if al_len g = 0 \<or> al_len g \<le> al_my_index g \<or> int UTF_BG_MAX_PROC_IN_NODE < al_max_ppn g \<or> al_max_ppn g \<le> 0
           \<or> al_comm g = Other_comm then G_ERR_INVALID_NUMBER
      else if \<not> b_first_call s \<and> (al_comm g = UTF_BG_TOFU \<and> \<not> b_is_tofu s \<or> al_comm g = UTF_BG_SM \<and> b_is_tofu s) then G_ERR_INVALID_NUMBER
      else G_SUCCESS)"

definition SET_DISABLE_ALL :: "nat \<Rightarrow> u8 \<Rightarrow> u64 list \<Rightarrow> u64 list" where
  "SET_DISABLE_ALL len errcase bginfo = replicate len (SET_DISABLE errcase) @ drop len bginfo"

definition INITIALIZE_BGINFO :: "nat \<Rightarrow> u64 list \<Rightarrow> u64 list" where
  "INITIALIZE_BGINFO len bginfo = replicate len UTF_BG_ALLOC_INIT_BGINFO @ drop len bginfo"

text \<open>The network and its gates, when the group has a shape that fits.\<close>

definition build_network :: "'w bgapi \<Rightarrow> (nat \<Rightarrow> tofu_vname) \<Rightarrow> u32 list \<Rightarrow> nat \<Rightarrow> nat \<Rightarrow> axis_info list \<Rightarrow> intra_info \<Rightarrow> u64 list \<Rightarrow> 'w bg_state
    \<Rightarrow> (grc \<times> u64 list \<times> 'w bg_state) outcome" where
  "build_network api vname rankset len my_index axes it bginfo s =
     bindO (make_butterfly_network (g_malloc api) axes (if b_is_tofu s then 0 else 1)) (\<lambda>r. case r of
       Inl e \<Rightarrow> ret (e, bginfo, FREE_ALLOC s)
     | Inr (start, rs, n) \<Rightarrow> bindO (allocate_vbg api n it start rs s) (\<lambda>(rc, tni, rs', s').
         if rc \<noteq> G_SUCCESS \<and> rc \<noteq> G_ERR_FULL then ret (rc, bginfo, FREE_ALLOC s')
         else if rc = G_SUCCESS then
           bindO (make_bginfo vname tni start rs' rankset my_index (INITIALIZE_BGINFO len bginfo) s') (\<lambda>(rc', bginfo', s'').
             if rc' \<noteq> G_SUCCESS then ret (rc', bginfo', FREE_ALLOC s'') else ret (G_SUCCESS, bginfo', SETINFO_CASE_SUCCESS s''))
         else ret (G_SUCCESS, SET_DISABLE_ALL len 0 bginfo, SETINFO_CASE_SUCCESS s')))"

text \<open>After the axes: \<open>rc\<close> is their code. A failure other than a shape that does not fit returns at once.\<close>

definition alloc_after_axes :: "'w bgapi \<Rightarrow> (nat \<Rightarrow> tofu_vname) \<Rightarrow> u32 list \<Rightarrow> alloc_arg \<Rightarrow> u64 list \<Rightarrow> axes_result \<Rightarrow> 'w bg_state
    \<Rightarrow> (grc \<times> u64 list \<times> 'w bg_state) outcome" where
  "alloc_after_axes api vname rankset g bginfo ar s0 =
     (if ar_rc ar \<notin> {G_SUCCESS, G_UNMATCH_PROC_PER_NODE, G_TOO_MANY_PROC_IN_NODE, G_TOO_FEW_NODE} then ret (ar_rc ar, bginfo, s0)
      else if ar_rc ar \<noteq> G_SUCCESS \<and> ar_errcase ar = 0 then ret (G_ERR_INTERNAL, bginfo, FREE_ALLOC s0)
      else case ar_intra ar of None \<Rightarrow> crash NullDeref
      | Some it \<Rightarrow>
        let s1 = mod_detail (\<lambda>d. d\<lparr>d_intra := Some it\<rparr>) s0; len = al_len g; e = ar_errcase ar;
            (rcm, s2) = (if b_first_call s1 then make_mmap_file api (vname (unat (rankset ! al_my_index g))) it s1 else (G_SUCCESS, s1)) in
        if rcm \<noteq> G_SUCCESS then ret (rcm, bginfo, FREE_ALLOC s2)
        else if \<not> b_first_call s2 \<and> b_first_failed s2 then ret (G_SUCCESS, SET_DISABLE_ALL len e bginfo, s2\<lparr>b_alloc_count := b_alloc_count s2 + 1\<rparr>)
        else if len < 4 then ret (G_SUCCESS, SET_DISABLE_ALL len (e OR UTF_BG_ALLOC_TOO_FEW_NODE) bginfo, SETINFO_CASE_SUCCESS s2)
        else if int (b_max_hb s2) < al_max_ppn g \<and> b_is_tofu s2
        then ret (G_SUCCESS, SET_DISABLE_ALL len (e OR UTF_BG_ALLOC_TOO_MANY_PROC) bginfo, SETINFO_CASE_SUCCESS s2)
        else if ar_rc ar \<noteq> G_SUCCESS then ret (G_SUCCESS, SET_DISABLE_ALL len e bginfo, SETINFO_CASE_SUCCESS s2)
        else if \<not> in_manager it \<and> \<not> b_is_tofu s2 then ret (G_SUCCESS, INITIALIZE_BGINFO len bginfo, SETINFO_CASE_SUCCESS s2)
        else build_network api vname rankset len (al_my_index g) (ar_axes ar) it bginfo s2)"

definition new_detail :: "nat \<Rightarrow> alloc_arg \<Rightarrow> group_detail" where
  "new_detail p g = \<lparr>arg_rankset = Some p, arg_len = al_len g, arg_my_index = al_my_index g, d_intra = None, d_num_vbg = 0,
     d_vbg_ids = None, d_settings = None, d_rmt = None\<rparr>"

definition utf_bg_alloc :: "'w bgapi \<Rightarrow> (nat \<Rightarrow> tofu_vname) \<Rightarrow> alloc_arg \<Rightarrow> 'w bg_state \<Rightarrow> (grc \<times> u64 list option \<times> 'w bg_state) outcome" where
  "utf_bg_alloc api vname g s0 =
     (if check_args g s0 \<noteq> G_SUCCESS then ret (check_args g s0, al_bginfo g, s0)
      else case (al_rankset g, al_bginfo g) of
        (Some (p, ranks), Some bginfo) \<Rightarrow>
          let (rc, s1) = (if b_first_call s0 then first_call_setup api (al_comm g = UTF_BG_TOFU) s0 else (G_SUCCESS, s0)) in
          if rc \<noteq> G_SUCCESS then ret (rc, Some bginfo, s1)
          else if \<not> g_malloc api M_detail then ret (G_ERR_OUT_OF_MEMORY, Some bginfo, s1\<lparr>b_detail := None\<rparr>)
          else if length ranks < al_len g \<or> length bginfo < al_len g then crash OutOfBounds
          else
            let a = b_fresh s1;
                s2 = s1\<lparr>b_detail := Some a, b_fresh := a + 1, b_heap := (b_heap s1)(a \<mapsto> new_detail p g),
                        b_ppn_job := (if b_first_call s1 then nat (al_max_ppn g) else b_ppn_job s1)\<rparr>;
                rankset = take (al_len g) ranks;
                A = \<lparr>aa_vname = vname, aa_rankset = rankset, aa_my_index = al_my_index g, aa_ppn_job = b_ppn_job s2, aa_first_call = b_first_call s2,
                     aa_is_tofu = b_is_tofu s2, aa_max_hb = b_max_hb s2, aa_malloc = g_malloc api\<rparr> in
            bindO (make_axes_and_intra_node_infos A (b_world s2)) (\<lambda>ar.
            bindO (alloc_after_axes api vname rankset g bginfo ar (s2\<lparr>b_world := ar_world ar\<rparr>)) (\<lambda>(rc', bginfo', s').
              ret (rc', Some bginfo', s')))
      | _ \<Rightarrow> crash NullDeref)"

end
