(* ===== verification/Vbg_Init.thy ===== *)
theory Vbg_Init
  imports Vbg_Group
begin

text \<open>
  \<open>utf_bg_init\<close> (\<open>src/src/vbg/utf_bg_init.c\<close>), which takes the words of the other processes, sets the gates and hands the
  group to the caller, and \<open>utf_bg_free\<close> (\<open>src/src/vbg/utf_bg_free.c\<close>), which releases it.
\<close>

unbundle bit_operations_syntax

section \<open>\<open>utf_bg_init\<close>\<close>

text \<open>The arguments; \<open>group_struct\<close> is \<open>None\<close> for NULL, otherwise what the caller's variable holds.\<close>

record init_arg =
  il_rankset :: "(nat \<times> u32 list) option"
  il_len :: nat
  il_my_index :: nat
  il_bginfo :: "u64 list option"
  il_group :: "nat ptr option"

text \<open>The remote sides of gate \<open>i\<close>, from the word of the process that the index names.\<close>

definition src_rmt_vbg :: "u64 list \<Rightarrow> rmt_index \<Rightarrow> u64" where
  "src_rmt_vbg bginfo x = (case src_rmt_index x of None \<Rightarrow> UTOFU_VBG_ID_NULL
     | Some i \<Rightarrow> UTF_GET_BGINFO_TNI_CNC (bginfo ! i) OR UTF_GET_BGINFO_SRCBGID (bginfo ! i))"

definition dst_rmt_vbg :: "u64 list \<Rightarrow> rmt_index \<Rightarrow> u64" where
  "dst_rmt_vbg bginfo x = (case dst_rmt_index x of None \<Rightarrow> UTOFU_VBG_ID_NULL
     | Some i \<Rightarrow> UTF_GET_BGINFO_TNI_CNC (bginfo ! i) OR UTF_GET_BGINFO_DSTBGID (bginfo ! i))"

definition remote_setting :: "u64 list \<Rightarrow> rmt_index \<Rightarrow> vbg_setting \<Rightarrow> vbg_setting" where
  "remote_setting bginfo x v = v\<lparr>src_rmt_vbg_id := src_rmt_vbg bginfo x, dst_rmt_vbg_id := dst_rmt_vbg bginfo x, dst_path_null := True\<rparr>"

definition remote_settings :: "u64 list \<Rightarrow> rmt_index list \<Rightarrow> vbg_setting list \<Rightarrow> vbg_setting list" where
  "remote_settings bginfo rm xs = map2 (remote_setting bginfo) rm xs"

text \<open>A worker maps the shared memory at the first group, unless \<open>utf_shm_init\<close> has done it.\<close>

definition worker_map :: "'w bgapi \<Rightarrow> intra_info \<Rightarrow> 'w bg_state \<Rightarrow> grc \<times> 'w bg_state" where
  "worker_map api it s =
     (if b_first_alloc s \<noteq> b_detail s \<or> in_manager it \<or> \<not> b_disable_shm s then (G_SUCCESS, s)
      else
        let fd = (case b_file_name s of None \<Rightarrow> -1 | Some name \<Rightarrow> g_open api name); s1 = s\<lparr>b_mm_fd := fd\<rparr> in
        if fd = -1 then (G_ERR_INTERNAL, s1\<lparr>b_file_name := None\<rparr>)
        else if \<not> g_mmap api (b_mm_size s1) then (G_ERR_OUT_OF_MEMORY, s1\<lparr>b_file_name := None, b_mapped := True\<rparr>)
        else (G_SUCCESS, s1\<lparr>b_mapped := True\<rparr>))"

text \<open>The end of the call: the arrays of the construction are freed and the group is no longer the current one.\<close>

definition init_end :: "'w bg_state \<Rightarrow> 'w bg_state" where
  "init_end s = (mod_detail (\<lambda>d. d\<lparr>arg_rankset := None, arg_len := 0, d_settings := None, d_rmt := None\<rparr>) s)\<lparr>b_detail := None\<rparr>"

definition past_end :: "nat \<Rightarrow> nat option \<Rightarrow> bool" where
  "past_end n i = (case i of None \<Rightarrow> False | Some j \<Rightarrow> n \<le> j)"

text \<open>The gates, for the processes that have some.\<close>

definition set_gates :: "'w bgapi \<Rightarrow> u64 list \<Rightarrow> intra_info \<Rightarrow> group_detail \<Rightarrow> 'w bg_state \<Rightarrow> (grc \<times> 'w bg_state) outcome" where
  "set_gates api bginfo it d s =
     (if \<not> b_is_tofu s \<and> \<not> in_manager it then ret (G_SUCCESS, s)
      else case (d_settings d, d_rmt d) of
        (Some xs, Some rm) \<Rightarrow>
          if \<exists>x \<in> set rm. past_end (length bginfo) (src_rmt_index x) \<or> past_end (length bginfo) (dst_rmt_index x) then crash OutOfBounds
          else
            let xs' = remote_settings bginfo rm xs; (rc, w) = g_set_vbg api xs' (b_net s) in
            ret (rc, (mod_detail (\<lambda>d. d\<lparr>d_settings := Some xs'\<rparr>) s)\<lparr>b_net := w\<rparr>)
      | _ \<Rightarrow> if d_num_vbg d = 0 then let (rc, w) = g_set_vbg api [] (b_net s) in ret (rc, s\<lparr>b_net := w\<rparr>) else crash NullDeref)"

definition find_world :: "nat \<Rightarrow> nat option list \<Rightarrow> nat option" where
  "find_world v world = List.find (\<lambda>j. world ! j = Some v) [0..<UTF_BG_MAX_PROC_IN_NODE]"

text \<open>The buffer of the node's gate in the shared memory.\<close>

definition find_buffer :: "u32 \<Rightarrow> intra_info \<Rightarrow> 'w bg_state \<Rightarrow> (grc \<times> 'w bg_state) outcome" where
  "find_buffer rank it s =
     (if b_is_tofu s \<or> in_size it < 2 then ret (G_SUCCESS, s)
      else case b_world s of None \<Rightarrow> crash NullDeref
      | Some world \<Rightarrow> case find_world (unat rank) world of None \<Rightarrow> ret (G_ERR_INTERNAL, s)
      | Some j \<Rightarrow>
          let (tni, bg) = b_sh_manager s ! j in
          ret (G_SUCCESS, mod_detail (\<lambda>d. d\<lparr>d_intra := Some (it\<lparr>in_mmap_buf := Some
            (UTF_BG_MMAP_HEADER_SIZE + UTF_BG_MMAP_TNI_INF_SIZE (b_mm_width s) * unat tni + UTF_BG_MMAP_GATE_INF_SIZE (b_mm_width s) * unat bg)\<rparr>)\<rparr>) s))"

text \<open>The buffers of the reductions, at the first group; the number is the code of \<open>posix_memalign\<close>.\<close>

definition poll_buffers :: "'w bgapi \<Rightarrow> 'w bg_state \<Rightarrow> grc \<times> 'w bg_state" where
  "poll_buffers api s =
     (if b_first_alloc s \<noteq> b_detail s then (G_SUCCESS, s)
      else if g_memalign api \<noteq> 0 then (if g_memalign api = 12 then G_ERR_OUT_OF_MEMORY else G_ERR_INTERNAL, s\<lparr>b_file_name := None\<rparr>)
      else (G_SUCCESS, s\<lparr>b_poll_idata := True\<rparr>))"

definition utf_bg_init :: "'w bgapi \<Rightarrow> init_arg \<Rightarrow> 'w bg_state \<Rightarrow> (grc \<times> nat ptr option \<times> 'w bg_state) outcome" where
  "utf_bg_init api g s0 =
     (case (il_rankset g, il_bginfo g, il_group g) of
        (Some (p, ranks), Some bginfo, Some _) \<Rightarrow>
          if il_len g = 0 then ret (G_ERR_INVALID_NUMBER, il_group g, s0)
          else case b_detail s0 of None \<Rightarrow> ret (G_ERR_INVALID_POINTER, il_group g, s0)
          | Some a \<Rightarrow> case b_heap s0 a of None \<Rightarrow> crash OutOfBounds
          | Some d \<Rightarrow>
            if arg_rankset d \<noteq> Some p \<or> arg_len d \<noteq> il_len g \<or> arg_my_index d \<noteq> il_my_index g then ret (G_ERR_INVALID_POINTER, il_group g, s0)
            else case d_intra d of None \<Rightarrow> ret (G_ERR_INTERNAL, il_group g, s0)
            | Some it \<Rightarrow>
              let (rc1, s1) = worker_map api it s0 in
              if rc1 \<noteq> G_SUCCESS then ret (rc1, il_group g, s1)
              else if \<not> b_mapped s1 then ret (G_ERR_INTERNAL, il_group g, s1)
              else if length bginfo < il_len g \<or> length ranks \<le> il_my_index g then crash OutOfBounds
              else if \<exists>w \<in> set (take (il_len g) bginfo). w AND UTF_BIT_BGINFO_DISABLE \<noteq> 0 then
                ret (G_ERR_RESOURCE_BUSY, Some (Some a),
                     init_end (if b_first_alloc s1 = b_detail s1 then s1\<lparr>b_first_failed := True\<rparr> else s1))
              else bindO (set_gates api bginfo it d s1) (\<lambda>(rc2, s2).
                if rc2 \<noteq> G_SUCCESS then ret (rc2, il_group g, init_end s2)
                else
                  let s3 = (if in_manager it then s2\<lparr>b_sh_next_tni := b_next_tni s2\<rparr> else s2) in
                  bindO (find_buffer (ranks ! il_my_index g) it s3) (\<lambda>(rc4, s4).
                  if rc4 \<noteq> G_SUCCESS then ret (rc4, il_group g, s4)
                  else
                    let (rc5, s5) = poll_buffers api s4 in
                    if rc5 \<noteq> G_SUCCESS then ret (rc5, il_group g, s5)
                    else ret (G_SUCCESS, Some (Some a), init_end s5)))
      | _ \<Rightarrow> ret (G_ERR_INVALID_POINTER, il_group g, s0))"

section \<open>\<open>utf_bg_free\<close>\<close>

text \<open>The gates of a group are given back if it has some.\<close>

definition free_gates :: "'w bgapi \<Rightarrow> group_detail \<Rightarrow> 'w bg_state \<Rightarrow> grc \<times> 'w bg_state" where
  "free_gates api d s =
     (case d_vbg_ids d of
        None \<Rightarrow> (if d_num_vbg d = 0 then G_SUCCESS else G_ERR_INTERNAL, s)
      | Some ids \<Rightarrow> if d_num_vbg d = 0 then (G_ERR_INTERNAL, s)
          else let (rc, w) = g_free_vbg api (take (d_num_vbg d) ids) (b_net s) in (rc, s\<lparr>b_net := w\<rparr>))"

text \<open>
  The first group gives back the shared memory. \<open>unlink\<close> returns 0 or -1, never the number that its loop
  tests for, so it is called once.
\<close>

definition free_first :: "group_detail \<Rightarrow> 'w bg_state \<Rightarrow> 'w bg_state outcome" where
  "free_first d s =
     (let end1 = (\<lambda>s. s\<lparr>b_poll_idata := False, b_world := None, b_first_alloc := None\<rparr>) in
      if \<not> b_disable_shm s then ret (end1 (s\<lparr>b_mapped := False\<rparr>))
      else if b_file_name s = None then ret (end1 s)
      else if d_intra d = None then crash NullDeref
      else ret (end1 (s\<lparr>b_file_name := None, b_mapped := False\<rparr>)))"

definition utf_bg_free :: "'w bgapi \<Rightarrow> nat ptr \<Rightarrow> 'w bg_state \<Rightarrow> (grc \<times> 'w bg_state) outcome" where
  "utf_bg_free api grp s0 =
     (case grp of None \<Rightarrow> ret (G_ERR_INVALID_POINTER, s0)
      | Some a \<Rightarrow> case b_heap s0 a of None \<Rightarrow> crash OutOfBounds
      | Some d \<Rightarrow>
          let (rc, s1) = free_gates api d s0 in
          bindO (if b_first_alloc s1 = Some a then free_first d s1 else ret s1) (\<lambda>s2.
            ret (rc, s2\<lparr>b_heap := (b_heap s2)(a := None)\<rparr>)))"

end
