(* ===== verification/Vbg_Reduce.thy ===== *)
theory Vbg_Reduce
  imports Vbg_Sm
begin

text \<open>
  The collective operations of \<open>src/src/vbg/utf_bg_barrier.c\<close>: the start of a barrier, a
  broadcast and a reduction, which encode the caller's elements into 64-bit words, and the
  dispatch of the polls. The caller's buffer is read as a whole before the loop over its
  elements. \<open>UTF_IN_PLACE\<close> is the send address \<open>None\<close>. Products of sizes are taken
  modulo \<open>2 ^ 64\<close> where the source computes them in \<open>size_t\<close>.
\<close>

unbundle bit_operations_syntax

type_synonym 'w vres = "(vrc \<times> 'w vbg) outcome"

section \<open>Preparation\<close>

definition UTF_BG_REDUCE_INFO_SET :: "addr \<Rightarrow> poll_op \<Rightarrow> nat \<Rightarrow> u64 \<Rightarrow> bool \<Rightarrow> 'w vbg \<Rightarrow> 'w vbg" where
  "UTF_BG_REDUCE_INFO_SET buf uop count dt reduce_root = mod_pi (\<lambda>p. p\<lparr>utf_bg_poll_result := buf,
     utf_bg_poll_op := uop, utf_bg_poll_count := count, utf_bg_poll_datatype := dt,
     utf_bg_poll_root := reduce_root, utf_bg_poll_size := datatype_size dt\<rparr>)"

definition UTF_BG_ALGORITHM :: "'w vbg \<Rightarrow> bool" where
  "UTF_BG_ALGORITHM s \<longleftrightarrow> intra_is_tofu s \<or> 1 = g_size (vgrp s)"

definition UTF_BG_INIT_SM_COMMON :: "'w vbg \<Rightarrow> 'w vbg" where
  "UTF_BG_INIT_SM_COMMON s = (let g = vgrp s; sq = g_curr_seq g + 1 in
     s\<lparr>vgrp := g\<lparr>g_curr_seq := sq\<rparr>,
       pinfo := (pinfo s)\<lparr>utf_bg_poll_ids := (if g_manager g then g_vbg_id g else -1), sm_numproc := g_size g,
         sm_intra_index := g_intra_index g, sm_seq_val := sq, sm_flg_comm_start := False,
         sm_loop_counter := 1, sm_loop_rank := g_intra_index g\<rparr>\<rparr>)"

definition UTF_BG_INIT_SM :: "reduce_op \<Rightarrow> nat \<Rightarrow> 'w vbg \<Rightarrow> 'w vbg" where
  "UTF_BG_INIT_SM uop ucnt s = mod_pi (\<lambda>p. p\<lparr>sm_utofu_op := uop, utf_bg_poll_numcount := ucnt\<rparr>) (UTF_BG_INIT_SM_COMMON s)"

definition set_ids :: "'w vbg \<Rightarrow> 'w vbg" where
  "set_ids s = mod_pi (\<lambda>p. p\<lparr>utf_bg_poll_ids := g_vbg_id (vgrp s)\<rparr>) s"

definition set_idata :: "u64 list \<Rightarrow> 'w vbg \<Rightarrow> 'w vbg" where
  "set_idata ws = mod_pi (\<lambda>p. p\<lparr>utf_bg_poll_idata := ws\<rparr>)"

text \<open>The end of the start functions on integers: the barrier gate, or the shared memory of the node.\<close>

definition launch_uint64 :: "'w vbgapi \<Rightarrow> reduce_func \<Rightarrow> reduce_op \<Rightarrow> nat \<Rightarrow> 'w vbg \<Rightarrow> 'w vres" where
  "launch_uint64 api func uop count s =
     (if UTF_BG_ALGORITHM s then
        (let s1 = (set_ids s)\<lparr>poll_reduce_func := Some func\<rparr> in
         case v_reduce_uint64 api (utf_bg_poll_ids (pinfo s1)) uop (take count (utf_bg_poll_idata (pinfo s1))) (vworld s1) of
           (rc, w) \<Rightarrow> ret (rc, s1\<lparr>vworld := w\<rparr>))
      else ret (V_SUCCESS, UTF_BG_INIT_SM uop count (s\<lparr>poll_reduce_func := Some Poll_uint64_sm\<rparr>)))"

section \<open>Barrier\<close>

definition utf_barrier :: "'w vbgapi \<Rightarrow> 'w vbg \<Rightarrow> 'w vres" where
  "utf_barrier api s0 = (let s = s0\<lparr>bg_counter := bg_counter s0 + 1\<rparr> in
     if UTF_BG_ALGORITHM s then
       (let s1 = (set_ids s)\<lparr>poll_barrier_func := Some UTF_POLL_BARRIER\<rparr> in
        case v_barrier api (utf_bg_poll_ids (pinfo s1)) (vworld s1) of (rc, w) \<Rightarrow> ret (rc, s1\<lparr>vworld := w\<rparr>))
     else ret (V_SUCCESS, UTF_BG_INIT_SM_COMMON (s\<lparr>poll_barrier_func := Some UTF_POLL_BARRIER_SM\<rparr>)))"

definition utf_poll_barrier :: "'w vbgapi \<Rightarrow> 'w vbg \<Rightarrow> 'w vres" where
  "utf_poll_barrier api s = (case poll_barrier_func s of
       Some UTF_POLL_BARRIER \<Rightarrow> (case v_poll_barrier api (utf_bg_poll_ids (pinfo s)) (vworld s) of (rc, w) \<Rightarrow> ret (rc, s\<lparr>vworld := w\<rparr>))
     | Some UTF_POLL_BARRIER_SM \<Rightarrow> utf_poll_barrier_sm api s
     | None \<Rightarrow> ret (V_ERR_NOT_AVAILABLE, s))"

section \<open>Encoding the elements\<close>

definition utf_bg_reduce_uint64 :: "'w vbgapi \<Rightarrow> addr \<Rightarrow> nat \<Rightarrow> nat \<Rightarrow> 'w vbg \<Rightarrow> 'w vres" where
  "utf_bg_reduce_uint64 api buf count sz s =
     bindO (vload buf (count * sz) s) (\<lambda>bs.
     bindO (upd_words count (\<lambda>i w. put_hi (elem_at bs sz i) 0) (utf_bg_poll_idata (pinfo s))) (\<lambda>ws.
     launch_uint64 api Poll_uint64 UTF_REDUCE_OP_SUM count (set_idata ws s)))"

definition utf_bg_reduce_double :: "'w vbgapi \<Rightarrow> addr \<Rightarrow> nat \<Rightarrow> nat \<Rightarrow> 'w vbg \<Rightarrow> 'w vres" where
  "utf_bg_reduce_double api buf count sz s =
     bindO (if sz \<in> {8, 4, 2} then vload buf (count * sz) s else ret []) (\<lambda>bs. let e = \<lambda>i. le_nat (elem_at bs sz i) in
     bindO (upd_words count (\<lambda>i w. if sz = 8 then word_of_nat (e i) else if sz = 4 then f64_of_f32 api (word_of_nat (e i))
              else if sz = 2 then f64_of_f16 api (word_of_nat (e i)) else w) (utf_bg_poll_idata (pinfo s))) (\<lambda>ws.
     let s1 = (set_idata ws s)\<lparr>poll_reduce_func := (if sz = 8 then Some Poll_double else if sz = 4 then Some Poll_float
              else if sz = 2 then Some Poll_float16 else poll_reduce_func s)\<rparr> in
     if UTF_BG_ALGORITHM s1 then
       (let s2 = set_ids s1 in
        case v_reduce_double api (utf_bg_poll_ids (pinfo s2)) UTF_REDUCE_OP_BFPSUM (take count (utf_bg_poll_idata (pinfo s2))) (vworld s2) of
          (rc, w) \<Rightarrow> ret (rc, s2\<lparr>vworld := w\<rparr>))
     else ret (V_SUCCESS, mod_pi (\<lambda>p. p\<lparr>utf_bg_poll_size := sz\<rparr>)
            (UTF_BG_INIT_SM UTF_REDUCE_OP_BFPSUM count (s1\<lparr>poll_reduce_func := Some Poll_double_sm\<rparr>)))))"

definition int_encode :: "bool \<Rightarrow> bool \<Rightarrow> u8 list \<Rightarrow> u64 \<Rightarrow> u64" where
  "int_encode is_min is_signed e w = (let v = put_hi e w; v1 = if is_signed then v + UTF_BG_REDUCE_MASK_HB else v in
     if is_min then NOT v1 else v1)"

definition utf_bg_reduce_uint64_max_min :: "'w vbgapi \<Rightarrow> addr \<Rightarrow> nat \<Rightarrow> nat \<Rightarrow> reduce_op \<Rightarrow> bool \<Rightarrow> 'w vbg \<Rightarrow> 'w vres" where
  "utf_bg_reduce_uint64_max_min api buf count sz uop is_signed s =
     bindO (vload buf (count * sz) s) (\<lambda>bs.
     bindO (upd_words count (\<lambda>i w. int_encode (UTF_REDUCE_OP_MIN = uop) is_signed (elem_at bs sz i) w)
              (utf_bg_poll_idata (pinfo s))) (\<lambda>ws.
     launch_uint64 api Poll_uint64_max_min UTF_REDUCE_OP_MAX count (set_idata ws s)))"

definition fp_encode :: "bool \<Rightarrow> nat \<Rightarrow> u8 list \<Rightarrow> u64 \<Rightarrow> u64" where
  "fp_encode is_max sz e w = (let v = put_hi e w;
     v1 = (if is_max then v XOR (if v AND UTF_BG_REDUCE_MASK_HB \<noteq> 0 then UTF_BG_REDUCE_MASK_MAX else UTF_BG_REDUCE_MASK_HB)
           else if v AND UTF_BG_REDUCE_MASK_HB = 0 then v XOR UTF_BG_REDUCE_MASK_MIN else v)
     in v1 + nan_mask sz)"

definition utf_bg_reduce_double_max_min :: "'w vbgapi \<Rightarrow> addr \<Rightarrow> nat \<Rightarrow> nat \<Rightarrow> reduce_op \<Rightarrow> 'w vbg \<Rightarrow> 'w vres" where
  "utf_bg_reduce_double_max_min api buf count sz uop s =
     bindO (vload buf (count * sz) s) (\<lambda>bs.
     bindO (upd_words count (\<lambda>i w. fp_encode (uop = UTF_REDUCE_OP_MAX) sz (elem_at bs sz i) w) (utf_bg_poll_idata (pinfo s))) (\<lambda>ws.
     launch_uint64 api Poll_double_max_min UTF_REDUCE_OP_MAX count (set_idata ws s)))"

text \<open>
  The packing of the logical operations, one bit for an element, 64 to a word. The list
  holds the elements from number \<open>i\<close> on. With no element at all the source's loop runs
  past the ends of both buffers.
\<close>

fun logical_pack :: "u8 list list \<Rightarrow> nat \<Rightarrow> nat \<Rightarrow> u64 list \<Rightarrow> u64 list outcome" where
  "logical_pack [] i j ws = crash OutOfBounds"
| "logical_pack (e # es) i j ws =
     (if length ws \<le> j then crash OutOfBounds else
      let ws1 = ws[j := if list_all (\<lambda>b. b = 0) e then ws ! j AND NOT UTF_BG_REDUCE_MASK_LB else ws ! j OR UTF_BG_REDUCE_MASK_LB];
          j1 = if (i + 1) mod 64 = 0 \<and> i \<noteq> 0 then j + 1 else j
      in if es = [] then ret ws1
         else if length ws1 \<le> j1 then crash OutOfBounds
         else logical_pack es (i + 1) j1 (ws1[j1 := push_bit 1 (ws1 ! j1)]))"

definition utf_reduce_op_type :: "reduce_op \<Rightarrow> reduce_op" where
  "utf_reduce_op_type uop = (case uop of UTF_REDUCE_OP_LAND \<Rightarrow> UTF_REDUCE_OP_BAND | UTF_REDUCE_OP_LOR \<Rightarrow> UTF_REDUCE_OP_BOR
     | _ \<Rightarrow> UTF_REDUCE_OP_BXOR)"

definition utf_bg_reduce_logical :: "'w vbgapi \<Rightarrow> addr \<Rightarrow> nat \<Rightarrow> nat \<Rightarrow> reduce_op \<Rightarrow> 'w vbg \<Rightarrow> 'w vres" where
  "utf_bg_reduce_logical api buf count sz uop s =
     (let numcount = (count + 63) div 64; s1 = mod_pi (\<lambda>p. p\<lparr>utf_bg_poll_numcount := numcount\<rparr>) s in
      if 8 < sz then crash OutOfBounds else
      bindO (vload buf (count * sz) s1) (\<lambda>bs.
      bindO (logical_pack (map (elem_at bs sz) [0..<count]) 0 0 (utf_bg_poll_idata (pinfo s1))) (\<lambda>ws.
      launch_uint64 api Poll_logical (utf_reduce_op_type uop) numcount (set_idata ws s1))))"

text \<open>\<open>memcpy\<close> to the start of the words.\<close>

definition copy_words :: "u8 list \<Rightarrow> u64 list \<Rightarrow> u64 list outcome" where
  "copy_words bs ws = (if 8 * length ws < length bs then crash OutOfBounds
     else ret (words_of_bytes (overwrite (bytes_of_words ws) 0 bs)))"

definition utf_bg_reduce_bitwise :: "'w vbgapi \<Rightarrow> addr \<Rightarrow> nat \<Rightarrow> nat \<Rightarrow> reduce_op \<Rightarrow> 'w vbg \<Rightarrow> 'w vres" where
  "utf_bg_reduce_bitwise api buf count sz uop s =
     (if sz = 0 \<or> 8 < sz then crash OutOfBounds else
      let num_count = (count + (8 div sz - 1)) mod 2 ^ 64 div (8 div sz) in
      bindO (vload buf (count * sz mod 2 ^ 64) s) (\<lambda>bs.
      bindO (copy_words bs (utf_bg_poll_idata (pinfo s))) (\<lambda>ws.
      launch_uint64 api Poll_bitwise uop num_count (set_idata ws s))))"

definition loc_encode :: "u64 \<Rightarrow> nat \<Rightarrow> reduce_op \<Rightarrow> u8 list \<Rightarrow> nat \<Rightarrow> u64 \<Rightarrow> u64" where
  "loc_encode dt sz uop bs i w = (let v = (case loc_part dt sz i of None \<Rightarrow> w | Some (off, n) \<Rightarrow> put_hi (bytes_at bs off n) w)
       + UTF_BG_REDUCE_MASK_HB in
     if UTF_REDUCE_OP_MINLOC = uop \<and> i mod 2 = 0 then NOT v else v)"

text \<open>The bytes of the caller's buffer that \<open>n\<close> parts take.\<close>

definition loc_bytes :: "u64 \<Rightarrow> nat \<Rightarrow> nat \<Rightarrow> nat" where
  "loc_bytes dt sz n = (if n = 0 then 0 else case loc_part dt sz (n - 1) of None \<Rightarrow> 0 | Some (off, k) \<Rightarrow> off + k)"

definition utf_bg_reduce_maxmin_loc :: "'w vbgapi \<Rightarrow> addr \<Rightarrow> nat \<Rightarrow> nat \<Rightarrow> reduce_op \<Rightarrow> 'w vbg \<Rightarrow> 'w vres" where
  "utf_bg_reduce_maxmin_loc api buf count sz uop s =
     (let num_count = count * 2; dt = utf_bg_poll_datatype (pinfo s) in
      bindO (vload buf (loc_bytes dt sz num_count) s) (\<lambda>bs.
      bindO (upd_words num_count (loc_encode dt sz uop bs) (utf_bg_poll_idata (pinfo s))) (\<lambda>ws.
      launch_uint64 api Poll_maxmin_loc UTF_REDUCE_OP_MAXLOC num_count (set_idata ws s))))"

section \<open>Broadcast and reduction\<close>

definition utf_broadcast :: "'w vbgapi \<Rightarrow> addr \<Rightarrow> nat \<Rightarrow> int \<Rightarrow> 'w vbg \<Rightarrow> 'w vres" where
  "utf_broadcast api buf sz root s0 = (let s = s0\<lparr>bg_counter := bg_counter s0 + 1\<rparr> in
     if 48 < sz then ret (V_ERR_NOT_AVAILABLE, s)
     else let num_count = (sz + 7) div 8; is_root = g_my_index (vgrp s) = root in
       bindO (if is_root then vload buf sz s else ret (replicate sz 0)) (\<lambda>bs.
       bindO (copy_words bs (utf_bg_poll_idata (pinfo s))) (\<lambda>ws.
       launch_uint64 api Poll_bcast UTF_REDUCE_OP_BOR num_count
         (UTF_BG_REDUCE_INFO_SET buf UTF_BG_BCAST num_count (word_of_nat sz) is_root (set_idata ws s)))))"

definition utf_bg_reduce_base :: "'w vbgapi \<Rightarrow> addr option \<Rightarrow> nat \<Rightarrow> addr \<Rightarrow> u64 \<Rightarrow> reduce_op \<Rightarrow> bool \<Rightarrow> 'w vbg \<Rightarrow> 'w vres" where
  "utf_bg_reduce_base api buf count result dt uop reduce_root s =
     (let dv = datatype_div dt; sbuf = (case buf of None \<Rightarrow> result | Some a \<Rightarrow> a); sz = datatype_size dt;
          info = (\<lambda>n. UTF_BG_REDUCE_INFO_SET result (Reduce_op uop) n dt reduce_root s) in
      if uop = UTF_REDUCE_OP_SUM then
        (if \<not> (dv = UTF_DATATYPE_DIV_INT \<or> dv = UTF_DATATYPE_DIV_REAL \<or> dv = UTF_DATATYPE_DIV_COMP) then crash AssertFailed
         else if dv = UTF_DATATYPE_DIV_REAL then
           (if 3 < count then ret (V_ERR_NOT_AVAILABLE, s) else utf_bg_reduce_double api sbuf count sz (info count))
         else if dv = UTF_DATATYPE_DIV_INT then
           (if 6 < count then ret (V_ERR_NOT_AVAILABLE, s) else utf_bg_reduce_uint64 api sbuf count sz (info count))
         else
           (if 1 < count then ret (V_ERR_NOT_AVAILABLE, s) else utf_bg_reduce_double api sbuf 2 (sz div 2) (info 2)))
      else if uop = UTF_REDUCE_OP_MAX \<or> uop = UTF_REDUCE_OP_MIN then
        (if \<not> (dv = UTF_DATATYPE_DIV_INT \<or> dv = UTF_DATATYPE_DIV_REAL) then crash AssertFailed
         else if 6 < count then ret (V_ERR_NOT_AVAILABLE, s)
         else if dv = UTF_DATATYPE_DIV_REAL then utf_bg_reduce_double_max_min api sbuf count sz uop (info count)
         else utf_bg_reduce_uint64_max_min api sbuf count sz uop (drop_bit 16 dt \<noteq> 0) (info count))
      else if uop = UTF_REDUCE_OP_MAXLOC \<or> uop = UTF_REDUCE_OP_MINLOC then
        (if dv \<noteq> UTF_DATATYPE_DIV_PAIR then crash AssertFailed
         else if 3 < count then ret (V_ERR_NOT_AVAILABLE, s)
         else utf_bg_reduce_maxmin_loc api sbuf count sz uop (info count))
      else if uop = UTF_REDUCE_OP_BAND \<or> uop = UTF_REDUCE_OP_BOR \<or> uop = UTF_REDUCE_OP_BXOR then
        (if dv \<noteq> UTF_DATATYPE_DIV_INT then crash AssertFailed
         else if 48 < sz * count mod 2 ^ 64 then ret (V_ERR_NOT_AVAILABLE, s)
         else utf_bg_reduce_bitwise api sbuf count sz uop (info count))
      else if uop = UTF_REDUCE_OP_LAND \<or> uop = UTF_REDUCE_OP_LOR \<or> uop = UTF_REDUCE_OP_LXOR then
        (if dv \<noteq> UTF_DATATYPE_DIV_INT then crash AssertFailed
         else if 384 < count then ret (V_ERR_NOT_AVAILABLE, s)
         else utf_bg_reduce_logical api sbuf count sz uop (info count))
      else ret (V_ERR_NOT_AVAILABLE, s))"

definition utf_allreduce :: "'w vbgapi \<Rightarrow> addr option \<Rightarrow> nat \<Rightarrow> addr \<Rightarrow> u64 \<Rightarrow> reduce_op \<Rightarrow> 'w vbg \<Rightarrow> 'w vres" where
  "utf_allreduce api buf count result dt uop s =
     utf_bg_reduce_base api buf count result dt uop True (s\<lparr>bg_counter := bg_counter s + 1\<rparr>)"

definition utf_reduce :: "'w vbgapi \<Rightarrow> addr option \<Rightarrow> nat \<Rightarrow> addr \<Rightarrow> u64 \<Rightarrow> reduce_op \<Rightarrow> int \<Rightarrow> 'w vbg \<Rightarrow> 'w vres" where
  "utf_reduce api buf count result dt uop root s =
     utf_bg_reduce_base api buf count result dt uop (g_my_index (vgrp s) = root) (s\<lparr>bg_counter := bg_counter s + 1\<rparr>)"

section \<open>Polling\<close>

definition utf_poll_reduce :: "'w vbgapi \<Rightarrow> bool \<Rightarrow> 'w vbg \<Rightarrow> 'w pres" where
  "utf_poll_reduce api data s = (case poll_reduce_func s of
       None \<Rightarrow> crash NullDeref
     | Some Poll_double \<Rightarrow> utf_poll_reduce_double api data s
     | Some Poll_float \<Rightarrow> utf_poll_reduce_float api data s
     | Some Poll_float16 \<Rightarrow> utf_poll_reduce_float16 api data s
     | Some Poll_uint64 \<Rightarrow> utf_poll_reduce_uint64 api data s
     | Some Poll_double_max_min \<Rightarrow> utf_poll_reduce_double_max_min api data s
     | Some Poll_uint64_max_min \<Rightarrow> utf_poll_reduce_uint64_max_min api data s
     | Some Poll_logical \<Rightarrow> utf_poll_reduce_logical api data s
     | Some Poll_bitwise \<Rightarrow> utf_poll_reduce_bitwise api data s
     | Some Poll_maxmin_loc \<Rightarrow> utf_poll_reduce_maxmin_loc api data s
     | Some Poll_bcast \<Rightarrow> utf_poll_bcast api data s
     | Some Poll_double_sm \<Rightarrow> utf_poll_reduce_double_sm api data s
     | Some Poll_uint64_sm \<Rightarrow> utf_poll_reduce_uint64_sm api data s)"

end
