(* ===== verification/Mpi_Utf.thy ===== *)
theory Mpi_Utf
  imports Mpi_Tables Vbg_Init Vbg_Reduce Utf_Engine
begin

text \<open>
  The MPI functions of \<open>src/src/mpi_vbg/mpi_utf.c\<close>, which stand in front of an MPI library: they
  start the barrier groups in \<open>MPI_Init\<close>, keep the tables of \<open>Mpi_Tables\<close>, and run collective
  operations on a barrier group where that is possible. The functions of the MPI library (those with the
  prefix PMPI) are parameters over a world of their own; the functions of UTF are those of the other theories.
\<close>

unbundle bit_operations_syntax

section \<open>Data\<close>

definition MPI_SUCCESS :: int where "MPI_SUCCESS = 0"
definition UTF_BG_MIN_BARRIER_SIZE :: nat where "UTF_BG_MIN_BARRIER_SIZE = 4"

text \<open>The predefined data types and operations the source names, and all others.\<close>

datatype MPI_Datatype = MPI_DOUBLE | MPI_LONG | MPI_LONG_LONG | MPI_UNSIGNED_CHAR | MPI_BYTE | MPI_WCHAR
  | MPI_UNSIGNED_SHORT | MPI_UNSIGNED | MPI_UNSIGNED_LONG | MPI_UNSIGNED_LONG_LONG | MPI_CHAR | MPI_SIGNED_CHAR
  | MPI_SHORT | MPI_INT | MPI_FLOAT | MPI_LONG_DOUBLE | MPI_OTHER_TYPE int

datatype MPI_Op = MPI_SUM | MPI_MAX | MPI_MAXLOC | MPI_BAND | MPI_BOR | MPI_BXOR | MPI_MIN | MPI_PROD | MPI_LAND
  | MPI_LOR | MPI_LXOR | MPI_MINLOC | MPI_REPLACE | MPI_NO_OP | MPI_OTHER_OP int

definition mpitype_to_utf :: "MPI_Datatype \<Rightarrow> u64" where
  "mpitype_to_utf dt = (case dt of
     MPI_DOUBLE \<Rightarrow> UTF_DATATYPE_DOUBLE
   | MPI_LONG \<Rightarrow> UTF_DATATYPE_INT64_T | MPI_LONG_LONG \<Rightarrow> UTF_DATATYPE_INT64_T
   | MPI_UNSIGNED_CHAR \<Rightarrow> UTF_DATATYPE_UINT8_T | MPI_BYTE \<Rightarrow> UTF_DATATYPE_UINT8_T
   | MPI_WCHAR \<Rightarrow> UTF_DATATYPE_UINT16_T | MPI_UNSIGNED_SHORT \<Rightarrow> UTF_DATATYPE_UINT16_T
   | MPI_UNSIGNED \<Rightarrow> UTF_DATATYPE_UINT32_T
   | MPI_UNSIGNED_LONG \<Rightarrow> UTF_DATATYPE_UINT64_T | MPI_UNSIGNED_LONG_LONG \<Rightarrow> UTF_DATATYPE_UINT64_T
   | MPI_CHAR \<Rightarrow> UTF_DATATYPE_INT8_T | MPI_SIGNED_CHAR \<Rightarrow> UTF_DATATYPE_INT8_T
   | MPI_SHORT \<Rightarrow> UTF_DATATYPE_INT16_T
   | MPI_INT \<Rightarrow> UTF_DATATYPE_INT32_T
   | MPI_FLOAT \<Rightarrow> UTF_DATATYPE_FLOAT
   | MPI_LONG_DOUBLE \<Rightarrow> 0 | MPI_OTHER_TYPE _ \<Rightarrow> 0)"

text \<open>The value 0 of the enumeration, which no operation has, is \<open>None\<close>.\<close>

definition mpiop_to_utf :: "MPI_Op \<Rightarrow> reduce_op option" where
  "mpiop_to_utf uop = (case uop of
     MPI_SUM \<Rightarrow> Some UTF_REDUCE_OP_SUM | MPI_MAX \<Rightarrow> Some UTF_REDUCE_OP_MAX | MPI_MAXLOC \<Rightarrow> Some UTF_REDUCE_OP_MAXLOC
   | MPI_BAND \<Rightarrow> Some UTF_REDUCE_OP_BAND | MPI_BOR \<Rightarrow> Some UTF_REDUCE_OP_BOR | MPI_BXOR \<Rightarrow> Some UTF_REDUCE_OP_BXOR
   | _ \<Rightarrow> None)"

text \<open>The codes of UTF as integers, as the MPI functions return them.\<close>

definition vcode :: "vrc \<Rightarrow> int" where
  "vcode rc = (case rc of V_SUCCESS \<Rightarrow> 0 | V_ERR_NOT_COMPLETED \<Rightarrow> -2 | V_ERR_NOT_AVAILABLE \<Rightarrow> -7 | V_ERR_INTERNAL \<Rightarrow> -1025 | V_OTHER n \<Rightarrow> n)"

text \<open>The variables of one process: those of the file, of the barrier groups, of UTF, and the world of the MPI library.\<close>

record ('p, 'w, 'u) mpi =
  mpi_bg_enabled :: bool
  mpi_bg_disable :: bool
  mpi_bg_dbg :: bool
  mpi_bg_barrier :: bool
  mpi_bg_iniwait :: u32
  mpi_bg_utfprogress :: bool
  mpi_bg_confirm :: bool
  mpi_world_grp :: "nat ptr"
  mpi_bg_bginfo :: "u64 list option"
  mpi_bg_nprocs :: nat
  mpi_bg_myrank :: nat
  mpi_init_nfirst :: nat
  cg_nprocs :: nat
  tables :: comgrp
  next_addr :: nat
  bgs :: "'w bg_state"
  vcoll :: "'w vbg"
  utfs :: "'u utf"
  plib :: 'p

type_synonym umem = "nat \<Rightarrow> u8 list option"

text \<open>The allocations of the file.\<close>

datatype mpi_malloc = X_grpidx | X_lcl_bginfo | X_rmt_bginfo | X_grpinfo | X_cominfo | X_ranks | X_inf1 | X_inf2

text \<open>
  What is outside the source: constants of \<open>mpi.h\<close>; \<open>malloc\<close> and the contents of memory it returns; the number of processes
  per node; the functions of the MPI library. A function that makes a handle returns it after the code.
\<close>

record 'p pmpi =
  MPI_COMM_WORLD :: int
  MPI_COMM_NULL :: int
  x_malloc :: "mpi_malloc \<Rightarrow> bool"
  x_uninit :: "nat \<Rightarrow> u64"
  jtofu_query_max_proc_per_node :: int
  PMPI_Init :: "'p \<Rightarrow> int \<times> 'p"
  PMPI_Init_thread :: "int \<Rightarrow> 'p \<Rightarrow> int \<times> int \<times> 'p"
  PMPI_Finalize :: "'p \<Rightarrow> int \<times> 'p"
  PMPI_Barrier :: "int \<Rightarrow> 'p \<Rightarrow> int \<times> 'p"
  PMPI_Comm_size :: "int \<Rightarrow> 'p \<Rightarrow> nat"
  PMPI_Comm_rank :: "int \<Rightarrow> 'p \<Rightarrow> nat"
  PMPI_Alltoall :: "u64 list \<Rightarrow> int \<Rightarrow> 'p \<Rightarrow> int \<times> u64 list \<times> 'p"
  MPI_Allgather :: "int \<times> int \<times> int \<Rightarrow> int \<Rightarrow> 'p \<Rightarrow> (int \<times> int \<times> int) list \<times> 'p"
  MPI_Type_size :: "MPI_Datatype \<Rightarrow> int"
  PMPI_Bcast :: "addr \<Rightarrow> int \<Rightarrow> MPI_Datatype \<Rightarrow> int \<Rightarrow> int \<Rightarrow> umem \<Rightarrow> 'p \<Rightarrow> int \<times> umem \<times> 'p"
  PMPI_Reduce :: "addr \<Rightarrow> addr \<Rightarrow> int \<Rightarrow> MPI_Datatype \<Rightarrow> MPI_Op \<Rightarrow> int \<Rightarrow> int \<Rightarrow> umem \<Rightarrow> 'p \<Rightarrow> int \<times> umem \<times> 'p"
  PMPI_Allreduce :: "addr \<Rightarrow> addr \<Rightarrow> int \<Rightarrow> MPI_Datatype \<Rightarrow> MPI_Op \<Rightarrow> int \<Rightarrow> umem \<Rightarrow> 'p \<Rightarrow> int \<times> umem \<times> 'p"
  PMPI_Comm_group :: "int \<Rightarrow> 'p \<Rightarrow> int \<times> int \<times> 'p"
  PMPI_Group_union :: "int \<Rightarrow> int \<Rightarrow> 'p \<Rightarrow> int \<times> int \<times> 'p"
  PMPI_Group_intersection :: "int \<Rightarrow> int \<Rightarrow> 'p \<Rightarrow> int \<times> int \<times> 'p"
  PMPI_Group_difference :: "int \<Rightarrow> int \<Rightarrow> 'p \<Rightarrow> int \<times> int \<times> 'p"
  PMPI_Group_incl :: "int \<Rightarrow> int \<Rightarrow> int list \<Rightarrow> 'p \<Rightarrow> int \<times> int \<times> 'p"
  PMPI_Group_excl :: "int \<Rightarrow> int \<Rightarrow> int list \<Rightarrow> 'p \<Rightarrow> int \<times> int \<times> 'p"
  PMPI_Group_range_incl :: "int \<Rightarrow> int \<Rightarrow> (int \<times> int \<times> int) list \<Rightarrow> 'p \<Rightarrow> int \<times> int \<times> 'p"
  PMPI_Group_range_excl :: "int \<Rightarrow> int \<Rightarrow> (int \<times> int \<times> int) list \<Rightarrow> 'p \<Rightarrow> int \<times> int \<times> 'p"
  PMPI_Group_free :: "int \<Rightarrow> 'p \<Rightarrow> int \<times> int \<times> 'p"
  PMPI_Comm_create :: "int \<Rightarrow> int \<Rightarrow> 'p \<Rightarrow> int \<times> int \<times> 'p"
  PMPI_Comm_dup :: "int \<Rightarrow> 'p \<Rightarrow> int \<times> int \<times> 'p"
  PMPI_Comm_dup_with_info :: "int \<Rightarrow> int \<Rightarrow> 'p \<Rightarrow> int \<times> int \<times> 'p"
  PMPI_Comm_split :: "int \<Rightarrow> int \<Rightarrow> int \<Rightarrow> 'p \<Rightarrow> int \<times> int \<times> 'p"
  PMPI_Comm_free :: "int \<Rightarrow> 'p \<Rightarrow> int \<times> int \<times> 'p"
  PMPI_Cart_create :: "int \<Rightarrow> int \<Rightarrow> int list \<Rightarrow> int list \<Rightarrow> int \<Rightarrow> 'p \<Rightarrow> int \<times> int \<times> 'p"
  PMPI_Graph_create :: "int \<Rightarrow> int \<Rightarrow> int list \<Rightarrow> int list \<Rightarrow> int \<Rightarrow> 'p \<Rightarrow> int \<times> int \<times> 'p"
  PMPI_Cart_sub :: "int \<Rightarrow> int list \<Rightarrow> 'p \<Rightarrow> int \<times> int \<times> 'p"
  PMPI_Dist_graph_create_adjacent :: "int \<Rightarrow> int list \<Rightarrow> int list \<Rightarrow> int list \<Rightarrow> int list \<Rightarrow> int \<Rightarrow> int \<Rightarrow> 'p \<Rightarrow> int \<times> int \<times> 'p"
  PMPI_Dist_graph_create :: "int \<Rightarrow> int list \<Rightarrow> int list \<Rightarrow> int list \<Rightarrow> int list \<Rightarrow> int \<Rightarrow> int \<Rightarrow> 'p \<Rightarrow> int \<times> int \<times> 'p"
  PMPI_Comm_idup :: "int \<Rightarrow> 'p \<Rightarrow> int \<times> int \<times> 'p"

text \<open>The four interfaces a process calls: the MPI library, the gates' construction, the gates, and the network of UTF.\<close>

record ('p, 'w, 'u) mpi_env =
  mp :: "'p pmpi"
  ba :: "'w bgapi"
  va :: "'w vbgapi"
  ua :: "'u utofu"
  tofu_of :: "nat \<Rightarrow> tofu_vname"

section \<open>The barrier group of a communicator\<close>

text \<open>
  The collectives read the first gate, the own position, and the data on the node; \<open>None\<close> stands for
  a read through NULL or of a freed group.
\<close>

definition first_id :: "group_detail \<Rightarrow> u64 option" where
  "first_id d = (case d_vbg_ids d of Some (i # _) \<Rightarrow> Some i | _ \<Rightarrow> None)"

definition group_view :: "bool \<Rightarrow> group_detail \<Rightarrow> coll_group option" where
  "group_view tofu d =
     (let id = (case first_id d of Some i \<Rightarrow> i | None \<Rightarrow> 0); me = int (arg_my_index d) in
      case d_intra d of
        None \<Rightarrow> if tofu \<and> first_id d \<noteq> None
          then Some \<lparr>g_vbg_id = id, g_my_index = me, g_manager = False, g_size = 0, g_intra_index = 0, g_curr_seq = 0\<rparr> else None
      | Some it \<Rightarrow> if first_id d = None \<and> (tofu \<or> in_size it = 1 \<or> in_manager it) then None
          else Some \<lparr>g_vbg_id = id, g_my_index = me, g_manager = in_manager it, g_size = in_size it,
                     g_intra_index = in_intra_index it, g_curr_seq = in_curr_seq it\<rparr>)"

definition load_group :: "nat ptr \<Rightarrow> ('p, 'w, 'u) mpi \<Rightarrow> coll_group option" where
  "load_group p s = (case p of None \<Rightarrow> None
     | Some a \<Rightarrow> (case b_heap (bgs s) a of None \<Rightarrow> None | Some d \<Rightarrow> group_view (b_is_tofu (bgs s)) d))"

text \<open>A collective runs on its variables with the group and the network in place; the group's sequence number is written back.\<close>

definition enter_vbg :: "coll_group \<Rightarrow> ('p, 'w, 'u) mpi \<Rightarrow> 'w vbg" where
  "enter_vbg g s = (vcoll s)\<lparr>vgrp := g, intra_is_tofu := b_is_tofu (bgs s), vworld := b_net (bgs s)\<rparr>"

definition put_seq :: "u64 \<Rightarrow> group_detail \<Rightarrow> group_detail" where
  "put_seq q d = d\<lparr>d_intra := map_option (\<lambda>it. it\<lparr>in_curr_seq := q\<rparr>) (d_intra d)\<rparr>"

definition leave_vbg :: "nat ptr \<Rightarrow> 'w vbg \<Rightarrow> ('p, 'w, 'u) mpi \<Rightarrow> ('p, 'w, 'u) mpi" where
  "leave_vbg p v s = (let b = bgs s in s\<lparr>vcoll := v, bgs := b\<lparr>b_net := vworld v,
     b_heap := (case p of None \<Rightarrow> b_heap b | Some a \<Rightarrow> (b_heap b)(a := map_option (put_seq (g_curr_seq (vgrp v))) (b_heap b a)))\<rparr>\<rparr>)"

text \<open>Calling a start function; \<open>early\<close> is what it does without reading the group.\<close>

definition call_group :: "nat ptr \<Rightarrow> ('w vbg \<Rightarrow> (vrc \<times> 'w vbg) outcome) \<Rightarrow> vrc outcome \<Rightarrow> ('p, 'w, 'u) mpi \<Rightarrow> (vrc \<times> ('p, 'w, 'u) mpi) outcome" where
  "call_group p f early s = (case load_group p s of
       Some g \<Rightarrow> bindO (f (enter_vbg g s)) (\<lambda>(rc, v). ret (rc, leave_vbg p v s))
     | None \<Rightarrow> bindO early (\<lambda>rc. ret (rc, s\<lparr>vcoll := (vcoll s)\<lparr>bg_counter := bg_counter (vcoll s) + 1\<rparr>\<rparr>)))"

text \<open>What \<open>utf_bg_reduce_base\<close> returns before it reads the group.\<close>

definition reduce_early :: "nat \<Rightarrow> u64 \<Rightarrow> reduce_op \<Rightarrow> vrc outcome" where
  "reduce_early count dt uop =
     (let dv = datatype_div dt; over = (\<lambda>b. if b then ret V_ERR_NOT_AVAILABLE else crash NullDeref) in
      if uop = UTF_REDUCE_OP_SUM then
        (if \<not> (dv = UTF_DATATYPE_DIV_INT \<or> dv = UTF_DATATYPE_DIV_REAL \<or> dv = UTF_DATATYPE_DIV_COMP) then crash AssertFailed
         else over (if dv = UTF_DATATYPE_DIV_REAL then 3 < count else if dv = UTF_DATATYPE_DIV_INT then 6 < count else 1 < count))
      else if uop = UTF_REDUCE_OP_MAX \<or> uop = UTF_REDUCE_OP_MIN then
        (if \<not> (dv = UTF_DATATYPE_DIV_INT \<or> dv = UTF_DATATYPE_DIV_REAL) then crash AssertFailed else over (6 < count))
      else if uop = UTF_REDUCE_OP_MAXLOC \<or> uop = UTF_REDUCE_OP_MINLOC then
        (if dv \<noteq> UTF_DATATYPE_DIV_PAIR then crash AssertFailed else over (3 < count))
      else if uop = UTF_REDUCE_OP_BAND \<or> uop = UTF_REDUCE_OP_BOR \<or> uop = UTF_REDUCE_OP_BXOR then
        (if dv \<noteq> UTF_DATATYPE_DIV_INT then crash AssertFailed else over (48 < datatype_size dt * count mod 2 ^ 64))
      else if uop = UTF_REDUCE_OP_LAND \<or> uop = UTF_REDUCE_OP_LOR \<or> uop = UTF_REDUCE_OP_LXOR then
        (if dv \<noteq> UTF_DATATYPE_DIV_INT then crash AssertFailed else over (384 < count))
      else ret V_ERR_NOT_AVAILABLE)"

section \<open>Start and end\<close>

definition option_set :: "(string \<Rightarrow> string option) \<Rightarrow> string \<Rightarrow> bool" where
  "option_set env x = (case env x of None \<Rightarrow> False | Some v \<Rightarrow> atoi v \<noteq> 0)"

definition option_get :: "(string \<Rightarrow> string option) \<Rightarrow> ('p, 'w, 'u) mpi \<Rightarrow> ('p, 'w, 'u) mpi" where
  "option_get env s = s\<lparr>
     mpi_bg_dbg := mpi_bg_dbg s \<or> option_set env ''UTF_BG_DBG'',
     mpi_bg_disable := mpi_bg_disable s \<or> option_set env ''UTF_BG_DISABLE'',
     mpi_bg_iniwait := (if option_set env ''UTF_BG_INITWAIT'' then word_of_int (atoi (the (env ''UTF_BG_INITWAIT''))) else mpi_bg_iniwait s),
     mpi_bg_utfprogress := mpi_bg_utfprogress s \<or> option_set env ''UTF_BG_UTFPROGRESS'',
     mpi_bg_barrier := mpi_bg_barrier s \<or> option_set env ''UTF_BG_BARRIER'',
     mpi_bg_confirm := mpi_bg_confirm s \<or> option_set env ''UTF_BG_CONFIRM''\<rparr>"

text \<open>Calls of the MPI library.\<close>

definition pcall :: "('p \<Rightarrow> int \<times> 'p) \<Rightarrow> ('p, 'w, 'u) mpi \<Rightarrow> int \<times> ('p, 'w, 'u) mpi" where
  "pcall f s = (let (rc, w) = f (plib s) in (rc, s\<lparr>plib := w\<rparr>))"

definition pcall_new :: "('p \<Rightarrow> int \<times> int \<times> 'p) \<Rightarrow> ('p, 'w, 'u) mpi \<Rightarrow> int \<times> int \<times> ('p, 'w, 'u) mpi" where
  "pcall_new f s = (let (rc, h, w) = f (plib s) in (rc, h, s\<lparr>plib := w\<rparr>))"

definition pcall_mem :: "(umem \<Rightarrow> 'p \<Rightarrow> int \<times> umem \<times> 'p) \<Rightarrow> ('p, 'w, 'u) mpi \<Rightarrow> int \<times> ('p, 'w, 'u) mpi" where
  "pcall_mem f s = (let (rc, m, w) = f (vmem (vcoll s)) (plib s) in (rc, s\<lparr>plib := w, vcoll := (vcoll s)\<lparr>vmem := m\<rparr>\<rparr>))"

text \<open>
  \<open>mpi_bg_init\<close>: the group of all processes. The second half runs after the words have been exchanged; the result of
  \<open>utf_bg_init\<close> is not looked at.
\<close>

definition enter_world :: "('p, 'w, 'u) mpi_env \<Rightarrow> nat \<Rightarrow> u32 list \<Rightarrow> nat \<Rightarrow> ('p, 'w, 'u) mpi \<Rightarrow> ('p, 'w, 'u) mpi outcome" where
  "enter_world E a ranks me s =
     bindO (comgrpinfo_init (x_malloc (mp E) X_grpinfo) (x_malloc (mp E) X_cominfo) GROUPINFO_SIZE (tables s)) (\<lambda>t0.
     bindO (utf_bg_init (ba E) \<lparr>il_rankset = Some (a, ranks), il_len = length ranks, il_my_index = me, il_bginfo = mpi_bg_bginfo s,
        il_group = Some (mpi_world_grp s)\<rparr> (bgs s)) (\<lambda>(_, g, b).
     let s1 = s\<lparr>bgs := b, mpi_world_grp := (case g of None \<Rightarrow> mpi_world_grp s | Some p \<Rightarrow> p)\<rparr> in
     bindO (grp_take t0) (\<lambda>(p, t1).
     bindO (grp_fill p 0 (length ranks) (Some ranks) t1) (\<lambda>(k, t2).
     bindO (cominfo_reg (MPI_COMM_WORLD (mp E)) k (mpi_world_grp s1) t2) (\<lambda>(_, t3).
     ret (s1\<lparr>tables := t3, mpi_bg_enabled := True\<rparr>))))))"

definition mpi_bg_init :: "('p, 'w, 'u) mpi_env \<Rightarrow> ('p, 'w, 'u) mpi \<Rightarrow> (int \<times> ('p, 'w, 'u) mpi) outcome" where
  "mpi_bg_init E s =
     (let M = mp E; n = PMPI_Comm_size M (MPI_COMM_WORLD M) (plib s); me = PMPI_Comm_rank M (MPI_COMM_WORLD M) (plib s) in
      if \<not> x_malloc M X_grpidx \<or> \<not> x_malloc M X_lcl_bginfo \<or> \<not> x_malloc M X_rmt_bginfo then ret (-1, s)
      else
        let a = next_addr s; ranks = map word_of_nat [0..<n]; lcl = map (x_uninit M) [0..<n]; s0 = s\<lparr>next_addr := a + 1\<rparr> in
        bindO (utf_bg_alloc (ba E) (tofu_of E) \<lparr>al_rankset = Some (a, ranks), al_len = n, al_my_index = me,
           al_max_ppn = jtofu_query_max_proc_per_node M, al_comm = UTF_BG_TOFU, al_bginfo = Some lcl\<rparr> (bgs s0)) (\<lambda>(rc, lcl', b).
        let s1 = s0\<lparr>bgs := b\<rparr> in
        if rc \<noteq> G_SUCCESS then ret (-1, s1)
        else
          let (rc2, rmt, w) = PMPI_Alltoall M (case lcl' of None \<Rightarrow> [] | Some l \<Rightarrow> l) (MPI_COMM_WORLD M) (plib s1); s2 = s1\<lparr>plib := w\<rparr> in
          if rc2 \<noteq> MPI_SUCCESS then ret (-1, s2)
          else bindO (enter_world E a ranks me (s2\<lparr>mpi_bg_bginfo := Some rmt, mpi_bg_nprocs := n, mpi_bg_myrank := me\<rparr>)) (\<lambda>s3.
            ret (MPI_SUCCESS, s3))))"

definition MPI_Init :: "('p, 'w, 'u) mpi_env \<Rightarrow> ('p, 'w, 'u) mpi \<Rightarrow> (int \<times> ('p, 'w, 'u) mpi) outcome" where
  "MPI_Init E s =
     (let M = mp E in
      if 0 < mpi_init_nfirst s then ret (pcall (PMPI_Init M) s)
      else
        let (rc, s1) = pcall (PMPI_Init M) (option_get (g_getenv (ba E)) (s\<lparr>mpi_init_nfirst := mpi_init_nfirst s + 1\<rparr>)) in
        if rc \<noteq> MPI_SUCCESS then ret (rc, s1)
        else if mpi_bg_disable s1 then ret (0, s1)
        else bindO (mpi_bg_init E s1) (\<lambda>(rc2, s2).
          if rc2 \<noteq> MPI_SUCCESS then ret (rc2, s2)
          else
            let (rc3, s3) = pcall (PMPI_Barrier M (MPI_COMM_WORLD M)) s2 in
            if rc3 \<noteq> MPI_SUCCESS \<or> \<not> mpi_bg_barrier s3 then ret (rc3, s3)
            else ret (pcall (PMPI_Barrier M (MPI_COMM_WORLD M)) s3)))"

text \<open>The second result is the level of thread support.\<close>

definition MPI_Init_thread :: "('p, 'w, 'u) mpi_env \<Rightarrow> int \<Rightarrow> ('p, 'w, 'u) mpi \<Rightarrow> (int \<times> int \<times> ('p, 'w, 'u) mpi) outcome" where
  "MPI_Init_thread E required s =
     (let M = mp E in
      if 0 < mpi_init_nfirst s then ret (pcall_new (PMPI_Init_thread M required) s)
      else
        let (rc, provided, s1) = pcall_new (PMPI_Init_thread M required)
              (option_get (g_getenv (ba E)) (s\<lparr>mpi_init_nfirst := mpi_init_nfirst s + 1\<rparr>)) in
        if rc \<noteq> MPI_SUCCESS then ret (rc, provided, s1)
        else bindO (mpi_bg_init E s1) (\<lambda>(rc2, s2). ret (rc2, provided, s2)))"

definition MPI_Finalize :: "('p, 'w, 'u) mpi_env \<Rightarrow> ('p, 'w, 'u) mpi \<Rightarrow> (int \<times> ('p, 'w, 'u) mpi) outcome" where
  "MPI_Finalize E s =
     bindO (if mpi_bg_enabled s
            then bindO (utf_bg_free (ba E) (mpi_world_grp s) (bgs s)) (\<lambda>(rc, b).
              ret (if rc \<noteq> G_SUCCESS then s\<lparr>bgs := b\<rparr> else s\<lparr>bgs := b, mpi_bg_enabled := False\<rparr>))
            else ret s) (\<lambda>s1. ret (pcall (PMPI_Finalize (mp E)) s1))"

section \<open>Collective operations\<close>

definition run_progress :: "('p, 'w, 'u) mpi_env \<Rightarrow> ('p, 'w, 'u) mpi \<Rightarrow> ('p, 'w, 'u) mpi outcome" where
  "run_progress E s = (if mpi_bg_utfprogress s then bindO (utf_progress (ua E) (utfs s)) (\<lambda>u. ret (s\<lparr>utfs := u\<rparr>)) else ret s)"

text \<open>A poll uses the variables of the started operation, not the group.\<close>

definition poll_once :: "('w vbg \<Rightarrow> (vrc \<times> 'w vbg) outcome) \<Rightarrow> ('p, 'w, 'u) mpi \<Rightarrow> (vrc \<times> ('p, 'w, 'u) mpi) outcome" where
  "poll_once f s = bindO (f ((vcoll s)\<lparr>vworld := b_net (bgs s)\<rparr>)) (\<lambda>(rc, v). ret (rc, s\<lparr>vcoll := v, bgs := (bgs s)\<lparr>b_net := vworld v\<rparr>\<rparr>))"

definition barrier_poll :: "('p, 'w, 'u) mpi_env \<Rightarrow> ('p, 'w, 'u) mpi \<Rightarrow> (vrc \<times> ('p, 'w, 'u) mpi) outcome" where
  "barrier_poll E = poll_once (utf_poll_barrier (va E))"

definition reduce_poll :: "('p, 'w, 'u) mpi_env \<Rightarrow> ('p, 'w, 'u) mpi \<Rightarrow> (vrc \<times> ('p, 'w, 'u) mpi) outcome" where
  "reduce_poll E = poll_once (\<lambda>v. bindO (utf_poll_reduce (va E) True v) (\<lambda>(rc, _, v'). ret (rc, v')))"

text \<open>
  The loops of \<open>mpi_bg_poll_barrier\<close> and \<open>mpi_bg_poll_reduce\<close>: they end with the first poll that does not return
  \<open>UTF_ERR_NOT_COMPLETED\<close>; what else it returns is not looked at.
\<close>

partial_function (option) poll_loop :: "(('p, 'w, 'u) mpi \<Rightarrow> (vrc \<times> ('p, 'w, 'u) mpi) outcome) \<Rightarrow> (('p, 'w, 'u) mpi \<Rightarrow> ('p, 'w, 'u) mpi outcome)
    \<Rightarrow> ('p, 'w, 'u) mpi \<Rightarrow> ('p, 'w, 'u) mpi outcome" where
  "poll_loop poll progress s = (case poll s of None \<Rightarrow> None | Some (Inl f) \<Rightarrow> Some (Inl f)
     | Some (Inr (rc, s1)) \<Rightarrow> if rc \<noteq> V_ERR_NOT_COMPLETED then Some (Inr s1)
         else (case progress s1 of None \<Rightarrow> None | Some (Inl f) \<Rightarrow> Some (Inl f) | Some (Inr s2) \<Rightarrow> poll_loop poll progress s2))"

definition mpi_bg_poll_barrier :: "('p, 'w, 'u) mpi_env \<Rightarrow> ('p, 'w, 'u) mpi \<Rightarrow> ('p, 'w, 'u) mpi outcome" where
  "mpi_bg_poll_barrier E = poll_loop (barrier_poll E) (run_progress E)"

definition mpi_bg_poll_reduce :: "('p, 'w, 'u) mpi_env \<Rightarrow> ('p, 'w, 'u) mpi \<Rightarrow> ('p, 'w, 'u) mpi outcome" where
  "mpi_bg_poll_reduce E = poll_loop (reduce_poll E) (run_progress E)"

text \<open>\<open>COMINFO_GET_CHECK_ABORT\<close>.\<close>

definition com_find :: "int \<Rightarrow> ('p, 'w, 'u) mpi \<Rightarrow> cominfo_ent outcome" where
  "com_find c s = bindO (cominfo_get c (tables s)) (\<lambda>p. case p of None \<Rightarrow> crash Aborted
     | Some j \<Rightarrow> bindO (com_at (tables s) (Some (Com j))) (\<lambda>(_, x). ret x))"

definition MPI_Barrier :: "('p, 'w, 'u) mpi_env \<Rightarrow> int \<Rightarrow> ('p, 'w, 'u) mpi \<Rightarrow> (int \<times> ('p, 'w, 'u) mpi) outcome" where
  "MPI_Barrier E c s =
     (if \<not> mpi_bg_enabled s then ret (pcall (PMPI_Barrier (mp E) c) s)
      else bindO (com_find c s) (\<lambda>x.
        case ce_grp x of None \<Rightarrow> crash AssertFailed
        | Some k \<Rightarrow> bindO (grp_at (tables s) (Some (Grp k))) (\<lambda>(_, e).
            if ge_size e < UTF_BG_MIN_BARRIER_SIZE then ret (pcall (PMPI_Barrier (mp E) c) s)
            else bindO (call_group (ce_bg_grp x) (utf_barrier (va E)) (crash NullDeref) s) (\<lambda>(rc, s1).
              if rc \<noteq> V_SUCCESS then ret (vcode rc, s1)
              else bindO (mpi_bg_poll_barrier E s1) (\<lambda>s2. ret (vcode rc, s2))))))"

text \<open>
  The product of two 32-bit integers, kept to 32 bits as the processor does, and its conversion to \<open>size_t\<close>; the conversion of a count.
\<close>

definition bcast_size :: "int \<Rightarrow> int \<Rightarrow> nat" where
  "bcast_size siz count = unat (scast (word_of_int siz * word_of_int count :: u32) :: u64)"

definition size_t :: "int \<Rightarrow> nat" where
  "size_t n = unat (word_of_int n :: u64)"

definition MPI_Bcast :: "('p, 'w, 'u) mpi_env \<Rightarrow> addr \<Rightarrow> int \<Rightarrow> MPI_Datatype \<Rightarrow> int \<Rightarrow> int \<Rightarrow> ('p, 'w, 'u) mpi \<Rightarrow> (int \<times> ('p, 'w, 'u) mpi) outcome" where
  "MPI_Bcast E buf count dt root c s =
     (if \<not> mpi_bg_enabled s then ret (pcall_mem (PMPI_Bcast (mp E) buf count dt root c) s)
      else bindO (com_find c s) (\<lambda>x.
        let sz = bcast_size (MPI_Type_size (mp E) dt) count in
        bindO (call_group (ce_bg_grp x) (utf_broadcast (va E) buf sz root) (if 48 < sz then ret V_ERR_NOT_AVAILABLE else crash NullDeref) s)
          (\<lambda>(rc, s1). if rc = V_SUCCESS then bindO (mpi_bg_poll_reduce E s1) (\<lambda>s2. ret (vcode rc, s2))
             else if rc = V_ERR_NOT_AVAILABLE then ret (pcall_mem (PMPI_Bcast (mp E) buf count dt root c) s1)
             else ret (vcode rc, s1))))"

text \<open>The common part of the two reductions: whatever the start function answers except success leads to the MPI library.\<close>

definition reduce_via :: "('p, 'w, 'u) mpi_env \<Rightarrow> MPI_Datatype \<Rightarrow> MPI_Op \<Rightarrow> int \<Rightarrow> (u64 \<Rightarrow> reduce_op \<Rightarrow> 'w vbg \<Rightarrow> (vrc \<times> 'w vbg) outcome)
    \<Rightarrow> (u64 \<Rightarrow> reduce_op \<Rightarrow> vrc outcome) \<Rightarrow> (umem \<Rightarrow> 'p \<Rightarrow> int \<times> umem \<times> 'p) \<Rightarrow> ('p, 'w, 'u) mpi \<Rightarrow> (int \<times> ('p, 'w, 'u) mpi) outcome" where
  "reduce_via E dt uop c start early pm s =
     (if \<not> mpi_bg_enabled s then ret (pcall_mem pm s)
      else case mpiop_to_utf uop of
        Some ruop \<Rightarrow>
          if mpitype_to_utf dt = 0 then ret (pcall_mem pm s)
          else bindO (com_find c s) (\<lambda>x.
            bindO (call_group (ce_bg_grp x) (start (mpitype_to_utf dt) ruop) (early (mpitype_to_utf dt) ruop) s) (\<lambda>(rc, s1).
            if rc \<noteq> V_SUCCESS then ret (pcall_mem pm s1)
            else bindO (mpi_bg_poll_reduce E s1) (\<lambda>s2. ret (vcode rc, s2))))
      | None \<Rightarrow> ret (pcall_mem pm s))"

definition MPI_Reduce :: "('p, 'w, 'u) mpi_env \<Rightarrow> addr \<Rightarrow> addr \<Rightarrow> int \<Rightarrow> MPI_Datatype \<Rightarrow> MPI_Op \<Rightarrow> int \<Rightarrow> int \<Rightarrow> ('p, 'w, 'u) mpi \<Rightarrow> (int \<times> ('p, 'w, 'u) mpi) outcome" where
  "MPI_Reduce E sb rb count dt uop root c s =
     reduce_via E dt uop c (\<lambda>ud uo. utf_reduce (va E) (Some sb) (size_t count) rb ud uo root) (\<lambda>_ _. crash NullDeref)
       (PMPI_Reduce (mp E) sb rb count dt uop root c) s"

definition MPI_Allreduce :: "('p, 'w, 'u) mpi_env \<Rightarrow> addr \<Rightarrow> addr \<Rightarrow> int \<Rightarrow> MPI_Datatype \<Rightarrow> MPI_Op \<Rightarrow> int \<Rightarrow> ('p, 'w, 'u) mpi \<Rightarrow> (int \<times> ('p, 'w, 'u) mpi) outcome" where
  "MPI_Allreduce E sb rb count dt uop c s =
     reduce_via E dt uop c (\<lambda>ud uo. utf_allreduce (va E) (Some sb) (size_t count) rb ud uo) (reduce_early (size_t count))
       (PMPI_Allreduce (mp E) sb rb count dt uop c) s"

section \<open>Groups\<close>

text \<open>Two of the results of \<open>grpinfo_get\<close>, for the reads through them.\<close>

definition ent_at :: "comgrp \<Rightarrow> nat ptr \<Rightarrow> grpinfo_ent outcome" where
  "ent_at t p = bindO (grp_at t (map_option Grp p)) (\<lambda>(_, e). ret e)"

definition MPI_Comm_group :: "('p, 'w, 'u) mpi_env \<Rightarrow> int \<Rightarrow> ('p, 'w, 'u) mpi \<Rightarrow> (int \<times> int \<times> ('p, 'w, 'u) mpi) outcome" where
  "MPI_Comm_group E c s =
     (let (rc, g, s1) = pcall_new (PMPI_Comm_group (mp E) c) s in
      if rc \<noteq> MPI_SUCCESS then ret (rc, g, s1)
      else bindO (cominfo_get c (tables s1)) (\<lambda>p. case p of None \<Rightarrow> crash NullDeref
        | Some j \<Rightarrow> bindO (com_grp (tables s1) j) (\<lambda>k. bindO (grpinfo_dup (x_malloc (mp E) X_ranks) k g (tables s1)) (\<lambda>(k', t).
            ret (rc, g, s1\<lparr>tables := grp_link k' t\<rparr>)))))"

text \<open>Searching a rank, and writing the next rank of a new array of \<open>cap\<close> elements.\<close>

fun rank_found :: "u32 \<Rightarrow> u32 list \<Rightarrow> bool" where
  "rank_found x [] = False"
| "rank_found x (y # ys) = (if x = y then True else rank_found x ys)"

definition put_rank :: "nat \<Rightarrow> u32 \<Rightarrow> u32 list \<Rightarrow> u32 list outcome" where
  "put_rank cap v out = (if length out < cap then ret (out @ [v]) else crash OutOfBounds)"

fun union_loop :: "nat \<Rightarrow> u32 list \<Rightarrow> u32 list \<Rightarrow> u32 list \<Rightarrow> u32 list outcome" where
  "union_loop cap r1 [] out = ret out"
| "union_loop cap r1 (x # xs) out = (if rank_found x r1 then union_loop cap r1 xs out
     else bindO (put_rank cap x out) (union_loop cap r1 xs))"

fun intersection_loop :: "nat \<Rightarrow> u32 list \<Rightarrow> u32 list \<Rightarrow> u32 list \<Rightarrow> u32 list outcome" where
  "intersection_loop cap r2 [] out = ret out"
| "intersection_loop cap r2 (x # xs) out = (if rank_found x r2 then bindO (put_rank cap x out) (intersection_loop cap r2 xs)
     else intersection_loop cap r2 xs out)"

fun difference_loop :: "nat \<Rightarrow> u32 list \<Rightarrow> u32 list \<Rightarrow> u32 list \<Rightarrow> u32 list outcome" where
  "difference_loop cap r2 [] out = ret out"
| "difference_loop cap r2 (x # xs) out = (if rank_found x r2 then difference_loop cap r2 xs out
     else bindO (put_rank cap x out) (difference_loop cap r2 xs))"

definition union_ranks :: "u32 list \<Rightarrow> u32 list \<Rightarrow> u32 list outcome" where
  "union_ranks r1 r2 = union_loop (length r1 + length r2) r1 r2 r1"

definition intersection_ranks :: "u32 list \<Rightarrow> u32 list \<Rightarrow> u32 list outcome" where
  "intersection_ranks r1 r2 = intersection_loop (length r1 + length r2) r2 r1 []"

definition difference_ranks :: "u32 list \<Rightarrow> u32 list \<Rightarrow> u32 list outcome" where
  "difference_ranks r1 r2 = difference_loop (length r1 + length r2) r2 r1 []"

text \<open>The frame the three functions share: the entries are looked up first and read after the call of the MPI library.\<close>

definition group_op :: "('p, 'w, 'u) mpi_env \<Rightarrow> (int \<Rightarrow> int \<Rightarrow> 'p \<Rightarrow> int \<times> int \<times> 'p) \<Rightarrow> (u32 list \<Rightarrow> u32 list \<Rightarrow> u32 list outcome)
    \<Rightarrow> int \<Rightarrow> int \<Rightarrow> ('p, 'w, 'u) mpi \<Rightarrow> (int \<times> int \<times> ('p, 'w, 'u) mpi) outcome" where
  "group_op E pm f g1 g2 s =
     bindO (grpinfo_get g1 (tables s)) (\<lambda>p1. bindO (grpinfo_get g2 (tables s)) (\<lambda>p2.
     let (rc, g, s1) = pcall_new (pm g1 g2) s in
     if rc \<noteq> MPI_SUCCESS then ret (rc, g, s1)
     else bindO (ent_at (tables s1) p1) (\<lambda>e1. bindO (ent_at (tables s1) p2) (\<lambda>e2.
       bindO (ranks_of e1) (\<lambda>r1. bindO (ranks_of e2) (\<lambda>r2.
       if \<not> x_malloc (mp E) X_ranks \<and> 0 < length r1 + length r2 then crash NullDeref
       else bindO (f r1 r2) (\<lambda>r. bindO (grpinfo_reg g (length r) (Some r) (tables s1)) (\<lambda>(_, t).
         ret (rc, g, s1\<lparr>tables := t\<rparr>)))))))))"

definition MPI_Group_union :: "('p, 'w, 'u) mpi_env \<Rightarrow> int \<Rightarrow> int \<Rightarrow> ('p, 'w, 'u) mpi \<Rightarrow> (int \<times> int \<times> ('p, 'w, 'u) mpi) outcome" where
  "MPI_Group_union E = group_op E (PMPI_Group_union (mp E)) union_ranks"

definition MPI_Group_intersection :: "('p, 'w, 'u) mpi_env \<Rightarrow> int \<Rightarrow> int \<Rightarrow> ('p, 'w, 'u) mpi \<Rightarrow> (int \<times> int \<times> ('p, 'w, 'u) mpi) outcome" where
  "MPI_Group_intersection E = group_op E (PMPI_Group_intersection (mp E)) intersection_ranks"

definition MPI_Group_difference :: "('p, 'w, 'u) mpi_env \<Rightarrow> int \<Rightarrow> int \<Rightarrow> ('p, 'w, 'u) mpi \<Rightarrow> (int \<times> int \<times> ('p, 'w, 'u) mpi) outcome" where
  "MPI_Group_difference E = group_op E (PMPI_Group_difference (mp E)) difference_ranks"

text \<open>The loop of \<open>MPI_Group_incl\<close>; the assertion admits an index equal to the size.\<close>

fun incl_loop :: "grpinfo_ent outcome \<Rightarrow> int list \<Rightarrow> u32 list outcome" where
  "incl_loop e [] = ret []"
| "incl_loop e (i # is) = bindO e (\<lambda>x.
     if int (ge_size x) < i then crash AssertFailed
     else case ge_ranks x of None \<Rightarrow> crash NullDeref
     | Some r \<Rightarrow> if i < 0 \<or> int (length r) \<le> i then crash OutOfBounds
         else bindO (incl_loop e is) (\<lambda>rest. ret (r ! nat i # rest)))"

definition MPI_Group_incl :: "('p, 'w, 'u) mpi_env \<Rightarrow> int \<Rightarrow> int \<Rightarrow> int list \<Rightarrow> ('p, 'w, 'u) mpi \<Rightarrow> (int \<times> int \<times> ('p, 'w, 'u) mpi) outcome" where
  "MPI_Group_incl E g n ranks s =
     (let (rc, g', s1) = pcall_new (PMPI_Group_incl (mp E) g n ranks) s in
      if rc \<noteq> MPI_SUCCESS then ret (rc, g', s1)
      else bindO (grpinfo_get g (tables s1)) (\<lambda>p.
        if int (length ranks) < n then crash OutOfBounds
        else if \<not> x_malloc (mp E) X_ranks \<and> 0 < n then crash NullDeref
        else bindO (incl_loop (ent_at (tables s1) p) (take (nat n) ranks)) (\<lambda>r.
        bindO (grpinfo_reg g' (length r) (Some r) (tables s1)) (\<lambda>(_, t). ret (rc, g', s1\<lparr>tables := t\<rparr>)))))"

text \<open>\<open>MPI_Group_excl\<close> marks the excluded elements of a copy with -1 and then moves the others to the front.\<close>

fun excl_mark :: "nat \<Rightarrow> int list \<Rightarrow> u32 list \<Rightarrow> u32 list outcome" where
  "excl_mark sz [] a = ret a"
| "excl_mark sz (i # is) a =
     (if int sz < i then crash AssertFailed
      else if i < 0 \<or> int (length a) \<le> i then crash OutOfBounds
      else excl_mark sz is (a[nat i := -1]))"

fun excl_move :: "nat list \<Rightarrow> u32 list \<times> nat \<Rightarrow> u32 list \<times> nat" where
  "excl_move [] (a, n) = (a, n)"
| "excl_move (i # is) (a, n) = excl_move is (if a ! i \<noteq> -1 then (a[n := a ! i], n + 1) else (a, n))"

definition MPI_Group_excl :: "('p, 'w, 'u) mpi_env \<Rightarrow> int \<Rightarrow> int \<Rightarrow> int list \<Rightarrow> ('p, 'w, 'u) mpi \<Rightarrow> (int \<times> int \<times> ('p, 'w, 'u) mpi) outcome" where
  "MPI_Group_excl E g n ranks s =
     (let (rc, g', s1) = pcall_new (PMPI_Group_excl (mp E) g n ranks) s in
      if rc \<noteq> MPI_SUCCESS then ret (rc, g', s1)
      else bindO (grpinfo_get g (tables s1)) (\<lambda>p. bindO (ent_at (tables s1) p) (\<lambda>e. bindO (ranks_of e) (\<lambda>r.
        if \<not> x_malloc (mp E) X_ranks \<and> 0 < ge_size e then crash NullDeref
        else if int (length ranks) < n then crash OutOfBounds
        else bindO (if n = 0 then ret (r, ge_size e)
                    else bindO (excl_mark (ge_size e) (take (nat n) ranks) r) (\<lambda>a. ret (excl_move [0..<ge_size e] (a, 0))))
          (\<lambda>(a, sz). bindO (grpinfo_reg g' sz (Some a) (tables s1)) (\<lambda>(_, t). ret (rc, g', s1\<lparr>tables := t\<rparr>)))))))"

text \<open>The handle is an argument by reference; the second result is its new value.\<close>

definition MPI_Group_free :: "('p, 'w, 'u) mpi_env \<Rightarrow> int \<Rightarrow> ('p, 'w, 'u) mpi \<Rightarrow> (int \<times> int \<times> ('p, 'w, 'u) mpi) outcome" where
  "MPI_Group_free E g s = bindO (grpinfo_unreg g (tables s)) (\<lambda>(rc, t).
     if rc \<noteq> 0 then crash AssertFailed else ret (pcall_new (PMPI_Group_free (mp E) g) (s\<lparr>tables := t\<rparr>)))"

section \<open>Communicators\<close>

definition MPI_Comm_create :: "('p, 'w, 'u) mpi_env \<Rightarrow> int \<Rightarrow> int \<Rightarrow> ('p, 'w, 'u) mpi \<Rightarrow> (int \<times> int \<times> ('p, 'w, 'u) mpi) outcome" where
  "MPI_Comm_create E c g s =
     (let (rc, c', s1) = pcall_new (PMPI_Comm_create (mp E) c g) s in
      if rc \<noteq> MPI_SUCCESS \<or> c' = MPI_COMM_NULL (mp E) then ret (rc, c', s1)
      else bindO (cominfo_get c (tables s1)) (\<lambda>pc. bindO (grpinfo_get g (tables s1)) (\<lambda>pg.
        case (pc, pg) of (Some j, Some k) \<Rightarrow>
          bindO (com_at (tables s1) (Some (Com j))) (\<lambda>(_, x). bindO (com_grp (tables s1) j) (\<lambda>k0.
          bindO (ent_at (tables s1) (Some k)) (\<lambda>e.
          bindO (grpinfo_dup (x_malloc (mp E) X_ranks) k0 (ge_grp e) (tables s1)) (\<lambda>(k', t1).
          bindO (cominfo_reg c' k' (ce_bg_grp x) t1) (\<lambda>(_, t2). ret (rc, c', s1\<lparr>tables := t2\<rparr>))))))
        | _ \<Rightarrow> crash AssertFailed)))"

definition MPI_Comm_dup :: "('p, 'w, 'u) mpi_env \<Rightarrow> int \<Rightarrow> ('p, 'w, 'u) mpi \<Rightarrow> (int \<times> int \<times> ('p, 'w, 'u) mpi) outcome" where
  "MPI_Comm_dup E c s =
     (let (rc, c', s1) = pcall_new (PMPI_Comm_dup (mp E) c) s in
      if rc \<noteq> MPI_SUCCESS then ret (rc, c', s1)
      else bindO (cominfo_dup (x_malloc (mp E) X_ranks) c c' (tables s1)) (\<lambda>t. ret (rc, c', s1\<lparr>tables := t\<rparr>)))"

definition MPI_Comm_dup_with_info :: "('p, 'w, 'u) mpi_env \<Rightarrow> int \<Rightarrow> int \<Rightarrow> ('p, 'w, 'u) mpi \<Rightarrow> (int \<times> int \<times> ('p, 'w, 'u) mpi) outcome" where
  "MPI_Comm_dup_with_info E c mi s =
     (let (rc, c', s1) = pcall_new (PMPI_Comm_dup_with_info (mp E) c mi) s in
      bindO (cominfo_dup (x_malloc (mp E) X_ranks) c c' (tables s1)) (\<lambda>t. ret (rc, c', s1\<lparr>tables := t\<rparr>)))"

text \<open>
  \<open>MPI_Comm_split\<close>: \<open>cg_nprocs\<close> is the variable \<open>nprocs\<close> of \<open>commgroup.c\<close>, which the loop and the calls use
  instead of the number of members. \<open>qsort_by\<close> is the sorting function of the standard library.
\<close>

definition split_members :: "int \<Rightarrow> (int \<times> int \<times> int) list \<Rightarrow> (int \<times> int) list" where
  "split_members color inf1 = map snd (filter (\<lambda>x. fst x = color) inf1)"

definition MPI_Comm_split :: "('p, 'w, 'u) mpi_env \<Rightarrow> int \<Rightarrow> int \<Rightarrow> int \<Rightarrow> ('p, 'w, 'u) mpi \<Rightarrow> (int \<times> int \<times> ('p, 'w, 'u) mpi) outcome" where
  "MPI_Comm_split E c color key s =
     (let M = mp E; (rc, c', s1) = pcall_new (PMPI_Comm_split M c color key) s in
      if rc \<noteq> MPI_SUCCESS then ret (rc, c', s1)
      else
        let sz = PMPI_Comm_size M c (plib s1); me = PMPI_Comm_rank M c (plib s1) in
        if \<not> x_malloc M X_inf1 \<or> \<not> x_malloc M X_inf2 then crash AssertFailed
        else if sz \<le> me then crash OutOfBounds
        else
          let (inf1, w) = MPI_Allgather M (color, key, int sz) c (plib s1); s2 = s1\<lparr>plib := w\<rparr>;
              inf2 = qsort_by mycmp (split_members color (take sz inf1)); n = cg_nprocs s2 in
          if length inf2 < n then crash OutOfBounds
          else if \<not> x_malloc M X_grpidx \<and> 0 < n then crash NullDeref
          else
            let a = next_addr s2; ranks = map (word_of_int \<circ> snd) (take n inf2); s3 = s2\<lparr>next_addr := a + 1\<rparr> in
            bindO (grp_take (tables s3)) (\<lambda>(p, t1).
            bindO (grp_fill p 0 n (Some ranks) t1) (\<lambda>(k, t2).
            bindO (utf_bg_init (ba E) \<lparr>il_rankset = (if x_malloc M X_grpidx then Some (a, ranks) else None), il_len = n, il_my_index = me,
               il_bginfo = mpi_bg_bginfo s3, il_group = Some None\<rparr> (bgs s3)) (\<lambda>(rc2, bg, b).
            let s4 = s3\<lparr>tables := t2, bgs := b\<rparr> in
            if rc2 \<noteq> G_SUCCESS then ret (-1, c', s4)
            else bindO (cominfo_reg c' k (case bg of None \<Rightarrow> None | Some q \<Rightarrow> q) t2) (\<lambda>(_, t3).
              let (rc3, s5) = pcall (PMPI_Barrier M (MPI_COMM_WORLD M)) (s4\<lparr>tables := t3\<rparr>) in
              if rc3 \<noteq> MPI_SUCCESS then ret (-1, c', s5) else ret (rc3, c', s5))))))"

text \<open>The handle the MPI library leaves in the variable is the one that is looked up.\<close>

definition MPI_Comm_free :: "('p, 'w, 'u) mpi_env \<Rightarrow> int \<Rightarrow> ('p, 'w, 'u) mpi \<Rightarrow> (int \<times> int \<times> ('p, 'w, 'u) mpi) outcome" where
  "MPI_Comm_free E c s =
     (let (rc, c', s1) = pcall_new (PMPI_Comm_free (mp E) c) s in
      if rc \<noteq> MPI_SUCCESS then ret (rc, c', s1)
      else bindO (cominfo_unreg c' (tables s1)) (\<lambda>(_, t). ret (rc, c', s1\<lparr>tables := t\<rparr>)))"

section \<open>Functions that keep no ranks\<close>

definition MPI_Group_range_incl :: "('p, 'w, 'u) mpi_env \<Rightarrow> int \<Rightarrow> int \<Rightarrow> (int \<times> int \<times> int) list \<Rightarrow> ('p, 'w, 'u) mpi \<Rightarrow> int \<times> int \<times> ('p, 'w, 'u) mpi" where
  "MPI_Group_range_incl E g n rs = pcall_new (PMPI_Group_range_incl (mp E) g n rs)"

definition MPI_Group_range_excl :: "('p, 'w, 'u) mpi_env \<Rightarrow> int \<Rightarrow> int \<Rightarrow> (int \<times> int \<times> int) list \<Rightarrow> ('p, 'w, 'u) mpi \<Rightarrow> int \<times> int \<times> ('p, 'w, 'u) mpi" where
  "MPI_Group_range_excl E g n rs = pcall_new (PMPI_Group_range_excl (mp E) g n rs)"

definition MPI_Cart_create :: "('p, 'w, 'u) mpi_env \<Rightarrow> int \<Rightarrow> int \<Rightarrow> int list \<Rightarrow> int list \<Rightarrow> int \<Rightarrow> ('p, 'w, 'u) mpi \<Rightarrow> int \<times> int \<times> ('p, 'w, 'u) mpi" where
  "MPI_Cart_create E c n dims periods reorder = pcall_new (PMPI_Cart_create (mp E) c n dims periods reorder)"

definition MPI_Graph_create :: "('p, 'w, 'u) mpi_env \<Rightarrow> int \<Rightarrow> int \<Rightarrow> int list \<Rightarrow> int list \<Rightarrow> int \<Rightarrow> ('p, 'w, 'u) mpi \<Rightarrow> int \<times> int \<times> ('p, 'w, 'u) mpi" where
  "MPI_Graph_create E c n idx edges reorder = pcall_new (PMPI_Graph_create (mp E) c n idx edges reorder)"

definition MPI_Cart_sub :: "('p, 'w, 'u) mpi_env \<Rightarrow> int \<Rightarrow> int list \<Rightarrow> ('p, 'w, 'u) mpi \<Rightarrow> int \<times> int \<times> ('p, 'w, 'u) mpi" where
  "MPI_Cart_sub E c remain = pcall_new (PMPI_Cart_sub (mp E) c remain)"

definition MPI_Dist_graph_create_adjacent :: "('p, 'w, 'u) mpi_env \<Rightarrow> int \<Rightarrow> int list \<Rightarrow> int list \<Rightarrow> int list \<Rightarrow> int list \<Rightarrow> int \<Rightarrow> int
    \<Rightarrow> ('p, 'w, 'u) mpi \<Rightarrow> int \<times> int \<times> ('p, 'w, 'u) mpi" where
  "MPI_Dist_graph_create_adjacent E c srcs sw dsts dw mi reorder = pcall_new (PMPI_Dist_graph_create_adjacent (mp E) c srcs sw dsts dw mi reorder)"

definition MPI_Dist_graph_create :: "('p, 'w, 'u) mpi_env \<Rightarrow> int \<Rightarrow> int list \<Rightarrow> int list \<Rightarrow> int list \<Rightarrow> int list \<Rightarrow> int \<Rightarrow> int
    \<Rightarrow> ('p, 'w, 'u) mpi \<Rightarrow> int \<times> int \<times> ('p, 'w, 'u) mpi" where
  "MPI_Dist_graph_create E c srcs degs dsts ws mi reorder = pcall_new (PMPI_Dist_graph_create (mp E) c srcs degs dsts ws mi reorder)"

definition MPI_Comm_idup :: "('p, 'w, 'u) mpi_env \<Rightarrow> int \<Rightarrow> ('p, 'w, 'u) mpi \<Rightarrow> int \<times> int \<times> ('p, 'w, 'u) mpi" where
  "MPI_Comm_idup E c = pcall_new (PMPI_Comm_idup (mp E) c)"

end
