(* ===== verification/Vbg_Codes.thy ===== *)
theory Vbg_Codes
  imports Vbg_Reduce
begin

text \<open>
  The barrier gate computes one maximum, of unsigned 64-bit words. \<open>utf_bg_barrier.c\<close> maps
  every maximum and minimum of the library to it by an encoding of the elements. The locale
  \<open>max_code\<close> states what an encoding must satisfy, and its interpretations on the encodings
  of integers and of floating-point numbers show that the code's encodings satisfy it,
  whatever bytes an earlier collective has left in the words.
\<close>

unbundle bit_operations_syntax

section \<open>Encodings for the maximum\<close>

locale max_code =
  fixes enc :: "'e \<Rightarrow> u64 \<Rightarrow> u64" and dec :: "u64 \<Rightarrow> 'e" and key :: "'e \<Rightarrow> int" and valid :: "'e \<Rightarrow> bool"
  assumes dec_enc: "valid e \<Longrightarrow> dec (enc e w) = e"
    and enc_mono: "valid e \<Longrightarrow> valid e' \<Longrightarrow> key e < key e' \<Longrightarrow> enc e w < enc e' w'"
begin

lemma dec_Max:
  assumes "finite P" "P \<noteq> {}" and v: "\<And>p. p \<in> P \<Longrightarrow> valid (f p)"
  shows "\<exists>p\<in>P. dec (Max ((\<lambda>p. enc (f p) (stale p)) ` P)) = f p \<and> (\<forall>q\<in>P. key (f q) \<le> key (f p))"
proof -
  let ?S = "(\<lambda>p. enc (f p) (stale p)) ` P"
  have "Max ?S \<in> ?S" using assms by (intro Max_in) auto
  then obtain p where p: "p \<in> P" "Max ?S = enc (f p) (stale p)" by auto
  have "key (f q) \<le> key (f p)" if q: "q \<in> P" for q
  proof (rule ccontr)
    assume "\<not> key (f q) \<le> key (f p)"
    then have "enc (f p) (stale p) < enc (f q) (stale q)" using p q v by (intro enc_mono) auto
    moreover have "enc (f q) (stale q) \<le> Max ?S" using q assms by (intro Max_ge) auto
    ultimately show False using p by simp
  qed
  with p v show ?thesis by (auto simp: dec_enc)
qed

end

section \<open>The masks\<close>

lemma bit_HB: "bit UTF_BG_REDUCE_MASK_HB n \<longleftrightarrow> n = 63"
proof -
  have "UTF_BG_REDUCE_MASK_HB = push_bit 63 1" by (simp add: UTF_BG_REDUCE_MASK_HB_def)
  then have "bit UTF_BG_REDUCE_MASK_HB n = bit (push_bit 63 (1 :: u64)) n" by (rule arg_cong)
  also have "\<dots> \<longleftrightarrow> n = 63" unfolding bit_push_bit_iff by (auto simp: bit_1_iff)
  finally show ?thesis .
qed

lemma unat_and_HB: "(w AND UTF_BG_REDUCE_MASK_HB = 0) \<longleftrightarrow> unat w < 2 ^ 63" for w :: u64
proof -
  have "(w AND UTF_BG_REDUCE_MASK_HB = 0) \<longleftrightarrow> \<not> bit w 63"
    by (auto simp: bit_HB bit_eq_iff [where 'a = u64] bit_and_iff bit_not_iff dest: spec [where x = 63])
  also have "bit w 63 \<longleftrightarrow> bit (unat w) 63" by (simp add: bit_unsigned_iff)
  also have "\<dots> \<longleftrightarrow> odd (unat w div 2 ^ 63)" by (simp add: bit_iff_odd)
  also have "\<dots> \<longleftrightarrow> 2 ^ 63 \<le> unat w"
  proof -
    have "unat w < 2 ^ 64" using unsigned_less [of w, where 'a = nat] by simp
    then have "unat w div 2 ^ 63 < 2" by (simp add: less_mult_imp_div_less)
    then have "unat w div 2 ^ 63 = 0 \<or> unat w div 2 ^ 63 = 1" by linarith
    then show ?thesis by (auto simp: div_eq_0_iff)
  qed
  finally show ?thesis by linarith
qed

lemma unat_lt64: "unat (w :: u64) < 2 ^ 64"
  using unsigned_less [of w, where 'a = nat] by simp

lemma HB_double: "UTF_BG_REDUCE_MASK_HB + UTF_BG_REDUCE_MASK_HB = 0"
  by (simp add: UTF_BG_REDUCE_MASK_HB_def)

lemma minus_HB: "w - UTF_BG_REDUCE_MASK_HB = w + UTF_BG_REDUCE_MASK_HB"
proof -
  have "- UTF_BG_REDUCE_MASK_HB = UTF_BG_REDUCE_MASK_HB" by (simp add: UTF_BG_REDUCE_MASK_HB_def)
  then show ?thesis by (simp only: diff_conv_add_uminus)
qed

lemma xor_HB: "w XOR UTF_BG_REDUCE_MASK_HB = w + UTF_BG_REDUCE_MASK_HB" for w :: u64
proof -
  show ?thesis
  proof (cases "bit w 63")
    case False
    then have "w AND UTF_BG_REDUCE_MASK_HB = 0" by (auto simp: bit_HB bit_eq_iff [where 'a = u64] bit_and_iff bit_not_iff)
    then show ?thesis by (simp add: disjunctive_add_eq_xor)
  next
    case True
    then have "NOT w AND UTF_BG_REDUCE_MASK_HB = 0" by (auto simp: bit_HB bit_eq_iff [where 'a = u64] bit_and_iff bit_not_iff)
    then have "w - UTF_BG_REDUCE_MASK_HB = w XOR UTF_BG_REDUCE_MASK_HB" by (simp only: disjunctive_diff_eq_and_not disjunctive_and_not_eq_xor)
    then show ?thesis by (simp add: minus_HB)
  qed
qed

lemma xor_MAX: "w XOR UTF_BG_REDUCE_MASK_MAX = NOT w" for w :: u64
proof -
  have "UTF_BG_REDUCE_MASK_MAX = (-1 :: u64)" by (simp add: UTF_BG_REDUCE_MASK_MAX_def)
  then show ?thesis by (metis bit.xor_compl_right xor.right_neutral bit.compl_zero)
qed

lemma xor_MIN: "w XOR UTF_BG_REDUCE_MASK_MIN = NOT w + UTF_BG_REDUCE_MASK_HB" for w :: u64
proof -
  have "UTF_BG_REDUCE_MASK_MIN = UTF_BG_REDUCE_MASK_MAX XOR UTF_BG_REDUCE_MASK_HB"
    by (simp add: UTF_BG_REDUCE_MASK_MIN_def UTF_BG_REDUCE_MASK_MAX_def UTF_BG_REDUCE_MASK_HB_def)
  then have "w XOR UTF_BG_REDUCE_MASK_MIN = (w XOR UTF_BG_REDUCE_MASK_MAX) XOR UTF_BG_REDUCE_MASK_HB"
    by (simp add: xor.assoc)
  then show ?thesis by (simp add: xor_MAX xor_HB)
qed

lemma unat_NOT: "unat (NOT w) = 2 ^ 64 - 1 - unat w" for w :: u64
proof -
  have "NOT w = - 1 - w" by (simp add: not_eq_complement)
  then have "unat (NOT w) = unat (-1 - w)" by simp
  also have "\<dots> = unat (-1 :: u64) - unat w"
    by (rule unat_sub) simp
  also have "unat (-1 :: u64) = 2 ^ 64 - 1" by (simp add: unsigned_minus_1_eq_mask mask_eq_exp_minus_1)
  finally show ?thesis .
qed

lemma unat_plus64: "unat (w + v :: u64) = (unat w + unat v) mod 2 ^ 64"
  by (simp add: unat_word_ariths)

lemma unat_HB: "unat UTF_BG_REDUCE_MASK_HB = 2 ^ 63"
  by (simp add: UTF_BG_REDUCE_MASK_HB_def)

section \<open>The upper bytes of a word\<close>

text \<open>The number in the upper \<open>n\<close> bytes of a word, and how the operations of the encodings act on it.\<close>

definition hiw :: "nat \<Rightarrow> u64 \<Rightarrow> nat" where
  "hiw n w = unat w div 2 ^ (64 - 8 * n)"

lemma pow_split: "n \<le> 8 \<Longrightarrow> (2 :: nat) ^ (64 - 8 * n) * 2 ^ (8 * n) = 2 ^ 64"
  by (simp flip: power_add)

text \<open>Half the range of an \<open>n\<close>-byte integer, as a number of its own.\<close>

definition half :: "nat \<Rightarrow> nat" where
  "half n = 2 ^ (8 * n - 1)"

lemma pow_half: "0 < n \<Longrightarrow> n \<le> 8 \<Longrightarrow> half n * 2 ^ (64 - 8 * n) = 2 ^ 63"
  unfolding half_def by (simp flip: power_add)

lemma hiw_lt: "n \<le> 8 \<Longrightarrow> hiw n w < 2 ^ (8 * n)"
  unfolding hiw_def using unat_lt64 [of w] pow_split [of n]
  by (intro less_mult_imp_div_less) (simp only: mult.commute)

lemma hiw_less: "hiw n w < hiw n v \<Longrightarrow> w < v"
  unfolding hiw_def word_less_nat_alt by (metis div_le_mono linorder_not_less)

lemma hiw_put_hi: "length e \<le> 8 \<Longrightarrow> hiw (length e) (put_hi e w) = le_nat e"
  by (simp add: hiw_def unat_put_hi)

lemma get_hi_hiw: "n \<le> 8 \<Longrightarrow> get_hi n w = le_bytes n (hiw n w)"
  by (simp add: get_hi_bytes hiw_def)

lemma hiw_add:
  assumes "n \<le> 8" and "unat c = k * 2 ^ (64 - 8 * n)"
  shows "hiw n (w + c) = (hiw n w + k) mod 2 ^ (8 * n)"
proof -
  let ?K = "2 ^ (64 - 8 * n) :: nat"
  have "unat (w + c) = (unat w + k * ?K) mod (?K * 2 ^ (8 * n))"
    using assms by (simp add: unat_plus64 pow_split)
  then show ?thesis by (simp add: hiw_def mod_mult2_eq add.commute)
qed

lemma hiw_HB: "0 < n \<Longrightarrow> n \<le> 8 \<Longrightarrow> hiw n (w + UTF_BG_REDUCE_MASK_HB) = (hiw n w + half n) mod 2 ^ (8 * n)"
  by (rule hiw_add) (simp_all only: unat_HB pow_half)

lemma hiw_sub:
  assumes "n \<le> 8" and "unat c = k * 2 ^ (64 - 8 * n)"
  shows "hiw n (w - c) = (hiw n w + (2 ^ (8 * n) - k)) mod 2 ^ (8 * n)"
proof -
  have k: "k < 2 ^ (8 * n)" using unat_lt64 [of c] assms pow_split [of n] by (metis mult.commute mult_less_cancel1)
  have "hiw n w = (hiw n (w - c) + k) mod 2 ^ (8 * n)" using hiw_add [OF assms, of "w - c"] by simp
  then have "(hiw n w + (2 ^ (8 * n) - k)) mod 2 ^ (8 * n) = (hiw n (w - c) + (k + (2 ^ (8 * n) - k))) mod 2 ^ (8 * n)"
    by (simp only: mod_add_left_eq add.assoc)
  also have "k + (2 ^ (8 * n) - k) = 2 ^ (8 * n)" using k by simp
  finally show ?thesis using hiw_lt [OF assms(1), of "w - c"] by simp
qed

lemma hiw_NOT:
  assumes "n \<le> 8"
  shows "hiw n (NOT w) = 2 ^ (8 * n) - 1 - hiw n w"
proof -
  let ?K = "2 ^ (64 - 8 * n) :: nat" and ?B = "2 ^ (8 * n) :: nat"
  define a l where "a = unat w div ?K" and "l = unat w mod ?K"
  have w: "unat w = a * ?K + l" and l: "l < ?K" by (simp_all add: a_def l_def div_mult_mod_eq)
  have a: "a < ?B" using hiw_lt [OF assms, of w] by (simp add: a_def hiw_def)
  obtain d where d: "?B = Suc (a + d)" using a less_imp_Suc_add by blast
  have "2 ^ 64 - 1 - unat w = d * ?K + (?K - 1 - l)"
    using l unfolding w pow_split [OF assms, symmetric] d by (simp add: algebra_simps)
  then have "unat (NOT w) = d * ?K + (?K - 1 - l)" by (simp only: unat_NOT)
  moreover have "?K - 1 - l < ?K" using l by linarith
  ultimately have "unat (NOT w) div ?K = d" by (simp only: div_mult_self3 div_less zero_less_power)
  then show ?thesis using d by (simp add: hiw_def a_def)
qed

lemma lt_HB_hiw: "0 < n \<Longrightarrow> n \<le> 8 \<Longrightarrow> w AND UTF_BG_REDUCE_MASK_HB = 0 \<longleftrightarrow> hiw n w < half n"
  unfolding unat_and_HB hiw_def by (simp only: pow_half [symmetric] div_less_iff_less_mult zero_less_power zero_less_numeral)

section \<open>Integers\<close>

text \<open>The value of a little-endian integer of one to eight bytes.\<close>

definition int_value :: "bool \<Rightarrow> u8 list \<Rightarrow> int" where
  "int_value is_signed e = (if is_signed \<and> 2 ^ (8 * length e) \<le> 2 * le_nat e then int (le_nat e) - 2 ^ (8 * length e)
     else int (le_nat e))"

definition int_key :: "bool \<Rightarrow> bool \<Rightarrow> u8 list \<Rightarrow> int" where
  "int_key is_min is_signed e = (if is_min then - int_value is_signed e else int_value is_signed e)"

lemma le_nat_lt2: "le_nat e < 2 ^ (8 * length e)"
  using le_nat_lt [of e] by (simp add: power_mult)

lemma two_halves: "0 < n \<Longrightarrow> (2 :: nat) ^ (8 * n) = 2 * 2 ^ (8 * n - 1)"
  by (simp flip: power_Suc)

lemma shift_half:
  assumes "v < 2 * H"
  shows "(v + H) mod (2 * H) = (if H \<le> v then v - H else v + H :: nat)"
proof (cases "H \<le> v")
  case True
  then have "v + H = (v - H) + 2 * H" by simp
  then have "(v + H) mod (2 * H) = (v - H) mod (2 * H)" by (simp only: mod_add_self2)
  then show ?thesis using True assms by simp
qed (use assms in simp)

lemma pow_half2: "0 < n \<Longrightarrow> 2 ^ (8 * n) = 2 * half n"
  by (simp add: half_def two_halves)

lemma pow_half2_int: "0 < n \<Longrightarrow> (2 :: int) ^ (8 * n) = 2 * int (half n)"
  using pow_half2 [of n] by (metis of_nat_mult of_nat_numeral of_nat_power)

lemma hiw_int_encode:
  assumes "length e = n" "0 < n" "n \<le> 8"
  shows "hiw n (int_encode is_min is_signed e w) =
    (let v1 = if is_signed then (if half n \<le> le_nat e then le_nat e - half n else le_nat e + half n) else le_nat e in
     if is_min then 2 * half n - 1 - v1 else v1)"
proof -
  have "le_nat e < 2 * half n" using le_nat_lt2 [of e] assms by (simp add: pow_half2)
  then have "(le_nat e + half n) mod (2 * half n) = (if half n \<le> le_nat e then le_nat e - half n else le_nat e + half n)"
    by (rule shift_half)
  then show ?thesis using assms hiw_put_hi [of e w]
    by (simp add: int_encode_def Let_def hiw_NOT hiw_HB pow_half2)
qed

lemma int_value_half:
  assumes "length e = n" "0 < n"
  shows "int_value is_signed e = (if is_signed \<and> half n \<le> le_nat e then int (le_nat e) - 2 * int (half n) else int (le_nat e))"
    and "le_nat e < 2 * half n"
  using assms le_nat_lt2 [of e] by (auto simp: int_value_def pow_half2_int pow_half2)

interpretation int_code: max_code "int_encode is_min is_signed" "\<lambda>w. get_hi n (int_decode is_min is_signed w)"
    "int_key is_min is_signed" "\<lambda>e. length e = n \<and> 0 < n \<and> n \<le> 8" for is_min is_signed n
proof
  fix e :: "u8 list" and w
  assume a: "length e = n \<and> 0 < n \<and> n \<le> 8"
  have "int_decode is_min is_signed (int_encode is_min is_signed e w) = put_hi e w"
    by (simp add: int_decode_def int_encode_def Let_def)
  then show "get_hi n (int_decode is_min is_signed (int_encode is_min is_signed e w)) = e"
    using a by (simp add: get_hi_put_hi)
next
  fix e e' :: "u8 list" and w w'
  assume a: "length e = n \<and> 0 < n \<and> n \<le> 8" "length e' = n \<and> 0 < n \<and> n \<le> 8"
    and k: "int_key is_min is_signed e < int_key is_min is_signed e'"
  have "hiw n (int_encode is_min is_signed e w) < hiw n (int_encode is_min is_signed e' w')"
    using a k int_value_half [of e n] int_value_half [of e' n]
    by (cases is_min; cases is_signed) (auto simp: hiw_int_encode Let_def int_key_def split: if_splits)
  then show "int_encode is_min is_signed e w < int_encode is_min is_signed e' w'" by (rule hiw_less)
qed

section \<open>Floating-point numbers\<close>

text \<open>
  IEEE 754 binary formats of two, four and eight bytes: the sign bit, the magnitude (exponent
  and fraction, in the order of the numbers) and the magnitude of infinity; a larger
  magnitude is a NaN. The numbers are ordered by sign and magnitude, with \<open>-0\<close> below \<open>+0\<close>;
  every NaN comes before all numbers, for the maximum and for the minimum.
\<close>

definition fp_frac :: "nat \<Rightarrow> nat" where
  "fp_frac n = (if n = 8 then 52 else if n = 4 then 23 else 10)"

definition fp_neg :: "u8 list \<Rightarrow> bool" where
  "fp_neg e \<longleftrightarrow> half (length e) \<le> le_nat e"

definition fp_mag :: "u8 list \<Rightarrow> nat" where
  "fp_mag e = (if fp_neg e then le_nat e - half (length e) else le_nat e)"

definition fp_inf :: "nat \<Rightarrow> nat" where
  "fp_inf n = half n - 2 ^ fp_frac n"

definition fp_nan :: "u8 list \<Rightarrow> bool" where
  "fp_nan e \<longleftrightarrow> fp_inf (length e) < fp_mag e"

definition fp_order :: "u8 list \<Rightarrow> int" where
  "fp_order e = (if fp_neg e then - 1 - int (fp_mag e) else int (fp_mag e))"

definition fp_key :: "bool \<Rightarrow> u8 list \<Rightarrow> int" where
  "fp_key is_max e = (if fp_nan e then - 2 - int (half (length e)) else if is_max then fp_order e else - 1 - fp_order e)"

lemma fp_size_cases: "n \<in> {2, 4, 8} \<Longrightarrow> 0 < n \<and> n \<le> (8 :: nat)"
  by auto

lemma unat_nan_mask: "n \<in> {2, 4, 8} \<Longrightarrow> unat (nan_mask n) = (2 ^ fp_frac n - 1) * 2 ^ (64 - 8 * n)"
  by (auto simp: nan_mask_def fp_frac_def UTF_BG_REDUCE_MASK_NAN_FP16_def UTF_BG_REDUCE_MASK_NAN_FP32_def
      UTF_BG_REDUCE_MASK_NAN_FP64_def)

lemma fp_frac_half: "n \<in> {2, 4, 8} \<Longrightarrow> 2 * 2 ^ fp_frac n < half n \<and> 1 < (2 :: nat) ^ fp_frac n"
  by (auto simp: fp_frac_def half_def)

lemma fp_mag_lt: "0 < length e \<Longrightarrow> fp_mag e < half (length e)"
  using int_value_half(2) [of e "length e"] by (auto simp: fp_mag_def fp_neg_def)

text \<open>The first step of the encoding, and the whole of it.\<close>

definition fp_flip :: "bool \<Rightarrow> u64 \<Rightarrow> u64" where
  "fp_flip is_max v = (if is_max then (if v AND UTF_BG_REDUCE_MASK_HB \<noteq> 0 then NOT v else v + UTF_BG_REDUCE_MASK_HB)
     else if v AND UTF_BG_REDUCE_MASK_HB = 0 then NOT v + UTF_BG_REDUCE_MASK_HB else v)"

lemma fp_encode_flip: "fp_encode is_max n e w = fp_flip is_max (put_hi e w) + nan_mask n"
  by (simp add: fp_encode_def fp_flip_def Let_def xor_HB xor_MAX xor_MIN)

lemma hiw_fp_flip:
  assumes "length e = n" "n \<in> {2, 4, 8}"
  shows "hiw n (fp_flip is_max (put_hi e w)) = (if fp_neg e = is_max then half n - 1 - fp_mag e else half n + fp_mag e)"
proof -
  have n: "0 < n" "n \<le> 8" using assms by auto
  have hi: "hiw n (put_hi e w) = le_nat e" and lt: "le_nat e < 2 * half n"
    using hiw_put_hi [of e w] int_value_half(2) [of e n] assms n by auto
  have neg: "put_hi e w AND UTF_BG_REDUCE_MASK_HB = 0 \<longleftrightarrow> \<not> fp_neg e"
    using lt_HB_hiw [OF n, of "put_hi e w"] assms by (auto simp: fp_neg_def hi)
  have add: "hiw n (v + UTF_BG_REDUCE_MASK_HB) = (if half n \<le> hiw n v then hiw n v - half n else hiw n v + half n)" for v
    using hiw_HB [OF n, of v] shift_half [of "hiw n v" "half n"] hiw_lt [OF n(2), of v] n by (simp add: pow_half2)
  show ?thesis using lt n assms(1) unfolding fp_flip_def neg
    by (auto simp: add hiw_NOT hi pow_half2 fp_mag_def fp_neg_def)
qed

lemma hiw_fp_encode:
  assumes "length e = n" "n \<in> {2, 4, 8}"
  shows "\<not> fp_nan e \<Longrightarrow> hiw n (fp_encode is_max n e w) =
      (if fp_neg e = is_max then half n - 1 - fp_mag e else half n + fp_mag e) + (2 ^ fp_frac n - 1)"
    and "fp_nan e \<Longrightarrow> hiw n (fp_encode is_max n e w) + 2 < 2 * 2 ^ fp_frac n"
proof -
  have n: "0 < n" "n \<le> 8" using assms by auto
  note fr = fp_frac_half [OF assms(2)] and mag = fp_mag_lt [of e]
  have e: "hiw n (fp_encode is_max n e w) =
      ((if fp_neg e = is_max then half n - 1 - fp_mag e else half n + fp_mag e) + (2 ^ fp_frac n - 1)) mod (2 * half n)"
    unfolding fp_encode_flip hiw_add [OF n(2) unat_nan_mask [OF assms(2)]] hiw_fp_flip [OF assms] using n by (simp add: pow_half2)
  show "hiw n (fp_encode is_max n e w) =
      (if fp_neg e = is_max then half n - 1 - fp_mag e else half n + fp_mag e) + (2 ^ fp_frac n - 1)" if "\<not> fp_nan e"
    unfolding e using that fr mag n assms(1) by (intro mod_less) (auto simp: fp_nan_def fp_inf_def)
  show "hiw n (fp_encode is_max n e w) + 2 < 2 * 2 ^ fp_frac n" if "fp_nan e"
  proof (cases "fp_neg e = is_max")
    case True
    then show ?thesis unfolding e using that fr mag n assms(1) by (auto simp: fp_nan_def fp_inf_def)
  next
    case False
    have "half n + fp_mag e + (2 ^ fp_frac n - 1) = (fp_mag e + (2 ^ fp_frac n - 1) - half n) + 2 * half n"
      using that fr mag n assms(1) by (auto simp: fp_nan_def fp_inf_def)
    then have "hiw n (fp_encode is_max n e w) = (fp_mag e + (2 ^ fp_frac n - 1) - half n) mod (2 * half n)"
      unfolding e using False by (simp only: if_False mod_add_self2)
    then show ?thesis using that fr mag n assms(1) by (auto simp: fp_nan_def fp_inf_def)
  qed
qed

lemma fp_decode_encode: "0 < length e \<Longrightarrow> fp_decode is_max n (fp_encode is_max n e w) = put_hi e w"
proof -
  let ?v = "put_hi e w"
  have hb: "(NOT v AND UTF_BG_REDUCE_MASK_HB = 0) \<longleftrightarrow> v AND UTF_BG_REDUCE_MASK_HB \<noteq> 0"
    "(v + UTF_BG_REDUCE_MASK_HB AND UTF_BG_REDUCE_MASK_HB = 0) \<longleftrightarrow> v AND UTF_BG_REDUCE_MASK_HB \<noteq> 0" for v :: u64
    unfolding unat_and_HB unat_NOT unat_plus64 unat_HB using unat_lt64 [of v] by (auto simp: mod_if)
  have nn: "v + UTF_BG_REDUCE_MASK_HB + UTF_BG_REDUCE_MASK_HB = v" for v using HB_double by (simp add: add.assoc)
  have no: "NOT (NOT v + UTF_BG_REDUCE_MASK_HB) + UTF_BG_REDUCE_MASK_HB = v" for v :: u64
    by (simp add: not_add_distrib)
  show ?thesis unfolding fp_encode_flip fp_decode_def Let_def add_diff_cancel_right' xor_HB xor_MAX xor_MIN fp_flip_def
    by (auto simp: hb nn no xor_HB xor_MAX)
qed

interpretation fp_code: max_code "fp_encode is_max n" "\<lambda>w. get_hi n (fp_decode is_max n w)"
    "fp_key is_max" "\<lambda>e. length e = n \<and> n \<in> {2, 4, 8}" for is_max n
proof
  fix e :: "u8 list" and w
  assume "length e = n \<and> n \<in> {2, 4, 8}"
  then show "get_hi n (fp_decode is_max n (fp_encode is_max n e w)) = e"
    by (subst fp_decode_encode) (auto simp: get_hi_put_hi)
next
  fix e e' :: "u8 list" and w w'
  assume a: "length e = n \<and> n \<in> {2, 4, 8}" "length e' = n \<and> n \<in> {2, 4, 8}" and k: "fp_key is_max e < fp_key is_max e'"
  then have a': "length e = n" "length e' = n" "n \<in> {2, 4, 8}" "0 < n" by auto
  note mag = fp_mag_lt [of e] fp_mag_lt [of e'] and fr = fp_frac_half [OF a'(3)]
  note enc = hiw_fp_encode [OF a'(1,3), of is_max w] hiw_fp_encode [OF a'(2,3), of is_max w']
  have nn: "\<not> fp_nan e'" using k a' mag by (auto simp: fp_key_def fp_order_def split: if_splits)
  have "hiw n (fp_encode is_max n e w) < hiw n (fp_encode is_max n e' w')"
  proof (cases "fp_nan e")
    case True
    then show ?thesis using enc(2) enc(3) nn a' mag fr by (auto simp: fp_nan_def fp_inf_def)
  next
    case False
    then show ?thesis using enc(1) enc(3) nn k a'(1,2,4) mag fr
      by (cases is_max) (auto simp: fp_key_def fp_order_def split: if_splits)
  qed
  then show "fp_encode is_max n e w < fp_encode is_max n e' w'" by (rule hiw_less)
qed

end
