(* ===== verification/Vbg_Reduce_Props.thy ===== *)
theory Vbg_Reduce_Props
  imports Vbg_Codes
begin

text \<open>
  What a reduction over the barrier gate gives: a start encodes the elements into the words,
  the gate combines the words of all processes, a poll decodes them into the caller's buffer.
\<close>

unbundle bit_operations_syntax

section \<open>Reading and writing the caller's memory\<close>

lemma vload_sub:
  assumes "vload a (count * n) s = ret bs" and "i < count" and "0 < n"
  shows "vload (fst a, snd a + i * n) n s = ret (elem_at bs n i)" and "length (elem_at bs n i) = n"
proof -
  have c: "0 < count * n" using assms by simp
  then obtain m where m: "vmem s (fst a) = Some m" "snd a + count * n \<le> length m" "bs = bytes_at m (snd a) (count * n)"
    using assms(1) by (auto simp: vload_def split: option.splits if_splits)
  have "Suc i * n \<le> count * n" using assms by (intro mult_le_mono1) simp
  then have b: "i * n + n \<le> count * n" by simp
  show "vload (fst a, snd a + i * n) n s = ret (elem_at bs n i)"
    using m b assms(3) by (simp add: vload_def elem_at_def bytes_at_def drop_take add.commute)
  show "length (elem_at bs n i) = n" using m b by (simp add: elem_at_def bytes_at_def)
qed

lemma concat_len: "(\<And>i. i < n \<Longrightarrow> length (g i) = sz) \<Longrightarrow> length (concat (map g [0..<n])) = n * sz"
  by (induction n) auto

lemma concat_elem:
  assumes "\<And>i. i < n \<Longrightarrow> length (g i) = sz" and "i < n"
  shows "bytes_at (concat (map g [0..<n])) (i * sz) sz = g i"
  using assms
proof (induction n)
  case (Suc n)
  have l: "length (concat (map g [0..<n])) = n * sz" using Suc.prems by (intro concat_len) simp
  show ?case
  proof (cases "i = n")
    case False
    then have "Suc i * sz \<le> n * sz" using Suc.prems by (intro mult_le_mono1) simp
    then have "i * sz + sz \<le> length (concat (map g [0..<n]))" using l by simp
    moreover have "bytes_at (concat (map g [0..<n])) (i * sz) sz = g i" using Suc False by simp
    ultimately show ?thesis by (simp add: bytes_at_def)
  qed (use l Suc.prems in \<open>simp add: bytes_at_def\<close>)
qed simp

text \<open>Writes of consecutive elements are one write of all of them.\<close>

lemma vstores_contig:
  assumes "vmem s (fst a) = Some m" and "snd a + n * sz \<le> length m" and "\<And>i. i < n \<Longrightarrow> length (g i) = sz"
  shows "vstores a (map (\<lambda>i. (i * sz, g i)) [0..<n]) s =
    ret (s\<lparr>vmem := (vmem s)(fst a \<mapsto> overwrite m (snd a) (concat (map g [0..<n])))\<rparr>)"
  using assms
proof (induction n)
  case 0
  then have "(vmem s)(fst a \<mapsto> m) = vmem s" by auto
  then show ?case by (simp add: overwrite_def)
next
  case (Suc n)
  have app: "vstores a (ws @ ws') = (\<lambda>s :: 'a vbg. bindO (vstores a ws s) (vstores a ws'))" for ws ws'
  proof (induction ws)
    case (Cons x ws)
    show ?case by (rule ext) (cases x, simp add: bindO_assoc Cons)
  qed (simp add: fun_eq_iff)
  have l: "length (concat (map g [0..<n])) = n * sz" using Suc.prems by (intro concat_len) simp
  have gn: "length (g n) = sz" using Suc.prems by simp
  have IH: "vstores a (map (\<lambda>i. (i * sz, g i)) [0..<n]) s =
      ret (s\<lparr>vmem := (vmem s)(fst a \<mapsto> overwrite m (snd a) (concat (map g [0..<n])))\<rparr>)"
    using Suc.prems by (intro Suc.IH) simp_all
  have ov: "overwrite (overwrite m (snd a) (concat (map g [0..<n]))) (snd a + n * sz) (g n) =
      overwrite m (snd a) (concat (map g [0..<Suc n]))"
    using overwrite_adjacent [of "snd a" "concat (map g [0..<n])" "g n" m] l gn Suc.prems by simp
  show ?case
  proof (cases "g n = []")
    case True
    then show ?thesis using IH by (simp add: app vstore_def fun_upd_def)
  next
    case False
    have "length (overwrite m (snd a) (concat (map g [0..<n]))) = length m" using l Suc.prems by simp
    then show ?thesis using IH ov gn Suc.prems False by (auto simp: app vstore_def intro!: vbg.equality)
  qed
qed

lemma decode_loop_contig:
  assumes "n \<le> length (utf_bg_poll_odata (pinfo s))" and "utf_bg_poll_result (pinfo s) = r"
    and "vmem s (fst r) = Some m" and "snd r + n * sz \<le> length m" and "\<And>w. length (g w) = sz"
  shows "\<exists>s'. decode_loop n f (\<lambda>i w. (i * sz, g w)) s = ret s' \<and>
     (\<forall>i<n. vload (fst r, snd r + i * sz) sz s' = ret (g (f i (utf_bg_poll_odata (pinfo s) ! i))))"
proof -
  let ?ws = "map (\<lambda>i. f i (utf_bg_poll_odata (pinfo s) ! i)) [0..<n] @ drop n (utf_bg_poll_odata (pinfo s))"
  let ?s = "mod_pi (\<lambda>p. p\<lparr>utf_bg_poll_odata := ?ws\<rparr>) s" and ?bs = "concat (map (\<lambda>i. g (?ws ! i)) [0..<n])"
  have d: "decode_loop n f (\<lambda>i w. (i * sz, g w)) s =
      ret (?s\<lparr>vmem := (vmem ?s)(fst r \<mapsto> overwrite m (snd r) ?bs)\<rparr>)"
    unfolding decode_loop_def upd_words_def using assms by (simp add: vstores_contig [where sz = sz])
  have l: "length ?bs = n * sz" using assms by (intro concat_len) simp
  have "vload (fst r, snd r + i * sz) sz (?s\<lparr>vmem := (vmem ?s)(fst r \<mapsto> overwrite m (snd r) ?bs)\<rparr>)
      = ret (g (f i (utf_bg_poll_odata (pinfo s) ! i)))" if i: "i < n" for i
  proof -
    have "Suc i * sz \<le> n * sz" using i by (intro mult_le_mono1) simp
    then have b: "i * sz + sz \<le> n * sz" by simp
    have "bytes_at (overwrite m (snd r) ?bs) (snd r + i * sz) sz = bytes_at ?bs (i * sz) sz"
      using b l assms(4) by (simp add: overwrite_def bytes_at_def)
    also have "\<dots> = g (?ws ! i)" using i assms by (intro concat_elem) auto
    finally have "bytes_at (overwrite m (snd r) ?bs) (snd r + i * sz) sz = g (f i (utf_bg_poll_odata (pinfo s) ! i))"
      using i by (simp add: nth_append)
    then show ?thesis using b assms(4) l assms(5) by (auto simp: vload_def)
  qed
  with d show ?thesis by blast
qed

section \<open>Starting over the barrier gate\<close>

lemma vload_mod_pi [simp]: "vload a n (mod_pi f s) = vload a n s"
  by (simp add: vload_def)

lemma upd_words_ret:
  "upd_words n f ws = ret ws' \<longleftrightarrow> n \<le> length ws \<and> ws' = map (\<lambda>i. f i (ws ! i)) [0..<n] @ drop n ws"
  by (auto simp: upd_words_def)

lemma ALGORITHM_mod_pi [simp]: "UTF_BG_ALGORITHM (mod_pi f s) = UTF_BG_ALGORITHM s"
  by (simp add: UTF_BG_ALGORITHM_def)

text \<open>
  The state after a start that the barrier gate has accepted: \<open>ws\<close> are the words, the first
  \<open>n\<close> of them and the operation \<open>gop\<close> have been given to the gate.
\<close>

definition gate_started :: "'w vbgapi \<Rightarrow> reduce_func \<Rightarrow> reduce_op \<Rightarrow> nat \<Rightarrow> addr \<Rightarrow> poll_op \<Rightarrow> nat \<Rightarrow> u64 \<Rightarrow> bool \<Rightarrow> u64 list
    \<Rightarrow> 'w vbg \<Rightarrow> 'w vbg \<Rightarrow> bool" where
  "gate_started api func gop n result uop count dt root ws s s' \<longleftrightarrow> poll_reduce_func s' = Some func \<and> vmem s' = vmem s
     \<and> utf_bg_poll_idata (pinfo s') = ws \<and> utf_bg_poll_odata (pinfo s') = utf_bg_poll_odata (pinfo s)
     \<and> utf_bg_poll_result (pinfo s') = result \<and> utf_bg_poll_op (pinfo s') = uop \<and> utf_bg_poll_count (pinfo s') = count
     \<and> utf_bg_poll_datatype (pinfo s') = dt \<and> utf_bg_poll_root (pinfo s') = root
     \<and> utf_bg_poll_size (pinfo s') = datatype_size dt
     \<and> v_reduce_uint64 api (utf_bg_poll_ids (pinfo s')) gop (take n ws) (vworld s) = (V_SUCCESS, vworld s')"

lemma launch_gate:
  assumes "launch_uint64 api func gop n (set_idata ws (UTF_BG_REDUCE_INFO_SET result pop count dt root s)) = ret (V_SUCCESS, s')"
    and "UTF_BG_ALGORITHM s"
  shows "gate_started api func gop n result pop count dt root ws s s'"
  using assms by (auto simp: launch_uint64_def set_ids_def set_idata_def UTF_BG_REDUCE_INFO_SET_def gate_started_def
      mod_pi_def UTF_BG_ALGORITHM_def split: prod.splits if_splits)

abbreviation send_addr :: "addr option \<Rightarrow> addr \<Rightarrow> addr" where
  "send_addr buf result \<equiv> (case buf of None \<Rightarrow> result | Some a \<Rightarrow> a)"

abbreviation encoded :: "nat \<Rightarrow> (nat \<Rightarrow> u64 \<Rightarrow> u64) \<Rightarrow> 'w vbg \<Rightarrow> u64 list" where
  "encoded n f s \<equiv> map (\<lambda>i. f i (utf_bg_poll_idata (pinfo s) ! i)) [0..<n] @ drop n (utf_bg_poll_idata (pinfo s))"

lemma encode_loop:
  assumes "bindO (vload a k (UTF_BG_REDUCE_INFO_SET result pop count dt root s)) (\<lambda>bs.
      bindO (upd_words n (f bs) (utf_bg_poll_idata (pinfo (UTF_BG_REDUCE_INFO_SET result pop count dt root s)))) (\<lambda>ws.
      launch_uint64 api func uop n' (set_idata ws (UTF_BG_REDUCE_INFO_SET result pop count dt root s)))) = ret (V_SUCCESS, s')"
    and "UTF_BG_ALGORITHM s"
  shows "\<exists>bs. vload a k s = ret bs \<and> n \<le> length (utf_bg_poll_idata (pinfo s))
    \<and> gate_started api func uop n' result pop count dt root (encoded n (f bs) s) s s'"
proof -
  have p: "utf_bg_poll_idata (pinfo (UTF_BG_REDUCE_INFO_SET result pop count dt root s)) = utf_bg_poll_idata (pinfo s)"
    "vload a k (UTF_BG_REDUCE_INFO_SET result pop count dt root s) = vload a k s"
    by (simp_all add: UTF_BG_REDUCE_INFO_SET_def)
  from assms(1) obtain bs where bs: "vload a k s = ret bs" "n \<le> length (utf_bg_poll_idata (pinfo s))"
    "launch_uint64 api func uop n' (set_idata (encoded n (f bs) s) (UTF_BG_REDUCE_INFO_SET result pop count dt root s)) = ret (V_SUCCESS, s')"
    unfolding p by (auto simp: bindO_eq_ret upd_words_ret)
  then show ?thesis using launch_gate [OF bs(3) assms(2)] by blast
qed

definition is_minmax :: "reduce_op \<Rightarrow> bool" where
  "is_minmax uop \<longleftrightarrow> uop = UTF_REDUCE_OP_MAX \<or> uop = UTF_REDUCE_OP_MIN"

lemma reduce_int_start:
  assumes "utf_bg_reduce_base api buf count result dt uop root s = ret (V_SUCCESS, s')"
    and "UTF_BG_ALGORITHM s" "datatype_div dt = UTF_DATATYPE_DIV_INT" "is_minmax uop"
  shows "\<exists>bs. vload (send_addr buf result) (count * datatype_size dt) s = ret bs \<and> count \<le> length (utf_bg_poll_idata (pinfo s))
    \<and> gate_started api Poll_uint64_max_min UTF_REDUCE_OP_MAX count result (Reduce_op uop) count dt root
        (encoded count (\<lambda>i. int_encode (uop = UTF_REDUCE_OP_MIN) (drop_bit 16 dt \<noteq> 0) (elem_at bs (datatype_size dt) i)) s) s s'"
proof -
  have "utf_bg_reduce_uint64_max_min api (send_addr buf result) count (datatype_size dt) uop (drop_bit 16 dt \<noteq> 0)
      (UTF_BG_REDUCE_INFO_SET result (Reduce_op uop) count dt root s) = ret (V_SUCCESS, s')"
    using assms by (auto simp: utf_bg_reduce_base_def Let_def div_defs is_minmax_def split: if_splits)
  from encode_loop [OF this [unfolded utf_bg_reduce_uint64_max_min_def] assms(2)]
  show ?thesis by (simp add: eq_commute [of UTF_REDUCE_OP_MIN])
qed

lemma reduce_fp_start:
  assumes "utf_bg_reduce_base api buf count result dt uop root s = ret (V_SUCCESS, s')"
    and "UTF_BG_ALGORITHM s" "datatype_div dt = UTF_DATATYPE_DIV_REAL" "is_minmax uop"
  shows "\<exists>bs. vload (send_addr buf result) (count * datatype_size dt) s = ret bs \<and> count \<le> length (utf_bg_poll_idata (pinfo s))
    \<and> gate_started api Poll_double_max_min UTF_REDUCE_OP_MAX count result (Reduce_op uop) count dt root
        (encoded count (\<lambda>i. fp_encode (uop = UTF_REDUCE_OP_MAX) (datatype_size dt) (elem_at bs (datatype_size dt) i)) s) s s'"
proof -
  have "utf_bg_reduce_double_max_min api (send_addr buf result) count (datatype_size dt) uop
      (UTF_BG_REDUCE_INFO_SET result (Reduce_op uop) count dt root s) = ret (V_SUCCESS, s')"
    using assms by (auto simp: utf_bg_reduce_base_def Let_def div_defs is_minmax_def split: if_splits)
  from encode_loop [OF this [unfolded utf_bg_reduce_double_max_min_def] assms(2)] show ?thesis .
qed

section \<open>Completion\<close>

text \<open>The same call: what a macro reads of the poll information beside the words.\<close>

definition same_call :: "'w vbg \<Rightarrow> 'w vbg \<Rightarrow> bool" where
  "same_call s t \<longleftrightarrow> utf_bg_poll_op (pinfo t) = utf_bg_poll_op (pinfo s) \<and> utf_bg_poll_count (pinfo t) = utf_bg_poll_count (pinfo s)
     \<and> utf_bg_poll_datatype (pinfo t) = utf_bg_poll_datatype (pinfo s) \<and> utf_bg_poll_size (pinfo t) = utf_bg_poll_size (pinfo s)
     \<and> utf_bg_poll_numcount (pinfo t) = utf_bg_poll_numcount (pinfo s)"

text \<open>A successful poll of a loop that decodes the words one by one, in the process that gets the result.\<close>

lemma poll_decode:
  assumes st: "gate_started api func gop n' result pop count dt True ws0 s s'"
    and poll: "poll (utf_bg_poll_ids (pinfo s')) (vworld s') = (V_SUCCESS, ws, w)" and len: "length ws = n"
    and od: "n \<le> length (utf_bg_poll_odata (pinfo s))"
    and mem: "vmem s (fst result) = Some m" "snd result + n * sz \<le> length m"
    and body: "\<And>t. same_call s' t \<Longrightarrow>
        body t = decode_loop n f (\<lambda>i w. (i * sz, g w)) t"
    and g: "\<And>w. length (g w) = sz"
  shows "\<exists>s''. poll_then poll (UTF_BG_SET_RESULT_COMMON data body) s' = ret (V_SUCCESS, if data then Some result else None, s'')
    \<and> (\<forall>i<n. vload (fst result, snd result + i * sz) sz s'' = ret (g (f i (ws ! i))))"
proof -
  let ?t = "put_odata ws (s'\<lparr>vworld := w\<rparr>)"
  have t: "same_call s' ?t"
    and o: "utf_bg_poll_odata (pinfo ?t) = ws @ drop (length ws) (utf_bg_poll_odata (pinfo s))"
    using st by (simp_all add: put_odata_def gate_started_def same_call_def)
  have "\<exists>s''. decode_loop n f (\<lambda>i w. (i * sz, g w)) ?t = ret s''
      \<and> (\<forall>i<n. vload (fst result, snd result + i * sz) sz s'' = ret (g (f i (utf_bg_poll_odata (pinfo ?t) ! i))))"
    using st od mem g len by (intro decode_loop_contig [where m = m]) (auto simp: o gate_started_def put_odata_def)
  then obtain s'' where d: "decode_loop n f (\<lambda>i w. (i * sz, g w)) ?t = ret s''"
    "\<And>i. i < n \<Longrightarrow> vload (fst result, snd result + i * sz) sz s'' = ret (g (f i (ws ! i)))"
    using len by (auto simp: o nth_append)
  have "poll_then poll (UTF_BG_SET_RESULT_COMMON data body) s' = ret (V_SUCCESS, if data then Some result else None, s'')"
    using st body [OF t] d(1) by (simp add: poll_then_def poll UTF_BG_SET_RESULT_COMMON_def Let_def gate_started_def put_odata_def)
  with d(2) show ?thesis by blast
qed

section \<open>Maximum and minimum\<close>

definition int_types :: "u64 set" where
  "int_types = {UTF_DATATYPE_UINT8_T, UTF_DATATYPE_UINT16_T, UTF_DATATYPE_UINT32_T, UTF_DATATYPE_UINT64_T,
     UTF_DATATYPE_INT8_T, UTF_DATATYPE_INT16_T, UTF_DATATYPE_INT32_T, UTF_DATATYPE_INT64_T}"

definition real_types :: "u64 set" where
  "real_types = {UTF_DATATYPE_FLOAT16, UTF_DATATYPE_FLOAT, UTF_DATATYPE_DOUBLE}"

lemma int_types_div: "dt \<in> int_types \<Longrightarrow> datatype_div dt = UTF_DATATYPE_DIV_INT \<and> datatype_size dt \<in> {1, 2, 4, 8}"
  by (auto simp: int_types_def datatype_defs datatype_div_def datatype_size_def div_defs UTF_DATATYPE_SIZE_def)

lemma real_types_div: "dt \<in> real_types \<Longrightarrow> datatype_div dt = UTF_DATATYPE_DIV_REAL \<and> datatype_size dt \<in> {2, 4, 8}"
  by (auto simp: real_types_def datatype_defs datatype_div_def datatype_size_def div_defs UTF_DATATYPE_SIZE_def)

text \<open>
  What uTofu's barrier gate promises, for \<open>N\<close> processes: the gate combines the words that
  the processes have posted, position by position, with the posted operation. \<open>posted\<close>
  gives what was handed over in a process's world (\<open>gate_posts\<close>: the last accepted start).
\<close>

definition gate_op :: "reduce_op \<Rightarrow> u64 \<Rightarrow> u64 \<Rightarrow> u64" where
  "gate_op gop = (case gop of UTF_REDUCE_OP_SUM \<Rightarrow> (+) | UTF_REDUCE_OP_BAND \<Rightarrow> (AND) | UTF_REDUCE_OP_BOR \<Rightarrow> (OR)
     | UTF_REDUCE_OP_BXOR \<Rightarrow> (XOR) | _ \<Rightarrow> max)"

fun gate_word :: "(u64 \<Rightarrow> u64 \<Rightarrow> u64) \<Rightarrow> nat \<Rightarrow> (nat \<Rightarrow> u64) \<Rightarrow> u64" where
  "gate_word f 0 ws = 0"
| "gate_word f (Suc 0) ws = ws 0"
| "gate_word f (Suc N) ws = f (gate_word f N ws) (ws N)"

definition gate_result :: "nat \<Rightarrow> (nat \<Rightarrow> reduce_op \<times> u64 list) \<Rightarrow> u64 list" where
  "gate_result N posts = map (\<lambda>i. gate_word (gate_op (fst (posts 0))) N (\<lambda>p. snd (posts p) ! i)) [0..<length (snd (posts 0))]"

definition gate_posts :: "'w vbgapi \<Rightarrow> ('w \<Rightarrow> reduce_op \<times> u64 list) \<Rightarrow> bool" where
  "gate_posts api posted \<longleftrightarrow> (\<forall>ids gop ws w. fst (v_reduce_uint64 api ids gop ws w) = V_SUCCESS \<longrightarrow>
     posted (snd (v_reduce_uint64 api ids gop ws w)) = (gop, ws))"

lemma posted_started: "gate_started api func gop n result pop count dt root ws s s' \<Longrightarrow> gate_posts api posted \<Longrightarrow> posted (vworld s') = (gop, take n ws)"
  unfolding gate_started_def gate_posts_def by (metis fst_conv snd_conv)

lemma gate_word_cong: "(\<And>p. p < N \<Longrightarrow> ws p = ws' p) \<Longrightarrow> gate_word f N ws = gate_word f N ws'"
  by (induction f N ws rule: gate_word.induct) auto

lemma gate_word_23: "gate_word f 2 ws = f (ws 0) (ws 1)" "gate_word f 3 ws = f (f (ws 0) (ws 1)) (ws 2)"
  by (simp_all add: numeral_eq_Suc)

lemma gate_word_max: "0 < N \<Longrightarrow> gate_word max N ws = Max (ws ` {..<N})"
proof (induction N)
  case (Suc N)
  then show ?case by (cases N) (auto simp: lessThan_Suc max.commute)
qed simp

lemma gate_result_started:
  assumes "\<And>p. p < N \<Longrightarrow> posts p = (gop, take n (words p))" and "0 < N" and "n \<le> length (words 0)"
  shows "length (gate_result N posts) = n"
    and "i < n \<Longrightarrow> gate_result N posts ! i = gate_word (gate_op gop) N (\<lambda>p. words p ! i)"
  using assms by (auto simp: gate_result_def intro: gate_word_cong)

lemma get_hi_len: "n \<le> 8 \<Longrightarrow> length (get_hi n w) = n"
  by (simp add: get_hi_hiw)

text \<open>The counter of calls plays no part.\<close>

lemma counter_irrelevant [simp]:
  "vload a n (s\<lparr>bg_counter := c\<rparr>) = vload a n s" "UTF_BG_ALGORITHM (s\<lparr>bg_counter := c\<rparr>) = UTF_BG_ALGORITHM s"
  "gate_started api func gop n result pop count dt root ws (s\<lparr>bg_counter := c\<rparr>) s' = gate_started api func gop n result pop count dt root ws s s'"
  by (simp_all add: vload_def UTF_BG_ALGORITHM_def gate_started_def)

text \<open>An encoding for the maximum, used in all processes and decoded in one. The addresses are those of element \<open>i\<close>.\<close>

abbreviation elem_addr :: "addr \<Rightarrow> nat \<Rightarrow> nat \<Rightarrow> addr" where
  "elem_addr a sz i \<equiv> (fst a, snd a + i * sz)"

lemma gate_max_result:
  assumes code: "max_code enc (\<lambda>w. get_hi sz (dec w)) key valid" "\<And>e. length e = sz \<Longrightarrow> valid e" and sz: "0 < sz" "sz \<le> 8"
    and start: "\<And>p. p < N \<Longrightarrow> \<exists>bs. vload (src p) (count * sz) (st p) = ret bs \<and> count \<le> length (utf_bg_poll_idata (pinfo (st p)))
      \<and> gate_started (api p) func UTF_REDUCE_OP_MAX count (result p) pop count dt True (encoded count (\<lambda>i. enc (elem_at bs sz i)) (st p)) (st p) (st' p)"
    and q: "q < N" and od: "count \<le> length (utf_bg_poll_odata (pinfo (st q)))"
    and mem: "vmem (st q) (fst (result q)) = Some m" "snd (result q) + count * sz \<le> length m"
    and poll: "poll (utf_bg_poll_ids (pinfo (st' q))) (vworld (st' q))
      = (V_SUCCESS, gate_result N (\<lambda>p. posted (vworld (st' p))), w)"
    and posts: "\<And>p. p < N \<Longrightarrow> gate_posts (api p) posted"
    and body: "\<And>t. same_call (st' q) t \<Longrightarrow>
        body t = decode_loop count (\<lambda>i. dec) (\<lambda>i w. (i * sz, get_hi sz w)) t"
    and R: "\<And>e e'. length e = sz \<Longrightarrow> length e' = sz \<Longrightarrow> key e' \<le> key e \<Longrightarrow> R e' e"
  shows "\<exists>s. poll_then poll (UTF_BG_SET_RESULT_COMMON data body) (st' q) = ret (V_SUCCESS, if data then Some (result q) else None, s)
    \<and> (\<forall>i<count. \<exists>p<N. \<exists>e. vload (elem_addr (result q) sz i) sz s = ret e \<and> vload (elem_addr (src p) sz i) sz (st p) = ret e
        \<and> (\<forall>p'<N. \<exists>e'. vload (elem_addr (src p') sz i) sz (st p') = ret e' \<and> R e' e))"
proof -
  let ?P = "\<lambda>p bs. vload (src p) (count * sz) (st p) = ret bs \<and> count \<le> length (utf_bg_poll_idata (pinfo (st p)))
      \<and> gate_started (api p) func UTF_REDUCE_OP_MAX count (result p) pop count dt True (encoded count (\<lambda>i. enc (elem_at bs sz i)) (st p)) (st p) (st' p)"
  have "\<forall>p. \<exists>bs. p < N \<longrightarrow> ?P p bs" using start by simp
  then obtain bs where bs: "\<And>p. p < N \<Longrightarrow> ?P p (bs p)" using choice [of "\<lambda>p bs. p < N \<longrightarrow> ?P p bs"] by blast
  let ?ws = "gate_result N (\<lambda>p. posted (vworld (st' p)))" and ?e = "\<lambda>i p. elem_at (bs p) sz i"
  have N: "0 < N" using q by simp
  have po: "posted (vworld (st' p)) = (UTF_REDUCE_OP_MAX, take count (encoded count (\<lambda>i. enc (?e i p)) (st p)))" if "p < N" for p
    using posted_started [OF conjunct2 [OF conjunct2 [OF bs [OF that]]] posts [OF that]] .
  let ?W = "\<lambda>p. encoded count (\<lambda>i. enc (?e i p)) (st p)"
  have gr: "length ?ws = count" "\<And>i. i < count \<Longrightarrow> ?ws ! i = gate_word max N (\<lambda>p. ?W p ! i)"
    using gate_result_started [where words = ?W and posts = "\<lambda>p. posted (vworld (st' p))" and n = count and gop = UTF_REDUCE_OP_MAX] po N
    by (simp_all add: gate_op_def)
  note len = gr(1)
  have gs: "gate_started (api q) func UTF_REDUCE_OP_MAX count (result q) pop count dt True (encoded count (\<lambda>i. enc (elem_at (bs q) sz i)) (st q)) (st q) (st' q)"
    and gl: "length (get_hi sz w) = sz" for w
    using bs [OF q] get_hi_len [OF sz(2)] by simp_all
  have "\<exists>s. poll_then poll (UTF_BG_SET_RESULT_COMMON data body) (st' q) = ret (V_SUCCESS, if data then Some (result q) else None, s)
    \<and> (\<forall>i<count. vload (elem_addr (result q) sz i) sz s = ret (get_hi sz (dec (?ws ! i))))"
    by (rule poll_decode [where f = "\<lambda>i. dec" and g = "get_hi sz" and w = w]; fact)
  then obtain s where s: "poll_then poll (UTF_BG_SET_RESULT_COMMON data body) (st' q) = ret (V_SUCCESS, if data then Some (result q) else None, s)"
    "\<And>i. i < count \<Longrightarrow> vload (elem_addr (result q) sz i) sz s = ret (get_hi sz (dec (?ws ! i)))" by blast
  have "\<exists>p<N. \<exists>e. vload (elem_addr (result q) sz i) sz s = ret e \<and> vload (elem_addr (src p) sz i) sz (st p) = ret e
        \<and> (\<forall>p'<N. \<exists>e'. vload (elem_addr (src p') sz i) sz (st p') = ret e' \<and> R e' e)" if i: "i < count" for i
  proof -
    note el = vload_sub [OF conjunct1 [OF bs] i sz(1)]
    note gr(2) [OF i]
    also have "gate_word max N (\<lambda>p. ?W p ! i) = gate_word max N (\<lambda>p. enc (?e i p) (utf_bg_poll_idata (pinfo (st p)) ! i))"
      using i by (intro gate_word_cong) (simp add: nth_append)
    finally have "?ws ! i = Max ((\<lambda>p. enc (?e i p) (utf_bg_poll_idata (pinfo (st p)) ! i)) ` {..<N})"
      using N by (simp add: gate_word_max)
    then have "\<exists>p\<in>{..<N}. get_hi sz (dec (?ws ! i)) = ?e i p \<and> (\<forall>p'\<in>{..<N}. key (?e i p') \<le> key (?e i p))"
      using max_code.dec_Max [OF code(1), of "{..<N}" "?e i" "\<lambda>p. utf_bg_poll_idata (pinfo (st p)) ! i"] N el(2) code(2)
      by (simp add: lessThan_empty_iff)
    then obtain p where p: "p < N" "get_hi sz (dec (?ws ! i)) = ?e i p" "\<And>p'. p' < N \<Longrightarrow> key (?e i p') \<le> key (?e i p)" by blast
    then show ?thesis using s(2) [OF i] el R by (intro exI [of _ p]) auto
  qed
  with s(1) show ?thesis by blast
qed

section \<open>A concrete call\<close>

text \<open>
  Processes with one element each, the words still holding an earlier value. The world
  is what was posted last, and the list of words the barrier gate is going to return.
\<close>

type_synonym demo_world = "(reduce_op \<times> u64 list) \<times> u64 list"

definition demo_gate :: "demo_world vbgapi" where
  "demo_gate = \<lparr>v_barrier = \<lambda>_ w. (V_SUCCESS, w), v_poll_barrier = \<lambda>_ w. (V_SUCCESS, w), v_reduce_uint64 = \<lambda>_ gop ws w. (V_SUCCESS, (gop, ws), snd w),
     v_poll_reduce_uint64 = \<lambda>_ w. (V_SUCCESS, snd w, w), v_reduce_double = \<lambda>_ gop ws w. (V_SUCCESS, (gop, ws), snd w),
     v_poll_reduce_double = \<lambda>_ w. (V_SUCCESS, snd w, w), f64_add = (+), f64_of_f32 = ucast, f32_of_f64 = ucast,
     f64_of_f16 = ucast, f16_of_f64 = ucast\<rparr>"

definition demo_info :: "u64 list \<Rightarrow> utf_bg_poll_info" where
  "demo_info ws = \<lparr>utf_bg_poll_ids = 0, utf_bg_poll_odata = ws, utf_bg_poll_idata = ws, utf_bg_poll_result = (0, 0),
     utf_bg_poll_op = UTF_BG_BCAST, utf_bg_poll_count = 0, utf_bg_poll_datatype = 0, utf_bg_poll_size = 0,
     utf_bg_poll_numcount = 0, utf_bg_poll_root = False, sm_flg_comm_start = False, sm_utofu_op = UTF_REDUCE_OP_BARRIER,
     sm_loop_counter = 0, sm_loop_rank = 0, sm_numproc = 0, sm_intra_index = 0, sm_seq_val = 0\<rparr>"

definition demo_proc :: "int \<Rightarrow> u64 list \<Rightarrow> u8 list \<Rightarrow> u64 list \<Rightarrow> demo_world vbg" where
  "demo_proc me stale bs gate = \<lparr>pinfo = demo_info stale,
     vgrp = \<lparr>g_vbg_id = 7, g_my_index = me, g_manager = True, g_size = 1, g_intra_index = 0, g_curr_seq = 0\<rparr>,
     bg_counter = 0, poll_barrier_func = Some UTF_POLL_BARRIER, poll_reduce_func = None, intra_is_tofu = True,
     vmem = (\<lambda>b. if b = 0 then Some bs else None), shm_seq = (\<lambda>_. 0), shm_buf = (\<lambda>_. []), vworld = ((UTF_REDUCE_OP_BARRIER, []), gate)\<rparr>"

definition state_of :: "(vrc \<times> 'w vbg) outcome \<Rightarrow> 'w vbg" where
  "state_of m = (case m of Some (Inr (_, s)) \<Rightarrow> s | _ \<Rightarrow> undefined)"

lemma state_of_ret [simp]: "state_of (ret (rc, s)) = s"
  by (simp add: state_of_def ret_def)

definition demo_int :: "nat \<Rightarrow> demo_world vbg" where
  "demo_int p = (if p = 0 then demo_proc 0 [0x1122334455667788] [0xFB, 0xFF, 0xFF, 0xFF] [0x80000004AA998877]
     else demo_proc 1 [0] [3, 0, 0, 0] [0x80000004AA998877])"

definition demo_int' :: "nat \<Rightarrow> demo_world vbg" where
  "demo_int' p = state_of (utf_allreduce demo_gate None 1 (0, 0) UTF_DATATYPE_INT32_T UTF_REDUCE_OP_MIN (demo_int p))"

lemmas start_eval = utf_allreduce_def utf_bg_reduce_base_def Let_def datatype_div_def datatype_size_def div_defs datatype_defs
  UTF_DATATYPE_SIZE_def utf_bg_reduce_uint64_max_min_def vload_def UTF_BG_REDUCE_INFO_SET_def launch_uint64_def UTF_BG_ALGORITHM_def
  utf_bg_reduce_double_max_min_def set_idata_def set_ids_def upd_words_def demo_proc_def demo_info_def demo_gate_def

lemma put_hi_eval: "length bs \<le> 8 \<Longrightarrow> put_hi bs w = word_of_nat (le_nat bs * 2 ^ (64 - 8 * length bs) + unat w mod 2 ^ (64 - 8 * length bs))"
  using unat_put_hi [of bs w] by (metis word_of_unat)

lemma demo_gate_posts: "gate_posts demo_gate fst"
  by (simp add: gate_posts_def demo_gate_def)

lemma demo_int_start:
  "utf_allreduce demo_gate None 1 (0, 0) UTF_DATATYPE_INT32_T UTF_REDUCE_OP_MIN (demo_int 0) = ret (V_SUCCESS, demo_int' 0)"
  "utf_allreduce demo_gate None 1 (0, 0) UTF_DATATYPE_INT32_T UTF_REDUCE_OP_MIN (demo_int 1) = ret (V_SUCCESS, demo_int' 1)"
  by (simp_all add: start_eval demo_int_def demo_int'_def mod_pi_def)

lemma demo_int_words:
  "vworld (demo_int' 0) = ((UTF_REDUCE_OP_MAX, [0x80000004AA998877]), [0x80000004AA998877])"
  "vworld (demo_int' 1) = ((UTF_REDUCE_OP_MAX, [0x7FFFFFFCFFFFFFFF]), [0x80000004AA998877])"
  by (simp_all add: demo_int'_def start_eval demo_int_def mod_pi_def bytes_at_def elem_at_def int_encode_def put_hi_eval UTF_BG_REDUCE_MASK_HB_def)

definition demo_fp :: "nat \<Rightarrow> demo_world vbg" where
  "demo_fp p = (if p = 0 then demo_proc 0 [0x1122334455667788] [0, 0, 0x80, 0xC0] [0xC07FFFFF00000000]
     else if p = 1 then demo_proc 1 [0] [0, 0, 0x00, 0x40] [0xC07FFFFF00000000]
     else demo_proc 2 [5] [1, 0, 0xC0, 0x7F] [0xC07FFFFF00000000])"

definition demo_fp' :: "nat \<Rightarrow> demo_world vbg" where
  "demo_fp' p = state_of (utf_allreduce demo_gate None 1 (0, 0) UTF_DATATYPE_FLOAT UTF_REDUCE_OP_MAX (demo_fp p))"

lemma demo_fp_start:
  "utf_allreduce demo_gate None 1 (0, 0) UTF_DATATYPE_FLOAT UTF_REDUCE_OP_MAX (demo_fp 0) = ret (V_SUCCESS, demo_fp' 0)"
  "utf_allreduce demo_gate None 1 (0, 0) UTF_DATATYPE_FLOAT UTF_REDUCE_OP_MAX (demo_fp 1) = ret (V_SUCCESS, demo_fp' 1)"
  "utf_allreduce demo_gate None 1 (0, 0) UTF_DATATYPE_FLOAT UTF_REDUCE_OP_MAX (demo_fp 2) = ret (V_SUCCESS, demo_fp' 2)"
  by (simp_all add: start_eval demo_fp_def demo_fp'_def mod_pi_def)

lemmas fp_eval = fp_encode_def put_hi_eval UTF_BG_REDUCE_MASK_HB_def UTF_BG_REDUCE_MASK_MAX_def nan_mask_def UTF_BG_REDUCE_MASK_NAN_FP32_def

lemma demo_fp_words:
  "vworld (demo_fp' 0) = ((UTF_REDUCE_OP_MAX, [0x3FFFFFFEAA998877]), [0xC07FFFFF00000000])"
  "vworld (demo_fp' 1) = ((UTF_REDUCE_OP_MAX, [0xC07FFFFF00000000]), [0xC07FFFFF00000000])"
  "vworld (demo_fp' 2) = ((UTF_REDUCE_OP_MAX, [0x0040000000000005]), [0xC07FFFFF00000000])"
  by (simp_all add: demo_fp'_def start_eval demo_fp_def mod_pi_def bytes_at_def elem_at_def fp_eval)

lemma fp_key_le:
  assumes "0 < length e" "length e' = length e" "fp_key is_max e' \<le> fp_key is_max e" "\<not> fp_nan e'"
  shows "\<not> fp_nan e \<and> (if is_max then fp_order e' \<le> fp_order e else fp_order e \<le> fp_order e')"
  using assms fp_mag_lt [of e'] by (auto simp: fp_key_def fp_order_def split: if_splits)

text \<open>C8: a maximum or minimum of integers over the barrier gate. Every one of \<open>N\<close> processes
  starts the same all-reduce of \<open>count\<close> elements, with its own buffer and whatever an
  earlier collective left in its words, and the gate returns the maxima of the words it was
  given. Then the poll succeeds and element \<open>i\<close> of the result is element \<open>i\<close> of some
  process, at least (for the minimum: at most) as large as that of every process, in the
  order of the type, signed or unsigned.
\<close>

theorem allreduce_int_max_min:
  assumes dt: "dt \<in> int_types" and uop: "uop = UTF_REDUCE_OP_MAX \<or> uop = UTF_REDUCE_OP_MIN"
    and start: "\<And>p. p < N \<Longrightarrow> UTF_BG_ALGORITHM (st p)
      \<and> utf_allreduce (api p) (buf p) count (result p) dt uop (st p) = ret (V_SUCCESS, st' p)"
    and q: "q < N" and od: "count \<le> length (utf_bg_poll_odata (pinfo (st q)))"
    and mem: "vmem (st q) (fst (result q)) = Some m" "snd (result q) + count * datatype_size dt \<le> length m"
    and poll: "v_poll_reduce_uint64 (api q) (utf_bg_poll_ids (pinfo (st' q))) (vworld (st' q))
      = (V_SUCCESS, gate_result N (\<lambda>p. posted (vworld (st' p))), w)"
    and posts: "\<And>p. p < N \<Longrightarrow> gate_posts (api p) posted"
  shows "\<exists>s. utf_poll_reduce (api q) data (st' q) = ret (V_SUCCESS, if data then Some (result q) else None, s)
    \<and> (\<forall>i<count. \<exists>p<N. \<exists>e. vload (elem_addr (result q) (datatype_size dt) i) (datatype_size dt) s = ret e
        \<and> vload (elem_addr (send_addr (buf p) (result p)) (datatype_size dt) i) (datatype_size dt) (st p) = ret e
        \<and> (\<forall>p'<N. \<exists>e'. vload (elem_addr (send_addr (buf p') (result p')) (datatype_size dt) i) (datatype_size dt) (st p') = ret e'
            \<and> (if uop = UTF_REDUCE_OP_MAX then int_value (drop_bit 16 dt \<noteq> 0) e' \<le> int_value (drop_bit 16 dt \<noteq> 0) e
               else int_value (drop_bit 16 dt \<noteq> 0) e \<le> int_value (drop_bit 16 dt \<noteq> 0) e')))"
proof -
  let ?sz = "datatype_size dt" and ?min = "uop = UTF_REDUCE_OP_MIN" and ?sg = "drop_bit 16 dt \<noteq> 0"
  note ty = int_types_div [OF dt]
  have sz: "0 < ?sz" "?sz \<le> 8" using ty by auto
  have st: "\<exists>bs. vload (send_addr (buf p) (result p)) (count * ?sz) (st p) = ret bs
      \<and> count \<le> length (utf_bg_poll_idata (pinfo (st p)))
      \<and> gate_started (api p) Poll_uint64_max_min UTF_REDUCE_OP_MAX count (result p) (Reduce_op uop) count dt True
          (encoded count (\<lambda>i. int_encode ?min ?sg (elem_at bs ?sz i)) (st p)) (st p) (st' p)" if "p < N" for p
    using reduce_int_start [OF conjunct2 [OF start [OF that], unfolded utf_allreduce_def], unfolded is_minmax_def]
      start [OF that] uop ty by simp
  from st [OF q] have f: "poll_reduce_func (st' q) = Some Poll_uint64_max_min" "utf_bg_poll_op (pinfo (st' q)) = Reduce_op uop"
    "utf_bg_poll_count (pinfo (st' q)) = count" "utf_bg_poll_datatype (pinfo (st' q)) = dt" "utf_bg_poll_size (pinfo (st' q)) = ?sz"
    by (auto simp: gate_started_def)
  let ?body = "\<lambda>s. let sz = utf_bg_poll_size (pinfo s) in decode_loop (utf_bg_poll_count (pinfo s))
       (\<lambda>i w. int_decode (utf_bg_poll_op (pinfo s) = Reduce_op UTF_REDUCE_OP_MIN) (drop_bit 16 (utf_bg_poll_datatype (pinfo s)) \<noteq> 0) w)
       (\<lambda>i w. (i * sz, get_hi sz w)) s"
  have pe: "utf_poll_reduce (api q) data (st' q) = poll_then (v_poll_reduce_uint64 (api q)) (UTF_BG_SET_RESULT_COMMON data ?body) (st' q)"
    by (simp add: utf_poll_reduce_def f utf_poll_reduce_uint64_max_min_def UTF_BG_SET_RESULT_UINT64_MAX_MIN_def)
  show ?thesis unfolding pe
  proof (rule gate_max_result [where func = Poll_uint64_max_min and pop = "Reduce_op uop" and dt = dt and w = w and m = m
        and R = "\<lambda>e' e. if uop = UTF_REDUCE_OP_MAX then int_value ?sg e' \<le> int_value ?sg e else int_value ?sg e \<le> int_value ?sg e'"])
    show "max_code (int_encode ?min ?sg) (\<lambda>w. get_hi ?sz (int_decode ?min ?sg w)) (int_key ?min ?sg)
      (\<lambda>e. length e = ?sz \<and> 0 < ?sz \<and> ?sz \<le> 8)" by (rule int_code.max_code_axioms)
  qed (use st q od mem poll posts sz f uop in \<open>auto simp: Let_def same_call_def int_key_def\<close>)
qed

theorem allreduce_int_max_min_witness:
  "\<exists>s. utf_poll_reduce demo_gate True (demo_int' 1) = ret (V_SUCCESS, Some (0, 0), s)
    \<and> (\<exists>p<2. \<exists>e. vload (0, 0) 4 s = ret e \<and> vload (0, 0) 4 (demo_int p) = ret e
        \<and> (\<forall>p'<2. \<exists>e'. vload (0, 0) 4 (demo_int p') = ret e' \<and> int_value True e \<le> int_value True e'))"
proof -
  have m: "vmem (demo_int 1) (fst (0, 0)) = Some [3, 0, 0, 0]" by (simp add: demo_int_def demo_proc_def)
  have st: "UTF_BG_ALGORITHM (demo_int p) \<and>
      utf_allreduce demo_gate None 1 (0, 0) UTF_DATATYPE_INT32_T UTF_REDUCE_OP_MIN (demo_int p) = ret (V_SUCCESS, demo_int' p)"
    if "p < 2" for p
  proof -
    have "p = 0 \<or> p = 1" using that by linarith
    then show ?thesis using demo_int_start by (auto simp: UTF_BG_ALGORITHM_def demo_int_def demo_proc_def)
  qed
  have p: "v_poll_reduce_uint64 demo_gate (utf_bg_poll_ids (pinfo (demo_int' 1))) (vworld (demo_int' 1))
      = (V_SUCCESS, gate_result 2 (\<lambda>p. fst (vworld (demo_int' p))), vworld (demo_int' 1))"
    by (simp add: gate_result_def gate_op_def gate_word_23 demo_int_words [simplified One_nat_def] demo_gate_def)
  show ?thesis
    using allreduce_int_max_min [of UTF_DATATYPE_INT32_T UTF_REDUCE_OP_MIN 2 demo_int "\<lambda>_. demo_gate" "\<lambda>_. None" 1 "\<lambda>_. (0, 0)" demo_int' 1,
        OF _ _ st _ _ m _ p demo_gate_posts, of True]
    by (simp add: int_types_def datatype_size_def datatype_defs UTF_DATATYPE_SIZE_def demo_int_def demo_proc_def demo_info_def)
qed

text \<open>C5: a maximum or minimum of floating-point numbers over the barrier gate. The element of
  the result is an element of some process; if any process has a number and not a NaN, the
  result is a number, at least (at most) as large as those of all the processes that have
  one, in the order of IEEE 754 with \<open>-0\<close> below \<open>+0\<close>. It is a NaN only if all of them are.
\<close>

theorem allreduce_float_max_min:
  assumes dt: "dt \<in> real_types" and uop: "uop = UTF_REDUCE_OP_MAX \<or> uop = UTF_REDUCE_OP_MIN"
    and start: "\<And>p. p < N \<Longrightarrow> UTF_BG_ALGORITHM (st p)
      \<and> utf_allreduce (api p) (buf p) count (result p) dt uop (st p) = ret (V_SUCCESS, st' p)"
    and q: "q < N" and od: "count \<le> length (utf_bg_poll_odata (pinfo (st q)))"
    and mem: "vmem (st q) (fst (result q)) = Some m" "snd (result q) + count * datatype_size dt \<le> length m"
    and poll: "v_poll_reduce_uint64 (api q) (utf_bg_poll_ids (pinfo (st' q))) (vworld (st' q))
      = (V_SUCCESS, gate_result N (\<lambda>p. posted (vworld (st' p))), w)"
    and posts: "\<And>p. p < N \<Longrightarrow> gate_posts (api p) posted"
  shows "\<exists>s. utf_poll_reduce (api q) data (st' q) = ret (V_SUCCESS, if data then Some (result q) else None, s)
    \<and> (\<forall>i<count. \<exists>p<N. \<exists>e. vload (elem_addr (result q) (datatype_size dt) i) (datatype_size dt) s = ret e
        \<and> vload (elem_addr (send_addr (buf p) (result p)) (datatype_size dt) i) (datatype_size dt) (st p) = ret e
        \<and> (\<forall>p'<N. \<exists>e'. vload (elem_addr (send_addr (buf p') (result p')) (datatype_size dt) i) (datatype_size dt) (st p') = ret e'
            \<and> (\<not> fp_nan e' \<longrightarrow> \<not> fp_nan e \<and>
               (if uop = UTF_REDUCE_OP_MAX then fp_order e' \<le> fp_order e else fp_order e \<le> fp_order e'))))"
proof -
  let ?sz = "datatype_size dt" and ?max = "uop = UTF_REDUCE_OP_MAX"
  note ty = real_types_div [OF dt]
  have sz: "0 < ?sz" "?sz \<le> 8" using ty by auto
  have st: "\<exists>bs. vload (send_addr (buf p) (result p)) (count * ?sz) (st p) = ret bs
      \<and> count \<le> length (utf_bg_poll_idata (pinfo (st p)))
      \<and> gate_started (api p) Poll_double_max_min UTF_REDUCE_OP_MAX count (result p) (Reduce_op uop) count dt True
          (encoded count (\<lambda>i. fp_encode ?max ?sz (elem_at bs ?sz i)) (st p)) (st p) (st' p)" if "p < N" for p
    using reduce_fp_start [OF conjunct2 [OF start [OF that], unfolded utf_allreduce_def], unfolded is_minmax_def]
      start [OF that] uop ty by simp
  from st [OF q] have f: "poll_reduce_func (st' q) = Some Poll_double_max_min" "utf_bg_poll_op (pinfo (st' q)) = Reduce_op uop"
    "utf_bg_poll_count (pinfo (st' q)) = count" "utf_bg_poll_datatype (pinfo (st' q)) = dt" "utf_bg_poll_size (pinfo (st' q)) = ?sz"
    by (auto simp: gate_started_def)
  let ?body = "\<lambda>s. let sz = utf_bg_poll_size (pinfo s) in decode_loop (utf_bg_poll_count (pinfo s))
       (\<lambda>i w. fp_decode (utf_bg_poll_op (pinfo s) = Reduce_op UTF_REDUCE_OP_MAX) sz w) (\<lambda>i w. (i * sz, get_hi sz w)) s"
  have pe: "utf_poll_reduce (api q) data (st' q) = poll_then (v_poll_reduce_uint64 (api q)) (UTF_BG_SET_RESULT_COMMON data ?body) (st' q)"
    by (simp add: utf_poll_reduce_def f utf_poll_reduce_double_max_min_def UTF_BG_SET_RESULT_DOUBLE_MAX_MIN_def)
  show ?thesis unfolding pe
  proof (rule gate_max_result [where func = Poll_double_max_min and pop = "Reduce_op uop" and dt = dt and w = w and m = m
        and R = "\<lambda>e' e. \<not> fp_nan e' \<longrightarrow> \<not> fp_nan e \<and> (if ?max then fp_order e' \<le> fp_order e else fp_order e \<le> fp_order e')"])
    show "max_code (fp_encode ?max ?sz) (\<lambda>w. get_hi ?sz (fp_decode ?max ?sz w)) (fp_key ?max)
      (\<lambda>e. length e = ?sz \<and> ?sz \<in> {2, 4, 8})" by (rule fp_code.max_code_axioms)
    show "\<not> fp_nan e' \<longrightarrow> \<not> fp_nan e \<and> (if ?max then fp_order e' \<le> fp_order e else fp_order e \<le> fp_order e')"
      if "length e = ?sz" "length e' = ?sz" "fp_key ?max e' \<le> fp_key ?max e" for e e'
      using fp_key_le [of e e' ?max] that sz(1) by auto
  qed (use st q od mem poll posts sz f ty in \<open>auto simp: Let_def same_call_def\<close>)
qed

theorem allreduce_float_max_min_witness:
  "\<exists>s. utf_poll_reduce demo_gate False (demo_fp' 0) = ret (V_SUCCESS, None, s)
    \<and> (\<exists>p<3. \<exists>e. vload (0, 0) 4 s = ret e \<and> vload (0, 0) 4 (demo_fp p) = ret e
        \<and> (\<forall>p'<3. \<exists>e'. vload (0, 0) 4 (demo_fp p') = ret e' \<and> (\<not> fp_nan e' \<longrightarrow> \<not> fp_nan e \<and> fp_order e' \<le> fp_order e)))"
proof -
  have m: "vmem (demo_fp 0) (fst (0, 0)) = Some [0, 0, 0x80, 0xC0]" by (simp add: demo_fp_def demo_proc_def)
  have st: "UTF_BG_ALGORITHM (demo_fp p) \<and>
      utf_allreduce demo_gate None 1 (0, 0) UTF_DATATYPE_FLOAT UTF_REDUCE_OP_MAX (demo_fp p) = ret (V_SUCCESS, demo_fp' p)"
    if "p < 3" for p
  proof -
    have "p = 0 \<or> p = 1 \<or> p = 2" using that by linarith
    then show ?thesis using demo_fp_start by (auto simp: UTF_BG_ALGORITHM_def demo_fp_def demo_proc_def)
  qed
  have p: "v_poll_reduce_uint64 demo_gate (utf_bg_poll_ids (pinfo (demo_fp' 0))) (vworld (demo_fp' 0))
      = (V_SUCCESS, gate_result 3 (\<lambda>p. fst (vworld (demo_fp' p))), vworld (demo_fp' 0))"
    by (simp add: gate_result_def gate_op_def gate_word_23 demo_fp_words [simplified One_nat_def] demo_gate_def)
  show ?thesis
    using allreduce_float_max_min [of UTF_DATATYPE_FLOAT UTF_REDUCE_OP_MAX 3 demo_fp "\<lambda>_. demo_gate" "\<lambda>_. None" 1 "\<lambda>_. (0, 0)" demo_fp' 0,
        OF _ _ st _ _ m _ p demo_gate_posts, of False]
    by (simp add: real_types_def datatype_size_def datatype_defs UTF_DATATYPE_SIZE_def demo_fp_def demo_proc_def demo_info_def)
qed

end
