(* ===== verification/Vbg_Logical.thy ===== *)
theory Vbg_Logical
  imports Vbg_Reduce_Props
begin

text \<open>
  The logical operations: \<open>utf_bg_reduce_logical\<close> packs one bit for an element into the
  words, the barrier gate combines the words bitwise, and \<open>UTF_BG_SET_RESULT_LOGICAL\<close>
  unpacks them. The lemmas place the bit of every element; the property compares the whole
  with the operation on the elements.
\<close>

unbundle bit_operations_syntax

section \<open>Where the bit of an element is\<close>

text \<open>Of \<open>c\<close> elements, element \<open>i\<close> is in word \<open>i div 64\<close>; the last word holds its elements in its lower bits.\<close>

definition bit_pos :: "nat \<Rightarrow> nat \<Rightarrow> nat" where
  "bit_pos c i = (if i div 64 = (c - 1) div 64 then c - 1 - i else 63 - i mod 64)"

definition nonzero :: "u8 list \<Rightarrow> bool" where
  "nonzero e \<longleftrightarrow> \<not> list_all (\<lambda>b. b = 0) e"

lemma bit_and_notLB: "bit (w AND NOT UTF_BG_REDUCE_MASK_LB) k \<longleftrightarrow> bit w k \<and> k \<noteq> 0" for w :: u64
  by (auto simp: UTF_BG_REDUCE_MASK_LB_def bit_and_iff bit_not_iff bit_1_iff dest: bit_imp_le_length)

lemma bit_or_LB: "bit (w OR UTF_BG_REDUCE_MASK_LB) k \<longleftrightarrow> bit w k \<or> k = 0" for w :: u64
  by (auto simp: UTF_BG_REDUCE_MASK_LB_def bit_or_iff bit_1_iff)

lemma bit_pos_same:
  assumes "k < Suc i" "k div 64 = Suc i div 64"
  shows "bit_pos (Suc (Suc i)) k = Suc i - k" "bit_pos (Suc i) k = i - k" "Suc i - k < 64"
proof -
  have "k div 64 = i div 64" using assms div_le_mono [of k i 64] div_le_mono [of i "Suc i" 64] by simp
  then show "bit_pos (Suc (Suc i)) k = Suc i - k" "bit_pos (Suc i) k = i - k" using assms by (simp_all add: bit_pos_def)
  have "64 * (k div 64) \<le> k" "Suc i < 64 * (Suc i div 64) + 64"
    using div_mult_mod_eq [of "Suc i" 64] mod_less_divisor [of 64 "Suc i"] by linarith+
  then show "Suc i - k < 64" using assms(2) by linarith
qed

lemma bit_pos_next:
  assumes "k < Suc i" "k div 64 \<noteq> Suc i div 64"
  shows "bit_pos (Suc (Suc i)) k = bit_pos (Suc i) k"
proof (cases "k div 64 = i div 64")
  case True
  then have "Suc i mod 64 = 0" using assms(2) by (simp add: div_Suc split: if_splits)
  then have "i mod 64 = 63" by (simp add: mod_Suc split: if_splits)
  then have "i - k = 63 - k mod 64"
    using True div_mult_mod_eq [of i 64] div_mult_mod_eq [of k 64] assms(1) by linarith
  then show ?thesis using True assms by (simp add: bit_pos_def)
qed (use assms in \<open>simp add: bit_pos_def\<close>)

text \<open>The loop: the elements before number \<open>i\<close> are placed, those of the current word one position up.\<close>

lemma logical_pack_bits:
  assumes "es \<noteq> []" and "j = i div 64" and "(i + length es - 1) div 64 < length ws"
    and "\<And>k. k < i \<Longrightarrow> bit (ws ! (k div 64)) (bit_pos (Suc i) k) = v k"
    and "\<And>k. k < length es \<Longrightarrow> v (i + k) = nonzero (es ! k)"
  shows "\<exists>ws'. logical_pack es i j ws = ret ws' \<and> length ws' = length ws
    \<and> (\<forall>k < i + length es. bit (ws' ! (k div 64)) (bit_pos (i + length es) k) = v k)"
  using assms
proof (induction es arbitrary: i j ws)
  case (Cons e es)
  define ws1 where "ws1 = ws[j := if list_all (\<lambda>b. b = 0) e then ws ! j AND NOT UTF_BG_REDUCE_MASK_LB else ws ! j OR UTF_BG_REDUCE_MASK_LB]"
  define j1 where "j1 = (if (i + 1) mod 64 = 0 \<and> i \<noteq> 0 then j + 1 else j)"
  have j: "j < length ws" using Cons.prems(2,3) by (auto intro: le_less_trans [OF div_le_mono])
  have b1: "bit (ws1 ! (k div 64)) (bit_pos (Suc i) k) = v k" if "k < Suc i" for k
  proof (cases "k = i")
    case True
    have "bit (ws1 ! j) 0 = nonzero e" using j by (auto simp: ws1_def nonzero_def bit_and_notLB bit_or_LB)
    then show ?thesis using True Cons.prems(2) Cons.prems(5) [of 0] by (simp add: bit_pos_def)
  next
    case False
    then have k: "k < i" using that by simp
    then have "bit_pos (Suc i) k \<noteq> 0" if "k div 64 = i div 64" using that by (simp add: bit_pos_def)
    then show ?thesis using Cons.prems(2) Cons.prems(4) [OF k] j
      by (cases "k div 64 = j") (auto simp: ws1_def bit_and_notLB bit_or_LB)
  qed
  have l1: "length ws1 = length ws" by (simp add: ws1_def)
  show ?case
  proof (cases "es = []")
    case True
    then show ?thesis using j b1 l1 by (auto simp: Let_def ws1_def)
  next
    case False
    define ws2 where "ws2 = ws1[j1 := push_bit 1 (ws1 ! j1)]"
    have m: "(i + 1) mod 64 = 0 \<Longrightarrow> i \<noteq> 0" by (cases "i = 0") simp_all
    have j1: "j1 = Suc i div 64" using Cons.prems(2) m by (auto simp: j1_def div_Suc)
    have "Suc i \<le> i + length (e # es) - 1" using False by (cases es) auto
    then have "Suc i div 64 \<le> (i + length (e # es) - 1) div 64" by (rule div_le_mono)
    then have lt: "j1 < length ws" using Cons.prems(3) j1 by linarith
    have b2: "bit (ws2 ! (k div 64)) (bit_pos (Suc (Suc i)) k) = v k" if k: "k < Suc i" for k
    proof (cases "k div 64 = j1")
      case True
      note pos = bit_pos_same [OF k True [unfolded j1]]
      have "bit (push_bit 1 (ws1 ! j1)) (Suc i - k) = bit (ws1 ! j1) (i - k)"
        unfolding bit_push_bit_iff using k pos(3) by (simp add: Suc_diff_le less_Suc_eq_le)
      then show ?thesis using b1 [OF k] True lt l1 by (simp add: ws2_def pos)
    next
      case False
      then show ?thesis using b1 [OF k] bit_pos_next [OF k] j1 by (simp add: ws2_def)
    qed
    have "\<exists>ws'. logical_pack es (Suc i) j1 ws2 = ret ws' \<and> length ws' = length ws2
      \<and> (\<forall>k < Suc i + length es. bit (ws' ! (k div 64)) (bit_pos (Suc i + length es) k) = v k)"
    proof (rule Cons.IH [OF False j1])
      show "v (Suc i + k) = nonzero (es ! k)" if "k < length es" for k
        using Cons.prems(5) [of "Suc k"] that by simp
    qed (use Cons.prems(3) b2 l1 in \<open>simp_all add: ws2_def\<close>)
    moreover have "logical_pack (e # es) i j ws = logical_pack es (Suc i) j1 ws2"
      using False j lt l1 by (auto simp: Let_def ws2_def j1_def simp flip: ws1_def)
    ultimately show ?thesis using l1 by (simp add: ws2_def)
  qed
qed simp

section \<open>Unpacking\<close>

lemma length_unpack_bits [simp]: "length (unpack_bits n w) = n"
  by (induction n) simp_all

lemma nth_unpack_bits: "k < n \<Longrightarrow> unpack_bits n w ! k = bit w (n - 1 - k)"
proof (induction n arbitrary: k)
  case (Suc n)
  have "(drop_bit n w AND UTF_BG_REDUCE_MASK_LB \<noteq> 0) = bit w n"
    by (simp add: UTF_BG_REDUCE_MASK_LB_def and_one_eq bit_iff_odd_drop_bit odd_iff_mod_2_eq_one)
  with Suc show ?case by (cases k) simp_all
qed simp

lemma logical_unpack_bits:
  assumes "c \<le> 64 * length ws"
  shows "length (fst (logical_unpack c ws)) = c \<and> snd (logical_unpack c ws) = 0
    \<and> (\<forall>i<c. fst (logical_unpack c ws) ! i = bit (ws ! (i div 64)) (bit_pos c i))"
  using assms
proof (induction ws arbitrary: c)
  case (Cons w ws)
  let ?b = "if 64 \<ge> c then c else 64"
  have le: "c - ?b \<le> 64 * length ws" using Cons.prems by auto
  note IH = Cons.IH [OF le]
  have e: "logical_unpack c (w # ws) = (unpack_bits ?b w @ fst (logical_unpack (c - ?b) ws), snd (logical_unpack (c - ?b) ws))"
    by (simp add: Let_def split: prod.split)
  have "fst (logical_unpack c (w # ws)) ! i = bit ((w # ws) ! (i div 64)) (bit_pos c i)" if c: "i < c" for i
  proof (cases "i < ?b")
    case True
    then have "i div 64 = 0" by (auto split: if_splits)
    moreover have "?b - 1 - i = bit_pos c i"
    proof (cases "c \<le> 64")
      case False
      then have "64 div 64 \<le> (c - 1) div 64" by (intro div_le_mono) simp
      then show ?thesis using False True by (simp add: bit_pos_def)
    qed (use c in \<open>simp add: bit_pos_def\<close>)
    ultimately show ?thesis unfolding e using True by (simp add: nth_append nth_unpack_bits split: if_splits)
  next
    case False
    then have i: "64 \<le> i" "\<not> c \<le> 64" using c by (auto split: if_splits)
    then have d: "i div 64 = Suc ((i - 64) div 64)" "(c - 1) div 64 = Suc ((c - 64 - 1) div 64)" "(i - 64) mod 64 = i mod 64"
      using c by (simp_all add: le_div_geq le_mod_geq)
    then have "bit_pos (c - 64) (i - 64) = bit_pos c i" using i c by (simp add: bit_pos_def)
    then show ?thesis unfolding e using i c IH d(1) by (simp add: nth_append)
  qed
  with IH show ?case unfolding e by auto
qed simp

section \<open>The operation on the words\<close>

text \<open>The logical operation on the elements of \<open>N\<close> processes.\<close>

definition logic_result :: "reduce_op \<Rightarrow> nat \<Rightarrow> (nat \<Rightarrow> bool) \<Rightarrow> bool" where
  "logic_result uop N b = (case uop of UTF_REDUCE_OP_LAND \<Rightarrow> (\<forall>p<N. b p) | UTF_REDUCE_OP_LOR \<Rightarrow> (\<exists>p<N. b p)
     | _ \<Rightarrow> odd (card {p. p < N \<and> b p}))"

definition is_logical :: "reduce_op \<Rightarrow> bool" where
  "is_logical uop \<longleftrightarrow> uop = UTF_REDUCE_OP_LAND \<or> uop = UTF_REDUCE_OP_LOR \<or> uop = UTF_REDUCE_OP_LXOR"

lemma logic_result_Suc:
  assumes "0 < N" "is_logical uop"
  shows "logic_result uop (Suc N) b = (case uop of UTF_REDUCE_OP_LAND \<Rightarrow> logic_result uop N b \<and> b N
    | UTF_REDUCE_OP_LOR \<Rightarrow> logic_result uop N b \<or> b N | _ \<Rightarrow> logic_result uop N b \<noteq> b N)"
proof -
  have "{p. p < Suc N \<and> b p} = (if b N then insert N {p. p < N \<and> b p} else {p. p < N \<and> b p})" by (auto simp: less_Suc_eq)
  then have "card {p. p < Suc N \<and> b p} = card {p. p < N \<and> b p} + of_bool (b N)" by simp
  then show ?thesis using assms by (auto simp: logic_result_def is_logical_def less_Suc_eq)
qed

lemma logic_result_cong:
  assumes "\<And>p. p < N \<Longrightarrow> b p = b' p"
  shows "logic_result uop N b = logic_result uop N b'"
proof -
  have "{p. p < N \<and> b p} = {p. p < N \<and> b' p}" using assms by auto
  then show ?thesis using assms by (auto simp: logic_result_def split: reduce_op.split)
qed

lemma logic_result_1:
  assumes "is_logical uop"
  shows "logic_result uop (Suc 0) b = b 0"
proof -
  have "card {p. p < Suc 0 \<and> b p} = of_bool (b 0)"
  proof (cases "b 0")
    case True
    then have "{p. p < Suc 0 \<and> b p} = {0}" by auto
    then show ?thesis using True by simp
  next
    case False
    then have "{p. p < Suc 0 \<and> b p} = {}" by (auto simp: less_Suc_eq)
    then show ?thesis using False by simp
  qed
  moreover have "(\<forall>p<Suc 0. b p) = b 0" "(\<exists>p<Suc 0. b p) = b 0" by (simp_all add: less_Suc_eq)
  ultimately show ?thesis using assms unfolding logic_result_def is_logical_def by (elim disjE) (simp_all only: reduce_op.case odd_of_bool_self)
qed

lemma bit_gate_word:
  assumes "0 < N" "is_logical uop"
  shows "bit (gate_word (gate_op (utf_reduce_op_type uop)) N ws) k = logic_result uop N (\<lambda>p. bit (ws p) k)"
  using assms
proof (induction N)
  case (Suc N)
  note prems = Suc.prems and IH = Suc.IH
  show ?case
  proof (cases N)
    case 0
    then show ?thesis using logic_result_1 [OF prems(2)] by simp
  next
    case (Suc m)
    then have "bit (gate_word (gate_op (utf_reduce_op_type uop)) N ws) k = logic_result uop N (\<lambda>p. bit (ws p) k)"
      using IH prems by simp
    then show ?thesis using Suc prems logic_result_Suc [of N uop "\<lambda>p. bit (ws p) k"]
      by (auto simp: is_logical_def gate_op_def utf_reduce_op_type_def bit_and_iff bit_or_iff bit_xor_iff)
  qed
qed simp

section \<open>The whole operation\<close>

lemma reduce_logical_start:
  assumes "utf_bg_reduce_base api buf count result dt uop root s = ret (V_SUCCESS, s')"
    and "UTF_BG_ALGORITHM s" "datatype_div dt = UTF_DATATYPE_DIV_INT" "is_logical uop" "6 \<le> length (utf_bg_poll_idata (pinfo s))"
  shows "\<exists>bs ws. vload (send_addr buf result) (count * datatype_size dt) s = ret bs \<and> 0 < count \<and> count \<le> 384
    \<and> (\<forall>i<count. bit (ws ! (i div 64)) (bit_pos count i) = nonzero (elem_at bs (datatype_size dt) i))
    \<and> gate_started api Poll_logical (utf_reduce_op_type uop) ((count + 63) div 64) result (Reduce_op uop) count dt root ws s s'
    \<and> utf_bg_poll_numcount (pinfo s') = (count + 63) div 64 \<and> (count + 63) div 64 \<le> length ws"
proof -
  have "count \<le> 384" and r: "utf_bg_reduce_logical api (send_addr buf result) count (datatype_size dt) uop
      (UTF_BG_REDUCE_INFO_SET result (Reduce_op uop) count dt root s) = ret (V_SUCCESS, s')"
    using assms(1,3,4) by (auto simp: utf_bg_reduce_base_def Let_def div_defs is_logical_def split: if_splits)
  let ?n = "(count + 63) div 64"
  let ?s1 = "mod_pi (\<lambda>p. p\<lparr>utf_bg_poll_numcount := ?n\<rparr>) (UTF_BG_REDUCE_INFO_SET result (Reduce_op uop) count dt root s)"
  have p: "utf_bg_poll_idata (pinfo ?s1) = utf_bg_poll_idata (pinfo s)" "vload a k ?s1 = vload a k s" for a k
    by (simp_all add: UTF_BG_REDUCE_INFO_SET_def)
  from r obtain bs ws where bs: "vload (send_addr buf result) (count * datatype_size dt) s = ret bs"
    and pk: "logical_pack (map (elem_at bs (datatype_size dt)) [0..<count]) 0 0 (utf_bg_poll_idata (pinfo s)) = ret ws"
    and l: "launch_uint64 api Poll_logical (utf_reduce_op_type uop) ?n (set_idata ws ?s1) = ret (V_SUCCESS, s')"
    unfolding utf_bg_reduce_logical_def Let_def p by (auto simp: bindO_eq_ret split: if_splits)
  have c: "0 < count" using pk by (cases count) auto
  have "\<exists>ws'. logical_pack (map (elem_at bs (datatype_size dt)) [0..<count]) 0 0 (utf_bg_poll_idata (pinfo s)) = ret ws'
    \<and> length ws' = length (utf_bg_poll_idata (pinfo s))
    \<and> (\<forall>k < 0 + length (map (elem_at bs (datatype_size dt)) [0..<count]). bit (ws' ! (k div 64))
        (bit_pos (0 + length (map (elem_at bs (datatype_size dt)) [0..<count])) k) = nonzero (elem_at bs (datatype_size dt) k))"
  proof (rule logical_pack_bits)
    have "(count - 1) div 64 \<le> 383 div 64" using \<open>count \<le> 384\<close> by (intro div_le_mono) simp
    then show "(0 + length (map (elem_at bs (datatype_size dt)) [0..<count]) - 1) div 64 < length (utf_bg_poll_idata (pinfo s))"
      using assms(5) by simp
  qed (use c in auto)
  then have "\<forall>i<count. bit (ws ! (i div 64)) (bit_pos count i) = nonzero (elem_at bs (datatype_size dt) i)"
    and "length ws = length (utf_bg_poll_idata (pinfo s))"
    using pk by simp_all
  moreover have "?n \<le> (384 + 63) div 64" using \<open>count \<le> 384\<close> by (intro div_le_mono) simp
  moreover have "gate_started api Poll_logical (utf_reduce_op_type uop) ((count + 63) div 64) result (Reduce_op uop) count dt root ws s s' \<and> utf_bg_poll_numcount (pinfo s') = ?n"
    using l assms(2) by (auto simp: launch_uint64_def set_ids_def set_idata_def UTF_BG_REDUCE_INFO_SET_def gate_started_def
        mod_pi_def UTF_BG_ALGORITHM_def split: prod.splits if_splits)
  ultimately show ?thesis using bs c \<open>count \<le> 384\<close> assms(5) by (intro exI [of _ bs] exI [of _ ws]) simp
qed

lemma poll_logical:
  assumes st: "gate_started api Poll_logical gop n result pop count dt True ws0 s s'" and nc: "utf_bg_poll_numcount (pinfo s') = (count + 63) div 64"
    and poll: "v_poll_reduce_uint64 api (utf_bg_poll_ids (pinfo s')) (vworld s') = (V_SUCCESS, ws, w)" and len: "length ws = (count + 63) div 64"
    and mem: "vmem s (fst result) = Some m" "snd result + count * sz \<le> length m"
    and sz: "datatype_size dt = sz" "sz \<in> {1, 2, 4, 8}"
  shows "\<exists>s''. utf_poll_reduce api data s' = ret (V_SUCCESS, if data then Some result else None, s'')
    \<and> (\<forall>i<count. vload (elem_addr result sz i) sz s'' = ret (le_bytes sz (of_bool (bit (ws ! (i div 64)) (bit_pos count i)))))"
proof -
  have sz0: "0 < sz" using sz by auto
  have "count \<le> 64 * length ws" using len by linarith
  then obtain b where u: "logical_unpack count ws = (b, 0)" and un: "length b = count"
    "\<And>i. i < count \<Longrightarrow> b ! i = bit (ws ! (i div 64)) (bit_pos count i)"
    using logical_unpack_bits [of count ws] by (cases "logical_unpack count ws") auto
  let ?t = "mod_pi (\<lambda>q. q\<lparr>utf_bg_poll_count := 0\<rparr>) (put_odata ws (s'\<lparr>vworld := w\<rparr>))"
  let ?s = "?t\<lparr>vmem := (vmem ?t)(fst result \<mapsto> overwrite m (snd result) (concat (map (\<lambda>j. logical_elem sz (b ! j)) [0..<count])))\<rparr>"
  have le: "length (logical_elem sz b) = sz" "logical_elem sz b = le_bytes sz (of_bool b)" for b using sz by (auto simp: logical_elem_def)
  have vs: "vstores result (map (\<lambda>j. (j * sz, logical_elem sz (b ! j))) [0..<count]) ?t = ret ?s"
    using st mem le by (intro vstores_contig) (auto simp: gate_started_def put_odata_def)
  have "utf_poll_reduce api data s' = ret (V_SUCCESS, if data then Some result else None, ?s)"
    using st nc vs un sz(1) len
    by (simp add: u utf_poll_reduce_def gate_started_def utf_poll_reduce_logical_def poll_then_def poll put_odata_def
        UTF_BG_SET_RESULT_LOGICAL_def UTF_BG_SET_RESULT_COMMON_def Let_def)
  moreover have "vload (elem_addr result sz i) sz ?s = ret (le_bytes sz (of_bool (bit (ws ! (i div 64)) (bit_pos count i))))" if i: "i < count" for i
  proof -
    let ?bs = "concat (map (\<lambda>j. logical_elem sz (b ! j)) [0..<count])"
    have l: "length ?bs = count * sz" by (intro concat_len) (simp add: le)
    have "Suc i * sz \<le> count * sz" using i by (intro mult_le_mono1) simp
    then have b: "i * sz + sz \<le> count * sz" by simp
    have "bytes_at (overwrite m (snd result) ?bs) (snd result + i * sz) sz = bytes_at ?bs (i * sz) sz"
      using b l mem(2) by (simp add: overwrite_def bytes_at_def)
    also have "\<dots> = logical_elem sz (b ! i)" using i le by (intro concat_elem) auto
    finally show ?thesis using un i b l mem(2) sz0 by (simp add: vload_def le(2))
  qed
  ultimately show ?thesis by blast
qed

definition demo_log :: "nat \<Rightarrow> demo_world vbg" where
  "demo_log p = (if p = 0 then demo_proc 0 [5, 0, 0, 0, 0, 0] [5, 0] [9] else demo_proc 1 [0, 0, 0, 0, 0, 0] [1, 1] [9])"

definition demo_log' :: "nat \<Rightarrow> demo_world vbg" where
  "demo_log' p = state_of (utf_allreduce demo_gate None 2 (0, 0) UTF_DATATYPE_UINT8_T UTF_REDUCE_OP_LXOR (demo_log p))"

lemmas log_eval = utf_bg_reduce_logical_def bytes_at_def elem_at_def utf_reduce_op_type_def UTF_BG_REDUCE_MASK_LB_def

lemma demo_log_start:
  "utf_allreduce demo_gate None 2 (0, 0) UTF_DATATYPE_UINT8_T UTF_REDUCE_OP_LXOR (demo_log 0) = ret (V_SUCCESS, demo_log' 0)"
  "utf_allreduce demo_gate None 2 (0, 0) UTF_DATATYPE_UINT8_T UTF_REDUCE_OP_LXOR (demo_log 1) = ret (V_SUCCESS, demo_log' 1)"
  by (simp_all add: start_eval log_eval demo_log_def demo_log'_def mod_pi_def upt_rec)

lemma demo_log_words:
  "vworld (demo_log' 0) = ((UTF_REDUCE_OP_BXOR, [10]), [9])" "vworld (demo_log' 1) = ((UTF_REDUCE_OP_BXOR, [3]), [9])"
  by (simp_all add: start_eval log_eval demo_log_def demo_log'_def mod_pi_def upt_rec)

text \<open>C4: the packed logical operations equal the operation on the elements. \<open>N\<close> processes start
  a logical AND, OR or exclusive OR on up to 384 integers each; the gate combines the posted
  words. Then element \<open>i\<close> of the result is 1 if all, some, or an odd number of the processes
  have an element \<open>i\<close> different from 0, and 0 otherwise, whatever the words held before.
\<close>

theorem allreduce_logical_correct:
  assumes dt: "dt \<in> int_types" and uop: "uop = UTF_REDUCE_OP_LAND \<or> uop = UTF_REDUCE_OP_LOR \<or> uop = UTF_REDUCE_OP_LXOR"
    and start: "\<And>p. p < N \<Longrightarrow> UTF_BG_ALGORITHM (st p) \<and> 6 \<le> length (utf_bg_poll_idata (pinfo (st p)))
      \<and> utf_allreduce (api p) (buf p) count (result p) dt uop (st p) = ret (V_SUCCESS, st' p)"
    and q: "q < N" and mem: "vmem (st q) (fst (result q)) = Some m" "snd (result q) + count * datatype_size dt \<le> length m"
    and poll: "v_poll_reduce_uint64 (api q) (utf_bg_poll_ids (pinfo (st' q))) (vworld (st' q))
      = (V_SUCCESS, gate_result N (\<lambda>p. posted (vworld (st' p))), w)"
    and posts: "\<And>p. p < N \<Longrightarrow> gate_posts (api p) posted"
  shows "\<exists>s. utf_poll_reduce (api q) data (st' q) = ret (V_SUCCESS, if data then Some (result q) else None, s)
    \<and> (\<forall>i<count. \<exists>e. (\<forall>p<N. vload (elem_addr (send_addr (buf p) (result p)) (datatype_size dt) i) (datatype_size dt) (st p) = ret (e p))
        \<and> vload (elem_addr (result q) (datatype_size dt) i) (datatype_size dt) s
            = ret (le_bytes (datatype_size dt) (of_bool (logic_result uop N (\<lambda>p. nonzero (e p))))))"
proof -
  let ?sz = "datatype_size dt" and ?n = "(count + 63) div 64" and ?gop = "utf_reduce_op_type uop"
  note ty = int_types_div [OF dt]
  have sz: "0 < ?sz" using ty by auto
  have log: "is_logical uop" using uop by (simp add: is_logical_def)
  let ?P = "\<lambda>p bs ws. vload (send_addr (buf p) (result p)) (count * ?sz) (st p) = ret bs \<and> 0 < count \<and> count \<le> 384
    \<and> (\<forall>i<count. bit (ws ! (i div 64)) (bit_pos count i) = nonzero (elem_at bs ?sz i))
    \<and> gate_started (api p) Poll_logical ?gop ?n (result p) (Reduce_op uop) count dt True ws (st p) (st' p)
    \<and> utf_bg_poll_numcount (pinfo (st' p)) = ?n \<and> ?n \<le> length ws"
  have "\<exists>bs ws. ?P p bs ws" if "p < N" for p
    using reduce_logical_start [OF conjunct2 [OF conjunct2 [OF start [OF that]], unfolded utf_allreduce_def]] start [OF that] log ty by simp
  then have "\<forall>p. \<exists>bw. p < N \<longrightarrow> ?P p (fst bw) (snd bw)" by (metis fst_conv snd_conv)
  then obtain bw where bw: "\<And>p. p < N \<Longrightarrow> ?P p (fst (bw p)) (snd (bw p))"
    using choice [of "\<lambda>p bw. p < N \<longrightarrow> ?P p (fst bw) (snd bw)"] by blast
  let ?W = "\<lambda>p. snd (bw p)" and ?e = "\<lambda>i p. elem_at (fst (bw p)) ?sz i" and ?G = "gate_result N (\<lambda>p. posted (vworld (st' p)))"
  have po: "posted (vworld (st' p)) = (?gop, take ?n (?W p))" if "p < N" for p
    using bw [OF that] posts [OF that] by (intro posted_started) blast+
  have N: "0 < N" using q by simp
  have gr: "length ?G = ?n" "\<And>j. j < ?n \<Longrightarrow> ?G ! j = gate_word (gate_op ?gop) N (\<lambda>p. ?W p ! j)"
    using gate_result_started [where words = ?W and posts = "\<lambda>p. posted (vworld (st' p))"] po N bw [OF N] by simp_all
  obtain s where s: "utf_poll_reduce (api q) data (st' q) = ret (V_SUCCESS, if data then Some (result q) else None, s)"
    "\<And>i. i < count \<Longrightarrow> vload (elem_addr (result q) ?sz i) ?sz s = ret (le_bytes ?sz (of_bool (bit (?G ! (i div 64)) (bit_pos count i))))"
    using poll_logical [where data = data, OF _ _ poll gr(1) mem refl] bw [OF q] ty by blast
  have "\<exists>e. (\<forall>p<N. vload (elem_addr (send_addr (buf p) (result p)) ?sz i) ?sz (st p) = ret (e p))
        \<and> vload (elem_addr (result q) ?sz i) ?sz s = ret (le_bytes ?sz (of_bool (logic_result uop N (\<lambda>p. nonzero (e p)))))" if i: "i < count" for i
  proof (intro exI conjI allI impI)
    show "vload (elem_addr (send_addr (buf p) (result p)) ?sz i) ?sz (st p) = ret (?e i p)" if "p < N" for p
      using bw [OF that] i sz by (intro vload_sub) blast+
    have "i div 64 \<le> (count - 1) div 64" using i by (intro div_le_mono) simp
    also have "\<dots> < ?n" using i by simp
    finally have "bit (?G ! (i div 64)) (bit_pos count i) = logic_result uop N (\<lambda>p. bit (?W p ! (i div 64)) (bit_pos count i))"
      using gr(2) bit_gate_word [OF N log] by simp
    also have "\<dots> = logic_result uop N (\<lambda>p. nonzero (?e i p))" using bw i by (intro logic_result_cong) blast
    finally show "vload (elem_addr (result q) ?sz i) ?sz s = ret (le_bytes ?sz (of_bool (logic_result uop N (\<lambda>p. nonzero (?e i p)))))"
      using s(2) [OF i] by simp
  qed
  with s(1) show ?thesis by blast
qed

theorem allreduce_logical_correct_witness:
  "\<exists>s. utf_poll_reduce demo_gate True (demo_log' 0) = ret (V_SUCCESS, Some (0, 0), s)
    \<and> (\<forall>i<2. \<exists>e. (\<forall>p<2. vload (0, i) 1 (demo_log p) = ret (e p))
        \<and> vload (0, i) 1 s = ret (le_bytes 1 (of_bool (logic_result UTF_REDUCE_OP_LXOR 2 (\<lambda>p. nonzero (e p))))))"
proof -
  have m: "vmem (demo_log 0) (fst (0, 0)) = Some [5, 0]" by (simp add: demo_log_def demo_proc_def)
  have st: "UTF_BG_ALGORITHM (demo_log p) \<and> 6 \<le> length (utf_bg_poll_idata (pinfo (demo_log p))) \<and>
      utf_allreduce demo_gate None 2 (0, 0) UTF_DATATYPE_UINT8_T UTF_REDUCE_OP_LXOR (demo_log p) = ret (V_SUCCESS, demo_log' p)"
    if "p < 2" for p
  proof -
    have "p = 0 \<or> p = 1" using that by linarith
    then show ?thesis using demo_log_start by (auto simp: UTF_BG_ALGORITHM_def demo_log_def demo_proc_def demo_info_def)
  qed
  have p: "v_poll_reduce_uint64 demo_gate (utf_bg_poll_ids (pinfo (demo_log' 0))) (vworld (demo_log' 0))
      = (V_SUCCESS, gate_result 2 (\<lambda>p. fst (vworld (demo_log' p))), vworld (demo_log' 0))"
    by (simp add: gate_result_def gate_op_def gate_word_23 demo_log_words [simplified One_nat_def] demo_gate_def)
  show ?thesis
    using allreduce_logical_correct [of UTF_DATATYPE_UINT8_T UTF_REDUCE_OP_LXOR 2 demo_log "\<lambda>_. demo_gate" "\<lambda>_. None" 2 "\<lambda>_. (0, 0)" demo_log' 0,
        OF _ _ st _ m _ p demo_gate_posts, of True]
    by (simp add: int_types_def datatype_size_def datatype_defs UTF_DATATYPE_SIZE_def)
qed

end
