(* ===== verification/Vbg_Collectives.thy ===== *)
theory Vbg_Collectives
  imports Vbg_Logical
begin

text \<open>
  Broadcast, the sum of integers, the operations on pairs of value and position, and the
  calls the library refuses.
\<close>

unbundle bit_operations_syntax

section \<open>Bytes of words\<close>

lemma length_bytes_of_words [simp]: "length (bytes_of_words ws) = 8 * length ws"
  by (induction ws) (simp_all add: bytes_of_words_def)

lemma bytes_of_words_of_bytes: "length bs = 8 * n \<Longrightarrow> bytes_of_words (words_of_bytes bs) = bs \<and> length (words_of_bytes bs) = n"
proof (induction n arbitrary: bs)
  case 0
  then show ?case by (simp add: words_of_bytes.simps [of "[]"] bytes_of_words_def)
next
  case (Suc n)
  have l: "length (take 8 bs) = 8" "length (drop 8 bs) = 8 * n" using Suc.prems by simp_all
  have "unat (word_of_nat (le_nat (take 8 bs)) :: u64) = le_nat (take 8 bs)"
    using le_nat_8_lt [OF l(1)] by (simp add: unat_of_nat)
  then have "le_bytes 8 (unat (word_of_nat (le_nat (take 8 bs)) :: u64)) = take 8 bs"
    using le_bytes_le_nat [of "take 8 bs"] l(1) by simp
  then show ?case using Suc.IH [OF l(2)] Suc.prems by (simp add: words_of_bytes.simps [of bs] bytes_of_words_def)
qed

lemma nth_le_bytes: "k < n \<Longrightarrow> le_bytes n v ! k = word_of_nat (v div 256 ^ k)"
proof (induction n arbitrary: k v)
  case (Suc n)
  have "(word_of_nat (v mod 256) :: u8) = word_of_nat v" by (simp add: word_of_nat_eq_iff take_bit_eq_mod)
  with Suc show ?case by (cases k) (simp_all add: div_mult2_eq)
qed simp

lemma bit_bytes_of_words:
  assumes "k < 8 * length ws"
  shows "bit (bytes_of_words ws ! k) b \<longleftrightarrow> b < 8 \<and> bit (ws ! (k div 8)) (8 * (k mod 8) + b)"
  using assms
proof (induction ws arbitrary: k)
  case (Cons w ws)
  show ?case
  proof (cases "k < 8")
    case True
    have "bit (le_bytes 8 (unat w) ! k) b \<longleftrightarrow> b < 8 \<and> bit (unat w div 256 ^ k) b"
      using True by (auto simp: nth_le_bytes bit_of_nat_iff possible_bit_word)
    also have "(256 :: nat) ^ k = 2 ^ (8 * k)" by (simp add: power_mult)
    also have "bit (unat w div 2 ^ (8 * k)) b = bit w (8 * k + b)"
      by (simp add: drop_bit_eq_div [symmetric] bit_drop_bit_eq bit_unsigned_iff add.commute)
    finally show ?thesis using True by (simp add: bytes_of_words_def nth_append)
  next
    case False
    then have "k div 8 = Suc ((k - 8) div 8)" "(k - 8) mod 8 = k mod 8" by (simp_all add: le_div_geq le_mod_geq)
    with False Cons show ?thesis by (simp add: bytes_of_words_def nth_append)
  qed
qed simp

section \<open>Broadcast\<close>

lemma broadcast_start:
  assumes "utf_broadcast api buf sz root s = ret (V_SUCCESS, s')" and "UTF_BG_ALGORITHM s"
  shows "\<exists>bs ws. sz \<le> 48 \<and> length bs = sz \<and> (if g_my_index (vgrp s) = root then vload buf sz s = ret bs else bs = replicate sz 0)
    \<and> sz \<le> 8 * length ws \<and> take sz (bytes_of_words ws) = bs
    \<and> gate_started api Poll_bcast UTF_REDUCE_OP_BOR ((sz + 7) div 8) buf UTF_BG_BCAST ((sz + 7) div 8) (word_of_nat sz)
        (g_my_index (vgrp s) = root) ws s s'"
proof -
  let ?r = "g_my_index (vgrp s) = root"
  let ?s = "s\<lparr>bg_counter := bg_counter s + 1\<rparr>"
  have sz: "sz \<le> 48" using assms(1) by (auto simp: utf_broadcast_def Let_def split: if_splits)
  from assms(1) sz obtain bs ws where bs: "(if ?r then vload buf sz ?s else ret (replicate sz 0)) = ret bs"
    and ws: "copy_words bs (utf_bg_poll_idata (pinfo s)) = ret ws"
    and l: "launch_uint64 api Poll_bcast UTF_REDUCE_OP_BOR ((sz + 7) div 8)
      (UTF_BG_REDUCE_INFO_SET buf UTF_BG_BCAST ((sz + 7) div 8) (word_of_nat sz) ?r (set_idata ws ?s)) = ret (V_SUCCESS, s')"
    by (auto simp: utf_broadcast_def Let_def bindO_eq_ret)
  have len: "length bs = sz" using bs by (auto simp: vload_def split: if_splits option.splits)
  let ?B = "overwrite (bytes_of_words (utf_bg_poll_idata (pinfo s))) 0 bs"
  have c: "length bs \<le> 8 * length (utf_bg_poll_idata (pinfo s))" "ws = words_of_bytes ?B"
    using ws by (auto simp: copy_words_def split: if_splits)
  then have w: "bytes_of_words ws = ?B" "length ws = length (utf_bg_poll_idata (pinfo s))"
    using bytes_of_words_of_bytes [of ?B "length (utf_bg_poll_idata (pinfo s))"] by simp_all
  have "take sz (bytes_of_words ws) = bs" using len by (simp add: w overwrite_def)
  moreover have "gate_started api Poll_bcast UTF_REDUCE_OP_BOR ((sz + 7) div 8) buf UTF_BG_BCAST ((sz + 7) div 8) (word_of_nat sz) ?r ws s s'"
    using l assms(2) by (auto simp: launch_uint64_def set_ids_def set_idata_def UTF_BG_REDUCE_INFO_SET_def gate_started_def
        mod_pi_def UTF_BG_ALGORITHM_def split: prod.splits if_splits)
  ultimately show ?thesis using sz len bs c(1) w(2) by (intro exI [of _ bs] exI [of _ ws]) (auto split: if_splits)
qed

text \<open>OR with zeros: the bytes of the only process that does not have zeros.\<close>

lemma gate_or_bytes:
  assumes G: "length G = n" "\<And>j. j < n \<Longrightarrow> G ! j = gate_word (OR) N (\<lambda>p. ws p ! j)" and "sz \<le> 8 * n"
    and "r < N" and l: "\<And>p. p < N \<Longrightarrow> sz \<le> 8 * length (ws p)"
    and b: "take sz (bytes_of_words (ws r)) = bs"
    and z: "\<And>p. p < N \<Longrightarrow> p \<noteq> r \<Longrightarrow> take sz (bytes_of_words (ws p)) = replicate sz 0"
  shows "take sz (bytes_of_words G) = bs"
proof (rule nth_equalityI)
  show "length (take sz (bytes_of_words G)) = length bs" using assms(3) G b l [OF \<open>r < N\<close>] by (simp flip: b)
  fix k assume "k < length (take sz (bytes_of_words G))"
  then have k: "k < sz" by simp
  have byte: "bytes_of_words (ws p) ! k = (if p = r then bs ! k else 0)" if "p < N" for p
    using z [OF that] b k by (metis nth_take nth_replicate)
  have "bit (bytes_of_words G ! k) c = bit (bs ! k) c" for c
  proof (cases "c < 8")
    case True
    have kd: "k div 8 < n" using k assms(3) by (simp add: div_less_iff_less_mult mult.commute)
    have "bit (bytes_of_words G ! k) c \<longleftrightarrow> bit (gate_word (OR) N (\<lambda>p. ws p ! (k div 8))) (8 * (k mod 8) + c)"
      using k assms(3) G True kd by (simp add: bit_bytes_of_words)
    also have "\<dots> \<longleftrightarrow> (\<exists>p<N. bit (ws p ! (k div 8)) (8 * (k mod 8) + c))"
      using bit_gate_word [of N UTF_REDUCE_OP_LOR "\<lambda>p. ws p ! (k div 8)" "8 * (k mod 8) + c"] \<open>r < N\<close>
      by (simp add: is_logical_def utf_reduce_op_type_def gate_op_def logic_result_def)
    also have "\<dots> \<longleftrightarrow> (\<exists>p<N. bit (bytes_of_words (ws p) ! k) c)"
    proof -
      have "bit (ws p ! (k div 8)) (8 * (k mod 8) + c) = bit (bytes_of_words (ws p) ! k) c" if "p < N" for p
        using bit_bytes_of_words [of k "ws p" c] True k l [OF that] by simp
      then show ?thesis by blast
    qed
    also have "\<dots> \<longleftrightarrow> bit (bs ! k) c" using byte \<open>r < N\<close> by (auto split: if_splits)
    finally show ?thesis .
  qed (auto dest!: bit_imp_le_length)
  then show "take sz (bytes_of_words G) ! k = bs ! k" using k by (simp add: bit_eq_iff [where 'a = u8])
qed

lemma datatype_size_small: "sz \<le> 48 \<Longrightarrow> datatype_size (word_of_nat sz) = sz"
proof -
  assume "sz \<le> 48"
  then have "unat (word_of_nat sz :: u64) = sz" by (simp add: unat_of_nat)
  moreover have "UTF_DATATYPE_SIZE = mask 8" by (simp add: UTF_DATATYPE_SIZE_def mask_eq_exp_minus_1)
  then have "datatype_size (word_of_nat sz) = unat (take_bit 8 (word_of_nat sz :: u64))"
    by (simp only: datatype_size_def take_bit_eq_mask)
  ultimately show ?thesis using \<open>sz \<le> 48\<close> by (simp add: unsigned_take_bit_eq take_bit_nat_eq_self)
qed

lemma poll_broadcast:
  assumes st: "gate_started api Poll_bcast gop n buf UTF_BG_BCAST c (word_of_nat sz) is_root ws s s'" and sz: "sz \<le> 48"
    and poll: "v_poll_reduce_uint64 api (utf_bg_poll_ids (pinfo s')) v = (V_SUCCESS, G, w)" and G: "sz \<le> 8 * length G"
    and mem: "vmem s (fst buf) = Some m" "snd buf + sz \<le> length m"
    and b: "take sz (bytes_of_words G) = bs" "is_root \<Longrightarrow> vload buf sz s = ret bs"
  shows "\<exists>s''. utf_poll_reduce api data (s'\<lparr>vworld := v\<rparr>) = ret (V_SUCCESS, if data then Some buf else None, s'') \<and> vload buf sz s'' = ret bs"
proof -
  let ?t = "put_odata G (s'\<lparr>vworld := w\<rparr>)"
  have t: "vmem ?t = vmem s" "utf_bg_poll_root (pinfo ?t) = is_root" "utf_bg_poll_size (pinfo ?t) = sz" "utf_bg_poll_result (pinfo ?t) = buf"
    using st datatype_size_small [OF sz] by (simp_all add: gate_started_def put_odata_def)
  have l: "length bs = sz" using b(1) G by auto
  have o: "utf_bg_poll_odata (pinfo ?t) = G @ drop (length G) (utf_bg_poll_odata (pinfo s))"
    using st by (simp add: gate_started_def put_odata_def)
  have tk: "take sz (bytes_of_words (utf_bg_poll_odata (pinfo ?t))) = bs"
    using b(1) G unfolding o by (simp add: bytes_of_words_def) (metis bytes_of_words_def diff_is_0_eq length_bytes_of_words append_Nil2 take_0)
  have e: "utf_poll_reduce api data (s'\<lparr>vworld := v\<rparr>) = UTF_BG_SET_RESULT_BCAST data ?t"
    using st by (simp add: utf_poll_reduce_def gate_started_def utf_poll_bcast_def poll_then_def poll)
  show ?thesis
  proof (cases is_root)
    case True
    have "vload buf sz ?t = vload buf sz s" using t(1) by (simp add: vload_def)
    then show ?thesis using True b(2) by (simp add: e UTF_BG_SET_RESULT_BCAST_def Let_def t)
  next
    case False
    have "length (utf_bg_poll_odata (pinfo ?t)) \<ge> length G" by (simp add: o)
    then have "\<not> length (bytes_of_words (utf_bg_poll_odata (pinfo ?t))) < sz" using G by simp
    then show ?thesis using False mem l tk
      by (auto simp: e UTF_BG_SET_RESULT_BCAST_def Let_def t vstore_def vload_def)
  qed
qed

text \<open>A broadcast of up to 48 bytes delivers the bytes of the root. \<open>N\<close> processes start the
  same broadcast; the gate combines the words they posted. A poll that finds the gate done, at the state \<open>v\<close> of the network,
  leaves in the buffer the bytes the root had in its own.
\<close>

lemma broadcast_delivers:
  assumes r: "r < N"
    and start: "\<And>p. p < N \<Longrightarrow> UTF_BG_ALGORITHM (st p) \<and> g_my_index (vgrp (st p)) = int p
      \<and> utf_broadcast (api p) (buf p) sz (int r) (st p) = ret (V_SUCCESS, st' p)"
    and q: "q < N" and mem: "vmem (st q) (fst (buf q)) = Some m" "snd (buf q) + sz \<le> length m"
    and poll: "v_poll_reduce_uint64 (api q) (utf_bg_poll_ids (pinfo (st' q))) v
      = (V_SUCCESS, gate_result N (\<lambda>p. posted (vworld (st' p))), w)"
    and posts: "\<And>p. p < N \<Longrightarrow> gate_posts (api p) posted"
  shows "\<exists>bs s. vload (buf r) sz (st r) = ret bs
    \<and> utf_poll_reduce (api q) data ((st' q)\<lparr>vworld := v\<rparr>) = ret (V_SUCCESS, if data then Some (buf q) else None, s) \<and> vload (buf q) sz s = ret bs"
proof -
  let ?n = "(sz + 7) div 8" and ?G = "gate_result N (\<lambda>p. posted (vworld (st' p)))"
  let ?P = "\<lambda>p bs ws. sz \<le> 48 \<and> length bs = sz \<and> (if p = r then vload (buf p) sz (st p) = ret bs else bs = replicate sz 0)
    \<and> sz \<le> 8 * length ws \<and> take sz (bytes_of_words ws) = bs
    \<and> gate_started (api p) Poll_bcast UTF_REDUCE_OP_BOR ?n (buf p) UTF_BG_BCAST ?n (word_of_nat sz) (p = r) ws (st p) (st' p)"
  have "\<exists>bs ws. ?P p bs ws" if "p < N" for p
    using broadcast_start [OF conjunct2 [OF conjunct2 [OF start [OF that]]]] start [OF that] by simp
  then have "\<forall>p. \<exists>bw. p < N \<longrightarrow> ?P p (fst bw) (snd bw)" by (metis fst_conv snd_conv)
  then obtain bw where bw: "\<And>p. p < N \<Longrightarrow> ?P p (fst (bw p)) (snd (bw p))"
    using choice [of "\<lambda>p bw. p < N \<longrightarrow> ?P p (fst bw) (snd bw)"] by blast
  let ?bs = "fst (bw r)" and ?W = "\<lambda>p. snd (bw p)"
  have po: "posted (vworld (st' p)) = (UTF_REDUCE_OP_BOR, take ?n (?W p))" if "p < N" for p
    using bw [OF that] posts [OF that] by (intro posted_started) blast+
  have n: "sz \<le> 8 * ?n" "?n \<le> length (?W 0)" using bw [of 0] r by linarith+
  have N: "0 < N" using r by simp
  have gr: "length ?G = ?n" "\<And>j. j < ?n \<Longrightarrow> ?G ! j = gate_word (OR) N (\<lambda>p. ?W p ! j)"
    using gate_result_started [where words = ?W and posts = "\<lambda>p. posted (vworld (st' p))" and n = ?n and gop = UTF_REDUCE_OP_BOR] po N n(2)
    by (simp_all add: gate_op_def)
  have g: "take sz (bytes_of_words ?G) = ?bs"
  proof (rule gate_or_bytes [where ws = ?W])
    show "take sz (bytes_of_words (?W p)) = replicate sz 0" if "p < N" "p \<noteq> r" for p using bw [OF that(1)] that(2) by simp
  qed (use gr n r bw in auto)
  have "\<exists>s. utf_poll_reduce (api q) data ((st' q)\<lparr>vworld := v\<rparr>) = ret (V_SUCCESS, if data then Some (buf q) else None, s) \<and> vload (buf q) sz s = ret ?bs"
  proof (rule poll_broadcast [OF _ _ poll _ mem g])
    show "gate_started (api q) Poll_bcast UTF_REDUCE_OP_BOR ?n (buf q) UTF_BG_BCAST ?n (word_of_nat sz) (q = r) (?W q) (st q) (st' q)"
      using bw [OF q] by blast
  qed (use bw [OF q] gr(1) n(1) in auto)
  then show ?thesis using bw [OF r] by auto
qed

definition demo_bc :: "nat \<Rightarrow> demo_world vbg" where
  "demo_bc p = (if p = 0 then demo_proc 0 [0x1122334455667788] [1, 2, 3] [0xFFFFFFFFFF030201]
     else demo_proc 1 [0xFFFFFFFFFFFFFFFF] [9, 9, 9] [0xFFFFFFFFFF030201])"

definition demo_bc' :: "nat \<Rightarrow> demo_world vbg" where
  "demo_bc' p = state_of (utf_broadcast demo_gate (0, 0) 3 0 (demo_bc p))"

lemma le_bytes_numeral: "le_bytes (numeral k) v = word_of_nat (v mod 256) # le_bytes (pred_numeral k) (v div 256)"
  using le_bytes.simps(2) [of "pred_numeral k" v] by (simp only: numeral_eq_Suc [of k])

lemma words_of_bytes_8: "words_of_bytes [a, b, c, d, e, f, g, h] = [word_of_nat (le_nat [a, b, c, d, e, f, g, h])]"
  by (simp add: words_of_bytes.simps)

lemma replicate_3: "replicate 3 x = [x, x, x]"
  by (simp add: numeral_3_eq_3)

lemmas bc_eval = replicate_3 utf_broadcast_def Let_def vload_def UTF_BG_REDUCE_INFO_SET_def launch_uint64_def UTF_BG_ALGORITHM_def set_idata_def set_ids_def
  copy_words_def bytes_of_words_def le_bytes_numeral overwrite_def bytes_at_def words_of_bytes_8
  demo_proc_def demo_info_def demo_gate_def demo_bc_def demo_bc'_def mod_pi_def

lemma demo_bc_start:
  "utf_broadcast demo_gate (0, 0) 3 0 (demo_bc 0) = ret (V_SUCCESS, demo_bc' 0)"
  "utf_broadcast demo_gate (0, 0) 3 0 (demo_bc 1) = ret (V_SUCCESS, demo_bc' 1)"
  by (simp_all add: bc_eval)

lemma demo_bc_words:
  "vworld (demo_bc' 0) = ((UTF_REDUCE_OP_BOR, [0x1122334455030201]), [0xFFFFFFFFFF030201])"
  "vworld (demo_bc' 1) = ((UTF_REDUCE_OP_BOR, [0xFFFFFFFFFF000000]), [0xFFFFFFFFFF030201])"
  by (simp_all add: bc_eval)

section \<open>Calls that are refused, and memory safety of the others\<close>

text \<open>
  The data types a reduction takes, the largest number of elements, and the bytes it reads of
  the caller's buffer. (A complex number is read whole even if the count is 0.)
\<close>

definition supported :: "u64 \<Rightarrow> reduce_op \<Rightarrow> bool" where
  "supported dt uop \<longleftrightarrow> (dt \<in> int_types \<and> uop \<notin> {UTF_REDUCE_OP_BARRIER, UTF_REDUCE_OP_BFPSUM, UTF_REDUCE_OP_MAXLOC, UTF_REDUCE_OP_MINLOC})
     \<or> (dt \<in> real_types \<and> uop \<in> {UTF_REDUCE_OP_SUM, UTF_REDUCE_OP_MAX, UTF_REDUCE_OP_MIN})
     \<or> (dt \<in> {UTF_DATATYPE_FLOAT16_COMPLEX, UTF_DATATYPE_FLOAT_COMPLEX, UTF_DATATYPE_DOUBLE_COMPLEX} \<and> uop = UTF_REDUCE_OP_SUM)
     \<or> (dt \<in> {UTF_DATATYPE_SHORT_INT, UTF_DATATYPE_2INT, UTF_DATATYPE_LONG_INT} \<and> uop \<in> {UTF_REDUCE_OP_MAXLOC, UTF_REDUCE_OP_MINLOC})"

definition max_count :: "u64 \<Rightarrow> reduce_op \<Rightarrow> nat" where
  "max_count dt uop = (if uop = UTF_REDUCE_OP_SUM then (if datatype_div dt = UTF_DATATYPE_DIV_REAL then 3
       else if datatype_div dt = UTF_DATATYPE_DIV_INT then 6 else 1)
     else if uop \<in> {UTF_REDUCE_OP_MAX, UTF_REDUCE_OP_MIN} then 6 else if uop \<in> {UTF_REDUCE_OP_MAXLOC, UTF_REDUCE_OP_MINLOC} then 3
     else if uop \<in> {UTF_REDUCE_OP_BAND, UTF_REDUCE_OP_BOR, UTF_REDUCE_OP_BXOR} then 48 div datatype_size dt else 384)"

definition span :: "u64 \<Rightarrow> reduce_op \<Rightarrow> nat \<Rightarrow> nat" where
  "span dt uop count = (if datatype_div dt = UTF_DATATYPE_DIV_PAIR then loc_bytes dt (datatype_size dt) (2 * count)
     else if datatype_div dt = UTF_DATATYPE_DIV_COMP then datatype_size dt else count * datatype_size dt)"

lemma launch_returns: "\<exists>rc s'. launch_uint64 api func uop n s = ret (rc, s')"
  by (auto simp: launch_uint64_def Let_def split: prod.splits)

lemma upd_words_ok: "n \<le> length ws \<Longrightarrow> \<exists>ws'. upd_words n f ws = ret ws' \<and> length ws' = length ws"
  by (auto simp: upd_words_def)

lemma reduce_types:
  "dt \<in> int_types \<Longrightarrow> datatype_div dt = UTF_DATATYPE_DIV_INT \<and> datatype_size dt \<in> {1, 2, 4, 8}"
  "dt \<in> real_types \<Longrightarrow> datatype_div dt = UTF_DATATYPE_DIV_REAL \<and> datatype_size dt \<in> {2, 4, 8}"
  "dt \<in> {UTF_DATATYPE_FLOAT16_COMPLEX, UTF_DATATYPE_FLOAT_COMPLEX, UTF_DATATYPE_DOUBLE_COMPLEX} \<Longrightarrow>
     datatype_div dt = UTF_DATATYPE_DIV_COMP \<and> datatype_size dt \<in> {4, 8, 16}"
  "dt \<in> {UTF_DATATYPE_SHORT_INT, UTF_DATATYPE_2INT, UTF_DATATYPE_LONG_INT} \<Longrightarrow> datatype_div dt = UTF_DATATYPE_DIV_PAIR"
  using int_types_div real_types_div
  by (auto simp: datatype_defs datatype_div_def datatype_size_def div_defs UTF_DATATYPE_SIZE_def)

text \<open>The encodings return when the caller's buffer can be read.\<close>

lemma INFO_SET_sel [simp]: "vload a n (UTF_BG_REDUCE_INFO_SET result pop c dt root s) = vload a n s"
  "utf_bg_poll_idata (pinfo (UTF_BG_REDUCE_INFO_SET result pop c dt root s)) = utf_bg_poll_idata (pinfo s)"
  "utf_bg_poll_datatype (pinfo (UTF_BG_REDUCE_INFO_SET result pop c dt root s)) = dt"
  by (simp_all add: UTF_BG_REDUCE_INFO_SET_def)

lemma encode_returns:
  assumes "vload a k s = ret bs" "n \<le> length (utf_bg_poll_idata (pinfo s))"
  shows "\<exists>rc s'. bindO (vload a k s) (\<lambda>bs. bindO (upd_words n (f bs) (utf_bg_poll_idata (pinfo s))) (\<lambda>ws.
    launch_uint64 api func uop m (set_idata ws s))) = ret (rc, s')"
  using assms launch_returns by (simp add: upd_words_def)

lemma double_returns:
  assumes "vload a (n * sz) s = ret bs" "n \<le> length (utf_bg_poll_idata (pinfo s))"
  shows "\<exists>rc s'. utf_bg_reduce_double api a n sz s = ret (rc, s')"
  using assms by (auto simp: utf_bg_reduce_double_def Let_def upd_words_def split: prod.splits)

lemma logical_returns:
  assumes "vload a (n * sz) s = ret bs" "6 \<le> length (utf_bg_poll_idata (pinfo s))" "0 < n" "n \<le> 384" "sz \<le> 8"
  shows "\<exists>rc s'. utf_bg_reduce_logical api a n sz uop s = ret (rc, s')"
proof -
  let ?es = "map (elem_at bs sz) [0..<n]"
  have "(n - 1) div 64 \<le> 383 div 64" using assms by (intro div_le_mono) simp
  then have "\<exists>ws. logical_pack ?es 0 0 (utf_bg_poll_idata (pinfo s)) = ret ws"
    using logical_pack_bits [of ?es 0 0 "utf_bg_poll_idata (pinfo s)" "\<lambda>k. nonzero (?es ! k)"] assms by auto
  then show ?thesis using assms launch_returns by (auto simp: utf_bg_reduce_logical_def Let_def)
qed

lemma bitwise_returns:
  assumes "vload a (n * sz) s = ret bs" "6 \<le> length (utf_bg_poll_idata (pinfo s))" "0 < sz" "sz \<le> 8" "n * sz \<le> 48"
  shows "\<exists>rc s'. utf_bg_reduce_bitwise api a n sz uop s = ret (rc, s')"
proof -
  have "length bs = n * sz" using assms(1) by (auto simp: vload_def split: if_splits option.splits)
  then have "\<exists>ws. copy_words bs (utf_bg_poll_idata (pinfo s)) = ret ws" using assms by (simp add: copy_words_def)
  moreover have "n * sz mod 2 ^ 64 = n * sz" using assms(5) by simp
  ultimately show ?thesis using assms launch_returns by (auto simp: utf_bg_reduce_bitwise_def Let_def)
qed

lemma base_int:
  assumes dt: "dt \<in> int_types" and idata: "6 \<le> length (utf_bg_poll_idata (pinfo s))" and c: "count < 2 ^ 56"
    and buf: "vload (send_addr buf result) (count * datatype_size dt) s = ret bs"
    and log: "is_logical uop \<Longrightarrow> 0 < count"
    and uop: "uop \<notin> {UTF_REDUCE_OP_BARRIER, UTF_REDUCE_OP_BFPSUM, UTF_REDUCE_OP_MAXLOC, UTF_REDUCE_OP_MINLOC}"
  shows "if max_count dt uop < count then utf_bg_reduce_base api buf count result dt uop root s = ret (V_ERR_NOT_AVAILABLE, s)
    else \<exists>rc s'. utf_bg_reduce_base api buf count result dt uop root s = ret (rc, s')"
proof -
  let ?sz = "datatype_size dt" and ?i = "UTF_BG_REDUCE_INFO_SET result (Reduce_op uop) count dt root s" and ?a = "send_addr buf result"
  note ty = reduce_types(1) [OF dt]
  have sz: "0 < ?sz" "?sz \<le> 8" using ty by auto
  have b: "(48 < ?sz * count mod 2 ^ 64) = (48 div ?sz < count)"
  proof -
    have "?sz * count \<le> 8 * 2 ^ 56" using c sz by (intro mult_mono) auto
    then have "?sz * count mod 2 ^ 64 = ?sz * count" by simp
    then show ?thesis using ty by auto
  qed
  have ld: "vload ?a (count * ?sz) ?i = ret bs" and id: "6 \<le> length (utf_bg_poll_idata (pinfo ?i))" using buf idata by simp_all
  have r: "\<exists>rc s'. utf_bg_reduce_uint64 api ?a count ?sz ?i = ret (rc, s')"
    "\<exists>rc s'. utf_bg_reduce_uint64_max_min api ?a count ?sz uop sg ?i = ret (rc, s')" if "count \<le> 6" for sg
    unfolding utf_bg_reduce_uint64_def utf_bg_reduce_uint64_max_min_def using ld id that
    by (intro encode_returns; simp)+
  have rb: "\<exists>rc s'. utf_bg_reduce_bitwise api ?a count ?sz uop ?i = ret (rc, s')" if "count \<le> 48 div ?sz"
    using that sz ty by (intro bitwise_returns [OF ld id]) auto
  have rl: "\<exists>rc s'. utf_bg_reduce_logical api ?a count ?sz uop ?i = ret (rc, s')" if "is_logical uop" "count \<le> 384"
    using that sz log by (intro logical_returns [OF ld id]) auto
  show ?thesis using uop ty r rb rl
    by (cases uop) (simp_all add: utf_bg_reduce_base_def Let_def div_defs max_count_def b [simplified] is_logical_def not_less)
qed

lemma base_real:
  assumes dt: "dt \<in> real_types" and idata: "6 \<le> length (utf_bg_poll_idata (pinfo s))"
    and buf: "vload (send_addr buf result) (count * datatype_size dt) s = ret bs"
    and uop: "uop \<in> {UTF_REDUCE_OP_SUM, UTF_REDUCE_OP_MAX, UTF_REDUCE_OP_MIN}"
  shows "if max_count dt uop < count then utf_bg_reduce_base api buf count result dt uop root s = ret (V_ERR_NOT_AVAILABLE, s)
    else \<exists>rc s'. utf_bg_reduce_base api buf count result dt uop root s = ret (rc, s')"
proof -
  let ?sz = "datatype_size dt" and ?i = "UTF_BG_REDUCE_INFO_SET result (Reduce_op uop) count dt root s" and ?a = "send_addr buf result"
  note ty = reduce_types(2) [OF dt]
  have ld: "vload ?a (count * ?sz) ?i = ret bs" and id: "6 \<le> length (utf_bg_poll_idata (pinfo ?i))" using buf idata by simp_all
  have "\<exists>rc s'. utf_bg_reduce_double api ?a count ?sz ?i = ret (rc, s')" if "count \<le> 6"
    using that id by (intro double_returns [OF ld]) simp
  moreover have "\<exists>rc s'. utf_bg_reduce_double_max_min api ?a count ?sz uop ?i = ret (rc, s')" if "count \<le> 6"
    unfolding utf_bg_reduce_double_max_min_def using ld id that by (intro encode_returns; simp)
  ultimately show ?thesis using uop ty
    by (auto simp: utf_bg_reduce_base_def Let_def div_defs max_count_def)
qed

lemma base_complex:
  assumes dt: "dt \<in> {UTF_DATATYPE_FLOAT16_COMPLEX, UTF_DATATYPE_FLOAT_COMPLEX, UTF_DATATYPE_DOUBLE_COMPLEX}"
    and idata: "6 \<le> length (utf_bg_poll_idata (pinfo s))" and buf: "vload (send_addr buf result) (datatype_size dt) s = ret bs"
  shows "if 1 < count then utf_bg_reduce_base api buf count result dt UTF_REDUCE_OP_SUM root s = ret (V_ERR_NOT_AVAILABLE, s)
    else \<exists>rc s'. utf_bg_reduce_base api buf count result dt UTF_REDUCE_OP_SUM root s = ret (rc, s')"
proof -
  let ?sz = "datatype_size dt" and ?i = "UTF_BG_REDUCE_INFO_SET result (Reduce_op UTF_REDUCE_OP_SUM) 2 dt root s" and ?a = "send_addr buf result"
  note ty = reduce_types(3) [OF dt]
  have "2 * (?sz div 2) = ?sz" using ty by auto
  then have ld: "vload ?a (2 * (?sz div 2)) ?i = ret bs" using buf by simp
  have "\<exists>rc s'. utf_bg_reduce_double api ?a 2 (?sz div 2) ?i = ret (rc, s')"
    using idata by (intro double_returns [OF ld]) simp
  then show ?thesis using ty by (simp add: utf_bg_reduce_base_def Let_def div_defs)
qed

lemma base_pair:
  assumes dt: "dt \<in> {UTF_DATATYPE_SHORT_INT, UTF_DATATYPE_2INT, UTF_DATATYPE_LONG_INT}"
    and idata: "6 \<le> length (utf_bg_poll_idata (pinfo s))"
    and buf: "vload (send_addr buf result) (loc_bytes dt (datatype_size dt) (2 * count)) s = ret bs"
    and uop: "uop \<in> {UTF_REDUCE_OP_MAXLOC, UTF_REDUCE_OP_MINLOC}"
  shows "if 3 < count then utf_bg_reduce_base api buf count result dt uop root s = ret (V_ERR_NOT_AVAILABLE, s)
    else \<exists>rc s'. utf_bg_reduce_base api buf count result dt uop root s = ret (rc, s')"
proof -
  let ?sz = "datatype_size dt" and ?i = "UTF_BG_REDUCE_INFO_SET result (Reduce_op uop) count dt root s" and ?a = "send_addr buf result"
  note ty = reduce_types(4) [OF dt]
  have ld: "vload ?a (loc_bytes dt ?sz (count * 2)) ?i = ret bs" and id: "6 \<le> length (utf_bg_poll_idata (pinfo ?i))"
    using buf idata by (simp_all add: mult.commute)
  have "\<exists>rc s'. utf_bg_reduce_maxmin_loc api ?a count ?sz uop ?i = ret (rc, s')" if "count \<le> 3"
    unfolding utf_bg_reduce_maxmin_loc_def Let_def INFO_SET_sel(3) using ld id that by (intro encode_returns; simp)
  then show ?thesis using uop ty by (auto simp: utf_bg_reduce_base_def Let_def div_defs)
qed

text \<open>The start of a reduction, a logical operation on no element aside.\<close>

lemma allreduce_starts:
  assumes sup: "supported dt uop" and c: "count < 2 ^ 56" and idata: "6 \<le> length (utf_bg_poll_idata (pinfo s))"
    and log: "uop \<in> {UTF_REDUCE_OP_LAND, UTF_REDUCE_OP_LOR, UTF_REDUCE_OP_LXOR} \<Longrightarrow> 0 < count"
    and buf: "vload (send_addr buf result) (span dt uop count) s = ret bs"
  shows "if max_count dt uop < count
    then utf_allreduce api buf count result dt uop s = ret (V_ERR_NOT_AVAILABLE, s\<lparr>bg_counter := bg_counter s + 1\<rparr>)
    else \<exists>rc s'. utf_allreduce api buf count result dt uop s = ret (rc, s')"
proof -
  let ?s = "s\<lparr>bg_counter := bg_counter s + 1\<rparr>"
  have i: "6 \<le> length (utf_bg_poll_idata (pinfo ?s))" using idata by simp
  have l: "vload (send_addr buf result) (span dt uop count) ?s = ret bs" using buf by simp
  consider (int) "dt \<in> int_types" "uop \<notin> {UTF_REDUCE_OP_BARRIER, UTF_REDUCE_OP_BFPSUM, UTF_REDUCE_OP_MAXLOC, UTF_REDUCE_OP_MINLOC}"
    | (real) "dt \<in> real_types" "uop \<in> {UTF_REDUCE_OP_SUM, UTF_REDUCE_OP_MAX, UTF_REDUCE_OP_MIN}"
    | (comp) "dt \<in> {UTF_DATATYPE_FLOAT16_COMPLEX, UTF_DATATYPE_FLOAT_COMPLEX, UTF_DATATYPE_DOUBLE_COMPLEX}" "uop = UTF_REDUCE_OP_SUM"
    | (pair) "dt \<in> {UTF_DATATYPE_SHORT_INT, UTF_DATATYPE_2INT, UTF_DATATYPE_LONG_INT}" "uop \<in> {UTF_REDUCE_OP_MAXLOC, UTF_REDUCE_OP_MINLOC}"
    using sup unfolding supported_def by blast
  then show ?thesis
  proof cases
    case int
    then show ?thesis unfolding utf_allreduce_def using l log reduce_types(1) [OF int(1)]
      by (intro base_int [OF int(1) i c]) (auto simp: span_def div_defs is_logical_def)
  next
    case real
    then show ?thesis unfolding utf_allreduce_def using l reduce_types(2) [OF real(1)]
      by (intro base_real [OF real(1) i]) (auto simp: span_def div_defs)
  next
    case comp
    then show ?thesis using l reduce_types(3) [OF comp(1)] base_complex [OF comp(1) i, where buf = buf and result = result and count = count and api = api and root = True]
      by (simp add: utf_allreduce_def span_def max_count_def div_defs)
  next
    case pair
    then show ?thesis using l reduce_types(4) [OF pair(1)] base_pair [OF pair(1) i _ pair(2), where buf = buf and result = result and count = count and api = api and root = True]
      by (auto simp: utf_allreduce_def span_def max_count_def div_defs)
  qed
qed

lemma logical_no_element:
  assumes dt: "dt \<in> int_types" and uop: "is_logical uop"
  shows "utf_allreduce api buf 0 result dt uop s = crash OutOfBounds"
  using uop reduce_types(1) [OF dt]
  by (cases uop) (simp_all add: is_logical_def utf_allreduce_def utf_bg_reduce_base_def utf_bg_reduce_logical_def Let_def div_defs vload_def)

text \<open>C36: the start of a reduction (\<open>utf_allreduce\<close>, which loads the words and starts the gate; the poll is the subject of the properties on the results) of a
  supported type has exactly three outcomes. A count over the limit of the operation is refused with \<open>UTF_ERR_NOT_AVAILABLE\<close> and nothing but the call counter
  changes. A logical operation on no element at all runs past both buffers: the loop at line 727 of utf_bg_barrier.c never meets its end. Every other call returns
  and stays inside its buffers. The temporary buffer has at least 6 words (the library allocates 32), the bytes of the send buffer that the operation covers can be
  read, and the count is below \<open>2 ^ 56\<close>, from where on the product of count and size could wrap.
\<close>

theorem allreduce_safe:
  assumes sup: "supported dt uop" and c: "count < 2 ^ 56" and idata: "6 \<le> length (utf_bg_poll_idata (pinfo s))"
    and buf: "vload (send_addr buf result) (span dt uop count) s = ret bs"
  shows "if max_count dt uop < count
    then utf_allreduce api buf count result dt uop s = ret (V_ERR_NOT_AVAILABLE, s\<lparr>bg_counter := bg_counter s + 1\<rparr>)
    else if is_logical uop \<and> count = 0 then utf_allreduce api buf count result dt uop s = crash OutOfBounds
    else \<exists>rc s'. utf_allreduce api buf count result dt uop s = ret (rc, s')"
proof (cases "is_logical uop \<and> count = 0")
  case True
  then have "dt \<in> int_types" "is_logical uop" "count = 0" using sup by (auto simp: supported_def is_logical_def)
  with logical_no_element [OF this(1,2), of api buf result s] show ?thesis by simp
next
  case False
  then have "0 < count" if "uop \<in> {UTF_REDUCE_OP_LAND, UTF_REDUCE_OP_LOR, UTF_REDUCE_OP_LXOR}" using that by (auto simp: is_logical_def)
  from allreduce_starts [OF sup c idata this buf, of api] False show ?thesis by (simp split: if_splits) auto
qed

theorem allreduce_safe_witness:
  "utf_allreduce demo_gate None 7 (0, 0) UTF_DATATYPE_UINT8_T UTF_REDUCE_OP_SUM (demo_proc 0 [0, 0, 0, 0, 0, 0] [1, 2, 3, 4, 5, 6, 7] [])
      = ret (V_ERR_NOT_AVAILABLE, (demo_proc 0 [0, 0, 0, 0, 0, 0] [1, 2, 3, 4, 5, 6, 7] [])\<lparr>bg_counter := 1\<rparr>)
    \<and> (\<exists>rc s'. utf_allreduce demo_gate None 6 (0, 0) UTF_DATATYPE_UINT8_T UTF_REDUCE_OP_SUM (demo_proc 0 [0, 0, 0, 0, 0, 0] [1, 2, 3, 4, 5, 6, 7] []) = ret (rc, s'))
    \<and> (\<exists>rc s'. utf_allreduce demo_gate None 5 (0, 0) UTF_DATATYPE_UINT8_T UTF_REDUCE_OP_LAND (demo_proc 0 [0, 0, 0, 0, 0, 0] [1, 2, 3, 4, 5, 6, 7] []) = ret (rc, s'))
    \<and> utf_allreduce demo_gate None 0 (0, 0) UTF_DATATYPE_UINT8_T UTF_REDUCE_OP_LAND (demo_proc 0 [0, 0, 0, 0, 0, 0] [1, 2, 3, 4, 5, 6, 7] []) = crash OutOfBounds"
proof -
  let ?s = "demo_proc 0 [0, 0, 0, 0, 0, 0] [1, 2, 3, 4, 5, 6, 7] []"
  note defs = supported_def int_types_def datatype_defs max_count_def span_def datatype_div_def datatype_size_def div_defs
      UTF_DATATYPE_SIZE_def demo_proc_def demo_info_def vload_def bytes_at_def is_logical_def
  note inst = allreduce_safe [of UTF_DATATYPE_UINT8_T _ _ ?s "(0, 0)" None _ demo_gate]
  show ?thesis
    using inst [of UTF_REDUCE_OP_SUM 7 "[1, 2, 3, 4, 5, 6, 7]"] inst [of UTF_REDUCE_OP_SUM 6 "[1, 2, 3, 4, 5, 6]"]
      inst [of UTF_REDUCE_OP_LAND 5 "[1, 2, 3, 4, 5]"] inst [of UTF_REDUCE_OP_LAND 0 "[]"]
    by (simp add: defs)
qed

end
