(* ===== verification/Vbg_Butterfly_Props.thy ===== *)
theory Vbg_Butterfly_Props
  imports Vbg_Butterfly
begin

text \<open>
  Properties of the butterfly of one axis: the tables of the processes of an axis fit
  together, and when the values travel along them every process gets the sum of all values,
  each of them once, whatever the number of nodes on the axis.
\<close>

unbundle bit_operations_syntax

section \<open>Powers of two\<close>

lemma gate_count_bounds:
  assumes "0 < s"
  shows "2 ^ gate_count s \<le> s" "s < 2 ^ (gate_count s + 1)"
  using assms
proof (induction s rule: gate_count.induct)
  case (1 s)
  { case 1 then show ?case using "1.IH"(1) by (cases "1 < s") (auto simp: gate_count.simps [of s]) }
  { case 2 then show ?case using "1.IH"(2) by (cases "1 < s") (auto simp: gate_count.simps [of s]) }
qed

lemma bit_top:
  assumes "2 ^ g \<le> s" "s < 2 ^ (g + 1)"
  shows "bit (s :: nat) g"
proof -
  have "s div 2 ^ g = 1" using assms by (intro div_nat_eqI) simp_all
  then show ?thesis by (simp add: bit_iff_odd)
qed

lemma pow2_test:
  assumes "0 < s"
  shows "s AND (s - 1) = 0 \<longleftrightarrow> s = 2 ^ gate_count s"
proof
  assume z: "s AND (s - 1) = 0"
  show "s = 2 ^ gate_count s"
  proof (rule ccontr)
    assume "s \<noteq> 2 ^ gate_count s"
    then have "2 ^ gate_count s \<le> s - 1" using gate_count_bounds [OF assms] by linarith
    then have "bit (s AND (s - 1)) (gate_count s)"
      using gate_count_bounds [OF assms] bit_top [of "gate_count s"] by (simp add: bit_and_iff)
    then show False using z by simp
  qed
next
  assume e: "s = 2 ^ gate_count s"
  then have "s AND (s - 1) = s AND mask (gate_count s)" by (metis mask_eq_exp_minus_1)
  also have "\<dots> = s mod 2 ^ gate_count s" by (simp add: take_bit_eq_mask [symmetric] take_bit_eq_mod)
  also have "\<dots> = 0" using e by (metis mod_self)
  finally show "s AND (s - 1) = 0" .
qed

lemma xor_flip:
  assumes "m < g" "r < 2 ^ g"
  shows "r XOR push_bit m 1 < 2 ^ (g :: nat)" "r XOR push_bit m 1 \<noteq> (r :: nat)" "(r XOR push_bit m 1) XOR push_bit m 1 = r"
proof -
  have "take_bit g (r XOR push_bit m 1) = r XOR push_bit m 1"
    using assms by (simp add: take_bit_xor take_bit_nat_eq_self push_bit_eq_mult)
  then show "r XOR push_bit m 1 < 2 ^ g" by (metis take_bit_nat_less_exp)
  have "bit (r XOR push_bit m 1) m \<noteq> bit r m" by (simp add: bit_xor_iff bit_exp_iff push_bit_eq_mult)
  then show "r XOR push_bit m 1 \<noteq> r" by metis
  show "(r XOR push_bit m 1) XOR push_bit m 1 = r" by (simp add: xor.assoc)
qed

text \<open>Numbers that agree with \<open>r\<close> below bit \<open>m\<close>, and those with one bit more.\<close>

definition agree :: "nat \<Rightarrow> nat \<Rightarrow> nat \<Rightarrow> nat set" where
  "agree g m r = {r'. r' < 2 ^ g \<and> take_bit m r' = take_bit m r}"

lemma finite_agree [simp]: "finite (agree g m r)"
  by (simp add: agree_def)

lemma agree_full: "r < 2 ^ g \<Longrightarrow> agree g g r = {r}"
  by (auto simp: agree_def take_bit_nat_eq_self)

lemma agree_none: "agree g 0 r = {..<2 ^ g}"
  by (auto simp: agree_def)

lemma take_bit_Suc_iff: "take_bit (Suc m) a = take_bit (Suc m) b \<longleftrightarrow> take_bit m a = take_bit m b \<and> (bit a m \<longleftrightarrow> bit (b :: nat) m)"
  unfolding bit_eq_iff [of "take_bit _ _"] bit_take_bit_iff less_Suc_eq by (simp add: possible_bit_def) blast

lemma take_bit_flip:
  "take_bit m (r XOR push_bit m 1) = take_bit m (r :: nat)" "bit (r XOR push_bit m 1) m \<longleftrightarrow> \<not> bit r m"
  unfolding bit_eq_iff [of "take_bit _ _"] bit_take_bit_iff bit_xor_iff push_bit_eq_mult mult_1 by (auto simp: bit_exp_iff)

lemma agree_split:
  "agree g m r = agree g (Suc m) r \<union> agree g (Suc m) (r XOR push_bit m 1)" "agree g (Suc m) r \<inter> agree g (Suc m) (r XOR push_bit m 1) = {}"
  unfolding agree_def take_bit_Suc_iff take_bit_flip by auto

section \<open>The tables of an axis\<close>

text \<open>An axis with its parameters set, as process \<open>p\<close> of the axis sees it.\<close>

definition at_pos :: "axis_info \<Rightarrow> nat \<Rightarrow> axis_info" where
  "at_pos a p = a\<lparr>nodeinfo_index := p\<rparr>"

definition axis_set :: "axis_info \<Rightarrow> bool" where
  "axis_set a \<longleftrightarrow> 2 \<le> ax_size a \<and> (let n = ax_size a; g = gate_count n in number_gates_of_poweroftwo a = g
     \<and> (if n = 2 ^ g then flag_poweroftwo a \<and> number_gates a = g \<and> on_poweroftwo a = 0 \<and> off_poweroftwo a = n
        else \<not> flag_poweroftwo a \<and> number_gates a = g + 2 \<and> on_poweroftwo a = (n - 2 ^ g) div 2 \<and> off_poweroftwo a = on_poweroftwo a + 2 ^ g))"

lemma axis_params_set: "2 \<le> ax_size a \<Longrightarrow> axis_set (axis_params first a) \<and> ax_size (axis_params first a) = ax_size a"
  using pow2_test [of "ax_size a"] by (simp add: axis_params_def axis_set_def Let_def push_bit_eq_mult)

lemma at_pos_sel [simp]:
  "nodeinfo_index (at_pos a p) = p" "ax_size (at_pos a p) = ax_size a" "number_gates (at_pos a p) = number_gates a"
  "number_gates_of_poweroftwo (at_pos a p) = number_gates_of_poweroftwo a" "flag_poweroftwo (at_pos a p) = flag_poweroftwo a"
  "on_poweroftwo (at_pos a p) = on_poweroftwo a" "off_poweroftwo (at_pos a p) = off_poweroftwo a" "nodeinfo (at_pos a p) = nodeinfo a"
  by (simp_all add: at_pos_def)

text \<open>The sizes of the zones: \<open>on\<close> ears on the left, \<open>r\<close> on the right, and \<open>2 ^ g\<close> nodes between them.\<close>

lemma axis_sizes:
  assumes "axis_set a"
  obtains g on r where "gate_count (ax_size a) = g" "on_poweroftwo a = on" "ax_size a = on + 2 ^ g + r" "off_poweroftwo a = on + 2 ^ g"
    "on + r < 2 ^ g" "0 < g" "on \<le> r" "number_gates_of_poweroftwo a = g" "flag_poweroftwo a \<longleftrightarrow> r = 0"
    "number_gates a = (if r = 0 then g else g + 2)"
proof -
  let ?n = "ax_size a" and ?g = "gate_count (ax_size a)"
  have b: "2 ^ ?g \<le> ?n" "?n < 2 * 2 ^ ?g" using gate_count_bounds [of ?n] assms by (simp_all add: axis_set_def)
  have g: "0 < ?g" using assms by (simp add: axis_set_def gate_count.simps [of ?n])
  show ?thesis
  proof (rule that [of ?g "on_poweroftwo a" "?n - off_poweroftwo a"])
  qed (use assms b g in \<open>auto simp: axis_set_def Let_def split: if_splits\<close>)
qed

text \<open>
  The entries of the tables: an ear gives its value to a cheek before the butterfly and takes
  the result from it afterwards, a cheek the other way round; the others of the power of two
  exchange values with the process that differs in one bit.
\<close>

definition gives :: "axis_info \<Rightarrow> nat \<Rightarrow> nat option" where
  "gives a p = (if p < on_poweroftwo a then Some (p + on_poweroftwo a)
     else if off_poweroftwo a \<le> p then Some (p - (ax_size a - off_poweroftwo a)) else None)"

definition takes :: "axis_info \<Rightarrow> nat \<Rightarrow> nat option" where
  "takes a p = (let on = on_poweroftwo a; off = off_poweroftwo a; r = ax_size a - off in
     if on \<le> p \<and> p < 2 * on then Some (p - on) else if off - r \<le> p \<and> p < off then Some (p + r) else None)"

definition crosses :: "axis_info \<Rightarrow> nat \<Rightarrow> nat \<Rightarrow> nat option" where
  "crosses a p i = (if on_poweroftwo a \<le> p \<and> p < off_poweroftwo a
     then Some (GET_PAIR_OF_POWEROFTWO p (on_poweroftwo a) (number_gates_of_poweroftwo a) i) else None)"

definition send_table :: "axis_info \<Rightarrow> nat \<Rightarrow> nat option list" where
  "send_table a p = (let c = map (crosses a p) [0..<number_gates_of_poweroftwo a] in
     if flag_poweroftwo a then c else gives a p # c @ [takes a p])"

definition recv_table :: "axis_info \<Rightarrow> nat \<Rightarrow> nat option list" where
  "recv_table a p = (let c = map (crosses a p) [0..<number_gates_of_poweroftwo a] in
     if flag_poweroftwo a then c else takes a p # c @ [gives a p])"

lemma make_sequence_tables:
  assumes "axis_set a" "p < ax_size a"
  shows "make_sequence (at_pos a p) = ret (send_table a p, recv_table a p)"
proof -
  obtain g on r where ax: "gate_count (ax_size a) = g" "on_poweroftwo a = on" "ax_size a = on + 2 ^ g + r" "off_poweroftwo a = on + 2 ^ g"
    "on + r < 2 ^ g" "0 < g" "on \<le> r" "number_gates_of_poweroftwo a = g" "flag_poweroftwo a \<longleftrightarrow> r = 0"
    "number_gates a = (if r = 0 then g else g + 2)" using axis_sizes [OF assms(1)] by metis
  have in_core: "on \<le> p \<Longrightarrow> p < on + 2 ^ g \<Longrightarrow> map (crosses a p) [0..<g] = SET_PAIR_POWEROFTWO (at_pos a p) on"
    by (simp add: SET_PAIR_POWEROFTWO_def crosses_def ax)
  have out_core: "\<not> (on \<le> p \<and> p < on + 2 ^ g) \<Longrightarrow> map (crosses a p) [0..<g] = replicate g None"
    by (rule replicate_eqI) (auto simp: crosses_def ax(2-))
  consider (all) "r = 0" | (ear) "0 < r" "\<not> (on \<le> p \<and> p < on + 2 ^ g)" | (core) "0 < r" "on \<le> p" "p < on + 2 ^ g" by blast
  then show ?thesis
  proof cases
    case all
    then show ?thesis using ax assms(2) in_core
      by (simp add: make_sequence_def Let_def send_table_def recv_table_def)
  next
    case ear
    then show ?thesis using assms(2) ax(5,7)
      by (auto simp: make_sequence_def Let_def send_table_def recv_table_def SET_NOOP_FOR_EAR_def gives_def takes_def
          ax(2,3,4,8,9,10) out_core [OF ear(2)] replicate_append_same)
  next
    case core
    then show ?thesis using ax assms(2) in_core
      by (auto simp: make_sequence_def Let_def send_table_def recv_table_def gives_def takes_def)
  qed
qed

section \<open>The processes of an axis fit together\<close>

lemma pair_in_core:
  assumes "axis_set a" "on_poweroftwo a \<le> p" "p < off_poweroftwo a" "i < number_gates_of_poweroftwo a"
    and q: "q = GET_PAIR_OF_POWEROFTWO p (on_poweroftwo a) (number_gates_of_poweroftwo a) i"
  shows "on_poweroftwo a \<le> q" "q < off_poweroftwo a" "GET_PAIR_OF_POWEROFTWO q (on_poweroftwo a) (number_gates_of_poweroftwo a) i = p" "q \<noteq> p"
proof -
  obtain g on r where ax: "on_poweroftwo a = on" "off_poweroftwo a = on + 2 ^ g" "number_gates_of_poweroftwo a = g"
    using axis_sizes [OF assms(1)] by metis
  have "p - on < 2 ^ g" "g - i - 1 < g" using assms ax by auto
  note x = xor_flip [OF this(2,1)]
  show "on_poweroftwo a \<le> q" "q < off_poweroftwo a" "GET_PAIR_OF_POWEROFTWO q (on_poweroftwo a) (number_gates_of_poweroftwo a) i = p" "q \<noteq> p"
    using x assms(2) by (auto simp: q GET_PAIR_OF_POWEROFTWO_def ax)
qed

lemma crosses_sym:
  assumes "axis_set a" "i < number_gates_of_poweroftwo a" "crosses a p i = Some q"
  shows "crosses a q i = Some p" "q < ax_size a" "q \<noteq> p"
proof -
  have c: "on_poweroftwo a \<le> p" "p < off_poweroftwo a" "q = GET_PAIR_OF_POWEROFTWO p (on_poweroftwo a) (number_gates_of_poweroftwo a) i"
    using assms(3) by (auto simp: crosses_def split: if_splits)
  have "off_poweroftwo a \<le> ax_size a" using axis_sizes [OF assms(1)] by (metis le_add1)
  then show "crosses a q i = Some p" "q < ax_size a" "q \<noteq> p"
    using pair_in_core [OF assms(1) c(1,2) assms(2) c(3)] by (auto simp: crosses_def)
qed

lemma gives_takes:
  assumes "axis_set a" "p < ax_size a" "q < ax_size a"
  shows "gives a p = Some q \<longleftrightarrow> takes a q = Some p"
proof -
  obtain g on r where "on_poweroftwo a = on" "ax_size a = on + 2 ^ g + r" "off_poweroftwo a = on + 2 ^ g" "on + r < 2 ^ g"
    using axis_sizes [OF assms(1)] by metis
  then show ?thesis using assms(2,3) unfolding gives_def takes_def Let_def by (auto split: if_splits)
qed

lemma gives_takes_lt:
  assumes "axis_set a" "p < ax_size a"
  shows "gives a p = Some q \<Longrightarrow> q < ax_size a \<and> q \<noteq> p" "takes a p = Some q \<Longrightarrow> q < ax_size a \<and> q \<noteq> p"
proof -
  obtain g on r where "on_poweroftwo a = on" "ax_size a = on + 2 ^ g + r" "off_poweroftwo a = on + 2 ^ g" "on + r < 2 ^ g" "on \<le> r"
    "on_poweroftwo a = on" using axis_sizes [OF assms(1)] by metis
  then show "gives a p = Some q \<Longrightarrow> q < ax_size a \<and> q \<noteq> p" "takes a p = Some q \<Longrightarrow> q < ax_size a \<and> q \<noteq> p"
    using assms(2) unfolding gives_def takes_def Let_def by (auto split: if_splits)
qed

lemma axis_gates:
  assumes "axis_set a"
  shows "number_gates a = (if flag_poweroftwo a then number_gates_of_poweroftwo a else number_gates_of_poweroftwo a + 2)"
  by (rule axis_sizes [OF assms]) simp

lemma length_tables:
  assumes "axis_set a"
  shows "length (send_table a p) = number_gates a" "length (recv_table a p) = number_gates a"
  by (simp_all add: send_table_def recv_table_def Let_def axis_gates [OF assms])

lemma nth_frame: "k < length xs + 2 \<Longrightarrow> (x # xs @ [y]) ! k = (if k = 0 then x else if k \<le> length xs then xs ! (k - 1) else y)"
  by (auto simp: nth_Cons nth_append split: nat.splits)

lemma table_nth:
  assumes "axis_set a" "k < number_gates a"
  shows "send_table a p ! k = (if flag_poweroftwo a then crosses a p k else if k = 0 then gives a p
      else if k \<le> number_gates_of_poweroftwo a then crosses a p (k - 1) else takes a p)"
    "recv_table a p ! k = (if flag_poweroftwo a then crosses a p k else if k = 0 then takes a p
      else if k \<le> number_gates_of_poweroftwo a then crosses a p (k - 1) else gives a p)"
proof -
  note axis_gates [OF assms(1)]
  then show "send_table a p ! k = (if flag_poweroftwo a then crosses a p k else if k = 0 then gives a p
      else if k \<le> number_gates_of_poweroftwo a then crosses a p (k - 1) else takes a p)"
    "recv_table a p ! k = (if flag_poweroftwo a then crosses a p k else if k = 0 then takes a p
      else if k \<le> number_gates_of_poweroftwo a then crosses a p (k - 1) else gives a p)"
    using assms(2) by (auto simp: send_table_def recv_table_def Let_def nth_frame [of k] nth_append split: if_splits)
qed

text \<open>What one process sends at a step the other one receives at the same step, and the other way round.\<close>

lemma tables_match:
  assumes "axis_set a" "p < ax_size a" "q < ax_size a" "k < number_gates a"
  shows "send_table a p ! k = Some q \<longleftrightarrow> recv_table a q ! k = Some p"
proof -
  have "flag_poweroftwo a \<Longrightarrow> k < number_gates_of_poweroftwo a" using assms axis_gates [OF assms(1)] by simp
  then have "crosses a p k = Some q \<longleftrightarrow> crosses a q k = Some p" if "flag_poweroftwo a" using crosses_sym(1) [OF assms(1)] that by metis
  moreover have "crosses a p (k - 1) = Some q \<longleftrightarrow> crosses a q (k - 1) = Some p" if "0 < k" "k \<le> number_gates_of_poweroftwo a"
    using crosses_sym(1) [OF assms(1)] that by (metis One_nat_def diff_less_Suc diff_Suc_1 Suc_pred less_Suc_eq_le not_less)
  ultimately show ?thesis
    using gives_takes [OF assms(1-3)] gives_takes [OF assms(1,3,2)] unfolding table_nth [OF assms(1,4)] by auto
qed

lemma table_range:
  assumes "axis_set a" "p < ax_size a" "k < number_gates a"
  shows "send_table a p ! k = Some q \<Longrightarrow> q < ax_size a \<and> q \<noteq> p" "recv_table a p ! k = Some q \<Longrightarrow> q < ax_size a \<and> q \<noteq> p"
proof -
  have "flag_poweroftwo a \<Longrightarrow> k < number_gates_of_poweroftwo a" using assms axis_gates [OF assms(1)] by simp
  then show "send_table a p ! k = Some q \<Longrightarrow> q < ax_size a \<and> q \<noteq> p" "recv_table a p ! k = Some q \<Longrightarrow> q < ax_size a \<and> q \<noteq> p"
    using gives_takes_lt [OF assms(1,2)] crosses_sym [OF assms(1), of k p q] crosses_sym [OF assms(1), of "k - 1" p q]
    unfolding table_nth [OF assms(1,3)] by (auto split: if_splits)
qed

section \<open>Every process of an axis gets the sum\<close>

abbreviation is_ear :: "axis_info \<Rightarrow> nat \<Rightarrow> bool" where
  "is_ear a p \<equiv> get_my_zone a p = UTF_BG_ALLOC_POWEROFTWO_EAR"

text \<open>
  The value of a process after \<open>k\<close> steps: a gate adds what it receives to the value of the
  gate before it, except in an ear, where the result replaces the value that was given away.
\<close>

fun axis_val :: "axis_info \<Rightarrow> (nat \<Rightarrow> 'v::comm_monoid_add) \<Rightarrow> nat \<Rightarrow> nat \<Rightarrow> 'v" where
  "axis_val a v 0 p = v p"
| "axis_val a v (Suc k) p = (case recv_table a p ! k of None \<Rightarrow> axis_val a v k p
     | Some q \<Rightarrow> (if is_ear a p then 0 else axis_val a v k p) + axis_val a v k q)"

text \<open>Within the power of two: after \<open>k\<close> steps a process has the values of all that agree with it in the lower bits.\<close>

lemma butterfly_val:
  assumes "axis_set a" and on: "on_poweroftwo a = on" and g: "number_gates_of_poweroftwo a = g" and off: "off_poweroftwo a = on + 2 ^ g"
    and step: "\<And>j p. j < g \<Longrightarrow> on \<le> p \<Longrightarrow> p < on + 2 ^ g \<Longrightarrow>
      f (Suc j) p = f j p + f j (GET_PAIR_OF_POWEROFTWO p on g j)"
    and "k \<le> g" "r < 2 ^ g"
  shows "f k (on + r) = (\<Sum>r' \<in> agree g (g - k) r. (f 0 (on + r') :: 'v::comm_monoid_add))"
  using assms(6,7)
proof (induction k arbitrary: r)
  case (Suc k)
  let ?m = "g - Suc k"
  have m: "g - k = Suc ?m" "g - k - 1 = ?m" "?m < g" using Suc.prems by auto
  have pr: "GET_PAIR_OF_POWEROFTWO (on + r) on g k = on + (r XOR push_bit ?m 1)"
    by (simp add: GET_PAIR_OF_POWEROFTWO_def m)
  have "f (Suc k) (on + r) = f k (on + r) + f k (on + (r XOR push_bit ?m 1))" using step [of k "on + r"] Suc.prems unfolding pr by simp
  also have "\<dots> = (\<Sum>r' \<in> agree g (Suc ?m) r. f 0 (on + r')) + (\<Sum>r' \<in> agree g (Suc ?m) (r XOR push_bit ?m 1). f 0 (on + r'))"
    using Suc.IH [of r] Suc.IH [of "r XOR push_bit ?m 1"] Suc.prems xor_flip(1) [OF m(3) Suc.prems(2)] by (simp add: m)
  also have "\<dots> = (\<Sum>r' \<in> agree g ?m r. f 0 (on + r'))"
    unfolding agree_split(1) [of g ?m r] by (rule sum.union_disjoint [symmetric, OF finite_agree finite_agree agree_split(2)])
  finally show ?case .
qed (simp add: agree_full)

lemma is_ear_iff: "is_ear a p \<longleftrightarrow> p < on_poweroftwo a \<or> off_poweroftwo a \<le> p"
  by (simp add: get_my_zone_def)

lemma axis_val_pow2:
  assumes "axis_set a" "flag_poweroftwo a" "p < ax_size a"
  shows "axis_val a v (number_gates a) p = sum v {..<ax_size a}"
proof -
  obtain g where ax: "on_poweroftwo a = 0" "ax_size a = 2 ^ g" "off_poweroftwo a = 2 ^ g" "number_gates_of_poweroftwo a = g" "number_gates a = g"
  proof (rule axis_sizes [OF assms(1)])
    fix g on r
    assume h: "on_poweroftwo a = on" "ax_size a = on + 2 ^ g + r" "off_poweroftwo a = on + 2 ^ g" "on \<le> r" "number_gates_of_poweroftwo a = g"
      "flag_poweroftwo a \<longleftrightarrow> r = 0" "number_gates a = (if r = 0 then g else g + 2)"
    show thesis by (rule that [of g]) (use h assms(2) in auto)
  qed
  have st: "axis_val a v (Suc j) q = axis_val a v j q + axis_val a v j (GET_PAIR_OF_POWEROFTWO q 0 g j)" if "j < g" "q < 2 ^ g" for j q
    using that ax assms(2) by (simp add: table_nth(2) [OF assms(1)] crosses_def is_ear_iff)
  have "axis_val a v g (0 + p) = (\<Sum>r' \<in> agree g (g - g) p. axis_val a v 0 (0 + r'))"
    by (rule butterfly_val [OF assms(1) ax(1,4), of "axis_val a v"]) (use ax st assms(3) in auto)
  then show ?thesis by (simp add: ax agree_none)
qed

lemma axis_val_ears:
  assumes "axis_set a" "\<not> flag_poweroftwo a" "p < ax_size a"
  shows "axis_val a v (number_gates a) p = sum v {..<ax_size a}"
proof -
  obtain g on r where ax: "on_poweroftwo a = on" "ax_size a = on + 2 ^ g + r" "off_poweroftwo a = on + 2 ^ g" "number_gates_of_poweroftwo a = g"
    "number_gates a = g + 2" and le: "on + r < 2 ^ g"
  proof (rule axis_sizes [OF assms(1)])
    fix g on r
    assume h: "on_poweroftwo a = on" "ax_size a = on + 2 ^ g + r" "off_poweroftwo a = on + 2 ^ g" "number_gates_of_poweroftwo a = g"
      "flag_poweroftwo a \<longleftrightarrow> r = 0" "number_gates a = (if r = 0 then g else g + 2)" "on + r < 2 ^ g"
    show thesis by (rule that [of on g r]) (use h assms(2) in auto)
  qed
  note rt = table_nth(2) [OF assms(1)]
  let ?f = "\<lambda>k. axis_val a v (Suc k)"
  have st: "?f (Suc j) q = ?f j q + ?f j (GET_PAIR_OF_POWEROFTWO q on g j)" if "j < g" "on \<le> q" "q < on + 2 ^ g" for j q
    using that ax assms(2) by (simp add: rt [of "Suc j"] crosses_def is_ear_iff)
  have core: "?f g (on + x) = (\<Sum>x<2 ^ g. ?f 0 (on + x))" if "x < 2 ^ g" for x
    using butterfly_val [OF assms(1) ax(1,4,3), of ?f g x] st that by (simp add: agree_none)
  have first: "?f 0 (on + x) = v (on + x) + (if x < on then v x else 0) + (if 2 ^ g - r \<le> x then v (on + x + r) else 0)" if "x < 2 ^ g" for x
    using that ax le assms(2) by (auto simp: rt [of 0] is_ear_iff takes_def Let_def)
  have split: "(\<Sum>x<2 ^ g. ?f 0 (on + x)) = sum v {..<on + 2 ^ g + r}"
  proof -
    have "(\<Sum>x<2 ^ g. ?f 0 (on + x)) = (\<Sum>x<2 ^ g. v (on + x)) + (\<Sum>x<2 ^ g. if x < on then v x else 0)
        + (\<Sum>x<2 ^ g. if 2 ^ g - r \<le> x then v (on + x + r) else 0)"
      using first by (simp add: sum.distrib)
    also have "(\<Sum>x<2 ^ g. if x < on then v x else 0) = sum v {..<on}"
      using le by (intro sum.mono_neutral_cong_right) auto
    also have "(\<Sum>x<2 ^ g. if 2 ^ g - r \<le> x then v (on + x + r) else 0) = (\<Sum>x\<in>{2 ^ g - r..<2 ^ g}. v (on + x + r))"
      by (intro sum.mono_neutral_cong_right) auto
    also have "\<dots> = sum v {on + 2 ^ g..<on + 2 ^ g + r}"
      by (rule sum.reindex_bij_witness [of _ "\<lambda>y. y - on - r" "\<lambda>x. on + x + r"]) (use le in auto)
    also have "(\<Sum>x<2 ^ g. v (on + x)) = sum v {on..<on + 2 ^ g}"
      by (rule sum.reindex_bij_witness [of _ "\<lambda>y. y - on" "\<lambda>x. on + x"]) auto
    also have "sum v {on..<on + 2 ^ g} + sum v {..<on} + sum v {on + 2 ^ g..<on + 2 ^ g + r} = sum v {..<on + 2 ^ g + r}"
      by (simp add: lessThan_atLeast0 add.commute [of "sum v {on..<on + 2 ^ g}"] sum.atLeastLessThan_concat)
    finally show ?thesis .
  qed
  have inner: "?f g q = sum v {..<ax_size a}" if "on \<le> q" "q < on + 2 ^ g" for q
    using core [of "q - on"] split that ax by simp
  show ?thesis
  proof (cases "on \<le> p \<and> p < on + 2 ^ g")
    case True
    then have "axis_val a v (Suc (Suc g)) p = ?f g p" using ax assms(2) by (simp add: rt [of "Suc g"] gives_def)
    then show ?thesis using inner [of p] True ax by simp
  next
    case False
    then obtain q where q: "gives a p = Some q" "on \<le> q" "q < on + 2 ^ g" using ax le assms(3) by (auto simp: gives_def)
    moreover have "is_ear a p" using False ax by (auto simp: is_ear_iff)
    ultimately have "axis_val a v (Suc (Suc g)) p = ?f g q" using ax assms(2) by (simp add: rt [of "Suc g"])
    then show ?thesis using inner [OF q(2,3)] ax by simp
  qed
qed

lemma axis_val_total:
  assumes "axis_set a" "p < ax_size a"
  shows "axis_val a v (number_gates a) p = sum v {..<ax_size a}"
  using axis_val_pow2 [OF assms(1) _ assms(2)] axis_val_ears [OF assms(1) _ assms(2)] by blast

lemma axis_val_cong:
  assumes "axis_set a" "\<And>j. j < ax_size a \<Longrightarrow> f j = f' j" "p < ax_size a" "k \<le> number_gates a"
  shows "axis_val a f k p = axis_val a f' k p"
  using assms(3,4)
proof (induction k arbitrary: p)
  case (Suc k)
  show ?case
  proof (cases "recv_table a p ! k")
    case (Some q)
    have "q < ax_size a" using table_range(2) [OF assms(1) Suc.prems(1) _ Some] Suc.prems(2) by simp
    then show ?thesis using Some Suc.IH [of p] Suc.IH [of q] Suc.prems by simp
  qed (use Suc in simp)
qed (simp add: assms(2))

end
