(* ===== verification/Vbg_Grid.thy ===== *)
theory Vbg_Grid
  imports Vbg_Butterfly_Props
begin

text \<open>
  The butterflies of several axes one after the other: the processes of a group sit on a
  grid, each axis is a butterfly of \<open>Vbg_Butterfly_Props\<close>, and after the last axis every process
  has the sum of the values of all processes of the group.
\<close>

section \<open>Processes on a grid\<close>

text \<open>
  \<open>ax b\<close> are the parameters of axis \<open>b\<close>, \<open>crd P b\<close> is the coordinate of process \<open>P\<close> on it, \<open>pos P b\<close> its
  position in the line through \<open>P\<close> along \<open>b\<close>, and \<open>peer P b i\<close> the process at position \<open>i\<close> of that line. The positions are not
  the coordinates: lines may be ordered differently, but all processes of a line order it in the same way.
\<close>

definition same_line :: "nat list \<Rightarrow> (nat \<Rightarrow> nat \<Rightarrow> nat) \<Rightarrow> nat \<Rightarrow> nat \<Rightarrow> nat \<Rightarrow> bool" where
  "same_line bs crd b P Q \<longleftrightarrow> (\<forall>b' \<in> set bs. b' \<noteq> b \<longrightarrow> crd Q b' = crd P b')"

definition grid :: "nat set \<Rightarrow> (nat \<Rightarrow> axis_info) \<Rightarrow> nat list \<Rightarrow> (nat \<Rightarrow> nat \<Rightarrow> nat) \<Rightarrow> (nat \<Rightarrow> nat \<Rightarrow> nat) \<Rightarrow> (nat \<Rightarrow> nat \<Rightarrow> nat \<Rightarrow> nat) \<Rightarrow> bool" where
  "grid procs ax bs crd pos peer \<longleftrightarrow> finite procs \<and> distinct bs \<and> (\<forall>b \<in> set bs. axis_set (ax b))
     \<and> (\<forall>P \<in> procs. \<forall>b \<in> set bs. pos P b < ax_size (ax b))
     \<and> (\<forall>P \<in> procs. \<forall>b \<in> set bs. \<forall>i < ax_size (ax b). peer P b i \<in> procs \<and> pos (peer P b i) b = i \<and> same_line bs crd b P (peer P b i))
     \<and> (\<forall>P \<in> procs. \<forall>Q \<in> procs. \<forall>b \<in> set bs. same_line bs crd b P Q \<longrightarrow> peer P b (pos Q b) = Q)
     \<and> (\<forall>P \<in> procs. \<forall>Q \<in> procs. \<forall>b \<in> set bs. \<exists>R \<in> procs. same_line bs crd b P R \<and> crd R b = crd Q b)
     \<and> (\<forall>P \<in> procs. \<forall>Q \<in> procs. (\<forall>b \<in> set bs. crd P b = crd Q b) \<longrightarrow> P = Q)"

lemma gridD:
  assumes "grid procs ax bs crd pos peer"
  shows "finite procs" "distinct bs" "b \<in> set bs \<Longrightarrow> axis_set (ax b)" "P \<in> procs \<Longrightarrow> b \<in> set bs \<Longrightarrow> pos P b < ax_size (ax b)"
    "P \<in> procs \<Longrightarrow> b \<in> set bs \<Longrightarrow> i < ax_size (ax b) \<Longrightarrow> peer P b i \<in> procs"
    "P \<in> procs \<Longrightarrow> b \<in> set bs \<Longrightarrow> i < ax_size (ax b) \<Longrightarrow> pos (peer P b i) b = i"
    "P \<in> procs \<Longrightarrow> b \<in> set bs \<Longrightarrow> i < ax_size (ax b) \<Longrightarrow> same_line bs crd b P (peer P b i)"
    "P \<in> procs \<Longrightarrow> Q \<in> procs \<Longrightarrow> (\<And>b. b \<in> set bs \<Longrightarrow> crd P b = crd Q b) \<Longrightarrow> P = Q"
    "P \<in> procs \<Longrightarrow> Q \<in> procs \<Longrightarrow> b \<in> set bs \<Longrightarrow> same_line bs crd b P Q \<Longrightarrow> peer P b (pos Q b) = Q"
    "P \<in> procs \<Longrightarrow> Q \<in> procs \<Longrightarrow> b \<in> set bs \<Longrightarrow> \<exists>R \<in> procs. same_line bs crd b P R \<and> crd R b = crd Q b"
  using assms unfolding grid_def by blast+

lemma peer_peer:
  assumes "grid procs ax bs crd pos peer" "P \<in> procs" "b \<in> set bs" "i < ax_size (ax b)" "j < ax_size (ax b)"
  shows "peer (peer P b i) b j = peer P b j"
proof -
  note g = gridD(5,6,7) [OF assms(1)]
  have p: "peer P b i \<in> procs" "peer (peer P b i) b j \<in> procs" using g(1) assms(2-5) by blast+
  have "same_line bs crd b P (peer (peer P b i) b j)"
    using g(3) [OF assms(2-4)] g(3) [OF p(1) assms(3,5)] by (simp add: same_line_def)
  from gridD(9) [OF assms(1,2) p(2) assms(3) this] show ?thesis using g(2) [OF p(1) assms(3,5)] by simp
qed

lemma peer_self:
  assumes "grid procs ax bs crd pos peer" "P \<in> procs" "b \<in> set bs"
  shows "peer P b (pos P b) = P"
  using gridD(9) [OF assms(1,2,2,3)] by (simp add: same_line_def)

lemma peer_coord:
  assumes "grid procs ax bs crd pos peer" "P \<in> procs" "b \<in> set bs" "i < ax_size (ax b)" "j < ax_size (ax b)"
    and "crd (peer P b i) b = crd (peer P b j) b"
  shows "i = j"
proof -
  note g = gridD(5,6,7) [OF assms(1-3)]
  have "crd (peer P b i) b' = crd (peer P b j) b'" if "b' \<in> set bs" for b'
    using g(3) [OF assms(4)] g(3) [OF assms(5)] that assms(6) by (cases "b' = b") (simp_all add: same_line_def)
  then have "peer P b i = peer P b j" by (rule gridD(8) [OF assms(1) g(1) [OF assms(4)] g(1) [OF assms(5)]])
  then have "pos (peer P b i) b = pos (peer P b j) b" by simp
  then show ?thesis unfolding g(2) [OF assms(4)] g(2) [OF assms(5)] .
qed

section \<open>The rows of a process\<close>

text \<open>A row is an axis and its number there. It receives from one process and sends to one.\<close>

definition row_recv :: "(nat \<Rightarrow> axis_info) \<Rightarrow> (nat \<Rightarrow> nat \<Rightarrow> nat) \<Rightarrow> (nat \<Rightarrow> nat \<Rightarrow> nat \<Rightarrow> nat) \<Rightarrow> nat \<Rightarrow> nat \<times> nat \<Rightarrow> nat option" where
  "row_recv ax pos peer P = (\<lambda>(b, k). if k = 0 then None else map_option (peer P b) (recv_table (ax b) (pos P b) ! (k - 1)))"

definition row_send :: "(nat \<Rightarrow> axis_info) \<Rightarrow> (nat \<Rightarrow> nat \<Rightarrow> nat) \<Rightarrow> (nat \<Rightarrow> nat \<Rightarrow> nat \<Rightarrow> nat) \<Rightarrow> nat \<Rightarrow> nat \<times> nat \<Rightarrow> nat option" where
  "row_send ax pos peer P = (\<lambda>(b, k). if k < number_gates (ax b) then map_option (peer P b) (send_table (ax b) (pos P b) ! k) else None)"

definition row_cut :: "(nat \<Rightarrow> axis_info) \<Rightarrow> (nat \<Rightarrow> nat \<Rightarrow> nat) \<Rightarrow> (nat \<Rightarrow> nat \<Rightarrow> nat \<Rightarrow> nat) \<Rightarrow> nat \<Rightarrow> nat \<times> nat \<Rightarrow> bool" where
  "row_cut ax pos peer P = (\<lambda>(b, k). is_ear (ax b) (pos P b) \<and> row_recv ax pos peer P (b, k) \<noteq> None)"

definition block :: "(nat \<Rightarrow> axis_info) \<Rightarrow> nat \<Rightarrow> (nat \<times> nat) list" where
  "block ax b = map (Pair b) [0..<Suc (number_gates (ax b))]"

text \<open>The values of all processes after one row, and after several.\<close>

definition row_step :: "(nat \<Rightarrow> axis_info) \<Rightarrow> (nat \<Rightarrow> nat \<Rightarrow> nat) \<Rightarrow> (nat \<Rightarrow> nat \<Rightarrow> nat \<Rightarrow> nat) \<Rightarrow> nat \<times> nat
    \<Rightarrow> (nat \<Rightarrow> 'v::comm_monoid_add) \<Rightarrow> nat \<Rightarrow> 'v" where
  "row_step ax pos peer s v P = (if row_cut ax pos peer P s then 0 else v P)
     + (case row_recv ax pos peer P s of None \<Rightarrow> 0 | Some Q \<Rightarrow> v Q)"

lemma block_val:
  assumes "grid procs ax bs crd pos peer" "P \<in> procs" "b \<in> set bs" "k \<le> number_gates (ax b)"
  shows "fold (row_step ax pos peer) (map (Pair b) [0..<Suc k]) v P = axis_val (ax b) (\<lambda>i. v (peer P b i)) k (pos P b)"
  using assms(2,4)
proof (induction k arbitrary: P)
  case 0
  then show ?case using peer_self [OF assms(1) _ assms(3)] by (simp add: row_step_def row_cut_def row_recv_def)
next
  case (Suc k)
  define w where "w = fold (row_step ax pos peer) (map (Pair b) [0..<Suc k]) v"
  let ?q = "recv_table (ax b) (pos P b) ! k"
  have IH: "w Q = axis_val (ax b) (\<lambda>i. v (peer Q b i)) k (pos Q b)" if "Q \<in> procs" for Q unfolding w_def using Suc that by simp
  have ax: "axis_set (ax b)" "pos P b < ax_size (ax b)" using gridD(3,4) [OF assms(1)] assms(3) Suc.prems by auto
  have st: "fold (row_step ax pos peer) (map (Pair b) [0..<Suc (Suc k)]) v P = row_step ax pos peer (b, Suc k) w P" unfolding w_def by simp
  show ?case
  proof (cases ?q)
    case None
    then show ?thesis unfolding st using IH [OF Suc.prems(1)] by (simp add: row_step_def row_cut_def row_recv_def)
  next
    case (Some i)
    have i: "i < ax_size (ax b)" using table_range(2) [OF ax _ Some] Suc.prems by simp
    have Q: "peer P b i \<in> procs" "pos (peer P b i) b = i" using gridD(5,6) [OF assms(1) Suc.prems(1) assms(3) i] by auto
    have "axis_val (ax b) (\<lambda>j. v (peer (peer P b i) b j)) k i = axis_val (ax b) (\<lambda>j. v (peer P b j)) k i"
      by (rule axis_val_cong [OF ax(1)]) (use peer_peer [OF assms(1) Suc.prems(1) assms(3) i] i Suc.prems in simp_all)
    then have "w (peer P b i) = axis_val (ax b) (\<lambda>j. v (peer P b j)) k i" using IH [OF Q(1)] Q(2) by simp
    then show ?thesis unfolding st using Some IH [OF Suc.prems(1)] by (simp add: row_step_def row_cut_def row_recv_def)
  qed
qed

lemma block_total:
  assumes "grid procs ax bs crd pos peer" "P \<in> procs" "b \<in> set bs"
  shows "fold (row_step ax pos peer) (block ax b) v P = (\<Sum>i<ax_size (ax b). v (peer P b i))"
  unfolding block_def block_val [OF assms order_refl]
  using gridD(3,4) [OF assms(1)] assms(2,3) by (simp add: axis_val_total)

section \<open>After all axes\<close>

text \<open>The processes at the position of \<open>P\<close> on the axes that are still to come.\<close>

definition same_on :: "nat set \<Rightarrow> (nat \<Rightarrow> nat \<Rightarrow> nat) \<Rightarrow> nat set \<Rightarrow> nat \<Rightarrow> nat set" where
  "same_on procs crd rest P = {Q \<in> procs. \<forall>b \<in> rest. crd Q b = crd P b}"

lemma same_on_line:
  assumes "grid procs ax bs crd pos peer" "P \<in> procs" "b \<in> set bs" "rest \<subseteq> set bs" "b \<notin> rest"
  shows "same_on procs crd rest P = (\<Union>i<ax_size (ax b). same_on procs crd (insert b rest) (peer P b i))"
proof (intro set_eqI iffI)
  fix Q assume Q: "Q \<in> same_on procs crd rest P"
  then obtain R where R: "R \<in> procs" "same_line bs crd b P R" "crd R b = crd Q b"
    using gridD(10) [OF assms(1,2) _ assms(3)] by (auto simp: same_on_def)
  have "peer P b (pos R b) = R" by (rule gridD(9) [OF assms(1,2) R(1) assms(3) R(2)])
  moreover have "Q \<in> same_on procs crd (insert b rest) R" using Q R(2,3) assms(4,5) by (auto simp: same_on_def same_line_def subset_eq)
  ultimately show "Q \<in> (\<Union>i<ax_size (ax b). same_on procs crd (insert b rest) (peer P b i))"
    using gridD(4) [OF assms(1) R(1) assms(3)] by (metis UN_I lessThan_iff)
next
  fix Q assume "Q \<in> (\<Union>i<ax_size (ax b). same_on procs crd (insert b rest) (peer P b i))"
  then obtain i where "i < ax_size (ax b)" "Q \<in> same_on procs crd (insert b rest) (peer P b i)" by blast
  then show "Q \<in> same_on procs crd rest P"
    using gridD(7) [OF assms(1-3), of i] assms(4,5) by (auto simp: same_on_def same_line_def subset_eq)
qed

lemma blocks_val:
  assumes "grid procs ax bs crd pos peer" "bs = done @ rest" "P \<in> procs"
  shows "fold (row_step ax pos peer) (concat (map (block ax) done)) v P = sum v (same_on procs crd (set rest) P)"
  using assms(2,3)
proof (induction "done" arbitrary: rest P rule: rev_induct)
  case Nil
  have "same_on procs crd (set bs) P = {P}" using gridD(8) [OF assms(1)] Nil.prems(2) by (auto simp: same_on_def)
  then show ?case using Nil by simp
next
  case (snoc b ds)
  have b: "b \<in> set bs" "b \<notin> set rest" "set rest \<subseteq> set bs" using snoc.prems gridD(2) [OF assms(1)] by auto
  define w where "w = fold (row_step ax pos peer) (concat (map (block ax) ds)) v"
  have w: "w Q = sum v (same_on procs crd (insert b (set rest)) Q)" if "Q \<in> procs" for Q
    unfolding w_def using snoc.IH [of "b # rest" Q] snoc.prems that by simp
  have "fold (row_step ax pos peer) (concat (map (block ax) (ds @ [b]))) v P = (\<Sum>i<ax_size (ax b). w (peer P b i))"
    using block_total [OF assms(1) snoc.prems(2) b(1), of w] by (simp add: w_def)
  also have "\<dots> = (\<Sum>i<ax_size (ax b). sum v (same_on procs crd (insert b (set rest)) (peer P b i)))"
    using gridD(5) [OF assms(1) snoc.prems(2) b(1)] w by simp
  also have "\<dots> = sum v (\<Union>i<ax_size (ax b). same_on procs crd (insert b (set rest)) (peer P b i))"
    using gridD(1) [OF assms(1)] peer_coord [OF assms(1) snoc.prems(2) b(1)]
    by (intro sum.UNION_disjoint [symmetric]) (auto simp: same_on_def)
  also have "\<dots> = sum v (same_on procs crd (set rest) P)"
    using same_on_line [OF assms(1) snoc.prems(2) b(1,3,2)] by simp
  finally show ?case .
qed

lemma grid_total:
  assumes "grid procs ax bs crd pos peer" "P \<in> procs"
  shows "fold (row_step ax pos peer) (concat (map (block ax) bs)) v P = sum v procs"
  using blocks_val [OF assms(1) append_Nil2 [symmetric] assms(2)] by (simp add: same_on_def)

end
