(* ===== verification/Vbg_Optimise.thy ===== *)
theory Vbg_Optimise
  imports Vbg_Butterfly
begin

text \<open>
  What \<open>optimized_sequence\<close> leaves of the rows of a process: the chain that follows the links
  consists of the rows that send or receive, with a row that only sends merged into a
  preceding one that only receives. Every receive and every send of the rows is in the
  chain, at its place.
\<close>

section \<open>Following the links\<close>

inductive linked :: "butterfly_seq list \<Rightarrow> nat \<Rightarrow> nat list \<Rightarrow> bool" for rs where
  linked_end: "nextptr (rs ! c) = None \<Longrightarrow> linked rs c [c]"
| linked_link: "nextptr (rs ! c) = Some d \<Longrightarrow> linked rs d ps \<Longrightarrow> linked rs c (c # ps)"

inductive_cases linked_ConsE: "linked rs c (p # q # ps)"
inductive_cases linked_singleE: "linked rs c [p]"

lemma linked_hd: "linked rs c ps \<Longrightarrow> ps \<noteq> [] \<and> hd ps = c"
  by (induction rule: linked.induct) auto

lemma linked_cong:
  assumes "linked rs c ps" "\<And>p. p \<in> set ps \<Longrightarrow> nextptr (rs' ! p) = nextptr (rs ! p)"
  shows "linked rs' c ps"
  using assms by (induction rule: linked.induct) (auto intro: linked.intros)

lemma linked_Cons_iff: "linked rs c (c # d # ps) \<longleftrightarrow> nextptr (rs ! c) = Some d \<and> linked rs d (d # ps)"
proof
  assume "linked rs c (c # d # ps)"
  then show "nextptr (rs ! c) = Some d \<and> linked rs d (d # ps)" by (rule linked_ConsE) (use linked_hd in force)
qed (auto intro: linked_link)

lemma linked_single_iff: "linked rs c [p] \<longleftrightarrow> p = c \<and> nextptr (rs ! c) = None"
  by (auto intro: linked_end elim!: linked_singleE dest: linked_hd)

lemma count_links_chain:
  assumes "linked rs c ps"
  shows "count_links c rs n = Some (n + length ps - 1)"
  using assms
proof (induction arbitrary: n rule: linked.induct)
  case (linked_link c d ps)
  then have "ps \<noteq> []" using linked_hd by blast
  then show ?case using linked_link by (cases ps) (simp_all add: count_links.simps [of c])
qed (simp add: count_links.simps)

lemma linked_last: "linked rs c ps \<Longrightarrow> nextptr (rs ! last ps) = None"
  by (induction rule: linked.induct) (auto dest: linked_hd)

section \<open>Linking\<close>

fun link_list :: "nat list \<Rightarrow> butterfly_seq list \<Rightarrow> butterfly_seq list" where
  "link_list (c # d # ps) rs = link_list (d # ps) (set_next c (Some d) rs)"
| "link_list ps rs = rs"

abbreviation idle :: "butterfly_seq \<Rightarrow> bool" where
  "idle r \<equiv> no_send r \<and> no_recv r"

text \<open>What a row does, without its link.\<close>

definition acts :: "butterfly_seq \<Rightarrow> u64 \<times> butterfly_proc_info \<times> butterfly_proc_info" where
  "acts r = (sq_vbg_id r, recvinfo r, sendinfo r)"

lemma acts_set_next [simp]: "acts (set_next c p rs ! x) = acts (rs ! x)" "length (set_next c p rs) = length rs"
  by (cases "c < length rs") (auto simp: set_next_def acts_def nth_list_update list_update_beyond)

lemma acts_idle: "acts r = acts r' \<Longrightarrow> (no_send r \<longleftrightarrow> no_send r') \<and> (no_recv r \<longleftrightarrow> no_recv r')"
  by (simp add: acts_def)

lemma acts_link_list [simp]: "acts (link_list ps rs ! x) = acts (rs ! x)" "length (link_list ps rs) = length rs"
  by (induction ps rs rule: link_list.induct) simp_all

lemma idle_set_next [simp]: "no_send (set_next c p rs ! x) \<longleftrightarrow> no_send (rs ! x)" "no_recv (set_next c p rs ! x) \<longleftrightarrow> no_recv (rs ! x)"
  using acts_idle [OF acts_set_next(1)] by blast+

lemma idle_link_list [simp]: "no_send (link_list ps rs ! x) \<longleftrightarrow> no_send (rs ! x)" "no_recv (link_list ps rs ! x) \<longleftrightarrow> no_recv (rs ! x)"
  using acts_idle [OF acts_link_list(1)] by blast+

lemma link_list_snoc: "ps \<noteq> [] \<Longrightarrow> link_list (ps @ [d]) rs = set_next (last ps) (Some d) (link_list ps rs)"
  by (induction ps rs rule: link_list.induct) simp_all

lemma link_loop_list:
  "link_loop m cur nxt rs = (let ps = filter (\<lambda>i. \<not> idle (rs ! i)) [nxt..<nxt + m] in (link_list (cur # ps) rs, last (cur # ps), nxt + m))"
proof (induction m arbitrary: cur nxt rs)
  case (Suc m)
  have u: "[nxt..<nxt + Suc m] = nxt # [nxt + 1..<nxt + 1 + m]" by (simp add: upt_conv_Cons del: upt_Suc)
  show ?case unfolding link_loop.simps Suc.IH u Let_def by simp
qed simp

lemma nextptr_set_next: "c < length rs \<Longrightarrow> nextptr (set_next c p rs ! x) = (if x = c then p else nextptr (rs ! x))"
  by (auto simp: set_next_def)

lemma nextptr_link_list:
  assumes "distinct ps" "\<forall>p \<in> set ps. p < length rs" "x \<notin> set (butlast ps)"
  shows "nextptr (link_list ps rs ! x) = nextptr (rs ! x)"
  using assms by (induction ps rs rule: link_list.induct) (simp_all add: nextptr_set_next)

lemma linked_link_list:
  assumes "distinct ps" "ps \<noteq> []" "\<forall>p \<in> set ps. p < length rs" "nextptr (rs ! last ps) = None"
  shows "linked (link_list ps rs) (hd ps) ps"
  using assms
proof (induction ps rs rule: link_list.induct)
  case (1 c d ps rs)
  have "nextptr (link_list (d # ps) (set_next c (Some d) rs) ! c) = Some d"
    using "1.prems" by (subst nextptr_link_list) (auto simp: nextptr_set_next dest: in_set_butlastD)
  moreover have "linked (link_list (d # ps) (set_next c (Some d) rs)) d (d # ps)"
  proof -
    have "last (d # ps) \<in> set (d # ps)" by (rule last_in_set) simp
    then have "last (d # ps) \<noteq> c" using "1.prems"(1) by (metis distinct.simps(2))
    then show ?thesis using 1 by (simp add: nextptr_set_next)
  qed
  ultimately show ?case by (simp add: linked_link)
qed (auto intro: linked_end)

lemma linked_extend:
  assumes "linked rs c ps" "distinct ps" "\<forall>p \<in> set ps. p < length rs" "d \<notin> set ps" "d < length rs"
  shows "linked (set_next d None (set_next (last ps) (Some d) rs)) c (ps @ [d])"
  using assms
proof (induction rule: linked.induct)
  case (linked_end c)
  then show ?case by (auto intro!: linked.intros simp: nextptr_set_next)
next
  case (linked_link c e ps)
  have ps: "ps \<noteq> []" using linked_hd [OF linked_link.hyps(2)] by simp
  then have "last ps \<noteq> c" using linked_link.prems(1) by auto
  then have "nextptr (set_next d None (set_next (last (c # ps)) (Some d) rs) ! c) = Some e"
    using ps linked_link by (simp add: nextptr_set_next)
  then show ?case using ps linked_link by (auto intro: linked.linked_link)
qed

lemma linked_stop:
  assumes "linked rs c ps" "last ps < length rs"
  shows "linked (set_next (last ps) None rs) c ps"
  using assms linked_last [OF assms(1)] by (auto intro!: linked_cong [OF assms(1)] simp: nextptr_set_next)

section \<open>Merging\<close>

text \<open>The gates of a chain of rows: the row that receives and the one whose send it takes.\<close>

fun gates_of :: "butterfly_seq list \<Rightarrow> nat list \<Rightarrow> (nat \<times> nat) list" where
  "gates_of rs (c # d # ps) = (if mergeable (rs ! c) (rs ! d) then (c, d) # gates_of rs ps else (c, c) # gates_of rs (d # ps))"
| "gates_of rs [c] = [(c, c)]"
| "gates_of rs [] = []"

lemma mergeable_acts: "acts r = acts r' \<Longrightarrow> acts s = acts s' \<Longrightarrow> mergeable r s = mergeable r' s'"
  by (simp add: mergeable_def acts_def)

lemma gates_of_cong: "(\<And>p. p \<in> set ps \<Longrightarrow> acts (rs ! p) = acts (rs' ! p)) \<Longrightarrow> gates_of rs ps = gates_of rs' ps"
proof (induction rs ps rule: gates_of.induct)
  case (1 rs c d ps)
  then show ?case using mergeable_acts [of "rs ! c" "rs' ! c" "rs ! d" "rs' ! d"] by simp
qed simp_all

lemma gates_of_set: "(c, e) \<in> set (gates_of rs ps) \<Longrightarrow> c \<in> set ps \<and> e \<in> set ps"
  by (induction rs ps rule: gates_of.induct) (auto split: if_splits)

lemma gates_of_no_recv: "no_recv (rs ! d) \<Longrightarrow> gates_of rs (d # ps) = (d, d) # gates_of rs ps"
  by (cases ps) (simp_all add: mergeable_def)

text \<open>What the merging loop has done to the rows of a chain.\<close>

definition merged :: "butterfly_seq list \<Rightarrow> (nat \<times> nat) list \<Rightarrow> butterfly_seq list \<Rightarrow> bool" where
  "merged rs gs rs' \<longleftrightarrow> length rs' = length rs \<and> (\<forall>x. recvinfo (rs' ! x) = recvinfo (rs ! x) \<and> sq_vbg_id (rs' ! x) = sq_vbg_id (rs ! x))
     \<and> (\<forall>x. x \<notin> fst ` set gs \<longrightarrow> rs' ! x = rs ! x)
     \<and> (\<forall>(c, e) \<in> set gs. sendinfo (rs' ! c) = sendinfo (rs ! e) \<and> (c = e \<longrightarrow> rs' ! c = rs ! c))"

lemma merge_row_sel: "recvinfo (merge_row c d) = recvinfo c" "sq_vbg_id (merge_row c d) = sq_vbg_id c"
  by (simp_all add: merge_row_def)

lemma merge_loop_single: "nextptr (rs ! c) = None \<Longrightarrow> merge_loop c rs = Some rs"
  by (simp add: merge_loop.simps [of c])

lemma merge_loop_next: "nextptr (rs ! c) = Some d \<Longrightarrow> merge_loop c rs = merge_loop d (rs[c := merge_row (rs ! c) (rs ! d)])"
  by (simp add: merge_loop.simps [of c])

lemma mergedD:
  assumes "merged rs gs rs'"
  shows "length rs' = length rs" "recvinfo (rs' ! x) = recvinfo (rs ! x)" "sq_vbg_id (rs' ! x) = sq_vbg_id (rs ! x)"
    "x \<notin> fst ` set gs \<Longrightarrow> rs' ! x = rs ! x" "(c, e) \<in> set gs \<Longrightarrow> sendinfo (rs' ! c) = sendinfo (rs ! e)"
    "(c, c) \<in> set gs \<Longrightarrow> rs' ! c = rs ! c"
  using assms by (auto simp: merged_def)

text \<open>One round of the merging loop, when the rest of the chain has been handled.\<close>

lemma merge_round:
  assumes nx: "nextptr (rs ! c) = Some d" and dis: "c \<notin> set (d # ps)" "distinct (d # ps)" "c < length rs"
    and r: "r = rs[c := merge_row (rs ! c) (rs ! d)]"
    and l: "linked rs' d (map fst (gates_of rs (d # ps)))" and m: "merged r (gates_of rs (d # ps)) rs'"
  shows "linked rs' c (map fst (gates_of rs (c # d # ps))) \<and> merged rs (gates_of rs (c # d # ps)) rs'"
proof -
  have cn: "c \<notin> fst ` set (gates_of rs (d # ps))" using gates_of_set dis(1) by fastforce
  have cr: "rs' ! c = merge_row (rs ! c) (rs ! d)" using mergedD(4) [OF m cn] dis(3) r by simp
  have rx: "r ! x = rs ! x" if "x \<noteq> c" for x using that r by simp
  note rr = mergedD(2,3) [OF m]
  have ri: "recvinfo (rs' ! x) = recvinfo (rs ! x)" "sq_vbg_id (rs' ! x) = sq_vbg_id (rs ! x)" for x
    using rr [of x] rx [of x] cr by (cases "x = c"; simp add: merge_row_sel)+
  have snd: "sendinfo (rs' ! b) = sendinfo (rs ! e) \<and> (b = e \<longrightarrow> rs' ! b = rs ! b)" if "(b, e) \<in> set (gates_of rs (d # ps))" for b e
    using mergedD(5,6) [OF m] that gates_of_set [OF that] dis(1) rx by (metis list.set_intros)
  show ?thesis
  proof (cases "mergeable (rs ! c) (rs ! d)")
    case True
    then have nr: "no_recv (rs ! d)" by (simp add: mergeable_def)
    note gd = gates_of_no_recv [OF nr, of ps]
    have dd: "rs' ! d = rs ! d" using snd [of d d] gd by simp
    have cs: "sendinfo (rs' ! c) = sendinfo (rs ! d)" "nextptr (rs' ! c) = nextptr (rs ! d)"
      using cr True by (simp_all add: merge_row_def)
    have "linked rs' c (c # map fst (gates_of rs ps))"
    proof (cases "gates_of rs ps")
      case Nil
      then show ?thesis using l gd dd cs by (simp add: linked_single_iff)
    next
      case (Cons g gs)
      then have "linked rs' d (d # fst g # map fst gs)" using l gd by simp
      then show ?thesis using dd cs Cons by (auto simp: linked_Cons_iff intro: linked_link)
    qed
    moreover have "rs' ! x = rs ! x" if "x \<noteq> c" "x \<notin> fst ` set (gates_of rs ps)" for x
      using mergedD(4) [OF m, of x] rx [of x] gd dd that by (cases "x = d") auto
    moreover have "sendinfo (rs' ! b) = sendinfo (rs ! e) \<and> (b = e \<longrightarrow> rs' ! b = rs ! b)" if "(b, e) \<in> set ((c, d) # gates_of rs ps)" for b e
      using that snd [of b e] gd cs(1) dis(1) by auto
    ultimately show ?thesis using True ri mergedD(1) [OF m] r unfolding merged_def by simp blast
  next
    case False
    then have c: "rs' ! c = rs ! c" using cr by (simp add: merge_row_def)
    have "map fst (gates_of rs (d # ps)) \<noteq> [] \<and> hd (map fst (gates_of rs (d # ps))) = d" using linked_hd [OF l] .
    then have "linked rs' c (c # map fst (gates_of rs (d # ps)))" using l c nx by (auto intro: linked_link)
    moreover have "rs' ! x = rs ! x" if "x \<noteq> c" "x \<notin> fst ` set (gates_of rs (d # ps))" for x
      using mergedD(4) [OF m that(2)] rx [OF that(1)] by simp
    ultimately show ?thesis using False ri c snd mergedD(1) [OF m] r by (auto simp: merged_def)
  qed
qed

lemma merge_loop_chain:
  assumes "linked rs c ps" "distinct ps" "\<forall>p \<in> set ps. p < length rs"
  shows "\<exists>rs'. merge_loop c rs = Some rs' \<and> linked rs' c (map fst (gates_of rs ps)) \<and> merged rs (gates_of rs ps) rs'"
  using assms
proof (induction "length ps" arbitrary: c rs ps)
  case 0
  then show ?case using linked_hd by fastforce
next
  case (Suc n)
  obtain qs where ps: "ps = c # qs" using linked_hd [OF Suc.prems(1)] by (cases ps) auto
  show ?case
  proof (cases qs)
    case Nil
    then have "nextptr (rs ! c) = None" using Suc.prems(1) ps by (simp add: linked_single_iff)
    then show ?thesis using Nil ps by (auto simp: merge_loop_single merged_def intro: linked_end)
  next
    case (Cons d us)
    let ?r = "rs[c := merge_row (rs ! c) (rs ! d)]"
    have nx: "nextptr (rs ! c) = Some d" and ld: "linked rs d (d # us)" using Suc.prems(1) ps Cons by (auto simp: linked_Cons_iff)
    have dis: "c \<notin> set (d # us)" "distinct (d # us)" "c < length rs" "\<forall>p \<in> set (d # us). p < length ?r"
      using Suc.prems(2,3) ps Cons by auto
    have same: "?r ! x = rs ! x" if "x \<in> set (d # us)" for x using that dis(1) by (cases "x = c") auto
    have ge: "gates_of ?r (d # us) = gates_of rs (d # us)" by (rule gates_of_cong) (simp add: same)
    have "linked ?r d (d # us)" using linked_cong [OF ld, of ?r] same by simp
    then obtain rs' where IH: "merge_loop d ?r = Some rs'" "linked rs' d (map fst (gates_of rs (d # us)))" "merged ?r (gates_of rs (d # us)) rs'"
      using Suc.hyps(1) [of "d # us" ?r d] dis(2,4) Suc.hyps(2) ps Cons ge by auto
    then show ?thesis using merge_round [OF nx dis(1-3) refl IH(2,3)] nx ps Cons by (auto simp: merge_loop_next)
  qed
qed

section \<open>The gates of a sequence\<close>

lemma gates_of_sorted:
  assumes "sorted_wrt (<) ps"
  shows "sorted_wrt (\<lambda>g g'. snd g < fst g') (gates_of rs ps) \<and> (\<forall>(c, e) \<in> set (gates_of rs ps). c \<le> e)"
  using assms
proof (induction rs ps rule: gates_of.induct)
  case (1 rs c d ps)
  have "k < fst g" if "g \<in> set (gates_of rs qs)" "\<forall>x \<in> set qs. k < x" for k g qs
    using that gates_of_set [of "fst g" "snd g" rs qs] by simp
  then show ?case using 1 by auto
qed simp_all

lemma gates_of_recv: "t \<in> set ps \<Longrightarrow> \<not> no_recv (rs ! t) \<Longrightarrow> t \<in> fst ` set (gates_of rs ps)"
  by (induction rs ps rule: gates_of.induct) (auto simp: mergeable_def)

lemma gates_of_send: "t \<in> set ps \<Longrightarrow> \<not> no_send (rs ! t) \<Longrightarrow> t \<in> snd ` set (gates_of rs ps)"
  by (induction rs ps rule: gates_of.induct) (auto simp: mergeable_def)

lemma gates_of_merged: "(c, e) \<in> set (gates_of rs ps) \<Longrightarrow> c \<noteq> e \<Longrightarrow> mergeable (rs ! c) (rs ! e)"
  by (induction rs ps rule: gates_of.induct) (auto split: if_splits)

lemma gates_of_hd: "ps \<noteq> [] \<Longrightarrow> gates_of rs ps \<noteq> [] \<and> fst (hd (gates_of rs ps)) = hd ps"
  by (induction rs ps rule: gates_of.induct) auto

lemma gates_of_last: "ps \<noteq> [] \<Longrightarrow> no_send (rs ! last ps) \<Longrightarrow> last (gates_of rs ps) = (last ps, last ps)"
proof (induction rs ps rule: gates_of.induct)
  case (1 rs c d ps)
  show ?case
  proof (cases "mergeable (rs ! c) (rs ! d)")
    case True
    then have "ps \<noteq> []" using "1.prems"(2) by (auto simp: mergeable_def)
    then show ?thesis using True 1 gates_of_hd [of ps rs] by simp
  next
    case False
    then show ?thesis using 1 gates_of_hd [of "d # ps" rs] by simp
  qed
qed simp_all

lemma length_gates_of: "length ps \<le> 2 * length (gates_of rs ps)"
  by (induction rs ps rule: gates_of.induct) auto

text \<open>
  The rows a sequence keeps: a first row, then the rows that do something, and the last row unless it
  is idle and the row before it does not send.
\<close>

definition first_row :: "butterfly_seq list \<Rightarrow> nat" where
  "first_row rs = (if idle (rs ! 0) \<and> no_recv (rs ! 1) then 1 else 0)"

definition inner_rows :: "butterfly_seq list \<Rightarrow> nat list" where
  "inner_rows rs = first_row rs # filter (\<lambda>i. \<not> idle (rs ! i)) [first_row rs + 1..<length rs - 1]"

definition kept_rows :: "butterfly_seq list \<Rightarrow> nat list" where
  "kept_rows rs = (if idle (rs ! (length rs - 1)) \<and> no_send (rs ! last (inner_rows rs)) then inner_rows rs else inner_rows rs @ [length rs - 1])"

definition seq_gates :: "butterfly_seq list \<Rightarrow> (nat \<times> nat) list" where
  "seq_gates rs = gates_of rs (kept_rows rs)"

lemma inner_rows_bounds:
  assumes "first_row rs + 2 \<le> length rs"
  shows "sorted_wrt (<) (inner_rows rs)" "\<forall>p \<in> set (inner_rows rs). p < length rs - 1" "inner_rows rs \<noteq> []"
  using assms unfolding inner_rows_def by (auto simp: sorted_wrt_filter)

lemma kept_rows_bounds:
  assumes "first_row rs + 2 \<le> length rs"
  shows "sorted_wrt (<) (kept_rows rs)" "\<forall>p \<in> set (kept_rows rs). p < length rs" "kept_rows rs \<noteq> []" "hd (kept_rows rs) = first_row rs"
  using inner_rows_bounds [OF assms] assms by (auto simp: kept_rows_def sorted_wrt_append inner_rows_def)

lemma optimized_links:
  assumes "first_row rs + 2 \<le> length rs" "\<forall>r \<in> set rs. nextptr r = None"
  shows "\<exists>rs2. optimized_sequence rs = (case merge_loop (first_row rs) rs2 of None \<Rightarrow> None | Some rs3 \<Rightarrow> ret (first_row rs, rs3))
    \<and> linked rs2 (first_row rs) (kept_rows rs) \<and> length rs2 = length rs \<and> (\<forall>x. acts (rs2 ! x) = acts (rs ! x))"
proof -
  let ?s = "first_row rs" and ?L = "length rs"
  have m: "?s + 1 + (?L - ?s - 2) = ?L - 1" using assms(1) by simp
  have ll: "link_loop (?L - ?s - 2) ?s (?s + 1) rs = (link_list (inner_rows rs) rs, last (inner_rows rs), ?L - 1)"
    unfolding link_loop_list Let_def m inner_rows_def ..
  note ib = inner_rows_bounds [OF assms(1)] and kb = kept_rows_bounds [OF assms(1)]
  have di: "distinct (inner_rows rs)" "distinct (kept_rows rs)" using ib(1) kb(1) by (simp_all add: strict_sorted_iff)
  have nn: "nextptr (rs ! p) = None" if "p < ?L" for p using assms(2) that by simp
  let ?r1 = "link_list (inner_rows rs) rs"
  define rs2 where "rs2 = (if idle (?r1 ! (?L - 1)) \<and> no_send (?r1 ! last (inner_rows rs)) then set_next (last (inner_rows rs)) None ?r1
      else set_next (?L - 1) None (set_next (last (inner_rows rs)) (Some (?L - 1)) ?r1))"
  have op: "optimized_sequence rs = (case merge_loop ?s rs2 of None \<Rightarrow> None | Some rs3 \<Rightarrow> ret (?s, rs3))"
  proof -
    have f: "(if no_send (rs ! 0) \<and> no_recv (rs ! 0) \<and> no_recv (rs ! 1) then 1 else 0) = ?s" by (simp add: first_row_def)
    have g: "(?L < 2) = False" "(?L - ?s < 2) = False" using assms(1) by simp_all
    show ?thesis unfolding optimized_sequence_def Let_def f g if_False ll prod.case rs2_def conj_assoc ..
  qed
  have li: "last (inner_rows rs) \<in> set (inner_rows rs)" using ib(3) by simp
  then have lt: "last (inner_rows rs) < ?L - 1" using ib(2) by blast
  have l1: "linked ?r1 ?s (inner_rows rs)"
  proof -
    have "hd (inner_rows rs) = ?s" by (simp add: inner_rows_def)
    moreover have "\<forall>p \<in> set (inner_rows rs). p < ?L" using ib(2) by fastforce
    moreover have "nextptr (rs ! last (inner_rows rs)) = None" using lt by (intro nn) simp
    ultimately show ?thesis using linked_link_list [OF di(1) ib(3), of rs] by simp
  qed
  have "\<forall>p \<in> set (inner_rows rs). p < length ?r1" "?L - 1 \<notin> set (inner_rows rs)" "?L - 1 < length ?r1" using ib(2) assms(1) by fastforce+
  then have l2: "linked (set_next (?L - 1) None (set_next (last (inner_rows rs)) (Some (?L - 1)) ?r1)) ?s (inner_rows rs @ [?L - 1])"
    by (rule linked_extend [OF l1 di(1)])
  have l3: "linked (set_next (last (inner_rows rs)) None ?r1) ?s (inner_rows rs)" using lt by (intro linked_stop [OF l1]) simp
  have "linked rs2 ?s (kept_rows rs)" unfolding rs2_def kept_rows_def idle_link_list using l2 l3 by simp
  then show ?thesis using op by (auto simp: rs2_def)
qed

lemma optimized_gates:
  assumes "first_row rs + 2 \<le> length rs" "\<forall>r \<in> set rs. nextptr r = None"
  obtains rs' where "optimized_sequence rs = ret (first_row rs, rs')" "linked rs' (first_row rs) (map fst (seq_gates rs))" "length rs' = length rs"
    "\<And>x. recvinfo (rs' ! x) = recvinfo (rs ! x)" "\<And>x. x \<notin> fst ` set (seq_gates rs) \<Longrightarrow> sendinfo (rs' ! x) = sendinfo (rs ! x)"
    "\<And>c e. (c, e) \<in> set (seq_gates rs) \<Longrightarrow> sendinfo (rs' ! c) = sendinfo (rs ! e)"
proof -
  obtain rs2 where op: "optimized_sequence rs = (case merge_loop (first_row rs) rs2 of None \<Rightarrow> None | Some rs3 \<Rightarrow> ret (first_row rs, rs3))"
    and l2: "linked rs2 (first_row rs) (kept_rows rs)" "length rs2 = length rs" and a: "\<And>x. acts (rs2 ! x) = acts (rs ! x)"
    using optimized_links [OF assms] by blast
  note kb = kept_rows_bounds [OF assms(1)]
  have ge: "gates_of rs2 (kept_rows rs) = seq_gates rs" unfolding seq_gates_def by (rule gates_of_cong) (rule a)
  obtain rs' where r: "merge_loop (first_row rs) rs2 = Some rs'" "linked rs' (first_row rs) (map fst (seq_gates rs))" "merged rs2 (seq_gates rs) rs'"
    using merge_loop_chain [OF l2(1)] kb(1,2) l2(2) ge by (auto simp: strict_sorted_iff)
  have "sendinfo (rs2 ! x) = sendinfo (rs ! x)" "recvinfo (rs2 ! x) = recvinfo (rs ! x)" for x using a [of x] by (simp_all add: acts_def)
  then show thesis using that [of rs'] op r mergedD [OF r(3)] l2(2) by simp
qed

end
