(* ===== verification/Vbg_Rows.thy ===== *)
theory Vbg_Rows
  imports Vbg_Grid Vbg_Optimise
begin

text \<open>
  The rows of all axes of a process on a grid: what \<open>make_butterfly_network\<close> builds before it
  optimises, in terms of the tables of the axes, and the facts about these rows on which the network rests: sends and
  receives of two processes fit together, and a process exchanges with another at most once.
\<close>

section \<open>The rows of a grid\<close>

definition grid_rows :: "(nat \<Rightarrow> axis_info) \<Rightarrow> nat list \<Rightarrow> (nat \<times> nat) list" where
  "grid_rows ax bs = concat (map (block ax) bs)"

lemma length_block [simp]: "length (block ax b) = Suc (number_gates (ax b))"
  by (simp add: block_def)

lemma nth_block: "k \<le> number_gates (ax b) \<Longrightarrow> block ax b ! k = (b, k)"
  unfolding block_def by (simp del: upt_Suc)

lemma set_block: "x \<in> set (block ax b) \<longleftrightarrow> fst x = b \<and> snd x \<le> number_gates (ax b)"
  unfolding block_def by (cases x) (auto simp del: upt_Suc)

lemma grid_rows_set: "x \<in> set (grid_rows ax bs) \<longleftrightarrow> fst x \<in> set bs \<and> snd x \<le> number_gates (ax (fst x))"
  unfolding grid_rows_def by (auto simp: set_block)

lemma grid_rows_distinct: "distinct bs \<Longrightarrow> distinct (grid_rows ax bs)"
  by (induction bs) (auto simp: grid_rows_def set_block block_def distinct_map inj_on_def simp del: upt_Suc)

lemma grid_rows_next:
  assumes "t < length (grid_rows ax bs)" "grid_rows ax bs ! t = (b, k)" "k < number_gates (ax b)"
  shows "t + 1 < length (grid_rows ax bs) \<and> grid_rows ax bs ! (t + 1) = (b, k + 1)"
  using assms
proof (induction bs arbitrary: t)
  case (Cons b' bs)
  let ?n = "Suc (number_gates (ax b'))"
  have gr: "grid_rows ax (b' # bs) = block ax b' @ grid_rows ax bs" by (simp add: grid_rows_def)
  show ?case
  proof (cases "t < ?n")
    case True
    then have "b' = b" "t = k" using Cons.prems(2) by (auto simp: gr nth_append nth_block)
    then show ?thesis unfolding gr using Cons.prems(3) by (simp add: nth_append nth_block)
  next
    case False
    then obtain u where u: "t = ?n + u" by (metis le_Suc_ex not_less)
    show ?thesis using Cons.IH [of u] Cons.prems unfolding gr u by (simp add: nth_append)
  qed
qed (simp add: grid_rows_def)

lemma grid_rows_prev:
  assumes "distinct bs" "t < length (grid_rows ax bs)" "grid_rows ax bs ! t = (b, Suc k)"
  shows "0 < t \<and> grid_rows ax bs ! (t - 1) = (b, k)"
proof -
  have "fst (b, Suc k) \<in> set bs \<and> snd (b, Suc k) \<le> number_gates (ax (fst (b, Suc k)))" using assms(2,3) by (metis grid_rows_set nth_mem)
  then have k: "b \<in> set bs" "k < number_gates (ax b)" by auto
  then have "(b, k) \<in> set (grid_rows ax bs)" by (simp add: grid_rows_set)
  then obtain u where u: "u < length (grid_rows ax bs)" "grid_rows ax bs ! u = (b, k)" by (auto simp: in_set_conv_nth)
  from grid_rows_next [OF u k(2)] have "u + 1 = t"
    using grid_rows_distinct [OF assms(1), of ax] assms(2,3) by (metis nth_eq_iff_index_eq Suc_eq_plus1)
  then show ?thesis using u by auto
qed

lemma grid_rows_ends:
  assumes "bs \<noteq> []"
  shows "grid_rows ax bs \<noteq> []" "grid_rows ax bs ! 0 = (hd bs, 0)" "grid_rows ax bs ! (length (grid_rows ax bs) - 1) = (last bs, number_gates (ax (last bs)))"
proof -
  show n: "grid_rows ax bs \<noteq> []" using assms by (cases bs) (auto simp: grid_rows_def block_def simp del: upt_Suc)
  show "grid_rows ax bs ! 0 = (hd bs, 0)" using assms by (cases bs) (auto simp: grid_rows_def nth_append nth_block)
  have "grid_rows ax bs = grid_rows ax (butlast bs) @ block ax (last bs)"
    using assms by (metis append_butlast_last_id concat.simps concat_append grid_rows_def list.simps(8,9) map_append append.right_neutral)
  then have "last (grid_rows ax bs) = last (block ax (last bs))" by (simp add: block_def)
  then show "grid_rows ax bs ! (length (grid_rows ax bs) - 1) = (last bs, number_gates (ax (last bs)))"
    using n by (simp add: last_conv_nth nth_block block_def)
qed

section \<open>Sends and receives\<close>

lemma table_some:
  assumes "axis_set a" "k < number_gates a" "p < ax_size a"
  shows "send_table a p ! k = Some i \<Longrightarrow> i < ax_size a" "recv_table a p ! k = Some i \<Longrightarrow> i < ax_size a"
  using table_range [OF assms(1,3,2)] by blast+

lemma row_range:
  assumes "grid procs ax bs crd pos peer" "P \<in> procs" "b \<in> set bs"
  shows "row_send ax pos peer P (b, k) = Some Q \<Longrightarrow> k < number_gates (ax b) \<and> Q \<in> procs \<and> Q \<noteq> P \<and> same_line bs crd b P Q"
    "row_recv ax pos peer P (b, Suc k) = Some Q \<Longrightarrow> k < number_gates (ax b) \<Longrightarrow> Q \<in> procs \<and> Q \<noteq> P \<and> same_line bs crd b P Q"
proof -
  note a = gridD(3) [OF assms(1,3)] and p = gridD(4) [OF assms] and g = gridD(5,6,7) [OF assms]
  have ne: "peer P b i \<noteq> P" if "i < ax_size (ax b)" "i \<noteq> pos P b" for i using g(2) [OF that(1)] that(2) by metis
  show "k < number_gates (ax b) \<and> Q \<in> procs \<and> Q \<noteq> P \<and> same_line bs crd b P Q" if "row_send ax pos peer P (b, k) = Some Q"
    using that table_range(1) [OF a p] g(1,3) ne by (auto simp: row_send_def split: if_splits)
  show "Q \<in> procs \<and> Q \<noteq> P \<and> same_line bs crd b P Q" if "row_recv ax pos peer P (b, Suc k) = Some Q" "k < number_gates (ax b)"
    using that table_range(2) [OF a p] g(1,3) ne by (auto simp: row_recv_def)
qed

lemma rows_match:
  assumes "grid procs ax bs crd pos peer" "P \<in> procs" "Q \<in> procs" "b \<in> set bs" "k < number_gates (ax b)"
  shows "row_send ax pos peer P (b, k) = Some Q \<longleftrightarrow> row_recv ax pos peer Q (b, Suc k) = Some P"
proof -
  note a = gridD(3) [OF assms(1,4)]
  have half: "tab1 (pos Q b) ! k = Some (pos P b) \<and> Q = peer P b (pos Q b) \<and> P = peer Q b (pos P b)"
    if mo: "map_option (peer P b) (tab0 (pos P b) ! k) = Some Q" and P: "P \<in> procs"
      and m: "\<And>i. i < ax_size (ax b) \<Longrightarrow> tab0 (pos P b) ! k = Some i \<Longrightarrow> tab1 i ! k = Some (pos P b)"
      and r: "\<And>i. tab0 (pos P b) ! k = Some i \<Longrightarrow> i < ax_size (ax b)" for tab0 tab1 :: "nat \<Rightarrow> nat option list" and P Q
  proof -
    obtain i where i: "tab0 (pos P b) ! k = Some i" "Q = peer P b i" using mo by auto
    note p = gridD(4) [OF assms(1) P assms(4)]
    have "pos Q b = i" using gridD(6) [OF assms(1) P assms(4) r [OF i(1)]] i(2) by simp
    moreover have "P = peer Q b (pos P b)" using i(2) peer_peer [OF assms(1) P assms(4) r [OF i(1)] p] peer_self [OF assms(1) P assms(4)] by simp
    ultimately show ?thesis using m [OF r [OF i(1)] i(1)] i(2) by simp
  qed
  have pp: "pos P b < ax_size (ax b)" "pos Q b < ax_size (ax b)" using gridD(4) [OF assms(1)] assms(2-4) by auto
  note tm = tables_match [OF a _ _ assms(5)] and ts = table_some [OF a assms(5)]
  have "map_option (peer P b) (send_table (ax b) (pos P b) ! k) = Some Q \<longleftrightarrow> map_option (peer Q b) (recv_table (ax b) (pos Q b) ! k) = Some P"
  proof
    assume mo: "map_option (peer P b) (send_table (ax b) (pos P b) ! k) = Some Q"
    have "recv_table (ax b) (pos Q b) ! k = Some (pos P b) \<and> Q = peer P b (pos Q b) \<and> P = peer Q b (pos P b)"
      by (rule half [where ?P = P and ?Q = Q and ?tab0.0 = "send_table (ax b)" and ?tab1.0 = "recv_table (ax b)", OF mo assms(2)]) (use tm [OF pp(1)] ts(1) [OF pp(1)] in blast)+
    then show "map_option (peer Q b) (recv_table (ax b) (pos Q b) ! k) = Some P" by auto
  next
    assume mo: "map_option (peer Q b) (recv_table (ax b) (pos Q b) ! k) = Some P"
    have "send_table (ax b) (pos P b) ! k = Some (pos Q b) \<and> P = peer Q b (pos P b) \<and> Q = peer P b (pos Q b)"
      by (rule half [where ?P = Q and ?Q = P and ?tab0.0 = "recv_table (ax b)" and ?tab1.0 = "send_table (ax b)", OF mo assms(3)]) (use tm [OF _ pp(2)] ts(2) [OF pp(2)] in blast)+
    then show "map_option (peer P b) (send_table (ax b) (pos P b) ! k) = Some Q" by auto
  qed
  then show ?thesis using assms(5) by (simp add: row_send_def row_recv_def)
qed

text \<open>A process sends to another at most once, receives from it at most once, and does both or none.\<close>

lemma crosses_inj:
  assumes "axis_set a" "i < number_gates_of_poweroftwo a" "j < number_gates_of_poweroftwo a" "crosses a p i = Some q" "crosses a p j = Some q"
  shows "i = j"
proof -
  let ?g = "number_gates_of_poweroftwo a" and ?r = "p - on_poweroftwo a"
  have "?r XOR push_bit (?g - i - 1) 1 = ?r XOR push_bit (?g - j - 1) 1"
    using assms(4,5) by (auto simp: crosses_def GET_PAIR_OF_POWEROFTWO_def split: if_splits)
  then have "push_bit (?g - i - 1) 1 = push_bit (?g - j - 1) (1 :: nat)" by (metis xor.left_neutral xor_self_eq xor.assoc)
  then have "?g - i - 1 = ?g - j - 1" by (simp add: push_bit_eq_mult)
  then show ?thesis using assms(2,3) by simp
qed

lemma crosses_core: "crosses a p i = Some q \<Longrightarrow> axis_set a \<Longrightarrow> i < number_gates_of_poweroftwo a \<Longrightarrow> on_poweroftwo a \<le> q \<and> q < off_poweroftwo a"
  using pair_in_core(1,2) [of a p i q] by (auto simp: crosses_def split: if_splits)

lemma gives_zone: "gives a p = Some q \<Longrightarrow> p < on_poweroftwo a \<or> off_poweroftwo a \<le> p"
  by (auto simp: gives_def split: if_splits)

lemma takes_zone:
  assumes "axis_set a" "takes a p = Some q"
  shows "on_poweroftwo a \<le> p \<and> p < off_poweroftwo a" "q < on_poweroftwo a \<or> off_poweroftwo a \<le> q"
proof -
  obtain g on r where "on_poweroftwo a = on" "ax_size a = on + 2 ^ g + r" "off_poweroftwo a = on + 2 ^ g" "on + r < 2 ^ g"
    by (rule axis_sizes [OF assms(1)])
  then show "on_poweroftwo a \<le> p \<and> p < off_poweroftwo a" "q < on_poweroftwo a \<or> off_poweroftwo a \<le> q"
    using assms(2) by (auto simp: takes_def Let_def split: if_splits)
qed

text \<open>The entries of both tables are the same three kinds of exchange in different places.\<close>

lemma table_inj:
  assumes "axis_set a" "k < number_gates a" "k' < number_gates a"
  shows "send_table a p ! k = Some q \<Longrightarrow> send_table a p ! k' = Some q \<Longrightarrow> k = k'"
    "recv_table a p ! k = Some q \<Longrightarrow> recv_table a p ! k' = Some q \<Longrightarrow> k = k'"
proof -
  note n = table_nth [OF assms(1,2), of p] table_nth [OF assms(1,3), of p]
  have ax: "number_gates a = (if flag_poweroftwo a then number_gates_of_poweroftwo a else number_gates_of_poweroftwo a + 2)"
    by (rule axis_gates [OF assms(1)])
  have gt: "\<not> (gives a p = Some x \<and> takes a p = Some y)" for x y using gives_zone takes_zone(1) [OF assms(1)] by (metis leD)
  have gc: "\<not> (gives a p = Some x \<and> crosses a p i = Some y)" for x y i using gives_zone [of a p x] by (auto simp: crosses_def split: if_splits)
  have tc: "\<not> (takes a p = Some x \<and> crosses a p (i - 1) = Some x)" if "0 < i" "i \<le> number_gates_of_poweroftwo a" for x i
    using takes_zone(2) [OF assms(1)] crosses_core [of a p "i - 1" x, OF _ assms(1)] that by fastforce
  have cc: "crosses a p (k - 1) = Some q \<Longrightarrow> crosses a p (k' - 1) = Some q \<Longrightarrow> 0 < k \<Longrightarrow> 0 < k' \<Longrightarrow> k \<le> number_gates_of_poweroftwo a
      \<Longrightarrow> k' \<le> number_gates_of_poweroftwo a \<Longrightarrow> k = k'"
    using crosses_inj [OF assms(1), of "k - 1" "k' - 1" p q] by fastforce
  have c0: "flag_poweroftwo a \<Longrightarrow> crosses a p k = Some q \<Longrightarrow> crosses a p k' = Some q \<Longrightarrow> k = k'"
    using crosses_inj [OF assms(1), of k k' p q] assms(2,3) ax by simp
  show "k = k'" if "send_table a p ! k = Some q" "send_table a p ! k' = Some q"
    using that n ax assms(2,3) gt gc tc [of k q] tc [of k' q] cc c0 by (auto split: if_splits)
  show "k = k'" if "recv_table a p ! k = Some q" "recv_table a p ! k' = Some q"
    using that n ax assms(2,3) gt gc tc [of k q] tc [of k' q] cc c0 by (auto split: if_splits)
qed

lemma table_exchange:
  assumes "axis_set a" "k < number_gates a" "send_table a p ! k = Some q"
  shows "\<exists>k' < number_gates a. recv_table a p ! k' = Some q"
proof -
  have ax: "number_gates a = (if flag_poweroftwo a then number_gates_of_poweroftwo a else number_gates_of_poweroftwo a + 2)"
    by (rule axis_gates [OF assms(1)])
  define k' where "k' = (if flag_poweroftwo a then k else if k = 0 then number_gates a - 1 else if k = number_gates a - 1 then 0 else k)"
  have "k' < number_gates a" using assms(2) by (auto simp: k'_def)
  moreover have "recv_table a p ! k' = Some q"
    using table_nth(1) [OF assms(1,2), of p] table_nth(2) [OF assms(1) calculation, of p] assms(2,3) ax by (auto simp: k'_def split: if_splits)
  ultimately show ?thesis by blast
qed

lemma peer_inj:
  assumes "grid procs ax bs crd pos peer" "P \<in> procs" "b \<in> set bs" "i < ax_size (ax b)" "j < ax_size (ax b)" "peer P b i = peer P b j"
  shows "i = j"
proof -
  have "pos (peer P b i) b = pos (peer P b j) b" unfolding assms(6) ..
  then show ?thesis unfolding gridD(6) [OF assms(1-4)] gridD(6) [OF assms(1-3,5)] .
qed

lemma same_line_axis:
  assumes "grid procs ax bs crd pos peer" "P \<in> procs" "Q \<in> procs" "Q \<noteq> P" "same_line bs crd b P Q" "same_line bs crd b' P Q"
  shows "b = b'"
proof (rule ccontr)
  assume "b \<noteq> b'"
  then have "crd Q b'' = crd P b''" if "b'' \<in> set bs" for b'' using assms(5,6) that by (cases "b'' = b") (auto simp: same_line_def)
  then show False using gridD(8) [OF assms(1,3,2)] assms(4) by blast
qed

lemma send_once:
  assumes "grid procs ax bs crd pos peer" "P \<in> procs" "b \<in> set bs" "b' \<in> set bs"
    and "row_send ax pos peer P (b, k) = Some Q" "row_send ax pos peer P (b', k') = Some Q"
  shows "(b, k) = (b', k')"
proof -
  note r = row_range(1) [OF assms(1-3,5)] row_range(1) [OF assms(1,2,4,6)]
  have b: "b' = b" using same_line_axis [OF assms(1,2), of Q b' b] r by blast
  note a = gridD(3) [OF assms(1,3)] and p = gridD(4) [OF assms(1-3)]
  obtain i j where ij: "send_table (ax b) (pos P b) ! k = Some i" "send_table (ax b) (pos P b) ! k' = Some j" "peer P b i = peer P b j"
    using assms(5,6) r b by (auto simp: row_send_def)
  have "i = j" using peer_inj [OF assms(1-3) _ _ ij(3)] table_some(1) [OF a _ p] ij(1,2) r b by blast
  then show ?thesis using table_inj(1) [OF a _ _ ij(1)] ij(2) r b by simp
qed

lemma recv_once:
  assumes "grid procs ax bs crd pos peer" "P \<in> procs" "b \<in> set bs" "b' \<in> set bs" "k \<le> number_gates (ax b)" "k' \<le> number_gates (ax b')"
    and "row_recv ax pos peer P (b, k) = Some Q" "row_recv ax pos peer P (b', k') = Some Q"
  shows "(b, k) = (b', k')"
proof -
  obtain m m' where m: "k = Suc m" "k' = Suc m'" using assms(7,8) by (cases k; cases k') (auto simp: row_recv_def)
  have q: "Q \<in> procs" using row_range(2) [OF assms(1-3), of m Q] assms(5,7) m by simp
  have "row_send ax pos peer Q (b, m) = Some P" "row_send ax pos peer Q (b', m') = Some P"
    using rows_match [OF assms(1) q assms(2)] assms(3-8) m by simp_all
  from send_once [OF assms(1) q assms(3,4) this] show ?thesis using m by simp
qed

lemma send_recv_peer:
  assumes "grid procs ax bs crd pos peer" "P \<in> procs" "b \<in> set bs" "row_send ax pos peer P (b, k) = Some Q"
  shows "\<exists>k' \<le> number_gates (ax b). row_recv ax pos peer P (b, k') = Some Q"
proof -
  have k: "k < number_gates (ax b)" using row_range(1) [OF assms] by simp
  obtain i where i: "send_table (ax b) (pos P b) ! k = Some i" "Q = peer P b i" using assms(4) by (auto simp: row_send_def split: if_splits)
  obtain k' where "k' < number_gates (ax b)" "recv_table (ax b) (pos P b) ! k' = Some i"
    using table_exchange [OF gridD(3) [OF assms(1,3)] k i(1)] by blast
  then show ?thesis using i(2) by (intro exI [of _ "Suc k'"]) (simp add: row_recv_def)
qed

section \<open>Ears\<close>

text \<open>An ear sends only in its first row and receives only in its last.\<close>

lemma ear_rows:
  assumes "axis_set a" "p < ax_size a" "is_ear a p"
  shows "2 \<le> number_gates a - 1" "k < number_gates a \<Longrightarrow> send_table a p ! k = None \<longleftrightarrow> k \<noteq> 0"
    "k < number_gates a \<Longrightarrow> recv_table a p ! k = None \<longleftrightarrow> k \<noteq> number_gates a - 1"
proof -
  obtain g on r where ax: "on_poweroftwo a = on" "ax_size a = on + 2 ^ g + r" "off_poweroftwo a = on + 2 ^ g" "on + r < 2 ^ g" "0 < g" "on \<le> r"
      "number_gates_of_poweroftwo a = g" "flag_poweroftwo a \<longleftrightarrow> r = 0" "number_gates a = (if r = 0 then g else g + 2)"
    by (rule axis_sizes [OF assms(1)])
  have e: "p < on \<or> on + 2 ^ g \<le> p" using assms(3) ax unfolding is_ear_iff by simp
  then have r: "0 < r" using ax assms(2) by linarith
  then show "2 \<le> number_gates a - 1" using ax by simp
  have "takes a p = None" using takes_zone(1) [OF assms(1), of p] e ax by (cases "takes a p") auto
  then have n: "crosses a p i = None" "takes a p = None" "gives a p \<noteq> None" for i using e ax by (auto simp: crosses_def gives_def)
  show "send_table a p ! k = None \<longleftrightarrow> k \<noteq> 0" if "k < number_gates a" using table_nth(1) [OF assms(1) that] n ax r by simp
  show "recv_table a p ! k = None \<longleftrightarrow> k \<noteq> number_gates a - 1" if "k < number_gates a" using table_nth(2) [OF assms(1) that] n ax r that by auto
qed

section \<open>The rows that the program builds\<close>

lemma axis_same:
  assumes "axis_set a" "axis_set a'" "ax_size a' = ax_size a"
  shows "number_gates a' = number_gates a" "send_table a' p = send_table a p" "recv_table a' p = recv_table a p" "get_my_zone a' p = get_my_zone a p"
proof -
  have e: "number_gates_of_poweroftwo a' = number_gates_of_poweroftwo a" "flag_poweroftwo a' = flag_poweroftwo a" "number_gates a' = number_gates a"
      "on_poweroftwo a' = on_poweroftwo a" "off_poweroftwo a' = off_poweroftwo a"
    using assms unfolding axis_set_def Let_def by (auto split: if_splits)
  have c: "crosses a' p = crosses a p" "gives a' p = gives a p" "takes a' p = takes a p"
    using e assms(3) by (auto simp: crosses_def gives_def takes_def fun_eq_iff)
  show "number_gates a' = number_gates a" "send_table a' p = send_table a p" "recv_table a' p = recv_table a p" "get_my_zone a' p = get_my_zone a p"
    using e c assms(3) by (simp_all add: send_table_def recv_table_def get_my_zone_def Let_def)
qed

lemma axis_params_keep:
  "nodeinfo (axis_params f a) = nodeinfo a" "nodeinfo_index (axis_params f a) = nodeinfo_index a" "ax_size (axis_params f a) = ax_size a"
  by (simp_all add: axis_params_def Let_def)

text \<open>An axis with its parameters set, otherwise as it was.\<close>

definition ready_axis :: "axis_info \<Rightarrow> axis_info \<Rightarrow> bool" where
  "ready_axis a a' \<longleftrightarrow> ax_size a' = ax_size a \<and> nodeinfo a' = nodeinfo a \<and> nodeinfo_index a' = nodeinfo_index a \<and> (1 < ax_size a \<longrightarrow> axis_set a')"

lemma ready_params: "1 < ax_size a \<Longrightarrow> ready_axis a (axis_params f a)"
  using axis_params_set [of a f] by (simp add: ready_axis_def axis_params_keep)

lemma fold_setup:
  assumes "distinct is" "\<forall>i \<in> set is. i < length axes"
  shows "case fold setup_axis is (axes, g0, t0) of (as, g, t) \<Rightarrow> length as = length axes
    \<and> (\<forall>i < length axes. (i \<in> set is \<longrightarrow> ready_axis (axes ! i) (as ! i)) \<and> (i \<notin> set is \<longrightarrow> as ! i = axes ! i))"
  using assms
proof (induction "is" arbitrary: axes g0 t0)
  case (Cons j js)
  obtain as1 g1 t1 where s1: "setup_axis j (axes, g0, t0) = (as1, g1, t1)" by (metis prod_cases3)
  have a1: "length as1 = length axes" "\<And>i. i \<noteq> j \<Longrightarrow> as1 ! i = axes ! i" "ready_axis (axes ! j) (as1 ! j)"
    using s1 Cons.prems(2) ready_params [of "axes ! j"] by (auto simp: setup_axis_def Let_def ready_axis_def axis_params_keep split: if_splits)
  obtain as g t where f: "fold setup_axis js (as1, g1, t1) = (as, g, t)" by (metis prod_cases3)
  have IH: "length as = length as1" "\<And>i. i < length as1 \<Longrightarrow> i \<in> set js \<Longrightarrow> ready_axis (as1 ! i) (as ! i)"
      "\<And>i. i < length as1 \<Longrightarrow> i \<notin> set js \<Longrightarrow> as ! i = as1 ! i"
    using Cons.IH [of as1 g1 t1] Cons.prems a1(1) f by auto
  have "ready_axis (axes ! i) (as ! i)" if "i < length axes" "i \<in> set (j # js)" for i
    using IH(2,3) [of i] a1 that Cons.prems(1) by (cases "i = j") auto
  moreover have "as ! i = axes ! i" if "i < length axes" "i \<notin> set (j # js)" for i using IH(3) [of i] a1 that by auto
  ultimately show ?case using s1 f IH(1) a1(1) by simp
qed simp

lemma ready_relay: "ready_axis a a' \<Longrightarrow> ready_axis a (a'\<lparr>number_relay_gates := f\<rparr>)"
  by (simp add: ready_axis_def axis_set_def Let_def)

lemma setup_axes_ready:
  assumes "length axes = NUM_AXES" "start \<le> i" "i < NUM_AXES"
  shows "ready_axis (axes ! i) (fst (setup_axes start axes) ! i)"
proof -
  obtain as g t where f: "fold setup_axis [start..<NUM_AXES] (axes, 0, start) = (as, g, t)" by (metis prod_cases3)
  have "length as = length axes" "ready_axis (axes ! i) (as ! i)" using fold_setup [of "[start..<NUM_AXES]" axes 0 start] f assms by auto
  then show ?thesis using f by (cases "i = t"; cases "t < length as") (auto simp: setup_axes_def setup_tail_def ready_relay list_update_beyond)
qed

text \<open>What the axes of process \<open>P\<close> have to do with the grid.\<close>

definition on_grid :: "nat \<Rightarrow> axis_info list \<Rightarrow> nat \<Rightarrow> (nat \<Rightarrow> axis_info) \<Rightarrow> nat list \<Rightarrow> (nat \<Rightarrow> nat \<Rightarrow> nat) \<Rightarrow> (nat \<Rightarrow> nat \<Rightarrow> nat \<Rightarrow> nat) \<Rightarrow> (nat \<Rightarrow> phys_coords) \<Rightarrow> bool" where
  "on_grid start axes P ax bs pos peer phy \<longleftrightarrow> length axes = NUM_AXES \<and> bs = filter (\<lambda>i. 1 < ax_size (axes ! i)) [start..<NUM_AXES]
     \<and> (\<forall>b \<in> set bs. ax_size (axes ! b) = ax_size (ax b) \<and> nodeinfo_index (axes ! b) = pos P b
        \<and> (\<forall>i < ax_size (ax b). ni_index (nodeinfo (axes ! b) ! i) = peer P b i \<and> ni_phy (nodeinfo (axes ! b) ! i) = phy (peer P b i)))"

definition info_of :: "(nat \<Rightarrow> axis_info) \<Rightarrow> (nat \<Rightarrow> nat \<Rightarrow> nat) \<Rightarrow> (nat \<Rightarrow> nat \<Rightarrow> nat \<Rightarrow> nat) \<Rightarrow> (nat \<Rightarrow> phys_coords) \<Rightarrow> nat \<Rightarrow> nat \<Rightarrow> nat option \<Rightarrow> butterfly_proc_info" where
  "info_of ax pos peer phy P b idx = \<lparr>bp_vbg_id = (if idx \<noteq> None then UTF_BG_ALLOC_VBG_ID_UNDECIDED
       else if is_ear (ax b) (pos P b) then UTF_BG_ALLOC_VBG_ID_UNNECESSARY else UTF_BG_ALLOC_VBG_ID_NOOPARATION),
     bp_nodeinfo_index = idx, bp_index = map_option (peer P b) idx, bp_phy = map_option (\<lambda>i. phy (peer P b i)) idx\<rparr>"

definition row_of :: "(nat \<Rightarrow> axis_info) \<Rightarrow> (nat \<Rightarrow> nat \<Rightarrow> nat) \<Rightarrow> (nat \<Rightarrow> nat \<Rightarrow> nat \<Rightarrow> nat) \<Rightarrow> (nat \<Rightarrow> phys_coords) \<Rightarrow> nat \<Rightarrow> nat \<times> nat \<Rightarrow> butterfly_seq" where
  "row_of ax pos peer phy P = (\<lambda>(b, k). \<lparr>sq_vbg_id = UTF_BG_ALLOC_VBG_ID_UNDECIDED,
     recvinfo = (if k = 0 then no_proc else info_of ax pos peer phy P b (recv_table (ax b) (pos P b) ! (k - 1))),
     sendinfo = (if k < number_gates (ax b) then info_of ax pos peer phy P b (send_table (ax b) (pos P b) ! k) else no_proc),
     nextptr = None\<rparr>)"

lemma init_info:
  assumes "axis_set (ax b)" "axis_set a" "ax_size a = ax_size (ax b)" "nodeinfo_index a = pos P b"
    and "\<And>i. i < ax_size (ax b) \<Longrightarrow> ni_index (nodeinfo a ! i) = peer P b i \<and> ni_phy (nodeinfo a ! i) = phy (peer P b i)"
    and "\<And>i. idx = Some i \<Longrightarrow> i < ax_size (ax b)"
  shows "initialize_butterfly_proc_info idx a = info_of ax pos peer phy P b idx"
  using assms(4-6) axis_same(4) [OF assms(1-3), of "pos P b"]
  by (cases idx) (simp_all add: initialize_butterfly_proc_info_def info_of_def)

lemma axis_rows_block:
  assumes "axis_set (ax b)" "axis_set a" "ax_size a = ax_size (ax b)" "nodeinfo_index a = pos P b" "pos P b < ax_size (ax b)"
    and "\<And>i. i < ax_size (ax b) \<Longrightarrow> ni_index (nodeinfo a ! i) = peer P b i \<and> ni_phy (nodeinfo a ! i) = phy (peer P b i)"
  shows "make_sequence a = ret (send_table (ax b) (pos P b), recv_table (ax b) (pos P b))"
    "initialize_sequence a (send_table (ax b) (pos P b)) (recv_table (ax b) (pos P b)) = map (row_of ax pos peer phy P) (block ax b)"
proof -
  note e = axis_same [OF assms(1-3)]
  have "a = at_pos a (pos P b)" using assms(4) by (simp add: at_pos_def)
  then show "make_sequence a = ret (send_table (ax b) (pos P b), recv_table (ax b) (pos P b))"
    using make_sequence_tables [OF assms(2), of "pos P b"] assms(3,5) e(2,3) by metis
  have "initialize_butterfly_proc_info (send_table (ax b) (pos P b) ! k) a = info_of ax pos peer phy P b (send_table (ax b) (pos P b) ! k)"
      "initialize_butterfly_proc_info (recv_table (ax b) (pos P b) ! k) a = info_of ax pos peer phy P b (recv_table (ax b) (pos P b) ! k)"
    if "k < number_gates (ax b)" for k
    using table_some [OF assms(1) that assms(5)]
    by (intro init_info [where ax = ax and b = b and pos = pos and peer = peer and phy = phy and P = P] assms(1-4,6); blast)+
  then show "initialize_sequence a (send_table (ax b) (pos P b)) (recv_table (ax b) (pos P b)) = map (row_of ax pos peer phy P) (block ax b)"
    unfolding initialize_sequence_def block_def e(1) by (simp add: row_of_def del: upt_Suc)
qed

lemma axes_rows_grid:
  assumes "\<And>i. ok (M_sender i) \<and> ok (M_reciver i)"
    and "\<And>i. i \<in> set is \<Longrightarrow> 1 < ax_size (axes ! i) \<Longrightarrow> axis_set (ax i) \<and> axis_set (axes ! i) \<and> ax_size (axes ! i) = ax_size (ax i)
       \<and> nodeinfo_index (axes ! i) = pos P i \<and> pos P i < ax_size (ax i)
       \<and> (\<forall>k < ax_size (ax i). ni_index (nodeinfo (axes ! i) ! k) = peer P i k \<and> ni_phy (nodeinfo (axes ! i) ! k) = phy (peer P i k))"
  shows "axes_rows ok axes is = ret (Inr (map (row_of ax pos peer phy P) (grid_rows ax (filter (\<lambda>i. 1 < ax_size (axes ! i)) is))))"
  using assms(2)
proof (induction "is")
  case (Cons i js)
  have IH: "axes_rows ok axes js = ret (Inr (map (row_of ax pos peer phy P) (grid_rows ax (filter (\<lambda>i. 1 < ax_size (axes ! i)) js))))"
    by (rule Cons.IH) (rule Cons.prems, simp)
  show ?case
  proof (cases "1 < ax_size (axes ! i)")
    case True
    have h: "axis_set (ax i)" "axis_set (axes ! i)" "ax_size (axes ! i) = ax_size (ax i)" "nodeinfo_index (axes ! i) = pos P i" "pos P i < ax_size (ax i)"
        "\<And>k. k < ax_size (ax i) \<Longrightarrow> ni_index (nodeinfo (axes ! i) ! k) = peer P i k \<and> ni_phy (nodeinfo (axes ! i) ! k) = phy (peer P i k)"
      using Cons.prems [OF _ True] by simp_all
    note b = axis_rows_block [where ax = ax and b = i and a = "axes ! i" and pos = pos and P = P and peer = peer and phy = phy, OF h]
    show ?thesis using True assms(1) b IH by (simp add: grid_rows_def)
  qed (use IH in simp)
qed (simp add: grid_rows_def)

end
