(* ===== verification/Vbg_Gates.thy ===== *)
theory Vbg_Gates
  imports Vbg_Rows
begin

text \<open>
  The gates of a process on a grid. A step \<open>t\<close> is a row of the sequence before it is optimised; the gates are the
  rows that \<open>optimized_sequence\<close> keeps. Every receive and every send is at one gate, and a gate has the value
  that its process has after the row where the gate receives.
\<close>

section \<open>Steps\<close>

record net_grid =
  gprocs :: "nat set"
  gax :: "nat \<Rightarrow> axis_info"
  gbs :: "nat list"
  gcrd :: "nat \<Rightarrow> nat \<Rightarrow> nat"
  gpos :: "nat \<Rightarrow> nat \<Rightarrow> nat"
  gpeer :: "nat \<Rightarrow> nat \<Rightarrow> nat \<Rightarrow> nat"
  gphy :: "nat \<Rightarrow> phys_coords"

definition wf_grid :: "net_grid \<Rightarrow> bool" where
  "wf_grid G \<longleftrightarrow> grid (gprocs G) (gax G) (gbs G) (gcrd G) (gpos G) (gpeer G) \<and> gbs G \<noteq> []"

definition g_rows :: "net_grid \<Rightarrow> (nat \<times> nat) list" where
  "g_rows G = grid_rows (gax G) (gbs G)"

definition g_len :: "net_grid \<Rightarrow> nat" where
  "g_len G = length (g_rows G)"

definition g_recv :: "net_grid \<Rightarrow> nat \<Rightarrow> nat \<Rightarrow> nat option" where
  "g_recv G P t = row_recv (gax G) (gpos G) (gpeer G) P (g_rows G ! t)"

definition g_send :: "net_grid \<Rightarrow> nat \<Rightarrow> nat \<Rightarrow> nat option" where
  "g_send G P t = row_send (gax G) (gpos G) (gpeer G) P (g_rows G ! t)"

definition g_cut :: "net_grid \<Rightarrow> nat \<Rightarrow> nat \<Rightarrow> bool" where
  "g_cut G P t = row_cut (gax G) (gpos G) (gpeer G) P (g_rows G ! t)"

definition g_seq :: "net_grid \<Rightarrow> nat \<Rightarrow> butterfly_seq list" where
  "g_seq G P = map (row_of (gax G) (gpos G) (gpeer G) (gphy G) P) (g_rows G)"

text \<open>The value of a process after a step.\<close>

definition g_val :: "net_grid \<Rightarrow> (nat \<Rightarrow> 'v::comm_monoid_add) \<Rightarrow> nat \<Rightarrow> nat \<Rightarrow> 'v" where
  "g_val G v t = fold (row_step (gax G) (gpos G) (gpeer G)) (take (Suc t) (g_rows G)) v"

lemma step_row:
  assumes "wf_grid G" "t < g_len G"
  obtains b k where "g_rows G ! t = (b, k)" "b \<in> set (gbs G)" "k \<le> number_gates (gax G b)" "axis_set (gax G b)"
proof -
  obtain b k where bk: "g_rows G ! t = (b, k)" by fastforce
  have "(b, k) \<in> set (g_rows G)" using assms(2) bk nth_mem [of t "g_rows G"] by (simp add: g_len_def)
  then show thesis using that [OF bk] gridD(3) assms(1) by (auto simp: g_rows_def grid_rows_set wf_grid_def)
qed

lemma step_next:
  assumes "wf_grid G" "t < g_len G" "g_rows G ! t = (b, k)" "k < number_gates (gax G b)"
  shows "t + 1 < g_len G" "g_rows G ! (t + 1) = (b, k + 1)"
  using grid_rows_next [of t "gax G" "gbs G" b k] assms by (simp_all add: g_len_def g_rows_def)

lemma step_prev:
  assumes "wf_grid G" "t < g_len G" "g_rows G ! t = (b, Suc k)"
  shows "0 < t" "g_rows G ! (t - 1) = (b, k)"
  using grid_rows_prev [of "gbs G" t "gax G" b k] assms gridD(2) by (auto simp: g_len_def g_rows_def wf_grid_def)

lemma step_ends:
  assumes "wf_grid G"
  shows "0 < g_len G" "g_rows G ! 0 = (hd (gbs G), 0)" "g_rows G ! (g_len G - 1) = (last (gbs G), number_gates (gax G (last (gbs G))))"
  using grid_rows_ends [of "gbs G" "gax G"] assms by (simp_all add: g_len_def g_rows_def wf_grid_def)

lemma step_distinct:
  assumes "wf_grid G" "t < g_len G" "u < g_len G" "g_rows G ! t = g_rows G ! u"
  shows "t = u"
  using grid_rows_distinct [of "gbs G" "gax G"] assms gridD(2) by (auto simp: g_len_def g_rows_def wf_grid_def nth_eq_iff_index_eq)

lemma recv_prev:
  assumes "wf_grid G" "t < g_len G" "g_recv G P t = Some Q"
  obtains b k where "g_rows G ! t = (b, Suc k)" "g_rows G ! (t - 1) = (b, k)" "0 < t" "k < number_gates (gax G b)" "b \<in> set (gbs G)"
proof -
  obtain b k where r: "g_rows G ! t = (b, k)" "b \<in> set (gbs G)" "k \<le> number_gates (gax G b)" by (rule step_row [OF assms(1,2)])
  obtain k' where "k = Suc k'" using assms(3) r(1) by (cases k) (auto simp: g_recv_def row_recv_def)
  then show thesis using that r step_prev [OF assms(1,2)] by simp
qed

lemma send_next:
  assumes "wf_grid G" "t < g_len G" "g_send G P t = Some Q"
  obtains b k where "g_rows G ! t = (b, k)" "g_rows G ! (t + 1) = (b, Suc k)" "t + 1 < g_len G" "k < number_gates (gax G b)" "b \<in> set (gbs G)"
proof -
  obtain b k where r: "g_rows G ! t = (b, k)" "b \<in> set (gbs G)" "k \<le> number_gates (gax G b)" by (rule step_row [OF assms(1,2)])
  have "k < number_gates (gax G b)" using assms(3) r(1) by (auto simp: g_send_def row_send_def split: if_splits)
  then show thesis using that r step_next [OF assms(1,2)] by simp
qed

lemma send_recv:
  assumes "wf_grid G" "P \<in> gprocs G" "Q \<in> gprocs G" "t + 1 < g_len G"
  shows "g_send G P t = Some Q \<longleftrightarrow> g_recv G Q (t + 1) = Some P"
proof
  assume s: "g_send G P t = Some Q"
  have "t < g_len G" using assms(4) by simp
  from send_next [OF assms(1) this s] obtain b k where
    "g_rows G ! t = (b, k)" "g_rows G ! (t + 1) = (b, Suc k)" "k < number_gates (gax G b)" "b \<in> set (gbs G)" by blast
  then show "g_recv G Q (t + 1) = Some P" using s rows_match assms(1-3) unfolding g_send_def g_recv_def wf_grid_def by metis
next
  assume r: "g_recv G Q (t + 1) = Some P"
  from recv_prev [OF assms(1,4) r] obtain b k where
    "g_rows G ! (t + 1) = (b, Suc k)" "g_rows G ! t = (b, k)" "k < number_gates (gax G b)" "b \<in> set (gbs G)" by (metis add_diff_cancel_right')
  then show "g_send G P t = Some Q" using r rows_match assms(1-3) unfolding g_send_def g_recv_def wf_grid_def by metis
qed

lemma no_recv_first: "wf_grid G \<Longrightarrow> g_recv G P 0 = None"
  using step_ends(2) by (simp add: g_recv_def row_recv_def)

lemma no_send_last: "wf_grid G \<Longrightarrow> g_send G P (g_len G - 1) = None"
  using step_ends(3) by (simp add: g_send_def row_send_def)

lemma send_range:
  assumes "wf_grid G" "P \<in> gprocs G" "t < g_len G" "g_send G P t = Some Q"
  shows "Q \<in> gprocs G \<and> Q \<noteq> P"
proof -
  obtain b k where b: "g_rows G ! t = (b, k)" "b \<in> set (gbs G)" by (rule step_row [OF assms(1,3)])
  then show ?thesis using row_range(1) [of "gprocs G" "gax G" "gbs G" "gcrd G" "gpos G" "gpeer G" P b k Q] assms
    by (simp add: g_send_def wf_grid_def)
qed

lemma recv_range:
  assumes "wf_grid G" "P \<in> gprocs G" "t < g_len G" "g_recv G P t = Some Q"
  shows "Q \<in> gprocs G \<and> Q \<noteq> P"
proof -
  obtain b k where b: "g_rows G ! t = (b, Suc k)" "k < number_gates (gax G b)" "b \<in> set (gbs G)" by (rule recv_prev [OF assms(1,3,4)])
  then show ?thesis using row_range(2) [of "gprocs G" "gax G" "gbs G" "gcrd G" "gpos G" "gpeer G" P b k Q] assms
    by (simp add: g_recv_def wf_grid_def)
qed

lemma g_send_once:
  assumes "wf_grid G" "P \<in> gprocs G" "t < g_len G" "u < g_len G" "g_send G P t = Some Q" "g_send G P u = Some Q"
  shows "t = u"
proof -
  obtain b k where b: "g_rows G ! t = (b, k)" "b \<in> set (gbs G)" by (rule step_row [OF assms(1,3)])
  obtain b' k' where b': "g_rows G ! u = (b', k')" "b' \<in> set (gbs G)" by (rule step_row [OF assms(1,4)])
  have "(b, k) = (b', k')" using send_once [of _ _ _ _ _ _ P b b' k Q k'] assms(1,2,5,6) b b' by (auto simp: g_send_def wf_grid_def)
  then show ?thesis using step_distinct [OF assms(1,3,4)] b b' by simp
qed

lemma g_recv_once:
  assumes "wf_grid G" "P \<in> gprocs G" "t < g_len G" "u < g_len G" "g_recv G P t = Some Q" "g_recv G P u = Some Q"
  shows "t = u"
proof -
  obtain b k where b: "g_rows G ! t = (b, k)" "b \<in> set (gbs G)" "k \<le> number_gates (gax G b)" by (rule step_row [OF assms(1,3)])
  obtain b' k' where b': "g_rows G ! u = (b', k')" "b' \<in> set (gbs G)" "k' \<le> number_gates (gax G b')" by (rule step_row [OF assms(1,4)])
  have "(b, k) = (b', k')" using recv_once [of _ _ _ _ _ _ P b b' k k' Q] assms(1,2,5,6) b b' by (auto simp: g_recv_def wf_grid_def)
  then show ?thesis using step_distinct [OF assms(1,3,4)] b b' by simp
qed

lemma g_send_recv_peer:
  assumes "wf_grid G" "P \<in> gprocs G" "t < g_len G" "g_send G P t = Some Q"
  obtains u where "u < g_len G" "g_recv G P u = Some Q"
proof -
  obtain b k where b: "g_rows G ! t = (b, k)" "b \<in> set (gbs G)" by (rule step_row [OF assms(1,3)])
  have "\<exists>k' \<le> number_gates (gax G b). row_recv (gax G) (gpos G) (gpeer G) P (b, k') = Some Q"
    using send_recv_peer [of _ _ _ _ _ _ P b k Q] assms b by (auto simp: g_send_def wf_grid_def)
  then obtain k' where k': "k' \<le> number_gates (gax G b)" "row_recv (gax G) (gpos G) (gpeer G) P (b, k') = Some Q" by blast
  then have "(b, k') \<in> set (g_rows G)" using b by (simp add: g_rows_def grid_rows_set)
  then show thesis using that k' by (auto simp: in_set_conv_nth g_recv_def g_len_def)
qed

lemma g_val_0: "wf_grid G \<Longrightarrow> g_val G v 0 P = v P"
  using step_ends(1,2) [of G] by (cases "g_rows G") (auto simp: g_val_def g_len_def row_step_def row_cut_def row_recv_def)

lemma g_val_Suc:
  assumes "t + 1 < g_len G"
  shows "g_val G v (t + 1) P = (if g_cut G P (t + 1) then 0 else g_val G v t P) + (case g_recv G P (t + 1) of None \<Rightarrow> 0 | Some Q \<Rightarrow> g_val G v t Q)"
proof -
  have "g_val G v (t + 1) = row_step (gax G) (gpos G) (gpeer G) (g_rows G ! (t + 1)) (g_val G v t)"
    using assms by (simp add: g_val_def g_len_def take_Suc_conv_app_nth [of "Suc t"])
  then show ?thesis by (simp add: row_step_def g_cut_def g_recv_def)
qed

lemma g_val_total: "wf_grid G \<Longrightarrow> P \<in> gprocs G \<Longrightarrow> g_val G v (g_len G - 1) P = sum v (gprocs G)"
  using grid_total [of "gprocs G" "gax G" "gbs G" "gcrd G" "gpos G" "gpeer G" P v] step_ends(1) [of G]
  by (simp add: g_val_def g_len_def g_rows_def grid_rows_def wf_grid_def)

lemma g_cut_recv: "g_cut G P t \<Longrightarrow> g_recv G P t \<noteq> None"
  by (auto simp: g_cut_def row_cut_def g_recv_def split: prod.splits)

section \<open>The rows as the program marks them\<close>

lemma vbg_marks [simp]:
  "UTF_BG_ALLOC_VBG_ID_UNDECIDED \<noteq> UTF_BG_ALLOC_VBG_ID_NOOPARATION" "UTF_BG_ALLOC_VBG_ID_UNDECIDED \<noteq> UTF_BG_ALLOC_VBG_ID_UNNECESSARY"
  "UTF_BG_ALLOC_VBG_ID_UNNECESSARY \<noteq> UTF_BG_ALLOC_VBG_ID_NOOPARATION" "UTOFU_VBG_ID_NULL = UTF_BG_ALLOC_VBG_ID_NOOPARATION"
  "UTF_BG_ALLOC_VBG_ID_NOOPARATION \<noteq> UTF_BG_ALLOC_VBG_ID_UNNECESSARY"
  by (simp_all add: vbg_id_defs)

definition recv_mark :: "net_grid \<Rightarrow> nat \<Rightarrow> nat \<Rightarrow> u64" where
  "recv_mark G P t = bp_vbg_id (recvinfo (g_seq G P ! t))"

definition send_mark :: "net_grid \<Rightarrow> nat \<Rightarrow> nat \<Rightarrow> u64" where
  "send_mark G P t = bp_vbg_id (sendinfo (g_seq G P ! t))"

lemma g_seq_sel:
  assumes "t < g_len G"
  shows "bp_index (recvinfo (g_seq G P ! t)) = g_recv G P t" "no_recv (g_seq G P ! t) \<longleftrightarrow> g_recv G P t = None"
    "bp_phy (recvinfo (g_seq G P ! t)) = map_option (gphy G) (g_recv G P t)"
    "bp_index (sendinfo (g_seq G P ! t)) = g_send G P t" "no_send (g_seq G P ! t) \<longleftrightarrow> g_send G P t = None"
    "bp_phy (sendinfo (g_seq G P ! t)) = map_option (gphy G) (g_send G P t)"
    "nextptr (g_seq G P ! t) = None"
  using assms by (cases "g_rows G ! t";
    auto simp: g_seq_def g_len_def row_of_def g_recv_def g_send_def row_recv_def row_send_def info_of_def no_proc_def option.map_comp o_def)+

lemma length_g_seq [simp]: "length (g_seq G P) = g_len G"
  by (simp add: g_seq_def g_len_def)

lemma recv_mark_row:
  assumes "t < g_len G" "g_rows G ! t = (b, k)"
  shows "recv_mark G P t = (if k = 0 then UTF_BG_ALLOC_VBG_ID_NOOPARATION else if g_recv G P t \<noteq> None then UTF_BG_ALLOC_VBG_ID_UNDECIDED
     else if is_ear (gax G b) (gpos G P b) then UTF_BG_ALLOC_VBG_ID_UNNECESSARY else UTF_BG_ALLOC_VBG_ID_NOOPARATION)"
  using assms by (auto simp: recv_mark_def g_seq_def g_len_def row_of_def info_of_def no_proc_def g_recv_def row_recv_def)

lemma send_mark_row:
  assumes "t < g_len G" "g_rows G ! t = (b, k)"
  shows "send_mark G P t = (if k < number_gates (gax G b) then if g_send G P t \<noteq> None then UTF_BG_ALLOC_VBG_ID_UNDECIDED
       else if is_ear (gax G b) (gpos G P b) then UTF_BG_ALLOC_VBG_ID_UNNECESSARY else UTF_BG_ALLOC_VBG_ID_NOOPARATION
     else UTF_BG_ALLOC_VBG_ID_NOOPARATION)"
  using assms by (auto simp: send_mark_def g_seq_def g_len_def row_of_def info_of_def no_proc_def g_send_def row_send_def)

lemma ear_steps:
  assumes "wf_grid G" "P \<in> gprocs G" "t < g_len G" "g_rows G ! t = (b, k)" "is_ear (gax G b) (gpos G P b)"
  shows "g_send G P t = None \<longleftrightarrow> k \<noteq> 0" "g_recv G P t = None \<longleftrightarrow> k \<noteq> number_gates (gax G b)" "3 \<le> number_gates (gax G b)" "k \<le> number_gates (gax G b)"
proof -
  have b: "b \<in> set (gbs G)" "k \<le> number_gates (gax G b)" "axis_set (gax G b)"
    using step_row [OF assms(1,3)] assms(4) by (metis prod.inject)+
  have p: "gpos G P b < ax_size (gax G b)" using gridD(4) assms(1,2) b(1) unfolding wf_grid_def by blast
  note e = ear_rows [OF b(3) p assms(5)]
  show "3 \<le> number_gates (gax G b)" "k \<le> number_gates (gax G b)" using e(1) b(2) by simp_all
  show "g_send G P t = None \<longleftrightarrow> k \<noteq> 0" using e(1) e(2) [of k] assms(4) b(2) by (auto simp: g_send_def row_send_def)
  show "g_recv G P t = None \<longleftrightarrow> k \<noteq> number_gates (gax G b)"
    using e(1) e(3) [of "k - 1"] assms(4) b(2) by (cases "k = 0") (auto simp: g_recv_def row_recv_def)
qed

lemma unnecessary_recv:
  assumes "wf_grid G" "P \<in> gprocs G" "t < g_len G" "recv_mark G P t = UTF_BG_ALLOC_VBG_ID_UNNECESSARY"
  obtains b k where "g_rows G ! t = (b, k)" "is_ear (gax G b) (gpos G P b)" "0 < k" "k < number_gates (gax G b)"
proof -
  obtain b k where b: "g_rows G ! t = (b, k)" by fastforce
  then have "0 < k" "is_ear (gax G b) (gpos G P b)" "g_recv G P t = None"
    using assms(4) recv_mark_row [OF assms(3) b] by (auto split: if_splits)
  then show thesis using that [OF b] ear_steps [OF assms(1-3) b] by simp
qed

lemma unnecessary_send:
  assumes "wf_grid G" "P \<in> gprocs G" "t < g_len G" "send_mark G P t = UTF_BG_ALLOC_VBG_ID_UNNECESSARY"
  obtains b k where "g_rows G ! t = (b, k)" "is_ear (gax G b) (gpos G P b)" "0 < k" "k < number_gates (gax G b)"
proof -
  obtain b k where b: "g_rows G ! t = (b, k)" by fastforce
  then have k: "k < number_gates (gax G b)" "is_ear (gax G b) (gpos G P b)" "g_send G P t = None"
    using assms(4) send_mark_row [OF assms(3) b] by (auto split: if_splits)
  then show thesis using that [OF b] ear_steps(1) [OF assms(1-3) b] by simp
qed

text \<open>A step is inside an ear: nothing is sent or received, and the step after it is inside too or is where the ear receives.\<close>

definition in_ear :: "net_grid \<Rightarrow> nat \<Rightarrow> nat \<Rightarrow> bool" where
  "in_ear G P t \<longleftrightarrow> (case g_rows G ! t of (b, k) \<Rightarrow> is_ear (gax G b) (gpos G P b) \<and> 0 < k \<and> k < number_gates (gax G b))"

lemma marks_in_ear:
  assumes "wf_grid G" "P \<in> gprocs G" "t < g_len G"
  shows "recv_mark G P t = UTF_BG_ALLOC_VBG_ID_UNNECESSARY \<longleftrightarrow> in_ear G P t" "send_mark G P t = UTF_BG_ALLOC_VBG_ID_UNNECESSARY \<longleftrightarrow> in_ear G P t"
proof -
  obtain b k where b: "g_rows G ! t = (b, k)" by fastforce
  have n: "g_send G P t = None" "g_recv G P t = None" if "in_ear G P t"
    using that ear_steps(1,2) [OF assms b] b by (auto simp: in_ear_def)
  show "recv_mark G P t = UTF_BG_ALLOC_VBG_ID_UNNECESSARY \<longleftrightarrow> in_ear G P t"
    using unnecessary_recv [OF assms] recv_mark_row [OF assms(3) b, of P] n b by (auto simp: in_ear_def)
  show "send_mark G P t = UTF_BG_ALLOC_VBG_ID_UNNECESSARY \<longleftrightarrow> in_ear G P t"
  proof
    assume s: "send_mark G P t = UTF_BG_ALLOC_VBG_ID_UNNECESSARY"
    show "in_ear G P t" by (rule unnecessary_send [OF assms s]) (simp add: in_ear_def)
  next
    assume "in_ear G P t"
    then show "send_mark G P t = UTF_BG_ALLOC_VBG_ID_UNNECESSARY" using send_mark_row [OF assms(3) b, of P] n(1) b by (auto simp: in_ear_def)
  qed
qed

lemma in_ear_step:
  assumes "wf_grid G" "P \<in> gprocs G" "t < g_len G" "in_ear G P t"
  shows "g_send G P t = None" "g_recv G P t = None" "t + 1 < g_len G" "g_send G P (t + 1) = None"
    "g_recv G P (t + 1) = None \<longleftrightarrow> in_ear G P (t + 1)" "g_cut G P (t + 1) \<longleftrightarrow> g_recv G P (t + 1) \<noteq> None" "0 < t"
proof -
  obtain b k where b: "g_rows G ! t = (b, k)" "is_ear (gax G b) (gpos G P b)" "0 < k" "k < number_gates (gax G b)"
    using assms(4) by (auto simp: in_ear_def split: prod.splits)
  note nx = step_next [OF assms(1,3) b(1,4)]
  show "t + 1 < g_len G" by (rule nx(1))
  show "g_send G P t = None" "g_recv G P t = None" using ear_steps(1,2) [OF assms(1-3) b(1,2)] b(3,4) by simp_all
  note e = ear_steps(1,2) [OF assms(1,2) nx b(2)]
  show "g_send G P (t + 1) = None" using e(1) by simp
  show "g_recv G P (t + 1) = None \<longleftrightarrow> in_ear G P (t + 1)" using e(2) nx(2) b by (auto simp: in_ear_def)
  show "g_cut G P (t + 1) \<longleftrightarrow> g_recv G P (t + 1) \<noteq> None" using nx(2) b(2) by (simp add: g_cut_def row_cut_def g_recv_def)
  show "0 < t" using b(1,3) step_ends(2) [OF assms(1)] by (metis gr0I nat_neq_iff prod.inject)
qed

lemma cut_in_ear:
  assumes "wf_grid G" "P \<in> gprocs G" "t < g_len G" "g_cut G P t"
  shows "0 < t" "in_ear G P (t - 1)"
proof -
  obtain Q where r: "g_recv G P t = Some Q" using g_cut_recv [OF assms(4)] by blast
  obtain b k where b: "g_rows G ! t = (b, Suc k)" "g_rows G ! (t - 1) = (b, k)" "0 < t" "k < number_gates (gax G b)"
    by (rule recv_prev [OF assms(1,3) r])
  have e: "is_ear (gax G b) (gpos G P b)" using assms(4) b(1) by (simp add: g_cut_def row_cut_def)
  show "0 < t" by (rule b(3))
  show "in_ear G P (t - 1)" using ear_steps(2,3) [OF assms(1-3) b(1) e] r b(2,4) e by (auto simp: in_ear_def)
qed

text \<open>Before the steps inside an ear there is the step where it sends.\<close>

lemma ear_sends:
  assumes "wf_grid G" "P \<in> gprocs G" "t < g_len G" "in_ear G P t"
  shows "\<exists>u < t. g_send G P u \<noteq> None \<and> (\<forall>x. u < x \<and> x \<le> t \<longrightarrow> in_ear G P x)"
  using assms(3,4)
proof (induction t)
  case 0
  then show ?case using in_ear_step(7) [OF assms(1,2)] by blast
next
  case (Suc t)
  obtain b k where b: "g_rows G ! Suc t = (b, k)" "is_ear (gax G b) (gpos G P b)" "0 < k" "k < number_gates (gax G b)"
    using Suc.prems(2) by (auto simp: in_ear_def split: prod.splits)
  obtain k' where k': "k = Suc k'" using b(3) by (cases k) auto
  have p: "g_rows G ! t = (b, k')" using step_prev(2) [OF assms(1) Suc.prems(1)] b(1) k' by simp
  have tl: "t < g_len G" using Suc.prems(1) by simp
  show ?case
  proof (cases "k' = 0")
    case True
    then have "g_send G P t \<noteq> None" using ear_steps(1) [OF assms(1,2) tl p b(2)] by simp
    then show ?thesis using Suc.prems(2) by (intro exI [of _ t]) (auto simp: le_Suc_eq)
  next
    case False
    then have "in_ear G P t" using p b(2,4) k' by (simp add: in_ear_def)
    then obtain u where "u < t" "g_send G P u \<noteq> None" "\<forall>x. u < x \<and> x \<le> t \<longrightarrow> in_ear G P x" using Suc.IH [OF tl] by blast
    then show ?thesis using Suc.prems(2) by (intro exI [of _ u]) (auto simp: le_Suc_eq)
  qed
qed

text \<open>Every process sends.\<close>

lemma sends_some:
  assumes "wf_grid G" "P \<in> gprocs G"
  obtains t where "t < g_len G" "g_send G P t \<noteq> None"
proof -
  let ?b = "hd (gbs G)"
  have b: "?b \<in> set (gbs G)" using assms(1) by (simp add: wf_grid_def)
  have a: "axis_set (gax G ?b)" "gpos G P ?b < ax_size (gax G ?b)" using gridD(3,4) assms b unfolding wf_grid_def by blast+
  obtain g on r where ax: "on_poweroftwo (gax G ?b) = on" "off_poweroftwo (gax G ?b) = on + 2 ^ g" "0 < g" "number_gates_of_poweroftwo (gax G ?b) = g"
      "flag_poweroftwo (gax G ?b) \<longleftrightarrow> r = (0 :: nat)" "number_gates (gax G ?b) = (if r = 0 then g else g + 2)"
    by (rule axis_sizes [OF a(1)])
  define k where "k = (if r = 0 \<or> is_ear (gax G ?b) (gpos G P ?b) then 0 else 1 :: nat)"
  have k: "k < number_gates (gax G ?b)" using ax by (auto simp: k_def)
  have "send_table (gax G ?b) (gpos G P ?b) ! k \<noteq> None"
  proof (cases "is_ear (gax G ?b) (gpos G P ?b)")
    case True
    then show ?thesis using ear_rows(2) [OF a True, of k] k by (simp add: k_def)
  next
    case False
    then have "crosses (gax G ?b) (gpos G P ?b) 0 \<noteq> None" unfolding is_ear_iff by (auto simp: crosses_def)
    then show ?thesis using table_nth(1) [OF a(1) k, of "gpos G P ?b"] False ax by (auto simp: k_def)
  qed
  then have s: "row_send (gax G) (gpos G) (gpeer G) P (?b, k) \<noteq> None" using k by (auto simp: row_send_def)
  have "(?b, k) \<in> set (g_rows G)" using b k by (simp add: g_rows_def grid_rows_set)
  then obtain t where "t < g_len G" "g_rows G ! t = (?b, k)" by (auto simp: in_set_conv_nth g_len_def)
  then show thesis using that s by (simp add: g_send_def)
qed

section \<open>Gates\<close>

definition g_gates :: "net_grid \<Rightarrow> nat \<Rightarrow> (nat \<times> nat) list" where
  "g_gates G P = seq_gates (g_seq G P)"

text \<open>The number of the last gate, and the row where gate \<open>j\<close> receives and the one where it sends.\<close>

definition g_last :: "net_grid \<Rightarrow> nat \<Rightarrow> nat" where
  "g_last G P = length (g_gates G P) - 1"

definition g_in :: "net_grid \<Rightarrow> nat \<Rightarrow> nat \<Rightarrow> nat" where
  "g_in G P j = fst (g_gates G P ! j)"

definition g_out :: "net_grid \<Rightarrow> nat \<Rightarrow> nat \<Rightarrow> nat" where
  "g_out G P j = snd (g_gates G P ! j)"

lemma first_row_g:
  assumes "wf_grid G" "P \<in> gprocs G"
  defines "f \<equiv> first_row (g_seq G P)"
  shows "f + 2 \<le> g_len G" "t \<le> f \<Longrightarrow> g_recv G P t = None" "t < f \<Longrightarrow> g_send G P t = None"
proof -
  obtain t0 where t0: "t0 < g_len G" "g_send G P t0 \<noteq> None" by (rule sends_some [OF assms(1,2)])
  then have t1: "t0 < g_len G - 1" using no_send_last [OF assms(1)] by (cases "t0 = g_len G - 1") auto
  have l: "0 < g_len G" "1 < g_len G" using t1 by simp_all
  note s0 = g_seq_sel(2,5) [OF l(1), of P] and s1 = g_seq_sel(2,5) [OF l(2), of P]
  have f1: "f = 1 \<longleftrightarrow> g_send G P 0 = None \<and> g_recv G P 0 = None \<and> g_recv G P 1 = None" and f01: "f = 0 \<or> f = 1"
    unfolding f_def first_row_def using s0 s1 by auto
  have "t0 \<noteq> 0" if "f = 1" using f1 that t0(2) by (cases "t0 = 0") auto
  then show "f + 2 \<le> g_len G" using f01 t1 by linarith
  show "g_recv G P t = None" if "t \<le> f" using f01 f1 that no_recv_first [OF assms(1)] by (cases "t = 0") (auto simp: le_Suc_eq)
  show "g_send G P t = None" if "t < f" using f01 f1 that by (cases "t = 0") auto
qed

lemma kept_rows_g:
  assumes "wf_grid G" "P \<in> gprocs G"
  defines "ps \<equiv> kept_rows (g_seq G P)"
  shows "t < g_len G \<Longrightarrow> g_recv G P t \<noteq> None \<or> g_send G P t \<noteq> None \<Longrightarrow> t \<in> set ps"
    "t \<in> set ps \<Longrightarrow> t = first_row (g_seq G P) \<or> g_recv G P t \<noteq> None \<or> g_send G P t \<noteq> None \<or> t = g_len G - 1"
    "g_send G P (last ps) = None"
proof -
  let ?rs = "g_seq G P" and ?f = "first_row (g_seq G P)"
  note fr = first_row_g [OF assms(1,2)]
  have ib: "\<forall>p \<in> set (inner_rows ?rs). p < g_len G - 1" "inner_rows ?rs \<noteq> []" using inner_rows_bounds [of ?rs] fr(1) by simp_all
  have idl: "idle (?rs ! t) \<longleftrightarrow> g_send G P t = None \<and> g_recv G P t = None" if "t < g_len G" for t using g_seq_sel(2,5) [OF that] by simp
  have inn: "t \<in> set (inner_rows ?rs) \<longleftrightarrow> t = ?f \<or> ?f < t \<and> t < g_len G - 1 \<and> (g_recv G P t \<noteq> None \<or> g_send G P t \<noteq> None)" for t
    unfolding inner_rows_def using idl [of t] by auto
  have pre: "set (inner_rows ?rs) \<subseteq> set ps" by (auto simp: ps_def kept_rows_def)
  show "t \<in> set ps" if t: "t < g_len G" "g_recv G P t \<noteq> None \<or> g_send G P t \<noteq> None"
  proof (cases "t < g_len G - 1")
    case True
    then have "t \<in> set (inner_rows ?rs)" unfolding inn using t(2) fr(2,3) [of t] by linarith
    then show ?thesis using pre by blast
  next
    case False
    then have e: "t = g_len G - 1" using t(1) by simp
    then have "\<not> idle (?rs ! (g_len G - 1))" using idl [OF t(1)] t(2) by auto
    then show ?thesis using e by (auto simp: ps_def kept_rows_def)
  qed
  show "t = ?f \<or> g_recv G P t \<noteq> None \<or> g_send G P t \<noteq> None \<or> t = g_len G - 1" if "t \<in> set ps"
    using that inn [of t] by (auto simp: ps_def kept_rows_def split: if_splits)
  have "last (inner_rows ?rs) < g_len G" using ib last_in_set [of "inner_rows ?rs"] by fastforce
  then show "g_send G P (last ps) = None"
    using g_seq_sel(5) [of "last (inner_rows ?rs)" G P] no_send_last [OF assms(1), of P] by (auto simp: ps_def kept_rows_def)
qed

lemma gates_basic:
  assumes "wf_grid G" "P \<in> gprocs G"
  shows "g_gates G P \<noteq> []" "i < j \<Longrightarrow> j \<le> g_last G P \<Longrightarrow> g_out G P i < g_in G P j" "j \<le> g_last G P \<Longrightarrow> g_in G P j \<le> g_out G P j"
    "j \<le> g_last G P \<Longrightarrow> g_out G P j < g_len G" "g_in G P 0 = first_row (g_seq G P)" "g_recv G P (g_in G P 0) = None"
    "j \<le> g_last G P \<Longrightarrow> g_in G P j \<in> set (kept_rows (g_seq G P)) \<and> g_out G P j \<in> set (kept_rows (g_seq G P))"
proof -
  let ?rs = "g_seq G P"
  note fr = first_row_g [OF assms(1,2)]
  have f2: "first_row ?rs + 2 \<le> length ?rs" using fr(1) by simp
  note kb = kept_rows_bounds [OF f2]
  show ne: "g_gates G P \<noteq> []" using gates_of_hd [OF kb(3), of ?rs] by (simp add: g_gates_def seq_gates_def)
  then have lt: "j \<le> g_last G P \<longleftrightarrow> j < length (g_gates G P)" for j by (cases "g_gates G P") (auto simp: g_last_def)
  note so = gates_of_sorted [OF kb(1), of ?rs, folded seq_gates_def, folded g_gates_def]
  show "g_out G P i < g_in G P j" if "i < j" "j \<le> g_last G P" using so that lt by (auto simp: sorted_wrt_iff_nth_less g_in_def g_out_def)
  have m: "(g_in G P j, g_out G P j) \<in> set (g_gates G P)" if "j \<le> g_last G P" for j using that lt by (simp add: g_in_def g_out_def)
  show io: "g_in G P j \<le> g_out G P j" if "j \<le> g_last G P" using m [OF that] so by auto
  show k: "g_in G P j \<in> set (kept_rows ?rs) \<and> g_out G P j \<in> set (kept_rows ?rs)" if "j \<le> g_last G P"
    using gates_of_set [of "g_in G P j" "g_out G P j" ?rs "kept_rows ?rs"] m [OF that] by (simp add: g_gates_def seq_gates_def)
  show "g_out G P j < g_len G" if "j \<le> g_last G P" using k [OF that] kb(2) by simp
  show h: "g_in G P 0 = first_row ?rs" using gates_of_hd [OF kb(3), of ?rs] kb(4) by (auto simp: g_in_def g_gates_def seq_gates_def hd_conv_nth)
  show "g_recv G P (g_in G P 0) = None" using fr(2) h by simp
qed

lemma gate_of_recv:
  assumes "wf_grid G" "P \<in> gprocs G" "t < g_len G" "g_recv G P t \<noteq> None"
  obtains j where "0 < j" "j \<le> g_last G P" "g_in G P j = t"
proof -
  have "t \<in> fst ` set (g_gates G P)"
    using gates_of_recv [of t "kept_rows (g_seq G P)" "g_seq G P"] kept_rows_g(1) [OF assms(1-3)] g_seq_sel(2) [OF assms(3)] assms(4)
    by (simp add: g_gates_def seq_gates_def)
  then obtain j where j: "j < length (g_gates G P)" "g_in G P j = t" by (auto simp: g_in_def in_set_conv_nth image_iff)
  then have "j \<noteq> 0" using gates_basic(6) [OF assms(1,2)] assms(4) by (cases j) auto
  then show thesis using that [of j] j by (auto simp: g_last_def)
qed

lemma gates_end:
  assumes "wf_grid G" "P \<in> gprocs G"
  shows "g_out G P (g_last G P) = g_in G P (g_last G P)" "g_send G P (g_out G P (g_last G P)) = None"
    "j \<le> g_last G P \<Longrightarrow> g_in G P j \<noteq> g_out G P j \<Longrightarrow> g_send G P (g_in G P j) = None \<and> g_send G P (g_out G P j) \<noteq> None \<and> g_recv G P (g_out G P j) = None"
proof -
  let ?rs = "g_seq G P"
  have f2: "first_row ?rs + 2 \<le> length ?rs" using first_row_g(1) [OF assms] by simp
  note kb = kept_rows_bounds [OF f2]
  have lk: "last (kept_rows ?rs) < g_len G" using kb(2,3) by simp
  have ns: "no_send (?rs ! last (kept_rows ?rs))" using kept_rows_g(3) [OF assms] g_seq_sel(5) [OF lk] by simp
  have "last (g_gates G P) = (last (kept_rows ?rs), last (kept_rows ?rs))"
    using gates_of_last [OF kb(3) ns] by (simp add: g_gates_def seq_gates_def)
  then have l: "g_gates G P ! g_last G P = (last (kept_rows ?rs), last (kept_rows ?rs))"
    using gates_basic(1) [OF assms] by (simp add: g_last_def last_conv_nth)
  show "g_out G P (g_last G P) = g_in G P (g_last G P)" "g_send G P (g_out G P (g_last G P)) = None"
    using l kept_rows_g(3) [OF assms] by (simp_all add: g_out_def g_in_def)
  show "g_send G P (g_in G P j) = None \<and> g_send G P (g_out G P j) \<noteq> None \<and> g_recv G P (g_out G P j) = None" if j: "j \<le> g_last G P" "g_in G P j \<noteq> g_out G P j"
  proof -
    have "j < length (g_gates G P)" using j(1) gates_basic(1) [OF assms] by (cases "g_gates G P") (auto simp: g_last_def)
    then have "(g_in G P j, g_out G P j) \<in> set (g_gates G P)" by (simp add: g_in_def g_out_def)
    then have m: "mergeable (?rs ! g_in G P j) (?rs ! g_out G P j)" using gates_of_merged j(2) by (auto simp: g_gates_def seq_gates_def)
    have "g_in G P j < g_len G" "g_out G P j < g_len G" using gates_basic(3,4) [OF assms j(1)] by simp_all
    then show ?thesis using m g_seq_sel(2,5) by (simp add: mergeable_def)
  qed
qed

lemma gate_of_send:
  assumes "wf_grid G" "P \<in> gprocs G" "t < g_len G" "g_send G P t \<noteq> None"
  obtains j where "j < g_last G P" "g_out G P j = t"
proof -
  have "t \<in> snd ` set (g_gates G P)"
    using gates_of_send [of t "kept_rows (g_seq G P)" "g_seq G P"] kept_rows_g(1) [OF assms(1-3)] g_seq_sel(5) [OF assms(3)] assms(4)
    by (simp add: g_gates_def seq_gates_def)
  then obtain j where j: "j < length (g_gates G P)" "g_out G P j = t" by (auto simp: g_out_def in_set_conv_nth image_iff)
  then have "j \<noteq> g_last G P" using gates_end(2) [OF assms(1,2)] assms(4) by auto
  then show thesis using that [of j] j by (auto simp: g_last_def)
qed

lemma g_last_pos: "wf_grid G \<Longrightarrow> P \<in> gprocs G \<Longrightarrow> 0 < g_last G P"
  by (metis gate_of_send gr_zeroI not_less_zero sends_some)

lemma gates_inj:
  assumes "wf_grid G" "P \<in> gprocs G" "i \<le> g_last G P" "j \<le> g_last G P"
  shows "g_in G P i = g_in G P j \<Longrightarrow> i = j" "g_out G P i = g_out G P j \<Longrightarrow> i = j"
  using gates_basic(2,3) [OF assms(1,2)] assms(3,4) by (metis leD linorder_neqE_nat order_less_le_trans order_le_less_trans)+

text \<open>Between the row where a gate receives and the next one nothing is received.\<close>

lemma gate_val_until:
  assumes "wf_grid G" "P \<in> gprocs G" "j \<le> g_last G P" "g_in G P j \<le> t" "t < g_len G" "j < g_last G P \<Longrightarrow> t < g_in G P (j + 1)"
  shows "g_val G v t P = g_val G v (g_in G P j) P"
  using assms(4-6)
proof (induction t)
  case (Suc t)
  show ?case
  proof (cases "g_in G P j = Suc t")
    case False
    have "g_recv G P (Suc t) = None"
    proof (rule ccontr)
      assume "g_recv G P (Suc t) \<noteq> None"
      then obtain i where i: "i \<le> g_last G P" "g_in G P i = Suc t" by (rule gate_of_recv [OF assms(1,2) Suc.prems(2)])
      have mono: "g_in G P a \<le> g_in G P b" if "a \<le> b" "b \<le> g_last G P" for a b
        using gates_basic(2) [OF assms(1,2), of a b] gates_basic(3) [OF assms(1,2), of a] that by (cases "a = b") auto
      show False
      proof (cases "i \<le> j")
        case True
        then show False using mono [OF True assms(3)] i(2) Suc.prems(1) False by simp
      next
        case notle: False
        then show False using mono [of "j + 1" i] i Suc.prems(3) by simp
      qed
    qed
    then have "g_val G v (Suc t) P = g_val G v t P"
      using g_val_Suc [of t G v P] Suc.prems(2) g_cut_recv [of G P "Suc t"] by auto
    moreover have "g_val G v t P = g_val G v (g_in G P j) P" by (rule Suc.IH) (use Suc.prems False in auto)
    ultimately show ?thesis by simp
  qed simp
qed simp

lemma g_in_0_val:
  assumes "wf_grid G" "P \<in> gprocs G"
  shows "g_val G v (g_in G P 0) P = v P"
proof -
  have "g_val G v t P = v P" if "t \<le> g_in G P 0" for t
    using that
  proof (induction t)
    case (Suc t)
    have "g_recv G P (Suc t) = None" using first_row_g(2) [OF assms] Suc.prems gates_basic(5) [OF assms] by simp
    moreover have "Suc t < g_len G" using Suc.prems gates_basic(3,4) [OF assms, of 0] by linarith
    ultimately show ?case using Suc g_val_Suc [of t G v P] g_cut_recv [of G P "Suc t"] by auto
  qed (simp add: g_val_0 assms(1))
  then show ?thesis by simp
qed

lemma last_gate_val:
  assumes "wf_grid G" "P \<in> gprocs G"
  shows "g_val G v (g_in G P (g_last G P)) P = sum v (gprocs G)"
  using gate_val_until [OF assms, of "g_last G P" "g_len G - 1" v] gates_basic(3,4) [OF assms, of "g_last G P"] g_val_total [OF assms, of v]
  by simp

text \<open>The value of a gate from the gate before it and from the gate that sends to it.\<close>

lemma gate_val_step:
  assumes "wf_grid G" "P \<in> gprocs G" "0 < j" "j \<le> g_last G P"
  shows "g_val G v (g_in G P j) P = (if g_cut G P (g_in G P j) then 0 else g_val G v (g_in G P (j - 1)) P)
     + (case g_recv G P (g_in G P j) of None \<Rightarrow> 0 | Some Q \<Rightarrow> g_val G v (g_in G P j - 1) Q)"
proof -
  have b: "g_out G P (j - 1) < g_in G P j" "g_in G P (j - 1) \<le> g_out G P (j - 1)" "g_in G P j < g_len G"
    using gates_basic(2) [OF assms(1,2), of "j - 1" j] gates_basic(3) [OF assms(1,2), of "j - 1"] gates_basic(3,4) [OF assms(1,2,4)] assms(3,4) by auto
  obtain t where t: "g_in G P j = t + 1" using b(1) by (metis Suc_eq_plus1 less_nat_zero_code not0_implies_Suc)
  have "g_val G v t P = g_val G v (g_in G P (j - 1)) P"
    by (rule gate_val_until [OF assms(1,2)]) (use b t assms(3,4) in auto)
  then show ?thesis using g_val_Suc [of t G v P] b(3) unfolding t add_diff_cancel_right' by simp
qed

lemma sender_gate:
  assumes "wf_grid G" "P \<in> gprocs G" "j \<le> g_last G P" "g_recv G P (g_in G P j) = Some Q"
  obtains i where "i < g_last G Q" "g_out G Q i = g_in G P j - 1" "g_send G Q (g_out G Q i) = Some P"
    "g_val G v (g_in G P j - 1) Q = g_val G v (g_in G Q i) Q"
proof -
  have l: "g_in G P j < g_len G" using gates_basic(3,4) [OF assms(1-3)] by simp
  have Q: "Q \<in> gprocs G" using recv_range [OF assms(1,2) l assms(4)] by simp
  obtain t where t: "g_in G P j = t + 1" using assms(4) no_recv_first [OF assms(1), of P] by (cases "g_in G P j") auto
  have s: "g_send G Q t = Some P" using send_recv [OF assms(1) Q assms(2), of t] assms(4) l t by simp
  obtain i where i: "i < g_last G Q" "g_out G Q i = t" by (rule gate_of_send [OF assms(1) Q, of t]) (use s l t in auto)
  have "g_val G v t Q = g_val G v (g_in G Q i) Q"
    by (rule gate_val_until [OF assms(1) Q]) (use i gates_basic(2-4) [OF assms(1) Q] in \<open>auto simp: less_imp_le\<close>)
  then show thesis using that i s t by simp
qed

end
