(* ===== verification/Vbg_Wiring.thy ===== *)
theory Vbg_Wiring
  imports Vbg_Gates Vbg_Init
begin

text \<open>
  How the gates are wired: the loops of \<open>allocate_vbg\<close>, \<open>set_local_vbg\<close> and \<open>make_bginfo\<close> over the sequence of a process, and the
  remote sides that \<open>utf_bg_init\<close> takes from the words of the others, give the gates exactly the
  connections of the butterfly.
\<close>

section \<open>Loops over the gates\<close>

text \<open>
  The common shape of the loops: gate 0 writes one half of the first entry, the last gate \<open>m\<close> the other half, and
  the gates between them their own entries.
\<close>

definition slot_step :: "(nat \<Rightarrow> 'a \<Rightarrow> 'a) \<Rightarrow> (nat \<Rightarrow> 'a \<Rightarrow> 'a) \<Rightarrow> (nat \<Rightarrow> 'a \<Rightarrow> 'a) \<Rightarrow> nat \<Rightarrow> nat \<Rightarrow> 'a list \<Rightarrow> 'a list" where
  "slot_step D S B m j xs = (if j = 0 then xs[0 := D 0 (xs ! 0)] else if j = m then xs[0 := S m (xs ! 0)] else xs[j := B j (xs ! j)])"

lemma slot_fold_part:
  assumes "k \<le> length xs"
  shows "fold (slot_step D S B (length xs)) [0..<k] xs = map (\<lambda>i. if i < k then (if i = 0 then D 0 (xs ! 0) else B i (xs ! i)) else xs ! i) [0..<length xs]"
  using assms
proof (induction k)
  case (Suc k)
  let ?F = "\<lambda>k i. if i < k then (if i = 0 then D 0 (xs ! 0) else B i (xs ! i)) else xs ! i"
  have f: "fold (slot_step D S B (length xs)) [0..<Suc k] xs = slot_step D S B (length xs) k (map (?F k) [0..<length xs])"
    using Suc by simp
  show ?case unfolding f using Suc.prems by (intro nth_equalityI) (auto simp: slot_step_def nth_list_update)
qed (simp add: map_nth)

lemma slot_fold:
  assumes "0 < length xs"
  shows "fold (slot_step D S B (length xs)) [0..<Suc (length xs)] xs = map (\<lambda>i. if i = 0 then S (length xs) (D 0 (xs ! 0)) else B i (xs ! i)) [0..<length xs]"
proof -
  have f: "fold (slot_step D S B (length xs)) [0..<Suc (length xs)] xs
      = slot_step D S B (length xs) (length xs) (map (\<lambda>i. if i = 0 then D 0 (xs ! 0) else B i (xs ! i)) [0..<length xs])"
  proof -
    have "map (\<lambda>i. if i < length xs then (if i = 0 then D 0 (xs ! 0) else B i (xs ! i)) else xs ! i) [0..<length xs]
        = map (\<lambda>i. if i = 0 then D 0 (xs ! 0) else B i (xs ! i)) [0..<length xs]" by (rule map_cong) simp_all
    from trans [OF slot_fold_part [of "length xs" xs D S B, OF order_refl] this] show ?thesis by simp
  qed
  show ?thesis unfolding f using assms by (intro nth_equalityI) (auto simp: slot_step_def nth_list_update)
qed

lemma slot_length [simp]: "length (slot_step D S B m j xs) = length xs"
  by (simp add: slot_step_def)

lemma seq_walk_linked: "linked rs c ps \<Longrightarrow> seq_walk c rs = Some ps"
  by (induction rule: linked.induct) (simp_all add: seq_walk.simps)

text \<open>A sequence of rows with the positions that its links visit.\<close>

definition chain_of :: "butterfly_seq list \<Rightarrow> nat list \<Rightarrow> nat \<Rightarrow> bool" where
  "chain_of rs cs m \<longleftrightarrow> 0 < m \<and> length cs = Suc m \<and> distinct cs \<and> (\<forall>c \<in> set cs. c < length rs)
     \<and> (\<forall>j < m. nextptr (rs ! (cs ! j)) = Some (cs ! Suc j)) \<and> nextptr (rs ! (cs ! m)) = None"

lemma linked_nth:
  assumes "linked rs c ps"
  shows "ps \<noteq> []" "Suc j < length ps \<Longrightarrow> nextptr (rs ! (ps ! j)) = Some (ps ! Suc j)"
proof -
  show "ps \<noteq> []" using linked_hd [OF assms] by simp
  show "nextptr (rs ! (ps ! j)) = Some (ps ! Suc j)" if "Suc j < length ps"
    using assms that
  proof (induction arbitrary: j rule: linked.induct)
    case (linked_link c d ps)
    then show ?case using linked_hd [OF linked_link.hyps(2)] by (cases j; cases ps) auto
  qed simp
qed

lemma chain_of_linked:
  assumes "linked rs c cs" "distinct cs" "\<forall>p \<in> set cs. p < length rs" "length cs = Suc m" "0 < m"
  shows "chain_of rs cs m"
  using linked_nth [OF assms(1)] linked_last [OF assms(1)] assms by (auto simp: chain_of_def last_conv_nth)

lemma chain_last: "chain_of rs cs m \<Longrightarrow> j \<le> m \<Longrightarrow> nextptr (rs ! (cs ! j)) = None \<longleftrightarrow> j = m"
  unfolding chain_of_def by (cases "j = m") auto

lemma chain_start: "chain_of rs cs m \<Longrightarrow> j \<le> m \<Longrightarrow> cs ! j = cs ! 0 \<longleftrightarrow> j = 0"
  unfolding chain_of_def by (auto simp: nth_eq_iff_index_eq)

text \<open>The identifier of gate \<open>j\<close>: the last gate is the first one.\<close>

definition gate_id :: "u64 list \<Rightarrow> nat \<Rightarrow> nat \<Rightarrow> u64" where
  "gate_id ids m j = (if j = m then ids ! 0 else ids ! j)"

definition number_rows :: "u64 list \<Rightarrow> nat \<Rightarrow> nat list \<Rightarrow> nat list \<Rightarrow> butterfly_seq list \<Rightarrow> butterfly_seq list" where
  "number_rows ids m cs = fold (\<lambda>j rs. set_vbg_id (cs ! j) (gate_id ids m j) rs)"

definition same_rows :: "butterfly_seq list \<Rightarrow> butterfly_seq list \<Rightarrow> bool" where
  "same_rows rs rs' \<longleftrightarrow> length rs' = length rs \<and> (\<forall>x. recvinfo (rs' ! x) = recvinfo (rs ! x) \<and> sendinfo (rs' ! x) = sendinfo (rs ! x) \<and> nextptr (rs' ! x) = nextptr (rs ! x))"

lemma same_rows_set_id: "same_rows rs rs' \<Longrightarrow> same_rows rs (set_vbg_id c v rs')"
  by (cases "c < length rs'") (auto simp: same_rows_def set_vbg_id_def nth_list_update list_update_beyond)

lemma same_rows_refl [simp]: "same_rows rs rs"
  by (simp add: same_rows_def)

lemma same_number_rows: "same_rows rs rs' \<Longrightarrow> same_rows rs (number_rows ids m cs js rs')"
  unfolding number_rows_def by (induction js arbitrary: rs') (simp_all add: same_rows_set_id)

lemma drop_upt_nth: "j < length cs \<Longrightarrow> drop j cs = cs ! j # drop (Suc j) cs"
  by (simp add: Cons_nth_drop_Suc)

lemma assign_loop_fold:
  assumes "chain_of rs cs m" "same_rows rs rsj" "j \<le> Suc m"
  shows "assign_loop (cs ! 0) ids j (drop j cs) (rsj, rm) = (number_rows ids m cs [j..<Suc m] rsj,
     fold (slot_step (\<lambda>i. SET_DST_REMOTE (rs ! (cs ! i))) (\<lambda>i. SET_SRC_REMOTE (rs ! (cs ! i)))
       (\<lambda>i x. SET_DST_REMOTE (rs ! (cs ! i)) (SET_SRC_REMOTE (rs ! (cs ! i)) x)) m) [j..<Suc m] rm)"
  using assms(2,3)
proof (induction "Suc m - j" arbitrary: j rsj rm)
  case 0
  then show ?case using assms(1) by (simp add: chain_of_def number_rows_def)
next
  case (Suc n)
  have j: "j \<le> m" "j < length cs" "0 < m" using Suc.hyps(2) assms(1) by (auto simp: chain_of_def)
  let ?r = "set_vbg_id (cs ! j) (gate_id ids m j) rsj"
  have sr: "same_rows rs ?r" using Suc.prems(1) by (rule same_rows_set_id)
  have eq: "nextptr (rsj ! (cs ! j)) = nextptr (rs ! (cs ! j))"
      "SET_DST_REMOTE (rsj ! (cs ! j)) = SET_DST_REMOTE (rs ! (cs ! j))" "SET_SRC_REMOTE (rsj ! (cs ! j)) = SET_SRC_REMOTE (rs ! (cs ! j))"
    using Suc.prems(1) by (auto simp: same_rows_def SET_DST_REMOTE_def SET_SRC_REMOTE_def fun_eq_iff)
  have u: "[j..<Suc m] = j # [Suc j..<Suc m]" using j(1) by (simp add: upt_conv_Cons del: upt_Suc)
  note IH = Suc.hyps(1) [of "Suc j" ?r, OF _ sr]
  show ?case
    using chain_start [OF assms(1) j(1)] chain_last [OF assms(1) j(1)] eq j(3) IH Suc.hyps(2)
    unfolding drop_upt_nth [OF j(2)] u assign_loop.simps
    by (auto simp: number_rows_def slot_step_def gate_id_def simp del: upt_Suc)
qed

lemma number_rows_id:
  assumes "distinct cs" "\<forall>c \<in> set cs. c < length rs" "k \<le> length cs" "j < k"
  shows "sq_vbg_id (number_rows ids m cs [0..<k] rs ! (cs ! j)) = gate_id ids m j"
  using assms(3,4)
proof (induction k)
  case (Suc k)
  have r: "number_rows ids m cs [0..<Suc k] rs = set_vbg_id (cs ! k) (gate_id ids m k) (number_rows ids m cs [0..<k] rs)" by (simp add: number_rows_def)
  have l: "length (number_rows ids m cs [0..<k] rs) = length rs" using same_number_rows [OF same_rows_refl, of rs ids m cs] by (simp add: same_rows_def)
  have "cs ! k < length rs" using assms(2) Suc.prems(1) by simp
  then show ?case
    using Suc assms(1) l unfolding r set_vbg_id_def by (cases "j = k") (auto simp: nth_list_update nth_eq_iff_index_eq)
qed simp

text \<open>The loop of \<open>set_local_vbg\<close>.\<close>

definition local_dst :: "butterfly_seq list \<Rightarrow> nat list \<Rightarrow> nat \<Rightarrow> vbg_setting \<Rightarrow> vbg_setting" where
  "local_dst rs cs i x = SET_DST_LOCAL rs (cs ! i) (cs ! Suc i) (x\<lparr>vs_vbg_id := sq_vbg_id (rs ! (cs ! i))\<rparr>)"

definition local_src :: "butterfly_seq list \<Rightarrow> nat list \<Rightarrow> nat \<Rightarrow> vbg_setting \<Rightarrow> vbg_setting" where
  "local_src rs cs i x = SET_SRC_LOCAL rs (cs ! (i - 1)) (cs ! i) x"

lemma local_loop_fold:
  assumes "chain_of rs cs m" "j \<le> Suc m" "0 < j \<Longrightarrow> prev = cs ! (j - 1)"
  shows "local_loop rs (cs ! 0) j prev (drop j cs) xs
    = fold (slot_step (local_dst rs cs) (local_src rs cs) (\<lambda>i x. local_src rs cs i (local_dst rs cs i x)) m) [j..<Suc m] xs"
  using assms(2,3)
proof (induction "Suc m - j" arbitrary: j prev xs)
  case 0
  then show ?case using assms(1) by (simp add: chain_of_def)
next
  case (Suc n)
  have j: "j \<le> m" "j < length cs" "0 < m" using Suc.hyps(2) assms(1) by (auto simp: chain_of_def)
  have u: "[j..<Suc m] = j # [Suc j..<Suc m]" using j(1) by (simp add: upt_conv_Cons del: upt_Suc)
  have nx: "nextptr (rs ! (cs ! j)) = (if j = m then None else Some (cs ! Suc j))" using assms(1) j(1) by (auto simp: chain_of_def)
  have n: "n = Suc m - Suc j" "Suc j \<le> Suc m" using Suc.hyps(2) j by auto
  have IH: "local_loop rs (cs ! 0) (j + 1) (cs ! j) (drop (Suc j) cs) ys
      = fold (slot_step (local_dst rs cs) (local_src rs cs) (\<lambda>i x. local_src rs cs i (local_dst rs cs i x)) m) [Suc j..<Suc m] ys" for ys
    using Suc.hyps(1) [OF n] by simp
  have st: "(case nextptr (rs ! (cs ! j)) of
        None \<Rightarrow> if cs ! j = cs ! 0 then xs else xs[0 := SET_SRC_LOCAL rs prev (cs ! j) (xs ! 0)]
      | Some nxt \<Rightarrow>
          if cs ! j = cs ! 0 then xs[0 := SET_DST_LOCAL rs (cs ! j) nxt ((xs ! 0)\<lparr>vs_vbg_id := sq_vbg_id (rs ! (cs ! j))\<rparr>)]
          else xs[j := SET_SRC_LOCAL rs prev (cs ! j) (SET_DST_LOCAL rs (cs ! j) nxt ((xs ! j)\<lparr>vs_vbg_id := sq_vbg_id (rs ! (cs ! j))\<rparr>))])
    = slot_step (local_dst rs cs) (local_src rs cs) (\<lambda>i x. local_src rs cs i (local_dst rs cs i x)) m j xs"
    using nx chain_start [OF assms(1) j(1)] Suc.prems(2) j(3) by (auto simp: slot_step_def local_dst_def local_src_def)
  show ?case unfolding drop_upt_nth [OF j(2)] u local_loop.simps st fold_simps IH ..
qed

section \<open>The sequence of a process\<close>

definition g_chain :: "net_grid \<Rightarrow> nat \<Rightarrow> nat list" where
  "g_chain G P = map fst (g_gates G P)"

text \<open>Rows that \<open>make_butterfly_network\<close> has built for process \<open>P\<close>; the gates may have been numbered since.\<close>

definition built :: "net_grid \<Rightarrow> nat \<Rightarrow> butterfly_seq list \<Rightarrow> bool" where
  "built G P rs \<longleftrightarrow> chain_of rs (g_chain G P) (g_last G P) \<and> length rs = g_len G
     \<and> seq_walk (first_row (g_seq G P)) rs = Some (g_chain G P)
     \<and> (\<forall>t < g_len G. recvinfo (rs ! t) = recvinfo (g_seq G P ! t))
     \<and> (\<forall>j \<le> g_last G P. sendinfo (rs ! g_in G P j) = sendinfo (g_seq G P ! g_out G P j))
     \<and> (\<forall>t < g_len G. t \<notin> g_in G P ` {..g_last G P} \<longrightarrow> sendinfo (rs ! t) = sendinfo (g_seq G P ! t))"

lemma g_chain_nth:
  assumes "wf_grid G" "P \<in> gprocs G"
  shows "length (g_chain G P) = Suc (g_last G P)" "j \<le> g_last G P \<Longrightarrow> g_chain G P ! j = g_in G P j" "distinct (g_chain G P)"
    "set (g_chain G P) = g_in G P ` {..g_last G P}" "c \<in> set (g_chain G P) \<Longrightarrow> c < g_len G"
proof -
  note b = gates_basic [OF assms]
  show l: "length (g_chain G P) = Suc (g_last G P)" using b(1) by (cases "g_gates G P") (auto simp: g_chain_def g_last_def)
  then show n: "g_chain G P ! j = g_in G P j" if "j \<le> g_last G P" for j using that by (simp add: g_chain_def g_in_def)
  show "distinct (g_chain G P)" unfolding distinct_conv_nth l using n gates_inj(1) [OF assms] by (auto simp: less_Suc_eq_le)
  have "set (g_chain G P) = (!) (g_chain G P) ` {..g_last G P}" using l by (auto simp: set_conv_nth less_Suc_eq_le)
  also have "\<dots> = g_in G P ` {..g_last G P}" using n by (intro image_cong) simp_all
  finally show s: "set (g_chain G P) = g_in G P ` {..g_last G P}" .
  show "c < g_len G" if "c \<in> set (g_chain G P)" using that b(3,4) unfolding s by (auto dest: order_le_less_trans)
qed

lemma make_network_built:
  assumes "wf_grid G" "P \<in> gprocs G" "on_grid start axes P (gax G) (gbs G) (gpos G) (gpeer G) (gphy G)"
    and "ok M_sequence" "\<And>i. ok (M_sender i) \<and> ok (M_reciver i)"
  obtains rs where "make_butterfly_network ok axes start = ret (Inr (first_row (g_seq G P), rs, g_last G P))" "built G P rs"
proof -
  let ?axes = "fst (setup_axes start axes)" and ?f = "first_row (g_seq G P)"
  have og: "length axes = NUM_AXES" "gbs G = filter (\<lambda>i. 1 < ax_size (axes ! i)) [start..<NUM_AXES]"
    using assms(3) unfolding on_grid_def by blast+
  have rd: "ready_axis (axes ! i) (?axes ! i)" if "i \<in> set [start..<NUM_AXES]" for i using setup_axes_ready [OF og(1)] that by simp
  have fl: "filter (\<lambda>i. 1 < ax_size (?axes ! i)) [start..<NUM_AXES] = gbs G"
  proof -
    have "(1 < ax_size (?axes ! i)) = (1 < ax_size (axes ! i))" if "i \<in> set [start..<NUM_AXES]" for i using rd [OF that] by (simp add: ready_axis_def)
    then show ?thesis unfolding og(2) by (rule filter_cong [OF refl])
  qed
  have ax: "axis_set (gax G i) \<and> axis_set (?axes ! i) \<and> ax_size (?axes ! i) = ax_size (gax G i) \<and> nodeinfo_index (?axes ! i) = gpos G P i
       \<and> gpos G P i < ax_size (gax G i) \<and> (\<forall>k < ax_size (gax G i). ni_index (nodeinfo (?axes ! i) ! k) = gpeer G P i k
         \<and> ni_phy (nodeinfo (?axes ! i) ! k) = gphy G (gpeer G P i k))" if i: "i \<in> set [start..<NUM_AXES]" "1 < ax_size (?axes ! i)" for i
  proof -
    have ib: "i \<in> set (gbs G)" using i fl [symmetric] by simp
    have "axis_set (gax G i)" "gpos G P i < ax_size (gax G i)" using gridD(3,4) assms(1,2) ib unfolding wf_grid_def by blast+
    moreover have "ax_size (axes ! i) = ax_size (gax G i) \<and> nodeinfo_index (axes ! i) = gpos G P i
        \<and> (\<forall>k < ax_size (gax G i). ni_index (nodeinfo (axes ! i) ! k) = gpeer G P i k \<and> ni_phy (nodeinfo (axes ! i) ! k) = gphy G (gpeer G P i k))"
      using assms(3) ib unfolding on_grid_def by blast
    ultimately show ?thesis using rd [OF i(1)] i(2) by (simp add: ready_axis_def)
  qed
  have rows: "axes_rows ok ?axes [start..<NUM_AXES] = ret (Inr (g_seq G P))"
    unfolding g_seq_def g_rows_def fl [symmetric] by (rule axes_rows_grid) (use assms(5) ax in blast)+
  have f2: "?f + 2 \<le> length (g_seq G P)" "\<forall>r \<in> set (g_seq G P). nextptr r = None"
    using first_row_g(1) [OF assms(1,2)] g_seq_sel(7) by (auto simp: in_set_conv_nth)
  obtain rs where o: "optimized_sequence (g_seq G P) = ret (?f, rs)" "linked rs ?f (g_chain G P)" "length rs = g_len G"
      "\<And>x. recvinfo (rs ! x) = recvinfo (g_seq G P ! x)" "\<And>x. x \<notin> fst ` set (g_gates G P) \<Longrightarrow> sendinfo (rs ! x) = sendinfo (g_seq G P ! x)"
      "\<And>c e. (c, e) \<in> set (g_gates G P) \<Longrightarrow> sendinfo (rs ! c) = sendinfo (g_seq G P ! e)"
    using optimized_gates [OF f2] unfolding g_chain_def g_gates_def length_g_seq by metis
  note gc = g_chain_nth [OF assms(1,2)]
  have m: "0 < g_last G P" by (rule g_last_pos [OF assms(1,2)])
  have cl: "count_links ?f rs 0 = Some (g_last G P)" using count_links_chain [OF o(2), of 0] gc(1) by simp
  have co: "chain_of rs (g_chain G P) (g_last G P)" by (rule chain_of_linked [OF o(2) gc(3) _ gc(1) m]) (use gc(5) o(3) in auto)
  have gm: "(g_in G P j, g_out G P j) \<in> set (g_gates G P)" if "j \<le> g_last G P" for j
    using that gc(1) by (simp add: g_in_def g_out_def g_chain_def)
  have fs: "fst ` set (g_gates G P) = g_in G P ` {..g_last G P}" using gc(4) by (simp add: g_chain_def)
  have "built G P rs" unfolding built_def using co o(3-6) gm fs seq_walk_linked [OF o(2)] by auto
  moreover have "make_butterfly_network ok axes start = ret (Inr (?f, rs, g_last G P))"
    using assms(4) rows o(1) cl by (simp add: make_butterfly_network_def case_prod_unfold)
  ultimately show thesis using that by blast
qed

section \<open>Numbering the gates\<close>

lemma built_same:
  assumes "built G P rs" "same_rows rs rs'" "wf_grid G" "P \<in> gprocs G"
  shows "built G P rs'"
proof -
  have "seq_walk c rs' = seq_walk c rs" if "seq_walk c rs = Some ps" for c ps
    using that assms(2)
  proof (induction ps arbitrary: c)
    case (Cons p ps)
    then show ?case
      by (subst (asm) seq_walk.simps, subst seq_walk.simps, subst (2) seq_walk.simps) (auto simp: same_rows_def split: option.splits bind_splits)
  qed (subst (asm) seq_walk.simps, auto split: option.splits bind_splits)
  then show ?thesis using assms(1,2) unfolding built_def same_rows_def chain_of_def by auto
qed

text \<open>The place in the arrays where gate \<open>i\<close> receives: the first entry belongs to the last gate.\<close>

definition slot :: "net_grid \<Rightarrow> nat \<Rightarrow> nat \<Rightarrow> nat" where
  "slot G P i = (if i = 0 then g_last G P else i)"

lemma numbered:
  assumes "wf_grid G" "P \<in> gprocs G" "built G P rs"
    and "assign_loop (first_row (g_seq G P)) ids 0 (g_chain G P) (rs, replicate (g_last G P) r0) = (rs', rm)"
  shows "built G P rs'" "j \<le> g_last G P \<Longrightarrow> sq_vbg_id (rs' ! g_in G P j) = gate_id ids (g_last G P) j"
    "rm = map (\<lambda>i. r0\<lparr>src_rmt_index := g_recv G P (g_in G P (slot G P i)), dst_rmt_index := g_send G P (g_out G P i)\<rparr>) [0..<g_last G P]"
proof -
  let ?m = "g_last G P" and ?cs = "g_chain G P"
  note gc = g_chain_nth [OF assms(1,2)] and m = g_last_pos [OF assms(1,2)]
  have co: "chain_of rs ?cs ?m" and lr: "length rs = g_len G" using assms(3) by (simp_all add: built_def)
  have h: "first_row (g_seq G P) = ?cs ! 0" using gc(2) [of 0] gates_basic(5) [OF assms(1,2)] by simp
  have e: "rs' = number_rows ids ?m ?cs [0..<Suc ?m] rs"
      "rm = fold (slot_step (\<lambda>i. SET_DST_REMOTE (rs ! (?cs ! i))) (\<lambda>i. SET_SRC_REMOTE (rs ! (?cs ! i)))
       (\<lambda>i x. SET_DST_REMOTE (rs ! (?cs ! i)) (SET_SRC_REMOTE (rs ! (?cs ! i)) x)) ?m) [0..<Suc ?m] (replicate ?m r0)"
    using assms(4) assign_loop_fold [OF co same_rows_refl, of 0 ids "replicate ?m r0"] unfolding h by (simp_all del: upt_Suc)
  show "built G P rs'" unfolding e by (rule built_same [OF assms(3) same_number_rows [OF same_rows_refl] assms(1,2)])
  show "sq_vbg_id (rs' ! g_in G P j) = gate_id ids ?m j" if "j \<le> ?m"
    using number_rows_id [OF gc(3), of rs "Suc ?m" j ids ?m] gc that lr unfolding e by (simp del: upt_Suc)
  have rx: "(if no_recv (rs ! g_in G P i) then None else bp_index (recvinfo (rs ! g_in G P i))) = g_recv G P (g_in G P i)" if "i \<le> ?m" for i
  proof -
    have "g_in G P i < g_len G" using gates_basic(3,4) [OF assms(1,2) that] by simp
    then show ?thesis using assms(3) g_seq_sel(1,2) by (simp add: built_def)
  qed
  have sx: "(if no_send (rs ! g_in G P i) then None else bp_index (sendinfo (rs ! g_in G P i))) = g_send G P (g_out G P i)" if "i \<le> ?m" for i
    using assms(3) g_seq_sel(4,5) [OF gates_basic(4) [OF assms(1,2) that], of P] that by (simp add: built_def)
  have rm: "rm = map (\<lambda>i. if i = 0 then SET_SRC_REMOTE (rs ! (?cs ! ?m)) (SET_DST_REMOTE (rs ! (?cs ! 0)) r0)
        else SET_DST_REMOTE (rs ! (?cs ! i)) (SET_SRC_REMOTE (rs ! (?cs ! i)) r0)) [0..<?m]"
    using slot_fold [of "replicate ?m r0"] m unfolding e by (simp del: upt_Suc)
  show "rm = map (\<lambda>i. r0\<lparr>src_rmt_index := g_recv G P (g_in G P (slot G P i)), dst_rmt_index := g_send G P (g_out G P i)\<rparr>) [0..<?m]"
    unfolding rm by (rule map_cong) (use gc(2) rx sx in \<open>auto simp: slot_def SET_SRC_REMOTE_def SET_DST_REMOTE_def\<close>)
qed

section \<open>Connections inside the process\<close>

lemma kept_not_in_ear:
  assumes "wf_grid G" "P \<in> gprocs G" "j \<le> g_last G P"
  shows "\<not> in_ear G P (g_in G P j)" "\<not> in_ear G P (g_out G P j)"
proof -
  have "\<not> in_ear G P t" if t: "t \<in> set (kept_rows (g_seq G P))" "t < g_len G" for t
  proof
    assume e: "in_ear G P t"
    note st = in_ear_step [OF assms(1,2) t(2) e]
    have "t = first_row (g_seq G P) \<or> t = g_len G - 1" using kept_rows_g(2) [OF assms(1,2) t(1)] st(1,2) by simp
    moreover have "t \<noteq> g_len G - 1" using st(3) by simp
    ultimately have f: "t = first_row (g_seq G P)" by simp
    obtain u where "u < t" "g_send G P u \<noteq> None" using ear_sends [OF assms(1,2) t(2) e] by blast
    then show False using first_row_g(3) [OF assms(1,2)] f by simp
  qed
  then show "\<not> in_ear G P (g_in G P j)" "\<not> in_ear G P (g_out G P j)"
    using gates_basic(3,4,7) [OF assms] by (meson order_le_less_trans)+
qed

lemma cut_iff_in_ear:
  assumes "wf_grid G" "P \<in> gprocs G" "0 < j" "j \<le> g_last G P"
  shows "g_cut G P (g_in G P j) \<longleftrightarrow> in_ear G P (g_in G P j - 1)"
proof
  have l: "g_in G P j < g_len G" using gates_basic(3,4) [OF assms(1,2,4)] by simp
  show "in_ear G P (g_in G P j - 1)" if "g_cut G P (g_in G P j)" by (rule cut_in_ear(2) [OF assms(1,2) l that])
  assume e: "in_ear G P (g_in G P j - 1)"
  have "0 < g_in G P j" using gates_basic(2) [OF assms(1,2) assms(3,4)] by simp
  then have c: "g_in G P j - 1 + 1 = g_in G P j" "g_in G P j - 1 < g_len G" using l by simp_all
  note st = in_ear_step(5,6) [OF assms(1,2) c(2) e, unfolded c(1)]
  show "g_cut G P (g_in G P j)" using st kept_not_in_ear(1) [OF assms(1,2,4)] by simp
qed

lemma recv_gate_mark:
  assumes "wf_grid G" "P \<in> gprocs G" "0 < j" "j \<le> g_last G P"
  shows "recv_mark G P (g_in G P j) \<noteq> UTF_BG_ALLOC_VBG_ID_NOOPARATION \<and> in_ear G P (g_in G P j - 1) \<longleftrightarrow> g_cut G P (g_in G P j)"
proof -
  have l: "g_in G P j < g_len G" using gates_basic(3,4) [OF assms(1,2,4)] by simp
  have "recv_mark G P (g_in G P j) \<noteq> UTF_BG_ALLOC_VBG_ID_NOOPARATION" if cu: "g_cut G P (g_in G P j)"
  proof -
    obtain Q where r: "g_recv G P (g_in G P j) = Some Q" using g_cut_recv [OF cu] by blast
    obtain b k where "g_rows G ! g_in G P j = (b, Suc k)" by (rule recv_prev [OF assms(1) l r])
    then show ?thesis using recv_mark_row [OF l] r by simp
  qed
  then show ?thesis using cut_iff_in_ear [OF assms] by blast
qed

text \<open>The gate before the one where an ear receives is the one where it sends.\<close>

lemma ear_gate_sends:
  assumes "wf_grid G" "P \<in> gprocs G" "i < g_last G P" "g_cut G P (g_in G P (Suc i))"
  shows "g_send G P (g_out G P i) \<noteq> None" "g_in G P (Suc i) - 1 \<notin> g_in G P ` {..g_last G P}"
proof -
  let ?d = "g_in G P (Suc i)"
  have si: "0 < Suc i" "Suc i \<le> g_last G P" using assms(3) by simp_all
  have e: "in_ear G P (?d - 1)" using cut_iff_in_ear [OF assms(1,2) si] assms(4) by simp
  have l: "?d < g_len G" using gates_basic(3,4) [OF assms(1,2) si(2)] by simp
  then have l1: "?d - 1 < g_len G" by simp
  obtain u where u: "u < ?d - 1" "g_send G P u \<noteq> None" "\<And>x. u < x \<Longrightarrow> x \<le> ?d - 1 \<Longrightarrow> in_ear G P x"
    using ear_sends [OF assms(1,2) l1 e] by blast
  have ul: "u < g_len G" using u(1) l by simp
  obtain j where j: "j < g_last G P" "g_out G P j = u" by (rule gate_of_send [OF assms(1,2) ul u(2)])
  note bs = gates_basic(2,3) [OF assms(1,2)]
  have "j = i"
  proof (rule linorder_cases [of j i])
    assume "j < i"
    then have "u < g_in G P i" "g_in G P i < ?d" using bs(1) [of j i] bs(2) [of i] bs(1) [of i "Suc i"] j(2) assms(3) by simp_all
    then have "in_ear G P (g_in G P i)" using u(3) [of "g_in G P i"] by simp
    then show ?thesis using kept_not_in_ear(1) [OF assms(1,2), of i] assms(3) by simp
  next
    assume "i < j"
    then have "?d \<le> g_in G P j" using bs(1) [of "Suc i" j] bs(2) [of "Suc i"] j(1) assms(3) by (cases "Suc i = j") auto
    then show ?thesis using bs(2) [of j] j u(1) by simp
  qed
  then show "g_send G P (g_out G P i) \<noteq> None" using j(2) u(2) by simp
  show "?d - 1 \<notin> g_in G P ` {..g_last G P}" using e kept_not_in_ear(1) [OF assms(1,2)] by auto
qed

lemma send_gate_mark:
  assumes "wf_grid G" "P \<in> gprocs G" "built G P rs" "i < g_last G P"
  shows "bp_vbg_id (sendinfo (rs ! g_in G P i)) \<noteq> UTF_BG_ALLOC_VBG_ID_NOOPARATION
      \<and> bp_vbg_id (sendinfo (rs ! (g_in G P (Suc i) - 1))) = UTF_BG_ALLOC_VBG_ID_UNNECESSARY \<longleftrightarrow> g_cut G P (g_in G P (Suc i))"
proof -
  let ?d = "g_in G P (Suc i)"
  have si: "0 < Suc i" "Suc i \<le> g_last G P" "i \<le> g_last G P" using assms(4) by simp_all
  have l: "?d < g_len G" using gates_basic(3,4) [OF assms(1,2) si(2)] by simp
  then have l1: "?d - 1 < g_len G" by simp
  have so: "sendinfo (rs ! g_in G P j) = sendinfo (g_seq G P ! g_out G P j)" if "j \<le> g_last G P" for j using assms(3) that by (simp add: built_def)
  have sn: "sendinfo (rs ! t) = sendinfo (g_seq G P ! t)" if "t < g_len G" "t \<notin> g_in G P ` {..g_last G P}" for t using assms(3) that by (simp add: built_def)
  have un: "bp_vbg_id (sendinfo (rs ! (?d - 1))) = UTF_BG_ALLOC_VBG_ID_UNNECESSARY \<longleftrightarrow> ?d - 1 \<notin> g_in G P ` {..g_last G P} \<and> in_ear G P (?d - 1)"
  proof (cases "?d - 1 \<in> g_in G P ` {..g_last G P}")
    case True
    then obtain j where j: "j \<le> g_last G P" "?d - 1 = g_in G P j" by auto
    have "send_mark G P (g_out G P j) \<noteq> UTF_BG_ALLOC_VBG_ID_UNNECESSARY"
      using marks_in_ear(2) [OF assms(1,2) gates_basic(4) [OF assms(1,2) j(1)]] kept_not_in_ear(2) [OF assms(1,2) j(1)] by simp
    then show ?thesis using True so [OF j(1)] j(2) by (simp add: send_mark_def)
  next
    case False
    then show ?thesis using sn [OF l1] marks_in_ear(2) [OF assms(1,2) l1] by (simp add: send_mark_def)
  qed
  have "bp_vbg_id (sendinfo (rs ! g_in G P i)) = send_mark G P (g_out G P i)" using so [OF si(3)] by (simp add: send_mark_def)
  moreover have "send_mark G P (g_out G P i) \<noteq> UTF_BG_ALLOC_VBG_ID_NOOPARATION" if ns: "g_send G P (g_out G P i) \<noteq> None"
  proof -
    have ol: "g_out G P i < g_len G" by (rule gates_basic(4) [OF assms(1,2) si(3)])
    obtain Q where q: "g_send G P (g_out G P i) = Some Q" using ns by blast
    obtain b k where "g_rows G ! g_out G P i = (b, k)" "k < number_gates (gax G b)" by (rule send_next [OF assms(1) ol q])
    then show ?thesis using send_mark_row [OF ol] q by simp
  qed
  ultimately show ?thesis using un ear_gate_sends [OF assms(1,2,4)] cut_iff_in_ear [OF assms(1,2) si(1,2)] by auto
qed

text \<open>The settings of the gates of one process, as the butterfly asks for them.\<close>

definition wired_local :: "net_grid \<Rightarrow> u64 list \<Rightarrow> nat \<Rightarrow> nat \<Rightarrow> vbg_setting \<Rightarrow> vbg_setting" where
  "wired_local G ids P i x = x\<lparr>vs_vbg_id := ids ! i,
     src_lcl_vbg_id := (if g_cut G P (g_in G P (slot G P i)) then UTOFU_VBG_ID_NULL else gate_id ids (g_last G P) (slot G P i - 1)),
     dst_lcl_vbg_id := (if g_cut G P (g_in G P (Suc i)) then UTOFU_VBG_ID_NULL else gate_id ids (g_last G P) (Suc i))\<rparr>"

lemma local_settings:
  assumes "wf_grid G" "P \<in> gprocs G" "built G P rs" "\<And>j. j \<le> g_last G P \<Longrightarrow> sq_vbg_id (rs ! g_in G P j) = gate_id ids (g_last G P) j"
  shows "local_loop rs (first_row (g_seq G P)) 0 (first_row (g_seq G P)) (g_chain G P) (replicate (g_last G P) x)
    = map (\<lambda>i. wired_local G ids P i x) [0..<g_last G P]"
proof -
  let ?m = "g_last G P" and ?cs = "g_chain G P"
  note gc = g_chain_nth [OF assms(1,2)] and m = g_last_pos [OF assms(1,2)]
  have co: "chain_of rs ?cs ?m" using assms(3) by (simp add: built_def)
  have h: "first_row (g_seq G P) = ?cs ! 0" using gc(2) [of 0] gates_basic(5) [OF assms(1,2)] by simp
  have f: "local_loop rs (first_row (g_seq G P)) 0 (first_row (g_seq G P)) ?cs (replicate ?m x)
      = map (\<lambda>i. if i = 0 then local_src rs ?cs ?m (local_dst rs ?cs 0 x) else local_src rs ?cs i (local_dst rs ?cs i x)) [0..<?m]"
    using local_loop_fold [OF co, of 0 "?cs ! 0" "replicate ?m x"] slot_fold [of "replicate ?m x"] m unfolding h by (simp del: upt_Suc)
  have lg: "g_in G P k < g_len G" "g_in G P k - 1 < g_len G" if "k \<le> ?m" for k using gates_basic(3,4) [OF assms(1,2) that] by simp_all
  have rc: "bp_vbg_id (recvinfo (rs ! t)) = recv_mark G P t" if "t < g_len G" for t using assms(3) that by (simp add: built_def recv_mark_def)
  have src: "local_src rs ?cs k y = y\<lparr>src_lcl_vbg_id := (if g_cut G P (g_in G P k) then UTOFU_VBG_ID_NULL else gate_id ids ?m (k - 1))\<rparr>"
    if "0 < k" "k \<le> ?m" for k y
    using recv_gate_mark [OF assms(1,2) that] marks_in_ear(1) [OF assms(1,2) lg(2) [OF that(2)]] rc [OF lg(1) [OF that(2)]] rc [OF lg(2) [OF that(2)]]
      gc(2) [OF that(2)] gc(2) [of "k - 1"] assms(4) [of "k - 1"] that
    unfolding local_src_def SET_SRC_LOCAL_def by simp
  have dst: "local_dst rs ?cs i y = y\<lparr>vs_vbg_id := ids ! i, dst_lcl_vbg_id := (if g_cut G P (g_in G P (Suc i)) then UTOFU_VBG_ID_NULL else gate_id ids ?m (Suc i))\<rparr>"
    if "i < ?m" for i y
    using send_gate_mark [OF assms(1-3) that] gc(2) [of i] gc(2) [of "Suc i"] assms(4) [of i] assms(4) [of "Suc i"] that
    unfolding local_dst_def SET_DST_LOCAL_def by (simp add: gate_id_def)
  show ?thesis unfolding f
    by (rule map_cong) (use m src dst in \<open>auto simp: wired_local_def slot_def\<close>)
qed

section \<open>The words for the others\<close>

text \<open>The gate of \<open>P\<close> that sends to \<open>Q\<close>, and the one that receives from it.\<close>

definition out_to :: "net_grid \<Rightarrow> nat \<Rightarrow> nat \<Rightarrow> nat" where
  "out_to G P Q = the (List.find (\<lambda>j. g_send G P (g_out G P j) = Some Q) [0..<g_last G P])"

definition in_from :: "net_grid \<Rightarrow> nat \<Rightarrow> nat \<Rightarrow> nat" where
  "in_from G P Q = the (List.find (\<lambda>j. g_recv G P (g_in G P j) = Some Q) [0..<Suc (g_last G P)])"

lemma the_find_unique:
  assumes "x \<in> set xs" "p x" "\<And>y. y \<in> set xs \<Longrightarrow> p y \<Longrightarrow> y = x"
  shows "the (List.find p xs) = x"
proof -
  have "List.find p xs \<noteq> None" using assms(1,2) by (auto simp: find_None_iff)
  then obtain y where y: "List.find p xs = Some y" by blast
  then have "y \<in> set xs" "p y" by (auto simp: find_Some_iff)
  then have "y = x" by (rule assms(3))
  then show ?thesis using y by simp
qed

lemma out_to_eq:
  assumes "wf_grid G" "P \<in> gprocs G" "j < g_last G P" "g_send G P (g_out G P j) = Some Q"
  shows "out_to G P Q = j"
  unfolding out_to_def
proof (rule the_find_unique)
  fix i assume i: "i \<in> set [0..<g_last G P]" "g_send G P (g_out G P i) = Some Q"
  have "g_out G P i = g_out G P j"
    using g_send_once [OF assms(1,2) _ _ i(2) assms(4)] gates_basic(4) [OF assms(1,2)] i(1) assms(3) by simp
  then show "i = j" using gates_inj(2) [OF assms(1,2)] i(1) assms(3) by simp
qed (use assms in simp_all)

lemma in_from_eq:
  assumes "wf_grid G" "P \<in> gprocs G" "j \<le> g_last G P" "g_recv G P (g_in G P j) = Some Q"
  shows "in_from G P Q = j"
  unfolding in_from_def
proof (rule the_find_unique)
  have l: "i \<le> g_last G P \<Longrightarrow> g_in G P i < g_len G" for i using gates_basic(3,4) [OF assms(1,2)] by (meson order_le_less_trans)
  fix i assume i: "i \<in> set [0..<Suc (g_last G P)]" "g_recv G P (g_in G P i) = Some Q"
  have im: "i \<le> g_last G P" using i(1) by (simp add: less_Suc_eq_le del: upt_Suc)
  have "g_in G P i = g_in G P j" by (rule g_recv_once [OF assms(1,2) l [OF im] l [OF assms(3)] i(2) assms(4)])
  then show "i = j" using gates_inj(1) [OF assms(1,2)] im assms(3) by simp
qed (use assms in auto)

lemma in_from_gate:
  assumes "wf_grid G" "P \<in> gprocs G" "t < g_len G" "g_send G P t = Some Q"
  shows "in_from G P Q \<le> g_last G P" "g_recv G P (g_in G P (in_from G P Q)) = Some Q"
proof -
  obtain u where u: "u < g_len G" "g_recv G P u = Some Q" by (rule g_send_recv_peer [OF assms])
  obtain j where j: "j \<le> g_last G P" "g_in G P j = u" by (rule gate_of_recv [OF assms(1,2) u(1)]) (use u(2) in auto)
  then have "in_from G P Q = j" using in_from_eq [OF assms(1,2) j(1)] u(2) by simp
  then show "in_from G P Q \<le> g_last G P" "g_recv G P (g_in G P (in_from G P Q)) = Some Q" using j u(2) by simp_all
qed

definition word_for :: "net_grid \<Rightarrow> u64 list \<Rightarrow> u16 \<Rightarrow> nat \<Rightarrow> nat \<Rightarrow> u64" where
  "word_for G ids tni P Q = SET_ENABLE_BGINFO tni (gphy G P) (GET_BGID_FROM_VBGID (gate_id ids (g_last G P) (out_to G P Q)))
     (GET_BGID_FROM_VBGID (gate_id ids (g_last G P) (in_from G P Q)))"

text \<open>Gates as uTofu gives them: on the interface of the call and the own node, and no other bits set.\<close>

definition own_ids :: "net_grid \<Rightarrow> u64 list \<Rightarrow> u16 \<Rightarrow> nat \<Rightarrow> bool" where
  "own_ids G ids tni P \<longleftrightarrow> length ids = g_last G P \<and> (\<forall>v \<in> set ids. wf_vbg v \<and> GET_TNI_FROM_VBGID v = tni \<and> GET_NODEID_FROM_VCQ v = GET_NODEID (gphy G P))"

lemma gate_id_own:
  assumes "own_ids G ids tni P" "0 < g_last G P" "j \<le> g_last G P"
  shows "gate_id ids (g_last G P) j \<in> set ids"
  using assms by (auto simp: gate_id_def own_ids_def)

lemma find_recv_unique:
  assumes "c \<in> set cs" "idx = bp_index (recvinfo (rs ! c))" "\<And>c'. c' \<in> set cs \<Longrightarrow> idx = bp_index (recvinfo (rs ! c')) \<Longrightarrow> c' = c"
  shows "find_recv idx rs cs = Some c"
  using assms
proof (induction cs)
  case (Cons d cs)
  show ?case
  proof (cases "idx = bp_index (recvinfo (rs ! d))")
    case True
    then have "d = c" using Cons.prems(3) [of d] by simp
    then show ?thesis using True by simp
  next
    case False
    then have "c \<in> set cs" using Cons.prems(1,2) by auto
    then have "find_recv idx rs cs = Some c" using Cons.prems by (intro Cons.IH) auto
    then show ?thesis using False by simp
  qed
qed simp

definition ranks_ok :: "net_grid \<Rightarrow> (nat \<Rightarrow> tofu_vname) \<Rightarrow> u32 list \<Rightarrow> nat \<Rightarrow> bool" where
  "ranks_ok G vname rankset n \<longleftrightarrow> (\<forall>Q \<in> gprocs G. Q < length rankset \<and> Q < n \<and> v_xyzabc (vname (unat (rankset ! Q))) = gphy G Q)"

lemma bginfo_gate_word:
  assumes "wf_grid G" "P \<in> gprocs G" "built G P rs" "\<And>j. j \<le> g_last G P \<Longrightarrow> sq_vbg_id (rs ! g_in G P j) = gate_id ids (g_last G P) j"
    and "own_ids G ids tni P" "ranks_ok G vname rankset (length bg)" "j \<le> g_last G P"
  shows "bginfo_gate vname rankset P tni rs (g_chain G P) (g_in G P j) bg = ret (G_SUCCESS, case g_send G P (g_out G P j) of None \<Rightarrow> bg
     | Some Q \<Rightarrow> bg[Q := word_for G ids tni P Q])"
proof -
  have ol: "g_out G P j < g_len G" by (rule gates_basic(4) [OF assms(1,2,7)])
  have si: "sendinfo (rs ! g_in G P j) = sendinfo (g_seq G P ! g_out G P j)" using assms(3,7) by (simp add: built_def)
  note ss = g_seq_sel(4-6) [OF ol, of P, folded si]
  show ?thesis
  proof (cases "g_send G P (g_out G P j)")
    case None
    then show ?thesis using ss by (simp add: bginfo_gate_def)
  next
    case (Some Q)
    let ?m = "g_last G P" and ?k = "in_from G P Q"
    note k = in_from_gate [OF assms(1,2) ol Some]
    have kl: "g_in G P ?k < g_len G" using gates_basic(3,4) [OF assms(1,2) k(1)] by simp
    have ri: "recvinfo (rs ! t) = recvinfo (g_seq G P ! t)" if "t < g_len G" for t using assms(3) that by (simp add: built_def)
    note rr = g_seq_sel(1,3) [OF kl, of P, folded ri [OF kl]]
    note gc = g_chain_nth [OF assms(1,2)]
    have f: "find_recv (Some Q) rs (g_chain G P) = Some (g_in G P ?k)"
    proof (rule find_recv_unique)
      show "g_in G P ?k \<in> set (g_chain G P)" using k(1) unfolding gc(4) by simp
      show "Some Q = bp_index (recvinfo (rs ! g_in G P ?k))" using rr(1) k(2) by simp
      fix c assume c: "c \<in> set (g_chain G P)" "Some Q = bp_index (recvinfo (rs ! c))"
      have cl: "c < g_len G" by (rule gc(5) [OF c(1)])
      then have "g_recv G P c = Some Q" using c(2) ri g_seq_sel(1) by simp
      then show "c = g_in G P ?k" using g_recv_once [OF assms(1,2) cl kl] k(2) by simp
    qed
    have jm: "j < ?m" using Some gates_end(2) [OF assms(1,2)] assms(7) by (cases "j = ?m") auto
    have ot: "out_to G P Q = j" by (rule out_to_eq [OF assms(1,2) jm Some])
    have Q: "Q \<in> gprocs G" using send_range [OF assms(1,2) ol Some] by simp
    have own: "GET_TNI_FROM_VBGID (gate_id ids ?m i) = tni \<and> GET_NODEID_FROM_VCQ (gate_id ids ?m i) = GET_NODEID (gphy G P)" if "i \<le> ?m" for i
      using gate_id_own [OF assms(5) g_last_pos [OF assms(1,2)] that] assms(5) by (simp add: own_ids_def)
    have rk: "Q < length rankset" "Q < length bg" "v_xyzabc (vname (unat (rankset ! Q))) = gphy G Q" "v_xyzabc (vname (unat (rankset ! P))) = gphy G P"
      using assms(2,6) Q by (simp_all add: ranks_ok_def)
    obtain y where ns: "bp_nodeinfo_index (sendinfo (rs ! g_in G P j)) = Some y" using ss Some by auto
    show ?thesis
      using Some ss ns f rk rr k own [OF k(1)] own [OF assms(7)] assms(4) [OF k(1)] assms(4) [OF assms(7)] ot
      by (simp add: bginfo_gate_def CHECK_PHY_6D_ADDR_SEQ_def word_for_def Let_def)
  qed
qed

lemma bginfo_fold:
  assumes "\<And>j bg. j \<in> set js \<Longrightarrow> length bg = n \<Longrightarrow> bginfo_gate vname rankset P tni rs ps (f j) bg = ret (G_SUCCESS, case q j of None \<Rightarrow> bg | Some Q \<Rightarrow> bg[Q := w Q])"
    and "length bg = n"
  shows "\<exists>bg'. bginfo_loop vname rankset P tni rs ps (map f js) bg = ret (G_SUCCESS, bg') \<and> length bg' = n
     \<and> (\<forall>Q < n. bg' ! Q = (if \<exists>j \<in> set js. q j = Some Q then w Q else bg ! Q))"
  using assms
proof (induction js arbitrary: bg)
  case (Cons j js)
  let ?b = "case q j of None \<Rightarrow> bg | Some Q \<Rightarrow> bg[Q := w Q]"
  have l: "length ?b = n" using Cons.prems(2) by (simp split: option.split)
  have g: "bginfo_gate vname rankset P tni rs ps (f j) bg = ret (G_SUCCESS, ?b)" using Cons.prems by simp
  have "\<exists>bg'. bginfo_loop vname rankset P tni rs ps (map f js) ?b = ret (G_SUCCESS, bg') \<and> length bg' = n
      \<and> (\<forall>Q < n. bg' ! Q = (if \<exists>j \<in> set js. q j = Some Q then w Q else ?b ! Q))"
    by (rule Cons.IH) (use Cons.prems(1) l in auto)
  then obtain bg' where b: "bginfo_loop vname rankset P tni rs ps (map f js) ?b = ret (G_SUCCESS, bg')" "length bg' = n"
      "\<And>Q. Q < n \<Longrightarrow> bg' ! Q = (if \<exists>j \<in> set js. q j = Some Q then w Q else ?b ! Q)" by blast
  have "bg' ! Q = (if \<exists>j \<in> set (j # js). q j = Some Q then w Q else bg ! Q)" if "Q < n" for Q
    using b(3) [OF that] Cons.prems(2) that by (auto split: option.splits)
  then show ?case using g b(1,2) by auto
qed auto

lemma bginfo_words:
  assumes "wf_grid G" "P \<in> gprocs G" "built G P rs" "\<And>j. j \<le> g_last G P \<Longrightarrow> sq_vbg_id (rs ! g_in G P j) = gate_id ids (g_last G P) j"
    and "own_ids G ids tni P" "ranks_ok G vname rankset (length bg)"
  shows "\<exists>bg'. bginfo_loop vname rankset P tni rs (g_chain G P) (g_chain G P) bg = ret (G_SUCCESS, bg') \<and> length bg' = length bg
    \<and> (\<forall>t Q. t < g_len G \<longrightarrow> g_send G P t = Some Q \<longrightarrow> bg' ! Q = word_for G ids tni P Q)
    \<and> (\<forall>Q < length bg. (\<forall>t < g_len G. g_send G P t \<noteq> Some Q) \<longrightarrow> bg' ! Q = bg ! Q)"
proof -
  let ?m = "g_last G P" and ?js = "[0..<Suc (g_last G P)]"
  have ch: "g_chain G P = map (g_in G P) ?js"
    using g_chain_nth(1,2) [OF assms(1,2)] by (intro nth_equalityI) (auto simp: less_Suc_eq_le simp del: upt_Suc)
  have ga: "bginfo_gate vname rankset P tni rs (g_chain G P) (g_in G P j) b = ret (G_SUCCESS, case g_send G P (g_out G P j) of None \<Rightarrow> b | Some Q \<Rightarrow> b[Q := word_for G ids tni P Q])"
    if "j \<in> set ?js" "length b = length bg" for j b
    using bginfo_gate_word [OF assms(1-5), of vname rankset b j] assms(6) that by (simp add: less_Suc_eq_le del: upt_Suc)
  have "\<exists>bg'. bginfo_loop vname rankset P tni rs (g_chain G P) (map (g_in G P) ?js) bg = ret (G_SUCCESS, bg') \<and> length bg' = length bg
      \<and> (\<forall>Q < length bg. bg' ! Q = (if \<exists>j \<in> set ?js. g_send G P (g_out G P j) = Some Q then word_for G ids tni P Q else bg ! Q))"
    by (rule bginfo_fold [OF ga refl])
  then obtain bg' where b: "bginfo_loop vname rankset P tni rs (g_chain G P) (g_chain G P) bg = ret (G_SUCCESS, bg')" "length bg' = length bg"
      "\<And>Q. Q < length bg \<Longrightarrow> bg' ! Q = (if \<exists>j \<in> set ?js. g_send G P (g_out G P j) = Some Q then word_for G ids tni P Q else bg ! Q)"
    unfolding ch [symmetric] by blast
  have "bg' ! Q = word_for G ids tni P Q" if t: "t < g_len G" "g_send G P t = Some Q" for t Q
  proof -
    obtain j where j: "j < ?m" "g_out G P j = t" by (rule gate_of_send [OF assms(1,2) t(1)]) (use t(2) in auto)
    have "Q < length bg" using send_range [OF assms(1,2) t] assms(6) by (simp add: ranks_ok_def)
    moreover have "\<exists>j \<in> set ?js. g_send G P (g_out G P j) = Some Q" using j t(2) by (intro bexI [of _ j]) auto
    ultimately show ?thesis using b(3) [of Q] by simp
  qed
  moreover have "bg' ! Q = bg ! Q" if "Q < length bg" "\<forall>t < g_len G. g_send G P t \<noteq> Some Q" for Q
  proof -
    have "\<not> (\<exists>j \<in> set ?js. g_send G P (g_out G P j) = Some Q)" using that(2) gates_basic(4) [OF assms(1,2)] by (auto simp: less_Suc_eq_le simp del: upt_Suc)
    then show ?thesis using b(3) [OF that(1)] by simp
  qed
  ultimately show ?thesis using b(1,2) by blast
qed

section \<open>The words of the others\<close>

text \<open>The two gates that a process names in its word, as the reader puts them together again.\<close>

lemma gate_of_word:
  assumes "wf_phys c" "wf_vbg a" "wf_vbg b" "GET_TNI_FROM_VBGID a = tni" "GET_TNI_FROM_VBGID b = tni"
    and "GET_NODEID_FROM_VCQ a = GET_NODEID c" "GET_NODEID_FROM_VCQ b = GET_NODEID c"
    and "w = SET_ENABLE_BGINFO tni c (GET_BGID_FROM_VBGID a) (GET_BGID_FROM_VBGID b)"
  shows "UTF_GET_BGINFO_TNI_CNC w OR UTF_GET_BGINFO_SRCBGID w = a" "UTF_GET_BGINFO_TNI_CNC w OR UTF_GET_BGINFO_DSTBGID w = b"
    "w AND UTF_BIT_BGINFO_DISABLE = 0"
proof -
  have t: "unat tni < 8" using vbg_fields(3) [OF assms(2)] assms(4) by simp
  note r = bginfo_read [OF assms(1) t vbg_fields(2) [OF assms(2)] vbg_fields(2) [OF assms(3)], folded assms(8)]
  show "UTF_GET_BGINFO_TNI_CNC w OR UTF_GET_BGINFO_SRCBGID w = a"
    unfolding r(1,2) using vbg_fields(1) [OF assms(2)] assms(4,6) by (simp add: or.assoc)
  show "UTF_GET_BGINFO_TNI_CNC w OR UTF_GET_BGINFO_DSTBGID w = b"
    unfolding r(1,3) using vbg_fields(1) [OF assms(3)] assms(5,7) by (simp add: or.assoc)
  show "w AND UTF_BIT_BGINFO_DISABLE = 0" by (rule r(4))
qed

definition wired :: "net_grid \<Rightarrow> (nat \<Rightarrow> u64 list) \<Rightarrow> nat \<Rightarrow> nat \<Rightarrow> vbg_setting" where
  "wired G ids P i = (wired_local G (ids P) P i zero_setting)\<lparr>
     src_rmt_vbg_id := (case g_recv G P (g_in G P (slot G P i)) of None \<Rightarrow> UTOFU_VBG_ID_NULL | Some Q \<Rightarrow> gate_id (ids Q) (g_last G Q) (out_to G Q P)),
     dst_rmt_vbg_id := (case g_send G P (g_out G P i) of None \<Rightarrow> UTOFU_VBG_ID_NULL | Some Q \<Rightarrow> gate_id (ids Q) (g_last G Q) (in_from G Q P)),
     dst_path_null := True\<rparr>"

lemma out_to_gate:
  assumes "wf_grid G" "P \<in> gprocs G" "t < g_len G" "g_send G P t = Some Q"
  shows "out_to G P Q < g_last G P" "g_out G P (out_to G P Q) = t"
proof -
  obtain j where j: "j < g_last G P" "g_out G P j = t" by (rule gate_of_send [OF assms(1-3)]) (use assms(4) in auto)
  then have "out_to G P Q = j" using out_to_eq [OF assms(1,2) j(1)] assms(4) by simp
  then show "out_to G P Q < g_last G P" "g_out G P (out_to G P Q) = t" using j by simp_all
qed

text \<open>A process that receives from another one sends to it as well, so that its word is written.\<close>

lemma partner_sends:
  assumes "wf_grid G" "P \<in> gprocs G" "t < g_len G" "g_send G P t = Some Q \<or> g_recv G P t = Some Q"
  obtains u where "Q \<in> gprocs G" "u < g_len G" "g_send G Q u = Some P"
proof -
  have rs: "\<exists>u < g_len G. Q \<in> gprocs G \<and> g_send G Q u = Some P" if u: "u < g_len G" "g_recv G P u = Some Q" for u
  proof -
    have Q: "Q \<in> gprocs G" using recv_range [OF assms(1,2) u] by simp
    obtain b k where "0 < u" by (rule recv_prev [OF assms(1) u])
    then have "u - 1 + 1 = u" by simp
    then have "g_send G Q (u - 1) = Some P" using send_recv [OF assms(1) Q assms(2), of "u - 1"] u by simp
    then show ?thesis using Q u(1) by (intro exI [of _ "u - 1"]) simp
  qed
  show thesis
  proof (cases "g_recv G P t = Some Q")
    case True
    then show ?thesis using rs [OF assms(3)] that by blast
  next
    case False
    then obtain u where "u < g_len G" "g_recv G P u = Some Q" using g_send_recv_peer [OF assms(1-3)] assms(4) by metis
    then show ?thesis using rs that by blast
  qed
qed

lemma word_gates:
  assumes "wf_grid G" "Q \<in> gprocs G" "own_ids G ids tni Q" "wf_phys (gphy G Q)" "u < g_len G" "g_send G Q u = Some P"
  shows "UTF_GET_BGINFO_TNI_CNC (word_for G ids tni Q P) OR UTF_GET_BGINFO_SRCBGID (word_for G ids tni Q P) = gate_id ids (g_last G Q) (out_to G Q P)"
    "UTF_GET_BGINFO_TNI_CNC (word_for G ids tni Q P) OR UTF_GET_BGINFO_DSTBGID (word_for G ids tni Q P) = gate_id ids (g_last G Q) (in_from G Q P)"
    "word_for G ids tni Q P AND UTF_BIT_BGINFO_DISABLE = 0"
proof -
  have m: "0 < g_last G Q" by (rule g_last_pos [OF assms(1,2)])
  have "gate_id ids (g_last G Q) (out_to G Q P) \<in> set ids" "gate_id ids (g_last G Q) (in_from G Q P) \<in> set ids"
    using out_to_gate(1) [OF assms(1,2,5,6)] in_from_gate(1) [OF assms(1,2,5,6)] gate_id_own [OF assms(3) m] by simp_all
  then show "UTF_GET_BGINFO_TNI_CNC (word_for G ids tni Q P) OR UTF_GET_BGINFO_SRCBGID (word_for G ids tni Q P) = gate_id ids (g_last G Q) (out_to G Q P)"
    "UTF_GET_BGINFO_TNI_CNC (word_for G ids tni Q P) OR UTF_GET_BGINFO_DSTBGID (word_for G ids tni Q P) = gate_id ids (g_last G Q) (in_from G Q P)"
    "word_for G ids tni Q P AND UTF_BIT_BGINFO_DISABLE = 0"
    using assms(3) gate_of_word [OF assms(4) _ _ _ _ _ _ word_for_def] by (simp_all add: own_ids_def)
qed

lemma remote_wired:
  assumes "wf_grid G" "P \<in> gprocs G" "\<And>Q. Q \<in> gprocs G \<Longrightarrow> own_ids G (ids Q) (tni Q) Q \<and> wf_phys (gphy G Q)"
    and "\<And>Q u. Q \<in> gprocs G \<Longrightarrow> u < g_len G \<Longrightarrow> g_send G Q u = Some P \<Longrightarrow> bg ! Q = word_for G (ids Q) (tni Q) Q P"
    and "rm = map (\<lambda>i. r0\<lparr>src_rmt_index := g_recv G P (g_in G P (slot G P i)), dst_rmt_index := g_send G P (g_out G P i)\<rparr>) [0..<g_last G P]"
    and "xs = map (\<lambda>i. wired_local G (ids P) P i zero_setting) [0..<g_last G P]"
  shows "remote_settings bg rm xs = map (wired G ids P) [0..<g_last G P]"
proof -
  have w: "UTF_GET_BGINFO_TNI_CNC (bg ! Q) OR UTF_GET_BGINFO_SRCBGID (bg ! Q) = gate_id (ids Q) (g_last G Q) (out_to G Q P)
      \<and> UTF_GET_BGINFO_TNI_CNC (bg ! Q) OR UTF_GET_BGINFO_DSTBGID (bg ! Q) = gate_id (ids Q) (g_last G Q) (in_from G Q P)"
    if t: "t < g_len G" "g_send G P t = Some Q \<or> g_recv G P t = Some Q" for t Q
  proof -
    obtain u where u: "Q \<in> gprocs G" "u < g_len G" "g_send G Q u = Some P" by (rule partner_sends [OF assms(1,2) t])
    then show ?thesis using word_gates [OF assms(1) u(1) _ _ u(2,3)] assms(3,4) by simp
  qed
  have "remote_setting bg (r0\<lparr>src_rmt_index := g_recv G P (g_in G P (slot G P i)), dst_rmt_index := g_send G P (g_out G P i)\<rparr>)
      (wired_local G (ids P) P i zero_setting) = wired G ids P i" if i: "i < g_last G P" for i
  proof -
    have l: "g_in G P (slot G P i) < g_len G" "g_out G P i < g_len G"
      using gates_basic(3,4) [OF assms(1,2), of "slot G P i"] gates_basic(4) [OF assms(1,2), of i] i by (auto simp: slot_def)
    show ?thesis using w [OF l(1)] w [OF l(2)]
      by (auto simp: remote_setting_def src_rmt_vbg_def dst_rmt_vbg_def wired_def split: option.split)
  qed
  then show ?thesis unfolding remote_settings_def assms(5,6) by (intro nth_equalityI) simp_all
qed

end
