(* ===== verification/Vbg_Network.thy ===== *)
theory Vbg_Network
  imports Vbg_Wiring
begin

unbundle bit_operations_syntax

text \<open>
  What the gates of a group compute together. The settings that the processes give to \<open>utofu_set_vbg\<close> are read as a
  network: a gate waits for the signals of the sources that its setting names, combines their values and passes the
  result to its destinations; the first gate of a process starts with the value of the process and ends with what its
  sources bring. For the settings that \<open>build_network\<close> and \<open>set_gates\<close> make, every process ends with
  the combination of the values of all processes, each taken exactly once.
\<close>

section \<open>The search for an interface\<close>

text \<open>The interfaces in the order in which they are asked, and the first of them that is not full.\<close>

definition tni_at :: "u16 \<Rightarrow> nat \<Rightarrow> u16" where
  "tni_at t0 i = word_of_nat ((unat t0 + i) mod UTF_BG_NUM_TNI)"

fun first_free :: "'w bgapi \<Rightarrow> bool \<Rightarrow> nat \<Rightarrow> u16 list \<Rightarrow> u16 \<Rightarrow> u64 list \<Rightarrow> 'w \<Rightarrow> grc \<times> u64 list \<times> u16 \<times> 'w" where
  "first_free api f n [] t0 ids w = (G_ERR_FULL, ids, t0, w)"
| "first_free api f n (t # ts) t0 ids w = (let (rc, ids', w') = g_alloc_vbg api t n f w in
     if rc \<noteq> G_ERR_FULL then (rc, ids', t, w') else first_free api f n ts t0 ids' w')"

lemma unat_tni_at: "unat (tni_at t0 i) = (unat t0 + i) mod 6"
proof -
  have "(unat t0 + i) mod 6 < 2 ^ 16" by (rule less_trans [of _ 6]) simp_all
  then show ?thesis by (simp add: tni_at_def UTF_BG_NUM_TNI_def unsigned_of_nat take_bit_nat_eq_self)
qed

lemma next_tni_at: "next_tni (tni_at t0 i) = tni_at t0 (Suc i)"
  unfolding next_tni_def unat_tni_at by (simp add: tni_at_def UTF_BG_NUM_TNI_def mod_Suc_eq)

lemma tni_at_start:
  assumes "unat t0 < 6" "i \<le> 6"
  shows "tni_at t0 i = t0 \<longleftrightarrow> i = 0 \<or> i = 6"
proof -
  have "(unat t0 + i) mod 6 = unat t0 \<longleftrightarrow> i = 0 \<or> i = 6" using assms
    by (cases "unat t0 + i < 6") (auto simp: mod_if)
  then show ?thesis unfolding word_unat_eq_iff [of "tni_at t0 i"] unat_tni_at .
qed

lemma core_first_free:
  assumes "unat t0 < 6" "i < 6"
  shows "allocate_vbg_core api f n t0 (tni_at t0 i) w = Some (first_free api f n (map (tni_at t0) [i..<6]) t0 ids w)"
  using assms(2)
proof (induction "6 - i" arbitrary: i w ids)
  case (Suc k)
  obtain rc ids' w' where g: "g_alloc_vbg api (tni_at t0 i) n f w = (rc, ids', w')" by (cases "g_alloc_vbg api (tni_at t0 i) n f w")
  have u: "[i..<6] = i # [Suc i..<6]" using Suc.prems by (simp add: upt_conv_Cons)
  show ?case
  proof (cases "Suc i = 6")
    case True
    then show ?thesis using g tni_at_start [OF assms(1), of 6] by (subst allocate_vbg_core.simps) (simp add: u next_tni_at)
  next
    case False
    then have "allocate_vbg_core api f n t0 (tni_at t0 (Suc i)) w' = Some (first_free api f n (map (tni_at t0) [Suc i..<6]) t0 ids' w')"
      using Suc by (intro Suc.hyps(1)) simp_all
    then show ?thesis using g False Suc.prems tni_at_start [OF assms(1), of "Suc i"] by (subst allocate_vbg_core.simps) (simp add: u next_tni_at)
  qed
qed simp

text \<open>
  What uTofu promises of the gates it gives: as many as asked for, on the interface asked for and the node of
  the caller, and no other bits set in their identifiers.
\<close>

definition vbg_law :: "'w bgapi \<Rightarrow> phys_coords \<Rightarrow> bool" where
  "vbg_law api c \<longleftrightarrow> (\<forall>t n f w ids w'. g_alloc_vbg api t n f w = (G_SUCCESS, ids, w') \<longrightarrow>
     length ids = n \<and> (\<forall>v \<in> set ids. wf_vbg v \<and> GET_TNI_FROM_VBGID v = t \<and> GET_NODEID_FROM_VCQ v = GET_NODEID c))"

lemma first_free_law:
  assumes "vbg_law api c" "first_free api f n ts t0 ids0 w = (G_SUCCESS, ids, tni, w')"
  shows "length ids = n \<and> (\<forall>v \<in> set ids. wf_vbg v \<and> GET_TNI_FROM_VBGID v = tni \<and> GET_NODEID_FROM_VCQ v = GET_NODEID c)"
  using assms(2)
proof (induction ts arbitrary: ids0 w)
  case (Cons t ts)
  obtain rc ids' w1 where g: "g_alloc_vbg api t n f w = (rc, ids', w1)" by (cases "g_alloc_vbg api t n f w")
  show ?case
  proof (cases "rc = G_ERR_FULL")
    case True
    then show ?thesis using Cons g by simp
  next
    case False
    then have "g_alloc_vbg api tni n f w = (G_SUCCESS, ids, w')" using Cons.prems g by simp
    then show ?thesis using assms(1) unfolding vbg_law_def by blast
  qed
qed simp

section \<open>Networks of gates\<close>

text \<open>A source that is not used counts as zero; a used one has to name the gate as its destination.\<close>

definition one_in :: "bool \<Rightarrow> (u64 \<Rightarrow> 'v::comm_monoid_add \<Rightarrow> bool) \<Rightarrow> u64 \<Rightarrow> 'v \<Rightarrow> bool" where
  "one_in lk E a x \<longleftrightarrow> a = UTOFU_VBG_ID_NULL \<and> x = 0 \<or> a \<noteq> UTOFU_VBG_ID_NULL \<and> lk \<and> E a x"

definition lcl_link :: "(nat \<Rightarrow> vbg_setting list) \<Rightarrow> nat set \<Rightarrow> u64 \<Rightarrow> u64 \<Rightarrow> bool" where
  "lcl_link S procs a g \<longleftrightarrow> (\<exists>P \<in> procs. \<exists>r \<in> set (S P). vs_vbg_id r = a \<and> dst_lcl_vbg_id r = g)"

definition rmt_link :: "(nat \<Rightarrow> vbg_setting list) \<Rightarrow> nat set \<Rightarrow> u64 \<Rightarrow> u64 \<Rightarrow> bool" where
  "rmt_link S procs a g \<longleftrightarrow> (\<exists>P \<in> procs. \<exists>r \<in> set (S P). vs_vbg_id r = a \<and> dst_rmt_vbg_id r = g)"

definition feeds :: "(nat \<Rightarrow> vbg_setting list) \<Rightarrow> nat set \<Rightarrow> (u64 \<Rightarrow> 'v::comm_monoid_add \<Rightarrow> bool) \<Rightarrow> vbg_setting \<Rightarrow> 'v \<Rightarrow> bool" where
  "feeds S procs E s z \<longleftrightarrow> (\<exists>x y. one_in (lcl_link S procs (src_lcl_vbg_id s) (vs_vbg_id s)) E (src_lcl_vbg_id s) x
     \<and> one_in (rmt_link S procs (src_rmt_vbg_id s) (vs_vbg_id s)) E (src_rmt_vbg_id s) y \<and> z = x + y)"

lemma feeds_mono [mono]: "(\<And>g x. E g x \<longrightarrow> F g x) \<Longrightarrow> feeds S procs E s z \<longrightarrow> feeds S procs F s z"
  unfolding feeds_def one_in_def by blast

inductive emits :: "(nat \<Rightarrow> vbg_setting list) \<Rightarrow> nat set \<Rightarrow> (nat \<Rightarrow> 'v::comm_monoid_add) \<Rightarrow> u64 \<Rightarrow> 'v \<Rightarrow> bool"
  for S :: "nat \<Rightarrow> vbg_setting list" and procs :: "nat set" and v :: "nat \<Rightarrow> 'v::comm_monoid_add" where
  start: "P \<in> procs \<Longrightarrow> S P \<noteq> [] \<Longrightarrow> emits S procs v (vs_vbg_id (hd (S P))) (v P)"
| relay: "P \<in> procs \<Longrightarrow> s \<in> set (tl (S P)) \<Longrightarrow> feeds S procs (emits S procs v) s z \<Longrightarrow> emits S procs v (vs_vbg_id s) z"

text \<open>The value with which process \<open>P\<close> ends.\<close>

definition ends_with :: "(nat \<Rightarrow> vbg_setting list) \<Rightarrow> nat set \<Rightarrow> (nat \<Rightarrow> 'v::comm_monoid_add) \<Rightarrow> nat \<Rightarrow> 'v \<Rightarrow> bool" where
  "ends_with S procs v P z \<longleftrightarrow> S P \<noteq> [] \<and> feeds S procs (emits S procs v) (hd (S P)) z"

section \<open>The network of a grid\<close>

text \<open>No gate is given to two processes, or twice to one.\<close>

definition apart :: "net_grid \<Rightarrow> (nat \<Rightarrow> u64 list) \<Rightarrow> bool" where
  "apart G ids \<longleftrightarrow> (\<forall>P \<in> gprocs G. \<forall>Q \<in> gprocs G. \<forall>i < g_last G P. \<forall>j < g_last G Q.
     ids P ! i \<noteq> UTOFU_VBG_ID_NULL \<and> (ids P ! i = ids Q ! j \<longrightarrow> P = Q \<and> i = j))"

definition wired_all :: "net_grid \<Rightarrow> (nat \<Rightarrow> u64 list) \<Rightarrow> (nat \<Rightarrow> vbg_setting list) \<Rightarrow> bool" where
  "wired_all G ids S \<longleftrightarrow> (\<forall>P \<in> gprocs G. S P = map (wired G ids P) [0..<g_last G P])"

text \<open>The value of gate \<open>j\<close> of process \<open>P\<close>.\<close>

definition gate_val :: "net_grid \<Rightarrow> (nat \<Rightarrow> 'v::comm_monoid_add) \<Rightarrow> nat \<Rightarrow> nat \<Rightarrow> 'v" where
  "gate_val G v P j = g_val G v (g_in G P j) P"

lemma slot_range:
  assumes "wf_grid G" "P \<in> gprocs G" "i < g_last G P"
  shows "0 < slot G P i" "slot G P i \<le> g_last G P" "gate_id xs (g_last G P) (slot G P i) = xs ! i"
  using assms(3) by (auto simp: slot_def gate_id_def)

lemma wired_sel:
  assumes "wf_grid G" "P \<in> gprocs G" "i < g_last G P"
  shows "vs_vbg_id (wired G ids P i) = ids P ! i"
    "src_lcl_vbg_id (wired G ids P i) = (if g_cut G P (g_in G P (slot G P i)) then UTOFU_VBG_ID_NULL else ids P ! (slot G P i - 1))"
    "dst_lcl_vbg_id (wired G ids P i) = (if g_cut G P (g_in G P (Suc i)) then UTOFU_VBG_ID_NULL else gate_id (ids P) (g_last G P) (Suc i))"
    "src_rmt_vbg_id (wired G ids P i) = (case g_recv G P (g_in G P (slot G P i)) of None \<Rightarrow> UTOFU_VBG_ID_NULL | Some Q \<Rightarrow> ids Q ! out_to G Q P)"
    "dst_rmt_vbg_id (wired G ids P i) = (case g_send G P (g_out G P i) of None \<Rightarrow> UTOFU_VBG_ID_NULL | Some Q \<Rightarrow> gate_id (ids Q) (g_last G Q) (in_from G Q P))"
proof -
  let ?k = "slot G P i"
  note k = slot_range [OF assms]
  have "gate_id (ids Q) (g_last G Q) (out_to G Q P) = ids Q ! out_to G Q P" if r: "g_recv G P (g_in G P ?k) = Some Q" for Q
  proof -
    have kl: "g_in G P ?k < g_len G" using gates_basic(3,4) [OF assms(1,2) k(2)] by simp
    have Q: "Q \<in> gprocs G" using recv_range [OF assms(1,2) kl r] by simp
    obtain i' where "i' < g_last G Q" "g_send G Q (g_out G Q i') = Some P" by (rule sender_gate [OF assms(1,2) k(2) r])
    then show ?thesis using out_to_eq [OF assms(1) Q] by (auto simp: gate_id_def)
  qed
  then show "src_rmt_vbg_id (wired G ids P i) = (case g_recv G P (g_in G P ?k) of None \<Rightarrow> UTOFU_VBG_ID_NULL | Some Q \<Rightarrow> ids Q ! out_to G Q P)"
    by (simp add: wired_def split: option.split)
qed (use slot_range [OF assms] in \<open>auto simp: wired_def wired_local_def gate_id_def\<close>)

text \<open>The two sources of gate \<open>slot G P i\<close>.\<close>

lemma gate_sources:
  assumes "wf_grid G" "P \<in> gprocs G" "0 < k" "k \<le> g_last G P"
  shows "gate_val G v P k = (if g_cut G P (g_in G P k) then 0 else gate_val G v P (k - 1))
     + (case g_recv G P (g_in G P k) of None \<Rightarrow> 0 | Some Q \<Rightarrow> gate_val G v Q (out_to G Q P))"
proof -
  have "g_val G v (g_in G P k - 1) Q = gate_val G v Q (out_to G Q P)" if r: "g_recv G P (g_in G P k) = Some Q" for Q
  proof -
    have kl: "g_in G P k < g_len G" using gates_basic(3,4) [OF assms(1,2,4)] by simp
    have Q: "Q \<in> gprocs G" using recv_range [OF assms(1,2) kl r] by simp
    obtain i where i: "i < g_last G Q" "g_send G Q (g_out G Q i) = Some P" "g_val G v (g_in G P k - 1) Q = g_val G v (g_in G Q i) Q"
      by (rule sender_gate [OF assms(1,2,4) r, where v = v])
    then show ?thesis using out_to_eq [OF assms(1) Q i(1,2)] by (simp add: gate_val_def)
  qed
  then show ?thesis using gate_val_step [OF assms, of v] by (auto simp: gate_val_def split: option.split)
qed

lemma source_gate:
  assumes "wf_grid G" "P \<in> gprocs G" "k \<le> g_last G P" "g_recv G P (g_in G P k) = Some Q"
  shows "Q \<in> gprocs G" "out_to G Q P < g_last G Q" "g_send G Q (g_out G Q (out_to G Q P)) = Some P" "g_in G Q (out_to G Q P) < g_in G P k"
proof -
  have kl: "g_in G P k < g_len G" using gates_basic(3,4) [OF assms(1-3)] by simp
  show Q: "Q \<in> gprocs G" using recv_range [OF assms(1,2) kl assms(4)] by simp
  obtain i where i: "i < g_last G Q" "g_out G Q i = g_in G P k - 1" "g_send G Q (g_out G Q i) = Some P" by (rule sender_gate [OF assms])
  have o: "out_to G Q P = i" by (rule out_to_eq [OF assms(1) Q i(1,3)])
  show "out_to G Q P < g_last G Q" "g_send G Q (g_out G Q (out_to G Q P)) = Some P" using o i by simp_all
  obtain b k' where "0 < g_in G P k" by (rule recv_prev [OF assms(1) kl assms(4)])
  then show "g_in G Q (out_to G Q P) < g_in G P k" using gates_basic(3) [OF assms(1) Q, of i] i o by simp
qed

lemma feeds_only:
  assumes "wf_grid G" "P \<in> gprocs G" "i < g_last G P"
    and "\<And>Q j x. Q \<in> gprocs G \<Longrightarrow> j < g_last G Q \<Longrightarrow> E (ids Q ! j) x \<Longrightarrow> x = gate_val G v Q j"
    and "apart G ids" "feeds S (gprocs G) E (wired G ids P i) z"
  shows "z = gate_val G v P (slot G P i)"
proof -
  note k = slot_range [OF assms(1-3)]
  have nn: "ids Q ! j \<noteq> UTOFU_VBG_ID_NULL" if "Q \<in> gprocs G" "j < g_last G Q" for Q j using assms(5) that unfolding apart_def by blast
  from assms(6) obtain x y lk lk' where xy: "one_in lk E (src_lcl_vbg_id (wired G ids P i)) x" "one_in lk' E (src_rmt_vbg_id (wired G ids P i)) y" "z = x + y"
    unfolding feeds_def by blast
  have "slot G P i - 1 < g_last G P" using k by simp
  then have "x = (if g_cut G P (g_in G P (slot G P i)) then 0 else gate_val G v P (slot G P i - 1))"
    using xy(1) assms(4) [OF assms(2)] nn [OF assms(2)] unfolding one_in_def wired_sel [OF assms(1-3)] by (auto split: if_splits)
  moreover have "y = (case g_recv G P (g_in G P (slot G P i)) of None \<Rightarrow> 0 | Some Q \<Rightarrow> gate_val G v Q (out_to G Q P))"
    using xy(2) assms(4) nn source_gate(1,2) [OF assms(1,2) k(2)] unfolding one_in_def wired_sel [OF assms(1-3)] by (auto split: option.splits)
  ultimately show ?thesis using gate_sources [OF assms(1,2) k(1,2), of v] xy(3) by simp
qed

lemma feeds_gate:
  assumes "wf_grid G" "P \<in> gprocs G" "i < g_last G P"
    and "\<And>Q j. Q \<in> gprocs G \<Longrightarrow> j < g_last G Q \<Longrightarrow> g_in G Q j < g_in G P (slot G P i) \<Longrightarrow> E (ids Q ! j) (gate_val G v Q j)"
    and "apart G ids" "wired_all G ids S"
  shows "feeds S (gprocs G) E (wired G ids P i) (gate_val G v P (slot G P i))"
proof -
  let ?k = "slot G P i"
  note k = slot_range [OF assms(1-3)] and w = wired_sel [OF assms(1)]
  have nn: "ids Q ! j \<noteq> UTOFU_VBG_ID_NULL" if "Q \<in> gprocs G" "j < g_last G Q" for Q j using assms(5) that unfolding apart_def by blast
  have inS: "wired G ids Q j \<in> set (S Q)" if "Q \<in> gprocs G" "j < g_last G Q" for Q j using assms(6) that by (simp add: wired_all_def)
  have k1: "?k - 1 < g_last G P" "Suc (?k - 1) = ?k" using k by simp_all
  have "one_in (lcl_link S (gprocs G) (src_lcl_vbg_id (wired G ids P i)) (ids P ! i)) E (src_lcl_vbg_id (wired G ids P i))
      (if g_cut G P (g_in G P ?k) then 0 else gate_val G v P (?k - 1))"
  proof (cases "g_cut G P (g_in G P ?k)")
    case False
    have "g_in G P (?k - 1) < g_in G P ?k" using gates_basic(2,3) [OF assms(1,2), of "?k - 1"] k by (meson diff_less le_less_trans less_one order_less_imp_le k1(1))
    then have "E (ids P ! (?k - 1)) (gate_val G v P (?k - 1))" by (rule assms(4) [OF assms(2) k1(1)])
    moreover have "lcl_link S (gprocs G) (ids P ! (?k - 1)) (ids P ! i)" unfolding lcl_link_def
      using inS [OF assms(2) k1(1)] w(1,3) [OF assms(2) k1(1), where ids = ids] False k(3) k1(2) assms(2) by auto
    ultimately show ?thesis using False nn [OF assms(2) k1(1)] unfolding one_in_def w [OF assms(2,3)] by simp
  qed (simp add: one_in_def w [OF assms(2,3)])
  moreover have "one_in (rmt_link S (gprocs G) (src_rmt_vbg_id (wired G ids P i)) (ids P ! i)) E (src_rmt_vbg_id (wired G ids P i))
      (case g_recv G P (g_in G P ?k) of None \<Rightarrow> 0 | Some Q \<Rightarrow> gate_val G v Q (out_to G Q P))"
  proof (cases "g_recv G P (g_in G P ?k)")
    case (Some Q)
    note q = source_gate [OF assms(1,2) k(2) Some]
    have "in_from G P Q = ?k" by (rule in_from_eq [OF assms(1,2) k(2) Some])
    then have "rmt_link S (gprocs G) (ids Q ! out_to G Q P) (ids P ! i)" unfolding rmt_link_def
      using inS [OF q(1,2)] w(1,5) [OF q(1,2), where ids = ids] q(1,3) k(3) by auto
    then show ?thesis using Some nn [OF q(1,2)] assms(4) [OF q(1,2,4)] unfolding one_in_def w [OF assms(2,3)] by simp
  qed (simp add: one_in_def w [OF assms(2,3)])
  ultimately show ?thesis unfolding feeds_def gate_sources [OF assms(1,2) k(1,2)] w(1) [OF assms(2,3)] by blast
qed

lemma wired_nth:
  assumes "wired_all G ids S" "P \<in> gprocs G" "wf_grid G"
  shows "S P \<noteq> []" "hd (S P) = wired G ids P 0" "s \<in> set (tl (S P)) \<Longrightarrow> \<exists>i. 0 < i \<and> i < g_last G P \<and> s = wired G ids P i"
proof -
  have m: "0 < g_last G P" by (rule g_last_pos [OF assms(3,2)])
  have S: "S P = wired G ids P 0 # map (wired G ids P) [Suc 0..<g_last G P]"
    using assms(1,2) m by (simp add: wired_all_def upt_conv_Cons del: upt_Suc)
  show "S P \<noteq> []" "hd (S P) = wired G ids P 0" unfolding S by simp_all
  show "\<exists>i. 0 < i \<and> i < g_last G P \<and> s = wired G ids P i" if "s \<in> set (tl (S P))"
    using that unfolding S by (auto simp: Suc_le_eq)
qed

lemma emits_only:
  assumes "wf_grid G" "apart G ids" "wired_all G ids S" "emits S (gprocs G) v g x"
  shows "\<forall>Q \<in> gprocs G. \<forall>j < g_last G Q. g = ids Q ! j \<longrightarrow> x = gate_val G v Q j"
proof -
  have same: "P = Q \<and> i = j" if "P \<in> gprocs G" "i < g_last G P" "Q \<in> gprocs G" "j < g_last G Q" "ids P ! i = ids Q ! j" for P i Q j
    using assms(2) that unfolding apart_def by blast
  from assms(4) show ?thesis
  proof (induction rule: emits.induct)
    case (start P)
    note h = wired_nth(2) [OF assms(3) start(1) assms(1)] and m = g_last_pos [OF assms(1) start(1)]
    show ?case using same [OF start(1) m] g_in_0_val [OF assms(1) start(1), of v] unfolding h wired_sel(1) [OF assms(1) start(1) m]
      by (fastforce simp: gate_val_def)
  next
    case (relay P s z)
    obtain i where i: "0 < i" "i < g_last G P" "s = wired G ids P i" using wired_nth(3) [OF assms(3) relay(1) assms(1) relay(2)] by blast
    let ?E = "\<lambda>g x. emits S (gprocs G) v g x \<and> (\<forall>Q \<in> gprocs G. \<forall>j < g_last G Q. g = ids Q ! j \<longrightarrow> x = gate_val G v Q j)"
    have "z = gate_val G v P (slot G P i)"
      by (rule feeds_only [OF assms(1) relay(1) i(2) _ assms(2), where E = ?E]) (use relay(3) i(3) in auto)
    moreover have "slot G P i = i" using i(1) by (simp add: slot_def)
    ultimately show ?case using same [OF relay(1) i(2)] unfolding i(3) wired_sel(1) [OF assms(1) relay(1) i(2)] by fastforce
  qed
qed

lemma emits_gate:
  assumes "wf_grid G" "apart G ids" "wired_all G ids S" "P \<in> gprocs G" "j < g_last G P"
  shows "emits S (gprocs G) v (ids P ! j) (gate_val G v P j)"
  using assms(4,5)
proof (induction "g_in G P j" arbitrary: P j rule: less_induct)
  case less
  note sl = wired_sel(1) [OF assms(1) less.prems, where ids = ids] and wn = wired_nth [OF assms(3) less.prems(1) assms(1)]
  show ?case
  proof (cases "j = 0")
    case True
    then have e: "ids P ! j = vs_vbg_id (hd (S P))" "gate_val G v P j = v P"
      using wn(2) sl g_in_0_val [OF assms(1) less.prems(1), of v] by (simp_all add: gate_val_def)
    show ?thesis unfolding e by (rule emits.start) (use less.prems(1) wn(1) in simp_all)
  next
    case False
    then have s: "slot G P j = j" by (simp add: slot_def)
    have "feeds S (gprocs G) (emits S (gprocs G) v) (wired G ids P j) (gate_val G v P (slot G P j))"
      by (rule feeds_gate [OF assms(1) less.prems _ assms(2,3)]) (use less.hyps s in auto)
    moreover have "wired G ids P j \<in> set (tl (S P))"
    proof -
      have "tl (S P) = map (wired G ids P) [Suc 0..<g_last G P]" using assms(3) less.prems by (simp add: wired_all_def tl_upt flip: map_tl)
      then show ?thesis using False less.prems(2) by simp
    qed
    ultimately show ?thesis using emits.relay [OF less.prems(1)] s sl by metis
  qed
qed

lemma network_total:
  assumes "wf_grid G" "apart G ids" "wired_all G ids S" "P \<in> gprocs G"
  shows "ends_with S (gprocs G) v P z \<longleftrightarrow> z = sum v (gprocs G)"
proof -
  note m = g_last_pos [OF assms(1,4)] and wn = wired_nth [OF assms(3,4,1)]
  have s: "slot G P 0 = g_last G P" by (simp add: slot_def)
  have val: "gate_val G v P (slot G P 0) = sum v (gprocs G)" unfolding s gate_val_def by (rule last_gate_val [OF assms(1,4)])
  have "feeds S (gprocs G) (emits S (gprocs G) v) (wired G ids P 0) (gate_val G v P (slot G P 0))"
    by (rule feeds_gate [OF assms(1,4) m _ assms(2,3)]) (rule emits_gate [OF assms(1-3)])
  moreover have "z = gate_val G v P (slot G P 0)" if "feeds S (gprocs G) (emits S (gprocs G) v) (wired G ids P 0) z"
    by (rule feeds_only [OF assms(1,4) m _ assms(2) that]) (use emits_only [OF assms(1-3)] in blast)
  ultimately show ?thesis unfolding ends_with_def wn(2) val using wn(1) by blast
qed

section \<open>The calls of a process\<close>

definition start_tni :: "intra_info \<Rightarrow> 'w bg_state \<Rightarrow> u16" where
  "start_tni it s = word_of_nat ((unat (if b_first_call s then 0 else b_sh_next_tni s) + in_intra_index it) mod UTF_BG_NUM_TNI)"

text \<open>
  A process that can build its part: its axes are those of the grid, its group is allocated, memory is there,
  and one of the interfaces has gates for it.
\<close>

definition can_build :: "net_grid \<Rightarrow> nat \<Rightarrow> 'w bgapi \<Rightarrow> axis_info list \<Rightarrow> intra_info \<Rightarrow> 'w bg_state \<Rightarrow> nat \<Rightarrow> u64 list \<Rightarrow> u16 \<Rightarrow> bool" where
  "can_build G P api axes it s a ids tni \<longleftrightarrow>
     on_grid (if b_is_tofu s then 0 else 1) axes P (gax G) (gbs G) (gpos G) (gpeer G) (gphy G)
     \<and> (\<forall>m. g_malloc api m) \<and> b_detail s = Some a \<and> b_heap s a \<noteq> None \<and> b_mapped s \<and> b_world s \<noteq> None
     \<and> (b_is_tofu s \<or> in_manager it) \<and> vbg_law api (gphy G P)
     \<and> (\<exists>w. first_free api (b_thread_safe s) (g_last G P) (map (tni_at (start_tni it s)) [0..<6]) (start_tni it s) [] (b_net s) = (G_SUCCESS, ids, tni, w))"

lemma can_build_own: "can_build G P api axes it s a ids tni \<Longrightarrow> own_ids G ids tni P"
  using first_free_law [of api "gphy G P"] unfolding can_build_def own_ids_def by (elim conjE exE) simp

definition start_rmt :: rmt_index where
  "start_rmt = \<lparr>src_rmt_index = Some 0, dst_rmt_index = Some 0\<rparr>"

definition rmt_of :: "net_grid \<Rightarrow> nat \<Rightarrow> rmt_index list" where
  "rmt_of G P = map (\<lambda>i. start_rmt\<lparr>src_rmt_index := g_recv G P (g_in G P (slot G P i)), dst_rmt_index := g_send G P (g_out G P i)\<rparr>) [0..<g_last G P]"

text \<open>What the calls keep of the state and of the group at address \<open>a\<close>.\<close>

definition kept :: "nat \<Rightarrow> 'w bg_state \<Rightarrow> 'w bg_state \<Rightarrow> bool" where
  "kept a s s' \<longleftrightarrow> b_detail s' = b_detail s \<and> b_is_tofu s' = b_is_tofu s \<and> b_mapped s' = b_mapped s \<and> b_disable_shm s' = b_disable_shm s
     \<and> map_option (\<lambda>d. (arg_rankset d, arg_len d, arg_my_index d, d_intra d)) (b_heap s' a)
       = map_option (\<lambda>d. (arg_rankset d, arg_len d, arg_my_index d, d_intra d)) (b_heap s a)"

lemma start_tni_bound: "unat (start_tni it s) < 6"
  using unat_tni_at [of 0 "unat (if b_first_call s then 0 else b_sh_next_tni s) + in_intra_index it"] by (simp add: start_tni_def tni_at_def)

lemma allocate_vbg_wired:
  assumes "wf_grid G" "P \<in> gprocs G" "can_build G P api axes it s a ids tni" "built G P rs"
  obtains rs' s' d where "allocate_vbg api (g_last G P) it (first_row (g_seq G P)) rs s = ret (G_SUCCESS, tni, rs', s')" "built G P rs'"
    "\<forall>j \<le> g_last G P. sq_vbg_id (rs' ! g_in G P j) = gate_id ids (g_last G P) j"
    "kept a s s'" "b_heap s' a = Some d" "d_settings d = Some (replicate (g_last G P) zero_setting)" "d_rmt d = Some (rmt_of G P)"
    "d_vbg_ids d = Some ids" "d_num_vbg d = length ids"
proof -
  let ?m = "g_last G P" and ?t = "start_tni it s" and ?f = "first_row (g_seq G P)"
  note m = g_last_pos [OF assms(1,2)] and own = can_build_own [OF assms(3)]
  note cb = assms(3) [unfolded can_build_def]
  obtain d0 where d0: "b_heap s a = Some d0" using cb by blast
  obtain world where world: "b_world s = Some world" using cb by blast
  obtain w where ff: "first_free api (b_thread_safe s) ?m (map (tni_at ?t) [0..<6]) ?t [] (b_net s) = (G_SUCCESS, ids, tni, w)" using cb by blast
  have t0: "tni_at ?t 0 = ?t" using tni_at_start [OF start_tni_bound, of 0] by simp
  have core: "allocate_vbg_core api (b_thread_safe s) ?m ?t ?t (b_net s) = Some (G_SUCCESS, ids, tni, w)"
    using core_first_free [OF start_tni_bound, of 0 api "b_thread_safe s" ?m it s "b_net s" "[]"] ff unfolding t0 by simp
  have sw: "seq_walk ?f rs = Some (g_chain G P)" and lc: "length (g_chain G P) = Suc ?m"
    using assms(4) g_chain_nth(1) [OF assms(1,2)] by (simp_all add: built_def)
  have va: "vbg_array ?m ids = ids" using own by (simp add: vbg_array_def own_ids_def)
  obtain rs' rm where al: "assign_loop ?f ids 0 (g_chain G P) (rs, replicate ?m start_rmt) = (rs', rm)" by fastforce
  note nb = numbered [OF assms(1,2,4) al]
  have rm: "rm = rmt_of G P" unfolding rmt_of_def by (rule nb(3))
  let ?d = "d0\<lparr>d_num_vbg := ?m, d_vbg_ids := Some ids, d_settings := Some (replicate ?m zero_setting), d_rmt := Some (rmt_of G P)\<rparr>"
  have "\<exists>s'. allocate_vbg api ?m it ?f rs s = ret (G_SUCCESS, tni, rs', s') \<and> kept a s s' \<and> b_heap s' a = Some ?d"
    using cb d0 world core [unfolded start_tni_def] sw lc va al [unfolded rm start_rmt_def] m unfolding allocate_vbg_def
    by (cases "b_first_call s"; cases "b_is_tofu s"; cases "in_manager it") (simp_all add: mod_detail_def kept_def)
  then obtain s' where "allocate_vbg api ?m it ?f rs s = ret (G_SUCCESS, tni, rs', s')" "kept a s s'" "b_heap s' a = Some ?d" by blast
  then show thesis using own by (intro that [where rs' = rs' and s' = s' and d = ?d]) (use nb(1,2) in \<open>simp_all add: own_ids_def\<close>)
qed

lemma build_network_wired:
  assumes "wf_grid G" "P \<in> gprocs G" "can_build G P api axes it s a ids tni" "ranks_ok G vname rankset len" "len \<le> length bg"
  obtains bg' s' d where "build_network api vname rankset len P axes it bg s = ret (G_SUCCESS, bg', s')" "length bg' = length bg"
    "\<forall>t Q. t < g_len G \<and> g_send G P t = Some Q \<longrightarrow> bg' ! Q = word_for G ids tni P Q"
    "\<forall>Q < len. (\<forall>t < g_len G. g_send G P t \<noteq> Some Q) \<longrightarrow> bg' ! Q = UTF_BG_ALLOC_INIT_BGINFO"
    "b_heap s' a = Some d" "kept a s s'"
    "d_settings d = Some (map (\<lambda>i. wired_local G ids P i zero_setting) [0..<g_last G P])" "d_rmt d = Some (rmt_of G P)"
    "d_vbg_ids d = Some ids" "d_num_vbg d = length ids"
proof -
  let ?f = "first_row (g_seq G P)" and ?bg = "INITIALIZE_BGINFO len bg"
  have lb: "length ?bg = length bg" using assms(5) by (simp add: INITIALIZE_BGINFO_def)
  obtain rs where rs: "make_butterfly_network (g_malloc api) axes (if b_is_tofu s then 0 else 1) = ret (Inr (?f, rs, g_last G P))" "built G P rs"
    by (rule make_network_built [OF assms(1,2), of "if b_is_tofu s then 0 else 1" axes "g_malloc api"]) (use assms(3) in \<open>auto simp: can_build_def\<close>)
  obtain rs' s1 d where s1: "allocate_vbg api (g_last G P) it ?f rs s = ret (G_SUCCESS, tni, rs', s1)" "built G P rs'"
      "\<forall>j \<le> g_last G P. sq_vbg_id (rs' ! g_in G P j) = gate_id ids (g_last G P) j"
      "kept a s s1" "b_heap s1 a = Some d" "d_settings d = Some (replicate (g_last G P) zero_setting)" "d_rmt d = Some (rmt_of G P)"
      "d_vbg_ids d = Some ids" "d_num_vbg d = length ids"
    by (rule allocate_vbg_wired [OF assms(1-3) rs(2)])
  have bd: "b_detail s = Some a" using assms(3) by (simp add: can_build_def)
  have id1: "\<And>j. j \<le> g_last G P \<Longrightarrow> sq_vbg_id (rs' ! g_in G P j) = gate_id ids (g_last G P) j" using s1(3) by blast
  have ranks: "ranks_ok G vname rankset (length ?bg)" using assms(4,5) unfolding lb ranks_ok_def by auto
  obtain bg' where bg': "bginfo_loop vname rankset P tni rs' (g_chain G P) (g_chain G P) ?bg = ret (G_SUCCESS, bg')" "length bg' = length ?bg"
      "\<And>t Q. t < g_len G \<Longrightarrow> g_send G P t = Some Q \<Longrightarrow> bg' ! Q = word_for G ids tni P Q"
      "\<And>Q. Q < length ?bg \<Longrightarrow> \<forall>t < g_len G. g_send G P t \<noteq> Some Q \<Longrightarrow> bg' ! Q = ?bg ! Q"
    using bginfo_words [OF assms(1,2) s1(2) id1 can_build_own [OF assms(3)] ranks] by blast
  have sw: "seq_walk ?f rs' = Some (g_chain G P)" using s1(2) by (simp add: built_def)
  note ls = local_settings [OF assms(1,2) s1(2) id1, of zero_setting]
  let ?d = "d\<lparr>d_settings := Some (map (\<lambda>i. wired_local G ids P i zero_setting) [0..<g_last G P])\<rparr>"
  have "\<exists>s'. build_network api vname rankset len P axes it bg s = ret (G_SUCCESS, bg', s') \<and> b_heap s' a = Some ?d \<and> kept a s s'"
    using rs(1) s1 bd sw ls bg'(1) by (simp add: build_network_def make_bginfo_def set_local_vbg_def SETINFO_CASE_SUCCESS_def mod_detail_def kept_def)
  then obtain s' where "build_network api vname rankset len P axes it bg s = ret (G_SUCCESS, bg', s')" "b_heap s' a = Some ?d" "kept a s s'"
    by blast
  moreover have "\<forall>Q < len. (\<forall>t < g_len G. g_send G P t \<noteq> Some Q) \<longrightarrow> bg' ! Q = UTF_BG_ALLOC_INIT_BGINFO"
    using bg'(4) assms(5) unfolding lb by (simp add: INITIALIZE_BGINFO_def nth_append)
  moreover have "\<forall>t Q. t < g_len G \<and> g_send G P t = Some Q \<longrightarrow> bg' ! Q = word_for G ids tni P Q" using bg'(3) by blast
  ultimately show thesis using that [where bg' = bg' and d = ?d] bg'(2) lb s1(7-9) by simp
qed

text \<open>The settings that \<open>set_gates\<close> gives to uTofu.\<close>

lemma set_gates_wired:
  assumes "wf_grid G" "P \<in> gprocs G" "\<And>Q. Q \<in> gprocs G \<Longrightarrow> own_ids G (ids Q) (tni Q) Q \<and> wf_phys (gphy G Q)"
    and "\<And>Q u. Q \<in> gprocs G \<Longrightarrow> u < g_len G \<Longrightarrow> g_send G Q u = Some P \<Longrightarrow> bg ! Q = word_for G (ids Q) (tni Q) Q P"
    and "d_settings d = Some (map (\<lambda>i. wired_local G (ids P) P i zero_setting) [0..<g_last G P])" "d_rmt d = Some (rmt_of G P)"
    and "b_is_tofu s \<or> in_manager it" "\<And>Q. Q \<in> gprocs G \<Longrightarrow> Q < length bg"
  shows "set_gates api bg it d s = (let S = map (wired G ids P) [0..<g_last G P]; (rc, w) = g_set_vbg api S (b_net s) in
     ret (rc, (mod_detail (\<lambda>d. d\<lparr>d_settings := Some S\<rparr>) s)\<lparr>b_net := w\<rparr>))"
proof -
  have r: "remote_settings bg (rmt_of G P) (map (\<lambda>i. wired_local G (ids P) P i zero_setting) [0..<g_last G P]) = map (wired G ids P) [0..<g_last G P]"
    by (rule remote_wired [OF assms(1-4) rmt_of_def refl])
  have ps: "\<not> past_end (length bg) (g_send G P (g_out G P i)) \<and> \<not> past_end (length bg) (g_recv G P (g_in G P (slot G P i)))" if i: "i < g_last G P" for i
  proof -
    have l: "g_in G P (slot G P i) < g_len G" "g_out G P i < g_len G"
      using gates_basic(3,4) [OF assms(1,2) slot_range(2) [OF assms(1,2) i]] gates_basic(4) [OF assms(1,2), of i] i by simp_all
    show ?thesis using send_range [OF assms(1,2) l(2)] recv_range [OF assms(1,2) l(1)] assms(8)
      unfolding past_end_def by (auto split: option.split simp: not_le)
  qed
  have "\<not> (\<exists>x \<in> set (rmt_of G P). past_end (length bg) (src_rmt_index x) \<or> past_end (length bg) (dst_rmt_index x))"
    using ps by (auto simp: rmt_of_def)
  then show ?thesis using assms(5-7) r unfolding set_gates_def by (auto simp: Let_def)
qed

text \<open>All processes build their part, the words are exchanged, and all set their gates.\<close>

lemma group_wired:
  assumes "wf_grid G" "ranks_ok G vname rankset len"
    and "\<And>P. P \<in> gprocs G \<Longrightarrow> wf_phys (gphy G P) \<and> len \<le> length (bg P) \<and> can_build G P (api P) (axes P) (it P) (s P) (a P) (ids P) (tni P)"
  shows "\<exists>bgout s' d. (\<forall>P \<in> gprocs G. build_network (api P) vname rankset len P (axes P) (it P) (bg P) (s P) = ret (G_SUCCESS, bgout P, s' P)
        \<and> b_heap (s' P) (a P) = Some (d P) \<and> d_vbg_ids (d P) = Some (ids P) \<and> d_num_vbg (d P) = length (ids P) \<and> kept (a P) (s P) (s' P) \<and> (\<forall>Q < len. bgout P ! Q AND UTF_BIT_BGINFO_DISABLE = 0))
     \<and> (\<forall>bgin. (\<forall>P \<in> gprocs G. length (bgin P) = len \<and> (\<forall>Q \<in> gprocs G. bgin P ! Q = bgout Q ! P))
        \<longrightarrow> (\<exists>S. wired_all G ids S \<and> (\<forall>P \<in> gprocs G. set_gates (api P) (bgin P) (it P) (d P) (s' P)
             = (let (rc, w) = g_set_vbg (api P) (S P) (b_net (s' P)) in ret (rc, (mod_detail (\<lambda>d. d\<lparr>d_settings := Some (S P)\<rparr>) (s' P))\<lparr>b_net := w\<rparr>)))))"
proof -
  define R where "R P bg' s' d \<longleftrightarrow> build_network (api P) vname rankset len P (axes P) (it P) (bg P) (s P) = ret (G_SUCCESS, bg', s')
    \<and> (\<forall>t Q. t < g_len G \<and> g_send G P t = Some Q \<longrightarrow> bg' ! Q = word_for G (ids P) (tni P) P Q)
    \<and> (\<forall>Q < len. (\<forall>t < g_len G. g_send G P t \<noteq> Some Q) \<longrightarrow> bg' ! Q = UTF_BG_ALLOC_INIT_BGINFO)
    \<and> b_heap s' (a P) = Some d \<and> kept (a P) (s P) s'
    \<and> d_settings d = Some (map (\<lambda>i. wired_local G (ids P) P i zero_setting) [0..<g_last G P]) \<and> d_rmt d = Some (rmt_of G P)
    \<and> d_vbg_ids d = Some (ids P) \<and> d_num_vbg d = length (ids P)" for P bg' s' d
  have "\<exists>x. R P (fst x) (fst (snd x)) (snd (snd x))" if P: "P \<in> gprocs G" for P
  proof -
    obtain bg' s' d where "R P bg' s' d" unfolding R_def
      by (rule build_network_wired [OF assms(1) P _ assms(2), of "api P" "axes P" "it P" "s P" "a P" "ids P" "tni P" "bg P"]) (use assms(3) [OF P] in blast)+
    then show ?thesis by (intro exI [of _ "(bg', s', d)"]) simp
  qed
  then obtain f where f: "\<And>P. P \<in> gprocs G \<Longrightarrow> R P (fst (f P)) (fst (snd (f P))) (snd (snd (f P)))" by metis
  define bgout s' d where "bgout = (\<lambda>P. fst (f P))" and "s' = (\<lambda>P. fst (snd (f P)))" and "d = (\<lambda>P. snd (snd (f P)))"
  have R: "R P (bgout P) (s' P) (d P)" if "P \<in> gprocs G" for P using f [OF that] by (simp add: bgout_def s'_def d_def)
  have own: "own_ids G (ids Q) (tni Q) Q \<and> wf_phys (gphy G Q)" if "Q \<in> gprocs G" for Q using assms(3) [OF that] can_build_own by blast
  have en: "bgout P ! Q AND UTF_BIT_BGINFO_DISABLE = 0" if P: "P \<in> gprocs G" and Q: "Q < len" for P Q
  proof (cases "\<exists>t < g_len G. g_send G P t = Some Q")
    case True
    then obtain t where t: "t < g_len G" "g_send G P t = Some Q" by blast
    then show ?thesis using R [OF P, unfolded R_def] word_gates(3) [OF assms(1) P _ _ t] own [OF P] by simp
  next
    case False
    then have "bgout P ! Q = UTF_BG_ALLOC_INIT_BGINFO" using R [OF P, unfolded R_def] Q by blast
    then show ?thesis by (simp add: UTF_BG_ALLOC_INIT_BGINFO_def UTF_BIT_BGINFO_DISABLE_def)
  qed
  have "\<exists>S. wired_all G ids S \<and> (\<forall>P \<in> gprocs G. set_gates (api P) (bgin P) (it P) (d P) (s' P)
      = (let (rc, w) = g_set_vbg (api P) (S P) (b_net (s' P)) in ret (rc, (mod_detail (\<lambda>d. d\<lparr>d_settings := Some (S P)\<rparr>) (s' P))\<lparr>b_net := w\<rparr>)))"
    if ex: "\<forall>P \<in> gprocs G. length (bgin P) = len \<and> (\<forall>Q \<in> gprocs G. bgin P ! Q = bgout Q ! P)" for bgin
  proof (intro exI conjI ballI)
    let ?S = "\<lambda>P. map (wired G ids P) [0..<g_last G P]"
    show "wired_all G ids ?S" by (simp add: wired_all_def)
    fix P assume P: "P \<in> gprocs G"
    note r = R [OF P, unfolded R_def]
    have w: "bgin P ! Q = word_for G (ids Q) (tni Q) Q P" if "Q \<in> gprocs G" "u < g_len G" "g_send G Q u = Some P" for Q u
      using ex P that R [OF that(1), unfolded R_def] by simp
    have tm: "b_is_tofu (s' P) \<or> in_manager (it P)" using r assms(3) [OF P] by (auto simp: can_build_def kept_def)
    have ln: "Q < length (bgin P)" if "Q \<in> gprocs G" for Q using ex P that assms(2) by (simp add: ranks_ok_def)
    show "set_gates (api P) (bgin P) (it P) (d P) (s' P) = (let (rc, w) = g_set_vbg (api P) (?S P) (b_net (s' P)) in
        ret (rc, (mod_detail (\<lambda>d. d\<lparr>d_settings := Some (?S P)\<rparr>) (s' P))\<lparr>b_net := w\<rparr>))"
      using set_gates_wired [OF assms(1) P own w _ _ tm ln, where d = "d P" and api = "api P"] r by (simp add: Let_def)
  qed
  then show ?thesis using R en unfolding R_def by (intro exI [of _ bgout] exI [of _ s'] exI [of _ d]) blast
qed

end
