(* ===== verification/Vbg_Box.thy ===== *)
theory Vbg_Box
  imports Vbg_Network
begin

text \<open>
  Groups with one process on every node of a box. \<open>make_axes_and_intra_node_infos\<close> finds the extent of the box,
  and on each axis the line through the own node, in an order on which all processes of the line agree: the
  processes form a grid in the sense of \<open>Vbg_Grid\<close>.
\<close>

section \<open>Sorting the nodes of a line\<close>

text \<open>The comparison function compares the physical addresses as one number.\<close>

definition digit :: "nat \<Rightarrow> u8 \<Rightarrow> nat" where
  "digit n x = n * 256 + unat x"

definition phy_key :: "phys_coords \<Rightarrow> nat" where
  "phy_key c = digit (digit (digit (digit (digit (digit 0 (pz c)) (py c)) (px c)) (pb c)) (pc c)) (pa c)"

lemma unat_u8: "unat (x :: u8) < 256"
  using unsigned_less [of x, where ?'a = nat] by simp

lemma digit_le: "digit a x \<le> digit b y \<longleftrightarrow> a < b \<or> a = b \<and> x \<le> y"
  using unat_u8 [of x] unat_u8 [of y] unfolding digit_def word_le_nat_alt by (cases a b rule: linorder_cases) linarith+

lemma digit_less: "digit a x < digit b y \<longleftrightarrow> a < b \<or> a = b \<and> x < y"
  unfolding not_le [symmetric] digit_le by (cases a b rule: linorder_cases) auto

lemma digit_eq: "digit a x = digit b y \<longleftrightarrow> a = b \<and> x = y"
  unfolding order_eq_iff digit_le by auto

lemma phy_key_inj: "phy_key c = phy_key d \<Longrightarrow> c = d"
  by (cases c; cases d) (simp add: phy_key_def digit_eq)

lemma sort_nodeinfo_key: "sort_nodeinfo_by_phy_6d_addr a b \<le> 0 \<longleftrightarrow> phy_key (ni_phy a) \<le> phy_key (ni_phy b)"
proof -
  have k: "phy_key c \<le> phy_key d \<longleftrightarrow> (if pz c \<noteq> pz d then pz c \<le> pz d else if py c \<noteq> py d then py c \<le> py d else if px c \<noteq> px d then px c \<le> px d
      else if pb c \<noteq> pb d then pb c \<le> pb d else if pc c \<noteq> pc d then pc c \<le> pc d else pa c \<le> pa d)" for c d
    unfolding phy_key_def digit_le digit_less digit_eq by (simp add: order_less_le)
  show ?thesis unfolding k sort_nodeinfo_by_phy_6d_addr_def Let_def by (simp add: word_le_def)
qed

lemma insert_by_key: "(\<And>a b. cmp a b \<le> 0 \<longleftrightarrow> f a \<le> f b) \<Longrightarrow> insert_by cmp x xs = insort_key f x xs"
  by (induction xs) simp_all

lemma qsort_by_key: "(\<And>a b. cmp a b \<le> 0 \<longleftrightarrow> f a \<le> f b) \<Longrightarrow> qsort_by cmp xs = sort_key f xs"
  unfolding qsort_by_def sort_key_def by (induction xs) (simp_all add: insert_by_key)

text \<open>The order in which the entries were entered does not matter.\<close>

lemma sort_key_set:
  assumes "distinct xs" "distinct ys" "set xs = set ys" "inj_on f (set xs)"
  shows "sort_key f xs = sort_key f ys"
proof -
  have "distinct (map f (sort_key f xs))" "distinct (map f (sort_key f ys))" using assms by (simp_all add: distinct_map)
  then have "map f (sort_key f xs) = map f (sort_key f ys)" using assms(3) by (intro sorted_distinct_set_unique) simp_all
  then show ?thesis by (rule map_inj_on) (use assms(3,4) in simp)
qed

section \<open>Boxes\<close>

definition crd :: "axes_arg \<Rightarrow> nat \<Rightarrow> nat \<Rightarrow> nat" where
  "crd A s b = unat (log_at (v_xyz (vname_of A s)) (b - 1))"

definition phy :: "axes_arg \<Rightarrow> nat \<Rightarrow> phys_coords" where
  "phy A s = v_xyzabc (vname_of A s)"

definition size_of :: "axes_arg \<Rightarrow> nat" where
  "size_of A = length (aa_rankset A)"

text \<open>
  As many processes as the box that begins at \<open>lo\<close> and has the sides \<open>sz\<close> has nodes, each on a node of its own.
\<close>

definition box :: "axes_arg \<Rightarrow> (nat \<Rightarrow> nat) \<Rightarrow> (nat \<Rightarrow> nat) \<Rightarrow> bool" where
  "box A lo sz \<longleftrightarrow> (\<forall>s < size_of A. \<forall>b \<in> {1, 2, 3}. lo b \<le> crd A s b \<and> crd A s b < lo b + sz b) \<and> (\<forall>b \<in> {1, 2, 3}. lo b + sz b < 2 ^ 32)
     \<and> (\<forall>s < size_of A. \<forall>t < size_of A. (\<forall>b \<in> {1, 2, 3}. crd A s b = crd A t b) \<longrightarrow> s = t) \<and> size_of A = sz 1 * sz 2 * sz 3
     \<and> (\<forall>s < size_of A. wf_phys (phy A s)) \<and> (\<forall>s < size_of A. \<forall>t < size_of A. phy A s = phy A t \<longrightarrow> s = t)"

lemma boxD:
  assumes "box A lo sz" "s < size_of A"
  shows "b \<in> {1, 2, 3} \<Longrightarrow> lo b \<le> crd A s b \<and> crd A s b < lo b + sz b" "b \<in> {1, 2, 3} \<Longrightarrow> lo b + sz b < 2 ^ 32"
    "t < size_of A \<Longrightarrow> (\<And>b. b \<in> {1, 2, 3} \<Longrightarrow> crd A s b = crd A t b) \<Longrightarrow> s = t" "wf_phys (phy A s)"
    "t < size_of A \<Longrightarrow> phy A s = phy A t \<Longrightarrow> s = t"
  using assms unfolding box_def by blast+

lemma nodeid_own:
  assumes "box A lo sz" "s < size_of A" "t < size_of A"
  shows "nodeid_of A s = nodeid_of A t \<longleftrightarrow> s = t"
  using boxD(4,5) [OF assms(1)] nodeid_phys assms(2,3) unfolding phy_def by metis

text \<open>Every node of the box has a process.\<close>

lemma box_onto:
  assumes "box A lo sz" "\<And>b. b \<in> {1, 2, 3} \<Longrightarrow> lo b \<le> f b \<and> f b < lo b + sz b"
  obtains s where "s < size_of A" "\<And>b. b \<in> {1, 2, 3} \<Longrightarrow> crd A s b = f b"
proof -
  let ?g = "\<lambda>s. (crd A s 1, crd A s 2, crd A s 3)"
  let ?B = "{lo 1..<lo 1 + sz 1} \<times> {lo 2..<lo 2 + sz 2} \<times> {lo 3..<lo 3 + sz 3}"
  have "inj_on ?g {..<size_of A}" using boxD(3) [OF assms(1)] by (auto simp: inj_on_def)
  then have "card (?g ` {..<size_of A}) = card ?B" using assms(1) by (simp add: card_image card_cartesian_product box_def mult.assoc)
  moreover have "?g ` {..<size_of A} \<subseteq> ?B" using boxD(1) [OF assms(1)] by auto
  ultimately have "?g ` {..<size_of A} = ?B" by (intro card_subset_eq) simp_all
  moreover have "(f 1, f 2, f 3) \<in> ?B" using assms(2) by simp
  ultimately obtain s where "s < size_of A" "?g s = (f 1, f 2, f 3)" by (metis (no_types, lifting) imageE lessThan_iff)
  then show thesis using that by auto
qed

text \<open>The processes on the line through \<open>P\<close> along axis \<open>b\<close>.\<close>

definition on_line :: "axes_arg \<Rightarrow> nat \<Rightarrow> nat \<Rightarrow> nat set" where
  "on_line A b P = {Q. Q < size_of A \<and> same_line [1, 2, 3] (crd A) b P Q}"

lemma on_line_sym: "P < size_of A \<Longrightarrow> Q \<in> on_line A b P \<Longrightarrow> on_line A b Q = on_line A b P"
  by (auto simp: on_line_def same_line_def)

lemma line_crd:
  assumes "box A lo sz" "P < size_of A" "b \<in> {1, 2, 3}"
  shows "bij_betw (\<lambda>Q. crd A Q b) (on_line A b P) {lo b..<lo b + sz b}"
proof (rule bij_betwI')
  fix Q R assume q: "Q \<in> on_line A b P" "R \<in> on_line A b P"
  show "crd A Q b = crd A R b \<longleftrightarrow> Q = R"
  proof
    assume e: "crd A Q b = crd A R b"
    have "crd A Q b' = crd A R b'" if "b' \<in> {1, 2, 3}" for b' using e q that by (cases "b' = b") (auto simp: on_line_def same_line_def)
    then show "Q = R" using boxD(3) [OF assms(1), of Q R] q by (simp add: on_line_def)
  qed simp
next
  show "crd A Q b \<in> {lo b..<lo b + sz b}" if "Q \<in> on_line A b P" for Q using boxD(1) [OF assms(1), of Q b] that assms(3) by (simp add: on_line_def)
next
  fix c assume c: "c \<in> {lo b..<lo b + sz b}"
  obtain s where s: "s < size_of A" "\<And>b'. b' \<in> {1, 2, 3} \<Longrightarrow> crd A s b' = ((crd A P)(b := c)) b'"
    by (rule box_onto [OF assms(1), where f = "(crd A P)(b := c)"]) (use boxD(1) [OF assms(1,2)] c in auto)
  then show "\<exists>Q \<in> on_line A b P. c = crd A Q b" using assms(3) by (intro bexI [of _ s]) (auto simp: on_line_def same_line_def)
qed

lemma card_line: "box A lo sz \<Longrightarrow> P < size_of A \<Longrightarrow> b \<in> {1, 2, 3} \<Longrightarrow> card (on_line A b P) = sz b"
  using bij_betw_same_card [OF line_crd] by simp

section \<open>The extent of an axis\<close>

lemma axis_extent:
  assumes "ax_smallest a \<le> ax_biggest a"
  shows "\<exists>l h. fold COMPARE_LOGADDR_axis ts a = a\<lparr>ax_biggest := h, ax_smallest := l\<rparr> \<and> l \<in> insert (ax_smallest a) (set ts) \<and> h \<in> insert (ax_biggest a) (set ts)
     \<and> l \<le> ax_smallest a \<and> ax_biggest a \<le> h \<and> (\<forall>t \<in> set ts. l \<le> t \<and> t \<le> h)"
  using assms
proof (induction ts arbitrary: a)
  case (Cons t ts)
  let ?a = "COMPARE_LOGADDR_axis t a"
  have a: "ax_smallest ?a \<le> ax_biggest ?a" "ax_smallest ?a \<le> t" "t \<le> ax_biggest ?a" "ax_smallest ?a \<le> ax_smallest a" "ax_biggest a \<le> ax_biggest ?a"
      "ax_smallest ?a \<in> {ax_smallest a, t}" "ax_biggest ?a \<in> {ax_biggest a, t}"
    using Cons.prems by (auto simp: COMPARE_LOGADDR_axis_def)
  have e: "?a\<lparr>ax_biggest := h, ax_smallest := l\<rparr> = a\<lparr>ax_biggest := h, ax_smallest := l\<rparr>" for h l by (simp add: COMPARE_LOGADDR_axis_def)
  from Cons.IH [OF a(1)] obtain l h where "fold COMPARE_LOGADDR_axis ts ?a = ?a\<lparr>ax_biggest := h, ax_smallest := l\<rparr>"
      "l \<in> insert (ax_smallest ?a) (set ts)" "h \<in> insert (ax_biggest ?a) (set ts)" "l \<le> ax_smallest ?a" "ax_biggest ?a \<le> h" "\<forall>t \<in> set ts. l \<le> t \<and> t \<le> h" by blast
  then have "fold COMPARE_LOGADDR_axis (t # ts) a = a\<lparr>ax_biggest := h, ax_smallest := l\<rparr>" "l \<in> insert (ax_smallest a) (set (t # ts))"
      "h \<in> insert (ax_biggest a) (set (t # ts))" "l \<le> ax_smallest a \<and> ax_biggest a \<le> h" "\<forall>t \<in> set (t # ts). l \<le> t \<and> t \<le> h"
    using a(2-7) unfolding e by (force, force, force, force, force)
  then show ?case by blast
qed auto

lemma box_extent:
  assumes "box A lo sz" "P < size_of A" "b \<in> {1, 2, 3}"
  obtains l h where "fold COMPARE_LOGADDR_axis (map (\<lambda>s. log_at (v_xyz (vname_of A s)) (b - 1)) [0..<size_of A])
      (zero_axis\<lparr>ax_biggest := log_at (v_xyz (vname_of A P)) (b - 1), ax_smallest := log_at (v_xyz (vname_of A P)) (b - 1)\<rparr>)
      = zero_axis\<lparr>ax_biggest := h, ax_smallest := l\<rparr>" "unat (h - l + 1) = sz b"
proof -
  let ?c = "\<lambda>s. log_at (v_xyz (vname_of A s)) (b - 1)"
  have uc: "unat (?c s) = crd A s b" for s by (simp add: crd_def)
  let ?a = "zero_axis\<lparr>ax_biggest := ?c P, ax_smallest := ?c P\<rparr>"
  have "ax_smallest ?a \<le> ax_biggest ?a" by simp
  from axis_extent [OF this, of "map ?c [0..<size_of A]"] obtain l h where
    ex: "fold COMPARE_LOGADDR_axis (map ?c [0..<size_of A]) ?a = ?a\<lparr>ax_biggest := h, ax_smallest := l\<rparr>"
      "l \<in> insert (ax_smallest ?a) (set (map ?c [0..<size_of A]))" "h \<in> insert (ax_biggest ?a) (set (map ?c [0..<size_of A]))"
      "\<forall>t \<in> set (map ?c [0..<size_of A]). l \<le> t \<and> t \<le> h" by blast
  have st: "set (map ?c [0..<size_of A]) = ?c ` {..<size_of A}" "?c P \<in> ?c ` {..<size_of A}" using assms(2) by (simp_all add: atLeast0LessThan)
  have lh: "fold COMPARE_LOGADDR_axis (map ?c [0..<size_of A]) ?a = zero_axis\<lparr>ax_biggest := h, ax_smallest := l\<rparr>"
      "l \<in> ?c ` {..<size_of A}" "h \<in> ?c ` {..<size_of A}" "\<And>s. s < size_of A \<Longrightarrow> l \<le> ?c s \<and> ?c s \<le> h"
  proof -
    show "fold COMPARE_LOGADDR_axis (map ?c [0..<size_of A]) ?a = zero_axis\<lparr>ax_biggest := h, ax_smallest := l\<rparr>" using ex(1) by simp
    show "l \<in> ?c ` {..<size_of A}" "h \<in> ?c ` {..<size_of A}" using ex(2,3) st(2) unfolding st(1) by auto
    show "l \<le> ?c s \<and> ?c s \<le> h" if "s < size_of A" for s using ex(4) that unfolding st(1) by blast
  qed
  have r: "lo b \<le> crd A s b \<and> crd A s b < lo b + sz b" if "s < size_of A" for s using boxD(1) [OF assms(1) that assms(3)] .
  have sz: "0 < sz b" "lo b + sz b < 2 ^ 32" using r [OF assms(2)] boxD(2) [OF assms] by simp_all
  have at: "\<exists>s < size_of A. crd A s b = c" if "lo b \<le> c" "c < lo b + sz b" for c
  proof -
    have "c \<in> (\<lambda>Q. crd A Q b) ` on_line A b P" using line_crd [OF assms] that by (simp add: bij_betw_def)
    then show ?thesis by (auto simp: on_line_def)
  qed
  have "unat l = lo b"
  proof (rule antisym)
    obtain s where "s < size_of A" "crd A s b = lo b" using at [of "lo b"] sz by auto
    then show "unat l \<le> lo b" using lh(4) [of s] uc by (simp add: word_le_nat_alt)
    show "lo b \<le> unat l" using lh(2) r uc by auto
  qed
  moreover have "unat h = lo b + (sz b - 1)"
  proof (rule antisym)
    obtain s where "s < size_of A" "crd A s b = lo b + (sz b - 1)" using at [of "lo b + (sz b - 1)"] sz(1) by (meson add_strict_left_mono diff_less le_add1 zero_less_one)
    then show "lo b + (sz b - 1) \<le> unat h" using lh(4) [of s] uc by (simp add: word_le_nat_alt)
    show "unat h \<le> lo b + (sz b - 1)" using lh(3) r uc by fastforce
  qed
  ultimately have "h = word_of_nat (lo b + (sz b - 1))" "l = word_of_nat (lo b)" by (metis of_nat_unat ucast_id)+
  then have "h - l + 1 = word_of_nat (sz b - 1 + 1)" by simp
  then have "unat (h - l + 1) = sz b" using sz by (simp add: unsigned_of_nat take_bit_nat_eq_self)
  then show thesis by (rule that [OF lh(1)])
qed

section \<open>The nodes of the group\<close>

lemma compare_axes_four: "COMPARE_LOGADDR_axes t [a, b, c, d] = [a, COMPARE_LOGADDR_axis (lx t) b, COMPARE_LOGADDR_axis (ly t) c, COMPARE_LOGADDR_axis (lz t) d]"
  by (simp add: COMPARE_LOGADDR_axes_def log_at_def)

lemma compare_axes_fold:
  "fold COMPARE_LOGADDR_axes ts [a, b, c, d] = [a, fold COMPARE_LOGADDR_axis (map lx ts) b, fold COMPARE_LOGADDR_axis (map ly ts) c, fold COMPARE_LOGADDR_axis (map lz ts) d]"
  by (induction ts arbitrary: b c d) (simp_all add: compare_axes_four)

definition node_of :: "axes_arg \<Rightarrow> nat \<Rightarrow> node_info" where
  "node_of A s = \<lparr>nd_nodeid = nodeid_of A s, nd_size = 1,
     nd_axis = COMPARE_LOGADDR_kind (v_xyz (vname_of A (aa_my_index A))) (v_xyz (vname_of A s)), nd_manager = s\<rparr>"

text \<open>What the loop has found after \<open>k\<close> processes.\<close>

definition scanned :: "axes_arg \<Rightarrow> nat option list option \<Rightarrow> nat \<Rightarrow> scan" where
  "scanned A w k = \<lparr>sc_nodes = map (node_of A) [0..<k], sc_my_node = (if aa_my_index A < k then aa_my_index A else 0),
     sc_my_indexes = [if aa_my_index A < k then Some (aa_my_index A) else None],
     sc_world = (if aa_my_index A < k \<and> aa_first_call A then map_option (\<lambda>w. w[0 := Some (unat (aa_rankset A ! aa_my_index A))]) w else w),
     sc_axes = fold COMPARE_LOGADDR_axes (map (\<lambda>s. v_xyz (vname_of A s)) [0..<k]) (start_axes A), sc_toomany = False\<rparr>"

lemma find_node_new: "nodeid \<notin> nd_nodeid ` set ns \<Longrightarrow> find_node nodeid ns = length ns"
  by (induction ns) auto

lemma scan_step_new:
  assumes "box A lo sz" "aa_my_index A < size_of A" "aa_ppn_job A = 1" "k < size_of A"
  shows "scan_step A (size_of A) 0 k (scanned A w k) = ret (G_SUCCESS, scanned A w (Suc k))"
proof -
  have f: "find_node (nodeid_of A k) (map (node_of A) [0..<k]) = k"
  proof -
    have "nodeid_of A k \<noteq> nodeid_of A s" if "s < k" for s using nodeid_own [OF assms(1,4), of s] assms(4) that by simp
    then have "nodeid_of A k \<notin> nd_nodeid ` set (map (node_of A) [0..<k])" by (simp add: node_of_def image_iff)
    from find_node_new [OF this] show ?thesis by simp
  qed
  have o: "nodeid_of A k = nodeid_of A (aa_my_index A) \<longleftrightarrow> k = aa_my_index A" by (rule nodeid_own [OF assms(1,4,2)])
  show ?thesis
  proof (cases "k = aa_my_index A")
    case True
    show ?thesis using f assms(2,3) unfolding True [symmetric] by (simp add: scan_step_def scanned_def enter_own_def node_of_def Let_def True [symmetric])
  next
    case False
    then have "aa_my_index A < Suc k \<longleftrightarrow> aa_my_index A < k" by auto
    then show ?thesis using f o False assms(4) by (simp add: scan_step_def scanned_def enter_own_def node_of_def)
  qed
qed

lemma scan_loop_new:
  assumes "box A lo sz" "aa_my_index A < size_of A" "aa_ppn_job A = 1" "k \<le> size_of A"
  shows "scan_loop A (size_of A) 0 [k..<size_of A] (scanned A w k) = ret (G_SUCCESS, scanned A w (size_of A))"
  using assms(4)
proof (induction "size_of A - k" arbitrary: k)
  case (Suc j)
  then have u: "[k..<size_of A] = k # [Suc k..<size_of A]" by (simp add: upt_conv_Cons)
  have "scan_step A (size_of A) 0 k (scanned A w k) = ret (G_SUCCESS, scanned A w (Suc k))" using Suc by (intro scan_step_new [OF assms(1-3)]) simp
  then show ?case using Suc unfolding u by simp
qed simp

section \<open>The processes that are entered\<close>

definition proc_of :: "axes_arg \<Rightarrow> nat \<Rightarrow> proc_info" where
  "proc_of A s = \<lparr>pr_nodeid = nodeid_of A s, pr_axis = (if s = aa_my_index A then UTF_BG_ALLOC_AXIS_MYSELF else nd_axis (node_of A s)), pr_index = s\<rparr>"

definition others :: "axes_arg \<Rightarrow> nat list" where
  "others A = filter (\<lambda>s. s \<noteq> aa_my_index A) [0..<size_of A]"

definition box_intra :: "axes_arg \<Rightarrow> intra_info" where
  "box_intra A = \<lparr>in_manager = True, in_size = 1, in_intra_index = 0, in_vpids = [Some (unat (aa_rankset A ! aa_my_index A))],
     in_curr_seq = 0, in_mmap_buf = None\<rparr>"

lemma own_loop_one:
  assumes "aa_my_index A < size_of A" "st = scanned A w (size_of A)" "it0 = (box_intra A)\<lparr>in_vpids := [None]\<rparr>"
  shows "own_loop A st [0..<Suc 0] (it0, []) = ret (box_intra A, [proc_of A (aa_my_index A)])"
proof -
  have "aa_rankset A \<noteq> []" using assms(1) by (auto simp: size_of_def)
  then show ?thesis using assms(1) unfolding assms(2,3)
    by (simp add: own_step_def scanned_def node_of_def proc_of_def box_intra_def)
qed

lemma other_loop_all:
  assumes "aa_my_index A < size_of A" "st = scanned A w (size_of A)" "i \<le> size_of A"
    and "length ps + length (filter (\<lambda>s. s \<noteq> aa_my_index A) [i..<size_of A]) \<le> size_of A"
  shows "other_loop A st [i..<size_of A] ps = ret (False, ps @ map (proc_of A) (filter (\<lambda>s. s \<noteq> aa_my_index A) [i..<size_of A]))"
  using assms(3,4)
proof (induction "size_of A - i" arbitrary: i ps)
  case (Suc k)
  then have u: "[i..<size_of A] = i # [Suc i..<size_of A]" "i < size_of A" by (simp_all add: upt_conv_Cons)
  have n: "sc_nodes st ! i = node_of A i" "nd_size (sc_nodes st ! (i - 1)) = 1" "sc_my_node st = aa_my_index A"
    using u(2) assms(1) by (simp_all add: assms(2) scanned_def node_of_def)
  have me: "nd_axis (node_of A (aa_my_index A)) = UTF_BG_ALLOC_AXIS_IN_NODE" by (simp add: node_of_def COMPARE_LOGADDR_kind_def)
  show ?case
  proof (cases "i = aa_my_index A")
    case True
    have "other_loop A st [Suc i..<size_of A] ps = ret (False, ps @ map (proc_of A) (filter (\<lambda>s. s \<noteq> aa_my_index A) [Suc i..<size_of A]))"
      using Suc.hyps(2) Suc.prems u True by (intro Suc.hyps(1)) simp_all
    then show ?thesis using n me True unfolding u(1) by (simp add: node_of_def)
  next
    case False
    have "other_loop A st [Suc i..<size_of A] (ps @ [proc_of A i])
        = ret (False, (ps @ [proc_of A i]) @ map (proc_of A) (filter (\<lambda>s. s \<noteq> aa_my_index A) [Suc i..<size_of A]))"
      using Suc.hyps(2) Suc.prems u False by (intro Suc.hyps(1)) simp_all
    moreover have "length ps < length (aa_rankset A)" using Suc.prems(2) False unfolding u(1) size_of_def [symmetric] by simp
    ultimately show ?thesis using n False unfolding u(1) by (simp add: node_of_def proc_of_def)
  qed
qed simp

lemma length_others: "aa_my_index A < size_of A \<Longrightarrow> Suc (length (others A)) = size_of A"
proof -
  assume "aa_my_index A < size_of A"
  then have "card ({0..<size_of A} - {aa_my_index A}) = size_of A - 1" by simp
  moreover have "length (others A) = card (set (others A))" by (rule distinct_card [symmetric]) (simp add: others_def)
  moreover have "set (others A) = {0..<size_of A} - {aa_my_index A}" by (auto simp: others_def)
  ultimately show ?thesis using \<open>aa_my_index A < size_of A\<close> by simp
qed

section \<open>The lines\<close>

lemma add_to_axes_all:
  assumes "distinct ss" "\<And>s. s \<in> set ss \<Longrightarrow> s < length axes \<and> length (nodeinfo (axes ! s)) < ax_size (axes ! s)"
  shows "\<exists>axes'. add_to_axes x ss axes = ret axes' \<and> length axes' = length axes
     \<and> (\<forall>b < length axes. axes' ! b = (axes ! b)\<lparr>nodeinfo := nodeinfo (axes ! b) @ (if b \<in> set ss then [x] else [])\<rparr>)"
  using assms
proof (induction ss arbitrary: axes)
  case (Cons s ss)
  let ?a = "axes[s := (axes ! s)\<lparr>nodeinfo := nodeinfo (axes ! s) @ [x]\<rparr>]"
  have s: "s < length axes" "length (nodeinfo (axes ! s)) < ax_size (axes ! s)" using Cons.prems(2) [of s] by simp_all
  have "\<exists>axes'. add_to_axes x ss ?a = ret axes' \<and> length axes' = length ?a
      \<and> (\<forall>b < length ?a. axes' ! b = (?a ! b)\<lparr>nodeinfo := nodeinfo (?a ! b) @ (if b \<in> set ss then [x] else [])\<rparr>)"
  proof (rule Cons.IH)
    show "t < length ?a \<and> length (nodeinfo (?a ! t)) < ax_size (?a ! t)" if "t \<in> set ss" for t
    proof -
      have "t \<noteq> s" using Cons.prems(1) that by auto
      then show ?thesis using Cons.prems(2) [of t] that by simp
    qed
  qed (use Cons.prems(1) in simp)
  then obtain axes' where a: "add_to_axes x ss ?a = ret axes'" "length axes' = length ?a"
      "\<And>b. b < length axes \<Longrightarrow> axes' ! b = (?a ! b)\<lparr>nodeinfo := nodeinfo (?a ! b) @ (if b \<in> set ss then [x] else [])\<rparr>" by auto
  have "axes' ! b = (axes ! b)\<lparr>nodeinfo := nodeinfo (axes ! b) @ (if b \<in> set (s # ss) then [x] else [])\<rparr>" if "b < length axes" for b
    using a(3) [OF that] Cons.prems(1) s(1) by (cases "b = s") auto
  then show ?case using a(1,2) s by (simp add: add_to_axis_def)
qed auto

abbreviation entered :: "nat \<Rightarrow> proc_info \<Rightarrow> bool" where
  "entered b p \<equiv> b \<in> set (target_axes True NUM_AXES (pr_axis p))"

lemma target_axes_wf: "distinct (target_axes True NUM_AXES k)" "b \<in> set (target_axes True NUM_AXES k) \<Longrightarrow> b < NUM_AXES"
  by (cases k; simp add: target_axes_def axis_pos_def NUM_AXES_def)+

lemma fill_axes_all:
  assumes "length axes = NUM_AXES"
    and "\<And>b. b < NUM_AXES \<Longrightarrow> length (nodeinfo (axes ! b)) + length (filter (entered b) ps) \<le> ax_size (axes ! b)"
  shows "\<exists>axes'. fill_axes A True NUM_AXES ps axes = ret axes' \<and> length axes' = NUM_AXES
     \<and> (\<forall>b < NUM_AXES. axes' ! b = (axes ! b)\<lparr>nodeinfo := nodeinfo (axes ! b) @ map (set_axis_node_info A) (filter (entered b) ps)\<rparr>)"
  using assms
proof (induction ps arbitrary: axes)
  case (Cons p ps)
  let ?ss = "target_axes True NUM_AXES (pr_axis p)" and ?x = "set_axis_node_info A p"
  have "length (nodeinfo (axes ! b)) < ax_size (axes ! b)" if "b \<in> set ?ss" for b
    using Cons.prems(2) [of b] target_axes_wf(2) [OF that] that by simp
  then have "\<exists>axes'. add_to_axes ?x ?ss axes = ret axes' \<and> length axes' = length axes
      \<and> (\<forall>b < length axes. axes' ! b = (axes ! b)\<lparr>nodeinfo := nodeinfo (axes ! b) @ (if b \<in> set ?ss then [?x] else [])\<rparr>)"
    using target_axes_wf Cons.prems(1) by (intro add_to_axes_all) auto
  then obtain a1 where a1: "add_to_axes ?x ?ss axes = ret a1" "length a1 = NUM_AXES"
      "\<And>b. b < NUM_AXES \<Longrightarrow> a1 ! b = (axes ! b)\<lparr>nodeinfo := nodeinfo (axes ! b) @ (if b \<in> set ?ss then [?x] else [])\<rparr>" using Cons.prems(1) by auto
  have "\<exists>axes'. fill_axes A True NUM_AXES ps a1 = ret axes' \<and> length axes' = NUM_AXES
      \<and> (\<forall>b < NUM_AXES. axes' ! b = (a1 ! b)\<lparr>nodeinfo := nodeinfo (a1 ! b) @ map (set_axis_node_info A) (filter (entered b) ps)\<rparr>)"
  proof (rule Cons.IH [OF a1(2)])
    show "length (nodeinfo (a1 ! b)) + length (filter (entered b) ps) \<le> ax_size (a1 ! b)" if "b < NUM_AXES" for b
      using Cons.prems(2) [OF that] a1(3) [OF that] by (auto split: if_splits)
  qed
  then show ?case using a1 by auto
qed auto

text \<open>The line through \<open>P\<close> as all its processes see it.\<close>

definition entry_of :: "axes_arg \<Rightarrow> nat \<Rightarrow> axis_node_info" where
  "entry_of A Q = \<lparr>ni_index = Q, ni_log = v_xyz (vname_of A Q), ni_phy = phy A Q\<rparr>"

definition box_line :: "axes_arg \<Rightarrow> nat \<Rightarrow> nat \<Rightarrow> axis_node_info list" where
  "box_line A b P = sort_key (\<lambda>x. phy_key (ni_phy x)) (map (entry_of A) (sorted_list_of_set (on_line A b P)))"

lemma set_entry: "set_axis_node_info A (proc_of A Q) = entry_of A Q"
  by (simp add: set_axis_node_info_def proc_of_def entry_of_def phy_def)

lemma finite_line [simp]: "finite (on_line A b P)"
  by (simp add: on_line_def)

lemma line_self: "P < size_of A \<Longrightarrow> P \<in> on_line A b P"
  by (simp add: on_line_def same_line_def)

lemma inj_entry: "inj_on (entry_of A) S"
  by (simp add: inj_on_def entry_of_def)

lemma box_line_set [simp]: "set (box_line A b P) = entry_of A ` on_line A b P"
  by (simp add: box_line_def)

lemma box_line_distinct: "distinct (map ni_index (box_line A b P))"
proof -
  have "distinct (box_line A b P)" using inj_entry by (simp add: box_line_def distinct_map)
  then show ?thesis by (simp add: distinct_map inj_on_def entry_of_def)
qed

lemma box_line_length: "box A lo sz \<Longrightarrow> P < size_of A \<Longrightarrow> b \<in> {1, 2, 3} \<Longrightarrow> length (box_line A b P) = sz b"
  using card_line by (simp add: box_line_def)

lemma box_line_any:
  assumes "box A lo sz" "distinct qs" "set qs = on_line A b P"
  shows "qsort_by sort_nodeinfo_by_phy_6d_addr (map (entry_of A) qs) = box_line A b P"
proof -
  have "inj_on (\<lambda>x. phy_key (ni_phy x)) (entry_of A ` on_line A b P)"
    using boxD(5) [OF assms(1)] phy_key_inj by (auto simp: inj_on_def entry_of_def on_line_def)
  then show ?thesis unfolding qsort_by_key [OF sort_nodeinfo_key] box_line_def
    using assms(2,3) inj_entry by (intro sort_key_set) (simp_all add: distinct_map)
qed

lemma crd_sel: "crd A s 1 = unat (lx (v_xyz (vname_of A s)))" "crd A s 2 = unat (ly (v_xyz (vname_of A s)))" "crd A s 3 = unat (lz (v_xyz (vname_of A s)))"
  by (simp_all add: crd_def log_at_def)

lemma kind_axis:
  assumes "\<not> (\<forall>b \<in> {1, 2, 3}. crd A P b = crd A Q b)"
  shows "b \<in> {1, 2, 3} \<Longrightarrow> axis_pos (COMPARE_LOGADDR_kind (v_xyz (vname_of A P)) (v_xyz (vname_of A Q))) = Some b \<longleftrightarrow> same_line [1, 2, 3] (crd A) b P Q"
    "axis_pos (COMPARE_LOGADDR_kind (v_xyz (vname_of A P)) (v_xyz (vname_of A Q))) \<noteq> Some 0"
proof -
  have d: "\<not> (crd A P 1 = crd A Q 1 \<and> crd A P 2 = crd A Q 2 \<and> crd A P 3 = crd A Q 3)" using assms by simp
  have k: "COMPARE_LOGADDR_kind (v_xyz (vname_of A P)) (v_xyz (vname_of A Q)) = (if crd A P 3 = crd A Q 3 then if crd A P 2 = crd A Q 2 then
      if crd A P 1 = crd A Q 1 then UTF_BG_ALLOC_AXIS_IN_NODE else UTF_BG_ALLOC_AXIS_ON_X
      else if crd A P 1 = crd A Q 1 then UTF_BG_ALLOC_AXIS_ON_Y else UTF_BG_ALLOC_AXIS_OFF_AXES
      else if crd A P 2 = crd A Q 2 \<and> crd A P 1 = crd A Q 1 then UTF_BG_ALLOC_AXIS_ON_Z else UTF_BG_ALLOC_AXIS_OFF_AXES)"
    unfolding COMPARE_LOGADDR_kind_def crd_sel word_unat_eq_iff ..
  show "axis_pos (COMPARE_LOGADDR_kind (v_xyz (vname_of A P)) (v_xyz (vname_of A Q))) = Some b \<longleftrightarrow> same_line [1, 2, 3] (crd A) b P Q" if "b \<in> {1, 2, 3}"
    using that d unfolding k same_line_def by (auto simp: axis_pos_def)
  show "axis_pos (COMPARE_LOGADDR_kind (v_xyz (vname_of A P)) (v_xyz (vname_of A Q))) \<noteq> Some 0" using d unfolding k by (auto simp: axis_pos_def)
qed

lemma entered_line:
  assumes "box A lo sz" "aa_my_index A < size_of A" "Q \<in> set (others A)"
  shows "b \<in> {1, 2, 3} \<Longrightarrow> entered b (proc_of A Q) \<longleftrightarrow> Q \<in> on_line A b (aa_my_index A)" "\<not> entered 0 (proc_of A Q)"
proof -
  let ?P = "aa_my_index A"
  have q: "Q < size_of A" "Q \<noteq> ?P" using assms(3) by (auto simp: others_def)
  then have d: "\<not> (\<forall>b \<in> {1, 2, 3}. crd A ?P b = crd A Q b)" using boxD(3) [OF assms(1,2) q(1)] by blast
  have e: "entered b (proc_of A Q) \<longleftrightarrow> axis_pos (COMPARE_LOGADDR_kind (v_xyz (vname_of A ?P)) (v_xyz (vname_of A Q))) = Some b" for b
    using q(2) by (auto simp: proc_of_def node_of_def target_axes_def COMPARE_LOGADDR_kind_def split: option.split)
  show "b \<in> {1, 2, 3} \<Longrightarrow> entered b (proc_of A Q) \<longleftrightarrow> Q \<in> on_line A b ?P" unfolding e using kind_axis(1) [OF d] q(1) by (simp add: on_line_def)
  show "\<not> entered 0 (proc_of A Q)" unfolding e using kind_axis(2) [OF d] by simp
qed

lemma entered_own: "b < NUM_AXES \<Longrightarrow> entered b (proc_of A (aa_my_index A))"
  by (simp add: proc_of_def target_axes_def)

text \<open>The entries of an axis before they are sorted.\<close>

definition raw_line :: "axes_arg \<Rightarrow> nat \<Rightarrow> nat list" where
  "raw_line A b = aa_my_index A # filter (\<lambda>Q. b \<noteq> 0 \<and> Q \<in> on_line A b (aa_my_index A)) (others A)"

lemma axis_cases: "b < NUM_AXES \<Longrightarrow> b = 0 \<or> b \<noteq> 0 \<and> b \<in> {1, 2, 3}"
  by (auto simp: NUM_AXES_def)

lemma entered_filter:
  assumes "box A lo sz" "aa_my_index A < size_of A" "b < NUM_AXES"
  shows "map (set_axis_node_info A) (filter (entered b) (proc_of A (aa_my_index A) # map (proc_of A) (others A))) = map (entry_of A) (raw_line A b)"
proof -
  have "filter (\<lambda>Q. entered b (proc_of A Q)) (others A) = filter (\<lambda>Q. b \<noteq> 0 \<and> Q \<in> on_line A b (aa_my_index A)) (others A)"
  proof (rule filter_cong [OF refl])
    show "entered b (proc_of A Q) \<longleftrightarrow> b \<noteq> 0 \<and> Q \<in> on_line A b (aa_my_index A)" if "Q \<in> set (others A)" for Q
      using entered_line(1) [OF assms(1,2) that] entered_line(2) [OF assms(1,2) that] axis_cases [OF assms(3)] by metis
  qed
  then show ?thesis using entered_own [OF assms(3), of A] by (simp add: raw_line_def filter_map comp_def set_entry)
qed

lemma raw_line_props:
  assumes "box A lo sz" "aa_my_index A < size_of A"
  shows "distinct (raw_line A b)" "b \<in> {1, 2, 3} \<Longrightarrow> set (raw_line A b) = on_line A b (aa_my_index A)" "raw_line A 0 = [aa_my_index A]"
    "b \<in> {1, 2, 3} \<Longrightarrow> length (raw_line A b) = sz b"
proof -
  show d: "distinct (raw_line A b)" for b by (simp add: raw_line_def others_def)
  show s: "set (raw_line A b) = on_line A b (aa_my_index A)" if "b \<in> {1, 2, 3}" for b
    using that line_self [OF assms(2), of b] assms(2) by (auto simp: raw_line_def others_def on_line_def)
  show "raw_line A 0 = [aa_my_index A]" by (simp add: raw_line_def)
  show "length (raw_line A b) = sz b" if "b \<in> {1, 2, 3}" using distinct_card [OF d, of b] s [OF that] card_line [OF assms that] by simp
qed

section \<open>The own position\<close>

lemma find_index_nth: "distinct (map ni_index xs) \<Longrightarrow> i < length xs \<Longrightarrow> find_index (ni_index (xs ! i)) xs = Some i"
proof (induction xs arbitrary: i)
  case (Cons x xs)
  show ?case
  proof (cases i)
    case (Suc j)
    then have "ni_index (xs ! j) \<in> ni_index ` set xs" using Cons.prems(2) by simp
    then have "ni_index x \<noteq> ni_index (xs ! j)" using Cons.prems(1) by auto
    then show ?thesis using Cons Suc by simp
  qed simp
qed simp

definition box_pos :: "axes_arg \<Rightarrow> nat \<Rightarrow> nat \<Rightarrow> nat" where
  "box_pos A P b = the (find_index P (box_line A b P))"

definition box_peer :: "axes_arg \<Rightarrow> nat \<Rightarrow> nat \<Rightarrow> nat \<Rightarrow> nat" where
  "box_peer A P b i = ni_index (box_line A b P ! i)"

lemma box_line_nth:
  assumes "Q \<in> on_line A b P"
  obtains i where "i < length (box_line A b P)" "box_line A b P ! i = entry_of A Q"
proof -
  have "entry_of A Q \<in> set (box_line A b P)" using assms by simp
  then show thesis unfolding in_set_conv_nth using that by blast
qed

lemma box_line_find:
  assumes "Q \<in> on_line A b P"
  obtains i where "i < length (box_line A b P)" "find_index Q (box_line A b P) = Some i" "box_peer A P b i = Q"
proof -
  obtain i where i: "i < length (box_line A b P)" "box_line A b P ! i = entry_of A Q" by (rule box_line_nth [OF assms])
  then have "find_index Q (box_line A b P) = Some i" using find_index_nth [OF box_line_distinct i(1)] by (simp add: entry_of_def)
  then show thesis using that i by (simp add: box_peer_def entry_of_def)
qed

lemma finish_axes_all:
  assumes "\<And>b. b \<in> set bs \<Longrightarrow> b < length axes \<and> finish_axis A b (axes ! b) = ret (F b)" "distinct bs"
  shows "\<exists>axes'. finish_axes A bs axes = ret axes' \<and> length axes' = length axes \<and> (\<forall>b < length axes. axes' ! b = (if b \<in> set bs then F b else axes ! b))"
  using assms
proof (induction bs arbitrary: axes)
  case (Cons b bs)
  let ?a = "axes[b := F b]"
  have b: "b < length axes" "finish_axis A b (axes ! b) = ret (F b)" using Cons.prems(1) [of b] by simp_all
  have "c < length ?a \<and> finish_axis A c (?a ! c) = ret (F c)" if "c \<in> set bs" for c
  proof -
    have "c \<noteq> b" using Cons.prems(2) that by auto
    then show ?thesis using Cons.prems(1) [of c] that by simp
  qed
  then have "\<exists>axes'. finish_axes A bs ?a = ret axes' \<and> length axes' = length ?a \<and> (\<forall>c < length ?a. axes' ! c = (if c \<in> set bs then F c else ?a ! c))"
    using Cons.prems(2) by (intro Cons.IH) simp_all
  then obtain axes' where a: "finish_axes A bs ?a = ret axes'" "length axes' = length axes"
      "\<And>c. c < length axes \<Longrightarrow> axes' ! c = (if c \<in> set bs then F c else ?a ! c)" by auto
  have "axes' ! c = (if c \<in> set (b # bs) then F c else axes ! c)" if "c < length axes" for c
    using a(3) [OF that] b(1) by (cases "c = b") auto
  then show ?case using a(1,2) b by simp
qed auto

text \<open>The axes that the call returns.\<close>

definition box_axes :: "axes_arg \<Rightarrow> (nat \<Rightarrow> nat) \<Rightarrow> axis_info list \<Rightarrow> bool" where
  "box_axes A sz axes \<longleftrightarrow> length axes = NUM_AXES \<and> ax_size (axes ! 0) = 1 \<and> (\<forall>b \<in> {1, 2, 3}. ax_size (axes ! b) = sz b
     \<and> nodeinfo (axes ! b) = box_line A b (aa_my_index A) \<and> nodeinfo_index (axes ! b) = box_pos A (aa_my_index A) b)"

lemma make_lines_box:
  assumes "box A lo sz" "aa_my_index A < size_of A" "\<And>m. aa_malloc A m"
    and "length axes = NUM_AXES" "\<And>b. b < NUM_AXES \<Longrightarrow> nodeinfo (axes ! b) = []" "ax_size (axes ! 0) = 1" "\<And>b. b \<in> {1, 2, 3} \<Longrightarrow> ax_size (axes ! b) = sz b"
  shows "\<exists>axes'. make_lines A (size_of A) (proc_of A (aa_my_index A) # map (proc_of A) (others A)) axes = ret (Inr axes') \<and> box_axes A sz axes'"
proof -
  let ?P = "aa_my_index A" and ?ps = "proc_of A (aa_my_index A) # map (proc_of A) (others A)"
  have hx: "is_hexa (size_of A) axes" using assms(1,7) by (simp add: is_hexa_def box_def)
  note ef = entered_filter [OF assms(1,2)] and rl = raw_line_props [OF assms(1,2)]
  have sz: "length (raw_line A b) = ax_size (axes ! b)" if "b < NUM_AXES" for b
  proof (cases "b = 0")
    case True
    then show ?thesis using rl(3) assms(6) by simp
  next
    case False
    then have "b \<in> {1, 2, 3}" using axis_cases [OF that] by simp
    then show ?thesis using rl(4) [of b] assms(7) [of b] by simp
  qed
  have "\<exists>a1. fill_axes A True NUM_AXES ?ps axes = ret a1 \<and> length a1 = NUM_AXES
      \<and> (\<forall>b < NUM_AXES. a1 ! b = (axes ! b)\<lparr>nodeinfo := nodeinfo (axes ! b) @ map (set_axis_node_info A) (filter (entered b) ?ps)\<rparr>)"
  proof (rule fill_axes_all [OF assms(4)])
    show "length (nodeinfo (axes ! b)) + length (filter (entered b) ?ps) \<le> ax_size (axes ! b)" if "b < NUM_AXES" for b
      using arg_cong [OF ef [OF that], of length] sz [OF that] assms(5) [OF that] by simp
  qed
  then obtain a1 where a1: "fill_axes A True NUM_AXES ?ps axes = ret a1" "length a1 = NUM_AXES"
      "\<And>b. b < NUM_AXES \<Longrightarrow> a1 ! b = (axes ! b)\<lparr>nodeinfo := map (entry_of A) (raw_line A b)\<rparr>" using ef assms(5) by auto
  define F where "F b = (if b = 0 then (a1 ! 0)\<lparr>nodeinfo := [entry_of A ?P], nodeinfo_index := 0\<rparr>
    else (a1 ! b)\<lparr>nodeinfo := box_line A b ?P, nodeinfo_index := box_pos A ?P b\<rparr>)" for b
  have "finish_axis A b (a1 ! b) = ret (F b)" if b: "b < NUM_AXES" for b
  proof -
    have l: "\<not> length (nodeinfo (a1 ! b)) < ax_size (a1 ! b)" using a1(3) [OF b] sz [OF b] by simp
    show ?thesis
    proof (cases "b = 0")
      case True
      then show ?thesis using l a1(3) [OF b] rl(3) by (simp add: finish_axis_def F_def entry_of_def)
    next
      case False
      then have b3: "b \<in> {1, 2, 3}" using axis_cases [OF b] by simp
      have q: "qsort_by sort_nodeinfo_by_phy_6d_addr (nodeinfo (a1 ! b)) = box_line A b ?P"
        using a1(3) [OF b] box_line_any [OF assms(1) rl(1) rl(2) [OF b3]] by simp
      obtain i where "find_index ?P (box_line A b ?P) = Some i" by (rule box_line_find [OF line_self [OF assms(2), of b]])
      then show ?thesis using l q False by (simp add: finish_axis_def F_def box_pos_def)
    qed
  qed
  then have "\<exists>a2. finish_axes A [0..<NUM_AXES] a1 = ret a2 \<and> length a2 = length a1 \<and> (\<forall>b < length a1. a2 ! b = (if b \<in> set [0..<NUM_AXES] then F b else a1 ! b))"
    using a1(2) by (intro finish_axes_all) auto
  then obtain a2 where a2: "finish_axes A [0..<NUM_AXES] a1 = ret a2" "length a2 = NUM_AXES" "\<And>b. b < NUM_AXES \<Longrightarrow> a2 ! b = F b" using a1(2) by auto
  have "box_axes A sz a2" unfolding box_axes_def using a2(2,3) a1(3) assms(6,7) by (auto simp: F_def NUM_AXES_def)
  moreover have "make_lines A (size_of A) ?ps axes = ret (Inr a2)" using hx assms(3) a1(1) a2(1) by (simp add: make_lines_def)
  ultimately show ?thesis by blast
qed

section \<open>The call\<close>

definition box_world :: "axes_arg \<Rightarrow> nat option list option \<Rightarrow> nat option list option" where
  "box_world A world = (if aa_first_call A then Some ((replicate UTF_BG_MAX_PROC_IN_NODE None)[0 := Some (unat (aa_rankset A ! aa_my_index A))]) else world)"

lemma sizes_box:
  assumes "box A lo sz" "aa_my_index A < size_of A" "in_size it = 1"
    and "axes = axes_sizes it (sc_axes (scanned A w (size_of A)))"
  shows "length axes = NUM_AXES" "b < NUM_AXES \<Longrightarrow> nodeinfo (axes ! b) = []" "ax_size (axes ! 0) = 1" "b \<in> {1, 2, 3} \<Longrightarrow> ax_size (axes ! b) = sz b"
proof -
  let ?P = "aa_my_index A" and ?c = "\<lambda>b s. log_at (v_xyz (vname_of A s)) (b - 1)"
  define X where "X b = fold COMPARE_LOGADDR_axis (map (?c b) [0..<size_of A]) (zero_axis\<lparr>ax_biggest := ?c b ?P, ax_smallest := ?c b ?P\<rparr>)" for b
  have x: "nodeinfo (X b) = [] \<and> unat (ax_biggest (X b) - ax_smallest (X b) + 1) = sz b" if b: "b \<in> {1, 2, 3}" for b
  proof -
    obtain l h where "X b = zero_axis\<lparr>ax_biggest := h, ax_smallest := l\<rparr>" "unat (h - l + 1) = sz b" unfolding X_def by (rule box_extent [OF assms(1,2) b])
    then show ?thesis by (simp add: zero_axis_def)
  qed
  have st: "start_axes A = [zero_axis, zero_axis\<lparr>ax_biggest := ?c 1 ?P, ax_smallest := ?c 1 ?P\<rparr>,
      zero_axis\<lparr>ax_biggest := ?c 2 ?P, ax_smallest := ?c 2 ?P\<rparr>, zero_axis\<lparr>ax_biggest := ?c 3 ?P, ax_smallest := ?c 3 ?P\<rparr>]"
    by (simp add: start_axes_def Let_def)
  have "sc_axes (scanned A w (size_of A)) = [zero_axis, X 1, X 2, X 3]"
    unfolding scanned_def st compare_axes_fold X_def by (simp add: comp_def log_at_def cong: map_cong)
  then have ax: "axes = [zero_axis\<lparr>ax_size := 1\<rparr>, (X 1)\<lparr>ax_size := sz 1\<rparr>, (X 2)\<lparr>ax_size := sz 2\<rparr>, (X 3)\<lparr>ax_size := sz 3\<rparr>]"
    using assms(3,4) x [of 1] x [of 2] x [of 3] by (simp add: axes_sizes_def)
  show "length axes = NUM_AXES" "ax_size (axes ! 0) = 1" unfolding ax by (simp_all add: NUM_AXES_def)
  show "ax_size (axes ! b) = sz b" if "b \<in> {1, 2, 3}" using that unfolding ax by auto
  have "nodeinfo (axes ! 0) = []" "nodeinfo (axes ! 1) = []" "nodeinfo (axes ! 2) = []" "nodeinfo (axes ! 3) = []"
    unfolding ax using x [of 1] x [of 2] x [of 3] by (simp_all add: zero_axis_def)
  then show "nodeinfo (axes ! b) = []" if "b < NUM_AXES" using axis_cases [OF that] by auto
qed

lemma make_axes_box:
  assumes "box A lo sz" "aa_my_index A < size_of A" "aa_ppn_job A = 1" "\<And>m. aa_malloc A m" "aa_is_tofu A \<or> 4 \<le> size_of A"
  obtains axes where "make_axes_and_intra_node_infos A world = ret \<lparr>ar_rc = G_SUCCESS, ar_intra = Some (box_intra A), ar_axes = axes, ar_errcase = 0, ar_world = box_world A world\<rparr>"
    "box_axes A sz axes"
proof -
  let ?P = "aa_my_index A" and ?n = "size_of A" and ?ps = "proc_of A (aa_my_index A) # map (proc_of A) (others A)"
  let ?w = "if aa_first_call A then Some (replicate UTF_BG_MAX_PROC_IN_NODE None) else world"
  define st where "st = scanned A ?w ?n"
  let ?axes = "axes_sizes (box_intra A) (sc_axes st)"
  have n: "sc_nodes st ! sc_my_node st = node_of A ?P" "length (sc_nodes st) = ?n" "sc_toomany st = False" "sc_world st = box_world A world"
    using assms(2) by (simp_all add: st_def scanned_def box_world_def)
  have n1: "nd_size (node_of A ?P) = 1" by (simp add: node_of_def)
  have it0: "\<lparr>in_manager = True, in_size = 1, in_intra_index = 0, in_vpids = replicate 1 None, in_curr_seq = 0, in_mmap_buf = None\<rparr> = (box_intra A)\<lparr>in_vpids := [None]\<rparr>"
    by (simp add: box_intra_def)
  have own: "own_loop A st [0..<1] ((box_intra A)\<lparr>in_vpids := [None]\<rparr>, []) = ret (box_intra A, [proc_of A ?P])"
    using own_loop_one [OF assms(2) st_def refl] by simp
  have oth: "other_loop A st [0..<?n] [proc_of A ?P] = ret (False, ?ps)"
    using other_loop_all [OF assms(2) st_def, of 0 "[proc_of A ?P]"] length_others [OF assms(2)] by (simp add: others_def)
  note sz = sizes_box [OF assms(1,2), of "box_intra A" ?axes ?w]
  have is1: "in_size (box_intra A) = 1" "in_manager (box_intra A)" by (simp_all add: box_intra_def)
  obtain axes where ax: "make_lines A ?n ?ps ?axes = ret (Inr axes)" "box_axes A sz axes"
    using make_lines_box [OF assms(1,2,4) sz [OF is1(1)]] st_def by auto
  have se: "shape_error A False ?n False = (G_SUCCESS, 0)" using assms(5) by (auto simp: shape_error_def UTF_BG_ALLOC_REQUIRED_NODE_def)
  have sc: "axes_of_scan A st = ret \<lparr>ar_rc = G_SUCCESS, ar_intra = Some (box_intra A), ar_axes = axes, ar_errcase = 0, ar_world = box_world A world\<rparr>"
    unfolding axes_of_scan_def n n1 it0 Let_def using assms(4) own oth se ax(1) is1(2) by simp
  have s0: "\<lparr>sc_nodes = [], sc_my_node = 0, sc_my_indexes = replicate (aa_ppn_job A) None, sc_world = ?w, sc_axes = start_axes A, sc_toomany = False\<rparr> = scanned A ?w 0"
    by (simp add: scanned_def assms(3))
  have lp: "scan_loop A ?n 0 [0..<?n] (scanned A ?w 0) = ret (G_SUCCESS, st)" unfolding st_def by (rule scan_loop_new [OF assms(1-3) le0])
  have ck: "check_ppn_make_nodenum_make_target_index A = Inr (?n, 0)" using assms(3) by (simp add: check_ppn_make_nodenum_make_target_index_def size_of_def)
  have "make_axes_and_intra_node_infos A world = axes_of_scan A st"
    unfolding make_axes_and_intra_node_infos_def Let_def ck s0 size_of_def [symmetric] using assms(4) lp by simp
  then show thesis using that ax(2) sc by simp
qed

section \<open>The grid\<close>

definition box_grid :: "axes_arg \<Rightarrow> (nat \<Rightarrow> nat) \<Rightarrow> net_grid" where
  "box_grid A sz = \<lparr>gprocs = {..<size_of A}, gax = (\<lambda>b. axis_params False (zero_axis\<lparr>ax_size := sz b\<rparr>)), gbs = filter (\<lambda>b. 1 < sz b) [1, 2, 3],
     gcrd = crd A, gpos = box_pos A, gpeer = box_peer A, gphy = phy A\<rparr>"

lemma in_box_bs: "b \<in> set (filter (\<lambda>b. 1 < sz b) [1, 2, 3]) \<longleftrightarrow> b \<in> {1, 2, 3} \<and> 1 < sz b"
  unfolding set_filter by auto

lemma same_line_box:
  assumes "box A lo sz" "P < size_of A" "Q < size_of A"
  shows "same_line (filter (\<lambda>b. 1 < sz b) [1, 2, 3]) (crd A) b P Q \<longleftrightarrow> same_line [1, 2, 3] (crd A) b P Q"
proof -
  have "crd A Q b' = crd A P b'" if "b' \<in> {1, 2, 3}" "\<not> 1 < sz b'" for b'
    using boxD(1) [OF assms(1,2) that(1)] boxD(1) [OF assms(1,3) that(1)] that(2) by simp
  then show ?thesis unfolding same_line_def by auto
qed

lemma box_line_same: "P < size_of A \<Longrightarrow> Q \<in> on_line A b P \<Longrightarrow> box_line A b Q = box_line A b P"
  using on_line_sym by (simp add: box_line_def)

lemma box_grid_wf:
  assumes "box A lo sz" "1 < size_of A"
  shows "wf_grid (box_grid A sz)"
proof -
  let ?bs = "filter (\<lambda>b. 1 < sz b) [1, 2, 3]" and ?ax = "\<lambda>b. axis_params False (zero_axis\<lparr>ax_size := sz b\<rparr>)" and ?n = "{..<size_of A}"
  have b3: "b \<in> {1, 2, 3}" "2 \<le> sz b" if "b \<in> set ?bs" for b using that unfolding in_box_bs by simp_all
  have ax: "axis_set (?ax b)" "ax_size (?ax b) = sz b" if "b \<in> set ?bs" for b
    using axis_params_set [of "zero_axis\<lparr>ax_size := sz b\<rparr>" False] b3(2) [OF that] by simp_all
  note len = box_line_length [OF assms(1)] and ol = box_line_find [where A = A]
  have ps: "box_pos A P b < sz b \<and> box_peer A P b (box_pos A P b) = P" if "P < size_of A" "b \<in> {1, 2, 3}" for P b
    by (rule ol [OF line_self [OF that(1), of b]]) (use len [OF that] in \<open>simp add: box_pos_def\<close>)
  have pe: "box_peer A P b i \<in> on_line A b P \<and> box_pos A (box_peer A P b i) b = i" if P: "P < size_of A" "b \<in> {1, 2, 3}" "i < sz b" for P b i
  proof -
    have l: "i < length (box_line A b P)" using len [OF P(1,2)] P(3) by simp
    have "box_line A b P ! i \<in> entry_of A ` on_line A b P" using nth_mem [OF l] by simp
    then have q: "box_peer A P b i \<in> on_line A b P" by (auto simp: box_peer_def entry_of_def)
    then show ?thesis using find_index_nth [OF box_line_distinct l] box_line_same [OF P(1) q] by (simp add: box_pos_def box_peer_def)
  qed
  have pq: "box_peer A P b (box_pos A Q b) = Q" if "P < size_of A" "b \<in> {1, 2, 3}" "Q \<in> on_line A b P" for P Q b
  proof -
    have "Q < size_of A" using that(3) by (simp add: on_line_def)
    then show ?thesis using ps [of Q b] that box_line_same [OF that(1,3)] by (simp add: box_peer_def)
  qed
  have "grid ?n ?ax ?bs (crd A) (box_pos A) (box_peer A)" unfolding grid_def
  proof (intro conjI ballI allI impI)
    fix P b assume P: "P \<in> ?n" and b: "b \<in> set ?bs"
    show "box_pos A P b < ax_size (?ax b)" using ps P b3(1) [OF b] ax(2) [OF b] by simp
    fix i assume "i < ax_size (?ax b)"
    then have "i < sz b" using ax(2) [OF b] by simp
    note p = pe [OF _ b3(1) [OF b] this, of P]
    show "box_peer A P b i \<in> ?n" "box_pos A (box_peer A P b i) b = i" using p P by (simp_all add: on_line_def)
    show "same_line ?bs (crd A) b P (box_peer A P b i)" using p P same_line_box [OF assms(1), of P "box_peer A P b i" b] by (simp add: on_line_def)
  next
    fix P Q b assume P: "P \<in> ?n" "Q \<in> ?n" and b: "b \<in> set ?bs" and s: "same_line ?bs (crd A) b P Q"
    then show "box_peer A P b (box_pos A Q b) = Q" using pq [of P b Q] b3(1) [OF b] same_line_box [OF assms(1), of P Q b] by (simp add: on_line_def)
  next
    fix P Q b assume P: "P \<in> ?n" "Q \<in> ?n" and b: "b \<in> set ?bs"
    have "crd A Q b \<in> (\<lambda>R. crd A R b) ` on_line A b P"
      using line_crd [OF assms(1) _ b3(1) [OF b], of P] boxD(1) [OF assms(1) _ b3(1) [OF b], of Q] P by (auto simp: bij_betw_def)
    then obtain R where R: "R \<in> on_line A b P" "crd A R b = crd A Q b" by auto
    then show "\<exists>R \<in> ?n. same_line ?bs (crd A) b P R \<and> crd A R b = crd A Q b"
      using same_line_box [OF assms(1), of P R b] P by (intro bexI [of _ R]) (simp_all add: on_line_def)
  next
    fix P Q assume P: "P \<in> ?n" "Q \<in> ?n" and e: "\<forall>b \<in> set ?bs. crd A P b = crd A Q b"
    show "P = Q"
    proof (rule boxD(3) [OF assms(1)])
      fix b :: nat assume b: "b \<in> {1, 2, 3}"
      show "crd A P b = crd A Q b"
        using e b boxD(1) [OF assms(1) _ b, of P] boxD(1) [OF assms(1) _ b, of Q] P by (cases "1 < sz b") auto
    qed (use P in simp_all)
  qed (use ax in simp_all)
  moreover have "?bs \<noteq> []"
  proof
    assume "?bs = []"
    then have "sz b \<le> 1" if "b \<in> {1, 2, 3}" for b using that in_box_bs [of b sz] by fastforce
    then have "sz 1 * sz 2 * sz 3 \<le> 1 * 1 * 1" by (intro mult_le_mono) simp_all
    then show False using assms by (simp add: box_def)
  qed
  ultimately show ?thesis by (simp add: wf_grid_def box_grid_def)
qed

lemma box_on_grid:
  assumes "box A lo sz" "aa_my_index A < size_of A" "box_axes A sz axes" "start \<le> 1"
  shows "on_grid start axes (aa_my_index A) (gax (box_grid A sz)) (gbs (box_grid A sz)) (gpos (box_grid A sz)) (gpeer (box_grid A sz)) (gphy (box_grid A sz))"
proof -
  let ?P = "aa_my_index A" and ?bs = "filter (\<lambda>b. 1 < sz b) [1, 2, 3]"
  have bx: "length axes = NUM_AXES" "ax_size (axes ! 0) = 1" "\<And>b. b \<in> {1, 2, 3} \<Longrightarrow> ax_size (axes ! b) = sz b
      \<and> nodeinfo (axes ! b) = box_line A b ?P \<and> nodeinfo_index (axes ! b) = box_pos A ?P b" using assms(3) by (auto simp: box_axes_def)
  have "[0..<NUM_AXES] = [0, 1, 2, 3]" "[1..<NUM_AXES] = [1, 2, 3]" by (simp_all add: NUM_AXES_def upt_rec)
  then have fl: "filter (\<lambda>i. 1 < ax_size (axes ! i)) [start..<NUM_AXES] = ?bs"
    using assms(4) bx(2) bx(3) [of 1] bx(3) [of 2] bx(3) [of 3] by (cases "start = 0") (auto simp: le_Suc_eq)
  have "ni_index (box_line A b ?P ! i) = box_peer A ?P b i \<and> ni_phy (box_line A b ?P ! i) = phy A (box_peer A ?P b i)"
    if "b \<in> {1, 2, 3}" "i < sz b" for b i
  proof -
    have "box_line A b ?P ! i \<in> entry_of A ` on_line A b ?P"
      using nth_mem [of i "box_line A b ?P"] box_line_length [OF assms(1,2) that(1)] that(2) by simp
    then show ?thesis by (auto simp: box_peer_def entry_of_def)
  qed
  moreover have "ax_size (axis_params False (zero_axis\<lparr>ax_size := sz b\<rparr>)) = sz b" if "b \<in> set ?bs" for b
    using axis_params_set [of "zero_axis\<lparr>ax_size := sz b\<rparr>" False] that unfolding in_box_bs by simp
  ultimately show ?thesis unfolding on_grid_def box_grid_def using bx fl by auto
qed

end
