(* ===== verification/Vbg_Group_Props.thy ===== *)
theory Vbg_Group_Props
  imports Vbg_Box
begin

text \<open>
  The calls of a group from beginning to end: \<open>utf_bg_alloc\<close> in all processes, the exchange of the words, \<open>utf_bg_init\<close>
  in all processes, and \<open>utf_bg_free\<close>; what they return when something is missing.
\<close>

unbundle bit_operations_syntax

section \<open>The first group of a job\<close>

text \<open>A process at its first call, with an environment in which the calls it makes succeed.\<close>

definition fresh_process :: "'w bgapi \<Rightarrow> 'w bg_state \<Rightarrow> bool" where
  "fresh_process api s \<longleftrightarrow> b_first_call s \<and> 1 \<le> b_max_hb s \<and> (\<forall>x. g_getenv api x = None) \<and> (\<forall>m. g_malloc api m) \<and> (\<forall>k. g_shm_init api k)
     \<and> (\<forall>xs w. fst (g_set_vbg api xs w) = G_SUCCESS) \<and> g_memalign api = 0"

definition alloc_call :: "nat \<Rightarrow> u32 list \<Rightarrow> nat \<Rightarrow> comm_type \<Rightarrow> u64 list \<Rightarrow> nat \<Rightarrow> alloc_arg" where
  "alloc_call p ranks n comm bg P = \<lparr>al_rankset = Some (p, ranks), al_len = n, al_my_index = P, al_max_ppn = 1, al_comm = comm, al_bginfo = Some bg\<rparr>"

definition init_call :: "nat \<Rightarrow> u32 list \<Rightarrow> nat \<Rightarrow> u64 list \<Rightarrow> nat \<Rightarrow> init_arg" where
  "init_call p ranks n bg P = \<lparr>il_rankset = Some (p, ranks), il_len = n, il_my_index = P, il_bginfo = Some bg, il_group = Some None\<rparr>"

text \<open>What the axes of process \<open>P\<close> are made from.\<close>

definition axes_call :: "(nat \<Rightarrow> tofu_vname) \<Rightarrow> u32 list \<Rightarrow> nat \<Rightarrow> comm_type \<Rightarrow> 'w bgapi \<Rightarrow> 'w bg_state \<Rightarrow> nat \<Rightarrow> axes_arg" where
  "axes_call vname ranks n comm api s P = \<lparr>aa_vname = vname, aa_rankset = take n ranks, aa_my_index = P, aa_ppn_job = 1, aa_first_call = True,
     aa_is_tofu = (comm = UTF_BG_TOFU), aa_max_hb = b_max_hb s, aa_malloc = g_malloc api\<rparr>"

text \<open>The table of the group alone.\<close>

definition table :: "(nat \<Rightarrow> tofu_vname) \<Rightarrow> u32 list \<Rightarrow> nat \<Rightarrow> axes_arg" where
  "table vname ranks n = \<lparr>aa_vname = vname, aa_rankset = take n ranks, aa_my_index = 0, aa_ppn_job = 1, aa_first_call = True,
     aa_is_tofu = True, aa_max_hb = 1, aa_malloc = (\<lambda>_. True)\<rparr>"

lemma same_table:
  assumes "aa_vname A = aa_vname B" "aa_rankset A = aa_rankset B"
  shows "vname_of A = vname_of B" "size_of A = size_of B" "crd A = crd B" "phy A = phy B" "box A = box B" "box_grid A = box_grid B"
proof -
  show v: "vname_of A = vname_of B" and n: "size_of A = size_of B" using assms by (simp_all add: vname_of_def size_of_def fun_eq_iff)
  show c: "crd A = crd B" and p: "phy A = phy B" using v by (simp_all add: crd_def phy_def fun_eq_iff)
  show "box A = box B" by (simp add: box_def n c p fun_eq_iff)
  have e: "entry_of A = entry_of B" using v p by (simp add: entry_of_def fun_eq_iff)
  have l: "on_line A = on_line B" unfolding on_line_def n c ..
  have b: "box_line A = box_line B" unfolding fun_eq_iff box_line_def e l by simp
  then have "box_pos A = box_pos B" "box_peer A = box_peer B" by (simp_all add: box_pos_def box_peer_def fun_eq_iff)
  then show "box_grid A = box_grid B" using n c p by (simp add: box_grid_def fun_eq_iff)
qed

lemma table_call:
  "size_of (axes_call vname ranks n comm api s P) = size_of (table vname ranks n)"
  "box (axes_call vname ranks n comm api s P) = box (table vname ranks n)"
  "box_grid (axes_call vname ranks n comm api s P) = box_grid (table vname ranks n)"
  using same_table [of "axes_call vname ranks n comm api s P" "table vname ranks n"] by (simp_all add: axes_call_def table_def)

lemma size_table: "n \<le> length ranks \<Longrightarrow> size_of (table vname ranks n) = n"
  by (simp add: size_of_def table_def)

lemma first_setup:
  assumes "fresh_process api s"
  shows "first_call_setup api t s = (G_SUCCESS, s\<lparr>b_is_tofu := t, b_disable_shm := False, b_file_name := None, b_mm_size := 0, b_mm_width := 0, b_mm_fd := 0,
     b_mapped := False, b_first_failed := False\<rparr>)"
  using assms by (simp add: first_call_setup_def fresh_process_def)

lemma after_axes_first:
  assumes "fresh_process api s" "b_first_call s0" "\<not> b_disable_shm s0" "\<not> b_first_failed s0" "b_max_hb s0 = b_max_hb s" "4 \<le> al_len g" "al_max_ppn g = 1"
    and "ar = \<lparr>ar_rc = G_SUCCESS, ar_intra = Some it, ar_axes = axes, ar_errcase = 0, ar_world = w\<rparr>" "in_manager it" "b_detail s0 = Some a" "b_heap s0 a = Some d"
  shows "\<exists>s2. alloc_after_axes api vname rankset g bg ar s0 = build_network api vname rankset (al_len g) (al_my_index g) axes it bg s2
     \<and> b_detail s2 = Some a \<and> b_heap s2 a = Some (d\<lparr>d_intra := Some it\<rparr>) \<and> b_mapped s2 \<and> b_world s2 = b_world s0 \<and> b_first_call s2
     \<and> b_is_tofu s2 = b_is_tofu s0 \<and> b_net s2 = b_net s0 \<and> b_thread_safe s2 = b_thread_safe s0 \<and> \<not> b_disable_shm s2"
proof -
  have f: "\<And>k. g_shm_init api k" "1 \<le> b_max_hb s" using assms(1) by (simp_all add: fresh_process_def)
  define s1 where "s1 = mod_detail (\<lambda>d. d\<lparr>d_intra := Some it\<rparr>) s0"
  have s1: "b_detail s1 = Some a" "b_heap s1 a = Some (d\<lparr>d_intra := Some it\<rparr>)" "b_world s1 = b_world s0" "b_first_call s1" "b_is_tofu s1 = b_is_tofu s0"
      "b_net s1 = b_net s0" "b_thread_safe s1 = b_thread_safe s0" "\<not> b_disable_shm s1" "\<not> b_first_failed s1" "b_max_hb s1 = b_max_hb s"
    using assms by (simp_all add: s1_def mod_detail_def)
  obtain w k where m: "make_mmap_file api (vname (unat (rankset ! al_my_index g))) it s1 = (G_SUCCESS, s1\<lparr>b_mm_width := w, b_mm_size := k, b_mapped := True\<rparr>)"
    using f(1) s1(8) by (auto simp: make_mmap_file_def Let_def)
  let ?s2 = "s1\<lparr>b_mm_width := w, b_mm_size := k, b_mapped := True\<rparr>"
  have "\<not> int (b_max_hb ?s2) < al_max_ppn g" using s1(10) f(2) assms(7) by simp
  then have "alloc_after_axes api vname rankset g bg ar s0 = build_network api vname rankset (al_len g) (al_my_index g) axes it bg ?s2"
    unfolding alloc_after_axes_def assms(8) using m s1 assms(6,9) by (simp add: s1_def [symmetric])
  then show ?thesis using s1 by (intro exI [of _ ?s2]) simp
qed

lemma alloc_reaches_network:
  assumes "fresh_process api s" "box (table vname ranks n) lo sz" "P < n" "4 \<le> n" "n \<le> length ranks" "n \<le> length bg" "comm \<noteq> Other_comm"
  obtains axes s2 where
    "utf_bg_alloc api vname (alloc_call p ranks n comm bg P) s
       = bindO (build_network api vname (take n ranks) n P axes (box_intra (axes_call vname ranks n comm api s P)) bg s2) (\<lambda>(rc, bg', s'). ret (rc, Some bg', s'))"
    "box_axes (axes_call vname ranks n comm api s P) sz axes" "b_detail s2 = Some (b_fresh s)"
    "b_heap s2 (b_fresh s) = Some ((new_detail p (alloc_call p ranks n comm bg P))\<lparr>d_intra := Some (box_intra (axes_call vname ranks n comm api s P))\<rparr>)"
    "b_mapped s2" "b_world s2 \<noteq> None" "b_first_call s2" "b_is_tofu s2 \<longleftrightarrow> comm = UTF_BG_TOFU" "b_net s2 = b_net s" "b_thread_safe s2 = b_thread_safe s"
    "\<not> b_disable_shm s2"
proof -
  let ?A = "axes_call vname ranks n comm api s P" and ?g = "alloc_call p ranks n comm bg P"
  have f: "b_first_call s" "\<And>m. g_malloc api m" using assms(1) by (simp_all add: fresh_process_def)
  have n: "size_of ?A = n" "aa_my_index ?A = P" "aa_ppn_job ?A = 1" "aa_malloc ?A = g_malloc api"
    using size_table [OF assms(5)] by (simp_all add: table_call) (simp_all add: axes_call_def)
  obtain axes where ax: "make_axes_and_intra_node_infos ?A (b_world s) = ret \<lparr>ar_rc = G_SUCCESS, ar_intra = Some (box_intra ?A), ar_axes = axes, ar_errcase = 0, ar_world = box_world ?A (b_world s)\<rparr>"
      "box_axes ?A sz axes"
    by (rule make_axes_box [of ?A lo sz "b_world s"]) (use assms(2-4) n f(2) in \<open>simp_all add: table_call\<close>)
  have w: "box_world ?A (b_world s) \<noteq> None" by (simp add: box_world_def axes_call_def)
  have ck: "check_args ?g s = G_SUCCESS" using assms(3,4,7) f(1) by (simp add: check_args_def alloc_call_def UTF_BG_MAX_PROC_IN_NODE_def)
  define s0 where "s0 = s\<lparr>b_is_tofu := (comm = UTF_BG_TOFU), b_disable_shm := False, b_file_name := None, b_mm_size := 0, b_mm_width := 0, b_mm_fd := 0,
     b_mapped := False, b_first_failed := False, b_detail := Some (b_fresh s), b_fresh := b_fresh s + 1, b_heap := (b_heap s)(b_fresh s \<mapsto> new_detail p ?g),
     b_ppn_job := 1, b_world := box_world ?A (b_world s)\<rparr>"
  have al: "utf_bg_alloc api vname ?g s = bindO (alloc_after_axes api vname (take n ranks) ?g bg \<lparr>ar_rc = G_SUCCESS, ar_intra = Some (box_intra ?A), ar_axes = axes,
      ar_errcase = 0, ar_world = box_world ?A (b_world s)\<rparr> s0) (\<lambda>(rc, bg', s'). ret (rc, Some bg', s'))"
    unfolding utf_bg_alloc_def first_setup [OF assms(1)] s0_def using ck f assms(5,6) ax(1) by (simp add: Let_def alloc_call_def axes_call_def)
  have "\<exists>s2. alloc_after_axes api vname (take n ranks) ?g bg \<lparr>ar_rc = G_SUCCESS, ar_intra = Some (box_intra ?A), ar_axes = axes,
      ar_errcase = 0, ar_world = box_world ?A (b_world s)\<rparr> s0 = build_network api vname (take n ranks) (al_len ?g) (al_my_index ?g) axes (box_intra ?A) bg s2
     \<and> b_detail s2 = Some (b_fresh s) \<and> b_heap s2 (b_fresh s) = Some ((new_detail p ?g)\<lparr>d_intra := Some (box_intra ?A)\<rparr>) \<and> b_mapped s2
     \<and> b_world s2 = b_world s0 \<and> b_first_call s2 \<and> b_is_tofu s2 = b_is_tofu s0 \<and> b_net s2 = b_net s0 \<and> b_thread_safe s2 = b_thread_safe s0 \<and> \<not> b_disable_shm s2"
    by (rule after_axes_first [OF assms(1)]) (use f(1) assms(4) in \<open>simp_all add: s0_def alloc_call_def box_intra_def\<close>)
  then obtain s2 where "alloc_after_axes api vname (take n ranks) ?g bg \<lparr>ar_rc = G_SUCCESS, ar_intra = Some (box_intra ?A), ar_axes = axes,
      ar_errcase = 0, ar_world = box_world ?A (b_world s)\<rparr> s0 = build_network api vname (take n ranks) n P axes (box_intra ?A) bg s2"
     "b_detail s2 = Some (b_fresh s)" "b_heap s2 (b_fresh s) = Some ((new_detail p ?g)\<lparr>d_intra := Some (box_intra ?A)\<rparr>)" "b_mapped s2"
     "b_world s2 \<noteq> None" "b_first_call s2" "b_is_tofu s2 \<longleftrightarrow> comm = UTF_BG_TOFU" "b_net s2 = b_net s" "b_thread_safe s2 = b_thread_safe s" "\<not> b_disable_shm s2"
    using w by (auto simp: alloc_call_def s0_def)
  then show thesis using that ax(2) al by simp
qed

section \<open>Setting the gates\<close>

text \<open>The settings given to uTofu are \<open>S\<close>, and the group at address \<open>a\<close> can be freed, with its gates \<open>ids\<close>.\<close>

definition ready :: "'w bgapi \<Rightarrow> init_arg \<Rightarrow> nat \<Rightarrow> vbg_setting list \<Rightarrow> u64 list \<Rightarrow> 'w bg_state \<Rightarrow> bool" where
  "ready api g a S ids s \<longleftrightarrow> (\<exists>s2 s3. utf_bg_init api g s = ret (G_SUCCESS, Some (Some a), s2) \<and> b_net s2 = snd (g_set_vbg api S (b_net s))
     \<and> utf_bg_free api (Some a) s2 = ret (fst (g_free_vbg api ids (b_net s2)), s3) \<and> b_net s3 = snd (g_free_vbg api ids (b_net s2)) \<and> b_heap s3 a = None)"

lemma free_group:
  assumes "b_heap s a = Some d" "d_vbg_ids d = Some ids" "d_num_vbg d = length ids" "0 < length ids" "\<not> b_disable_shm s"
  shows "\<exists>s3. utf_bg_free api (Some a) s = ret (fst (g_free_vbg api ids (b_net s)), s3) \<and> b_net s3 = snd (g_free_vbg api ids (b_net s)) \<and> b_heap s3 a = None"
proof -
  obtain rc w where w: "g_free_vbg api ids (b_net s) = (rc, w)" by fastforce
  then have "free_gates api d s = (rc, s\<lparr>b_net := w\<rparr>)" using assms(2-4) by (simp add: free_gates_def)
  then show ?thesis using w assms(1,5) by (simp add: utf_bg_free_def free_first_def)
qed

lemma init_succeeds:
  assumes "fresh_process api s0" "b_detail s = Some a" "b_heap s a = Some d" "arg_rankset d = Some p" "arg_len d = n" "arg_my_index d = P" "d_intra d = Some it"
    and "in_size it = 1" "b_mapped s" "\<not> b_disable_shm s" "0 < n" "n \<le> length bg" "P < length ranks" "\<And>Q. Q < n \<Longrightarrow> bg ! Q AND UTF_BIT_BGINFO_DISABLE = 0"
    and "set_gates api bg it d s = (let (rc, w) = g_set_vbg api S (b_net s) in ret (rc, (mod_detail (\<lambda>d. d\<lparr>d_settings := Some S\<rparr>) s)\<lparr>b_net := w\<rparr>))"
    and "d_vbg_ids d = Some ids" "d_num_vbg d = length ids" "0 < length ids"
  shows "ready api (init_call p ranks n bg P) a S ids s"
proof -
  obtain w where w: "g_set_vbg api S (b_net s) = (G_SUCCESS, w)" using assms(1) unfolding fresh_process_def by (metis prod.collapse)
  define s2 where "s2 = (mod_detail (\<lambda>d. d\<lparr>d_settings := Some S\<rparr>) s)\<lparr>b_net := w\<rparr>"
  have sg: "set_gates api bg it d s = ret (G_SUCCESS, s2)" using assms(15) w by (simp add: s2_def)
  have s2: "b_net s2 = w" "b_detail s2 = Some a" "b_heap s2 a = Some (d\<lparr>d_settings := Some S\<rparr>)" "\<not> b_disable_shm s2"
    using assms(2,3,10) by (simp_all add: s2_def mod_detail_def)
  have wk: "worker_map api it s = (G_SUCCESS, s)" using assms(10) by (simp add: worker_map_def)
  have en: "\<not> (\<exists>w \<in> set (take n bg). w AND UTF_BIT_BGINFO_DISABLE \<noteq> 0)" using assms(12,14) by (auto simp: in_set_conv_nth)
  define s3 where "s3 = (if in_manager it then s2\<lparr>b_sh_next_tni := b_next_tni s2\<rparr> else s2)"
  have fb: "find_buffer r it s3 = ret (G_SUCCESS, s3)" for r using assms(8) by (simp add: find_buffer_def)
  obtain s5 where pb: "poll_buffers api s3 = (G_SUCCESS, s5)" "b_net s5 = b_net s3" "b_detail s5 = b_detail s3" "b_heap s5 = b_heap s3" "b_disable_shm s5 = b_disable_shm s3"
    using assms(1) by (cases "b_first_alloc s3 = b_detail s3") (auto simp: poll_buffers_def fresh_process_def)
  have "utf_bg_init api (init_call p ranks n bg P) s = ret (G_SUCCESS, Some (Some a), init_end s5)"
    using assms(2-7,9,11-13) wk en sg fb pb(1) by (simp add: utf_bg_init_def init_call_def s3_def [symmetric])
  moreover obtain d' where d': "b_heap (init_end s5) a = Some d'" "d_vbg_ids d' = d_vbg_ids d" "d_num_vbg d' = d_num_vbg d"
    using pb s2 by (simp add: init_end_def mod_detail_def s3_def)
  moreover have "b_net (init_end s5) = w" "\<not> b_disable_shm (init_end s5)" using pb s2 by (simp_all add: init_end_def mod_detail_def s3_def)
  ultimately show ?thesis unfolding ready_def using w free_group [OF d'(1), of ids api] assms(16-18) by auto
qed

section \<open>The whole group\<close>

lemma first_free_now:
  assumes "b_first_call s2" "in_intra_index it = 0" "g_alloc_vbg api 0 n f w = (G_SUCCESS, ids, w')"
  shows "first_free api f n (map (tni_at (start_tni it s2)) [0..<6]) (start_tni it s2) [] w = (G_SUCCESS, ids, 0, w')"
proof -
  have t: "start_tni it s2 = 0" using assms(1,2) by (simp add: start_tni_def)
  have "tni_at 0 0 = 0" by (simp add: tni_at_def)
  moreover have "[0..<6] = 0 # [1..<6]" by (simp add: upt_rec)
  ultimately show ?thesis unfolding t using assms(3) by simp
qed

definition member :: "(nat \<Rightarrow> tofu_vname) \<Rightarrow> u32 list \<Rightarrow> nat \<Rightarrow> (nat \<Rightarrow> nat) \<Rightarrow> 'w bgapi \<Rightarrow> 'w bg_state \<Rightarrow> u64 list \<Rightarrow> u64 list \<Rightarrow> nat \<Rightarrow> bool" where
  "member vname ranks n sz api s bg ids P \<longleftrightarrow> fresh_process api s \<and> n \<le> length bg \<and> vbg_law api (v_xyzabc (vname (unat (ranks ! P))))
     \<and> (\<exists>w. g_alloc_vbg api 0 (g_last (box_grid (table vname ranks n) sz) P) (b_thread_safe s) (b_net s) = (G_SUCCESS, ids, w))"

lemma group_connected:
  assumes "box (table vname ranks n) lo sz" "4 \<le> n" "n \<le> length ranks" "comm \<noteq> Other_comm" "\<And>P. P < n \<Longrightarrow> member vname ranks n sz (api P) (s P) (bg P) (ids P) P"
  shows "\<exists>bgout s1. (\<forall>P < n. utf_bg_alloc (api P) vname (alloc_call (p P) ranks n comm (bg P) P) (s P) = ret (G_SUCCESS, Some (bgout P), s1 P))
     \<and> (\<forall>bgin. (\<forall>P < n. length (bgin P) = n \<and> (\<forall>Q < n. bgin P ! Q = bgout Q ! P)) \<longrightarrow>
        (\<exists>S. wired_all (box_grid (table vname ranks n) sz) ids S \<and> (\<forall>P < n. ready (api P) (init_call (p P) ranks n (bgin P) P) (b_fresh (s P)) (S P) (ids P) (s1 P))))"
proof -
  let ?G = "box_grid (table vname ranks n) sz" and ?A = "\<lambda>P. axes_call vname ranks n comm (api P) (s P) P"
  let ?g = "\<lambda>P. alloc_call (p P) ranks n comm (bg P) P" and ?it = "\<lambda>P. box_intra (axes_call vname ranks n comm (api P) (s P) P)" and ?a = "\<lambda>P. b_fresh (s P)"
  have sz: "size_of (table vname ranks n) = n" by (rule size_table [OF assms(3)])
  have G: "wf_grid ?G" "gprocs ?G = {..<n}" "gphy ?G P = v_xyzabc (vname (unat (take n ranks ! P)))" for P
  proof -
    show "wf_grid ?G" by (rule box_grid_wf [OF assms(1)]) (use sz assms(2) in simp)
    show "gprocs ?G = {..<n}" unfolding box_grid_def sz by simp
    show "gphy ?G P = v_xyzabc (vname (unat (take n ranks ! P)))" unfolding box_grid_def phy_def vname_of_def by (simp add: table_def)
  qed
  define N where "N P axes s2 \<longleftrightarrow> utf_bg_alloc (api P) vname (?g P) (s P)
        = bindO (build_network (api P) vname (take n ranks) n P axes (?it P) (bg P) s2) (\<lambda>(rc, bg', s'). ret (rc, Some bg', s'))
     \<and> can_build ?G P (api P) axes (?it P) s2 (?a P) (ids P) 0 \<and> b_heap s2 (?a P) = Some ((new_detail (p P) (?g P))\<lparr>d_intra := Some (?it P)\<rparr>) \<and> \<not> b_disable_shm s2" for P axes s2
  have "\<exists>axes s2. N P axes s2" if P: "P < n" for P
  proof -
    note mb = assms(5) [OF P, unfolded member_def]
    obtain axes s2 where ax: "utf_bg_alloc (api P) vname (?g P) (s P)
          = bindO (build_network (api P) vname (take n ranks) n P axes (?it P) (bg P) s2) (\<lambda>(rc, bg', s'). ret (rc, Some bg', s'))"
        "box_axes (?A P) sz axes" "b_detail s2 = Some (?a P)" "b_heap s2 (?a P) = Some ((new_detail (p P) (?g P))\<lparr>d_intra := Some (?it P)\<rparr>)"
        "b_mapped s2" "b_world s2 \<noteq> None" "b_first_call s2" "b_is_tofu s2 \<longleftrightarrow> comm = UTF_BG_TOFU" "b_net s2 = b_net (s P)" "b_thread_safe s2 = b_thread_safe (s P)" "\<not> b_disable_shm s2"
      by (rule alloc_reaches_network [of "api P" "s P" vname ranks n lo sz P "bg P" comm "p P", OF conjunct1 [OF mb] assms(1) P assms(2,3)
            conjunct1 [OF conjunct2 [OF mb]] assms(4)])
    have my: "aa_my_index (?A P) = P" by (simp add: axes_call_def)
    have og: "on_grid (if b_is_tofu s2 then 0 else 1) axes P (gax ?G) (gbs ?G) (gpos ?G) (gpeer ?G) (gphy ?G)"
      using box_on_grid [of "?A P" lo sz axes "if b_is_tofu s2 then 0 else 1"] ax(2) assms(1) P sz by (simp add: table_call my)
    have ff: "\<exists>w. first_free (api P) (b_thread_safe s2) (g_last ?G P) (map (tni_at (start_tni (?it P) s2)) [0..<6]) (start_tni (?it P) s2) [] (b_net s2) = (G_SUCCESS, ids P, 0, w)"
      using mb first_free_now [OF ax(7), of "?it P" "api P" "g_last ?G P"] ax(9,10) by (auto simp: box_intra_def)
    have mal: "\<forall>m. g_malloc (api P) m" and man: "in_manager (?it P)" using mb by (auto simp: fresh_process_def box_intra_def)
    have vl: "vbg_law (api P) (gphy ?G P)" using mb P unfolding G(3) by simp
    have "can_build ?G P (api P) axes (?it P) s2 (?a P) (ids P) 0"
      unfolding can_build_def using og ff vl ax(3-6) mal man by blast
    then show ?thesis unfolding N_def using ax(1,4,11) by blast
  qed
  then obtain axes s2 where N: "\<And>P. P < n \<Longrightarrow> N P (axes P) (s2 P)" by metis
  have rk: "ranks_ok ?G vname (take n ranks) n" using assms(3) by (simp add: ranks_ok_def G(2,3))
  have ph: "wf_phys (gphy ?G P)" if "P < n" for P using boxD(4) [OF assms(1), of P] that sz by (simp add: box_grid_def)
  have mem: "wf_phys (gphy ?G P) \<and> n \<le> length (bg P) \<and> can_build ?G P (api P) (axes P) (?it P) (s2 P) (?a P) (ids P) 0" if "P \<in> gprocs ?G" for P
    using that ph N [of P] assms(5) [of P] by (simp add: G(2) N_def member_def)
  obtain bgout s' d where B: "\<And>P. P < n \<Longrightarrow> build_network (api P) vname (take n ranks) n P (axes P) (?it P) (bg P) (s2 P) = ret (G_SUCCESS, bgout P, s' P)
        \<and> b_heap (s' P) (?a P) = Some (d P) \<and> d_vbg_ids (d P) = Some (ids P) \<and> d_num_vbg (d P) = length (ids P) \<and> kept (?a P) (s2 P) (s' P) \<and> (\<forall>Q < n. bgout P ! Q AND UTF_BIT_BGINFO_DISABLE = 0)"
    and S: "\<And>bgin. \<forall>P < n. length (bgin P) = n \<and> (\<forall>Q < n. bgin P ! Q = bgout Q ! P) \<Longrightarrow> \<exists>S. wired_all ?G ids S \<and> (\<forall>P < n. set_gates (api P) (bgin P) (?it P) (d P) (s' P)
        = (let (rc, w) = g_set_vbg (api P) (S P) (b_net (s' P)) in ret (rc, (mod_detail (\<lambda>d. d\<lparr>d_settings := Some (S P)\<rparr>) (s' P))\<lparr>b_net := w\<rparr>)))"
    using group_wired [OF G(1) rk, of bg api axes ?it s2 ?a ids "\<lambda>_. 0", OF mem] unfolding G(2) lessThan_iff Ball_def by blast
  have al: "utf_bg_alloc (api P) vname (?g P) (s P) = ret (G_SUCCESS, Some (bgout P), s' P)" if "P < n" for P using N [OF that] B [OF that] by (simp add: N_def)
  have ini: "ready (api P) (init_call (p P) ranks n (bgin P) P) (?a P) (T P) (ids P) (s' P)"
    if ex: "\<forall>P < n. length (bgin P) = n \<and> (\<forall>Q < n. bgin P ! Q = bgout Q ! P)" and P: "P < n"
      and T: "set_gates (api P) (bgin P) (?it P) (d P) (s' P) = (let (rc, w) = g_set_vbg (api P) (T P) (b_net (s' P)) in
        ret (rc, (mod_detail (\<lambda>d. d\<lparr>d_settings := Some (T P)\<rparr>) (s' P))\<lparr>b_net := w\<rparr>))" for bgin T P
  proof -
    note n = N [OF P, unfolded N_def] and b = B [OF P]
    have k: "b_detail (s' P) = Some (?a P)" "b_mapped (s' P)" "\<not> b_disable_shm (s' P)" "arg_rankset (d P) = Some (p P)" "arg_len (d P) = n" "arg_my_index (d P) = P" "d_intra (d P) = Some (?it P)"
      using n b by (auto simp: kept_def can_build_def new_detail_def alloc_call_def)
    have en: "bgin P ! Q AND UTF_BIT_BGINFO_DISABLE = 0" if "Q < n" for Q using ex P that B [OF that] by simp
    have "own_ids ?G (ids P) 0 P" using can_build_own n by blast
    then have "0 < length (ids P)" using g_last_pos [OF G(1), of P] G(2) P by (simp add: own_ids_def)
    then show ?thesis
      using init_succeeds [of "api P" "s P" "s' P" "?a P" "d P" "p P" n P "?it P" "bgin P" ranks "T P" "ids P"] k b T ex P en assms(2,3) assms(5) [OF P]
      by (auto simp: member_def box_intra_def)
  qed
  show ?thesis
  proof (intro exI [of _ bgout] exI [of _ s'] conjI allI impI)
    show "\<exists>S. wired_all ?G ids S \<and> (\<forall>P < n. ready (api P) (init_call (p P) ranks n (bgin P) P) (?a P) (S P) (ids P) (s' P))"
      if ex: "\<forall>P < n. length (bgin P) = n \<and> (\<forall>Q < n. bgin P ! Q = bgout Q ! P)" for bgin
      using S [OF ex] ini [OF ex] by blast
  qed (rule al)
qed

section \<open>Four processes\<close>

text \<open>The instance for the witnesses: four processes on a square of nodes.\<close>

definition demo_vname :: "nat \<Rightarrow> tofu_vname" where
  "demo_vname r = \<lparr>v_xyzabc = \<lparr>px = [0, 1, 0, 1] ! r, py = [0, 0, 1, 1] ! r, pz = 0, pa = 0, pb = 0, pc = 0\<rparr>,
     v_xyz = \<lparr>lx = [0, 1, 0, 1] ! r, ly = [0, 0, 1, 1] ! r, lz = 0\<rparr>\<rparr>"

definition demo_gates :: "nat \<Rightarrow> u64 list" where
  "demo_gates P = map (\<lambda>i. [0, 0x100000000, 0x10000000000, 0x10100000000] ! P OR i) [0, 1, 2, 3]"

definition demo_side :: "nat \<Rightarrow> nat" where
  "demo_side b = (if b = 3 then 1 else 2)"

definition demo_api :: "nat \<Rightarrow> unit bgapi" where
  "demo_api P = \<lparr>g_alloc_vbg = (\<lambda>t n f w. if t = 0 \<and> n \<le> 4 then (G_SUCCESS, take n (demo_gates P), w) else (G_ERR_FULL, [], w)),
     g_set_vbg = (\<lambda>xs w. (G_SUCCESS, w)), g_free_vbg = (\<lambda>ids w. (G_SUCCESS, w)), g_malloc = (\<lambda>_. True), g_getenv = (\<lambda>_. None), g_pmix_nspace = None,
     g_pmix_finalize = True, g_shm_init = (\<lambda>_. True), g_open = (\<lambda>_. 3), g_write = int, g_mmap = (\<lambda>_. True), g_memalign = 0\<rparr>"

lemma less_four: "P < (4::nat) \<longleftrightarrow> P = 0 \<or> P = Suc 0 \<or> P = 2 \<or> P = 3" by auto

lemma demo_gates_eval: "demo_gates 0 = [0, 1, 2, 3]" "demo_gates (Suc 0) = [0x100000000, 0x100000001, 0x100000002, 0x100000003]"
   "demo_gates 2 = [0x10000000000, 0x10000000001, 0x10000000002, 0x10000000003]" "demo_gates 3 = [0x10100000000, 0x10100000001, 0x10100000002, 0x10100000003]"
  by (simp_all add: demo_gates_def)

lemma demo_gates_length: "length (demo_gates P) = 4"
  by (simp add: demo_gates_def)

lemma demo_nodeid: "GET_NODEID (v_xyzabc (demo_vname 0)) = 0" "GET_NODEID (v_xyzabc (demo_vname (Suc 0))) = 1" "GET_NODEID (v_xyzabc (demo_vname 2)) = 256"
    "GET_NODEID (v_xyzabc (demo_vname 3)) = 257"
  by (simp_all add: GET_NODEID_def demo_vname_def)

lemma demo_nodeid_inj: "P < 4 \<Longrightarrow> Q < 4 \<Longrightarrow> GET_NODEID (v_xyzabc (demo_vname P)) = GET_NODEID (v_xyzabc (demo_vname Q)) \<Longrightarrow> P = Q"
  unfolding less_four by (auto simp: demo_nodeid)

lemma demo_gates_wf: "P < 4 \<Longrightarrow> v \<in> set (demo_gates P) \<Longrightarrow> wf_vbg v \<and> GET_TNI_FROM_VBGID v = 0 \<and> GET_NODEID_FROM_VCQ v = GET_NODEID (v_xyzabc (demo_vname P))"
  unfolding less_four
  by (elim disjE) (auto simp: demo_gates_eval demo_nodeid wf_vbg_def GET_TNI_FROM_VBGID_def GET_NODEID_FROM_VCQ_def)

lemma demo_gates_apart:
  assumes "P < 4" "Q < 4" "i < 4" "j < 4" "demo_gates P ! i = demo_gates Q ! j"
  shows "P = Q \<and> i = j"
proof -
  note l = demo_gates_length
  have "demo_gates P ! i \<in> set (demo_gates P)" "demo_gates Q ! j \<in> set (demo_gates Q)" using l assms(1-4) by simp_all
  then have "GET_NODEID (v_xyzabc (demo_vname P)) = GET_NODEID (v_xyzabc (demo_vname Q))"
    using demo_gates_wf [OF assms(1), of "demo_gates P ! i"] demo_gates_wf [OF assms(2), of "demo_gates Q ! j"] assms(5) by simp
  then have pq: "P = Q" by (rule demo_nodeid_inj [OF assms(1,2)])
  have "distinct (demo_gates P)" using assms(1) unfolding less_four by (auto simp: demo_gates_eval)
  then show ?thesis using pq assms l by (simp add: nth_eq_iff_index_eq)
qed

lemma demo_crd:
  assumes "P < 4"
  shows "crd (table demo_vname [0, 1, 2, 3] 4) P (Suc 0) = P mod 2" "crd (table demo_vname [0, 1, 2, 3] 4) P 2 = P div 2" "crd (table demo_vname [0, 1, 2, 3] 4) P 3 = 0"
    "phy (table demo_vname [0, 1, 2, 3] 4) P = v_xyzabc (demo_vname P)"
  using assms unfolding less_four by (auto simp: table_def crd_def phy_def vname_of_def demo_vname_def log_at_def)

lemma demo_box: "box (table demo_vname [0, 1, 2, 3] 4) (\<lambda>_. 0) demo_side"
proof -
  have n: "size_of (table demo_vname [0, 1, 2, 3] 4) = 4" by (simp add: size_table)
  have p: "wf_phys (v_xyzabc (demo_vname P))" for P by (simp add: wf_phys_def demo_vname_def)
  have i: "P = Q" if "P < 4" "Q < 4" "v_xyzabc (demo_vname P) = v_xyzabc (demo_vname Q)" for P Q
    by (rule demo_nodeid_inj [OF that(1,2)]) (simp add: that(3))
  have j: "P = Q" if "P mod 2 = Q mod 2" "P div 2 = Q div 2" for P Q :: nat using that by (metis mult_div_mod_eq)
  show ?thesis unfolding box_def n
    using p i j by (auto simp: demo_crd demo_side_def less_mult_imp_div_less)
qed

lemma demo_len: "g_len (box_grid (table demo_vname [0, 1, 2, 3] 4) demo_side) = 4"
proof -
  have "number_gates (axis_params False (zero_axis\<lparr>ax_size := 2\<rparr>)) = 1" by code_simp
  then show ?thesis unfolding g_len_def g_rows_def box_grid_def by (simp add: demo_side_def grid_rows_def)
qed

definition demo_process :: "unit bg_state" where
  "demo_process = \<lparr>b_first_call = True, b_is_tofu = False, b_detail = None, b_first_alloc = None, b_heap = (\<lambda>_. None), b_fresh = 0, b_jobid = 0, b_ppn_job = 0,
     b_disable_shm = False, b_file_name = None, b_mm_size = 0, b_mm_width = 0, b_mm_fd = 0, b_mapped = False, b_first_failed = False, b_sh_next_tni = 0,
     b_sh_manager = replicate UTF_BG_MAX_PROC_IN_NODE (0, 0), b_thread_safe = False, b_max_hb = UTF_BG_MAX_PROC_IN_NODE, b_next_tni = 0, b_alloc_count = 0,
     b_world = None, b_poll_idata = False, b_net = ()\<rparr>"

abbreviation demo_grid :: net_grid where
  "demo_grid \<equiv> box_grid (table demo_vname [0, 1, 2, 3] 4) demo_side"

lemma demo_grid_wf: "wf_grid demo_grid" "gprocs demo_grid = {..<4}"
proof -
  have n: "size_of (table demo_vname [0, 1, 2, 3] 4) = 4" by (simp add: size_table)
  show "wf_grid demo_grid" by (rule box_grid_wf [OF demo_box]) (simp add: n)
  show "gprocs demo_grid = {..<4}" by (simp add: box_grid_def n)
qed

lemma demo_last: "P < 4 \<Longrightarrow> g_last demo_grid P < 4"
proof -
  assume P: "P < 4"
  have "inj_on (g_in demo_grid P) {..g_last demo_grid P}" using gates_inj(1) [OF demo_grid_wf(1), of P] P demo_grid_wf(2) by (auto simp: inj_on_def)
  moreover have "g_in demo_grid P ` {..g_last demo_grid P} \<subseteq> {..<4}"
    using gates_basic(3,4) [OF demo_grid_wf(1), of P] P demo_len demo_grid_wf(2) by (auto intro: le_less_trans)
  ultimately have "card {..g_last demo_grid P} \<le> card {..<4 :: nat}" by (intro card_inj_on_le) simp_all
  then show ?thesis by simp
qed

abbreviation demo_ids :: "nat \<Rightarrow> u64 list" where
  "demo_ids P \<equiv> take (g_last demo_grid P) (demo_gates P)"

lemma demo_member:
  assumes "P < 4"
  shows "member demo_vname [0, 1, 2, 3] 4 demo_side (demo_api P) demo_process (replicate 4 0) (demo_ids P) P"
proof -
  have r: "unat ([0, 1, 2, 3 :: u32] ! P) = P" using assms unfolding less_four by auto
  have "length (take n (demo_gates P)) = n" if "n \<le> 4" for n using that by (simp add: demo_gates_def)
  then have "vbg_law (demo_api P) (v_xyzabc (demo_vname P))"
    unfolding vbg_law_def demo_api_def using demo_gates_wf [OF assms] by (auto split: if_splits dest: in_set_takeD)
  moreover have "fresh_process (demo_api P) demo_process" by (simp add: fresh_process_def demo_api_def demo_process_def UTF_BG_MAX_PROC_IN_NODE_def)
  ultimately show ?thesis unfolding member_def r using demo_last [OF assms] by (simp add: demo_api_def)
qed

lemma null_not_vbg: "\<not> wf_vbg UTOFU_VBG_ID_NULL"
  unfolding wf_vbg_def UTOFU_VBG_ID_NULL_def by simp

lemma demo_apart: "apart demo_grid demo_ids"
proof -
  have nn: "v \<noteq> UTOFU_VBG_ID_NULL" if "P < 4" "v \<in> set (demo_gates P)" for P v using demo_gates_wf [OF that] null_not_vbg by metis
  have i: "i < 4" if "P < 4" "i < g_last demo_grid P" for i P using that demo_last [OF that(1)] by simp
  have "demo_ids P ! i \<in> set (demo_gates P)" if "P < 4" "i < g_last demo_grid P" for P i using i [OF that] that(2) demo_gates_length [of P] by simp
  then show ?thesis unfolding apart_def demo_grid_wf(2) using nn i demo_gates_apart by (auto simp del: nth_take) (metis nth_take)+
qed


text \<open>C2: one process on every node of a box, all at their first call: \<open>utf_bg_alloc\<close> succeeds in all of them, and after the words that it
  returns have been exchanged, \<open>utf_bg_init\<close> succeeds in all of them and gives settings to \<open>utofu_set_vbg\<close> with
  which the gates of all processes compute together, at every process, the combination of the values of all processes, each taken exactly once;
  no process can end with anything else, in particular not before every process has started. \<open>utf_bg_free\<close> then gives back exactly
  the gates that were allocated, and the group is gone.\<close>

theorem group_reduces:
  fixes v :: "nat \<Rightarrow> 'v::comm_monoid_add"
  assumes "box (table vname ranks n) lo sz" "4 \<le> n" "n \<le> length ranks" "comm \<noteq> Other_comm"
    and "\<And>P. P < n \<Longrightarrow> member vname ranks n sz (api P) (s P) (bg P) (ids P) P" "apart (box_grid (table vname ranks n) sz) ids"
  shows "\<exists>bgout s1. (\<forall>P < n. utf_bg_alloc (api P) vname (alloc_call (p P) ranks n comm (bg P) P) (s P) = ret (G_SUCCESS, Some (bgout P), s1 P))
     \<and> (\<forall>bgin. (\<forall>P < n. length (bgin P) = n \<and> (\<forall>Q < n. bgin P ! Q = bgout Q ! P)) \<longrightarrow>
        (\<exists>S. \<forall>P < n. (\<exists>s2 s3. utf_bg_init (api P) (init_call (p P) ranks n (bgin P) P) (s1 P) = ret (G_SUCCESS, Some (Some (b_fresh (s P))), s2)
            \<and> b_net s2 = snd (g_set_vbg (api P) (S P) (b_net (s1 P)))
            \<and> utf_bg_free (api P) (Some (b_fresh (s P))) s2 = ret (fst (g_free_vbg (api P) (ids P) (b_net s2)), s3)
            \<and> b_net s3 = snd (g_free_vbg (api P) (ids P) (b_net s2)) \<and> b_heap s3 (b_fresh (s P)) = None)
          \<and> (\<forall>z. ends_with S {..<n} v P z \<longleftrightarrow> z = sum v {..<n})))"
proof -
  let ?G = "box_grid (table vname ranks n) sz"
  have sz: "size_of (table vname ranks n) = n" by (rule size_table [OF assms(3)])
  have G: "wf_grid ?G" "gprocs ?G = {..<n}" using box_grid_wf [OF assms(1)] sz assms(2) by (simp_all add: box_grid_def)
  have t: "ends_with S {..<n} v P z \<longleftrightarrow> z = sum v {..<n}" if "wired_all ?G ids S" "P < n" for S P z
    using network_total [OF G(1) assms(6) that(1), of P v z] that(2) unfolding G(2) by simp
  from group_connected [OF assms(1-5), where p = p] obtain bgout s1 where
    "\<forall>P < n. utf_bg_alloc (api P) vname (alloc_call (p P) ranks n comm (bg P) P) (s P) = ret (G_SUCCESS, Some (bgout P), s1 P)"
    "\<And>bgin. \<forall>P < n. length (bgin P) = n \<and> (\<forall>Q < n. bgin P ! Q = bgout Q ! P) \<Longrightarrow> \<exists>S. wired_all ?G ids S
      \<and> (\<forall>P < n. ready (api P) (init_call (p P) ranks n (bgin P) P) (b_fresh (s P)) (S P) (ids P) (s1 P))" by blast
  note c = this
  show ?thesis
  proof (intro exI [of _ bgout] exI [of _ s1] conjI allI impI)
    fix P bgin assume "\<forall>P < n. length (bgin P) = n \<and> (\<forall>Q < n. bgin P ! Q = bgout Q ! P)"
    from c(2) [OF this] obtain S where "wired_all ?G ids S"
      "\<forall>P < n. ready (api P) (init_call (p P) ranks n (bgin P) P) (b_fresh (s P)) (S P) (ids P) (s1 P)" by blast
    then show "\<exists>S. \<forall>P < n. (\<exists>s2 s3. utf_bg_init (api P) (init_call (p P) ranks n (bgin P) P) (s1 P) = ret (G_SUCCESS, Some (Some (b_fresh (s P))), s2)
        \<and> b_net s2 = snd (g_set_vbg (api P) (S P) (b_net (s1 P)))
        \<and> utf_bg_free (api P) (Some (b_fresh (s P))) s2 = ret (fst (g_free_vbg (api P) (ids P) (b_net s2)), s3)
        \<and> b_net s3 = snd (g_free_vbg (api P) (ids P) (b_net s2)) \<and> b_heap s3 (b_fresh (s P)) = None) \<and> (\<forall>z. ends_with S {..<n} v P z \<longleftrightarrow> z = sum v {..<n})"
      using t unfolding ready_def by (intro exI [of _ S]) blast
  qed (use c(1) in simp)
qed

theorem group_reduces_witness:
  "\<exists>bgout s1 S s2. utf_bg_alloc (demo_api 2) demo_vname (alloc_call 0 [0, 1, 2, 3] 4 UTF_BG_TOFU (replicate 4 0) 2) demo_process = ret (G_SUCCESS, Some (bgout 2), s1)
     \<and> utf_bg_init (demo_api 2) (init_call 0 [0, 1, 2, 3] 4 (map (\<lambda>Q. bgout Q ! 2) [0..<4]) 2) s1 = ret (G_SUCCESS, Some (Some 0), s2)
     \<and> ends_with S {..<4} (\<lambda>P. 2 ^ P :: nat) 2 15"
proof -
  have "4 \<le> (4 :: nat)" "4 \<le> length [0, 1, 2, 3 :: u32]" "UTF_BG_TOFU \<noteq> Other_comm" by simp_all
  from group_reduces [OF demo_box this demo_member demo_apart, where p = "\<lambda>_. 0" and v = "\<lambda>P. 2 ^ P :: nat"] obtain bgout s1 where
    a: "\<forall>P < 4. utf_bg_alloc (demo_api P) demo_vname (alloc_call 0 [0, 1, 2, 3] 4 UTF_BG_TOFU (replicate 4 0) P) demo_process = ret (G_SUCCESS, Some (bgout P), s1 P)"
    and b: "\<And>bgin. \<forall>P < 4. length (bgin P) = 4 \<and> (\<forall>Q < 4. bgin P ! Q = bgout Q ! P) \<Longrightarrow>
        (\<exists>S. \<forall>P < 4. (\<exists>s2 s3. utf_bg_init (demo_api P) (init_call 0 [0, 1, 2, 3] 4 (bgin P) P) (s1 P) = ret (G_SUCCESS, Some (Some (b_fresh demo_process)), s2)
            \<and> b_net s2 = snd (g_set_vbg (demo_api P) (S P) (b_net (s1 P)))
            \<and> utf_bg_free (demo_api P) (Some (b_fresh demo_process)) s2 = ret (fst (g_free_vbg (demo_api P) (demo_ids P) (b_net s2)), s3)
            \<and> b_net s3 = snd (g_free_vbg (demo_api P) (demo_ids P) (b_net s2)) \<and> b_heap s3 (b_fresh demo_process) = None)
          \<and> (\<forall>z. ends_with S {..<4} (\<lambda>P. 2 ^ P :: nat) P z \<longleftrightarrow> z = (\<Sum>P < 4. 2 ^ P)))" by blast
  have e: "b_fresh demo_process = 0" "(\<Sum>P < 4. 2 ^ P :: nat) = 15" by (simp_all add: demo_process_def numeral_eq_Suc)
  have "\<forall>P < 4. length (map (\<lambda>Q. bgout Q ! P) [0..<4]) = 4 \<and> (\<forall>Q < 4. map (\<lambda>Q. bgout Q ! P) [0..<4] ! Q = bgout Q ! P)" by simp
  from b [of "\<lambda>P. map (\<lambda>Q. bgout Q ! P) [0..<4]", OF this] obtain S where
    S: "\<forall>P < 4. (\<exists>s2 s3. utf_bg_init (demo_api P) (init_call 0 [0, 1, 2, 3] 4 (map (\<lambda>Q. bgout Q ! P) [0..<4]) P) (s1 P) = ret (G_SUCCESS, Some (Some 0), s2)
      \<and> b_net s2 = snd (g_set_vbg (demo_api P) (S P) (b_net (s1 P)))
      \<and> utf_bg_free (demo_api P) (Some 0) s2 = ret (fst (g_free_vbg (demo_api P) (demo_ids P) (b_net s2)), s3)
      \<and> b_net s3 = snd (g_free_vbg (demo_api P) (demo_ids P) (b_net s2)) \<and> b_heap s3 0 = None) \<and> (\<forall>z. ends_with S {..<4} (\<lambda>P. 2 ^ P :: nat) P z \<longleftrightarrow> z = 15)" unfolding e by blast
  have "2 < (4 :: nat)" by simp
  then show ?thesis using a S by blast
qed


section \<open>The other properties of the calls\<close>

lemma mod_shift_inj:
  fixes a b u :: nat
  assumes "a \<le> b" "b < 6" "(u + b) mod 6 = (u + a) mod 6"
  shows "a = b"
proof (rule ccontr)
  assume "a \<noteq> b"
  have "u + a \<le> u + b" using assms(1) by simp
  then have "6 dvd (u + b) - (u + a)" using assms(3) by (simp only: mod_eq_dvd_iff_nat)
  then have "6 \<le> b - a" using assms(1) \<open>a \<noteq> b\<close> by (intro dvd_imp_le) simp_all
  then show False using assms(2) by simp
qed

lemma tni_at_inj:
  assumes "i < 6" "j < 6" "tni_at t0 i = tni_at t0 j"
  shows "i = j"
proof -
  have "(unat t0 + i) mod 6 = (unat t0 + j) mod 6" unfolding unat_tni_at [symmetric] assms(3) ..
  then show ?thesis using mod_shift_inj [of i j "unat t0"] mod_shift_inj [of j i "unat t0"] assms(1,2) by (metis nat_le_linear)
qed

text \<open>C38: the search for an interface ends, whatever the interfaces answer: starting at any of the six it gives the answer of
  the first one, in cyclic order, that is not full, each of the six being asked at most once, and reports that all are full otherwise.\<close>

theorem vbg_search_returns:
  assumes "unat t0 < 6"
  shows "allocate_vbg_core api f n t0 t0 w = Some (first_free api f n (map (tni_at t0) [0..<6]) t0 [] w)
    \<and> distinct (map (tni_at t0) [0..<6]) \<and> set (map (tni_at t0) [0..<6]) = {t. unat t < 6}"
proof (intro conjI)
  have z: "tni_at t0 0 = t0" using tni_at_start [OF assms, of 0] by simp
  show "allocate_vbg_core api f n t0 t0 w = Some (first_free api f n (map (tni_at t0) [0..<6]) t0 [] w)"
    using core_first_free [OF assms, of 0 api f n w "[]"] unfolding z by simp
  have "inj_on (tni_at t0) {0..<6}" using tni_at_inj by (auto simp: inj_on_def)
  then show d: "distinct (map (tni_at t0) [0..<6])" by (simp add: distinct_map)
  show "set (map (tni_at t0) [0..<6]) = {t. unat t < 6}"
  proof (rule card_subset_eq)
    show "finite {t :: u16. unat t < 6}" by (rule finite)
    show "set (map (tni_at t0) [0..<6]) \<subseteq> {t. unat t < 6}" by (auto simp: unat_tni_at)
    have "{t :: u16. unat t < 6} = word_of_nat ` {0..<6}"
    proof (intro equalityI subsetI)
      fix t :: u16 assume "t \<in> {t. unat t < 6}"
      then show "t \<in> word_of_nat ` {0..<6}" by (intro image_eqI [of _ _ "unat t"]) (simp_all add: ucast_id)
    qed (auto simp: unsigned_of_nat take_bit_nat_eq_self)
    then have "card {t :: u16. unat t < 6} \<le> 6" using card_image_le [of "{0..<6::nat}" "word_of_nat :: nat \<Rightarrow> u16"] by simp
    moreover have "card (set (map (tni_at t0) [0..<6])) = 6" using distinct_card [OF d] by simp
    moreover have "card (set (map (tni_at t0) [0..<6])) \<le> card {t :: u16. unat t < 6}" by (rule card_mono) (auto simp: unat_tni_at)
    ultimately show "card (set (map (tni_at t0) [0..<6])) = card {t :: u16. unat t < 6}" by simp
  qed
qed

theorem vbg_search_returns_witness: "allocate_vbg_core (demo_api 1) False 2 4 4 () = Some (G_SUCCESS, [0x100000000, 0x100000001], 0, ())"
proof -
  have "allocate_vbg_core (demo_api 1) False 2 4 4 () = Some (first_free (demo_api 1) False 2 (map (tni_at 4) [0..<6]) 4 [] ())"
    using vbg_search_returns [of 4 "demo_api 1" False 2 "()"] by simp
  then show ?thesis by (simp add: demo_api_def demo_gates_eval upt_rec tni_at_def UTF_BG_NUM_TNI_def)
qed

text \<open>The word that a process writes for another one gives back the two gates it was made from, the one that sends to the reader and
  the one that receives from it, and is not taken for the sign of a failure.\<close>

theorem bginfo_word_roundtrip:
  assumes "wf_phys c" "wf_vbg a" "wf_vbg b" "GET_TNI_FROM_VBGID a = tni" "GET_TNI_FROM_VBGID b = tni"
    and "GET_NODEID_FROM_VCQ a = GET_NODEID c" "GET_NODEID_FROM_VCQ b = GET_NODEID c"
    and "w = SET_ENABLE_BGINFO tni c (GET_BGID_FROM_VBGID a) (GET_BGID_FROM_VBGID b)"
  shows "src_rmt_vbg [w] \<lparr>src_rmt_index = Some 0, dst_rmt_index = None\<rparr> = a \<and> dst_rmt_vbg [w] \<lparr>src_rmt_index = None, dst_rmt_index = Some 0\<rparr> = b
    \<and> w AND UTF_BIT_BGINFO_DISABLE = 0"
  using gate_of_word [OF assms] by (simp add: src_rmt_vbg_def dst_rmt_vbg_def)

theorem bginfo_word_roundtrip_witness:
  "dst_rmt_vbg [SET_ENABLE_BGINFO 0 (v_xyzabc (demo_vname 1)) 2 3] \<lparr>src_rmt_index = None, dst_rmt_index = Some 0\<rparr> = 0x100000003"
proof -
  have p: "wf_phys (v_xyzabc (demo_vname 1))" by (simp add: wf_phys_def demo_vname_def)
  have "0x100000002 \<in> set (demo_gates 1)" "0x100000003 \<in> set (demo_gates 1)" by (simp_all add: demo_gates_eval)
  then have g: "wf_vbg 0x100000002" "wf_vbg 0x100000003" "GET_TNI_FROM_VBGID 0x100000002 = 0" "GET_TNI_FROM_VBGID 0x100000003 = 0"
      "GET_NODEID_FROM_VCQ 0x100000002 = GET_NODEID (v_xyzabc (demo_vname 1))" "GET_NODEID_FROM_VCQ 0x100000003 = GET_NODEID (v_xyzabc (demo_vname 1))"
    using demo_gates_wf [of 1] by simp_all
  have b: "GET_BGID_FROM_VBGID 0x100000002 = 2" "GET_BGID_FROM_VBGID 0x100000003 = 3" by (simp_all add: GET_BGID_FROM_VBGID_def)
  show ?thesis using bginfo_word_roundtrip [OF p g refl] unfolding b by simp
qed

end
