(* ===== verification/Mpi_Props.thy ===== *)
theory Mpi_Props
  imports Mpi_Coms Mpi_Utf Vbg_Collectives Vbg_Group_Props
begin

text \<open>
  What the functions on groups and communicators do to the tables: the groups they make, the
  invariant of the tables, and the cases where an entry is wrong, lost or missing.
\<close>

section \<open>The loops on ranks\<close>

lemma rank_found_iff [simp]: "rank_found x ys \<longleftrightarrow> x \<in> set ys"
  by (induction ys) auto

lemma put_rank_ok [simp]: "length out < cap \<Longrightarrow> put_rank cap v out = ret (out @ [v])"
  by (simp add: put_rank_def)

lemma union_loop_filter: "length out + length xs \<le> cap \<Longrightarrow> union_loop cap r1 xs out = ret (out @ filter (\<lambda>x. x \<notin> set r1) xs)"
  by (induction xs arbitrary: out) auto

lemma intersection_loop_filter: "length out + length xs \<le> cap \<Longrightarrow> intersection_loop cap r2 xs out = ret (out @ filter (\<lambda>x. x \<in> set r2) xs)"
  by (induction xs arbitrary: out) auto

lemma difference_loop_filter: "length out + length xs \<le> cap \<Longrightarrow> difference_loop cap r2 xs out = ret (out @ filter (\<lambda>x. x \<notin> set r2) xs)"
  by (induction xs arbitrary: out) auto

lemma rank_ops:
  "union_ranks r1 r2 = ret (r1 @ filter (\<lambda>x. x \<notin> set r1) r2)"
  "intersection_ranks r1 r2 = ret (filter (\<lambda>x. x \<in> set r2) r1)"
  "difference_ranks r1 r2 = ret (filter (\<lambda>x. x \<notin> set r2) r1)"
  by (simp_all add: union_ranks_def intersection_ranks_def difference_ranks_def union_loop_filter intersection_loop_filter difference_loop_filter)

lemma incl_loop_map:
  assumes "holds x r" and "\<forall>i \<in> set is. 0 \<le> i \<and> i < int (length r)"
  shows "incl_loop (ret x) is = ret (map (\<lambda>i. r ! nat i) is)"
  using assms(2)
proof (induction "is")
  case (Cons i "is")
  obtain a where a: "ge_ranks x = Some a" "length r \<le> length a" "take (length r) a = r" "ge_size x = length r"
    using assms(1) by (auto simp: holds_def)
  have "a ! nat i = r ! nat i" using a(3) Cons.prems by (metis list.set_intros(1) nat_less_iff nth_take)
  with a Cons show ?case by auto
qed simp

text \<open>Marking, and moving the elements that are not marked.\<close>

lemma excl_mark_map:
  assumes "length a = n" and "\<forall>i \<in> set is. 0 \<le> i \<and> i < int n"
  shows "excl_mark n is a = ret (map (\<lambda>j. if int j \<in> set is then -1 else a ! j) [0..<n])"
  using assms
proof (induction "is" arbitrary: a)
  case Nil
  then show ?case by (auto simp: map_nth)
next
  case (Cons i "is")
  have "excl_mark n (i # is) a = excl_mark n is (a[nat i := -1])" using Cons.prems by auto
  also have "\<dots> = ret (map (\<lambda>j. if int j \<in> set is then -1 else a[nat i := -1] ! j) [0..<n])" using Cons.prems by (intro Cons.IH) auto
  also have "map (\<lambda>j. if int j \<in> set is then -1 else a[nat i := -1] ! j) [0..<n] = map (\<lambda>j. if int j \<in> set (i # is) then -1 else a ! j) [0..<n]"
    using Cons.prems by (intro map_cong refl) (auto simp: nth_list_update)
  finally show ?case .
qed

lemma excl_move_filter:
  assumes "k \<le> length a" and "n \<le> k" and "excl_move [k..<length a] (a, n) = (b, m)"
  shows "m = n + length (filter (\<lambda>x. x \<noteq> -1) (drop k a)) \<and> take m b = take n a @ filter (\<lambda>x. x \<noteq> -1) (drop k a) \<and> length b = length a"
  using assms
proof (induction "length a - k" arbitrary: k a n)
  case 0
  then show ?case by simp
next
  case (Suc d)
  then have k: "k < length a" by simp
  have u: "[k..<length a] = k # [Suc k..<length a]" using k by (simp add: upt_rec)
  have dr: "drop k a = a ! k # drop (Suc k) a" using k by (rule Cons_nth_drop_Suc [symmetric])
  show ?case
  proof (cases "a ! k = -1")
    case True
    with Suc.prems(3) u have "excl_move [Suc k..<length a] (a, n) = (b, m)" by simp
    then have "m = n + length (filter (\<lambda>x. x \<noteq> -1) (drop (Suc k) a)) \<and> take m b = take n a @ filter (\<lambda>x. x \<noteq> -1) (drop (Suc k) a) \<and> length b = length a"
      using Suc.hyps(2) Suc.prems(2) k by (intro Suc.hyps(1)) simp_all
    then show ?thesis by (auto simp: dr True)
  next
    case False
    let ?a = "a[n := a ! k]"
    have "excl_move [Suc k..<length ?a] (?a, n + 1) = (b, m)" using Suc.prems(3) u False by simp
    moreover have "drop (Suc k) ?a = drop (Suc k) a" using Suc.prems(2) by simp
    moreover have "take (n + 1) ?a = take n a @ [a ! k]" using Suc.prems(2) k by (simp add: take_Suc_conv_app_nth)
    moreover have "m = n + 1 + length (filter (\<lambda>x. x \<noteq> -1) (drop (Suc k) ?a)) \<and> take m b = take (n + 1) ?a @ filter (\<lambda>x. x \<noteq> -1) (drop (Suc k) ?a)
        \<and> length b = length ?a"
      using Suc.hyps(2) Suc.prems(2) k calculation(1) by (intro Suc.hyps(1)) simp_all
    ultimately show ?thesis using False by (auto simp: dr)
  qed
qed

lemma nths_filter_upt: "nths r {i. P i} = map ((!) r) (filter P [0..<length r])"
proof (induction r rule: rev_induct)
  case (snoc x r)
  then show ?case by (auto simp: nths_append nth_append intro!: map_cong)
qed simp

lemma excl_ranks:
  assumes "\<forall>i \<in> set is. 0 \<le> i \<and> i < int (length r)" and no: "-1 \<notin> set r"
  shows "\<exists>b m. bindO (excl_mark (length r) is r) (\<lambda>a. ret (excl_move [0..<length r] (a, 0))) = ret (b, m)
    \<and> m = length (nths r {i. int i \<notin> set is}) \<and> take m b = nths r {i. int i \<notin> set is} \<and> m \<le> length b"
proof -
  let ?a = "map (\<lambda>j. if int j \<in> set is then -1 else r ! j) [0..<length r]"
  obtain b m where e: "excl_move [0..<length ?a] (?a, 0) = (b, m)" by fastforce
  have "filter (\<lambda>x. x \<noteq> -1) ?a = map ((!) r) (filter (\<lambda>j. int j \<notin> set is) [0..<length r])"
  proof -
    have "r ! j \<noteq> -1" if "j < length r" for j using no that by (metis nth_mem)
    then show ?thesis by (auto simp: filter_map comp_def intro!: map_cong filter_cong)
  qed
  then have f: "filter (\<lambda>x. x \<noteq> -1) ?a = nths r {i. int i \<notin> set is}" by (simp add: nths_filter_upt)
  have "m = 0 + length (filter (\<lambda>x. x \<noteq> -1) (drop 0 ?a)) \<and> take m b = take 0 ?a @ filter (\<lambda>x. x \<noteq> -1) (drop 0 ?a) \<and> length b = length ?a"
    by (rule excl_move_filter) (use e in simp_all)
  then have "m = length (filter (\<lambda>x. x \<noteq> -1) ?a)" "take m b = filter (\<lambda>x. x \<noteq> -1) ?a" "length b = length r"
    unfolding drop_0 take_0 append_Nil add_0 length_map length_upt diff_zero by blast+
  moreover have "length (filter (\<lambda>x. x \<noteq> -1) ?a) \<le> length r" by (rule order_trans [OF length_filter_le]) simp
  moreover have "excl_mark (length r) is r = ret ?a" using assms(1) by (intro excl_mark_map) auto
  ultimately show ?thesis using e f by (intro exI [of _ b] exI [of _ m]) simp
qed

section \<open>Groups\<close>

text \<open>The step from a registration at the level of the tables to the state of the process.\<close>

lemma pcall_new_eq: "f (plib s) = (rc, h, w) \<Longrightarrow> pcall_new f s = (rc, h, s\<lparr>plib := w\<rparr>)"
  by (simp add: pcall_new_def)

lemma ent_at_holds:
  assumes "gtabs t G n" and "map_of G g = Some r"
  shows "\<exists>k e. grpinfo_get g t = ret (Some k) \<and> ent_at t (Some k) = ret e \<and> holds e r \<and> ge_grp e = g"
proof -
  from assms(1) obtain gs fs where l: "glayout t gs fs G" by (auto simp: gtabs_def)
  from grpinfo_get_glayout(2) [OF l assms(2)] obtain k e where "grpinfo_get g t = ret (Some k)" "grpinfo_entarray t k = Some e" "holds e r" "ge_grp e = g" by blast
  then show ?thesis by (simp add: ent_at_def)
qed

lemma group_op_gtabs:
  assumes t: "gtabs (tables s) G (Suc n)" and g: "map_of G g1 = Some r1" "map_of G g2 = Some r2" and m: "x_malloc (mp E) X_ranks"
    and p: "pm g1 g2 (plib s) = (MPI_SUCCESS, g, w)" and f: "f r1 r2 = ret r"
  shows "\<exists>t'. group_op E pm f g1 g2 s = ret (MPI_SUCCESS, g, s\<lparr>plib := w, tables := t'\<rparr>) \<and> gtabs t' (G @ [(g, r)]) n \<and> same_coms (tables s) t'"
proof -
  from ent_at_holds [OF t g(1)] obtain k1 e1 where 1: "grpinfo_get g1 (tables s) = ret (Some k1)" "ent_at (tables s) (Some k1) = ret e1" "holds e1 r1" by blast
  from ent_at_holds [OF t g(2)] obtain k2 e2 where 2: "grpinfo_get g2 (tables s) = ret (Some k2)" "ent_at (tables s) (Some k2) = ret e2" "holds e2 r2" by blast
  from grpinfo_reg_gtabs [OF t, of r r g] obtain k t' where "grpinfo_reg g (length r) (Some r) (tables s) = ret (k, t')" "gtabs t' (G @ [(g, r)]) n"
    "same_coms (tables s) t'" by auto
  with 1 2 m f show ?thesis
    by (intro exI [of _ t']) (simp add: group_op_def pcall_new_eq [of "pm g1 g2", OF p] ranks_of_holds)
qed

text \<open>C16: the groups that union, intersection and difference enter are those of the MPI standard: the first group and then the
  processes of the second that are not in it; the processes of the first that are in the second; those that are not; always in the order of
  the group they come from. The earlier entries stay, one free entry is used, and no word of the communicators changes. This holds for handles of any width.
\<close>

theorem group_set_operations:
  assumes "gtabs (tables s) G (Suc n)" "map_of G g1 = Some r1" "map_of G g2 = Some r2" "x_malloc (mp E) X_ranks"
    and "PMPI_Group_union (mp E) g1 g2 (plib s) = (MPI_SUCCESS, gu, wu)" "PMPI_Group_intersection (mp E) g1 g2 (plib s) = (MPI_SUCCESS, gi, wi)"
      "PMPI_Group_difference (mp E) g1 g2 (plib s) = (MPI_SUCCESS, gd, wd)"
  shows "(\<exists>t. MPI_Group_union E g1 g2 s = ret (MPI_SUCCESS, gu, s\<lparr>plib := wu, tables := t\<rparr>)
        \<and> gtabs t (G @ [(gu, r1 @ filter (\<lambda>x. x \<notin> set r1) r2)]) n \<and> same_coms (tables s) t)
    \<and> (\<exists>t. MPI_Group_intersection E g1 g2 s = ret (MPI_SUCCESS, gi, s\<lparr>plib := wi, tables := t\<rparr>)
        \<and> gtabs t (G @ [(gi, filter (\<lambda>x. x \<in> set r2) r1)]) n \<and> same_coms (tables s) t)
    \<and> (\<exists>t. MPI_Group_difference E g1 g2 s = ret (MPI_SUCCESS, gd, s\<lparr>plib := wd, tables := t\<rparr>)
        \<and> gtabs t (G @ [(gd, filter (\<lambda>x. x \<notin> set r2) r1)]) n \<and> same_coms (tables s) t)"
  unfolding MPI_Group_union_def MPI_Group_intersection_def MPI_Group_difference_def
  by (intro conjI group_op_gtabs [OF assms(1-4)] assms(5-7) rank_ops)

text \<open>C27: \<open>MPI_Group_incl\<close> enters the named processes in the order they are named, \<open>MPI_Group_excl\<close> the others in the order of
  the group, for valid positions; no rank may be \<open>0xFFFFFFFF\<close>, which marks the excluded ones. No word of the communicators changes. This holds for
  handles of any width.
\<close>

theorem group_incl_excl:
  assumes t: "gtabs (tables s) G (Suc n)" "map_of G g = Some r" and m: "x_malloc (mp E) X_ranks"
    and pos: "\<forall>i \<in> set is. 0 \<le> i \<and> i < int (length r)" and no: "-1 \<notin> set r"
    and p: "PMPI_Group_incl (mp E) g (int (length is)) is (plib s) = (MPI_SUCCESS, gi, wi)"
      "PMPI_Group_excl (mp E) g (int (length is)) is (plib s) = (MPI_SUCCESS, gx, wx)"
  shows "(\<exists>t'. MPI_Group_incl E g (int (length is)) is s = ret (MPI_SUCCESS, gi, s\<lparr>plib := wi, tables := t'\<rparr>)
        \<and> gtabs t' (G @ [(gi, map (\<lambda>i. r ! nat i) is)]) n \<and> same_coms (tables s) t')
    \<and> (\<exists>t'. MPI_Group_excl E g (int (length is)) is s = ret (MPI_SUCCESS, gx, s\<lparr>plib := wx, tables := t'\<rparr>)
        \<and> gtabs t' (G @ [(gx, nths r {i. int i \<notin> set is})]) n \<and> same_coms (tables s) t')"
proof -
  from ent_at_holds [OF t] obtain k e where k: "grpinfo_get g (tables s) = ret (Some k)" "ent_at (tables s) (Some k) = ret e" and e: "holds e r" by blast
  have sz: "ge_size e = length r" using e by (simp add: holds_def)
  let ?r = "map (\<lambda>i. r ! nat i) is" and ?x = "nths r {i. int i \<notin> set is}"
  have incl: "incl_loop (ret e) is = ret ?r" by (rule incl_loop_map [OF e pos])
  from grpinfo_reg_gtabs [OF t(1), of ?r ?r gi] obtain k1 t1 where t1: "grpinfo_reg gi (length ?r) (Some ?r) (tables s) = ret (k1, t1)"
    "gtabs t1 (G @ [(gi, ?r)]) n" "same_coms (tables s) t1" by auto
  obtain b l where x: "(if int (length is) = 0 then ret (r, ge_size e)
        else bindO (excl_mark (ge_size e) (take (nat (int (length is))) is) r) (\<lambda>a. ret (excl_move [0..<ge_size e] (a, 0)))) = ret (b, l)"
    and l: "l = length ?x" "take l b = ?x" "l \<le> length b"
  proof (cases "is = []")
    case True
    have "?x = r" by (rule nths_all) (simp add: True)
    then show ?thesis using True sz by (intro that [of r "length r"]) simp_all
  next
    case False
    from excl_ranks [OF pos no] obtain b l where "bindO (excl_mark (length r) is r) (\<lambda>a. ret (excl_move [0..<length r] (a, 0))) = ret (b, l)"
      "l = length ?x" "take l b = ?x" "l \<le> length b" by blast
    then show ?thesis using False sz by (intro that [of b l]) simp_all
  qed
  from grpinfo_reg_gtabs [OF t(1), of ?x b gx] l obtain k2 t2 where t2: "grpinfo_reg gx l (Some b) (tables s) = ret (k2, t2)"
    "gtabs t2 (G @ [(gx, ?x)]) n" "same_coms (tables s) t2" by auto
  have "MPI_Group_incl E g (int (length is)) is s = ret (MPI_SUCCESS, gi, s\<lparr>plib := wi, tables := t1\<rparr>)"
    using m k incl t1(1) by (simp add: MPI_Group_incl_def pcall_new_eq [of "PMPI_Group_incl (mp E) g (int (length is)) is", OF p(1)])
  moreover have "MPI_Group_excl E g (int (length is)) is s = ret (MPI_SUCCESS, gx, s\<lparr>plib := wx, tables := t2\<rparr>)"
    unfolding MPI_Group_excl_def pcall_new_eq [of "PMPI_Group_excl (mp E) g (int (length is)) is", OF p(2)]
    using m k(1) t2(1) x by (cases "is = []") (simp_all add: k(2) ranks_of_holds [OF e])
  ultimately show ?thesis using t1(2,3) t2(2,3) by blast
qed

section \<open>Communicators\<close>

lemma com_find_tabs:
  assumes "tabs (tables s) G C n m" and "map_of C c = Some (r, b)"
  shows "\<exists>x k e. com_find c s = ret x \<and> ce_grp x = Some k \<and> ce_bg_grp x = b \<and> grp_at (tables s) (Some (Grp k)) = ret (k, e) \<and> ge_size e = length r"
proof -
  from assms(1) obtain gs fs os cs zs where l: "layout (tables s) gs fs os cs zs G C" by (auto simp: tabs_def)
  from cominfo_get_layout(2) [OF l assms(2)] obtain j k e where "cominfo_get c (tables s) = ret (Some j)"
    "cominfo_entarray (tables s) j = Some \<lparr>ce_comm = c, ce_grp = Some k, ce_bg_grp = b\<rparr>" "grpinfo_entarray (tables s) k = Some e" "holds e r" by blast
  then show ?thesis using layout_apart [OF l] by (auto simp: com_find_def holds_def)
qed

lemma com_find_missing: "tabs (tables s) G C n m \<Longrightarrow> map_of C c = None \<Longrightarrow> com_find c s = crash Aborted"
  using cominfo_get_layout(1) by (auto simp: tabs_def com_find_def)

text \<open>Taking an entry without entering it loses it.\<close>

lemma grp_take_gtabs:
  "gtabs t G 0 \<Longrightarrow> grp_take t = ret (None, t)"
  "gtabs t G (Suc n) \<Longrightarrow> \<exists>k t1. grp_take t = ret (Some (Grp k), t1)
     \<and> (\<forall>g sz r. grp_fill (Some (Grp k)) g sz r t1 = ret (k, put_grp k \<lparr>ge_grp = g, ge_size = sz, ge_ranks = r\<rparr> t1)
        \<and> gtabs (put_grp k \<lparr>ge_grp = g, ge_size = sz, ge_ranks = r\<rparr> t1) G n
        \<and> same_coms t (put_grp k \<lparr>ge_grp = g, ge_size = sz, ge_ranks = r\<rparr> t1))"
proof -
  show "grp_take t = ret (None, t)" if "gtabs t G 0"
    using that take_empty by (auto simp: gtabs_def)
  assume "gtabs t G (Suc n)"
  then obtain gs k fs where l: "glayout t gs (k # fs) G" and n: "length fs = n" by (auto simp: gtabs_def length_Suc_conv)
  from glayout_take [OF l] obtain t1 where "grp_take t = ret (Some (Grp k), t1)"
    "\<And>g sz r. grp_fill (Some (Grp k)) g sz r t1 = ret (k, put_grp k \<lparr>ge_grp = g, ge_size = sz, ge_ranks = r\<rparr> t1)"
    "\<And>e. glayout (put_grp k e t1) gs fs G \<and> same_coms t (put_grp k e t1)" by metis
  moreover from this(3) have "gtabs (put_grp k e t1) G n" for e using gtabsI n by blast
  ultimately show "\<exists>k t1. grp_take t = ret (Some (Grp k), t1)
     \<and> (\<forall>g sz r. grp_fill (Some (Grp k)) g sz r t1 = ret (k, put_grp k \<lparr>ge_grp = g, ge_size = sz, ge_ranks = r\<rparr> t1)
        \<and> gtabs (put_grp k \<lparr>ge_grp = g, ge_size = sz, ge_ranks = r\<rparr> t1) G n
        \<and> same_coms t (put_grp k \<lparr>ge_grp = g, ge_size = sz, ge_ranks = r\<rparr> t1))"
    by (intro exI [of _ k] exI [of _ t1]) simp
qed

lemma utf_bg_init_empty: "il_len a = 0 \<Longrightarrow> \<exists>rc. utf_bg_init api a b = ret (rc, il_group a, b) \<and> rc \<noteq> G_SUCCESS"
  by (auto simp: utf_bg_init_def split: option.splits)

lemma mycmp_length: "length (insert_by cmp x xs) = Suc (length xs)" "length (qsort_by cmp xs) = length xs"
proof -
  show i: "length (insert_by cmp x xs) = Suc (length xs)" for x xs by (induction xs) auto
  show "length (qsort_by cmp xs) = length xs" unfolding qsort_by_def by (induction xs) (auto simp: i)
qed

text \<open>\<open>MPI_Comm_split\<close> never enters the new communicator: the number of members it uses, the variable \<open>nprocs\<close>, is never set, so \<open>utf_bg_init\<close>
  is called for a group of 0 processes and refuses. Each call returns -1 after the MPI library has succeeded and loses an entry of the table
  of groups; when none is left it dereferences NULL. The barrier groups are untouched.
\<close>

theorem comm_split_fails:
  assumes t: "gtabs (tables s) G n" and np: "cg_nprocs s = 0" and p: "PMPI_Comm_split (mp E) c color key (plib s) = (MPI_SUCCESS, c', w)"
    and "x_malloc (mp E) X_inf1" "x_malloc (mp E) X_inf2" "PMPI_Comm_rank (mp E) c w < PMPI_Comm_size (mp E) c w"
  shows "case n of 0 \<Rightarrow> MPI_Comm_split E c color key s = crash NullDeref
    | Suc k \<Rightarrow> \<exists>s'. MPI_Comm_split E c color key s = ret (-1, c', s') \<and> gtabs (tables s') G k \<and> same_coms (tables s) (tables s') \<and> bgs s' = bgs s"
proof -
  obtain inf1 w2 where a: "MPI_Allgather (mp E) (color, key, int (PMPI_Comm_size (mp E) c w)) c w = (inf1, w2)" by fastforce
  note eq = MPI_Comm_split_def Let_def pcall_new_eq [of "PMPI_Comm_split (mp E) c color key", OF p] a
  show ?thesis
  proof (cases n)
    case 0
    then show ?thesis using grp_take_gtabs(1) [of "tables s" G] assms by (simp add: eq grp_fill_def grp_at_def)
  next
    case (Suc k)
    with t grp_take_gtabs(2) obtain i t1 where t1: "grp_take (tables s) = ret (Some (Grp i), t1)"
      "\<forall>g sz r. grp_fill (Some (Grp i)) g sz r t1 = ret (i, put_grp i \<lparr>ge_grp = g, ge_size = sz, ge_ranks = r\<rparr> t1)
        \<and> gtabs (put_grp i \<lparr>ge_grp = g, ge_size = sz, ge_ranks = r\<rparr> t1) G k
        \<and> same_coms (tables s) (put_grp i \<lparr>ge_grp = g, ge_size = sz, ge_ranks = r\<rparr> t1)" by blast
    obtain rc where "utf_bg_init (ba E) \<lparr>il_rankset = (if x_malloc (mp E) X_grpidx then Some (next_addr s, []) else None), il_len = 0,
        il_my_index = PMPI_Comm_rank (mp E) c w, il_bginfo = mpi_bg_bginfo s, il_group = Some None\<rparr> (bgs s) = ret (rc, Some None, bgs s)" "rc \<noteq> G_SUCCESS"
      using utf_bg_init_empty [of "\<lparr>il_rankset = (if x_malloc (mp E) X_grpidx then Some (next_addr s, []) else None), il_len = 0,
        il_my_index = PMPI_Comm_rank (mp E) c w, il_bginfo = mpi_bg_bginfo s, il_group = Some None\<rparr>" "ba E" "bgs s"] by auto
    then show ?thesis using Suc t1 assms(2,4-6) by (simp add: eq)
  qed
qed

text \<open>A communicator made by \<open>MPI_Comm_dup\<close> is entered with the ranks of the original but without a barrier group. A barrier on it is left
  to the MPI library when it has fewer than four processes; with four or more \<open>MPI_Barrier\<close> passes NULL to \<open>utf_barrier\<close>, which dereferences it. (For handles of eight
  bytes; with four, the barrier on the original is lost too, see below.)
\<close>

theorem comm_dup_barrier:
  assumes t: "tabs (tables s) G C (Suc n) (Suc m)" "map_of C c = Some (r, b)" "map_of C c' = None" and m: "x_malloc (mp E) X_ranks"
    and p: "PMPI_Comm_dup (mp E) c (plib s) = (MPI_SUCCESS, c', w)" and en: "mpi_bg_enabled s"
  shows "\<exists>s'. MPI_Comm_dup E c s = ret (MPI_SUCCESS, c', s') \<and> tabs (tables s') G (C @ [(c', r, None)]) n m
    \<and> MPI_Barrier E c' s' = (if length r < UTF_BG_MIN_BARRIER_SIZE then ret (pcall (PMPI_Barrier (mp E) c') s') else crash NullDeref)"
proof -
  from cominfo_dup_tabs [OF t(1,2), of c'] obtain t' where t': "cominfo_dup True c c' (tables s) = ret t'" "tabs t' G (C @ [(c', r, None)]) n m" by blast
  let ?s = "s\<lparr>plib := w, tables := t'\<rparr>"
  have d: "MPI_Comm_dup E c s = ret (MPI_SUCCESS, c', ?s)"
    using m t'(1) by (simp add: MPI_Comm_dup_def pcall_new_eq [of "PMPI_Comm_dup (mp E) c", OF p])
  have "map_of (C @ [(c', r, None)]) c' = Some (r, None)" using t(3) by (simp add: map_add_def)
  moreover have "tabs (tables ?s) G (C @ [(c', r, None)]) n m" using t'(2) by simp
  ultimately obtain x k e where "com_find c' ?s = ret x" "ce_grp x = Some k" "ce_bg_grp x = None"
    "grp_at (tables ?s) (Some (Grp k)) = ret (k, e)" "ge_size e = length r" using com_find_tabs by blast
  then have "MPI_Barrier E c' ?s = (if length r < UTF_BG_MIN_BARRIER_SIZE then ret (pcall (PMPI_Barrier (mp E) c') ?s) else crash NullDeref)"
    using en by (simp add: MPI_Barrier_def call_group_def load_group_def)
  with d t'(2) show ?thesis by auto
qed

text \<open>\<open>MPI_Comm_create\<close> enters the new communicator with the ranks and the barrier group of the old one; the group that
  was asked for is looked up, but only its handle is used. (For handles of eight bytes.)
\<close>

theorem comm_create_keeps_parent:
  assumes t: "tabs (tables s) G C (Suc n) (Suc m)" "map_of C c = Some (r, b)" "map_of G g = Some rg" and m: "x_malloc (mp E) X_ranks"
    and p: "PMPI_Comm_create (mp E) c g (plib s) = (MPI_SUCCESS, c', w)" "c' \<noteq> MPI_COMM_NULL (mp E)"
  shows "\<exists>s'. MPI_Comm_create E c g s = ret (MPI_SUCCESS, c', s') \<and> tabs (tables s') G (C @ [(c', r, b)]) n m"
proof -
  from t(1) obtain gs k fs os cs j zs where l: "layout (tables s) gs (k # fs) os cs (j # zs) G C" and nm: "length fs = n" "length zs = m"
    by (auto simp: tabs_def length_Suc_conv)
  from cominfo_get_layout(2) [OF l t(2)] obtain i x e where i: "cominfo_get c (tables s) = ret (Some i)"
    "cominfo_entarray (tables s) i = Some \<lparr>ce_comm = c, ce_grp = Some x, ce_bg_grp = b\<rparr>" "grpinfo_entarray (tables s) x = Some e" "holds e r" by blast
  have "glayout (tables s) gs (k # fs) G" using l by (simp add: layout_def)
  from grpinfo_get_glayout(2) [OF this t(3)] obtain y f where y: "grpinfo_get g (tables s) = ret (Some y)" "grpinfo_entarray (tables s) y = Some f" by blast
  from grpinfo_dup_layout [OF l i(3,4), of "ge_grp f"] obtain t1 e1 where t1: "grpinfo_dup True x (ge_grp f) (tables s) = ret (k, t1)"
    "layout t1 gs fs os cs (j # zs) G C" "k \<notin> set (gs @ fs)" "grpinfo_entarray t1 k = Some e1" "holds e1 r" by blast
  from cominfo_reg_layout [OF t1(2-5), of c' b] obtain t2 where t2: "cominfo_reg c' k b t1 = ret (j, t2)"
    "layout t2 gs fs (os @ [k]) (cs @ [j]) zs G (C @ [(c', r, b)])" by blast
  have "MPI_Comm_create E c g s = ret (MPI_SUCCESS, c', s\<lparr>plib := w, tables := t2\<rparr>)"
    using layout_apart [OF l] m i(1,2) y t1(1) t2(1) p(2) by (simp add: MPI_Comm_create_def pcall_new_eq [of "PMPI_Comm_create (mp E) c g", OF p(1)] ent_at_def com_grp_def)
  with t2(2) nm show ?thesis by (auto dest: tabsI)
qed

section \<open>Handles of four bytes\<close>

lemma com_look_find:
  assumes "com_look c (tables s) = ret (Some (r, b))"
  shows "\<exists>x k e. com_find c s = ret x \<and> ce_grp x = Some k \<and> ce_bg_grp x = b \<and> grp_at (tables s) (Some (Grp k)) = ret (k, e) \<and> ge_size e = length r"
proof -
  from assms obtain j i x k i' e where q: "cominfo_get c (tables s) = ret (Some j)" "com_at (tables s) (Some (Com j)) = ret (i, x)" "com_grp (tables s) j = ret k"
    "grp_at (tables s) (Some (Grp k)) = ret (i', e)" "ranks_of e = ret r" "ce_bg_grp x = b"
    by (auto simp: com_look_def bindO_eq_ret split: option.splits)
  have "i' = k" using q(4) by (auto simp: grp_at_def split: option.splits)
  have "ce_grp x = Some k" using q(2,3) by (auto simp: com_grp_def split: option.splits)
  moreover have "ge_size e = length r" using q(5) by (auto simp: ranks_of_def split: if_splits option.splits)
  ultimately show ?thesis using q \<open>i' = k\<close> by (auto simp: com_find_def)
qed

text \<open>C40: where handles are integers of four bytes, as in MPICH, the barrier group of \<open>MPI_COMM_WORLD\<close> does not survive the first \<open>MPI_Comm_dup\<close>: the member
  \<open>bg_grp\<close> of its entry is the link of the second entry, which is set to NULL when that entry is appended to the list. The barrier on
  \<open>MPI_COMM_WORLD\<close> then dereferences NULL.
\<close>

theorem int_handles_lose_group:
  assumes hb: "\<not> com_apart hb" and t: "bindO (comgrpinfo_init True True GROUPINFO_SIZE (comgrp_zero hb)) (com_enter c (r, Some a)) = ret (tables s)"
    and r: "UTF_BG_MIN_BARRIER_SIZE \<le> length r" and en: "mpi_bg_enabled s" and m: "x_malloc (mp E) X_ranks"
    and p: "PMPI_Comm_dup (mp E) c (plib s) = (MPI_SUCCESS, c', w)" "c' \<noteq> c"
  shows "com_look c (tables s) = ret (Some (r, Some a)) \<and> (\<exists>s'. MPI_Comm_dup E c s = ret (MPI_SUCCESS, c', s')
    \<and> com_look c (tables s') = ret (Some (r, None)) \<and> MPI_Barrier E c s' = crash NullDeref)"
proof -
  have n: "3 \<le> GROUPINFO_SIZE" by (simp add: GROUPINFO_SIZE_def)
  from world_entered [OF n hb, of c r a] t obtain h where h: "tables s = narrow_tables hb GROUPINFO_SIZE c r a h" by auto
  from narrow_dup [OF n hb p(2), of r a h] obtain t' where t': "cominfo_dup True c c' (tables s) = ret t'" "com_look c t' = ret (Some (r, None))" unfolding h by blast
  let ?s = "s\<lparr>plib := w, tables := t'\<rparr>"
  have "MPI_Comm_dup E c s = ret (MPI_SUCCESS, c', ?s)"
    using m t'(1) by (simp add: MPI_Comm_dup_def pcall_new_eq [of "PMPI_Comm_dup (mp E) c", OF p(1)])
  moreover have look: "com_look c (tables ?s) = ret (Some (r, None))" using t'(2) by simp
  moreover from com_look_find [OF look] have "MPI_Barrier E c ?s = crash NullDeref"
    using en r by (auto simp: MPI_Barrier_def call_group_def load_group_def)
  ultimately show ?thesis using narrow_look [OF _ hb, of GROUPINFO_SIZE c r a h] n h by auto
qed

section \<open>Barrier groups switched off\<close>

lemma zero_tables: "cominfo_get c (comgrp_zero hb) = ret None" "grp_take (comgrp_zero hb) = ret (None, comgrp_zero hb)"
  by (simp_all add: cominfo_get_def grp_take_def utfslist_remove_def utfslist_init_def comgrp_zero_def no_list_def utfslist_foreach2.simps [of _ _ None])

text \<open>With \<open>UTF_BG_DISABLE\<close> in the environment \<open>MPI_Init\<close> succeeds without making the tables and the collective operations are those of the MPI
  library, but the functions on groups and communicators do not look at the switch: \<open>MPI_Comm_group\<close> and \<open>MPI_Comm_split\<close> dereference NULL.
\<close>

theorem disabled_groups_crash:
  assumes z: "tables s = comgrp_zero hb" "mpi_init_nfirst s = 0" "\<not> mpi_bg_enabled s" "cg_nprocs s = 0"
    and env: "g_getenv (ba E) ''UTF_BG_DISABLE'' = Some v" "atoi v \<noteq> 0"
    and p: "PMPI_Init (mp E) (plib s) = (MPI_SUCCESS, w)" "PMPI_Comm_group (mp E) c w = (MPI_SUCCESS, g, w2)"
      "PMPI_Comm_split (mp E) c color key w = (MPI_SUCCESS, c', w3)"
    and m: "x_malloc (mp E) X_inf1" "x_malloc (mp E) X_inf2" "PMPI_Comm_rank (mp E) c w3 < PMPI_Comm_size (mp E) c w3"
  shows "\<exists>s'. MPI_Init E s = ret (MPI_SUCCESS, s') \<and> MPI_Barrier E c s' = ret (pcall (PMPI_Barrier (mp E) c) s')
    \<and> MPI_Comm_group E c s' = crash NullDeref \<and> MPI_Comm_split E c color key s' = crash NullDeref"
proof -
  let ?s = "(option_get (g_getenv (ba E)) (s\<lparr>mpi_init_nfirst := mpi_init_nfirst s + 1\<rparr>))\<lparr>plib := w\<rparr>"
  have o: "plib (option_get (g_getenv (ba E)) (s\<lparr>mpi_init_nfirst := mpi_init_nfirst s + 1\<rparr>)) = plib s" by (simp add: option_get_def)
  have f: "tables ?s = comgrp_zero hb" "\<not> mpi_bg_enabled ?s" "cg_nprocs ?s = 0" "mpi_bg_disable ?s" "plib ?s = w"
    using z env by (simp_all add: option_get_def option_set_def)
  have "MPI_Init E s = ret (MPI_SUCCESS, ?s)" using z(2) f(4) o p(1) by (simp add: MPI_Init_def Let_def pcall_def MPI_SUCCESS_def)
  moreover have "MPI_Barrier E c ?s = ret (pcall (PMPI_Barrier (mp E) c) ?s)" using f(2) by (simp add: MPI_Barrier_def)
  moreover have "cominfo_get c (tables (?s\<lparr>plib := w2\<rparr>)) = ret None"
    using f(1) zero_tables(1) by simp
  then have "MPI_Comm_group E c ?s = crash NullDeref"
    using f(5) p(2) by (simp add: MPI_Comm_group_def pcall_new_eq [of "PMPI_Comm_group (mp E) c"])
  moreover obtain inf1 w4 where "MPI_Allgather (mp E) (color, key, int (PMPI_Comm_size (mp E) c w3)) c w3 = (inf1, w4)" by fastforce
  then have "MPI_Comm_split E c color key ?s = crash NullDeref"
    using f p(3) m zero_tables(2) [of hb]
    by (simp add: MPI_Comm_split_def Let_def pcall_new_eq [of "PMPI_Comm_split (mp E) c color key"] grp_fill_def grp_at_def)
  ultimately show ?thesis by blast
qed

section \<open>The invariant of the tables\<close>














section \<open>Every step keeps the invariant\<close>

























section \<open>An instance\<close>

text \<open>
  An MPI library for the witnesses: process \<open>P\<close> of four, new handles counted from 100, \<open>xchg\<close> for the exchange of
  words; and a process that has entered \<open>MPI_COMM_WORLD\<close> (with the barrier group at address 0) and two groups.
\<close>

definition new_handle :: "int \<Rightarrow> int \<times> int \<times> int" where
  "new_handle w = (0, 100 + \<bar>w\<bar>, \<bar>w\<bar> + 1)"

definition demo_lib :: "nat \<Rightarrow> (u64 list \<Rightarrow> u64 list) \<Rightarrow> int pmpi" where
  "demo_lib P xchg = \<lparr>MPI_COMM_WORLD = 1, MPI_COMM_NULL = 0, x_malloc = (\<lambda>_. True), x_uninit = (\<lambda>_. 0), jtofu_query_max_proc_per_node = 1,
     PMPI_Init = (\<lambda>w. (0, w)), PMPI_Init_thread = (\<lambda>r w. (0, r, w)), PMPI_Finalize = (\<lambda>w. (0, w)), PMPI_Barrier = (\<lambda>_ w. (0, w)),
     PMPI_Comm_size = (\<lambda>_ _. 4), PMPI_Comm_rank = (\<lambda>_ _. P), PMPI_Alltoall = (\<lambda>l _ w. (0, xchg l, w)), MPI_Allgather = (\<lambda>x _ w. ([x, x, x, x], w)),
     MPI_Type_size = (\<lambda>t. if t = MPI_BYTE then 1 else 8), PMPI_Bcast = (\<lambda>_ _ _ _ _ m w. (0, m, w)), PMPI_Reduce = (\<lambda>_ _ _ _ _ _ _ m w. (0, m, w)),
     PMPI_Allreduce = (\<lambda>_ _ _ _ _ _ m w. (0, m, w)), PMPI_Comm_group = (\<lambda>_. new_handle), PMPI_Group_union = (\<lambda>_ _. new_handle),
     PMPI_Group_intersection = (\<lambda>_ _. new_handle), PMPI_Group_difference = (\<lambda>_ _. new_handle), PMPI_Group_incl = (\<lambda>_ _ _. new_handle),
     PMPI_Group_excl = (\<lambda>_ _ _. new_handle), PMPI_Group_range_incl = (\<lambda>_ _ _. new_handle), PMPI_Group_range_excl = (\<lambda>_ _ _. new_handle),
     PMPI_Group_free = (\<lambda>_ w. (0, 0, w)), PMPI_Comm_create = (\<lambda>_ _. new_handle), PMPI_Comm_dup = (\<lambda>_. new_handle),
     PMPI_Comm_dup_with_info = (\<lambda>_ _. new_handle), PMPI_Comm_split = (\<lambda>_ _ _. new_handle), PMPI_Comm_free = (\<lambda>_ w. (0, 0, w)),
     PMPI_Cart_create = (\<lambda>_ _ _ _ _. new_handle), PMPI_Graph_create = (\<lambda>_ _ _ _ _. new_handle), PMPI_Cart_sub = (\<lambda>_ _. new_handle),
     PMPI_Dist_graph_create_adjacent = (\<lambda>_ _ _ _ _ _ _. new_handle), PMPI_Dist_graph_create = (\<lambda>_ _ _ _ _ _ _. new_handle),
     PMPI_Comm_idup = (\<lambda>_. new_handle)\<rparr>"

definition demo_env :: "nat \<Rightarrow> (u64 list \<Rightarrow> u64 list) \<Rightarrow> 'w bgapi \<Rightarrow> 'w vbgapi \<Rightarrow> (int, 'w, simw) mpi_env" where
  "demo_env P xchg b v = \<lparr>mp = demo_lib P xchg, ba = b, va = v, ua = sim_nic, tofu_of = demo_vname\<rparr>"

definition demo_mpi :: "bool \<Rightarrow> comgrp \<Rightarrow> 'w bg_state \<Rightarrow> 'w vbg \<Rightarrow> (int, 'w, simw) mpi" where
  "demo_mpi on t b v = \<lparr>mpi_bg_enabled = on, mpi_bg_disable = False, mpi_bg_dbg = False, mpi_bg_barrier = False, mpi_bg_iniwait = 0, mpi_bg_utfprogress = False,
     mpi_bg_confirm = False, mpi_world_grp = None, mpi_bg_bginfo = None, mpi_bg_nprocs = 4, mpi_bg_myrank = 0, mpi_init_nfirst = 0, cg_nprocs = 0,
     tables = t, next_addr = 0, bgs = b, vcoll = v, utfs = demo_full, plib = 0\<rparr>"

definition the_ret :: "'a outcome \<Rightarrow> 'a" where
  "the_ret m = (case m of Some (Inr x) \<Rightarrow> x | _ \<Rightarrow> undefined)"

lemma the_ret [simp]: "the_ret (ret x) = x"
  by (simp add: the_ret_def ret_def)

text \<open>Tables with eight entries for handles of \<open>hb\<close> bytes, the world and two groups.\<close>

definition demo_tables :: "nat \<Rightarrow> comgrp" where
  "demo_tables hb = the_ret (bindO (comgrpinfo_init True True 8 (comgrp_zero hb)) (\<lambda>t. bindO (com_enter 1 ([0, 1, 2, 3], Some 0) t) (\<lambda>t.
     bindO (grp_enter 10 [0, 1, 2] t) (grp_enter 11 [2, 3]))))"

lemma demo_gtabs:
  "gtabs (demo_tables hb) [(10, [0, 1, 2]), (11, [2, 3])] (Suc 4) \<and> com_look 1 (demo_tables hb) = ret (Some ([0, 1, 2, 3], Some 0))"
proof -
  from world_look [of 8 hb 1 "[0, 1, 2, 3]" 0] obtain t1 where t1: "bindO (comgrpinfo_init True True 8 (comgrp_zero hb)) (com_enter 1 ([0, 1, 2, 3], Some 0)) = ret t1"
    "com_look 1 t1 = ret (Some ([0, 1, 2, 3], Some 0))" by auto
  from world_cwf [OF _ t1(1), of 0] have "gtabs t1 [] (Suc 6)" by simp
  from grpinfo_reg_gtabs [OF this, of "[0, 1, 2]" "[0, 1, 2]" 10] obtain t2 where
    t2: "grp_enter 10 [0, 1, 2] t1 = ret t2" "gtabs t2 [(10, [0, 1, 2])] (Suc 5)" "same_coms t1 t2" by (auto simp: grp_enter_def)
  from grpinfo_reg_gtabs [OF t2(2), of "[2, 3]" "[2, 3]" 11] obtain t3 where
    t3: "grp_enter 11 [2, 3] t2 = ret t3" "gtabs t3 [(10, [0, 1, 2]), (11, [2, 3])] 5" "same_coms t2 t3" by (auto simp: grp_enter_def)
  have "com_look 1 t3 = ret (Some ([0, 1, 2, 3], Some 0))" using same_coms_look [OF same_coms_trans [OF t2(3) t3(3)]] t1(2) by simp
  moreover from t1(1) obtain t0 where "comgrpinfo_init True True 8 (comgrp_zero hb) = ret t0" "com_enter 1 ([0, 1, 2, 3], Some 0) t0 = ret t1" by (auto simp: bindO_eq_ret)
  ultimately show ?thesis using t2(1) t3(1,2) by (simp add: demo_tables_def eval_nat_numeral)
qed

lemma demo_tabs: "tabs (demo_tables 8) [(10, [0, 1, 2]), (11, [2, 3])] [(1, [0, 1, 2, 3], Some 0)] (Suc 4) (Suc 6)"
proof -
  from comgrpinfo_init_tabs [of "comgrp_zero 8" 8] obtain t0 where t0: "comgrpinfo_init True True 8 (comgrp_zero 8) = ret t0" "tabs t0 [] [] (Suc 7) (Suc 7)"
    by (auto simp: comgrp_zero_def handles_8)
  from com_enter_tabs [OF t0(2), of 1 "[0, 1, 2, 3]" "Some 0"] obtain t1 where t1: "com_enter 1 ([0, 1, 2, 3], Some 0) t0 = ret t1"
    "tabs t1 [] [(1, [0, 1, 2, 3], Some 0)] (Suc 6) 7" by auto
  from grpinfo_reg_tabs [OF t1(2), of "[0, 1, 2]" "[0, 1, 2]" 10] obtain t2 where t2: "grp_enter 10 [0, 1, 2] t1 = ret t2" "tabs t2 [(10, [0, 1, 2])] [(1, [0, 1, 2, 3], Some 0)] (Suc 5) 7"
    by (auto simp: grp_enter_def)
  from grpinfo_reg_tabs [OF t2(2), of "[2, 3]" "[2, 3]" 11] obtain t3 where "grp_enter 11 [2, 3] t2 = ret t3"
    "tabs t3 [(10, [0, 1, 2]), (11, [2, 3])] [(1, [0, 1, 2, 3], Some 0)] 5 7" by (auto simp: grp_enter_def)
  with t0(1) t1(1) t2(1) show ?thesis by (simp add: demo_tables_def eval_nat_numeral)
qed

abbreviation demo_E :: "(int, unit, simw) mpi_env" where
  "demo_E \<equiv> demo_env 0 id (demo_api 0) \<lparr>v_barrier = \<lambda>_ w. (V_SUCCESS, w), v_poll_barrier = \<lambda>_ w. (V_SUCCESS, w), v_reduce_uint64 = \<lambda>_ _ _ w. (V_SUCCESS, w),
     v_poll_reduce_uint64 = \<lambda>_ w. (V_SUCCESS, [], w), v_reduce_double = \<lambda>_ _ _ w. (V_SUCCESS, w), v_poll_reduce_double = \<lambda>_ w. (V_SUCCESS, [], w),
     f64_add = (+), f64_of_f32 = ucast, f32_of_f64 = ucast, f64_of_f16 = ucast, f16_of_f64 = ucast\<rparr>"

definition demo_idle_vbg :: "unit vbg" where
  "demo_idle_vbg = \<lparr>pinfo = demo_info [], vgrp = \<lparr>g_vbg_id = 7, g_my_index = 0, g_manager = True, g_size = 1, g_intra_index = 0, g_curr_seq = 0\<rparr>, bg_counter = 0,
     poll_barrier_func = Some UTF_POLL_BARRIER, poll_reduce_func = None, intra_is_tofu = True, vmem = (\<lambda>_. None), shm_seq = (\<lambda>_. 0), shm_buf = (\<lambda>_. []), vworld = ()\<rparr>"

abbreviation demo_s :: "(int, unit, simw) mpi" where
  "demo_s \<equiv> demo_mpi True (demo_tables 8) demo_process demo_idle_vbg"

text \<open>The same with handles of four bytes.\<close>

abbreviation demo_n :: "(int, unit, simw) mpi" where
  "demo_n \<equiv> demo_mpi True (demo_tables 4) demo_process demo_idle_vbg"

lemmas demo_eval = demo_env_def demo_lib_def demo_mpi_def new_handle_def MPI_SUCCESS_def

lemma demo_s_tabs: "tabs (tables demo_s) [(10, [0, 1, 2]), (11, [2, 3])] [(1, [0, 1, 2, 3], Some 0)] (Suc 4) (Suc 6)"
  using demo_tabs by (simp add: demo_mpi_def)

lemma demo_n_gtabs: "gtabs (tables demo_n) [(10, [0, 1, 2]), (11, [2, 3])] (Suc 4)"
  using demo_gtabs [of 4] by (simp add: demo_mpi_def)

section \<open>Witnesses\<close>

theorem group_set_operations_witness:
  "(\<exists>t. MPI_Group_union demo_E 10 11 demo_n = ret (MPI_SUCCESS, 100, demo_n\<lparr>plib := 1, tables := t\<rparr>)
      \<and> gtabs t [(10, [0, 1, 2]), (11, [2, 3]), (100, [0, 1, 2, 3])] 4 \<and> same_coms (demo_tables 4) t)
   \<and> (\<exists>t. MPI_Group_intersection demo_E 10 11 demo_n = ret (MPI_SUCCESS, 100, demo_n\<lparr>plib := 1, tables := t\<rparr>)
      \<and> gtabs t [(10, [0, 1, 2]), (11, [2, 3]), (100, [2])] 4 \<and> same_coms (demo_tables 4) t)
   \<and> (\<exists>t. MPI_Group_difference demo_E 10 11 demo_n = ret (MPI_SUCCESS, 100, demo_n\<lparr>plib := 1, tables := t\<rparr>)
      \<and> gtabs t [(10, [0, 1, 2]), (11, [2, 3]), (100, [0, 1])] 4 \<and> same_coms (demo_tables 4) t)"
  using group_set_operations [OF demo_n_gtabs, of 10 "[0, 1, 2]" 11 "[2, 3]" demo_E 100 1 100 1 100 1] by (simp add: demo_eval)

theorem group_incl_excl_witness:
  "(\<exists>t. MPI_Group_incl demo_E 10 2 [2, 0] demo_n = ret (MPI_SUCCESS, 100, demo_n\<lparr>plib := 1, tables := t\<rparr>)
      \<and> gtabs t [(10, [0, 1, 2]), (11, [2, 3]), (100, [2, 0])] 4 \<and> same_coms (demo_tables 4) t)
   \<and> (\<exists>t. MPI_Group_excl demo_E 10 2 [2, 0] demo_n = ret (MPI_SUCCESS, 100, demo_n\<lparr>plib := 1, tables := t\<rparr>)
      \<and> gtabs t [(10, [0, 1, 2]), (11, [2, 3]), (100, [1])] 4 \<and> same_coms (demo_tables 4) t)"
proof -
  have "nths [0, 1, 2 :: u32] {i. int i \<notin> set [2, 0]} = [1]" by (simp add: nths_Cons)
  then show ?thesis
    using group_incl_excl [OF demo_n_gtabs, of 10 "[0, 1, 2]" demo_E "[2, 0]" 100 1 100 1] by (simp add: demo_eval)
qed

theorem comm_split_fails_witness:
  "\<exists>s'. MPI_Comm_split demo_E 1 0 5 demo_n = ret (-1, 100, s')
     \<and> gtabs (tables s') [(10, [0, 1, 2]), (11, [2, 3])] 4 \<and> same_coms (demo_tables 4) (tables s') \<and> bgs s' = demo_process"
  using comm_split_fails [OF demo_n_gtabs, of demo_E 1 0 5 100 1] by (simp add: demo_eval)

theorem comm_dup_barrier_witness:
  "\<exists>s'. MPI_Comm_dup demo_E 1 demo_s = ret (MPI_SUCCESS, 100, s')
     \<and> tabs (tables s') [(10, [0, 1, 2]), (11, [2, 3])] [(1, [0, 1, 2, 3], Some 0), (100, [0, 1, 2, 3], None)] 4 6
     \<and> MPI_Barrier demo_E 100 s' = crash NullDeref"
  using comm_dup_barrier [OF demo_s_tabs, of 1 "[0, 1, 2, 3]" "Some 0" 100 demo_E 1] by (simp add: demo_eval UTF_BG_MIN_BARRIER_SIZE_def)

theorem comm_create_keeps_parent_witness:
  "\<exists>s'. MPI_Comm_create demo_E 1 10 demo_s = ret (MPI_SUCCESS, 100, s')
     \<and> tabs (tables s') [(10, [0, 1, 2]), (11, [2, 3])] [(1, [0, 1, 2, 3], Some 0), (100, [0, 1, 2, 3], Some 0)] 4 6"
  using comm_create_keeps_parent [OF demo_s_tabs, of 1 "[0, 1, 2, 3]" "Some 0" 10 "[0, 1, 2]" demo_E 100 1] by (simp add: demo_eval)

theorem int_handles_lose_group_witness:
  "\<exists>t s'. bindO (comgrpinfo_init True True GROUPINFO_SIZE (comgrp_zero 4)) (com_enter 1 ([0, 1, 2, 3], Some 0)) = ret t
     \<and> MPI_Comm_dup demo_E 1 (demo_mpi True t demo_process demo_idle_vbg) = ret (MPI_SUCCESS, 100, s') \<and> MPI_Barrier demo_E 1 s' = crash NullDeref"
proof -
  have "3 \<le> GROUPINFO_SIZE" by (simp add: GROUPINFO_SIZE_def)
  from world_entered [OF this handles_4] obtain t where
    t: "bindO (comgrpinfo_init True True GROUPINFO_SIZE (comgrp_zero 4)) (com_enter 1 ([0, 1, 2, 3], Some 0)) = ret t" by blast
  have "bindO (comgrpinfo_init True True GROUPINFO_SIZE (comgrp_zero 4)) (com_enter 1 ([0, 1, 2, 3], Some 0)) = ret (tables (demo_mpi True t demo_process demo_idle_vbg))"
    using t by (simp add: demo_mpi_def)
  from int_handles_lose_group [OF handles_4 this, of demo_E 100 1] t show ?thesis by (auto simp: demo_eval UTF_BG_MIN_BARRIER_SIZE_def)
qed

theorem disabled_groups_crash_witness:
  "\<exists>E s'. g_getenv (ba E) ''UTF_BG_DISABLE'' = Some ''1'' \<and> MPI_Init E (demo_mpi False (comgrp_zero 8) demo_process demo_idle_vbg) = ret (MPI_SUCCESS, s')
     \<and> MPI_Barrier E 1 s' = ret (pcall (PMPI_Barrier (mp E) 1) s') \<and> MPI_Comm_group E 1 s' = crash NullDeref \<and> MPI_Comm_split E 1 0 5 s' = crash NullDeref"
proof -
  let ?E = "demo_E\<lparr>ba := (demo_api 0)\<lparr>g_getenv := \<lambda>x. if x = ''UTF_BG_DISABLE'' then Some ''1'' else None\<rparr>\<rparr>"
    and ?s = "demo_mpi False (comgrp_zero 8) demo_process demo_idle_vbg"
  have "atoi ''1'' \<noteq> 0" by code_simp
  then have "\<exists>s'. MPI_Init ?E ?s = ret (MPI_SUCCESS, s') \<and> MPI_Barrier ?E 1 s' = ret (pcall (PMPI_Barrier (mp ?E) 1) s')
      \<and> MPI_Comm_group ?E 1 s' = crash NullDeref \<and> MPI_Comm_split ?E 1 0 5 s' = crash NullDeref"
    by (intro disabled_groups_crash [where v = "''1''" and w = 0 and g = 100 and c' = 100]) (simp_all add: demo_eval)
  then show ?thesis by (intro exI [of _ ?E]) simp
qed



end
