(* ===== verification/Mpi_Coll_Props.thy ===== *)
theory Mpi_Coll_Props
  imports Mpi_Props Vbg_Collectives Vbg_Group_Props
begin

text \<open>
  The collective operations of the MPI layer: a broadcast over the barrier gates from the call to the
  result, the group of all processes from \<open>MPI_Init\<close> to \<open>MPI_Finalize\<close>, and the calls that end badly.
\<close>

unbundle bit_operations_syntax

section \<open>Waiting for the gate\<close>

text \<open>After \<open>k\<close> polls that find the operation not completed the network is in the state \<open>v\<close>.\<close>

fun waits :: "'w vbgapi \<Rightarrow> u64 \<Rightarrow> nat \<Rightarrow> 'w \<Rightarrow> 'w \<Rightarrow> bool" where
  "waits api ids 0 w v \<longleftrightarrow> v = w"
| "waits api ids (Suc k) w v \<longleftrightarrow> (\<exists>ws w1. v_poll_reduce_uint64 api ids w = (V_ERR_NOT_COMPLETED, ws, w1) \<and> waits api ids k w1 v)"

lemma poll_reduce_waits:
  assumes "poll_reduce_func (vcoll s) = Some Poll_bcast" and "waits (va E) (utf_bg_poll_ids (pinfo (vcoll s))) k (b_net (bgs s)) v"
    and "\<not> mpi_bg_utfprogress s" and "utf_poll_reduce (va E) True ((vcoll s)\<lparr>vworld := v\<rparr>) = ret (V_SUCCESS, d, u)"
  shows "mpi_bg_poll_reduce E s = ret (s\<lparr>vcoll := u, bgs := (bgs s)\<lparr>b_net := vworld u\<rparr>\<rparr>)"
  using assms
proof (induction k arbitrary: s)
  case 0
  then have "reduce_poll E s = ret (V_SUCCESS, s\<lparr>vcoll := u, bgs := (bgs s)\<lparr>b_net := vworld u\<rparr>\<rparr>)"
    by (simp add: reduce_poll_def poll_once_def)
  then show ?case by (simp add: mpi_bg_poll_reduce_def poll_loop.simps [of "reduce_poll E" _ s] ret_def)
next
  case (Suc k)
  from Suc.prems(2) obtain ws w1 where w1: "v_poll_reduce_uint64 (va E) (utf_bg_poll_ids (pinfo (vcoll s))) (b_net (bgs s)) = (V_ERR_NOT_COMPLETED, ws, w1)"
    "waits (va E) (utf_bg_poll_ids (pinfo (vcoll s))) k w1 v" by auto
  let ?s = "s\<lparr>vcoll := (vcoll s)\<lparr>vworld := w1\<rparr>, bgs := (bgs s)\<lparr>b_net := w1\<rparr>\<rparr>"
  have "reduce_poll E s = ret (V_ERR_NOT_COMPLETED, ?s)"
    using Suc.prems(1) w1(1) by (simp add: reduce_poll_def poll_once_def utf_poll_reduce_def utf_poll_bcast_def poll_then_def)
  then have "mpi_bg_poll_reduce E s = mpi_bg_poll_reduce E ?s"
    using Suc.prems(3) by (simp add: mpi_bg_poll_reduce_def poll_loop.simps [of "reduce_poll E" _ s] run_progress_def ret_def)
  also have "\<dots> = ret (?s\<lparr>vcoll := u, bgs := (bgs ?s)\<lparr>b_net := vworld u\<rparr>\<rparr>)"
    using Suc.prems w1(2) by (intro Suc.IH) simp_all
  finally show ?case by simp
qed

section \<open>Broadcast\<close>

text \<open>The call as process \<open>p\<close> of a communicator served by a barrier group makes it, up to the start of the gate.\<close>

definition bcast_started :: "('p, 'w, 'u) mpi_env \<Rightarrow> ('p, 'w, 'u) mpi \<Rightarrow> addr \<Rightarrow> int \<Rightarrow> MPI_Datatype \<Rightarrow> nat \<Rightarrow> int \<Rightarrow> nat \<Rightarrow> 'w vbg \<Rightarrow> bool" where
  "bcast_started E s buf count dt r c p st' \<longleftrightarrow> mpi_bg_enabled s \<and> b_is_tofu (bgs s)
   \<and> (\<exists>x a g. com_find c s = ret x \<and> ce_bg_grp x = Some a \<and> load_group (Some a) s = Some g \<and> g_my_index g = int p
      \<and> utf_broadcast (va E) buf (bcast_size (MPI_Type_size (mp E) dt) count) (int r) (enter_vbg g s) = ret (V_SUCCESS, st'))"

lemma bcast_poll_func:
  "utf_broadcast api buf sz root s = ret (V_SUCCESS, s') \<Longrightarrow> UTF_BG_ALGORITHM s \<Longrightarrow> poll_reduce_func s' = Some Poll_bcast"
  using broadcast_start [of api buf sz root s s'] by (auto simp: gate_started_def)

text \<open>C9: \<open>MPI_Bcast\<close> over the barrier gates. All \<open>N\<close> processes of a communicator call it with up to 48 bytes; the gates combine the
  words the processes have posted; process \<open>q\<close> polls \<open>k\<close> times in vain and then finds the combination. Its call returns success and
  its buffer has the bytes that the root had in its own at the call.
\<close>

theorem mpi_bcast_delivers:
  assumes r: "r < N" and sz: "\<And>p. p < N \<Longrightarrow> bcast_size (MPI_Type_size (mp (E p)) dt) count = sz"
    and start: "\<And>p. p < N \<Longrightarrow> bcast_started (E p) (s p) (buf p) count dt r c p (st' p)"
    and q: "q < N" and mem: "vmem (vcoll (s q)) (fst (buf q)) = Some m" "snd (buf q) + sz \<le> length m" and prog: "\<not> mpi_bg_utfprogress (s q)"
    and wait: "waits (va (E q)) (utf_bg_poll_ids (pinfo (st' q))) k (vworld (st' q)) v"
    and poll: "v_poll_reduce_uint64 (va (E q)) (utf_bg_poll_ids (pinfo (st' q))) v = (V_SUCCESS, gate_result N (\<lambda>p. posted (vworld (st' p))), w)"
    and posts: "\<And>p. p < N \<Longrightarrow> gate_posts (va (E p)) posted"
  shows "\<exists>bs s'. vload (buf r) sz (vcoll (s r)) = ret bs \<and> MPI_Bcast (E q) (buf q) count dt (int r) c (s q) = ret (MPI_SUCCESS, s')
    \<and> vload (buf q) sz (vcoll s') = ret bs"
proof -
  have "\<exists>x a g. p < N \<longrightarrow> com_find c (s p) = ret x \<and> ce_bg_grp x = Some a \<and> load_group (Some a) (s p) = Some g \<and> g_my_index g = int p
      \<and> utf_broadcast (va (E p)) (buf p) sz (int r) (enter_vbg g (s p)) = ret (V_SUCCESS, st' p)" for p
    using start [of p] sz [of p] by (auto simp: bcast_started_def)
  then obtain x a g where b: "\<And>p. p < N \<Longrightarrow> com_find c (s p) = ret (x p) \<and> ce_bg_grp (x p) = Some (a p) \<and> load_group (Some (a p)) (s p) = Some (g p)
      \<and> g_my_index (g p) = int p \<and> utf_broadcast (va (E p)) (buf p) sz (int r) (enter_vbg (g p) (s p)) = ret (V_SUCCESS, st' p)" by metis
  let ?st = "\<lambda>p. enter_vbg (g p) (s p)"
  have st: "UTF_BG_ALGORITHM (?st p) \<and> g_my_index (vgrp (?st p)) = int p \<and> utf_broadcast (va (E p)) (buf p) sz (int r) (?st p) = ret (V_SUCCESS, st' p)"
    if "p < N" for p using b [OF that] start [OF that] by (simp add: enter_vbg_def UTF_BG_ALGORITHM_def bcast_started_def)
  have mem': "vmem (?st q) (fst (buf q)) = Some m" using mem(1) by (simp add: enter_vbg_def)
  have ld: "vload (buf p) sz (?st p) = vload (buf p) sz (vcoll (s p))" for p by (simp add: vload_def enter_vbg_def)
  obtain bs u where u: "vload (buf r) sz (vcoll (s r)) = ret bs" "utf_poll_reduce (va (E q)) True ((st' q)\<lparr>vworld := v\<rparr>) = ret (V_SUCCESS, Some (buf q), u)"
    "vload (buf q) sz u = ret bs"
    using broadcast_delivers [where api = "\<lambda>p. va (E p)" and st = ?st and st' = st' and buf = buf and data = True, OF r st q mem' mem(2) poll posts] unfolding ld by auto
  let ?s1 = "leave_vbg (Some (a q)) (st' q) (s q)"
  have "mpi_bg_poll_reduce (E q) ?s1 = ret (?s1\<lparr>vcoll := u, bgs := (bgs ?s1)\<lparr>b_net := vworld u\<rparr>\<rparr>)"
    using bcast_poll_func [of "va (E q)" "buf q" sz "int r" "?st q" "st' q"] st [OF q] wait prog u(2)
    by (intro poll_reduce_waits [where v = v and k = k]) (auto simp: leave_vbg_def Let_def)
  then have "MPI_Bcast (E q) (buf q) count dt (int r) c (s q) = ret (MPI_SUCCESS, ?s1\<lparr>vcoll := u, bgs := (bgs ?s1)\<lparr>b_net := vworld u\<rparr>\<rparr>)"
    using b [OF q] start [OF q] sz [OF q] by (simp add: MPI_Bcast_def Let_def call_group_def bcast_started_def MPI_SUCCESS_def vcode_def)
  with u show ?thesis by auto
qed

text \<open>The number of bytes is computed with 32 bits.\<close>

lemma bcast_size_int: "bcast_size siz count = unat (scast (word_of_int (siz * count) :: u32) :: u64)"
  by (simp only: bcast_size_def wi_hom_mult)

lemma bcast_size_wraps: "2 ^ 32 dvd siz * count \<Longrightarrow> bcast_size siz count = 0"
proof -
  assume d: "2 ^ 32 dvd siz * count"
  have "(word_of_int n :: u32) = 0" if "2 ^ 32 dvd n" for n using that by (simp add: word_of_int_eq_0_iff)
  from this [OF d] show ?thesis by (simp only: bcast_size_int) simp
qed

lemma bcast_size_exact: "0 \<le> siz * count \<Longrightarrow> siz * count < 2 ^ 31 \<Longrightarrow> bcast_size siz count = nat (siz * count)"
proof -
  have "unat (scast (word_of_int n :: u32) :: u64) = nat n" if a: "0 \<le> n" "n < 2 ^ 31" for n
  proof -
    have "signed_take_bit 31 n = n" using a by (simp add: signed_take_bit_int_eq_self_iff)
    then have "sint (word_of_int n :: u32) = n" by (simp add: signed_of_int)
    then have "(scast (word_of_int n :: u32) :: u64) = word_of_int n" by (simp add: scast_eq)
    moreover have "uint (word_of_int n :: u64) = n" using a by (simp add: uint_word_of_int)
    ultimately show ?thesis by (metis unat_eq_nat_uint)
  qed
  then show "0 \<le> siz * count \<Longrightarrow> siz * count < 2 ^ 31 \<Longrightarrow> bcast_size siz count = nat (siz * count)" unfolding bcast_size_int by blast
qed

text \<open>C39: a broadcast whose length is a multiple of 2^32 bytes is taken for one of no bytes. It is not left to the MPI library but run over
  the gates; it returns success, and the memory of the process is what it was.
\<close>

theorem bcast_of_4GiB_lost:
  assumes big: "2 ^ 32 dvd MPI_Type_size (mp E) dt * count" and start: "bcast_started E s buf count dt r c p st'"
    and prog: "\<not> mpi_bg_utfprogress s"
    and wait: "waits (va E) (utf_bg_poll_ids (pinfo st')) k (vworld st') v"
    and poll: "v_poll_reduce_uint64 (va E) (utf_bg_poll_ids (pinfo st')) v = (V_SUCCESS, G, w)"
  shows "\<exists>s'. MPI_Bcast E buf count dt (int r) c s = ret (MPI_SUCCESS, s') \<and> vmem (vcoll s') = vmem (vcoll s) \<and> plib s' = plib s"
proof -
  have z: "bcast_size (MPI_Type_size (mp E) dt) count = 0" by (rule bcast_size_wraps [OF big])
  from start obtain x a g where b: "com_find c s = ret x" "ce_bg_grp x = Some a" "load_group (Some a) s = Some g"
    "utf_broadcast (va E) buf 0 (int r) (enter_vbg g s) = ret (V_SUCCESS, st')" and en: "mpi_bg_enabled s" "b_is_tofu (bgs s)"
    unfolding bcast_started_def z by blast
  let ?st = "enter_vbg g s"
  have al: "UTF_BG_ALGORITHM ?st" using en by (simp add: UTF_BG_ALGORITHM_def enter_vbg_def)
  from broadcast_start [OF b(4) al] obtain ws where gs: "gate_started (va E) Poll_bcast UTF_REDUCE_OP_BOR ((0 + 7) div 8) buf UTF_BG_BCAST ((0 + 7) div 8)
      (word_of_nat 0) (g_my_index (vgrp ?st) = int r) ws ?st st'" by blast
  let ?t = "put_odata G (st'\<lparr>vworld := w\<rparr>)"
  have t: "vmem ?t = vmem (vcoll s)" "utf_bg_poll_size (pinfo ?t) = 0" "utf_bg_poll_result (pinfo ?t) = buf" "poll_reduce_func st' = Some Poll_bcast"
    using gs datatype_size_small [of 0] by (simp_all add: gate_started_def put_odata_def enter_vbg_def)
  have "\<exists>u. UTF_BG_SET_RESULT_BCAST True ?t = ret (V_SUCCESS, Some buf, u) \<and> vmem u = vmem (vcoll s)"
    using t by (cases "utf_bg_poll_root (pinfo ?t)") (auto simp: UTF_BG_SET_RESULT_BCAST_def Let_def vstore_def)
  then obtain u where u: "utf_poll_reduce (va E) True (st'\<lparr>vworld := v\<rparr>) = ret (V_SUCCESS, Some buf, u)" "vmem u = vmem (vcoll s)"
    using t(4) poll by (auto simp: utf_poll_reduce_def utf_poll_bcast_def poll_then_def)
  let ?s1 = "leave_vbg (Some a) st' s"
  have "mpi_bg_poll_reduce E ?s1 = ret (?s1\<lparr>vcoll := u, bgs := (bgs ?s1)\<lparr>b_net := vworld u\<rparr>\<rparr>)"
    using t(4) wait prog u(1) by (intro poll_reduce_waits [where v = v and k = k]) (auto simp: leave_vbg_def Let_def)
  then have "MPI_Bcast E buf count dt (int r) c s = ret (MPI_SUCCESS, ?s1\<lparr>vcoll := u, bgs := (bgs ?s1)\<lparr>b_net := vworld u\<rparr>\<rparr>)"
    using b en by (simp add: MPI_Bcast_def Let_def call_group_def z MPI_SUCCESS_def vcode_def)
  with u show ?thesis by (auto simp: leave_vbg_def Let_def)
qed

section \<open>The group of all processes\<close>

text \<open>The arguments with which process \<open>P\<close> of \<open>n\<close> makes and starts the group of \<open>MPI_COMM_WORLD\<close>.\<close>

definition world_ranks :: "nat \<Rightarrow> u32 list" where
  "world_ranks n = map word_of_nat [0..<n]"

definition world_alloc :: "('p, 'w, 'u) mpi_env \<Rightarrow> ('p, 'w, 'u) mpi \<Rightarrow> nat \<Rightarrow> nat \<Rightarrow> alloc_arg" where
  "world_alloc E s n P = \<lparr>al_rankset = Some (next_addr s, world_ranks n), al_len = n, al_my_index = P,
     al_max_ppn = jtofu_query_max_proc_per_node (mp E), al_comm = UTF_BG_TOFU, al_bginfo = Some (map (x_uninit (mp E)) [0..<n])\<rparr>"

text \<open>A process before \<open>MPI_Init\<close>, in an MPI job of \<open>n\<close> processes where memory can be allocated; \<open>hb\<close> is the width of a handle of the MPI library.\<close>

definition starting :: "('p, 'w, 'u) mpi_env \<Rightarrow> ('p, 'w, 'u) mpi \<Rightarrow> nat \<Rightarrow> nat \<Rightarrow> bool" where
  "starting E s n P \<longleftrightarrow> (\<forall>m. x_malloc (mp E) m) \<and> PMPI_Comm_size (mp E) (MPI_COMM_WORLD (mp E)) (plib s) = n
     \<and> PMPI_Comm_rank (mp E) (MPI_COMM_WORLD (mp E)) (plib s) = P \<and> (\<exists>hb. tables s = comgrp_zero hb) \<and> mpi_world_grp s = None"

text \<open>
  Once the words have been exchanged \<open>mpi_bg_init\<close> succeeds, whatever \<open>utf_bg_init\<close> answers: the communicator is entered with
  the group \<open>utf_bg_init\<close> left in the variable.
\<close>

lemma mpi_bg_init_world:
  assumes st: "starting E s n P" and al: "utf_bg_alloc (ba E) (tofu_of E) (world_alloc E s n P) (bgs s) = ret (G_SUCCESS, Some lcl, b1)"
    and ex: "PMPI_Alltoall (mp E) lcl (MPI_COMM_WORLD (mp E)) (plib s) = (MPI_SUCCESS, rmt, w)"
    and ini: "utf_bg_init (ba E) \<lparr>il_rankset = Some (next_addr s, world_ranks n), il_len = n, il_my_index = P, il_bginfo = Some rmt, il_group = Some None\<rparr> b1
      = ret (rc, Some (Some a), b2)"
  shows "\<exists>s'. mpi_bg_init E s = ret (MPI_SUCCESS, s') \<and> mpi_bg_enabled s' \<and> bgs s' = b2 \<and> mpi_world_grp s' = Some a \<and> plib s' = w
    \<and> com_look (MPI_COMM_WORLD (mp E)) (tables s') = ret (Some (world_ranks n, Some a))"
proof -
  have m: "\<And>m. x_malloc (mp E) m" and nP: "PMPI_Comm_size (mp E) (MPI_COMM_WORLD (mp E)) (plib s) = n" "PMPI_Comm_rank (mp E) (MPI_COMM_WORLD (mp E)) (plib s) = P"
    and z: "mpi_world_grp s = None" using st by (simp_all add: starting_def)
  from st obtain hb where hb: "tables s = comgrp_zero hb" by (auto simp: starting_def)
  have "3 \<le> GROUPINFO_SIZE" by (simp add: GROUPINFO_SIZE_def)
  from world_look [OF this, of hb "MPI_COMM_WORLD (mp E)" "world_ranks n" a] hb obtain t0 t3 where
    t0: "comgrpinfo_init True True GROUPINFO_SIZE (tables s) = ret t0" and t3: "com_enter (MPI_COMM_WORLD (mp E)) (world_ranks n, Some a) t0 = ret t3"
      "com_look (MPI_COMM_WORLD (mp E)) t3 = ret (Some (world_ranks n, Some a))" by (auto simp: bindO_eq_ret)
  from t3(1) obtain p t1 k t2 j where c: "grp_take t0 = ret (p, t1)" "grp_fill p 0 (length (world_ranks n)) (Some (world_ranks n)) t1 = ret (k, t2)"
    "cominfo_reg (MPI_COMM_WORLD (mp E)) k (Some a) t2 = ret (j, t3)" by (auto simp: com_enter_def bindO_eq_ret)
  have len: "length (world_ranks n) = n" by (simp add: world_ranks_def)
  let ?s2 = "s\<lparr>next_addr := next_addr s + 1, bgs := b1, plib := w, mpi_bg_bginfo := Some rmt, mpi_bg_nprocs := n, mpi_bg_myrank := P\<rparr>"
  let ?s' = "?s2\<lparr>bgs := b2, mpi_world_grp := Some a, tables := t3, mpi_bg_enabled := True\<rparr>"
  have w: "enter_world E (next_addr s) (world_ranks n) P ?s2 = ret ?s'"
    using m z t0 ini c len by (simp add: enter_world_def)
  have "mpi_bg_init E s = ret (MPI_SUCCESS, ?s')"
    using m nP al ex w by (simp add: mpi_bg_init_def Let_def world_alloc_def world_ranks_def [symmetric])
  then show ?thesis using t3(2) by (intro exI [of _ ?s']) simp
qed

text \<open>The exchange of the words: every process gets from every other the word it has for it.\<close>

definition exchanged :: "(nat \<Rightarrow> ('p, 'w, 'u) mpi_env) \<Rightarrow> (nat \<Rightarrow> ('p, 'w, 'u) mpi) \<Rightarrow> nat \<Rightarrow> bool" where
  "exchanged E s n \<longleftrightarrow> (\<forall>lcl. (\<forall>P < n. \<exists>b. utf_bg_alloc (ba (E P)) (tofu_of (E P)) (world_alloc (E P) (s P) n P) (bgs (s P)) = ret (G_SUCCESS, Some (lcl P), b)) \<longrightarrow>
     (\<forall>P < n. \<exists>w. PMPI_Alltoall (mp (E P)) (lcl P) (MPI_COMM_WORLD (mp (E P))) (plib (s P)) = (MPI_SUCCESS, map (\<lambda>Q. lcl Q ! P) [0..<n], w)))"

text \<open>C3: the group of all processes from \<open>MPI_Init\<close> to \<open>MPI_Finalize\<close>, for one process on every node of a box. The functions \<open>mpi_bg_init\<close> of
  all processes succeed, enter \<open>MPI_COMM_WORLD\<close> with all ranks and the new group, and hand settings to the gates with which
  the gates compute, at every process, the combination of the values of all processes, each taken once, and nothing else;
  \<open>MPI_Finalize\<close> gives the same gates back. The handles of the MPI library may have any width.
\<close>

theorem world_lifecycle:
  fixes v :: "nat \<Rightarrow> 'v::comm_monoid_add"
  assumes bx: "box (table vname (world_ranks n) n) lo sz" and n: "4 \<le> n"
    and st: "\<And>P. P < n \<Longrightarrow> starting (E P) (s P) n P \<and> tofu_of (E P) = vname \<and> jtofu_query_max_proc_per_node (mp (E P)) = 1
        \<and> member vname (world_ranks n) n sz (ba (E P)) (bgs (s P)) (map (x_uninit (mp (E P))) [0..<n]) (ids P) P"
    and ap: "apart (box_grid (table vname (world_ranks n) n) sz) ids" and ex: "exchanged E s n"
  shows "\<exists>S. \<forall>P < n. (\<forall>z. ends_with S {..<n} v P z \<longleftrightarrow> z = sum v {..<n}) \<and> (\<exists>s' w. mpi_bg_init (E P) (s P) = ret (MPI_SUCCESS, s')
      \<and> mpi_bg_enabled s' \<and> com_look (MPI_COMM_WORLD (mp (E P))) (tables s') = ret (Some (world_ranks n, Some (b_fresh (bgs (s P)))))
      \<and> b_net (bgs s') = snd (g_set_vbg (ba (E P)) (S P) w)
      \<and> (\<exists>rc s''. MPI_Finalize (E P) s' = ret (rc, s'') \<and> b_net (bgs s'') = snd (g_free_vbg (ba (E P)) (ids P) (b_net (bgs s')))))"
proof -
  let ?R = "world_ranks n" and ?bg = "\<lambda>P. map (x_uninit (mp (E P))) [0..<n]"
  have R: "n \<le> length ?R" by (simp add: world_ranks_def)
  have al: "world_alloc (E P) (s P) n P = alloc_call (next_addr (s P)) ?R n UTF_BG_TOFU (?bg P) P" if "P < n" for P
    using st [OF that] by (simp add: world_alloc_def alloc_call_def)
  from group_connected [OF bx n R, of UTF_BG_TOFU "\<lambda>P. ba (E P)" "\<lambda>P. bgs (s P)" ?bg ids "\<lambda>P. next_addr (s P)"] st
  obtain lcl b1 where lcl: "\<And>P. P < n \<Longrightarrow> utf_bg_alloc (ba (E P)) vname (alloc_call (next_addr (s P)) ?R n UTF_BG_TOFU (?bg P) P) (bgs (s P)) = ret (G_SUCCESS, Some (lcl P), b1 P)"
    and con: "\<And>bgin. \<forall>P < n. length (bgin P) = n \<and> (\<forall>Q < n. bgin P ! Q = lcl Q ! P) \<Longrightarrow> \<exists>S. wired_all (box_grid (table vname ?R n) sz) ids S
        \<and> (\<forall>P < n. ready (ba (E P)) (init_call (next_addr (s P)) ?R n (bgin P) P) (b_fresh (bgs (s P))) (S P) (ids P) (b1 P))"
    by auto
  have lcl': "utf_bg_alloc (ba (E P)) (tofu_of (E P)) (world_alloc (E P) (s P) n P) (bgs (s P)) = ret (G_SUCCESS, Some (lcl P), b1 P)" if "P < n" for P
    using lcl [OF that] st [OF that] by (simp add: al [OF that])
  let ?in = "\<lambda>P. map (\<lambda>Q. lcl Q ! P) [0..<n]"
  have all: "\<exists>w. PMPI_Alltoall (mp (E P)) (lcl P) (MPI_COMM_WORLD (mp (E P))) (plib (s P)) = (MPI_SUCCESS, ?in P, w)" if "P < n" for P
    using ex [unfolded exchanged_def, rule_format, of lcl P] lcl' that by blast
  obtain S where S: "wired_all (box_grid (table vname ?R n) sz) ids S"
    "\<And>P. P < n \<Longrightarrow> ready (ba (E P)) (init_call (next_addr (s P)) ?R n (?in P) P) (b_fresh (bgs (s P))) (S P) (ids P) (b1 P)"
    using con [of ?in] by auto
  have "\<exists>s' w. mpi_bg_init (E P) (s P) = ret (MPI_SUCCESS, s') \<and> mpi_bg_enabled s'
      \<and> com_look (MPI_COMM_WORLD (mp (E P))) (tables s') = ret (Some (?R, Some (b_fresh (bgs (s P)))))
      \<and> b_net (bgs s') = snd (g_set_vbg (ba (E P)) (S P) w)
      \<and> (\<exists>rc s''. MPI_Finalize (E P) s' = ret (rc, s'') \<and> b_net (bgs s'') = snd (g_free_vbg (ba (E P)) (ids P) (b_net (bgs s'))))" if P: "P < n" for P
  proof -
    let ?a = "b_fresh (bgs (s P))"
    from S(2) [OF P, unfolded ready_def] obtain s2 s3 where r: "utf_bg_init (ba (E P)) (init_call (next_addr (s P)) ?R n (?in P) P) (b1 P) = ret (G_SUCCESS, Some (Some ?a), s2)"
      "b_net s2 = snd (g_set_vbg (ba (E P)) (S P) (b_net (b1 P)))"
      "utf_bg_free (ba (E P)) (Some ?a) s2 = ret (fst (g_free_vbg (ba (E P)) (ids P) (b_net s2)), s3)" "b_net s3 = snd (g_free_vbg (ba (E P)) (ids P) (b_net s2))" by blast
    from all [OF P] obtain w where w: "PMPI_Alltoall (mp (E P)) (lcl P) (MPI_COMM_WORLD (mp (E P))) (plib (s P)) = (MPI_SUCCESS, ?in P, w)" by blast
    from mpi_bg_init_world [OF conjunct1 [OF st [OF P]] lcl' [OF P] w, of G_SUCCESS ?a s2] r(1)
    obtain s' where s': "mpi_bg_init (E P) (s P) = ret (MPI_SUCCESS, s')" "mpi_bg_enabled s'" "bgs s' = s2" "mpi_world_grp s' = Some ?a"
      "com_look (MPI_COMM_WORLD (mp (E P))) (tables s') = ret (Some (?R, Some ?a))" by (auto simp: init_call_def)
    obtain rc pl where "PMPI_Finalize (mp (E P)) (plib s') = (rc, pl)" by fastforce
    then have "\<exists>rc s''. MPI_Finalize (E P) s' = ret (rc, s'') \<and> b_net (bgs s'') = snd (g_free_vbg (ba (E P)) (ids P) (b_net (bgs s')))"
      using s'(2-4) r(3,4) by (simp add: MPI_Finalize_def pcall_def)
    then show ?thesis using s' r(2) by auto
  qed
  moreover have "\<forall>z. ends_with S {..<n} v P z \<longleftrightarrow> z = sum v {..<n}" if "P < n" for P
  proof -
    have sz: "size_of (table vname ?R n) = n" by (rule size_table [OF R])
    have G: "wf_grid (box_grid (table vname ?R n) sz)" "gprocs (box_grid (table vname ?R n) sz) = {..<n}"
      using box_grid_wf [OF bx] sz n by (simp_all add: box_grid_def)
    show ?thesis using network_total [OF G(1) ap S(1), of P v] that unfolding G(2) by simp
  qed
  ultimately show ?thesis by (intro exI [of _ S]) blast
qed

section \<open>Witnesses\<close>

text \<open>Two processes in a broadcast of three bytes over the gate of \<open>Vbg_Collectives\<close>; their group is at address 0.\<close>

definition quiet_api :: "demo_world bgapi" where
  "quiet_api = \<lparr>g_alloc_vbg = (\<lambda>t n f w. (G_SUCCESS, [], w)), g_set_vbg = (\<lambda>xs w. (G_SUCCESS, w)), g_free_vbg = (\<lambda>ids w. (G_SUCCESS, w)), g_malloc = (\<lambda>_. True),
     g_getenv = (\<lambda>_. None), g_pmix_nspace = None, g_pmix_finalize = True, g_shm_init = (\<lambda>_. True), g_open = (\<lambda>_. 3), g_write = int, g_mmap = (\<lambda>_. True), g_memalign = 0\<rparr>"

definition bc_group :: "nat \<Rightarrow> group_detail" where
  "bc_group p = \<lparr>arg_rankset = Some 0, arg_len = 2, arg_my_index = p,
     d_intra = Some \<lparr>in_manager = True, in_size = 1, in_intra_index = 0, in_vpids = [], in_curr_seq = 0, in_mmap_buf = None\<rparr>,
     d_num_vbg = 2, d_vbg_ids = Some [7, 8], d_settings = None, d_rmt = None\<rparr>"

definition bc_bgs :: "nat \<Rightarrow> demo_world bg_state" where
  "bc_bgs p = \<lparr>b_first_call = False, b_is_tofu = True, b_detail = Some 0, b_first_alloc = Some 0, b_heap = [0 \<mapsto> bc_group p], b_fresh = 1, b_jobid = 0, b_ppn_job = 0,
     b_disable_shm = False, b_file_name = None, b_mm_size = 0, b_mm_width = 0, b_mm_fd = 0, b_mapped = False, b_first_failed = False, b_sh_next_tni = 0,
     b_sh_manager = [], b_thread_safe = False, b_max_hb = 0, b_next_tni = 0, b_alloc_count = 1, b_world = None, b_poll_idata = False, b_net = vworld (demo_bc p)\<rparr>"

abbreviation bc_E :: "nat \<Rightarrow> (int, demo_world, simw) mpi_env" where
  "bc_E p \<equiv> demo_env p id quiet_api demo_gate"

abbreviation bc_s :: "nat \<Rightarrow> (int, demo_world, simw) mpi" where
  "bc_s p \<equiv> demo_mpi True (demo_tables 4) (bc_bgs p) (demo_bc p)"

lemma bc_started:
  assumes p: "p < 2" and u: "utf_broadcast demo_gate buf (bcast_size (MPI_Type_size (demo_lib p id) dt) count) 0 (demo_bc p) = ret (V_SUCCESS, st')"
  shows "bcast_started (bc_E p) (bc_s p) buf count dt 0 1 p st'"
proof -
  have "com_look 1 (tables (bc_s p)) = ret (Some ([0, 1, 2, 3], Some 0))" using demo_gtabs by (simp add: demo_mpi_def)
  from com_look_find [OF this] obtain x where x: "com_find 1 (bc_s p) = ret x" "ce_bg_grp x = Some 0" by auto
  have "p = 0 \<or> p = 1" using p by linarith
  then have g: "vgrp (demo_bc p) = \<lparr>g_vbg_id = 7, g_my_index = int p, g_manager = True, g_size = 1, g_intra_index = 0, g_curr_seq = 0\<rparr>"
    and i: "intra_is_tofu (demo_bc p)" by (auto simp: demo_bc_def demo_proc_def)
  then have l: "load_group (Some 0) (bc_s p) = Some (vgrp (demo_bc p))"
    by (simp add: load_group_def demo_mpi_def bc_bgs_def group_view_def bc_group_def first_id_def)
  have e: "enter_vbg (vgrp (demo_bc p)) (bc_s p) = demo_bc p" using i by (simp add: enter_vbg_def demo_mpi_def bc_bgs_def)
  have f: "mpi_bg_enabled (bc_s p)" "b_is_tofu (bgs (bc_s p))" "va (bc_E p) = demo_gate" "mp (bc_E p) = demo_lib p id"
    by (simp_all add: demo_mpi_def bc_bgs_def demo_env_def)
  have "g_my_index (vgrp (demo_bc p)) = int p" by (simp add: g)
  moreover have "utf_broadcast (va (bc_E p)) buf (bcast_size (MPI_Type_size (mp (bc_E p)) dt) count) (int 0) (enter_vbg (vgrp (demo_bc p)) (bc_s p)) = ret (V_SUCCESS, st')"
    unfolding f e using u by simp
  ultimately show ?thesis unfolding bcast_started_def using x l f(1,2) by blast
qed

lemma byte_size: "bcast_size (MPI_Type_size (demo_lib p f) MPI_BYTE) 3 = 3"
  using bcast_size_exact [of 1 3] by (simp add: demo_lib_def)

theorem mpi_bcast_delivers_witness:
  "\<exists>bs s'. vload (0, 0) 3 (demo_bc 0) = ret bs \<and> MPI_Bcast (bc_E 1) (0, 0) 3 MPI_BYTE 0 1 (bc_s 1) = ret (MPI_SUCCESS, s')
    \<and> vload (0, 0) 3 (vcoll s') = ret bs"
proof -
  have st: "bcast_started (bc_E p) (bc_s p) (0, 0) 3 MPI_BYTE 0 1 p (demo_bc' p)" if "p < 2" for p
  proof -
    have "p = 0 \<or> p = 1" using that by linarith
    then show ?thesis using bc_started [OF that] demo_bc_start byte_size by auto
  qed
  have m: "vmem (vcoll (bc_s 1)) (fst (0, 0)) = Some [9, 9, 9]" by (simp add: demo_mpi_def demo_bc_def demo_proc_def)
  have p: "v_poll_reduce_uint64 demo_gate (utf_bg_poll_ids (pinfo (demo_bc' 1))) (vworld (demo_bc' 1))
      = (V_SUCCESS, gate_result 2 (\<lambda>p. fst (vworld (demo_bc' p))), vworld (demo_bc' 1))"
    by (simp add: gate_result_def gate_op_def gate_word_23 demo_bc_words [simplified One_nat_def] demo_gate_def)
  have g: "va (bc_E p) = demo_gate" "vcoll (bc_s p) = demo_bc p" "\<not> mpi_bg_utfprogress (bc_s p)" for p
    by (simp_all add: demo_env_def demo_mpi_def)
  have "\<exists>bs s'. vload (0, 0) 3 (vcoll (bc_s 0)) = ret bs \<and> MPI_Bcast (bc_E 1) (0, 0) 3 MPI_BYTE (int 0) 1 (bc_s 1) = ret (MPI_SUCCESS, s')
      \<and> vload (0, 0) 3 (vcoll s') = ret bs"
    by (rule mpi_bcast_delivers [of 0 2 bc_E MPI_BYTE 3 3 bc_s "\<lambda>_. (0, 0)" 1 demo_bc' 1 "[9, 9, 9]" 0 "vworld (demo_bc' 1)" "\<lambda>w. fst w" "vworld (demo_bc' 1)"])
      (use st m p demo_gate_posts byte_size in \<open>simp_all add: g, simp_all add: demo_env_def\<close>)
  then show ?thesis by (simp add: g)
qed

theorem bcast_of_4GiB_lost_witness:
  "\<exists>s'. MPI_Bcast (bc_E 0) (0, 0) (2 ^ 29) MPI_DOUBLE 0 1 (bc_s 0) = ret (MPI_SUCCESS, s') \<and> vmem (vcoll s') = vmem (demo_bc 0) \<and> plib s' = 0"
proof -
  have z: "MPI_Type_size (mp (bc_E 0)) MPI_DOUBLE = 8" by (simp add: demo_env_def demo_lib_def)
  let ?st = "state_of (utf_broadcast demo_gate (0, 0) 0 0 (demo_bc 0))"
  have "utf_broadcast demo_gate (0, 0) 0 0 (demo_bc 0) = ret (V_SUCCESS, ?st)" by (simp add: bc_eval)
  then have st: "bcast_started (bc_E 0) (bc_s 0) (0, 0) (2 ^ 29) MPI_DOUBLE 0 1 0 ?st"
    using bcast_size_wraps [of 8 "2 ^ 29"] by (intro bc_started) (simp_all add: demo_lib_def)
  have g: "va (bc_E 0) = demo_gate" "vcoll (bc_s 0) = demo_bc 0" "\<not> mpi_bg_utfprogress (bc_s 0)" "plib (bc_s 0) = 0"
    by (simp_all add: demo_env_def demo_mpi_def)
  have "\<exists>s'. MPI_Bcast (bc_E 0) (0, 0) (2 ^ 29) MPI_DOUBLE (int 0) 1 (bc_s 0) = ret (MPI_SUCCESS, s') \<and> vmem (vcoll s') = vmem (vcoll (bc_s 0)) \<and> plib s' = plib (bc_s 0)"
    by (rule bcast_of_4GiB_lost [OF _ st, where k = 0 and v = "vworld ?st" and G = "snd (vworld ?st)" and w = "vworld ?st"])
      (simp_all add: z g, simp_all add: demo_gate_def)
  then show ?thesis by (simp add: g)
qed

text \<open>Four processes on a square of nodes start; the exchange gives every process the words the others have allocated for it.\<close>

definition start_lcl :: "nat \<Rightarrow> u64 list" where
  "start_lcl Q = the (fst (snd (the_ret (utf_bg_alloc (demo_api Q) demo_vname (alloc_call 0 (world_ranks 4) 4 UTF_BG_TOFU [0, 0, 0, 0] Q) demo_process))))"

abbreviation start_E :: "nat \<Rightarrow> (int, unit, simw) mpi_env" where
  "start_E P \<equiv> demo_env P (\<lambda>_. map (\<lambda>Q. start_lcl Q ! P) [0..<4]) (demo_api P) (va demo_E)"

abbreviation start_s :: "(int, unit, simw) mpi" where
  "start_s \<equiv> demo_mpi False (comgrp_zero 4) demo_process demo_idle_vbg"

lemma upt_4: "[0..<4] = [0, 1, 2, 3]"
  by (simp add: upt_rec)

lemma start_alloc: "world_alloc (start_E P) start_s 4 P = alloc_call 0 (world_ranks 4) 4 UTF_BG_TOFU [0, 0, 0, 0] P"
  by (simp add: world_alloc_def alloc_call_def demo_env_def demo_lib_def demo_mpi_def upt_4)

lemma start_exchanged: "exchanged start_E (\<lambda>_. start_s) 4"
  unfolding exchanged_def start_alloc
proof (intro allI impI)
  fix lcl P assume a: "\<forall>P < 4. \<exists>b. utf_bg_alloc (ba (start_E P)) (tofu_of (start_E P)) (alloc_call 0 (world_ranks 4) 4 UTF_BG_TOFU [0, 0, 0, 0] P) (bgs start_s)
      = ret (G_SUCCESS, Some (lcl P), b)"
  have e: "ba (start_E Q) = demo_api Q" "tofu_of (start_E Q) = demo_vname" "bgs start_s = demo_process" for Q by (simp_all add: demo_env_def demo_mpi_def)
  have "start_lcl Q = lcl Q" if "Q < 4" for Q using a [rule_format, OF that] unfolding e by (auto simp: start_lcl_def)
  then have "map (\<lambda>Q. start_lcl Q ! P) [0..<4] = map (\<lambda>Q. lcl Q ! P) [0..<4]" by simp
  then show "\<exists>w. PMPI_Alltoall (mp (start_E P)) (lcl P) (MPI_COMM_WORLD (mp (start_E P))) (plib start_s) = (MPI_SUCCESS, map (\<lambda>Q. lcl Q ! P) [0..<4], w)"
    by (simp add: demo_env_def demo_lib_def MPI_SUCCESS_def)
qed

theorem world_lifecycle_witness:
  "\<exists>S s'. ends_with S {..<4} (\<lambda>P. 2 ^ P :: nat) 2 15 \<and> mpi_bg_init (start_E 2) start_s = ret (MPI_SUCCESS, s')
    \<and> com_look 1 (tables s') = ret (Some ([0, 1, 2, 3], Some 0))"
proof -
  have w: "world_ranks 4 = [0, 1, 2, 3]" by (simp add: world_ranks_def upt_4)
  have st: "starting (start_E P) start_s 4 P \<and> tofu_of (start_E P) = demo_vname \<and> jtofu_query_max_proc_per_node (mp (start_E P)) = 1
      \<and> member demo_vname (world_ranks 4) 4 demo_side (ba (start_E P)) (bgs start_s) (map (x_uninit (mp (start_E P))) [0..<4]) (demo_ids P) P" if "P < 4" for P
  proof -
    have r: "replicate 4 0 = [0, 0, 0, 0 :: u64]" by (simp add: numeral_eq_Suc)
    show ?thesis using demo_member [OF that] unfolding w r by (auto simp: starting_def demo_env_def demo_lib_def demo_mpi_def upt_4)
  qed
  have v: "(\<Sum>P < 4. 2 ^ P :: nat) = 15" by (simp add: numeral_eq_Suc)
  have e: "MPI_COMM_WORLD (mp (start_E P)) = 1" "b_fresh (bgs start_s) = 0" for P by (simp_all add: demo_env_def demo_lib_def demo_mpi_def demo_process_def)
  have "box (table demo_vname (world_ranks 4) 4) (\<lambda>_. 0) demo_side" "4 \<le> (4::nat)" "apart (box_grid (table demo_vname (world_ranks 4) 4) demo_side) demo_ids"
    using demo_box demo_apart by (simp_all add: w)
  from world_lifecycle [OF this(1,2) st this(3) start_exchanged, where v = "\<lambda>P. 2 ^ P :: nat"] obtain S where
    S: "\<forall>P < 4. (\<forall>z. ends_with S {..<4} (\<lambda>P. 2 ^ P :: nat) P z \<longleftrightarrow> z = 15) \<and> (\<exists>s' w. mpi_bg_init (start_E P) start_s = ret (MPI_SUCCESS, s')
      \<and> mpi_bg_enabled s' \<and> com_look 1 (tables s') = ret (Some ([0, 1, 2, 3], Some 0)) \<and> b_net (bgs s') = snd (g_set_vbg (ba (start_E P)) (S P) w)
      \<and> (\<exists>rc s''. MPI_Finalize (start_E P) s' = ret (rc, s'') \<and> b_net (bgs s'') = snd (g_free_vbg (ba (start_E P)) (demo_ids P) (b_net (bgs s')))))"
    unfolding e v w by blast
  have "2 < (4::nat)" by simp
  with S show ?thesis by blast
qed

end
