(* ===== verification/Utf_Tofu.thy ===== *)
theory Utf_Tofu
  imports Vbg_Net
begin

text \<open>
  Names for the resources of a node: the network interface (TNI) and completion queue (CQ) that a process
  of a node gets (\<open>utf_tni_select\<close> of \<open>src/src/include/utf_tofu.h\<close>), and the names of nodes that are
  exchanged with PMIx (\<open>PMIx_Resolve_nodes\<close>, \<open>PMIx_Resolve_peers\<close> of \<open>src/src/base/utf_procmap.c\<close>).
\<close>

unbundle bit_operations_syntax

section \<open>Interfaces and queues\<close>

definition TOFU_NIC_SIZE :: nat where "TOFU_NIC_SIZE = 6"
definition CONF_TOFU_CMPID :: "3 word" where "CONF_TOFU_CMPID = 7"

text \<open>A \<open>switch\<close> over \<open>n\<close> with the labels 0, 1, ... and a default.\<close>

definition cq_switch :: "nat list \<Rightarrow> nat \<Rightarrow> nat \<Rightarrow> nat" where
  "cq_switch qs dflt n = (if n < length qs then qs ! n else dflt)"

text \<open>\<open>ppn\<close>: processes per node in the job; \<open>nrnk\<close>: position in the node. The values fit their 16-bit types.\<close>

definition utf_tni_select :: "int \<Rightarrow> nat \<Rightarrow> nat \<times> nat" where
  "utf_tni_select ppn nrnk =
     (if ppn = 1 then (0, 0)
      else if ppn = 2 then (nrnk, nrnk * 6)
      else if ppn = 3 then (nrnk, nrnk * 4)
      else if ppn = 4 then (nrnk, cq_switch [0, 2, 5] 8 nrnk)
      else if 5 \<le> ppn \<and> ppn \<le> 8 then (nrnk mod 2 * 3, cq_switch [0, 2, 5] 8 (nrnk div 2))
      else if 9 \<le> ppn \<and> ppn \<le> 12 then (nrnk mod 3 * 2, cq_switch [0, 2, 5] 8 (nrnk div 3))
      else (nrnk mod 6,
        if 13 \<le> ppn \<and> ppn \<le> 24 then cq_switch [0, 2, 5] 8 (nrnk div 6)
        else if 25 \<le> ppn \<and> ppn \<le> 30 then cq_switch [0, 2, 5, 8] 10 (nrnk div 6)
        else if 31 \<le> ppn \<and> ppn \<le> 36 then cq_switch [0, 2, 5, 8, 9] 10 (nrnk div 6)
        else if 37 \<le> ppn \<and> ppn \<le> 42 then cq_switch [0, 2, 5, 6, 8, 9] 10 (nrnk div 6)
        else if nrnk \<le> 5 then 0
        else if nrnk \<le> 11 then 2
        else if nrnk \<le> 29 then nrnk div 6 + 2
        else nrnk div 6 + 3))"

text \<open>Both in one byte of \<open>tniq\<close>.\<close>

definition tniq_byte :: "nat \<Rightarrow> nat \<Rightarrow> u8" where
  "tniq_byte tni cq = word_of_nat tni * 16 AND 0xF0 OR word_of_nat cq AND 0x0F"

definition TNIQ2TNI :: "u8 \<Rightarrow> nat" where "TNIQ2TNI a = unat (drop_bit 4 a)"
definition TNIQ2CQ :: "u8 \<Rightarrow> nat" where "TNIQ2CQ a = unat (a AND 0x0F)"

lemma tni_select_all:
  "list_all (\<lambda>p. distinct (map (utf_tni_select (int p)) [0..<p]) \<and> list_all (\<lambda>x. fst x < 6 \<and> snd x \<le> 10) (map (utf_tni_select (int p)) [0..<p])) [1..<49]"
  by code_simp

lemma tni_select_range: "1 \<le> p \<Longrightarrow> p \<le> 48 \<Longrightarrow> i < p \<Longrightarrow> fst (utf_tni_select (int p) i) < 6 \<and> snd (utf_tni_select (int p) i) \<le> 10"
  using tni_select_all by (auto simp: list_all_iff)

lemma tni_select_inj: "1 \<le> p \<Longrightarrow> p \<le> 48 \<Longrightarrow> i < p \<Longrightarrow> j < p \<Longrightarrow> utf_tni_select (int p) i = utf_tni_select (int p) j \<Longrightarrow> i = j"
proof -
  assume "1 \<le> p" "p \<le> 48" and ij: "i < p" "j < p" and e: "utf_tni_select (int p) i = utf_tni_select (int p) j"
  then have "distinct (map (utf_tni_select (int p)) [0..<p])" using tni_select_all by (simp add: list_all_iff)
  then have "inj_on (utf_tni_select (int p)) {0..<p}" by (simp add: distinct_map)
  then show "i = j" using ij e by (simp add: inj_on_def)
qed

lemma tniq_all: "list_all (\<lambda>t. list_all (\<lambda>c. TNIQ2TNI (tniq_byte t c) = t \<and> TNIQ2CQ (tniq_byte t c) = c) [0..<16]) [0..<16]"
  by code_simp

lemma tniq_read: "t < 16 \<Longrightarrow> c < 16 \<Longrightarrow> TNIQ2TNI (tniq_byte t c) = t \<and> TNIQ2CQ (tniq_byte t c) = c"
  using tniq_all by (simp add: list_all_iff)

section \<open>Printing\<close>

definition digit :: "nat \<Rightarrow> char" where "digit n = char_of (48 + n)"

text \<open>\<open>%d\<close> and \<open>%02d\<close> of a number that is not negative.\<close>

fun dec :: "nat \<Rightarrow> string" where
  "dec n = (if n < 10 then [digit n] else dec (n div 10) @ [digit (n mod 10)])"

declare dec.simps [simp del]

definition dec2 :: "nat \<Rightarrow> string" where
  "dec2 n = (if n < 10 then digit 0 # dec n else dec n)"

text \<open>\<open>snprintf\<close> with room for \<open>sz\<close> characters and the result \<open>s\<close>: what it writes, without the terminating NUL.\<close>

definition snprintf :: "nat \<Rightarrow> string \<Rightarrow> string" where
  "snprintf sz s = take (sz - 1) s"

definition pcoords2string :: "phys_coords \<Rightarrow> string" where
  "pcoords2string p = snprintf 31 (dec2 (unat (px p)) @ '':'' @ dec2 (unat (py p)) @ '':'' @ dec2 (unat (pz p)) @ '':''
     @ dec2 (unat (pa p)) @ '':'' @ dec2 (unat (pb p)) @ '':'' @ dec2 (unat (pc p)))"

definition NODE_NM_LEN :: nat where "NODE_NM_LEN = 6 + 3 * 6 - 1"

text \<open>The result of a full \<open>snprintf\<close> of \<open>NODE_NAME\<close>.\<close>

definition node_entry :: "phys_coords \<Rightarrow> string" where
  "node_entry p = ''host-'' @ pcoords2string p @ '',''"

text \<open>The loop: each name goes to the next place, its NUL to the first character of the place behind it.\<close>

definition NUL :: char where "NUL = CHR 0x00"

fun put_names :: "phys_coords list \<Rightarrow> nat \<Rightarrow> string \<Rightarrow> (nat \<times> string) outcome" where
  "put_names [] at buf = ret (at, buf)"
| "put_names (p # ps) at buf =
     (let w = snprintf (NODE_NM_LEN + 1) (node_entry p) @ [NUL] in
      if length buf < at + length w then crash OutOfBounds
      else if NODE_NM_LEN + 1 < length (node_entry p) then crash AssertFailed
      else put_names ps (at + NODE_NM_LEN) (overwrite buf at w))"

definition c_string :: "string \<Rightarrow> string" where
  "c_string buf = takeWhile (\<lambda>c. c \<noteq> NUL) buf"

text \<open>The list of the names of the nodes; \<open>m\<close> tells whether \<open>malloc\<close> succeeds. Without a node the write in front of the buffer is out of bounds.\<close>

definition node_list :: "bool \<Rightarrow> phys_coords list \<Rightarrow> (int \<times> string option) outcome" where
  "node_list m nodes =
     (if \<not> m then ret (-1, None)
      else bindO (put_names nodes 0 (replicate (NODE_NM_LEN * length nodes + 2) NUL)) (\<lambda>(at, buf).
        if at = 0 then crash OutOfBounds else ret (0, Some (c_string (buf[at - 1 := NUL])))))"

section \<open>Scanning\<close>

definition is_space :: "char \<Rightarrow> bool" where
  "is_space c \<longleftrightarrow> of_char c = (32 :: nat) \<or> (9 \<le> (of_char c :: nat) \<and> (of_char c :: nat) \<le> 13)"

definition is_digit :: "char \<Rightarrow> bool" where
  "is_digit c \<longleftrightarrow> 48 \<le> (of_char c :: nat) \<and> (of_char c :: nat) \<le> 57"

text \<open>\<open>%<w>d\<close>: at most \<open>w\<close> characters, a sign included, after white space; the rest of the input.\<close>

fun scan_digits :: "nat \<Rightarrow> nat \<Rightarrow> string \<Rightarrow> nat \<times> string" where
  "scan_digits (Suc w) v (c # cs) = (if is_digit c then scan_digits w (10 * v + (of_char c - 48)) cs else (v, c # cs))"
| "scan_digits w v cs = (v, cs)"

definition scan_int :: "nat \<Rightarrow> string \<Rightarrow> (int \<times> string) option" where
  "scan_int w s =
     (let s1 = dropWhile is_space s;
          (neg, w2, s2) = (case s1 of c # cs \<Rightarrow> if c = CHR ''-'' then (True, w - 1, cs) else if c = CHR ''+'' then (False, w - 1, cs) else (False, w, s1)
                           | [] \<Rightarrow> (False, w, s1))
      in case s2 of c # cs \<Rightarrow> if 0 < w2 \<and> is_digit c then (let (v, rest) = scan_digits w2 0 s2 in Some (if neg then - int v else int v, rest)) else None
         | [] \<Rightarrow> None)"

fun scan_literal :: "string \<Rightarrow> string \<Rightarrow> string option" where
  "scan_literal [] s = Some s"
| "scan_literal (l # ls) (c # cs) = (if l = c then scan_literal ls cs else None)"
| "scan_literal (l # ls) [] = None"

text \<open>\<open>sscanf\<close> with the literals \<open>ls\<close>, each followed by \<open>%02d\<close>: the numbers read until the first mismatch.\<close>

fun scan_fields :: "string list \<Rightarrow> string \<Rightarrow> int list" where
  "scan_fields [] s = []"
| "scan_fields (l # ls) s = (case scan_literal l s of None \<Rightarrow> []
     | Some s1 \<Rightarrow> (case scan_int 2 s1 of None \<Rightarrow> [] | Some (v, s2) \<Rightarrow> v # scan_fields ls s2))"

text \<open>The coordinates from a name; \<open>un\<close> are the values of the variables that are not read.\<close>

definition name_coords :: "(nat \<Rightarrow> int) \<Rightarrow> string \<Rightarrow> phys_coords" where
  "name_coords un s =
     (let vs = scan_fields [''host-'', '':'', '':'', '':'', '':'', '':''] s; f = (\<lambda>i. word_of_int (if i < length vs then vs ! i else un i)) in
      \<lparr>px = f 0, py = f 1, pz = f 2, pa = f 3, pb = f 4, pc = f 5\<rparr>)"

section \<open>Names of nodes\<close>

text \<open>Coordinates of at most two digits; the fields of a list separated by commas.\<close>

definition small_coords :: "phys_coords \<Rightarrow> bool" where
  "small_coords p \<longleftrightarrow> unat (px p) < 100 \<and> unat (py p) < 100 \<and> unat (pz p) < 100 \<and> unat (pa p) < 100 \<and> unat (pb p) < 100 \<and> unat (pc p) < 100"

definition node_name :: "phys_coords \<Rightarrow> string" where
  "node_name p = ''host-'' @ pcoords2string p"

fun comma_fields :: "string \<Rightarrow> string \<Rightarrow> string list" where
  "comma_fields acc [] = [acc]"
| "comma_fields acc (c # cs) = (if c = CHR '','' then acc # comma_fields [] cs else comma_fields (acc @ [c]) cs)"

lemma of_digit: "n < 10 \<Longrightarrow> of_char (digit n) = (48 + n :: nat)"
  by (simp add: digit_def)

lemma digit_kind: "n < 10 \<Longrightarrow> is_digit (digit n) \<and> \<not> is_space (digit n) \<and> digit n \<notin> {CHR ''-'', CHR ''+'', CHR '','', CHR '':'', NUL}"
proof -
  assume n: "n < 10"
  have "of_char (digit n) \<noteq> (of_char c :: nat)" if "c \<in> {CHR ''-'', CHR ''+'', CHR '','', CHR '':'', NUL}" for c
    using that of_digit [OF n] n by (auto simp: NUL_def)
  then have "digit n \<notin> {CHR ''-'', CHR ''+'', CHR '','', CHR '':'', NUL}" by metis
  then show ?thesis using n by (auto simp: is_digit_def is_space_def of_digit)
qed

lemma dec2_two: "n < 100 \<Longrightarrow> dec2 n = [digit (n div 10), digit (n mod 10)]"
  by (auto simp: dec2_def dec.simps [of n] dec.simps [of "n div 10"])

lemma scan_dec2: "n < 100 \<Longrightarrow> scan_int 2 (dec2 n @ s) = Some (int n, s)"
proof -
  assume n: "n < 100"
  have d: "n div 10 < 10" "n mod 10 < 10" using n by auto
  show ?thesis using digit_kind [OF d(1)] digit_kind [OF d(2)] of_digit [OF d(1)] of_digit [OF d(2)] n
    by (simp add: dec2_two scan_int_def numeral_2_eq_2)
qed

lemma pcoords2string_small: "small_coords p \<Longrightarrow> pcoords2string p = dec2 (unat (px p)) @ '':'' @ dec2 (unat (py p)) @ '':'' @ dec2 (unat (pz p)) @ '':''
     @ dec2 (unat (pa p)) @ '':'' @ dec2 (unat (pb p)) @ '':'' @ dec2 (unat (pc p))"
  unfolding pcoords2string_def snprintf_def by (simp add: small_coords_def dec2_two)

lemma name_coords_node_name: "small_coords p \<Longrightarrow> name_coords un (node_name p) = p"
proof -
  assume p: "small_coords p"
  have "scan_fields [''host-'', '':'', '':'', '':'', '':'', '':''] (node_name p)
      = [int (unat (px p)), int (unat (py p)), int (unat (pz p)), int (unat (pa p)), int (unat (pb p)), int (unat (pc p))]"
    using p scan_dec2 [of _ "[]"] by (simp add: node_name_def pcoords2string_small scan_dec2 small_coords_def)
  then show ?thesis by (simp add: name_coords_def Let_def)
qed

lemma node_name_chars: "small_coords p \<Longrightarrow> length (node_name p) = 22 \<and> NUL \<notin> set (node_name p) \<and> CHR '','' \<notin> set (node_name p)"
proof -
  assume p: "small_coords p"
  have d: "length (dec2 n) = 2 \<and> NUL \<notin> set (dec2 n) \<and> CHR '','' \<notin> set (dec2 n)" if "n < 100" for n
  proof -
    have "n div 10 < 10" "n mod 10 < 10" using that by auto
    from digit_kind [OF this(1)] digit_kind [OF this(2)] show ?thesis using that by (auto simp: dec2_two)
  qed
  have "NUL \<notin> {CHR ''h'', CHR ''o'', CHR ''s'', CHR ''t'', CHR ''-'', CHR '':''}" by (simp add: NUL_def)
  then show ?thesis using p d by (simp add: node_name_def pcoords2string_small small_coords_def)
qed

lemma put_names_ok:
  "list_all small_coords ps \<Longrightarrow> at + 23 * length ps + 1 \<le> length buf \<Longrightarrow>
    put_names ps at buf = ret (at + 23 * length ps, overwrite buf at (concat (map (\<lambda>p. node_name p @ '','') ps) @ (if ps = [] then [] else [NUL])))"
proof (induction ps arbitrary: at buf)
  case Nil
  then show ?case by (simp add: overwrite_def)
next
  case (Cons p ps)
  have n: "node_entry p = node_name p @ '',''" "length (node_name p) = 22" using Cons.prems node_name_chars by (simp_all add: node_entry_def node_name_def)
  then have w: "snprintf (NODE_NM_LEN + 1) (node_entry p) = node_entry p" by (simp add: snprintf_def NODE_NM_LEN_def)
  let ?b = "overwrite buf at (node_entry p @ [NUL])"
  have l: "length ?b = length buf" using Cons.prems n by simp
  have "put_names (p # ps) at buf = put_names ps (at + 23) ?b"
    using Cons.prems n w by (simp add: Let_def NODE_NM_LEN_def)
  also have "\<dots> = ret (at + 23 + 23 * length ps, overwrite ?b (at + 23) (concat (map (\<lambda>p. node_name p @ '','') ps) @ (if ps = [] then [] else [NUL])))"
    using Cons.prems l by (intro Cons.IH) simp_all
  also have "overwrite ?b (at + 23) (concat (map (\<lambda>p. node_name p @ '','') ps) @ (if ps = [] then [] else [NUL]))
      = overwrite buf at (concat (map (\<lambda>p. node_name p @ '','') (p # ps)) @ [NUL])"
    using Cons.prems n by (auto simp: overwrite_def ac_simps)
  finally show ?case by simp
qed

lemma comma_fields_name: "CHR '','' \<notin> set s \<Longrightarrow> comma_fields acc (s @ r) = comma_fields (acc @ s) r"
  by (induction s arbitrary: acc) auto

lemma fields_names:
  "list_all small_coords (p # ps) \<Longrightarrow> comma_fields [] (butlast (concat (map (\<lambda>p. node_name p @ '','') (p # ps)))) = map node_name (p # ps)"
proof (induction ps arbitrary: p)
  case Nil
  then show ?case using comma_fields_name [of "node_name p" "[]" "[]"] node_name_chars [of p] by simp
next
  case (Cons q ps)
  let ?r = "concat (map (\<lambda>p. node_name p @ '','') (q # ps))"
  have "?r \<noteq> []" by simp
  then have "butlast (concat (map (\<lambda>p. node_name p @ '','') (p # q # ps))) = node_name p @ '','' @ butlast ?r" by (simp add: butlast_append)
  moreover have "comma_fields [] (node_name p @ '','' @ butlast ?r) = node_name p # comma_fields [] (butlast ?r)"
    using comma_fields_name [of "node_name p" "[]" "'','' @ butlast ?r"] node_name_chars [of p] Cons.prems by simp
  ultimately show ?case using Cons.IH [of q] Cons.prems by simp
qed

text \<open>C24: the list of nodes that \<open>PMIx_Resolve_nodes\<close> gives to PMIx, cut at the commas and scanned as \<open>PMIx_Resolve_peers\<close> scans
  a name, gives back the coordinates of the nodes in their order, if no coordinate has more than two digits (those of Fugaku have not).
\<close>

theorem node_list_roundtrip:
  assumes "nodes \<noteq> []" and small: "\<forall>p \<in> set nodes. small_coords p"
  shows "\<exists>s. node_list True nodes = ret (0, Some s) \<and> map (name_coords un) (comma_fields [] s) = nodes"
proof -
  obtain p ps where ps: "nodes = p # ps" using assms(1) by (cases nodes) auto
  have sm: "list_all small_coords nodes" using small by (simp add: list_all_iff)
  let ?c = "concat (map (\<lambda>p. node_name p @ '','') nodes)" and ?n = "23 * length nodes"
  have len: "length ?c = ?n" using sm node_name_chars by (induction nodes) auto
  have nul: "NUL \<notin> set ?c" using sm node_name_chars by (induction nodes) (auto simp: NUL_def)
  have last: "?c = butlast ?c @ '',''"
  proof -
    have "?c \<noteq> []" using ps by simp
    moreover have "last ?c = CHR '',''" using ps by (induction ps rule: rev_induct) (auto simp: last_append)
    ultimately show ?thesis by (metis append_butlast_last_id)
  qed
  have "put_names nodes 0 (replicate (?n + 2) NUL) = ret (?n, overwrite (replicate (?n + 2) NUL) 0 (?c @ [NUL]))"
    using put_names_ok [OF sm, of 0 "replicate (?n + 2) NUL"] ps by simp
  moreover have "overwrite (replicate (?n + 2) NUL) 0 (?c @ [NUL]) = ?c @ [NUL, NUL]"
  proof -
    have "replicate (?n + 2) NUL = replicate (?n + 1) NUL @ [NUL]" by (simp add: replicate_append_same)
    then show ?thesis using len by (simp add: overwrite_def)
  qed
  moreover have "(?c @ [NUL, NUL])[?n - 1 := NUL] = butlast ?c @ [NUL, NUL, NUL]"
  proof -
    have "?n - 1 = length (butlast ?c)" using len by simp
    then show ?thesis by (subst last) (simp add: list_update_append)
  qed
  moreover have "c_string (butlast ?c @ [NUL, NUL, NUL]) = butlast ?c"
  proof -
    have "\<forall>x \<in> set (butlast ?c). x \<noteq> NUL" using nul by (metis in_set_butlastD)
    then show ?thesis unfolding c_string_def by (subst takeWhile_append2) simp_all
  qed
  ultimately have "node_list True nodes = ret (0, Some (butlast ?c))" using ps by (simp add: node_list_def NODE_NM_LEN_def)
  moreover have "map (name_coords un) (comma_fields [] (butlast ?c)) = nodes"
    using fields_names [of p ps] sm ps name_coords_node_name by (simp add: list_all_iff) (auto intro: map_idI)
  ultimately show ?thesis by blast
qed

theorem node_list_roundtrip_witness:
  "\<exists>s. node_list True [\<lparr>px = 23, py = 7, pz = 15, pa = 1, pb = 2, pc = 0\<rparr>, \<lparr>px = 0, py = 0, pz = 1, pa = 0, pb = 0, pc = 1\<rparr>] = ret (0, Some s)
    \<and> map (name_coords (\<lambda>_. 0)) (comma_fields [] s) = [\<lparr>px = 23, py = 7, pz = 15, pa = 1, pb = 2, pc = 0\<rparr>, \<lparr>px = 0, py = 0, pz = 1, pa = 0, pb = 0, pc = 1\<rparr>]"
  by (rule node_list_roundtrip) (simp_all add: small_coords_def)

end
