(* ===== verification/Utf_Procmap.thy ===== *)
theory Utf_Procmap
  imports Utf_Tofu
begin

text \<open>
  The process map, \<open>src/src/base/utf_procmap.c\<close>: where the processes of the job are, which network
  interface and queue each of them uses, the virtual control queues (VCQs) of this process, the table in the memory
  the processes of a node share, and the shared memory for the user. PMIx, jtofu, uTofu and the operating system are
  parameters (the record \<open>jlib\<close>). \<open>utf_shm_init_internal\<close>, which waits for the other processes of the node, is modelled in \<open>Utf_Shm\<close>
  as the steps of a node; here its result, the address and the number of a segment, is a parameter.
\<close>

unbundle bit_operations_syntax

section \<open>Data\<close>

text \<open>An entry of the map: with the coordinates of \<open>Vbg_Net\<close> the component, the interface and queue, and the identifier of the VCQ.\<close>

record pm_vname = tofu_vname +
  v_cid :: "3 word"
  v_valid :: bool
  v_vpid :: nat
  v_tniq0 :: u8
  v_pent :: nat
  v_pcoords :: "u32 list"
  v_pathid :: u8
  v_vcqid :: u64

definition zero_vname :: pm_vname where
  "zero_vname = \<lparr>v_xyzabc = \<lparr>px = 0, py = 0, pz = 0, pa = 0, pb = 0, pc = 0\<rparr>, v_xyz = \<lparr>lx = 0, ly = 0, lz = 0\<rparr>, v_cid = 0, v_valid = False,
     v_vpid = 0, v_tniq0 = 0, v_pent = 0, v_pcoords = [0, 0, 0, 0, 0], v_pathid = 0, v_vcqid = 0\<rparr>"

text \<open>\<open>src/src/include/utf_cqmgr.h\<close>: the entry of a process in the table of its node, and the table.\<close>

record tni_info =
  ti_ppn :: u8
  ti_nrnk :: u8
  ti_ntni :: u8
  ti_idx :: "nat list"
  ti_usd :: "nat list"
  ti_vcqhdl :: "u64 list"
  ti_vcqid :: "u64 list"

record cqsel_table =
  cq_node :: "nat \<Rightarrow> tni_info"
  cq_snd_len :: "u64 list"
  cq_rcv_len :: "u64 list"

text \<open>\<open>utf_info\<close>, the static variables of the file, and what is behind the external calls.\<close>

record 'w pmap =
  um_jobid :: u32
  um_myrank :: int
  um_nprocs :: nat
  um_ppn :: int
  um_myppn :: nat
  um_mynrnk :: nat
  um_lrank :: nat
  um_vcqid :: u64
  um_vcqh :: u64
  um_tniid :: nat
  um_myfiaddr :: "nat list option"
  um_vname :: "pm_vname list option"
  um_tab_vcqid :: "u64 list option"
  um_cqseltab :: "cqsel_table option"
  um_cqselid :: int
  um_nnodes :: nat
  um_phys_node :: "phys_coords list option"
  um_caps :: "nat \<times> nat \<times> nat"
  um_ntni :: nat
  um_tniids :: "nat list"
  um_vcqhs :: "u64 list"
  um_vcqids :: "u64 list"
  um_shmaddr :: "nat ptr"
  um_shmid :: int
  um_notfirst :: int
  um_shm_usd :: bool
  um_world :: 'w

datatype pm_alloc = P_vname | P_phys | P_vcqid | P_fiaddr | P_marker | P_nodelist

text \<open>
  The external calls, with their return code (0 is success) first. Those that only answer questions do not change the world.
\<close>

record 'w jlib =
  PMIx_Init :: "'w \<Rightarrow> int \<times> string \<times> int \<times> 'w"
  PMIx_Get_size :: "'w \<Rightarrow> int \<times> nat \<times> 'w"
  PMIx_Get_rankmap :: "'w \<Rightarrow> int \<times> nat \<times> 'w"
  PMIx_Finalize :: "'w \<Rightarrow> int \<times> 'w"
  PMIx_Fence :: "'w \<Rightarrow> int \<times> 'w"
  jt_initialize :: "u32 \<Rightarrow> int \<Rightarrow> nat \<Rightarrow> 'w \<Rightarrow> 'w"
  jt_finalize :: "'w \<Rightarrow> 'w"
  jt_max_ppn :: int
  jt_phys :: "u32 \<Rightarrow> nat \<Rightarrow> int \<times> phys_coords"
  jt_log :: "u32 \<Rightarrow> nat \<Rightarrow> int \<times> log_coords"
  jt_ranks :: "u32 \<Rightarrow> phys_coords \<Rightarrow> int \<Rightarrow> int \<times> nat list"
  jt_paths :: "phys_coords \<Rightarrow> int \<times> u32 list"
  tf_construct :: "phys_coords \<Rightarrow> nat \<Rightarrow> nat \<Rightarrow> 3 word \<Rightarrow> int \<times> u64"
  tf_path_id :: "u64 \<Rightarrow> u32 \<Rightarrow> int \<times> u8"
  tf_set_path :: "u64 \<Rightarrow> int \<times> u64"
  tf_create_vcq :: "nat \<Rightarrow> 'w \<Rightarrow> int \<times> u64 \<times> 'w"
  tf_query_id :: "u64 \<Rightarrow> int \<times> u64"
  tf_onesided_tnis :: "int \<times> nat list"
  tf_caps :: "nat \<Rightarrow> int \<times> nat \<times> nat \<times> nat"
  tf_free_vcq :: "u64 \<Rightarrow> 'w \<Rightarrow> int \<times> 'w"
  j_malloc :: "pm_alloc \<Rightarrow> bool"
  j_page :: nat
  shm_join :: "nat \<Rightarrow> string \<Rightarrow> 'w \<Rightarrow> (nat \<times> int \<times> 'w) outcome"
  shm_content :: "nat \<Rightarrow> 'w \<Rightarrow> cqsel_table"
  shm_detach :: "'w \<Rightarrow> int \<times> 'w"

text \<open>\<open>UTOFU_CALL(1, ...)\<close>, \<open>JTOFU_CALL(1, ...)\<close> and \<open>utf_malloc\<close> abort the process where they fail.\<close>

definition call1 :: "int \<times> 'a \<Rightarrow> 'a outcome" where
  "call1 r = (if fst r = 0 then ret (snd r) else crash Aborted)"

definition alloc1 :: "bool \<Rightarrow> unit outcome" where
  "alloc1 ok = (if ok then ret () else crash Aborted)"

section \<open>The job\<close>

definition PMIX_MAX_NSLEN :: nat where "PMIX_MAX_NSLEN = 255"

text \<open>The pointer into the string is not advanced.\<close>

fun generate_hash_string :: "string \<Rightarrow> nat \<Rightarrow> u32" where
  "generate_hash_string cp 0 = 0"
| "generate_hash_string cp (Suc n) = generate_hash_string cp n + word_of_nat (of_char (hd (cp @ [NUL])))"

definition utf_jtofuinit :: "bool \<Rightarrow> 'w jlib \<Rightarrow> 'w pmap \<Rightarrow> int \<times> 'w pmap" where
  "utf_jtofuinit pmixclose J s =
     (let (rc, ns, r, w1) = PMIx_Init J (um_world s); s1 = s\<lparr>um_world := w1\<rparr> in
      if rc \<noteq> 0 then (-1, s1)
      else let (rc, np, w2) = PMIx_Get_size J w1; s2 = s1\<lparr>um_myrank := r, um_world := w2\<rparr> in
      if rc \<noteq> 0 then (-1, s2)
      else let (rc, map_ptr, w3) = PMIx_Get_rankmap J w2; s3 = s2\<lparr>um_nprocs := np, um_world := w3\<rparr> in
      if rc \<noteq> 0 then (-1, s3)
      else let h = generate_hash_string ns PMIX_MAX_NSLEN; s4 = s3\<lparr>um_jobid := h, um_world := jt_initialize J h r map_ptr w3\<rparr> in
      if pmixclose then let (rc, w5) = PMIx_Finalize J (um_world s4) in (if rc \<noteq> 0 then -1 else 0, s4\<lparr>um_world := w5\<rparr>)
      else (0, s4))"

section \<open>Entries\<close>

text \<open>
  \<open>utf_vname_vcqid\<close>; the second path identifier it asks for is not used and left out.
\<close>

definition utf_vname_vcqid :: "'w jlib \<Rightarrow> pm_vname \<Rightarrow> pm_vname outcome" where
  "utf_vname_vcqid J v =
     bindO (call1 (tf_construct J (v_xyzabc v) (TNIQ2TNI (v_tniq0 v)) (TNIQ2CQ (v_tniq0 v)) (v_cid v))) (\<lambda>id.
     bindO (call1 (jt_paths J (v_xyzabc v))) (\<lambda>ps.
     if 5 < length ps then crash OutOfBounds
     else
       let pcs = ps @ drop (length ps) (v_pcoords v) in
       bindO (call1 (tf_path_id J id (pcs ! 0))) (\<lambda>path.
       bindO (call1 (tf_set_path J id)) (\<lambda>id2.
       ret (v\<lparr>v_pcoords := pcs, v_pent := length ps, v_pathid := path, v_vcqid := id2\<rparr>)))))"

definition NODE_MAX :: nat where "NODE_MAX = 158976"

text \<open>The state of the loop over the ranks: the tables that are filled, the markers, and what concerns the own process.\<close>

record scan_st =
  sc_vname :: "pm_vname list"
  sc_tab :: "u64 list"
  sc_fi :: "nat list"
  sc_marker :: "u8 list"
  sc_node :: "phys_coords list"
  sc_mynrnk :: nat
  sc_myppn :: nat
  sc_lrank :: nat

text \<open>Process \<open>r\<close>, the \<open>i\<close>-th of the processes \<open>nd\<close> of its node.\<close>

definition fill_rank :: "'w jlib \<Rightarrow> int \<Rightarrow> int \<Rightarrow> phys_coords \<Rightarrow> log_coords \<Rightarrow> nat list \<Rightarrow> nat \<Rightarrow> nat \<Rightarrow> scan_st \<Rightarrow> scan_st outcome" where
  "fill_rank J ppn me pcs lcs nd i r s =
     (let (tni, cq) = utf_tni_select ppn i;
          s1 = (if int r = me then s\<lparr>sc_mynrnk := i, sc_myppn := length nd, sc_lrank := nd ! 0\<rparr> else s) in
      if length (sc_vname s1) \<le> r then crash AssertFailed
      else bindO (utf_vname_vcqid J ((sc_vname s1 ! r)\<lparr>v_tniq0 := tniq_byte tni cq, v_vpid := r, v_cid := CONF_TOFU_CMPID,
             v_xyzabc := pcs, v_xyz := lcs\<rparr>)) (\<lambda>v.
        ret (s1\<lparr>sc_vname := (sc_vname s1)[r := v\<lparr>v_valid := True\<rparr>], sc_tab := (sc_tab s1)[r := v_vcqid v], sc_fi := (sc_fi s1)[r := r],
          sc_marker := (sc_marker s1)[r := word_of_nat i]\<rparr>)))"

fun fill_node :: "'w jlib \<Rightarrow> int \<Rightarrow> int \<Rightarrow> phys_coords \<Rightarrow> log_coords \<Rightarrow> nat list \<Rightarrow> nat \<Rightarrow> nat list \<Rightarrow> scan_st \<Rightarrow> scan_st outcome" where
  "fill_node J ppn me pcs lcs nd i [] s = ret s"
| "fill_node J ppn me pcs lcs nd i (r # rs) s = bindO (fill_rank J ppn me pcs lcs nd i r s) (fill_node J ppn me pcs lcs nd (Suc i) rs)"

text \<open>A rank that no node has marked yet starts a new node.\<close>

fun scan_ranks :: "'w jlib \<Rightarrow> u32 \<Rightarrow> int \<Rightarrow> int \<Rightarrow> nat list \<Rightarrow> scan_st \<Rightarrow> scan_st outcome" where
  "scan_ranks J job ppn me [] s = ret s"
| "scan_ranks J job ppn me (r # rs) s =
     (if sc_marker s ! r = 255 then
        bindO (call1 (jt_phys J job r)) (\<lambda>pcs. bindO (call1 (jt_log J job r)) (\<lambda>lcs.
        if NODE_MAX \<le> length (sc_node s) then crash AssertFailed
        else bindO (call1 (jt_ranks J job pcs ppn)) (\<lambda>nd.
          if 48 < length nd then crash OutOfBounds
          else bindO (fill_node J ppn me pcs lcs nd 0 nd (s\<lparr>sc_node := sc_node s @ [pcs]\<rparr>)) (scan_ranks J job ppn me rs))))
      else scan_ranks J job ppn me rs s)"

section \<open>The control queues of the process\<close>

text \<open>\<open>tni_prim\<close> has its VCQ already, at position 0; the others follow in the order of the list.\<close>

fun make_vcqs :: "'w jlib \<Rightarrow> nat \<Rightarrow> nat list \<Rightarrow> nat \<Rightarrow> 'w pmap \<Rightarrow> 'w pmap outcome" where
  "make_vcqs J tni_prim [] vhent s = ret s"
| "make_vcqs J tni_prim (t # ts) vhent s =
     (if t = tni_prim then make_vcqs J tni_prim ts vhent s
      else if TOFU_NIC_SIZE \<le> vhent then crash OutOfBounds
      else bindO (call1 (tf_create_vcq J t (um_world s))) (\<lambda>(h, w). bindO (call1 (tf_query_id J h)) (\<lambda>id.
        make_vcqs J tni_prim ts (Suc vhent) (s\<lparr>um_vcqhs := (um_vcqhs s)[vhent := h], um_vcqids := (um_vcqids s)[vhent := id],
          um_tniids := (um_tniids s)[vhent := t], um_world := w\<rparr>))))"

definition utf_vcqs_init :: "'w jlib \<Rightarrow> 'w pmap \<Rightarrow> 'w pmap outcome" where
  "utf_vcqs_init J s =
     (let tni_prim = fst (utf_tni_select (um_ppn s) (um_mynrnk s)) in
      bindO (call1 (tf_create_vcq J tni_prim (um_world s))) (\<lambda>(h, w). bindO (call1 (tf_query_id J h)) (\<lambda>id.
      bindO (call1 (tf_onesided_tnis J)) (\<lambda>tnis.
      bindO (make_vcqs J tni_prim tnis 1 (s\<lparr>um_tniid := tni_prim, um_vcqh := h, um_vcqid := id, um_tniids := (um_tniids s)[0 := tni_prim],
          um_vcqhs := (um_vcqhs s)[0 := h], um_vcqids := (um_vcqids s)[0 := id], um_ntni := length tnis, um_world := w\<rparr>)) (\<lambda>s1.
      bindO (call1 (tf_caps J (um_tniid s1))) (\<lambda>c. ret (s1\<lparr>um_caps := c\<rparr>)))))))"

section \<open>The table of the node\<close>

definition SHMEM_UTF :: string where "SHMEM_UTF = ''-utf''"
definition SHMEM_USR :: string where "SHMEM_USR = ''-usr''"
definition sizeof_cqsel_table :: nat where "sizeof_cqsel_table = 6240"

text \<open>Writing the entry: position \<open>i\<close> of the arrays of six elements.\<close>

fun fill_tinfo :: "'w jlib \<Rightarrow> nat list \<Rightarrow> u64 list \<Rightarrow> nat \<Rightarrow> nat \<Rightarrow> tni_info \<Rightarrow> tni_info outcome" where
  "fill_tinfo J tnis vcqhp i 0 x = ret x"
| "fill_tinfo J tnis vcqhp i (Suc n) x =
     (if TOFU_NIC_SIZE \<le> i then crash OutOfBounds
      else if 6 \<le> tnis ! i then crash AssertFailed
      else fill_tinfo J tnis vcqhp (Suc i) n (x\<lparr>ti_idx := (ti_idx x)[i := tnis ! i], ti_vcqhdl := (ti_vcqhdl x)[i := vcqhp ! i],
        ti_vcqid := (ti_vcqid x)[i := snd (tf_query_id J (vcqhp ! i))]\<rparr>))"

definition utf_cqselect_init :: "'w jlib \<Rightarrow> 'w pmap \<Rightarrow> 'w pmap outcome" where
  "utf_cqselect_init J s =
     (let sz = (sizeof_cqsel_table + j_page J - 1) div j_page J * j_page J; n = um_mynrnk s in
      bindO (shm_join J sz SHMEM_UTF (um_world s)) (\<lambda>(a, id, w).
      let t0 = shm_content J a w;
          t = (if n = 0 then t0\<lparr>cq_snd_len := replicate TOFU_NIC_SIZE 0, cq_rcv_len := replicate TOFU_NIC_SIZE 0\<rparr> else t0) in
      if 48 \<le> n then crash OutOfBounds
      else bindO (fill_tinfo J (um_tniids s) (um_vcqhs s) 0 (um_ntni s)
             ((cq_node t n)\<lparr>ti_ppn := word_of_nat (um_myppn s), ti_nrnk := word_of_nat n, ti_ntni := word_of_nat (um_ntni s)\<rparr>)) (\<lambda>x.
        ret (s\<lparr>um_cqseltab := Some (t\<lparr>cq_node := (cq_node t)(n := x\<lparr>ti_usd := (ti_usd x)[0 := 1]\<rparr>)\<rparr>), um_cqselid := id, um_world := w\<rparr>))))"

definition utf_cqselect_finalize :: "'w jlib \<Rightarrow> 'w pmap \<Rightarrow> 'w pmap" where
  "utf_cqselect_finalize J s = (case um_cqseltab s of None \<Rightarrow> s
     | Some _ \<Rightarrow> s\<lparr>um_cqseltab := None, um_world := snd (shm_detach J (um_world s))\<rparr>)"

section \<open>The map\<close>

text \<open>\<open>utf_peers_init\<close>: 1 or -1.\<close>

definition scan_start :: "nat \<Rightarrow> nat \<Rightarrow> nat \<Rightarrow> nat \<Rightarrow> scan_st" where
  "scan_start n mynrnk myppn lrank = \<lparr>sc_vname = replicate n zero_vname, sc_tab = replicate n 0, sc_fi = replicate n 0, sc_marker = replicate n 255,
     sc_node = [], sc_mynrnk = mynrnk, sc_myppn = myppn, sc_lrank = lrank\<rparr>"

definition utf_peers_init :: "'w jlib \<Rightarrow> 'w pmap \<Rightarrow> (int \<times> 'w pmap) outcome" where
  "utf_peers_init J s =
     (let (rc, s1) = utf_jtofuinit False J s; n = um_nprocs s1; ppn = jt_max_ppn J in
      if rc < 0 then ret (-1, s1)
      else bindO (alloc1 (j_malloc J P_vname)) (\<lambda>_. bindO (alloc1 (j_malloc J P_phys)) (\<lambda>_.
        bindO (alloc1 (j_malloc J P_vcqid)) (\<lambda>_. bindO (alloc1 (j_malloc J P_fiaddr)) (\<lambda>_. bindO (alloc1 (j_malloc J P_marker)) (\<lambda>_.
        bindO (scan_ranks J (um_jobid s1) ppn (um_myrank s1) [0..<n] (scan_start n (um_mynrnk s1) (um_myppn s1) (um_lrank s1))) (\<lambda>c.
        bindO (utf_vcqs_init J (s1\<lparr>um_vname := Some (sc_vname c), um_tab_vcqid := Some (sc_tab c), um_myfiaddr := Some (sc_fi c),
            um_phys_node := Some (sc_node c), um_nnodes := length (sc_node c), um_mynrnk := sc_mynrnk c, um_myppn := sc_myppn c,
            um_lrank := sc_lrank c, um_ppn := ppn\<rparr>)) (\<lambda>s2.
        bindO (utf_cqselect_init J s2) (\<lambda>s3. ret (1, s3))))))))))"

text \<open>
  \<open>utf_get_peers\<close>. The argument \<open>fi_addr\<close> is NULL, or the address of a pointer which is NULL or an array. The results: what \<open>*fi_addr\<close> is afterwards,
  the three numbers, and whether the map is returned.
\<close>

fun rank_list :: "nat \<Rightarrow> nat list \<Rightarrow> nat list outcome" where
  "rank_list 0 a = ret a"
| "rank_list (Suc n) a = bindO (rank_list n a) (\<lambda>b. if length b \<le> n then crash OutOfBounds else ret (b[n := n]))"

definition utf_get_peers :: "'w jlib \<Rightarrow> nat list option option \<Rightarrow> 'w pmap \<Rightarrow> (nat list option option \<times> (nat \<times> nat \<times> int) \<times> bool \<times> 'w pmap) outcome" where
  "utf_get_peers J fi s =
     bindO (if um_notfirst s = 0 then bindO (utf_peers_init J s) (\<lambda>(r, s1). ret (s1\<lparr>um_notfirst := r\<rparr>)) else ret s) (\<lambda>s1.
     if um_notfirst s1 = -1 then
       (case fi of None \<Rightarrow> crash NullDeref | Some _ \<Rightarrow> ret (Some None, (0, 0, -1), False, s1))
     else
       bindO (case fi of None \<Rightarrow> ret None
              | Some None \<Rightarrow> ret (Some (um_myfiaddr s1))
              | Some (Some a) \<Rightarrow> bindO (rank_list (um_nprocs s1) a) (\<lambda>b. ret (Some (Some b)))) (\<lambda>fi1.
       ret (fi1, (um_nprocs s1, um_myppn s1, um_myrank s1), um_vname s1 \<noteq> None, s1)))"

text \<open>\<open>utf_free\<close> of a pointer that may be NULL has no effect on the model but to lose the table.\<close>

fun free_vcqs :: "'w jlib \<Rightarrow> nat \<Rightarrow> nat \<Rightarrow> 'w pmap \<Rightarrow> 'w pmap outcome" where
  "free_vcqs J i 0 s = ret s"
| "free_vcqs J i (Suc n) s =
     (if TOFU_NIC_SIZE \<le> i then crash OutOfBounds
      else free_vcqs J (Suc i) n (if um_vcqhs s ! i = 0 then s
        else s\<lparr>um_vcqhs := (um_vcqhs s)[i := 0], um_world := snd (tf_free_vcq J (um_vcqhs s ! i) (um_world s))\<rparr>))"

definition utf_procmap_finalize :: "'w jlib \<Rightarrow> 'w pmap \<Rightarrow> 'w pmap outcome" where
  "utf_procmap_finalize J s =
     bindO (free_vcqs J 0 (um_ntni s) ((utf_cqselect_finalize J s)\<lparr>um_myfiaddr := None, um_tab_vcqid := None, um_vname := None, um_phys_node := None\<rparr>)) (\<lambda>s1.
       ret (s1\<lparr>um_world := snd (PMIx_Finalize J (um_world s1))\<rparr>))"

definition utf_fence :: "'w jlib \<Rightarrow> 'w pmap \<Rightarrow> 'w pmap" where
  "utf_fence J s = s\<lparr>um_world := snd (PMIx_Fence J (um_world s))\<rparr>"

section \<open>Shared memory for the user\<close>

text \<open>The result is the code and, where the code sets it, the new value of \<open>*area\<close>; \<open>area\<close>: whether it is not NULL.\<close>

definition utf_shm_init :: "'w jlib \<Rightarrow> nat \<Rightarrow> bool \<Rightarrow> 'w pmap \<Rightarrow> (int \<times> nat ptr option \<times> 'w pmap) outcome" where
  "utf_shm_init J sz area s =
     (if sz = 0 \<or> \<not> area then ret (-1, None, s)
      else if um_shm_usd s then ret (-2, Some None, s)
      else bindO (shm_join J sz SHMEM_USR (um_world s)) (\<lambda>(a, id, w).
        ret (0, Some (Some a), s\<lparr>um_shm_usd := True, um_shmaddr := Some a, um_shmid := id, um_world := w\<rparr>)))"

definition utf_shm_finalize :: "'w jlib \<Rightarrow> 'w pmap \<Rightarrow> int \<times> 'w pmap" where
  "utf_shm_finalize J s =
     (if \<not> um_shm_usd s then (0, s)
      else let (rc, w) = (case um_shmaddr s of None \<Rightarrow> (0, um_world s) | Some _ \<Rightarrow> shm_detach J (um_world s)) in
        (rc, s\<lparr>um_shmaddr := (if rc = 0 then None else um_shmaddr s), um_world := w\<rparr>))"

text \<open>Once it was used, the interface never gives an area again, not even after \<open>utf_shm_finalize\<close>.\<close>

lemma shm_only_once: "um_shm_usd s \<Longrightarrow> sz \<noteq> 0 \<Longrightarrow> \<exists>rc s'. utf_shm_finalize J s = (rc, s') \<and> utf_shm_init J sz True s' = ret (-2, Some None, s')"
  by (simp add: utf_shm_finalize_def utf_shm_init_def Let_def split_beta)

section \<open>Questions of PMIx\<close>

definition PMIx_Resolve_nodes :: "'w jlib \<Rightarrow> 'w pmap \<Rightarrow> (int \<times> string option \<times> 'w pmap) outcome" where
  "PMIx_Resolve_nodes J s =
     bindO (utf_get_peers J None s) (\<lambda>(_, _, _, s1).
     case um_phys_node s1 of None \<Rightarrow> crash NullDeref
     | Some nodes \<Rightarrow> bindO (node_list (j_malloc J P_nodelist) (take (um_nnodes s1) nodes)) (\<lambda>(rc, l). ret (rc, l, s1)))"

text \<open>The processes of a node with the name space, of which at most 255 characters are copied.\<close>

definition PMIx_Resolve_peers :: "'w jlib \<Rightarrow> (nat \<Rightarrow> int) \<Rightarrow> string \<Rightarrow> string \<Rightarrow> 'w pmap \<Rightarrow> (int \<times> (string \<times> nat) list) outcome" where
  "PMIx_Resolve_peers J un nodename nspace s =
     bindO (call1 (jt_ranks J (um_jobid s) (name_coords un nodename) (um_ppn s))) (\<lambda>nd.
       if 48 < length nd then crash OutOfBounds else ret (0, map (\<lambda>r. (take PMIX_MAX_NSLEN nspace, r)) nd))"

end
