(* ===== verification/Utf_Procmap_Props.thy ===== *)
theory Utf_Procmap_Props
  imports Utf_Procmap
begin

text \<open>
  What the process map promises: in a job in which nothing fails every process has the entry of its place in its node (\<open>get_peers_map\<close>), no two processes share a
  queue (\<open>queues_apart\<close>), the own queues are one on each interface and listed in the table of the node (\<open>queues_listed\<close>); what is left after a failed start and after the end.
\<close>

section \<open>The jobs considered\<close>

text \<open>
  Documented behaviour of jtofu and uTofu in a job of \<open>n\<close> processes: process \<open>r\<close> is at the node \<open>pos r\<close>; \<open>nd p\<close> are
  the processes at \<open>p\<close>, each once, at most \<open>ppn\<close>; the logical coordinates \<open>lg\<close> are those of the node; the calls about VCQs and paths succeed.
\<close>

definition vcq_law :: "'w jlib \<Rightarrow> bool" where
  "vcq_law J \<longleftrightarrow> (\<forall>p t q. fst (tf_construct J p t q CONF_TOFU_CMPID) = 0) \<and> (\<forall>p. fst (jt_paths J p) = 0 \<and> length (snd (jt_paths J p)) \<le> 5)
     \<and> (\<forall>v p. fst (tf_path_id J v p) = 0) \<and> (\<forall>v. fst (tf_set_path J v) = 0)"

definition job_law :: "'w jlib \<Rightarrow> u32 \<Rightarrow> nat \<Rightarrow> nat \<Rightarrow> (nat \<Rightarrow> phys_coords) \<Rightarrow> (phys_coords \<Rightarrow> log_coords) \<Rightarrow> (phys_coords \<Rightarrow> nat list) \<Rightarrow> bool" where
  "job_law J job n ppn pos lg nd \<longleftrightarrow> 1 \<le> ppn \<and> ppn \<le> 48 \<and> card (pos ` {..<n}) \<le> NODE_MAX
     \<and> (\<forall>r < n. jt_phys J job r = (0, pos r) \<and> jt_log J job r = (0, lg (pos r)) \<and> jt_ranks J job (pos r) (int ppn) = (0, nd (pos r))
          \<and> distinct (nd (pos r)) \<and> set (nd (pos r)) = {q. q < n \<and> pos q = pos r} \<and> length (nd (pos r)) \<le> ppn)"

text \<open>The entry of the \<open>i\<close>-th process of a node.\<close>

definition peer_entry :: "'w jlib \<Rightarrow> nat \<Rightarrow> phys_coords \<Rightarrow> log_coords \<Rightarrow> nat \<Rightarrow> nat \<Rightarrow> pm_vname" where
  "peer_entry J ppn pcs lcs i r =
     (let (tni, cq) = utf_tni_select (int ppn) i; b = tniq_byte tni cq; id = snd (tf_construct J pcs (TNIQ2TNI b) (TNIQ2CQ b) CONF_TOFU_CMPID);
          ps = snd (jt_paths J pcs); pcds = ps @ drop (length ps) [0, 0, 0, 0, 0] in
      \<lparr>v_xyzabc = pcs, v_xyz = lcs, v_cid = CONF_TOFU_CMPID, v_valid = True, v_vpid = r, v_tniq0 = b, v_pent = length ps,
       v_pcoords = pcds, v_pathid = snd (tf_path_id J id (pcds ! 0)), v_vcqid = snd (tf_set_path J id)\<rparr>)"

lemma call1_ok: "fst r = 0 \<Longrightarrow> call1 r = ret (snd r)"
  by (simp add: call1_def)

lemma fill_rank_entry:
  assumes V: "vcq_law J" and r: "r < length (sc_vname s)" "sc_vname s ! r = zero_vname"
  shows "\<exists>s'. fill_rank J (int ppn) me pcs lcs nd i r s = ret s' \<and> sc_vname s' = (sc_vname s)[r := peer_entry J ppn pcs lcs i r]
    \<and> sc_tab s' = (sc_tab s)[r := v_vcqid (peer_entry J ppn pcs lcs i r)] \<and> sc_fi s' = (sc_fi s)[r := r] \<and> sc_marker s' = (sc_marker s)[r := word_of_nat i]
    \<and> sc_node s' = sc_node s \<and> (if int r = me then sc_mynrnk s' = i \<and> sc_myppn s' = length nd \<and> sc_lrank s' = nd ! 0
         else sc_mynrnk s' = sc_mynrnk s \<and> sc_myppn s' = sc_myppn s \<and> sc_lrank s' = sc_lrank s)"
proof -
  obtain tni cq where t: "utf_tni_select (int ppn) i = (tni, cq)" by fastforce
  have l: "\<not> 5 < length (snd (jt_paths J pcs))" using V by (auto simp: vcq_law_def not_less)
  show ?thesis using V l r by (cases "int r = me")
      (simp_all add: fill_rank_def t utf_vname_vcqid_def vcq_law_def call1_ok Let_def peer_entry_def zero_vname_def)
qed

definition same_at :: "nat \<Rightarrow> scan_st \<Rightarrow> scan_st \<Rightarrow> bool" where
  "same_at q s s' \<longleftrightarrow> sc_vname s' ! q = sc_vname s ! q \<and> sc_tab s' ! q = sc_tab s ! q \<and> sc_fi s' ! q = sc_fi s ! q \<and> sc_marker s' ! q = sc_marker s ! q"

definition lens :: "nat \<Rightarrow> scan_st \<Rightarrow> bool" where
  "lens n s \<longleftrightarrow> length (sc_vname s) = n \<and> length (sc_tab s) = n \<and> length (sc_fi s) = n \<and> length (sc_marker s) = n"

definition filled :: "'w jlib \<Rightarrow> nat \<Rightarrow> phys_coords \<Rightarrow> log_coords \<Rightarrow> nat \<Rightarrow> nat \<Rightarrow> scan_st \<Rightarrow> bool" where
  "filled J ppn pcs lcs i r s \<longleftrightarrow> sc_vname s ! r = peer_entry J ppn pcs lcs i r \<and> sc_tab s ! r = v_vcqid (peer_entry J ppn pcs lcs i r)
     \<and> sc_fi s ! r = r \<and> sc_marker s ! r = word_of_nat i"

definition own :: "int \<Rightarrow> nat list \<Rightarrow> nat \<Rightarrow> scan_st \<Rightarrow> bool" where
  "own me nd i s \<longleftrightarrow> int (nd ! i) = me \<and> sc_mynrnk s = i \<and> sc_myppn s = length nd \<and> sc_lrank s = nd ! 0"

definition same_own :: "scan_st \<Rightarrow> scan_st \<Rightarrow> bool" where
  "same_own s s' \<longleftrightarrow> sc_mynrnk s' = sc_mynrnk s \<and> sc_myppn s' = sc_myppn s \<and> sc_lrank s' = sc_lrank s"

lemma fill_node_entries:
  assumes V: "vcq_law J"
  shows "rs = drop i nd \<Longrightarrow> distinct nd \<Longrightarrow> \<forall>r \<in> set rs. r < n \<and> sc_vname s ! r = zero_vname \<Longrightarrow> lens n s \<Longrightarrow>
    \<exists>s'. fill_node J (int ppn) me pcs lcs nd i rs s = ret s' \<and> lens n s' \<and> sc_node s' = sc_node s \<and> (\<forall>q. q \<notin> set rs \<longrightarrow> same_at q s s')
      \<and> (\<forall>j. i \<le> j \<longrightarrow> j < length nd \<longrightarrow> filled J ppn pcs lcs j (nd ! j) s')
      \<and> (if me \<in> int ` set rs then \<exists>j. i \<le> j \<and> j < length nd \<and> own me nd j s' else same_own s s')"
proof (induction rs arbitrary: i s)
  case Nil
  then show ?case by (auto simp: same_at_def same_own_def)
next
  case (Cons r rs)
  have i: "i < length nd" "nd ! i = r" "rs = drop (Suc i) nd"
  proof -
    have "\<not> length nd \<le> i" using Cons.prems(1) by (metis drop_all list.distinct(1))
    then show l: "i < length nd" by simp
    have "r # rs = nd ! i # drop (Suc i) nd" using Cons.prems(1) Cons_nth_drop_Suc [OF l] by simp
    then show "nd ! i = r" "rs = drop (Suc i) nd" by simp_all
  qed
  have r: "r < length (sc_vname s)" "sc_vname s ! r = zero_vname" "r < n" using Cons.prems(3,4) by (simp_all add: lens_def)
  have nin: "r \<notin> set rs" using Cons.prems(2) i(1,2) unfolding i(3) by (auto simp: in_set_conv_nth nth_eq_iff_index_eq)
  from fill_rank_entry [OF V r(1,2), of ppn me pcs lcs nd i] obtain s1 where s1: "fill_rank J (int ppn) me pcs lcs nd i r s = ret s1"
    "sc_vname s1 = (sc_vname s)[r := peer_entry J ppn pcs lcs i r]" "sc_tab s1 = (sc_tab s)[r := v_vcqid (peer_entry J ppn pcs lcs i r)]"
    "sc_fi s1 = (sc_fi s)[r := r]" "sc_marker s1 = (sc_marker s)[r := word_of_nat i]" "sc_node s1 = sc_node s"
    "if int r = me then sc_mynrnk s1 = i \<and> sc_myppn s1 = length nd \<and> sc_lrank s1 = nd ! 0 else same_own s s1" by (auto simp: same_own_def)
  have l1: "lens n s1" using Cons.prems(4) s1 by (simp add: lens_def)
  have "\<forall>q \<in> set rs. q < n \<and> sc_vname s1 ! q = zero_vname" using Cons.prems(3) nin s1(2) by (metis list.set_intros(2) nth_list_update_neq)
  from Cons.IH [OF i(3) Cons.prems(2) this l1] obtain s' where s': "fill_node J (int ppn) me pcs lcs nd (Suc i) rs s1 = ret s'" "lens n s'" "sc_node s' = sc_node s1"
    "\<forall>q. q \<notin> set rs \<longrightarrow> same_at q s1 s'" "\<forall>j. Suc i \<le> j \<longrightarrow> j < length nd \<longrightarrow> filled J ppn pcs lcs j (nd ! j) s'"
    "if me \<in> int ` set rs then \<exists>j. Suc i \<le> j \<and> j < length nd \<and> own me nd j s' else same_own s1 s'" by blast
  have "filled J ppn pcs lcs i r s1" using s1(2-5) Cons.prems(4) r(3) by (simp add: filled_def lens_def)
  then have fi: "filled J ppn pcs lcs i r s'" using s'(4) nin by (simp add: filled_def same_at_def)
  have "filled J ppn pcs lcs j (nd ! j) s'" if "i \<le> j" "j < length nd" for j using that s'(5) fi i(2) by (cases "j = i") auto
  moreover have "same_at q s s'" if "q \<notin> set (r # rs)" for q using that s'(4) s1(2-5) by (simp add: same_at_def)
  moreover have "if me \<in> int ` set (r # rs) then \<exists>j. i \<le> j \<and> j < length nd \<and> own me nd j s' else same_own s s'"
  proof (cases "me \<in> int ` set rs")
    case True
    with s'(6) obtain j where "Suc i \<le> j \<and> j < length nd \<and> own me nd j s'" by auto
    with True show ?thesis by (auto intro: exI [of _ j])
  next
    case False
    with s'(6) s1(7) i(1,2) show ?thesis by (cases "int r = me") (auto simp: own_def same_own_def)
  qed
  ultimately show ?case using s1(1,6) s'(1-3) by (intro exI [of _ s']) simp
qed


text \<open>After the ranks below \<open>k\<close>: the nodes of these ranks are complete, the other entries are as at the start.\<close>

definition scan_inv :: "'w jlib \<Rightarrow> nat \<Rightarrow> nat \<Rightarrow> (nat \<Rightarrow> phys_coords) \<Rightarrow> (phys_coords \<Rightarrow> log_coords) \<Rightarrow> (phys_coords \<Rightarrow> nat list) \<Rightarrow> int \<Rightarrow> nat \<Rightarrow> scan_st \<Rightarrow> bool" where
  "scan_inv J n ppn pos lg nd me k s \<longleftrightarrow> lens n s \<and> distinct (sc_node s) \<and> set (sc_node s) = pos ` {..<k}
     \<and> (\<forall>q < n. pos q \<in> pos ` {..<k} \<longrightarrow> (\<exists>i < length (nd (pos q)). nd (pos q) ! i = q \<and> filled J ppn (pos q) (lg (pos q)) i q s))
     \<and> (\<forall>q < n. pos q \<notin> pos ` {..<k} \<longrightarrow> sc_vname s ! q = zero_vname \<and> sc_marker s ! q = 255)
     \<and> (\<forall>q < n. int q = me \<longrightarrow> pos q \<in> pos ` {..<k} \<longrightarrow> (\<exists>i < length (nd (pos q)). own me (nd (pos q)) i s))"

lemma marker_255: "i < 48 \<Longrightarrow> word_of_nat i \<noteq> (255 :: u8)"
proof
  assume "i < 48" "word_of_nat i = (255 :: u8)"
  then have "unat (word_of_nat i :: u8) = 255" by simp
  then show False using \<open>i < 48\<close> by (simp add: unat_of_nat)
qed

lemma scan_node_step:
  assumes J: "job_law J job n ppn pos lg nd" "vcq_law J" and k: "k < n" and inv: "scan_inv J n ppn pos lg nd me k s"
    and new: "pos k \<notin> pos ` {..<k}"
  shows "\<exists>s'. fill_node J (int ppn) me (pos k) (lg (pos k)) (nd (pos k)) 0 (nd (pos k)) (s\<lparr>sc_node := sc_node s @ [pos k]\<rparr>) = ret s'
    \<and> scan_inv J n ppn pos lg nd me (Suc k) s'"
proof -
  let ?s = "s\<lparr>sc_node := sc_node s @ [pos k]\<rparr>" and ?nd = "nd (pos k)"
  have nd: "distinct ?nd" "set ?nd = {q. q < n \<and> pos q = pos k}" using J(1) k by (auto simp: job_law_def)
  have z: "\<forall>r \<in> set ?nd. r < n \<and> sc_vname ?s ! r = zero_vname" using nd(2) inv new by (auto simp: scan_inv_def)
  have l: "lens n ?s" using inv by (simp add: scan_inv_def lens_def)
  from fill_node_entries [OF J(2), of ?nd 0 ?nd n ?s ppn me "pos k" "lg (pos k)"] nd(1) z l obtain s' where
    f: "fill_node J (int ppn) me (pos k) (lg (pos k)) ?nd 0 ?nd ?s = ret s'" "lens n s'" "sc_node s' = sc_node s @ [pos k]"
    "\<forall>q. q \<notin> set ?nd \<longrightarrow> same_at q ?s s'" "\<forall>j. 0 \<le> j \<longrightarrow> j < length ?nd \<longrightarrow> filled J ppn (pos k) (lg (pos k)) j (?nd ! j) s'"
    "if me \<in> int ` set ?nd then \<exists>j. 0 \<le> j \<and> j < length ?nd \<and> own me ?nd j s' else same_own ?s s'" by auto
  have img: "pos ` {..<Suc k} = insert (pos k) (pos ` {..<k})" by (simp add: lessThan_Suc)
  have same: "same_at q s s'" if "pos q \<noteq> pos k" for q using that f(4) nd(2) by (auto simp: same_at_def)
  have "\<exists>i < length (nd (pos q)). nd (pos q) ! i = q \<and> filled J ppn (pos q) (lg (pos q)) i q s'" if q: "q < n" "pos q \<in> pos ` {..<Suc k}" for q
  proof (cases "pos q = pos k")
    case True
    then have "q \<in> set ?nd" using nd(2) q(1) by simp
    then obtain i where "i < length ?nd" "?nd ! i = q" by (auto simp: in_set_conv_nth)
    moreover have "filled J ppn (pos k) (lg (pos k)) i q s'" using f(5) calculation by blast
    ultimately show ?thesis unfolding True by blast
  next
    case False
    with q have "pos q \<in> pos ` {..<k}" unfolding img by simp
    with inv q(1) obtain i where "i < length (nd (pos q))" "nd (pos q) ! i = q" "filled J ppn (pos q) (lg (pos q)) i q s"
      unfolding scan_inv_def by blast
    with same [OF False] show ?thesis by (auto simp: filled_def same_at_def)
  qed
  moreover have "sc_vname s' ! q = zero_vname \<and> sc_marker s' ! q = 255" if "q < n" "pos q \<notin> pos ` {..<Suc k}" for q
    using that same [of q] inv unfolding img scan_inv_def same_at_def by auto
  moreover have "\<exists>i < length (nd (pos q)). own me (nd (pos q)) i s'" if q: "q < n" "int q = me" "pos q \<in> pos ` {..<Suc k}" for q
  proof (cases "pos q = pos k")
    case True
    then have "me \<in> int ` set ?nd" using nd(2) q by auto
    then have "\<exists>j. 0 \<le> j \<and> j < length ?nd \<and> own me ?nd j s'" using f(6) by presburger
    then show ?thesis unfolding True by blast
  next
    case False
    have "q \<notin> set ?nd" using nd(2) False by simp
    then have "me \<notin> int ` set ?nd" unfolding q(2) [symmetric] by auto
    then have "same_own s s'" using f(6) by (simp add: same_own_def)
    moreover have "\<exists>i < length (nd (pos q)). own me (nd (pos q)) i s"
    proof -
      have "pos q \<in> pos ` {..<k}" using q(3) False unfolding img by simp
      then show ?thesis using inv q(1,2) by (simp add: scan_inv_def)
    qed
    ultimately show ?thesis by (auto simp: own_def same_own_def)
  qed
  moreover have "distinct (sc_node s')" "set (sc_node s') = pos ` {..<Suc k}" using f(3) inv new unfolding img by (auto simp: scan_inv_def)
  ultimately show ?thesis using f(1,2) unfolding scan_inv_def by blast
qed

lemma scan_known:
  "job_law J job n ppn pos lg nd \<Longrightarrow> k < n \<Longrightarrow> scan_inv J n ppn pos lg nd me k s \<Longrightarrow> sc_marker s ! k = 255 \<longleftrightarrow> pos k \<notin> pos ` {..<k}"
proof
  assume J: "job_law J job n ppn pos lg nd" and k: "k < n" and inv: "scan_inv J n ppn pos lg nd me k s" and m: "sc_marker s ! k = 255"
  show "pos k \<notin> pos ` {..<k}"
  proof
    assume "pos k \<in> pos ` {..<k}"
    with inv k obtain i where "i < length (nd (pos k))" "sc_marker s ! k = word_of_nat i" unfolding scan_inv_def filled_def by blast
    moreover have "length (nd (pos k)) \<le> 48" using J k by (auto simp: job_law_def)
    ultimately show False using m marker_255 [of i] by simp
  qed
qed (simp add: scan_inv_def)

lemma scan_ranks_map:
  assumes J: "job_law J job n ppn pos lg nd" "vcq_law J"
  shows "rs = [k..<n] \<Longrightarrow> k \<le> n \<Longrightarrow> scan_inv J n ppn pos lg nd me k s \<Longrightarrow>
    \<exists>s'. scan_ranks J job (int ppn) me rs s = ret s' \<and> scan_inv J n ppn pos lg nd me n s'"
proof (induction rs arbitrary: k s)
  case (Cons r rs)
  have "k < n" using Cons.prems(1) by (cases "k < n") simp_all
  then have k: "k < n" "r = k" "rs = [Suc k..<n]" using Cons.prems(1) by (simp_all add: upt_conv_Cons)
  note law = J(1) [unfolded job_law_def]
  note go = Cons.IH [OF k(3) Suc_leI [OF k(1)]]
  show ?case
  proof (cases "sc_marker s ! k = 255")
    case True
    then have new: "pos k \<notin> pos ` {..<k}" using scan_known [OF J(1) k(1) Cons.prems(3)] by simp
    have "length (sc_node s) = card (pos ` {..<k})" using Cons.prems(3) distinct_card [of "sc_node s"] by (simp add: scan_inv_def)
    also have "\<dots> < card (pos ` {..<n})"
      using new k(1) by (intro psubset_card_mono) auto
    finally have "\<not> NODE_MAX \<le> length (sc_node s)" using law by simp
    moreover obtain s' where "fill_node J (int ppn) me (pos k) (lg (pos k)) (nd (pos k)) 0 (nd (pos k)) (s\<lparr>sc_node := sc_node s @ [pos k]\<rparr>) = ret s'"
      "scan_inv J n ppn pos lg nd me (Suc k) s'" using scan_node_step [OF J k(1) Cons.prems(3) new] by auto
    moreover have "\<not> 48 < length (nd (pos k))" using law k(1) by force
    ultimately show ?thesis using True go [of s'] law k(1,2) by (simp add: call1_def)
  next
    case False
    then have "pos k \<in> pos ` {..<k}" using scan_known [OF J(1) k(1) Cons.prems(3)] by simp
    then have "pos ` {..<Suc k} = pos ` {..<k}" by (auto simp: lessThan_Suc)
    then have "scan_inv J n ppn pos lg nd me (Suc k) s" using Cons.prems(3) by (simp add: scan_inv_def)
    with False go show ?thesis by (simp add: k(2))
  qed
next
  case Nil
  then have "k = n" by (cases "k < n") (simp_all add: upt_conv_Cons)
  with Nil show ?case by simp
qed


section \<open>The control queues\<close>

text \<open>
  Documented behaviour of uTofu for the queues of the process: the calls succeed, and \<open>tnis\<close> are the interfaces with one-sided communication.
\<close>

definition create_law :: "'w jlib \<Rightarrow> nat list \<Rightarrow> bool" where
  "create_law J tnis \<longleftrightarrow> (\<forall>t w. fst (tf_create_vcq J t w) = 0) \<and> (\<forall>h. fst (tf_query_id J h) = 0) \<and> (\<forall>t. fst (tf_caps J t) = 0)
     \<and> tf_onesided_tnis J = (0, tnis) \<and> distinct tnis \<and> set tnis \<subseteq> {..<TOFU_NIC_SIZE}"

text \<open>What the creation of the queues leaves alone.\<close>

definition map_part :: "'w pmap \<Rightarrow> (pm_vname list option \<times> u64 list option \<times> nat list option \<times> phys_coords list option \<times> nat) \<times> (nat \<times> nat \<times> nat \<times> int \<times> nat \<times> int \<times> u32) \<times> cqsel_table option" where
  "map_part s = ((um_vname s, um_tab_vcqid s, um_myfiaddr s, um_phys_node s, um_nnodes s),
     (um_mynrnk s, um_myppn s, um_lrank s, um_ppn s, um_nprocs s, um_myrank s, um_jobid s), um_cqseltab s)"

definition vcq_at :: "'w jlib \<Rightarrow> 'w pmap \<Rightarrow> nat \<Rightarrow> bool" where
  "vcq_at J s i \<longleftrightarrow> um_vcqids s ! i = snd (tf_query_id J (um_vcqhs s ! i)) \<and> (\<exists>w w'. tf_create_vcq J (um_tniids s ! i) w = (0, um_vcqhs s ! i, w'))"

definition vcq_lens :: "'w pmap \<Rightarrow> bool" where
  "vcq_lens s \<longleftrightarrow> length (um_tniids s) = TOFU_NIC_SIZE \<and> length (um_vcqhs s) = TOFU_NIC_SIZE \<and> length (um_vcqids s) = TOFU_NIC_SIZE"

lemma make_vcqs_fill:
  assumes C: "create_law J tnis"
  shows "vcq_lens s \<Longrightarrow> v + length (filter (\<lambda>t. t \<noteq> p) ts) \<le> TOFU_NIC_SIZE \<Longrightarrow>
    \<exists>s'. make_vcqs J p ts v s = ret s' \<and> vcq_lens s' \<and> map_part s' = map_part s \<and> um_vcqh s' = um_vcqh s \<and> um_tniid s' = um_tniid s \<and> um_ntni s' = um_ntni s
      \<and> um_notfirst s' = um_notfirst s
      \<and> take (v + length (filter (\<lambda>t. t \<noteq> p) ts)) (um_tniids s') = take v (um_tniids s) @ filter (\<lambda>t. t \<noteq> p) ts
      \<and> (\<forall>i < v. um_vcqhs s' ! i = um_vcqhs s ! i \<and> um_vcqids s' ! i = um_vcqids s ! i)
      \<and> (\<forall>i. v \<le> i \<longrightarrow> i < v + length (filter (\<lambda>t. t \<noteq> p) ts) \<longrightarrow> vcq_at J s' i)"
proof (induction ts arbitrary: v s)
  case (Cons t ts)
  show ?case
  proof (cases "t = p")
    case True
    with Cons.IH [OF Cons.prems(1), of v] Cons.prems(2) show ?thesis by simp
  next
    case False
    obtain h w' where cr: "tf_create_vcq J t (um_world s) = (0, h, w')" using C by (metis create_law_def prod.collapse)
    have q: "call1 (tf_query_id J h) = ret (snd (tf_query_id J h))" using C by (simp add: call1_def create_law_def)
    let ?s = "s\<lparr>um_vcqhs := (um_vcqhs s)[v := h], um_vcqids := (um_vcqids s)[v := snd (tf_query_id J h)], um_tniids := (um_tniids s)[v := t], um_world := w'\<rparr>"
    have v: "v < TOFU_NIC_SIZE" "Suc v + length (filter (\<lambda>t. t \<noteq> p) ts) \<le> TOFU_NIC_SIZE" using Cons.prems(2) False by auto
    have l: "vcq_lens ?s" using Cons.prems(1) by (simp add: vcq_lens_def)
    have step: "make_vcqs J p (t # ts) v s = make_vcqs J p ts (Suc v) ?s" using False v(1) cr q by (simp add: call1_def)
    from Cons.IH [OF l v(2)] obtain s' where s': "make_vcqs J p ts (Suc v) ?s = ret s'" "vcq_lens s'" "map_part s' = map_part ?s" "um_vcqh s' = um_vcqh s"
      "um_tniid s' = um_tniid s" "um_ntni s' = um_ntni s" "um_notfirst s' = um_notfirst s"
      "take (Suc v + length (filter (\<lambda>t. t \<noteq> p) ts)) (um_tniids s') = take (Suc v) (um_tniids ?s) @ filter (\<lambda>t. t \<noteq> p) ts"
      "\<forall>i < Suc v. um_vcqhs s' ! i = um_vcqhs ?s ! i \<and> um_vcqids s' ! i = um_vcqids ?s ! i"
      "\<forall>i. Suc v \<le> i \<longrightarrow> i < Suc v + length (filter (\<lambda>t. t \<noteq> p) ts) \<longrightarrow> vcq_at J s' i" by auto
    have vl: "v < length (um_tniids s)" "v < length (um_vcqhs s)" "v < length (um_vcqids s)" using Cons.prems(1) v(1) by (auto simp: vcq_lens_def)
    have tk: "take (Suc v) (um_tniids ?s) = take v (um_tniids s) @ [t]" using vl(1) by (simp add: take_Suc_conv_app_nth)
    then have "um_tniids s' ! v = t" using arg_cong [OF s'(8), of "\<lambda>l. l ! v"] vl(1) by (simp add: nth_append)
    then have "vcq_at J s' v" using s'(9) vl cr by (auto simp: vcq_at_def)
    then have "vcq_at J s' i" if "v \<le> i" "i < Suc v + length (filter (\<lambda>t. t \<noteq> p) ts)" for i using that s'(10) by (cases "i = v") auto
    moreover have "\<forall>i < v. um_vcqhs s' ! i = um_vcqhs s ! i \<and> um_vcqids s' ! i = um_vcqids s ! i" using s'(9) by simp
    moreover have "map_part s' = map_part s" using s'(3) by (simp add: map_part_def)
    ultimately show ?thesis using s'(1,2,4-8) tk False step by (intro exI [of _ s']) simp
  qed
qed simp

lemma filter_other: "distinct ts \<Longrightarrow> p \<in> set ts \<Longrightarrow> Suc (length (filter (\<lambda>t. t \<noteq> p) ts)) = length ts"
  by (induction ts) (auto simp: filter_id_conv intro!: arg_cong [of _ _ length])

text \<open>The queues of the process after the start: on each interface one, the own interface first.\<close>

definition vcqs_ready :: "'w jlib \<Rightarrow> nat list \<Rightarrow> nat \<Rightarrow> 'w pmap \<Rightarrow> bool" where
  "vcqs_ready J tnis p s \<longleftrightarrow> vcq_lens s \<and> um_ntni s = length tnis \<and> take (um_ntni s) (um_tniids s) = p # filter (\<lambda>t. t \<noteq> p) tnis
     \<and> um_tniid s = p \<and> um_vcqh s = um_vcqhs s ! 0 \<and> (\<forall>i < um_ntni s. vcq_at J s i)"

lemma vcqs_init_ready:
  assumes C: "create_law J tnis" and p: "p = fst (utf_tni_select (um_ppn s) (um_mynrnk s))" "p \<in> set tnis" and l: "vcq_lens s"
  shows "\<exists>s'. utf_vcqs_init J s = ret s' \<and> map_part s' = map_part s \<and> um_notfirst s' = um_notfirst s \<and> vcqs_ready J tnis p s'"
proof -
  obtain h w' where cr: "tf_create_vcq J p (um_world s) = (0, h, w')" using C by (metis create_law_def prod.collapse)
  have q: "call1 (tf_query_id J h) = ret (snd (tf_query_id J h))" "call1 (tf_onesided_tnis J) = ret tnis" "\<And>t. call1 (tf_caps J t) = ret (snd (tf_caps J t))"
    using C by (simp_all add: call1_def create_law_def)
  have d: "distinct tnis" "set tnis \<subseteq> {..<TOFU_NIC_SIZE}" using C by (auto simp: create_law_def)
  have n: "1 + length (filter (\<lambda>t. t \<noteq> p) tnis) = length tnis" using filter_other [OF d(1) p(2)] by simp
  have "length tnis \<le> TOFU_NIC_SIZE" using card_mono [OF _ d(2)] distinct_card [OF d(1)] by simp
  let ?s = "s\<lparr>um_tniid := p, um_vcqh := h, um_vcqid := snd (tf_query_id J h), um_tniids := (um_tniids s)[0 := p],
      um_vcqhs := (um_vcqhs s)[0 := h], um_vcqids := (um_vcqids s)[0 := snd (tf_query_id J h)], um_ntni := length tnis, um_world := w'\<rparr>"
  have "vcq_lens ?s" using l by (simp add: vcq_lens_def)
  from make_vcqs_fill [OF C this, of 1 p tnis] n \<open>length tnis \<le> TOFU_NIC_SIZE\<close> obtain s1 where s1: "make_vcqs J p tnis 1 ?s = ret s1" "vcq_lens s1"
    "map_part s1 = map_part ?s" "um_vcqh s1 = h" "um_tniid s1 = p" "um_ntni s1 = length tnis" "um_notfirst s1 = um_notfirst s"
    "take (length tnis) (um_tniids s1) = take 1 (um_tniids ?s) @ filter (\<lambda>t. t \<noteq> p) tnis"
    "um_vcqhs s1 ! 0 = um_vcqhs ?s ! 0 \<and> um_vcqids s1 ! 0 = um_vcqids ?s ! 0" "\<forall>i. 1 \<le> i \<longrightarrow> i < length tnis \<longrightarrow> vcq_at J s1 i" by auto
  have z: "0 < length (um_tniids s)" "0 < length (um_vcqhs s)" "0 < length (um_vcqids s)" using l by (auto simp: vcq_lens_def TOFU_NIC_SIZE_def)
  have tk: "take 1 (um_tniids ?s) = [p]" using z(1) by (cases "um_tniids s") simp_all
  have "0 < length tnis" using n by linarith
  then have "um_tniids s1 ! 0 = take (length tnis) (um_tniids s1) ! 0" by (simp only: nth_take)
  also have "\<dots> = p" unfolding s1(8) tk by simp
  finally have "um_tniids s1 ! 0 = p" .
  then have "vcq_at J s1 0" using s1(9) z cr by (auto simp: vcq_at_def)
  then have "vcq_at J s1 i" if "i < length tnis" for i using that s1(10) by (cases i) auto
  then have r: "vcqs_ready J tnis p (s1\<lparr>um_caps := c\<rparr>)" for c using s1(2,4-6,8,9) tk z by (simp add: vcqs_ready_def vcq_lens_def vcq_at_def)
  have "utf_vcqs_init J s = ret (s1\<lparr>um_caps := snd (tf_caps J p)\<rparr>)"
    unfolding utf_vcqs_init_def p(1) [symmetric] using cr q s1(1,5) by (simp add: Let_def call1_def)
  with r s1(3,7) show ?thesis by (simp add: map_part_def)
qed


section \<open>The entry in the table of the node\<close>

lemma fill_tinfo_all:
  "i + n \<le> TOFU_NIC_SIZE \<Longrightarrow> \<forall>j < n. tnis ! (i + j) < 6 \<Longrightarrow> length (ti_idx x) = TOFU_NIC_SIZE \<Longrightarrow> length (ti_vcqhdl x) = TOFU_NIC_SIZE \<Longrightarrow>
    length (ti_vcqid x) = TOFU_NIC_SIZE \<Longrightarrow>
    \<exists>y. fill_tinfo J tnis vcqhp i n x = ret y \<and> ti_ppn y = ti_ppn x \<and> ti_nrnk y = ti_nrnk x \<and> ti_ntni y = ti_ntni x \<and> ti_usd y = ti_usd x
      \<and> (\<forall>j < i. ti_idx y ! j = ti_idx x ! j \<and> ti_vcqhdl y ! j = ti_vcqhdl x ! j \<and> ti_vcqid y ! j = ti_vcqid x ! j)
      \<and> (\<forall>j. i \<le> j \<longrightarrow> j < i + n \<longrightarrow> ti_idx y ! j = tnis ! j \<and> ti_vcqhdl y ! j = vcqhp ! j \<and> ti_vcqid y ! j = snd (tf_query_id J (vcqhp ! j)))"
proof (induction n arbitrary: i x)
  case (Suc n)
  let ?x = "x\<lparr>ti_idx := (ti_idx x)[i := tnis ! i], ti_vcqhdl := (ti_vcqhdl x)[i := vcqhp ! i], ti_vcqid := (ti_vcqid x)[i := snd (tf_query_id J (vcqhp ! i))]\<rparr>"
  have t: "\<forall>j < n. tnis ! (Suc i + j) < 6" using Suc.prems(2) by (metis Suc_less_eq add_Suc_shift)
  have i: "\<not> TOFU_NIC_SIZE \<le> i" "\<not> 6 \<le> tnis ! i" using Suc.prems(1) Suc.prems(2) [rule_format, of 0] by simp_all
  from Suc.IH [of "Suc i" ?x] Suc.prems t obtain y where y: "fill_tinfo J tnis vcqhp (Suc i) n ?x = ret y" "ti_ppn y = ti_ppn x" "ti_nrnk y = ti_nrnk x"
    "ti_ntni y = ti_ntni x" "ti_usd y = ti_usd x"
    "\<forall>j < Suc i. ti_idx y ! j = ti_idx ?x ! j \<and> ti_vcqhdl y ! j = ti_vcqhdl ?x ! j \<and> ti_vcqid y ! j = ti_vcqid ?x ! j"
    "\<forall>j. Suc i \<le> j \<longrightarrow> j < Suc i + n \<longrightarrow> ti_idx y ! j = tnis ! j \<and> ti_vcqhdl y ! j = vcqhp ! j \<and> ti_vcqid y ! j = snd (tf_query_id J (vcqhp ! j))" by auto
  have "ti_idx y ! j = tnis ! j \<and> ti_vcqhdl y ! j = vcqhp ! j \<and> ti_vcqid y ! j = snd (tf_query_id J (vcqhp ! j))" if "i \<le> j" "j < i + Suc n" for j
    using that y(6,7) Suc.prems(3-5) i(1) by (cases "j = i") simp_all
  then show ?case using y(1-6) i by (intro exI [of _ y]) simp
qed simp

text \<open>Documented behaviour of the shared memory of the node, as far as the initialisation needs it: every process gets it, with arrays of the declared lengths.\<close>

definition table_law :: "'w jlib \<Rightarrow> bool" where
  "table_law J \<longleftrightarrow> (\<forall>sz k w. \<exists>a id w'. shm_join J sz k w = ret (a, id, w')) \<and> (\<forall>a w i. length (ti_idx (cq_node (shm_content J a w) i)) = TOFU_NIC_SIZE
     \<and> length (ti_usd (cq_node (shm_content J a w) i)) = TOFU_NIC_SIZE
     \<and> length (ti_vcqhdl (cq_node (shm_content J a w) i)) = TOFU_NIC_SIZE \<and> length (ti_vcqid (cq_node (shm_content J a w) i)) = TOFU_NIC_SIZE)"

definition node_entry_ok :: "'w pmap \<Rightarrow> tni_info \<Rightarrow> bool" where
  "node_entry_ok s x \<longleftrightarrow> unat (ti_ppn x) = um_myppn s \<and> unat (ti_nrnk x) = um_mynrnk s \<and> unat (ti_ntni x) = um_ntni s \<and> ti_usd x ! 0 = 1
     \<and> (\<forall>i < um_ntni s. ti_idx x ! i = um_tniids s ! i \<and> ti_vcqhdl x ! i = um_vcqhs s ! i \<and> ti_vcqid x ! i = um_vcqids s ! i)"

lemma cqselect_entry:
  assumes T: "table_law J" and R: "vcqs_ready J tnis p s" "create_law J tnis" "p \<in> set tnis" and n: "um_mynrnk s < um_myppn s" "um_myppn s \<le> 48"
  shows "\<exists>s' t. utf_cqselect_init J s = ret s' \<and> um_cqseltab s' = Some t \<and> node_entry_ok s (cq_node t (um_mynrnk s)) \<and> vcqs_ready J tnis p s'
    \<and> (map_part s', um_notfirst s') = (apsnd (apsnd (\<lambda>_. Some t)) (map_part s), um_notfirst s)
    \<and> (um_tniids s', um_vcqhs s', um_vcqids s', um_ntni s') = (um_tniids s, um_vcqhs s, um_vcqids s, um_ntni s)"
proof -
  let ?n = "um_mynrnk s" and ?sz = "(sizeof_cqsel_table + j_page J - 1) div j_page J * j_page J"
  obtain a id w where j: "shm_join J ?sz SHMEM_UTF (um_world s) = ret (a, id, w)" using T by (metis table_law_def)
  define t0 where "t0 = shm_content J a w"
  define t where "t = (if ?n = 0 then t0\<lparr>cq_snd_len := replicate TOFU_NIC_SIZE 0, cq_rcv_len := replicate TOFU_NIC_SIZE 0\<rparr> else t0)"
  let ?x = "(cq_node t ?n)\<lparr>ti_ppn := word_of_nat (um_myppn s), ti_nrnk := word_of_nat ?n, ti_ntni := word_of_nat (um_ntni s)\<rparr>"
  have len: "length (ti_idx ?x) = TOFU_NIC_SIZE" "length (ti_usd ?x) = TOFU_NIC_SIZE" "length (ti_vcqhdl ?x) = TOFU_NIC_SIZE" "length (ti_vcqid ?x) = TOFU_NIC_SIZE"
    using T by (simp_all add: t_def t0_def table_law_def)
  have d: "distinct tnis" "set tnis \<subseteq> {..<TOFU_NIC_SIZE}" using R(2) by (auto simp: create_law_def)
  have nt: "um_ntni s = length tnis" "take (um_ntni s) (um_tniids s) = p # filter (\<lambda>t. t \<noteq> p) tnis" "\<forall>i < um_ntni s. vcq_at J s i"
    using R(1) by (auto simp: vcqs_ready_def)
  have le: "um_ntni s \<le> TOFU_NIC_SIZE" using card_mono [OF _ d(2)] distinct_card [OF d(1)] nt(1) by simp
  have six: "um_tniids s ! i < 6" if "i < um_ntni s" for i
  proof -
    have "i < length (um_tniids s)" using that le R(1) by (simp add: vcqs_ready_def vcq_lens_def)
    then have "um_tniids s ! i \<in> set (take (um_ntni s) (um_tniids s))" using that by (auto simp: in_set_conv_nth intro!: exI [of _ i])
    then show ?thesis using nt(2) R(3) d(2) by (auto simp: TOFU_NIC_SIZE_def)
  qed
  from fill_tinfo_all [of 0 "um_ntni s" "um_tniids s" ?x J "um_vcqhs s"] le six len obtain y where
    y: "fill_tinfo J (um_tniids s) (um_vcqhs s) 0 (um_ntni s) ?x = ret y" "ti_ppn y = word_of_nat (um_myppn s)" "ti_nrnk y = word_of_nat ?n"
    "ti_ntni y = word_of_nat (um_ntni s)" "ti_usd y = ti_usd ?x"
    "\<forall>i < um_ntni s. ti_idx y ! i = um_tniids s ! i \<and> ti_vcqhdl y ! i = um_vcqhs s ! i \<and> ti_vcqid y ! i = snd (tf_query_id J (um_vcqhs s ! i))" by auto
  let ?y = "y\<lparr>ti_usd := (ti_usd y)[0 := 1]\<rparr>"
  let ?s = "s\<lparr>um_cqseltab := Some (t\<lparr>cq_node := (cq_node t)(?n := ?y)\<rparr>), um_cqselid := id, um_world := w\<rparr>"
  have "\<not> 48 \<le> ?n" using n by simp
  then have "utf_cqselect_init J s = ret ?s"
    by (simp only: utf_cqselect_init_def Let_def j bindO_ret case_prod_conv t0_def [symmetric] t_def [symmetric] if_False y(1))
  moreover have "node_entry_ok s ?y"
    using y n le len(2) nt(3) by (simp add: node_entry_ok_def vcq_at_def unat_of_nat TOFU_NIC_SIZE_def)
  moreover have "vcqs_ready J tnis p ?s" using R(1) nt(1,2) by (auto simp: vcqs_ready_def vcq_lens_def vcq_at_def)
  ultimately show ?thesis by (simp add: map_part_def)
qed


section \<open>The start\<close>

text \<open>A start in which nothing fails: the job with the name space \<open>ns\<close> has \<open>n\<close> processes, this one is \<open>me\<close>.\<close>

definition start_law :: "'w jlib \<Rightarrow> string \<Rightarrow> nat \<Rightarrow> nat \<Rightarrow> nat \<Rightarrow> (nat \<Rightarrow> phys_coords) \<Rightarrow> (phys_coords \<Rightarrow> log_coords) \<Rightarrow> (phys_coords \<Rightarrow> nat list) \<Rightarrow> nat list \<Rightarrow> bool" where
  "start_law J ns me n ppn pos lg nd tnis \<longleftrightarrow> me < n \<and> jt_max_ppn J = int ppn \<and> (\<forall>x. j_malloc J x)
     \<and> (\<forall>w. \<exists>w'. PMIx_Init J w = (0, ns, int me, w')) \<and> (\<forall>w. \<exists>w'. PMIx_Get_size J w = (0, n, w')) \<and> (\<forall>w. \<exists>m w'. PMIx_Get_rankmap J w = (0, m, w'))
     \<and> job_law J (generate_hash_string ns PMIX_MAX_NSLEN) n ppn pos lg nd \<and> vcq_law J \<and> create_law J tnis \<and> table_law J
     \<and> (\<forall>i < ppn. fst (utf_tni_select (int ppn) i) \<in> set tnis)"

definition map_ok :: "'w jlib \<Rightarrow> nat \<Rightarrow> nat \<Rightarrow> (nat \<Rightarrow> phys_coords) \<Rightarrow> (phys_coords \<Rightarrow> log_coords) \<Rightarrow> (phys_coords \<Rightarrow> nat list) \<Rightarrow> pm_vname list \<Rightarrow> bool" where
  "map_ok J n ppn pos lg nd v \<longleftrightarrow> length v = n
     \<and> (\<forall>q < n. \<exists>i < length (nd (pos q)). nd (pos q) ! i = q \<and> v ! q = peer_entry J ppn (pos q) (lg (pos q)) i q)"

definition nodes_ok :: "nat \<Rightarrow> (nat \<Rightarrow> phys_coords) \<Rightarrow> 'w pmap \<Rightarrow> bool" where
  "nodes_ok n pos s \<longleftrightarrow> (\<exists>nodes. um_phys_node s = Some nodes \<and> um_nnodes s = length nodes \<and> distinct nodes \<and> set nodes = pos ` {..<n})"

definition own_ok :: "nat \<Rightarrow> nat \<Rightarrow> nat list \<Rightarrow> 'w pmap \<Rightarrow> bool" where
  "own_ok n me nd s \<longleftrightarrow> um_nprocs s = n \<and> um_myrank s = int me \<and> um_mynrnk s < length nd \<and> nd ! um_mynrnk s = me \<and> um_myppn s = length nd \<and> um_lrank s = nd ! 0"

lemma jtofuinit_ok:
  assumes "start_law J ns me n ppn pos lg nd tnis"
  shows "\<exists>s1. utf_jtofuinit False J s = (0, s1) \<and> um_nprocs s1 = n \<and> um_myrank s1 = int me \<and> um_jobid s1 = generate_hash_string ns PMIX_MAX_NSLEN
    \<and> (vcq_lens s1 \<longleftrightarrow> vcq_lens s) \<and> um_notfirst s1 = um_notfirst s"
proof -
  note A = assms [unfolded start_law_def]
  obtain w1 where 1: "PMIx_Init J (um_world s) = (0, ns, int me, w1)" using A by blast
  obtain w2 where 2: "PMIx_Get_size J w1 = (0, n, w2)" using A by blast
  obtain m w3 where 3: "PMIx_Get_rankmap J w2 = (0, m, w3)" using A by blast
  show ?thesis by (simp add: utf_jtofuinit_def 1 2 3 Let_def vcq_lens_def)
qed

lemma scan_start_inv: "scan_inv J n ppn pos lg nd me 0 (scan_start n a b c)"
  by (simp add: scan_inv_def scan_start_def lens_def)

lemma peers_init_all:
  assumes S: "start_law J ns me n ppn pos lg nd tnis" and L: "vcq_lens s"
  shows "\<exists>s' v t. utf_peers_init J s = ret (1, s') \<and> um_notfirst s' = um_notfirst s \<and> um_vname s' = Some v \<and> map_ok J n ppn pos lg nd v \<and> um_myfiaddr s' = Some [0..<n]
    \<and> nodes_ok n pos s' \<and> own_ok n me (nd (pos me)) s' \<and> um_ppn s' = int ppn
    \<and> vcqs_ready J tnis (fst (utf_tni_select (int ppn) (um_mynrnk s'))) s' \<and> um_cqseltab s' = Some t \<and> node_entry_ok s' (cq_node t (um_mynrnk s'))"
proof -
  from jtofuinit_ok [OF S, of s] L obtain s1 where s1: "utf_jtofuinit False J s = (0, s1)" "um_nprocs s1 = n" "um_myrank s1 = int me"
    "um_jobid s1 = generate_hash_string ns PMIX_MAX_NSLEN" "vcq_lens s1" "um_notfirst s1 = um_notfirst s" by auto
  let ?job = "generate_hash_string ns PMIX_MAX_NSLEN"
  have J: "job_law J ?job n ppn pos lg nd" "vcq_law J" "create_law J tnis" "table_law J" and me: "me < n" and ppn: "jt_max_ppn J = int ppn" "\<forall>x. j_malloc J x"
    and prim: "\<forall>i < ppn. fst (utf_tni_select (int ppn) i) \<in> set tnis" using S by (auto simp: start_law_def)
  from scan_ranks_map [OF J(1,2) refl _ scan_start_inv, of "int me"] obtain c where
    c: "scan_ranks J ?job (int ppn) (int me) [0..<n] (scan_start n (um_mynrnk s1) (um_myppn s1) (um_lrank s1)) = ret c"
      "scan_inv J n ppn pos lg nd (int me) n c" by blast
  have ent: "\<exists>i < length (nd (pos q)). nd (pos q) ! i = q \<and> filled J ppn (pos q) (lg (pos q)) i q c" if "q < n" for q
    using c(2) that by (auto simp: scan_inv_def)
  have ln: "lens n c" "distinct (sc_node c)" "set (sc_node c) = pos ` {..<n}" using c(2) by (simp_all add: scan_inv_def)
  have "\<exists>i < length (nd (pos me)). own (int me) (nd (pos me)) i c" using c(2) me by (auto simp: scan_inv_def)
  then have own: "sc_mynrnk c < length (nd (pos me))" "nd (pos me) ! sc_mynrnk c = me" "sc_myppn c = length (nd (pos me))" "sc_lrank c = nd (pos me) ! 0"
    by (auto simp: own_def)
  have small: "length (nd (pos me)) \<le> ppn" "ppn \<le> 48" using J(1) me by (auto simp: job_law_def)
  let ?p = "fst (utf_tni_select (int ppn) (sc_mynrnk c))"
  have p: "?p \<in> set tnis" using prim own(1) small(1) by simp
  let ?s = "s1\<lparr>um_vname := Some (sc_vname c), um_tab_vcqid := Some (sc_tab c), um_myfiaddr := Some (sc_fi c),
            um_phys_node := Some (sc_node c), um_nnodes := length (sc_node c), um_mynrnk := sc_mynrnk c, um_myppn := sc_myppn c,
            um_lrank := sc_lrank c, um_ppn := int ppn\<rparr>"
  have "vcq_lens ?s" using s1(5) by (simp add: vcq_lens_def)
  from vcqs_init_ready [OF J(3) _ p this] obtain s2 where s2: "utf_vcqs_init J ?s = ret s2" "map_part s2 = map_part ?s" "um_notfirst s2 = um_notfirst s"
    "vcqs_ready J tnis ?p s2" using s1(6) by auto
  have m2: "um_mynrnk s2 = sc_mynrnk c" "um_myppn s2 = sc_myppn c" using s2(2) by (simp_all add: map_part_def)
  have "um_mynrnk s2 < um_myppn s2" "um_myppn s2 \<le> 48" using m2 own small by simp_all
  from cqselect_entry [OF J(4) s2(4) J(3) p this] obtain s3 t where s3: "utf_cqselect_init J s2 = ret s3" "um_cqseltab s3 = Some t"
    "node_entry_ok s2 (cq_node t (um_mynrnk s2))" "vcqs_ready J tnis ?p s3" "(map_part s3, um_notfirst s3) = (apsnd (apsnd (\<lambda>_. Some t)) (map_part s2), um_notfirst s2)"
    "(um_tniids s3, um_vcqhs s3, um_vcqids s3, um_ntni s3) = (um_tniids s2, um_vcqhs s2, um_vcqids s2, um_ntni s2)" by blast
  have m3: "um_vname s3 = Some (sc_vname c)" "um_myfiaddr s3 = Some (sc_fi c)" "um_phys_node s3 = Some (sc_node c)" "um_nnodes s3 = length (sc_node c)"
    "um_mynrnk s3 = sc_mynrnk c" "um_myppn s3 = sc_myppn c" "um_lrank s3 = sc_lrank c" "um_ppn s3 = int ppn" "um_nprocs s3 = n" "um_myrank s3 = int me"
    "um_notfirst s3 = um_notfirst s"
    using s3(5) s2(2,3) s1(2,3) by (simp_all add: map_part_def)
  have "utf_peers_init J s = ret (1, s3)" unfolding utf_peers_init_def Let_def s1(1) case_prod_conv
    using s1(2-4) ppn c(1) s2(1) s3(1) by (simp add: alloc1_def)
  moreover have "map_ok J n ppn pos lg nd (sc_vname c)" using ent ln(1) unfolding map_ok_def lens_def filled_def by blast
  moreover have "sc_fi c = [0..<n]" using ent ln(1) by (intro nth_equalityI) (force simp: lens_def filled_def)+
  moreover have "nodes_ok n pos s3" using ln(2,3) m3(3,4) by (simp add: nodes_ok_def)
  moreover have "own_ok n me (nd (pos me)) s3" using own m3 by (simp add: own_ok_def)
  moreover have "node_entry_ok s3 (cq_node t (um_mynrnk s3))" using s3(3,6) m2 m3(5,6) by (simp add: node_entry_ok_def)
  ultimately show ?thesis using m3 s3(2,4) by (intro exI [of _ s3] exI [of _ "sc_vname c"] exI [of _ t]) simp
qed


section \<open>Properties\<close>

text \<open>C17: the first call of \<open>utf_get_peers\<close> in a job in which nothing fails returns the map of the job: the entry of every process is that of its place in
  its node, whatever node is found first; the addresses are the ranks; the nodes are listed once each; and the process knows its place, its node's size and
  its node's first rank. A later call returns the same and does nothing.
\<close>

theorem get_peers_map:
  assumes "start_law J ns me n ppn pos lg nd tnis" and "vcq_lens s" and "um_notfirst s = 0"
  shows "\<exists>s' v. utf_get_peers J (Some None) s = ret (Some (Some [0..<n]), (n, length (nd (pos me)), int me), True, s') \<and> um_vname s' = Some v
    \<and> map_ok J n ppn pos lg nd v \<and> nodes_ok n pos s' \<and> own_ok n me (nd (pos me)) s'
    \<and> utf_get_peers J (Some None) s' = ret (Some (Some [0..<n]), (n, length (nd (pos me)), int me), True, s')"
proof -
  from peers_init_all [OF assms(1,2)] obtain s1 v where s1: "utf_peers_init J s = ret (1, s1)" "um_vname s1 = Some v" "map_ok J n ppn pos lg nd v"
    "um_myfiaddr s1 = Some [0..<n]" "nodes_ok n pos s1" "own_ok n me (nd (pos me)) s1" by blast
  let ?s = "s1\<lparr>um_notfirst := 1\<rparr>"
  have "utf_get_peers J (Some None) ?s = ret (Some (Some [0..<n]), (n, length (nd (pos me)), int me), True, ?s)"
    using s1(2,4,6) by (simp add: utf_get_peers_def own_ok_def)
  moreover from this have "utf_get_peers J (Some None) s = ret (Some (Some [0..<n]), (n, length (nd (pos me)), int me), True, ?s)"
    using assms(3) s1(1) by (simp add: utf_get_peers_def)
  moreover have "nodes_ok n pos ?s" "own_ok n me (nd (pos me)) ?s" using s1(5,6) by (simp_all add: nodes_ok_def own_ok_def)
  ultimately show ?thesis using s1(2,3) by (intro exI [of _ ?s]) simp
qed

text \<open>C18: in this map no two processes of the job use the same queue: they differ in the node, the network interface or the completion queue; the interface is
  one of the six, the queue one of the first eleven, and both are read back from the byte of the entry.
\<close>

theorem queues_apart:
  assumes "start_law J ns me n ppn pos lg nd tnis" and "vcq_lens s"
  shows "\<exists>s' v. utf_peers_init J s = ret (1, s') \<and> um_vname s' = Some v \<and> length v = n
    \<and> (\<forall>q < n. TNIQ2TNI (v_tniq0 (v ! q)) < TOFU_NIC_SIZE \<and> TNIQ2CQ (v_tniq0 (v ! q)) \<le> 10)
    \<and> (\<forall>q < n. \<forall>r < n. v_xyzabc (v ! q) = v_xyzabc (v ! r) \<and> TNIQ2TNI (v_tniq0 (v ! q)) = TNIQ2TNI (v_tniq0 (v ! r))
         \<and> TNIQ2CQ (v_tniq0 (v ! q)) = TNIQ2CQ (v_tniq0 (v ! r)) \<longrightarrow> q = r)"
proof -
  from peers_init_all [OF assms] obtain s1 v where s1: "utf_peers_init J s = ret (1, s1)" "um_vname s1 = Some v" "map_ok J n ppn pos lg nd v" by blast
  have J: "1 \<le> ppn" "ppn \<le> 48" "\<And>r. r < n \<Longrightarrow> length (nd (pos r)) \<le> ppn" using assms(1) by (auto simp: start_law_def job_law_def)
  have E: "\<exists>i < ppn. nd (pos q) ! i = q \<and> v_xyzabc (v ! q) = pos q \<and> TNIQ2TNI (v_tniq0 (v ! q)) = fst (utf_tni_select (int ppn) i)
      \<and> TNIQ2CQ (v_tniq0 (v ! q)) = snd (utf_tni_select (int ppn) i)" if q: "q < n" for q
  proof -
    from s1(3) q obtain i where i: "i < length (nd (pos q))" "nd (pos q) ! i = q" "v ! q = peer_entry J ppn (pos q) (lg (pos q)) i q"
      unfolding map_ok_def by blast
    have l: "i < ppn" using i(1) J(3) [OF q] by simp
    from tni_select_range [OF J(1,2) l] show ?thesis using i l tniq_read [of "fst (utf_tni_select (int ppn) i)" "snd (utf_tni_select (int ppn) i)"]
      by (intro exI [of _ i]) (simp add: peer_entry_def Let_def split_beta)
  qed
  have "TNIQ2TNI (v_tniq0 (v ! q)) < TOFU_NIC_SIZE \<and> TNIQ2CQ (v_tniq0 (v ! q)) \<le> 10" if "q < n" for q
    using E [OF that] tni_select_range [OF J(1,2)] by (auto simp: TOFU_NIC_SIZE_def)
  moreover have "q = r" if "q < n" "r < n" "v_xyzabc (v ! q) = v_xyzabc (v ! r)" "TNIQ2TNI (v_tniq0 (v ! q)) = TNIQ2TNI (v_tniq0 (v ! r))"
      "TNIQ2CQ (v_tniq0 (v ! q)) = TNIQ2CQ (v_tniq0 (v ! r))" for q r
  proof -
    from E [OF that(1)] obtain i where i: "i < ppn" "nd (pos q) ! i = q" "v_xyzabc (v ! q) = pos q" "TNIQ2TNI (v_tniq0 (v ! q)) = fst (utf_tni_select (int ppn) i)"
      "TNIQ2CQ (v_tniq0 (v ! q)) = snd (utf_tni_select (int ppn) i)" by blast
    from E [OF that(2)] obtain j where j: "j < ppn" "nd (pos r) ! j = r" "v_xyzabc (v ! r) = pos r" "TNIQ2TNI (v_tniq0 (v ! r)) = fst (utf_tni_select (int ppn) j)"
      "TNIQ2CQ (v_tniq0 (v ! r)) = snd (utf_tni_select (int ppn) j)" by blast
    have "fst (utf_tni_select (int ppn) i) = fst (utf_tni_select (int ppn) j)" by (rule trans [OF i(4) [symmetric] trans [OF that(4) j(4)]])
    moreover have "snd (utf_tni_select (int ppn) i) = snd (utf_tni_select (int ppn) j)" by (rule trans [OF i(5) [symmetric] trans [OF that(5) j(5)]])
    ultimately have "i = j" using tni_select_inj [OF J(1,2) i(1) j(1)] by (simp add: prod_eq_iff)
    moreover have "pos q = pos r" by (rule trans [OF i(3) [symmetric] trans [OF that(3) j(3)]])
    ultimately have "nd (pos q) ! i = nd (pos r) ! j" by (simp only:)
    then show ?thesis unfolding i(2) j(2) .
  qed
  moreover have "length v = n" using s1(3) by (simp add: map_ok_def)
  ultimately show ?thesis using s1(1,2) by blast
qed

text \<open>After the start the process has one virtual control queue on each interface that allows one-sided communication, on its own interface first, with the
  identifier that uTofu gives for its handle, and its entry in the table of the node lists just these.
\<close>

lemma queues_listed:
  assumes "start_law J ns me n ppn pos lg nd tnis" and "vcq_lens s"
  shows "\<exists>s' t. utf_peers_init J s = ret (1, s') \<and> vcqs_ready J tnis (fst (utf_tni_select (int ppn) (um_mynrnk s'))) s'
    \<and> um_cqseltab s' = Some t \<and> node_entry_ok s' (cq_node t (um_mynrnk s'))"
  using peers_init_all [OF assms] by blast

text \<open>When PMIx cannot be initialised, \<open>utf_get_peers\<close> returns no map, no addresses, the number 0 and the rank -1, now and in each later call, which does not try
  again. A caller that passes no place for the addresses, as \<open>utf_init\<close> and \<open>PMIx_Resolve_nodes\<close> do, writes through a null pointer.
\<close>

lemma failed_start:
  assumes "fst (utf_jtofuinit False J s) = -1" and "um_notfirst s = 0"
  shows "\<exists>s'. utf_get_peers J (Some x) s = ret (Some None, (0, 0, -1), False, s') \<and> um_notfirst s' = -1
    \<and> utf_get_peers J (Some y) s' = ret (Some None, (0, 0, -1), False, s')
    \<and> utf_get_peers J None s = crash NullDeref \<and> PMIx_Resolve_nodes J s = crash NullDeref"
proof -
  obtain s1 where s1: "utf_jtofuinit False J s = (-1, s1)" using assms(1) by (metis prod.collapse)
  then have "utf_peers_init J s = ret (-1, s1)" by (simp add: utf_peers_init_def Let_def)
  then show ?thesis using assms(2) by (simp add: utf_get_peers_def PMIx_Resolve_nodes_def)
qed


lemma free_vcqs_all:
  "i + n \<le> TOFU_NIC_SIZE \<Longrightarrow> length (um_vcqhs s) = TOFU_NIC_SIZE \<Longrightarrow>
    \<exists>s'. free_vcqs J i n s = ret s' \<and> map_part s' = map_part s \<and> um_notfirst s' = um_notfirst s \<and> length (um_vcqhs s') = TOFU_NIC_SIZE
      \<and> (\<forall>j. i \<le> j \<longrightarrow> j < i + n \<longrightarrow> um_vcqhs s' ! j = 0) \<and> (\<forall>j < i. um_vcqhs s' ! j = um_vcqhs s ! j)"
proof (induction n arbitrary: i s)
  case (Suc n)
  let ?s = "if um_vcqhs s ! i = 0 then s else s\<lparr>um_vcqhs := (um_vcqhs s)[i := 0], um_world := snd (tf_free_vcq J (um_vcqhs s ! i) (um_world s))\<rparr>"
  have i: "i < TOFU_NIC_SIZE" "Suc i + n \<le> TOFU_NIC_SIZE" using Suc.prems(1) by simp_all
  have s: "map_part ?s = map_part s" "um_notfirst ?s = um_notfirst s" "length (um_vcqhs ?s) = TOFU_NIC_SIZE" "um_vcqhs ?s ! i = 0"
    "\<forall>j < i. um_vcqhs ?s ! j = um_vcqhs s ! j" using Suc.prems(2) i(1) by (simp_all add: map_part_def)
  from Suc.IH [OF i(2) s(3)] obtain s' where s': "free_vcqs J (Suc i) n ?s = ret s'" "map_part s' = map_part ?s" "um_notfirst s' = um_notfirst ?s"
    "length (um_vcqhs s') = TOFU_NIC_SIZE" "\<forall>j. Suc i \<le> j \<longrightarrow> j < Suc i + n \<longrightarrow> um_vcqhs s' ! j = 0" "\<forall>j < Suc i. um_vcqhs s' ! j = um_vcqhs ?s ! j" by blast
  have "free_vcqs J i (Suc n) s = ret s'" using s'(1) i(1) by simp
  moreover have "um_vcqhs s' ! j = 0" if "i \<le> j" "j < i + Suc n" for j
    using that s'(5,6) s(4) by (cases "j = i") (simp_all del: nth_list_update)
  moreover have "\<forall>j < i. um_vcqhs s' ! j = um_vcqhs s ! j" using s'(6) s(5) by simp
  ultimately show ?case using s'(2-4) s(1,2) by (intro exI [of _ s']) simp
qed simp

text \<open>The end frees the queues and drops every table, but leaves the mark of the first start: a later \<open>utf_get_peers\<close> reports the numbers of the job and no map.\<close>

lemma finalize_drops:
  assumes "um_ntni s \<le> TOFU_NIC_SIZE" and "vcq_lens s" and "um_notfirst s = 1"
  shows "\<exists>s'. utf_procmap_finalize J s = ret s' \<and> (\<forall>i. i < um_ntni s \<longrightarrow> um_vcqhs s' ! i = 0)
    \<and> um_notfirst s' = 1 \<and> um_nprocs s' = um_nprocs s \<and> um_myppn s' = um_myppn s \<and> um_myrank s' = um_myrank s
    \<and> um_vname s' = None \<and> um_phys_node s' = None \<and> um_tab_vcqid s' = None \<and> um_myfiaddr s' = None \<and> um_cqseltab s' = None
    \<and> utf_get_peers J None s' = ret (None, (um_nprocs s, um_myppn s, um_myrank s), False, s')"
proof -
  let ?s = "(utf_cqselect_finalize J s)\<lparr>um_myfiaddr := None, um_tab_vcqid := None, um_vname := None, um_phys_node := None\<rparr>"
  have s: "length (um_vcqhs ?s) = TOFU_NIC_SIZE" "um_notfirst ?s = 1" "um_cqseltab ?s = None" "um_nprocs ?s = um_nprocs s" "um_myppn ?s = um_myppn s" "um_myrank ?s = um_myrank s"
    using assms(2,3) by (simp_all add: utf_cqselect_finalize_def vcq_lens_def split: option.split)
  from free_vcqs_all [of 0 "um_ntni s" ?s J] assms(1) s(1) obtain s1 where s1: "free_vcqs J 0 (um_ntni s) ?s = ret s1" "map_part s1 = map_part ?s" "um_notfirst s1 = um_notfirst ?s"
    "\<And>j. j < um_ntni s \<Longrightarrow> um_vcqhs s1 ! j = 0" by auto
  let ?t = "s1\<lparr>um_world := snd (PMIx_Finalize J (um_world s1))\<rparr>"
  have m: "um_vname s1 = None" "um_phys_node s1 = None" "um_tab_vcqid s1 = None" "um_myfiaddr s1 = None" "um_cqseltab s1 = None"
    "um_nprocs s1 = um_nprocs s" "um_myppn s1 = um_myppn s" "um_myrank s1 = um_myrank s" "um_notfirst s1 = 1"
    using s1(2,3) s(2-6) by (simp_all add: map_part_def)
  have "utf_procmap_finalize J s = ret ?t" using s1(1) by (simp add: utf_procmap_finalize_def)
  moreover have "utf_get_peers J None ?t = ret (None, (um_nprocs s, um_myppn s, um_myrank s), False, ?t)" using m by (simp add: utf_get_peers_def)
  ultimately show ?thesis using s1(4) m by (intro exI [of _ ?t]) simp
qed

section \<open>Witnesses\<close>

text \<open>Three processes on two nodes: the processes 0 and 2 on the first, 1 on the second.\<close>

definition demo_pos :: "nat \<Rightarrow> phys_coords" where
  "demo_pos r = \<lparr>px = 3, py = word_of_nat (r mod 2), pz = 1, pa = 0, pb = 2, pc = 1\<rparr>"

definition demo_lg :: "phys_coords \<Rightarrow> log_coords" where
  "demo_lg p = \<lparr>lx = 0, ly = ucast (py p), lz = 0\<rparr>"

definition demo_nd :: "phys_coords \<Rightarrow> nat list" where
  "demo_nd p = filter (\<lambda>r. demo_pos r = p) [0..<3]"

definition demo_info :: tni_info where
  "demo_info = \<lparr>ti_ppn = 0, ti_nrnk = 0, ti_ntni = 0, ti_idx = replicate 6 0, ti_usd = replicate 6 0, ti_vcqhdl = replicate 6 0, ti_vcqid = replicate 6 0\<rparr>"

definition demo_job :: "'w jlib" where
  "demo_job = \<lparr>PMIx_Init = (\<lambda>w. (0, ''job7'', 2, w)), PMIx_Get_size = (\<lambda>w. (0, 3, w)), PMIx_Get_rankmap = (\<lambda>w. (0, 0, w)), PMIx_Finalize = (\<lambda>w. (0, w)),
     PMIx_Fence = (\<lambda>w. (0, w)), jt_initialize = (\<lambda>_ _ _ w. w), jt_finalize = (\<lambda>w. w), jt_max_ppn = 2, jt_phys = (\<lambda>_ r. (0, demo_pos r)),
     jt_log = (\<lambda>_ r. (0, demo_lg (demo_pos r))), jt_ranks = (\<lambda>_ p _. (0, demo_nd p)), jt_paths = (\<lambda>p. (0, [5])),
     tf_construct = (\<lambda>p t q c. (0, word_of_nat (100 * t + q))), tf_path_id = (\<lambda>v p. (0, ucast p)), tf_set_path = (\<lambda>v. (0, v + 1)),
     tf_create_vcq = (\<lambda>t w. (0, word_of_nat (1000 + t), w)), tf_query_id = (\<lambda>h. (0, h + 7)), tf_onesided_tnis = (0, [0..<6]),
     tf_caps = (\<lambda>t. (0, 1920, 32, 8)), tf_free_vcq = (\<lambda>h w. (0, w)), j_malloc = (\<lambda>_. True), j_page = 65536, shm_join = (\<lambda>sz k w. ret (64, 3, w)),
     shm_content = (\<lambda>a w. \<lparr>cq_node = (\<lambda>_. demo_info), cq_snd_len = replicate 6 0, cq_rcv_len = replicate 6 0\<rparr>), shm_detach = (\<lambda>w. (0, w))\<rparr>"

definition demo_pmap_in :: "'w \<Rightarrow> 'w pmap" where
  "demo_pmap_in w = \<lparr>um_jobid = 0, um_myrank = 0, um_nprocs = 0, um_ppn = 0, um_myppn = 0, um_mynrnk = 0, um_lrank = 0, um_vcqid = 0, um_vcqh = 0, um_tniid = 0,
     um_myfiaddr = None, um_vname = None, um_tab_vcqid = None, um_cqseltab = None, um_cqselid = 0, um_nnodes = 0, um_phys_node = None, um_caps = (0, 0, 0),
     um_ntni = 0, um_tniids = replicate 6 0, um_vcqhs = replicate 6 0, um_vcqids = replicate 6 0, um_shmaddr = None, um_shmid = 0, um_notfirst = 0,
     um_shm_usd = False, um_world = w\<rparr>"

definition demo_pmap :: "nat pmap" where "demo_pmap = demo_pmap_in 0"

lemma demo_nd: "demo_nd (demo_pos 2) = [0, 2]" "length (demo_nd (demo_pos 2)) = 2"
  by code_simp+

lemma demo_job_law: "job_law demo_job job 3 2 demo_pos demo_lg demo_nd"
proof -
  have "card (demo_pos ` {..<3}) \<le> card {..<3 :: nat}" by (rule card_image_le) simp
  then have c: "card (demo_pos ` {..<3}) \<le> NODE_MAX" by (simp add: NODE_MAX_def)
  have "list_all (\<lambda>r. length (demo_nd (demo_pos r)) \<le> 2) [0..<3]" by code_simp
  then have "length (demo_nd (demo_pos r)) \<le> 2" if "r < 3" for r using that by (simp add: list_all_iff)
  then show ?thesis using c by (auto simp: job_law_def demo_job_def demo_nd_def)
qed

lemma demo_start: "start_law (demo_job :: 'w jlib) ''job7'' 2 3 2 demo_pos demo_lg demo_nd [0..<6]"
proof -
  have "list_all (\<lambda>i. fst (utf_tni_select (int 2) i) < 6) [0..<2]" by code_simp
  then have "fst (utf_tni_select (int 2) i) < 6" if "i < 2" for i using that by (simp only: list_all_iff) simp
  moreover have "vcq_law (demo_job :: 'w jlib)" by (simp add: vcq_law_def demo_job_def)
  moreover have "create_law (demo_job :: 'w jlib) [0..<6]" by (auto simp: create_law_def demo_job_def TOFU_NIC_SIZE_def)
  moreover have "table_law (demo_job :: 'w jlib)" by (simp add: table_law_def demo_job_def demo_info_def TOFU_NIC_SIZE_def)
  ultimately show ?thesis using demo_job_law by (simp add: start_law_def) (simp add: demo_job_def)
qed

lemma demo_lens: "vcq_lens demo_pmap" "um_notfirst demo_pmap = 0"
  by (simp_all add: vcq_lens_def demo_pmap_def demo_pmap_in_def TOFU_NIC_SIZE_def)

theorem get_peers_map_witness:
  "\<exists>s' v. utf_get_peers demo_job (Some None) demo_pmap = ret (Some (Some [0..<3]), (3, 2, 2), True, s') \<and> um_vname s' = Some v
    \<and> map_ok (demo_job :: nat jlib) 3 2 demo_pos demo_lg demo_nd v \<and> nodes_ok 3 demo_pos s' \<and> own_ok 3 2 [0, 2] s'
    \<and> utf_get_peers demo_job (Some None) s' = ret (Some (Some [0..<3]), (3, 2, 2), True, s')"
  using get_peers_map [OF demo_start demo_lens, unfolded demo_nd(2), unfolded demo_nd(1) of_nat_numeral] .

theorem queues_apart_witness:
  "\<exists>s' v. utf_peers_init demo_job demo_pmap = ret (1, s') \<and> um_vname s' = Some v \<and> length v = 3
    \<and> TNIQ2TNI (v_tniq0 (v ! 1)) < TOFU_NIC_SIZE \<and> TNIQ2CQ (v_tniq0 (v ! 1)) \<le> 10
    \<and> (v_xyzabc (v ! 0), TNIQ2TNI (v_tniq0 (v ! 0)), TNIQ2CQ (v_tniq0 (v ! 0))) \<noteq> (v_xyzabc (v ! 2), TNIQ2TNI (v_tniq0 (v ! 2)), TNIQ2CQ (v_tniq0 (v ! 2)))"
proof -
  from queues_apart [OF demo_start demo_lens(1)] obtain s' v where v: "utf_peers_init demo_job demo_pmap = ret (1, s')" "um_vname s' = Some v" "length v = 3"
    "\<And>q. q < 3 \<Longrightarrow> TNIQ2TNI (v_tniq0 (v ! q)) < TOFU_NIC_SIZE \<and> TNIQ2CQ (v_tniq0 (v ! q)) \<le> 10"
    "\<And>q r. q < 3 \<Longrightarrow> r < 3 \<Longrightarrow> v_xyzabc (v ! q) = v_xyzabc (v ! r) \<and> TNIQ2TNI (v_tniq0 (v ! q)) = TNIQ2TNI (v_tniq0 (v ! r))
         \<and> TNIQ2CQ (v_tniq0 (v ! q)) = TNIQ2CQ (v_tniq0 (v ! r)) \<Longrightarrow> q = r" by blast
  from v(4) [of 1] v(5) [of 0 2] v(1-3) show ?thesis by auto
qed

lemma queues_listed_witness:
  "\<exists>s' t. utf_peers_init demo_job demo_pmap = ret (1, s') \<and> vcqs_ready (demo_job :: nat jlib) [0..<6] (fst (utf_tni_select (int 2) (um_mynrnk s'))) s'
    \<and> um_cqseltab s' = Some t \<and> node_entry_ok s' (cq_node t (um_mynrnk s'))"
  by (rule queues_listed [OF demo_start demo_lens(1)])

lemma failed_start_witness:
  "\<exists>s'. utf_get_peers (demo_job\<lparr>PMIx_Init := \<lambda>w. (-1, [], 0, w)\<rparr>) (Some None) demo_pmap = ret (Some None, (0, 0, -1), False, s') \<and> um_notfirst s' = -1
    \<and> utf_get_peers (demo_job\<lparr>PMIx_Init := \<lambda>w. (-1, [], 0, w)\<rparr>) (Some None) s' = ret (Some None, (0, 0, -1), False, s')
    \<and> utf_get_peers (demo_job\<lparr>PMIx_Init := \<lambda>w. (-1, [], 0, w)\<rparr>) None demo_pmap = crash NullDeref
    \<and> PMIx_Resolve_nodes (demo_job\<lparr>PMIx_Init := \<lambda>w. (-1, [], 0, w)\<rparr>) demo_pmap = crash NullDeref"
  by (rule failed_start) (simp_all add: utf_jtofuinit_def demo_lens)

end
