(* ===== verification/Utf_Timer.thy ===== *)
theory Utf_Timer
  imports UTF_Prelude
begin

text \<open>
  The profiling timers of \<open>src/src/include/utf_timer.h\<close> and \<open>src/src/base/utf_init.c\<close>: for each of 26 events the number of measured intervals, the
  first thousand of them, the longest and the shortest. The clock is a parameter: the time an operation reads is its argument.
\<close>

section \<open>State\<close>

definition TMR_EVT_MAX :: nat where "TMR_EVT_MAX = 26"
definition TMR_COUNT_MAX :: nat where "TMR_COUNT_MAX = 1000"
definition TMR_SYM_LEN :: nat where "TMR_SYM_LEN = 20"
definition TMR_MINVAL :: u64 where "TMR_MINVAL = - 1 - 1"

definition TMR_FI_READ :: nat where "TMR_FI_READ = 23"
definition TMR_FI_WRITE :: nat where "TMR_FI_WRITE = 24"

record tmr =
  tmr_max :: "nat \<Rightarrow> u64"
  tmr_min :: "nat \<Rightarrow> u64"
  tmr_begin :: "nat \<Rightarrow> u64"
  tmr_cntmax :: "nat \<Rightarrow> u32"
  tmr_count :: "nat \<Rightarrow> u32"
  tmr_tm :: "nat \<Rightarrow> nat \<Rightarrow> u64"
  tmr_hz :: u64
  tmr_sflag :: bool

definition sym_tmr :: "string list" where
  "sym_tmr = [''UTF_SEND_POST'', ''UTF_RECV_POST'', ''UTF_SENDENGINE'', ''UTF_SNDPROGRESS'', ''UTF_RCVPROGRESS'', ''UTF_TCQ_CHECK'',
     ''UTF_WAIT'', ''TOFU_PUT'', ''TOFU_GET'', ''UTF_MEMREG'', ''UTF_MEMDEREG'', ''UTF_MALLOC'', ''UTF_MFREE'',
     ''UTF_SEND_POST2'', ''UTF_RECV_LATENCY'', ''UTF_RECV_LATENCY2'', ''UTF_SEND_LATENCY'', ''UTF_EXT1'', ''UTF_EXT2'',
     ''FI_TSEND'', ''FI_SEND'', ''FI_TRECV'', ''FI_RECV'', ''FI_WRITE'', ''FI_READ'', ''FI_CQREAD'']"

section \<open>Operations\<close>

definition utf_tmr_begin :: "nat \<Rightarrow> u64 \<Rightarrow> tmr \<Rightarrow> tmr outcome" where
  "utf_tmr_begin evt now s =
     (if \<not> tmr_sflag s then ret s
      else if TMR_EVT_MAX \<le> evt then crash OutOfBounds
      else ret (s\<lparr>tmr_begin := (tmr_begin s)(evt := now)\<rparr>))"

definition utf_tmr_end :: "nat \<Rightarrow> u64 \<Rightarrow> tmr \<Rightarrow> tmr outcome" where
  "utf_tmr_end evt now s =
     (if \<not> tmr_sflag s then ret s
      else if TMR_EVT_MAX \<le> evt then crash OutOfBounds
      else let tm = now - tmr_begin s evt; n = unat (tmr_count s evt);
               s1 = (if n < TMR_COUNT_MAX then s\<lparr>tmr_tm := (tmr_tm s)(evt := (tmr_tm s evt)(n := tm))\<rparr> else s);
               s2 = s1\<lparr>tmr_max := (tmr_max s1)(evt := if tm < tmr_max s1 evt then tmr_max s1 evt else tm),
                       tmr_min := (tmr_min s1)(evt := if tmr_min s1 evt < tm then tmr_min s1 evt else tm)\<rparr>;
               s3 = (if tmr_max s2 evt = tm then s2\<lparr>tmr_cntmax := (tmr_cntmax s2)(evt := tmr_count s2 evt)\<rparr> else s2)
           in ret (s3\<lparr>tmr_count := (tmr_count s3)(evt := tmr_count s3 evt + 1)\<rparr>))"

definition utf_tmr_init :: "u64 \<Rightarrow> tmr \<Rightarrow> tmr" where
  "utf_tmr_init hz s = s\<lparr>tmr_max := (\<lambda>_. 0), tmr_min := (\<lambda>_. TMR_MINVAL), tmr_count := (\<lambda>_. 0), tmr_tm := (\<lambda>_ _. 0), tmr_hz := hz\<rparr>"

definition utf_tmr_start :: "tmr \<Rightarrow> tmr" where
  "utf_tmr_start s = s\<lparr>tmr_sflag := True, tmr_count := (\<lambda>_. 0), tmr_tm := (\<lambda>_ _. 0)\<rparr>"

definition utf_tmr_suspend :: "tmr \<Rightarrow> tmr" where "utf_tmr_suspend s = s\<lparr>tmr_sflag := False\<rparr>"
definition utf_tmr_resume :: "tmr \<Rightarrow> tmr" where "utf_tmr_resume s = s\<lparr>tmr_sflag := True\<rparr>"

text \<open>
  \<open>utf_tmr_stop\<close>: what it writes for each event: the name, the number of the recorded intervals and these, the longest, the shortest (None stands for 0.0,
  where nothing was measured) and the number of all. Times are in clock ticks; \<open>CLK2USEC\<close> divides them by the frequency.
\<close>

record tmr_report =
  rp_sym :: string
  rp_tm :: "u64 list"
  rp_max :: u64
  rp_min :: "u64 option"
  rp_count :: u32

definition tmr_entry :: "tmr \<Rightarrow> nat \<Rightarrow> tmr_report" where
  "tmr_entry s evt =
     (let maxcnt = (if unat (tmr_count s evt) < TMR_COUNT_MAX then unat (tmr_count s evt) else TMR_COUNT_MAX) in
      \<lparr>rp_sym = take TMR_SYM_LEN (sym_tmr ! evt), rp_tm = map (tmr_tm s evt) [0..<maxcnt], rp_max = tmr_max s evt,
       rp_min = (if tmr_min s evt = TMR_MINVAL then None else Some (tmr_min s evt)), rp_count = tmr_count s evt\<rparr>)"

definition utf_tmr_stop :: "int \<Rightarrow> tmr \<Rightarrow> int \<times> tmr_report list \<times> tmr" where
  "utf_tmr_stop nent s =
     (let n = (if nent < int TMR_EVT_MAX then nent else int TMR_EVT_MAX) in
      (n, map (tmr_entry s) [0..<nat n], s\<lparr>tmr_sflag := False\<rparr>))"

section \<open>Measuring\<close>

text \<open>Intervals of one event, one after the other.\<close>

fun measure_all :: "nat \<Rightarrow> (u64 \<times> u64) list \<Rightarrow> tmr \<Rightarrow> tmr outcome" where
  "measure_all evt [] s = ret s"
| "measure_all evt ((b, e) # ts) s = bindO (utf_tmr_begin evt b s) (\<lambda>s1. bindO (utf_tmr_end evt e s1) (measure_all evt ts))"

text \<open>The state holds the intervals \<open>ds\<close> of the event.\<close>

definition holds_intervals :: "nat \<Rightarrow> u64 list \<Rightarrow> tmr \<Rightarrow> bool" where
  "holds_intervals evt ds s \<longleftrightarrow> unat (tmr_count s evt) = length ds \<and> (\<forall>i < min (length ds) TMR_COUNT_MAX. tmr_tm s evt i = ds ! i)
     \<and> tmr_max s evt = foldl max 0 ds \<and> tmr_min s evt = foldl min TMR_MINVAL ds
     \<and> (ds \<noteq> [] \<longrightarrow> unat (tmr_cntmax s evt) < length ds \<and> ds ! unat (tmr_cntmax s evt) = foldl max 0 ds)"

lemma foldl_max_in: "foldl max (0 :: u64) (ds @ [d]) \<noteq> d \<Longrightarrow> ds \<noteq> []"
  by (cases ds) simp_all

lemma measure_one:
  assumes I: "holds_intervals evt ds s" and on: "tmr_sflag s" "evt < TMR_EVT_MAX" and n: "Suc (length ds) < 2 ^ 32"
  shows "\<exists>s'. bindO (utf_tmr_begin evt b s) (utf_tmr_end evt e) = ret s' \<and> holds_intervals evt (ds @ [e - b]) s' \<and> tmr_sflag s'"
proof -
  have c: "unat (tmr_count s evt) = length ds" "unat (tmr_count s evt + 1) = Suc (length ds)"
    using I n by (simp_all add: holds_intervals_def unat_word_ariths)
  have mx: "(if e - b < m then m else e - b) = max m (e - b)" "(if m < e - b then m else e - b) = min m (e - b)" for m by (auto simp: max_def min_def)
  have k: "ds \<noteq> [] \<Longrightarrow> unat (tmr_cntmax s evt) < length ds" "ds \<noteq> [] \<Longrightarrow> ds ! unat (tmr_cntmax s evt) = foldl max 0 ds"
    using I by (auto simp: holds_intervals_def)
  have j: "ds \<noteq> []" if "max (foldl max 0 ds) (e - b) \<noteq> e - b" using that by (cases ds) simp_all
  have m: "max (foldl max 0 ds) (e - b) = foldl max 0 ds" if "max (foldl max 0 ds) (e - b) \<noteq> e - b" using that by (simp add: max_def split: if_splits)
  show ?thesis using I on c k j m
    by (simp add: utf_tmr_begin_def utf_tmr_end_def Let_def mx holds_intervals_def nth_append less_Suc_eq min_def) (auto simp: nth_append)
qed

lemma measure_all_holds:
  "holds_intervals evt ds s \<Longrightarrow> tmr_sflag s \<Longrightarrow> evt < TMR_EVT_MAX \<Longrightarrow> length ds + length ts < 2 ^ 32 \<Longrightarrow>
    \<exists>s'. measure_all evt ts s = ret s' \<and> holds_intervals evt (ds @ map (\<lambda>(b, e). e - b) ts) s' \<and> tmr_sflag s'"
proof (induction ts arbitrary: ds s)
  case (Cons t ts)
  obtain b e where t: "t = (b, e)" by (cases t)
  from measure_one [OF Cons.prems(1-3), of b e] Cons.prems(4) obtain s1 where
    s1: "bindO (utf_tmr_begin evt b s) (utf_tmr_end evt e) = ret s1" "holds_intervals evt (ds @ [e - b]) s1" "tmr_sflag s1" by auto
  have "measure_all evt (t # ts) s = bindO (bindO (utf_tmr_begin evt b s) (utf_tmr_end evt e)) (measure_all evt ts)" by (simp add: t bindO_assoc)
  also have "\<dots> = measure_all evt ts s1" using s1(1) by simp
  finally show ?case using Cons.IH [OF s1(2,3) Cons.prems(3)] Cons.prems(4) by (simp add: t)
qed simp

lemma holds_start: "holds_intervals evt [] (utf_tmr_start (utf_tmr_init hz s))"
  by (simp add: holds_intervals_def utf_tmr_start_def utf_tmr_init_def)

text \<open>A second \<open>utf_tmr_start\<close> clears the counts and the intervals but not the extremes; and the names of two events are exchanged.\<close>

lemma start_keeps_extremes: "tmr_max (utf_tmr_start s) = tmr_max s \<and> tmr_min (utf_tmr_start s) = tmr_min s \<and> tmr_count (utf_tmr_start s) = (\<lambda>_. 0)"
  by (simp add: utf_tmr_start_def)

lemma event_names: "sym_tmr ! TMR_FI_READ = ''FI_WRITE'' \<and> sym_tmr ! TMR_FI_WRITE = ''FI_READ''"
  by (simp add: sym_tmr_def TMR_FI_READ_def TMR_FI_WRITE_def)

text \<open>C25: after \<open>utf_tmr_init\<close> and \<open>utf_tmr_start\<close>, for any intervals of an event measured one after the other (fewer than 2 to the power of 32), \<open>utf_tmr_stop\<close>
  reports their number, the first thousand of them in their order, and the longest and the shortest of all of them.
\<close>

theorem timers_report:
  assumes "evt < TMR_EVT_MAX" and "int evt < nent" and "length ts < 2 ^ 32" and "ds = map (\<lambda>(b, e). e - b) ts"
  shows "\<exists>s1 n rs s2. measure_all evt ts (utf_tmr_start (utf_tmr_init hz s)) = ret s1 \<and> utf_tmr_stop nent s1 = (n, rs, s2) \<and> evt < length rs
    \<and> unat (rp_count (rs ! evt)) = length ds \<and> rp_tm (rs ! evt) = take TMR_COUNT_MAX ds \<and> rp_max (rs ! evt) = foldl max 0 ds
    \<and> rp_min (rs ! evt) = (if foldl min TMR_MINVAL ds = TMR_MINVAL then None else Some (foldl min TMR_MINVAL ds)) \<and> \<not> tmr_sflag s2"
proof -
  have "tmr_sflag (utf_tmr_start (utf_tmr_init hz s))" by (simp add: utf_tmr_start_def)
  from measure_all_holds [OF holds_start this assms(1), of ts] assms(3,4) obtain s1 where
    s1: "measure_all evt ts (utf_tmr_start (utf_tmr_init hz s)) = ret s1" "holds_intervals evt ds s1" by auto
  let ?n = "if nent < int TMR_EVT_MAX then nent else int TMR_EVT_MAX"
  have e: "evt < nat ?n" using assms(1,2) by auto
  have H: "unat (tmr_count s1 evt) = length ds" "\<forall>i < min (length ds) TMR_COUNT_MAX. tmr_tm s1 evt i = ds ! i"
    "tmr_max s1 evt = foldl max 0 ds" "tmr_min s1 evt = foldl min TMR_MINVAL ds" using s1(2) by (auto simp: holds_intervals_def)
  have "map (tmr_tm s1 evt) [0..<min (length ds) TMR_COUNT_MAX] = take TMR_COUNT_MAX ds"
    using H(2) by (intro nth_equalityI) simp_all
  then have "rp_tm (tmr_entry s1 evt) = take TMR_COUNT_MAX ds" 
    by (cases "length ds < TMR_COUNT_MAX") (simp_all add: tmr_entry_def H(1) Let_def)
  then show ?thesis using s1(1) e H by (simp add: utf_tmr_stop_def Let_def tmr_entry_def)
qed

theorem timers_report_witness:
  "\<exists>s1 n rs s2. measure_all 6 [(100, 107), (120, 123), (200, 250)] (utf_tmr_start (utf_tmr_init 100000000
      \<lparr>tmr_max = \<lambda>_. 0, tmr_min = \<lambda>_. 0, tmr_begin = \<lambda>_. 0, tmr_cntmax = \<lambda>_. 0, tmr_count = \<lambda>_. 0, tmr_tm = \<lambda>_ _. 0, tmr_hz = 0, tmr_sflag = False\<rparr>)) = ret s1
    \<and> utf_tmr_stop 26 s1 = (n, rs, s2) \<and> unat (rp_count (rs ! 6)) = 3 \<and> rp_tm (rs ! 6) = [7, 3, 50] \<and> rp_max (rs ! 6) = 50 \<and> rp_min (rs ! 6) = Some 3"
proof -
  have "foldl min TMR_MINVAL [7, 3, 50] = 3" "foldl max 0 [7, 3, 50 :: u64] = 50" "3 \<noteq> TMR_MINVAL" by code_simp+
  note n = this
  let ?s = "\<lparr>tmr_max = \<lambda>_. 0, tmr_min = \<lambda>_. 0, tmr_begin = \<lambda>_. 0, tmr_cntmax = \<lambda>_. 0, tmr_count = \<lambda>_. 0, tmr_tm = \<lambda>_ _. 0, tmr_hz = 0, tmr_sflag = False\<rparr>"
  have "6 < TMR_EVT_MAX" "int 6 < 26" "length [(100 :: u64, 107 :: u64), (120, 123), (200, 250)] < 2 ^ 32"
    "[7, 3, 50] = map (\<lambda>(b, e). e - b) [(100 :: u64, 107 :: u64), (120, 123), (200, 250)]" by (simp_all add: TMR_EVT_MAX_def)
  from timers_report [OF this, of 100000000 ?s] obtain s1 n rs s2 where
    "measure_all 6 [(100, 107), (120, 123), (200, 250)] (utf_tmr_start (utf_tmr_init 100000000 ?s)) = ret s1"
    "utf_tmr_stop 26 s1 = (n, rs, s2)" "unat (rp_count (rs ! 6)) = length [7, 3, 50 :: u64]" "rp_tm (rs ! 6) = take TMR_COUNT_MAX [7, 3, 50]"
    "rp_max (rs ! 6) = foldl max 0 [7, 3, 50]"
    "rp_min (rs ! 6) = (if foldl min TMR_MINVAL [7, 3, 50] = TMR_MINVAL then None else Some (foldl min TMR_MINVAL [7, 3, 50]))" by blast
  then show ?thesis unfolding n using n(3)
    by (intro exI [of _ s1] exI [of _ n] exI [of _ rs] exI [of _ s2]) (simp only: TMR_COUNT_MAX_def, simp)
qed

end
