(* ===== verification/Utf_Start.thy ===== *)
theory Utf_Start
  imports Utf_Engine Utf_Procmap_Props Utf_Timer
begin

text \<open>
  The start and the end of the library: \<open>utf_init\<close>, \<open>utf_finalize\<close> and the functions that report the place of the process, of
  \<open>src/src/base/utf_init.c\<close>, with \<open>utf_mem_finalize\<close> of \<open>utf_mem.c\<close> and \<open>utf_getenvint\<close> of \<open>utf_debug.c\<close>. They compose the process map, the memory
  of the engines, the timers and the wipe of the requests; calls are counted, so that several users of the library may start and end it.
\<close>

section \<open>The environment\<close>

definition is_hex :: "char \<Rightarrow> bool" where
  "is_hex c \<longleftrightarrow> is_digit c \<or> (97 \<le> (of_char c :: nat) \<and> (of_char c :: nat) \<le> 102) \<or> (65 \<le> (of_char c :: nat) \<and> (of_char c :: nat) \<le> 70)"

definition hex_value :: "char \<Rightarrow> nat" where
  "hex_value c = (if is_digit c then of_char c - 48 else if 97 \<le> (of_char c :: nat) then of_char c - 87 else of_char c - 55)"

text \<open>\<open>%x\<close> behind the prefix, and \<open>atoi\<close>; the numbers fit their types.\<close>

definition scan_hex :: "string \<Rightarrow> nat" where
  "scan_hex s = foldl (\<lambda>v c. 16 * v + hex_value c) 0 (takeWhile is_hex s)"

definition atoi :: "string \<Rightarrow> int" where
  "atoi s = (case scan_int (length s + 1) s of None \<Rightarrow> 0 | Some (v, _) \<Rightarrow> v)"

definition utf_getenvint :: "string option \<Rightarrow> int" where
  "utf_getenvint e = (case e of None \<Rightarrow> 0
     | Some cp \<Rightarrow> if take 2 cp = ''0x'' then sint (word_of_nat (scan_hex (drop 2 cp)) :: 32 word) else atoi cp)"

lemma getenvint_values:
  "utf_getenvint (Some ''0x2f'') = 47 \<and> utf_getenvint (Some ''0x'') = 0 \<and> utf_getenvint (Some '' -12a'') = -12 \<and> utf_getenvint (Some '''') = 0"
  by code_simp

section \<open>State\<close>

text \<open>
  The static state of the library in a process: the count of the starts, the process map, what the engines use, the registered address of the array of the
  eager permissions, the timers and the options.
\<close>

record 'w lib =
  utf_initialized :: int
  lib_map :: "'w pmap"
  lib_utf :: "'w utf"
  egrmgt_stadd :: u64
  lib_tmr :: tmr
  utf_nokeep :: int
  utf_dflag :: int
  utf_rflag :: bool

record lib_env =
  opt_D :: bool
  env_debug :: "string option"
  env_msgmode :: "string option"
  env_nokeep :: "string option"
  tick_helz :: u64

text \<open>What the engines see of \<open>utf_info\<close>.\<close>

definition engine_view :: "'w pmap \<Rightarrow> 'w utf \<Rightarrow> 'w utf" where
  "engine_view m u = u\<lparr>info := (info u)\<lparr>i_myrank := um_myrank m, i_nprocs := int (um_nprocs m), i_vcqh := um_vcqh m, i_vcqid := um_vcqid m,
     i_vname_vcqid := (case um_vname m of None \<Rightarrow> [] | Some v \<Rightarrow> map v_vcqid v)\<rparr>, world := um_world m\<rparr>"

section \<open>Start and end\<close>

text \<open>\<open>utf_init\<close>; the result is the code 0 and what \<open>*rank\<close>, \<open>*nprocs\<close> and \<open>*ppn\<close> get where these are not NULL.\<close>

definition utf_init :: "'w jlib \<Rightarrow> 'w utofu \<Rightarrow> lib_env \<Rightarrow> 'w lib \<Rightarrow> ((int \<times> int \<times> nat \<times> nat) \<times> 'w lib) outcome" where
  "utf_init J U e s =
     bindO (if utf_initialized s \<noteq> 0 then ret (s\<lparr>utf_initialized := utf_initialized s + 1\<rparr>)
       else let s1 = s\<lparr>utf_initialized := 1, utf_rflag := utf_rflag s \<or> opt_D e, utf_dflag := utf_getenvint (env_debug e)\<rparr> in
         bindO (utf_get_peers J None (lib_map s1)) (\<lambda>(_, _, _, m).
         let u0 = engine_view m (lib_utf s1) in
         bindO (utf_mem_init U u0) (\<lambda>u.
         let u1 = utf_setmsgmode (utf_getenvint (env_msgmode e)) u;
             m1 = utf_fence J (m\<lparr>um_world := world u1\<rparr>)
         in ret (s1\<lparr>lib_map := m1, lib_utf := u1\<lparr>world := um_world m1\<rparr>, egrmgt_stadd := fst (snd (u_reg_mem_with_stag U (i_vcqh (info u0)) STAG_EGRMGT (world u0))),
              lib_tmr := utf_tmr_init (tick_helz e) (lib_tmr s1), utf_nokeep := utf_getenvint (env_nokeep e)\<rparr>))))
       (\<lambda>t. ret ((0, um_myrank (lib_map t), um_nprocs (lib_map t), um_myppn (lib_map t)), t))"

definition utf_mem_finalize :: "'w utofu \<Rightarrow> u64 \<Rightarrow> 'w utf \<Rightarrow> 'w utf outcome" where
  "utf_mem_finalize U egr u =
     bindO (utf_mem_dereg U egr (world u)) (\<lambda>w1. bindO (utf_mem_dereg U (egr_rbuf_stadd (info u)) w1) (\<lambda>w2.
     bindO (utf_mem_dereg U (egr_sbuf_stadd (info u)) w2) (\<lambda>w3. bindO (utf_mem_dereg U (sndctr_stadd (info u)) w3) (\<lambda>w4. ret (u\<lparr>world := w4\<rparr>)))))"

definition utf_finalize :: "'w jlib \<Rightarrow> 'w utofu \<Rightarrow> bool \<Rightarrow> 'w lib \<Rightarrow> 'w lib outcome" where
  "utf_finalize J U wipe s =
     (let s1 = s\<lparr>utf_initialized := utf_initialized s - 1\<rparr> in
      if 0 < utf_initialized s1 then ret s1
      else bindO (if wipe then utf_req_wipe U (lib_utf s1) else ret (lib_utf s1)) (\<lambda>u1.
        let m1 = utf_fence J ((lib_map s1)\<lparr>um_world := world u1\<rparr>) in
        bindO (utf_mem_finalize U (egrmgt_stadd s1) (u1\<lparr>world := um_world m1\<rparr>)) (\<lambda>u2.
        bindO (utf_procmap_finalize J (m1\<lparr>um_world := world u2\<rparr>)) (\<lambda>m2.
        let w = jt_finalize J (um_world m2) in ret (s1\<lparr>lib_map := m2\<lparr>um_world := w\<rparr>, lib_utf := u2\<lparr>world := w\<rparr>\<rparr>)))))"

section \<open>Questions\<close>

text \<open>Each returns 0 and sets its result.\<close>

definition utf_rank :: "'w lib \<Rightarrow> int \<times> int" where "utf_rank s = (0, um_myrank (lib_map s))"
definition utf_nprocs :: "'w lib \<Rightarrow> int \<times> nat" where "utf_nprocs s = (0, um_nprocs (lib_map s))"
definition utf_intra_rank :: "'w lib \<Rightarrow> int \<times> nat" where "utf_intra_rank s = (0, um_mynrnk (lib_map s))"
definition utf_intra_nprocs :: "'w lib \<Rightarrow> int \<times> nat" where "utf_intra_nprocs s = (0, um_myppn (lib_map s))"
definition utf_vcqh :: "'w lib \<Rightarrow> int \<times> u64" where "utf_vcqh s = (0, um_vcqh (lib_map s))"

section \<open>Properties\<close>

text \<open>The state the loader gives, with the engine's part as the initialisation of the engines expects it.\<close>

definition lib_static :: "'w lib \<Rightarrow> bool" where
  "lib_static s \<longleftrightarrow> utf_initialized s = 0 \<and> um_notfirst (lib_map s) = 0 \<and> vcq_lens (lib_map s) \<and> (\<exists>w. lib_utf s = utf_static 0 0 0 0 [] w)"

lemma engine_view_static: "engine_view m (utf_static 0 0 0 0 [] w)
    = utf_static (um_myrank m) (int (um_nprocs m)) (um_vcqh m) (um_vcqid m) (case um_vname m of None \<Rightarrow> [] | Some v \<Rightarrow> map v_vcqid v) (um_world m)"
  by (simp add: engine_view_def utf_static_def)

lemma fresh_world: "utf_fresh (u\<lparr>world := w\<rparr>) = utf_fresh u" "utf_fresh (utf_setmsgmode k u) = utf_fresh u"
  by (simp_all add: utf_fresh_def utf_setmsgmode_def)


text \<open>The initialisation of the memory does not change who the process is.\<close>

definition who :: "'w utf \<Rightarrow> u64 list \<times> int \<times> int" where
  "who u = (i_vname_vcqid (info u), i_myrank (info u), i_nprocs (info u))"

lemma bufs_who: "mem_init_bufs U s = ret s1 \<Longrightarrow> who s1 = who s"
  by (auto simp: mem_init_bufs_def bindO_eq_ret Let_def who_def split_beta)

lemma cntrs_who: "mem_init_cntrs U s = ret s1 \<Longrightarrow> who s1 = who s"
  by (auto simp: mem_init_cntrs_def bindO_eq_ret Let_def who_def split_beta)

lemma mem_init_who: "utf_mem_init U s = ret u \<Longrightarrow> who u = who s"
  unfolding utf_mem_init_def by (auto simp: bindO_eq_ret Let_def split_beta dest!: bufs_who cntrs_who) (simp_all add: who_def)

lemma mem_init_info:
  "utf_mem_init U (utf_static r n h q vs w) = ret u \<Longrightarrow> i_vname_vcqid (info u) = vs \<and> i_myrank (info u) = r \<and> i_nprocs (info u) = n"
  by (drule mem_init_who) (simp add: who_def utf_static_def)

text \<open>C19: the first \<open>utf_init\<close> of a job in which nothing fails returns the rank, the number of processes and the number of processes of the node; the process map
  is that of the job, the engines see it, and their memory is in the state in which every pool is full and every queue is empty.
\<close>

theorem init_ready:
  assumes S: "start_law J ns me n ppn pos lg nd tnis" and U: "reg_works U" and L: "lib_static s"
  shows "\<exists>t v. utf_init J U e s = ret ((0, int me, n, length (nd (pos me))), t) \<and> utf_initialized t = 1 \<and> utf_fresh (lib_utf t)
    \<and> um_vname (lib_map t) = Some v \<and> map_ok J n ppn pos lg nd v \<and> own_ok n me (nd (pos me)) (lib_map t) \<and> nodes_ok n pos (lib_map t)
    \<and> i_vname_vcqid (info (lib_utf t)) = map v_vcqid v \<and> i_myrank (info (lib_utf t)) = int me \<and> i_nprocs (info (lib_utf t)) = int n
    \<and> mode_msg (lib_utf t) = utf_getenvint (env_msgmode e) \<and> lib_tmr t = utf_tmr_init (tick_helz e) (lib_tmr s)"
proof -
  obtain w0 where st: "utf_initialized s = 0" "um_notfirst (lib_map s) = 0" "vcq_lens (lib_map s)" "lib_utf s = utf_static 0 0 0 0 [] w0"
    using L by (auto simp: lib_static_def)
  from peers_init_all [OF S st(3)] obtain m v where m: "utf_peers_init J (lib_map s) = ret (1, m)" "um_vname m = Some v" "map_ok J n ppn pos lg nd v"
    "nodes_ok n pos m" "own_ok n me (nd (pos me)) m" by blast
  let ?m = "m\<lparr>um_notfirst := 1\<rparr>"
  have g: "utf_get_peers J None (lib_map s) = ret (None, (n, length (nd (pos me)), int me), True, ?m)"
    using st(2) m(1,2,5) by (simp add: utf_get_peers_def own_ok_def)
  have view: "engine_view ?m (utf_static 0 0 0 0 [] w0) = utf_static (int me) (int n) (um_vcqh m) (um_vcqid m) (map v_vcqid v) (um_world m)"
    using m(2,5) by (simp add: engine_view_static own_ok_def)
  from mem_init_fresh [OF U, of "int me" "int n" "um_vcqh m" "um_vcqid m" "map v_vcqid v" "um_world m"] obtain u where
    u: "utf_mem_init U (utf_static (int me) (int n) (um_vcqh m) (um_vcqid m) (map v_vcqid v) (um_world m)) = ret u" "utf_fresh u" by blast
  have i: "i_vname_vcqid (info u) = map v_vcqid v \<and> i_myrank (info u) = int me \<and> i_nprocs (info u) = int n" by (rule mem_init_info [OF u(1)])
  show ?thesis using st(1,4) g u i m(2-5)
    by (simp add: utf_init_def Let_def view utf_fence_def fresh_world own_ok_def nodes_ok_def) (simp add: utf_setmsgmode_def)
qed

text \<open>Further starts only count: a \<open>utf_init\<close> of a started library reports the same numbers, and the \<open>utf_finalize\<close> that belongs to it, with or without the wipe,
  gives back exactly the state before.
\<close>

lemma nested_start:
  assumes "1 \<le> utf_initialized s"
  shows "\<exists>t. utf_init J U e s = ret ((0, um_myrank (lib_map s), um_nprocs (lib_map s), um_myppn (lib_map s)), t)
    \<and> utf_initialized t = utf_initialized s + 1 \<and> lib_utf t = lib_utf s \<and> utf_finalize J U wipe t = ret s"
  using assms by (simp add: utf_init_def utf_finalize_def Let_def)

definition dereg_works :: "'w utofu \<Rightarrow> bool" where
  "dereg_works U \<longleftrightarrow> (\<forall>st w. fst (u_dereg_mem U st w) = UTOFU_SUCCESS)"

lemma mem_dereg_works: "dereg_works U \<Longrightarrow> \<exists>w'. utf_mem_dereg U st w = ret w'"
  by (cases "u_dereg_mem U st w") (auto simp: dereg_works_def utf_mem_dereg_def, metis fst_conv)

lemma mem_finalize_works: "dereg_works U \<Longrightarrow> \<exists>w. utf_mem_finalize U st u = ret (u\<lparr>world := w\<rparr>)"
proof -
  assume U: "dereg_works U"
  obtain w1 where 1: "utf_mem_dereg U st (world u) = ret w1" using mem_dereg_works [OF U] by blast
  obtain w2 where 2: "utf_mem_dereg U (egr_rbuf_stadd (info u)) w1 = ret w2" using mem_dereg_works [OF U] by blast
  obtain w3 where 3: "utf_mem_dereg U (egr_sbuf_stadd (info u)) w2 = ret w3" using mem_dereg_works [OF U] by blast
  obtain w4 where 4: "utf_mem_dereg U (sndctr_stadd (info u)) w3 = ret w4" using mem_dereg_works [OF U] by blast
  show ?thesis by (rule exI [of _ w4]) (simp add: utf_mem_finalize_def 1 2 3 4)
qed

lemma bind_works: "\<exists>x. m = ret x \<Longrightarrow> (\<And>x. \<exists>y. k x = ret y) \<Longrightarrow> \<exists>y. bindO m k = ret y"
  by auto

lemma mem_init_works: "reg_works U \<Longrightarrow> \<exists>u. utf_mem_init U s = ret u"
  unfolding utf_mem_init_def mem_init_bufs_def mem_init_cntrs_def Let_def split_beta
  by (intro bind_works) (auto dest: reg_stag_works)

text \<open>
  What the start relies on when it follows an end: \<open>valid w h\<close>, the queue behind the handle \<open>h\<close> exists in the world \<open>w\<close>. Freeing a queue that exists
  succeeds and makes its handle invalid, none of the other calls of the end makes an invalid handle valid, and \<open>utofu_reg_mem_with_stag\<close> returns an error
  for a handle that is not valid.
\<close>

definition handle_law :: "'w jlib \<Rightarrow> 'w utofu \<Rightarrow> ('w \<Rightarrow> u64 \<Rightarrow> bool) \<Rightarrow> bool" where
  "handle_law J U valid \<longleftrightarrow>
     (\<forall>w h. valid w h \<longrightarrow> fst (tf_free_vcq J h w) = 0 \<and> \<not> valid (snd (tf_free_vcq J h w)) h)
     \<and> (\<forall>w h g. \<not> valid w g \<longrightarrow> \<not> valid (snd (tf_free_vcq J h w)) g \<and> \<not> valid (snd (PMIx_Finalize J w)) g \<and> \<not> valid (jt_finalize J w) g)
     \<and> (\<forall>w h tag. \<not> valid w h \<longrightarrow> fst (u_reg_mem_with_stag U h tag w) \<noteq> UTOFU_SUCCESS)"

lemma free_vcqs_invalid:
  assumes "handle_law J U valid"
  shows "free_vcqs J i n s = ret s' \<Longrightarrow> \<not> valid (um_world s) h \<Longrightarrow> \<not> valid (um_world s') h"
proof (induction n arbitrary: i s)
  case (Suc n)
  let ?s = "if um_vcqhs s ! i = 0 then s else s\<lparr>um_vcqhs := (um_vcqhs s)[i := 0], um_world := snd (tf_free_vcq J (um_vcqhs s ! i) (um_world s))\<rparr>"
  have "free_vcqs J (Suc i) n ?s = ret s'" using Suc.prems(1) by (simp split: if_splits)
  moreover have "\<not> valid (um_world ?s) h" using Suc.prems(2) assms by (simp add: handle_law_def)
  ultimately show ?case by (rule Suc.IH)
qed simp

lemma free_vcqs_keeps_vcqh: "free_vcqs J i n s = ret s' \<Longrightarrow> um_vcqh s' = um_vcqh s"
  by (induction n arbitrary: i s) (auto split: if_splits)

text \<open>The end frees the queue of the process, and nothing clears its handle.\<close>

lemma finalize_frees_own:
  assumes L: "handle_law J U valid" and n: "0 < um_ntni s" and h: "um_vcqhs s ! 0 = um_vcqh s" "um_vcqh s \<noteq> 0"
    and f: "utf_procmap_finalize J s = ret s'"
  shows "\<not> valid (um_world s') (um_vcqh s)" and "um_vcqh s' = um_vcqh s"
proof -
  let ?s = "(utf_cqselect_finalize J s)\<lparr>um_myfiaddr := None, um_tab_vcqid := None, um_vname := None, um_phys_node := None\<rparr>"
  have eq: "um_vcqh ?s = um_vcqh s" "um_vcqhs ?s = um_vcqhs s" by (simp_all add: utf_cqselect_finalize_def split: option.split)
  obtain s1 where s1: "free_vcqs J 0 (um_ntni s) ?s = ret s1" "s' = s1\<lparr>um_world := snd (PMIx_Finalize J (um_world s1))\<rparr>"
    using f by (auto simp: utf_procmap_finalize_def bindO_eq_ret)
  obtain k where k: "um_ntni s = Suc k" using n gr0_implies_Suc by blast
  let ?s1 = "?s\<lparr>um_vcqhs := (um_vcqhs ?s)[0 := 0], um_world := snd (tf_free_vcq J (um_vcqh s) (um_world ?s))\<rparr>"
  have "free_vcqs J (Suc 0) k ?s1 = ret s1" using s1(1) h eq(2) unfolding k by (simp split: if_splits)
  moreover have "\<not> valid (um_world ?s1) (um_vcqh s)" using L by (cases "valid (um_world ?s) (um_vcqh s)") (simp_all add: handle_law_def)
  ultimately have "\<not> valid (um_world s1) (um_vcqh s)" by (rule free_vcqs_invalid [OF L])
  then show "\<not> valid (um_world s') (um_vcqh s)" using L s1(2) by (simp add: handle_law_def)
  show "um_vcqh s' = um_vcqh s" using free_vcqs_keeps_vcqh [OF s1(1)] eq(1) s1(2) by simp
qed

lemma mem_init_invalid:
  "handle_law J U valid \<Longrightarrow> \<not> valid (world u) (i_vcqh (info u)) \<Longrightarrow> utf_mem_init U u = crash Aborted"
  by (cases "u_reg_mem_with_stag U (i_vcqh (info u)) STAG_EGRMGT (world u)")
     (auto simp: handle_law_def utf_mem_init_def mem_init_bufs_def reg_stag_def, metis fst_conv)

text \<open>C20: the library cannot be started again after its end. The last \<open>utf_finalize\<close> of a started library drops the process map and frees every queue, but it
  leaves the mark of the first start and the handle of the freed queue. The next \<open>utf_init\<close> therefore does not build the map again, registers its memory on the
  freed queue and aborts. The hypotheses are those of a started library (its own queue is the first of its queues), that the deregistrations of the end succeed,
  and the documented behaviour of the handles (\<open>handle_law\<close>).
\<close>

theorem restart_aborts:
  assumes "utf_initialized s = 1" and "um_notfirst (lib_map s) = 1" and "vcq_lens (lib_map s)" and "0 < um_ntni (lib_map s)" and "um_ntni (lib_map s) \<le> TOFU_NIC_SIZE"
    and "um_vcqhs (lib_map s) ! 0 = um_vcqh (lib_map s)" and "um_vcqh (lib_map s) \<noteq> 0" and "dereg_works U" and "handle_law J U valid"
  shows "\<exists>t. utf_finalize J U False s = ret t \<and> utf_initialized t = 0 \<and> um_vname (lib_map t) = None \<and> um_notfirst (lib_map t) = 1
    \<and> (\<forall>i. i < um_ntni (lib_map s) \<longrightarrow> um_vcqhs (lib_map t) ! i = 0) \<and> um_vcqh (lib_map t) = um_vcqh (lib_map s)
    \<and> utf_init J U e t = crash Aborted"
proof -
  let ?m1 = "utf_fence J ((lib_map s)\<lparr>um_world := world (lib_utf s)\<rparr>)"
  obtain w where w: "utf_mem_finalize U (egrmgt_stadd s) ((lib_utf s)\<lparr>world := um_world ?m1\<rparr>) = ret ((lib_utf s)\<lparr>world := w\<rparr>)"
    using mem_finalize_works [OF assms(8), of "egrmgt_stadd s" "(lib_utf s)\<lparr>world := um_world ?m1\<rparr>"] by auto
  let ?m2 = "?m1\<lparr>um_world := w\<rparr>"
  have "um_ntni ?m2 \<le> TOFU_NIC_SIZE" "vcq_lens ?m2" "um_notfirst ?m2 = 1" using assms(2,3,5) by (simp_all add: utf_fence_def vcq_lens_def)
  from finalize_drops [OF this, of J] obtain m where m: "utf_procmap_finalize J ?m2 = ret m" "\<forall>i. i < um_ntni ?m2 \<longrightarrow> um_vcqhs m ! i = 0" "um_vname m = None"
    "um_notfirst m = 1" by blast
  have "0 < um_ntni ?m2" "um_vcqhs ?m2 ! 0 = um_vcqh ?m2" "um_vcqh ?m2 \<noteq> 0" using assms(4,6,7) by (simp_all add: utf_fence_def)
  note own = finalize_frees_own [OF assms(9) this m(1)]
  let ?w = "jt_finalize J (um_world m)"
  let ?t = "s\<lparr>utf_initialized := 0, lib_map := m\<lparr>um_world := ?w\<rparr>, lib_utf := (lib_utf s)\<lparr>world := ?w\<rparr>\<rparr>"
  have f: "utf_finalize J U False s = ret ?t" using assms(1) w m(1) by (simp add: utf_finalize_def Let_def)
  let ?u0 = "engine_view (m\<lparr>um_world := ?w\<rparr>) (lib_utf ?t)"
  have "\<not> valid ?w (um_vcqh m)" using assms(9) own by (simp add: handle_law_def)
  then have "utf_mem_init U ?u0 = crash Aborted" by (intro mem_init_invalid [OF assms(9)]) (simp add: engine_view_def)
  then have "utf_init J U e ?t = crash Aborted" using m(4) by (simp add: utf_init_def utf_get_peers_def Let_def)
  then show ?thesis using f m(2-4) own(2) by (simp add: utf_fence_def)
qed

section \<open>Witnesses\<close>

definition demo_lib :: "simw lib" where
  "demo_lib = \<lparr>utf_initialized = 0, lib_map = demo_pmap_in sim0, lib_utf = utf_static 0 0 0 0 [] sim0, egrmgt_stadd = 0,
     lib_tmr = \<lparr>tmr_max = \<lambda>_. 0, tmr_min = \<lambda>_. 0, tmr_begin = \<lambda>_. 0, tmr_cntmax = \<lambda>_. 0, tmr_count = \<lambda>_. 0, tmr_tm = \<lambda>_ _. 0, tmr_hz = 0, tmr_sflag = False\<rparr>,
     utf_nokeep = 0, utf_dflag = 0, utf_rflag = False\<rparr>"

definition demo_env :: lib_env where
  "demo_env = \<lparr>opt_D = False, env_debug = None, env_msgmode = Some ''1'', env_nokeep = None, tick_helz = 100000000\<rparr>"

lemma demo_static: "lib_static demo_lib"
  by (auto simp: lib_static_def demo_lib_def demo_pmap_in_def vcq_lens_def TOFU_NIC_SIZE_def)

lemma sim_works: "reg_works sim_nic" "dereg_works sim_nic"
  by (simp_all add: reg_works_def dereg_works_def sim_nic_def)

theorem init_ready_witness:
  "\<exists>t v. utf_init demo_job sim_nic demo_env demo_lib = ret ((0, 2, 3, 2), t) \<and> utf_initialized t = 1 \<and> utf_fresh (lib_utf t)
    \<and> um_vname (lib_map t) = Some v \<and> map_ok (demo_job :: simw jlib) 3 2 demo_pos demo_lg demo_nd v \<and> i_vname_vcqid (info (lib_utf t)) = map v_vcqid v
    \<and> mode_msg (lib_utf t) = utf_getenvint (Some ''1'')"
  using init_ready [OF demo_start sim_works(1) demo_static, of demo_env, unfolded demo_nd(2) of_nat_numeral] by (auto simp: demo_env_def)

lemma nested_start_witness:
  "\<exists>t. utf_init demo_job sim_nic demo_env (demo_lib\<lparr>utf_initialized := 2\<rparr>) = ret ((0, 0, 0, 0), t) \<and> utf_initialized t = 3
    \<and> lib_utf t = lib_utf demo_lib \<and> utf_finalize demo_job sim_nic True t = ret (demo_lib\<lparr>utf_initialized := 2\<rparr>)"
  using nested_start [of "demo_lib\<lparr>utf_initialized := 2\<rparr>" demo_job sim_nic demo_env True] by (simp add: demo_lib_def demo_pmap_in_def)

text \<open>An interface that refuses a registration on a queue that was freed; the world records the freed handles.\<close>

definition freed_nic :: "simw utofu" where
  "freed_nic = sim_nic\<lparr>u_reg_mem_with_stag := \<lambda>h t w. (if h \<in> set (sim_dereg w) then UTOFU_ERR_OTHER else UTOFU_SUCCESS, word_of_nat (t * 2 ^ 32), w)\<rparr>"

definition freed_job :: "simw jlib" where
  "freed_job = demo_job\<lparr>tf_free_vcq := \<lambda>h w. (0, w\<lparr>sim_dereg := h # sim_dereg w\<rparr>)\<rparr>"

lemma freed_law: "handle_law freed_job freed_nic (\<lambda>w h. h \<notin> set (sim_dereg w))"
  by (simp add: handle_law_def freed_job_def freed_nic_def demo_job_def)

definition started_lib :: "simw lib" where
  "started_lib = demo_lib\<lparr>utf_initialized := 1, lib_map := (demo_pmap_in sim0)\<lparr>um_notfirst := 1, um_nprocs := 3,
     um_vcqh := 4, um_vcqhs := [4, 5, 6, 7, 8, 9], um_ntni := 6\<rparr>\<rparr>"

theorem restart_aborts_witness:
  "\<exists>t. utf_finalize freed_job freed_nic False started_lib = ret t \<and> utf_initialized t = 0 \<and> um_vname (lib_map t) = None \<and> um_vcqhs (lib_map t) ! 3 = 0
    \<and> um_vcqh (lib_map t) = 4 \<and> utf_init freed_job freed_nic demo_env t = crash Aborted"
proof -
  have s: "utf_initialized started_lib = 1" "um_notfirst (lib_map started_lib) = 1" "vcq_lens (lib_map started_lib)" "0 < um_ntni (lib_map started_lib)"
    "um_ntni (lib_map started_lib) \<le> TOFU_NIC_SIZE" "um_vcqhs (lib_map started_lib) ! 0 = um_vcqh (lib_map started_lib)" "um_vcqh (lib_map started_lib) \<noteq> 0"
    by (simp_all add: started_lib_def demo_pmap_in_def vcq_lens_def TOFU_NIC_SIZE_def)
  have "dereg_works freed_nic" by (simp add: dereg_works_def freed_nic_def sim_nic_def)
  from restart_aborts [OF s this freed_law, of demo_env] obtain t where "utf_finalize freed_job freed_nic False started_lib = ret t" "utf_initialized t = 0"
    "um_vname (lib_map t) = None" "um_vcqhs (lib_map t) ! 3 = 0" "um_vcqh (lib_map t) = 4" "utf_init freed_job freed_nic demo_env t = crash Aborted"
    by (auto simp: started_lib_def)
  then show ?thesis by blast
qed

end
