(* ===== verification/Utf_Shm.thy ===== *)
theory Utf_Shm
  imports Utf_Procmap
begin

text \<open>
  The memory that the processes of a node share, \<open>utf_shm_init_internal\<close> of \<open>src/src/base/utf_procmap.c\<close>: the process with the
  first rank of the node (the leader) creates the segment and publishes its name with PMIx; the others look for it, attach it and
  count themselves in its first word; the leader waits until all have, sets the word to 0 and removes the name of the segment.
  The calls of the function are the steps of its process; the steps of the processes of a node interleave.
\<close>

section \<open>The processes of a node\<close>

text \<open>Where a process is: the next call it makes.\<close>

datatype lead_pc = L_get | L_at | L_set | L_put | L_commit | L_wait | L_clear | L_rmid | L_back
datatype peer_pc = O_ask | O_get | O_at | O_add | O_back

text \<open>
  The head word of the segment, the size of the segment its key leads to (None where there is none), whether the name was given to \<open>PMIx_Put\<close>
  and whether it is published, the leader and the other processes.
\<close>

record shm_node =
  sn_head :: u64
  sn_seg :: "nat option"
  sn_val :: bool
  sn_put :: bool
  sn_lead :: lead_pc
  sn_peers :: "peer_pc list"

text \<open>
  The leader; \<open>ppn\<close> is the number of processes of the node, \<open>sz\<close> the size that is asked for and \<open>ok\<close> tells whether the call of the step succeeds.
  \<open>IPC_CREAT\<close> creates the segment or finds an old one, which must be large enough. \<open>shmget\<close>, \<open>shmat\<close>, \<open>PMIx_Commit\<close> and \<open>shmctl\<close>
  are tested; where \<open>PMIx_Put\<close> fails nothing is published. The loop reads the word once per step.
\<close>

definition lead_step :: "nat \<Rightarrow> nat \<Rightarrow> bool \<Rightarrow> shm_node \<Rightarrow> shm_node outcome" where
  "lead_step ppn sz ok s = (case sn_lead s of
       L_get \<Rightarrow> (case sn_seg s of
           None \<Rightarrow> if ok then ret (s\<lparr>sn_seg := Some sz, sn_lead := L_at\<rparr>) else crash Aborted
         | Some n \<Rightarrow> if sz \<le> n \<and> ok then ret (s\<lparr>sn_lead := L_at\<rparr>) else crash Aborted)
     | L_at \<Rightarrow> if ok then ret (s\<lparr>sn_lead := L_set\<rparr>) else crash Aborted
     | L_set \<Rightarrow> ret (s\<lparr>sn_head := 1, sn_lead := L_put\<rparr>)
     | L_put \<Rightarrow> ret (s\<lparr>sn_val := ok, sn_lead := L_commit\<rparr>)
     | L_commit \<Rightarrow> if ok then ret (s\<lparr>sn_put := sn_val s, sn_lead := L_wait\<rparr>) else crash Aborted
     | L_wait \<Rightarrow> ret (if sn_head s = word_of_nat ppn then s\<lparr>sn_lead := L_clear\<rparr> else s)
     | L_clear \<Rightarrow> ret (s\<lparr>sn_head := 0, sn_lead := L_rmid\<rparr>)
     | L_rmid \<Rightarrow> if ok then ret (s\<lparr>sn_seg := None, sn_lead := L_back\<rparr>) else crash Aborted
     | L_back \<Rightarrow> ret s)"

text \<open>
  The \<open>i\<close>-th of the others: it asks PMIx until the name is there, and aborts on an error other than that; \<open>shmget\<close> also fails where there is no
  segment or a smaller one.
\<close>

definition peer_step :: "nat \<Rightarrow> bool \<Rightarrow> nat \<Rightarrow> shm_node \<Rightarrow> shm_node outcome" where
  "peer_step sz ok i s = (case sn_peers s ! i of
       O_ask \<Rightarrow> if ok then ret (if sn_put s then s\<lparr>sn_peers := (sn_peers s)[i := O_get]\<rparr> else s) else crash Aborted
     | O_get \<Rightarrow> (case sn_seg s of
           None \<Rightarrow> crash Aborted
         | Some n \<Rightarrow> if sz \<le> n \<and> ok then ret (s\<lparr>sn_peers := (sn_peers s)[i := O_at]\<rparr>) else crash Aborted)
     | O_at \<Rightarrow> if sn_seg s \<noteq> None \<and> ok then ret (s\<lparr>sn_peers := (sn_peers s)[i := O_add]\<rparr>) else crash Aborted
     | O_add \<Rightarrow> ret (s\<lparr>sn_head := sn_head s + 1, sn_peers := (sn_peers s)[i := O_back]\<rparr>)
     | O_back \<Rightarrow> ret s)"

inductive shm_step :: "nat \<Rightarrow> nat \<Rightarrow> bool \<Rightarrow> shm_node \<Rightarrow> shm_node outcome \<Rightarrow> bool" for ppn sz ok where
  lead: "sn_lead s \<noteq> L_back \<Longrightarrow> shm_step ppn sz ok s (lead_step ppn sz ok s)"
| peer: "i < length (sn_peers s) \<Longrightarrow> sn_peers s ! i \<noteq> O_back \<Longrightarrow> shm_step ppn sz ok s (peer_step sz ok i s)"

text \<open>
  At the start nobody has called anything; \<open>b\<close> is the size of an old segment that the key leads to, \<open>w\<close> the head word of the memory.
\<close>

definition shm_start :: "nat \<Rightarrow> u64 \<Rightarrow> nat option \<Rightarrow> shm_node" where
  "shm_start ppn w b = \<lparr>sn_head = w, sn_seg = b, sn_val = False, sn_put = False, sn_lead = L_get, sn_peers = replicate (ppn - 1) O_ask\<rparr>"

definition fits :: "nat \<Rightarrow> nat option \<Rightarrow> bool" where
  "fits sz b \<longleftrightarrow> (\<forall>n. b = Some n \<longrightarrow> sz \<le> n)"

text \<open>
  The states the processes come to: with \<open>e\<close> whatever calls fail and whatever old segment there is; without \<open>e\<close> where no call fails and an
  old segment, if there is one, is large enough.
\<close>

inductive shm_reach :: "bool \<Rightarrow> nat \<Rightarrow> nat \<Rightarrow> shm_node \<Rightarrow> bool" for e ppn sz where
  start: "e \<or> fits sz b \<Longrightarrow> shm_reach e ppn sz (shm_start ppn w b)"
| step: "shm_reach e ppn sz s \<Longrightarrow> shm_step ppn sz ok s (ret s') \<Longrightarrow> e \<or> ok \<Longrightarrow> shm_reach e ppn sz s'"

inductive_cases shm_stepE: "shm_step ppn sz ok s r"

section \<open>The invariant\<close>

definition counted :: "peer_pc list \<Rightarrow> nat" where
  "counted ps = length (filter (\<lambda>p. p = O_back) ps)"

definition shm_inv :: "bool \<Rightarrow> nat \<Rightarrow> nat \<Rightarrow> shm_node \<Rightarrow> bool" where
  "shm_inv e ppn sz s \<longleftrightarrow> Suc (length (sn_peers s)) = ppn
     \<and> (sn_put s \<longrightarrow> sn_lead s \<in> {L_wait, L_clear, L_rmid, L_back})
     \<and> (\<not> e \<longrightarrow> (sn_lead s = L_get \<longrightarrow> fits sz (sn_seg s)) \<and> (sn_lead s = L_commit \<longrightarrow> sn_val s) \<and> (sn_lead s = L_wait \<longrightarrow> sn_put s))
     \<and> (\<not> sn_put s \<longrightarrow> set (sn_peers s) \<subseteq> {O_ask})
     \<and> (sn_lead s \<in> {L_put, L_commit, L_wait, L_clear} \<longrightarrow> sn_head s = word_of_nat (Suc (counted (sn_peers s))))
     \<and> (sn_lead s \<in> {L_at, L_set, L_put, L_commit, L_wait, L_clear, L_rmid} \<longrightarrow> (\<exists>n \<ge> sz. sn_seg s = Some n))
     \<and> (sn_lead s \<in> {L_clear, L_rmid, L_back} \<longrightarrow> set (sn_peers s) \<subseteq> {O_back})
     \<and> (sn_lead s \<in> {L_rmid, L_back} \<longrightarrow> sn_head s = 0)
     \<and> (sn_lead s = L_back \<longrightarrow> sn_seg s = None)"

lemma counted_le: "counted ps \<le> length ps"
  by (simp add: counted_def)

lemma counted_all: "counted ps = length ps \<longleftrightarrow> set ps \<subseteq> {O_back}"
proof -
  have "counted ps = length ps \<longleftrightarrow> (\<forall>p \<in> set ps. p = O_back)" unfolding counted_def
    by (metis (full_types) filter_True length_filter_less less_irrefl)
  then show ?thesis by auto
qed

lemma counted_update: "i < length ps \<Longrightarrow> ps ! i \<noteq> O_back \<Longrightarrow> counted (ps[i := p]) = counted ps + (if p = O_back then 1 else 0)"
proof -
  assume i: "i < length ps" "ps ! i \<noteq> O_back"
  have ps: "ps = take i ps @ ps ! i # drop (Suc i) ps" using i(1) by (rule id_take_nth_drop)
  have "counted ps = counted (take i ps) + counted (drop (Suc i) ps)" by (subst ps) (simp add: counted_def i(2))
  moreover have "counted (ps[i := p]) = counted (take i ps) + counted (drop (Suc i) ps) + (if p = O_back then 1 else 0)"
    unfolding upd_conv_take_nth_drop [OF i(1)] by (simp add: counted_def)
  ultimately show ?thesis by simp
qed

lemma head_full: "ppn < 2 ^ 64 \<Longrightarrow> c < ppn \<Longrightarrow> (word_of_nat (Suc c) :: u64) = word_of_nat ppn \<longleftrightarrow> Suc c = ppn"
proof
  assume "ppn < 2 ^ 64" "c < ppn" "(word_of_nat (Suc c) :: u64) = word_of_nat ppn"
  then have "unat (word_of_nat (Suc c) :: u64) = unat (word_of_nat ppn :: u64)" by (simp only:)
  then show "Suc c = ppn" using \<open>ppn < 2 ^ 64\<close> \<open>c < ppn\<close> by (simp only: unat_of_nat) simp
qed simp

lemma lead_inv:
  assumes p: "ppn < 2 ^ 64" and inv: "shm_inv e ppn sz s" and ok: "e \<or> ok" and r: "lead_step ppn sz ok s = ret s'"
  shows "shm_inv e ppn sz s'"
proof -
  have c: "counted (sn_peers s) < ppn" using inv counted_le [of "sn_peers s"] by (simp add: shm_inv_def)
  have z: "counted (sn_peers s) = 0" if "set (sn_peers s) \<subseteq> {O_ask}" using that by (auto simp: counted_def filter_empty_conv)
  have "set (sn_peers s) \<subseteq> {O_back}" if "sn_lead s = L_wait" "sn_head s = word_of_nat ppn"
    using that inv head_full [OF p c] counted_all [of "sn_peers s"] by (auto simp: shm_inv_def)
  then show ?thesis using inv z ok r unfolding shm_inv_def lead_step_def
    by (cases "sn_lead s") (auto split: if_splits option.splits)
qed

text \<open>A call that does not fail for a reason of its own fails only in the leader, where an old segment is too small.\<close>

lemma lead_fails: "shm_inv e ppn sz s \<Longrightarrow> lead_step ppn sz True s = crash f \<Longrightarrow> sn_lead s = L_get \<and> \<not> fits sz (sn_seg s)"
  by (cases "sn_lead s") (auto simp: lead_step_def fits_def split: option.splits if_splits)

text \<open>Where one of the others has not returned the leader has not left its loop.\<close>

lemma peer_waits:
  assumes inv: "shm_inv e ppn sz s" and i: "i < length (sn_peers s)" "sn_peers s ! i \<noteq> O_back"
  shows "sn_lead s \<notin> {L_clear, L_rmid, L_back}" and "sn_peers s ! i \<noteq> O_ask \<Longrightarrow> sn_put s"
    and "sn_put s \<Longrightarrow> sn_lead s = L_wait \<and> (\<exists>n \<ge> sz. sn_seg s = Some n)"
proof -
  have mem: "sn_peers s ! i \<in> set (sn_peers s)" using i(1) by simp
  show L: "sn_lead s \<notin> {L_clear, L_rmid, L_back}"
  proof
    assume "sn_lead s \<in> {L_clear, L_rmid, L_back}"
    then have "set (sn_peers s) \<subseteq> {O_back}" using inv unfolding shm_inv_def by blast
    then show False using mem i(2) by blast
  qed
  show "sn_peers s ! i \<noteq> O_ask \<Longrightarrow> sn_put s" using mem inv unfolding shm_inv_def by blast
  show "sn_lead s = L_wait \<and> (\<exists>n \<ge> sz. sn_seg s = Some n)" if "sn_put s" using that L inv unfolding shm_inv_def by blast
qed

lemma peer_inv:
  assumes inv: "shm_inv e ppn sz s" and i: "i < length (sn_peers s)" "sn_peers s ! i \<noteq> O_back" and r: "peer_step sz ok i s = ret s'"
  shows "shm_inv e ppn sz s'"
proof (cases "sn_put s")
  case False
  then have "sn_peers s ! i = O_ask" using peer_waits(2) [OF inv i] by blast
  with False inv r show ?thesis by (auto simp: peer_step_def split: if_splits)
next
  case True
  then have w: "sn_lead s = L_wait" using peer_waits(3) [OF inv i] by blast
  with inv have h: "sn_head s = word_of_nat (Suc (counted (sn_peers s)))" by (simp add: shm_inv_def)
  have "shm_inv e ppn sz (s\<lparr>sn_peers := (sn_peers s)[i := p]\<rparr>)" if "p \<noteq> O_back" for p
    using inv w True that counted_update [OF i, of p] by (simp add: shm_inv_def)
  moreover have "shm_inv e ppn sz (s\<lparr>sn_head := sn_head s + 1, sn_peers := (sn_peers s)[i := O_back]\<rparr>)"
    using inv w True h counted_update [OF i, of O_back] by (simp add: shm_inv_def)
  ultimately show ?thesis using r True i(2) inv by (cases "sn_peers s ! i") (auto simp: peer_step_def split: if_splits option.splits)
qed

lemma peer_fails: "shm_inv e ppn sz s \<Longrightarrow> i < length (sn_peers s) \<Longrightarrow> sn_peers s ! i \<noteq> O_back \<Longrightarrow> \<exists>s'. peer_step sz True i s = ret s'"
  using peer_waits(2,3) [of e ppn sz s i] by (cases "sn_peers s ! i") (auto simp: peer_step_def)

lemma step_inv: "shm_step ppn sz ok s (ret s') \<Longrightarrow> ppn < 2 ^ 64 \<Longrightarrow> e \<or> ok \<Longrightarrow> shm_inv e ppn sz s \<Longrightarrow> shm_inv e ppn sz s'"
  by (erule shm_stepE) (auto intro: lead_inv peer_inv)

lemma reach_inv: "shm_reach e ppn sz s \<Longrightarrow> 1 \<le> ppn \<Longrightarrow> ppn < 2 ^ 64 \<Longrightarrow> shm_inv e ppn sz s"
proof (induction rule: shm_reach.induct)
  case (start b w)
  then show ?case by (auto simp: shm_inv_def shm_start_def)
next
  case (step s ok s')
  then show ?case using step_inv [of ppn sz ok s s' e] by auto
qed

section \<open>Progress\<close>

fun lead_left :: "lead_pc \<Rightarrow> nat" where
  "lead_left L_get = 8" | "lead_left L_at = 7" | "lead_left L_set = 6" | "lead_left L_put = 5" | "lead_left L_commit = 4" | "lead_left L_wait = 3"
| "lead_left L_clear = 2" | "lead_left L_rmid = 1" | "lead_left L_back = 0"

fun peer_left :: "peer_pc \<Rightarrow> nat" where
  "peer_left O_ask = 4" | "peer_left O_get = 3" | "peer_left O_at = 2" | "peer_left O_add = 1" | "peer_left O_back = 0"

definition shm_left :: "shm_node \<Rightarrow> nat" where
  "shm_left s = lead_left (sn_lead s) + sum_list (map peer_left (sn_peers s))"

definition shm_done :: "shm_node \<Rightarrow> bool" where
  "shm_done s \<longleftrightarrow> sn_lead s = L_back \<and> set (sn_peers s) \<subseteq> {O_back}"

definition shm_run :: "bool \<Rightarrow> nat \<Rightarrow> nat \<Rightarrow> shm_node \<Rightarrow> shm_node \<Rightarrow> bool" where
  "shm_run e ppn sz = (\<lambda>s s'. \<exists>ok. (e \<or> ok) \<and> shm_step ppn sz ok s (ret s'))\<^sup>*\<^sup>*"

lemma run_step: "shm_step ppn sz ok s (ret t) \<Longrightarrow> e \<or> ok \<Longrightarrow> shm_run e ppn sz t u \<Longrightarrow> shm_run e ppn sz s u"
  unfolding shm_run_def by (rule converse_rtranclp_into_rtranclp) blast+

lemma left_update: "i < length ps \<Longrightarrow> sum_list (map peer_left (ps[i := p])) + peer_left (ps ! i) = sum_list (map peer_left ps) + peer_left p"
  by (induction ps arbitrary: i) (auto split: nat.splits)

lemma upd_left:
  "i < length (sn_peers s) \<Longrightarrow> peer_left p < peer_left (sn_peers s ! i) \<Longrightarrow> shm_left (s\<lparr>sn_peers := (sn_peers s)[i := p]\<rparr>) < shm_left s"
  "i < length (sn_peers s) \<Longrightarrow> peer_left p < peer_left (sn_peers s ! i) \<Longrightarrow> shm_left (s\<lparr>sn_head := h, sn_peers := (sn_peers s)[i := p]\<rparr>) < shm_left s"
  using left_update [of i "sn_peers s" p] by (simp_all add: shm_left_def)

lemma peer_left_less: "peer_step sz ok i s = ret s' \<Longrightarrow> i < length (sn_peers s) \<Longrightarrow> s' = s \<or> shm_left s' < shm_left s"
  using upd_left [of i s] by (cases "sn_peers s ! i") (auto simp: peer_step_def split: if_splits option.splits)

lemma lead_left_less: "lead_step ppn sz ok s = ret s' \<Longrightarrow> s' = s \<or> shm_left s' < shm_left s"
  by (cases "sn_lead s") (auto simp: lead_step_def shm_left_def split: if_splits option.splits)

lemma step_left: "shm_step ppn sz ok s (ret s') \<Longrightarrow> s' = s \<or> shm_left s' < shm_left s"
proof (erule shm_stepE)
  show "ret s' = lead_step ppn sz ok s \<Longrightarrow> ?thesis" using lead_left_less [OF sym] .
  show "ret s' = peer_step sz ok i s \<Longrightarrow> i < length (sn_peers s) \<Longrightarrow> ?thesis" for i using peer_left_less [OF sym] .
qed

text \<open>In a state that is not final somebody can go on: the leader until it waits, then the others, then the leader.\<close>

lemma someone_moves:
  assumes p: "1 \<le> ppn" "ppn < 2 ^ 64" and inv: "shm_inv False ppn sz s" and nd: "\<not> shm_done s"
  shows "\<exists>s'. shm_step ppn sz True s (ret s') \<and> shm_left s' < shm_left s"
proof (cases "sn_lead s = L_wait \<and> sn_head s \<noteq> word_of_nat ppn")
  case True
  then have "Suc (counted (sn_peers s)) \<noteq> ppn" "Suc (length (sn_peers s)) = ppn" "sn_put s" using inv by (auto simp: shm_inv_def)
  then have "\<not> set (sn_peers s) \<subseteq> {O_back}" using counted_all [of "sn_peers s"] by auto
  then obtain x where x: "x \<in> set (sn_peers s)" "x \<noteq> O_back" by blast
  from x(1) obtain i where "i < length (sn_peers s)" "sn_peers s ! i = x" unfolding in_set_conv_nth by blast
  then have i: "i < length (sn_peers s)" "sn_peers s ! i \<noteq> O_back" using x(2) by simp_all
  from peer_fails [OF inv i] obtain s' where s': "peer_step sz True i s = ret s'" by blast
  have "s' \<noteq> s"
  proof
    assume "s' = s"
    moreover have "sn_peers s' ! i \<noteq> sn_peers s ! i" using s' i \<open>sn_put s\<close>
      by (cases "sn_peers s ! i") (auto simp: peer_step_def split: if_splits option.splits)
    ultimately show False by simp
  qed
  then show ?thesis using peer_left_less [OF s' i(1)] shm_step.peer [OF i, of ppn sz True] s' by auto
next
  case False
  have b: "sn_lead s \<noteq> L_back" using inv nd by (auto simp: shm_inv_def shm_done_def)
  obtain s' where s': "lead_step ppn sz True s = ret s'"
    using inv by (cases "sn_lead s"; cases "sn_seg s") (auto simp: lead_step_def shm_inv_def fits_def)
  have "s' \<noteq> s"
  proof
    assume "s' = s"
    moreover have "sn_lead s' \<noteq> sn_lead s" using s' False b by (cases "sn_lead s") (auto simp: lead_step_def split: if_splits option.splits)
    ultimately show False by simp
  qed
  then show ?thesis using lead_left_less [OF s'] shm_step.lead [OF b, of ppn sz True] s' by auto
qed

lemma run_to_end: "1 \<le> ppn \<Longrightarrow> ppn < 2 ^ 64 \<Longrightarrow> shm_inv False ppn sz s \<Longrightarrow> \<exists>t. shm_run False ppn sz s t \<and> shm_done t"
proof (induction "shm_left s" arbitrary: s rule: less_induct)
  case less
  show ?case
  proof (cases "shm_done s")
    case True
    then show ?thesis by (auto simp: shm_run_def)
  next
    case False
    from someone_moves [OF less.prems False] obtain s' where s': "shm_step ppn sz True s (ret s')" "shm_left s' < shm_left s" by blast
    then have "shm_inv False ppn sz s'" using step_inv [OF s'(1) less.prems(2) _ less.prems(3)] by simp
    with less.hyps [OF s'(2) less.prems(1,2)] obtain t where "shm_run False ppn sz s' t" "shm_done t" by blast
    with run_step [OF s'(1), of False t] show ?thesis by blast
  qed
qed

section \<open>Schedules\<close>

text \<open>
  An order of the processes in which no call fails: None is the leader, \<open>Some i\<close> the \<open>i\<close>-th of the others. A process that has returned does nothing.
\<close>

fun shm_exec :: "nat \<Rightarrow> nat \<Rightarrow> nat option list \<Rightarrow> shm_node \<Rightarrow> shm_node outcome" where
  "shm_exec ppn sz [] s = ret s"
| "shm_exec ppn sz (None # os) s = bindO (lead_step ppn sz True s) (shm_exec ppn sz os)"
| "shm_exec ppn sz (Some i # os) s = (if i < length (sn_peers s) then bindO (peer_step sz True i s) (shm_exec ppn sz os) else shm_exec ppn sz os s)"

lemma run_reach: "shm_run e ppn sz s t \<Longrightarrow> shm_reach e ppn sz s \<Longrightarrow> shm_reach e ppn sz t"
  unfolding shm_run_def by (induction rule: rtranclp_induct) (auto intro: shm_reach.step)

lemma lead_run: "lead_step ppn sz True s = ret u \<Longrightarrow> shm_run e ppn sz u t \<Longrightarrow> shm_run e ppn sz s t"
  using run_step [of ppn sz True s u e t] shm_step.lead [of s ppn sz True] by (cases "sn_lead s = L_back") (auto simp: lead_step_def)

lemma peer_run: "i < length (sn_peers s) \<Longrightarrow> peer_step sz True i s = ret u \<Longrightarrow> shm_run e ppn sz u t \<Longrightarrow> shm_run e ppn sz s t"
  using run_step [of ppn sz True s u e t] shm_step.peer [of i s ppn sz True] by (cases "sn_peers s ! i = O_back") (auto simp: peer_step_def)

lemma exec_run: "shm_exec ppn sz os s = ret t \<Longrightarrow> shm_run e ppn sz s t"
proof (induction ppn sz os s rule: shm_exec.induct)
  case (1 ppn sz s)
  then show ?case by (simp add: shm_run_def)
next
  case (2 ppn sz os s)
  then show ?case by (auto simp: bindO_eq_ret intro: lead_run)
next
  case (3 ppn sz i os s)
  then show ?case by (auto simp: bindO_eq_ret intro: peer_run split: if_splits)
qed

section \<open>Properties\<close>

text \<open>C21: in the set-up of the segment, whatever the interleaving of the processes of a node and whatever calls fail, a process aborts only because a call
  fails for a reason of its own or because the leader finds an old segment that is too small: no process looks for the segment before it exists or
  after its name is removed. When the leader returns, all the others have attached the segment, its first word is 0 and its name is removed.
\<close>

theorem shm_join_safe:
  assumes "shm_reach e ppn sz s" and "1 \<le> ppn" and "ppn < 2 ^ 64"
  shows "(shm_step ppn sz ok s (crash f) \<longrightarrow> \<not> ok \<or> (sn_lead s = L_get \<and> \<not> fits sz (sn_seg s)))
    \<and> (sn_lead s = L_back \<longrightarrow> set (sn_peers s) \<subseteq> {O_back} \<and> sn_head s = 0 \<and> sn_seg s = None)"
proof -
  note inv = reach_inv [OF assms]
  have "\<not> ok \<or> (sn_lead s = L_get \<and> \<not> fits sz (sn_seg s))" if "shm_step ppn sz ok s (crash f)"
    using that
  proof (cases rule: shm_step.cases)
    case lead
    then show ?thesis using lead_fails [OF inv, of f] by (cases ok) simp_all
  next
    case (peer i)
    then show ?thesis using peer_fails [OF inv, of i] by (cases ok) auto
  qed
  moreover have "sn_lead s = L_back \<longrightarrow> set (sn_peers s) \<subseteq> {O_back} \<and> sn_head s = 0 \<and> sn_seg s = None"
    using inv unfolding shm_inv_def by blast
  ultimately show ?thesis by blast
qed

text \<open>C22: where no call fails, the processes of the node can finish from every reachable state; every step that is not a repeated look at the name or at the
  word brings them nearer to it, and as long as they have not finished there is such a step.
\<close>

theorem shm_join_completes:
  assumes "shm_reach False ppn sz s" and "1 \<le> ppn" and "ppn < 2 ^ 64"
  shows "(\<exists>t. shm_run False ppn sz s t \<and> shm_done t) \<and> (shm_step ppn sz ok s (ret u) \<longrightarrow> u = s \<or> shm_left u < shm_left s)
    \<and> (shm_done s \<or> (\<exists>v. shm_step ppn sz True s (ret v) \<and> shm_left v < shm_left s))"
  using run_to_end [OF assms(2,3) reach_inv [OF assms]] step_left someone_moves [OF assms(2,3) reach_inv [OF assms]] by blast+

lemma stuck_step:
  assumes "shm_step ppn sz ok s (ret t)" and "sn_lead s = L_wait" "length (sn_peers s) < ppn" "ppn < 2 ^ 64"
    and h: "sn_head s = word_of_nat h" "h + (length (sn_peers s) - counted (sn_peers s)) < ppn"
  shows "sn_lead t = L_wait \<and> length (sn_peers t) < ppn \<and> (\<exists>h'. sn_head t = word_of_nat h' \<and> h' + (length (sn_peers t) - counted (sn_peers t)) < ppn)"
  using assms(1)
proof (cases rule: shm_step.cases)
  case lead
  have "sn_head s \<noteq> word_of_nat ppn"
  proof
    assume "sn_head s = word_of_nat ppn"
    then have "unat (word_of_nat h :: u64) = unat (word_of_nat ppn :: u64)" using h(1) by simp
    then show False using h(2) assms(4) by (simp only: unat_of_nat) simp
  qed
  then show ?thesis using lead assms(2,3) h by (auto simp: lead_step_def)
next
  case (peer i)
  have c: "counted ((sn_peers s)[i := p]) = counted (sn_peers s) + (if p = O_back then 1 else 0)" for p using counted_update [OF peer(2,3)] .
  have lt: "counted (sn_peers s) < length (sn_peers s)" using c [of O_back] counted_le [of "(sn_peers s)[i := O_back]"] by simp
  have bk: "sn_head s + 1 = word_of_nat (Suc h)" using h(1) by simp
  show ?thesis
  proof (cases "sn_peers s ! i")
    case O_add
    then have "t = s\<lparr>sn_head := sn_head s + 1, sn_peers := (sn_peers s)[i := O_back]\<rparr>" using peer(1) by (simp add: peer_step_def)
    then show ?thesis using assms(2,3) h(2) c [of O_back] lt bk by (auto intro!: exI [of _ "Suc h"])
  qed (use peer assms(2,3) h c in \<open>auto simp: peer_step_def split: if_splits option.splits\<close>)
qed

text \<open>C23: but a process other than the leader returns before the word is reset: when it clears the memory it was given while the leader still waits, the
  leader waits for ever, whatever the others do and whatever calls fail.
\<close>

theorem early_clear_hangs:
  assumes "shm_reach e ppn sz s" and "1 \<le> ppn" and "ppn < 2 ^ 64" and "sn_lead s = L_wait" and "i < length (sn_peers s)" and "sn_peers s ! i = O_back"
    and "shm_run e ppn sz (s\<lparr>sn_head := 0\<rparr>) t"
  shows "sn_lead t = L_wait"
proof -
  have l: "Suc (length (sn_peers s)) = ppn" using reach_inv [OF assms(1-3)] by (simp add: shm_inv_def)
  have "counted (sn_peers s) \<noteq> 0" using nth_mem [OF assms(5)] assms(6) by (auto simp: counted_def filter_empty_conv)
  then have "0 + (length (sn_peers s) - counted (sn_peers s)) < ppn" using l by simp
  then have start: "sn_lead (s\<lparr>sn_head := 0\<rparr>) = L_wait \<and> length (sn_peers (s\<lparr>sn_head := 0\<rparr>)) < ppn
      \<and> (\<exists>h. sn_head (s\<lparr>sn_head := 0\<rparr>) = word_of_nat h \<and> h + (length (sn_peers (s\<lparr>sn_head := 0\<rparr>)) - counted (sn_peers (s\<lparr>sn_head := 0\<rparr>))) < ppn)"
    using assms(4) l by (auto intro!: exI [of _ 0])
  from assms(7) [unfolded shm_run_def] start have "sn_lead t = L_wait \<and> length (sn_peers t) < ppn
      \<and> (\<exists>h. sn_head t = word_of_nat h \<and> h + (length (sn_peers t) - counted (sn_peers t)) < ppn)"
  proof (induction rule: rtranclp_induct)
    case (step t u)
    then obtain h where h: "sn_lead t = L_wait" "length (sn_peers t) < ppn" "sn_head t = word_of_nat h" "h + (length (sn_peers t) - counted (sn_peers t)) < ppn" by blast
    from step(2) obtain ok where "shm_step ppn sz ok t (ret u)" by blast
    from stuck_step [OF this h(1,2) assms(3) h(3,4)] show ?case by blast
  qed
  then show ?thesis by blast
qed

theorem shm_join_safe_witness:
  "\<exists>s t. shm_reach True 3 100 s \<and> shm_step 3 100 True s (crash Aborted) \<and> sn_lead s = L_get \<and> \<not> fits 100 (sn_seg s)
    \<and> shm_reach True 3 100 t \<and> \<not> shm_step 3 100 True t (crash Aborted) \<and> sn_lead t = L_back \<and> set (sn_peers t) \<subseteq> {O_back} \<and> sn_head t = 0 \<and> sn_seg t = None"
proof -
  let ?s = "shm_start 3 99 (Some 10)"
  have s: "shm_reach True 3 100 ?s" by (rule shm_reach.start) simp
  have "lead_step 3 100 True ?s = crash Aborted" by (simp add: lead_step_def shm_start_def)
  then have a: "shm_step 3 100 True ?s (crash Aborted)" using shm_step.lead [of ?s 3 100 True] by (simp add: shm_start_def)
  let ?t = "\<lparr>sn_head = 0, sn_seg = None, sn_val = True, sn_put = True, sn_lead = L_back, sn_peers = [O_back, O_back]\<rparr>"
  have "shm_exec 3 100 ([Some 0, None, None, None, None, None] @ replicate 4 (Some 0) @ [None] @ replicate 4 (Some 1) @ [None, None, None]) (shm_start 3 7 (Some 200)) = ret ?t"
    by code_simp
  then have t: "shm_reach True 3 100 ?t" by (rule run_reach [OF exec_run shm_reach.start]) simp
  from shm_join_safe [OF s, of True Aborted] shm_join_safe [OF t, of True Aborted] a s t show ?thesis by (intro exI [of _ ?s] exI [of _ ?t]) auto
qed

theorem shm_join_completes_witness:
  "\<exists>t. shm_run False 3 100 (shm_start 3 0 None) t \<and> shm_done t"
proof -
  have "shm_reach False 3 100 (shm_start 3 0 None)" by (rule shm_reach.start) (simp add: fits_def)
  from shm_join_completes [OF this] show ?thesis by simp
qed

theorem early_clear_hangs_witness:
  "\<exists>s t. shm_reach False 3 100 s \<and> sn_peers s = [O_back, O_get] \<and> shm_exec 3 100 [Some 1, None, Some 1, Some 1, None, None] (s\<lparr>sn_head := 0\<rparr>) = ret t
    \<and> sn_peers t = [O_back, O_back] \<and> sn_lead t = L_wait"
proof -
  let ?s = "\<lparr>sn_head = 2, sn_seg = Some 100, sn_val = True, sn_put = True, sn_lead = L_wait, sn_peers = [O_back, O_get]\<rparr>"
  let ?t = "\<lparr>sn_head = 1, sn_seg = Some 100, sn_val = True, sn_put = True, sn_lead = L_wait, sn_peers = [O_back, O_back]\<rparr>"
  have "shm_exec 3 100 [None, None, None, None, None, Some 0, Some 0, Some 0, Some 1, None, Some 0] (shm_start 3 7 None) = ret ?s" by code_simp
  then have r: "shm_reach False 3 100 ?s" by (rule run_reach [OF exec_run shm_reach.start]) (simp add: fits_def)
  have e: "shm_exec 3 100 [Some 1, None, Some 1, Some 1, None, None] (?s\<lparr>sn_head := 0\<rparr>) = ret ?t" by code_simp
  have "shm_run False 3 100 (?s\<lparr>sn_head := 0\<rparr>) ?t" by (rule exec_run [OF e])
  from early_clear_hangs [OF r _ _ _ _ _ this, of 0] e r show ?thesis by (intro exI [of _ ?s] exI [of _ ?t]) simp
qed

end
