(* ===== verification/Spec2Isabelle.thy ===== *)
theory Spec2Isabelle
  imports Utf_Engine Vbg_Tree_Props Mpi_Coll_Props Utf_Start Utf_Shm
begin

text \<open>
  A verification development of UTF, a low-level communication library for the Tofu
  interconnect: two-sided messages between the processes of a job (\<open>src/src/base\<close>,
  \<open>src/src/include\<close>), collectives over virtual barrier gates (\<open>src/src/vbg\<close>), and the MPI functions
  that use them in front of an MPI library (\<open>src/src/mpi_vbg\<close>).

  \<^bold>\<open>The parts of the program.\<close> A process sends with \<open>utf_send\<close>: a request is taken from a pool, the
  message is entered in the ring of its destination's send control and given to the send
  engine, which puts packets of 256 bytes into the receive buffer of the other process, or,
  for a long message, a control packet from which the receiver fetches the message with remote gets
  (rendezvous). \<open>utf_progress\<close> looks for packets and completion notices and gives them to
  the receive engine and the send engine. The receive engine matches the first packet of a
  message with the posted receives, or enters it in the list of unexpected messages, where
  \<open>utf_recv\<close> looks first. The collectives encode the caller's elements into up to six
  64-bit words, give them to a barrier gate of the network interface, or first combine them
  among the processes of the node through shared memory, and decode the words of the answer. The MPI functions make one
  group of all processes in \<open>MPI_Init\<close>, keep the ranks of every group and communicator in tables, and run barriers, broadcasts and reductions on the
  barrier group of the communicator where it has one and the operation is one of UTF's.

  \<^bold>\<open>Messages.\<close> \<open>UTF_Prelude\<close>: words as bytes, parts of byte lists, outcomes (a value, or the reason why the
  program stops or leaves its memory). \<open>Utf_List\<close>: the intrusive lists of
  \<open>utf_list.h\<close> over a store of links, with the lists they represent. \<open>Utf_Queue\<close>: header, packet, message lists and the
  matching functions of \<open>utf_queue.h\<close>. \<open>Utf_Req\<close>: the request
  pool of \<open>utf_msgmacros.h\<close> and \<open>utf_mem.c\<close>. \<open>Utf_Nic\<close>: the calls of the network
  interface, which are parameters (the record \<open>utofu\<close>), and the retry macro of \<open>utf_errmacros.h\<close>. \<open>Utf_State\<close>: the globals of
  a process as one record, and their initialisation, \<open>utf_mem_init\<close>. \<open>Utf_Recv\<close>: the receive engine and the remote gets
  of \<open>utf_engine.c\<close> and \<open>utf_msgmacros.h\<close>; \<open>Utf_Rndz\<close> the properties of a
  rendezvous. \<open>Utf_Send\<close>: message setup (\<open>utf_msg.c\<close>) and the send engine (\<open>utf_engine.c\<close>);
  \<open>Utf_Send_Props\<close> its properties. \<open>Utf_Engine\<close>: completion notices, \<open>utf_progress\<close>, and the calls of the user.

  \<^bold>\<open>Collectives.\<close> \<open>Vbg_State\<close>: codes, the poll information, the part of a group that the
  collectives read, the gates as parameters (the record \<open>vbgapi\<close>, which also holds the
  floating-point unit). \<open>Vbg_Result\<close>: the macros of
  \<open>utf_bg_barrier.h\<close> that decode a result, and the poll functions. \<open>Vbg_Sm\<close>: the poll
  functions of \<open>utf_bg_barrier_sm.c\<close>. \<open>Vbg_Reduce\<close>: barrier, broadcast, reduce and allreduce of
  \<open>utf_bg_barrier.c\<close>. \<open>Vbg_Tree\<close>: the processes of a node as an inductive step relation whose steps are the
  iterations of the loop of \<open>Vbg_Sm\<close>.

  \<^bold>\<open>Groups.\<close> \<open>Vbg_Net\<close>: coordinates, gate identifiers and the words that the processes of a
  group exchange. \<open>Vbg_Axes\<close>: the nodes and lines of a group. \<open>Vbg_Butterfly\<close>: the send and receive
  sequence of a process and its optimisation; \<open>Vbg_Butterfly_Props\<close> its tables. \<open>Vbg_Group\<close>:
  allocation and connection of the gates, \<open>utf_bg_alloc\<close>. \<open>Vbg_Init\<close>: \<open>utf_bg_init\<close> and \<open>utf_bg_free\<close>. Their properties are built up in steps:
  \<open>Vbg_Grid\<close> (the butterfly on an abstract grid of processes combines all values), \<open>Vbg_Optimise\<close> (the rows that the optimisation keeps),
  \<open>Vbg_Rows\<close> (the rows of the code are those of the grid), \<open>Vbg_Gates\<close> (a gate has the value of its process), \<open>Vbg_Wiring\<close> (the settings
  of the gates are the links of the butterfly), \<open>Vbg_Network\<close> (what gates with such settings compute), \<open>Vbg_Box\<close> (the processes of a box of nodes are
  a grid) and \<open>Vbg_Group_Props\<close> (the calls together).

  \<^bold>\<open>MPI.\<close> \<open>Mpi_Tables\<close>: the tables of \<open>commgroup.c\<close>, for handles of any width; with handles of four bytes (MPICH) the entries of the array of
  communicators overlap. Their contract are association lists from handles to ranks, as the locales \<open>handle_lookup\<close> and \<open>handle_table\<close>: \<open>Mpi_Groups\<close> for
  the groups, whatever the width, \<open>Mpi_Handles\<close> for the communicators where the entries are apart, \<open>Mpi_Coms\<close> for what remains true of the communicators for every
  width, \<open>Mpi_Narrow\<close> for what happens with four bytes. \<open>Mpi_Utf\<close>: the functions of \<open>mpi_utf.c\<close>; the MPI library is the record \<open>pmpi\<close> of parameters. \<open>Mpi_Props\<close>: groups and communicators; \<open>Mpi_Coll_Props\<close>: collectives, start and end.

  \<^bold>\<open>Start and end.\<close> \<open>Utf_Tofu\<close>: the interface and queue of a process (\<open>utf_tofu.h\<close>) and the names of nodes. \<open>Utf_Procmap\<close>: the process
  map of \<open>utf_procmap.c\<close>; PMIx, jtofu, uTofu and the operating system are the record \<open>jlib\<close> of parameters. \<open>Utf_Procmap_Props\<close> its properties.
  \<open>Utf_Shm\<close>: how the processes of a node make a shared segment (\<open>utf_shm_init_internal\<close>), as interleaved steps, with the calls that may fail and the
  aborts that follow. \<open>Utf_Timer\<close>: the timers of \<open>utf_timer.h\<close> and \<open>utf_init.c\<close>. \<open>Utf_Start\<close>: \<open>utf_init\<close> and \<open>utf_finalize\<close>, which put these and the memory of the engines together.

  \<^bold>\<open>What the theorems show.\<close>
  \<^item> A message of several packets arrives: below, from the memory of the sender to that of the
    receiver through all the engines; in \<open>Utf_Send_Props\<close> and \<open>Utf_Recv\<close> for the two sides, in \<open>Utf_Rndz\<close> for the rendezvous.
  \<^item> The matching functions refine the abstract first-match on lists, in the order of arrival, with
    the cases in which the plain functions do not (\<open>Utf_Queue\<close>, over the lists of \<open>Utf_List\<close>).
  \<^item> Invariants: the request pool, the rings of queued messages, the state after initialisation.
  \<^item> The reductions MAX, MIN, the logical operations and broadcast give what they mean on the caller's types
    (\<open>Vbg_Reduce_Props\<close>, \<open>Vbg_Logical\<close>, \<open>Vbg_Collectives\<close>), over a gate that combines the
    words posted to it. The codes are shown to be order embeddings once, in the locale \<open>max_code\<close> of \<open>Vbg_Codes\<close>,
    interpreted for the integer and the floating-point code.
  \<^item> The shared-memory collectives are correct under every interleaving and cannot be stuck (\<open>Vbg_Tree_Props\<close>, over the locales
    \<open>node_op\<close> and \<open>assoc_op\<close>, interpreted for the operations of the code).
  \<^item> The barrier network of a group is right: \<open>utf_bg_alloc\<close> and \<open>utf_bg_init\<close> of all processes give the gates settings
    with which every process ends with the values of all processes, each taken once (\<open>Vbg_Group_Props\<close>). A gate is
    read as uTofu describes it: it waits for the sources of its setting and passes their combination to its destinations.
  \<^item> The MPI layer on top of that: \<open>MPI_Init\<close> and \<open>MPI_Finalize\<close> set up and take down this network, \<open>MPI_Bcast\<close> delivers the bytes of the root
    (\<open>Mpi_Coll_Props\<close>), the functions on groups enter what the MPI standard says, and the tables stay well-formed under every sequence of calls (\<open>Mpi_Props\<close>). All of
    these hold for handles of four bytes as well as of eight.
  \<^item> The start: every process gets the map of the job, no two processes share a queue (\<open>Utf_Procmap_Props\<close>), the shared segment of a node
    is set up under every interleaving (\<open>Utf_Shm\<close>), the engines begin with full pools and empty queues, and after the end the library cannot be
    started again (\<open>Utf_Start\<close>).
  \<^item> Boundary cases in which the code does not do what it means to: each is a theorem of the
    theory that models the code. Where such a case limits a property on the right cases (an open source or tag of a plain receive, a plain message longer than the
    buffer, a logical reduction of no element), the text of the property names the case and the line.

  \<^bold>\<open>Bounds and loops.\<close> Machine words have their width where the code computes with them; sizes are natural
  numbers, reduced modulo \<open>2 ^ 64\<close> where a product may wrap. Loops over lists and buffers are structural. The loops that wait
  (the retry macro, the collecting loop of the shared-memory polls) are partial functions into
  \<open>option\<close>, with theorems that they return.

  \<^bold>\<open>Not modelled.\<close> Output for debugging and the redirection of the error output, the reading of the cycle counter, the conversion of the reported
  times to microseconds, the simulator of uTofu and PMIx, tests and experiments.\<close>

section \<open>From the sender's memory to the receiver's\<close>

text \<open>The packets of the sender, taken as they were put, by the receiver.\<close>

lemma egr_pkts_later:
  assumes "list_all2 (\<lambda>o1 p. egr_pkt h (chunk_at data o1) p) (chunk_offs (length data) n) ps" and "h_flgs h = 0" and "x \<in> set ps"
  shows "pkt_chunk x \<noteq> []"
proof -
  from assms(1,3) obtain o1 where o: "o1 \<in> set (chunk_offs (length data) n)" and e: "egr_pkt h (chunk_at data o1) x"
    by (auto simp: list_all2_conv_all_nth in_set_conv_nth) (metis nth_mem)
  have "o1 < length data" using o by (induction "length data" n rule: chunk_offs.induct) (subst (asm) (2) chunk_offs.simps, auto split: if_splits)
  then have "length (chunk_at data o1) \<noteq> 0" by (simp add: chunk_at_def bytes_at_def msg_size_defs)
  moreover have "length (chunk_at data o1) \<le> MSG_PYLDSZ" by (simp add: chunk_at_def bytes_at_def)
  ultimately show ?thesis using egr_pkt_chunk(1) [OF e assms(2)] by auto
qed

text \<open>C1: an eager message of several packets travels from the sender's memory into the receiver's:
  the packets that \<open>utf_send\<close>'s setup and the send engine put one after the other, given in
  that order to the receive engine of a process that has no matching receive posted, and
  then fetched by \<open>utf_recv\<close> with the sender's rank and tag, leave exactly the sender's bytes,
  cut to the posted length, in the receiver's buffer; no other user memory changes.\<close>

theorem eager_message_delivered:
  assumes U: "accepting U P"
    and sz: "unat sz = length data" "MSG_EAGER_SIZE < length data" "length data < 2 ^ 31" and md: "mode_msg s \<noteq> MSG_RENDEZOUS"
    and blk: "mem s (fst a) = Some blk" "snd a + length data \<le> length blk" "bytes_at blk (snd a) (length data) = data"
    and k: "unat (s_micur (scntr s u)) = k" "k < length (s_msginfo (scntr s u))" and b: "length (pyld (sbuf s b)) = MSG_PYLDSZ"
    and ok: "utf_sndmgt_isset_sndok (unat (s_dst (scntr s u))) (egrmgt_tab s)"
    and rm: "unat (s_recvidx (scntr s u)) = r" "r + length (chunk_offs (length data) 0) \<le> COM_RBUF_SIZE" and base: "rbuf_in_range s"
    and tg: "tag = ucast (word_of_int tg :: u32)" "word_of_int tg \<noteq> (-1 :: u32)"
    and t: "u_state (rcntr t j) = R_NONE"
    and q: "msgq_inv (queues t) Q" "Q Utf_msglst_freelst = m # fs"
    and noexp: "\<forall>x \<in> set (Q Utf_explst). \<not> exp_test 0 (msg_hdr (word_of_int rank) tag sz) (msl (queues t) x)"
    and nouexp: "\<forall>x \<in> set (Q Utf_uexplst). \<not> utf_wanted (word_of_int rank) (word_of_int tg) (ml_hdr (msl (queues t) x))"
    and rp: "req_inv (reqs t) (i # F) S R" "card R \<le> MSGREQ_RECV_SZ" and i: "i < 2 ^ 31"
    and mal: "u_malloc_ok V sz (world t)"
    and ub: "mem t ub = Some m0" "uo + min (unat rsz) (length data) \<le> length m0" "ub \<noteq> next_blk t"
  shows "\<exists>s1 s2 ps s' t1 t2. minfo_setup U u k rank tag sz a b i0 s = ret s1 \<and> utf_send_start U u k s1 = ret (0, s2)
    \<and> send_run (length (chunk_offs (length data) MSG_PYLDSZ)) U u b s2 = ret (ps, s')
    \<and> recv_all V j (sbuf s2 b # ps) t = ret t1
    \<and> utf_recv V (ub, uo) rsz rank tg (reqid_const 0) t1 = ret (UTF_MSG_AVL, (reqid_const 0)\<lparr>reqid1 := word_of_nat i\<rparr>, t2)
    \<and> mem t2 ub = Some (overwrite m0 uo (take (unat rsz) data)) \<and> (\<forall>c. c \<noteq> ub \<longrightarrow> c \<noteq> next_blk t \<longrightarrow> mem t2 c = mem t c)"
proof -
  let ?h = "msg_hdr (word_of_int rank) tag sz"
  have h0: "h_flgs ?h = 0" "h_rndz ?h = 0" "h_src ?h = word_of_int rank" "h_tag ?h = tag" "h_size ?h = ucast sz"
    by (simp_all add: msg_hdr_def set_hall_def)
  have L35: "length data < 2 ^ 35" using sz(3) by simp
  from eager_long_packets [OF U sz(1,2) L35 md blk k b ok rm base, of rank tag i0] obtain s1 s2 ps s' where
    run: "minfo_setup U u k rank tag sz a b i0 s = ret s1" "utf_send_start U u k s1 = ret (0, s2)"
      "send_run (length (chunk_offs (length data) MSG_PYLDSZ)) U u b s2 = ret (ps, s')"
    and ps: "list_all2 (\<lambda>o1 p. egr_pkt ?h (chunk_at data o1) p) (chunk_offs (length data) 0) (sbuf s2 b # ps)" by blast
  let ?p = "sbuf s2 b"
  have dat: "pkt_chunk ?p @ concat (map pkt_chunk ps) = data"
    using egr_pkts_concat [OF ps h0(1)] chunk_offs_concat [of 0 data] by (metis concat.simps(2) drop0 le0 list.simps(9))
  have wf: "wf_eager_pkt 0 ?p" "\<forall>x \<in> set ps. wf_eager_pkt 0 x \<and> pkt_chunk x \<noteq> []"
    using egr_pkts_wf [OF ps h0(1)] egr_pkts_later [OF ps h0(1)] by (auto simp: list_all_iff)
  have hp: "(hdr ?p)\<lparr>h_pyldsz := 0\<rparr> = ?h\<lparr>h_pyldsz := 0\<rparr>" using egr_pkts_wf [OF ps h0(1)] by simp
  have hs: "h_rndz (hdr ?p) = 0" "h_src (hdr ?p) = word_of_int rank" "h_tag (hdr ?p) = tag" "h_size (hdr ?p) = ucast sz"
    using arg_cong [where f = h_rndz, OF hp] arg_cong [where f = h_src, OF hp] arg_cong [where f = h_tag, OF hp]
      arg_cong [where f = h_size, OF hp] h0 by simp_all
  have us: "unat (ucast sz :: 35 word) = length data" using sz(1) L35 by (simp add: unsigned_ucast_eq take_bit_nat_eq_self)
  have ucs: "ucast (ucast sz :: 35 word) = sz" by (rule word_unat_eq_iff [THEN iffD2]) (simp add: unat_ucast_up us sz(1))
  have ne: "\<forall>x \<in> set (Q (exp_list 0)). \<not> exp_test 0 (hdr ?p) (msl (queues t) x)"
    using noexp hs h0 by (simp add: exp_test_def exp_list_def)
  have pre: "u_malloc_ok V (ucast (h_size (hdr ?p))) (world t)" "(0 :: 6 word) \<noteq> 0 \<longrightarrow> \<not> r_overrun (req_of t i)"
    "unat (h_size (hdr ?p)) = length data" using mal us hs(4) ucs by simp_all
  from unexpected_received [OF t q ne rp i pre(1,2) wf(1) hs(1) pre(3) wf(2) dat] obtain t1 where
    t1: "recv_all V j (?p # ps) t = ret t1" "msg_received t1 i j" "r_buf (req_of t1 i) = Some (next_blk t, 0)"
      "mem t1 (next_blk t) = Some data" "\<forall>c. c \<noteq> next_blk t \<longrightarrow> mem t1 c = mem t c" "r_hdr (req_of t1 i) = hdr ?p" "r_rndz (req_of t1 i) = 0"
    and q1: "msgq_inv (queues t1) (Q(Utf_uexplst := Q Utf_uexplst @ [m], Utf_msglst_freelst := fs))"
    and env: "msl_env (msl (queues t1) m) = (hdr ?p, word_of_nat i)" and oth: "\<forall>x. x \<noteq> m \<longrightarrow> msl (queues t1) x = msl (queues t) x"
    unfolding uexp_list_def by (simp only: if_True simp_thms) blast
  have dis: "x \<in> set (Q Utf_uexplst) \<Longrightarrow> x \<noteq> m" for x
    using msgq_inv_disjoint [OF q(1), of Utf_uexplst Utf_msglst_freelst] q(2) by auto
  have s31: "sint (word_of_nat i :: u32) = int i"
  proof -
    have "uint (word_of_nat i :: u32) = int i" using i by (simp add: unsigned_of_nat take_bit_nat_eq_self)
    then show ?thesis unfolding sint_uint using signed_take_bit_int_eq_self [of 31 "int i"] i by simp
  qed
  obtain t2 where "utf_recv V (ub, uo) rsz rank tg (reqid_const 0) t1 = ret (UTF_MSG_AVL, (reqid_const 0)\<lparr>reqid1 := word_of_nat i\<rparr>, t2)"
    "mem t2 = (mem t1)(ub := Some (overwrite m0 uo (take (min (unat rsz) (length data)) data)), next_blk t := None)"
  proof -
    have "\<exists>t2. utf_recv V (ub, uo) rsz rank tg (reqid_const 0) t1 = ret (UTF_MSG_AVL, (reqid_const 0)\<lparr>reqid1 := word_of_nat i\<rparr>, t2)
      \<and> mem t2 = (mem t1)(ub := Some (overwrite m0 uo (take (min (unat rsz) (length data)) data)), next_blk t := None) \<and> r_state (req_of t2 i) = REQ_DONE
      \<and> msgq_inv (queues t2) ((Q(Utf_uexplst := Q Utf_uexplst @ [m], Utf_msglst_freelst := fs))(Utf_uexplst := Q Utf_uexplst @ [],
          Utf_msglst_freelst := m # (Q(Utf_uexplst := Q Utf_uexplst @ [m], Utf_msglst_freelst := fs)) Utf_msglst_freelst))"
    proof (rule utf_recv_takes [OF q1])
      show "\<not> utf_wanted (word_of_int rank) (word_of_int tg) (ml_hdr (msl (queues t1) x))" if "x \<in> set (Q Utf_uexplst)" for x
        using that nouexp oth dis by simp
      show "utf_wanted (word_of_int rank) (word_of_int tg) (ml_hdr (msl (queues t1) m))"
        using env hs tg by (simp add: utf_wanted_def msl_env_def)
    qed (use t1 env ub tg sz hs us s31 in \<open>simp_all add: msl_env_def msg_received_def\<close>)
    then show ?thesis using that by blast
  qed
  moreover from this have "mem t2 ub = Some (overwrite m0 uo (take (unat rsz) data))"
    "\<forall>c. c \<noteq> ub \<longrightarrow> c \<noteq> next_blk t \<longrightarrow> mem t2 c = mem t c" using ub t1(5) by (simp_all add: min_def)
  ultimately show ?thesis using run t1(1) by blast
qed

theorem eager_message_delivered_witness:
  "\<exists>s s1 s2 ps s' t1 t2. utf_mem_init ready_nic (utf_static 0 2 5 7 [7, 8] sim0) = ret s
    \<and> minfo_setup ready_nic 0 0 0 5 500 (0, 0) 0 0 (demo_sender s) = ret s1 \<and> utf_send_start ready_nic 0 0 s1 = ret (0, s2)
    \<and> send_run 2 ready_nic 0 0 s2 = ret (ps, s')
    \<and> recv_all ready_nic 125 (sbuf s2 0 # ps) (s\<lparr>mem := [1 \<mapsto> replicate 600 9]\<rparr>) = ret t1
    \<and> utf_recv ready_nic (1, 50) 500 0 5 (reqid_const 0) t1 = ret (UTF_MSG_AVL, reqid_const 0, t2)
    \<and> mem t2 1 = Some (overwrite (replicate 600 9) 50 (replicate 500 7))"
proof -
  have "reg_works ready_nic" by (simp add: reg_works_def ready_nic_def sim_nic_def)
  from mem_init_fresh [OF this, of 0 2 5 7 "[7, 8]" sim0] obtain s where
    s: "utf_mem_init ready_nic (utf_static 0 2 5 7 [7, 8] sim0) = ret s" and f: "utf_fresh s" by blast
  have c: "scntr (demo_sender s) 0 = zero_scntr\<lparr>s_mypos := 0\<rparr>" using f by (simp add: utf_fresh_def demo_sender_def)
  let ?t = "s\<lparr>mem := [1 \<mapsto> replicate 600 9]\<rparr>"
  have q: "msgq_inv (queues ?t) ((\<lambda>_. [])(Utf_msglst_freelst := 0 # [1..<MSGLST_SIZE]))"
    and rp: "req_inv (reqs ?t) (0 # [1..<MSGREQ_SIZE]) {} {}" and st: "u_state (rcntr ?t 125) = R_NONE" "next_blk ?t = 0"
    using f upt_MSGLST upt_MSGREQ by (simp_all add: utf_fresh_def)
  have P: "MSG_PYLDSZ = 236" by (simp add: msg_size_defs)
  have "\<exists>s1 s2 ps s' t1 t2. minfo_setup ready_nic 0 0 0 5 500 (0, 0) 0 0 (demo_sender s) = ret s1 \<and> utf_send_start ready_nic 0 0 s1 = ret (0, s2)
    \<and> send_run (length (chunk_offs (length (replicate 500 (7 :: u8))) MSG_PYLDSZ)) ready_nic 0 0 s2 = ret (ps, s')
    \<and> recv_all ready_nic 125 (sbuf s2 0 # ps) ?t = ret t1
    \<and> utf_recv ready_nic (1, 50) 500 0 5 (reqid_const 0) t1 = ret (UTF_MSG_AVL, (reqid_const 0)\<lparr>reqid1 := word_of_nat 0\<rparr>, t2)
    \<and> mem t2 1 = Some (overwrite (replicate 600 9) 50 (take (unat (500 :: u64)) (replicate 500 7)))
    \<and> (\<forall>c. c \<noteq> 1 \<longrightarrow> c \<noteq> next_blk ?t \<longrightarrow> mem t2 c = mem ?t c)"
    by (rule eager_message_delivered [OF ready_nic_accepting, where Q = "(\<lambda>_. [])(Utf_msglst_freelst := 0 # [1..<MSGLST_SIZE])"
        and blk = "replicate 500 7" and r = 0 and m = 0 and fs = "[1..<MSGLST_SIZE]" and i = 0 and F = "[1..<MSGREQ_SIZE]" and S = "{}" and R = "{}"])
      (use c q rp st demo_chunks in \<open>simp_all add: demo_sender_def zero_scntr_def rbuf_in_range_def bytes_at_def sndmgt_defs msg_size_defs
        MSG_RENDEZOUS_def COM_RBUF_SIZE_def COM_SCNTR_MINF_SZ_def ready_nic_def sim_nic_def\<close>)
  then show ?thesis using s demo_chunks by (simp add: P reqid_const_def) blast
qed

end
